(* ===== verification/Prelude.thy ===== *)
theory Prelude
  imports Main
begin

text \<open>
  Generic material every component of the development uses: results that carry an error
  (\<open>'e + 'a\<close>, with \<open>Inl\<close> for Rust's \<open>Err\<close> and \<open>Inr\<close> for \<open>Ok\<close>), facts about \<open>take\<close>,
  \<open>drop\<close> and \<open>takeWhile\<close> for cursors that move over a list, and the collections of rules the
  component theories fill.
\<close>

section \<open>Rule collections\<close>

text \<open>
  \<open>cursor_simps\<close>: equations that evaluate a cursor (a lexer or a parser state) symbolically;
  \<open>progress_intros\<close>: a parser action keeps the tokens and does not move the cursor back;
  \<open>runs_intros\<close>: a parser action accepts the rendering of a syntax element.
\<close>

named_theorems cursor_simps
named_theorems progress_intros
named_theorems runs_intros

section \<open>Results\<close>

lemma Inr_case_sum_iff:
  "(case r of Inl e \<Rightarrow> Inl e | Inr a \<Rightarrow> f a) = Inr b \<longleftrightarrow> (\<exists>a. r = Inr a \<and> f a = Inr b)"
  by (cases r) auto

lemma Inl_case_sum_iff:
  "(case r of Inl e \<Rightarrow> Inl e | Inr a \<Rightarrow> f a) = Inl e' \<longleftrightarrow>
     r = Inl e' \<or> (\<exists>a. r = Inr a \<and> f a = Inl e')"
  by (cases r) auto

text \<open>The \<open>?\<close> operator.\<close>

definition res_bind :: "'e + 'a \<Rightarrow> ('a \<Rightarrow> 'e + 'b) \<Rightarrow> 'e + 'b" where
  "res_bind r f = (case r of Inl e \<Rightarrow> Inl e | Inr a \<Rightarrow> f a)"

lemma res_bind_simps [simp]: "res_bind (Inl e) f = Inl e" "res_bind (Inr a) f = f a"
  by (simp_all add: res_bind_def)

lemma res_bind_Inr: "res_bind r f = Inr b \<longleftrightarrow> (\<exists>a. r = Inr a \<and> f a = Inr b)"
  by (cases r) auto

text \<open>\<open>iter().map(f).collect::<Result<Vec<_>, _>>()\<close>: the first error, or all the values.\<close>

fun result_map :: "('a \<Rightarrow> 'e + 'b) \<Rightarrow> 'a list \<Rightarrow> 'e + 'b list" where
  "result_map f [] = Inr []"
| "result_map f (x # xs) =
     (case f x of
        Inl e \<Rightarrow> Inl e
      | Inr y \<Rightarrow> (case result_map f xs of Inl e \<Rightarrow> Inl e | Inr ys \<Rightarrow> Inr (y # ys)))"

lemma result_map_cong [fundef_cong]:
  "xs = ys \<Longrightarrow> (\<And>x. x \<in> set ys \<Longrightarrow> f x = g x) \<Longrightarrow> result_map f xs = result_map g ys"
  by (induction xs arbitrary: ys) (auto split: sum.split)

lemma result_map_Inr:
  "result_map f xs = Inr ys \<longleftrightarrow> list_all2 (\<lambda>x y. f x = Inr y) xs ys"
proof (induction xs arbitrary: ys)
  case (Cons x xs)
  have "result_map f (x # xs) = Inr ys \<longleftrightarrow>
      (\<exists>y zs. f x = Inr y \<and> result_map f xs = Inr zs \<and> ys = y # zs)"
    by (auto split: sum.splits)
  then show ?case by (auto simp only: Cons.IH list_all2_Cons1)
qed auto

section \<open>Maps to lists\<close>

text \<open>\<open>map.entry(key).or_default().push(x)\<close>.\<close>

definition entry_push :: "'k \<Rightarrow> 'v \<Rightarrow> ('k \<Rightarrow> 'v list option) \<Rightarrow> 'k \<Rightarrow> 'v list option" where
  "entry_push key x m = m(key \<mapsto> (case m key of Some xs \<Rightarrow> xs | None \<Rightarrow> []) @ [x])"

definition some_unless_empty :: "'a list \<Rightarrow> 'a list option" where
  "some_unless_empty xs = (if xs = [] then None else Some xs)"

lemma entry_push_some_unless_empty:
  "entry_push key x (\<lambda>k. some_unless_empty (f k)) = (\<lambda>k. some_unless_empty (f k @ (if k = key then [x] else [])))"
  by (auto simp: entry_push_def some_unless_empty_def fun_eq_iff)

lemma some_unless_empty_eq: "some_unless_empty xs = Some ys \<longleftrightarrow> xs = ys \<and> ys \<noteq> []"
  by (auto simp: some_unless_empty_def)

section \<open>Cursors over a list\<close>

text \<open>The half-open slice \<open>xs[a..b]\<close>.\<close>

definition segment :: "nat \<Rightarrow> nat \<Rightarrow> 'a list \<Rightarrow> 'a list" where
  "segment a b xs = take (b - a) (drop a xs)"

lemma segment_append_exact [simp]:
  "segment (length xs) (length xs + length ys) (xs @ ys @ zs) = ys"
  by (simp add: segment_def)

lemma segment_empty [simp]: "segment a a xs = []"
  by (simp add: segment_def)

lemma drop_Cons_nth: "i < length xs \<Longrightarrow> drop i xs = xs ! i # drop (Suc i) xs"
  by (rule Cons_nth_drop_Suc [symmetric])

lemma nth_of_drop: "drop i xs = y # ys \<Longrightarrow> i < length xs \<and> xs ! i = y \<and> drop (Suc i) xs = ys"
  by (metis Cons_nth_drop_Suc drop_all list.inject list.discI not_le)

lemma takeWhile_append_stop:
  "\<forall>x \<in> set xs. P x \<Longrightarrow> \<not> P y \<Longrightarrow> takeWhile P (xs @ y # ys) = xs"
  by (induction xs) auto

lemma takeWhile_all: "\<forall>x \<in> set xs. P x \<Longrightarrow> takeWhile P xs = xs"
  by (induction xs) auto

lemma length_takeWhile_drop:
  "length (takeWhile P (drop i xs)) \<le> length xs - i"
  by (metis length_drop length_takeWhile_le)

end
