(* ===== verification/Rust_Num.thy ===== *)
theory Rust_Num
  imports Prelude "HOL-Library.Word"
begin

text \<open>
  The machine numbers the modelled code uses. Integers are words of their width. A float is
  its IEEE-754 bit pattern, also a word: the conversions the front end performs (decimal text to
  \<open>f64\<close>, \<open>f64 as f32\<close>, \<open>i64 as f32\<close>, negation) are computed exactly, as a ratio of natural
  numbers rounded to nearest, ties to even.
\<close>

type_synonym u8 = "8 word"
type_synonym u32 = "32 word"
type_synonym i64 = "64 word"
type_synonym f64 = "64 word"
type_synonym f32 = "32 word"

section \<open>Rounding a ratio to a binary float\<close>

fun ilog2 :: "nat \<Rightarrow> nat" where
  "ilog2 n = (if n < 2 then 0 else Suc (ilog2 (n div 2)))"

declare ilog2.simps [simp del]

text \<open>\<open>ratio_exponent n d\<close> is the floor of the binary logarithm of \<open>n / d\<close>.\<close>

definition ratio_exponent :: "nat \<Rightarrow> nat \<Rightarrow> int" where
  "ratio_exponent n d =
     (if d \<le> n then int (ilog2 (n div d))
      else - (int (ilog2 ((d + n - 1) div n - 1)) + 1))"

definition round_half_even :: "nat \<Rightarrow> nat \<Rightarrow> nat" where
  "round_half_even n d =
     (let q = n div d; r = n mod d in
      if 2 * r < d then q else if d < 2 * r then q + 1 else if even q then q else q + 1)"

text \<open>
  The bits (exponent and fraction fields) of the float nearest to \<open>n / d\<close>, for \<open>prec\<close> significant
  bits and least normal exponent \<open>emin\<close>; a result at or past \<open>inf_bits\<close> is the infinity.
\<close>

definition float_bits :: "nat \<Rightarrow> int \<Rightarrow> nat \<Rightarrow> nat \<Rightarrow> nat \<Rightarrow> nat" where
  "float_bits prec emin inf_bits n d =
     (if n = 0 then 0 else
      let e = max (ratio_exponent n d) emin;
          s = int prec - 1 - e;
          q = (if 0 \<le> s then round_half_even (n * 2 ^ nat s) d
               else round_half_even n (d * 2 ^ nat (- s)))
      in min (nat (e - emin) * 2 ^ (prec - 1) + q) inf_bits)"

definition f64_of_ratio :: "nat \<Rightarrow> nat \<Rightarrow> f64" where
  "f64_of_ratio n d = word_of_nat (float_bits 53 (-1022) (2047 * 2 ^ 52) n d)"

definition f32_of_ratio :: "nat \<Rightarrow> nat \<Rightarrow> f32" where
  "f32_of_ratio n d = word_of_nat (float_bits 24 (-126) (255 * 2 ^ 23) n d)"

section \<open>Conversions\<close>

definition f64_neg :: "f64 \<Rightarrow> f64" where
  "f64_neg x = Bit_Operations.xor x (2 ^ 63)"

definition f64_negative :: "f64 \<Rightarrow> bool" where
  "f64_negative x \<longleftrightarrow> 2 ^ 63 \<le> unat x"

definition f64_magnitude :: "f64 \<Rightarrow> nat" where
  "f64_magnitude x = unat x mod 2 ^ 63"

text \<open>\<open>a < b\<close> on doubles: false when one is a NaN; the two zeros are equal.\<close>

definition f64_is_nan :: "f64 \<Rightarrow> bool" where
  "f64_is_nan x \<longleftrightarrow> 2047 * 2 ^ 52 < f64_magnitude x"

definition f64_key :: "f64 \<Rightarrow> int" where
  "f64_key x = (if f64_negative x then - int (f64_magnitude x) else int (f64_magnitude x))"

definition f64_less :: "f64 \<Rightarrow> f64 \<Rightarrow> bool" where
  "f64_less a b \<longleftrightarrow> \<not> f64_is_nan a \<and> \<not> f64_is_nan b \<and> f64_key a < f64_key b"

text \<open>The finite value of a magnitude as a ratio: fraction times a power of two.\<close>

definition f64_ratio :: "f64 \<Rightarrow> nat \<times> nat" where
  "f64_ratio x =
     (let m = f64_magnitude x; ex = m div 2 ^ 52; fr = m mod 2 ^ 52;
          sig = (if ex = 0 then fr else fr + 2 ^ 52);
          k = int (max ex 1) - 1075
      in if 0 \<le> k then (sig * 2 ^ nat k, 1) else (sig, 2 ^ nat (- k)))"

definition f32_with_sign :: "bool \<Rightarrow> f32 \<Rightarrow> f32" where
  "f32_with_sign neg x = (if neg then Bit_Operations.or x (2 ^ 31) else x)"

text \<open>
  \<open>x as f32\<close>: NaN stays a (quiet) NaN with the top payload bits, infinity stays infinity, a
  finite value is rounded to nearest.
\<close>

definition f32_of_f64 :: "f64 \<Rightarrow> f32" where
  "f32_of_f64 x =
     (let m = f64_magnitude x; neg = f64_negative x in
      if 2047 * 2 ^ 52 < m then
        f32_with_sign neg (word_of_nat (255 * 2 ^ 23 + 2 ^ 22 + (m mod 2 ^ 51) div 2 ^ 29))
      else if m = 2047 * 2 ^ 52 then f32_with_sign neg (word_of_nat (255 * 2 ^ 23))
      else f32_with_sign neg (f32_of_ratio (fst (f64_ratio x)) (snd (f64_ratio x))))"

definition f32_of_i64 :: "i64 \<Rightarrow> f32" where
  "f32_of_i64 n =
     (let v = sint n in f32_with_sign (v < 0) (f32_of_ratio (nat \<bar>v\<bar>) 1))"

text \<open>\<open>n as u32\<close> on an \<open>i64\<close>: the low 32 bits.\<close>

definition u32_of_i64 :: "i64 \<Rightarrow> u32" where
  "u32_of_i64 n = ucast n"

lemma f64_of_one: "f64_of_ratio 1 1 = 0x3FF0000000000000"
  by (simp add: f64_of_ratio_def float_bits_def ratio_exponent_def ilog2.simps
      round_half_even_def Let_def)

lemma unat_u32_of_i64: "unat (u32_of_i64 n) = unat n mod 2 ^ 32"
  by (simp add: u32_of_i64_def unsigned_ucast_eq unsigned_take_bit_eq take_bit_eq_mod)

end
