(* ===== verification/Utf8.thy ===== *)
theory Utf8
  imports Prelude
begin

text \<open>
  A Rust \<open>String\<close> or \<open>&[u8]\<close> is a list of bytes, here a \<^typ>\<open>string\<close> (one \<^typ>\<open>char\<close> per byte).
  The parts of the standard library the lexer uses on bytes: the ASCII classes, \<open>to_uppercase\<close> on
  ASCII text, the UTF-8 validity scan, \<open>String::from_utf8_lossy\<close> (each maximal ill-formed
  prefix becomes one U+FFFD) and \<open>String::push\<close> of a byte read as a Latin-1 character.
\<close>

section \<open>ASCII\<close>

abbreviation byte :: "char \<Rightarrow> nat" where
  "byte c \<equiv> of_char c"

definition is_ascii_digit :: "char \<Rightarrow> bool" where
  "is_ascii_digit c \<longleftrightarrow> 48 \<le> byte c \<and> byte c \<le> 57"

definition is_ascii_alphabetic :: "char \<Rightarrow> bool" where
  "is_ascii_alphabetic c \<longleftrightarrow>
     65 \<le> byte c \<and> byte c \<le> 90 \<or> 97 \<le> byte c \<and> byte c \<le> 122"

definition is_ascii_alphanumeric :: "char \<Rightarrow> bool" where
  "is_ascii_alphanumeric c \<longleftrightarrow> is_ascii_alphabetic c \<or> is_ascii_digit c"

text \<open>Rust's \<open>is_ascii_whitespace\<close>: space, tab, line feed, form feed, carriage return.\<close>

definition is_ascii_whitespace :: "char \<Rightarrow> bool" where
  "is_ascii_whitespace c \<longleftrightarrow> byte c \<in> {32, 9, 10, 12, 13}"

definition to_upper :: "char \<Rightarrow> char" where
  "to_upper c = (if 97 \<le> byte c \<and> byte c \<le> 122 then char_of (byte c - 32) else c)"

definition to_lower :: "char \<Rightarrow> char" where
  "to_lower c = (if 65 \<le> byte c \<and> byte c \<le> 90 then char_of (byte c + 32) else c)"

definition to_uppercase :: "string \<Rightarrow> string" where
  "to_uppercase s = map to_upper s"

definition to_lowercase :: "string \<Rightarrow> string" where
  "to_lowercase s = map to_lower s"

definition eq_ignore_ascii_case :: "string \<Rightarrow> string \<Rightarrow> bool" where
  "eq_ignore_ascii_case a b \<longleftrightarrow> to_lowercase a = to_lowercase b"

lemma byte_less_256: "byte c < 256"
  using of_char_mod_256 [of c] by (metis mod_less_divisor zero_less_numeral)

lemma to_upper_idem [simp]: "to_upper (to_upper c) = to_upper c"
  by (auto simp: to_upper_def)

lemma to_uppercase_idem [simp]: "to_uppercase (to_uppercase s) = to_uppercase s"
  by (simp add: to_uppercase_def)

lemma to_lower_upper [simp]: "to_lower (to_upper c) = to_lower c"
  by (auto simp: to_upper_def to_lower_def)

lemma to_upper_lower [simp]: "to_upper (to_lower c) = to_upper c"
  by (auto simp: to_upper_def to_lower_def)

text \<open>Case conversion of the letters, for evaluation by \<open>simp\<close>.\<close>

lemma to_upper_letters [simp]:
  shows
    "to_upper (CHR ''a'') = CHR ''A''" and "to_upper (CHR ''b'') = CHR ''B''"
    and "to_upper (CHR ''c'') = CHR ''C''" and "to_upper (CHR ''d'') = CHR ''D''"
    and "to_upper (CHR ''e'') = CHR ''E''" and "to_upper (CHR ''f'') = CHR ''F''"
    and "to_upper (CHR ''g'') = CHR ''G''" and "to_upper (CHR ''h'') = CHR ''H''"
    and "to_upper (CHR ''i'') = CHR ''I''" and "to_upper (CHR ''j'') = CHR ''J''"
    and "to_upper (CHR ''k'') = CHR ''K''" and "to_upper (CHR ''l'') = CHR ''L''"
    and "to_upper (CHR ''m'') = CHR ''M''" and "to_upper (CHR ''n'') = CHR ''N''"
    and "to_upper (CHR ''o'') = CHR ''O''" and "to_upper (CHR ''p'') = CHR ''P''"
    and "to_upper (CHR ''q'') = CHR ''Q''" and "to_upper (CHR ''r'') = CHR ''R''"
    and "to_upper (CHR ''s'') = CHR ''S''" and "to_upper (CHR ''t'') = CHR ''T''"
    and "to_upper (CHR ''u'') = CHR ''U''" and "to_upper (CHR ''v'') = CHR ''V''"
    and "to_upper (CHR ''w'') = CHR ''W''" and "to_upper (CHR ''x'') = CHR ''X''"
    and "to_upper (CHR ''y'') = CHR ''Y''" and "to_upper (CHR ''z'') = CHR ''Z''"
    and "to_upper (CHR ''A'') = CHR ''A''" and "to_upper (CHR ''B'') = CHR ''B''"
    and "to_upper (CHR ''C'') = CHR ''C''" and "to_upper (CHR ''D'') = CHR ''D''"
    and "to_upper (CHR ''E'') = CHR ''E''" and "to_upper (CHR ''F'') = CHR ''F''"
    and "to_upper (CHR ''G'') = CHR ''G''" and "to_upper (CHR ''H'') = CHR ''H''"
    and "to_upper (CHR ''I'') = CHR ''I''" and "to_upper (CHR ''J'') = CHR ''J''"
    and "to_upper (CHR ''K'') = CHR ''K''" and "to_upper (CHR ''L'') = CHR ''L''"
    and "to_upper (CHR ''M'') = CHR ''M''" and "to_upper (CHR ''N'') = CHR ''N''"
    and "to_upper (CHR ''O'') = CHR ''O''" and "to_upper (CHR ''P'') = CHR ''P''"
    and "to_upper (CHR ''Q'') = CHR ''Q''" and "to_upper (CHR ''R'') = CHR ''R''"
    and "to_upper (CHR ''S'') = CHR ''S''" and "to_upper (CHR ''T'') = CHR ''T''"
    and "to_upper (CHR ''U'') = CHR ''U''" and "to_upper (CHR ''V'') = CHR ''V''"
    and "to_upper (CHR ''W'') = CHR ''W''" and "to_upper (CHR ''X'') = CHR ''X''"
    and "to_upper (CHR ''Y'') = CHR ''Y''" and "to_upper (CHR ''Z'') = CHR ''Z''"
    and "to_upper (CHR ''_'') = CHR ''_''"
  by (simp_all add: to_upper_def to_lower_def char_of_eq_iff)

lemma to_lower_letters [simp]:
  shows
    "to_lower (CHR ''A'') = CHR ''a''" and "to_lower (CHR ''B'') = CHR ''b''"
    and "to_lower (CHR ''C'') = CHR ''c''" and "to_lower (CHR ''D'') = CHR ''d''"
    and "to_lower (CHR ''E'') = CHR ''e''" and "to_lower (CHR ''F'') = CHR ''f''"
    and "to_lower (CHR ''G'') = CHR ''g''" and "to_lower (CHR ''H'') = CHR ''h''"
    and "to_lower (CHR ''I'') = CHR ''i''" and "to_lower (CHR ''J'') = CHR ''j''"
    and "to_lower (CHR ''K'') = CHR ''k''" and "to_lower (CHR ''L'') = CHR ''l''"
    and "to_lower (CHR ''M'') = CHR ''m''" and "to_lower (CHR ''N'') = CHR ''n''"
    and "to_lower (CHR ''O'') = CHR ''o''" and "to_lower (CHR ''P'') = CHR ''p''"
    and "to_lower (CHR ''Q'') = CHR ''q''" and "to_lower (CHR ''R'') = CHR ''r''"
    and "to_lower (CHR ''S'') = CHR ''s''" and "to_lower (CHR ''T'') = CHR ''t''"
    and "to_lower (CHR ''U'') = CHR ''u''" and "to_lower (CHR ''V'') = CHR ''v''"
    and "to_lower (CHR ''W'') = CHR ''w''" and "to_lower (CHR ''X'') = CHR ''x''"
    and "to_lower (CHR ''Y'') = CHR ''y''" and "to_lower (CHR ''Z'') = CHR ''z''"
    and "to_lower (CHR ''a'') = CHR ''a''" and "to_lower (CHR ''b'') = CHR ''b''"
    and "to_lower (CHR ''c'') = CHR ''c''" and "to_lower (CHR ''d'') = CHR ''d''"
    and "to_lower (CHR ''e'') = CHR ''e''" and "to_lower (CHR ''f'') = CHR ''f''"
    and "to_lower (CHR ''g'') = CHR ''g''" and "to_lower (CHR ''h'') = CHR ''h''"
    and "to_lower (CHR ''i'') = CHR ''i''" and "to_lower (CHR ''j'') = CHR ''j''"
    and "to_lower (CHR ''k'') = CHR ''k''" and "to_lower (CHR ''l'') = CHR ''l''"
    and "to_lower (CHR ''m'') = CHR ''m''" and "to_lower (CHR ''n'') = CHR ''n''"
    and "to_lower (CHR ''o'') = CHR ''o''" and "to_lower (CHR ''p'') = CHR ''p''"
    and "to_lower (CHR ''q'') = CHR ''q''" and "to_lower (CHR ''r'') = CHR ''r''"
    and "to_lower (CHR ''s'') = CHR ''s''" and "to_lower (CHR ''t'') = CHR ''t''"
    and "to_lower (CHR ''u'') = CHR ''u''" and "to_lower (CHR ''v'') = CHR ''v''"
    and "to_lower (CHR ''w'') = CHR ''w''" and "to_lower (CHR ''x'') = CHR ''x''"
    and "to_lower (CHR ''y'') = CHR ''y''" and "to_lower (CHR ''z'') = CHR ''z''"
    and "to_lower (CHR ''_'') = CHR ''_''"
  by (simp_all add: to_upper_def to_lower_def char_of_eq_iff)

section \<open>The UTF-8 scan\<close>

text \<open>
  One step of the validity scan at the head of a byte list: how many bytes the step covers, and
  whether they are one well-formed character. A byte past the end reads as 0.
\<close>

definition byte_at :: "string \<Rightarrow> nat \<Rightarrow> nat" where
  "byte_at s i = (if i < length s then byte (s ! i) else 0)"

definition is_cont :: "nat \<Rightarrow> bool" where
  "is_cont b \<longleftrightarrow> 128 \<le> b \<and> b < 192"

definition second_ok :: "nat \<Rightarrow> nat \<Rightarrow> bool" where
  "second_ok b c \<longleftrightarrow>
     (if b = 0xE0 then 0xA0 \<le> c \<and> c < 192
      else if b = 0xED then 128 \<le> c \<and> c < 0xA0
      else if b = 0xF0 then 0x90 \<le> c \<and> c < 192
      else if b = 0xF4 then 128 \<le> c \<and> c < 0x90
      else is_cont c)"

definition utf8_step :: "string \<Rightarrow> nat \<times> bool" where
  "utf8_step s =
     (let b = byte_at s 0 in
      if b < 128 then (1, True)
      else if 0xC2 \<le> b \<and> b < 0xE0 then (if is_cont (byte_at s 1) then (2, True) else (1, False))
      else if 0xE0 \<le> b \<and> b < 0xF0 then
        (if second_ok b (byte_at s 1)
         then (if is_cont (byte_at s 2) then (3, True) else (2, False)) else (1, False))
      else if 0xF0 \<le> b \<and> b < 0xF5 then
        (if second_ok b (byte_at s 1)
         then (if is_cont (byte_at s 2)
               then (if is_cont (byte_at s 3) then (4, True) else (3, False)) else (2, False))
         else (1, False))
      else (1, False))"

lemma utf8_step_pos: "0 < fst (utf8_step s)"
  by (auto simp: utf8_step_def Let_def)

function valid_utf8 :: "string \<Rightarrow> bool" where
  "valid_utf8 s =
     (if s = [] then True
      else snd (utf8_step s) \<and> valid_utf8 (drop (fst (utf8_step s)) s))"
  by pat_completeness auto
termination
  by (relation "measure length") (use utf8_step_pos in auto)

text \<open>The replacement character U+FFFD.\<close>

definition replacement :: string where
  "replacement = [CHR 0xEF, CHR 0xBF, CHR 0xBD]"

function from_utf8_lossy :: "string \<Rightarrow> string" where
  "from_utf8_lossy s =
     (if s = [] then [] else
      (let n = fst (utf8_step s) in
       (if snd (utf8_step s) then take n s else replacement) @ from_utf8_lossy (drop n s)))"
  by pat_completeness auto
termination
  by (relation "measure length") (use utf8_step_pos in auto)

declare valid_utf8.simps [simp del] from_utf8_lossy.simps [simp del]

text \<open>\<open>out.push(b as char)\<close>: the UTF-8 encoding of the character U+0000 to U+00FF.\<close>

definition push_latin1 :: "char \<Rightarrow> string" where
  "push_latin1 c =
     (if byte c < 128 then [c]
      else [char_of (192 + byte c div 64), char_of (128 + byte c mod 64)])"

lemma valid_utf8_Nil [simp]: "valid_utf8 []"
  by (simp add: valid_utf8.simps)

lemma from_utf8_lossy_Nil [simp]: "from_utf8_lossy [] = []"
  by (simp add: from_utf8_lossy.simps)

lemma from_utf8_lossy_valid: "valid_utf8 s \<Longrightarrow> from_utf8_lossy s = s"
proof (induction s rule: valid_utf8.induct)
  case (1 s)
  then show ?case
    by (cases "s = []")
      (auto simp: valid_utf8.simps [of s] from_utf8_lossy.simps [of s] Let_def)
qed

text \<open>The four shapes of a well-formed step.\<close>

lemma utf8_step_okE:
  assumes "snd (utf8_step s)"
  obtains (one) "byte_at s 0 < 128" "utf8_step s = (1, True)"
  | (two) "0xC2 \<le> byte_at s 0" "byte_at s 0 < 0xE0" "is_cont (byte_at s 1)"
      "utf8_step s = (2, True)"
  | (three) "0xE0 \<le> byte_at s 0" "byte_at s 0 < 0xF0" "second_ok (byte_at s 0) (byte_at s 1)"
      "is_cont (byte_at s 2)" "utf8_step s = (3, True)"
  | (four) "0xF0 \<le> byte_at s 0" "byte_at s 0 < 0xF5" "second_ok (byte_at s 0) (byte_at s 1)"
      "is_cont (byte_at s 2)" "is_cont (byte_at s 3)" "utf8_step s = (4, True)"
proof -
  consider "byte_at s 0 < 128" | "128 \<le> byte_at s 0" "byte_at s 0 < 0xC2"
    | "0xC2 \<le> byte_at s 0" "byte_at s 0 < 0xE0" | "0xE0 \<le> byte_at s 0" "byte_at s 0 < 0xF0"
    | "0xF0 \<le> byte_at s 0" "byte_at s 0 < 0xF5" | "0xF5 \<le> byte_at s 0"
    by linarith
  then show thesis
    using assms that by cases (simp_all add: utf8_step_def Let_def split: if_splits)
qed

lemma is_cont_ge: "is_cont b \<Longrightarrow> 128 \<le> b"
  by (simp add: is_cont_def)

lemma second_ok_ge: "second_ok a b \<Longrightarrow> 128 \<le> b"
  by (simp add: second_ok_def is_cont_def split: if_splits)

text \<open>A well-formed step covers bytes that are there, and only its first byte is below 128.\<close>

lemma utf8_step_ok_high:
  assumes "snd (utf8_step s)" and "0 < i" and "i < fst (utf8_step s)"
  shows "128 \<le> byte_at s i"
proof -
  have "i < 4" using assms(1,3) by (cases rule: utf8_step_okE) simp_all
  with assms(2) consider "i = 1" | "i = 2" | "i = 3" by linarith
  then show ?thesis
    using assms(1,3) by (cases; elim utf8_step_okE) (simp_all add: is_cont_ge second_ok_ge)
qed

lemma utf8_step_ok_length:
  assumes "snd (utf8_step s)" and "s \<noteq> []"
  shows "fst (utf8_step s) \<le> length s"
proof (rule ccontr)
  assume "\<not> ?thesis"
  moreover have "0 < length s" using assms(2) by simp
  ultimately have "128 \<le> byte_at s (length s)" by (intro utf8_step_ok_high assms) auto
  then show False by (simp add: byte_at_def)
qed

text \<open>A step reads its own bytes only.\<close>

lemma utf8_step_cong:
  assumes ok: "snd (utf8_step s)"
    and eq: "\<And>i. i < fst (utf8_step s) \<Longrightarrow> byte_at t i = byte_at s i"
  shows "utf8_step t = utf8_step s"
  using ok
proof (cases rule: utf8_step_okE)
  case one
  with eq [of 0] show ?thesis by (simp add: utf8_step_def)
next
  case two
  with eq [of 0] eq [of 1] show ?thesis by (simp add: utf8_step_def)
next
  case three
  with eq [of 0] eq [of 1] eq [of 2] show ?thesis by (simp add: utf8_step_def)
next
  case four
  with eq [of 0] eq [of 1] eq [of 2] eq [of 3] show ?thesis by (simp add: utf8_step_def)
qed

lemma byte_at_append: "i < length s \<Longrightarrow> byte_at (s @ t) i = byte_at s i"
  by (simp add: byte_at_def nth_append)

lemma valid_utf8_append: "valid_utf8 s \<Longrightarrow> valid_utf8 t \<Longrightarrow> valid_utf8 (s @ t)"
proof (induction s rule: valid_utf8.induct)
  case (1 s)
  show ?case
  proof (cases "s = []")
    case True
    with "1.prems" show ?thesis by simp
  next
    case False
    with "1.prems" have ok: "snd (utf8_step s)" and v: "valid_utf8 (drop (fst (utf8_step s)) s)"
      by (auto simp: valid_utf8.simps [of s])
    note le = utf8_step_ok_length [OF ok False]
    have eq: "utf8_step (s @ t) = utf8_step s"
      by (rule utf8_step_cong [OF ok]) (use le in \<open>simp add: byte_at_append\<close>)
    show ?thesis
      using False ok le "1.IH" [OF False v "1.prems"(2)]
      by (simp add: valid_utf8.simps [of "s @ t"] eq)
  qed
qed

text \<open>An ASCII byte is a character boundary.\<close>

lemma valid_utf8_split:
  "valid_utf8 (s @ c # t) \<Longrightarrow> byte c < 128 \<Longrightarrow> valid_utf8 s \<and> valid_utf8 t"
proof (induction s rule: length_induct)
  case (1 s)
  show ?case
  proof (cases "s = []")
    case True
    with "1.prems" show ?thesis
      by (simp add: valid_utf8.simps [of "c # t"] utf8_step_def byte_at_def)
  next
    case False
    let ?st = "utf8_step (s @ c # t)"
    from "1.prems"(1) have ok: "snd ?st" and v: "valid_utf8 (drop (fst ?st) (s @ c # t))"
      by (auto simp: valid_utf8.simps [of "s @ c # t"])
    have le: "fst ?st \<le> length s"
    proof (rule ccontr)
      assume "\<not> ?thesis"
      then have "128 \<le> byte_at (s @ c # t) (length s)"
        using False by (intro utf8_step_ok_high [OF ok]) auto
      with "1.prems"(2) show False by (simp add: byte_at_def)
    qed
    have eq: "utf8_step s = ?st"
      by (rule utf8_step_cong [OF ok]) (use le in \<open>simp add: byte_at_append\<close>)
    from v le have "valid_utf8 (drop (fst ?st) s @ c # t)" by simp
    moreover have "length (drop (fst ?st) s) < length s"
      using False utf8_step_pos by auto
    ultimately have "valid_utf8 (drop (fst ?st) s) \<and> valid_utf8 t"
      using "1.IH" "1.prems"(2) by blast
    with eq ok show ?thesis by (simp add: valid_utf8.simps [of s])
  qed
qed

lemma valid_utf8_ascii: "\<forall>c \<in> set s. byte c < 128 \<Longrightarrow> valid_utf8 s"
proof (induction s)
  case (Cons c s)
  then show ?case
    by (simp add: valid_utf8.simps [of "c # s"] utf8_step_def byte_at_def)
qed simp

lemma valid_utf8_push_latin1: "valid_utf8 (push_latin1 c)"
proof (cases "byte c < 128")
  case True
  then show ?thesis by (auto simp: push_latin1_def intro: valid_utf8_ascii)
next
  case False
  let ?h = "192 + byte c div 64" and ?l = "128 + byte c mod 64"
  have "byte c < 256" by (rule byte_less_256)
  then have h: "?h < 196" by (simp add: div_less_iff_less_mult)
  have "2 \<le> byte c div 64" using False by (simp add: less_eq_div_iff_mult_less_eq)
  then have h': "194 \<le> ?h" by simp
  have l: "?l < 192" by simp
  have "utf8_step [char_of ?h, char_of ?l] = (2, True)"
    using h h' l by (simp add: utf8_step_def byte_at_def is_cont_def Let_def)
  with False show ?thesis by (simp add: push_latin1_def valid_utf8.simps [of "[char_of ?h, char_of ?l]"])
qed

lemma valid_utf8_lossy: "valid_utf8 (from_utf8_lossy s)"
proof (induction s rule: from_utf8_lossy.induct)
  case (1 s)
  show ?case
  proof (cases "s = []")
    case False
    let ?n = "fst (utf8_step s)"
    have IH: "valid_utf8 (from_utf8_lossy (drop ?n s))"
      using "1.IH" [OF False refl] .
    have "valid_utf8 replacement"
      by (simp add: replacement_def valid_utf8.simps [of "[a, b, c]" for a b c] utf8_step_def
          byte_at_def second_ok_def is_cont_def Let_def)
    moreover have "valid_utf8 (take ?n s)" if ok: "snd (utf8_step s)"
    proof -
      note le = utf8_step_ok_length [OF ok False]
      have "utf8_step (take ?n s) = utf8_step s"
        by (rule utf8_step_cong [OF ok]) (use le in \<open>simp add: byte_at_def\<close>)
      with ok le show ?thesis by (simp add: valid_utf8.simps [of "take ?n s"])
    qed
    ultimately show ?thesis
      using False IH by (auto simp: from_utf8_lossy.simps [of s] Let_def intro: valid_utf8_append)
  qed simp
qed

end
