(* ===== verification/LqlToken.thy ===== *)
theory LqlToken
  imports Rust_Num Utf8
begin

text \<open>
  Tokens and keywords of LQL (\<open>crates/larql-lql/src/lexer.rs\<close>, lines 1 to 383). The flat Rust
  enum \<open>Keyword\<close> of 110 variants is a sum of four enums here, each in the source's order:
  the words that open a statement, the words that introduce a clause, the words that name a thing,
  and the words that are the value of an option. A variant \<open>Keyword::X\<close> is the constructor
  \<open>KX\<close> under its group. The grouping has no meaning in the code; it keeps each
  datatype small.
\<close>

section \<open>Keywords\<close>

datatype (plugins only: code size) stmt_keyword =
    KExtract | KCompile | KDiff | KUse | KWalk | KSelect | KDescribe | KExplain | KInsert
    | KDelete | KUpdate | KMerge | KShow | KStats | KInfer | KBegin | KSave | KApply
    | KRemove | KTrace | KRebalance | KCompact

datatype (plugins only: code size) clause_keyword =
    KFrom | KInto | KWhere | KAnd | KOr | KNot | KIn | KLike | KBetween | KOrder | KBy
    | KAsc | KDesc | KLimit | KTop | KAt | KOn | KSet | KValues | KWith | KOnly | KRange
    | KAll | KNearest | KTo | KFor | KMax | KUntil | KVerify

datatype (plugins only: code size) noun_keyword =
    KLayers | KMode | KLayer | KConfidence | KModel | KEdges | KEntities | KRelation
    | KRelations | KFeatures | KModels | KFormat | KComponents | KConflict | KCurrent
    | KExamples | KEmbeddings | KWeights | KInference | KPatch | KPatches | KPositions
    | KAttention | KAlpha | KFloor | KCeiling | KStatus | KRoute | KTopk

datatype (plugins only: code size) opt_keyword =
    KCompare | KKeepSource | KKeepTarget | KHighestConfidence | KLastWins | KFail
    | KVerbose | KPure | KHybrid | KDense | KSafetensors | KGguf | KAutoExtract | KFfnGate
    | KFfnDown | KFfnUp | KAttnOv | KAttnQk | KSyntax | KKnowledge | KOutput | KRemote
    | KDecompose | KBrief | KRaw | KKnn | KCompose | KConverged | KFallback | KExit

datatype keyword =
    Stmt stmt_keyword
  | Clause clause_keyword
  | Noun noun_keyword
  | Opt opt_keyword

primrec stmt_field_name :: "stmt_keyword \<Rightarrow> string" where
    "stmt_field_name KExtract = ''extract''"
  | "stmt_field_name KCompile = ''compile''"
  | "stmt_field_name KDiff = ''diff''"
  | "stmt_field_name KUse = ''use''"
  | "stmt_field_name KWalk = ''walk''"
  | "stmt_field_name KSelect = ''select''"
  | "stmt_field_name KDescribe = ''describe''"
  | "stmt_field_name KExplain = ''explain''"
  | "stmt_field_name KInsert = ''insert''"
  | "stmt_field_name KDelete = ''delete''"
  | "stmt_field_name KUpdate = ''update''"
  | "stmt_field_name KMerge = ''merge''"
  | "stmt_field_name KShow = ''show''"
  | "stmt_field_name KStats = ''stats''"
  | "stmt_field_name KInfer = ''infer''"
  | "stmt_field_name KBegin = ''begin''"
  | "stmt_field_name KSave = ''save''"
  | "stmt_field_name KApply = ''apply''"
  | "stmt_field_name KRemove = ''remove''"
  | "stmt_field_name KTrace = ''trace''"
  | "stmt_field_name KRebalance = ''rebalance''"
  | "stmt_field_name KCompact = ''compact''"

primrec clause_field_name :: "clause_keyword \<Rightarrow> string" where
    "clause_field_name KFrom = ''from''"
  | "clause_field_name KInto = ''into''"
  | "clause_field_name KWhere = ''where''"
  | "clause_field_name KAnd = ''and''"
  | "clause_field_name KOr = ''or''"
  | "clause_field_name KNot = ''not''"
  | "clause_field_name KIn = ''in''"
  | "clause_field_name KLike = ''like''"
  | "clause_field_name KBetween = ''between''"
  | "clause_field_name KOrder = ''order''"
  | "clause_field_name KBy = ''by''"
  | "clause_field_name KAsc = ''asc''"
  | "clause_field_name KDesc = ''desc''"
  | "clause_field_name KLimit = ''limit''"
  | "clause_field_name KTop = ''top''"
  | "clause_field_name KAt = ''at''"
  | "clause_field_name KOn = ''on''"
  | "clause_field_name KSet = ''set''"
  | "clause_field_name KValues = ''values''"
  | "clause_field_name KWith = ''with''"
  | "clause_field_name KOnly = ''only''"
  | "clause_field_name KRange = ''range''"
  | "clause_field_name KAll = ''all''"
  | "clause_field_name KNearest = ''nearest''"
  | "clause_field_name KTo = ''to''"
  | "clause_field_name KFor = ''for''"
  | "clause_field_name KMax = ''max''"
  | "clause_field_name KUntil = ''until''"
  | "clause_field_name KVerify = ''verify''"

primrec noun_field_name :: "noun_keyword \<Rightarrow> string" where
    "noun_field_name KLayers = ''layers''"
  | "noun_field_name KMode = ''mode''"
  | "noun_field_name KLayer = ''layer''"
  | "noun_field_name KConfidence = ''confidence''"
  | "noun_field_name KModel = ''model''"
  | "noun_field_name KEdges = ''edges''"
  | "noun_field_name KEntities = ''entities''"
  | "noun_field_name KRelation = ''relation''"
  | "noun_field_name KRelations = ''relations''"
  | "noun_field_name KFeatures = ''features''"
  | "noun_field_name KModels = ''models''"
  | "noun_field_name KFormat = ''format''"
  | "noun_field_name KComponents = ''components''"
  | "noun_field_name KConflict = ''conflict''"
  | "noun_field_name KCurrent = ''current''"
  | "noun_field_name KExamples = ''examples''"
  | "noun_field_name KEmbeddings = ''embeddings''"
  | "noun_field_name KWeights = ''weights''"
  | "noun_field_name KInference = ''inference''"
  | "noun_field_name KPatch = ''patch''"
  | "noun_field_name KPatches = ''patches''"
  | "noun_field_name KPositions = ''positions''"
  | "noun_field_name KAttention = ''attention''"
  | "noun_field_name KAlpha = ''alpha''"
  | "noun_field_name KFloor = ''floor''"
  | "noun_field_name KCeiling = ''ceiling''"
  | "noun_field_name KStatus = ''status''"
  | "noun_field_name KRoute = ''route''"
  | "noun_field_name KTopk = ''topk''"

primrec opt_field_name :: "opt_keyword \<Rightarrow> string" where
    "opt_field_name KCompare = ''compare''"
  | "opt_field_name KKeepSource = ''keepsource''"
  | "opt_field_name KKeepTarget = ''keeptarget''"
  | "opt_field_name KHighestConfidence = ''highestconfidence''"
  | "opt_field_name KLastWins = ''lastwins''"
  | "opt_field_name KFail = ''fail''"
  | "opt_field_name KVerbose = ''verbose''"
  | "opt_field_name KPure = ''pure''"
  | "opt_field_name KHybrid = ''hybrid''"
  | "opt_field_name KDense = ''dense''"
  | "opt_field_name KSafetensors = ''safetensors''"
  | "opt_field_name KGguf = ''gguf''"
  | "opt_field_name KAutoExtract = ''auto_extract''"
  | "opt_field_name KFfnGate = ''ffn_gate''"
  | "opt_field_name KFfnDown = ''ffn_down''"
  | "opt_field_name KFfnUp = ''ffn_up''"
  | "opt_field_name KAttnOv = ''attn_ov''"
  | "opt_field_name KAttnQk = ''attn_qk''"
  | "opt_field_name KSyntax = ''syntax''"
  | "opt_field_name KKnowledge = ''knowledge''"
  | "opt_field_name KOutput = ''output''"
  | "opt_field_name KRemote = ''remote''"
  | "opt_field_name KDecompose = ''decompose''"
  | "opt_field_name KBrief = ''brief''"
  | "opt_field_name KRaw = ''raw''"
  | "opt_field_name KKnn = ''knn''"
  | "opt_field_name KCompose = ''compose''"
  | "opt_field_name KConverged = ''converged''"
  | "opt_field_name KFallback = ''fallback''"
  | "opt_field_name KExit = ''exit''"

text \<open>\<open>Keyword::as_field_name\<close>.\<close>

primrec as_field_name :: "keyword \<Rightarrow> string" where
    "as_field_name (Stmt k) = stmt_field_name k"
  | "as_field_name (Clause k) = clause_field_name k"
  | "as_field_name (Noun k) = noun_field_name k"
  | "as_field_name (Opt k) = opt_field_name k"

text \<open>The arms of \<open>Keyword::from_str\<close>, in the source's order.\<close>

definition keyword_table :: "(string \<times> keyword) list" where
  "keyword_table = [
    (''EXTRACT'', Stmt KExtract),
    (''COMPILE'', Stmt KCompile),
    (''DIFF'', Stmt KDiff),
    (''USE'', Stmt KUse),
    (''WALK'', Stmt KWalk),
    (''SELECT'', Stmt KSelect),
    (''DESCRIBE'', Stmt KDescribe),
    (''EXPLAIN'', Stmt KExplain),
    (''INSERT'', Stmt KInsert),
    (''DELETE'', Stmt KDelete),
    (''UPDATE'', Stmt KUpdate),
    (''MERGE'', Stmt KMerge),
    (''SHOW'', Stmt KShow),
    (''STATS'', Stmt KStats),
    (''FROM'', Clause KFrom),
    (''INTO'', Clause KInto),
    (''WHERE'', Clause KWhere),
    (''AND'', Clause KAnd),
    (''OR'', Clause KOr),
    (''NOT'', Clause KNot),
    (''IN'', Clause KIn),
    (''LIKE'', Clause KLike),
    (''BETWEEN'', Clause KBetween),
    (''ORDER'', Clause KOrder),
    (''BY'', Clause KBy),
    (''ASC'', Clause KAsc),
    (''DESC'', Clause KDesc),
    (''LIMIT'', Clause KLimit),
    (''TOP'', Clause KTop),
    (''LAYERS'', Noun KLayers),
    (''MODE'', Noun KMode),
    (''COMPARE'', Opt KCompare),
    (''AT'', Clause KAt),
    (''LAYER'', Noun KLayer),
    (''CONFIDENCE'', Noun KConfidence),
    (''MODEL'', Noun KModel),
    (''EDGES'', Noun KEdges),
    (''RELATION'', Noun KRelation),
    (''RELATIONS'', Noun KRelations),
    (''ENTITIES'', Noun KEntities),
    (''FEATURES'', Noun KFeatures),
    (''MODELS'', Noun KModels),
    (''FORMAT'', Noun KFormat),
    (''COMPONENTS'', Noun KComponents),
    (''ON'', Clause KOn),
    (''CONFLICT'', Noun KConflict),
    (''KEEP_SOURCE'', Opt KKeepSource),
    (''KEEP_TARGET'', Opt KKeepTarget),
    (''HIGHEST_CONFIDENCE'', Opt KHighestConfidence),
    (''LAST_WINS'', Opt KLastWins),
    (''FAIL'', Opt KFail),
    (''FOR'', Clause KFor),
    (''SET'', Clause KSet),
    (''VALUES'', Clause KValues),
    (''CURRENT'', Noun KCurrent),
    (''WITH'', Clause KWith),
    (''EXAMPLES'', Noun KExamples),
    (''ONLY'', Clause KOnly),
    (''VERBOSE'', Opt KVerbose),
    (''RANGE'', Clause KRange),
    (''ALL'', Clause KAll),
    (''NEAREST'', Clause KNearest),
    (''TO'', Clause KTo),
    (''PURE'', Opt KPure),
    (''HYBRID'', Opt KHybrid),
    (''DENSE'', Opt KDense),
    (''SAFETENSORS'', Opt KSafetensors),
    (''GGUF'', Opt KGguf),
    (''AUTO_EXTRACT'', Opt KAutoExtract),
    (''FFN_GATE'', Opt KFfnGate),
    (''FFN_DOWN'', Opt KFfnDown),
    (''FFN_UP'', Opt KFfnUp),
    (''EMBEDDINGS'', Noun KEmbeddings),
    (''ATTN_OV'', Opt KAttnOv),
    (''ATTN_QK'', Opt KAttnQk),
    (''INFER'', Stmt KInfer),
    (''SYNTAX'', Opt KSyntax),
    (''KNOWLEDGE'', Opt KKnowledge),
    (''OUTPUT'', Opt KOutput),
    (''WEIGHTS'', Noun KWeights),
    (''INFERENCE'', Noun KInference),
    (''BEGIN'', Stmt KBegin),
    (''SAVE'', Stmt KSave),
    (''APPLY'', Stmt KApply),
    (''REMOVE'', Stmt KRemove),
    (''PATCH'', Noun KPatch),
    (''PATCHES'', Noun KPatches),
    (''REMOTE'', Opt KRemote),
    (''TRACE'', Stmt KTrace),
    (''DECOMPOSE'', Opt KDecompose),
    (''POSITIONS'', Noun KPositions),
    (''BRIEF'', Opt KBrief),
    (''RAW'', Opt KRaw),
    (''ATTENTION'', Noun KAttention),
    (''ALPHA'', Noun KAlpha),
    (''KNN'', Opt KKnn),
    (''COMPOSE'', Opt KCompose),
    (''REBALANCE'', Stmt KRebalance),
    (''FLOOR'', Noun KFloor),
    (''CEILING'', Noun KCeiling),
    (''MAX'', Clause KMax),
    (''UNTIL'', Clause KUntil),
    (''CONVERGED'', Opt KConverged),
    (''COMPACT'', Stmt KCompact),
    (''STATUS'', Noun KStatus),
    (''ROUTE'', Noun KRoute),
    (''VERIFY'', Clause KVerify),
    (''FALLBACK'', Opt KFallback),
    (''TOPK'', Noun KTopk),
    (''EXIT'', Opt KExit)]"

definition keyword_from_str :: "string \<Rightarrow> keyword option" where
  "keyword_from_str s = map_of keyword_table (to_uppercase s)"

section \<open>Tokens\<close>

datatype token =
    TKeyword keyword
  | TStringLit string
  | TNumberLit f64
  | TIntegerLit i64
  | TStar
  | TComma
  | TSemicolon
  | TLParen
  | TRParen
  | TDot
  | TPipe
  | TEq
  | TNeq
  | TGt
  | TLt
  | TGte
  | TLte
  | TDash
  | TIdent string
  | TEof

section \<open>The keyword table\<close>

lemma keyword_table_distinct: "distinct (map fst keyword_table)"
  by (simp add: keyword_table_def)

lemma keyword_table_texts:
  "list_all (\<lambda>(s, k). to_uppercase s = s \<and> (to_uppercase (as_field_name k) = s \<or>
     k \<in> {Opt KKeepSource, Opt KKeepTarget, Opt KHighestConfidence, Opt KLastWins})) keyword_table"
  by (simp add: keyword_table_def to_uppercase_def)

lemma keyword_table_complete: "k \<in> set (map snd keyword_table)"
proof (cases k)
  case (Stmt x)
  then show ?thesis
    unfolding keyword_table_def list.map snd_conv list.set insert_iff by (cases x) simp_all
next
  case (Clause x)
  then show ?thesis
    unfolding keyword_table_def list.map snd_conv list.set insert_iff by (cases x) simp_all
next
  case (Noun x)
  then show ?thesis
    unfolding keyword_table_def list.map snd_conv list.set insert_iff by (cases x) simp_all
next
  case (Opt x)
  then show ?thesis
    unfolding keyword_table_def list.map snd_conv list.set insert_iff by (cases x) simp_all
qed

text \<open>The text of a keyword: the table read backwards.\<close>

definition keyword_text :: "keyword \<Rightarrow> string" where
  "keyword_text k = (case find (\<lambda>e. snd e = k) keyword_table of Some e \<Rightarrow> fst e | None \<Rightarrow> '''')"

lemma keyword_text_entry: "(keyword_text k, k) \<in> set keyword_table"
proof (cases "find (\<lambda>e. snd e = k) keyword_table")
  case None
  then show ?thesis using keyword_table_complete [of k] by (auto simp: find_None_iff)
next
  case (Some e)
  then have "e \<in> set keyword_table \<and> snd e = k" by (auto simp: find_Some_iff)
  with Some show ?thesis by (auto simp: keyword_text_def)
qed

lemma keyword_from_str_entry:
  "(s, k) \<in> set keyword_table \<Longrightarrow> keyword_from_str s = Some k"
  using keyword_table_texts
  by (auto simp: keyword_from_str_def list_all_iff intro!: map_of_is_SomeI keyword_table_distinct)

lemma keyword_from_str_text [simp]: "keyword_from_str (keyword_text k) = Some k"
  by (rule keyword_from_str_entry) (rule keyword_text_entry)

lemma keyword_from_str_upper [simp]: "keyword_from_str (to_uppercase s) = keyword_from_str s"
  by (simp add: keyword_from_str_def)

lemma keyword_from_str_field_name:
  assumes "k \<notin> {Opt KKeepSource, Opt KKeepTarget, Opt KHighestConfidence, Opt KLastWins}"
  shows "keyword_from_str (as_field_name k) = Some k"
proof -
  have "to_uppercase (as_field_name k) = keyword_text k"
    using keyword_table_texts keyword_text_entry [of k] assms unfolding list_all_iff by blast
  then have "keyword_from_str (to_uppercase (as_field_name k)) = Some k" by simp
  then show ?thesis by simp
qed

end
