(* ===== verification/LqlAst.thy ===== *)
theory LqlAst
  imports Rust_Num
begin

text \<open>
  The LQL syntax tree (\<open>crates/larql-lql/src/ast.rs\<close>). Enums are datatypes, the two structs with
  defaults (\<open>Range\<close>, \<open>InferRoute\<close>) and the small structs are records; a struct variant of
  \<open>Statement\<close> is a constructor whose arguments are the fields in the source's order.
\<close>

datatype explain_mode = ExplainWalk | ExplainInfer

record infer_route =
  ir_fallback :: bool
  ir_topk :: "u32 option"
  ir_exit :: bool

definition default_infer_route :: infer_route where
  "default_infer_route = \<lparr>ir_fallback = False, ir_topk = None, ir_exit = False\<rparr>"

datatype describe_mode = DescribeVerbose | DescribeBrief | DescribeRaw

definition default_describe_mode :: describe_mode where
  "default_describe_mode = DescribeBrief"

datatype layer_band = BandSyntax | BandKnowledge | BandOutput | BandAll

datatype extract_level = LevelBrowse | LevelInference | LevelAll

datatype compile_target = TargetModel | TargetVindex

datatype walk_mode = WalkHybrid | WalkPure | WalkDense

datatype output_format = FormatSafetensors | FormatGguf

datatype insert_mode = InsertKnn | InsertCompose

definition default_insert_mode :: insert_mode where
  "default_insert_mode = InsertKnn"

datatype conflict_strategy = KeepSource | KeepTarget | HighestConfidence

datatype compile_conflict = ConflictLastWins | ConflictHighestConfidence | ConflictFail

datatype lql_component = FfnGate | FfnDown | FfnUp | Embeddings | AttnOv | AttnQk

record layer_range =
  rg_start :: u32
  rg_end :: u32

datatype select_source = FromEdges | FromFeatures | FromEntities

datatype field = FieldStar | FieldNamed string

datatype compare_op = OpEq | OpNeq | OpGt | OpLt | OpGte | OpLte | OpLike | OpIn

datatype lql_value =
    VString string
  | VNumber f64
  | VInteger i64
  | VList "lql_value list"

record condition =
  cd_field :: string
  cd_op :: compare_op
  cd_value :: lql_value

record nearest_clause =
  nc_entity :: string
  nc_layer :: u32

record order_by =
  ob_field :: string
  ob_descending :: bool

datatype trace_position_mode = PositionLast | PositionAll

record assignment =
  as_field :: string
  as_value :: lql_value

datatype vindex_ref = VindexPath string | VindexCurrent

text \<open>\<open>UseModel id auto_extract\<close>.\<close>

datatype use_target = UseVindex string | UseModel string bool | UseRemote string

datatype (plugins only: code size) statement =
    \<comment> \<open>\<open>model output components layers extract_level\<close>\<close>
    Extract string string "lql_component list option" "layer_range option" extract_level
    \<comment> \<open>\<open>vindex output format target on_conflict\<close>\<close>
  | Compile vindex_ref string "output_format option" compile_target "compile_conflict option"
    \<comment> \<open>\<open>a b layer relation limit into_patch\<close>\<close>
  | Diff vindex_ref vindex_ref "u32 option" "string option" "u32 option" "string option"
  | Use use_target
    \<comment> \<open>\<open>prompt top layers mode compare\<close>\<close>
  | Walk string "u32 option" "layer_range option" "walk_mode option" bool
    \<comment> \<open>\<open>prompt top compare route\<close>\<close>
  | Infer string "u32 option" bool "infer_route option"
    \<comment> \<open>\<open>source fields conditions nearest order limit\<close>\<close>
  | Select select_source "field list" "condition list" "nearest_clause option" "order_by option"
      "u32 option"
    \<comment> \<open>\<open>entity band layer relations_only mode\<close>\<close>
  | Describe string "layer_band option" "u32 option" bool describe_mode
    \<comment> \<open>\<open>prompt mode layers band verbose top relations_only with_attention\<close>\<close>
  | Explain string explain_mode "layer_range option" "layer_band option" bool "u32 option" bool bool
    \<comment> \<open>\<open>entity relation target layer confidence alpha mode\<close>\<close>
  | Insert string string string "u32 option" "f32 option" "f32 option" insert_mode
  | Delete "condition list"
    \<comment> \<open>\<open>set conditions\<close>\<close>
  | Update "assignment list" "condition list"
    \<comment> \<open>\<open>source target conflict\<close>\<close>
  | Merge string "string option" "conflict_strategy option"
    \<comment> \<open>\<open>max_iters floor ceiling\<close>\<close>
  | Rebalance "u32 option" "f32 option" "f32 option"
    \<comment> \<open>\<open>layer with_examples mode\<close>\<close>
  | ShowRelations "u32 option" bool describe_mode
  | ShowLayers "layer_range option"
    \<comment> \<open>\<open>layer conditions limit\<close>\<close>
  | ShowFeatures u32 "condition list" "u32 option"
    \<comment> \<open>\<open>layer limit\<close>\<close>
  | ShowEntities "u32 option" "u32 option"
  | ShowModels
  | Stats "string option"
  | ShowCompactStatus
  | CompactMinor
    \<comment> \<open>\<open>full lambda\<close>\<close>
  | CompactMajor bool "f32 option"
  | BeginPatch string
  | SavePatch
  | ApplyPatch string
  | ShowPatches
  | RemovePatch string
    \<comment> \<open>\<open>prompt answer decompose layers positions save\<close>\<close>
  | Trace string "string option" bool "layer_range option" "trace_position_mode option"
      "string option"
    \<comment> \<open>\<open>left right\<close>\<close>
  | Pipe statement statement

end
