(* ===== verification/LqlParserCore.thy ===== *)
theory LqlParserCore
  imports LqlToken LqlAst
begin

text \<open>
  The parser's state, its token helpers and the small parsers the statements share
  (\<open>crates/larql-lql/src/parser/helpers.rs\<close> and the struct of \<open>parser/mod.rs\<close>).

  A method \<open>fn f(&mut self) -> Result<A, ParseError>\<close> is an \<^emph>\<open>action\<close>: it takes the parser and
  returns the error or the value with the parser after it. \<open>pbind\<close> is the \<open>?\<close> operator
  followed by the next statement. An error drops the parser, as its callers do.
\<close>

section \<open>State, errors, actions\<close>

record parser =
  ps_tokens :: "token list"
  ps_pos :: nat

text \<open>
  One constructor per \<open>format!\<close> of a \<open>ParseError\<close>, with its arguments. \<open>OutOfFuel\<close> is not an error
  of the code: it marks a loop of the model that ran out of fuel, and \<open>parse\<close> never returns it.
\<close>

datatype (plugins only: code size) parse_error =
    UnexpectedTrailingToken token
  | ExpectedStatementKeyword token
  | InvalidRange u32 u32
  | ExpectedWalkMode token
  | ExpectedOutputFormat token
  | ExpectedConflictStrategy token
  | UnknownComponent string
  | ExpectedComponentName token
  | ExpectedFieldName token
  | ExpectedComparison token
  | ExpectedNumberAfterDash token
  | ExpectedValue token
  | ExpectedKeyword keyword token
  | ExpectedStringLiteral token
  | ExpectedPositiveInteger token
  | ExpectedNumber token
  | ExpectedToken token token
  | ExpectedNamed string token
  | ExpectedCompileConflict token
  | OnConflictOnlyForVindex
  | ExpectedEqAfterLambda
  | ExpectedLambdaAfterWith
  | ExpectedMinorOrMajor token
  | ExpectedInsertMode token
  | ExpectedShowObject token
  | OutOfFuel

type_synonym 'a action = "parser \<Rightarrow> parse_error + ('a \<times> parser)"

definition new_parser :: "token list \<Rightarrow> parser" where
  "new_parser tokens = \<lparr>ps_tokens = tokens, ps_pos = 0\<rparr>"

definition preturn :: "'a \<Rightarrow> 'a action" where
  "preturn a p = Inr (a, p)"

definition pfail :: "parse_error \<Rightarrow> 'a action" where
  "pfail e p = Inl e"

definition pbind :: "'a action \<Rightarrow> ('a \<Rightarrow> 'b action) \<Rightarrow> 'b action" where
  "pbind m k p = (case m p of Inl e \<Rightarrow> Inl e | Inr (a, p') \<Rightarrow> k a p')"

definition pmap :: "('a \<Rightarrow> 'b) \<Rightarrow> 'a action \<Rightarrow> 'b action" where
  "pmap f m = pbind m (\<lambda>a. preturn (f a))"

section \<open>Token helpers\<close>

definition peek :: "parser \<Rightarrow> token" where
  "peek p = (if ps_pos p < length (ps_tokens p) then ps_tokens p ! ps_pos p else TEof)"

definition advance :: "parser \<Rightarrow> parser" where
  "advance p = p\<lparr>ps_pos := ps_pos p + 1\<rparr>"

text \<open>\<open>Err(ParseError(format!("... {:?}", self.peek())))\<close>.\<close>

definition pfail_at :: "(token \<Rightarrow> parse_error) \<Rightarrow> 'a action" where
  "pfail_at f p = Inl (f (peek p))"

text \<open>An arm \<open>t => { self.advance(); hit }\<close> of a match on \<open>self.peek()\<close>, else the arms after it.\<close>

definition on_token :: "token \<Rightarrow> 'a action \<Rightarrow> 'a action \<Rightarrow> 'a action" where
  "on_token t hit other p = (if peek p = t then hit (advance p) else other p)"

definition check_keyword :: "keyword \<Rightarrow> parser \<Rightarrow> bool" where
  "check_keyword kw p \<longleftrightarrow> peek p = TKeyword kw"

definition check_comma :: "parser \<Rightarrow> bool" where
  "check_comma p \<longleftrightarrow> peek p = TComma"

definition check_pipe :: "parser \<Rightarrow> bool" where
  "check_pipe p \<longleftrightarrow> peek p = TPipe"

definition on_keyword :: "keyword \<Rightarrow> 'a action \<Rightarrow> 'a action \<Rightarrow> 'a action" where
  "on_keyword kw hit other p = (if check_keyword kw p then hit (advance p) else other p)"

definition eat_semicolon :: "unit action" where
  "eat_semicolon = on_token TSemicolon (preturn ()) (preturn ())"

definition expect_keyword :: "keyword \<Rightarrow> unit action" where
  "expect_keyword kw = on_keyword kw (preturn ()) (pfail_at (ExpectedKeyword kw))"

definition expect_string :: "string action" where
  "expect_string p =
     (case peek p of TStringLit s \<Rightarrow> Inr (s, advance p) | t \<Rightarrow> Inl (ExpectedStringLiteral t))"

definition expect_u32 :: "u32 action" where
  "expect_u32 p =
     (case peek p of
        TIntegerLit n \<Rightarrow>
          (if 0 \<le> sint n then Inr (u32_of_i64 n, advance p)
           else Inl (ExpectedPositiveInteger (TIntegerLit n)))
      | t \<Rightarrow> Inl (ExpectedPositiveInteger t))"

definition expect_f32 :: "f32 action" where
  "expect_f32 p =
     (case peek p of
        TNumberLit n \<Rightarrow> Inr (f32_of_f64 n, advance p)
      | TIntegerLit n \<Rightarrow> Inr (f32_of_i64 n, advance p)
      | t \<Rightarrow> Inl (ExpectedNumber t))"

text \<open>\<open>std::mem::discriminant\<close>.\<close>

primrec discriminant :: "token \<Rightarrow> nat" where
    "discriminant (TKeyword _) = 0"
  | "discriminant (TStringLit _) = 1"
  | "discriminant (TNumberLit _) = 2"
  | "discriminant (TIntegerLit _) = 3"
  | "discriminant TStar = 4"
  | "discriminant TComma = 5"
  | "discriminant TSemicolon = 6"
  | "discriminant TLParen = 7"
  | "discriminant TRParen = 8"
  | "discriminant TDot = 9"
  | "discriminant TPipe = 10"
  | "discriminant TEq = 11"
  | "discriminant TNeq = 12"
  | "discriminant TGt = 13"
  | "discriminant TLt = 14"
  | "discriminant TGte = 15"
  | "discriminant TLte = 16"
  | "discriminant TDash = 17"
  | "discriminant (TIdent _) = 18"
  | "discriminant TEof = 19"

definition expect_token :: "token \<Rightarrow> unit action" where
  "expect_token expected p =
     (let tok = peek p in
      if discriminant tok = discriminant expected then Inr ((), advance p)
      else Inl (ExpectedToken expected tok))"

definition expect_ident_eq :: "string \<Rightarrow> unit action" where
  "expect_ident_eq name p =
     (case peek p of
        TIdent s \<Rightarrow> (if eq_ignore_ascii_case s name then Inr ((), advance p)
                     else Inl (ExpectedNamed name (TIdent s)))
      | TKeyword kw \<Rightarrow> (if eq_ignore_ascii_case (as_field_name kw) name then Inr ((), advance p)
                        else Inl (ExpectedNamed name (TKeyword kw)))
      | t \<Rightarrow> Inl (ExpectedNamed name t))"

definition expect_field_name :: "string action" where
  "expect_field_name p =
     (case peek p of
        TIdent name \<Rightarrow> Inr (name, advance p)
      | TKeyword kw \<Rightarrow> Inr (as_field_name kw, advance p)
      | t \<Rightarrow> Inl (ExpectedFieldName t))"

section \<open>Loops over tokens\<close>

text \<open>
  \<open>loop { match self.peek() { ... } }\<close>: the body gets the local variables and either continues with
  new ones or breaks. The fuel is one more than the number of tokens left; the theory
  \<open>LqlParserLaws\<close> shows it is enough for every loop of the parser.
\<close>

datatype 'o flow = Continue 'o | Break 'o

primrec loop_fuel :: "nat \<Rightarrow> ('o \<Rightarrow> 'o flow action) \<Rightarrow> 'o \<Rightarrow> 'o action" where
  "loop_fuel 0 body vars p = Inl OutOfFuel"
| "loop_fuel (Suc n) body vars p =
     (case body vars p of
        Inl e \<Rightarrow> Inl e
      | Inr (Continue vars', p') \<Rightarrow> loop_fuel n body vars' p'
      | Inr (Break vars', p') \<Rightarrow> Inr (vars', p'))"

abbreviation ps_rest :: "parser \<Rightarrow> token list" where
  "ps_rest p \<equiv> drop (ps_pos p) (ps_tokens p)"

definition token_loop_run :: "('o \<Rightarrow> 'o flow action) \<Rightarrow> 'o \<Rightarrow> 'o action" where
  "token_loop_run body vars p = loop_fuel (Suc (length (ps_rest p))) body vars p"

abbreviation continue :: "'o \<Rightarrow> 'o flow action" where
  "continue vars \<equiv> preturn (Continue vars)"

abbreviation break :: "'o \<Rightarrow> 'o flow action" where
  "break vars \<equiv> preturn (Break vars)"

text \<open>\<open>vec![item()?]\<close>, then \<open>while sep { advance; push(item()?) }\<close>.\<close>

definition separated_body :: "token \<Rightarrow> 'a action \<Rightarrow> 'a list \<Rightarrow> 'a list flow action" where
  "separated_body sep item xs =
     on_token sep (pbind item (\<lambda>x. continue (xs @ [x]))) (break xs)"

definition separated_list :: "token \<Rightarrow> 'a action \<Rightarrow> 'a list action" where
  "separated_list sep item = pbind item (\<lambda>x. token_loop_run (separated_body sep item) [x])"

section \<open>Composite parsers\<close>

definition parse_vindex_ref :: "vindex_ref action" where
  "parse_vindex_ref = on_keyword (Noun KCurrent) (preturn VindexCurrent) (pmap VindexPath expect_string)"

definition parse_range :: "layer_range action" where
  "parse_range =
     pbind expect_u32 (\<lambda>start.
     pbind (expect_token TDash) (\<lambda>_.
     pbind expect_u32 (\<lambda>end.
     if end < start then pfail (InvalidRange start end)
     else preturn \<lparr>rg_start = start, rg_end = end\<rparr>)))"

text \<open>\<open>ALL\<close> not followed by \<open>LAYERS\<close> puts the cursor back (\<open>self.pos = saved\<close>).\<close>

definition try_parse_layer_band :: "layer_band option action" where
  "try_parse_layer_band p =
     (if check_keyword (Clause KAll) p then
        (if check_keyword (Noun KLayers) (advance p)
         then Inr (Some BandAll, advance (advance p)) else Inr (None, p))
      else
        on_keyword (Opt KSyntax) (preturn (Some BandSyntax)) (
        on_keyword (Opt KKnowledge) (preturn (Some BandKnowledge)) (
        on_keyword (Opt KOutput) (preturn (Some BandOutput)) (
        preturn None))) p)"

definition parse_walk_mode :: "walk_mode action" where
  "parse_walk_mode =
     on_keyword (Opt KHybrid) (preturn WalkHybrid) (
     on_keyword (Opt KPure) (preturn WalkPure) (
     on_keyword (Opt KDense) (preturn WalkDense) (
     pfail_at ExpectedWalkMode)))"

definition parse_output_format :: "output_format action" where
  "parse_output_format =
     on_keyword (Opt KSafetensors) (preturn FormatSafetensors) (
     on_keyword (Opt KGguf) (preturn FormatGguf) (
     pfail_at ExpectedOutputFormat))"

definition parse_conflict_strategy :: "conflict_strategy action" where
  "parse_conflict_strategy =
     on_keyword (Opt KKeepSource) (preturn KeepSource) (
     on_keyword (Opt KKeepTarget) (preturn KeepTarget) (
     on_keyword (Opt KHighestConfidence) (preturn HighestConfidence) (
     pfail_at ExpectedConflictStrategy)))"

text \<open>The arm for an unquoted identifier, compared in lower case.\<close>

definition component_of_ident :: "string \<Rightarrow> lql_component option" where
  "component_of_ident s =
     map_of [(''ffn_gate'', FfnGate), (''ffn_down'', FfnDown), (''ffn_up'', FfnUp),
       (''embeddings'', Embeddings), (''attn_ov'', AttnOv), (''attn_qk'', AttnQk)] (to_lowercase s)"

definition parse_component_ident :: "lql_component action" where
  "parse_component_ident p =
     (case peek p of
        TIdent s \<Rightarrow> (case component_of_ident s of
                       Some c \<Rightarrow> Inr (c, advance p) | None \<Rightarrow> Inl (UnknownComponent s))
      | t \<Rightarrow> Inl (ExpectedComponentName t))"

definition parse_component :: "lql_component action" where
  "parse_component =
     on_keyword (Opt KFfnGate) (preturn FfnGate) (
     on_keyword (Opt KFfnDown) (preturn FfnDown) (
     on_keyword (Opt KFfnUp) (preturn FfnUp) (
     on_keyword (Noun KEmbeddings) (preturn Embeddings) (
     on_keyword (Opt KAttnOv) (preturn AttnOv) (
     on_keyword (Opt KAttnQk) (preturn AttnQk) (
     parse_component_ident))))))"

definition parse_component_list :: "lql_component list action" where
  "parse_component_list = separated_list TComma parse_component"

definition parse_field :: "field action" where
  "parse_field = on_token TStar (preturn FieldStar) (pmap FieldNamed expect_field_name)"

definition parse_field_list :: "field list action" where
  "parse_field_list = on_token TStar (preturn [FieldStar]) (separated_list TComma parse_field)"

definition parse_compare_op :: "compare_op action" where
  "parse_compare_op =
     on_token TEq (preturn OpEq) (
     on_token TNeq (preturn OpNeq) (
     on_token TGt (preturn OpGt) (
     on_token TLt (preturn OpLt) (
     on_token TGte (preturn OpGte) (
     on_token TLte (preturn OpLte) (
     on_keyword (Clause KLike) (preturn OpLike) (
     on_keyword (Clause KIn) (preturn OpIn) (
     pfail_at ExpectedComparison))))))))"

text \<open>The number after a dash: negated.\<close>

definition parse_negative :: "lql_value action" where
  "parse_negative p =
     (case peek p of
        TNumberLit n \<Rightarrow> Inr (VNumber (f64_neg n), advance p)
      | TIntegerLit n \<Rightarrow> Inr (VInteger (- n), advance p)
      | t \<Rightarrow> Inl (ExpectedNumberAfterDash t))"

text \<open>\<open>parse_value\<close> calls itself for the items of a list: the fuel bounds the nesting.\<close>

definition parse_scalar :: "lql_value action" where
  "parse_scalar p =
     (case peek p of
        TStringLit s \<Rightarrow> Inr (VString s, advance p)
      | TNumberLit n \<Rightarrow> Inr (VNumber n, advance p)
      | TIntegerLit n \<Rightarrow> Inr (VInteger n, advance p)
      | t \<Rightarrow> Inl (ExpectedValue t))"

definition parse_list_items :: "lql_value action \<Rightarrow> lql_value list action" where
  "parse_list_items item p = (if peek p = TRParen then Inr ([], p) else separated_list TComma item p)"

primrec parse_value_fuel :: "nat \<Rightarrow> lql_value action" where
  "parse_value_fuel 0 = pfail OutOfFuel"
| "parse_value_fuel (Suc n) =
     on_token TDash parse_negative (
     on_token TLParen
       (pbind (parse_list_items (parse_value_fuel n)) (\<lambda>items.
        pbind (expect_token TRParen) (\<lambda>_.
        preturn (VList items))))
     parse_scalar)"

definition parse_value :: "lql_value action" where
  "parse_value p = parse_value_fuel (Suc (length (ps_rest p))) p"

definition parse_condition :: "condition action" where
  "parse_condition =
     pbind expect_field_name (\<lambda>field.
     pbind parse_compare_op (\<lambda>op.
     pbind parse_value (\<lambda>value.
     preturn \<lparr>cd_field = field, cd_op = op, cd_value = value\<rparr>)))"

definition parse_conditions :: "condition list action" where
  "parse_conditions = separated_list (TKeyword (Clause KAnd)) parse_condition"

definition parse_order_by :: "order_by action" where
  "parse_order_by =
     pbind expect_field_name (\<lambda>field.
     pbind (on_keyword (Clause KDesc) (preturn True) (
            on_keyword (Clause KAsc) (preturn False) (preturn False))) (\<lambda>descending.
     preturn \<lparr>ob_field = field, ob_descending = descending\<rparr>))"

definition parse_assignment :: "assignment action" where
  "parse_assignment =
     pbind expect_field_name (\<lambda>field.
     pbind (expect_token TEq) (\<lambda>_.
     pbind parse_value (\<lambda>value.
     preturn \<lparr>as_field = field, as_value = value\<rparr>)))"

definition parse_assignments :: "assignment list action" where
  "parse_assignments = separated_list TComma parse_assignment"

end
