(* ===== verification/LqlParser.thy ===== *)
theory LqlParser
  imports LqlParserCore
begin

text \<open>
  The statement parsers (\<open>crates/larql-lql/src/parser/\<close>: \<open>lifecycle.rs\<close>, \<open>query.rs\<close>,
  \<open>mutation.rs\<close>, \<open>introspection.rs\<close>, \<open>patch.rs\<close>, \<open>trace.rs\<close>) and the entry points of
  \<open>mod.rs\<close>. The mutable locals of a clause loop are a record; the loop body is a definition of
  its own, \<open><statement>_clause\<close>.
\<close>

text \<open>\<open>if self.check_keyword(kw) { self.advance(); Some(f()?) } else { None }\<close>.\<close>

definition optional_clause :: "keyword \<Rightarrow> 'a action \<Rightarrow> 'a option action" where
  "optional_clause kw f = on_keyword kw (pmap Some f) (preturn None)"

text \<open>An identifier arm \<open>Token::Ident(ref s) if s.eq_ignore_ascii_case(name)\<close>.\<close>

definition on_ident :: "string \<Rightarrow> 'a action \<Rightarrow> 'a action \<Rightarrow> 'a action" where
  "on_ident name hit other p =
     (if (case peek p of TIdent s \<Rightarrow> eq_ignore_ascii_case s name | _ \<Rightarrow> False)
      then hit (advance p) else other p)"

text \<open>An arm \<open>matches!(self.peek(), Token::IntegerLit(_))\<close> or \<open>StringLit(_)\<close> that does not consume.\<close>

definition if_integer :: "'a action \<Rightarrow> 'a action \<Rightarrow> 'a action" where
  "if_integer hit other p = (case peek p of TIntegerLit n \<Rightarrow> hit p | _ \<Rightarrow> other p)"

definition if_string :: "'a action \<Rightarrow> 'a action \<Rightarrow> 'a action" where
  "if_string hit other p = (case peek p of TStringLit s \<Rightarrow> hit p | _ \<Rightarrow> other p)"

definition at_layer :: "u32 action" where
  "at_layer = pbind (expect_keyword (Noun KLayer)) (\<lambda>_. expect_u32)"

section \<open>Lifecycle\<close>

record extract_vars =
  ev_components :: "lql_component list option"
  ev_layers :: "layer_range option"
  ev_level :: extract_level

definition extract_clause :: "extract_vars \<Rightarrow> extract_vars flow action" where
  "extract_clause v =
     on_keyword (Noun KComponents)
       (pbind parse_component_list (\<lambda>cs. continue (v\<lparr>ev_components := Some cs\<rparr>))) (
     on_keyword (Noun KLayers)
       (pbind parse_range (\<lambda>r. continue (v\<lparr>ev_layers := Some r\<rparr>))) (
     on_keyword (Clause KWith)
       (on_keyword (Noun KInference) (continue (v\<lparr>ev_level := LevelInference\<rparr>)) (
        on_keyword (Clause KAll) (continue (v\<lparr>ev_level := LevelAll\<rparr>)) (
        pbind (expect_keyword (Noun KWeights)) (\<lambda>_. continue (v\<lparr>ev_level := LevelInference\<rparr>))))) (
     break v)))"

definition parse_extract :: "statement action" where
  "parse_extract =
     pbind (expect_keyword (Stmt KExtract)) (\<lambda>_.
     pbind (expect_keyword (Noun KModel)) (\<lambda>_.
     pbind expect_string (\<lambda>model.
     pbind (expect_keyword (Clause KInto)) (\<lambda>_.
     pbind expect_string (\<lambda>output.
     pbind (token_loop_run extract_clause
       \<lparr>ev_components = None, ev_layers = None, ev_level = LevelBrowse\<rparr>) (\<lambda>v.
     pbind eat_semicolon (\<lambda>_.
     preturn (Extract model output (ev_components v) (ev_layers v) (ev_level v)))))))))"

definition parse_compile_target :: "compile_target action" where
  "parse_compile_target =
     on_keyword (Noun KModel) (preturn TargetModel) (
     on_ident ''vindex'' (preturn TargetVindex) (
     pbind (expect_keyword (Noun KModel)) (\<lambda>_. preturn TargetModel)))"

definition parse_compile_conflict :: "compile_conflict action" where
  "parse_compile_conflict =
     on_keyword (Opt KLastWins) (preturn ConflictLastWins) (
     on_keyword (Opt KHighestConfidence) (preturn ConflictHighestConfidence) (
     on_keyword (Opt KFail) (preturn ConflictFail) (
     pfail_at ExpectedCompileConflict)))"

definition on_conflict_clause ::
  "compile_target \<Rightarrow> compile_conflict option \<Rightarrow> compile_conflict option flow action" where
  "on_conflict_clause target on_conflict =
     on_keyword (Clause KOn)
       (pbind (expect_keyword (Noun KConflict)) (\<lambda>_.
        pbind parse_compile_conflict (\<lambda>strat.
        if target \<noteq> TargetVindex then pfail OnConflictOnlyForVindex
        else continue (Some strat))))
     (break on_conflict)"

definition parse_compile :: "statement action" where
  "parse_compile =
     pbind (expect_keyword (Stmt KCompile)) (\<lambda>_.
     pbind parse_vindex_ref (\<lambda>vindex.
     pbind (expect_keyword (Clause KInto)) (\<lambda>_.
     pbind parse_compile_target (\<lambda>target.
     pbind expect_string (\<lambda>output.
     pbind (optional_clause (Noun KFormat) parse_output_format) (\<lambda>format.
     pbind (token_loop_run (on_conflict_clause target) None) (\<lambda>on_conflict.
     pbind eat_semicolon (\<lambda>_.
     preturn (Compile vindex output format target on_conflict)))))))))"

record diff_vars =
  dv_layer :: "u32 option"
  dv_relation :: "string option"
  dv_limit :: "u32 option"
  dv_into_patch :: "string option"

text \<open>
  The \<open>INTO PATCH\<close> arm returns from inside the loop with \<open>into_patch\<close> set, after the same
  \<open>eat_semicolon\<close> as the code after the loop: here it breaks with the path.
\<close>

definition diff_clause :: "diff_vars \<Rightarrow> diff_vars flow action" where
  "diff_clause v =
     on_keyword (Noun KLayer) (pbind expect_u32 (\<lambda>n. continue (v\<lparr>dv_layer := Some n\<rparr>))) (
     on_keyword (Noun KRelation) (pbind expect_string (\<lambda>s. continue (v\<lparr>dv_relation := Some s\<rparr>))) (
     on_keyword (Noun KRelations) (pbind expect_string (\<lambda>s. continue (v\<lparr>dv_relation := Some s\<rparr>))) (
     on_keyword (Clause KLimit) (pbind expect_u32 (\<lambda>n. continue (v\<lparr>dv_limit := Some n\<rparr>))) (
     on_keyword (Clause KInto)
       (pbind (expect_keyword (Noun KPatch)) (\<lambda>_.
        pbind expect_string (\<lambda>path. break (v\<lparr>dv_into_patch := Some path\<rparr>)))) (
     break v)))))"

definition parse_diff :: "statement action" where
  "parse_diff =
     pbind (expect_keyword (Stmt KDiff)) (\<lambda>_.
     pbind parse_vindex_ref (\<lambda>a.
     pbind parse_vindex_ref (\<lambda>b.
     pbind (token_loop_run diff_clause
       \<lparr>dv_layer = None, dv_relation = None, dv_limit = None, dv_into_patch = None\<rparr>) (\<lambda>v.
     pbind eat_semicolon (\<lambda>_.
     preturn (Diff a b (dv_layer v) (dv_relation v) (dv_limit v) (dv_into_patch v)))))))"

definition parse_use :: "statement action" where
  "parse_use =
     pbind (expect_keyword (Stmt KUse)) (\<lambda>_.
     pbind (on_keyword (Noun KModel)
              (pbind expect_string (\<lambda>ident.
               pbind (on_keyword (Opt KAutoExtract) (preturn True) (preturn False)) (\<lambda>auto_extract.
               preturn (UseModel ident auto_extract))))
            (on_keyword (Opt KRemote) (pmap UseRemote expect_string)
            (pmap UseVindex expect_string))) (\<lambda>target.
     pbind eat_semicolon (\<lambda>_.
     preturn (Use target))))"

definition parse_compact_lambda :: "f32 action" where
  "parse_compact_lambda =
     on_ident ''LAMBDA''
       (on_token TEq expect_f32 (pfail ExpectedEqAfterLambda))
     (pfail ExpectedLambdaAfterWith)"

definition parse_compact :: "statement action" where
  "parse_compact =
     pbind (expect_keyword (Stmt KCompact)) (\<lambda>_.
     on_ident ''MINOR'' (pbind eat_semicolon (\<lambda>_. preturn CompactMinor)) (
     on_ident ''MAJOR''
       (pbind (on_keyword (Clause KAll) (preturn True) (
               on_ident ''FULL'' (preturn True) (preturn False))) (\<lambda>full.
        pbind (optional_clause (Clause KWith) parse_compact_lambda) (\<lambda>lambda.
        pbind eat_semicolon (\<lambda>_.
        preturn (CompactMajor full lambda))))) (
     pfail_at ExpectedMinorOrMajor)))"

section \<open>Query\<close>

record walk_vars =
  wv_top :: "u32 option"
  wv_layers :: "layer_range option"
  wv_mode :: "walk_mode option"
  wv_compare :: bool

definition walk_clause :: "walk_vars \<Rightarrow> walk_vars flow action" where
  "walk_clause v =
     on_keyword (Clause KTop) (pbind expect_u32 (\<lambda>n. continue (v\<lparr>wv_top := Some n\<rparr>))) (
     on_keyword (Noun KLayers)
       (on_keyword (Clause KAll) (continue v)
         (pbind parse_range (\<lambda>r. continue (v\<lparr>wv_layers := Some r\<rparr>)))) (
     on_keyword (Noun KMode) (pbind parse_walk_mode (\<lambda>m. continue (v\<lparr>wv_mode := Some m\<rparr>))) (
     on_keyword (Opt KCompare) (continue (v\<lparr>wv_compare := True\<rparr>)) (
     break v))))"

definition parse_walk :: "statement action" where
  "parse_walk =
     pbind (expect_keyword (Stmt KWalk)) (\<lambda>_.
     pbind expect_string (\<lambda>prompt.
     pbind (token_loop_run walk_clause
       \<lparr>wv_top = None, wv_layers = None, wv_mode = None, wv_compare = False\<rparr>) (\<lambda>v.
     pbind eat_semicolon (\<lambda>_.
     preturn (Walk prompt (wv_top v) (wv_layers v) (wv_mode v) (wv_compare v))))))"

definition route_clause :: "infer_route \<Rightarrow> infer_route flow action" where
  "route_clause r =
     on_keyword (Opt KFallback) (continue (r\<lparr>ir_fallback := True\<rparr>)) (
     on_keyword (Noun KTopk) (pbind expect_u32 (\<lambda>n. continue (r\<lparr>ir_topk := Some n\<rparr>))) (
     on_keyword (Opt KExit) (continue (r\<lparr>ir_exit := True\<rparr>)) (
     break r)))"

record infer_vars =
  iv_top :: "u32 option"
  iv_compare :: bool
  iv_route :: "infer_route option"

definition infer_clause :: "infer_vars \<Rightarrow> infer_vars flow action" where
  "infer_clause v =
     on_keyword (Clause KTop) (pbind expect_u32 (\<lambda>n. continue (v\<lparr>iv_top := Some n\<rparr>))) (
     on_keyword (Opt KCompare) (continue (v\<lparr>iv_compare := True\<rparr>)) (
     on_keyword (Noun KRoute)
       (pbind (expect_keyword (Clause KVerify)) (\<lambda>_.
        pbind (token_loop_run route_clause default_infer_route) (\<lambda>r.
        continue (v\<lparr>iv_route := Some r\<rparr>)))) (
     break v)))"

definition parse_infer :: "statement action" where
  "parse_infer =
     pbind (expect_keyword (Stmt KInfer)) (\<lambda>_.
     pbind expect_string (\<lambda>prompt.
     pbind (token_loop_run infer_clause \<lparr>iv_top = None, iv_compare = False, iv_route = None\<rparr>) (\<lambda>v.
     pbind eat_semicolon (\<lambda>_.
     preturn (Infer prompt (iv_top v) (iv_compare v) (iv_route v))))))"

definition parse_select_source :: "select_source action" where
  "parse_select_source =
     on_keyword (Noun KEdges) (preturn FromEdges) (
     on_keyword (Noun KFeatures) (preturn FromFeatures) (
     on_keyword (Noun KEntities) (preturn FromEntities) (
     pbind (expect_keyword (Noun KEdges)) (\<lambda>_. preturn FromEdges))))"

definition parse_nearest :: "nearest_clause action" where
  "parse_nearest =
     pbind (expect_keyword (Clause KTo)) (\<lambda>_.
     pbind expect_string (\<lambda>entity.
     pbind (expect_keyword (Clause KAt)) (\<lambda>_.
     pbind at_layer (\<lambda>layer.
     preturn \<lparr>nc_entity = entity, nc_layer = layer\<rparr>))))"

definition parse_where :: "condition list action" where
  "parse_where = on_keyword (Clause KWhere) parse_conditions (preturn [])"

definition parse_select :: "statement action" where
  "parse_select =
     pbind (expect_keyword (Stmt KSelect)) (\<lambda>_.
     pbind parse_field_list (\<lambda>fields.
     pbind (expect_keyword (Clause KFrom)) (\<lambda>_.
     pbind parse_select_source (\<lambda>source.
     pbind (optional_clause (Clause KNearest) parse_nearest) (\<lambda>nearest.
     pbind parse_where (\<lambda>conditions.
     pbind (optional_clause (Clause KOrder)
              (pbind (expect_keyword (Clause KBy)) (\<lambda>_. parse_order_by))) (\<lambda>order.
     pbind (optional_clause (Clause KLimit) expect_u32) (\<lambda>limit.
     pbind eat_semicolon (\<lambda>_.
     preturn (Select source fields conditions nearest order limit))))))))))"

text \<open>The default arm of DESCRIBE and EXPLAIN: a layer band, or the end of the loop.\<close>

definition band_or_break :: "(layer_band \<Rightarrow> 'o) \<Rightarrow> 'o \<Rightarrow> 'o flow action" where
  "band_or_break upd v =
     pbind try_parse_layer_band (\<lambda>b. case b of Some b \<Rightarrow> continue (upd b) | None \<Rightarrow> break v)"

record describe_vars =
  sv_band :: "layer_band option"
  sv_layer :: "u32 option"
  sv_relations_only :: bool
  sv_mode :: describe_mode

definition describe_clause :: "describe_vars \<Rightarrow> describe_vars flow action" where
  "describe_clause v =
     on_keyword (Clause KAt) (pbind at_layer (\<lambda>n. continue (v\<lparr>sv_layer := Some n\<rparr>))) (
     on_keyword (Noun KRelations)
       (pbind (expect_keyword (Clause KOnly)) (\<lambda>_. continue (v\<lparr>sv_relations_only := True\<rparr>))) (
     on_keyword (Opt KVerbose) (continue (v\<lparr>sv_mode := DescribeVerbose\<rparr>)) (
     on_keyword (Opt KBrief) (continue (v\<lparr>sv_mode := DescribeBrief\<rparr>)) (
     on_keyword (Opt KRaw) (continue (v\<lparr>sv_mode := DescribeRaw\<rparr>)) (
     band_or_break (\<lambda>b. v\<lparr>sv_band := Some b\<rparr>) v)))))"

definition parse_describe :: "statement action" where
  "parse_describe =
     pbind (expect_keyword (Stmt KDescribe)) (\<lambda>_.
     pbind expect_string (\<lambda>entity.
     pbind (token_loop_run describe_clause
       \<lparr>sv_band = None, sv_layer = None, sv_relations_only = False,
        sv_mode = default_describe_mode\<rparr>) (\<lambda>v.
     pbind eat_semicolon (\<lambda>_.
     preturn (Describe entity (sv_band v) (sv_layer v) (sv_relations_only v) (sv_mode v))))))"

record explain_vars =
  xv_layers :: "layer_range option"
  xv_band :: "layer_band option"
  xv_verbose :: bool
  xv_top :: "u32 option"
  xv_relations_only :: bool
  xv_with_attention :: bool

definition explain_clause :: "explain_vars \<Rightarrow> explain_vars flow action" where
  "explain_clause v =
     on_keyword (Noun KLayers) (pbind parse_range (\<lambda>r. continue (v\<lparr>xv_layers := Some r\<rparr>))) (
     on_keyword (Opt KVerbose) (continue (v\<lparr>xv_verbose := True\<rparr>)) (
     on_keyword (Clause KTop) (pbind expect_u32 (\<lambda>n. continue (v\<lparr>xv_top := Some n\<rparr>))) (
     on_keyword (Noun KRelations)
       (pbind (expect_keyword (Clause KOnly)) (\<lambda>_. continue (v\<lparr>xv_relations_only := True\<rparr>))) (
     on_keyword (Clause KWith)
       (pbind (expect_keyword (Noun KAttention)) (\<lambda>_. continue (v\<lparr>xv_with_attention := True\<rparr>))) (
     band_or_break (\<lambda>b. v\<lparr>xv_band := Some b\<rparr>) v)))))"

definition parse_explain :: "statement action" where
  "parse_explain =
     pbind (expect_keyword (Stmt KExplain)) (\<lambda>_.
     pbind (on_keyword (Stmt KInfer) (preturn ExplainInfer)
              (pbind (expect_keyword (Stmt KWalk)) (\<lambda>_. preturn ExplainWalk))) (\<lambda>mode.
     pbind expect_string (\<lambda>prompt.
     pbind (token_loop_run explain_clause
       \<lparr>xv_layers = None, xv_band = None, xv_verbose = False, xv_top = None,
        xv_relations_only = False, xv_with_attention = False\<rparr>) (\<lambda>v.
     pbind eat_semicolon (\<lambda>_.
     preturn (Explain prompt mode (xv_layers v) (xv_band v) (xv_verbose v) (xv_top v)
       (xv_relations_only v) (xv_with_attention v)))))))"

section \<open>Mutation\<close>

record insert_vars =
  nv_layer :: "u32 option"
  nv_confidence :: "f32 option"
  nv_alpha :: "f32 option"
  nv_mode :: insert_mode

text \<open>\<open>if matches!(self.peek(), Token::Eq) { self.advance(); }\<close>.\<close>

definition eat_eq :: "unit action" where
  "eat_eq = on_token TEq (preturn ()) (preturn ())"

definition parse_insert_mode :: "insert_mode action" where
  "parse_insert_mode =
     on_keyword (Opt KKnn) (preturn InsertKnn) (
     on_keyword (Opt KCompose) (preturn InsertCompose) (
     pfail_at ExpectedInsertMode))"

definition insert_clause :: "insert_vars \<Rightarrow> insert_vars flow action" where
  "insert_clause v =
     on_keyword (Clause KAt) (pbind at_layer (\<lambda>n. continue (v\<lparr>nv_layer := Some n\<rparr>))) (
     on_keyword (Noun KConfidence) (pbind expect_f32 (\<lambda>c. continue (v\<lparr>nv_confidence := Some c\<rparr>))) (
     on_keyword (Noun KAlpha) (pbind expect_f32 (\<lambda>c. continue (v\<lparr>nv_alpha := Some c\<rparr>))) (
     on_keyword (Noun KMode)
       (pbind eat_eq (\<lambda>_.
        pbind parse_insert_mode (\<lambda>m. continue (v\<lparr>nv_mode := m\<rparr>)))) (
     break v))))"

definition parse_insert :: "statement action" where
  "parse_insert =
     pbind (expect_keyword (Stmt KInsert)) (\<lambda>_.
     pbind (expect_keyword (Clause KInto)) (\<lambda>_.
     pbind (expect_keyword (Noun KEdges)) (\<lambda>_.
     pbind (expect_token TLParen) (\<lambda>_.
     pbind (expect_ident_eq ''entity'') (\<lambda>_.
     pbind (expect_token TComma) (\<lambda>_.
     pbind (expect_ident_eq ''relation'') (\<lambda>_.
     pbind (expect_token TComma) (\<lambda>_.
     pbind (expect_ident_eq ''target'') (\<lambda>_.
     pbind (expect_token TRParen) (\<lambda>_.
     pbind (expect_keyword (Clause KValues)) (\<lambda>_.
     pbind (expect_token TLParen) (\<lambda>_.
     pbind expect_string (\<lambda>entity.
     pbind (expect_token TComma) (\<lambda>_.
     pbind expect_string (\<lambda>relation.
     pbind (expect_token TComma) (\<lambda>_.
     pbind expect_string (\<lambda>target.
     pbind (expect_token TRParen) (\<lambda>_.
     pbind (token_loop_run insert_clause
       \<lparr>nv_layer = None, nv_confidence = None, nv_alpha = None, nv_mode = default_insert_mode\<rparr>) (\<lambda>v.
     pbind eat_semicolon (\<lambda>_.
     preturn (Insert entity relation target (nv_layer v) (nv_confidence v) (nv_alpha v)
       (nv_mode v))))))))))))))))))))))"

definition parse_delete :: "statement action" where
  "parse_delete =
     pbind (expect_keyword (Stmt KDelete)) (\<lambda>_.
     pbind (expect_keyword (Clause KFrom)) (\<lambda>_.
     pbind (expect_keyword (Noun KEdges)) (\<lambda>_.
     pbind (expect_keyword (Clause KWhere)) (\<lambda>_.
     pbind parse_conditions (\<lambda>conditions.
     pbind eat_semicolon (\<lambda>_.
     preturn (Delete conditions)))))))"

definition parse_update :: "statement action" where
  "parse_update =
     pbind (expect_keyword (Stmt KUpdate)) (\<lambda>_.
     pbind (expect_keyword (Noun KEdges)) (\<lambda>_.
     pbind (expect_keyword (Clause KSet)) (\<lambda>_.
     pbind parse_assignments (\<lambda>assigns.
     pbind (expect_keyword (Clause KWhere)) (\<lambda>_.
     pbind parse_conditions (\<lambda>conditions.
     pbind eat_semicolon (\<lambda>_.
     preturn (Update assigns conditions))))))))"

record rebalance_vars =
  rv_max_iters :: "u32 option"
  rv_floor :: "f32 option"
  rv_ceiling :: "f32 option"

definition rebalance_clause :: "rebalance_vars \<Rightarrow> rebalance_vars flow action" where
  "rebalance_clause v =
     on_keyword (Clause KUntil) (pbind (expect_keyword (Opt KConverged)) (\<lambda>_. continue v)) (
     on_keyword (Clause KMax) (pbind expect_u32 (\<lambda>n. continue (v\<lparr>rv_max_iters := Some n\<rparr>))) (
     on_keyword (Noun KFloor)
       (pbind eat_eq (\<lambda>_. pbind expect_f32 (\<lambda>x. continue (v\<lparr>rv_floor := Some x\<rparr>)))) (
     on_keyword (Noun KCeiling)
       (pbind eat_eq (\<lambda>_. pbind expect_f32 (\<lambda>x. continue (v\<lparr>rv_ceiling := Some x\<rparr>)))) (
     break v))))"

definition parse_rebalance :: "statement action" where
  "parse_rebalance =
     pbind (expect_keyword (Stmt KRebalance)) (\<lambda>_.
     pbind (token_loop_run rebalance_clause
       \<lparr>rv_max_iters = None, rv_floor = None, rv_ceiling = None\<rparr>) (\<lambda>v.
     pbind eat_semicolon (\<lambda>_.
     preturn (Rebalance (rv_max_iters v) (rv_floor v) (rv_ceiling v)))))"

definition parse_merge :: "statement action" where
  "parse_merge =
     pbind (expect_keyword (Stmt KMerge)) (\<lambda>_.
     pbind expect_string (\<lambda>source.
     pbind (optional_clause (Clause KInto) expect_string) (\<lambda>target.
     pbind (optional_clause (Clause KOn)
              (pbind (expect_keyword (Noun KConflict)) (\<lambda>_. parse_conflict_strategy))) (\<lambda>conflict.
     pbind eat_semicolon (\<lambda>_.
     preturn (Merge source target conflict))))))"

section \<open>Introspection\<close>

record relations_vars =
  lv_layer :: "u32 option"
  lv_with_examples :: bool
  lv_mode :: describe_mode

definition show_relations_clause :: "relations_vars \<Rightarrow> relations_vars flow action" where
  "show_relations_clause v =
     on_keyword (Clause KAt) (pbind at_layer (\<lambda>n. continue (v\<lparr>lv_layer := Some n\<rparr>))) (
     on_keyword (Clause KWith)
       (pbind (expect_keyword (Noun KExamples)) (\<lambda>_. continue (v\<lparr>lv_with_examples := True\<rparr>))) (
     on_keyword (Opt KVerbose) (continue (v\<lparr>lv_mode := DescribeVerbose\<rparr>)) (
     on_keyword (Opt KBrief) (continue (v\<lparr>lv_mode := DescribeBrief\<rparr>)) (
     on_keyword (Opt KRaw) (continue (v\<lparr>lv_mode := DescribeRaw\<rparr>)) (
     break v)))))"

definition show_relations :: "statement action" where
  "show_relations =
     pbind (token_loop_run show_relations_clause
       \<lparr>lv_layer = None, lv_with_examples = False, lv_mode = default_describe_mode\<rparr>) (\<lambda>v.
     pbind eat_semicolon (\<lambda>_.
     preturn (ShowRelations (lv_layer v) (lv_with_examples v) (lv_mode v))))"

definition show_layers :: "statement action" where
  "show_layers =
     pbind (on_keyword (Clause KRange) (pmap Some parse_range)
              (if_integer (pmap Some parse_range) (preturn None))) (\<lambda>range.
     pbind eat_semicolon (\<lambda>_.
     preturn (ShowLayers range)))"

definition show_features :: "statement action" where
  "show_features =
     pbind expect_u32 (\<lambda>layer.
     pbind parse_where (\<lambda>conditions.
     pbind (optional_clause (Clause KLimit) expect_u32) (\<lambda>limit.
     pbind eat_semicolon (\<lambda>_.
     preturn (ShowFeatures layer conditions limit)))))"

definition show_entities :: "statement action" where
  "show_entities =
     pbind (on_keyword (Clause KAt) (pmap Some at_layer)
              (if_integer (pmap Some expect_u32) (preturn None))) (\<lambda>layer.
     pbind (optional_clause (Clause KLimit) expect_u32) (\<lambda>limit.
     pbind eat_semicolon (\<lambda>_.
     preturn (ShowEntities layer limit))))"

definition parse_show :: "statement action" where
  "parse_show =
     pbind (expect_keyword (Stmt KShow)) (\<lambda>_.
     on_keyword (Noun KRelations) show_relations (
     on_keyword (Noun KLayers) show_layers (
     on_keyword (Noun KFeatures) show_features (
     on_keyword (Noun KEntities) show_entities (
     on_keyword (Noun KModels) (pbind eat_semicolon (\<lambda>_. preturn ShowModels)) (
     on_keyword (Noun KPatches) (pbind eat_semicolon (\<lambda>_. preturn ShowPatches)) (
     on_keyword (Stmt KCompact)
       (pbind (expect_keyword (Noun KStatus)) (\<lambda>_.
        pbind eat_semicolon (\<lambda>_. preturn ShowCompactStatus))) (
     pfail_at ExpectedShowObject))))))))"

definition parse_stats :: "statement action" where
  "parse_stats =
     pbind (expect_keyword (Stmt KStats)) (\<lambda>_.
     pbind (if_string (pmap Some expect_string) (preturn None)) (\<lambda>vindex.
     pbind eat_semicolon (\<lambda>_.
     preturn (Stats vindex))))"

section \<open>Patches\<close>

definition parse_begin :: "statement action" where
  "parse_begin =
     pbind (expect_keyword (Stmt KBegin)) (\<lambda>_.
     pbind (expect_keyword (Noun KPatch)) (\<lambda>_.
     pbind expect_string (\<lambda>path.
     pbind eat_semicolon (\<lambda>_.
     preturn (BeginPatch path)))))"

definition parse_save :: "statement action" where
  "parse_save =
     pbind (expect_keyword (Stmt KSave)) (\<lambda>_.
     pbind (expect_keyword (Noun KPatch)) (\<lambda>_.
     pbind eat_semicolon (\<lambda>_.
     preturn SavePatch)))"

definition parse_apply :: "statement action" where
  "parse_apply =
     pbind (expect_keyword (Stmt KApply)) (\<lambda>_.
     pbind (expect_keyword (Noun KPatch)) (\<lambda>_.
     pbind expect_string (\<lambda>path.
     pbind eat_semicolon (\<lambda>_.
     preturn (ApplyPatch path)))))"

definition parse_remove :: "statement action" where
  "parse_remove =
     pbind (expect_keyword (Stmt KRemove)) (\<lambda>_.
     pbind (expect_keyword (Noun KPatch)) (\<lambda>_.
     pbind expect_string (\<lambda>path.
     pbind eat_semicolon (\<lambda>_.
     preturn (RemovePatch path)))))"

section \<open>Trace\<close>

record trace_vars =
  tv_answer :: "string option"
  tv_decompose :: bool
  tv_layers :: "layer_range option"
  tv_positions :: "trace_position_mode option"
  tv_save :: "string option"

definition trace_clause :: "trace_vars \<Rightarrow> trace_vars flow action" where
  "trace_clause v =
     on_keyword (Clause KFor) (pbind expect_string (\<lambda>s. continue (v\<lparr>tv_answer := Some s\<rparr>))) (
     on_keyword (Opt KDecompose) (continue (v\<lparr>tv_decompose := True\<rparr>)) (
     on_keyword (Noun KLayers) (pbind parse_range (\<lambda>r. continue (v\<lparr>tv_layers := Some r\<rparr>))) (
     on_keyword (Noun KPositions)
       (on_keyword (Clause KAll) (continue (v\<lparr>tv_positions := Some PositionAll\<rparr>)) (
        on_ident ''last'' (continue (v\<lparr>tv_positions := Some PositionLast\<rparr>)) (
        continue (v\<lparr>tv_positions := Some PositionLast\<rparr>)))) (
     on_keyword (Stmt KSave) (pbind expect_string (\<lambda>s. continue (v\<lparr>tv_save := Some s\<rparr>))) (
     break v)))))"

definition parse_trace :: "statement action" where
  "parse_trace =
     pbind (expect_keyword (Stmt KTrace)) (\<lambda>_.
     pbind expect_string (\<lambda>prompt.
     pbind (token_loop_run trace_clause
       \<lparr>tv_answer = None, tv_decompose = False, tv_layers = None, tv_positions = None,
        tv_save = None\<rparr>) (\<lambda>v.
     pbind eat_semicolon (\<lambda>_.
     preturn (Trace prompt (tv_answer v) (tv_decompose v) (tv_layers v) (tv_positions v)
       (tv_save v))))))"

section \<open>Entry points\<close>

primrec statement_parser :: "stmt_keyword \<Rightarrow> statement action" where
    "statement_parser KExtract = parse_extract"
  | "statement_parser KCompile = parse_compile"
  | "statement_parser KDiff = parse_diff"
  | "statement_parser KUse = parse_use"
  | "statement_parser KWalk = parse_walk"
  | "statement_parser KInfer = parse_infer"
  | "statement_parser KSelect = parse_select"
  | "statement_parser KDescribe = parse_describe"
  | "statement_parser KExplain = parse_explain"
  | "statement_parser KInsert = parse_insert"
  | "statement_parser KDelete = parse_delete"
  | "statement_parser KUpdate = parse_update"
  | "statement_parser KMerge = parse_merge"
  | "statement_parser KRebalance = parse_rebalance"
  | "statement_parser KShow = parse_show"
  | "statement_parser KStats = parse_stats"
  | "statement_parser KBegin = parse_begin"
  | "statement_parser KSave = parse_save"
  | "statement_parser KApply = parse_apply"
  | "statement_parser KRemove = parse_remove"
  | "statement_parser KTrace = parse_trace"
  | "statement_parser KCompact = parse_compact"

definition parse_statement :: "statement action" where
  "parse_statement p =
     (case peek p of
        TKeyword (Stmt k) \<Rightarrow> statement_parser k p
      | t \<Rightarrow> Inl (ExpectedStatementKeyword t))"

definition parse :: "statement action" where
  "parse =
     pbind parse_statement (\<lambda>stmt.
     pbind (on_token TPipe (pmap (\<lambda>right. Pipe stmt right) parse_statement) (preturn stmt)) (\<lambda>stmt.
     \<lambda>p. if peek p \<noteq> TEof then Inl (UnexpectedTrailingToken (peek p)) else Inr (stmt, p)))"

definition parse_tokens :: "token list \<Rightarrow> parse_error + statement" where
  "parse_tokens tokens = map_sum id fst (parse (new_parser tokens))"

end
