(* ===== verification/LqlParserLaws.thy ===== *)
theory LqlParserLaws
  imports LqlParser Prelude
begin

text \<open>
  What every parser action keeps: the token vector is never changed, the cursor never moves back
  nor past the end, the fuel of the loops is never exhausted, and the value satisfies a
  postcondition. \<open>meets n m Q\<close> says so of the action \<open>m\<close> on every parser with fewer than \<open>n\<close> tokens
  left; \<open>Q c a\<close> gets \<open>c\<close>, whether tokens were consumed, and the value \<open>a\<close>. The rules are in
  the form of weakest preconditions and collected in \<open>progress_intros\<close>.
\<close>

section \<open>The calculus\<close>

definition moved :: "parser \<Rightarrow> parser \<Rightarrow> bool" where
  "moved p p' \<longleftrightarrow> ps_tokens p' = ps_tokens p \<and> ps_pos p \<le> ps_pos p' \<and>
     ps_pos p' \<le> max (ps_pos p) (length (ps_tokens p))"

definition consumed :: "parser \<Rightarrow> parser \<Rightarrow> bool" where
  "consumed p p' \<longleftrightarrow> ps_pos p < ps_pos p'"

definition remaining :: "parser \<Rightarrow> nat" where
  "remaining p = length (ps_rest p)"

definition meets :: "nat \<Rightarrow> 'a action \<Rightarrow> (bool \<Rightarrow> 'a \<Rightarrow> bool) \<Rightarrow> bool" where
  "meets n m Q \<longleftrightarrow> (\<forall>p. remaining p < n \<longrightarrow>
     (case m p of Inl e \<Rightarrow> e \<noteq> OutOfFuel
      | Inr (a, p') \<Rightarrow> moved p p' \<and> Q (consumed p p') a))"

lemma meetsI:
  assumes "\<And>p e. m p = Inl e \<Longrightarrow> remaining p < n \<Longrightarrow> e \<noteq> OutOfFuel"
    and "\<And>p a p'. m p = Inr (a, p') \<Longrightarrow> remaining p < n \<Longrightarrow> moved p p' \<and> Q (consumed p p') a"
  shows "meets n m Q"
  using assms by (auto simp: meets_def split: sum.splits prod.splits)

lemma meets_Inl: "meets n m Q \<Longrightarrow> m p = Inl e \<Longrightarrow> remaining p < n \<Longrightarrow> e \<noteq> OutOfFuel"
  by (force simp: meets_def)

lemma meets_Inr:
  "meets n m Q \<Longrightarrow> m p = Inr (a, p') \<Longrightarrow> remaining p < n \<Longrightarrow> moved p p' \<and> Q (consumed p p') a"
  by (force simp: meets_def)

lemma meets_mono:
  "meets n m Q \<Longrightarrow> n' \<le> n \<Longrightarrow> (\<And>c a. Q c a \<Longrightarrow> Q' c a) \<Longrightarrow> meets n' m Q'"
  unfolding meets_def by (fastforce split: sum.splits)

lemma moved_refl [simp]: "moved p p"
  by (simp add: moved_def)

lemma moved_trans: "moved p q \<Longrightarrow> moved q r \<Longrightarrow> moved p r"
  by (auto simp: moved_def)

lemma consumed_refl [simp]: "\<not> consumed p p"
  by (simp add: consumed_def)

lemma consumed_trans:
  "moved p q \<Longrightarrow> moved q r \<Longrightarrow> consumed p r \<longleftrightarrow> consumed p q \<or> consumed q r"
  by (auto simp: moved_def consumed_def)

lemma moved_rest: "moved p q \<Longrightarrow> remaining q \<le> remaining p"
  by (auto simp: moved_def remaining_def)

lemma consumed_rest: "moved p q \<Longrightarrow> consumed p q \<Longrightarrow> remaining q < remaining p"
  by (auto simp: moved_def consumed_def remaining_def)

lemma peek_rest: "peek p = (case ps_rest p of [] \<Rightarrow> TEof | t # _ \<Rightarrow> t)"
  by (auto simp: peek_def drop_Cons_nth)

lemma peek_in_range: "peek p \<noteq> TEof \<Longrightarrow> ps_pos p < length (ps_tokens p)"
  by (auto simp: peek_def split: if_splits)

lemma advance_moved:
  assumes "peek p \<noteq> TEof"
  shows "moved p (advance p)" "consumed p (advance p)" "remaining (advance p) < remaining p"
  using peek_in_range [OF assms] by (auto simp: moved_def consumed_def advance_def remaining_def)

section \<open>Rules of the combinators\<close>

lemma meets_preturn [progress_intros]: "Q False a \<Longrightarrow> meets n (preturn a) Q"
  by (simp add: meets_def preturn_def)

lemma meets_pfail [progress_intros]: "e \<noteq> OutOfFuel \<Longrightarrow> meets n (pfail e) Q"
  by (simp add: meets_def pfail_def)

lemma meets_pfail_at [progress_intros]: "(\<And>t. f t \<noteq> OutOfFuel) \<Longrightarrow> meets n (pfail_at f) Q"
  by (simp add: meets_def pfail_at_def)

lemma meets_pbind [progress_intros]:
  assumes m: "meets n m (\<lambda>c a. meets n (k a) (\<lambda>d. Q (c \<or> d)))"
  shows "meets n (pbind m k) Q"
proof (rule meetsI)
  fix p e
  assume e: "pbind m k p = Inl e" and n: "remaining p < n"
  show "e \<noteq> OutOfFuel"
  proof (cases "m p")
    case (Inl e')
    with meets_Inl [OF m Inl n] e show ?thesis by (simp add: pbind_def)
  next
    case (Inr r)
    then obtain a p' where r: "m p = Inr (a, p')" by (cases r) simp
    from meets_Inr [OF m r n] have mv: "moved p p'"
      and km: "meets n (k a) (\<lambda>d. Q (consumed p p' \<or> d))" by simp_all
    from moved_rest [OF mv] n have "remaining p' < n" by (rule order.strict_trans1)
    with e r show ?thesis by (intro meets_Inl [OF km, of p']) (simp_all add: pbind_def)
  qed
next
  fix p b q
  assume e: "pbind m k p = Inr (b, q)" and n: "remaining p < n"
  then obtain a p' where r: "m p = Inr (a, p')" and k: "k a p' = Inr (b, q)"
    by (auto simp: pbind_def split: sum.splits)
  from meets_Inr [OF m r n] have mv: "moved p p'"
    and km: "meets n (k a) (\<lambda>d. Q (consumed p p' \<or> d))" by simp_all
  from moved_rest [OF mv] n have "remaining p' < n" by (rule order.strict_trans1)
  from meets_Inr [OF km k this] have q: "moved p' q" "Q (consumed p p' \<or> consumed p' q) b" by simp_all
  show "moved p q \<and> Q (consumed p q) b"
    using q moved_trans [OF mv q(1)] consumed_trans [OF mv q(1)] by simp
qed

lemma meets_pmap [progress_intros]: "meets n m (\<lambda>c a. Q c (f a)) \<Longrightarrow> meets n (pmap f m) Q"
  unfolding pmap_def by (rule meets_pbind, erule meets_mono) (auto intro: meets_preturn)

text \<open>After a token is consumed one token fewer is left: the form the nested values need.\<close>

lemma meets_advance:
  assumes hit: "meets n hit (\<lambda>d. Q True)" and t: "peek p \<noteq> TEof" and p: "remaining p < Suc n"
  shows "case hit (advance p) of Inl e \<Rightarrow> e \<noteq> OutOfFuel
     | Inr (a, p') \<Rightarrow> moved p p' \<and> Q (consumed p p') a"
proof -
  note mv = advance_moved [OF t]
  from mv(3) p have n: "remaining (advance p) < n" by simp
  show ?thesis
  proof (cases "hit (advance p)")
    case (Inl e)
    with meets_Inl [OF hit Inl n] show ?thesis by simp
  next
    case (Inr r)
    then obtain a p' where r: "hit (advance p) = Inr (a, p')" by (cases r) simp
    from meets_Inr [OF hit r n] have q: "moved (advance p) p'" "Q True a" by simp_all
    with r mv moved_trans [OF mv(1) q(1)] consumed_trans [OF mv(1) q(1)] show ?thesis by simp
  qed
qed

lemma meets_on_token_less:
  assumes "t \<noteq> TEof" "meets n hit (\<lambda>d. Q True)" "meets (Suc n) other Q"
  shows "meets (Suc n) (on_token t hit other) Q"
  unfolding meets_def on_token_def
  using meets_advance [where Q = Q, OF assms(2)] assms(1,3) unfolding meets_def by auto

lemma meets_on_token [progress_intros]:
  assumes "t \<noteq> TEof" "meets n hit (\<lambda>d. Q True)" "meets n other Q"
  shows "meets n (on_token t hit other) Q"
proof (cases n)
  case (Suc k)
  have "meets k hit (\<lambda>d. Q True)" by (rule meets_mono [OF assms(2)]) (simp_all add: Suc)
  from meets_on_token_less [where Q = Q, OF assms(1) this] assms(3) show ?thesis by (simp add: Suc)
qed (simp add: meets_def)

lemma on_keyword_token: "on_keyword kw = on_token (TKeyword kw)"
  by (rule ext)+ (simp add: on_keyword_def on_token_def check_keyword_def)

lemma meets_on_keyword [progress_intros]:
  "meets n hit (\<lambda>d. Q True) \<Longrightarrow> meets n other Q \<Longrightarrow> meets n (on_keyword kw hit other) Q"
  unfolding on_keyword_token by (rule meets_on_token) auto

text \<open>An action that reads the token under the cursor and consumes it or fails.\<close>

lemma meets_reader:
  assumes "\<And>p e. m p = Inl e \<Longrightarrow> e \<noteq> OutOfFuel"
    and "\<And>p a p'. m p = Inr (a, p') \<Longrightarrow> peek p \<noteq> TEof \<and> p' = advance p \<and> Q True a"
  shows "meets n m Q"
proof (rule meetsI)
  fix p a p'
  assume "m p = Inr (a, p')"
  with assms(2) have "peek p \<noteq> TEof" "p' = advance p" "Q True a" by blast+
  then show "moved p p' \<and> Q (consumed p p') a" by (simp add: advance_moved)
qed (use assms(1) in blast)

lemma meets_on_ident [progress_intros]:
  assumes "meets n hit (\<lambda>d. Q True)" "meets n other Q"
  shows "meets n (on_ident name hit other) Q"
proof -
  have "on_ident name hit other p =
      (case peek p of TIdent s \<Rightarrow> if eq_ignore_ascii_case s name then on_token (TIdent s) hit other p
         else other p | _ \<Rightarrow> other p)" for p
    by (simp add: on_ident_def on_token_def split: token.split)
  moreover have "meets n (on_token (TIdent s) hit other) Q" for s
    using assms by (intro meets_on_token) simp_all
  ultimately show ?thesis
    using assms(2) unfolding meets_def by (simp split: token.split)
qed

lemma meets_if [progress_intros]:
  "(b \<Longrightarrow> meets n m1 Q) \<Longrightarrow> (\<not> b \<Longrightarrow> meets n m2 Q) \<Longrightarrow> meets n (if b then m1 else m2) Q"
  by simp

lemma meets_if_integer [progress_intros]:
  "meets n hit Q \<Longrightarrow> meets n other Q \<Longrightarrow> meets n (if_integer hit other) Q"
  unfolding meets_def if_integer_def by (auto split: token.splits)

lemma meets_if_string [progress_intros]:
  "meets n hit Q \<Longrightarrow> meets n other Q \<Longrightarrow> meets n (if_string hit other) Q"
  unfolding meets_def if_string_def by (auto split: token.splits)

section \<open>Token helpers\<close>

lemma meets_eat_semicolon [progress_intros]:
  "Q True () \<Longrightarrow> Q False () \<Longrightarrow> meets n eat_semicolon Q"
  unfolding eat_semicolon_def by (intro progress_intros) simp_all

lemma meets_expect_keyword [progress_intros]: "Q True () \<Longrightarrow> meets n (expect_keyword kw) Q"
  unfolding expect_keyword_def by (intro progress_intros) simp_all

lemma meets_expect_string [progress_intros]: "(\<And>s. Q True s) \<Longrightarrow> meets n expect_string Q"
  by (rule meets_reader) (auto simp: expect_string_def split: token.splits)

lemma meets_expect_u32 [progress_intros]: "(\<And>x. Q True x) \<Longrightarrow> meets n expect_u32 Q"
  by (rule meets_reader) (auto simp: expect_u32_def split: token.splits if_splits)

lemma meets_expect_f32 [progress_intros]: "(\<And>x. Q True x) \<Longrightarrow> meets n expect_f32 Q"
  by (rule meets_reader) (auto simp: expect_f32_def split: token.splits)

lemma discriminant_eof: "discriminant t = 19 \<longleftrightarrow> t = TEof"
  by (cases t) simp_all

lemma meets_expect_token [progress_intros]:
  "t \<noteq> TEof \<Longrightarrow> Q True () \<Longrightarrow> meets n (expect_token t) Q"
  by (rule meets_reader)
    (auto simp: expect_token_def Let_def split: if_splits simp: discriminant_eof dest: sym)

lemma meets_expect_ident_eq [progress_intros]: "Q True () \<Longrightarrow> meets n (expect_ident_eq name) Q"
  by (rule meets_reader) (auto simp: expect_ident_eq_def split: token.splits if_splits)

lemma meets_expect_field_name [progress_intros]:
  "(\<And>s. Q True s) \<Longrightarrow> meets n expect_field_name Q"
  by (rule meets_reader) (auto simp: expect_field_name_def split: token.splits)

lemma meets_optional_clause [progress_intros]:
  "meets n f (\<lambda>c a. Q True (Some a)) \<Longrightarrow> Q False None \<Longrightarrow> meets n (optional_clause kw f) Q"
  unfolding optional_clause_def by (intro progress_intros) simp_all

section \<open>Loops\<close>

text \<open>
  The interface between a loop and its body: an iteration that continues consumes a token, and
  every iteration keeps the invariant \<open>I\<close> of the loop's variables. Under it the fuel of
  \<open>token_loop_run\<close> is enough, and the loop satisfies its own equation.
\<close>

locale token_loop =
  fixes n :: nat and body :: "'o \<Rightarrow> 'o flow action" and I :: "'o \<Rightarrow> bool"
  assumes body_meets: "I v \<Longrightarrow>
    meets n (body v) (\<lambda>c f. case f of Continue v' \<Rightarrow> c \<and> I v' | Break v' \<Rightarrow> I v')"
begin

lemma body_continue:
  "I v \<Longrightarrow> remaining p < n \<Longrightarrow> body v p = Inr (Continue v', p') \<Longrightarrow>
     moved p p' \<and> I v' \<and> remaining p' < remaining p"
  using meets_Inr [OF body_meets, of v p "Continue v'" p'] consumed_rest [of p p'] by auto

lemma body_break:
  "I v \<Longrightarrow> remaining p < n \<Longrightarrow> body v p = Inr (Break v', p') \<Longrightarrow> moved p p' \<and> I v'"
  using meets_Inr [OF body_meets, of v p "Break v'" p'] by auto

lemma enough_fuel:
  "I v \<Longrightarrow> remaining p < n \<Longrightarrow> remaining p < k \<Longrightarrow>
     loop_fuel k body v p = token_loop_run body v p"
proof (induction k arbitrary: v p rule: less_induct)
  case (less k)
  obtain j where k: "k = Suc j" using less.prems(3) by (cases k) auto
  have step: "loop_fuel i body v' p' = loop_fuel j body v' p'"
    if i: "i = remaining p" and b: "body v p = Inr (Continue v', p')" for v' p' i
  proof (cases "i < k")
    case True
    from body_continue [OF less.prems(1,2) b] less.prems(2) k i
    have "I v'" "remaining p' < n" "remaining p' < i" "remaining p' < j"
      using less.prems(3) by auto
    then show ?thesis using less.IH [OF True] less.IH [of j v' p'] k by simp
  next
    case False
    with less.prems(3) i show ?thesis by simp
  qed
  show ?case
    unfolding token_loop_run_def k remaining_def [symmetric]
    by (auto simp: step split: sum.split flow.split)
qed

lemma unfold:
  assumes "I v" "remaining p < n"
  shows "token_loop_run body v p =
    (case body v p of
       Inl e \<Rightarrow> Inl e
     | Inr (Continue v', p') \<Rightarrow> token_loop_run body v' p'
     | Inr (Break v', p') \<Rightarrow> Inr (v', p'))"
proof -
  have "loop_fuel (remaining p) body v' p' = token_loop_run body v' p'"
    if b: "body v p = Inr (Continue v', p')" for v' p'
    using body_continue [OF assms b] assms(2) by (intro enough_fuel) auto
  then show ?thesis
    unfolding token_loop_run_def [of body v] remaining_def [symmetric]
    by (auto split: sum.split flow.split)
qed

lemma induct_loop:
  assumes "I v" "remaining p < n"
  shows "case token_loop_run body v p of Inl e \<Rightarrow> e \<noteq> OutOfFuel
     | Inr (v', p') \<Rightarrow> moved p p' \<and> I v'"
  using assms
proof (induction "remaining p" arbitrary: v p rule: less_induct)
  case less
  show ?case
  proof (cases "body v p")
    case (Inl e)
    with meets_Inl [OF body_meets [OF less.prems(1)] Inl less.prems(2)] show ?thesis
      by (simp add: unfold [OF less.prems])
  next
    case (Inr r)
    then obtain f p' where r: "body v p = Inr (f, p')" by (cases r) simp
    show ?thesis
    proof (cases f)
      case (Break v')
      with body_break [OF less.prems] r show ?thesis by (simp add: unfold [OF less.prems])
    next
      case (Continue v')
      with body_continue [OF less.prems] r
      have mv: "moved p p'" "I v'" "remaining p' < remaining p" by simp_all
      from less.hyps [OF mv(3,2)] mv less.prems(2)
      have "case token_loop_run body v' p' of Inl e \<Rightarrow> e \<noteq> OutOfFuel
         | Inr (v'', p'') \<Rightarrow> moved p' p'' \<and> I v''" by simp
      then show ?thesis
        using moved_trans [OF mv(1)]
        by (auto simp: unfold [OF less.prems] r Continue split: sum.splits)
    qed
  qed
qed

lemma meets_loop: "I v \<Longrightarrow> (\<And>c v'. I v' \<Longrightarrow> Q c v') \<Longrightarrow> meets n (token_loop_run body v) Q"
  unfolding meets_def
proof (intro allI impI)
  fix p
  assume I: "I v" and Q: "\<And>c v'. I v' \<Longrightarrow> Q c v'" and p: "remaining p < n"
  from induct_loop [OF I p] Q show "case token_loop_run body v p of Inl e \<Rightarrow> e \<noteq> OutOfFuel
     | Inr (v', p') \<Rightarrow> moved p p' \<and> Q (consumed p p') v'"
    by (simp split: sum.split_asm sum.split prod.split_asm prod.split)
qed

end

text \<open>\<open>vec![item()?]\<close> followed by a loop on the separator gives a non-empty list of items.\<close>

locale item_parser =
  fixes n :: nat and sep :: token and item :: "'a action" and P :: "'a \<Rightarrow> bool"
  assumes sep_not_eof: "sep \<noteq> TEof" and item_meets: "meets n item (\<lambda>c a. P a)"

sublocale item_parser \<subseteq>
  items: token_loop n "separated_body sep item" "\<lambda>xs. xs \<noteq> [] \<and> list_all P xs"
proof
  fix xs
  assume xs: "xs \<noteq> [] \<and> list_all P xs"
  show "meets n (separated_body sep item xs) (\<lambda>c f. case f of
      Continue v' \<Rightarrow> c \<and> v' \<noteq> [] \<and> list_all P v' | Break v' \<Rightarrow> v' \<noteq> [] \<and> list_all P v')"
    unfolding separated_body_def
    by (intro meets_on_token meets_pbind meets_preturn sep_not_eof meets_mono [OF item_meets])
      (use xs in auto)
qed

context item_parser
begin

lemma meets_separated_list:
  "(\<And>c xs. xs \<noteq> [] \<Longrightarrow> list_all P xs \<Longrightarrow> Q c xs) \<Longrightarrow> meets n (separated_list sep item) Q"
  unfolding separated_list_def
  by (intro meets_pbind meets_mono [OF item_meets] items.meets_loop) auto

end

end
