(* ===== verification/LqlWellFormed.thy ===== *)
theory LqlWellFormed
  imports LqlParserLaws
begin

text \<open>
  What a successful parse promises about the statement (\<open>wf_statement\<close>), the loops of the
  statement parsers as interpretations of \<open>token_loop\<close>, and the law of every parser: it keeps the
  tokens, moves forward, does not exhaust its fuel and returns a well-formed value.
\<close>

section \<open>Well-formed statements\<close>

definition wf_range :: "layer_range \<Rightarrow> bool" where
  "wf_range r \<longleftrightarrow> rg_start r \<le> rg_end r"

abbreviation wf_range_opt :: "layer_range option \<Rightarrow> bool" where
  "wf_range_opt \<equiv> pred_option wf_range"

text \<open>
  Layer ranges are ordered, lists that the grammar requires are not empty, \<open>ON CONFLICT\<close> comes only
  with \<open>INTO VINDEX\<close>, and a pipe joins two statements that are not pipes.
\<close>

primrec wf_simple :: "statement \<Rightarrow> bool" where
    "wf_simple (Extract _ _ components layers _) \<longleftrightarrow>
       components \<noteq> Some [] \<and> wf_range_opt layers"
  | "wf_simple (Compile _ _ _ target on_conflict) \<longleftrightarrow>
       (on_conflict = None \<or> target = TargetVindex)"
  | "wf_simple (Diff _ _ _ _ _ _) \<longleftrightarrow> True"
  | "wf_simple (Use _) \<longleftrightarrow> True"
  | "wf_simple (Walk _ _ layers _ _) \<longleftrightarrow> wf_range_opt layers"
  | "wf_simple (Infer _ _ _ _) \<longleftrightarrow> True"
  | "wf_simple (Select _ fs _ _ _ _) \<longleftrightarrow> fs \<noteq> []"
  | "wf_simple (Describe _ _ _ _ _) \<longleftrightarrow> True"
  | "wf_simple (Explain _ _ layers _ _ _ _ _) \<longleftrightarrow>
       wf_range_opt layers"
  | "wf_simple (Insert _ _ _ _ _ _ _) \<longleftrightarrow> True"
  | "wf_simple (Delete conditions) \<longleftrightarrow> conditions \<noteq> []"
  | "wf_simple (Update assigns conditions) \<longleftrightarrow> assigns \<noteq> [] \<and> conditions \<noteq> []"
  | "wf_simple (Merge _ _ _) \<longleftrightarrow> True"
  | "wf_simple (Rebalance _ _ _) \<longleftrightarrow> True"
  | "wf_simple (ShowRelations _ _ _) \<longleftrightarrow> True"
  | "wf_simple (ShowLayers layers) \<longleftrightarrow> wf_range_opt layers"
  | "wf_simple (ShowFeatures _ _ _) \<longleftrightarrow> True"
  | "wf_simple (ShowEntities _ _) \<longleftrightarrow> True"
  | "wf_simple ShowModels \<longleftrightarrow> True"
  | "wf_simple (Stats _) \<longleftrightarrow> True"
  | "wf_simple ShowCompactStatus \<longleftrightarrow> True"
  | "wf_simple CompactMinor \<longleftrightarrow> True"
  | "wf_simple (CompactMajor _ _) \<longleftrightarrow> True"
  | "wf_simple (BeginPatch _) \<longleftrightarrow> True"
  | "wf_simple SavePatch \<longleftrightarrow> True"
  | "wf_simple (ApplyPatch _) \<longleftrightarrow> True"
  | "wf_simple ShowPatches \<longleftrightarrow> True"
  | "wf_simple (RemovePatch _) \<longleftrightarrow> True"
  | "wf_simple (Trace _ _ _ layers _ _) \<longleftrightarrow> wf_range_opt layers"
  | "wf_simple (Pipe _ _) \<longleftrightarrow> False"

definition wf_statement :: "statement \<Rightarrow> bool" where
  "wf_statement s \<longleftrightarrow> (case s of Pipe left right \<Rightarrow> wf_simple left \<and> wf_simple right | _ \<Rightarrow> wf_simple s)"

section \<open>Composite parsers\<close>

lemma meets_parse_vindex_ref [progress_intros]:
  "(\<And>r. Q True r) \<Longrightarrow> meets n parse_vindex_ref Q"
  unfolding parse_vindex_ref_def by (intro progress_intros) simp_all

lemma meets_parse_range [progress_intros]:
  "(\<And>r. wf_range r \<Longrightarrow> Q True r) \<Longrightarrow> meets n parse_range Q"
  unfolding parse_range_def by (intro progress_intros) (auto simp: wf_range_def not_less)

lemma meets_try_parse_layer_band [progress_intros]:
  assumes "\<And>b. Q True (Some b)" "Q False None"
  shows "meets n try_parse_layer_band Q"
proof -
  let ?all_layers = "on_keyword (Clause KAll) (on_keyword (Noun KLayers) (preturn (Some BandAll)) (preturn None))"
  let ?others = "on_keyword (Opt KSyntax) (preturn (Some BandSyntax)) (
    on_keyword (Opt KKnowledge) (preturn (Some BandKnowledge)) (
    on_keyword (Opt KOutput) (preturn (Some BandOutput)) (preturn None)))"
  have others: "meets n ?others Q"
    by (intro progress_intros assms)
  have both: "meets n (?all_layers ?others) (\<lambda>c b. b = None \<or> Q c b)"
    by (intro progress_intros) (simp_all add: assms)
  have "try_parse_layer_band p = (case ?all_layers ?others p of
      Inr (Some b, p') \<Rightarrow> Inr (Some b, p') | _ \<Rightarrow> if check_keyword (Clause KAll) p then Inr (None, p) else ?others p)"
    for p
    by (simp add: try_parse_layer_band_def on_keyword_def preturn_def)
  then show ?thesis
    using others both assms(2) unfolding meets_def
    by (fastforce split: sum.splits option.splits)
qed

lemma meets_parse_walk_mode [progress_intros]: "(\<And>r. Q True r) \<Longrightarrow> meets n parse_walk_mode Q"
  unfolding parse_walk_mode_def by (intro progress_intros) simp_all

lemma meets_parse_output_format [progress_intros]:
  "(\<And>r. Q True r) \<Longrightarrow> meets n parse_output_format Q"
  unfolding parse_output_format_def by (intro progress_intros) simp_all

lemma meets_parse_conflict_strategy [progress_intros]:
  "(\<And>r. Q True r) \<Longrightarrow> meets n parse_conflict_strategy Q"
  unfolding parse_conflict_strategy_def by (intro progress_intros) simp_all

lemma meets_parse_component_ident [progress_intros]:
  "(\<And>r. Q True r) \<Longrightarrow> meets n parse_component_ident Q"
  by (rule meets_reader) (auto simp: parse_component_ident_def split: token.splits option.splits)

lemma meets_parse_component [progress_intros]: "(\<And>r. Q True r) \<Longrightarrow> meets n parse_component Q"
  unfolding parse_component_def by (intro progress_intros) simp_all

interpretation component_list: item_parser n TComma parse_component "\<lambda>_. True" for n
  by unfold_locales (auto intro!: progress_intros)

lemma meets_parse_component_list [progress_intros]:
  "(\<And>c xs. xs \<noteq> [] \<Longrightarrow> Q c xs) \<Longrightarrow> meets n parse_component_list Q"
  unfolding parse_component_list_def by (rule component_list.meets_separated_list)

lemma meets_parse_field [progress_intros]: "(\<And>r. Q True r) \<Longrightarrow> meets n parse_field Q"
  unfolding parse_field_def by (intro progress_intros) simp_all

interpretation field_list: item_parser n TComma parse_field "\<lambda>_. True" for n
  by unfold_locales (auto intro!: progress_intros)

lemma meets_parse_field_list [progress_intros]:
  "(\<And>c xs. xs \<noteq> [] \<Longrightarrow> Q c xs) \<Longrightarrow> meets n parse_field_list Q"
  unfolding parse_field_list_def
  by (intro progress_intros field_list.meets_separated_list) simp_all

lemma meets_parse_compare_op [progress_intros]: "(\<And>r. Q True r) \<Longrightarrow> meets n parse_compare_op Q"
  unfolding parse_compare_op_def by (intro progress_intros) simp_all

lemma meets_parse_negative [progress_intros]: "(\<And>r. Q True r) \<Longrightarrow> meets n parse_negative Q"
  by (rule meets_reader) (auto simp: parse_negative_def split: token.splits)

lemma meets_parse_scalar [progress_intros]: "(\<And>r. Q True r) \<Longrightarrow> meets n parse_scalar Q"
  by (rule meets_reader) (auto simp: parse_scalar_def split: token.splits)

lemma meets_parse_list_items:
  assumes "meets n item (\<lambda>c a. True)"
  shows "meets n (parse_list_items item) (\<lambda>c a. True)"
proof -
  have "meets n (separated_list TComma item) (\<lambda>c a. True)"
    by (rule item_parser.meets_separated_list [OF item_parser.intro [OF _ assms]]) simp_all
  then show ?thesis by (auto simp: meets_def parse_list_items_def)
qed

text \<open>The nested values: the items are read with one token fewer left.\<close>

lemma meets_parse_value_fuel: "meets n (parse_value_fuel n) (\<lambda>c v. c)"
proof (induction n)
  case (Suc n)
  have "meets n (parse_list_items (parse_value_fuel n)) (\<lambda>c vs. True)"
    by (rule meets_parse_list_items, rule meets_mono [OF Suc]) simp_all
  then have "meets n (pbind (parse_list_items (parse_value_fuel n)) (\<lambda>items.
      pbind (expect_token TRParen) (\<lambda>_. preturn (VList items)))) (\<lambda>d v. True)"
    by (intro meets_pbind, elim meets_mono) (auto intro!: progress_intros)
  then show ?case
    unfolding parse_value_fuel.simps
    by (intro meets_on_token_less) (auto intro!: progress_intros)
qed (simp add: meets_def)

lemma meets_parse_value [progress_intros]: "(\<And>v. Q True v) \<Longrightarrow> meets n parse_value Q"
proof -
  assume Q: "\<And>v. Q True v"
  have "meets (Suc (remaining p)) (parse_value_fuel (Suc (remaining p))) Q" for p
    by (rule meets_mono [OF meets_parse_value_fuel]) (use Q in auto)
  then show ?thesis
    unfolding meets_def parse_value_def remaining_def [symmetric] by blast
qed

interpretation value_list: item_parser n TComma parse_value "\<lambda>_. True" for n
  by unfold_locales (auto intro!: progress_intros)

lemma meets_parse_condition [progress_intros]: "(\<And>r. Q True r) \<Longrightarrow> meets n parse_condition Q"
  unfolding parse_condition_def by (intro progress_intros) simp_all

interpretation condition_list: item_parser n "TKeyword (Clause KAnd)" parse_condition "\<lambda>_. True" for n
  by unfold_locales (auto intro!: progress_intros)

lemma meets_parse_conditions [progress_intros]: "(\<And>c xs. xs \<noteq> [] \<Longrightarrow> Q c xs) \<Longrightarrow> meets n parse_conditions Q"
  unfolding parse_conditions_def by (rule condition_list.meets_separated_list)

lemma meets_parse_order_by [progress_intros]: "(\<And>r. Q True r) \<Longrightarrow> meets n parse_order_by Q"
  unfolding parse_order_by_def by (intro progress_intros) simp_all

lemma meets_parse_assignment [progress_intros]: "(\<And>r. Q True r) \<Longrightarrow> meets n parse_assignment Q"
  unfolding parse_assignment_def by (intro progress_intros) simp_all

interpretation assignment_list: item_parser n TComma parse_assignment "\<lambda>_. True" for n
  by unfold_locales (auto intro!: progress_intros)

lemma meets_parse_assignments [progress_intros]: "(\<And>c xs. xs \<noteq> [] \<Longrightarrow> Q c xs) \<Longrightarrow> meets n parse_assignments Q"
  unfolding parse_assignments_def by (rule assignment_list.meets_separated_list)

lemma meets_at_layer [progress_intros]: "(\<And>r. Q True r) \<Longrightarrow> meets n at_layer Q"
  unfolding at_layer_def by (intro progress_intros) simp_all

lemma meets_parse_compile_target [progress_intros]: "(\<And>r. Q True r) \<Longrightarrow> meets n parse_compile_target Q"
  unfolding parse_compile_target_def by (intro progress_intros) simp_all

lemma meets_parse_compile_conflict [progress_intros]: "(\<And>r. Q True r) \<Longrightarrow> meets n parse_compile_conflict Q"
  unfolding parse_compile_conflict_def by (intro progress_intros) simp_all

lemma meets_parse_compact_lambda [progress_intros]: "(\<And>r. Q True r) \<Longrightarrow> meets n parse_compact_lambda Q"
  unfolding parse_compact_lambda_def by (intro progress_intros) simp_all

lemma meets_parse_select_source [progress_intros]: "(\<And>r. Q True r) \<Longrightarrow> meets n parse_select_source Q"
  unfolding parse_select_source_def by (intro progress_intros) simp_all

lemma meets_parse_nearest [progress_intros]: "(\<And>r. Q True r) \<Longrightarrow> meets n parse_nearest Q"
  unfolding parse_nearest_def by (intro progress_intros) simp_all

lemma meets_parse_where [progress_intros]: "(\<And>c xs. Q c xs) \<Longrightarrow> meets n parse_where Q"
  unfolding parse_where_def by (intro progress_intros) simp_all

lemma meets_eat_eq [progress_intros]: "(\<And>c. Q c ()) \<Longrightarrow> meets n eat_eq Q"
  unfolding eat_eq_def by (intro progress_intros) simp_all

lemma meets_parse_insert_mode [progress_intros]: "(\<And>r. Q True r) \<Longrightarrow> meets n parse_insert_mode Q"
  unfolding parse_insert_mode_def by (intro progress_intros) simp_all

lemma meets_band_or_break [progress_intros]:
  "(\<And>b. Q True (Continue (upd b))) \<Longrightarrow> Q False (Break v) \<Longrightarrow> meets n (band_or_break upd v) Q"
  unfolding band_or_break_def by (intro progress_intros) (auto intro: meets_preturn)

section \<open>Clause loops\<close>

interpretation extract_loop: token_loop n extract_clause "\<lambda>v. ev_components v \<noteq> Some [] \<and> wf_range_opt (ev_layers v)" for n
  by unfold_locales (unfold extract_clause_def, intro progress_intros, auto)

interpretation on_conflict_loop: token_loop n "on_conflict_clause target" "\<lambda>v. v = None \<or> target = TargetVindex" for n target
  by unfold_locales (unfold on_conflict_clause_def, intro progress_intros, auto)

interpretation diff_loop: token_loop n diff_clause "\<lambda>_. True" for n
  by unfold_locales (unfold diff_clause_def, intro progress_intros, auto)

interpretation walk_loop: token_loop n walk_clause "\<lambda>v. wf_range_opt (wv_layers v)" for n
  by unfold_locales (unfold walk_clause_def, intro progress_intros, auto)

interpretation route_loop: token_loop n route_clause "\<lambda>_. True" for n
  by unfold_locales (unfold route_clause_def, intro progress_intros, auto)


interpretation infer_loop: token_loop n infer_clause "\<lambda>_. True" for n
  by unfold_locales (unfold infer_clause_def, intro progress_intros route_loop.meets_loop, auto)

interpretation describe_loop: token_loop n describe_clause "\<lambda>_. True" for n
  by unfold_locales (unfold describe_clause_def, intro progress_intros, auto)

interpretation explain_loop: token_loop n explain_clause "\<lambda>v. wf_range_opt (xv_layers v)" for n
  by unfold_locales (unfold explain_clause_def, intro progress_intros, auto)

interpretation insert_loop: token_loop n insert_clause "\<lambda>_. True" for n
  by unfold_locales (unfold insert_clause_def, intro progress_intros, auto)

interpretation rebalance_loop: token_loop n rebalance_clause "\<lambda>_. True" for n
  by unfold_locales (unfold rebalance_clause_def, intro progress_intros, auto)

interpretation relations_loop: token_loop n show_relations_clause "\<lambda>_. True" for n
  by unfold_locales (unfold show_relations_clause_def, intro progress_intros, auto)

interpretation trace_loop: token_loop n trace_clause "\<lambda>v. wf_range_opt (tv_layers v)" for n
  by unfold_locales (unfold trace_clause_def, intro progress_intros, auto)

text \<open>The loop rules, for the statements that run them.\<close>

lemmas meets_clause_loops =
  extract_loop.meets_loop on_conflict_loop.meets_loop diff_loop.meets_loop walk_loop.meets_loop
  infer_loop.meets_loop describe_loop.meets_loop explain_loop.meets_loop insert_loop.meets_loop
  rebalance_loop.meets_loop relations_loop.meets_loop trace_loop.meets_loop

section \<open>Statements\<close>

text \<open>\<open>statement_law m\<close>: the action consumes tokens and returns a well-formed statement.\<close>

abbreviation statement_law :: "nat \<Rightarrow> statement action \<Rightarrow> bool" where
  "statement_law n m \<equiv> meets n m (\<lambda>c s. c \<and> wf_simple s)"

lemma law_extract: "statement_law n parse_extract"
  unfolding parse_extract_def by (intro progress_intros meets_clause_loops) auto

lemma law_compile: "statement_law n parse_compile"
  unfolding parse_compile_def by (intro progress_intros meets_clause_loops) auto

lemma law_diff: "statement_law n parse_diff"
  unfolding parse_diff_def by (intro progress_intros meets_clause_loops) auto

lemma law_use: "statement_law n parse_use"
  unfolding parse_use_def by (intro progress_intros meets_clause_loops) auto

lemma law_compact: "statement_law n parse_compact"
  unfolding parse_compact_def by (intro progress_intros meets_clause_loops) auto

lemma law_walk: "statement_law n parse_walk"
  unfolding parse_walk_def by (intro progress_intros meets_clause_loops) auto

lemma law_infer: "statement_law n parse_infer"
  unfolding parse_infer_def by (intro progress_intros meets_clause_loops) auto

lemma law_select: "statement_law n parse_select"
  unfolding parse_select_def by (intro progress_intros meets_clause_loops) auto

lemma law_describe: "statement_law n parse_describe"
  unfolding parse_describe_def by (intro progress_intros meets_clause_loops) auto

lemma law_explain: "statement_law n parse_explain"
  unfolding parse_explain_def by (intro progress_intros meets_clause_loops) auto

lemma law_insert: "statement_law n parse_insert"
  unfolding parse_insert_def by (intro progress_intros meets_clause_loops) auto

lemma law_delete: "statement_law n parse_delete"
  unfolding parse_delete_def by (intro progress_intros meets_clause_loops) auto

lemma law_update: "statement_law n parse_update"
  unfolding parse_update_def by (intro progress_intros meets_clause_loops) auto

lemma law_rebalance: "statement_law n parse_rebalance"
  unfolding parse_rebalance_def by (intro progress_intros meets_clause_loops) auto

lemma law_merge: "statement_law n parse_merge"
  unfolding parse_merge_def by (intro progress_intros meets_clause_loops) auto

lemma meets_show_relations: "meets n show_relations (\<lambda>c s. wf_simple s)"
  unfolding show_relations_def by (intro progress_intros meets_clause_loops) auto

lemma meets_show_layers: "meets n show_layers (\<lambda>c s. wf_simple s)"
  unfolding show_layers_def by (intro progress_intros meets_clause_loops) auto

lemma meets_show_features: "meets n show_features (\<lambda>c s. wf_simple s)"
  unfolding show_features_def by (intro progress_intros meets_clause_loops) auto

lemma meets_show_entities: "meets n show_entities (\<lambda>c s. wf_simple s)"
  unfolding show_entities_def by (intro progress_intros meets_clause_loops) auto

lemma law_show: "statement_law n parse_show"
  unfolding parse_show_def
  by (intro progress_intros meets_mono [OF meets_show_relations] meets_mono [OF meets_show_layers]
      meets_mono [OF meets_show_features] meets_mono [OF meets_show_entities]) auto

lemma law_stats: "statement_law n parse_stats"
  unfolding parse_stats_def by (intro progress_intros meets_clause_loops) auto

lemma law_begin: "statement_law n parse_begin"
  unfolding parse_begin_def by (intro progress_intros meets_clause_loops) auto

lemma law_save: "statement_law n parse_save"
  unfolding parse_save_def by (intro progress_intros meets_clause_loops) auto

lemma law_apply: "statement_law n parse_apply"
  unfolding parse_apply_def by (intro progress_intros meets_clause_loops) auto

lemma law_remove: "statement_law n parse_remove"
  unfolding parse_remove_def by (intro progress_intros meets_clause_loops) auto

lemma law_trace: "statement_law n parse_trace"
  unfolding parse_trace_def by (intro progress_intros meets_clause_loops) auto

lemma law_statement: "statement_law n parse_statement"
proof -
  have "statement_law n (statement_parser k)" for k
    by (cases k) (simp_all add: law_extract law_compile law_diff law_use law_walk law_infer law_select
        law_describe law_explain law_insert law_delete law_update law_merge law_rebalance law_show
        law_stats law_begin law_save law_apply law_remove law_trace law_compact)
  then show ?thesis
    unfolding meets_def parse_statement_def by (auto split: token.splits keyword.splits)
qed

lemma wf_simple_statement: "wf_simple s \<Longrightarrow> wf_statement s"
  by (cases s) (simp_all add: wf_statement_def)

lemma wf_statement_Pipe: "wf_statement (Pipe left right) \<longleftrightarrow> wf_simple left \<and> wf_simple right"
  by (simp add: wf_statement_def)

lemma parse_meets: "meets n parse (\<lambda>c s. c \<and> wf_statement s)"
proof -
  have pipe: "meets n (on_token TPipe (pmap (Pipe left) parse_statement) (preturn left))
      (\<lambda>c s. wf_statement s)" if "wf_simple left" for left
    using that by (intro progress_intros meets_mono [OF law_statement [of n]])
      (simp_all add: wf_statement_Pipe wf_simple_statement)
  have eof: "meets n (\<lambda>p. if peek p \<noteq> TEof then Inl (UnexpectedTrailingToken (peek p)) else Inr (s, p))
      (\<lambda>c t. t = s)" for s :: statement
    by (simp add: meets_def)
  have tail: "meets n (pbind (on_token TPipe (pmap (Pipe left) parse_statement) (preturn left))
      (\<lambda>stmt p. if peek p \<noteq> TEof then Inl (UnexpectedTrailingToken (peek p)) else Inr (stmt, p)))
      (\<lambda>c s. wf_statement s)" if "wf_simple left" for left
    by (rule meets_pbind, rule meets_mono [OF pipe [OF that]], simp, rule meets_mono [OF eof]) simp_all
  show ?thesis
    unfolding parse_def
    by (rule meets_pbind, rule meets_mono [OF law_statement [of n]], simp, rule meets_mono [OF tail]) simp_all
qed

end
