(* ===== verification/LqlPrint.thy ===== *)
theory LqlPrint
  imports LqlWellFormed
begin

text \<open>
  A printer for statements, as a token list, and the rules that run a parser action on the tokens
  a syntax element is printed to (\<open>runs\<close>). The printer is not code of the repository: it
  is the reference the parser is compared with in \<open>LqlParserRoundtrip\<close>.
\<close>

section \<open>Printing\<close>

abbreviation kS :: "stmt_keyword \<Rightarrow> token" where "kS k \<equiv> TKeyword (Stmt k)"
abbreviation kC :: "clause_keyword \<Rightarrow> token" where "kC k \<equiv> TKeyword (Clause k)"
abbreviation kN :: "noun_keyword \<Rightarrow> token" where "kN k \<equiv> TKeyword (Noun k)"
abbreviation kO :: "opt_keyword \<Rightarrow> token" where "kO k \<equiv> TKeyword (Opt k)"

definition opt_tokens :: "('a \<Rightarrow> token list) \<Rightarrow> 'a option \<Rightarrow> token list" where
  "opt_tokens f x = (case x of None \<Rightarrow> [] | Some a \<Rightarrow> f a)"

definition flag_tokens :: "token list \<Rightarrow> bool \<Rightarrow> token list" where
  "flag_tokens ts b = (if b then ts else [])"

primrec sep_tokens :: "token \<Rightarrow> ('a \<Rightarrow> token list) \<Rightarrow> 'a list \<Rightarrow> token list" where
  "sep_tokens sep f [] = []"
| "sep_tokens sep f (x # xs) = f x @ concat (map (\<lambda>y. sep # f y) xs)"

definition u32_token :: "u32 \<Rightarrow> token" where
  "u32_token n = TIntegerLit (ucast n)"

text \<open>A float that widens to a double and narrows back to itself (no subnormal, no infinity, no NaN).\<close>

definition f64_of_f32 :: "f32 \<Rightarrow> f64" where
  "f64_of_f32 x =
     (let m = unat x mod 2 ^ 31; s = unat x div 2 ^ 31 in
      word_of_nat (s * 2 ^ 63 + (if m = 0 then 0 else 896 * 2 ^ 52 + m * 2 ^ 29)))"

definition f32_ok :: "f32 \<Rightarrow> bool" where
  "f32_ok x \<longleftrightarrow> f32_of_f64 (f64_of_f32 x) = x"

definition f32_token :: "f32 \<Rightarrow> token" where
  "f32_token x = TNumberLit (f64_of_f32 x)"

definition range_tokens :: "layer_range \<Rightarrow> token list" where
  "range_tokens r = [u32_token (rg_start r), TDash, u32_token (rg_end r)]"

definition ref_tokens :: "vindex_ref \<Rightarrow> token list" where
  "ref_tokens r = (case r of VindexCurrent \<Rightarrow> [kN KCurrent] | VindexPath s \<Rightarrow> [TStringLit s])"

text \<open>A field is written as the keyword it is the name of, or as an identifier.\<close>

definition name_token :: "string \<Rightarrow> token" where
  "name_token s = (case keyword_from_str s of
     Some k \<Rightarrow> if as_field_name k = s then TKeyword k else TIdent s | None \<Rightarrow> TIdent s)"

definition field_tokens :: "field \<Rightarrow> token list" where
  "field_tokens f = (case f of FieldStar \<Rightarrow> [TStar] | FieldNamed s \<Rightarrow> [name_token s])"

definition op_token :: "compare_op \<Rightarrow> token" where
  "op_token c = (case c of OpEq \<Rightarrow> TEq | OpNeq \<Rightarrow> TNeq | OpGt \<Rightarrow> TGt | OpLt \<Rightarrow> TLt | OpGte \<Rightarrow> TGte
     | OpLte \<Rightarrow> TLte | OpLike \<Rightarrow> kC KLike | OpIn \<Rightarrow> kC KIn)"

primrec value_tokens :: "lql_value \<Rightarrow> token list" where
  "value_tokens (VString s) = [TStringLit s]"
| "value_tokens (VNumber x) =
     (if f64_negative x then [TDash, TNumberLit (f64_neg x)] else [TNumberLit x])"
| "value_tokens (VInteger n) =
     (if sint n < 0 then [TDash, TIntegerLit (- n)] else [TIntegerLit n])"
| "value_tokens (VList vs) =
     TLParen # (case map value_tokens vs of [] \<Rightarrow> []
       | t # ts \<Rightarrow> t @ concat (map (\<lambda>u. TComma # u) ts)) @ [TRParen]"

definition condition_tokens :: "condition \<Rightarrow> token list" where
  "condition_tokens c = name_token (cd_field c) # op_token (cd_op c) # value_tokens (cd_value c)"

definition conditions_tokens :: "condition list \<Rightarrow> token list" where
  "conditions_tokens cs = sep_tokens (kC KAnd) condition_tokens cs"

definition assignment_tokens :: "assignment \<Rightarrow> token list" where
  "assignment_tokens a = name_token (as_field a) # TEq # value_tokens (as_value a)"

definition where_tokens :: "condition list \<Rightarrow> token list" where
  "where_tokens cs = (if cs = [] then [] else kC KWhere # conditions_tokens cs)"

definition component_token :: "lql_component \<Rightarrow> token" where
  "component_token c = (case c of FfnGate \<Rightarrow> kO KFfnGate | FfnDown \<Rightarrow> kO KFfnDown | FfnUp \<Rightarrow> kO KFfnUp
     | Embeddings \<Rightarrow> kN KEmbeddings | AttnOv \<Rightarrow> kO KAttnOv | AttnQk \<Rightarrow> kO KAttnQk)"

definition band_tokens :: "layer_band \<Rightarrow> token list" where
  "band_tokens b = (case b of BandAll \<Rightarrow> [kC KAll, kN KLayers] | BandSyntax \<Rightarrow> [kO KSyntax]
     | BandKnowledge \<Rightarrow> [kO KKnowledge] | BandOutput \<Rightarrow> [kO KOutput])"

definition describe_mode_token :: "describe_mode \<Rightarrow> token" where
  "describe_mode_token m = (case m of DescribeVerbose \<Rightarrow> kO KVerbose | DescribeBrief \<Rightarrow> kO KBrief
     | DescribeRaw \<Rightarrow> kO KRaw)"

definition walk_mode_token :: "walk_mode \<Rightarrow> token" where
  "walk_mode_token m = (case m of WalkHybrid \<Rightarrow> kO KHybrid | WalkPure \<Rightarrow> kO KPure | WalkDense \<Rightarrow> kO KDense)"

definition level_tokens :: "extract_level \<Rightarrow> token list" where
  "level_tokens l = (case l of LevelBrowse \<Rightarrow> [] | LevelInference \<Rightarrow> [kC KWith, kN KInference]
     | LevelAll \<Rightarrow> [kC KWith, kC KAll])"

definition route_tokens :: "infer_route \<Rightarrow> token list" where
  "route_tokens r = [kN KRoute, kC KVerify] @ flag_tokens [kO KFallback] (ir_fallback r) @
     opt_tokens (\<lambda>n. [kN KTopk, u32_token n]) (ir_topk r) @ flag_tokens [kO KExit] (ir_exit r)"

abbreviation layer_tokens :: "u32 \<Rightarrow> token list" where
  "layer_tokens n \<equiv> [kC KAt, kN KLayer, u32_token n]"

abbreviation keyed :: "token \<Rightarrow> ('a \<Rightarrow> token) \<Rightarrow> 'a \<Rightarrow> token list" where
  "keyed k f a \<equiv> [k, f a]"

primrec simple_tokens :: "statement \<Rightarrow> token list" where
    "simple_tokens (Extract m out cs ls lv) =
       [kS KExtract, kN KModel, TStringLit m, kC KInto, TStringLit out] @
       opt_tokens (\<lambda>c. kN KComponents # sep_tokens TComma (\<lambda>x. [component_token x]) c) cs @
       opt_tokens (\<lambda>r. kN KLayers # range_tokens r) ls @ level_tokens lv"
  | "simple_tokens (Compile v out fm tg oc) =
       kS KCompile # ref_tokens v @
       [kC KInto, case tg of TargetModel \<Rightarrow> kN KModel | TargetVindex \<Rightarrow> TIdent ''vindex'', TStringLit out] @
       opt_tokens (\<lambda>f. [kN KFormat, case f of FormatSafetensors \<Rightarrow> kO KSafetensors | FormatGguf \<Rightarrow> kO KGguf]) fm @
       opt_tokens (\<lambda>c. [kC KOn, kN KConflict, case c of ConflictLastWins \<Rightarrow> kO KLastWins
         | ConflictHighestConfidence \<Rightarrow> kO KHighestConfidence | ConflictFail \<Rightarrow> kO KFail]) oc"
  | "simple_tokens (Diff a b l r lim p) =
       kS KDiff # ref_tokens a @ ref_tokens b @ opt_tokens (keyed (kN KLayer) u32_token) l @
       opt_tokens (keyed (kN KRelation) TStringLit) r @ opt_tokens (keyed (kC KLimit) u32_token) lim @
       opt_tokens (\<lambda>s. [kC KInto, kN KPatch, TStringLit s]) p"
  | "simple_tokens (Use tg) =
       kS KUse # (case tg of UseVindex s \<Rightarrow> [TStringLit s]
         | UseModel s auto \<Rightarrow> [kN KModel, TStringLit s] @ flag_tokens [kO KAutoExtract] auto
         | UseRemote s \<Rightarrow> [kO KRemote, TStringLit s])"
  | "simple_tokens (Walk s tp ls md cmp) =
       [kS KWalk, TStringLit s] @ opt_tokens (keyed (kC KTop) u32_token) tp @
       opt_tokens (\<lambda>r. kN KLayers # range_tokens r) ls @
       opt_tokens (keyed (kN KMode) walk_mode_token) md @ flag_tokens [kO KCompare] cmp"
  | "simple_tokens (Infer s tp cmp rt) =
       [kS KInfer, TStringLit s] @ opt_tokens (keyed (kC KTop) u32_token) tp @
       flag_tokens [kO KCompare] cmp @ opt_tokens route_tokens rt"
  | "simple_tokens (Select src fs cs nr od lim) =
       kS KSelect # sep_tokens TComma field_tokens fs @
       [kC KFrom, case src of FromEdges \<Rightarrow> kN KEdges | FromFeatures \<Rightarrow> kN KFeatures | FromEntities \<Rightarrow> kN KEntities] @
       opt_tokens (\<lambda>c. [kC KNearest, kC KTo, TStringLit (nc_entity c)] @ layer_tokens (nc_layer c)) nr @
       where_tokens cs @
       opt_tokens (\<lambda>c. [kC KOrder, kC KBy, name_token (ob_field c)] @ flag_tokens [kC KDesc] (ob_descending c)) od @
       opt_tokens (keyed (kC KLimit) u32_token) lim"
  | "simple_tokens (Describe s bd l ro md) =
       [kS KDescribe, TStringLit s] @ opt_tokens band_tokens bd @ opt_tokens layer_tokens l @
       flag_tokens [kN KRelations, kC KOnly] ro @ [describe_mode_token md]"
  | "simple_tokens (Explain s md ls bd vb tp ro wa) =
       [kS KExplain, case md of ExplainInfer \<Rightarrow> kS KInfer | ExplainWalk \<Rightarrow> kS KWalk, TStringLit s] @
       opt_tokens (\<lambda>r. kN KLayers # range_tokens r) ls @ opt_tokens band_tokens bd @
       flag_tokens [kO KVerbose] vb @ opt_tokens (keyed (kC KTop) u32_token) tp @
       flag_tokens [kN KRelations, kC KOnly] ro @ flag_tokens [kC KWith, kN KAttention] wa"
  | "simple_tokens (Insert e r t l cf al md) =
       [kS KInsert, kC KInto, kN KEdges, TLParen, TIdent ''entity'', TComma, kN KRelation, TComma,
        TIdent ''target'', TRParen, kC KValues, TLParen, TStringLit e, TComma, TStringLit r, TComma,
        TStringLit t, TRParen] @
       opt_tokens layer_tokens l @ opt_tokens (keyed (kN KConfidence) f32_token) cf @
       opt_tokens (keyed (kN KAlpha) f32_token) al @
       [kN KMode, TEq, case md of InsertKnn \<Rightarrow> kO KKnn | InsertCompose \<Rightarrow> kO KCompose]"
  | "simple_tokens (Delete cs) = [kS KDelete, kC KFrom, kN KEdges, kC KWhere] @ conditions_tokens cs"
  | "simple_tokens (Update upds cs) =
       [kS KUpdate, kN KEdges, kC KSet] @ sep_tokens TComma assignment_tokens upds @
       kC KWhere # conditions_tokens cs"
  | "simple_tokens (Merge src tg cf) =
       [kS KMerge, TStringLit src] @ opt_tokens (keyed (kC KInto) TStringLit) tg @
       opt_tokens (\<lambda>c. [kC KOn, kN KConflict, case c of KeepSource \<Rightarrow> kO KKeepSource
         | KeepTarget \<Rightarrow> kO KKeepTarget | HighestConfidence \<Rightarrow> kO KHighestConfidence]) cf"
  | "simple_tokens (Rebalance mx fl ce) =
       kS KRebalance # opt_tokens (keyed (kC KMax) u32_token) mx @
       opt_tokens (keyed (kN KFloor) f32_token) fl @ opt_tokens (keyed (kN KCeiling) f32_token) ce"
  | "simple_tokens (ShowRelations l we md) =
       [kS KShow, kN KRelations] @ opt_tokens layer_tokens l @ flag_tokens [kC KWith, kN KExamples] we @
       [describe_mode_token md]"
  | "simple_tokens (ShowLayers rg) =
       [kS KShow, kN KLayers] @ opt_tokens (\<lambda>r. kC KRange # range_tokens r) rg"
  | "simple_tokens (ShowFeatures l cs lim) =
       [kS KShow, kN KFeatures, u32_token l] @ where_tokens cs @ opt_tokens (keyed (kC KLimit) u32_token) lim"
  | "simple_tokens (ShowEntities l lim) =
       [kS KShow, kN KEntities] @ opt_tokens layer_tokens l @ opt_tokens (keyed (kC KLimit) u32_token) lim"
  | "simple_tokens ShowModels = [kS KShow, kN KModels]"
  | "simple_tokens (Stats v) = kS KStats # opt_tokens (\<lambda>s. [TStringLit s]) v"
  | "simple_tokens ShowCompactStatus = [kS KShow, kS KCompact, kN KStatus]"
  | "simple_tokens CompactMinor = [kS KCompact, TIdent ''MINOR'']"
  | "simple_tokens (CompactMajor full lam) =
       [kS KCompact, TIdent ''MAJOR''] @ flag_tokens [kC KAll] full @
       opt_tokens (\<lambda>x. [kC KWith, TIdent ''LAMBDA'', TEq, f32_token x]) lam"
  | "simple_tokens (BeginPatch p) = [kS KBegin, kN KPatch, TStringLit p]"
  | "simple_tokens SavePatch = [kS KSave, kN KPatch]"
  | "simple_tokens (ApplyPatch p) = [kS KApply, kN KPatch, TStringLit p]"
  | "simple_tokens ShowPatches = [kS KShow, kN KPatches]"
  | "simple_tokens (RemovePatch p) = [kS KRemove, kN KPatch, TStringLit p]"
  | "simple_tokens (Trace s an dc ls ps sv) =
       [kS KTrace, TStringLit s] @ opt_tokens (keyed (kC KFor) TStringLit) an @
       flag_tokens [kO KDecompose] dc @ opt_tokens (\<lambda>r. kN KLayers # range_tokens r) ls @
       opt_tokens (\<lambda>m. [kN KPositions, case m of PositionAll \<Rightarrow> kC KAll | PositionLast \<Rightarrow> TIdent ''last'']) ps @
       opt_tokens (keyed (kS KSave) TStringLit) sv"
  | "simple_tokens (Pipe a b) = []"

definition statement_tokens :: "statement \<Rightarrow> token list" where
  "statement_tokens s = (case s of Pipe a b \<Rightarrow> simple_tokens a @ TPipe # simple_tokens b
     | _ \<Rightarrow> simple_tokens s)"

text \<open>
  The statements the printer covers: well formed, their single-precision numbers representable, and
  \<open>*\<close> first in a field list only when alone (\<open>parse_field_list\<close> stops after it).
\<close>

definition statement_floats :: "statement \<Rightarrow> f32 list" where
  "statement_floats s = (case s of
       Insert e r t l cf al md \<Rightarrow> case_option [] (\<lambda>x. [x]) cf @ case_option [] (\<lambda>x. [x]) al
     | Rebalance mx fl ce \<Rightarrow> case_option [] (\<lambda>x. [x]) fl @ case_option [] (\<lambda>x. [x]) ce
     | CompactMajor full lam \<Rightarrow> case_option [] (\<lambda>x. [x]) lam
     | _ \<Rightarrow> [])"

definition select_fields :: "statement \<Rightarrow> field list" where
  "select_fields s = (case s of Select src fs cs nr od lim \<Rightarrow> fs | _ \<Rightarrow> [])"

definition printable_simple :: "statement \<Rightarrow> bool" where
  "printable_simple s \<longleftrightarrow> wf_simple s \<and> list_all f32_ok (statement_floats s) \<and>
     (case select_fields s of FieldStar # fs \<Rightarrow> fs = [] | _ \<Rightarrow> True)"

definition printable :: "statement \<Rightarrow> bool" where
  "printable s \<longleftrightarrow> (case s of Pipe a b \<Rightarrow> printable_simple a \<and> printable_simple b
     | _ \<Rightarrow> printable_simple s)"

section \<open>Running an action on a token list\<close>

text \<open>
  \<open>runs m ts Q\<close>: on every parser whose remaining tokens are \<open>ts\<close> the action succeeds, and its value
  and the tokens it leaves satisfy \<open>Q\<close>.
\<close>

definition runs :: "'a action \<Rightarrow> token list \<Rightarrow> ('a \<Rightarrow> token list \<Rightarrow> bool) \<Rightarrow> bool" where
  "runs m ts Q \<longleftrightarrow> (\<forall>p. ps_rest p = ts \<longrightarrow> (\<exists>a p'. m p = Inr (a, p') \<and> Q a (ps_rest p')))"

definition first :: "token list \<Rightarrow> token" where
  "first ts = (case ts of [] \<Rightarrow> TEof | t # _ \<Rightarrow> t)"

lemma first_simps [simp]: "first [] = TEof" "first (t # ts) = t"
  by (simp_all add: first_def)

lemma peek_first: "ps_rest p = ts \<Longrightarrow> peek p = first ts"
  by (auto simp: peek_rest first_def)

lemma rest_advance: "ps_rest p = ts \<Longrightarrow> ps_rest (advance p) = tl ts"
  by (auto simp: advance_def drop_Suc tl_drop)

lemma rest_new_parser [simp]: "ps_rest (new_parser ts) = ts"
  by (simp add: new_parser_def)

lemma runsI:
  "(\<And>p. ps_rest p = ts \<Longrightarrow> \<exists>a p'. m p = Inr (a, p') \<and> Q a (ps_rest p')) \<Longrightarrow> runs m ts Q"
  by (simp add: runs_def)

lemma runsD: "runs m ts Q \<Longrightarrow> ps_rest p = ts \<Longrightarrow> \<exists>a p'. m p = Inr (a, p') \<and> Q a (ps_rest p')"
  by (simp add: runs_def)

lemma runs_mono: "runs m ts Q \<Longrightarrow> (\<And>a r. Q a r \<Longrightarrow> Q' a r) \<Longrightarrow> runs m ts Q'"
  unfolding runs_def by blast

lemma runs_preturn [runs_intros]: "Q a ts \<Longrightarrow> runs (preturn a) ts Q"
  by (rule runsI) (simp add: preturn_def)

lemma runs_pbind [runs_intros]: "runs m ts (\<lambda>a r. runs (k a) r Q) \<Longrightarrow> runs (pbind m k) ts Q"
proof (rule runsI)
  fix p
  assume "runs m ts (\<lambda>a r. runs (k a) r Q)" "ps_rest p = ts"
  from runsD [OF this] obtain a p' where "m p = Inr (a, p')" "runs (k a) (ps_rest p') Q" by blast
  with runsD [OF this(2) refl] show "\<exists>a p'. pbind m k p = Inr (a, p') \<and> Q a (ps_rest p')"
    by (simp add: pbind_def)
qed

lemma runs_pmap [runs_intros]: "runs m ts (\<lambda>a. Q (f a)) \<Longrightarrow> runs (pmap f m) ts Q"
  unfolding pmap_def by (rule runs_pbind, erule runs_mono) (rule runs_preturn)

lemma runs_on_token [runs_intros]:
  assumes "if first ts = t then runs hit (tl ts) Q else runs other ts Q"
  shows "runs (on_token t hit other) ts Q"
proof (rule runsI)
  fix p
  assume p: "ps_rest p = ts"
  show "\<exists>a p'. on_token t hit other p = Inr (a, p') \<and> Q a (ps_rest p')"
  proof (cases "first ts = t")
    case True
    with assms runsD [of hit "tl ts" Q "advance p"] peek_first [OF p] rest_advance [OF p]
    show ?thesis by (simp add: on_token_def)
  next
    case False
    with assms runsD [of other ts Q p] peek_first [OF p] p show ?thesis by (simp add: on_token_def)
  qed
qed

lemma runs_on_keyword [runs_intros]:
  "(if first ts = TKeyword kw then runs hit (tl ts) Q else runs other ts Q) \<Longrightarrow>
     runs (on_keyword kw hit other) ts Q"
  unfolding on_keyword_token by (rule runs_on_token)

definition ident_is :: "string \<Rightarrow> token \<Rightarrow> bool" where
  "ident_is name t = (case t of TIdent s \<Rightarrow> eq_ignore_ascii_case s name | _ \<Rightarrow> False)"

lemma runs_on_ident [runs_intros]:
  assumes "if ident_is name (first ts) then runs hit (tl ts) Q else runs other ts Q"
  shows "runs (on_ident name hit other) ts Q"
proof (rule runsI)
  fix p
  assume p: "ps_rest p = ts"
  have eq: "on_ident name hit other p = (if ident_is name (first ts) then hit (advance p) else other p)"
    by (simp add: on_ident_def ident_is_def peek_first [OF p])
  from assms runsD [of hit "tl ts" Q "advance p"] runsD [of other ts Q p] rest_advance [OF p] p
  show "\<exists>a p'. on_ident name hit other p = Inr (a, p') \<and> Q a (ps_rest p')"
    unfolding eq by (simp split: if_splits)
qed

lemma runs_if [runs_intros]:
  "(if b then runs m1 ts Q else runs m2 ts Q) \<Longrightarrow> runs (if b then m1 else m2) ts Q"
  by (simp split: if_splits)

text \<open>An action that reads the first token \<open>t\<close>, gives \<open>a\<close> and moves on.\<close>

lemma runs_reader:
  assumes "\<And>p. peek p = first ts \<Longrightarrow> m p = Inr (a, advance p)" and "Q a (tl ts)"
  shows "runs m ts Q"
proof (rule runsI)
  fix p
  assume p: "ps_rest p = ts"
  from assms(1) [OF peek_first [OF p]] rest_advance [OF p] assms(2)
  show "\<exists>a p'. m p = Inr (a, p') \<and> Q a (ps_rest p')" by simp
qed

end
