(* ===== verification/LqlParserRoundtrip.thy ===== *)
theory LqlParserRoundtrip
  imports LqlPrint
begin

text \<open>
  Printing then parsing: for every syntax element a rule that runs its parser on its tokens, for every
  clause loop a rule that runs it on its clauses, and for every statement the round trip.
\<close>

section \<open>Token helpers\<close>

lemma runs_expect_keyword [runs_intros]:
  "first ts = TKeyword kw \<Longrightarrow> Q () (tl ts) \<Longrightarrow> runs (expect_keyword kw) ts Q"
  unfolding expect_keyword_def by (rule runs_on_keyword) (simp add: runs_preturn)

lemma runs_expect_string [runs_intros]: "Q s ts \<Longrightarrow> runs expect_string (TStringLit s # ts) Q"
  by (rule runs_reader [where a = s]) (simp_all add: expect_string_def)

lemma runs_expect_token [runs_intros]: "Q () ts \<Longrightarrow> runs (expect_token t) (t # ts) Q"
  by (rule runs_reader [where a = "()"]) (simp_all add: expect_token_def)

lemma u32_of_token: "u32_of_i64 (ucast (n :: u32)) = n" "0 \<le> sint (ucast (n :: u32) :: i64)"
proof -
  have "uint n < 2 ^ 32" using uint_lt2p [of n] by simp
  moreover have "- (2 ^ 63) \<le> uint n" by (rule order_trans [OF _ uint_ge_0]) simp
  ultimately have "signed_take_bit 63 (uint n) = uint n" by (intro signed_take_bit_int_eq_self) simp_all
  then show "0 \<le> sint (ucast (n :: u32) :: i64)" by (simp add: signed_ucast_eq)
qed (simp add: u32_of_i64_def ucast_up_ucast_id is_up)

lemma runs_expect_u32 [runs_intros]: "Q n ts \<Longrightarrow> runs expect_u32 (u32_token n # ts) Q"
  by (rule runs_reader [where a = n]) (simp_all add: expect_u32_def u32_token_def u32_of_token)

lemma runs_expect_f32 [runs_intros]: "f32_ok x \<Longrightarrow> Q x ts \<Longrightarrow> runs expect_f32 (f32_token x # ts) Q"
  by (rule runs_reader [where a = x]) (simp_all add: expect_f32_def f32_token_def f32_ok_def)

lemma runs_expect_ident_eq [runs_intros]:
  "t = TIdent name \<or> (\<exists>k. t = TKeyword k \<and> as_field_name k = name) \<Longrightarrow> Q () ts \<Longrightarrow>
     runs (expect_ident_eq name) (t # ts) Q"
  by (rule runs_reader [where a = "()"]) (auto simp: expect_ident_eq_def eq_ignore_ascii_case_def)

lemma runs_expect_field_name [runs_intros]:
  "Q s ts \<Longrightarrow> runs expect_field_name (name_token s # ts) Q"
  by (rule runs_reader [where a = s])
    (auto simp: expect_field_name_def name_token_def split: option.split)

lemma first_append: "first (xs @ ys) = (if xs = [] then first ys else first xs)"
  by (cases xs) simp_all

lemma first_opt_tokens:
  "first (opt_tokens f x @ ts) = (case x of None \<Rightarrow> first ts | Some a \<Rightarrow> first (f a @ ts))"
  by (simp add: opt_tokens_def split: option.split)

lemma first_flag_tokens: "first (flag_tokens us b @ ts) = (if b then first (us @ ts) else first ts)"
  by (simp add: flag_tokens_def)

lemma first_where_tokens: "first (where_tokens cs @ ts) = (if cs = [] then first ts else kC KWhere)"
  by (simp add: where_tokens_def)

lemmas first_tokens = first_opt_tokens first_flag_tokens first_where_tokens

lemma name_token_cases: "name_token s = TIdent s \<or> (\<exists>k. name_token s = TKeyword k)"
  by (simp add: name_token_def split: option.split)

section \<open>Ends of statements\<close>

text \<open>\<open>tail tl r\<close>: \<open>tl\<close> ends a statement and \<open>eat_semicolon\<close> leaves \<open>r\<close>.\<close>

definition tail :: "token list \<Rightarrow> token list \<Rightarrow> bool" where
  "tail ts r \<longleftrightarrow> ts = TSemicolon # r \<or> ts = r \<and> (first ts = TPipe \<or> first ts = TEof)"

lemma runs_eat_semicolon [runs_intros]: "tail ts r \<Longrightarrow> Q () r \<Longrightarrow> runs eat_semicolon ts Q"
  unfolding eat_semicolon_def by (rule runs_on_token) (auto simp: tail_def intro: runs_preturn)

definition ends :: "token list \<Rightarrow> bool" where
  "ends ts \<longleftrightarrow> first ts \<in> {TSemicolon, TPipe, TEof}"

lemma tail_ends: "tail ts r \<Longrightarrow> ends ts"
  by (auto simp: tail_def ends_def)

lemma ends_first [simp]:
  assumes "ends ts"
  shows "first ts \<noteq> TKeyword k" "first ts \<noteq> TComma" "first ts \<noteq> TEq" "\<not> ident_is s (first ts)"
    "first ts \<noteq> TStringLit s" "first ts \<noteq> TIntegerLit n"
  using assms by (auto simp: ends_def ident_is_def)

section \<open>Loops\<close>

context token_loop
begin

lemma runs_loop:
  assumes I: "I v" and n: "length ts < n"
    and b: "runs (body v) ts (\<lambda>f r. case f of Continue v' \<Rightarrow> runs (token_loop_run body v') r Q
      | Break v' \<Rightarrow> Q v' r)"
  shows "runs (token_loop_run body v) ts Q"
proof (rule runsI)
  fix p
  assume p: "ps_rest p = ts"
  then have "remaining p < n" using n by (simp add: remaining_def)
  note u = unfold [OF I this]
  from runsD [OF b p] obtain f p' where r: "body v p = Inr (f, p')"
    and f: "case f of Continue v' \<Rightarrow> runs (token_loop_run body v') (ps_rest p') Q
      | Break v' \<Rightarrow> Q v' (ps_rest p')" by blast
  show "\<exists>a p'. token_loop_run body v p = Inr (a, p') \<and> Q a (ps_rest p')"
  proof (cases f)
    case (Continue v')
    with f runsD [OF _ refl, of "token_loop_run body v'" p' Q] show ?thesis by (simp add: u r)
  next
    case (Break v')
    with f show ?thesis by (simp add: u r)
  qed
qed

lemma runs_stop:
  "I v \<Longrightarrow> length ts < n \<Longrightarrow> runs (body v) ts (\<lambda>f r. f = Break v \<and> r = ts) \<Longrightarrow> Q v ts \<Longrightarrow>
     runs (token_loop_run body v) ts Q"
  by (rule runs_loop, assumption, assumption, erule runs_mono) simp

lemma runs_clause:
  "I v \<Longrightarrow> length (us @ ts) < n \<Longrightarrow> runs (body v) (us @ ts) (\<lambda>f r. f = Continue v' \<and> r = ts) \<Longrightarrow>
     runs (token_loop_run body v') ts Q \<Longrightarrow> runs (token_loop_run body v) (us @ ts) Q"
  by (rule runs_loop, assumption, assumption, erule runs_mono) simp

lemma runs_opt:
  assumes "I v" "length (opt_tokens f x @ ts) < n" "x = None \<Longrightarrow> v' = v"
    "\<And>a. x = Some a \<Longrightarrow> runs (body v) (f a @ ts) (\<lambda>fl r. fl = Continue v' \<and> r = ts)"
    "runs (token_loop_run body v') ts Q"
  shows "runs (token_loop_run body v) (opt_tokens f x @ ts) Q"
  using assms by (cases x) (simp_all add: opt_tokens_def runs_clause)

lemma runs_flag:
  assumes "I v" "length (flag_tokens us b @ ts) < n" "\<not> b \<Longrightarrow> v' = v"
    "b \<Longrightarrow> runs (body v) (us @ ts) (\<lambda>fl r. fl = Continue v' \<and> r = ts)"
    "runs (token_loop_run body v') ts Q"
  shows "runs (token_loop_run body v) (flag_tokens us b @ ts) Q"
  using assms by (cases b) (simp_all add: flag_tokens_def runs_clause)

end

text \<open>A separated list read by an item parser that runs on the tokens of an item.\<close>

context item_parser
begin

lemma runs_more:
  assumes item: "\<And>x us Q. x \<in> set xs \<Longrightarrow> length (f x @ us) < n \<Longrightarrow> ok us \<Longrightarrow> Q x us \<Longrightarrow> runs item (f x @ us) Q"
    and sep: "\<And>us. ok (sep # us)" and ts: "ok ts" "first ts \<noteq> sep"
    and P: "ys \<noteq> [] \<and> list_all P ys" "list_all P xs"
    and Q: "Q (ys @ xs) ts" and n: "length (concat (map (\<lambda>y. sep # f y) xs) @ ts) < n"
  shows "runs (token_loop_run (separated_body sep item) ys) (concat (map (\<lambda>y. sep # f y) xs) @ ts) Q"
  using item P Q n
proof (induction xs arbitrary: ys)
  case Nil
  then show ?case
    by (intro items.runs_stop) (auto simp: separated_body_def ts(2) intro!: runs_on_token runs_preturn)
next
  case (Cons x xs)
  let ?us = "concat (map (\<lambda>y. sep # f y) xs) @ ts"
  have ok: "ok ?us" using sep ts by (cases xs) simp_all
  have "runs (separated_body sep item ys) ((sep # f x) @ ?us) (\<lambda>fl r. fl = Continue (ys @ [x]) \<and> r = ?us)"
    unfolding separated_body_def
    by (intro runs_on_token) (use Cons.prems ok in \<open>auto intro!: runs_pbind runs_preturn Cons.prems(1)\<close>)
  from items.runs_clause [OF Cons.prems(2) _ this] Cons.IH [of "ys @ [x]"] Cons.prems
  show ?case by simp
qed

lemma runs_separated:
  assumes item: "\<And>x us Q. x \<in> set xs \<Longrightarrow> length (f x @ us) < n \<Longrightarrow> ok us \<Longrightarrow> Q x us \<Longrightarrow> runs item (f x @ us) Q"
    and sep: "\<And>us. ok (sep # us)" and ts: "ok ts" "first ts \<noteq> sep"
    and P: "xs \<noteq> []" "list_all P xs"
    and Q: "Q xs ts" and n: "length (sep_tokens sep f xs @ ts) < n"
  shows "runs (separated_list sep item) (sep_tokens sep f xs @ ts) Q"
proof -
  from P(1) obtain y ys where xs: "xs = y # ys" by (cases xs) auto
  have "ok (concat (map (\<lambda>y. sep # f y) ys) @ ts)" using sep ts by (cases ys) simp_all
  with xs n Q P(2) show ?thesis
    unfolding separated_list_def
    by (auto intro!: runs_pbind item runs_more [where ok = ok] sep ts)
qed

end

section \<open>Syntax elements\<close>

lemma runs_parse_vindex_ref [runs_intros]: "Q r ts \<Longrightarrow> runs parse_vindex_ref (ref_tokens r @ ts) Q"
  unfolding parse_vindex_ref_def ref_tokens_def
  by (cases r) (simp_all add: runs_on_keyword runs_preturn runs_pmap runs_expect_string)

lemma runs_parse_range [runs_intros]:
  "wf_range r \<Longrightarrow> Q r ts \<Longrightarrow> runs parse_range (range_tokens r @ ts) Q"
  unfolding parse_range_def range_tokens_def
  by (cases r) (simp, (rule runs_intros | simp add: wf_range_def not_le [symmetric])+)

lemma runs_try_parse_layer_band [runs_intros]:
  "Q (Some b) ts \<Longrightarrow> runs try_parse_layer_band (band_tokens b @ ts) Q"
proof (rule runsI)
  fix p
  assume Q: "Q (Some b) ts" and p: "ps_rest p = band_tokens b @ ts"
  note a = rest_advance [OF p] and aa = rest_advance [OF rest_advance [OF p]]
  show "\<exists>a p'. try_parse_layer_band p = Inr (a, p') \<and> Q a (ps_rest p')"
    using Q peek_first [OF p] peek_first [OF a] a aa
    by (cases b) (simp_all add: try_parse_layer_band_def band_tokens_def on_keyword_def
        check_keyword_def preturn_def)
qed

lemma runs_no_layer_band:
  "ends ts \<Longrightarrow> Q None ts \<Longrightarrow> runs try_parse_layer_band ts Q"
  by (rule runsI, frule peek_first)
    (simp add: try_parse_layer_band_def on_keyword_def check_keyword_def preturn_def)

lemma runs_band_or_break:
  "Q (Continue (upd b)) ts \<Longrightarrow> runs (band_or_break upd v) (band_tokens b @ ts) Q"
  unfolding band_or_break_def by (intro runs_pbind runs_try_parse_layer_band) (simp add: runs_preturn)

lemma runs_band_or_break_end:
  "ends ts \<Longrightarrow> Q (Break v) ts \<Longrightarrow> runs (band_or_break upd v) ts Q"
  unfolding band_or_break_def by (intro runs_pbind runs_no_layer_band) (simp_all add: runs_preturn)

lemma runs_parse_component: "Q c ts \<Longrightarrow> runs parse_component (component_token c # ts) Q"
  unfolding parse_component_def component_token_def
  by (cases c) (simp_all add: runs_on_keyword runs_preturn)

lemma runs_parse_component_list [runs_intros]:
  assumes "cs \<noteq> []" "first ts \<noteq> TComma" "Q cs ts"
  shows "runs parse_component_list (sep_tokens TComma (\<lambda>x. [component_token x]) cs @ ts) Q"
  unfolding parse_component_list_def
  by (rule component_list.runs_separated [where ok = "\<lambda>_. True", OF _ _ _ _ _ _ _ lessI])
    (simp_all add: assms runs_parse_component list_all_iff)

lemma runs_parse_field: "Q x ts \<Longrightarrow> runs parse_field (field_tokens x @ ts) Q"
proof (cases x)
  case (FieldNamed s)
  assume "Q x ts"
  then have "runs (pmap FieldNamed expect_field_name) (name_token s # ts) Q"
    by (intro runs_pmap runs_expect_field_name) (simp add: FieldNamed)
  moreover have "name_token s \<noteq> TStar" using name_token_cases [of s] by auto
  ultimately show ?thesis
    by (simp add: parse_field_def field_tokens_def FieldNamed runs_on_token)
qed (simp add: parse_field_def field_tokens_def runs_on_token runs_preturn)

lemma runs_parse_field_list [runs_intros]:
  assumes "fs \<noteq> []" "case fs of FieldStar # xs \<Rightarrow> xs = [] | _ \<Rightarrow> True" "first ts \<noteq> TComma" "Q fs ts"
  shows "runs parse_field_list (sep_tokens TComma field_tokens fs @ ts) Q"
proof -
  have sep: "runs (separated_list TComma parse_field) (sep_tokens TComma field_tokens fs @ ts) Q"
    by (rule field_list.runs_separated [where ok = "\<lambda>_. True", OF _ _ _ _ _ _ _ lessI])
      (simp_all add: assms runs_parse_field list_all_iff)
  from assms(1) obtain x xs where fs: "fs = x # xs" by (cases fs) auto
  show ?thesis
  proof (cases x)
    case FieldStar
    with assms fs show ?thesis
      by (simp add: parse_field_list_def field_tokens_def runs_on_token runs_preturn)
  next
    case (FieldNamed s)
    have "first (sep_tokens TComma field_tokens fs @ ts) \<noteq> TStar"
      using name_token_cases [of s] by (auto simp: fs FieldNamed field_tokens_def)
    with sep show ?thesis by (simp add: parse_field_list_def runs_on_token)
  qed
qed

lemma runs_parse_compare_op [runs_intros]: "Q c ts \<Longrightarrow> runs parse_compare_op (op_token c # ts) Q"
  unfolding parse_compare_op_def op_token_def
  by (cases c) (simp_all add: runs_on_token runs_on_keyword runs_preturn)

section \<open>Values\<close>

lemma f64_neg_neg: "f64_neg (f64_neg x) = x"
  by (simp add: f64_neg_def xor.assoc)

interpretation value_items: item_parser n TComma "parse_value_fuel n" "\<lambda>_. True" for n
  by unfold_locales (simp_all add: meets_mono [OF meets_parse_value_fuel])

lemma value_tokens_list:
  "value_tokens (VList vs) = TLParen # sep_tokens TComma value_tokens vs @ [TRParen]"
  by (cases vs) (simp_all add: comp_def)

lemma value_tokens_first: "value_tokens v \<noteq> [] \<and> first (value_tokens v @ ts) \<noteq> TRParen"
  by (cases v) simp_all

lemma runs_parse_scalar:
  "Q (VString s) ts \<Longrightarrow> runs parse_scalar (TStringLit s # ts) Q"
  "Q (VNumber x) ts \<Longrightarrow> runs parse_scalar (TNumberLit x # ts) Q"
  "Q (VInteger n) ts \<Longrightarrow> runs parse_scalar (TIntegerLit n # ts) Q"
  by (rule runs_reader; simp add: parse_scalar_def)+

lemma runs_parse_negative:
  "Q (VNumber (f64_neg x)) ts \<Longrightarrow> runs parse_negative (TNumberLit x # ts) Q"
  "Q (VInteger (- n)) ts \<Longrightarrow> runs parse_negative (TIntegerLit n # ts) Q"
  by (rule runs_reader; simp add: parse_negative_def)+

lemma runs_parse_value_fuel:
  "length (value_tokens v @ ts) < n \<Longrightarrow> Q v ts \<Longrightarrow> runs (parse_value_fuel n) (value_tokens v @ ts) Q"
proof (induction v arbitrary: n ts Q)
  case (VList vs)
  from VList.prems(1) obtain k where n: "n = Suc k" by (cases n) auto
  let ?us = "sep_tokens TComma value_tokens vs"
  have len: "length (?us @ TRParen # ts) < k"
    using VList.prems(1) unfolding value_tokens_list n by simp
  have items: "runs (parse_list_items (parse_value_fuel k)) (?us @ TRParen # ts)
      (\<lambda>a r. a = vs \<and> r = TRParen # ts)"
  proof (cases vs)
    case Nil
    then show ?thesis
      by (intro runsI) (auto simp: parse_list_items_def dest!: peek_first)
  next
    case (Cons y ys)
    have "runs (separated_list TComma (parse_value_fuel k)) (?us @ TRParen # ts)
        (\<lambda>a r. a = vs \<and> r = TRParen # ts)"
      by (rule value_items.runs_separated [where ok = "\<lambda>_. True", OF _ _ _ _ _ _ _ len])
        (use VList.IH Cons in \<open>auto simp: list_all_iff\<close>)
    moreover have "first (?us @ TRParen # ts) \<noteq> TRParen"
      using value_tokens_first [of y] by (simp add: Cons)
    ultimately show ?thesis
      unfolding runs_def parse_list_items_def by (auto dest: peek_first)
  qed
  have "runs (pbind (parse_list_items (parse_value_fuel k)) (\<lambda>items.
      pbind (expect_token TRParen) (\<lambda>_. preturn (VList items)))) (?us @ TRParen # ts) Q"
    by (rule runs_pbind, rule runs_mono [OF items])
      (use VList.prems(2) in \<open>auto intro!: runs_pbind runs_expect_token runs_preturn\<close>)
  then show ?case
    unfolding value_tokens_list n by (simp add: runs_on_token)
qed (auto simp: f64_neg_neg gr0_conv_Suc runs_parse_scalar runs_parse_negative
    intro!: runs_on_token dest!: gr_implies_not0 not0_implies_Suc)

lemma runs_parse_value [runs_intros]: "Q v ts \<Longrightarrow> runs parse_value (value_tokens v @ ts) Q"
proof (rule runsI)
  fix p
  assume Q: "Q v ts" and p: "ps_rest p = value_tokens v @ ts"
  from runsD [OF runs_parse_value_fuel [where Q = Q, OF lessI Q] p] p
  show "\<exists>a p'. parse_value p = Inr (a, p') \<and> Q a (ps_rest p')"
    by (simp add: parse_value_def)
qed

lemma runs_parse_condition: "Q c ts \<Longrightarrow> runs parse_condition (condition_tokens c @ ts) Q"
  unfolding parse_condition_def condition_tokens_def
  by (cases c) (simp, (rule runs_intros | simp)+)

lemma runs_parse_conditions [runs_intros]:
  assumes "cs \<noteq> []" "first ts \<noteq> kC KAnd" "Q cs ts"
  shows "runs parse_conditions (conditions_tokens cs @ ts) Q"
  unfolding parse_conditions_def conditions_tokens_def
  by (rule condition_list.runs_separated [where ok = "\<lambda>_. True", OF _ _ _ _ _ _ _ lessI])
    (simp_all add: assms runs_parse_condition list_all_iff)

lemma runs_parse_where [runs_intros]:
  "first ts \<noteq> kC KAnd \<Longrightarrow> first ts \<noteq> kC KWhere \<Longrightarrow> Q cs ts \<Longrightarrow> runs parse_where (where_tokens cs @ ts) Q"
  unfolding parse_where_def where_tokens_def
  by (rule runs_on_keyword) (auto intro: runs_preturn runs_parse_conditions)

lemma runs_parse_assignment: "Q a ts \<Longrightarrow> runs parse_assignment (assignment_tokens a @ ts) Q"
  unfolding parse_assignment_def assignment_tokens_def
  by (cases a) (simp, (rule runs_intros | simp)+)

lemma runs_parse_assignments [runs_intros]:
  assumes "upds \<noteq> []" "first ts \<noteq> TComma" "Q upds ts"
  shows "runs parse_assignments (sep_tokens TComma assignment_tokens upds @ ts) Q"
  unfolding parse_assignments_def
  by (rule assignment_list.runs_separated [where ok = "\<lambda>_. True", OF _ _ _ _ _ _ _ lessI])
    (simp_all add: assms runs_parse_assignment list_all_iff)

end
