(* ===== verification/LqlClauses.thy ===== *)
theory LqlClauses
  imports LqlParserRoundtrip
begin

text \<open>
  The clauses of the statements, printed and read back: one rule per clause of each loop (the loop on
  the clause's tokens is the loop on the rest with the variable set) and one for the end of each loop.
  All are consequences of \<open>runs_opt\<close>, \<open>runs_flag\<close> and \<open>runs_stop\<close> of the locale \<open>token_loop\<close>.
\<close>

section \<open>Clauses\<close>

lemma first_heads [simp]:
  "first (range_tokens r @ ts) = u32_token (rg_start r)" "u32_token n \<noteq> TKeyword k"
  "\<not> ident_is s (u32_token n)" "\<not> ident_is s (TKeyword k)" "ident_is s (TIdent s)"
  "u32_token n \<noteq> TComma"
  by (simp_all add: range_tokens_def u32_token_def ident_is_def eq_ignore_ascii_case_def)

lemma first_band [simp]:
  "first (band_tokens b @ ts) \<noteq> kN k" "k' \<noteq> KAll \<Longrightarrow> first (band_tokens b @ ts) \<noteq> kC k'"
  "first (band_tokens b @ ts) \<noteq> kO KVerbose" "first (band_tokens b @ ts) \<noteq> kO KBrief"
  "first (band_tokens b @ ts) \<noteq> kO KRaw"
  by (cases b; simp add: band_tokens_def)+

lemma runs_at_layer [runs_intros]: "Q n ts \<Longrightarrow> runs at_layer (kN KLayer # u32_token n # ts) Q"
  unfolding at_layer_def by (rule runs_intros | simp)+

lemma runs_parse_walk_mode [runs_intros]: "Q m ts \<Longrightarrow> runs parse_walk_mode (walk_mode_token m # ts) Q"
  unfolding parse_walk_mode_def walk_mode_token_def by (cases m) ((rule runs_intros | simp)+)

lemma runs_eat_eq [runs_intros]: "(if first ts = TEq then Q () (tl ts) else Q () ts) \<Longrightarrow> runs eat_eq ts Q"
  unfolding eat_eq_def by (rule runs_on_token) (auto intro: runs_preturn split: if_splits)

lemma extract_components [runs_intros]:
  "ev_components v = None \<Longrightarrow> x \<noteq> Some [] \<Longrightarrow> first ts \<noteq> TComma \<Longrightarrow> wf_range_opt (ev_layers v) \<Longrightarrow> runs (token_loop_run extract_clause (v\<lparr>ev_components := x\<rparr>)) ts Q \<Longrightarrow>
     runs (token_loop_run extract_clause v) (opt_tokens (\<lambda>c. kN KComponents # sep_tokens TComma (\<lambda>y. [component_token y]) c) x @ ts) Q"
  by (cases v, rule extract_loop.runs_opt [where v' = "v\<lparr>ev_components := x\<rparr>", OF _ lessI])
    (unfold extract_clause_def, (rule runs_intros | simp)+)

lemma extract_layers [runs_intros]:
  "ev_layers v = None \<Longrightarrow> wf_range_opt x \<Longrightarrow> ev_components v \<noteq> Some [] \<Longrightarrow> runs (token_loop_run extract_clause (v\<lparr>ev_layers := x\<rparr>)) ts Q \<Longrightarrow>
     runs (token_loop_run extract_clause v) (opt_tokens (\<lambda>r. kN KLayers # range_tokens r) x @ ts) Q"
  by (cases v, rule extract_loop.runs_opt [where v' = "v\<lparr>ev_layers := x\<rparr>", OF _ lessI])
    (unfold extract_clause_def, (rule runs_intros | simp)+)

lemma extract_level [runs_intros]:
  assumes "ev_level v = LevelBrowse" "wf_range_opt (ev_layers v)" "ev_components v \<noteq> Some []"
    "runs (token_loop_run extract_clause (v\<lparr>ev_level := x\<rparr>)) ts Q"
  shows "runs (token_loop_run extract_clause v) (level_tokens x @ ts) Q"
proof (cases "x = LevelBrowse")
  case True
  with assms show ?thesis by (cases v) (simp add: level_tokens_def)
next
  case False
  have "runs (extract_clause v) (level_tokens x @ ts) (\<lambda>f r. f = Continue (v\<lparr>ev_level := x\<rparr>) \<and> r = ts)"
    using False by (cases x) (unfold extract_clause_def level_tokens_def, (rule runs_intros | simp)+)
  with assms show ?thesis by (intro extract_loop.runs_clause [OF _ lessI]) simp_all
qed

lemma extract_end: "ends ts \<Longrightarrow> wf_range_opt (ev_layers v) \<Longrightarrow> ev_components v \<noteq> Some [] \<Longrightarrow> Q v ts \<Longrightarrow> runs (token_loop_run extract_clause v) ts Q"
  by (rule extract_loop.runs_stop [OF _ lessI])
    (unfold extract_clause_def, (rule runs_intros runs_band_or_break_end | simp)+)

lemma diff_layer [runs_intros]:
  "dv_layer v = None \<Longrightarrow> runs (token_loop_run diff_clause (v\<lparr>dv_layer := x\<rparr>)) ts Q \<Longrightarrow>
     runs (token_loop_run diff_clause v) (opt_tokens (keyed (kN KLayer) u32_token) x @ ts) Q"
  by (cases v, rule diff_loop.runs_opt [where v' = "v\<lparr>dv_layer := x\<rparr>", OF _ lessI])
    (unfold diff_clause_def, (rule runs_intros | simp)+)

lemma diff_relation [runs_intros]:
  "dv_relation v = None \<Longrightarrow> runs (token_loop_run diff_clause (v\<lparr>dv_relation := x\<rparr>)) ts Q \<Longrightarrow>
     runs (token_loop_run diff_clause v) (opt_tokens (keyed (kN KRelation) TStringLit) x @ ts) Q"
  by (cases v, rule diff_loop.runs_opt [where v' = "v\<lparr>dv_relation := x\<rparr>", OF _ lessI])
    (unfold diff_clause_def, (rule runs_intros | simp)+)

lemma diff_limit [runs_intros]:
  "dv_limit v = None \<Longrightarrow> runs (token_loop_run diff_clause (v\<lparr>dv_limit := x\<rparr>)) ts Q \<Longrightarrow>
     runs (token_loop_run diff_clause v) (opt_tokens (keyed (kC KLimit) u32_token) x @ ts) Q"
  by (cases v, rule diff_loop.runs_opt [where v' = "v\<lparr>dv_limit := x\<rparr>", OF _ lessI])
    (unfold diff_clause_def, (rule runs_intros | simp)+)

lemma diff_into_patch [runs_intros]:
  "dv_into_patch v = None \<Longrightarrow> ends ts \<Longrightarrow> Q (v\<lparr>dv_into_patch := x\<rparr>) ts \<Longrightarrow>
     runs (token_loop_run diff_clause v) (opt_tokens (\<lambda>s. [kC KInto, kN KPatch, TStringLit s]) x @ ts) Q"
  by (cases v, cases x; rule diff_loop.runs_loop [OF _ lessI])
    (unfold diff_clause_def opt_tokens_def, (rule runs_intros | simp)+)

lemma walk_top [runs_intros]:
  "wv_top v = None \<Longrightarrow> wf_range_opt (wv_layers v) \<Longrightarrow> runs (token_loop_run walk_clause (v\<lparr>wv_top := x\<rparr>)) ts Q \<Longrightarrow>
     runs (token_loop_run walk_clause v) (opt_tokens (keyed (kC KTop) u32_token) x @ ts) Q"
  by (cases v, rule walk_loop.runs_opt [where v' = "v\<lparr>wv_top := x\<rparr>", OF _ lessI])
    (unfold walk_clause_def, (rule runs_intros | simp)+)

lemma walk_layers [runs_intros]:
  "wv_layers v = None \<Longrightarrow> wf_range_opt x \<Longrightarrow> runs (token_loop_run walk_clause (v\<lparr>wv_layers := x\<rparr>)) ts Q \<Longrightarrow>
     runs (token_loop_run walk_clause v) (opt_tokens (\<lambda>r. kN KLayers # range_tokens r) x @ ts) Q"
  by (cases v, rule walk_loop.runs_opt [where v' = "v\<lparr>wv_layers := x\<rparr>", OF _ lessI])
    (unfold walk_clause_def, (rule runs_intros | simp)+)

lemma walk_mode [runs_intros]:
  "wv_mode v = None \<Longrightarrow> wf_range_opt (wv_layers v) \<Longrightarrow> runs (token_loop_run walk_clause (v\<lparr>wv_mode := x\<rparr>)) ts Q \<Longrightarrow>
     runs (token_loop_run walk_clause v) (opt_tokens (keyed (kN KMode) walk_mode_token) x @ ts) Q"
  by (cases v, rule walk_loop.runs_opt [where v' = "v\<lparr>wv_mode := x\<rparr>", OF _ lessI])
    (unfold walk_clause_def, (rule runs_intros | simp)+)

lemma walk_compare [runs_intros]:
  "wv_compare v = False \<Longrightarrow> wf_range_opt (wv_layers v) \<Longrightarrow> runs (token_loop_run walk_clause (v\<lparr>wv_compare := b\<rparr>)) ts Q \<Longrightarrow>
     runs (token_loop_run walk_clause v) (flag_tokens [kO KCompare] b @ ts) Q"
  by (cases v, rule walk_loop.runs_flag [where v' = "v\<lparr>wv_compare := b\<rparr>", OF _ lessI])
    (unfold walk_clause_def, (rule runs_intros | simp)+)

lemma walk_end: "ends ts \<Longrightarrow> wf_range_opt (wv_layers v) \<Longrightarrow> Q v ts \<Longrightarrow> runs (token_loop_run walk_clause v) ts Q"
  by (rule walk_loop.runs_stop [OF _ lessI])
    (unfold walk_clause_def, (rule runs_intros runs_band_or_break_end | simp)+)

lemma runs_parse_compile_conflict [runs_intros]:
  "Q c ts \<Longrightarrow> runs parse_compile_conflict ((case c of ConflictLastWins \<Rightarrow> kO KLastWins
     | ConflictHighestConfidence \<Rightarrow> kO KHighestConfidence | ConflictFail \<Rightarrow> kO KFail) # ts) Q"
  unfolding parse_compile_conflict_def by (cases c) ((rule runs_intros | simp)+)

lemma on_conflict_end:
  "ends ts \<Longrightarrow> v = None \<or> tg = TargetVindex \<Longrightarrow> Q v ts \<Longrightarrow>
     runs (token_loop_run (on_conflict_clause tg) v) ts Q"
  by (rule on_conflict_loop.runs_stop [OF _ lessI])
    (unfold on_conflict_clause_def, (rule runs_intros | simp)+)

lemma on_conflict_step:
  "tg = TargetVindex \<Longrightarrow>
     runs (on_conflict_clause tg v) (kC KOn # kN KConflict # (case c of ConflictLastWins \<Rightarrow> kO KLastWins
         | ConflictHighestConfidence \<Rightarrow> kO KHighestConfidence | ConflictFail \<Rightarrow> kO KFail) # ts)
       (\<lambda>f r. f = Continue (Some c) \<and> r = ts)"
  unfolding on_conflict_clause_def by (rule runs_intros | simp)+

lemma on_conflict_clauses [runs_intros]:
  "x = None \<or> tg = TargetVindex \<Longrightarrow> ends ts \<Longrightarrow> Q x ts \<Longrightarrow>
     runs (token_loop_run (on_conflict_clause tg) None)
       (opt_tokens (\<lambda>c. [kC KOn, kN KConflict, case c of ConflictLastWins \<Rightarrow> kO KLastWins
         | ConflictHighestConfidence \<Rightarrow> kO KHighestConfidence | ConflictFail \<Rightarrow> kO KFail]) x @ ts) Q"
  by (rule on_conflict_loop.runs_opt [where v' = x, OF _ lessI])
    (auto intro: on_conflict_end on_conflict_step)

lemma route_fallback [runs_intros]:
  "ir_fallback v = False \<Longrightarrow> runs (token_loop_run route_clause (v\<lparr>ir_fallback := b\<rparr>)) ts Q \<Longrightarrow>
     runs (token_loop_run route_clause v) (flag_tokens [kO KFallback] b @ ts) Q"
  by (cases v, rule route_loop.runs_flag [where v' = "v\<lparr>ir_fallback := b\<rparr>", OF _ lessI])
    (unfold route_clause_def, (rule runs_intros | simp)+)

lemma route_topk [runs_intros]:
  "ir_topk v = None \<Longrightarrow> runs (token_loop_run route_clause (v\<lparr>ir_topk := x\<rparr>)) ts Q \<Longrightarrow>
     runs (token_loop_run route_clause v) (opt_tokens (keyed (kN KTopk) u32_token) x @ ts) Q"
  by (cases v, rule route_loop.runs_opt [where v' = "v\<lparr>ir_topk := x\<rparr>", OF _ lessI])
    (unfold route_clause_def, (rule runs_intros | simp)+)

lemma route_exit [runs_intros]:
  "ir_exit v = False \<Longrightarrow> runs (token_loop_run route_clause (v\<lparr>ir_exit := b\<rparr>)) ts Q \<Longrightarrow>
     runs (token_loop_run route_clause v) (flag_tokens [kO KExit] b @ ts) Q"
  by (cases v, rule route_loop.runs_flag [where v' = "v\<lparr>ir_exit := b\<rparr>", OF _ lessI])
    (unfold route_clause_def, (rule runs_intros | simp)+)

lemma route_end: "ends ts \<Longrightarrow> Q v ts \<Longrightarrow> runs (token_loop_run route_clause v) ts Q"
  by (rule route_loop.runs_stop [OF _ lessI])
    (unfold route_clause_def, (rule runs_intros runs_band_or_break_end | simp)+)

lemma infer_top [runs_intros]:
  "iv_top v = None \<Longrightarrow> runs (token_loop_run infer_clause (v\<lparr>iv_top := x\<rparr>)) ts Q \<Longrightarrow>
     runs (token_loop_run infer_clause v) (opt_tokens (keyed (kC KTop) u32_token) x @ ts) Q"
  by (cases v, rule infer_loop.runs_opt [where v' = "v\<lparr>iv_top := x\<rparr>", OF _ lessI])
    (unfold infer_clause_def, (rule runs_intros | simp)+)

lemma infer_compare [runs_intros]:
  "iv_compare v = False \<Longrightarrow> runs (token_loop_run infer_clause (v\<lparr>iv_compare := b\<rparr>)) ts Q \<Longrightarrow>
     runs (token_loop_run infer_clause v) (flag_tokens [kO KCompare] b @ ts) Q"
  by (cases v, rule infer_loop.runs_flag [where v' = "v\<lparr>iv_compare := b\<rparr>", OF _ lessI])
    (unfold infer_clause_def, (rule runs_intros | simp)+)

lemma infer_route_clause [runs_intros]:
  "iv_route v = None \<Longrightarrow> ends ts \<Longrightarrow> runs (token_loop_run infer_clause (v\<lparr>iv_route := x\<rparr>)) ts Q \<Longrightarrow>
     runs (token_loop_run infer_clause v) (opt_tokens route_tokens x @ ts) Q"
  by (cases v, rule infer_loop.runs_opt [where v' = "v\<lparr>iv_route := x\<rparr>", OF _ lessI])
    (unfold infer_clause_def, (rule runs_intros | simp add: route_tokens_def default_infer_route_def | rule route_end)+)

lemma infer_end: "ends ts \<Longrightarrow> Q v ts \<Longrightarrow> runs (token_loop_run infer_clause v) ts Q"
  by (rule infer_loop.runs_stop [OF _ lessI])
    (unfold infer_clause_def, (rule runs_intros runs_band_or_break_end | simp)+)

lemma describe_band [runs_intros]:
  "sv_band v = None \<Longrightarrow> runs (token_loop_run describe_clause (v\<lparr>sv_band := x\<rparr>)) ts Q \<Longrightarrow>
     runs (token_loop_run describe_clause v) (opt_tokens (band_tokens) x @ ts) Q"
  by (cases v, rule describe_loop.runs_opt [where v' = "v\<lparr>sv_band := x\<rparr>", OF _ lessI])
    (unfold describe_clause_def, (rule runs_intros runs_band_or_break | simp)+)

lemma describe_layer [runs_intros]:
  "sv_layer v = None \<Longrightarrow> runs (token_loop_run describe_clause (v\<lparr>sv_layer := x\<rparr>)) ts Q \<Longrightarrow>
     runs (token_loop_run describe_clause v) (opt_tokens (layer_tokens) x @ ts) Q"
  by (cases v, rule describe_loop.runs_opt [where v' = "v\<lparr>sv_layer := x\<rparr>", OF _ lessI])
    (unfold describe_clause_def, (rule runs_intros | simp)+)

lemma describe_relations_only [runs_intros]:
  "sv_relations_only v = False \<Longrightarrow> runs (token_loop_run describe_clause (v\<lparr>sv_relations_only := b\<rparr>)) ts Q \<Longrightarrow>
     runs (token_loop_run describe_clause v) (flag_tokens [kN KRelations, kC KOnly] b @ ts) Q"
  by (cases v, rule describe_loop.runs_flag [where v' = "v\<lparr>sv_relations_only := b\<rparr>", OF _ lessI])
    (unfold describe_clause_def, (rule runs_intros | simp)+)

lemma describe_mode [runs_intros]:
  "runs (token_loop_run describe_clause (v\<lparr>sv_mode := x\<rparr>)) ts Q \<Longrightarrow>
     runs (token_loop_run describe_clause v) (describe_mode_token x # ts) Q"
  by (cases v, cases x; rule describe_loop.runs_clause [where v' = "v\<lparr>sv_mode := x\<rparr>" and us = "[describe_mode_token x]", unfolded append_Cons append_Nil, OF _ lessI])
    (unfold describe_clause_def, (rule runs_intros | simp add: describe_mode_token_def)+)

lemma describe_end: "ends ts \<Longrightarrow> Q v ts \<Longrightarrow> runs (token_loop_run describe_clause v) ts Q"
  by (rule describe_loop.runs_stop [OF _ lessI])
    (unfold describe_clause_def, (rule runs_intros runs_band_or_break_end | simp)+)

lemma explain_layers [runs_intros]:
  "xv_layers v = None \<Longrightarrow> wf_range_opt x \<Longrightarrow> runs (token_loop_run explain_clause (v\<lparr>xv_layers := x\<rparr>)) ts Q \<Longrightarrow>
     runs (token_loop_run explain_clause v) (opt_tokens (\<lambda>r. kN KLayers # range_tokens r) x @ ts) Q"
  by (cases v, rule explain_loop.runs_opt [where v' = "v\<lparr>xv_layers := x\<rparr>", OF _ lessI])
    (unfold explain_clause_def, (rule runs_intros | simp)+)

lemma explain_band [runs_intros]:
  "xv_band v = None \<Longrightarrow> wf_range_opt (xv_layers v) \<Longrightarrow> runs (token_loop_run explain_clause (v\<lparr>xv_band := x\<rparr>)) ts Q \<Longrightarrow>
     runs (token_loop_run explain_clause v) (opt_tokens (band_tokens) x @ ts) Q"
  by (cases v, rule explain_loop.runs_opt [where v' = "v\<lparr>xv_band := x\<rparr>", OF _ lessI])
    (unfold explain_clause_def, (rule runs_intros runs_band_or_break | simp)+)

lemma explain_verbose [runs_intros]:
  "xv_verbose v = False \<Longrightarrow> wf_range_opt (xv_layers v) \<Longrightarrow> runs (token_loop_run explain_clause (v\<lparr>xv_verbose := b\<rparr>)) ts Q \<Longrightarrow>
     runs (token_loop_run explain_clause v) (flag_tokens [kO KVerbose] b @ ts) Q"
  by (cases v, rule explain_loop.runs_flag [where v' = "v\<lparr>xv_verbose := b\<rparr>", OF _ lessI])
    (unfold explain_clause_def, (rule runs_intros | simp)+)

lemma explain_top [runs_intros]:
  "xv_top v = None \<Longrightarrow> wf_range_opt (xv_layers v) \<Longrightarrow> runs (token_loop_run explain_clause (v\<lparr>xv_top := x\<rparr>)) ts Q \<Longrightarrow>
     runs (token_loop_run explain_clause v) (opt_tokens (keyed (kC KTop) u32_token) x @ ts) Q"
  by (cases v, rule explain_loop.runs_opt [where v' = "v\<lparr>xv_top := x\<rparr>", OF _ lessI])
    (unfold explain_clause_def, (rule runs_intros | simp)+)

lemma explain_relations_only [runs_intros]:
  "xv_relations_only v = False \<Longrightarrow> wf_range_opt (xv_layers v) \<Longrightarrow> runs (token_loop_run explain_clause (v\<lparr>xv_relations_only := b\<rparr>)) ts Q \<Longrightarrow>
     runs (token_loop_run explain_clause v) (flag_tokens [kN KRelations, kC KOnly] b @ ts) Q"
  by (cases v, rule explain_loop.runs_flag [where v' = "v\<lparr>xv_relations_only := b\<rparr>", OF _ lessI])
    (unfold explain_clause_def, (rule runs_intros | simp)+)

lemma explain_with_attention [runs_intros]:
  "xv_with_attention v = False \<Longrightarrow> wf_range_opt (xv_layers v) \<Longrightarrow> runs (token_loop_run explain_clause (v\<lparr>xv_with_attention := b\<rparr>)) ts Q \<Longrightarrow>
     runs (token_loop_run explain_clause v) (flag_tokens [kC KWith, kN KAttention] b @ ts) Q"
  by (cases v, rule explain_loop.runs_flag [where v' = "v\<lparr>xv_with_attention := b\<rparr>", OF _ lessI])
    (unfold explain_clause_def, (rule runs_intros | simp)+)

lemma explain_end: "ends ts \<Longrightarrow> wf_range_opt (xv_layers v) \<Longrightarrow> Q v ts \<Longrightarrow> runs (token_loop_run explain_clause v) ts Q"
  by (rule explain_loop.runs_stop [OF _ lessI])
    (unfold explain_clause_def, (rule runs_intros runs_band_or_break_end | simp)+)

lemma runs_parse_insert_mode [runs_intros]:
  "Q m ts \<Longrightarrow> runs parse_insert_mode ((case m of InsertKnn \<Rightarrow> kO KKnn | InsertCompose \<Rightarrow> kO KCompose) # ts) Q"
  unfolding parse_insert_mode_def by (cases m) ((rule runs_intros | simp)+)

lemma f32_token_neq [simp]: "f32_token x \<noteq> TEq" "f32_token x \<noteq> TKeyword k"
  by (simp_all add: f32_token_def)

lemma insert_layer [runs_intros]:
  "nv_layer v = None \<Longrightarrow> runs (token_loop_run insert_clause (v\<lparr>nv_layer := x\<rparr>)) ts Q \<Longrightarrow>
     runs (token_loop_run insert_clause v) (opt_tokens (layer_tokens) x @ ts) Q"
  by (cases v, rule insert_loop.runs_opt [where v' = "v\<lparr>nv_layer := x\<rparr>", OF _ lessI])
    (unfold insert_clause_def, (rule runs_intros | simp)+)

lemma insert_confidence [runs_intros]:
  "nv_confidence v = None \<Longrightarrow> pred_option f32_ok x \<Longrightarrow> runs (token_loop_run insert_clause (v\<lparr>nv_confidence := x\<rparr>)) ts Q \<Longrightarrow>
     runs (token_loop_run insert_clause v) (opt_tokens (keyed (kN KConfidence) f32_token) x @ ts) Q"
  by (cases v, rule insert_loop.runs_opt [where v' = "v\<lparr>nv_confidence := x\<rparr>", OF _ lessI])
    (unfold insert_clause_def, (rule runs_intros | simp)+)

lemma insert_alpha [runs_intros]:
  "nv_alpha v = None \<Longrightarrow> pred_option f32_ok x \<Longrightarrow> runs (token_loop_run insert_clause (v\<lparr>nv_alpha := x\<rparr>)) ts Q \<Longrightarrow>
     runs (token_loop_run insert_clause v) (opt_tokens (keyed (kN KAlpha) f32_token) x @ ts) Q"
  by (cases v, rule insert_loop.runs_opt [where v' = "v\<lparr>nv_alpha := x\<rparr>", OF _ lessI])
    (unfold insert_clause_def, (rule runs_intros | simp)+)

lemma insert_mode [runs_intros]:
  "runs (token_loop_run insert_clause (v\<lparr>nv_mode := x\<rparr>)) ts Q \<Longrightarrow>
     runs (token_loop_run insert_clause v) (kN KMode # TEq # (case x of InsertKnn \<Rightarrow> kO KKnn | InsertCompose \<Rightarrow> kO KCompose) # ts) Q"
  by (cases v, rule insert_loop.runs_clause [where v' = "v\<lparr>nv_mode := x\<rparr>" and us = "[kN KMode, TEq, (case x of InsertKnn \<Rightarrow> kO KKnn | InsertCompose \<Rightarrow> kO KCompose)]", unfolded append_Cons append_Nil, OF _ lessI])
    (unfold insert_clause_def, (rule runs_intros | simp)+)

lemma insert_end: "ends ts \<Longrightarrow> Q v ts \<Longrightarrow> runs (token_loop_run insert_clause v) ts Q"
  by (rule insert_loop.runs_stop [OF _ lessI])
    (unfold insert_clause_def, (rule runs_intros runs_band_or_break_end | simp)+)

lemma rebalance_max [runs_intros]:
  "rv_max_iters v = None \<Longrightarrow> runs (token_loop_run rebalance_clause (v\<lparr>rv_max_iters := x\<rparr>)) ts Q \<Longrightarrow>
     runs (token_loop_run rebalance_clause v) (opt_tokens (keyed (kC KMax) u32_token) x @ ts) Q"
  by (cases v, rule rebalance_loop.runs_opt [where v' = "v\<lparr>rv_max_iters := x\<rparr>", OF _ lessI])
    (unfold rebalance_clause_def, (rule runs_intros | simp)+)

lemma rebalance_floor [runs_intros]:
  "rv_floor v = None \<Longrightarrow> pred_option f32_ok x \<Longrightarrow> runs (token_loop_run rebalance_clause (v\<lparr>rv_floor := x\<rparr>)) ts Q \<Longrightarrow>
     runs (token_loop_run rebalance_clause v) (opt_tokens (keyed (kN KFloor) f32_token) x @ ts) Q"
  by (cases v, rule rebalance_loop.runs_opt [where v' = "v\<lparr>rv_floor := x\<rparr>", OF _ lessI])
    (unfold rebalance_clause_def, (rule runs_intros | simp)+)

lemma rebalance_ceiling [runs_intros]:
  "rv_ceiling v = None \<Longrightarrow> pred_option f32_ok x \<Longrightarrow> runs (token_loop_run rebalance_clause (v\<lparr>rv_ceiling := x\<rparr>)) ts Q \<Longrightarrow>
     runs (token_loop_run rebalance_clause v) (opt_tokens (keyed (kN KCeiling) f32_token) x @ ts) Q"
  by (cases v, rule rebalance_loop.runs_opt [where v' = "v\<lparr>rv_ceiling := x\<rparr>", OF _ lessI])
    (unfold rebalance_clause_def, (rule runs_intros | simp)+)

lemma rebalance_end: "ends ts \<Longrightarrow> Q v ts \<Longrightarrow> runs (token_loop_run rebalance_clause v) ts Q"
  by (rule rebalance_loop.runs_stop [OF _ lessI])
    (unfold rebalance_clause_def, (rule runs_intros runs_band_or_break_end | simp)+)

lemma relations_layer [runs_intros]:
  "lv_layer v = None \<Longrightarrow> runs (token_loop_run show_relations_clause (v\<lparr>lv_layer := x\<rparr>)) ts Q \<Longrightarrow>
     runs (token_loop_run show_relations_clause v) (opt_tokens (layer_tokens) x @ ts) Q"
  by (cases v, rule relations_loop.runs_opt [where v' = "v\<lparr>lv_layer := x\<rparr>", OF _ lessI])
    (unfold show_relations_clause_def, (rule runs_intros | simp)+)

lemma relations_with_examples [runs_intros]:
  "lv_with_examples v = False \<Longrightarrow> runs (token_loop_run show_relations_clause (v\<lparr>lv_with_examples := b\<rparr>)) ts Q \<Longrightarrow>
     runs (token_loop_run show_relations_clause v) (flag_tokens [kC KWith, kN KExamples] b @ ts) Q"
  by (cases v, rule relations_loop.runs_flag [where v' = "v\<lparr>lv_with_examples := b\<rparr>", OF _ lessI])
    (unfold show_relations_clause_def, (rule runs_intros | simp)+)

lemma relations_mode [runs_intros]:
  "runs (token_loop_run show_relations_clause (v\<lparr>lv_mode := x\<rparr>)) ts Q \<Longrightarrow>
     runs (token_loop_run show_relations_clause v) (describe_mode_token x # ts) Q"
  by (cases v, cases x; rule relations_loop.runs_clause [where v' = "v\<lparr>lv_mode := x\<rparr>" and us = "[describe_mode_token x]", unfolded append_Cons append_Nil, OF _ lessI])
    (unfold show_relations_clause_def, (rule runs_intros | simp add: describe_mode_token_def)+)

lemma relations_end: "ends ts \<Longrightarrow> Q v ts \<Longrightarrow> runs (token_loop_run show_relations_clause v) ts Q"
  by (rule relations_loop.runs_stop [OF _ lessI])
    (unfold show_relations_clause_def, (rule runs_intros runs_band_or_break_end | simp)+)

lemma trace_answer [runs_intros]:
  "tv_answer v = None \<Longrightarrow> wf_range_opt (tv_layers v) \<Longrightarrow> runs (token_loop_run trace_clause (v\<lparr>tv_answer := x\<rparr>)) ts Q \<Longrightarrow>
     runs (token_loop_run trace_clause v) (opt_tokens (keyed (kC KFor) TStringLit) x @ ts) Q"
  by (cases v, rule trace_loop.runs_opt [where v' = "v\<lparr>tv_answer := x\<rparr>", OF _ lessI])
    (unfold trace_clause_def, (rule runs_intros | simp)+)

lemma trace_decompose [runs_intros]:
  "tv_decompose v = False \<Longrightarrow> wf_range_opt (tv_layers v) \<Longrightarrow> runs (token_loop_run trace_clause (v\<lparr>tv_decompose := b\<rparr>)) ts Q \<Longrightarrow>
     runs (token_loop_run trace_clause v) (flag_tokens [kO KDecompose] b @ ts) Q"
  by (cases v, rule trace_loop.runs_flag [where v' = "v\<lparr>tv_decompose := b\<rparr>", OF _ lessI])
    (unfold trace_clause_def, (rule runs_intros | simp)+)

lemma trace_layers [runs_intros]:
  "tv_layers v = None \<Longrightarrow> wf_range_opt x \<Longrightarrow> runs (token_loop_run trace_clause (v\<lparr>tv_layers := x\<rparr>)) ts Q \<Longrightarrow>
     runs (token_loop_run trace_clause v) (opt_tokens (\<lambda>r. kN KLayers # range_tokens r) x @ ts) Q"
  by (cases v, rule trace_loop.runs_opt [where v' = "v\<lparr>tv_layers := x\<rparr>", OF _ lessI])
    (unfold trace_clause_def, (rule runs_intros | simp)+)

lemma trace_positions_step:
  "runs (trace_clause v) (kN KPositions # (case m of PositionAll \<Rightarrow> kC KAll | PositionLast \<Rightarrow> TIdent ''last'') # ts)
     (\<lambda>f r. f = Continue (v\<lparr>tv_positions := Some m\<rparr>) \<and> r = ts)"
  unfolding trace_clause_def by (cases m) ((rule runs_intros | simp)+)

lemma trace_positions [runs_intros]:
  "tv_positions v = None \<Longrightarrow> wf_range_opt (tv_layers v) \<Longrightarrow>
     runs (token_loop_run trace_clause (v\<lparr>tv_positions := x\<rparr>)) ts Q \<Longrightarrow>
     runs (token_loop_run trace_clause v)
       (opt_tokens (\<lambda>m. [kN KPositions, case m of PositionAll \<Rightarrow> kC KAll | PositionLast \<Rightarrow> TIdent ''last'']) x @ ts) Q"
  by (rule trace_loop.runs_opt [where v' = "v\<lparr>tv_positions := x\<rparr>", OF _ lessI])
    (auto intro: trace_positions_step)

lemma trace_save [runs_intros]:
  "tv_save v = None \<Longrightarrow> wf_range_opt (tv_layers v) \<Longrightarrow> runs (token_loop_run trace_clause (v\<lparr>tv_save := x\<rparr>)) ts Q \<Longrightarrow>
     runs (token_loop_run trace_clause v) (opt_tokens (keyed (kS KSave) TStringLit) x @ ts) Q"
  by (cases v, rule trace_loop.runs_opt [where v' = "v\<lparr>tv_save := x\<rparr>", OF _ lessI])
    (unfold trace_clause_def, (rule runs_intros | simp)+)

lemma trace_end: "ends ts \<Longrightarrow> wf_range_opt (tv_layers v) \<Longrightarrow> Q v ts \<Longrightarrow> runs (token_loop_run trace_clause v) ts Q"
  by (rule trace_loop.runs_stop [OF _ lessI])
    (unfold trace_clause_def, (rule runs_intros runs_band_or_break_end | simp)+)

end
