(* ===== verification/LqlStatements.thy ===== *)
theory LqlStatements
  imports LqlClauses
begin

text \<open>
  For every statement of LQL, its parser reads back the tokens it is printed to (\<open>reads\<close>).
\<close>

section \<open>Statements\<close>

lemma runs_optional_clause [runs_intros]:
  assumes "x = None \<Longrightarrow> first ts \<noteq> TKeyword kw"
    and "\<And>a. x = Some a \<Longrightarrow> runs f (g a @ ts) (\<lambda>b r. b = a \<and> r = ts)" and "Q x ts"
  shows "runs (optional_clause kw f) (opt_tokens (\<lambda>a. TKeyword kw # g a) x @ ts) Q"
proof (cases x)
  case (Some a)
  with assms(3) show ?thesis
    by (auto simp: optional_clause_def opt_tokens_def intro!: runs_on_keyword runs_pmap runs_mono [OF assms(2)])
qed (use assms in \<open>auto simp: optional_clause_def opt_tokens_def intro!: runs_on_keyword runs_preturn\<close>)

lemma first_level_tokens [simp]: "first ts \<noteq> TComma \<Longrightarrow> first (level_tokens l @ ts) \<noteq> TComma"
  by (cases l) (simp_all add: level_tokens_def)

text \<open>\<open>reads m s\<close>: on the tokens of \<open>s\<close> and the end of a statement, \<open>m\<close> gives \<open>s\<close>.\<close>

definition reads :: "statement action \<Rightarrow> statement \<Rightarrow> bool" where
  "reads m s \<longleftrightarrow> (\<forall>ts r. tail ts r \<longrightarrow> runs m (simple_tokens s @ ts) (\<lambda>a u. a = s \<and> u = r))"

lemma readsI:
  "(\<And>ts r. tail ts r \<Longrightarrow> ends ts \<Longrightarrow> runs m (simple_tokens s @ ts) (\<lambda>a u. a = s \<and> u = r)) \<Longrightarrow> reads m s"
  using tail_ends by (simp add: reads_def)

lemma parse_output_format_token [runs_intros]:
  "Q f ts \<Longrightarrow> runs parse_output_format
     ((case f of FormatSafetensors \<Rightarrow> kO KSafetensors | FormatGguf \<Rightarrow> kO KGguf) # ts) Q"
  unfolding parse_output_format_def by (cases f) ((rule runs_intros | simp)+)

lemma parse_compile_target_token [runs_intros]:
  "Q t ts \<Longrightarrow> runs parse_compile_target
     ((case t of TargetModel \<Rightarrow> kN KModel | TargetVindex \<Rightarrow> TIdent ''vindex'') # ts) Q"
  unfolding parse_compile_target_def by (cases t) ((rule runs_intros | simp)+)

lemma parse_select_source_token [runs_intros]:
  "Q s ts \<Longrightarrow> runs parse_select_source
     ((case s of FromEdges \<Rightarrow> kN KEdges | FromFeatures \<Rightarrow> kN KFeatures | FromEntities \<Rightarrow> kN KEntities) # ts) Q"
  unfolding parse_select_source_def by (cases s) ((rule runs_intros | simp)+)

lemma parse_conflict_strategy_token [runs_intros]:
  "Q c ts \<Longrightarrow> runs parse_conflict_strategy
     ((case c of KeepSource \<Rightarrow> kO KKeepSource | KeepTarget \<Rightarrow> kO KKeepTarget
        | HighestConfidence \<Rightarrow> kO KHighestConfidence) # ts) Q"
  unfolding parse_conflict_strategy_def by (cases c) ((rule runs_intros | simp)+)

lemma reads_extract: "wf_simple (Extract m out cs ls lv) \<Longrightarrow> reads parse_extract (Extract m out cs ls lv)"
  by (rule readsI, unfold parse_extract_def simple_tokens.simps)
    (rule runs_intros | simp add: first_tokens split: option.split | rule extract_end)+

lemma reads_compile: "wf_simple (Compile v out fm tg oc) \<Longrightarrow> reads parse_compile (Compile v out fm tg oc)"
  by (rule readsI, unfold parse_compile_def simple_tokens.simps)
    (rule runs_intros | simp add: first_tokens split: option.split)+

lemma reads_diff: "reads parse_diff (Diff a b l r lim p)"
  by (rule readsI, unfold parse_diff_def simple_tokens.simps)
    (rule runs_intros | simp add: first_tokens split: option.split)+

lemma reads_walk: "wf_simple (Walk s tp ls md cmp) \<Longrightarrow> reads parse_walk (Walk s tp ls md cmp)"
  by (rule readsI, unfold parse_walk_def simple_tokens.simps)
    (rule runs_intros | simp add: first_tokens split: option.split | rule walk_end)+

lemma reads_infer: "reads parse_infer (Infer s tp cmp rt)"
  by (rule readsI, unfold parse_infer_def simple_tokens.simps)
    (rule runs_intros | simp add: first_tokens split: option.split | rule infer_end)+

lemma reads_compact_minor: "reads parse_compact CompactMinor"
  by (rule readsI, unfold parse_compact_def simple_tokens.simps) (rule runs_intros | simp)+

lemma runs_compact_lambda [runs_intros]:
  "f32_ok x \<Longrightarrow> Q x ts \<Longrightarrow> runs parse_compact_lambda (TIdent ''LAMBDA'' # TEq # f32_token x # ts) Q"
  unfolding parse_compact_lambda_def by (rule runs_intros | simp)+

lemma minor_not_major: "\<not> ident_is ''MINOR'' (TIdent ''MAJOR'')"
  by (simp add: ident_is_def eq_ignore_ascii_case_def to_lowercase_def)

lemma reads_compact_major:
  "pred_option f32_ok lam \<Longrightarrow> reads parse_compact (CompactMajor full lam)"
  by (rule readsI, unfold parse_compact_def simple_tokens.simps, cases full)
    (rule runs_intros | simp add: first_tokens flag_tokens_def minor_not_major split: option.split | intro conjI impI allI)+

lemma reads_use: "reads parse_use (Use tg)"
  by (rule readsI, unfold parse_use_def simple_tokens.simps, cases tg)
    (rule runs_intros | simp add: first_tokens flag_tokens_def split: option.split | intro conjI impI allI)+

lemma runs_parse_nearest [runs_intros]:
  "Q c ts \<Longrightarrow> runs parse_nearest
     (kC KTo # TStringLit (nc_entity c) # kC KAt # kN KLayer # u32_token (nc_layer c) # ts) Q"
  unfolding parse_nearest_def by (cases c) (simp, (rule runs_intros | simp)+)

lemma runs_parse_order_by [runs_intros]:
  "first ts \<noteq> kC KAsc \<Longrightarrow> first ts \<noteq> kC KDesc \<Longrightarrow> Q c ts \<Longrightarrow>
     runs parse_order_by (name_token (ob_field c) # flag_tokens [kC KDesc] (ob_descending c) @ ts) Q"
  unfolding parse_order_by_def by (cases c) (simp, (rule runs_intros | simp add: flag_tokens_def | intro conjI impI allI)+)

lemma reads_select: "fs \<noteq> [] \<and> (case fs of FieldStar # xs \<Rightarrow> xs = [] | _ \<Rightarrow> True) \<Longrightarrow> reads parse_select (Select src fs cs nr od lim)"
  by (rule readsI, unfold parse_select_def simple_tokens.simps)
    (rule runs_intros | simp add: first_tokens split: option.split | intro conjI impI allI)+

lemma reads_describe: "reads parse_describe (Describe s bd l ro md)"
  by (rule readsI, unfold parse_describe_def simple_tokens.simps)
    (rule runs_intros | simp add: first_tokens default_describe_mode_def split: option.split | rule describe_end | intro conjI impI allI)+

lemma reads_explain: "wf_range_opt ls \<Longrightarrow> reads parse_explain (Explain s md ls bd vb tp ro wa)"
  by (rule readsI, unfold parse_explain_def simple_tokens.simps, cases md)
    (rule runs_intros | simp add: first_tokens split: option.split | rule explain_end | intro conjI impI allI)+

lemma reads_insert: "pred_option f32_ok cf \<and> pred_option f32_ok al \<Longrightarrow> reads parse_insert (Insert e r t l cf al md)"
  by (rule readsI, unfold parse_insert_def simple_tokens.simps)
    (rule runs_intros | simp add: first_tokens default_insert_mode_def split: option.split | rule insert_end | intro conjI impI allI)+

lemma reads_delete: "cs \<noteq> [] \<Longrightarrow> reads parse_delete (Delete cs)"
  by (rule readsI, unfold parse_delete_def simple_tokens.simps)
    (rule runs_intros | simp add: first_tokens split: option.split | intro conjI impI allI)+

lemma reads_update: "upds \<noteq> [] \<and> cs \<noteq> [] \<Longrightarrow> reads parse_update (Update upds cs)"
  by (rule readsI, unfold parse_update_def simple_tokens.simps)
    (rule runs_intros | simp add: first_tokens split: option.split | intro conjI impI allI)+

lemma reads_merge: "reads parse_merge (Merge src tg cf)"
  by (rule readsI, unfold parse_merge_def simple_tokens.simps)
    (rule runs_intros | simp add: first_tokens split: option.split | intro conjI impI allI)+

lemma reads_rebalance: "pred_option f32_ok fl \<and> pred_option f32_ok ce \<Longrightarrow> reads parse_rebalance (Rebalance mx fl ce)"
  by (rule readsI, unfold parse_rebalance_def simple_tokens.simps)
    (rule runs_intros | simp add: first_tokens split: option.split | rule rebalance_end | intro conjI impI allI)+

lemma reads_show_relations: "reads parse_show (ShowRelations l we md)"
  by (rule readsI, unfold parse_show_def show_relations_def simple_tokens.simps)
    (rule runs_intros | simp add: first_tokens default_describe_mode_def split: option.split | intro conjI impI allI | rule relations_end)+

lemma runs_if_integer [runs_intros]:
  assumes "case first ts of TIntegerLit n \<Rightarrow> runs hit ts Q | _ \<Rightarrow> runs other ts Q"
  shows "runs (if_integer hit other) ts Q"
proof (rule runsI)
  fix p
  assume p: "ps_rest p = ts"
  show "\<exists>a p'. if_integer hit other p = Inr (a, p') \<and> Q a (ps_rest p')"
    using assms runsD [OF _ p, of hit Q] runsD [OF _ p, of other Q]
    by (auto simp: if_integer_def peek_first [OF p] split: token.splits)
qed

lemma runs_if_string [runs_intros]:
  assumes "case first ts of TStringLit n \<Rightarrow> runs hit ts Q | _ \<Rightarrow> runs other ts Q"
  shows "runs (if_string hit other) ts Q"
proof (rule runsI)
  fix p
  assume p: "ps_rest p = ts"
  show "\<exists>a p'. if_string hit other p = Inr (a, p') \<and> Q a (ps_rest p')"
    using assms runsD [OF _ p, of hit Q] runsD [OF _ p, of other Q]
    by (auto simp: if_string_def peek_first [OF p] split: token.splits)
qed

lemma ends_cases:
  "ends ts \<Longrightarrow> (case first ts of TIntegerLit n \<Rightarrow> f n | _ \<Rightarrow> d) = d"
  "ends ts \<Longrightarrow> (case first ts of TStringLit s \<Rightarrow> g s | _ \<Rightarrow> d) = d"
  by (auto simp: ends_def)

lemma reads_show_layers: "wf_range_opt rg \<Longrightarrow> reads parse_show (ShowLayers rg)"
  by (rule readsI, unfold parse_show_def show_layers_def simple_tokens.simps, cases rg)
    (rule runs_intros | simp add: opt_tokens_def ends_cases)+

lemma reads_show_features: "reads parse_show (ShowFeatures l cs lim)"
  by (rule readsI, unfold parse_show_def show_features_def simple_tokens.simps)
    (rule runs_intros | simp add: first_tokens split: option.split | intro conjI impI allI)+

lemma runs_entities_layer:
  assumes "first ts \<noteq> kC KAt" "\<And>n. first ts \<noteq> TIntegerLit n" "Q l ts"
  shows "runs (on_keyword (Clause KAt) (pmap Some at_layer) (if_integer (pmap Some expect_u32) (preturn None)))
    (opt_tokens layer_tokens l @ ts) Q"
proof (cases l)
  case None
  have "(case first ts of TIntegerLit n \<Rightarrow> runs (pmap Some expect_u32) ts Q
      | _ \<Rightarrow> runs (preturn None) ts Q) = runs (preturn None) ts Q"
    using assms(2) by (simp split: token.split)
  with None assms show ?thesis
    by (auto simp: opt_tokens_def intro!: runs_on_keyword runs_if_integer runs_preturn)
qed (use assms(3) in \<open>auto simp: opt_tokens_def intro!: runs_on_keyword runs_pmap runs_at_layer\<close>)

lemma reads_show_entities: "reads parse_show (ShowEntities l lim)"
  by (rule readsI, unfold parse_show_def show_entities_def simple_tokens.simps)
    (rule runs_entities_layer | rule runs_intros | simp add: first_tokens split: option.split)+

lemma reads_show_models: "reads parse_show (ShowModels)"
  by (rule readsI, unfold parse_show_def simple_tokens.simps)
    (rule runs_intros | simp add: first_tokens split: option.split | intro conjI impI allI)+

lemma reads_show_patches: "reads parse_show (ShowPatches)"
  by (rule readsI, unfold parse_show_def simple_tokens.simps)
    (rule runs_intros | simp add: first_tokens split: option.split | intro conjI impI allI)+

lemma reads_show_compact_status: "reads parse_show (ShowCompactStatus)"
  by (rule readsI, unfold parse_show_def simple_tokens.simps)
    (rule runs_intros | simp add: first_tokens split: option.split | intro conjI impI allI)+

lemma reads_stats: "reads parse_stats (Stats v)"
  by (rule readsI, unfold parse_stats_def simple_tokens.simps, cases v)
    (rule runs_intros | simp add: opt_tokens_def ends_cases)+

lemma reads_begin: "reads parse_begin (BeginPatch p)"
  by (rule readsI, unfold parse_begin_def simple_tokens.simps)
    (rule runs_intros | simp add: first_tokens split: option.split | intro conjI impI allI)+

lemma reads_save: "reads parse_save (SavePatch)"
  by (rule readsI, unfold parse_save_def simple_tokens.simps)
    (rule runs_intros | simp add: first_tokens split: option.split | intro conjI impI allI)+

lemma reads_apply: "reads parse_apply (ApplyPatch p)"
  by (rule readsI, unfold parse_apply_def simple_tokens.simps)
    (rule runs_intros | simp add: first_tokens split: option.split | intro conjI impI allI)+

lemma reads_remove: "reads parse_remove (RemovePatch p)"
  by (rule readsI, unfold parse_remove_def simple_tokens.simps)
    (rule runs_intros | simp add: first_tokens split: option.split | intro conjI impI allI)+

lemma reads_trace: "wf_range_opt ls \<Longrightarrow> reads parse_trace (Trace s an dc ls ps sv)"
  by (rule readsI, unfold parse_trace_def simple_tokens.simps)
    (rule runs_intros | simp add: first_tokens split: option.split | rule trace_end | intro conjI impI allI)+

end
