(* ===== verification/LqlLexer.thy ===== *)
theory LqlLexer
  imports LqlToken
begin

text \<open>
  The lexer (\<open>crates/larql-lql/src/lexer.rs\<close>, lines 385 to 657): a cursor over the bytes of
  the input, one function per method. The \<open>while\<close> loops that only move the cursor are
  \<open>advance_while\<close>; the two loops that build a value (\<open>tokenise\<close> and the string
  scanner) are recursive functions with their termination proofs.
\<close>

section \<open>State and errors\<close>

record lexer =
  lx_input :: string
  lx_pos :: nat

datatype lex_error =
    ExpectedGtAfterPipe nat
  | ExpectedEqAfterBang nat
  | UnexpectedCharacter char nat
  | UnterminatedString
  | InvalidUtf8Number
  | InvalidNumber string
  | InvalidInteger string
  | InvalidUtf8Identifier

definition new_lexer :: "string \<Rightarrow> lexer" where
  "new_lexer s = \<lparr>lx_input = s, lx_pos = 0\<rparr>"

abbreviation lx_rest :: "lexer \<Rightarrow> string" where
  "lx_rest lx \<equiv> drop (lx_pos lx) (lx_input lx)"

text \<open>\<open>self.pos < self.input.len() && p(self.input[self.pos])\<close>.\<close>

definition looking_at :: "(char \<Rightarrow> bool) \<Rightarrow> lexer \<Rightarrow> bool" where
  "looking_at p lx \<longleftrightarrow> lx_pos lx < length (lx_input lx) \<and> p (lx_input lx ! lx_pos lx)"

definition bump :: "nat \<Rightarrow> lexer \<Rightarrow> lexer" where
  "bump n lx = lx\<lparr>lx_pos := lx_pos lx + n\<rparr>"

function advance_while :: "(char \<Rightarrow> bool) \<Rightarrow> lexer \<Rightarrow> lexer" where
  "advance_while p lx = (if looking_at p lx then advance_while p (bump 1 lx) else lx)"
  by pat_completeness auto
termination
  by (relation "measure (\<lambda>(p, lx). length (lx_input lx) - lx_pos lx)")
    (auto simp: looking_at_def bump_def)

declare advance_while.simps [simp del]

text \<open>The cursor in terms of what is left of the input.\<close>

lemma bump_simps [simp, cursor_simps]:
  "lx_input (bump n lx) = lx_input lx" "lx_pos (bump n lx) = lx_pos lx + n"
  "bump n (bump m lx) = bump (m + n) lx" "bump 0 lx = lx"
  by (simp_all add: bump_def add.commute)

lemma looking_at_rest:
  "looking_at p lx \<longleftrightarrow> (case lx_rest lx of [] \<Rightarrow> False | c # cs \<Rightarrow> p c)"
  by (cases "lx_rest lx") (auto simp: looking_at_def dest: nth_of_drop)

lemma advance_while_eq:
  "advance_while p lx = bump (length (takeWhile p (lx_rest lx))) lx"
proof (induction p lx rule: advance_while.induct)
  case (1 p lx)
  show ?case
  proof (cases "looking_at p lx")
    case True
    then have "lx_rest lx = lx_input lx ! lx_pos lx # drop (Suc (lx_pos lx)) (lx_input lx)"
      and "p (lx_input lx ! lx_pos lx)"
      by (simp_all add: looking_at_def drop_Cons_nth)
    with "1.IH" [OF True] True show ?thesis
      by (simp add: advance_while.simps [of p lx])
  next
    case False
    then have "takeWhile p (lx_rest lx) = []"
      by (simp add: looking_at_rest split: list.splits)
    with False show ?thesis by (simp add: advance_while.simps [of p lx])
  qed
qed

section \<open>Whitespace, comments, literals and words\<close>

function skip_whitespace_and_comments :: "lexer \<Rightarrow> lexer" where
  "skip_whitespace_and_comments lx =
     (if lx_pos lx < length (lx_input lx) then
        let ch = lx_input lx ! lx_pos lx in
        if is_ascii_whitespace ch then skip_whitespace_and_comments (bump 1 lx)
        else if ch = CHR ''-'' \<and> looking_at (\<lambda>c. c = CHR ''-'') (bump 1 lx)
        then skip_whitespace_and_comments (advance_while (\<lambda>c. c \<noteq> CHR 0x0A) (bump 2 lx))
        else lx
      else lx)"
  by pat_completeness auto
termination
  by (relation "measure (\<lambda>lx. length (lx_input lx) - lx_pos lx)") (auto simp: advance_while_eq)

declare skip_whitespace_and_comments.simps [simp del]

text \<open>
  The body of the string scanner: \<open>seg\<close> is where the current unescaped segment starts, \<open>out\<close>
  what has been decoded so far.
\<close>

definition flush_segment :: "nat \<Rightarrow> lexer \<Rightarrow> string \<Rightarrow> string" where
  "flush_segment seg lx out =
     (if seg < lx_pos lx then out @ from_utf8_lossy (segment seg (lx_pos lx) (lx_input lx)) else out)"

definition decode_escape :: "char \<Rightarrow> string" where
  "decode_escape c =
     (if c = CHR 0x5C then [CHR 0x5C]
      else if c = CHR 0x22 then [CHR 0x22]
      else if c = CHR 0x27 then [CHR 0x27]
      else if c = CHR ''n'' then [CHR 0x0A]
      else if c = CHR ''t'' then [CHR 0x09]
      else if c = CHR ''r'' then [CHR 0x0D]
      else if c = CHR ''0'' then [CHR 0x00]
      else push_latin1 c)"

function quoted_loop :: "char \<Rightarrow> lexer \<Rightarrow> nat \<Rightarrow> string \<Rightarrow> lex_error + (nat \<times> string \<times> lexer)" where
  "quoted_loop quote lx seg out =
     (if looking_at (\<lambda>c. c \<noteq> quote) lx then
        if lx_input lx ! lx_pos lx = CHR 0x5C then
          let out1 = flush_segment seg lx out; lx1 = bump 1 lx in
          if length (lx_input lx1) \<le> lx_pos lx1 then Inl UnterminatedString
          else
            let out2 = out1 @ decode_escape (lx_input lx1 ! lx_pos lx1); lx2 = bump 1 lx1 in
            quoted_loop quote lx2 (lx_pos lx2) out2
        else quoted_loop quote (bump 1 lx) seg out
      else Inr (seg, out, lx))"
  by pat_completeness auto
termination
  by (relation "measure (\<lambda>(q, lx, s, out). length (lx_input lx) - lx_pos lx)")
    (auto simp: looking_at_def bump_def)

declare quoted_loop.simps [simp del]

definition read_quoted :: "char \<Rightarrow> lexer \<Rightarrow> lex_error + (token \<times> lexer)" where
  "read_quoted quote lx =
     (let lx0 = bump 1 lx in
      case quoted_loop quote lx0 (lx_pos lx0) [] of
        Inl e \<Rightarrow> Inl e
      | Inr (seg, out, lx1) \<Rightarrow>
          if length (lx_input lx1) \<le> lx_pos lx1 then Inl UnterminatedString
          else Inr (TStringLit (flush_segment seg lx1 out), bump 1 lx1))"

text \<open>\<open>text.parse::<i64>()\<close> and \<open>text.parse::<f64>()\<close> on the digits the scanner took.\<close>

definition digit_value :: "char \<Rightarrow> nat" where
  "digit_value c = byte c - 48"

definition decimal_value :: "string \<Rightarrow> nat" where
  "decimal_value s = foldl (\<lambda>n c. 10 * n + digit_value c) 0 s"

definition parse_i64 :: "string \<Rightarrow> i64 option" where
  "parse_i64 s =
     (if s \<noteq> [] \<and> list_all is_ascii_digit s \<and> decimal_value s < 2 ^ 63
      then Some (word_of_nat (decimal_value s)) else None)"

definition parse_f64 :: "string \<Rightarrow> f64 option" where
  "parse_f64 s =
     (let ip = takeWhile is_ascii_digit s; fp = drop (length ip + 1) s in
      if ip \<noteq> [] \<and> fp \<noteq> [] \<and> s = ip @ CHR ''.'' # fp \<and> list_all is_ascii_digit fp
      then Some (f64_of_ratio (decimal_value (ip @ fp)) (10 ^ length fp)) else None)"

definition read_number :: "lexer \<Rightarrow> lex_error + (token \<times> lexer)" where
  "read_number lx =
     (let start = lx_pos lx; lx1 = advance_while is_ascii_digit lx;
          is_float = looking_at (\<lambda>c. c = CHR ''.'') lx1 \<and> looking_at is_ascii_digit (bump 1 lx1);
          lx2 = (if is_float then advance_while is_ascii_digit (bump 1 lx1) else lx1);
          txt = segment start (lx_pos lx2) (lx_input lx2)
      in if \<not> valid_utf8 txt then Inl InvalidUtf8Number
         else if is_float then
           (case parse_f64 txt of None \<Rightarrow> Inl (InvalidNumber txt) | Some v \<Rightarrow> Inr (TNumberLit v, lx2))
         else
           (case parse_i64 txt of None \<Rightarrow> Inl (InvalidInteger txt) | Some v \<Rightarrow> Inr (TIntegerLit v, lx2)))"

definition is_word_char :: "char \<Rightarrow> bool" where
  "is_word_char c \<longleftrightarrow> is_ascii_alphanumeric c \<or> c = CHR ''_''"

definition read_word :: "lexer \<Rightarrow> lex_error + (token \<times> lexer)" where
  "read_word lx =
     (let start = lx_pos lx; lx1 = advance_while is_word_char lx;
          word = segment start (lx_pos lx1) (lx_input lx1)
      in if \<not> valid_utf8 word then Inl InvalidUtf8Identifier
         else (case keyword_from_str word of
                 Some kw \<Rightarrow> Inr (TKeyword kw, lx1)
               | None \<Rightarrow> Inr (TIdent word, lx1)))"

section \<open>The token stream\<close>

text \<open>A punctuation token of one byte, and of two bytes where the second is \<open>c\<close>.\<close>

definition next_token :: "lexer \<Rightarrow> lex_error + (token \<times> lexer)" where
  "next_token lx0 =
     (let lx = skip_whitespace_and_comments lx0 in
      if length (lx_input lx) \<le> lx_pos lx then Inr (TEof, lx)
      else
        let ch = lx_input lx ! lx_pos lx; lx1 = bump 1 lx in
        if ch = CHR ''*'' then Inr (TStar, lx1)
        else if ch = CHR '','' then Inr (TComma, lx1)
        else if ch = CHR '';'' then Inr (TSemicolon, lx1)
        else if ch = CHR ''('' then Inr (TLParen, lx1)
        else if ch = CHR '')'' then Inr (TRParen, lx1)
        else if ch = CHR ''.'' then Inr (TDot, lx1)
        else if ch = CHR ''|'' then
          (if looking_at (\<lambda>c. c = CHR ''>'') lx1 then Inr (TPipe, bump 1 lx1)
           else Inl (ExpectedGtAfterPipe (lx_pos lx1)))
        else if ch = CHR ''='' then Inr (TEq, lx1)
        else if ch = CHR ''!'' then
          (if looking_at (\<lambda>c. c = CHR ''='') lx1 then Inr (TNeq, bump 1 lx1)
           else Inl (ExpectedEqAfterBang (lx_pos lx1)))
        else if ch = CHR ''>'' then
          (if looking_at (\<lambda>c. c = CHR ''='') lx1 then Inr (TGte, bump 1 lx1) else Inr (TGt, lx1))
        else if ch = CHR ''<'' then
          (if looking_at (\<lambda>c. c = CHR ''='') lx1 then Inr (TLte, bump 1 lx1) else Inr (TLt, lx1))
        else if ch = CHR 0x22 then read_quoted (CHR 0x22) lx
        else if ch = CHR 0x27 then read_quoted (CHR 0x27) lx
        else if is_ascii_digit ch then read_number lx
        else if ch = CHR ''-'' then Inr (TDash, lx1)
        else if is_ascii_alphabetic ch \<or> ch = CHR ''_'' then read_word lx
        else Inl (UnexpectedCharacter ch (lx_pos lx)))"

text \<open>
  Every token but the end marker moves the cursor forward and inside the input, which is why
  \<open>tokenise\<close> ends.
\<close>

definition lex_step :: "lexer \<Rightarrow> lexer \<Rightarrow> bool" where
  "lex_step lx lx' \<longleftrightarrow>
     lx_input lx' = lx_input lx \<and> lx_pos lx < lx_pos lx' \<and> lx_pos lx' \<le> length (lx_input lx)"

lemma skip_input [simp]: "lx_input (skip_whitespace_and_comments lx) = lx_input lx"
proof (induction lx rule: skip_whitespace_and_comments.induct)
  case (1 lx)
  then show ?case
    by (simp add: skip_whitespace_and_comments.simps [of lx] advance_while_eq Let_def)
qed

lemma skip_pos: "lx_pos lx \<le> lx_pos (skip_whitespace_and_comments lx)"
proof (induction lx rule: skip_whitespace_and_comments.induct)
  case (1 lx)
  show ?case
  proof (cases "lx_pos lx < length (lx_input lx)")
    case True
    note IH = "1.IH" [OF True refl]
    show ?thesis
      using True IH
      by (auto simp: skip_whitespace_and_comments.simps [of lx] advance_while_eq Let_def)
  next
    case False
    then show ?thesis by (simp add: skip_whitespace_and_comments.simps [of lx])
  qed
qed

lemma advance_while_step:
  assumes "looking_at p lx"
  shows "lex_step lx (advance_while p lx)"
proof -
  have "lx_rest lx \<noteq> [] \<and> p (hd (lx_rest lx))"
    using assms by (auto simp: looking_at_rest split: list.splits)
  then have "0 < length (takeWhile p (lx_rest lx))" by (cases "lx_rest lx") auto
  moreover have "lx_pos lx + length (takeWhile p (lx_rest lx)) \<le> length (lx_input lx)"
    using assms length_takeWhile_drop [of p "lx_pos lx" "lx_input lx"]
    by (auto simp: looking_at_def)
  ultimately show ?thesis by (simp add: lex_step_def advance_while_eq)
qed

lemma quoted_loop_progress:
  "quoted_loop q lx seg out = Inr (seg', out', lx') \<Longrightarrow>
     lx_input lx' = lx_input lx \<and> lx_pos lx \<le> lx_pos lx'"
proof (induction q lx seg out rule: quoted_loop.induct)
  case (1 q lx seg out)
  then show ?case
    by (fastforce simp: quoted_loop.simps [of q lx seg out] Let_def split: if_splits)
qed

lemma lex_step_trans_bump: "lex_step (bump n lx) lx' \<Longrightarrow> lex_step lx lx'"
  by (simp add: lex_step_def)

lemma read_quoted_step: "read_quoted q lx = Inr (t, lx') \<Longrightarrow> lex_step lx lx'"
  by (auto simp: read_quoted_def Let_def lex_step_def split: sum.splits if_splits
      dest!: quoted_loop_progress)

lemma read_number_step:
  assumes "read_number lx = Inr (t, lx')" and "looking_at is_ascii_digit lx"
  shows "lex_step lx lx'"
proof -
  note int = advance_while_step [OF assms(2)]
  show ?thesis
  proof (cases "looking_at is_ascii_digit (bump 1 (advance_while is_ascii_digit lx))")
    case True
    from int advance_while_step [OF True] assms(1) show ?thesis
      by (auto simp: read_number_def Let_def lex_step_def split: if_splits option.splits)
  next
    case False
    with int assms(1) show ?thesis
      by (auto simp: read_number_def Let_def split: if_splits option.splits)
  qed
qed

lemma read_word_step:
  "read_word lx = Inr (t, lx') \<Longrightarrow> looking_at is_word_char lx \<Longrightarrow> lex_step lx lx'"
  by (auto simp: read_word_def Let_def split: if_splits option.splits dest: advance_while_step)

lemma next_token_step:
  assumes "next_token lx = Inr (t, lx')" and "t \<noteq> TEof"
  shows "lex_step lx lx'"
proof -
  let ?lx = "skip_whitespace_and_comments lx"
  have 1: "lx_pos lx \<le> lx_pos ?lx" by (rule skip_pos)
  have here: "looking_at p ?lx \<longleftrightarrow> p (lx_input ?lx ! lx_pos ?lx)"
    if "lx_pos ?lx < length (lx_input ?lx)" for p using that by (simp add: looking_at_def)
  have next1: "lx_pos ?lx + 1 < length (lx_input lx)" if "looking_at p (bump (Suc 0) ?lx)" for p
    using that by (simp add: looking_at_def)
  have "lex_step ?lx lx'"
    using assms
    by (auto simp: next_token_def Let_def not_le lex_step_def here is_word_char_def
        is_ascii_alphanumeric_def split: if_splits
        dest!: next1 read_quoted_step read_number_step read_word_step)
  with 1 show ?thesis by (simp add: lex_step_def)
qed

function tokenise :: "lexer \<Rightarrow> lex_error + token list" where
  "tokenise lx =
     (case next_token lx of
        Inl e \<Rightarrow> Inl e
      | Inr (tok, lx') \<Rightarrow>
          if tok = TEof then Inr [TEof]
          else (case tokenise lx' of Inl e \<Rightarrow> Inl e | Inr toks \<Rightarrow> Inr (tok # toks)))"
  by pat_completeness auto
termination
  by (relation "measure (\<lambda>lx. length (lx_input lx) - lx_pos lx)")
    (auto simp: lex_step_def dest!: next_token_step)

declare tokenise.simps [simp del]

end
