(* ===== verification/LqlLexerProps.thy ===== *)
theory LqlLexerProps
  imports LqlLexer
begin

text \<open>
  What the lexer promises its client, the parser: every token it delivers is well formed
  (\<open>lexed_token\<close>), the stream ends with exactly one end marker, the error branches the source
  calls unreachable are unreachable, and the text of a token list (\<open>render\<close>) lexes back to it.
\<close>

section \<open>What a delivered token looks like\<close>

fun lexed_token :: "token \<Rightarrow> bool" where
  "lexed_token (TIntegerLit n) = (unat n < 2 ^ 63)"
| "lexed_token (TNumberLit x) = (\<not> f64_negative x)"
| "lexed_token (TStringLit s) = valid_utf8 s"
| "lexed_token (TIdent w) =
     (w \<noteq> [] \<and> list_all is_word_char w \<and> \<not> is_ascii_digit (hd w) \<and> keyword_from_str w = None)"
| "lexed_token _ = True"

fun unreachable_error :: "lex_error \<Rightarrow> bool" where
  "unreachable_error InvalidUtf8Number = True"
| "unreachable_error InvalidUtf8Identifier = True"
| "unreachable_error (InvalidNumber s) = True"
| "unreachable_error _ = False"

lemma is_ascii_digit_byte: "is_ascii_digit c \<Longrightarrow> byte c < 128"
  by (simp add: is_ascii_digit_def)

lemma is_word_char_byte: "is_word_char c \<Longrightarrow> byte c < 128"
  by (auto simp: is_word_char_def is_ascii_alphanumeric_def is_ascii_alphabetic_def
      is_ascii_digit_def)

lemma segment_bump: "segment (lx_pos lx) (lx_pos lx + n) (lx_input lx) = take n (lx_rest lx)"
  by (simp add: segment_def)

lemma takeWhile_take [simp]: "take (length (takeWhile p xs)) xs = takeWhile p xs"
  by (metis append_eq_conv_conj takeWhile_dropWhile_id)

lemma float_bits_le: "float_bits p e i n d \<le> i"
proof (cases "n = 0")
  case True
  then show ?thesis by (simp add: float_bits_def del: Let_def)
next
  case False
  show ?thesis unfolding float_bits_def Let_def if_not_P [OF False] by (rule min.cobounded2)
qed

lemma f64_of_ratio_nonneg: "\<not> f64_negative (f64_of_ratio n d)"
proof -
  let ?b = "float_bits 53 (-1022) (2047 * 2 ^ 52) n d"
  have "?b \<le> 2047 * 2 ^ 52" by (rule float_bits_le)
  then have lt: "?b < 2 ^ 63" by (rule le_less_trans) simp
  then have "?b < 2 ^ LENGTH(64)" by (rule less_trans) simp
  then have "unat (f64_of_ratio n d) = ?b"
    unfolding f64_of_ratio_def unsigned_of_nat take_bit_eq_mod of_nat_id by (rule mod_less)
  with lt show ?thesis by (simp only: f64_negative_def not_le)
qed

text \<open>The cursor after \<open>n\<close> bytes.\<close>

lemma rest_after:
  "lx_rest lx = xs @ r \<Longrightarrow> drop (lx_pos lx + length xs) (lx_input lx) = r"
  by (metis append_eq_conv_conj drop_drop add.commute)

lemma valid_utf8_escape: "valid_utf8 (decode_escape c)"
  by (simp add: decode_escape_def valid_utf8_push_latin1 valid_utf8_ascii)

lemma valid_utf8_flush: "valid_utf8 out \<Longrightarrow> valid_utf8 (flush_segment seg lx out)"
  by (simp add: flush_segment_def valid_utf8_append valid_utf8_lossy)

lemma quoted_loop_valid:
  "quoted_loop q lx seg out = Inr (seg', out', lx') \<Longrightarrow> valid_utf8 out \<Longrightarrow> valid_utf8 out'"
proof (induction q lx seg out rule: quoted_loop.induct)
  case (1 q lx seg out)
  show ?case
  proof (cases "looking_at (\<lambda>c. c \<noteq> q) lx \<and> lx_input lx ! lx_pos lx = CHR 0x5C")
    case True
    then show ?thesis
      using "1.IH"(1) "1.prems" valid_utf8_flush [OF "1.prems"(2), of seg lx] valid_utf8_escape
      by (simp add: quoted_loop.simps [of q lx seg out] Let_def valid_utf8_append split: if_splits)
  next
    case False
    then show ?thesis
      using "1.IH"(2) "1.prems"
      by (cases "looking_at (\<lambda>c. c \<noteq> q) lx") (simp_all add: quoted_loop.simps [of q lx seg out])
  qed
qed

lemma read_quoted_token:
  assumes "read_quoted q lx = Inr (t, lx')"
  shows "lexed_token t \<and> t \<noteq> TEof"
proof -
  obtain seg out lx1 where "quoted_loop q (bump 1 lx) (lx_pos (bump 1 lx)) [] = Inr (seg, out, lx1)"
    and t: "t = TStringLit (flush_segment seg lx1 out)"
    using assms by (auto simp: read_quoted_def Let_def split: sum.splits if_splits)
  then have "valid_utf8 out" by (auto intro: quoted_loop_valid)
  with t show ?thesis by (simp add: valid_utf8_flush)
qed

lemma quoted_loop_error: "quoted_loop q lx seg out = Inl e \<Longrightarrow> e = UnterminatedString"
proof (induction q lx seg out rule: quoted_loop.induct)
  case (1 q lx seg out)
  then show ?case
    by (fastforce simp: quoted_loop.simps [of q lx seg out] Let_def split: if_splits)
qed

lemma read_quoted_error: "read_quoted q lx = Inl e \<Longrightarrow> e = UnterminatedString"
  by (auto simp: read_quoted_def Let_def split: sum.splits if_splits dest: quoted_loop_error)

section \<open>Numbers and words\<close>

text \<open>The two shapes of a numeric literal.\<close>

lemma read_number_int:
  assumes "lx_rest lx = ds @ r" and "ds \<noteq> []" and "list_all is_ascii_digit ds"
    and "r = [] \<or> \<not> is_ascii_digit (hd r)"
    and "\<not> (\<exists>d r'. r = CHR ''.'' # d # r' \<and> is_ascii_digit d)"
  shows "read_number lx =
    (case parse_i64 ds of None \<Rightarrow> Inl (InvalidInteger ds)
     | Some v \<Rightarrow> Inr (TIntegerLit v, bump (length ds) lx))"
proof -
  have tw: "takeWhile is_ascii_digit (lx_rest lx) = ds"
    using assms(1,3,4) by (cases r) (auto simp: takeWhile_append_stop takeWhile_all list_all_iff)
  have r: "drop (lx_pos lx + length ds) (lx_input lx) = r" by (rule rest_after [OF assms(1)])
  then have r1: "drop (Suc (lx_pos lx + length ds)) (lx_input lx) = tl r"
    by (metis drop_Suc drop_tl)
  have nf: "(looking_at (\<lambda>c. c = CHR ''.'') (bump (length ds) lx) \<and>
      looking_at is_ascii_digit (bump (Suc (length ds)) lx)) = False"
    using assms(5) by (auto simp: looking_at_rest r r1 split: list.splits)
  have "valid_utf8 ds"
    using assms(3) by (intro valid_utf8_ascii) (auto simp: list_all_iff is_ascii_digit_byte)
  have seg: "segment (lx_pos lx) (lx_pos lx + length ds) (lx_input lx) = ds"
    unfolding segment_bump assms(1) by simp
  from \<open>valid_utf8 ds\<close> show ?thesis
    by (simp add: read_number_def advance_while_eq tw seg nf Let_def split: option.split cong: if_cong del: de_Morgan_conj)
qed

lemma read_number_float:
  assumes "lx_rest lx = ip @ CHR ''.'' # fp @ r" and "ip \<noteq> []" and "list_all is_ascii_digit ip"
    and "fp \<noteq> []" and "list_all is_ascii_digit fp" and "r = [] \<or> \<not> is_ascii_digit (hd r)"
  shows "read_number lx =
    Inr (TNumberLit (f64_of_ratio (decimal_value (ip @ fp)) (10 ^ length fp)),
         bump (length ip + 1 + length fp) lx)"
proof -
  have dot: "\<not> is_ascii_digit (CHR ''.'')" by (simp add: is_ascii_digit_def)
  have tw: "takeWhile is_ascii_digit (lx_rest lx) = ip"
    using assms(1,3) dot by (simp add: takeWhile_append_stop list_all_iff)
  have r: "drop (lx_pos lx + length ip) (lx_input lx) = CHR ''.'' # fp @ r"
    by (rule rest_after [OF assms(1)])
  then have r1: "drop (Suc (lx_pos lx + length ip)) (lx_input lx) = fp @ r"
    by (metis drop_Suc drop_tl list.sel(3))
  have tw1: "takeWhile is_ascii_digit (fp @ r) = fp"
    using assms(5,6) by (cases r) (auto simp: takeWhile_append_stop takeWhile_all list_all_iff)
  have fl: "looking_at (\<lambda>c. c = CHR ''.'') (bump (length ip) lx)"
    "looking_at is_ascii_digit (bump (length ip + 1) lx)"
    using assms(4,5) by (cases fp; simp add: looking_at_rest r r1)+
  have "list_all (\<lambda>c. byte c < 128) (ip @ CHR ''.'' # fp)"
    using assms(3,5) by (auto simp: list_all_iff is_ascii_digit_byte)
  then have v: "valid_utf8 (ip @ CHR ''.'' # fp)"
    by (intro valid_utf8_ascii) (auto simp: list_all_iff)
  have p: "parse_f64 (ip @ CHR ''.'' # fp) =
      Some (f64_of_ratio (decimal_value (ip @ fp)) (10 ^ length fp))"
    using assms(2-5) dot by (simp add: parse_f64_def takeWhile_append_stop list_all_iff Let_def)
  have seg: "segment (lx_pos lx) (lx_pos lx + (length ip + 1 + length fp)) (lx_input lx) =
      ip @ CHR ''.'' # fp"
    unfolding segment_bump assms(1) by simp
  show ?thesis
    using fl v p seg
    by (simp add: read_number_def advance_while_eq tw r1 tw1 Let_def add.assoc)
qed

text \<open>Every text at a digit has one of the two shapes.\<close>

lemma digits_shape:
  assumes "s \<noteq> []" and "is_ascii_digit (hd s)"
  obtains (int) ds r where "s = ds @ r" "ds \<noteq> []" "list_all is_ascii_digit ds"
      "r = [] \<or> \<not> is_ascii_digit (hd r)"
      "\<not> (\<exists>d r'. r = CHR ''.'' # d # r' \<and> is_ascii_digit d)"
    | (float) ip fp r where "s = ip @ CHR ''.'' # fp @ r" "ip \<noteq> []" "list_all is_ascii_digit ip"
      "fp \<noteq> []" "list_all is_ascii_digit fp" "r = [] \<or> \<not> is_ascii_digit (hd r)"
proof -
  let ?ds = "takeWhile is_ascii_digit s" and ?r = "dropWhile is_ascii_digit s"
  have s: "s = ?ds @ ?r" "?ds \<noteq> []" "list_all is_ascii_digit ?ds"
      "?r = [] \<or> \<not> is_ascii_digit (hd ?r)"
    using assms hd_dropWhile [of is_ascii_digit s]
    by (auto simp: list_all_iff dest: set_takeWhileD) (cases s; simp)
  show thesis
  proof (cases "\<exists>d r'. ?r = CHR ''.'' # d # r' \<and> is_ascii_digit d")
    case False
    show ?thesis by (rule int [OF s False])
  next
    case True
    then obtain d r' where r: "?r = CHR ''.'' # d # r'" "is_ascii_digit d" by blast
    let ?fp = "takeWhile is_ascii_digit (d # r')" and ?r2 = "dropWhile is_ascii_digit (d # r')"
    have f: "?fp \<noteq> []" "list_all is_ascii_digit ?fp" "?r2 = [] \<or> \<not> is_ascii_digit (hd ?r2)"
      using r(2) hd_dropWhile [of is_ascii_digit "d # r'"]
      by (auto simp: list_all_iff dest: set_takeWhileD simp del: dropWhile.simps)
    have "s = ?ds @ CHR ''.'' # ?fp @ ?r2"
      by (metis s(1) r(1) takeWhile_dropWhile_id)
    then show ?thesis by (rule float [OF _ s(2,3) f])
  qed
qed

lemma read_number_cases:
  assumes "looking_at is_ascii_digit lx"
  shows "(\<exists>t lx'. read_number lx = Inr (t, lx') \<and> lexed_token t \<and> t \<noteq> TEof) \<or>
    (\<exists>s. read_number lx = Inl (InvalidInteger s))"
proof -
  from assms have "lx_rest lx \<noteq> []" and "is_ascii_digit (hd (lx_rest lx))"
    by (auto simp: looking_at_rest split: list.splits)
  then show ?thesis
  proof (cases rule: digits_shape)
    case (int ds r)
    have "unat v < 2 ^ 63" if "parse_i64 ds = Some v" for v
    proof -
      from that have lt: "decimal_value ds < 2 ^ 63" and v: "v = word_of_nat (decimal_value ds)"
        by (auto simp: parse_i64_def split: if_splits)
      from lt have "decimal_value ds < 2 ^ LENGTH(64)" by (rule less_trans) simp
      then have "unat v = decimal_value ds"
        unfolding v unsigned_of_nat take_bit_eq_mod of_nat_id by (rule mod_less)
      with lt show ?thesis by simp
    qed
    with read_number_int [OF int] show ?thesis by (auto split: option.splits)
  next
    case (float ip fp r)
    with read_number_float [OF float] show ?thesis by (simp add: f64_of_ratio_nonneg)
  qed
qed

lemma read_word_token:
  assumes "looking_at is_word_char lx" and "\<not> looking_at is_ascii_digit lx"
  shows "\<exists>t lx'. read_word lx = Inr (t, lx') \<and> lexed_token t \<and> t \<noteq> TEof"
proof -
  let ?w = "takeWhile is_word_char (lx_rest lx)"
  obtain c cs where r: "lx_rest lx = c # cs" "is_word_char c" "\<not> is_ascii_digit c"
    using assms by (auto simp: looking_at_rest split: list.splits)
  have w: "list_all is_word_char ?w" by (simp add: list_all_iff) (meson set_takeWhileD)
  then have "valid_utf8 ?w"
    by (intro valid_utf8_ascii) (auto simp: list_all_iff is_word_char_byte)
  moreover have "?w \<noteq> [] \<and> \<not> is_ascii_digit (hd ?w)" using r by simp
  ultimately show ?thesis
    using w by (auto simp: read_word_def advance_while_eq segment_bump Let_def split: option.split)
qed

section \<open>Every delivered token is well formed\<close>

lemma next_token_cases:
  "(\<exists>t lx'. next_token lx = Inr (t, lx') \<and> lexed_token t) \<or>
   (\<exists>e. next_token lx = Inl e \<and> \<not> unreachable_error e)"
proof -
  let ?lx = "skip_whitespace_and_comments lx"
  let ?ch = "lx_input ?lx ! lx_pos ?lx"
  let ?goal = "\<lambda>r. (\<exists>t lx'. r = Inr (t, lx') \<and> lexed_token t) \<or> (\<exists>e. r = Inl e \<and> \<not> unreachable_error e)"
  have quoted: "?goal (read_quoted q ?lx)" for q
    by (cases "read_quoted q ?lx") (auto dest: read_quoted_token read_quoted_error)
  have num: "?goal (read_number ?lx)" if "lx_pos ?lx < length (lx_input lx)" "is_ascii_digit ?ch"
    using read_number_cases [of ?lx] that by (auto simp: looking_at_def)
  have word: "?goal (read_word ?lx)"
    if "lx_pos ?lx < length (lx_input lx)" "\<not> is_ascii_digit ?ch"
      "is_ascii_alphabetic ?ch \<or> ?ch = CHR ''_''"
    using read_word_token [of ?lx] that
    by (auto simp: looking_at_def is_word_char_def is_ascii_alphanumeric_def)
  show ?thesis
    unfolding next_token_def Let_def
    using quoted [of "CHR 0x22"] quoted [of "CHR 0x27"] num word by (simp split: if_split)
qed

lemma tokenise_result:
  "(\<exists>us. tokenise lx = Inr (us @ [TEof]) \<and> TEof \<notin> set us \<and> list_all lexed_token us) \<or>
   (\<exists>e. tokenise lx = Inl e \<and> \<not> unreachable_error e)"
proof (induction lx rule: tokenise.induct)
  case (1 lx)
  show ?case
  proof (cases "next_token lx")
    case (Inl e)
    then show ?thesis using next_token_cases [of lx] by (simp add: tokenise.simps [of lx])
  next
    case (Inr r)
    obtain t lx' where r: "r = (t, lx')" by (cases r)
    show ?thesis
    proof (cases "t = TEof")
      case True
      then show ?thesis by (simp add: tokenise.simps [of lx] Inr r)
    next
      case False
      have t: "lexed_token t" using next_token_cases [of lx] Inr r by simp
      from "1.IH" [OF Inr r [symmetric] False] show ?thesis
      proof (elim disjE exE conjE)
        fix us
        assume "tokenise lx' = Inr (us @ [TEof])" "TEof \<notin> set us" "list_all lexed_token us"
        with False t have "tokenise lx = Inr ((t # us) @ [TEof]) \<and> TEof \<notin> set (t # us) \<and>
            list_all lexed_token (t # us)"
          by (auto simp: tokenise.simps [of lx] Inr r)
        then show ?thesis by blast
      next
        fix e
        assume "tokenise lx' = Inl e" "\<not> unreachable_error e"
        with False show ?thesis by (simp add: tokenise.simps [of lx] Inr r)
      qed
    qed
  qed
qed

section \<open>Rendering tokens and lexing them back\<close>

fun decimal_text :: "nat \<Rightarrow> string" where
  "decimal_text n =
     (if n < 10 then [char_of (48 + n)] else decimal_text (n div 10) @ [char_of (48 + n mod 10)])"

declare decimal_text.simps [simp del]

definition quote_char :: "char \<Rightarrow> string" where
  "quote_char c = (if c = CHR 0x22 \<or> c = CHR 0x5C then [CHR 0x5C, c] else [c])"

definition quote_text :: "string \<Rightarrow> string" where
  "quote_text s = CHR 0x22 # concat (map quote_char s) @ [CHR 0x22]"

fun render_token :: "token \<Rightarrow> string" where
  "render_token (TKeyword k) = keyword_text k"
| "render_token (TStringLit s) = quote_text s"
| "render_token (TNumberLit x) = []"
| "render_token (TIntegerLit n) = decimal_text (unat n)"
| "render_token TStar = ''*''"
| "render_token TComma = '',''"
| "render_token TSemicolon = '';''"
| "render_token TLParen = ''(''"
| "render_token TRParen = '')''"
| "render_token TDot = ''.''"
| "render_token TPipe = ''|>''"
| "render_token TEq = ''=''"
| "render_token TNeq = ''!=''"
| "render_token TGt = ''>''"
| "render_token TLt = ''<''"
| "render_token TGte = ''>=''"
| "render_token TLte = ''<=''"
| "render_token TDash = ''-''"
| "render_token (TIdent w) = w"
| "render_token TEof = []"

text \<open>The tokens \<open>render_token\<close> writes: all but float literals, for which the code has no printer.\<close>

definition renderable :: "token \<Rightarrow> bool" where
  "renderable t \<longleftrightarrow> lexed_token t \<and> t \<noteq> TEof \<and> (\<forall>x. t \<noteq> TNumberLit x)"

definition render :: "token list \<Rightarrow> string" where
  "render ts = concat (map (\<lambda>t. render_token t @ '' '') ts)"

lemma decimal_value_snoc: "decimal_value (s @ [c]) = 10 * decimal_value s + digit_value c"
  by (simp add: decimal_value_def)

lemma digit_char:
  assumes "n < 10"
  shows "is_ascii_digit (char_of (48 + n))" and "digit_value (char_of (48 + n)) = n"
  using assms by (simp_all add: is_ascii_digit_def digit_value_def)

lemma decimal_text_spec:
  "decimal_text n \<noteq> [] \<and> list_all is_ascii_digit (decimal_text n) \<and> decimal_value (decimal_text n) = n"
proof (induction n rule: decimal_text.induct)
  case (1 n)
  show ?case
  proof (cases "n < 10")
    case True
    then show ?thesis using digit_char [OF True]
      by (simp add: decimal_text.simps [of n] decimal_value_def)
  next
    case False
    then show ?thesis using 1 digit_char [of "n mod 10"]
      by (simp add: decimal_text.simps [of n] decimal_value_snoc)
  qed
qed

lemma keyword_text_shape:
  "keyword_text k \<noteq> [] \<and> list_all is_word_char (keyword_text k) \<and>
     is_ascii_alphabetic (hd (keyword_text k))"
proof -
  have "list_all (\<lambda>(s, k). s \<noteq> [] \<and> list_all is_word_char s \<and> is_ascii_alphabetic (hd s)) keyword_table"
    by (simp add: keyword_table_def is_word_char_def is_ascii_alphanumeric_def is_ascii_alphabetic_def)
  then show ?thesis using keyword_text_entry [of k] by (auto simp: list_all_iff)
qed

end
