(* ===== verification/LqlLexerRoundtrip.thy ===== *)
theory LqlLexerRoundtrip
  imports LqlLexerProps
begin

text \<open>
  The text \<open>render ts\<close> of a token list lexes back to \<open>ts\<close>: one lemma per lexical class,
  then the stream by induction.
\<close>

section \<open>Skipping\<close>

lemma skip_stop:
  assumes "lx_rest lx = c # r" and "\<not> is_ascii_whitespace c"
    and "c = CHR ''-'' \<longrightarrow> (r = [] \<or> hd r \<noteq> CHR ''-'')"
  shows "skip_whitespace_and_comments lx = lx"
proof -
  from nth_of_drop [OF assms(1)] have here: "lx_pos lx < length (lx_input lx)"
    "lx_input lx ! lx_pos lx = c" "drop (Suc (lx_pos lx)) (lx_input lx) = r" by auto
  have "c = CHR ''-'' \<Longrightarrow> \<not> looking_at (\<lambda>c. c = CHR ''-'') (bump 1 lx)"
    using assms(3) here(3) by (auto simp: looking_at_rest split: list.splits)
  then show ?thesis
    using assms(2) here by (auto simp: skip_whitespace_and_comments.simps [of lx] Let_def)
qed

lemma skip_space:
  assumes "lx_rest lx = CHR '' '' # r"
  shows "skip_whitespace_and_comments lx = skip_whitespace_and_comments (bump 1 lx)"
  using nth_of_drop [OF assms]
  by (simp add: skip_whitespace_and_comments.simps [of lx] is_ascii_whitespace_def Let_def)

lemma skip_end: "lx_rest lx = [] \<Longrightarrow> skip_whitespace_and_comments lx = lx"
  by (simp add: skip_whitespace_and_comments.simps [of lx])

lemma next_token_space:
  "lx_rest lx = CHR '' '' # r \<Longrightarrow> next_token lx = next_token (bump 1 lx)"
  by (simp add: next_token_def skip_space)

lemma next_token_end: "lx_rest lx = [] \<Longrightarrow> next_token lx = Inr (TEof, lx)"
  by (simp add: next_token_def skip_end)

section \<open>String literals\<close>

lemma quote_char_plain: "\<not> (c = CHR 0x22 \<or> c = CHR 0x5C) \<Longrightarrow> quote_char c = [c]"
  and quote_char_escaped: "c = CHR 0x22 \<or> c = CHR 0x5C \<Longrightarrow> quote_char c = [CHR 0x5C, c]"
  by (simp_all add: quote_char_def)

text \<open>
  The scanner in the middle of a literal: \<open>p\<close> is the pending unescaped segment, \<open>s\<close> what is still
  to come before the closing quote.
\<close>

lemma quoted_loop_render:
  assumes "lx_rest lx = concat (map quote_char s) @ CHR 0x22 # r"
    and "seg \<le> lx_pos lx" and "segment seg (lx_pos lx) (lx_input lx) = p" and "valid_utf8 (p @ s)"
  shows "\<exists>seg' out'. quoted_loop (CHR 0x22) lx seg out =
      Inr (seg', out', bump (length (concat (map quote_char s))) lx) \<and>
    flush_segment seg' (bump (length (concat (map quote_char s))) lx) out' = out @ p @ s"
  using assms
proof (induction s arbitrary: lx seg p out)
  case Nil
  have "flush_segment seg lx out = out @ p"
    using Nil by (auto simp: flush_segment_def from_utf8_lossy_valid segment_def)
  moreover have "\<not> looking_at (\<lambda>c. c \<noteq> CHR 0x22) lx"
    using Nil.prems(1) by (simp add: looking_at_rest)
  ultimately show ?case by (simp add: quoted_loop.simps [of _ lx])
next
  case (Cons c s)
  let ?n = "length (concat (map quote_char s))"
  show ?case
  proof (cases "c = CHR 0x22 \<or> c = CHR 0x5C")
    case False
    have rest: "lx_rest lx = c # concat (map quote_char s) @ CHR 0x22 # r"
      using Cons.prems(1) by (simp add: quote_char_plain [OF False])
    note here = nth_of_drop [OF rest]
    have "lx_pos lx - seg < length (lx_input lx) - seg"
      using Cons.prems(2) here by (simp add: diff_less_mono)
    then have "segment seg (Suc (lx_pos lx)) (lx_input lx) = p @ [c]"
      using Cons.prems(2,3) here
      by (simp add: segment_def Suc_diff_le take_Suc_conv_app_nth)
    then have "\<exists>seg' out'. quoted_loop (CHR 0x22) (bump 1 lx) seg out =
        Inr (seg', out', bump ?n (bump 1 lx)) \<and>
      flush_segment seg' (bump ?n (bump 1 lx)) out' = out @ (p @ [c]) @ s"
      using Cons.prems here by (intro Cons.IH) simp_all
    then show ?thesis
      using False here quote_char_plain [OF False]
      by (auto simp: quoted_loop.simps [of _ lx] looking_at_rest rest)
  next
    case True
    have rest: "lx_rest lx = CHR 0x5C # c # concat (map quote_char s) @ CHR 0x22 # r"
      using Cons.prems(1) by (simp add: quote_char_escaped [OF True])
    note here = nth_of_drop [OF rest]
    then have rest1: "drop (Suc (lx_pos lx)) (lx_input lx) = c # concat (map quote_char s) @ CHR 0x22 # r"
      by blast
    note here1 = nth_of_drop [OF rest1]
    have "byte c < 128" using True by auto
    with Cons.prems(4) have v: "valid_utf8 p" "valid_utf8 s" using valid_utf8_split by blast+
    have fl: "flush_segment seg lx out = out @ p"
      using Cons.prems(2,3) v(1) by (auto simp: flush_segment_def from_utf8_lossy_valid segment_def)
    have esc: "decode_escape c = [c]" using True by (auto simp: decode_escape_def)
    have "\<exists>seg' out'. quoted_loop (CHR 0x22) (bump 2 lx) (lx_pos (bump 2 lx)) ((out @ p) @ [c]) =
        Inr (seg', out', bump ?n (bump 2 lx)) \<and>
      flush_segment seg' (bump ?n (bump 2 lx)) out' = ((out @ p) @ [c]) @ [] @ s"
      using v here1 by (intro Cons.IH) simp_all
    then show ?thesis
      using here here1 fl esc quote_char_escaped [OF True]
      by (auto simp: quoted_loop.simps [of _ lx] looking_at_rest rest Let_def not_le numeral_2_eq_2)
  qed
qed

lemma read_quoted_render:
  assumes "lx_rest lx = quote_text s @ r" and "valid_utf8 s"
  shows "read_quoted (CHR 0x22) lx = Inr (TStringLit s, bump (length (quote_text s)) lx)"
proof -
  let ?n = "length (concat (map quote_char s))"
  have rest: "lx_rest lx = CHR 0x22 # concat (map quote_char s) @ CHR 0x22 # r"
    using assms(1) by (simp add: quote_text_def)
  note here = nth_of_drop [OF rest]
  have "\<exists>seg' out'. quoted_loop (CHR 0x22) (bump 1 lx) (lx_pos (bump 1 lx)) [] =
      Inr (seg', out', bump ?n (bump 1 lx)) \<and> flush_segment seg' (bump ?n (bump 1 lx)) out' = [] @ [] @ s"
    using here assms(2) by (intro quoted_loop_render [where r = r]) simp_all
  moreover have "drop (Suc (lx_pos lx) + ?n) (lx_input lx) = CHR 0x22 # r"
    using rest_after [of lx "CHR 0x22 # concat (map quote_char s)"] rest by simp
  from nth_of_drop [OF this] have "Suc (lx_pos lx) + ?n < length (lx_input lx)" by simp
  ultimately show ?thesis
    by (auto simp: read_quoted_def quote_text_def Let_def)
qed

section \<open>One token\<close>

lemma word_start_not_punctuation:
  assumes "is_ascii_alphabetic c \<or> c = CHR ''_''"
  shows "c \<noteq> CHR ''*'' \<and> c \<noteq> CHR '','' \<and> c \<noteq> CHR '';'' \<and> c \<noteq> CHR ''('' \<and> c \<noteq> CHR '')'' \<and>
    c \<noteq> CHR ''.'' \<and> c \<noteq> CHR ''|'' \<and> c \<noteq> CHR ''='' \<and> c \<noteq> CHR ''!'' \<and> c \<noteq> CHR ''>'' \<and>
    c \<noteq> CHR ''<'' \<and> c \<noteq> CHR 0x22 \<and> c \<noteq> CHR 0x27 \<and> c \<noteq> CHR ''-'' \<and> \<not> is_ascii_digit c \<and>
    \<not> is_ascii_whitespace c"
  using assms by (auto simp: is_ascii_alphabetic_def is_ascii_digit_def is_ascii_whitespace_def)

lemma digit_not_punctuation:
  assumes "is_ascii_digit c"
  shows "c \<noteq> CHR ''*'' \<and> c \<noteq> CHR '','' \<and> c \<noteq> CHR '';'' \<and> c \<noteq> CHR ''('' \<and> c \<noteq> CHR '')'' \<and>
    c \<noteq> CHR ''.'' \<and> c \<noteq> CHR ''|'' \<and> c \<noteq> CHR ''='' \<and> c \<noteq> CHR ''!'' \<and> c \<noteq> CHR ''>'' \<and>
    c \<noteq> CHR ''<'' \<and> c \<noteq> CHR 0x22 \<and> c \<noteq> CHR 0x27 \<and> c \<noteq> CHR ''-'' \<and> \<not> is_ascii_whitespace c"
  using assms by (auto simp: is_ascii_digit_def is_ascii_whitespace_def)

lemma next_token_word:
  assumes "lx_rest lx = w @ CHR '' '' # r" and "w \<noteq> []" and "list_all is_word_char w"
    and "\<not> is_ascii_digit (hd w)"
  shows "next_token lx =
    Inr (case keyword_from_str w of Some k \<Rightarrow> TKeyword k | None \<Rightarrow> TIdent w, bump (length w) lx)"
proof -
  obtain c cs where w: "w = c # cs" using assms(2) by (cases w) auto
  have c: "is_ascii_alphabetic c \<or> c = CHR ''_''"
    using assms(3,4) w by (auto simp: is_word_char_def is_ascii_alphanumeric_def)
  have rest: "lx_rest lx = c # cs @ CHR '' '' # r" using assms(1) w by simp
  note here = nth_of_drop [OF rest] and punct = word_start_not_punctuation [OF c]
  have skip: "skip_whitespace_and_comments lx = lx"
    using punct by (intro skip_stop [OF rest]) auto
  have sp: "\<not> is_word_char (CHR '' '')"
    by (simp add: is_word_char_def is_ascii_alphanumeric_def is_ascii_alphabetic_def is_ascii_digit_def)
  have tw: "takeWhile is_word_char (lx_rest lx) = w"
    using assms(1,3) sp by (simp add: takeWhile_append_stop list_all_iff)
  have seg: "segment (lx_pos lx) (lx_pos lx + length w) (lx_input lx) = w"
    unfolding segment_bump assms(1) by simp
  have "valid_utf8 w" using assms(3) by (intro valid_utf8_ascii) (auto simp: list_all_iff is_word_char_byte)
  then have "read_word lx = Inr (case keyword_from_str w of Some k \<Rightarrow> TKeyword k | None \<Rightarrow> TIdent w,
      bump (length w) lx)"
    by (simp add: read_word_def advance_while_eq tw seg Let_def split: option.split)
  then show ?thesis using here punct c by (simp add: next_token_def skip Let_def)
qed

lemma next_token_integer:
  assumes "lx_rest lx = decimal_text (unat n) @ CHR '' '' # r" and "unat n < 2 ^ 63"
  shows "next_token lx = Inr (TIntegerLit n, bump (length (decimal_text (unat n))) lx)"
proof -
  let ?ds = "decimal_text (unat n)"
  note spec = decimal_text_spec [of "unat n"]
  then obtain c cs where ds: "?ds = c # cs" "is_ascii_digit c" by (cases ?ds) auto
  have rest: "lx_rest lx = c # cs @ CHR '' '' # r" using assms(1) ds by simp
  note here = nth_of_drop [OF rest] and punct = digit_not_punctuation [OF ds(2)]
  have skip: "skip_whitespace_and_comments lx = lx"
    using punct by (intro skip_stop [OF rest]) auto
  have "parse_i64 ?ds = Some n" using spec assms(2) by (simp add: parse_i64_def)
  then have "read_number lx = Inr (TIntegerLit n, bump (length ?ds) lx)"
    using read_number_int [OF assms(1)] spec by (simp add: is_ascii_digit_def)
  then show ?thesis using here punct ds(2) by (simp add: next_token_def skip Let_def)
qed

lemma next_token_string:
  assumes "lx_rest lx = quote_text s @ CHR '' '' # r" and "valid_utf8 s"
  shows "next_token lx = Inr (TStringLit s, bump (length (quote_text s)) lx)"
proof -
  have rest: "lx_rest lx = CHR 0x22 # concat (map quote_char s) @ CHR 0x22 # CHR '' '' # r"
    using assms(1) by (simp add: quote_text_def)
  note here = nth_of_drop [OF rest]
  have skip: "skip_whitespace_and_comments lx = lx"
    by (rule skip_stop [OF rest]) (simp_all add: is_ascii_whitespace_def)
  show ?thesis using here read_quoted_render [OF assms] by (simp add: next_token_def skip Let_def)
qed

text \<open>One punctuation mark of one or two bytes.\<close>

definition punct1 :: "(char \<times> token) list" where
  "punct1 = [(CHR ''*'', TStar), (CHR '','', TComma), (CHR '';'', TSemicolon), (CHR ''('', TLParen),
     (CHR '')'', TRParen), (CHR ''.'', TDot), (CHR ''='', TEq), (CHR ''>'', TGt), (CHR ''<'', TLt),
     (CHR ''-'', TDash)]"

definition punct2 :: "(char \<times> char \<times> token) list" where
  "punct2 = [(CHR ''|'', CHR ''>'', TPipe), (CHR ''!'', CHR ''='', TNeq), (CHR ''>'', CHR ''='', TGte),
     (CHR ''<'', CHR ''='', TLte)]"

lemma next_token_punct1:
  assumes "lx_rest lx = c # CHR '' '' # r" and "(c, t) \<in> set punct1"
  shows "next_token lx = Inr (t, bump 1 lx)"
proof -
  note here = nth_of_drop [OF assms(1)]
  have len: "lx_pos lx < length (lx_input lx)" and at: "lx_input lx ! lx_pos lx = c"
    and rest1: "drop (Suc (lx_pos lx)) (lx_input lx) = CHR '' '' # r"
    using here by blast+
  have skip: "skip_whitespace_and_comments lx = lx"
    using assms(2) by (intro skip_stop [OF assms(1)]) (auto simp: punct1_def is_ascii_whitespace_def)
  have "\<not> looking_at (\<lambda>c. c = CHR ''='') (bump (Suc 0) lx)" by (simp add: looking_at_rest rest1)
  moreover have "\<not> is_ascii_digit (CHR ''-'')" by (simp add: is_ascii_digit_def)
  ultimately have "list_all (\<lambda>(d, u). lx_input lx ! lx_pos lx = d \<longrightarrow>
      next_token lx = Inr (u, bump 1 lx)) punct1"
    using len by (simp add: punct1_def next_token_def skip Let_def not_le)
  with assms(2) at show ?thesis by (auto simp: list_all_iff)
qed

lemma next_token_punct2:
  assumes "lx_rest lx = c # d # r" and "(c, d, t) \<in> set punct2"
  shows "next_token lx = Inr (t, bump 2 lx)"
proof -
  note here = nth_of_drop [OF assms(1)]
  have len: "lx_pos lx < length (lx_input lx)" and at: "lx_input lx ! lx_pos lx = c"
    and rest1: "drop (Suc (lx_pos lx)) (lx_input lx) = d # r"
    using here by blast+
  have skip: "skip_whitespace_and_comments lx = lx"
    using assms(2) by (intro skip_stop [OF assms(1)]) (auto simp: punct2_def is_ascii_whitespace_def)
  have look: "looking_at (\<lambda>x. x = e) (bump (Suc 0) lx) \<longleftrightarrow> d = e" for e
    by (simp add: looking_at_rest rest1)
  have "list_all (\<lambda>(c', d', u). lx_input lx ! lx_pos lx = c' \<longrightarrow> d = d' \<longrightarrow>
      next_token lx = Inr (u, bump 2 lx)) punct2"
    using len look by (simp add: punct2_def next_token_def skip Let_def not_le numeral_2_eq_2)
  with assms(2) at show ?thesis by (auto simp: list_all_iff)
qed

lemma next_token_render:
  assumes "renderable t" and "lx_rest lx = render_token t @ CHR '' '' # r"
  shows "next_token lx = Inr (t, bump (length (render_token t)) lx)"
proof (cases t)
  case (TKeyword k)
  have "\<not> is_ascii_digit (hd (keyword_text k))"
    using keyword_text_shape [of k] word_start_not_punctuation by blast
  then show ?thesis
    using next_token_word [of lx "keyword_text k" r] keyword_text_shape [of k] assms(2) TKeyword by simp
next
  case (TIdent w)
  then show ?thesis using next_token_word [of lx w r] assms by (simp add: renderable_def)
qed (use assms in \<open>auto simp: renderable_def punct1_def punct2_def intro: next_token_string
  next_token_integer next_token_punct1 [unfolded One_nat_def] next_token_punct2 [unfolded numeral_2_eq_2]\<close>)

section \<open>The stream\<close>

lemma tokenise_render:
  assumes "list_all renderable ts" and "lx_rest lx = render ts \<or> lx_rest lx = CHR '' '' # render ts"
  shows "tokenise lx = Inr (ts @ [TEof])"
  using assms
proof (induction ts arbitrary: lx)
  case Nil
  then have "next_token lx = next_token (bump 1 lx) \<and> lx_rest (bump 1 lx) = [] \<or> lx_rest lx = []"
    using next_token_space [of lx "[]"] by (auto simp: render_def dest: nth_of_drop)
  then obtain lx' where "next_token lx = Inr (TEof, lx')"
    using next_token_end by auto
  then show ?case by (simp add: tokenise.simps [of lx])
next
  case (Cons t ts)
  let ?txt = "render_token t @ CHR '' '' # render ts"
  have "lx_rest lx = ?txt \<or> lx_rest lx = CHR '' '' # ?txt"
    using Cons.prems(2) by (simp add: render_def)
  then obtain lx0 where lx0: "next_token lx = next_token lx0" "lx_rest lx0 = ?txt"
  proof
    assume sp: "lx_rest lx = CHR '' '' # ?txt"
    then have "lx_rest (bump 1 lx) = ?txt" using nth_of_drop [OF sp] by simp
    with next_token_space [OF sp] show ?thesis using that by blast
  qed (use that in blast)
  from Cons.prems(1) lx0 have "next_token lx = Inr (t, bump (length (render_token t)) lx0)"
    by (simp add: next_token_render)
  moreover have "lx_rest (bump (length (render_token t)) lx0) = CHR '' '' # render ts"
    using rest_after [OF lx0(2)] by simp
  moreover have "t \<noteq> TEof" using Cons.prems(1) by (simp add: renderable_def)
  ultimately show ?case
    using Cons.IH [of "bump (length (render_token t)) lx0"] Cons.prems(1)
    by (simp add: tokenise.simps [of lx])
qed

end
