(* ===== verification/LqlFrontEnd.thy ===== *)
theory LqlFrontEnd
  imports LqlStatements LqlLexerRoundtrip
begin

text \<open>
  The front end as a whole: \<open>parse_source\<close> is \<open>crate::parser::parse\<close>, the lexer followed by the
  parser. Here are the properties of the language front end.
\<close>

datatype source_error = LexFailure lex_error | ParseFailure parse_error

definition parse_source :: "string \<Rightarrow> source_error + statement" where
  "parse_source input = (case tokenise (new_lexer input) of
       Inl e \<Rightarrow> Inl (LexFailure e)
     | Inr tokens \<Rightarrow> (case parse_tokens tokens of Inl e \<Rightarrow> Inl (ParseFailure e) | Inr s \<Rightarrow> Inr s))"

section \<open>Statements, read back\<close>

lemma reads_simple:
  assumes "printable_simple s"
  shows "\<exists>k us. simple_tokens s = kS k # us \<and> reads (statement_parser k) s"
  using assms
  by (cases s) (auto simp: printable_simple_def select_fields_def statement_floats_def list_all_iff
      option.pred_set split: option.splits
      intro!: reads_extract reads_compile reads_diff reads_use reads_walk reads_infer reads_select
        reads_describe reads_explain reads_insert reads_delete reads_update reads_merge
        reads_rebalance reads_show_relations reads_show_layers reads_show_features
        reads_show_entities reads_show_models reads_stats reads_show_compact_status
        reads_compact_minor reads_compact_major reads_begin reads_save reads_apply
        reads_show_patches reads_remove reads_trace)

lemma runs_parse_statement:
  assumes s: "printable_simple s" and ts: "tail ts r"
  shows "runs parse_statement (simple_tokens s @ ts) (\<lambda>a u. a = s \<and> u = r)"
proof -
  from reads_simple [OF s] obtain k us where k: "simple_tokens s = kS k # us"
    and rd: "reads (statement_parser k) s" by blast
  show ?thesis
  proof (rule runsI)
    fix p
    assume p: "ps_rest p = simple_tokens s @ ts"
    have "parse_statement p = statement_parser k p"
      using peek_first [OF p] by (simp add: parse_statement_def k)
    moreover from rd ts have "runs (statement_parser k) (simple_tokens s @ ts) (\<lambda>a u. a = s \<and> u = r)"
      unfolding reads_def by blast
    from runsD [OF this p] obtain p' where "statement_parser k p = Inr (s, p')" "ps_rest p' = r" by blast
    ultimately show "\<exists>a p'. parse_statement p = Inr (a, p') \<and> a = s \<and> ps_rest p' = r" by simp
  qed
qed

lemma runs_end:
  assumes "ts = [TEof] \<or> ts = []"
  shows "runs (\<lambda>p. if peek p \<noteq> TEof then Inl (UnexpectedTrailingToken (peek p)) else Inr (s, p)) ts
     (\<lambda>a u. a = s)"
  by (rule runsI) (use assms in \<open>auto simp: peek_first\<close>)

lemma runs_parse:
  assumes s: "printable s"
  shows "runs parse (statement_tokens s @ flag_tokens [TSemicolon] b @ [TEof]) (\<lambda>a u. a = s)"
proof -
  let ?tl = "flag_tokens [TSemicolon] b @ [TEof]"
  have e: "tail ?tl [TEof]" by (auto simp: tail_def flag_tokens_def)
  show ?thesis
  proof (cases "\<exists>l r. s = Pipe l r")
    case True
    then obtain l r where lr: "s = Pipe l r" by blast
    with s have pr: "printable_simple l" "printable_simple r" by (simp_all add: printable_def)
    have t: "tail (TPipe # simple_tokens r @ ?tl) (TPipe # simple_tokens r @ ?tl)"
      by (simp add: tail_def)
    show ?thesis
      unfolding parse_def lr statement_tokens_def
      by (simp, rule runs_pbind, rule runs_mono [OF runs_parse_statement [OF pr(1) t]], clarsimp)
        (rule runs_pbind, rule runs_on_token, simp, rule runs_pmap,
         rule runs_mono [OF runs_parse_statement [OF pr(2) e]], simp add: runs_end)
  next
    case False
    then have pr: "printable_simple s" "statement_tokens s = simple_tokens s"
      using s by (auto simp: printable_def statement_tokens_def split: statement.splits)
    show ?thesis
      unfolding parse_def pr(2)
      by (rule runs_pbind, rule runs_mono [OF runs_parse_statement [OF pr(1) e]], clarsimp)
        (rule runs_pbind, rule runs_on_token, simp, rule runs_preturn, simp add: runs_end)
  qed
qed

section \<open>Properties\<close>

text \<open>
  C13. Round trip of the parser. Every printable statement, pipes included, is read back from its
  tokens, whether or not a semicolon ends it.
\<close>

theorem parse_tokens_roundtrip:
  assumes "printable s"
  shows "parse_tokens (statement_tokens s @ flag_tokens [TSemicolon] b @ [TEof]) = Inr s"
proof -
  from runsD [OF runs_parse [OF assms] rest_new_parser] obtain p where
    "parse (new_parser (statement_tokens s @ flag_tokens [TSemicolon] b @ [TEof])) = Inr (s, p)" by blast
  then show ?thesis by (simp add: parse_tokens_def)
qed

definition sample_select :: statement where
  "sample_select = Select FromEdges [FieldNamed ''layer'', FieldStar]
     [\<lparr>cd_field = ''entity'', cd_op = OpEq, cd_value = VString ''Paris''\<rparr>,
      \<lparr>cd_field = ''confidence'', cd_op = OpGt, cd_value = VInteger (- 3)\<rparr>]
     (Some \<lparr>nc_entity = ''Lyon'', nc_layer = 7\<rparr>)
     (Some \<lparr>ob_field = ''layer'', ob_descending = True\<rparr>) (Some 5)"

theorem parse_tokens_roundtrip_witness:
  "parse_tokens (statement_tokens (Pipe sample_select ShowModels) @ flag_tokens [TSemicolon] True @ [TEof])
     = Inr (Pipe sample_select ShowModels)"
  by (rule parse_tokens_roundtrip)
    (simp add: printable_def printable_simple_def sample_select_def statement_floats_def select_fields_def)

text \<open>
  C1. Round trip from the text. The text of a statement whose tokens can be written (no float
  literal) is lexed and parsed back to the statement.
\<close>

theorem parse_source_roundtrip:
  assumes "printable s" and "list_all renderable (statement_tokens s @ flag_tokens [TSemicolon] b)"
  shows "parse_source (render (statement_tokens s @ flag_tokens [TSemicolon] b)) = Inr s"
proof -
  let ?ts = "statement_tokens s @ flag_tokens [TSemicolon] b"
  have "tokenise (new_lexer (render ?ts)) = Inr (?ts @ [TEof])"
    by (rule tokenise_render [OF assms(2)]) (simp add: new_lexer_def)
  moreover from runsD [OF runs_parse [OF assms(1)] rest_new_parser, of b]
  have "parse_tokens (?ts @ [TEof]) = Inr s"
    by (auto simp: parse_tokens_def)
  ultimately show ?thesis by (simp add: parse_source_def)
qed

theorem parse_source_roundtrip_witness:
  "parse_source (render ([kS KWalk, TStringLit ''hi''] @ [TSemicolon])) = Inr (Walk ''hi'' None None None False)"
proof -
  have "valid_utf8 ''hi''" by (rule valid_utf8_ascii) simp
  then show ?thesis
    using parse_source_roundtrip [of "Walk ''hi'' None None None False" True]
    by (simp add: printable_def printable_simple_def statement_floats_def select_fields_def
        statement_tokens_def opt_tokens_def flag_tokens_def renderable_def)
qed

text \<open>
  C15. What a successful parse promises: the statement is well formed, the token vector is untouched,
  the cursor moved forward by at least one token and stands on the end marker.
\<close>

theorem parse_postcondition:
  assumes "parse p = Inr (s, p')"
  shows "wf_statement s \<and> ps_tokens p' = ps_tokens p \<and> ps_pos p < ps_pos p' \<and>
    ps_pos p' \<le> max (ps_pos p) (length (ps_tokens p)) \<and> peek p' = TEof"
proof -
  have "peek p' = TEof"
    using assms by (auto simp: parse_def pbind_def split: sum.splits if_splits)
  with meets_Inr [OF parse_meets assms lessI] show ?thesis
    by (simp add: moved_def consumed_def)
qed

theorem parse_postcondition_witness:
  "wf_statement SavePatch \<and> ps_tokens (new_parser [kS KSave, kN KPatch, TEof]\<lparr>ps_pos := 2\<rparr>) = [kS KSave, kN KPatch, TEof] \<and>
     peek (new_parser [kS KSave, kN KPatch, TEof]\<lparr>ps_pos := 2\<rparr>) = TEof"
proof -
  have "parse (new_parser [kS KSave, kN KPatch, TEof]) =
      Inr (SavePatch, new_parser [kS KSave, kN KPatch, TEof]\<lparr>ps_pos := 2\<rparr>)"
    by (simp add: parse_def parse_statement_def parse_save_def pbind_def expect_keyword_def
        on_keyword_def on_token_def check_keyword_def eat_semicolon_def preturn_def peek_def
        advance_def new_parser_def)
  from parse_postcondition [OF this] show ?thesis by (simp add: new_parser_def)
qed

text \<open>
  C18. The parser always returns: no loop of it runs out of the fuel the model gives it, so every input is
  either parsed or rejected with an error of the code.
\<close>

theorem parse_returns: "parse p \<noteq> Inl OutOfFuel"
  using meets_Inl [OF parse_meets _ lessI] by blast

text \<open>
  C19. The lexer on any bytes: it returns, and either its tokens are well formed and end with
  exactly one end marker, or its error is one of those the code does not call unreachable.
\<close>

theorem lexer_stream:
  "case tokenise (new_lexer input) of
     Inr ts \<Rightarrow> \<exists>us. ts = us @ [TEof] \<and> TEof \<notin> set us \<and> list_all lexed_token us
   | Inl e \<Rightarrow> \<not> unreachable_error e"
  using tokenise_result [of "new_lexer input"] by auto

text \<open>The text of any list of tokens but float literals is lexed back to the list.\<close>

theorem lexer_roundtrip:
  assumes "list_all renderable ts"
  shows "tokenise (new_lexer (render ts)) = Inr (ts @ [TEof])"
  using tokenise_render [OF assms] by (simp add: new_lexer_def)

theorem lexer_roundtrip_witness:
  "tokenise (new_lexer (render [kC KWhere, TLte, TIntegerLit 42])) = Inr [kC KWhere, TLte, TIntegerLit 42, TEof]"
  using lexer_roundtrip [of "[kC KWhere, TLte, TIntegerLit 42]"] by (simp add: renderable_def)

lemma joined_names_unknown:
  "keyword_from_str ''keepsource'' = None" "keyword_from_str ''keeptarget'' = None"
  "keyword_from_str ''highestconfidence'' = None" "keyword_from_str ''lastwins'' = None"
proof -
  have "''KEEPSOURCE'' \<notin> set (map fst keyword_table)" "''KEEPTARGET'' \<notin> set (map fst keyword_table)"
    "''HIGHESTCONFIDENCE'' \<notin> set (map fst keyword_table)" "''LASTWINS'' \<notin> set (map fst keyword_table)"
    by (simp_all add: keyword_table_def)
  then show "keyword_from_str ''keepsource'' = None" "keyword_from_str ''keeptarget'' = None"
    "keyword_from_str ''highestconfidence'' = None" "keyword_from_str ''lastwins'' = None"
    by (simp_all add: keyword_from_str_def to_uppercase_def map_of_eq_None_iff)
qed

text \<open>
  A keyword used as a field name is written back as a word that lexes to the same keyword,
  with four exceptions: \<open>as_field_name\<close> drops the underscore of \<open>KEEP_SOURCE\<close>, \<open>KEEP_TARGET\<close>,
  \<open>HIGHEST_CONFIDENCE\<close> and \<open>LAST_WINS\<close>, and those names are no keywords.
\<close>

theorem field_name_is_keyword:
  "keyword_from_str (as_field_name k) =
     (if k \<in> {Opt KKeepSource, Opt KKeepTarget, Opt KHighestConfidence, Opt KLastWins}
      then None else Some k)"
  by (cases "k \<in> {Opt KKeepSource, Opt KKeepTarget, Opt KHighestConfidence, Opt KLastWins}")
    (auto simp: joined_names_unknown keyword_from_str_field_name)

text \<open>
  A layer number is taken modulo 2 to the 32: \<open>SHOW FEATURES n\<close> asks for layer \<open>n mod 2 ^ 32\<close>, without
  an error for an \<open>n\<close> that is too large.
\<close>

theorem show_features_layer_wraps:
  assumes "0 \<le> sint n"
  shows "map_sum id (\<lambda>s. case s of ShowFeatures l cs lim \<Rightarrow> unat l | _ \<Rightarrow> 0)
    (parse_tokens [kS KShow, kN KFeatures, TIntegerLit n, TEof]) = Inr (unat n mod 2 ^ 32)"
  using assms
  by (simp add: parse_tokens_def parse_def parse_statement_def parse_show_def show_features_def pbind_def
      expect_keyword_def on_keyword_def on_token_def check_keyword_def eat_semicolon_def preturn_def
      peek_def advance_def new_parser_def expect_u32_def parse_where_def optional_clause_def
      unat_u32_of_i64)

theorem show_features_layer_wraps_witness:
  "map_sum id (\<lambda>s. case s of ShowFeatures l cs lim \<Rightarrow> unat l | _ \<Rightarrow> 0)
    (parse_tokens [kS KShow, kN KFeatures, TIntegerLit 4294967299, TEof]) = Inr 3"
  using show_features_layer_wraps [of 4294967299] by simp

text \<open>One pipe at most: a second pipe after two statements is rejected as a trailing token.\<close>

theorem second_pipe_rejected:
  assumes "printable_simple a" and "printable_simple b"
  shows "parse_tokens (simple_tokens a @ TPipe # simple_tokens b @ TPipe # ts) =
    Inl (UnexpectedTrailingToken TPipe)"
proof -
  let ?ts = "simple_tokens a @ TPipe # simple_tokens b @ TPipe # ts"
  have a: "tail (TPipe # simple_tokens b @ TPipe # ts) (TPipe # simple_tokens b @ TPipe # ts)"
    and b: "tail (TPipe # ts) (TPipe # ts)" by (simp_all add: tail_def)
  from runsD [OF runs_parse_statement [OF assms(1) a] rest_new_parser] obtain p where
    p: "parse_statement (new_parser ?ts) = Inr (a, p)" "ps_rest p = TPipe # simple_tokens b @ TPipe # ts"
    by blast
  from rest_advance [OF p(2)] have r: "ps_rest (advance p) = simple_tokens b @ TPipe # ts" by simp
  from runsD [OF runs_parse_statement [OF assms(2) b] r] obtain q where
    q: "parse_statement (advance p) = Inr (b, q)" "ps_rest q = TPipe # ts" by blast
  from p q peek_first [OF p(2)] peek_first [OF q(2)] show ?thesis
    by (simp add: parse_tokens_def parse_def pbind_def on_token_def pmap_def preturn_def)
qed

theorem second_pipe_rejected_witness:
  "parse_tokens [kS KShow, kN KModels, TPipe, kS KSave, kN KPatch, TPipe, kS KStats, TEof] =
     Inl (UnexpectedTrailingToken TPipe)"
  using second_pipe_rejected [of ShowModels SavePatch "[kS KStats, TEof]"]
  by (simp add: printable_simple_def statement_floats_def select_fields_def)

section \<open>Clauses in any order\<close>

datatype walk_option = OptTop u32 | OptLayers layer_range | OptAllLayers | OptMode walk_mode | OptCompare

fun walk_option_tokens :: "walk_option \<Rightarrow> token list" where
  "walk_option_tokens (OptTop n) = [kC KTop, u32_token n]"
| "walk_option_tokens (OptLayers r) = kN KLayers # range_tokens r"
| "walk_option_tokens OptAllLayers = [kN KLayers, kC KAll]"
| "walk_option_tokens (OptMode m) = [kN KMode, walk_mode_token m]"
| "walk_option_tokens OptCompare = [kO KCompare]"

fun set_walk_option :: "walk_option \<Rightarrow> walk_vars \<Rightarrow> walk_vars" where
  "set_walk_option (OptTop n) v = v\<lparr>wv_top := Some n\<rparr>"
| "set_walk_option (OptLayers r) v = v\<lparr>wv_layers := Some r\<rparr>"
| "set_walk_option OptAllLayers v = v"
| "set_walk_option (OptMode m) v = v\<lparr>wv_mode := Some m\<rparr>"
| "set_walk_option OptCompare v = v\<lparr>wv_compare := True\<rparr>"

fun ordered_option :: "walk_option \<Rightarrow> bool" where
  "ordered_option (OptLayers r) = wf_range r"
| "ordered_option _ = True"

lemma runs_walk_option:
  "ordered_option c \<Longrightarrow> runs (walk_clause v) (walk_option_tokens c @ ts)
     (\<lambda>f r. f = Continue (set_walk_option c v) \<and> r = ts)"
  unfolding walk_clause_def by (cases c) ((simp, (rule runs_intros | simp)+)+)

lemma runs_walk_options:
  "list_all ordered_option cs \<Longrightarrow> wf_range_opt (wv_layers v) \<Longrightarrow> ends ts \<Longrightarrow>
     Q (fold set_walk_option cs v) ts \<Longrightarrow>
     runs (token_loop_run walk_clause v) (concat (map walk_option_tokens cs) @ ts) Q"
proof (induction cs arbitrary: v)
  case (Cons c cs)
  have "wf_range_opt (wv_layers (set_walk_option c v))"
    using Cons.prems(1,2) by (cases c) simp_all
  with Cons show ?case
    using walk_loop.runs_clause [OF Cons.prems(2) lessI runs_walk_option] by simp
qed (simp add: walk_end)

text \<open>
  The clauses of WALK come in any order and any number: each sets its field, a later one
  overrides an earlier one of the same kind, and \<open>LAYERS ALL\<close> changes nothing (it does not undo an
  earlier range).
\<close>

theorem walk_clauses_any_order:
  assumes "list_all ordered_option cs"
  shows "parse_tokens ([kS KWalk, TStringLit prompt] @ concat (map walk_option_tokens cs) @ [TEof]) =
    (let v = fold set_walk_option cs \<lparr>wv_top = None, wv_layers = None, wv_mode = None, wv_compare = False\<rparr>
     in Inr (Walk prompt (wv_top v) (wv_layers v) (wv_mode v) (wv_compare v)))"
proof -
  let ?v = "fold set_walk_option cs \<lparr>wv_top = None, wv_layers = None, wv_mode = None, wv_compare = False\<rparr>"
  let ?s = "Walk prompt (wv_top ?v) (wv_layers ?v) (wv_mode ?v) (wv_compare ?v)"
  let ?ts = "[kS KWalk, TStringLit prompt] @ concat (map walk_option_tokens cs) @ [TEof]"
  have "runs parse_walk ?ts (\<lambda>a r. a = ?s \<and> r = [TEof])"
    unfolding parse_walk_def
    by (rule runs_pbind runs_expect_keyword | simp)+
      (rule runs_pbind runs_expect_string runs_walk_options [OF assms] runs_eat_semicolon
          [where r = "[TEof]"] runs_preturn | simp add: ends_def tail_def)+
  from runsD [OF this rest_new_parser] obtain p where
    "parse_walk (new_parser ?ts) = Inr (?s, p)" "ps_rest p = [TEof]" by blast
  with peek_first [of p "[TEof]"] show ?thesis
    by (simp add: parse_tokens_def parse_def parse_statement_def peek_first [OF rest_new_parser] pbind_def
        on_token_def preturn_def Let_def)
qed

theorem walk_clauses_any_order_witness:
  "parse_tokens [kS KWalk, TStringLit ''x'', kO KCompare, kC KTop, u32_token 3, kN KLayers, kC KAll,
     kC KTop, u32_token 9, TEof] = Inr (Walk ''x'' (Some 9) None None True)"
  using walk_clauses_any_order [of "[OptCompare, OptTop 3, OptAllLayers, OptTop 9]" "''x''"] by simp

end
