(* ===== verification/SchemaAst.thy ===== *)
theory SchemaAst
  imports Rust_Num "HOL-Library.AList"
begin

text \<open>
  The typed grammar of constrained decoding
  (\<open>crates/larql-server/src/routes/openai/schema/ast.rs\<close>) and what it is built from.

  A Rust \<open>char\<close> is its code point, a \<open>nat\<close>; a \<open>String\<close> is a list of them. \<open>serde_json::Value\<close> is
  the datatype \<open>json\<close>, with the number type of that package a parameter \<open>'n\<close>: what the code reads
  of a number (\<open>as_u64\<close>, \<open>as_f64\<close>) and \<open>serde_json::to_string\<close> are arguments of the definitions
  that use them. A \<open>BTreeMap\<close> or a \<open>serde_json::Map\<close> is an association list, of which the code
  only observes lookups and, for the map of a request, the order of its entries.
\<close>

section \<open>Characters\<close>

type_synonym ustring = "nat list"

definition chars :: "string \<Rightarrow> ustring" where
  "chars s = map of_char s"

abbreviation ch_quote :: nat where "ch_quote \<equiv> 0x22"
abbreviation ch_plus :: nat where "ch_plus \<equiv> 0x2B"
abbreviation ch_comma :: nat where "ch_comma \<equiv> 0x2C"
abbreviation ch_minus :: nat where "ch_minus \<equiv> 0x2D"
abbreviation ch_dot :: nat where "ch_dot \<equiv> 0x2E"
abbreviation ch_colon :: nat where "ch_colon \<equiv> 0x3A"
abbreviation ch_E :: nat where "ch_E \<equiv> 0x45"
abbreviation ch_lbracket :: nat where "ch_lbracket \<equiv> 0x5B"
abbreviation ch_backslash :: nat where "ch_backslash \<equiv> 0x5C"
abbreviation ch_rbracket :: nat where "ch_rbracket \<equiv> 0x5D"
abbreviation ch_e :: nat where "ch_e \<equiv> 0x65"
abbreviation ch_f :: nat where "ch_f \<equiv> 0x66"
abbreviation ch_n :: nat where "ch_n \<equiv> 0x6E"
abbreviation ch_t :: nat where "ch_t \<equiv> 0x74"
abbreviation ch_u :: nat where "ch_u \<equiv> 0x75"
abbreviation ch_lbrace :: nat where "ch_lbrace \<equiv> 0x7B"
abbreviation ch_rbrace :: nat where "ch_rbrace \<equiv> 0x7D"

text \<open>\<open>char::is_ascii_whitespace\<close>: space, tab, line feed, form feed, carriage return.\<close>

definition uc_whitespace :: "nat \<Rightarrow> bool" where
  "uc_whitespace c \<longleftrightarrow> c = 0x20 \<or> c = 0x09 \<or> c = 0x0A \<or> c = 0x0C \<or> c = 0x0D"

definition uc_digit :: "nat \<Rightarrow> bool" where
  "uc_digit c \<longleftrightarrow> 0x30 \<le> c \<and> c \<le> 0x39"

definition uc_hexdigit :: "nat \<Rightarrow> bool" where
  "uc_hexdigit c \<longleftrightarrow> uc_digit c \<or> 0x41 \<le> c \<and> c \<le> 0x46 \<or> 0x61 \<le> c \<and> c \<le> 0x66"

section \<open>JSON values\<close>

datatype 'n json =
    JNull
  | JBool bool
  | JNumber 'n
  | JString ustring
  | JArray "'n json list"
  | JObject "(ustring \<times> 'n json) list"

text \<open>Lookups in an object, and the readings of a value.\<close>

abbreviation jget :: "(ustring \<times> 'n json) list \<Rightarrow> string \<Rightarrow> 'n json option" where
  "jget obj key \<equiv> map_of obj (chars key)"

definition as_str :: "'n json \<Rightarrow> ustring option" where
  "as_str v = (case v of JString s \<Rightarrow> Some s | _ \<Rightarrow> None)"

definition as_number :: "('n \<Rightarrow> 'a option) \<Rightarrow> 'n json \<Rightarrow> 'a option" where
  "as_number conv v = (case v of JNumber n \<Rightarrow> conv n | _ \<Rightarrow> None)"

section \<open>Schemas\<close>

record string_schema =
  ss_enum :: "ustring list option"
  ss_const :: "ustring option"
  ss_min_len :: "nat option"
  ss_max_len :: "nat option"

definition default_string_schema :: string_schema where
  "default_string_schema = \<lparr>ss_enum = None, ss_const = None, ss_min_len = None, ss_max_len = None\<rparr>"

record number_schema =
  ns_integer :: bool
  ns_minimum :: "f64 option"
  ns_maximum :: "f64 option"

definition default_number_schema :: number_schema where
  "default_number_schema = \<lparr>ns_integer = False, ns_minimum = None, ns_maximum = None\<rparr>"

text \<open>
  \<open>os_additional = None\<close> is \<open>additionalProperties: false\<close>.
\<close>

datatype 'n schema =
    SAny
  | SOneOf "'n schema list"
  | SObject "'n object_schema"
  | SArray "'n array_schema"
  | SString string_schema
  | SNumber number_schema
  | SBoolean
  | SNull
  | SConst "'n json"
and 'n object_schema = ObjectSchema
    (os_properties: "(ustring \<times> 'n schema) list")
    (os_required: "ustring list")
    (os_additional: "'n schema option")
and 'n array_schema = ArraySchema
    (as_items: "'n schema")
    (as_min: "nat option")
    (as_max: "nat option")

text \<open>\<open>Schema::array\<close>, \<open>Schema::string\<close>, \<open>Schema::number\<close>, \<open>Schema::integer\<close>, \<open>ObjectSchema::any\<close>,
  \<open>ObjectSchema::empty_strict\<close>.\<close>

definition schema_array :: "'n schema \<Rightarrow> 'n schema" where
  "schema_array items = SArray (ArraySchema items None None)"

definition schema_string :: "'n schema" where
  "schema_string = SString default_string_schema"

definition schema_number :: "'n schema" where
  "schema_number = SNumber default_number_schema"

definition schema_integer :: "'n schema" where
  "schema_integer = SNumber (default_number_schema\<lparr>ns_integer := True\<rparr>)"

definition object_any :: "'n object_schema" where
  "object_any = ObjectSchema [] [] (Some SAny)"

definition object_empty_strict :: "'n object_schema" where
  "object_empty_strict = ObjectSchema [] [] None"

end
