(* ===== verification/SchemaFsm.thy ===== *)
theory SchemaFsm
  imports SchemaAst Prelude
begin

text \<open>
  The schema-typed JSON state machine
  (\<open>crates/larql-server/src/routes/openai/schema/fsm.rs\<close>).

  The stack of frames is a list with the top frame first (the source pushes and pops at the end of a
  \<open>Vec\<close>). A step returns the result and the machine after it, also when it rejects: the source
  mutates the machine before it finds that a character is not acceptable. The argument \<open>js\<close> is
  \<open>serde_json::to_string\<close>.
\<close>

section \<open>Frames\<close>

datatype step_result = StepOk | StepReject

datatype json_keyword = KwTrue | KwFalse | KwNull

primrec keyword_bytes :: "json_keyword \<Rightarrow> ustring" where
  "keyword_bytes KwTrue = [0x74, 0x72, 0x75, 0x65]"
| "keyword_bytes KwFalse = [0x66, 0x61, 0x6C, 0x73, 0x65]"
| "keyword_bytes KwNull = [0x6E, 0x75, 0x6C, 0x6C]"

datatype number_phase = IntPart | FracStart | FracDigits | ExpStart | ExpSign | ExpDigits

datatype object_phase = ObjAfterOpen | ObjInKey | ObjExpectColon | ObjExpectValue | ObjInValue | ObjAfterValue

datatype array_phase = ArrAfterOpen | ArrInValue | ArrAfterValue

record 'n object_frame =
  of_spec :: "'n object_schema"
  of_phase :: object_phase
  of_seen :: "ustring list"
  of_key_buf :: "ustring option"
  of_active_value :: "'n schema option"

record 'n array_frame =
  af_spec :: "'n array_schema"
  af_phase :: array_phase
  af_count :: nat

record string_frame =
  sf_spec :: string_schema
  sf_is_key :: bool
  sf_decoded :: ustring
  sf_in_escape :: bool
  sf_unicode_left :: nat

record number_frame =
  nf_spec :: number_schema
  nf_phase :: number_phase
  nf_digits :: ustring

record keyword_frame =
  kf_target :: json_keyword
  kf_index :: nat

record const_frame =
  cf_target :: ustring
  cf_index :: nat

datatype 'n frame =
    FValue "'n schema"
  | FObject "'n object_frame"
  | FArray "'n array_frame"
  | FString string_frame
  | FNumber number_frame
  | FKeyword keyword_frame
  | FConst const_frame
  | FOneOf "'n fsm list"
and 'n fsm = Fsm (fsm_stack: "'n frame list") (fsm_done: bool)

definition fsm_new :: "'n schema \<Rightarrow> 'n fsm" where
  "fsm_new schema = Fsm [FValue schema] False"

definition fsm_any :: "'n fsm" where
  "fsm_any = fsm_new SAny"

section \<open>Numbers\<close>

definition ustring_value :: "ustring \<Rightarrow> nat" where
  "ustring_value ds = foldl (\<lambda>n d. 10 * n + (d - 0x30)) 0 ds"

text \<open>\<open>[+-] digits\<close>, all of the text.\<close>

definition exponent_value :: "ustring \<Rightarrow> int option" where
  "exponent_value t =
     (let neg = (t \<noteq> [] \<and> hd t = ch_minus);
          ds = (if t \<noteq> [] \<and> hd t \<in> {ch_plus, ch_minus} then tl t else t)
      in if ds \<noteq> [] \<and> list_all uc_digit ds
         then Some (if neg then - int (ustring_value ds) else int (ustring_value ds)) else None)"

text \<open>
  \<open>str::parse::<f64>\<close> on the texts a number atom collects, which start with a minus or a digit: a
  sign, digits with at most one point, at least one digit, and an exponent.
\<close>

definition parse_f64_text :: "ustring \<Rightarrow> f64 option" where
  "parse_f64_text t =
     (let neg = (t \<noteq> [] \<and> hd t = ch_minus);
          body = (if neg then tl t else t);
          ip = takeWhile uc_digit body;
          r1 = dropWhile uc_digit body;
          fp = (if r1 \<noteq> [] \<and> hd r1 = ch_dot then takeWhile uc_digit (tl r1) else []);
          r2 = (if r1 \<noteq> [] \<and> hd r1 = ch_dot then dropWhile uc_digit (tl r1) else r1);
          ex = (if r2 = [] then Some 0
                else if hd r2 = ch_e \<or> hd r2 = ch_E then exponent_value (tl r2) else None)
      in if ip @ fp = [] then None else
         (case ex of None \<Rightarrow> None
          | Some e \<Rightarrow>
              (let m = ustring_value (ip @ fp); k = e - int (length fp);
                   x = (if 0 \<le> k then f64_of_ratio (m * 10 ^ nat k) 1 else f64_of_ratio m (10 ^ nat (- k)))
               in Some (if neg then f64_neg x else x))))"

definition validate_number :: "number_frame \<Rightarrow> bool" where
  "validate_number n =
     (case parse_f64_text (nf_digits n) of
        None \<Rightarrow> False
      | Some parsed \<Rightarrow>
          (case ns_minimum (nf_spec n) of Some lo \<Rightarrow> \<not> f64_less parsed lo | None \<Rightarrow> True) \<and>
          (case ns_maximum (nf_spec n) of Some hi \<Rightarrow> \<not> f64_less hi parsed | None \<Rightarrow> True))"

definition is_number_finalizable :: "number_frame \<Rightarrow> bool" where
  "is_number_finalizable n \<longleftrightarrow>
     list_ex uc_digit (nf_digits n) \<and> nf_phase n \<in> {IntPart, FracDigits, ExpDigits} \<and> validate_number n"

section \<open>Atoms\<close>

datatype atom_outcome =
    AtomOk
  | AtomReject
  | AtomCompleteValue
  | AtomCompleteKey ustring
  | AtomReprocess

definition starts_with :: "ustring \<Rightarrow> ustring \<Rightarrow> bool" where
  "starts_with s p \<longleftrightarrow> take (length p) s = p"

definition ok_if_within_string_constraints :: "string_frame \<Rightarrow> atom_outcome" where
  "ok_if_within_string_constraints s =
     (if (case ss_const (sf_spec s) of Some c \<Rightarrow> \<not> starts_with c (sf_decoded s) | None \<Rightarrow> False)
      then AtomReject
      else if (case ss_enum (sf_spec s) of
                 Some en \<Rightarrow> \<not> list_ex (\<lambda>v. starts_with v (sf_decoded s)) en | None \<Rightarrow> False)
      then AtomReject
      else if (case ss_max_len (sf_spec s) of
                 Some mx \<Rightarrow> mx < length (sf_decoded s) | None \<Rightarrow> False)
      then AtomReject
      else AtomOk)"

text \<open>The characters after a backslash that stand for one character.\<close>

definition unescape :: "nat \<Rightarrow> nat option" where
  "unescape ch =
     map_of [(0x22, 0x22), (0x5C, 0x5C), (0x2F, 0x2F), (0x62, 0x08), (0x66, 0x0C), (0x6E, 0x0A),
       (0x72, 0x0D), (0x74, 0x09)] ch"

text \<open>The checks at the closing quote: const, enum, minimum length.\<close>

definition close_string :: "string_frame \<Rightarrow> string_frame \<times> atom_outcome" where
  "close_string s =
     (if (case ss_const (sf_spec s) of Some c \<Rightarrow> sf_decoded s \<noteq> c | None \<Rightarrow> False) then (s, AtomReject)
      else if (case ss_enum (sf_spec s) of Some en \<Rightarrow> sf_decoded s \<notin> List.set en | None \<Rightarrow> False)
      then (s, AtomReject)
      else if (case ss_min_len (sf_spec s) of Some mn \<Rightarrow> length (sf_decoded s) < mn | None \<Rightarrow> False)
      then (s, AtomReject)
      else if sf_is_key s then (s\<lparr>sf_decoded := []\<rparr>, AtomCompleteKey (sf_decoded s))
      else (s, AtomCompleteValue))"

definition step_string :: "string_frame \<Rightarrow> nat \<Rightarrow> string_frame \<times> atom_outcome" where
  "step_string s ch =
     (if 0 < sf_unicode_left s then
        if uc_hexdigit ch
        then (s\<lparr>sf_unicode_left := sf_unicode_left s - 1, sf_decoded := sf_decoded s @ [0xFFFD]\<rparr>, AtomOk)
        else (s, AtomReject)
      else if sf_in_escape s then
        (let s = s\<lparr>sf_in_escape := False\<rparr> in
         if ch = ch_u then (s\<lparr>sf_unicode_left := 4\<rparr>, AtomOk)
         else (case unescape ch of
                 None \<Rightarrow> (s, AtomReject)
               | Some c \<Rightarrow> (let s = s\<lparr>sf_decoded := sf_decoded s @ [c]\<rparr>
                           in (s, ok_if_within_string_constraints s))))
      else if ch = ch_backslash then (s\<lparr>sf_in_escape := True\<rparr>, AtomOk)
      else if ch = ch_quote then close_string s
      else if ch < 0x20 then (s, AtomReject)
      else (let s = s\<lparr>sf_decoded := sf_decoded s @ [ch]\<rparr>
            in (s, ok_if_within_string_constraints s)))"

definition number_push :: "nat \<Rightarrow> number_phase \<Rightarrow> number_frame \<Rightarrow> number_frame \<times> atom_outcome" where
  "number_push ch ph n = (n\<lparr>nf_digits := nf_digits n @ [ch], nf_phase := ph\<rparr>, AtomOk)"

definition number_end :: "number_frame \<Rightarrow> number_frame \<times> atom_outcome" where
  "number_end n = (n, if validate_number n then AtomReprocess else AtomReject)"

definition step_number :: "number_frame \<Rightarrow> nat \<Rightarrow> number_frame \<times> atom_outcome" where
  "step_number n ch =
     (let terminator = (uc_whitespace ch \<or> ch \<in> {ch_comma, ch_rbrace, ch_rbracket, ch_colon});
          exponent = (ch = ch_e \<or> ch = ch_E)
      in case nf_phase n of
        IntPart \<Rightarrow>
          if uc_digit ch then number_push ch IntPart n
          else if ch = ch_dot then
            (if ns_integer (nf_spec n) then (n, AtomReject) else number_push ch FracStart n)
          else if exponent then
            (if ns_integer (nf_spec n) then (n, AtomReject) else number_push ch ExpStart n)
          else if terminator then number_end n else (n, AtomReject)
      | FracStart \<Rightarrow> if uc_digit ch then number_push ch FracDigits n else (n, AtomReject)
      | FracDigits \<Rightarrow>
          if uc_digit ch then number_push ch FracDigits n
          else if exponent then number_push ch ExpStart n
          else if terminator then number_end n else (n, AtomReject)
      | ExpStart \<Rightarrow>
          if ch = ch_plus \<or> ch = ch_minus then number_push ch ExpSign n
          else if uc_digit ch then number_push ch ExpDigits n else (n, AtomReject)
      | ExpSign \<Rightarrow> if uc_digit ch then number_push ch ExpDigits n else (n, AtomReject)
      | ExpDigits \<Rightarrow>
          if uc_digit ch then number_push ch ExpDigits n
          else if terminator then number_end n else (n, AtomReject))"

definition step_keyword :: "keyword_frame \<Rightarrow> nat \<Rightarrow> keyword_frame \<times> atom_outcome" where
  "step_keyword k ch =
     (let bytes = keyword_bytes (kf_target k); idx = kf_index k in
      if idx < length bytes \<and> bytes ! idx = ch then
        if idx + 1 = length bytes then (k, AtomCompleteValue)
        else (k\<lparr>kf_index := idx + 1\<rparr>, AtomOk)
      else (k, AtomReject))"

definition step_const :: "const_frame \<Rightarrow> nat \<Rightarrow> const_frame \<times> atom_outcome" where
  "step_const c ch =
     (if length (cf_target c) \<le> cf_index c then (c, AtomReject)
      else if cf_target c ! cf_index c \<noteq> ch then (c, AtomReject)
      else (let c = c\<lparr>cf_index := cf_index c + 1\<rparr> in
            (c, if cf_index c = length (cf_target c) then AtomCompleteValue else AtomOk)))"

section \<open>Values and containers\<close>

text \<open>
  \<open>complete_value\<close>, on the stack whose closed value has been popped. The \<open>max\<close> test of the
  source has an empty body.
\<close>

definition complete_value :: "'n frame list \<Rightarrow> bool \<Rightarrow> 'n fsm" where
  "complete_value stack done =
     (case stack of
        [] \<Rightarrow> Fsm [] True
      | FObject ob # rest \<Rightarrow>
          Fsm (FObject (ob\<lparr>of_phase := ObjAfterValue, of_active_value := None\<rparr>) # rest) done
      | FArray arr # rest \<Rightarrow>
          Fsm (FArray (arr\<lparr>af_count := af_count arr + 1, af_phase := ArrAfterValue\<rparr>) # rest) done
      | _ \<Rightarrow> Fsm stack done)"

definition new_object :: "'n object_schema \<Rightarrow> 'n frame" where
  "new_object spec = FObject \<lparr>of_spec = spec, of_phase = ObjAfterOpen, of_seen = [], of_key_buf = None,
     of_active_value = None\<rparr>"

definition new_array :: "'n array_schema \<Rightarrow> 'n frame" where
  "new_array spec = FArray \<lparr>af_spec = spec, af_phase = ArrAfterOpen, af_count = 0\<rparr>"

definition new_string :: "string_schema \<Rightarrow> bool \<Rightarrow> 'n frame" where
  "new_string spec is_key = FString \<lparr>sf_spec = spec, sf_is_key = is_key, sf_decoded = [],
     sf_in_escape = False, sf_unicode_left = 0\<rparr>"

definition new_number :: "number_schema \<Rightarrow> nat \<Rightarrow> 'n frame" where
  "new_number spec ch = FNumber \<lparr>nf_spec = spec, nf_phase = IntPart, nf_digits = [ch]\<rparr>"

definition new_keyword :: "json_keyword \<Rightarrow> 'n frame" where
  "new_keyword k = FKeyword \<lparr>kf_target = k, kf_index = 1\<rparr>"

text \<open>
  The outcome of a dispatch: settled, or the character goes to the branches of the \<open>OneOf\<close> frame
  that is (or replaces) the top; \<open>Branches bs rest\<close> has the frames under it.
\<close>

datatype 'n dispatch =
    Settled step_result "'n fsm"
  | Branches "'n fsm list" "'n frame list"

text \<open>
  \<open>dispatch_value\<close>: the top frame \<open>Value(schema)\<close>, with \<open>rest\<close> under it, becomes the frame that the
  first character \<open>ch\<close> of the value opens.
\<close>

definition dispatch_value ::
  "('n json \<Rightarrow> ustring) \<Rightarrow> 'n schema \<Rightarrow> 'n frame list \<Rightarrow> bool \<Rightarrow> nat \<Rightarrow> 'n dispatch" where
  "dispatch_value js schema rest done ch =
     (let reject = Settled StepReject (Fsm (FValue schema # rest) done);
          open = (\<lambda>frame. Settled StepOk (Fsm (frame # rest) done));
          number_start = (ch = ch_minus \<or> uc_digit ch)
      in case schema of
        SAny \<Rightarrow>
          if ch = ch_lbrace then open (new_object object_any)
          else if ch = ch_lbracket then open (new_array (ArraySchema SAny None None))
          else if ch = ch_quote then open (new_string default_string_schema False)
          else if number_start then open (new_number default_number_schema ch)
          else if ch = ch_t then open (new_keyword KwTrue)
          else if ch = ch_f then open (new_keyword KwFalse)
          else if ch = ch_n then open (new_keyword KwNull)
          else reject
      | SObject spec \<Rightarrow> if ch = ch_lbrace then open (new_object spec) else reject
      | SArray spec \<Rightarrow> if ch = ch_lbracket then open (new_array spec) else reject
      | SString spec \<Rightarrow> if ch = ch_quote then open (new_string spec False) else reject
      | SNumber spec \<Rightarrow> if number_start then open (new_number spec ch) else reject
      | SBoolean \<Rightarrow>
          if ch = ch_t then open (new_keyword KwTrue)
          else if ch = ch_f then open (new_keyword KwFalse)
          else reject
      | SNull \<Rightarrow> if ch = ch_n then open (new_keyword KwNull) else reject
      | SConst value \<Rightarrow>
          (let target = js value in
           if target = [] \<or> hd target \<noteq> ch then reject
           else if length target = 1 then Settled StepOk (complete_value rest done)
           else open (FConst \<lparr>cf_target = target, cf_index = 1\<rparr>))
      | SOneOf branches \<Rightarrow> Branches (List.map fsm_new branches) rest)"

definition close_object :: "'n object_frame \<Rightarrow> 'n frame list \<Rightarrow> bool \<Rightarrow> 'n dispatch" where
  "close_object ob rest done =
     (if list_all (\<lambda>req. req \<in> List.set (of_seen ob)) (os_required (of_spec ob))
      then Settled StepOk (complete_value rest done)
      else Settled StepReject (Fsm (FObject ob # rest) done))"

definition resolve_key_schema :: "'n object_schema \<Rightarrow> ustring \<Rightarrow> 'n schema option" where
  "resolve_key_schema spec key =
     (case map_of (os_properties spec) key of Some s \<Rightarrow> Some s | None \<Rightarrow> os_additional spec)"

definition dispatch_object ::
  "('n json \<Rightarrow> ustring) \<Rightarrow> 'n object_frame \<Rightarrow> 'n frame list \<Rightarrow> bool \<Rightarrow> nat \<Rightarrow> 'n dispatch" where
  "dispatch_object js ob rest done ch =
     (let reject = Settled StepReject (Fsm (FObject ob # rest) done);
          phase = (\<lambda>ph. Fsm (FObject (ob\<lparr>of_phase := ph\<rparr>) # rest) done)
      in case of_phase ob of
        ObjAfterOpen \<Rightarrow>
          if ch = ch_rbrace then close_object ob rest done
          else if ch = ch_quote then
            Settled StepOk
              (Fsm (new_string default_string_schema True # FObject (ob\<lparr>of_phase := ObjInKey\<rparr>) # rest) done)
          else reject
      | ObjExpectColon \<Rightarrow> if ch = ch_colon then Settled StepOk (phase ObjExpectValue) else reject
      | ObjExpectValue \<Rightarrow>
          (let key = (case of_key_buf ob of Some k \<Rightarrow> k | None \<Rightarrow> []);
               ob1 = ob\<lparr>of_key_buf := None, of_seen := of_seen ob @ [key]\<rparr>
           in case resolve_key_schema (of_spec ob) key of
                None \<Rightarrow> Settled StepReject (Fsm (FObject ob1 # rest) done)
              | Some s \<Rightarrow>
                  dispatch_value js s
                    (FObject (ob1\<lparr>of_phase := ObjInValue, of_active_value := Some s\<rparr>) # rest) done ch)
      | ObjAfterValue \<Rightarrow>
          if ch = ch_comma then Settled StepOk (phase ObjAfterOpen)
          else if ch = ch_rbrace then close_object ob rest done
          else reject
      | ObjInKey \<Rightarrow> reject
      | ObjInValue \<Rightarrow> reject)"

definition close_array :: "'n array_frame \<Rightarrow> 'n frame list \<Rightarrow> bool \<Rightarrow> 'n dispatch" where
  "close_array arr rest done =
     (if (case as_min (af_spec arr) of Some mn \<Rightarrow> af_count arr < mn | None \<Rightarrow> False)
      then Settled StepReject (Fsm (FArray arr # rest) done)
      else Settled StepOk (complete_value rest done))"

definition dispatch_array ::
  "('n json \<Rightarrow> ustring) \<Rightarrow> 'n array_frame \<Rightarrow> 'n frame list \<Rightarrow> bool \<Rightarrow> nat \<Rightarrow> 'n dispatch" where
  "dispatch_array js arr rest done ch =
     (let reject = Settled StepReject (Fsm (FArray arr # rest) done);
          item = as_items (af_spec arr);
          inside = FArray (arr\<lparr>af_phase := ArrInValue\<rparr>) # rest
      in case af_phase arr of
        ArrAfterOpen \<Rightarrow>
          if ch = ch_rbracket then close_array arr rest done
          else dispatch_value js item inside done ch
      | ArrAfterValue \<Rightarrow>
          if ch = ch_comma then Settled StepOk (Fsm (FValue item # inside) done)
          else if ch = ch_rbracket then close_array arr rest done
          else reject
      | ArrInValue \<Rightarrow> reject)"

section \<open>The step function\<close>

text \<open>\<open>step_active_atom\<close> up to the outcome; \<open>None\<close> when the frame is not an atom.\<close>

definition step_atom :: "'n frame \<Rightarrow> nat \<Rightarrow> ('n frame \<times> atom_outcome) option" where
  "step_atom frame ch =
     (case frame of
        FString s \<Rightarrow> Some (map_prod FString id (step_string s ch))
      | FNumber n \<Rightarrow> Some (map_prod FNumber id (step_number n ch))
      | FKeyword k \<Rightarrow> Some (map_prod FKeyword id (step_keyword k ch))
      | FConst c \<Rightarrow> Some (map_prod FConst id (step_const c ch))
      | _ \<Rightarrow> None)"

text \<open>The key of an object is complete: its frame waits for the colon.\<close>

definition complete_key :: "ustring \<Rightarrow> 'n frame list \<Rightarrow> bool \<Rightarrow> step_result \<times> 'n fsm" where
  "complete_key key stack done =
     (case stack of
        FObject ob # rest \<Rightarrow>
          (StepOk, Fsm (FObject (ob\<lparr>of_phase := ObjExpectColon, of_key_buf := Some key\<rparr>) # rest) done)
      | _ \<Rightarrow> (StepReject, Fsm stack done))"

text \<open>\<open>dispatch\<close>: the active frame is no atom.\<close>

definition dispatch_frame ::
  "('n json \<Rightarrow> ustring) \<Rightarrow> 'n frame \<Rightarrow> 'n frame list \<Rightarrow> bool \<Rightarrow> nat \<Rightarrow> 'n dispatch" where
  "dispatch_frame js frame rest done ch =
     (case frame of
        FValue schema \<Rightarrow> dispatch_value js schema rest done ch
      | FObject ob \<Rightarrow> dispatch_object js ob rest done ch
      | FArray arr \<Rightarrow> dispatch_array js arr rest done ch
      | FOneOf branches \<Rightarrow> Branches branches rest
      | _ \<Rightarrow> Settled StepReject (Fsm (frame # rest) done))"

text \<open>
  The end of \<open>dispatch_oneof\<close>: \<open>probes\<close> are the branches after the character. No survivor rejects, one
  survivor is spliced into the stack, several stay in parallel.
\<close>

definition merge_branches ::
  "'n fsm list \<Rightarrow> (step_result \<times> 'n fsm) list \<Rightarrow> 'n frame list \<Rightarrow> bool \<Rightarrow> step_result \<times> 'n fsm" where
  "merge_branches branches probes rest done =
     (case List.map snd (filter (\<lambda>r. fst r = StepOk) probes) of
        [] \<Rightarrow> (StepReject, Fsm (FOneOf branches # rest) done)
      | [sub] \<Rightarrow>
          (StepOk, if fsm_done sub \<and> fsm_stack sub = [] then complete_value rest done
                   else Fsm (fsm_stack sub @ rest) done)
      | surviving \<Rightarrow> (StepOk, Fsm (FOneOf surviving # rest) done))"

subsection \<open>Termination measure\<close>

fun frame_weight :: "'n frame \<Rightarrow> nat" and fsm_weight :: "'n fsm \<Rightarrow> nat" where
  "frame_weight (FValue s) = Suc (size s)"
| "frame_weight (FObject ob) = Suc (size (of_spec ob))"
| "frame_weight (FArray arr) = Suc (size (af_spec arr))"
| "frame_weight (FOneOf bs) = Suc (sum_list (List.map fsm_weight bs))"
| "frame_weight (FString _) = 1"
| "frame_weight (FNumber _) = 1"
| "frame_weight (FKeyword _) = 1"
| "frame_weight (FConst _) = 1"
| "fsm_weight (Fsm stack _) = Suc (sum_list (List.map frame_weight stack))"

lemma complete_value_weight: "fsm_weight (complete_value rest done) = Suc (sum_list (map frame_weight rest))"
  by (auto simp: complete_value_def split: list.split frame.split)

lemma size_list_mem: "x \<in> set xs \<Longrightarrow> size x < size_list size xs"
  by (induction xs) auto

lemma dispatch_value_branches:
  assumes "dispatch_value js schema rest done ch = Branches bs us"
  shows "us = rest \<and> (\<exists>ss. schema = SOneOf ss \<and> bs = map fsm_new ss)"
  using assms by (auto simp: dispatch_value_def Let_def split: schema.splits if_splits)

lemma map_of_size: "map_of ps k = Some s \<Longrightarrow> size s < size_list (size_prod (\<lambda>_. 0) size) ps"
  by (induction ps) (auto split: if_splits)

lemma resolve_key_schema_size:
  "resolve_key_schema spec key = Some s \<Longrightarrow> size s < size spec"
  by (cases spec) (auto simp: resolve_key_schema_def dest!: map_of_size split: option.splits)

lemma dispatch_value_weight:
  assumes "dispatch_value js s rest done ch = Branches bs us" and "b \<in> set bs"
  shows "fsm_weight b < Suc (size s)"
proof -
  from dispatch_value_branches [OF assms(1)] obtain ss where ss: "s = SOneOf ss" "bs = map fsm_new ss"
    by blast
  with assms(2) obtain t where "t \<in> set ss" "b = fsm_new t" by auto
  with size_list_mem [of t ss] ss(1) show ?thesis by (simp add: fsm_new_def)
qed

lemma branches_weight:
  assumes "dispatch_frame js frame rest done ch = Branches bs us" and "b \<in> set bs"
  shows "fsm_weight b < Suc (frame_weight frame + sum_list (map frame_weight rest))"
proof -
  show ?thesis
  proof (cases frame)
    case (FValue s)
    with assms(1) have "dispatch_value js s rest done ch = Branches bs us" by (simp add: dispatch_frame_def)
    from dispatch_value_weight [OF this assms(2)] FValue show ?thesis by simp
  next
    case (FObject ob)
    with assms(1) obtain key s us' where s: "resolve_key_schema (of_spec ob) key = Some s"
      and d: "dispatch_value js s us' done ch = Branches bs us"
      by (auto simp: dispatch_frame_def dispatch_object_def close_object_def Let_def
          split: object_phase.splits if_splits option.splits)
    from dispatch_value_weight [OF d assms(2)] have "fsm_weight b < Suc (size s)" .
    with resolve_key_schema_size [OF s] FObject show ?thesis by simp
  next
    case (FArray arr)
    with assms(1) obtain us' where
      d: "dispatch_value js (as_items (af_spec arr)) us' done ch = Branches bs us"
      by (auto simp: dispatch_frame_def dispatch_array_def close_array_def Let_def
          split: array_phase.splits if_splits option.splits)
    from dispatch_value_weight [OF d assms(2)]
    have "fsm_weight b < Suc (size (as_items (af_spec arr)))" .
    with FArray show ?thesis by (cases "af_spec arr") simp
  next
    case (FOneOf cs)
    with assms member_le_sum_list [of "fsm_weight b" "map fsm_weight cs"] show ?thesis
      by (auto simp: dispatch_frame_def)
  qed (use assms in \<open>auto simp: dispatch_frame_def\<close>)
qed

text \<open>
  \<open>Fsm::step\<close>. It calls itself when a terminator ends a number (the number's frame is gone then) and on
  the branches of a \<open>OneOf\<close> (each smaller than the stack they came from).
\<close>

function step :: "('n json \<Rightarrow> ustring) \<Rightarrow> 'n fsm \<Rightarrow> nat \<Rightarrow> step_result \<times> 'n fsm" where
  "step js (Fsm [] done) ch = (if uc_whitespace ch then StepOk else StepReject, Fsm [] done)"
| "step js (Fsm (frame # rest) done) ch =
     (case step_atom frame ch of
        Some (frame', outcome) \<Rightarrow>
          (case outcome of
             AtomOk \<Rightarrow> (StepOk, Fsm (frame' # rest) done)
           | AtomReject \<Rightarrow> (StepReject, Fsm (frame' # rest) done)
           | AtomCompleteValue \<Rightarrow> (StepOk, complete_value rest done)
           | AtomCompleteKey key \<Rightarrow> complete_key key rest done
           | AtomReprocess \<Rightarrow> step js (complete_value rest done) ch)
      | None \<Rightarrow>
          if uc_whitespace ch then (StepOk, Fsm (frame # rest) done)
          else if done then (StepReject, Fsm (frame # rest) done)
          else
            (case dispatch_frame js frame rest done ch of
               Settled result fsm \<Rightarrow> (result, fsm)
             | Branches branches us \<Rightarrow>
                 merge_branches branches (List.map (\<lambda>b. step js b ch) branches) us done))"
  by pat_completeness auto

lemma step_atom_weight: "step_atom frame ch = Some r \<Longrightarrow> frame_weight frame = 1"
  by (auto simp: step_atom_def split: frame.splits)

termination step
  by (relation "measure (\<lambda>(js, fsm, ch). fsm_weight fsm)")
    (auto simp: complete_value_weight step_atom_weight intro: branches_weight)

fun step_str :: "('n json \<Rightarrow> ustring) \<Rightarrow> 'n fsm \<Rightarrow> ustring \<Rightarrow> step_result \<times> 'n fsm" where
  "step_str js fsm [] = (StepOk, fsm)"
| "step_str js fsm (ch # s) =
     (case step js fsm ch of
        (StepReject, fsm') \<Rightarrow> (StepReject, fsm')
      | (StepOk, fsm') \<Rightarrow> step_str js fsm' s)"

definition is_complete :: "'n fsm \<Rightarrow> bool" where
  "is_complete fsm =
     (fsm_done fsm \<and> fsm_stack fsm = [] \<or>
      (case fsm_stack fsm of [FNumber n] \<Rightarrow> is_number_finalizable n | _ \<Rightarrow> False))"

definition depth :: "'n fsm \<Rightarrow> nat" where
  "depth fsm = length (filter (\<lambda>f. case f of FObject _ \<Rightarrow> True | FArray _ \<Rightarrow> True | _ \<Rightarrow> False) (fsm_stack fsm))"

end
