(* ===== verification/SchemaInvariant.thy ===== *)
theory SchemaInvariant
  imports SchemaFsm
begin

text \<open>
  The shape of the stack: what can lie under an active value or key, which phases a frame on top can
  have, and that the machine is done exactly when its stack is empty. Every step keeps it, also one that
  rejects.
\<close>

section \<open>Well-formed machines\<close>

text \<open>
  \<open>context_ok k stack\<close>: the frames under an active value (\<open>k = False\<close>) or key string (\<open>k = True\<close>) are
  containers whose phase says so.
\<close>

fun context_ok :: "bool \<Rightarrow> 'n frame list \<Rightarrow> bool" where
  "context_ok k [] \<longleftrightarrow> \<not> k"
| "context_ok k (FObject ob # rest) \<longleftrightarrow>
     of_phase ob = (if k then ObjInKey else ObjInValue) \<and> context_ok False rest"
| "context_ok k (FArray arr # rest) \<longleftrightarrow> \<not> k \<and> af_phase arr = ArrInValue \<and> context_ok False rest"
| "context_ok k _ \<longleftrightarrow> False"

fun is_key_frame :: "'n frame \<Rightarrow> bool" where
  "is_key_frame (FString s) = sf_is_key s"
| "is_key_frame _ = False"

fun frame_ok :: "'n frame \<Rightarrow> bool" and fsm_ok :: "'n fsm \<Rightarrow> bool" where
  "frame_ok (FValue s) \<longleftrightarrow> True"
| "frame_ok (FObject ob) \<longleftrightarrow> of_phase ob \<noteq> ObjInKey \<and> of_phase ob \<noteq> ObjInValue"
| "frame_ok (FArray arr) \<longleftrightarrow> af_phase arr \<noteq> ArrInValue"
| "frame_ok (FString s) \<longleftrightarrow> True"
| "frame_ok (FNumber n) \<longleftrightarrow> True"
| "frame_ok (FKeyword k) \<longleftrightarrow> kf_index k < length (keyword_bytes (kf_target k))"
| "frame_ok (FConst c) \<longleftrightarrow> cf_index c < length (cf_target c)"
| "frame_ok (FOneOf bs) \<longleftrightarrow> list_all fsm_ok bs"
| "fsm_ok (Fsm [] d) \<longleftrightarrow> d"
| "fsm_ok (Fsm (frame # rest) d) \<longleftrightarrow>
     \<not> d \<and> frame_ok frame \<and> context_ok (is_key_frame frame) rest"

lemma fsm_ok_done: "fsm_ok f \<Longrightarrow> fsm_done f \<longleftrightarrow> fsm_stack f = []"
  by (cases f rule: fsm_ok.cases) auto

lemma fsm_ok_new [simp]: "fsm_ok (fsm_new s)"
  by (simp add: fsm_new_def)

lemma fsm_ok_complete_value: "context_ok False rest \<Longrightarrow> fsm_ok (complete_value rest False)"
  by (cases "(False, rest)" rule: context_ok.cases) (auto simp: complete_value_def)

lemma context_ok_append:
  "context_ok k (us @ rest) \<longleftrightarrow> (if us = [] then context_ok k rest else context_ok k us \<and> context_ok False rest)"
  by (induction k us rule: context_ok.induct) auto

text \<open>Splicing a branch into the stack of its parent.\<close>

lemma fsm_ok_splice:
  assumes "fsm_ok sub" "context_ok False rest" "fsm_stack sub \<noteq> []"
  shows "fsm_ok (Fsm (fsm_stack sub @ rest) False)"
proof -
  obtain frame us where sub: "fsm_stack sub = frame # us" using assms(3) by (cases "fsm_stack sub") auto
  with assms(1) have "frame_ok frame" "context_ok (is_key_frame frame) us"
    by (cases sub; simp)+
  with assms(2) sub show ?thesis by (auto simp: context_ok_append)
qed

section \<open>Every step keeps it\<close>

lemma frame_ok_new [simp]:
  "frame_ok (new_object spec)" "frame_ok (new_array aspec)" "frame_ok (new_string ss k)"
  "frame_ok (new_number ns c)" "frame_ok (new_keyword kw)"
  "\<not> is_key_frame (new_object spec)" "\<not> is_key_frame (new_array aspec)" "is_key_frame (new_string ss k) = k"
  "\<not> is_key_frame (new_number ns c)" "\<not> is_key_frame (new_keyword kw)"
  by (simp_all add: new_object_def new_array_def new_string_def new_number_def new_keyword_def)
    (cases kw; simp)

text \<open>A dispatch that settles gives a well-formed machine; one that branches, well-formed branches.\<close>

definition dispatch_ok :: "'n dispatch \<Rightarrow> bool" where
  "dispatch_ok d \<longleftrightarrow> (case d of Settled r f \<Rightarrow> fsm_ok f
     | Branches bs rest \<Rightarrow> list_all fsm_ok bs \<and> context_ok False rest)"

lemma dispatch_ok_value: "context_ok False rest \<Longrightarrow> dispatch_ok (dispatch_value js s rest False ch)"
  by (auto simp: dispatch_ok_def dispatch_value_def Let_def list_all_iff fsm_ok_complete_value
      neq_Nil_conv split: schema.split)

lemma dispatch_ok_object:
  "context_ok False rest \<Longrightarrow> frame_ok (FObject ob) \<Longrightarrow> dispatch_ok (dispatch_object js ob rest False ch)"
  by (cases "of_phase ob")
    (auto simp: dispatch_object_def close_object_def Let_def dispatch_ok_value fsm_ok_complete_value
      dispatch_ok_def [of "Settled r f" for r f] split: option.split)

lemma dispatch_ok_array:
  "context_ok False rest \<Longrightarrow> frame_ok (FArray arr) \<Longrightarrow> dispatch_ok (dispatch_array js arr rest False ch)"
  by (cases "af_phase arr")
    (auto simp: dispatch_array_def close_array_def Let_def dispatch_ok_value fsm_ok_complete_value
      dispatch_ok_def [of "Settled r f" for r f] split: option.split)

lemma dispatch_ok_frame:
  assumes "fsm_ok (Fsm (frame # rest) False)" "step_atom frame ch = None"
  shows "dispatch_ok (dispatch_frame js frame rest False ch)"
  using assms
  by (cases frame) (simp_all add: dispatch_frame_def step_atom_def dispatch_ok_value dispatch_ok_object
      dispatch_ok_array dispatch_ok_def [of "Branches bs us" for bs us])

lemma fsm_ok_merge:
  assumes "list_all fsm_ok branches" "context_ok False rest" "list_all (\<lambda>r. fsm_ok (snd r)) probes"
  shows "fsm_ok (snd (merge_branches branches probes rest False))"
proof -
  let ?s = "map snd (filter (\<lambda>r. fst r = StepOk) probes)"
  have s: "list_all fsm_ok ?s" using assms(3) by (auto simp: list_all_iff)
  consider "?s = []" | sub where "?s = [sub]" | a b us where "?s = a # b # us"
    by (cases ?s rule: list.exhaust [case_product list.exhaust]) (metis list.exhaust)+
  then show ?thesis
  proof cases
    case (2 sub)
    with s have "fsm_ok sub" by simp
    with 2 assms(2) show ?thesis
      using fsm_ok_done [of sub] fsm_ok_splice [where sub = sub and rest = rest]
      by (auto simp: merge_branches_def fsm_ok_complete_value)
  qed (use assms s in \<open>auto simp: merge_branches_def\<close>)
qed

lemma constraints_outcome: "ok_if_within_string_constraints s = AtomOk \<or> ok_if_within_string_constraints s = AtomReject"
  by (simp add: ok_if_within_string_constraints_def)

lemma step_string_key:
  "step_string s ch = (s', out) \<Longrightarrow>
     (out = AtomOk \<or> out = AtomReject \<longrightarrow> sf_is_key s' = sf_is_key s) \<and>
     (out = AtomCompleteValue \<longrightarrow> \<not> sf_is_key s) \<and> (\<forall>key. out = AtomCompleteKey key \<longrightarrow> sf_is_key s) \<and>
     out \<noteq> AtomReprocess"
  using constraints_outcome
  by (auto simp: step_string_def close_string_def Let_def split: if_splits option.splits)
    (metis atom_outcome.distinct)+

lemma step_number_outcome:
  "step_number n ch = (n', out) \<Longrightarrow> out \<in> {AtomOk, AtomReject, AtomReprocess}"
  by (cases "nf_phase n")
    (auto simp: step_number_def number_push_def number_end_def Let_def split: if_splits)

lemma step_keyword_outcome:
  "step_keyword k ch = (k', out) \<Longrightarrow> kf_index k < length (keyword_bytes (kf_target k)) \<Longrightarrow>
     out \<in> {AtomOk, AtomReject, AtomCompleteValue} \<and>
     (out \<noteq> AtomCompleteValue \<longrightarrow> kf_index k' < length (keyword_bytes (kf_target k')))"
  by (auto simp: step_keyword_def Let_def split: if_splits)

lemma step_const_outcome:
  "step_const c ch = (c', out) \<Longrightarrow> cf_index c < length (cf_target c) \<Longrightarrow>
     out \<in> {AtomOk, AtomReject, AtomCompleteValue} \<and>
     (out \<noteq> AtomCompleteValue \<longrightarrow> cf_index c' < length (cf_target c'))"
  by (auto simp: step_const_def Let_def split: if_splits)

lemma step_atom_key:
  assumes "step_atom frame ch = Some (frame', out)" "frame_ok frame"
  shows "(out = AtomOk \<or> out = AtomReject \<longrightarrow> frame_ok frame' \<and> is_key_frame frame' = is_key_frame frame) \<and>
     (out = AtomCompleteValue \<or> out = AtomReprocess \<longrightarrow> \<not> is_key_frame frame) \<and>
     (\<forall>key. out = AtomCompleteKey key \<longrightarrow> is_key_frame frame)"
proof (cases frame)
  case (FString s)
  with assms obtain s' where "step_string s ch = (s', out)" "frame' = FString s'"
    by (cases "step_string s ch") (simp add: step_atom_def)
  with step_string_key FString show ?thesis by fastforce
next
  case (FNumber n)
  with assms obtain n' where "step_number n ch = (n', out)" "frame' = FNumber n'"
    by (cases "step_number n ch") (simp add: step_atom_def)
  with step_number_outcome FNumber show ?thesis by fastforce
next
  case (FKeyword k)
  with assms obtain k' where "step_keyword k ch = (k', out)" "frame' = FKeyword k'"
    by (cases "step_keyword k ch") (simp add: step_atom_def)
  with step_keyword_outcome FKeyword assms(2) show ?thesis by fastforce
next
  case (FConst c)
  with assms obtain c' where "step_const c ch = (c', out)" "frame' = FConst c'"
    by (cases "step_const c ch") (simp add: step_atom_def)
  with step_const_outcome FConst assms(2) show ?thesis by fastforce
qed (use assms in \<open>simp_all add: step_atom_def\<close>)

lemma complete_key_ok:
  assumes "context_ok True rest"
  shows "fst (complete_key key rest False) = StepOk \<and> fsm_ok (snd (complete_key key rest False))"
  using assms by (cases "(True, rest)" rule: context_ok.cases) (auto simp: complete_key_def)

lemma step_ok: "fsm_ok f \<Longrightarrow> fsm_ok (snd (step js f ch))"
proof (induction js f ch rule: step.induct)
  case (1 js "done" ch)
  then show ?case by simp
next
  case (2 js frame rest "done" ch)
  from "2.prems" have d: "done = False" and fr: "frame_ok frame" "context_ok (is_key_frame frame) rest"
    by auto
  show ?case
  proof (cases "step_atom frame ch")
    case (Some r)
    obtain frame' out where r: "step_atom frame ch = Some (frame', out)" using Some by (cases r) auto
    note key = step_atom_key [OF r fr(1)]
    show ?thesis
    proof (cases out)
      case AtomReprocess
      with key fr have "fsm_ok (complete_value rest False)" by (simp add: fsm_ok_complete_value)
      with "2.IH" AtomReprocess r d show ?thesis by simp
    next
      case (AtomCompleteKey k)
      with key fr complete_key_ok [where rest = rest and key = k] r d show ?thesis by simp
    qed (use key fr r d in \<open>auto simp: fsm_ok_complete_value\<close>)
  next
    case None
    from dispatch_ok_frame [where frame = frame and rest = rest and ch = ch and js = js] "2.prems" None d
    have dok: "dispatch_ok (dispatch_frame js frame rest False ch)" by simp
    show ?thesis
    proof (cases "dispatch_frame js frame rest False ch")
      case (Settled result fsm)
      with dok None fr d show ?thesis by (simp add: dispatch_ok_def)
    next
      case (Branches branches us)
      with dok have ok: "list_all fsm_ok branches" "context_ok False us" by (simp_all add: dispatch_ok_def)
      have "list_all (\<lambda>r. fsm_ok (snd r)) (map (\<lambda>b. step js b ch) branches)"
        if "\<not> uc_whitespace ch"
        using "2.IH" ok(1) None Branches d that by (simp add: list_all_iff)
      with fsm_ok_merge [OF ok] Branches None fr d show ?thesis by auto
    qed
  qed
qed

end
