(* ===== verification/SchemaGrammar.thy ===== *)
theory SchemaGrammar
  imports SchemaInvariant
begin

text \<open>
  The language a schema stands for, as a grammar: \<open>value_at js s w r\<close> says that the text \<open>w\<close> starts,
  after white space, with a value of the schema \<open>s\<close>, and \<open>r\<close> is what follows it. It is the abstract
  specification the machine is compared with in \<open>SchemaLanguage\<close>.

  The grammar has the tolerances of the code, each visible in a rule: a comma may stand before the
  closing brace of an object, a number may have leading zeros or no integer digits, keys may repeat,
  \<open>maxItems\<close> is no condition, an \<open>\\u\<close> escape counts as four characters (of U+FFFD).
\<close>

section \<open>Strings and numbers\<close>

definition within_limits :: "string_schema \<Rightarrow> ustring \<Rightarrow> bool" where
  "within_limits spec d \<longleftrightarrow>
     (case ss_const spec of Some c \<Rightarrow> starts_with c d | None \<Rightarrow> True) \<and>
     (case ss_enum spec of Some en \<Rightarrow> \<exists>v \<in> set en. starts_with v d | None \<Rightarrow> True) \<and>
     (case ss_max_len spec of Some mx \<Rightarrow> length d \<le> mx | None \<Rightarrow> True)"

definition string_allowed :: "string_schema \<Rightarrow> ustring \<Rightarrow> bool" where
  "string_allowed spec d \<longleftrightarrow>
     (case ss_const spec of Some c \<Rightarrow> d = c | None \<Rightarrow> True) \<and>
     (case ss_enum spec of Some en \<Rightarrow> d \<in> set en | None \<Rightarrow> True) \<and>
     (case ss_min_len spec of Some mn \<Rightarrow> mn \<le> length d | None \<Rightarrow> True)"

text \<open>\<open>string_at spec d w k r\<close>: inside a string whose decoded text so far is \<open>d\<close>, the text \<open>w\<close> goes on to the
  closing quote, the whole decodes to \<open>k\<close>, and \<open>r\<close> follows.\<close>

inductive string_at :: "string_schema \<Rightarrow> ustring \<Rightarrow> ustring \<Rightarrow> ustring \<Rightarrow> ustring \<Rightarrow> bool" where
  close: "string_allowed spec d \<Longrightarrow> string_at spec d (ch_quote # r) d r"
| plain: "0x20 \<le> c \<Longrightarrow> c \<noteq> ch_quote \<Longrightarrow> c \<noteq> ch_backslash \<Longrightarrow> within_limits spec (d @ [c]) \<Longrightarrow>
     string_at spec (d @ [c]) w k r \<Longrightarrow> string_at spec d (c # w) k r"
| escape: "unescape e = Some c \<Longrightarrow> within_limits spec (d @ [c]) \<Longrightarrow> string_at spec (d @ [c]) w k r \<Longrightarrow>
     string_at spec d (ch_backslash # e # w) k r"
| unicode: "length hs = 4 \<Longrightarrow> list_all uc_hexdigit hs \<Longrightarrow>
     string_at spec (d @ replicate 4 0xFFFD) w k r \<Longrightarrow>
     string_at spec d (ch_backslash # ch_u # hs @ w) k r"

definition number_start :: "nat \<Rightarrow> bool" where
  "number_start c \<longleftrightarrow> c = ch_minus \<or> uc_digit c"

text \<open>The phase after one more character of a number.\<close>

definition number_next :: "bool \<Rightarrow> number_phase \<Rightarrow> nat \<Rightarrow> number_phase option" where
  "number_next integer ph c =
     (if uc_digit c then
        Some (case ph of IntPart \<Rightarrow> IntPart | FracStart \<Rightarrow> FracDigits | FracDigits \<Rightarrow> FracDigits | _ \<Rightarrow> ExpDigits)
      else if c = ch_dot \<and> ph = IntPart \<and> \<not> integer then Some FracStart
      else if (c = ch_e \<or> c = ch_E) \<and> (ph = IntPart \<and> \<not> integer \<or> ph = FracDigits) then Some ExpStart
      else if (c = ch_plus \<or> c = ch_minus) \<and> ph = ExpStart then Some ExpSign
      else None)"

definition number_final :: "number_schema \<Rightarrow> number_phase \<Rightarrow> ustring \<Rightarrow> bool" where
  "number_final spec ph ds \<longleftrightarrow> ph \<in> {IntPart, FracDigits, ExpDigits} \<and>
     validate_number \<lparr>nf_spec = spec, nf_phase = ph, nf_digits = ds\<rparr>"

inductive number_at :: "number_schema \<Rightarrow> number_phase \<Rightarrow> ustring \<Rightarrow> ustring \<Rightarrow> ustring \<Rightarrow> bool" where
  final: "number_final spec ph ds \<Longrightarrow> number_at spec ph ds r r"
| digit: "number_next (ns_integer spec) ph c = Some ph' \<Longrightarrow> number_at spec ph' (ds @ [c]) w r \<Longrightarrow>
     number_at spec ph ds (c # w) r"

section \<open>Values\<close>

definition any_kinds :: "'n schema list" where
  "any_kinds = [SObject object_any, SArray (ArraySchema SAny None None), SString default_string_schema,
     SNumber default_number_schema, SBoolean, SNull]"

definition required_seen :: "'n object_schema \<Rightarrow> ustring list \<Rightarrow> bool" where
  "required_seen spec seen \<longleftrightarrow> list_all (\<lambda>req. req \<in> set seen) (os_required spec)"

definition enough_items :: "'n array_schema \<Rightarrow> nat \<Rightarrow> bool" where
  "enough_items spec n \<longleftrightarrow> (case as_min spec of Some mn \<Rightarrow> mn \<le> n | None \<Rightarrow> True)"

text \<open>
  \<open>members_at\<close>: after an opening brace or a comma. \<open>pair_at\<close>: after a key. \<open>more_at\<close>: after a member.
  \<open>items_at\<close>: after an opening bracket. \<open>more_items_at\<close>: after an item.
\<close>

inductive value_at :: "('n json \<Rightarrow> ustring) \<Rightarrow> 'n schema \<Rightarrow> ustring \<Rightarrow> ustring \<Rightarrow> bool"
  and members_at :: "('n json \<Rightarrow> ustring) \<Rightarrow> 'n object_schema \<Rightarrow> ustring list \<Rightarrow> ustring \<Rightarrow> ustring \<Rightarrow> bool"
  and pair_at :: "('n json \<Rightarrow> ustring) \<Rightarrow> 'n object_schema \<Rightarrow> ustring list \<Rightarrow> ustring \<Rightarrow> ustring \<Rightarrow> ustring \<Rightarrow> bool"
  and more_at :: "('n json \<Rightarrow> ustring) \<Rightarrow> 'n object_schema \<Rightarrow> ustring list \<Rightarrow> ustring \<Rightarrow> ustring \<Rightarrow> bool"
  and items_at :: "('n json \<Rightarrow> ustring) \<Rightarrow> 'n array_schema \<Rightarrow> nat \<Rightarrow> ustring \<Rightarrow> ustring \<Rightarrow> bool"
  and more_items_at :: "('n json \<Rightarrow> ustring) \<Rightarrow> 'n array_schema \<Rightarrow> nat \<Rightarrow> ustring \<Rightarrow> ustring \<Rightarrow> bool"
  for js :: "'n json \<Rightarrow> ustring" where
  value_space: "uc_whitespace c \<Longrightarrow> value_at js s w r \<Longrightarrow> value_at js s (c # w) r"
| value_any: "s \<in> set any_kinds \<Longrightarrow> value_at js s w r \<Longrightarrow> value_at js SAny w r"
| value_one_of: "s \<in> set ss \<Longrightarrow> value_at js s w r \<Longrightarrow> value_at js (SOneOf ss) w r"
| value_object: "members_at js spec [] w r \<Longrightarrow> value_at js (SObject spec) (ch_lbrace # w) r"
| value_array: "items_at js aspec 0 w r \<Longrightarrow> value_at js (SArray aspec) (ch_lbracket # w) r"
| value_string: "string_at sspec [] w k r \<Longrightarrow> value_at js (SString sspec) (ch_quote # w) r"
| value_number: "number_start c \<Longrightarrow> number_at nspec IntPart [c] w r \<Longrightarrow> value_at js (SNumber nspec) (c # w) r"
| value_boolean: "kw \<in> {KwTrue, KwFalse} \<Longrightarrow> value_at js SBoolean (keyword_bytes kw @ r) r"
| value_null: "value_at js SNull (keyword_bytes KwNull @ r) r"
| value_const: "js v = c # t \<Longrightarrow> value_at js (SConst v) (c # t @ r) r"
| members_space: "uc_whitespace c \<Longrightarrow> members_at js spec seen w r \<Longrightarrow> members_at js spec seen (c # w) r"
| members_close: "required_seen spec seen \<Longrightarrow> members_at js spec seen (ch_rbrace # r) r"
| members_key: "string_at default_string_schema [] w k v \<Longrightarrow> pair_at js spec seen k v r \<Longrightarrow>
     members_at js spec seen (ch_quote # w) r"
| pair_space: "uc_whitespace c \<Longrightarrow> pair_at js spec seen k w r \<Longrightarrow> pair_at js spec seen k (c # w) r"
| pair_value: "resolve_key_schema spec k = Some s \<Longrightarrow> value_at js s w v \<Longrightarrow> more_at js spec (seen @ [k]) v r \<Longrightarrow>
     pair_at js spec seen k (ch_colon # w) r"
| more_space: "uc_whitespace c \<Longrightarrow> more_at js spec seen w r \<Longrightarrow> more_at js spec seen (c # w) r"
| more_comma: "members_at js spec seen w r \<Longrightarrow> more_at js spec seen (ch_comma # w) r"
| more_close: "required_seen spec seen \<Longrightarrow> more_at js spec seen (ch_rbrace # r) r"
| items_space: "uc_whitespace c \<Longrightarrow> items_at js aspec n w r \<Longrightarrow> items_at js aspec n (c # w) r"
| items_close: "enough_items aspec n \<Longrightarrow> items_at js aspec n (ch_rbracket # r) r"
| items_value: "value_at js (as_items aspec) (c # w) v \<Longrightarrow> \<not> uc_whitespace c \<Longrightarrow> c \<noteq> ch_rbracket \<Longrightarrow>
     more_items_at js aspec (n + 1) v r \<Longrightarrow> items_at js aspec n (c # w) r"
| more_items_space: "uc_whitespace c \<Longrightarrow> more_items_at js aspec n w r \<Longrightarrow> more_items_at js aspec n (c # w) r"
| more_items_comma: "value_at js (as_items aspec) w v \<Longrightarrow> more_items_at js aspec (n + 1) v r \<Longrightarrow>
     more_items_at js aspec n (ch_comma # w) r"
| more_items_close: "enough_items aspec n \<Longrightarrow> more_items_at js aspec n (ch_rbracket # r) r"

text \<open>A text is in the language of a schema: a value with white space around it.\<close>

definition in_language :: "('n json \<Rightarrow> ustring) \<Rightarrow> 'n schema \<Rightarrow> ustring \<Rightarrow> bool" where
  "in_language js s w \<longleftrightarrow> (\<exists>r. value_at js s w r \<and> list_all uc_whitespace r)"

end
