(* ===== verification/SchemaLanguage.thy ===== *)
theory SchemaLanguage
  imports SchemaGrammar
begin

text \<open>
  The machine against the grammar, for schemas without \<open>oneOf\<close>. \<open>live js f w\<close> is the language of the
  machine state \<open>f\<close>: the texts \<open>w\<close> the grammar allows from there. A step is a derivative: an accepted
  character takes \<open>live f\<close> to \<open>live f'\<close>, a rejected one starts no text of \<open>live f\<close>.
\<close>

section \<open>Schemas and machines without oneOf\<close>

lemma size_snd_mem [termination_simp]:
  "p \<in> set ps \<Longrightarrow> size (snd p) < Suc (Suc (size_list (size_prod (\<lambda>_. 0) size) ps + n))"
  by (induction ps) auto

fun plain_schema :: "'n schema \<Rightarrow> bool" where
  "plain_schema (SOneOf ss) \<longleftrightarrow> False"
| "plain_schema (SObject (ObjectSchema props req additional)) \<longleftrightarrow>
     (\<forall>p \<in> set props. plain_schema (snd p)) \<and>
     (case additional of Some s \<Rightarrow> plain_schema s | None \<Rightarrow> True)"
| "plain_schema (SArray (ArraySchema items mn mx)) \<longleftrightarrow> plain_schema items"
| "plain_schema _ \<longleftrightarrow> True"

fun plain_frame :: "'n frame \<Rightarrow> bool" where
  "plain_frame (FValue s) \<longleftrightarrow> plain_schema s"
| "plain_frame (FObject ob) \<longleftrightarrow> plain_schema (SObject (of_spec ob))"
| "plain_frame (FArray arr) \<longleftrightarrow> plain_schema (SArray (af_spec arr))"
| "plain_frame (FOneOf bs) \<longleftrightarrow> False"
| "plain_frame _ \<longleftrightarrow> True"

definition plain_fsm :: "'n fsm \<Rightarrow> bool" where
  "plain_fsm f \<longleftrightarrow> list_all plain_frame (fsm_stack f)"

lemma plain_items: "plain_schema (SArray spec) \<Longrightarrow> plain_schema (as_items spec)"
  by (cases spec) simp

lemma plain_resolve:
  "plain_schema (SObject spec) \<Longrightarrow> resolve_key_schema spec k = Some s \<Longrightarrow> plain_schema s"
  by (cases spec) (auto simp: resolve_key_schema_def dest!: map_of_SomeD split: option.splits)

lemma plain_complete_value: "list_all plain_frame rest \<Longrightarrow> plain_fsm (complete_value rest d)"
  by (cases rest) (auto simp: plain_fsm_def complete_value_def split: frame.split)

section \<open>Languages of the atoms\<close>

inductive_simps string_at_Nil [simp]: "string_at spec d [] k r"
inductive_simps string_at_Cons: "string_at spec d (c # w) k r"
inductive_simps number_at_Nil [simp]: "number_at spec ph ds [] r"
inductive_simps number_at_Cons: "number_at spec ph ds (c # w) r"

definition hex_then :: "nat \<Rightarrow> (ustring \<Rightarrow> bool) \<Rightarrow> ustring \<Rightarrow> bool" where
  "hex_then n P w \<longleftrightarrow> n \<le> length w \<and> list_all uc_hexdigit (take n w) \<and> P (drop n w)"

lemma hex_then_simps [simp]:
  "hex_then 0 P w \<longleftrightarrow> P w" "hex_then (Suc n) P (c # w) \<longleftrightarrow> uc_hexdigit c \<and> hex_then n P w"
  "\<not> hex_then (Suc n) P []"
  by (auto simp: hex_then_def)

lemma unescape_u [simp]: "unescape ch_u = None"
  by (simp add: unescape_def)

lemma string_at_escape:
  "string_at spec d (ch_backslash # e # w) k r \<longleftrightarrow>
     (if e = ch_u then hex_then 4 (\<lambda>w'. string_at spec (d @ replicate 4 0xFFFD) w' k r) w
      else \<exists>c. unescape e = Some c \<and> within_limits spec (d @ [c]) \<and> string_at spec (d @ [c]) w k r)"
proof -
  have u: "(\<exists>hs w'. w = hs @ w' \<and> length hs = 4 \<and> list_all uc_hexdigit hs \<and> P w') \<longleftrightarrow> hex_then 4 P w" for P
    unfolding hex_then_def by (metis append_eq_conv_conj append_take_drop_id length_take min.absorb2 le_add1 length_append)
  show ?thesis
    using u [of "\<lambda>w'. string_at spec (d @ replicate 4 0xFFFD) w' k r"]
    by (auto simp: string_at_Cons)
qed

lemma string_at_quote:
  "string_at spec d (ch_quote # w) k r \<longleftrightarrow> string_allowed spec d \<and> k = d \<and> r = w"
  by (auto simp: string_at_Cons)

definition string_rest :: "string_frame \<Rightarrow> ustring \<Rightarrow> ustring \<Rightarrow> ustring \<Rightarrow> bool" where
  "string_rest s w k r \<longleftrightarrow>
     hex_then (sf_unicode_left s)
       (\<lambda>w'. string_at (sf_spec s) (sf_decoded s @ replicate (sf_unicode_left s) 0xFFFD)
         (if sf_in_escape s then ch_backslash # w' else w') k r) w"

lemma within_limits_outcome:
  "ok_if_within_string_constraints s = (if within_limits (sf_spec s) (sf_decoded s) then AtomOk else AtomReject)"
  by (auto simp: ok_if_within_string_constraints_def within_limits_def list_ex_iff split: option.split)

lemma close_string_outcome:
  "close_string s = (if string_allowed (sf_spec s) (sf_decoded s)
     then (if sf_is_key s then (s\<lparr>sf_decoded := []\<rparr>, AtomCompleteKey (sf_decoded s)) else (s, AtomCompleteValue))
     else (s, AtomReject))"
  by (auto simp: close_string_def string_allowed_def split: option.split)

lemma string_rest_step:
  "case step_string s c of
     (s', AtomOk) \<Rightarrow> string_rest s (c # w) k r \<longleftrightarrow> string_rest s' w k r
   | (_, AtomReject) \<Rightarrow> \<not> string_rest s (c # w) k r
   | (_, AtomCompleteValue) \<Rightarrow> string_rest s (c # w) k r \<longleftrightarrow> k = sf_decoded s \<and> r = w
   | (_, AtomCompleteKey key) \<Rightarrow> string_rest s (c # w) k r \<longleftrightarrow> k = key \<and> r = w
   | (_, AtomReprocess) \<Rightarrow> False"
proof (cases "sf_unicode_left s")
  case (Suc n)
  then show ?thesis
    by (auto simp: step_string_def string_rest_def)
next
  case 0
  show ?thesis
  proof (cases "sf_in_escape s")
    case True
    with 0 show ?thesis
      by (auto simp: step_string_def string_rest_def Let_def within_limits_outcome string_at_escape
          split: option.split)
  next
    case False
    with 0 show ?thesis
      by (auto simp: step_string_def string_rest_def Let_def within_limits_outcome close_string_outcome
          string_at_Cons [of _ _ c] string_at_escape string_at_quote)
  qed
qed

lemma string_rest_Nil [simp]: "\<not> string_rest s [] k r"
  by (auto simp: string_rest_def hex_then_def string_at_Cons)

text \<open>Numbers.\<close>

abbreviation number_rest :: "number_frame \<Rightarrow> ustring \<Rightarrow> ustring \<Rightarrow> bool" where
  "number_rest n w r \<equiv> number_at (nf_spec n) (nf_phase n) (nf_digits n) w r"

definition number_terminator :: "nat \<Rightarrow> bool" where
  "number_terminator c \<longleftrightarrow> uc_whitespace c \<or> c \<in> {ch_comma, ch_rbrace, ch_rbracket, ch_colon}"

lemma terminator_chars:
  assumes "number_terminator c"
  shows "\<not> uc_digit c" "c \<noteq> ch_dot" "c \<noteq> ch_e" "c \<noteq> ch_E" "c \<noteq> ch_plus" "c \<noteq> ch_minus"
  using assms by (auto simp: number_terminator_def uc_whitespace_def uc_digit_def)

lemma number_next_terminator: "number_terminator c \<Longrightarrow> number_next i ph c = None"
  by (simp add: number_next_def terminator_chars)

lemma step_number_next:
  "step_number n c =
     (case number_next (ns_integer (nf_spec n)) (nf_phase n) c of
        Some ph \<Rightarrow> (n\<lparr>nf_digits := nf_digits n @ [c], nf_phase := ph\<rparr>, AtomOk)
      | None \<Rightarrow> (n, if number_terminator c \<and> number_final (nf_spec n) (nf_phase n) (nf_digits n)
                   then AtomReprocess else AtomReject))"
proof -
  have f: "validate_number \<lparr>nf_spec = nf_spec n, nf_phase = ph, nf_digits = nf_digits n\<rparr> = validate_number n" for ph
    by (simp add: validate_number_def cong: option.case_cong)
  note defs = step_number_def number_end_def number_final_def number_push_def f Let_def
    number_terminator_def
  consider "number_terminator c"
    | "\<not> number_terminator c" "uc_digit c" | "\<not> number_terminator c" "\<not> uc_digit c"
    by blast
  then show ?thesis
  proof cases
    case 1
    then show ?thesis
      by (cases "nf_phase n") (simp_all add: defs terminator_chars [OF 1] number_next_terminator [OF 1])
  next
    case 2
    then have "c \<noteq> ch_plus" "c \<noteq> ch_minus" by (auto simp: uc_digit_def)
    with 2 show ?thesis by (cases "nf_phase n") (simp_all add: defs number_next_def)
  next
    case 3
    then show ?thesis
      by (cases "c = ch_dot"; cases "c = ch_e \<or> c = ch_E"; cases "nf_phase n") (simp_all add: defs number_next_def)
  qed
qed

lemma number_rest_ok:
  assumes "step_number n c = (n', AtomOk)"
  shows "number_rest n (c # w) r \<longleftrightarrow> number_rest n' w r \<or> number_rest n (c # w) r \<and> r = c # w \<and> \<not> number_terminator c"
  using assms number_next_terminator [of c "ns_integer (nf_spec n)" "nf_phase n"]
  by (auto simp: step_number_next number_at_Cons split: option.splits if_splits)

lemma number_rest_reject:
  "step_number n c = (n', AtomReject) \<Longrightarrow> number_rest n (c # w) r \<Longrightarrow> r = c # w \<and> \<not> number_terminator c"
  by (auto simp: step_number_next number_at_Cons split: option.splits if_splits)

lemma number_rest_reprocess:
  "step_number n c = (n', AtomReprocess) \<Longrightarrow> number_rest n (c # w) r \<longleftrightarrow> r = c # w"
  by (auto simp: step_number_next number_at_Cons split: option.splits if_splits)

section \<open>The language of a machine\<close>

fun cont :: "('n json \<Rightarrow> ustring) \<Rightarrow> 'n frame list \<Rightarrow> ustring \<Rightarrow> bool" where
  "cont js [] w \<longleftrightarrow> list_all uc_whitespace w"
| "cont js (FObject ob # rest) w \<longleftrightarrow> (\<exists>r. more_at js (of_spec ob) (of_seen ob) w r \<and> cont js rest r)"
| "cont js (FArray arr # rest) w \<longleftrightarrow>
     (\<exists>r. more_items_at js (af_spec arr) (af_count arr + 1) w r \<and> cont js rest r)"
| "cont js _ w \<longleftrightarrow> False"

fun key_cont :: "('n json \<Rightarrow> ustring) \<Rightarrow> 'n frame list \<Rightarrow> ustring \<Rightarrow> ustring \<Rightarrow> bool" where
  "key_cont js (FObject ob # rest) k w \<longleftrightarrow>
     (\<exists>r. pair_at js (of_spec ob) (of_seen ob) k w r \<and> cont js rest r)"
| "key_cont js _ k w \<longleftrightarrow> False"

definition object_at :: "('n json \<Rightarrow> ustring) \<Rightarrow> 'n object_frame \<Rightarrow> ustring \<Rightarrow> ustring \<Rightarrow> bool" where
  "object_at js ob w r \<longleftrightarrow>
     (let key = (case of_key_buf ob of Some k \<Rightarrow> k | None \<Rightarrow> []) in
      case of_phase ob of
        ObjAfterOpen \<Rightarrow> members_at js (of_spec ob) (of_seen ob) w r
      | ObjExpectColon \<Rightarrow> pair_at js (of_spec ob) (of_seen ob) key w r
      | ObjExpectValue \<Rightarrow> (\<exists>s v. resolve_key_schema (of_spec ob) key = Some s \<and> value_at js s w v \<and>
          more_at js (of_spec ob) (of_seen ob @ [key]) v r)
      | ObjAfterValue \<Rightarrow> more_at js (of_spec ob) (of_seen ob) w r
      | _ \<Rightarrow> False)"

definition array_at :: "('n json \<Rightarrow> ustring) \<Rightarrow> 'n array_frame \<Rightarrow> ustring \<Rightarrow> ustring \<Rightarrow> bool" where
  "array_at js arr w r \<longleftrightarrow>
     (case af_phase arr of
        ArrAfterOpen \<Rightarrow> items_at js (af_spec arr) (af_count arr) w r
      | ArrAfterValue \<Rightarrow> more_items_at js (af_spec arr) (af_count arr) w r
      | ArrInValue \<Rightarrow> False)"

fun frame_at :: "('n json \<Rightarrow> ustring) \<Rightarrow> 'n frame \<Rightarrow> ustring \<Rightarrow> ustring \<Rightarrow> bool" where
  "frame_at js (FValue s) w r \<longleftrightarrow> value_at js s w r"
| "frame_at js (FObject ob) w r \<longleftrightarrow> object_at js ob w r"
| "frame_at js (FArray arr) w r \<longleftrightarrow> array_at js arr w r"
| "frame_at js (FString s) w r \<longleftrightarrow> (\<exists>k. string_rest s w k r)"
| "frame_at js (FNumber n) w r \<longleftrightarrow> number_rest n w r"
| "frame_at js (FKeyword k) w r \<longleftrightarrow> w = drop (kf_index k) (keyword_bytes (kf_target k)) @ r"
| "frame_at js (FConst c) w r \<longleftrightarrow> w = drop (cf_index c) (cf_target c) @ r"
| "frame_at js (FOneOf bs) w r \<longleftrightarrow> False"

fun live :: "('n json \<Rightarrow> ustring) \<Rightarrow> 'n fsm \<Rightarrow> ustring \<Rightarrow> bool" where
  "live js (Fsm [] d) w \<longleftrightarrow> list_all uc_whitespace w"
| "live js (Fsm (frame # rest) d) w \<longleftrightarrow>
     (if is_key_frame frame
      then case frame of FString s \<Rightarrow> \<exists>k r. string_rest s w k r \<and> key_cont js rest k r | _ \<Rightarrow> False
      else \<exists>r. frame_at js frame w r \<and> cont js rest r)"

lemma live_frame: "\<not> is_key_frame frame \<Longrightarrow> live js (Fsm (frame # rest) d) w \<longleftrightarrow> (\<exists>r. frame_at js frame w r \<and> cont js rest r)"
  by simp

declare live.simps(2) [simp del]

inductive_simps more_at_Cons: "more_at js spec seen (c # w) r"
inductive_simps more_items_at_Cons: "more_items_at js aspec n (c # w) r"
inductive_simps members_at_Cons: "members_at js spec seen (c # w) r"
inductive_simps pair_at_Cons: "pair_at js spec seen k (c # w) r"
inductive_simps items_at_Cons: "items_at js aspec n (c # w) r"
inductive_simps ends_Nil [simp]: "more_at js spec seen [] r" "more_items_at js aspec n [] r"
  "members_at js spec seen [] r" "pair_at js spec seen k [] r" "items_at js aspec n [] r"

lemma cont_first:
  assumes "cont js rest (c # w)"
  shows "number_terminator c"
proof (cases rest)
  case (Cons frame us)
  with assms show ?thesis
    by (cases frame) (auto simp: more_at_Cons more_items_at_Cons number_terminator_def)
qed (use assms in \<open>simp add: number_terminator_def\<close>)

lemma live_complete_value:
  "context_ok False rest \<Longrightarrow> live js (complete_value rest d) w \<longleftrightarrow> cont js rest w"
  by (cases "(False, rest)" rule: context_ok.cases)
    (auto simp: complete_value_def live_frame object_at_def array_at_def)

section \<open>Opening a value\<close>

text \<open>What the machine relies on of \<open>serde_json::to_string\<close>: a rendered value does not start with white space.\<close>

definition compact_json :: "('n json \<Rightarrow> ustring) \<Rightarrow> bool" where
  "compact_json js \<longleftrightarrow> (\<forall>v. js v = [] \<or> \<not> uc_whitespace (hd (js v)))"

lemma compact_jsonD: "compact_json js \<Longrightarrow> js v = c # t \<Longrightarrow> \<not> uc_whitespace c"
  unfolding compact_json_def by (metis list.distinct(1) list.sel(1))

lemma space_not_start: "uc_whitespace c \<Longrightarrow> number_start c \<Longrightarrow> False"
  by (auto simp: uc_whitespace_def number_start_def uc_digit_def)

lemma structural_not_space [simp]:
  "\<not> uc_whitespace ch_lbrace" "\<not> uc_whitespace ch_lbracket" "\<not> uc_whitespace ch_quote"
  "\<not> uc_whitespace ch_t" "\<not> uc_whitespace ch_f" "\<not> uc_whitespace ch_n" "\<not> uc_whitespace ch_comma"
  "\<not> uc_whitespace ch_colon" "\<not> uc_whitespace ch_rbrace" "\<not> uc_whitespace ch_rbracket"
  by (simp_all add: uc_whitespace_def)

lemma value_at_space:
  assumes "compact_json js" "uc_whitespace c"
  shows "value_at js s (c # w) r \<longleftrightarrow> value_at js s w r"
proof
  assume "value_at js s (c # w) r"
  then show "value_at js s w r"
  proof (induction s "c # w" r rule: value_at_members_at_pair_at_more_at_items_at_more_items_at.inducts(1)
      [where ?P2.0 = "\<lambda>_ _ _ _. True" and ?P3.0 = "\<lambda>_ _ _ _ _. True" and ?P4.0 = "\<lambda>_ _ _ _. True"
        and ?P5.0 = "\<lambda>_ _ _ _. True" and ?P6.0 = "\<lambda>_ _ _ _. True"])
  qed (use assms in \<open>auto intro: value_at_members_at_pair_at_more_at_items_at_more_items_at.intros
      dest: space_not_start compact_jsonD\<close>)
next
  assume "value_at js s w r"
  with assms(2) show "value_at js s (c # w) r" by (rule value_space)
qed

inductive_simps value_at_one_of: "value_at js (SOneOf ss) w r"
inductive_simps value_at_Nil: "value_at js s [] r"
inductive_simps value_at_cases: "value_at js SAny (c # w) r" "value_at js (SObject spec) (c # w) r"
  "value_at js (SArray aspec) (c # w) r" "value_at js (SString sspec) (c # w) r"
  "value_at js (SNumber nspec) (c # w) r" "value_at js SBoolean (c # w) r" "value_at js SNull (c # w) r"
  "value_at js (SConst v) (c # w) r"

lemma value_at_kinds:
  "\<not> uc_whitespace c \<Longrightarrow> value_at js SAny (c # w) r \<longleftrightarrow> (\<exists>s \<in> set any_kinds. value_at js s (c # w) r)"
  "\<not> uc_whitespace c \<Longrightarrow> value_at js (SObject spec) (c # w) r \<longleftrightarrow> c = ch_lbrace \<and> members_at js spec [] w r"
  "\<not> uc_whitespace c \<Longrightarrow> value_at js (SArray aspec) (c # w) r \<longleftrightarrow> c = ch_lbracket \<and> items_at js aspec 0 w r"
  "\<not> uc_whitespace c \<Longrightarrow> value_at js (SString sspec) (c # w) r \<longleftrightarrow> c = ch_quote \<and> (\<exists>k. string_at sspec [] w k r)"
  "\<not> uc_whitespace c \<Longrightarrow> value_at js (SNumber nspec) (c # w) r \<longleftrightarrow> number_start c \<and> number_at nspec IntPart [c] w r"
  "\<not> uc_whitespace c \<Longrightarrow> value_at js SBoolean (c # w) r \<longleftrightarrow>
     (c = ch_t \<and> w = tl (keyword_bytes KwTrue) @ r \<or> c = ch_f \<and> w = tl (keyword_bytes KwFalse) @ r)"
  "\<not> uc_whitespace c \<Longrightarrow> value_at js SNull (c # w) r \<longleftrightarrow> c = ch_n \<and> w = tl (keyword_bytes KwNull) @ r"
  "\<not> uc_whitespace c \<Longrightarrow> value_at js (SConst v) (c # w) r \<longleftrightarrow> (\<exists>t. js v = c # t \<and> w = t @ r)"
  by (auto simp: value_at_cases intro: exI [of _ KwTrue] exI [of _ KwFalse])

text \<open>\<open>opens js s rest ch d\<close>: the dispatch \<open>d\<close> of the first character of a value is a derivative.\<close>

definition dispatch_correct :: "('n json \<Rightarrow> ustring) \<Rightarrow> (ustring \<Rightarrow> bool) \<Rightarrow> 'n dispatch \<Rightarrow> bool" where
  "dispatch_correct js after d \<longleftrightarrow> (case d of
       Settled StepOk f \<Rightarrow> plain_fsm f \<and> (\<forall>w. live js f w \<longleftrightarrow> after w)
     | Settled StepReject f \<Rightarrow> (\<forall>w. \<not> after w)
     | Branches bs rest \<Rightarrow> False)"

lemma dispatch_correct_value:
  assumes plain: "plain_schema s" "list_all plain_frame rest" and rest: "context_ok False rest"
    and ch: "\<not> uc_whitespace ch"
  shows "dispatch_correct js (\<lambda>w. \<exists>r. value_at js s (ch # w) r \<and> cont js rest r)
    (dispatch_value js s rest False ch)"
proof -
  note defs = dispatch_correct_def dispatch_value_def Let_def value_at_kinds [OF ch] live_frame
    plain_fsm_def new_object_def new_array_def new_string_def new_number_def new_keyword_def
    object_at_def array_at_def string_rest_def number_start_def
  show ?thesis
  proof (cases s)
    case SAny
    then show ?thesis
      using plain rest by (auto simp: defs any_kinds_def object_any_def uc_digit_def)
  next
    case (SConst v)
    then show ?thesis
      using plain rest live_complete_value [OF rest] plain_complete_value [OF plain(2)]
      by (cases "js v") (auto simp: defs)
  qed (use plain rest in \<open>auto simp: defs\<close>)
qed

section \<open>Containers\<close>

lemma close_object_correct:
  assumes "list_all plain_frame rest" "context_ok False rest"
  shows "dispatch_correct js (\<lambda>w. required_seen (of_spec ob) (of_seen ob) \<and> cont js rest w)
    (close_object ob rest False)"
  using live_complete_value [OF assms(2)] plain_complete_value [OF assms(1)]
  by (auto simp: close_object_def dispatch_correct_def required_seen_def)

lemma close_array_correct:
  assumes "list_all plain_frame rest" "context_ok False rest"
  shows "dispatch_correct js (\<lambda>w. enough_items (af_spec arr) (af_count arr) \<and> cont js rest w)
    (close_array arr rest False)"
  using live_complete_value [OF assms(2)] plain_complete_value [OF assms(1)]
  by (auto simp: close_array_def dispatch_correct_def enough_items_def not_less split: option.split)

lemma dispatch_correct_cong: "dispatch_correct js A d \<Longrightarrow> (\<And>w. B w \<longleftrightarrow> A w) \<Longrightarrow> dispatch_correct js B d"
  by (simp add: dispatch_correct_def cong: dispatch.case_cong step_result.case_cong)

lemma dispatch_correct_ok:
  "plain_fsm f \<Longrightarrow> (\<And>w. live js f w \<longleftrightarrow> after w) \<Longrightarrow> dispatch_correct js after (Settled StepOk f)"
  "(\<And>w. \<not> after w) \<Longrightarrow> dispatch_correct js after (Settled StepReject f)"
  by (simp_all add: dispatch_correct_def)

lemma dispatch_correct_object:
  assumes ob: "frame_ok (FObject ob)" "plain_frame (FObject ob)"
    and rest: "list_all plain_frame rest" "context_ok False rest" and ch: "\<not> uc_whitespace ch"
  shows "dispatch_correct js (\<lambda>w. \<exists>r. object_at js ob (ch # w) r \<and> cont js rest r)
    (dispatch_object js ob rest False ch)"
proof -
  let ?key = "case of_key_buf ob of Some k \<Rightarrow> k | None \<Rightarrow> []"
  note close = close_object_correct [where js = js and ob = ob, OF rest]
  show ?thesis
  proof (cases "of_phase ob")
    case ObjAfterOpen
    have "dispatch_correct js (\<lambda>w. \<exists>r. object_at js ob (ch_rbrace # w) r \<and> cont js rest r)
        (close_object ob rest False)"
      by (rule dispatch_correct_cong [OF close])
        (auto simp: object_at_def ObjAfterOpen members_at_Cons)
    with ObjAfterOpen ob rest ch show ?thesis
      by (auto simp: dispatch_object_def object_at_def members_at_Cons live.simps(2) new_string_def plain_fsm_def
          string_rest_def intro!: dispatch_correct_ok; blast)
  next
    case ObjExpectColon
    with ob rest ch show ?thesis
      by (auto simp: dispatch_object_def object_at_def pair_at_Cons plain_fsm_def live_frame Let_def
          intro!: dispatch_correct_ok; blast)
  next
    case ObjExpectValue
    show ?thesis
    proof (cases "resolve_key_schema (of_spec ob) ?key")
      case None
      with ObjExpectValue show ?thesis
        by (auto simp: dispatch_object_def object_at_def Let_def intro!: dispatch_correct_ok)
    next
      case (Some s)
      let ?ob = "ob\<lparr>of_key_buf := None, of_seen := of_seen ob @ [?key], of_phase := ObjInValue,
        of_active_value := Some s\<rparr>"
      have "plain_schema s" using plain_resolve Some ob(2) by auto
      from dispatch_correct_value [OF this _ _ ch, of "FObject ?ob # rest" js] ob rest
      have "dispatch_correct js (\<lambda>w. \<exists>r. value_at js s (ch # w) r \<and> cont js (FObject ?ob # rest) r)
        (dispatch_value js s (FObject ?ob # rest) False ch)" by simp
      then have "dispatch_correct js (\<lambda>w. \<exists>r. object_at js ob (ch # w) r \<and> cont js rest r)
        (dispatch_value js s (FObject ?ob # rest) False ch)"
        by (rule dispatch_correct_cong) (auto simp: object_at_def ObjExpectValue Some Let_def)
      with ObjExpectValue Some show ?thesis by (simp add: dispatch_object_def Let_def)
    qed
  next
    case ObjAfterValue
    have "dispatch_correct js (\<lambda>w. \<exists>r. object_at js ob (ch_rbrace # w) r \<and> cont js rest r)
        (close_object ob rest False)"
      by (rule dispatch_correct_cong [OF close]) (auto simp: object_at_def ObjAfterValue more_at_Cons)
    with ObjAfterValue ob rest ch show ?thesis
      by (auto simp: dispatch_object_def object_at_def more_at_Cons live_frame plain_fsm_def
          intro!: dispatch_correct_ok)
  qed (use ob in auto)
qed

lemma dispatch_correct_array:
  assumes arr: "frame_ok (FArray arr)" "plain_frame (FArray arr)"
    and rest: "list_all plain_frame rest" "context_ok False rest" and ch: "\<not> uc_whitespace ch"
  shows "dispatch_correct js (\<lambda>w. \<exists>r. array_at js arr (ch # w) r \<and> cont js rest r)
    (dispatch_array js arr rest False ch)"
proof -
  let ?in = "FArray (arr\<lparr>af_phase := ArrInValue\<rparr>) # rest"
  note close = close_array_correct [where js = js and arr = arr, OF rest]
  have item: "plain_schema (as_items (af_spec arr))" using plain_items arr(2) by simp
  show ?thesis
  proof (cases "af_phase arr")
    case ArrAfterOpen
    have "dispatch_correct js (\<lambda>w. \<exists>r. array_at js arr (ch_rbracket # w) r \<and> cont js rest r)
        (close_array arr rest False)"
      by (rule dispatch_correct_cong [OF close]) (auto simp: array_at_def ArrAfterOpen items_at_Cons)
    moreover from dispatch_correct_value [OF item _ _ ch, of ?in js] arr rest
    have "dispatch_correct js (\<lambda>w. \<exists>r. value_at js (as_items (af_spec arr)) (ch # w) r \<and> cont js ?in r)
      (dispatch_value js (as_items (af_spec arr)) ?in False ch)" by simp
    then have "dispatch_correct js (\<lambda>w. \<exists>r. array_at js arr (ch # w) r \<and> cont js rest r)
      (dispatch_value js (as_items (af_spec arr)) ?in False ch)" if "ch \<noteq> ch_rbracket"
      by (rule dispatch_correct_cong) (use that ch in \<open>auto simp: array_at_def ArrAfterOpen items_at_Cons\<close>)
    ultimately show ?thesis by (simp add: dispatch_array_def ArrAfterOpen Let_def)
  next
    case ArrAfterValue
    have "dispatch_correct js (\<lambda>w. \<exists>r. array_at js arr (ch_rbracket # w) r \<and> cont js rest r)
        (close_array arr rest False)"
      by (rule dispatch_correct_cong [OF close]) (auto simp: array_at_def ArrAfterValue more_items_at_Cons)
    with ArrAfterValue arr rest ch item show ?thesis
      by (auto simp: dispatch_array_def array_at_def more_items_at_Cons live_frame plain_fsm_def Let_def
          intro!: dispatch_correct_ok; blast)
  qed (use arr in auto)
qed

section \<open>Steps\<close>

lemma object_at_space: "uc_whitespace c \<Longrightarrow> compact_json js \<Longrightarrow> object_at js ob (c # w) r \<longleftrightarrow> object_at js ob w r"
  by (auto simp: object_at_def members_at_Cons pair_at_Cons more_at_Cons value_at_space Let_def
      split: object_phase.split)

lemma array_at_space: "uc_whitespace c \<Longrightarrow> array_at js arr (c # w) r \<longleftrightarrow> array_at js arr w r"
  by (auto simp: array_at_def items_at_Cons more_items_at_Cons split: array_phase.split)

lemma frame_at_space:
  "step_atom frame c = None \<Longrightarrow> uc_whitespace c \<Longrightarrow> compact_json js \<Longrightarrow>
     frame_at js frame (c # w) r \<longleftrightarrow> frame_at js frame w r"
  by (cases frame) (simp_all add: step_atom_def value_at_space object_at_space array_at_space)

lemma step_atom_None_key: "step_atom frame c = None \<Longrightarrow> \<not> is_key_frame frame"
  by (cases frame) (simp_all add: step_atom_def)

definition step_correct :: "('n json \<Rightarrow> ustring) \<Rightarrow> 'n fsm \<Rightarrow> nat \<Rightarrow> step_result \<times> 'n fsm \<Rightarrow> bool" where
  "step_correct js f c r \<longleftrightarrow>
     (if fst r = StepOk then plain_fsm (snd r) \<and> (\<forall>w. live js f (c # w) \<longleftrightarrow> live js (snd r) w)
      else \<forall>w. \<not> live js f (c # w))"

text \<open>The atoms, with the frames under them.\<close>

lemma string_step_correct:
  assumes ok: "fsm_ok (Fsm (FString s # rest) False)" "list_all plain_frame rest"
  shows "step_correct js (Fsm (FString s # rest) False) c (step js (Fsm (FString s # rest) False) c)"
proof -
  obtain s' out where st: "step_string s c = (s', out)" by (cases "step_string s c")
  note rs = string_rest_step [of s c, unfolded st]
  note key = step_string_key [OF st]
  from ok have ctx: "context_ok (sf_is_key s) rest" by simp
  show ?thesis
  proof (cases out)
    case AtomOk
    with rs key st ok show ?thesis
      by (simp add: step_correct_def step_atom_def plain_fsm_def live.simps(2))
  next
    case AtomReject
    with rs st show ?thesis by (simp add: step_correct_def step_atom_def live.simps(2))
  next
    case AtomCompleteValue
    with rs key st ok(2) ctx show ?thesis
      by (simp add: step_correct_def step_atom_def live.simps(2) live_complete_value plain_complete_value)
  next
    case (AtomCompleteKey k)
    with key ctx obtain ob us where "rest = FObject ob # us" "of_phase ob = ObjInKey"
      by (cases "(True, rest)" rule: context_ok.cases) auto
    with AtomCompleteKey rs key st ok(2) show ?thesis
      by (simp add: step_correct_def step_atom_def live.simps(2) complete_key_def plain_fsm_def object_at_def)
  next
    case AtomReprocess
    with key show ?thesis by simp
  qed
qed

lemma keyword_step_correct:
  assumes ok: "fsm_ok (Fsm (FKeyword k # rest) False)" "list_all plain_frame rest"
  shows "step_correct js (Fsm (FKeyword k # rest) False) c (step js (Fsm (FKeyword k # rest) False) c)"
proof -
  let ?b = "keyword_bytes (kf_target k)"
  from ok have idx: "kf_index k < length ?b" and ctx: "context_ok False rest" by simp_all
  have d: "drop (kf_index k) ?b = ?b ! kf_index k # drop (Suc (kf_index k)) ?b"
    using idx by (rule drop_Cons_nth)
  show ?thesis
    using idx ok(2) live_complete_value [OF ctx] plain_complete_value [OF ok(2)]
    by (auto simp: step_correct_def step_atom_def step_keyword_def live_frame d plain_fsm_def Let_def)
qed

lemma const_step_correct:
  assumes ok: "fsm_ok (Fsm (FConst k # rest) False)" "list_all plain_frame rest"
  shows "step_correct js (Fsm (FConst k # rest) False) c (step js (Fsm (FConst k # rest) False) c)"
proof -
  let ?b = "cf_target k"
  from ok have idx: "cf_index k < length ?b" and ctx: "context_ok False rest" by simp_all
  have d: "drop (cf_index k) ?b = ?b ! cf_index k # drop (Suc (cf_index k)) ?b"
    using idx by (rule drop_Cons_nth)
  show ?thesis
    using idx ok(2) live_complete_value [OF ctx] plain_complete_value [OF ok(2)]
    by (auto simp: step_correct_def step_atom_def step_const_def live_frame d plain_fsm_def Let_def)
qed

lemma number_step_correct:
  assumes ok: "fsm_ok (Fsm (FNumber n # rest) False)" "list_all plain_frame rest"
    and again: "step_number n c = (n, AtomReprocess) \<Longrightarrow>
      step_correct js (complete_value rest False) c (step js (complete_value rest False) c)"
  shows "step_correct js (Fsm (FNumber n # rest) False) c (step js (Fsm (FNumber n # rest) False) c)"
proof -
  from ok have ctx: "context_ok False rest" by simp
  obtain n' out where st: "step_number n c = (n', out)" by (cases "step_number n c")
  have first: "cont js rest (c # w) \<Longrightarrow> number_terminator c" for w by (rule cont_first)
  from step_number_outcome [OF st] consider "out = AtomOk" | "out = AtomReject" | "out = AtomReprocess" by auto
  then show ?thesis
  proof cases
    case 1
    then have "number_rest n (c # w) r \<and> cont js rest r \<longleftrightarrow> number_rest n' w r \<and> cont js rest r" for w r
      using number_rest_ok [of n c n' w r] st first by blast
    with 1 st ok(2) show ?thesis
      by (simp add: step_correct_def step_atom_def live_frame plain_fsm_def)
  next
    case 2
    then have "\<not> (number_rest n (c # w) r \<and> cont js rest r)" for w r
      using number_rest_reject [of n c n' w r] st first by blast
    with 2 st show ?thesis by (simp add: step_correct_def step_atom_def live_frame)
  next
    case 3
    then have n': "n' = n" using st by (auto simp: step_number_next split: option.splits if_splits)
    have "live js (Fsm (FNumber n # rest) False) (c # w) \<longleftrightarrow> live js (complete_value rest False) (c # w)" for w
      using number_rest_reprocess [of n c n' w] 3 st by (simp add: live_frame live_complete_value [OF ctx])
    with again 3 st n' show ?thesis by (simp add: step_correct_def step_atom_def)
  qed
qed

lemma step_correct_step:
  assumes "compact_json js" "fsm_ok f" "plain_fsm f"
  shows "step_correct js f c (step js f c)"
  using assms
proof (induction "length (fsm_stack f)" arbitrary: f rule: less_induct)
  case less
  show ?case
  proof (cases f)
    case (Fsm stack d)
    show ?thesis
    proof (cases stack)
      case Nil
      with Fsm less.prems show ?thesis by (simp add: step_correct_def plain_fsm_def)
    next
      case (Cons frame rest)
      with Fsm less.prems have f: "f = Fsm (frame # rest) False" and ok: "fsm_ok (Fsm (frame # rest) False)"
        and pl: "plain_frame frame" "list_all plain_frame rest"
        by (auto simp: plain_fsm_def)
      show ?thesis
      proof (cases "step_atom frame c")
        case None
        with ok step_atom_None_key [OF None] have ctx: "context_ok False rest" and fr: "frame_ok frame"
          and nk: "\<not> is_key_frame frame" by auto
        show ?thesis
        proof (cases "uc_whitespace c")
          case True
          with None f pl less.prems(1) show ?thesis
            by (simp add: step_correct_def live_frame [OF nk] frame_at_space plain_fsm_def)
        next
          case ws: False
          have "dispatch_correct js (\<lambda>w. \<exists>r. frame_at js frame (c # w) r \<and> cont js rest r)
              (dispatch_frame js frame rest False c)"
            using None pl fr dispatch_correct_value [OF _ pl(2) ctx ws]
              dispatch_correct_object [OF _ _ pl(2) ctx ws] dispatch_correct_array [OF _ _ pl(2) ctx ws]
            by (cases frame) (simp_all add: dispatch_frame_def step_atom_def)
          with None ws f show ?thesis
            by (auto simp: step_correct_def dispatch_correct_def live_frame [OF nk]
                split: dispatch.splits step_result.splits)
        qed
      next
        case (Some r)
        show ?thesis
        proof (cases frame)
          case (FNumber n)
          from ok FNumber have ctx: "context_ok False rest" by simp
          have "length (fsm_stack (complete_value rest False)) = length rest"
            by (auto simp: complete_value_def split: list.split frame.split)
          then have "step_correct js (complete_value rest False) c (step js (complete_value rest False) c)"
            using less.hyps [of "complete_value rest False"] less.prems(1) f fsm_ok_complete_value [OF ctx]
              plain_complete_value [OF pl(2)] by simp
          with number_step_correct [where n = n and rest = rest and js = js and c = c] ok pl(2) FNumber f show ?thesis by simp
        next
          case (FString k)
          with string_step_correct [where s = k and rest = rest and js = js and c = c] ok pl(2) f
          show ?thesis by simp
        next
          case (FKeyword k)
          with keyword_step_correct [where k = k and rest = rest and js = js and c = c] ok pl(2) f
          show ?thesis by simp
        next
          case (FConst k)
          with const_step_correct [where k = k and rest = rest and js = js and c = c] ok pl(2) f
          show ?thesis by simp
        qed (use Some in \<open>simp_all add: step_atom_def\<close>)
      qed
    qed
  qed
qed

section \<open>Acceptance\<close>

lemma set_tl_subset: "set (tl xs) \<subseteq> set xs"
  by (cases xs) auto

lemma digits_of_number:
  assumes "parse_f64_text t = Some x"
  shows "list_ex uc_digit t"
proof -
  define body where "body = (if t \<noteq> [] \<and> hd t = ch_minus then tl t else t)"
  define r1 where "r1 = dropWhile uc_digit body"
  define fp where "fp = (if r1 \<noteq> [] \<and> hd r1 = ch_dot then takeWhile uc_digit (tl r1) else [])"
  have ne: "takeWhile uc_digit body @ fp \<noteq> []"
    using assms unfolding parse_f64_text_def Let_def body_def [symmetric] r1_def [symmetric] fp_def [symmetric]
    by (simp split: if_splits)
  have sub: "set body \<subseteq> set t" using set_tl_subset [of t] by (auto simp: body_def)
  have sub1: "set (tl r1) \<subseteq> set body"
    using set_tl_subset [of r1] set_dropWhileD [of _ uc_digit body] unfolding r1_def by blast
  from ne obtain c where "c \<in> set (takeWhile uc_digit body @ fp)" using hd_in_set by blast
  then have "uc_digit c \<and> c \<in> set body"
    using sub1 by (auto simp: fp_def dest: set_takeWhileD split: if_splits)
  with sub show ?thesis by (auto simp: list_ex_iff)
qed

lemma value_at_nonempty: "value_at js s w r \<Longrightarrow> w \<noteq> []"
proof (induction s w r rule: value_at_members_at_pair_at_more_at_items_at_more_items_at.inducts(1)
    [where ?P2.0 = "\<lambda>_ _ _ _. True" and ?P3.0 = "\<lambda>_ _ _ _ _. True" and ?P4.0 = "\<lambda>_ _ _ _. True"
      and ?P5.0 = "\<lambda>_ _ _ _. True" and ?P6.0 = "\<lambda>_ _ _ _. True"])
  case (value_boolean kw r)
  then show ?case by (cases kw) simp_all
qed simp_all

lemma value_at_Nil_False [simp]: "\<not> value_at js s [] r"
  using value_at_nonempty by blast

lemma complete_iff_live_Nil:
  assumes ok: "fsm_ok f" and pl: "plain_fsm f"
  shows "is_complete f \<longleftrightarrow> live js f []"
proof (cases "fsm_stack f")
  case Nil
  with fsm_ok_done [OF ok] show ?thesis by (cases f) (simp add: is_complete_def)
next
  case (Cons frame rest)
  with ok pl fsm_ok_done [OF ok] have f: "f = Fsm (frame # rest) False"
    and fr: "frame_ok frame" "plain_frame frame" and ctx: "context_ok (is_key_frame frame) rest"
    by (cases f; simp add: plain_fsm_def)+
  show ?thesis
  proof (cases frame)
    case (FNumber n)
    have "rest \<noteq> [] \<Longrightarrow> \<not> cont js rest []"
      using ctx FNumber by (cases "(False, rest)" rule: context_ok.cases) auto
    moreover have "number_final (nf_spec n) (nf_phase n) (nf_digits n) \<longleftrightarrow> is_number_finalizable n"
      by (auto simp: number_final_def is_number_finalizable_def validate_number_def
          split: option.splits dest!: digits_of_number)
    ultimately show ?thesis
      by (cases rest) (auto simp: f FNumber is_complete_def live_frame)
  qed (use fr in \<open>auto simp: f is_complete_def live.simps(2) object_at_def array_at_def Let_def
      split: object_phase.splits array_phase.splits\<close>)
qed

lemma plain_step: "compact_json js \<Longrightarrow> fsm_ok f \<Longrightarrow> plain_fsm f \<Longrightarrow> step js f c = (StepOk, f') \<Longrightarrow>
    fsm_ok f' \<and> plain_fsm f' \<and> (\<forall>w. live js f (c # w) \<longleftrightarrow> live js f' w)"
  using step_correct_step [of js f c] step_ok [of f js c] by (simp add: step_correct_def)

lemma step_str_live:
  assumes "compact_json js" "fsm_ok f" "plain_fsm f"
  shows "(\<exists>f'. step_str js f t = (StepOk, f') \<and> is_complete f') \<longleftrightarrow> live js f t"
  using assms
proof (induction t arbitrary: f)
  case Nil
  then show ?case by (simp add: complete_iff_live_Nil)
next
  case (Cons c t)
  obtain r f' where st: "step js f c = (r, f')" by (cases "step js f c")
  show ?case
  proof (cases r)
    case StepOk
    with st plain_step [OF Cons.prems] Cons.IH [of f'] Cons.prems(1) show ?thesis by simp
  next
    case StepReject
    with st step_correct_step [OF Cons.prems, of c] show ?thesis by (simp add: step_correct_def)
  qed
qed

lemma live_new: "live js (fsm_new s) w \<longleftrightarrow> in_language js s w"
  by (simp add: fsm_new_def live_frame in_language_def)

end
