(* ===== verification/SchemaMask.thy ===== *)
theory SchemaMask
  imports SchemaLanguage "HOL-Library.Sublist"
begin

text \<open>
  The token mask of constrained decoding
  (\<open>crates/larql-server/src/routes/openai/schema/mask.rs\<close>).

  \<open>build_mask\<close> returns a closure; its captured variables are the record \<open>mask_state\<close> and a call of it is
  \<open>mask_call\<close>. \<open>decode\<close> stands for \<open>larql_inference::decode_token\<close> with the tokenizer, which gives the
  text of a token id or \<open>None\<close>. A token id is a \<open>nat\<close>, a logit the bits of its \<open>f32\<close>.
\<close>

section \<open>The closure\<close>

record 'n mask_state =
  ms_surfaces :: "ustring option list option"
  ms_last_replay :: "(nat list \<times> 'n fsm) option"

definition new_mask :: "'n mask_state" where
  "new_mask = \<lparr>ms_surfaces = None, ms_last_replay = None\<rparr>"

definition neg_infinity :: f32 where
  "neg_infinity = 0xFF800000"

definition surface :: "ustring option list \<Rightarrow> nat \<Rightarrow> ustring option" where
  "surface table tok = (if tok < length table then table ! tok else None)"

text \<open>The loop over token ids; \<open>False\<close> when one of them is rejected (the loop breaks there).\<close>

fun replay :: "('n json \<Rightarrow> ustring) \<Rightarrow> ustring option list \<Rightarrow> 'n fsm \<Rightarrow> nat list \<Rightarrow> bool \<times> 'n fsm" where
  "replay js table fsm [] = (True, fsm)"
| "replay js table fsm (tok # toks) =
     (case surface table tok of
        None \<Rightarrow> replay js table fsm toks
      | Some s \<Rightarrow>
          (case step_str js fsm s of
             (StepReject, fsm') \<Rightarrow> (False, fsm')
           | (StepOk, fsm') \<Rightarrow> replay js table fsm' toks))"

definition fresh_fsm ::
  "('n json \<Rightarrow> ustring) \<Rightarrow> 'n fsm \<Rightarrow> ustring \<Rightarrow> ustring option list \<Rightarrow> nat list \<Rightarrow> 'n fsm" where
  "fresh_fsm js template prompt table generated =
     snd (replay js table (snd (step_str js template prompt)) generated)"

definition mask_score ::
  "('n json \<Rightarrow> ustring) \<Rightarrow> ustring option list \<Rightarrow> nat set \<Rightarrow> 'n fsm \<Rightarrow> nat \<Rightarrow> f32 \<Rightarrow> f32" where
  "mask_score js table eos fsm tok score =
     (if tok \<in> eos then (if is_complete fsm then score else neg_infinity)
      else (case surface table tok of
              None \<Rightarrow> neg_infinity
            | Some s \<Rightarrow> (if fst (step_str js fsm s) = StepReject then neg_infinity else score)))"

definition mask_call ::
  "('n json \<Rightarrow> ustring) \<Rightarrow> (nat \<Rightarrow> ustring option) \<Rightarrow> 'n fsm \<Rightarrow> ustring \<Rightarrow> nat set \<Rightarrow>
     'n mask_state \<Rightarrow> nat list \<Rightarrow> f32 list \<Rightarrow> f32 list \<times> 'n mask_state" where
  "mask_call js decode template prompt eos st generated logits =
     (let table = (case ms_surfaces st of
            Some t \<Rightarrow> t
          | None \<Rightarrow> List.map decode [0..<length logits]);
          fsm = (case ms_last_replay st of
            Some (prev, cached) \<Rightarrow>
              if prefix prev generated then
                (case replay js table cached (drop (length prev) generated) of
                   (True, f) \<Rightarrow> f
                 | (False, _) \<Rightarrow> fresh_fsm js template prompt table generated)
              else fresh_fsm js template prompt table generated
          | None \<Rightarrow> fresh_fsm js template prompt table generated)
      in (map2 (mask_score js table eos fsm) [0..<length logits] logits,
          \<lparr>ms_surfaces = Some table, ms_last_replay = Some (generated, fsm)\<rparr>))"

section \<open>Replaying tokens\<close>

lemma replay_append:
  "replay js table fsm (us @ vs) =
     (case replay js table fsm us of
        (True, fsm') \<Rightarrow> replay js table fsm' vs | (False, fsm') \<Rightarrow> (False, fsm'))"
  by (induction us arbitrary: fsm) (auto split: option.split prod.split step_result.split)

lemma step_str_append:
  "step_str js fsm (s @ t) =
     (case step_str js fsm s of
        (StepOk, fsm') \<Rightarrow> step_str js fsm' t | (StepReject, fsm') \<Rightarrow> (StepReject, fsm'))"
  by (induction s arbitrary: fsm) (auto split: prod.split step_result.split)

text \<open>The text of a token list.\<close>

definition token_text :: "ustring option list \<Rightarrow> nat list \<Rightarrow> ustring" where
  "token_text table toks = concat (map (\<lambda>tok. case surface table tok of Some s \<Rightarrow> s | None \<Rightarrow> []) toks)"

lemma replay_text:
  "fst (replay js table fsm toks) \<Longrightarrow>
     step_str js fsm (token_text table toks) = (StepOk, snd (replay js table fsm toks))"
  by (induction toks arbitrary: fsm)
    (auto simp: token_text_def step_str_append split: option.splits prod.splits step_result.splits)

section \<open>The cache\<close>

text \<open>\<open>legal\<close>: the machine accepts every generated token.\<close>

definition legal :: "('n json \<Rightarrow> ustring) \<Rightarrow> 'n fsm \<Rightarrow> ustring \<Rightarrow> ustring option list \<Rightarrow> nat list \<Rightarrow> bool" where
  "legal js template prompt table toks \<longleftrightarrow> fst (replay js table (snd (step_str js template prompt)) toks)"

definition table_of :: "(nat \<Rightarrow> ustring option) \<Rightarrow> 'n mask_state \<Rightarrow> f32 list \<Rightarrow> ustring option list" where
  "table_of decode st logits =
     (case ms_surfaces st of Some t \<Rightarrow> t | None \<Rightarrow> map decode [0..<length logits])"

text \<open>The state of the closure after the calls \<open>calls\<close>, each with its history and its logits.\<close>

definition mask_after ::
  "('n json \<Rightarrow> ustring) \<Rightarrow> (nat \<Rightarrow> ustring option) \<Rightarrow> 'n fsm \<Rightarrow> ustring \<Rightarrow> nat set \<Rightarrow>
     (nat list \<times> f32 list) list \<Rightarrow> 'n mask_state" where
  "mask_after js decode template prompt eos calls =
     fold (\<lambda>(generated, logits) st. snd (mask_call js decode template prompt eos st generated logits)) calls new_mask"

text \<open>
  The machine a call with the history \<open>generated\<close> scores with, as a function of the histories of the calls before it,
  the latest first: the one that a replay from the start gives, unless the history extends the one before and what it
  adds is accepted by the machine that one left.
\<close>

fun replayed ::
  "('n json \<Rightarrow> ustring) \<Rightarrow> 'n fsm \<Rightarrow> ustring \<Rightarrow> ustring option list \<Rightarrow> nat list list \<Rightarrow> nat list \<Rightarrow> 'n fsm" where
  "replayed js template prompt table [] generated = fresh_fsm js template prompt table generated"
| "replayed js template prompt table (prev # older) generated =
     (let onward = replay js table (replayed js template prompt table older prev) (drop (length prev) generated) in
      if prefix prev generated \<and> fst onward then snd onward else fresh_fsm js template prompt table generated)"

lemma legal_prefix: "legal js template prompt table (prev @ new) \<Longrightarrow> legal js template prompt table prev"
  unfolding legal_def replay_append by (auto split: prod.splits bool.splits)

lemma replay_onward:
  "legal js template prompt table prev \<Longrightarrow>
     snd (replay js table (fresh_fsm js template prompt table prev) new) = fresh_fsm js template prompt table (prev @ new)"
  unfolding legal_def fresh_fsm_def replay_append by (auto split: prod.splits bool.splits)

lemma replayed_legal:
  "legal js template prompt table generated \<Longrightarrow>
     replayed js template prompt table histories generated = fresh_fsm js template prompt table generated"
proof (induction histories arbitrary: generated)
  case (Cons prev older)
  show ?case
  proof (cases "prefix prev generated")
    case True
    then obtain new where new: "generated = prev @ new" by (auto simp: prefix_def)
    have "legal js template prompt table prev" using Cons.prems unfolding new by (rule legal_prefix)
    then show ?thesis using Cons.IH [of prev] replay_onward [of js template prompt table prev new] by (simp add: new Let_def)
  qed simp
qed simp

lemma replayed_fresh:
  assumes "legal js template prompt table prev \<or> \<not> prefix prev generated"
  shows "replayed js template prompt table (prev # older) generated = fresh_fsm js template prompt table generated"
  using assms replayed_legal [of js template prompt table prev older]
  by (auto simp: Let_def prefix_def replay_onward)

lemma mask_call_replayed:
  assumes "case histories of
      [] \<Rightarrow> st = new_mask
    | prev # older \<Rightarrow> \<exists>t. ms_surfaces st = Some t \<and> ms_last_replay st = Some (prev, replayed js template prompt t older prev)"
    and "table = table_of decode st logits"
  shows "mask_call js decode template prompt eos st generated logits =
    (map2 (mask_score js table eos (replayed js template prompt table histories generated)) [0..<length logits] logits,
     \<lparr>ms_surfaces = Some table, ms_last_replay = Some (generated, replayed js template prompt table histories generated)\<rparr>)"
  using assms
  by (cases histories) (auto simp: mask_call_def new_mask_def table_of_def Let_def split: prod.split bool.split)

lemma mask_after_state:
  "case rev (map fst calls) of
      [] \<Rightarrow> mask_after js decode template prompt eos calls = new_mask
    | prev # older \<Rightarrow> \<exists>t. ms_surfaces (mask_after js decode template prompt eos calls) = Some t \<and>
        ms_last_replay (mask_after js decode template prompt eos calls) = Some (prev, replayed js template prompt t older prev)"
proof (induction calls rule: rev_induct)
  case (snoc c calls)
  obtain generated logits where c: "c = (generated, logits)" by (cases c)
  have "mask_after js decode template prompt eos (calls @ [c]) =
      snd (mask_call js decode template prompt eos (mask_after js decode template prompt eos calls) generated logits)"
    by (simp add: mask_after_def c)
  then show ?case by (simp add: mask_call_replayed [OF snoc refl] c)
qed (simp add: mask_after_def)

section \<open>Generating\<close>

text \<open>
  \<open>emitted\<close>: every token of \<open>toks\<close> is an ordinary token that the mask left in after the tokens before it.
\<close>

definition allows ::
  "('n json \<Rightarrow> ustring) \<Rightarrow> ustring option list \<Rightarrow> 'n fsm \<Rightarrow> ustring \<Rightarrow> nat set \<Rightarrow> nat list \<Rightarrow> nat \<Rightarrow> bool" where
  "allows js table template prompt eos toks tok \<longleftrightarrow>
     mask_score js table eos (fresh_fsm js template prompt table toks) tok 0 \<noteq> neg_infinity"

definition emitted ::
  "('n json \<Rightarrow> ustring) \<Rightarrow> ustring option list \<Rightarrow> 'n fsm \<Rightarrow> ustring \<Rightarrow> nat set \<Rightarrow> nat list \<Rightarrow> bool" where
  "emitted js table template prompt eos toks \<longleftrightarrow>
     (\<forall>k < length toks. toks ! k \<notin> eos \<and> allows js table template prompt eos (take k toks) (toks ! k))"

lemma emitted_legal: "emitted js table template prompt eos toks \<Longrightarrow> legal js template prompt table toks"
proof (induction toks rule: rev_induct)
  case Nil
  then show ?case by (simp add: legal_def)
next
  case (snoc tok toks)
  have "emitted js table template prompt eos toks"
    using snoc.prems by (auto simp: emitted_def nth_append split: if_splits dest!: spec [of _ k for k])
  with snoc.IH have l: "legal js template prompt table toks" .
  from snoc.prems have a: "tok \<notin> eos" "allows js table template prompt eos toks tok"
    by (auto simp: emitted_def dest: spec [of _ "length toks"])
  then obtain s where s: "surface table tok = Some s"
    "fst (step_str js (fresh_fsm js template prompt table toks) s) \<noteq> StepReject"
    by (auto simp: allows_def mask_score_def split: option.splits if_splits)
  with l show ?case
    by (cases "step_str js (fresh_fsm js template prompt table toks) s")
      (auto simp: legal_def replay_append fresh_fsm_def split: prod.splits bool.splits step_result.splits)
qed

lemma emitted_language:
  assumes "compact_json js" "plain_schema s" "fst (step_str js (fsm_new s) prompt) = StepOk"
    and "emitted js table (fsm_new s) prompt eos toks" "e \<in> eos" "allows js table (fsm_new s) prompt eos toks e"
  shows "in_language js s (prompt @ token_text table toks)"
proof -
  let ?f = "snd (step_str js (fsm_new s) prompt)" and ?g = "fresh_fsm js (fsm_new s) prompt table toks"
  from emitted_legal [OF assms(4)] have "fst (replay js table ?f toks)" by (simp add: legal_def)
  from replay_text [OF this] have "step_str js ?f (token_text table toks) = (StepOk, ?g)"
    by (simp add: fresh_fsm_def)
  with assms(3) have st: "step_str js (fsm_new s) (prompt @ token_text table toks) = (StepOk, ?g)"
    by (cases "step_str js (fsm_new s) prompt") (simp add: step_str_append)
  have "is_complete ?g"
    using assms(5,6) by (auto simp: allows_def mask_score_def split: if_splits)
  moreover have "plain_fsm (fsm_new s)" using assms(2) by (simp add: plain_fsm_def fsm_new_def)
  ultimately show ?thesis
    using st step_str_live [OF assms(1) fsm_ok_new] live_new by blast
qed

end
