(* ===== verification/SchemaParser.thy ===== *)
theory SchemaParser
  imports SchemaMask Prelude
begin

text \<open>
  JSON Schema to the typed grammar
  (\<open>crates/larql-server/src/routes/openai/schema/parser.rs\<close>). A \<open>serde_json::Map\<close> is the association
  list of a \<open>JObject\<close>. \<open>u64\<close> and \<open>f64\<close> are what \<open>Value::as_u64\<close> and \<open>Value::as_f64\<close> give for a number.
\<close>

section \<open>Errors and lookups\<close>

text \<open>One constructor per message of an \<open>Err\<close>.\<close>

datatype 'n schema_error =
    FalseSchema
  | ExpectedSchemaObject "'n json"
  | EnumNotArray
  | EnumEmpty
  | OneOfNotArray
  | OneOfEmpty
  | RefUnsupported
  | CombinatorUnsupported
  | PatternUnsupported
  | TypeEntryNotString
  | TypeEmpty
  | TypeInvalid "'n json"
  | UnknownType ustring
  | PropertiesNotObject
  | RequiredNotArray
  | RequiredEntryNotString
  | AdditionalInvalid "'n json"

text \<open>\<open>obj.get(key).and_then(|v| v.as_u64())\<close> and the same with \<open>as_f64\<close>.\<close>

definition get_number :: "('n \<Rightarrow> 'a option) \<Rightarrow> (ustring \<times> 'n json) list \<Rightarrow> string \<Rightarrow> 'a option" where
  "get_number conv obj key = (case jget obj key of Some v \<Rightarrow> as_number conv v | None \<Rightarrow> None)"

section \<open>Parsing\<close>

definition parse_string :: "('n \<Rightarrow> nat option) \<Rightarrow> (ustring \<times> 'n json) list \<Rightarrow> string_schema" where
  "parse_string u64 obj = \<lparr>ss_enum = None, ss_const = None,
     ss_min_len = get_number u64 obj ''minLength'', ss_max_len = get_number u64 obj ''maxLength''\<rparr>"

definition parse_number :: "('n \<Rightarrow> f64 option) \<Rightarrow> (ustring \<times> 'n json) list \<Rightarrow> bool \<Rightarrow> number_schema" where
  "parse_number f64 obj integer = \<lparr>ns_integer = integer,
     ns_minimum = get_number f64 obj ''minimum'', ns_maximum = get_number f64 obj ''maximum''\<rparr>"

definition parse_required :: "(ustring \<times> 'n json) list \<Rightarrow> 'n schema_error + ustring list" where
  "parse_required obj =
     (case jget obj ''required'' of
        None \<Rightarrow> Inr []
      | Some (JArray arr) \<Rightarrow>
          result_map (\<lambda>entry. case as_str entry of Some s \<Rightarrow> Inr s | None \<Rightarrow> Inl RequiredEntryNotString) arr
      | Some _ \<Rightarrow> Inl RequiredNotArray)"

text \<open>The keywords the parser refuses, in the order it looks for them.\<close>

definition unsupported :: "(ustring \<times> 'n json) list \<Rightarrow> 'n schema_error option" where
  "unsupported obj =
     (let has = (\<lambda>key. jget obj key \<noteq> None) in
      if has ''$ref'' \<or> has ''$defs'' \<or> has ''definitions'' then Some RefUnsupported
      else if has ''not'' \<or> has ''allOf'' \<or> has ''if'' then Some CombinatorUnsupported
      else if has ''pattern'' \<or> has ''format'' then Some PatternUnsupported
      else None)"

lemma size_map_of_json: "map_of obj k = Some v \<Longrightarrow> size v < size_list (size_prod (\<lambda>_. 0) size) obj"
  by (induction obj) (auto split: if_splits)

lemma size_entry_json:
  "(k, v) \<in> set obj \<Longrightarrow> size v < size_list (size_prod (\<lambda>_. 0) size) obj"
  by (induction obj) auto

lemma size_item_json: "(v :: 'n json) \<in> set arr \<Longrightarrow> size v < size_list size arr"
  by (induction arr) auto

lemmas size_of_member = size_map_of_json size_map_of_json [OF sym] size_entry_json size_item_json

text \<open>Every recursive call is on a value inside the one at hand.\<close>

function (sequential)
  parse_inner :: "('n \<Rightarrow> nat option) \<Rightarrow> ('n \<Rightarrow> f64 option) \<Rightarrow> bool \<Rightarrow> 'n json \<Rightarrow> 'n schema_error + 'n schema" and
  parse_typed :: "('n \<Rightarrow> nat option) \<Rightarrow> ('n \<Rightarrow> f64 option) \<Rightarrow> bool \<Rightarrow> ustring \<Rightarrow> (ustring \<times> 'n json) list \<Rightarrow>
    'n schema_error + 'n schema" and
  parse_object :: "('n \<Rightarrow> nat option) \<Rightarrow> ('n \<Rightarrow> f64 option) \<Rightarrow> bool \<Rightarrow> (ustring \<times> 'n json) list \<Rightarrow>
    'n schema_error + 'n object_schema" and
  parse_array :: "('n \<Rightarrow> nat option) \<Rightarrow> ('n \<Rightarrow> f64 option) \<Rightarrow> bool \<Rightarrow> (ustring \<times> 'n json) list \<Rightarrow>
    'n schema_error + 'n array_schema"
where
  "parse_inner u64 f64 strict (JBool b) = (if b then Inr SAny else Inl FalseSchema)"
| "parse_inner u64 f64 strict (JObject obj) =
     (case jget obj ''const'' of
        Some c \<Rightarrow> Inr (SConst c)
      | None \<Rightarrow>
     (case jget obj ''enum'' of
        Some en \<Rightarrow>
          (case en of
             JArray arr \<Rightarrow> if arr = [] then Inl EnumEmpty else Inr (SOneOf (List.map SConst arr))
           | _ \<Rightarrow> Inl EnumNotArray)
      | None \<Rightarrow>
     (case (case jget obj ''oneOf'' of Some v \<Rightarrow> Some v | None \<Rightarrow> jget obj ''anyOf'') of
        Some v \<Rightarrow>
          (case v of
             JArray arr \<Rightarrow>
               res_bind (result_map (\<lambda>b. parse_inner u64 f64 strict b) arr) (\<lambda>branches.
               if branches = [] then Inl OneOfEmpty else Inr (SOneOf branches))
           | _ \<Rightarrow> Inl OneOfNotArray)
      | None \<Rightarrow>
     (case unsupported obj of
        Some e \<Rightarrow> Inl e
      | None \<Rightarrow>
     (case jget obj ''type'' of
        None \<Rightarrow> Inr SAny
      | Some (JString t) \<Rightarrow> parse_typed u64 f64 strict t obj
      | Some (JArray arr) \<Rightarrow>
          res_bind (result_map (\<lambda>t. case as_str t of
              Some t \<Rightarrow> parse_typed u64 f64 strict t obj | None \<Rightarrow> Inl TypeEntryNotString) arr) (\<lambda>branches.
          case branches of [] \<Rightarrow> Inl TypeEmpty | [b] \<Rightarrow> Inr b | _ \<Rightarrow> Inr (SOneOf branches))
      | Some other \<Rightarrow> Inl (TypeInvalid other))))))"
| "parse_inner u64 f64 strict v = Inl (ExpectedSchemaObject v)"
| "parse_typed u64 f64 strict kind obj =
     (if kind = chars ''object'' then res_bind (parse_object u64 f64 strict obj) (\<lambda>s. Inr (SObject s))
      else if kind = chars ''array'' then res_bind (parse_array u64 f64 strict obj) (\<lambda>s. Inr (SArray s))
      else if kind = chars ''string'' then Inr (SString (parse_string u64 obj))
      else if kind = chars ''number'' then Inr (SNumber (parse_number f64 obj False))
      else if kind = chars ''integer'' then Inr (SNumber (parse_number f64 obj True))
      else if kind = chars ''boolean'' then Inr SBoolean
      else if kind = chars ''null'' then Inr SNull
      else Inl (UnknownType kind))"
| "parse_object u64 f64 strict obj =
     res_bind
       (case jget obj ''properties'' of
          None \<Rightarrow> Inr []
        | Some (JObject m) \<Rightarrow>
            result_map (\<lambda>p. res_bind (parse_inner u64 f64 strict (snd p)) (\<lambda>s. Inr (fst p, s))) m
        | Some _ \<Rightarrow> Inl PropertiesNotObject) (\<lambda>properties.
     res_bind (parse_required obj) (\<lambda>required.
     res_bind
       (case jget obj ''additionalProperties'' of
          None \<Rightarrow> Inr (if strict then None else Some SAny)
        | Some (JBool b) \<Rightarrow> Inr (if b then Some SAny else None)
        | Some (JObject m) \<Rightarrow> res_bind (parse_inner u64 f64 strict (JObject m)) (\<lambda>s. Inr (Some s))
        | Some other \<Rightarrow> Inl (AdditionalInvalid other)) (\<lambda>additional.
     Inr (ObjectSchema properties required additional))))"
| "parse_array u64 f64 strict obj =
     res_bind (case jget obj ''items'' of Some v \<Rightarrow> parse_inner u64 f64 strict v | None \<Rightarrow> Inr SAny) (\<lambda>items.
     Inr (ArraySchema items (get_number u64 obj ''minItems'') (get_number u64 obj ''maxItems'')))"
  by pat_completeness auto

termination
  by (relation "measure (\<lambda>call. case call of
    Inl (Inl (u64, f64, strict, v)) \<Rightarrow> 4 * size v
  | Inl (Inr (u64, f64, strict, kind, obj)) \<Rightarrow> 4 * size (JObject obj) - 1
  | Inr (Inl (u64, f64, strict, obj)) \<Rightarrow> 4 * size (JObject obj) - 2
  | Inr (Inr (u64, f64, strict, obj)) \<Rightarrow> 4 * size (JObject obj) - 2)")
    (auto dest!: size_of_member split: option.splits)

declare parse_inner.simps(2) [simp del] parse_typed.simps [simp del] parse_object.simps [simp del]
  parse_array.simps [simp del]

lemmas parse_unfold = parse_inner.simps(2) parse_object.simps parse_array.simps

lemma parse_typed_cases:
  assumes "parse_typed u64 f64 strict kind obj = Inr s"
  obtains (object) os where "parse_object u64 f64 strict obj = Inr os" "s = SObject os"
    | (array) as where "parse_array u64 f64 strict obj = Inr as" "s = SArray as"
    | (string) "s = SString (parse_string u64 obj)"
    | (number) integer where "s = SNumber (parse_number f64 obj integer)"
    | (boolean) "s = SBoolean"
    | (null) "s = SNull"
  using assms by (auto simp: parse_typed.simps res_bind_Inr split: if_splits)

lemma one_type_Inr:
  "(case bs of [] \<Rightarrow> Inl e | [b] \<Rightarrow> Inr b | _ \<Rightarrow> Inr (SOneOf bs)) = Inr s \<longleftrightarrow>
     bs = [s] \<or> 2 \<le> length bs \<and> s = SOneOf bs"
  by (auto simp: numeral_2_eq_2 Suc_le_length_iff split: list.splits)

lemma parse_inner_cases:
  assumes "parse_inner u64 f64 strict (JObject obj) = Inr s"
  obtains (const) c where "jget obj ''const'' = Some c" "s = SConst c"
    | (enum) arr where "jget obj ''const'' = None" "jget obj ''enum'' = Some (JArray arr)" "s = SOneOf (List.map SConst arr)"
    | (one_of) arr ss where "jget obj ''const'' = None"
        "(case jget obj ''oneOf'' of Some v \<Rightarrow> Some v | None \<Rightarrow> jget obj ''anyOf'') = Some (JArray arr)"
        "result_map (parse_inner u64 f64 strict) arr = Inr ss" "s = SOneOf ss"
    | (untyped) "unsupported obj = None" "s = SAny"
    | (typed) t where "unsupported obj = None" "parse_typed u64 f64 strict t obj = Inr s"
    | (types) arr ss where "jget obj ''const'' = None" "unsupported obj = None" "jget obj ''type'' = Some (JArray arr)"
        "result_map (\<lambda>t. case as_str t of Some t \<Rightarrow> parse_typed u64 f64 strict t obj
          | None \<Rightarrow> Inl TypeEntryNotString) arr = Inr ss" "ss = [s] \<or> 2 \<le> length ss \<and> s = SOneOf ss"
proof (cases "jget obj ''const''")
  case c: None
  show ?thesis
  proof (cases "jget obj ''enum''")
    case e: None
    show ?thesis
    proof (cases "case jget obj ''oneOf'' of Some v \<Rightarrow> Some v | None \<Rightarrow> jget obj ''anyOf''")
      case None
      from c e None assms have u: "unsupported obj = None"
        by (simp add: parse_inner.simps(2) split: option.splits)
      show ?thesis
      proof (cases "jget obj ''type''")
        case t: None
        with c e None u assms show ?thesis by (intro untyped) (simp_all add: parse_inner.simps(2))
      next
        case (Some v)
        show ?thesis
        proof (cases v)
          case (JString t)
          with c e None u Some assms show ?thesis by (intro typed) (simp_all add: parse_inner.simps(2))
        next
          case (JArray arr)
          with c e None u Some assms obtain ss where "result_map (\<lambda>t. case as_str t of
              Some t \<Rightarrow> parse_typed u64 f64 strict t obj | None \<Rightarrow> Inl TypeEntryNotString) arr = Inr ss"
            "ss = [s] \<or> 2 \<le> length ss \<and> s = SOneOf ss"
            by (simp add: parse_inner.simps(2) res_bind_Inr one_type_Inr) blast
          with types [OF c u] Some JArray show ?thesis by blast
        qed (use c e None u Some assms in \<open>simp_all add: parse_inner.simps(2)\<close>)
      qed
    next
      case (Some v)
      with c e assms one_of show ?thesis
        by (cases v) (auto simp: parse_inner.simps(2) res_bind_Inr split: if_splits)
    qed
  next
    case (Some v)
    with c assms enum show ?thesis
      by (cases v) (auto simp: parse_inner.simps(2) split: if_splits)
  qed
next
  case (Some v)
  with assms const show ?thesis by (simp add: parse_inner.simps(2))
qed

definition parse_schema_with ::
  "('n \<Rightarrow> nat option) \<Rightarrow> ('n \<Rightarrow> f64 option) \<Rightarrow> bool \<Rightarrow> 'n json \<Rightarrow> 'n schema_error + 'n schema" where
  "parse_schema_with u64 f64 strict value = parse_inner u64 f64 strict value"

definition parse_schema :: "('n \<Rightarrow> nat option) \<Rightarrow> ('n \<Rightarrow> f64 option) \<Rightarrow> 'n json \<Rightarrow> 'n schema_error + 'n schema" where
  "parse_schema u64 f64 value = parse_schema_with u64 f64 False value"

section \<open>The subschemas of a document\<close>

text \<open>
  \<open>doc_all Q v\<close>: \<open>Q\<close> holds of every object of the document that the parser can reach as a schema.
\<close>

definition doc_branches :: "(ustring \<times> 'n json) list \<Rightarrow> 'n json list" where
  "doc_branches obj =
     (case (case jget obj ''oneOf'' of Some v \<Rightarrow> Some v | None \<Rightarrow> jget obj ''anyOf'') of
        Some (JArray arr) \<Rightarrow> arr | _ \<Rightarrow> [])"

definition doc_properties :: "(ustring \<times> 'n json) list \<Rightarrow> (ustring \<times> 'n json) list" where
  "doc_properties obj = (case jget obj ''properties'' of Some (JObject m) \<Rightarrow> m | _ \<Rightarrow> [])"

definition doc_additional :: "(ustring \<times> 'n json) list \<Rightarrow> 'n json list" where
  "doc_additional obj = (case jget obj ''additionalProperties'' of Some (JObject m) \<Rightarrow> [JObject m] | _ \<Rightarrow> [])"

definition doc_items :: "(ustring \<times> 'n json) list \<Rightarrow> 'n json list" where
  "doc_items obj = (case jget obj ''items'' of Some v \<Rightarrow> [v] | _ \<Rightarrow> [])"

definition doc_children :: "(ustring \<times> 'n json) list \<Rightarrow> 'n json list" where
  "doc_children obj =
     doc_branches obj @ List.map snd (doc_properties obj) @ doc_additional obj @ doc_items obj"

lemma size_doc_children [termination_simp]:
  "v \<in> set (doc_children obj) \<Longrightarrow> size v < Suc (size_list (size_prod (\<lambda>_. 0) size) obj)"
  by (auto simp: doc_children_def doc_branches_def doc_properties_def doc_additional_def doc_items_def
      split: option.splits json.splits dest!: size_of_member)

function doc_all :: "((ustring \<times> 'n json) list \<Rightarrow> bool) \<Rightarrow> 'n json \<Rightarrow> bool" where
  "doc_all Q (JObject obj) \<longleftrightarrow> Q obj \<and> (\<forall>v \<in> set (doc_children obj). doc_all Q v)"
| "doc_all Q JNull \<longleftrightarrow> True"
| "doc_all Q (JBool b) \<longleftrightarrow> True"
| "doc_all Q (JNumber n) \<longleftrightarrow> True"
| "doc_all Q (JString s) \<longleftrightarrow> True"
| "doc_all Q (JArray vs) \<longleftrightarrow> True"
  by pat_completeness auto

termination
  by (relation "measure (\<lambda>(Q, v). size v)") (auto dest!: size_doc_children)

section \<open>What a parsed schema is\<close>

text \<open>Single-typed documents: no alternatives in them, so their schemas have no \<open>OneOf\<close>.\<close>

definition single_typed :: "(ustring \<times> 'n json) list \<Rightarrow> bool" where
  "single_typed obj \<longleftrightarrow> jget obj ''const'' \<noteq> None \<or>
     (jget obj ''enum'' = None \<and> jget obj ''oneOf'' = None \<and> jget obj ''anyOf'' = None \<and>
      (case jget obj ''type'' of Some (JArray arr) \<Rightarrow> length arr \<le> 1 | _ \<Rightarrow> True))"

text \<open>Documents that open no object to further keys.\<close>

definition closed_entry :: "(ustring \<times> 'n json) list \<Rightarrow> bool" where
  "closed_entry obj \<longleftrightarrow>
     (case jget obj ''additionalProperties'' of None \<Rightarrow> True | Some (JBool b) \<Rightarrow> \<not> b | Some _ \<Rightarrow> False)"

text \<open>\<open>schema_all N s\<close>: every node of the schema satisfies \<open>N\<close>.\<close>

fun schema_all :: "('n schema \<Rightarrow> bool) \<Rightarrow> 'n schema \<Rightarrow> bool" where
  "schema_all N (SOneOf ss) \<longleftrightarrow> N (SOneOf ss) \<and> (\<forall>s \<in> set ss. schema_all N s)"
| "schema_all N (SObject (ObjectSchema props req additional)) \<longleftrightarrow>
     N (SObject (ObjectSchema props req additional)) \<and> (\<forall>p \<in> set props. schema_all N (snd p)) \<and>
     (case additional of Some s \<Rightarrow> schema_all N s | None \<Rightarrow> True)"
| "schema_all N (SArray (ArraySchema items mn mx)) \<longleftrightarrow> N (SArray (ArraySchema items mn mx)) \<and> schema_all N items"
| "schema_all N s \<longleftrightarrow> N s"

definition not_one_of :: "'n schema \<Rightarrow> bool" where
  "not_one_of s \<longleftrightarrow> (\<forall>ss. s \<noteq> SOneOf ss)"

definition closed_node :: "'n schema \<Rightarrow> bool" where
  "closed_node s \<longleftrightarrow> (case s of SObject spec \<Rightarrow> os_additional spec = None | _ \<Rightarrow> True)"

lemma plain_schema_all: "plain_schema s \<longleftrightarrow> schema_all not_one_of s"
  by (induction s rule: plain_schema.induct) (auto simp: not_one_of_def split: option.split)

text \<open>The subdocuments an operation of the parser descends into are children of its object.\<close>

lemma property_child: "jget obj ''properties'' = Some (JObject m) \<Longrightarrow> p \<in> set m \<Longrightarrow> snd p \<in> set (doc_children obj)"
  by (auto simp: doc_children_def doc_properties_def)

lemma additional_child:
  "jget obj ''additionalProperties'' = Some (JObject m) \<Longrightarrow> JObject m \<in> set (doc_children obj)"
  by (simp add: doc_children_def doc_additional_def)

lemma items_child: "jget obj ''items'' = Some v \<Longrightarrow> v \<in> set (doc_children obj)"
  by (simp add: doc_children_def doc_items_def)

lemma branch_child:
  "(case jget obj ''oneOf'' of Some v \<Rightarrow> Some v | None \<Rightarrow> jget obj ''anyOf'') = Some (JArray arr) \<Longrightarrow>
     v \<in> set arr \<Longrightarrow> v \<in> set (doc_children obj)"
  by (simp add: doc_children_def doc_branches_def)

lemmas children = property_child additional_child items_child branch_child

text \<open>What \<open>parse_object\<close> returns, read off its result.\<close>

lemma parse_object_Inr:
  assumes "parse_object u64 f64 strict obj = Inr (ObjectSchema props req additional)"
  shows "list_all2 (\<lambda>p q. fst q = fst p \<and> parse_inner u64 f64 strict (snd p) = Inr (snd q)) (doc_properties obj) props"
    and "parse_required obj = Inr req"
    and "case additional of
           None \<Rightarrow> jget obj ''additionalProperties'' = Some (JBool False) \<or>
             jget obj ''additionalProperties'' = None \<and> strict
         | Some s \<Rightarrow> s = SAny \<or> (\<exists>v \<in> set (doc_additional obj). parse_inner u64 f64 strict v = Inr s)"
proof -
  have "result_map (\<lambda>p. res_bind (parse_inner u64 f64 strict (snd p)) (\<lambda>s. Inr (fst p, s))) (doc_properties obj) = Inr props"
    using assms by (auto simp: parse_object.simps res_bind_Inr doc_properties_def split: option.splits json.splits)
  then show "list_all2 (\<lambda>p q. fst q = fst p \<and> parse_inner u64 f64 strict (snd p) = Inr (snd q)) (doc_properties obj) props"
    unfolding result_map_Inr by (rule list_all2_mono) (auto simp: res_bind_Inr)
  show "parse_required obj = Inr req"
    using assms by (auto simp: parse_object.simps res_bind_Inr)
  show "case additional of
           None \<Rightarrow> jget obj ''additionalProperties'' = Some (JBool False) \<or>
             jget obj ''additionalProperties'' = None \<and> strict
         | Some s \<Rightarrow> s = SAny \<or> (\<exists>v \<in> set (doc_additional obj). parse_inner u64 f64 strict v = Inr s)"
    using assms by (auto simp: parse_object.simps res_bind_Inr doc_additional_def split: option.splits json.splits if_splits)
qed

lemma list_all2_member: "list_all2 P xs ys \<Longrightarrow> y \<in> set ys \<Longrightarrow> \<exists>x \<in> set xs. P x y"
  by (induction rule: list_all2_induct) auto

text \<open>
  \<open>node_law\<close>: \<open>N\<close> holds of the node the parser makes of an object with \<open>Q\<close>. Then it holds of all
  nodes of the schema of a document whose objects have \<open>Q\<close>.
\<close>

locale node_law =
  fixes u64 :: "'n \<Rightarrow> nat option" and f64 :: "'n \<Rightarrow> f64 option" and strict :: bool
    and Q :: "(ustring \<times> 'n json) list \<Rightarrow> bool" and N :: "'n schema \<Rightarrow> bool"
  assumes leaf: "N SAny" "N (SConst c)" "N (SString ss)" "N (SNumber ns)" "N SBoolean" "N SNull" "N (SArray as)"
    and one_of: "Q obj \<Longrightarrow> parse_inner u64 f64 strict (JObject obj) = Inr (SOneOf branches) \<Longrightarrow> N (SOneOf branches)"
    and object: "Q obj \<Longrightarrow> parse_object u64 f64 strict obj = Inr os \<Longrightarrow> N (SObject os)"
begin

lemma parse_object_nodes:
  assumes IH: "\<And>v s. v \<in> set (doc_children obj) \<Longrightarrow> parse_inner u64 f64 strict v = Inr s \<Longrightarrow> schema_all N s"
    and Q: "Q obj" and r: "parse_object u64 f64 strict obj = Inr os"
  shows "schema_all N (SObject os)"
proof -
  obtain props req additional where os: "os = ObjectSchema props req additional" by (cases os)
  note spec = parse_object_Inr [OF r [unfolded os]]
  have "\<forall>p \<in> set props. schema_all N (snd p)"
  proof
    fix q
    assume "q \<in> set props"
    from list_all2_member [OF spec(1) this]
    obtain p where "p \<in> set (doc_properties obj)" "parse_inner u64 f64 strict (snd p) = Inr (snd q)" by blast
    with IH [of "snd p" "snd q"] show "schema_all N (snd q)" by (auto simp: doc_children_def)
  qed
  moreover have "case additional of Some s \<Rightarrow> schema_all N s | None \<Rightarrow> True"
    using spec(3) IH by (auto simp: leaf doc_children_def split: option.splits)
  ultimately show ?thesis using object [OF Q r] os by simp
qed

lemma parse_array_nodes:
  assumes IH: "\<And>v s. v \<in> set (doc_children obj) \<Longrightarrow> parse_inner u64 f64 strict v = Inr s \<Longrightarrow> schema_all N s"
    and r: "parse_array u64 f64 strict obj = Inr as"
  shows "schema_all N (SArray as)"
  using r IH items_child [of obj] by (auto simp: parse_array.simps res_bind_Inr leaf split: option.splits)

lemma parse_typed_nodes:
  assumes IH: "\<And>v s. v \<in> set (doc_children obj) \<Longrightarrow> parse_inner u64 f64 strict v = Inr s \<Longrightarrow> schema_all N s"
    and Q: "Q obj" and r: "parse_typed u64 f64 strict kind obj = Inr s"
  shows "schema_all N s"
  using r
proof (cases rule: parse_typed_cases)
  case (object os)
  with parse_object_nodes [OF IH Q] show ?thesis by simp
next
  case (array as)
  with parse_array_nodes [OF IH] show ?thesis by simp
qed (simp_all add: leaf)

lemma parse_branches_nodes:
  assumes "result_map f vs = Inr ss" and "\<And>v s. v \<in> set vs \<Longrightarrow> f v = Inr s \<Longrightarrow> schema_all N s"
  shows "\<forall>s \<in> set ss. schema_all N s"
  using assms(1) unfolding result_map_Inr by (meson assms(2) list_all2_member)

lemma parse_inner_nodes: "parse_inner u64 f64 strict v = Inr s \<Longrightarrow> doc_all Q v \<Longrightarrow> schema_all N s"
proof (induction v arbitrary: s rule: measure_induct_rule [of size])
  case (less v)
  show ?case
  proof (cases v)
    case (JObject obj)
    have IH: "schema_all N t" if "w \<in> set (doc_children obj)" "parse_inner u64 f64 strict w = Inr t" for w t
      using less.IH [of w t] size_doc_children [OF that(1)] that less.prems(2) JObject by simp
    have Q: "Q obj" using less.prems(2) JObject by simp
    have typed': "parse_typed u64 f64 strict kind obj = Inr t \<Longrightarrow> schema_all N t" for kind t
      by (rule parse_typed_nodes [OF IH Q])
    have types': "\<forall>b \<in> set ss. schema_all N b"
      if "result_map (\<lambda>t. case as_str t of Some t \<Rightarrow> parse_typed u64 f64 strict t obj
        | None \<Rightarrow> Inl TypeEntryNotString) arr = Inr ss" for arr ss
      using that by (rule parse_branches_nodes) (auto split: option.splits dest: typed')
    have node: "N s" if "s = SOneOf ss" for ss
      using one_of [OF Q] less.prems(1) JObject that by simp
    show ?thesis
      using less.prems(1) [unfolded JObject]
    proof (cases rule: parse_inner_cases)
      case (one_of arr ss)
      have "\<forall>b \<in> set ss. schema_all N b"
        using one_of(3) by (rule parse_branches_nodes) (use IH branch_child [OF one_of(2)] in blast)
      then show ?thesis using node one_of(4) by simp
    next
      case (typed t)
      then show ?thesis using typed' by blast
    next
      case (types arr ss)
      from types'[OF types(4)] types(5) node show ?thesis by auto
    qed (use node in \<open>auto simp: leaf\<close>)
  qed (use less.prems in \<open>auto simp: leaf split: if_splits\<close>)
qed

end

lemma parse_typed_not_one_of: "parse_typed u64 f64 strict kind obj = Inr s \<Longrightarrow> not_one_of s"
  by (auto simp: not_one_of_def elim: parse_typed_cases)

interpretation single: node_law u64 f64 strict single_typed not_one_of for u64 f64 strict
proof
  fix obj :: "(ustring \<times> 'a json) list" and branches
  assume single: "single_typed obj" and r: "parse_inner u64 f64 strict (JObject obj) = Inr (SOneOf branches)"
  from r show "not_one_of (SOneOf branches)"
  proof (cases rule: parse_inner_cases)
    case (types arr ss)
    then have "length arr = length ss" by (auto simp: result_map_Inr dest: list_all2_lengthD)
    with types single have "ss = [SOneOf branches]" by (auto simp: single_typed_def)
    with types(4) obtain t where "parse_typed u64 f64 strict t obj = Inr (SOneOf branches)"
      by (auto simp: result_map_Inr list_all2_Cons2 split: option.splits)
    then show ?thesis by (rule parse_typed_not_one_of)
  qed (use single parse_typed_not_one_of in \<open>auto simp: single_typed_def split: option.splits\<close>)
qed (simp_all add: not_one_of_def)

interpretation closed: node_law u64 f64 True closed_entry closed_node for u64 f64
proof
  fix obj :: "(ustring \<times> 'a json) list" and os
  assume c: "closed_entry obj" and r: "parse_object u64 f64 True obj = Inr os"
  obtain props req additional where os: "os = ObjectSchema props req additional" by (cases os)
  from r c show "closed_node (SObject os)"
    by (auto simp: parse_object.simps closed_node_def closed_entry_def res_bind_Inr split: option.splits json.splits if_splits)
qed (simp_all add: closed_node_def)

end
