(* ===== verification/SchemaTools.thy ===== *)
theory SchemaTools
  imports SchemaParser
begin

text \<open>
  From a chat request to the schema that constrains its answer: \<open>tools\<close> and \<open>tool_choice\<close>
  (\<open>crates/larql-server/src/routes/openai/schema/tools.rs\<close>), and the two places of
  \<open>crates/larql-server/src/routes/openai/chat.rs\<close> that build a schema, \<open>resolve_tools\<close> and
  \<open>schema_for_response_format\<close>, with \<open>build_tool_call_message\<close>, which reads the answer back.
\<close>

section \<open>Tool choice\<close>

datatype tool_mode = ToolNone | ToolAny | ToolSpecific ustring

datatype 'n tool_error =
    ChoiceStringInvalid ustring
  | ChoiceTypeInvalid ustring
  | ChoiceNameMissing
  | ChoiceNameUnknown ustring
  | ChoiceInvalid "'n json"
  | ToolsNotArray
  | ToolTypeInvalid nat ustring
  | ToolFunctionMissing nat
  | ToolNameMissing nat
  | ToolParameters nat "'n schema_error"
  | NoToolMatched
  | FormatSchemaFieldMissing
  | FormatSchemaMissing
  | FormatSchemaInvalid "'n schema_error"
  | FormatTypeInvalid ustring

text \<open>\<open>Value::get\<close>: only an object has members.\<close>

definition vget :: "'n json \<Rightarrow> string \<Rightarrow> 'n json option" where
  "vget v key = (case v of JObject obj \<Rightarrow> jget obj key | _ \<Rightarrow> None)"

definition vget_str :: "'n json \<Rightarrow> string \<Rightarrow> ustring option" where
  "vget_str v key = (case vget v key of Some x \<Rightarrow> as_str x | None \<Rightarrow> None)"

text \<open>\<open>v.get("function").and_then(|f| f.get("name")).and_then(|n| n.as_str())\<close>.\<close>

definition function_name :: "'n json \<Rightarrow> ustring option" where
  "function_name v = (case vget v ''function'' of Some f \<Rightarrow> vget_str f ''name'' | None \<Rightarrow> None)"

definition or_empty :: "ustring option \<Rightarrow> ustring" where
  "or_empty s = (case s of Some s \<Rightarrow> s | None \<Rightarrow> [])"

definition resolve_tool_choice :: "bool \<Rightarrow> 'n json option \<Rightarrow> ustring list \<Rightarrow> 'n tool_error + tool_mode" where
  "resolve_tool_choice tools_present tool_choice tool_names =
     (if \<not> tools_present then Inr ToolNone
      else case tool_choice of
        None \<Rightarrow> Inr ToolAny
      | Some (JString s) \<Rightarrow>
          if s = chars ''none'' then Inr ToolNone
          else if s = chars ''auto'' \<or> s = chars ''required'' then Inr ToolAny
          else Inl (ChoiceStringInvalid s)
      | Some (JObject obj) \<Rightarrow>
          (let v = JObject obj; kind = or_empty (vget_str v ''type'') in
           if kind \<noteq> chars ''function'' then Inl (ChoiceTypeInvalid kind)
           else case function_name v of
             None \<Rightarrow> Inl ChoiceNameMissing
           | Some name \<Rightarrow>
               if \<not> list_ex (\<lambda>t. t = name) tool_names then Inl (ChoiceNameUnknown name)
               else Inr (ToolSpecific name))
      | Some other \<Rightarrow> Inl (ChoiceInvalid other))"

section \<open>The schema of the tools\<close>

definition make_tool_branch :: "ustring \<Rightarrow> 'n schema \<Rightarrow> 'n schema" where
  "make_tool_branch name args_schema = SObject (ObjectSchema
     [(chars ''arguments'', args_schema), (chars ''name'', SConst (JString name))]
     [chars ''name'', chars ''arguments''] None)"

text \<open>One tool of the loop: \<open>None\<close> when the tool choice filters it out.\<close>

definition synth_tool ::
  "('n \<Rightarrow> nat option) \<Rightarrow> ('n \<Rightarrow> f64 option) \<Rightarrow> tool_mode \<Rightarrow> nat \<Rightarrow> 'n json \<Rightarrow>
     'n tool_error + ('n schema \<times> ustring) option" where
  "synth_tool u64 f64 mode i t =
     (let kind = or_empty (vget_str t ''type'') in
      if kind \<noteq> chars ''function'' then Inl (ToolTypeInvalid i kind)
      else case vget t ''function'' of
        None \<Rightarrow> Inl (ToolFunctionMissing i)
      | Some func \<Rightarrow>
          (case vget_str func ''name'' of
             None \<Rightarrow> Inl (ToolNameMissing i)
           | Some name \<Rightarrow>
               if (case mode of ToolSpecific target \<Rightarrow> name \<noteq> target | _ \<Rightarrow> False) then Inr None
               else
                 (case vget func ''parameters'' of
                    None \<Rightarrow> Inr (Some (make_tool_branch name SAny, name))
                  | Some p \<Rightarrow>
                      (case parse_schema_with u64 f64 True p of
                         Inl e \<Rightarrow> Inl (ToolParameters i e)
                       | Inr args_schema \<Rightarrow> Inr (Some (make_tool_branch name args_schema, name))))))"

fun synth_loop ::
  "('n \<Rightarrow> nat option) \<Rightarrow> ('n \<Rightarrow> f64 option) \<Rightarrow> tool_mode \<Rightarrow> nat \<Rightarrow> 'n json list \<Rightarrow>
     'n tool_error + ('n schema \<times> ustring) list" where
  "synth_loop u64 f64 mode i [] = Inr []"
| "synth_loop u64 f64 mode i (t # ts) =
     res_bind (synth_tool u64 f64 mode i t) (\<lambda>here.
     res_bind (synth_loop u64 f64 mode (i + 1) ts) (\<lambda>rest.
     Inr (case here of None \<Rightarrow> rest | Some b \<Rightarrow> b # rest)))"

definition synth_tools_schema ::
  "('n \<Rightarrow> nat option) \<Rightarrow> ('n \<Rightarrow> f64 option) \<Rightarrow> 'n json \<Rightarrow> tool_mode \<Rightarrow>
     'n tool_error + ('n schema \<times> ustring list) option" where
  "synth_tools_schema u64 f64 tools mode =
     (case tools of
        JArray arr \<Rightarrow>
          if arr = [] \<or> mode = ToolNone then Inr None
          else res_bind (synth_loop u64 f64 mode 0 arr) (\<lambda>pairs.
            (let branches = List.map fst pairs; names = List.map snd pairs in
             if branches = [] then Inl NoToolMatched
             else Inr (Some (if length branches = 1 then hd branches else SOneOf branches, names))))
      | _ \<Rightarrow> Inl ToolsNotArray)"

section \<open>The request\<close>

definition is_empty_json_array :: "'n json \<Rightarrow> bool" where
  "is_empty_json_array v = (case v of JArray a \<Rightarrow> a = [] | _ \<Rightarrow> False)"

definition request_tool_names :: "'n json option \<Rightarrow> ustring list" where
  "request_tool_names tools =
     (case tools of Some (JArray arr) \<Rightarrow> List.map_filter function_name arr | _ \<Rightarrow> [])"

definition resolve_tools ::
  "('n \<Rightarrow> nat option) \<Rightarrow> ('n \<Rightarrow> f64 option) \<Rightarrow> 'n json option \<Rightarrow> 'n json option \<Rightarrow>
     'n tool_error + 'n schema option" where
  "resolve_tools u64 f64 tools tool_choice =
     (let tools_present = (case tools of Some v \<Rightarrow> v \<noteq> JNull \<and> \<not> is_empty_json_array v | None \<Rightarrow> False) in
      res_bind (resolve_tool_choice tools_present tool_choice (request_tool_names tools)) (\<lambda>mode.
      if \<not> tools_present \<or> mode = ToolNone then Inr None
      else res_bind (synth_tools_schema u64 f64 (the tools) mode) (\<lambda>result. Inr (map_option fst result))))"

definition schema_for_response_format ::
  "('n \<Rightarrow> nat option) \<Rightarrow> ('n \<Rightarrow> f64 option) \<Rightarrow> 'n json option \<Rightarrow> 'n tool_error + 'n schema option" where
  "schema_for_response_format u64 f64 format =
     (case format of
        None \<Rightarrow> Inr None
      | Some rf \<Rightarrow>
          (let kind = (case vget_str rf ''type'' of Some k \<Rightarrow> k | None \<Rightarrow> chars ''text'') in
           if kind = chars ''text'' then Inr None
           else if kind = chars ''json_object'' then Inr (Some (SObject object_any))
           else if kind = chars ''json_schema'' then
             (case vget rf ''json_schema'' of
                None \<Rightarrow> Inl FormatSchemaFieldMissing
              | Some js \<Rightarrow>
                  (case vget js ''schema'' of
                     None \<Rightarrow> Inl FormatSchemaMissing
                   | Some schema_value \<Rightarrow>
                       (let strict = (case vget js ''strict'' of Some (JBool b) \<Rightarrow> b | _ \<Rightarrow> False) in
                        case parse_schema_with u64 f64 strict schema_value of
                          Inl e \<Rightarrow> Inl (FormatSchemaInvalid e)
                        | Inr parsed \<Rightarrow> Inr (Some parsed))))
           else Inl (FormatTypeInvalid kind)))"

section \<open>The answer\<close>

datatype message_error = OutputEmpty | OutputInvalidJson | OutputNotObject | OutputNameMissing | OutputArgumentsMissing

text \<open>The code points of \<open>char::is_whitespace\<close>.\<close>

definition unicode_whitespace :: "nat \<Rightarrow> bool" where
  "unicode_whitespace c \<longleftrightarrow> 0x09 \<le> c \<and> c \<le> 0x0D \<or> 0x2000 \<le> c \<and> c \<le> 0x200A \<or>
     c \<in> {0x20, 0x85, 0xA0, 0x1680, 0x2028, 0x2029, 0x202F, 0x205F, 0x3000}"

definition trim :: "ustring \<Rightarrow> ustring" where
  "trim s = rev (dropWhile unicode_whitespace (rev (dropWhile unicode_whitespace s)))"

text \<open>
  \<open>build_tool_call_message\<close>, its name and arguments; \<open>from_str\<close> and \<open>js\<close> are \<open>serde_json::from_str\<close>
  and \<open>serde_json::to_string\<close>.
\<close>

definition build_tool_call_message ::
  "(ustring \<Rightarrow> 'n json option) \<Rightarrow> ('n json \<Rightarrow> ustring) \<Rightarrow> ustring \<Rightarrow> message_error + (ustring \<times> ustring)" where
  "build_tool_call_message from_str js text =
     (let trimmed = trim text in
      if trimmed = [] then Inl OutputEmpty
      else case from_str trimmed of
        None \<Rightarrow> Inl OutputInvalidJson
      | Some (JObject obj) \<Rightarrow>
          (case vget_str (JObject obj) ''name'' of
             None \<Rightarrow> Inl OutputNameMissing
           | Some name \<Rightarrow>
               (case vget (JObject obj) ''arguments'' of
                  None \<Rightarrow> Inl OutputArgumentsMissing
                | Some arguments \<Rightarrow> Inr (name, js arguments)))
      | Some _ \<Rightarrow> Inl OutputNotObject)"

section \<open>What the tools schema is\<close>

definition wanted :: "tool_mode \<Rightarrow> ustring \<Rightarrow> bool" where
  "wanted mode name \<longleftrightarrow> (case mode of ToolSpecific target \<Rightarrow> name = target | _ \<Rightarrow> True)"

definition tool_parameters :: "'n json \<Rightarrow> 'n json option" where
  "tool_parameters t = (case vget t ''function'' of Some f \<Rightarrow> vget f ''parameters'' | None \<Rightarrow> None)"

text \<open>The schema of the arguments of one tool.\<close>

definition tool_arguments ::
  "('n \<Rightarrow> nat option) \<Rightarrow> ('n \<Rightarrow> f64 option) \<Rightarrow> 'n json \<Rightarrow> 'n schema \<Rightarrow> bool" where
  "tool_arguments u64 f64 t args \<longleftrightarrow>
     (case tool_parameters t of None \<Rightarrow> args = SAny | Some p \<Rightarrow> parse_schema_with u64 f64 True p = Inr args)"

lemma synth_tool_Inr:
  assumes "synth_tool u64 f64 mode i t = Inr r"
  obtains name where "function_name t = Some name"
    "if wanted mode name then \<exists>args. tool_arguments u64 f64 t args \<and> r = Some (make_tool_branch name args, name)
     else r = None"
  using assms
  by (auto simp: synth_tool_def Let_def wanted_def function_name_def tool_arguments_def tool_parameters_def
      split: if_splits option.splits sum.splits tool_mode.splits)

lemma synth_loop_Inr:
  "synth_loop u64 f64 mode i arr = Inr pairs \<Longrightarrow>
     map snd pairs = filter (wanted mode) (List.map_filter function_name arr) \<and>
     list_all (\<lambda>p. \<exists>t \<in> set arr. \<exists>args. function_name t = Some (snd p) \<and> tool_arguments u64 f64 t args \<and>
       fst p = make_tool_branch (snd p) args) pairs"
proof (induction arr arbitrary: i pairs)
  case Nil
  then show ?case by (simp add: List.map_filter_simps)
next
  case (Cons t ts)
  from Cons.prems obtain here rest where t: "synth_tool u64 f64 mode i t = Inr here"
    and ts: "synth_loop u64 f64 mode (i + 1) ts = Inr rest"
    and p: "pairs = (case here of None \<Rightarrow> rest | Some b \<Rightarrow> b # rest)"
    by (auto simp: res_bind_Inr)
  from t show ?case
  proof (rule synth_tool_Inr)
    fix name
    assume "function_name t = Some name"
      and "if wanted mode name then \<exists>args. tool_arguments u64 f64 t args \<and> here = Some (make_tool_branch name args, name)
        else here = None"
    with Cons.IH [OF ts] p show ?thesis
      by (auto simp: List.map_filter_simps list_all_iff split: if_splits) (metis fst_conv snd_conv)+
  qed
qed

lemma synth_tools_Inr:
  assumes "synth_tools_schema u64 f64 (JArray arr) mode = Inr (Some (s, names))"
  shows "names = filter (wanted mode) (List.map_filter function_name arr)" and "names \<noteq> []"
    and "\<exists>branches. list_all2 (\<lambda>name b. \<exists>t \<in> set arr. \<exists>args. function_name t = Some name \<and>
        tool_arguments u64 f64 t args \<and> b = make_tool_branch name args) names branches \<and>
        s = (if length branches = 1 then hd branches else SOneOf branches)"
proof -
  from assms obtain pairs where p: "synth_loop u64 f64 mode 0 arr = Inr pairs" "pairs \<noteq> []"
    "names = map snd pairs" "s = (if length pairs = 1 then hd (map fst pairs) else SOneOf (map fst pairs))"
    by (auto simp: synth_tools_schema_def res_bind_Inr Let_def split: if_splits)
  note spec = synth_loop_Inr [OF p(1)]
  show "names = filter (wanted mode) (List.map_filter function_name arr)" "names \<noteq> []"
    using spec p by auto
  have "list_all2 (\<lambda>name b. \<exists>t \<in> set arr. \<exists>args. function_name t = Some name \<and>
        tool_arguments u64 f64 t args \<and> b = make_tool_branch name args) names (map fst pairs)"
    unfolding p(3) using conjunct2 [OF spec]
    by (auto simp: list_all2_map1 list_all2_map2 list_all2_same list_all_iff)
  with p(4) show "\<exists>branches. list_all2 (\<lambda>name b. \<exists>t \<in> set arr. \<exists>args. function_name t = Some name \<and>
        tool_arguments u64 f64 t args \<and> b = make_tool_branch name args) names branches \<and>
        s = (if length branches = 1 then hd branches else SOneOf branches)"
    by (intro exI [of _ "map fst pairs"]) simp
qed

lemma synth_loop_not_matched: "synth_loop u64 f64 mode i arr \<noteq> Inl NoToolMatched"
proof (induction arr arbitrary: i)
  case (Cons t ts)
  have "synth_tool u64 f64 mode i t \<noteq> Inl NoToolMatched"
    by (auto simp: synth_tool_def Let_def split: option.splits sum.splits)
  with Cons show ?case
    by (cases "synth_tool u64 f64 mode i t"; cases "synth_loop u64 f64 mode (i + 1) ts") auto
qed simp

lemma resolve_specific:
  "resolve_tool_choice present choice names = Inr (ToolSpecific name) \<Longrightarrow> present \<and> name \<in> set names"
  by (auto simp: resolve_tool_choice_def Let_def list_ex_iff split: if_splits option.splits json.splits)

lemma wanted_exists:
  assumes "resolve_tool_choice present choice names = Inr mode" and "names \<noteq> []"
  shows "filter (wanted mode) names \<noteq> []"
  using assms by (cases mode) (auto simp: wanted_def filter_empty_conv dest!: resolve_specific)

lemma synth_loop_names:
  "synth_loop u64 f64 mode i arr = Inr pairs \<Longrightarrow> length (List.map_filter function_name arr) = length arr"
proof (induction arr arbitrary: i pairs)
  case (Cons t ts)
  then show ?case
    by (auto simp: res_bind_Inr List.map_filter_simps elim!: synth_tool_Inr)
qed (simp add: List.map_filter_simps)

lemma plain_tool_branch: "plain_schema args \<Longrightarrow> plain_schema (make_tool_branch name args)"
  by (simp add: make_tool_branch_def)

end
