(* ===== verification/SchemaProperties.thy ===== *)
theory SchemaProperties
  imports SchemaTools
begin

text \<open>
  The properties of constrained decoding: the machine against the grammar, the mask, the schema
  parser and the tools.
\<close>

section \<open>A serialiser for the witnesses\<close>

fun sample_json :: "nat json \<Rightarrow> ustring" where
  "sample_json JNull = chars ''null''"
| "sample_json (JBool b) = (if b then chars ''true'' else chars ''false'')"
| "sample_json (JNumber n) = [0x30 + n mod 10]"
| "sample_json (JString s) = ch_quote # s @ [ch_quote]"
| "sample_json (JArray vs) = (if vs = [] then chars ''[]'' else chars ''[...]'')"
| "sample_json (JObject ps) = (if ps = [] then [ch_lbrace, ch_rbrace] else [ch_lbrace, ch_quote])"

lemma compact_sample: "compact_json sample_json"
  unfolding compact_json_def
proof
  fix v :: "nat json"
  show "sample_json v = [] \<or> \<not> uc_whitespace (hd (sample_json v))"
    by (cases v) (auto simp: chars_def uc_whitespace_def of_char_def)
qed

section \<open>The machine and the grammar\<close>

lemma machine_decides:
  assumes "compact_json js" and "plain_schema s"
  shows "(\<exists>f. step_str js (fsm_new s) w = (StepOk, f) \<and> is_complete f) \<longleftrightarrow> in_language js s w"
proof -
  have "plain_fsm (fsm_new s)" using assms(2) by (simp add: plain_fsm_def fsm_new_def)
  from step_str_live [OF assms(1) fsm_ok_new this] show ?thesis by (simp add: live_new)
qed

text \<open>
  C2. The machine decides the language of its schema, for schemas without alternatives: it accepts a
  text and is complete after it exactly when the text is a value of the schema with white space
  around it.
\<close>

theorem machine_language:
  assumes "compact_json js" and "plain_schema s"
  shows "(\<exists>f. step_str js (fsm_new s) w = (StepOk, f) \<and> is_complete f) \<longleftrightarrow> in_language js s w"
  using assms by (rule machine_decides)

theorem machine_language_witness:
  "in_language sample_json (SArray (ArraySchema SNull (Some 1) None)) (chars ''[null, null]'')"
proof -
  have "step_str sample_json (fsm_new (SArray (ArraySchema SNull (Some 1) None))) (chars ''[null, null]'') =
      (StepOk, Fsm [] True)"
    by (simp add: chars_def fsm_new_def step_atom_def dispatch_frame_def dispatch_value_def dispatch_array_def
        close_array_def new_array_def new_keyword_def complete_value_def step_keyword_def uc_whitespace_def
        uc_digit_def Let_def of_char_def)
  then show ?thesis
    using machine_language [OF compact_sample, of "SArray (ArraySchema SNull (Some 1) None)" "chars ''[null, null]''"]
    by (auto simp: is_complete_def)
qed

lemma fsm_ok_step_str: "fsm_ok f \<Longrightarrow> fsm_ok (snd (step_str js f w))"
proof (induction w arbitrary: f)
  case (Cons c w)
  obtain r f' where st: "step js f c = (r, f')" by (cases "step js f c")
  with step_ok [OF Cons.prems, of js c] have "fsm_ok f'" by simp
  with Cons.IH st show ?case by (cases r) simp_all
qed simp

text \<open>
  C16. The state of the machine after any text, accepted or not: the frames under the active one are
  containers in a phase that waits for it, a key is read only inside an object, and the machine is
  done exactly when its stack is empty.
\<close>

theorem machine_state_invariant:
  "fsm_ok (snd (step_str js (fsm_new s) w)) \<and>
   (fsm_done (snd (step_str js (fsm_new s) w)) \<longleftrightarrow> fsm_stack (snd (step_str js (fsm_new s) w)) = [])"
  using fsm_ok_step_str [OF fsm_ok_new, of js s w] fsm_ok_done by blast

section \<open>The mask\<close>

text \<open>
  C14. The cache of the mask, for any histories of the calls before. The machine that a call scores every candidate token
  with is a function of these histories: the one a replay of the whole history gives, unless the history extends that
  of the last call, that one was rejected, and the machine it left accepts what is added. In particular a call scores as
  a full replay, whether its history is accepted or not, when it is the first, when the last history was accepted, and when
  it does not extend the last history.
\<close>

theorem mask_cache_transparent:
  assumes "table = table_of decode (mask_after js decode template prompt eos calls) logits"
    and "machine = replayed js template prompt table (rev (map fst calls)) generated"
  shows "fst (mask_call js decode template prompt eos (mask_after js decode template prompt eos calls) generated logits) =
      map2 (mask_score js table eos machine) [0..<length logits] logits \<and>
    (calls = [] \<or> legal js template prompt table (fst (last calls)) \<or> \<not> prefix (fst (last calls)) generated \<or>
       legal js template prompt table generated \<longrightarrow>
     machine = fresh_fsm js template prompt table generated)"
proof -
  have "machine = fresh_fsm js template prompt table generated"
    if "calls = [] \<or> legal js template prompt table (fst (last calls)) \<or> \<not> prefix (fst (last calls)) generated \<or>
       legal js template prompt table generated"
  proof (cases calls rule: rev_cases)
    case (snoc older c)
    then show ?thesis
      using that replayed_fresh [of js template prompt table "fst c" generated "rev (map fst older)"] replayed_legal
      by (auto simp: assms(2) simp del: replayed.simps)
  qed (simp add: assms(2))
  then show ?thesis by (simp add: mask_call_replayed [OF mask_after_state assms(1)] assms(2) del: replayed.simps)
qed

definition sample_decode :: "nat \<Rightarrow> ustring option" where
  "sample_decode tok = (if tok = 0 then None else Some [ch_lbracket + 2 * (tok - 1)])"

definition sample_table :: "ustring option list" where
  "sample_table = [None, Some [ch_lbracket], Some [ch_rbracket]]"

lemma sample_table_of:
  "sample_table = table_of sample_decode (mask_after sample_json sample_decode (fsm_new SAny) [] {0} [(toks, [5, 6, 7])]) [5, 6, 7]"
  by (simp add: mask_after_def mask_call_def Let_def table_of_def new_mask_def sample_decode_def sample_table_def upt_rec)

theorem mask_cache_transparent_witness:
  "fst (mask_call sample_json sample_decode (fsm_new SAny) [] {0}
      (mask_after sample_json sample_decode (fsm_new SAny) [] {0} [([], [5, 6, 7])]) [2] [5, 6, 7]) =
   map2 (mask_score sample_json sample_table {0} (fresh_fsm sample_json (fsm_new SAny) [] sample_table [2])) [0, 1, 2] [5, 6, 7]"
proof -
  have "legal sample_json (fsm_new SAny) [] sample_table []" by (simp add: legal_def)
  with mask_cache_transparent [OF sample_table_of [of "[]"] refl, of "[2]"] show ?thesis by (simp add: upt_rec numeral_2_eq_2)
qed

text \<open>
  The case left out is real: after a history that the machine rejected, an extension of it scores with a machine that went
  past the rejected token, where a replay of the whole history stops. Here a closing bracket is rejected, then an opening
  one is added: another closing bracket is scored, though no text of the schema starts like this.
\<close>

lemma rejected_history_differs:
  "fst (mask_call sample_json sample_decode (fsm_new SAny) [] {0}
      (mask_after sample_json sample_decode (fsm_new SAny) [] {0} [([2], [5, 6, 7])]) [2, 1] [5, 6, 7]) ! 2 = 7 \<and>
   mask_score sample_json sample_table {0} (fresh_fsm sample_json (fsm_new SAny) [] sample_table [2, 1]) 2 7 = neg_infinity"
proof -
  have f: "replay sample_json sample_table (fsm_new SAny) [2] = (False, fsm_new SAny)"
    "replay sample_json sample_table (fsm_new SAny) [2, 1] = (False, fsm_new SAny)"
    by (simp_all add: sample_table_def surface_def fsm_new_def step_atom_def uc_whitespace_def dispatch_frame_def dispatch_value_def
        uc_digit_def)
  have r: "replay sample_json sample_table (fsm_new SAny) [1] = (True, snd (replay sample_json sample_table (fsm_new SAny) [1]))"
    "fst (step_str sample_json (snd (replay sample_json sample_table (fsm_new SAny) [1])) [ch_rbracket]) = StepOk"
    by (simp_all add: sample_table_def surface_def fsm_new_def step_atom_def uc_whitespace_def dispatch_frame_def
        dispatch_value_def dispatch_array_def new_array_def close_array_def complete_value_def)
  have m: "replayed sample_json (fsm_new SAny) [] sample_table [[2]] [2, 1] = snd (replay sample_json sample_table (fsm_new SAny) [1])"
    using f(1) r(1) by (simp add: fresh_fsm_def Let_def prod_eq_iff del: replay.simps(2))
  have s: "surface sample_table 2 = Some [ch_rbracket]" by (simp add: surface_def sample_table_def)
  have "mask_score sample_json sample_table {0} (replayed sample_json (fsm_new SAny) [] sample_table [[2]] [2, 1]) 2 7 = 7"
    unfolding m by (simp add: mask_score_def s r(2) del: replay.simps step_str.simps One_nat_def)
  moreover have "fst (step_str sample_json (fsm_new SAny) [ch_rbracket]) = StepReject"
    by (simp add: fsm_new_def step_atom_def uc_whitespace_def dispatch_frame_def dispatch_value_def uc_digit_def)
  then have "mask_score sample_json sample_table {0} (fresh_fsm sample_json (fsm_new SAny) [] sample_table [2, 1]) 2 7 = neg_infinity"
    by (simp add: fresh_fsm_def mask_score_def s f(2) del: step_str.simps(2) replay.simps One_nat_def)
  ultimately show ?thesis
    using mask_call_replayed [OF mask_after_state sample_table_of [of "[2]"], of "{0}" "[2, 1]"]
    by (simp add: upt_rec numeral_2_eq_2 del: replayed.simps)
qed

text \<open>
  C3. Constrained decoding from the request to the text. When the document of a schema has no
  alternatives in it and the parser accepts it, every sequence of tokens that survives the mask and
  ends with an end token that survives it spells a text of the language of the schema.
\<close>

theorem constrained_text_in_language:
  assumes "compact_json js" and "parse_schema_with u64 f64 strict doc = Inr s" and "doc_all single_typed doc"
    and "emitted js table (fsm_new s) [] eos toks" and "e \<in> eos" and "allows js table (fsm_new s) [] eos toks e"
  shows "in_language js s (token_text table toks)"
proof -
  have "plain_schema s"
    using assms(2,3) single.parse_inner_nodes unfolding plain_schema_all parse_schema_with_def by blast
  from emitted_language [OF assms(1) this, of "[]"] assms(4-6) show ?thesis by simp
qed

definition sample_doc :: "nat json" where
  "sample_doc = JObject [(chars ''type'', JString (chars ''array'')), (chars ''items'', JObject [(chars ''type'', JString (chars ''null''))])]"

lemma sample_doc_parse:
  "parse_schema_with Some (\<lambda>_. None) True sample_doc = Inr (SArray (ArraySchema SNull None None))"
  by (simp add: sample_doc_def parse_schema_with_def parse_unfold parse_typed.simps chars_def of_char_def
      unsupported_def get_number_def)

theorem constrained_text_in_language_witness:
  "in_language sample_json (SArray (ArraySchema SNull None None))
     (token_text [None, Some [ch_lbracket], Some [ch_rbracket]] [1, 2])"
proof -
  let ?table = "[None, Some [ch_lbracket], Some [ch_rbracket]]"
  let ?f = "fsm_new (SArray (ArraySchema SNull None None)) :: nat fsm"
  have s: "step_str sample_json ?f [ch_lbracket] = (StepOk, Fsm [new_array (ArraySchema SNull None None)] False)"
    by (simp add: fsm_new_def step_atom_def uc_whitespace_def dispatch_frame_def dispatch_value_def)
  have t: "step_str sample_json (Fsm [new_array (ArraySchema SNull None None)] False) [ch_rbracket] = (StepOk, Fsm [] True)"
    by (simp add: new_array_def step_atom_def uc_whitespace_def dispatch_frame_def dispatch_array_def close_array_def
        complete_value_def)
  have f: "fresh_fsm sample_json ?f [] ?table [] = ?f"
    "fresh_fsm sample_json ?f [] ?table [1] = Fsm [new_array (ArraySchema SNull None None)] False"
    "fresh_fsm sample_json ?f [] ?table [1, 2] = Fsm [] True"
    using s t by (simp_all add: fresh_fsm_def surface_def del: step.simps)
  have "emitted sample_json ?table ?f [] {0} [1, 2]"
    unfolding emitted_def allows_def mask_score_def
    using f s t by (auto simp: less_Suc_eq surface_def neg_infinity_def)
  moreover have "allows sample_json ?table ?f [] {0} [1, 2] 0"
    using f by (simp add: allows_def mask_score_def is_complete_def neg_infinity_def)
  moreover have "doc_all single_typed sample_doc"
    by (simp add: sample_doc_def single_typed_def doc_children_def doc_branches_def doc_properties_def
        doc_additional_def doc_items_def chars_def of_char_def)
  ultimately show ?thesis
    using constrained_text_in_language [OF compact_sample sample_doc_parse] by blast
qed

section \<open>Where the machine differs from JSON Schema\<close>

fun more_nulls :: "nat \<Rightarrow> ustring" where
  "more_nulls 0 = [ch_rbracket]"
| "more_nulls (Suc n) = ch_comma # keyword_bytes KwNull @ more_nulls n"

definition null_array :: "nat \<Rightarrow> ustring" where
  "null_array n = ch_lbracket # keyword_bytes KwNull @ more_nulls n"

lemma more_nulls_items:
  fixes js :: "'n json \<Rightarrow> ustring"
  shows "enough_items (ArraySchema SNull mn mx :: 'n array_schema) (k + n) \<Longrightarrow>
    more_items_at js (ArraySchema SNull mn mx) k (more_nulls n) []"
proof (induction n arbitrary: k)
  case (Suc n)
  then have "more_items_at js (ArraySchema SNull mn mx) (k + 1) (more_nulls n) []" by simp
  from more_items_comma [OF _ this, of "keyword_bytes KwNull @ more_nulls n"] value_null [of js "more_nulls n"]
  show ?case by simp
qed (simp add: more_items_close)

text \<open>
  The maximum number of items is not enforced: an array of \<open>n + 1\<close> nulls is accepted and complete
  whatever \<open>maxItems\<close> is, when it has the minimum number of items.
\<close>

theorem max_items_ignored:
  fixes js :: "'n json \<Rightarrow> ustring"
  assumes "compact_json js" and "case mn of Some m \<Rightarrow> m \<le> n + 1 | None \<Rightarrow> True"
  shows "\<exists>f. step_str js (fsm_new (SArray (ArraySchema SNull mn mx))) (null_array n) = (StepOk, f) \<and> is_complete f"
proof -
  let ?a = "ArraySchema SNull mn mx :: 'n array_schema"
  have "more_items_at js ?a 1 (more_nulls n) []"
    by (rule more_nulls_items) (use assms(2) in \<open>auto simp: enough_items_def split: option.splits\<close>)
  moreover have "value_at js (as_items ?a) (keyword_bytes KwNull @ more_nulls n) (more_nulls n)"
    by (simp only: array_schema.sel value_null)
  ultimately have "items_at js ?a 0 (keyword_bytes KwNull @ more_nulls n) []"
    using items_value [where c = "0x6E" and w = "[0x75, 0x6C, 0x6C] @ more_nulls n" and aspec = ?a and n = 0]
    by (simp add: uc_whitespace_def)
  then have "in_language js (SArray ?a) (null_array n)"
    by (auto simp: in_language_def null_array_def intro!: exI [of _ "[]"] value_array)
  then show ?thesis using machine_decides [OF assms(1)] by simp
qed

theorem max_items_ignored_witness:
  "\<exists>f. step_str sample_json (fsm_new (SArray (ArraySchema SNull None (Some 1)))) (null_array 2) = (StepOk, f) \<and>
     is_complete f"
  by (rule max_items_ignored [OF compact_sample]) simp

definition two_consts :: "ustring \<Rightarrow> ustring \<Rightarrow> nat \<Rightarrow> 'n fsm" where
  "two_consts a b k = Fsm [FOneOf [Fsm [FConst \<lparr>cf_target = a, cf_index = k\<rparr>] False,
     Fsm [FConst \<lparr>cf_target = b, cf_index = k\<rparr>] False]] False"

lemma step_two_consts:
  assumes "\<not> uc_whitespace c" "Suc k < length a" "Suc k < length b" "a ! k = c" "b ! k = c"
  shows "step js (two_consts a b k) c = (StepOk, two_consts a b (Suc k))"
  using assms by (simp add: two_consts_def step_atom_def step_const_def dispatch_frame_def merge_branches_def)

lemma two_consts_prefix:
  assumes "\<forall>c \<in> set u. \<not> uc_whitespace c" "Suc (k + length u) \<le> length a" "Suc (k + length u) \<le> length b"
    "take (length u) (drop k a) = u" "take (length u) (drop k b) = u"
  shows "step_str js (two_consts a b k) (u @ w) = step_str js (two_consts a b (k + length u)) w"
  using assms
proof (induction u arbitrary: k)
  case (Cons c u)
  from Cons.prems have "drop k a = a ! k # drop (Suc k) a" "drop k b = b ! k # drop (Suc k) b"
    by (simp_all add: Cons_nth_drop_Suc)
  with Cons.prems Cons.IH [of "Suc k"] step_two_consts [of c k a b js] show ?case by simp
qed simp

text \<open>
  Of two constants whose texts share a prefix that ends with a space, neither can be produced:
  white space is skipped as long as both alternatives are alive, also inside a string, so the character
  after the space is rejected.
\<close>

theorem shared_space_unreachable:
  assumes a: "js A = u @ 0x20 # x # ra" and b: "js B = u @ 0x20 # rb" and u: "u \<noteq> []" "\<forall>c \<in> set u. \<not> uc_whitespace c"
    and x: "\<not> uc_whitespace x"
  shows "fst (step_str js (fsm_new (SOneOf [SConst A, SConst B])) (js A)) = StepReject"
proof -
  obtain c v where cv: "u = c # v" using u(1) by (cases u) auto
  have "step js (fsm_new (SOneOf [SConst A, SConst B])) c = (StepOk, two_consts (js A) (js B) 1)"
    using u a b cv by (simp add: fsm_new_def step_atom_def dispatch_frame_def dispatch_value_def Let_def
        merge_branches_def two_consts_def)
  moreover have "step_str js (two_consts (js A) (js B) 1) (v @ w) = step_str js (two_consts (js A) (js B) (length u)) w" for w
    using two_consts_prefix [of v 1 "js A" "js B" js w] u a b cv by simp
  moreover have "step js (two_consts (js A) (js B) (length u)) 0x20 = (StepOk, two_consts (js A) (js B) (length u))"
    by (simp add: two_consts_def step_atom_def uc_whitespace_def)
  moreover have "fst (step js (two_consts (js A) (js B) (length u)) x) = StepReject"
  proof -
    have "x \<noteq> 0x20" using x by (auto simp: uc_whitespace_def)
    with x a b show ?thesis
      by (simp add: two_consts_def step_atom_def step_const_def dispatch_frame_def merge_branches_def nth_append)
  qed
  ultimately show ?thesis
    unfolding a using cv by (auto split: prod.split step_result.split simp del: step.simps)
qed

theorem shared_space_unreachable_witness:
  "fst (step_str sample_json (fsm_new (SOneOf [SConst (JString (chars ''New York'')), SConst (JString (chars ''New Jersey''))]))
     (sample_json (JString (chars ''New York'')))) = StepReject"
  by (rule shared_space_unreachable [where u = "ch_quote # chars ''New''" and x = "0x59"
        and ra = "chars ''ork'' @ [ch_quote]" and rb = "chars ''Jersey'' @ [ch_quote]"])
    (simp_all add: chars_def of_char_def uc_whitespace_def)

definition two_numbers :: "ustring \<Rightarrow> 'n fsm" where
  "two_numbers ds = Fsm [FOneOf
     [Fsm [FNumber \<lparr>nf_spec = default_number_schema\<lparr>ns_integer := True\<rparr>, nf_phase = IntPart, nf_digits = ds\<rparr>] False,
      Fsm [FNumber \<lparr>nf_spec = default_number_schema, nf_phase = IntPart, nf_digits = ds\<rparr>] False]] False"

lemma step_two_numbers:
  "uc_digit c \<Longrightarrow> step js (two_numbers ds) c = (StepOk, two_numbers (ds @ [c]))"
  "uc_whitespace c \<Longrightarrow> step js (two_numbers ds) c = (StepOk, two_numbers ds)"
  by (auto simp: two_numbers_def step_atom_def step_number_def number_push_def dispatch_frame_def merge_branches_def
      uc_whitespace_def uc_digit_def)

text \<open>
  C40. Two number alternatives never end: after a digit, any digits and white space are accepted, so
  that \<open>1 2\<close> is read as one number, and the machine is never complete.
\<close>

theorem two_numbers_never_complete:
  assumes "uc_digit d" and "list_all (\<lambda>c. uc_digit c \<or> uc_whitespace c) w"
  shows "\<exists>f. step_str js (fsm_new (SOneOf [schema_integer, schema_number])) (d # w) = (StepOk, f) \<and> \<not> is_complete f"
proof -
  have "step js (fsm_new (SOneOf [schema_integer, schema_number])) d = (StepOk, two_numbers [d])"
    using assms(1)
    by (auto simp: fsm_new_def step_atom_def dispatch_frame_def dispatch_value_def Let_def merge_branches_def
        two_numbers_def schema_integer_def schema_number_def new_number_def uc_digit_def uc_whitespace_def)
  moreover have "\<exists>ds'. step_str js (two_numbers ds) w = (StepOk, two_numbers ds')" for ds
    using assms(2)
  proof (induction w arbitrary: ds)
    case (Cons c w)
    then show ?case using step_two_numbers [of c js ds] by (auto simp del: step.simps)
  qed auto
  ultimately show ?thesis by (force simp: two_numbers_def is_complete_def simp del: step.simps)
qed

theorem two_numbers_never_complete_witness:
  "\<exists>f. step_str sample_json (fsm_new (SOneOf [schema_integer, schema_number])) (chars ''1 2'') = (StepOk, f) \<and>
     \<not> is_complete f"
  using two_numbers_never_complete [where d = "0x31" and w = "[0x20, 0x32]" and js = sample_json]
  by (simp add: chars_def of_char_def uc_digit_def uc_whitespace_def del: step.simps step_str.simps)

section \<open>The parser of schemas\<close>

text \<open>
  Strict mode closes every object: a schema parsed strictly from a document that nowhere opens
  \<open>additionalProperties\<close> has no object, at any depth, that takes a key it does not list.
\<close>

theorem strict_schemas_closed:
  assumes "parse_schema_with u64 f64 True doc = Inr s" and "doc_all closed_entry doc"
  shows "schema_all closed_node s"
  using assms closed.parse_inner_nodes unfolding parse_schema_with_def by blast

theorem strict_schemas_closed_witness:
  "schema_all closed_node (SObject (ObjectSchema [(chars ''a'', SArray (ArraySchema (SObject (ObjectSchema [] [] None)) None None))] [] None)
     :: nat schema)"
proof -
  let ?inner = "JObject [(chars ''type'', JString (chars ''object''))] :: nat json"
  let ?arr = "JObject [(chars ''type'', JString (chars ''array'')), (chars ''items'', ?inner)]"
  let ?doc = "JObject [(chars ''type'', JString (chars ''object'')), (chars ''properties'', JObject [(chars ''a'', ?arr)])]"
  have "parse_schema_with Some (\<lambda>_. None) True ?doc =
      Inr (SObject (ObjectSchema [(chars ''a'', SArray (ArraySchema (SObject (ObjectSchema [] [] None)) None None))] [] None))"
    by (simp add: parse_schema_with_def parse_unfold parse_typed.simps chars_def of_char_def unsupported_def
        get_number_def parse_required_def)
  moreover have "doc_all closed_entry ?doc"
    by (simp add: closed_entry_def doc_children_def doc_branches_def doc_properties_def doc_additional_def
        doc_items_def chars_def of_char_def)
  ultimately show ?thesis by (rule strict_schemas_closed)
qed

text \<open>
  What the parser does not support: a schema object with \<open>$ref\<close>, \<open>allOf\<close>, \<open>pattern\<close> or another such
  keyword is an error, except that \<open>const\<close>, \<open>enum\<close>, \<open>oneOf\<close> and \<open>anyOf\<close> are looked at first: beside them
  the unsupported keyword is ignored.
\<close>

theorem unsupported_keywords:
  assumes "unsupported obj = Some e"
  shows "case jget obj ''const'' of
      Some c \<Rightarrow> parse_inner u64 f64 strict (JObject obj) = Inr (SConst c)
    | None \<Rightarrow>
      (case jget obj ''enum'' of
         Some (JArray arr) \<Rightarrow> parse_inner u64 f64 strict (JObject obj) =
           (if arr = [] then Inl EnumEmpty else Inr (SOneOf (List.map SConst arr)))
       | Some _ \<Rightarrow> parse_inner u64 f64 strict (JObject obj) = Inl EnumNotArray
       | None \<Rightarrow> jget obj ''oneOf'' = None \<and> jget obj ''anyOf'' = None \<longrightarrow>
           parse_inner u64 f64 strict (JObject obj) = Inl e)"
  using assms by (auto simp: parse_inner.simps(2) split: option.split json.split)

theorem unsupported_keywords_witness:
  "parse_inner Some (\<lambda>_. None) True (JObject [(chars ''type'', JString (chars ''string'')), (chars ''pattern'', JString [])]) =
     (Inl PatternUnsupported :: nat schema_error + nat schema)"
proof -
  let ?obj = "[(chars ''type'', JString (chars ''string'')), (chars ''pattern'', JString [])] :: (ustring \<times> nat json) list"
  have "unsupported ?obj = Some PatternUnsupported"
    by (simp add: unsupported_def chars_def of_char_def)
  from unsupported_keywords [OF this, of Some "\<lambda>_. None" True] show ?thesis
    by (simp add: chars_def of_char_def)
qed

section \<open>Tools\<close>

text \<open>
  The schema of a request with tools: one branch for each tool the choice allows, in the order of
  the request, with the tool's name as a constant and the strictly parsed parameters as arguments; a
  single branch stands alone.
\<close>

theorem tools_schema:
  assumes "resolve_tools u64 f64 (Some (JArray arr)) choice = Inr (Some s)"
  shows "\<exists>mode branches. resolve_tool_choice True choice (List.map_filter function_name arr) = Inr mode \<and>
    list_all2 (\<lambda>name b. \<exists>t \<in> set arr. \<exists>args. function_name t = Some name \<and>
        tool_arguments u64 f64 t args \<and> b = make_tool_branch name args)
      (filter (wanted mode) (List.map_filter function_name arr)) branches \<and>
    s = (if length branches = 1 then hd branches else SOneOf branches)"
proof -
  from assms obtain mode names where
    m: "resolve_tool_choice True choice (List.map_filter function_name arr) = Inr mode"
    and r: "synth_tools_schema u64 f64 (JArray arr) mode = Inr (Some (s, names))"
    by (auto simp: resolve_tools_def request_tool_names_def is_empty_json_array_def res_bind_Inr Let_def
        resolve_tool_choice_def [of False] split: if_splits)
  from synth_tools_Inr(1,3) [OF r] m show ?thesis by blast
qed

definition sample_tools :: "nat json list" where
  "sample_tools = [JObject [(chars ''type'', JString (chars ''function'')),
     (chars ''function'', JObject [(chars ''name'', JString (chars ''f''))])]]"

theorem tools_schema_witness:
  "\<exists>mode branches. resolve_tool_choice True (None :: nat json option) (List.map_filter function_name sample_tools) = Inr mode \<and>
    list_all2 (\<lambda>name b. \<exists>t \<in> set sample_tools. \<exists>args. function_name t = Some name \<and>
        tool_arguments Some (\<lambda>_. None) t args \<and> b = make_tool_branch name args)
      (filter (wanted mode) (List.map_filter function_name sample_tools)) branches \<and>
    make_tool_branch (chars ''f'') SAny = (if length branches = 1 then hd branches else SOneOf branches)"
proof -
  have "resolve_tools Some (\<lambda>_. None) (Some (JArray sample_tools)) None = Inr (Some (make_tool_branch (chars ''f'') SAny))"
    by (simp add: sample_tools_def resolve_tools_def resolve_tool_choice_def is_empty_json_array_def
        synth_tools_schema_def synth_tool_def vget_str_def vget_def as_str_def or_empty_def chars_def of_char_def Let_def)
  from tools_schema [OF this] show ?thesis .
qed

text \<open>
  A resolved tool choice always finds its tool: the error \<open>no tool matched the requested
  tool_choice\<close> never leaves \<open>resolve_tools\<close>.
\<close>

theorem resolved_tool_matches: "resolve_tools u64 f64 tools choice \<noteq> Inl NoToolMatched"
proof
  assume r: "resolve_tools u64 f64 tools choice = Inl NoToolMatched"
  have c: "resolve_tool_choice p ch ns \<noteq> Inl NoToolMatched" for p and ch :: "'a json option" and ns
    by (auto simp: resolve_tool_choice_def Let_def split: option.split json.split)
  from r obtain arr mode where a: "tools = Some (JArray arr)" "arr \<noteq> []"
    and m: "resolve_tool_choice True choice (List.map_filter function_name arr) = Inr mode" "mode \<noteq> ToolNone"
    and s: "synth_tools_schema u64 f64 (JArray arr) mode = Inl NoToolMatched"
    using c by (auto simp: resolve_tools_def res_bind_def request_tool_names_def is_empty_json_array_def
        synth_tools_schema_def Let_def split: sum.splits if_splits option.splits json.splits)
  from s a(2) m(2) obtain pairs where p: "synth_loop u64 f64 mode 0 arr = Inr pairs" "pairs = []"
    using synth_loop_not_matched [of u64 f64 mode 0 arr]
    by (auto simp: synth_tools_schema_def res_bind_def Let_def split: sum.splits if_splits)
  have "List.map_filter function_name arr \<noteq> []"
    using synth_loop_names [OF p(1)] a(2) by (metis length_0_conv)
  from wanted_exists [OF m(1) this] synth_loop_Inr [OF p(1)] p(2) show False by simp
qed

text \<open>
  C17. A forced tool call. When \<open>tool_choice\<close> names a function that one tool of the request has, and the
  parameters of that tool have no alternatives, every text that constrained decoding produces is an object
  with that name and with arguments of that tool.
\<close>

theorem forced_tool_call:
  assumes js: "compact_json js"
    and choice: "resolve_tool_choice True choice (List.map_filter function_name arr) = Inr (ToolSpecific name)"
    and unique: "length (filter ((=) name) (List.map_filter function_name arr)) = 1"
    and r: "resolve_tools u64 f64 (Some (JArray arr)) choice = Inr (Some s)"
    and single: "\<forall>t \<in> set arr. function_name t = Some name \<longrightarrow>
      (case tool_parameters t of Some p \<Rightarrow> doc_all single_typed p | None \<Rightarrow> True)"
    and gen: "emitted js table (fsm_new s) [] eos toks" "e \<in> eos" "allows js table (fsm_new s) [] eos toks e"
  shows "\<exists>t \<in> set arr. \<exists>args. function_name t = Some name \<and> tool_arguments u64 f64 t args \<and>
    in_language js (make_tool_branch name args) (token_text table toks)"
proof -
  from r choice obtain names where
    "synth_tools_schema u64 f64 (JArray arr) (ToolSpecific name) = Inr (Some (s, names))"
    by (auto simp: resolve_tools_def request_tool_names_def is_empty_json_array_def res_bind_Inr Let_def
        resolve_tool_choice_def [of False] split: if_splits)
  note spec = synth_tools_Inr [OF this]
  from spec(3) obtain branches where b: "list_all2 (\<lambda>name b. \<exists>t \<in> set arr. \<exists>args. function_name t = Some name \<and>
        tool_arguments u64 f64 t args \<and> b = make_tool_branch name args) names branches"
    "s = (if length branches = 1 then hd branches else SOneOf branches)" by blast
  have "wanted (ToolSpecific name) = (=) name" by (auto simp: wanted_def)
  with spec(1) unique have "length names = 1" "set names \<subseteq> {name}" by auto
  then have n: "names = [name]" by (cases names) auto
  with b obtain t args where t: "t \<in> set arr" "function_name t = Some name" "tool_arguments u64 f64 t args"
    "s = make_tool_branch name args"
    by (auto simp: list_all2_Cons1)
  have "plain_schema args"
  proof (cases "tool_parameters t")
    case (Some p)
    with t(1-3) single have "parse_inner u64 f64 True p = Inr args" "doc_all single_typed p"
      by (auto simp: tool_arguments_def parse_schema_with_def)
    then show ?thesis unfolding plain_schema_all by (rule single.parse_inner_nodes)
  qed (use t(3) in \<open>simp add: tool_arguments_def\<close>)
  from plain_tool_branch [OF this] have "plain_schema s" using t(4) by simp
  from emitted_language [OF js this _ gen] have "in_language js s (token_text table toks)" by simp
  with t show ?thesis by blast
qed

definition sample_call :: ustring where
  "sample_call = [ch_lbrace, ch_quote] @ chars ''name'' @ [ch_quote, ch_colon, ch_quote] @ chars ''f'' @
     [ch_quote, ch_comma, ch_quote] @ chars ''arguments'' @ [ch_quote, ch_colon] @ chars ''null'' @ [ch_rbrace]"

lemma sample_call_accepted:
  "step_str sample_json (fsm_new (make_tool_branch (chars ''f'') SAny)) sample_call = (StepOk, Fsm [] True)"
  by (simp add: sample_call_def chars_def of_char_def make_tool_branch_def fsm_new_def step_atom_def
      dispatch_frame_def dispatch_value_def dispatch_object_def close_object_def new_object_def new_string_def
      new_keyword_def complete_value_def complete_key_def step_string_def step_keyword_def step_const_def
      close_string_def ok_if_within_string_constraints_def default_string_schema_def resolve_key_schema_def
      uc_whitespace_def uc_digit_def Let_def)

theorem forced_tool_call_witness:
  "\<exists>t \<in> set sample_tools. \<exists>args. function_name t = Some (chars ''f'') \<and> tool_arguments Some (\<lambda>_. None) t args \<and>
    in_language sample_json (make_tool_branch (chars ''f'') args) (token_text [None, Some sample_call] [1])"
proof -
  let ?choice = "Some (JObject [(chars ''type'', JString (chars ''function'')),
     (chars ''function'', JObject [(chars ''name'', JString (chars ''f''))])]) :: nat json option"
  let ?s = "make_tool_branch (chars ''f'') SAny :: nat schema"
  have names: "List.map_filter function_name sample_tools = [chars ''f'']"
    by (simp add: sample_tools_def function_name_def vget_def vget_str_def as_str_def chars_def of_char_def
        List.map_filter_simps)
  have choice: "resolve_tool_choice True ?choice (List.map_filter function_name sample_tools) = Inr (ToolSpecific (chars ''f''))"
    unfolding names
    by (simp add: resolve_tool_choice_def function_name_def vget_def vget_str_def as_str_def or_empty_def
        chars_def of_char_def Let_def)
  have "synth_tools_schema Some (\<lambda>_. None) (JArray sample_tools) (ToolSpecific (chars ''f'')) = Inr (Some (?s, [chars ''f'']))"
    by (simp add: sample_tools_def synth_tools_schema_def synth_tool_def vget_str_def vget_def as_str_def
        or_empty_def chars_def of_char_def Let_def)
  moreover have "sample_tools \<noteq> []" by (simp add: sample_tools_def)
  ultimately have "resolve_tools Some (\<lambda>_. None) (Some (JArray sample_tools)) ?choice = Inr (Some ?s)"
    using choice by (simp add: resolve_tools_def is_empty_json_array_def request_tool_names_def)
  moreover have "\<forall>t \<in> set sample_tools. case tool_parameters t of Some p \<Rightarrow> doc_all single_typed p | None \<Rightarrow> True"
    by (simp add: sample_tools_def tool_parameters_def vget_def chars_def of_char_def)
  moreover have "emitted sample_json [None, Some sample_call] (fsm_new ?s) [] {0} [1]"
    using sample_call_accepted
    by (simp add: emitted_def allows_def mask_score_def surface_def fresh_fsm_def neg_infinity_def)
  moreover have "allows sample_json [None, Some sample_call] (fsm_new ?s) [] {0} [1] 0"
    using sample_call_accepted
    by (simp add: allows_def mask_score_def surface_def fresh_fsm_def neg_infinity_def is_complete_def)
  ultimately show ?thesis
    using forced_tool_call [OF compact_sample choice] names by simp
qed

end
