(* ===== verification/GraphCore.thy ===== *)
theory GraphCore
  imports Rust_Num "HOL-Library.AList" "HOL-Library.List_Lexorder" "HOL-Library.Char_ord" "HOL-Library.Product_Lexorder"
begin

text \<open>
  The knowledge graph (\<open>crates/larql-core/src/core/{edge,enums,node,schema,graph}.rs\<close>): its edges, its
  indexes and the operations on them.

  A \<open>String\<close> is its UTF-8 bytes, so that the order of strings is the lexicographic one. A \<open>HashMap\<close>
  that is only looked up is a function to options, one that is iterated an association list; a \<open>usize\<close>
  is a \<open>nat\<close>. The type \<open>'m\<close> is that of the metadata values. \<open>kw\<close> gives the lower-case words of a text
  (\<open>to_lowercase().replace('-', " ").split_whitespace()\<close>, which rest on the Unicode tables).
\<close>

section \<open>Edges\<close>

datatype source_type = SrcParametric | SrcDocument | SrcInstalled | SrcWikidata | SrcManual | SrcUnknown

definition source_as_str :: "source_type \<Rightarrow> string" where
  "source_as_str s = (case s of
       SrcParametric \<Rightarrow> ''parametric'' | SrcDocument \<Rightarrow> ''document'' | SrcInstalled \<Rightarrow> ''installed''
     | SrcWikidata \<Rightarrow> ''wikidata'' | SrcManual \<Rightarrow> ''manual'' | SrcUnknown \<Rightarrow> ''unknown'')"

datatype merge_strategy = MergeMaxConfidence | MergeUnion | MergeSourcePriority

record 'm edge =
  e_subject :: string
  e_relation :: string
  e_object :: string
  e_confidence :: f64
  e_source :: source_type
  e_metadata :: "(string \<times> 'm) list option"
  e_injection :: "(nat \<times> f64) option"

type_synonym triple = "string \<times> string \<times> string"

abbreviation f64_one :: f64 where "f64_one \<equiv> 0x3FF0000000000000"

definition new_edge :: "string \<Rightarrow> string \<Rightarrow> string \<Rightarrow> 'm edge" where
  "new_edge s r o' = \<lparr>e_subject = s, e_relation = r, e_object = o', e_confidence = f64_one,
     e_source = SrcUnknown, e_metadata = None, e_injection = None\<rparr>"

text \<open>\<open>f64::clamp(0.0, 1.0)\<close>: a NaN stays.\<close>

definition clamp01 :: "f64 \<Rightarrow> f64" where
  "clamp01 x = (let x = (if f64_less x 0 then 0 else x) in if f64_less f64_one x then f64_one else x)"

definition with_confidence :: "f64 \<Rightarrow> 'm edge \<Rightarrow> 'm edge" where
  "with_confidence c e = e\<lparr>e_confidence := clamp01 c\<rparr>"

definition with_source :: "source_type \<Rightarrow> 'm edge \<Rightarrow> 'm edge" where
  "with_source s e = e\<lparr>e_source := s\<rparr>"

definition with_metadata :: "string \<Rightarrow> 'm \<Rightarrow> 'm edge \<Rightarrow> 'm edge" where
  "with_metadata key value e = e\<lparr>e_metadata :=
     Some (AList.update key value (case e_metadata e of Some m \<Rightarrow> m | None \<Rightarrow> []))\<rparr>"

definition edge_triple :: "'m edge \<Rightarrow> triple" where
  "edge_triple e = (e_subject e, e_relation e, e_object e)"

text \<open>Equality of two \<open>HashMap\<close>s: as many entries, and each entry of one in the other.\<close>

definition same_entries :: "('k \<times> 'v) list \<Rightarrow> ('k \<times> 'v) list \<Rightarrow> bool" where
  "same_entries a b \<longleftrightarrow> length a = length b \<and> list_all (\<lambda>(k, v). map_of b k = Some v) a"

definition same_metadata :: "(string \<times> 'm) list option \<Rightarrow> (string \<times> 'm) list option \<Rightarrow> bool" where
  "same_metadata a b = (case (a, b) of
       (None, None) \<Rightarrow> True | (Some x, Some y) \<Rightarrow> same_entries x y | _ \<Rightarrow> False)"

text \<open>\<open>==\<close> on doubles: false when one is a NaN; the two zeros are equal.\<close>

definition f64_eq :: "f64 \<Rightarrow> f64 \<Rightarrow> bool" where
  "f64_eq a b \<longleftrightarrow> \<not> f64_is_nan a \<and> \<not> f64_is_nan b \<and> f64_key a = f64_key b"

definition same_injection :: "(nat \<times> f64) option \<Rightarrow> (nat \<times> f64) option \<Rightarrow> bool" where
  "same_injection a b = (case (a, b) of
       (None, None) \<Rightarrow> True | (Some (l, x), Some (l', y)) \<Rightarrow> l = l' \<and> f64_eq x y | _ \<Rightarrow> False)"

definition same_edge_payload :: "'m edge \<Rightarrow> 'm edge \<Rightarrow> bool" where
  "same_edge_payload a b \<longleftrightarrow> e_subject a = e_subject b \<and> e_relation a = e_relation b \<and> e_object a = e_object b \<and>
     f64_eq (e_confidence a) (e_confidence b) \<and> e_source a = e_source b \<and>
     same_metadata (e_metadata a) (e_metadata b) \<and> same_injection (e_injection a) (e_injection b)"

section \<open>Schemas and nodes\<close>

record relation_meta =
  rm_name :: string
  rm_subject_types :: "string list"
  rm_object_types :: "string list"
  rm_reversible :: bool
  rm_reverse_name :: "string option"

record type_rule =
  tr_node_type :: string
  tr_outgoing :: "string list"
  tr_incoming :: "string list"

record graph_schema =
  gs_relations :: "(string \<times> relation_meta) list"
  gs_type_rules :: "type_rule list"

definition new_schema :: graph_schema where
  "new_schema = \<lparr>gs_relations = [], gs_type_rules = []\<rparr>"

definition schema_add :: "relation_meta \<Rightarrow> graph_schema \<Rightarrow> graph_schema" where
  "schema_add meta s = s\<lparr>gs_relations := AList.update (rm_name meta) meta (gs_relations s)\<rparr>"

definition schema_get :: "graph_schema \<Rightarrow> string \<Rightarrow> relation_meta option" where
  "schema_get s name = map_of (gs_relations s) name"

definition schema_has :: "graph_schema \<Rightarrow> string \<Rightarrow> bool" where
  "schema_has s name \<longleftrightarrow> schema_get s name \<noteq> None"

definition add_type_rule :: "type_rule \<Rightarrow> graph_schema \<Rightarrow> graph_schema" where
  "add_type_rule rule s = s\<lparr>gs_type_rules := gs_type_rules s @ [rule]\<rparr>"

definition rule_matches :: "string list \<Rightarrow> string list \<Rightarrow> type_rule \<Rightarrow> bool" where
  "rule_matches outgoing incoming rule \<longleftrightarrow>
     (tr_outgoing rule \<noteq> [] \<and> list_ex (\<lambda>r. r \<in> set outgoing) (tr_outgoing rule)) \<or>
     (tr_incoming rule \<noteq> [] \<and> list_ex (\<lambda>r. r \<in> set incoming) (tr_incoming rule))"

definition infer_type :: "graph_schema \<Rightarrow> string list \<Rightarrow> string list \<Rightarrow> string option" where
  "infer_type s outgoing incoming =
     map_option tr_node_type (List.find (rule_matches outgoing incoming) (gs_type_rules s))"

record node =
  n_name :: string
  n_node_type :: "string option"
  n_degree :: nat
  n_out_degree :: nat
  n_in_degree :: nat

section \<open>The graph\<close>

datatype edge_insert_result = Inserted | Duplicate | Replaced

record 'm graph =
  g_edges :: "'m edge list"
  g_edge_set :: "triple set"
  g_adjacency :: "string \<Rightarrow> (string \<times> string \<times> nat) list option"
  g_reverse :: "string \<Rightarrow> (string \<times> string \<times> nat) list option"
  g_keyword_index :: "string \<Rightarrow> nat list option"
  g_schema :: graph_schema
  g_metadata :: "(string \<times> 'm) list"
  g_nodes :: "(string \<times> node) list option"

definition new_graph :: "'m graph" where
  "new_graph = \<lparr>g_edges = [], g_edge_set = {}, g_adjacency = (\<lambda>_. None), g_reverse = (\<lambda>_. None),
     g_keyword_index = (\<lambda>_. None), g_schema = new_schema, g_metadata = [], g_nodes = None\<rparr>"

definition with_schema :: "graph_schema \<Rightarrow> 'm graph \<Rightarrow> 'm graph" where
  "with_schema s g = g\<lparr>g_schema := s\<rparr>"

definition edge_tokens :: "(string \<Rightarrow> string list) \<Rightarrow> 'm edge \<Rightarrow> string list" where
  "edge_tokens kw e = remdups (kw (e_subject e) @ kw (e_relation e) @ kw (e_object e))"

definition index_keywords ::
  "(string \<Rightarrow> string list) \<Rightarrow> 'm edge \<Rightarrow> nat \<Rightarrow> (string \<Rightarrow> nat list option) \<Rightarrow> string \<Rightarrow> nat list option" where
  "index_keywords kw e idx m = fold (\<lambda>token. entry_push token idx) (edge_tokens kw e) m"

definition push_edge :: "(string \<Rightarrow> string list) \<Rightarrow> 'm graph \<Rightarrow> 'm edge \<Rightarrow> 'm graph" where
  "push_edge kw g e =
     (let idx = length (g_edges g) in
      g\<lparr>g_edge_set := insert (edge_triple e) (g_edge_set g),
        g_adjacency := entry_push (e_subject e) (e_relation e, e_object e, idx) (g_adjacency g),
        g_reverse := entry_push (e_object e) (e_relation e, e_subject e, idx) (g_reverse g),
        g_keyword_index := index_keywords kw e idx (g_keyword_index g),
        g_edges := g_edges g @ [e],
        g_nodes := None\<rparr>)"

definition try_add_edge :: "(string \<Rightarrow> string list) \<Rightarrow> 'm graph \<Rightarrow> 'm edge \<Rightarrow> edge_insert_result \<times> 'm graph" where
  "try_add_edge kw g e =
     (if edge_triple e \<in> g_edge_set g then (Duplicate, g) else (Inserted, push_edge kw g e))"

definition add_edge :: "(string \<Rightarrow> string list) \<Rightarrow> 'm graph \<Rightarrow> 'm edge \<Rightarrow> 'm graph" where
  "add_edge kw g e = snd (try_add_edge kw g e)"

definition add_edges :: "(string \<Rightarrow> string list) \<Rightarrow> 'm graph \<Rightarrow> 'm edge list \<Rightarrow> 'm graph" where
  "add_edges kw g es = foldl (add_edge kw) g es"

definition find_edge_index :: "'m graph \<Rightarrow> string \<Rightarrow> string \<Rightarrow> string \<Rightarrow> nat option" where
  "find_edge_index g s r o' =
     (case g_adjacency g s of
        None \<Rightarrow> None
      | Some entries \<Rightarrow>
          map_option (\<lambda>(_, _, idx). idx) (List.find (\<lambda>(rel, obj, _). rel = r \<and> obj = o') entries))"

definition insert_edge :: "(string \<Rightarrow> string list) \<Rightarrow> 'm graph \<Rightarrow> 'm edge \<Rightarrow> edge_insert_result \<times> 'm graph" where
  "insert_edge kw g e =
     (case find_edge_index g (e_subject e) (e_relation e) (e_object e) of
        Some idx \<Rightarrow>
          if same_edge_payload (g_edges g ! idx) e then (Duplicate, g)
          else (Replaced, g\<lparr>g_edges := (g_edges g)[idx := e]\<rparr>)
      | None \<Rightarrow> (Inserted, push_edge kw g e))"

definition rebuild_indexes :: "(string \<Rightarrow> string list) \<Rightarrow> 'm graph \<Rightarrow> 'm edge list \<Rightarrow> 'm graph" where
  "rebuild_indexes kw g es =
     foldl (add_edge kw)
       (g\<lparr>g_edges := [], g_edge_set := {}, g_adjacency := (\<lambda>_. None), g_reverse := (\<lambda>_. None),
          g_keyword_index := (\<lambda>_. None), g_nodes := None\<rparr>) es"

text \<open>
  The loop of \<open>deduplicate\<close> over the edges; the map \<open>seen\<close> is an association list. \<open>order\<close> is the order
  in which \<open>into_values\<close> gives its values.
\<close>

definition dedup_step :: "merge_strategy \<Rightarrow> (triple \<times> 'm edge) list \<Rightarrow> 'm edge \<Rightarrow> (triple \<times> 'm edge) list" where
  "dedup_step strategy seen e =
     (case map_of seen (edge_triple e) of
        None \<Rightarrow> AList.update (edge_triple e) e seen
      | Some existing \<Rightarrow>
          if strategy = MergeMaxConfidence \<and> f64_less (e_confidence existing) (e_confidence e)
          then AList.update (edge_triple e) e seen else seen)"

definition deduplicate ::
  "(string \<Rightarrow> string list) \<Rightarrow> ('m edge list \<Rightarrow> 'm edge list) \<Rightarrow> 'm graph \<Rightarrow> merge_strategy \<Rightarrow> nat \<times> 'm graph" where
  "deduplicate kw order g strategy =
     (let kept = order (List.map snd (foldl (dedup_step strategy) [] (g_edges g)));
          g' = rebuild_indexes kw g kept
      in (length (g_edges g) - length (g_edges g'), g'))"

definition remove_edge :: "(string \<Rightarrow> string list) \<Rightarrow> 'm graph \<Rightarrow> string \<Rightarrow> string \<Rightarrow> string \<Rightarrow> bool \<times> 'm graph" where
  "remove_edge kw g s r o' =
     (if (s, r, o') \<notin> g_edge_set g then (False, g)
      else (True, rebuild_indexes kw g
        (filter (\<lambda>e. \<not> (e_subject e = s \<and> e_relation e = r \<and> e_object e = o')) (g_edges g))))"

section \<open>Queries\<close>

definition relation_matches :: "string option \<Rightarrow> string \<Rightarrow> bool" where
  "relation_matches relation rel = (case relation of None \<Rightarrow> True | Some r \<Rightarrow> rel = r)"

definition select_entries ::
  "'m edge list \<Rightarrow> (string \<times> string \<times> nat) list option \<Rightarrow> (string \<Rightarrow> bool) \<Rightarrow> (string \<Rightarrow> bool) \<Rightarrow> 'm edge list" where
  "select_entries edges entries P Q =
     (case entries of
        None \<Rightarrow> []
      | Some es \<Rightarrow> List.map (\<lambda>(_, _, idx). edges ! idx) (filter (\<lambda>(rel, x, _). P rel \<and> Q x) es))"

definition select :: "'m graph \<Rightarrow> string \<Rightarrow> string option \<Rightarrow> 'm edge list" where
  "select g subject relation =
     select_entries (g_edges g) (g_adjacency g subject) (relation_matches relation) (\<lambda>_. True)"

definition select_reverse :: "'m graph \<Rightarrow> string \<Rightarrow> string option \<Rightarrow> 'm edge list" where
  "select_reverse g object relation =
     select_entries (g_edges g) (g_reverse g object) (relation_matches relation) (\<lambda>_. True)"

record 'm describe_result =
  dr_entity :: string
  dr_outgoing :: "'m edge list"
  dr_incoming :: "'m edge list"

definition describe :: "'m graph \<Rightarrow> string \<Rightarrow> 'm describe_result" where
  "describe g entity = \<lparr>dr_entity = entity, dr_outgoing = select g entity None, dr_incoming = select_reverse g entity None\<rparr>"

definition exists_edge :: "'m graph \<Rightarrow> string \<Rightarrow> string \<Rightarrow> string \<Rightarrow> bool" where
  "exists_edge g s r o' \<longleftrightarrow> (s, r, o') \<in> g_edge_set g"

definition get_edge :: "'m graph \<Rightarrow> string \<Rightarrow> string \<Rightarrow> string \<Rightarrow> 'm edge option" where
  "get_edge g s r o' = map_option (\<lambda>idx. g_edges g ! idx) (find_edge_index g s r o')"

definition edges_between :: "'m graph \<Rightarrow> string \<Rightarrow> string \<Rightarrow> 'm edge list" where
  "edges_between g subject object =
     select_entries (g_edges g) (g_adjacency g subject) (\<lambda>_. True) (\<lambda>obj. obj = object)"

definition relations_of :: "(string \<times> string \<times> nat) list option \<Rightarrow> string list" where
  "relations_of entries =
     remdups_adj (sort (case entries of Some es \<Rightarrow> List.map fst es | None \<Rightarrow> []))"

definition outgoing_relations :: "'m graph \<Rightarrow> string \<Rightarrow> string list" where
  "outgoing_relations g subject = relations_of (g_adjacency g subject)"

definition incoming_relations :: "'m graph \<Rightarrow> string \<Rightarrow> string list" where
  "incoming_relations g object = relations_of (g_reverse g object)"

text \<open>
  \<open>Iterator::max_by\<close> with \<open>partial_cmp(..).unwrap()\<close>: the last of the greatest elements; \<open>None\<close> is the panic
  when a comparison meets a NaN.
\<close>

fun max_confidence :: "'m edge \<Rightarrow> 'm edge list \<Rightarrow> 'm edge option" where
  "max_confidence best [] = Some best"
| "max_confidence best (e # es) =
     (if f64_is_nan (e_confidence best) \<or> f64_is_nan (e_confidence e) then None
      else max_confidence (if f64_less (e_confidence e) (e_confidence best) then best else e) es)"

text \<open>\<open>walk\<close>: a panic, no edge at a hop, or the entity reached with the path.\<close>

datatype 'm walk_outcome = WalkPanic | WalkNone | WalkEnd string "'m edge list"

fun walk_from :: "'m graph \<Rightarrow> string \<Rightarrow> 'm edge list \<Rightarrow> string list \<Rightarrow> 'm walk_outcome" where
  "walk_from g current path [] = WalkEnd current path"
| "walk_from g current path (rel # rels) =
     (case select g current (Some rel) of
        [] \<Rightarrow> WalkNone
      | e # es \<Rightarrow>
          (case max_confidence e es of
             None \<Rightarrow> WalkPanic
           | Some best \<Rightarrow> walk_from g (e_object best) (path @ [best]) rels))"

definition walk :: "'m graph \<Rightarrow> string \<Rightarrow> string list \<Rightarrow> 'm walk_outcome" where
  "walk g subject relations = walk_from g subject [] relations"

text \<open>
  \<open>search\<close>; \<open>words\<close> are the words of the lower-case query. The scores are an association list; the sort
  by score and index makes its order invisible.
\<close>

definition score_step :: "(nat \<times> nat) list \<Rightarrow> nat \<Rightarrow> (nat \<times> nat) list" where
  "score_step scores idx = AList.update idx ((case map_of scores idx of Some n \<Rightarrow> n | None \<Rightarrow> 0) + 1) scores"

definition search_scores :: "'m graph \<Rightarrow> string list \<Rightarrow> (nat \<times> nat) list" where
  "search_scores g words =
     foldl (\<lambda>scores token. case g_keyword_index g token of
         Some indices \<Rightarrow> foldl score_step scores indices | None \<Rightarrow> scores) [] words"

definition search :: "'m graph \<Rightarrow> string list \<Rightarrow> nat \<Rightarrow> 'm edge list" where
  "search g words max_results =
     List.map (\<lambda>(idx, _). g_edges g ! idx)
       (take max_results (sort_key (\<lambda>(idx, n). (- int n, idx)) (search_scores g words)))"

section \<open>Nodes\<close>

definition entity_names :: "'m edge list \<Rightarrow> string list" where
  "entity_names es = remdups (List.map e_subject es @ List.map e_object es)"

definition compute_node :: "'m edge list \<Rightarrow> graph_schema \<Rightarrow> string \<Rightarrow> node" where
  "compute_node es schema name =
     (let out = filter (\<lambda>e. e_subject e = name) es; inc = filter (\<lambda>e. e_object e = name) es in
      \<lparr>n_name = name, n_node_type = infer_type schema (List.map e_relation out) (List.map e_relation inc),
       n_degree = length out + length inc, n_out_degree = length out, n_in_degree = length inc\<rparr>)"

definition compute_nodes :: "'m edge list \<Rightarrow> graph_schema \<Rightarrow> (string \<times> node) list" where
  "compute_nodes es schema = List.map (\<lambda>name. (name, compute_node es schema name)) (entity_names es)"

definition ensure_nodes :: "'m graph \<Rightarrow> 'm graph" where
  "ensure_nodes g =
     (case g_nodes g of
        Some _ \<Rightarrow> g
      | None \<Rightarrow> g\<lparr>g_nodes := Some (compute_nodes (g_edges g) (g_schema g))\<rparr>)"

definition cached_nodes :: "'m graph \<Rightarrow> (string \<times> node) list" where
  "cached_nodes g = (case g_nodes (ensure_nodes g) of Some n \<Rightarrow> n | None \<Rightarrow> [])"

definition edge_count :: "'m graph \<Rightarrow> nat" where
  "edge_count g = length (g_edges g)"

definition node_count :: "'m graph \<Rightarrow> nat" where
  "node_count g = length (cached_nodes g)"

definition graph_nodes :: "'m graph \<Rightarrow> node list" where
  "graph_nodes g = sort_key n_name (List.map snd (cached_nodes g))"

definition list_relations :: "'m graph \<Rightarrow> string list" where
  "list_relations g = sort (remdups (List.map e_relation (g_edges g)))"

definition list_entities :: "'m graph \<Rightarrow> string list" where
  "list_entities g = sort (List.map fst (cached_nodes g))"

definition count_edges :: "'m graph \<Rightarrow> string option \<Rightarrow> source_type option \<Rightarrow> nat" where
  "count_edges g relation source =
     length (filter (\<lambda>e. relation_matches relation (e_relation e) \<and>
       (case source of None \<Rightarrow> True | Some s \<Rightarrow> e_source e = s)) (g_edges g))"

definition find_node :: "'m graph \<Rightarrow> string \<Rightarrow> node option" where
  "find_node g name = map_of (cached_nodes g) name"

end
