(* ===== verification/GraphLaws.thy ===== *)
theory GraphLaws
  imports GraphCore "HOL-Library.Multiset"
begin

text \<open>
  The invariant of the graph, that every operation keeps it, and what the operations do to the map from
  triples to edges that the graph stands for.
\<close>

section \<open>The invariant\<close>

text \<open>The entries of an index over the edges: \<open>key\<close> is what it is keyed by, \<open>other\<close> the far end.\<close>

definition index_entries ::
  "('m edge \<Rightarrow> string) \<Rightarrow> ('m edge \<Rightarrow> string) \<Rightarrow> 'm edge list \<Rightarrow> string \<Rightarrow> (string \<times> string \<times> nat) list" where
  "index_entries key other es k =
     List.map (\<lambda>(i, e). (e_relation e, other e, i)) (filter (\<lambda>(i, e). key e = k) (List.enumerate 0 es))"

definition keyword_entries :: "(string \<Rightarrow> string list) \<Rightarrow> 'm edge list \<Rightarrow> string \<Rightarrow> nat list" where
  "keyword_entries kw es token =
     List.map fst (filter (\<lambda>(i, e). token \<in> set (edge_tokens kw e)) (List.enumerate 0 es))"

definition graph_ok :: "(string \<Rightarrow> string list) \<Rightarrow> 'm graph \<Rightarrow> bool" where
  "graph_ok kw g \<longleftrightarrow>
     distinct (List.map edge_triple (g_edges g)) \<and>
     g_edge_set g = edge_triple ` set (g_edges g) \<and>
     g_adjacency g = (\<lambda>k. some_unless_empty (index_entries e_subject e_object (g_edges g) k)) \<and>
     g_reverse g = (\<lambda>k. some_unless_empty (index_entries e_object e_subject (g_edges g) k)) \<and>
     g_keyword_index g = (\<lambda>token. some_unless_empty (keyword_entries kw (g_edges g) token))"

lemma index_entries_snoc:
  "index_entries key other (es @ [e]) k =
     index_entries key other es k @ (if key e = k then [(e_relation e, other e, length es)] else [])"
  by (simp add: index_entries_def enumerate_append_eq)

lemma keyword_entries_snoc:
  "keyword_entries kw (es @ [e]) token =
     keyword_entries kw es token @ (if token \<in> set (edge_tokens kw e) then [length es] else [])"
  by (simp add: keyword_entries_def enumerate_append_eq)

lemma entry_push_index:
  "entry_push (key e) (e_relation e, other e, length es) (\<lambda>k. some_unless_empty (index_entries key other es k)) =
     (\<lambda>k. some_unless_empty (index_entries key other (es @ [e]) k))"
  by (auto simp: entry_push_def some_unless_empty_def index_entries_snoc fun_eq_iff)

lemma fold_entry_push:
  "distinct tokens \<Longrightarrow> fold (\<lambda>t. entry_push t idx) tokens m =
     (\<lambda>t. if t \<in> set tokens then Some ((case m t of Some xs \<Rightarrow> xs | None \<Rightarrow> []) @ [idx]) else m t)"
  by (induction tokens arbitrary: m) (auto simp: entry_push_def fun_eq_iff)

lemma index_keywords_entries:
  "index_keywords kw e (length es) (\<lambda>t. some_unless_empty (keyword_entries kw es t)) =
     (\<lambda>t. some_unless_empty (keyword_entries kw (es @ [e]) t))"
proof -
  have "distinct (edge_tokens kw e)" by (simp add: edge_tokens_def)
  then show ?thesis
    unfolding index_keywords_def
    by (subst fold_entry_push) (auto simp: some_unless_empty_def keyword_entries_snoc fun_eq_iff)
qed

lemma graph_ok_new: "graph_ok kw new_graph"
  by (simp add: graph_ok_def new_graph_def index_entries_def keyword_entries_def some_unless_empty_def)

lemma graph_ok_clear:
  "graph_ok kw (g\<lparr>g_edges := [], g_edge_set := {}, g_adjacency := (\<lambda>_. None), g_reverse := (\<lambda>_. None),
     g_keyword_index := (\<lambda>_. None), g_nodes := None\<rparr>)"
  by (simp add: graph_ok_def index_entries_def keyword_entries_def some_unless_empty_def)

lemma graph_ok_push:
  "graph_ok kw g \<Longrightarrow> edge_triple e \<notin> g_edge_set g \<Longrightarrow> graph_ok kw (push_edge kw g e)"
  by (simp add: graph_ok_def push_edge_def Let_def entry_push_index index_keywords_entries)

lemma push_edge_edges [simp]: "g_edges (push_edge kw g e) = g_edges g @ [e]"
  by (simp add: push_edge_def Let_def)

lemma graph_ok_add: "graph_ok kw g \<Longrightarrow> graph_ok kw (add_edge kw g e)"
  by (simp add: add_edge_def try_add_edge_def graph_ok_push)

lemma graph_ok_add_edges: "graph_ok kw g \<Longrightarrow> graph_ok kw (foldl (add_edge kw) g es)"
  by (induction es arbitrary: g) (simp_all add: graph_ok_add)

lemma graph_ok_rebuild: "graph_ok kw (rebuild_indexes kw g es)"
  by (simp add: rebuild_indexes_def graph_ok_add_edges graph_ok_clear)

lemma add_edge_edges:
  "graph_ok kw g \<Longrightarrow> g_edges (add_edge kw g e) =
     (if edge_triple e \<in> edge_triple ` set (g_edges g) then g_edges g else g_edges g @ [e])"
  by (simp add: add_edge_def try_add_edge_def graph_ok_def)

lemma add_edges_distinct:
  "graph_ok kw g \<Longrightarrow> distinct (map edge_triple (g_edges g @ es)) \<Longrightarrow>
     g_edges (foldl (add_edge kw) g es) = g_edges g @ es"
proof (induction es arbitrary: g)
  case (Cons e es)
  then have "g_edges (add_edge kw g e) = g_edges g @ [e]" by (auto simp: add_edge_edges)
  with Cons show ?case by (simp add: graph_ok_add)
qed simp

lemma rebuild_edges: "distinct (map edge_triple es) \<Longrightarrow> g_edges (rebuild_indexes kw g es) = es"
  unfolding rebuild_indexes_def by (subst add_edges_distinct) (simp_all add: graph_ok_clear)

section \<open>Lookups\<close>

lemma find_map_filter:
  "List.find P (map f (filter R xs)) = map_option f (List.find (\<lambda>x. R x \<and> P (f x)) xs)"
  by (induction xs) auto

lemma find_enumerate:
  "List.find (\<lambda>x. P (snd x)) (List.enumerate n es) = Some x \<Longrightarrow>
     n \<le> fst x \<and> fst x < n + length es \<and> es ! (fst x - n) = snd x \<and> P (snd x)"
  by (induction es arbitrary: n) (fastforce split: if_splits simp: nth_Cons')+

lemma find_edge_index_find:
  assumes "graph_ok kw g"
  shows "find_edge_index g s r o' =
    map_option fst (List.find (\<lambda>x. edge_triple (snd x) = (s, r, o')) (List.enumerate 0 (g_edges g)))"
proof -
  have "find_edge_index g s r o' = map_option (\<lambda>(_, _, i). i)
      (List.find (\<lambda>(rel, obj, _). rel = r \<and> obj = o') (index_entries e_subject e_object (g_edges g) s))"
    using assms by (auto simp: find_edge_index_def graph_ok_def some_unless_empty_def)
  then show ?thesis
    by (simp add: index_entries_def find_map_filter case_prod_beta edge_triple_def option.map_comp comp_def)
qed

lemma find_edge_index_Some:
  assumes "graph_ok kw g" and "find_edge_index g s r o' = Some i"
  shows "i < length (g_edges g) \<and> edge_triple (g_edges g ! i) = (s, r, o')"
  using assms(2) find_enumerate [where P = "\<lambda>e. edge_triple e = (s, r, o')" and n = 0]
  unfolding find_edge_index_find [OF assms(1)] by fastforce

lemma find_edge_index_None:
  assumes "graph_ok kw g"
  shows "find_edge_index g s r o' = None \<longleftrightarrow> (s, r, o') \<notin> edge_triple ` set (g_edges g)"
proof -
  have "set (g_edges g) = snd ` set (List.enumerate 0 (g_edges g))" by (metis list.set_map map_snd_enumerate)
  then show ?thesis
    unfolding find_edge_index_find [OF assms] by (auto simp: find_None_iff image_iff) (metis snd_conv)+
qed

text \<open>The edges of a graph as a map from their triples.\<close>

definition stored :: "'m graph \<Rightarrow> triple \<Rightarrow> 'm edge option" where
  "stored g t = List.find (\<lambda>e. edge_triple e = t) (g_edges g)"

lemma stored_Some:
  assumes "graph_ok kw g"
  shows "stored g t = Some e \<longleftrightarrow> e \<in> set (g_edges g) \<and> edge_triple e = t"
proof
  assume "stored g t = Some e"
  then show "e \<in> set (g_edges g) \<and> edge_triple e = t"
    by (auto simp: stored_def find_Some_iff)
next
  assume e: "e \<in> set (g_edges g) \<and> edge_triple e = t"
  then have "stored g t \<noteq> None" by (auto simp: stored_def find_None_iff)
  then obtain f where f: "stored g t = Some f" by blast
  then have "f \<in> set (g_edges g)" "edge_triple f = edge_triple e" using e
    by (auto simp: stored_def find_Some_iff)
  moreover have "inj_on edge_triple (set (g_edges g))"
    using assms by (simp add: graph_ok_def distinct_map)
  ultimately show "stored g t = Some e" using e f by (auto dest: inj_onD)
qed

lemma stored_nth:
  "graph_ok kw g \<Longrightarrow> i < length (g_edges g) \<Longrightarrow> stored g (edge_triple (g_edges g ! i)) = Some (g_edges g ! i)"
  by (simp add: stored_Some)

lemma stored_None: "stored g t = None \<longleftrightarrow> t \<notin> edge_triple ` set (g_edges g)"
  by (auto simp: stored_def find_None_iff)

lemma get_edge_stored: "graph_ok kw g \<Longrightarrow> get_edge g s r o' = stored g (s, r, o')"
proof (cases "find_edge_index g s r o'")
  case None
  assume ok: "graph_ok kw g"
  have "stored g (s, r, o') = None"
    unfolding stored_None using None find_edge_index_None [OF ok] by blast
  with None show ?thesis by (simp add: get_edge_def)
next
  case (Some i)
  assume ok: "graph_ok kw g"
  from find_edge_index_Some [OF ok Some] stored_nth [OF ok, of i] Some show ?thesis
    by (auto simp: get_edge_def)
qed

lemma select_enumerate:
  "map (\<lambda>x. es ! fst x) (filter (\<lambda>x. R (snd x)) (List.enumerate 0 es)) = filter R es"
proof -
  have "map (\<lambda>x. es ! fst x) (filter (\<lambda>x. R (snd x)) (List.enumerate 0 es)) =
      map snd (filter (\<lambda>x. R (snd x)) (List.enumerate 0 es))"
    by (rule map_cong) (auto simp: in_set_enumerate_eq)
  moreover have "map snd (filter (\<lambda>x. R (snd x)) (List.enumerate n es)) = filter R es" for n
    by (induction es arbitrary: n) auto
  ultimately show ?thesis by simp
qed

lemma select_entries_index:
  "select_entries es (some_unless_empty (index_entries key other es k)) P Q =
     filter (\<lambda>e. key e = k \<and> P (e_relation e) \<and> Q (other e)) es"
proof -
  have "select_entries es (some_unless_empty xs) P Q =
      map (\<lambda>x. es ! snd (snd x)) (filter (\<lambda>x. P (fst x) \<and> Q (fst (snd x))) xs)" for xs :: "(string \<times> string \<times> nat) list"
    by (simp add: select_entries_def some_unless_empty_def case_prod_unfold)
  then show ?thesis
    using select_enumerate [of es "\<lambda>e. (P (e_relation e) \<and> Q (other e)) \<and> key e = k"]
    by (simp add: index_entries_def case_prod_beta filter_map comp_def conj_commute conj_left_commute)
qed

lemma select_filter:
  "graph_ok kw g \<Longrightarrow> select g s relation =
     filter (\<lambda>e. e_subject e = s \<and> relation_matches relation (e_relation e)) (g_edges g)"
  by (simp add: select_def graph_ok_def select_entries_index)

lemma select_reverse_filter:
  "graph_ok kw g \<Longrightarrow> select_reverse g x relation =
     filter (\<lambda>e. e_object e = x \<and> relation_matches relation (e_relation e)) (g_edges g)"
  by (simp add: select_reverse_def graph_ok_def select_entries_index)

lemma edges_between_filter:
  "graph_ok kw g \<Longrightarrow> edges_between g s x = filter (\<lambda>e. e_subject e = s \<and> e_object e = x) (g_edges g)"
  by (simp add: edges_between_def graph_ok_def select_entries_index)

section \<open>Updates\<close>

lemma stored_push:
  assumes "graph_ok kw g" and "edge_triple e \<notin> g_edge_set g"
  shows "stored (push_edge kw g e) = (stored g)(edge_triple e \<mapsto> e)"
proof
  fix t
  have "List.find P (xs @ [x]) = (case List.find P xs of Some y \<Rightarrow> Some y | None \<Rightarrow> if P x then Some x else None)"
    for P and xs :: "'a edge list" and x
    by (induction xs) auto
  moreover have "stored g (edge_triple e) = None"
    using assms by (simp add: stored_None graph_ok_def)
  ultimately show "stored (push_edge kw g e) t = ((stored g)(edge_triple e \<mapsto> e)) t"
    by (auto simp: stored_def split: option.split)
qed

lemma stored_add:
  "graph_ok kw g \<Longrightarrow> stored (add_edge kw g e) =
     (if stored g (edge_triple e) = None then (stored g)(edge_triple e \<mapsto> e) else stored g)"
  by (auto simp: add_edge_def try_add_edge_def stored_push stored_None graph_ok_def)

lemma insert_edge_cases:
  assumes "graph_ok kw g"
  obtains (new) "stored g (edge_triple e) = None" "insert_edge kw g e = (Inserted, push_edge kw g e)"
      "edge_triple e \<notin> g_edge_set g"
    | (same) old where "stored g (edge_triple e) = Some old" "same_edge_payload old e" "insert_edge kw g e = (Duplicate, g)"
    | (replace) i where "i < length (g_edges g)" "edge_triple (g_edges g ! i) = edge_triple e"
        "\<not> same_edge_payload (g_edges g ! i) e" "insert_edge kw g e = (Replaced, g\<lparr>g_edges := (g_edges g)[i := e]\<rparr>)"
proof (cases "find_edge_index g (e_subject e) (e_relation e) (e_object e)")
  case None
  with find_edge_index_None [OF assms] have "edge_triple e \<notin> edge_triple ` set (g_edges g)"
    by (simp add: edge_triple_def)
  with None assms new show ?thesis by (simp add: insert_edge_def stored_None graph_ok_def)
next
  case (Some i)
  with find_edge_index_Some [OF assms] have i: "i < length (g_edges g)" "edge_triple (g_edges g ! i) = edge_triple e"
    by (auto simp: edge_triple_def)
  with stored_nth [OF assms i(1)] Some same replace show ?thesis
    by (cases "same_edge_payload (g_edges g ! i) e") (auto simp: insert_edge_def)
qed

lemma update_same_triples:
  "i < length es \<Longrightarrow> edge_triple (es ! i) = edge_triple e \<Longrightarrow> map edge_triple (es[i := e]) = map edge_triple es"
  by (simp add: map_update) (metis length_map list_update_id nth_map)

lemma enumerate_map: "List.enumerate n (map f xs) = map (\<lambda>(i, x). (i, f x)) (List.enumerate n xs)"
  by (induction xs arbitrary: n) auto

text \<open>The indexes depend on the triples only.\<close>

lemma index_entries_triples:
  fixes es es' :: "'m edge list"
  assumes m: "map edge_triple es = map edge_triple es'"
  shows "index_entries e_subject e_object es = index_entries e_subject e_object es' \<and>
     index_entries e_object e_subject es = index_entries e_object e_subject es' \<and>
     keyword_entries kw es = keyword_entries kw es'"
proof -
  have i: "index_entries e_subject e_object es k = map (\<lambda>(i, s, r, x). (r, x, i))
      (filter (\<lambda>(i, s, r, x). s = k) (List.enumerate 0 (map edge_triple es)))"
    "index_entries e_object e_subject es k = map (\<lambda>(i, s, r, x). (r, s, i))
      (filter (\<lambda>(i, s, r, x). x = k) (List.enumerate 0 (map edge_triple es)))"
    "keyword_entries kw es k = map fst (filter (\<lambda>(i, s, r, x). k \<in> set (remdups (kw s @ kw r @ kw x)))
      (List.enumerate 0 (map edge_triple es)))" for k and es :: "'m edge list"
    by (simp_all add: index_entries_def keyword_entries_def enumerate_map filter_map comp_def case_prod_unfold
        edge_triple_def edge_tokens_def)
  show ?thesis by (simp add: fun_eq_iff i m)
qed

lemma graph_ok_same_triples:
  assumes "graph_ok kw g" and "map edge_triple es = map edge_triple (g_edges g)"
  shows "graph_ok kw (g\<lparr>g_edges := es\<rparr>)"
proof -
  have "edge_triple ` set es = edge_triple ` set (g_edges g)" by (metis assms(2) list.set_map)
  with assms index_entries_triples [OF assms(2), of kw] show ?thesis by (simp add: graph_ok_def)
qed

lemma graph_ok_insert:
  assumes "graph_ok kw g"
  shows "graph_ok kw (snd (insert_edge kw g e))"
  using assms
proof (cases rule: insert_edge_cases [where e = e])
  case (replace i)
  with assms update_same_triples graph_ok_same_triples show ?thesis by (metis snd_conv)
qed (simp_all add: assms graph_ok_push)

lemma stored_insert:
  assumes "graph_ok kw g"
  shows "stored (snd (insert_edge kw g e)) = (stored g)(edge_triple e \<mapsto>
    (case stored g (edge_triple e) of Some old \<Rightarrow> if same_edge_payload old e then old else e | None \<Rightarrow> e))"
  using assms
proof (cases rule: insert_edge_cases [where e = e])
  case new
  then show ?thesis by (simp add: stored_push [OF assms])
next
  case (same old)
  then show ?thesis by auto
next
  case (replace i)
  let ?g = "g\<lparr>g_edges := (g_edges g)[i := e]\<rparr>"
  have ok: "graph_ok kw ?g" using graph_ok_insert [OF assms, of e] replace(4) by simp
  have "stored ?g t = ((stored g)(edge_triple e \<mapsto> e)) t" for t
  proof (cases "t = edge_triple e")
    case True
    with stored_nth [OF ok, of i] replace(1) show ?thesis by simp
  next
    case False
    have "f \<in> set ((g_edges g)[i := e]) \<and> edge_triple f = t \<longleftrightarrow> f \<in> set (g_edges g) \<and> edge_triple f = t" for f
      using False replace(1,2) by (auto simp: in_set_conv_nth nth_list_update)
    then have "stored ?g t = Some f \<longleftrightarrow> stored g t = Some f" for f
      by (simp add: stored_Some [OF ok] stored_Some [OF assms])
    with False show ?thesis by (cases "stored g t"; cases "stored ?g t") auto
  qed
  moreover have "stored g (edge_triple e) = Some (g_edges g ! i)"
    using stored_nth [OF assms replace(1)] replace(2) by simp
  ultimately show ?thesis using replace(3,4) by (simp add: fun_eq_iff)
qed

lemma stored_filter:
  "List.find (\<lambda>e. edge_triple e = t) (filter (\<lambda>e. P (edge_triple e)) es) =
     (if P t then List.find (\<lambda>e. edge_triple e = t) es else None)"
  by (induction es) auto

lemma remove_edge_spec:
  assumes "graph_ok kw g"
  shows "graph_ok kw (snd (remove_edge kw g s r x))"
    and "g_edges (snd (remove_edge kw g s r x)) = filter (\<lambda>e. edge_triple e \<noteq> (s, r, x)) (g_edges g)"
    and "fst (remove_edge kw g s r x) \<longleftrightarrow> (s, r, x) \<in> edge_triple ` set (g_edges g)"
proof -
  have f: "filter (\<lambda>e. \<not> (e_subject e = s \<and> e_relation e = r \<and> e_object e = x)) (g_edges g) =
      filter (\<lambda>e. edge_triple e \<noteq> (s, r, x)) (g_edges g)"
    by (simp add: edge_triple_def)
  have d: "distinct (map edge_triple (filter (\<lambda>e. edge_triple e \<noteq> (s, r, x)) (g_edges g)))"
    using assms by (simp add: graph_ok_def distinct_map_filter)
  have "filter (\<lambda>e. edge_triple e \<noteq> (s, r, x)) (g_edges g) = g_edges g" if "(s, r, x) \<notin> g_edge_set g"
    using that assms by (auto simp: graph_ok_def filter_id_conv image_iff)
  then show "g_edges (snd (remove_edge kw g s r x)) = filter (\<lambda>e. edge_triple e \<noteq> (s, r, x)) (g_edges g)"
    unfolding remove_edge_def f using rebuild_edges [OF d] by auto
  show "graph_ok kw (snd (remove_edge kw g s r x))"
    by (simp add: remove_edge_def graph_ok_rebuild assms)
  show "fst (remove_edge kw g s r x) \<longleftrightarrow> (s, r, x) \<in> edge_triple ` set (g_edges g)"
    using assms by (simp add: remove_edge_def graph_ok_def)
qed

lemma stored_remove:
  "graph_ok kw g \<Longrightarrow> stored (snd (remove_edge kw g s r x)) = (stored g)((s, r, x) := None)"
  by (simp add: fun_eq_iff stored_def remove_edge_spec(2) stored_filter [where P = "\<lambda>t. t \<noteq> (s, r, x)"])

section \<open>The graph as an edge store\<close>

text \<open>
  What the algorithms rely on: a store of edges under their triples. \<open>same\<close> is when \<open>put\<close> leaves the
  stored edge alone.
\<close>

locale edge_store =
  fixes invar :: "'g \<Rightarrow> bool" and look :: "'g \<Rightarrow> triple \<Rightarrow> 'e option" and key :: "'e \<Rightarrow> triple"
    and same :: "'e \<Rightarrow> 'e \<Rightarrow> bool"
    and add put :: "'g \<Rightarrow> 'e \<Rightarrow> 'g" and del :: "'g \<Rightarrow> triple \<Rightarrow> 'g"
  assumes invar_add: "invar g \<Longrightarrow> invar (add g e)" and invar_put: "invar g \<Longrightarrow> invar (put g e)"
    and invar_del: "invar g \<Longrightarrow> invar (del g t)"
    and look_key: "invar g \<Longrightarrow> look g t = Some e \<Longrightarrow> key e = t"
    and look_add: "invar g \<Longrightarrow> look (add g e) = (if look g (key e) = None then (look g)(key e \<mapsto> e) else look g)"
    and look_put: "invar g \<Longrightarrow> look (put g e) = (look g)(key e \<mapsto>
      (case look g (key e) of Some old \<Rightarrow> if same old e then old else e | None \<Rightarrow> e))"
    and look_del: "invar g \<Longrightarrow> look (del g t) = (look g)(t := None)"
begin

lemma invar_adds: "invar g \<Longrightarrow> invar (foldl add g es)"
  by (induction es arbitrary: g) (simp_all add: invar_add)

lemma look_adds:
  "invar g \<Longrightarrow> look (foldl add g es) t = (case look g t of Some e \<Rightarrow> Some e | None \<Rightarrow> List.find (\<lambda>e. key e = t) es)"
  by (induction es arbitrary: g) (auto simp: invar_add look_add split: option.splits)

text \<open>One edge of a merge: a better edge takes the place of the old one.\<close>

definition merge_step :: "('e \<Rightarrow> 'e \<Rightarrow> bool) \<Rightarrow> 'g \<Rightarrow> 'e \<Rightarrow> 'g" where
  "merge_step better g e =
     (case look g (key e) of
        None \<Rightarrow> add g e
      | Some old \<Rightarrow> if better old e then add (del g (key e)) e else g)"

lemma invar_merge_step: "invar g \<Longrightarrow> invar (merge_step better g e)"
  by (simp add: merge_step_def invar_add invar_del split: option.split)

lemma look_merge_step:
  "invar g \<Longrightarrow> look (merge_step better g e) = (look g)(key e \<mapsto>
     (case look g (key e) of None \<Rightarrow> e | Some old \<Rightarrow> if better old e then e else old))"
  by (auto simp: merge_step_def look_add look_del invar_del fun_eq_iff split: option.split)

lemma look_merge:
  "invar g \<Longrightarrow> distinct (map key es) \<Longrightarrow>
     invar (foldl (merge_step better) g es) \<and>
     look (foldl (merge_step better) g es) t =
       (case List.find (\<lambda>e. key e = t) es of
          None \<Rightarrow> look g t
        | Some e \<Rightarrow> Some (case look g t of None \<Rightarrow> e | Some old \<Rightarrow> if better old e then e else old))"
proof (induction es arbitrary: g)
  case (Cons e es)
  have "List.find (\<lambda>e'. key e' = key e) es = None"
    using Cons.prems(2) by (auto simp: find_None_iff image_iff)
  with Cons.IH [of "merge_step better g e"] Cons.prems show ?case
    by (auto simp: invar_merge_step look_merge_step split: option.splits)
qed simp

end

definition remove_triple :: "(string \<Rightarrow> string list) \<Rightarrow> 'm graph \<Rightarrow> triple \<Rightarrow> 'm graph" where
  "remove_triple kw g t = (case t of (s, r, x) \<Rightarrow> snd (remove_edge kw g s r x))"

interpretation graph: edge_store "graph_ok kw" stored edge_triple same_edge_payload "add_edge kw"
  "\<lambda>g e. snd (insert_edge kw g e)" "remove_triple kw" for kw
proof
  fix g :: "'a graph" and e t
  assume ok: "graph_ok kw g"
  show "graph_ok kw (add_edge kw g e)" "graph_ok kw (snd (insert_edge kw g e))"
    by (rule graph_ok_add [OF ok] graph_ok_insert [OF ok])+
  show "graph_ok kw (remove_triple kw g t)" "stored (remove_triple kw g t) = (stored g)(t := None)"
    by (simp_all add: remove_triple_def remove_edge_spec(1) [OF ok] stored_remove [OF ok] split: prod.split)
  show "stored g t = Some e \<Longrightarrow> edge_triple e = t"
    using stored_Some [OF ok] by blast
  show "stored (add_edge kw g e) =
      (if stored g (edge_triple e) = None then (stored g)(edge_triple e \<mapsto> e) else stored g)"
    by (rule stored_add [OF ok])
  show "stored (snd (insert_edge kw g e)) = (stored g)(edge_triple e \<mapsto>
      (case stored g (edge_triple e) of Some old \<Rightarrow> if same_edge_payload old e then old else e | None \<Rightarrow> e))"
    by (rule stored_insert [OF ok])
qed

section \<open>Deduplication\<close>

lemma update_new: "k \<notin> fst ` set ps \<Longrightarrow> AList.update k v ps = ps @ [(k, v)]"
  by (induction ps) auto

lemma dedup_distinct:
  "distinct (map edge_triple (es @ fs)) \<Longrightarrow>
     foldl (dedup_step strategy) (map (\<lambda>e. (edge_triple e, e)) es) fs = map (\<lambda>e. (edge_triple e, e)) (es @ fs)"
proof (induction fs arbitrary: es)
  case (Cons f fs)
  have n: "edge_triple f \<notin> fst ` set (map (\<lambda>e. (edge_triple e, e)) es)"
    using Cons.prems by auto
  then have "map_of (map (\<lambda>e. (edge_triple e, e)) es) (edge_triple f) = None" by (simp add: map_of_eq_None_iff)
  then have "dedup_step strategy (map (\<lambda>e. (edge_triple e, e)) es) f = map (\<lambda>e. (edge_triple e, e)) (es @ [f])"
    by (simp add: dedup_step_def update_new [OF n])
  with Cons.IH [of "es @ [f]"] Cons.prems show ?case by simp
qed simp

lemma deduplicate_spec:
  assumes ok: "graph_ok kw g" and order: "\<And>xs. mset (order xs) = mset xs"
  shows "fst (deduplicate kw order g strategy) = 0"
    and "g_edges (snd (deduplicate kw order g strategy)) = order (g_edges g)"
    and "graph_ok kw (snd (deduplicate kw order g strategy))"
proof -
  have d: "distinct (map edge_triple (g_edges g))" using ok by (simp add: graph_ok_def)
  have kept: "map snd (foldl (dedup_step strategy) [] (g_edges g)) = g_edges g"
    using dedup_distinct [of "[]" "g_edges g" strategy] d by (simp add: comp_def)
  have "mset (map edge_triple (order (g_edges g))) = mset (map edge_triple (g_edges g))"
    by (simp add: order)
  with d have "distinct (map edge_triple (order (g_edges g)))" by (metis mset_eq_imp_distinct_iff)
  from rebuild_edges [OF this]
  show e: "g_edges (snd (deduplicate kw order g strategy)) = order (g_edges g)"
    by (simp add: deduplicate_def kept Let_def)
  have "length (order (g_edges g)) = length (g_edges g)" using order mset_eq_length by blast
  with e show "fst (deduplicate kw order g strategy) = 0"
    by (simp add: deduplicate_def Let_def)
  show "graph_ok kw (snd (deduplicate kw order g strategy))"
    by (simp add: deduplicate_def Let_def graph_ok_rebuild)
qed

section \<open>The node cache\<close>

definition nodes_ok :: "'m graph \<Rightarrow> bool" where
  "nodes_ok g \<longleftrightarrow> g_nodes g = None \<or> g_nodes g = Some (compute_nodes (g_edges g) (g_schema g))"

lemma compute_nodes_triples:
  fixes es es' :: "'m edge list"
  assumes m: "map edge_triple es = map edge_triple es'"
  shows "compute_nodes es schema = compute_nodes es' schema"
proof -
  define F :: "triple list \<Rightarrow> (string \<times> node) list" where "F ts = map (\<lambda>name.
      let out = filter (\<lambda>t. fst t = name) ts; inc = filter (\<lambda>t. snd (snd t) = name) ts in
       (name, \<lparr>n_name = name, n_node_type = infer_type schema (map (fst \<circ> snd) out) (map (fst \<circ> snd) inc),
        n_degree = length out + length inc, n_out_degree = length out, n_in_degree = length inc\<rparr>))
      (remdups (map fst ts @ map (snd \<circ> snd) ts))" for ts
  have "compute_nodes es schema = F (map edge_triple es)" for es :: "'m edge list"
    by (simp add: F_def compute_nodes_def entity_names_def compute_node_def edge_triple_def filter_map comp_def Let_def)
  then show ?thesis by (simp add: m)
qed

lemma nodes_ok_ops:
  "nodes_ok new_graph" "nodes_ok (push_edge kw g e)" "nodes_ok (ensure_nodes g)" if "nodes_ok g"
  using that by (auto simp: nodes_ok_def new_graph_def push_edge_def Let_def ensure_nodes_def split: option.split)

lemma nodes_ok_add: "nodes_ok g \<Longrightarrow> nodes_ok (add_edge kw g e)"
  by (simp add: add_edge_def try_add_edge_def nodes_ok_ops)

lemma nodes_ok_adds: "nodes_ok g \<Longrightarrow> nodes_ok (foldl (add_edge kw) g es)"
  by (induction es arbitrary: g) (simp_all add: nodes_ok_add)

lemma nodes_ok_rebuild: "nodes_ok (rebuild_indexes kw g es)"
  unfolding rebuild_indexes_def by (rule nodes_ok_adds) (simp add: nodes_ok_def)

lemma nodes_ok_insert:
  assumes "graph_ok kw g" and "nodes_ok g"
  shows "nodes_ok (snd (insert_edge kw g e))"
  using assms(1)
proof (cases rule: insert_edge_cases [where e = e])
  case (replace i)
  with assms(2) compute_nodes_triples [OF update_same_triples [OF replace(1,2)]] show ?thesis
    by (simp add: nodes_ok_def)
qed (simp_all add: assms nodes_ok_ops)

lemma nodes_ok_remove: "nodes_ok g \<Longrightarrow> nodes_ok (snd (remove_edge kw g s r x))"
  by (simp add: remove_edge_def nodes_ok_rebuild)

lemma cached_nodes_ok: "nodes_ok g \<Longrightarrow> cached_nodes g = compute_nodes (g_edges g) (g_schema g)"
  by (auto simp: nodes_ok_def cached_nodes_def ensure_nodes_def)

lemma list_entities_ok:
  "nodes_ok g \<Longrightarrow> list_entities g = sorted_list_of_set (e_subject ` set (g_edges g) \<union> e_object ` set (g_edges g))"
  by (simp add: list_entities_def cached_nodes_ok compute_nodes_def entity_names_def comp_def
      sorted_list_of_set_sort_remdups [symmetric] image_Un)

end
