(* ===== verification/GraphAlgo.thy ===== *)
theory GraphAlgo
  imports GraphLaws "HOL-Library.Sublist"
begin

text \<open>
  The graph algorithms (\<open>crates/larql-core/src/algo\<close>): traversals, connected components, walks, filters,
  merge and diff, and \<open>Graph::subgraph\<close>. A loop over a work list has fuel, one more than the number of
  its iterations can be; \<open>None\<close> is that the fuel ran out.
\<close>

section \<open>Traversal\<close>

record 'm traversal_result =
  tv_nodes :: "string list"
  tv_edges :: "'m edge list"
  tv_depths :: "(string \<times> nat) list"
  tv_max_depth :: nat

record 'm search_state =
  ss_visited :: "string set"
  ss_discovered :: "string set"
  ss_pending :: "(string \<times> nat) list"
  ss_result :: "'m traversal_result"

text \<open>
  The pending nodes are a queue for \<open>bfs\<close> and a stack, its top first, for \<open>dfs\<close>; \<open>push\<close> adds one.
\<close>

type_synonym push = "(string \<times> nat) list \<Rightarrow> string \<times> nat \<Rightarrow> (string \<times> nat) list"

definition push_back :: push where
  "push_back q x = q @ [x]"

definition push_top :: push where
  "push_top q x = x # q"

definition discover :: "push \<Rightarrow> nat \<Rightarrow> nat \<Rightarrow> 'm search_state \<Rightarrow> 'm edge \<Rightarrow> 'm search_state" where
  "discover push max_depth depth s e =
     (if depth < max_depth \<and> e_object e \<notin> ss_discovered s then
        s\<lparr>ss_discovered := insert (e_object e) (ss_discovered s),
          ss_pending := push (ss_pending s) (e_object e, depth + 1),
          ss_result := (ss_result s)\<lparr>tv_edges := tv_edges (ss_result s) @ [e]\<rparr>\<rparr>
      else s)"

definition visit :: "push \<Rightarrow> 'm graph \<Rightarrow> nat \<Rightarrow> string \<Rightarrow> nat \<Rightarrow> 'm search_state \<Rightarrow> 'm search_state" where
  "visit push g max_depth node depth s =
     foldl (discover push max_depth depth)
       (s\<lparr>ss_visited := insert node (ss_visited s),
          ss_result := (let r = ss_result s in
            r\<lparr>tv_nodes := tv_nodes r @ [node],
              tv_depths := AList.update node depth (tv_depths r),
              tv_max_depth := (if tv_max_depth r < depth then depth else tv_max_depth r)\<rparr>)\<rparr>)
       (select g node None)"

fun search_loop :: "nat \<Rightarrow> push \<Rightarrow> 'm graph \<Rightarrow> nat \<Rightarrow> 'm search_state \<Rightarrow> 'm traversal_result option" where
  "search_loop 0 push g max_depth s = None"
| "search_loop (Suc fuel) push g max_depth s =
     (case ss_pending s of
        [] \<Rightarrow> Some (ss_result s)
      | (node, depth) # rest \<Rightarrow>
          (let s = s\<lparr>ss_pending := rest\<rparr> in
           if node \<in> ss_visited s \<or> max_depth < depth then search_loop fuel push g max_depth s
           else search_loop fuel push g max_depth (visit push g max_depth node depth s)))"

definition start_search :: "string \<Rightarrow> 'm search_state" where
  "start_search source = \<lparr>ss_visited = {}, ss_discovered = {source}, ss_pending = [(source, 0)],
     ss_result = \<lparr>tv_nodes = [], tv_edges = [], tv_depths = [], tv_max_depth = 0\<rparr>\<rparr>"

definition bfs :: "'m graph \<Rightarrow> string \<Rightarrow> nat \<Rightarrow> 'm traversal_result option" where
  "bfs g source max_depth = search_loop (length (g_edges g) + 2) push_back g max_depth (start_search source)"

definition dfs :: "'m graph \<Rightarrow> string \<Rightarrow> nat \<Rightarrow> 'm traversal_result option" where
  "dfs g source max_depth = search_loop (length (g_edges g) + 2) push_top g max_depth (start_search source)"

section \<open>Components\<close>

definition neighbours :: "'m graph \<Rightarrow> string \<Rightarrow> string list" where
  "neighbours g node = List.map e_object (select g node None) @ List.map e_subject (select_reverse g node None)"

definition enqueue :: "string set \<times> string list \<Rightarrow> string \<Rightarrow> string set \<times> string list" where
  "enqueue st x = (case st of (visited, queue) \<Rightarrow>
     if x \<in> visited then (visited, queue) else (insert x visited, queue @ [x]))"

fun component_loop ::
  "nat \<Rightarrow> 'm graph \<Rightarrow> string set \<times> string list \<Rightarrow> string list \<Rightarrow> (string list \<times> string set) option" where
  "component_loop 0 g st component = None"
| "component_loop (Suc fuel) g (visited, queue) component =
     (case queue of
        [] \<Rightarrow> Some (component, visited)
      | current # rest \<Rightarrow>
          component_loop fuel g (foldl enqueue (visited, rest) (neighbours g current)) (component @ [current]))"

fun components_from ::
  "'m graph \<Rightarrow> string list \<Rightarrow> string set \<Rightarrow> string list list option" where
  "components_from g [] visited = Some []"
| "components_from g (node # nodes) visited =
     (if node \<in> visited then components_from g nodes visited
      else case component_loop (2 * length (g_edges g) + 2) g (insert node visited, [node]) [] of
        None \<Rightarrow> None
      | Some (component, visited') \<Rightarrow>
          map_option ((#) (sort component)) (components_from g nodes visited'))"

definition connected_components :: "'m graph \<Rightarrow> string list list option" where
  "connected_components g =
     map_option (sort_key (\<lambda>c. (- int (length c), c))) (components_from g (list_entities g) {})"

fun connected_loop :: "nat \<Rightarrow> 'm graph \<Rightarrow> string \<Rightarrow> string set \<times> string list \<Rightarrow> bool option" where
  "connected_loop 0 g b st = None"
| "connected_loop (Suc fuel) g b (visited, queue) =
     (case queue of
        [] \<Rightarrow> Some False
      | current # rest \<Rightarrow>
          if current = b then Some True
          else connected_loop fuel g b (foldl enqueue (visited, rest) (neighbours g current)))"

definition are_connected :: "'m graph \<Rightarrow> string \<Rightarrow> string \<Rightarrow> bool option" where
  "are_connected g a b = connected_loop (2 * length (g_edges g) + 2) g b ({a}, [a])"

section \<open>Subgraph\<close>

text \<open>The neighbourhood of an entity; here a node is marked when it leaves the queue.\<close>

fun subgraph_loop ::
  "nat \<Rightarrow> (string \<Rightarrow> string list) \<Rightarrow> 'm graph \<Rightarrow> nat \<Rightarrow> 'm graph \<Rightarrow> string set \<Rightarrow> (string \<times> nat) list \<Rightarrow> 'm graph option" where
  "subgraph_loop 0 kw g depth sub visited queue = None"
| "subgraph_loop (Suc fuel) kw g depth sub visited queue =
     (case queue of
        [] \<Rightarrow> Some sub
      | (node, d) # rest \<Rightarrow>
          if depth < d \<or> node \<in> visited then subgraph_loop fuel kw g depth sub visited rest
          else
            (let out = select g node None in
             subgraph_loop fuel kw g depth (foldl (add_edge kw) sub out) (insert node visited)
               (rest @ (if d < depth then List.map (\<lambda>e. (e_object e, d + 1)) out else []))))"

definition subgraph :: "(string \<Rightarrow> string list) \<Rightarrow> 'm graph \<Rightarrow> string \<Rightarrow> nat \<Rightarrow> 'm graph option" where
  "subgraph kw g entity depth =
     subgraph_loop (length (g_edges g) + 2) kw g depth (new_graph\<lparr>g_schema := g_schema g\<rparr>) {} [(entity, 0)]"

section \<open>Merge\<close>

definition default_source_priority :: "source_type \<Rightarrow> nat" where
  "default_source_priority s = (case s of SrcManual \<Rightarrow> 5 | SrcWikidata \<Rightarrow> 4 | SrcParametric \<Rightarrow> 3
     | SrcDocument \<Rightarrow> 2 | SrcInstalled \<Rightarrow> 1 | SrcUnknown \<Rightarrow> 0)"

definition replaces :: "merge_strategy \<Rightarrow> (source_type \<Rightarrow> nat) \<Rightarrow> 'm edge \<Rightarrow> 'm edge \<Rightarrow> bool" where
  "replaces strategy priority old e \<longleftrightarrow>
     (case strategy of
        MergeUnion \<Rightarrow> False
      | MergeMaxConfidence \<Rightarrow> f64_less (e_confidence old) (e_confidence e)
      | MergeSourcePriority \<Rightarrow> priority (e_source old) < priority (e_source e))"

definition merge_edge ::
  "(string \<Rightarrow> string list) \<Rightarrow> merge_strategy \<Rightarrow> (source_type \<Rightarrow> nat) \<Rightarrow> 'm graph \<times> nat \<Rightarrow> 'm edge \<Rightarrow> 'm graph \<times> nat" where
  "merge_edge kw strategy priority st e =
     (case st of (target, n) \<Rightarrow>
        if \<not> exists_edge target (e_subject e) (e_relation e) (e_object e) then (add_edge kw target e, n + 1)
        else case List.find (\<lambda>x. e_object x = e_object e) (select target (e_subject e) (Some (e_relation e))) of
            None \<Rightarrow> (target, n)
          | Some old \<Rightarrow>
              if replaces strategy priority old e
              then (add_edge kw (snd (remove_edge kw target (e_subject e) (e_relation e) (e_object e))) e, n + 1)
              else (target, n))"

definition merge_graphs_with_options ::
  "(string \<Rightarrow> string list) \<Rightarrow> 'm graph \<Rightarrow> 'm graph \<Rightarrow> merge_strategy \<Rightarrow> (source_type \<Rightarrow> nat) \<Rightarrow> 'm graph \<times> nat" where
  "merge_graphs_with_options kw target other strategy priority =
     foldl (merge_edge kw strategy priority) (target, 0) (g_edges other)"

definition merge_graphs_with_strategy ::
  "(string \<Rightarrow> string list) \<Rightarrow> 'm graph \<Rightarrow> 'm graph \<Rightarrow> merge_strategy \<Rightarrow> 'm graph \<times> nat" where
  "merge_graphs_with_strategy kw target other strategy =
     merge_graphs_with_options kw target other strategy default_source_priority"

definition merge_graphs :: "(string \<Rightarrow> string list) \<Rightarrow> 'm graph \<Rightarrow> 'm graph \<Rightarrow> 'm graph \<times> nat" where
  "merge_graphs kw target other = merge_graphs_with_strategy kw target other MergeUnion"

definition merge_graphs_with_source_priority ::
  "(string \<Rightarrow> string list) \<Rightarrow> 'm graph \<Rightarrow> 'm graph \<Rightarrow> (source_type \<Rightarrow> nat) \<Rightarrow> 'm graph \<times> nat" where
  "merge_graphs_with_source_priority kw target other priority =
     merge_graphs_with_options kw target other MergeSourcePriority priority"

section \<open>Diff\<close>

text \<open>\<open>a - b\<close> on doubles, rounded to nearest; the NaN is the quiet one.\<close>

definition f64_signed_ratio :: "f64 \<Rightarrow> int \<times> nat" where
  "f64_signed_ratio x = (let (n, d) = f64_ratio x in (if f64_negative x then - int n else int n, d))"

definition f64_is_infinite :: "f64 \<Rightarrow> bool" where
  "f64_is_infinite x \<longleftrightarrow> f64_magnitude x = 2047 * 2 ^ 52"

definition f64_quiet_nan :: f64 where
  "f64_quiet_nan = 0x7FF8000000000000"

definition f64_sub :: "f64 \<Rightarrow> f64 \<Rightarrow> f64" where
  "f64_sub a b =
     (if f64_is_nan a \<or> f64_is_nan b then f64_quiet_nan
      else if f64_is_infinite a then
        (if f64_is_infinite b \<and> f64_negative a = f64_negative b then f64_quiet_nan else a)
      else if f64_is_infinite b then f64_neg b
      else
        (let (n, d) = f64_signed_ratio a; (n', d') = f64_signed_ratio b; s = n * int d' - n' * int d;
             x = f64_of_ratio (nat \<bar>s\<bar>) (d * d')
         in if s < 0 then f64_neg x else x))"

definition f64_abs :: "f64 \<Rightarrow> f64" where
  "f64_abs x = word_of_nat (f64_magnitude x)"

definition f64_epsilon :: f64 where
  "f64_epsilon = 0x3CB0000000000000"

definition edge_changed :: "'m edge \<Rightarrow> 'm edge \<Rightarrow> bool" where
  "edge_changed old new \<longleftrightarrow> f64_less f64_epsilon (f64_abs (f64_sub (e_confidence old) (e_confidence new))) \<or>
     e_source old \<noteq> e_source new \<or> \<not> same_metadata (e_metadata old) (e_metadata new) \<or>
     \<not> same_injection (e_injection old) (e_injection new)"

record 'm graph_diff =
  gd_added :: "'m edge list"
  gd_removed :: "'m edge list"
  gd_changed :: "('m edge \<times> 'm edge) list"

definition diff_edge :: "'m graph \<Rightarrow> 'm graph_diff \<Rightarrow> 'm edge \<Rightarrow> 'm graph_diff" where
  "diff_edge old d e =
     (if \<not> exists_edge old (e_subject e) (e_relation e) (e_object e) then d\<lparr>gd_added := gd_added d @ [e]\<rparr>
      else case List.find (\<lambda>x. e_object x = e_object e) (select old (e_subject e) (Some (e_relation e))) of
          None \<Rightarrow> d
        | Some old_edge \<Rightarrow>
            if edge_changed old_edge e then d\<lparr>gd_changed := gd_changed d @ [(old_edge, e)]\<rparr> else d)"

definition diff :: "'m graph \<Rightarrow> 'm graph \<Rightarrow> 'm graph_diff" where
  "diff old new =
     (let d = foldl (diff_edge old) \<lparr>gd_added = [], gd_removed = [], gd_changed = []\<rparr> (g_edges new)
      in d\<lparr>gd_removed := filter (\<lambda>e. \<not> exists_edge new (e_subject e) (e_relation e) (e_object e)) (g_edges old)\<rparr>)"

section \<open>Walks\<close>

record 'm walk_result =
  wr_destination :: string
  wr_path :: "'m edge list"
  wr_min_confidence :: f64

definition f64_infinity :: f64 where
  "f64_infinity = 0x7FF0000000000000"

text \<open>\<open>f64::min\<close>: the other argument when one is a NaN.\<close>

definition f64_min :: "f64 \<Rightarrow> f64 \<Rightarrow> f64" where
  "f64_min a b = (if f64_is_nan a then b else if f64_is_nan b then a else if f64_less b a then b else a)"

definition path_result :: "string \<Rightarrow> 'm edge list \<Rightarrow> 'm walk_result" where
  "path_result current path = \<lparr>wr_destination = current, wr_path = path,
     wr_min_confidence = (if path = [] then 0 else foldl f64_min f64_infinity (List.map e_confidence path))\<rparr>"

text \<open>\<open>walk_recursive\<close>; \<open>rels\<close> are the relations from the depth on. The limit is tested at each inner node.\<close>

fun walk_recursive ::
  "'m graph \<Rightarrow> string \<Rightarrow> string list \<Rightarrow> 'm edge list \<Rightarrow> nat \<Rightarrow> 'm walk_result list \<Rightarrow> 'm walk_result list" where
  "walk_recursive g current [] path limit results = results @ [path_result current path]"
| "walk_recursive g current (rel # rels) path limit results =
     (if limit \<le> length results then results
      else foldl (\<lambda>results e. walk_recursive g (e_object e) rels (path @ [e]) limit results)
        results (select g current (Some rel)))"

definition walk_all_paths :: "'m graph \<Rightarrow> string \<Rightarrow> string list \<Rightarrow> nat \<Rightarrow> 'm walk_result list" where
  "walk_all_paths g subject relations max_paths =
     take max_paths (sort_key (\<lambda>r. - f64_key (wr_min_confidence r))
       (walk_recursive g subject relations [] (max_paths * 10) []))"

section \<open>Filters\<close>

datatype metadata_compare = CmpEq | CmpNotEq | CmpGt | CmpGte | CmpLt | CmpLte

text \<open>\<open>matches_ordering\<close>, over what \<open>==\<close> and \<open><\<close> of the type say; \<open>>\<close> is \<open><\<close> the other way round.\<close>

definition matches_ordering :: "('a \<Rightarrow> 'a \<Rightarrow> bool) \<Rightarrow> ('a \<Rightarrow> 'a \<Rightarrow> bool) \<Rightarrow> metadata_compare \<Rightarrow> 'a \<Rightarrow> 'a \<Rightarrow> bool" where
  "matches_ordering eq lt cmp actual expected =
     (case cmp of CmpEq \<Rightarrow> eq actual expected | CmpNotEq \<Rightarrow> \<not> eq actual expected
      | CmpGt \<Rightarrow> lt expected actual | CmpGte \<Rightarrow> lt expected actual \<or> eq actual expected
      | CmpLt \<Rightarrow> lt actual expected | CmpLte \<Rightarrow> lt actual expected \<or> eq actual expected)"

datatype metadata_predicate =
    PredU64 string metadata_compare nat
  | PredF64 string metadata_compare f64
  | PredString string metadata_compare string
  | PredBool string bool

definition u64_min :: "string \<Rightarrow> nat \<Rightarrow> metadata_predicate" where "u64_min key value = PredU64 key CmpGte value"
definition u64_max :: "string \<Rightarrow> nat \<Rightarrow> metadata_predicate" where "u64_max key value = PredU64 key CmpLte value"
definition pred_f64_min :: "string \<Rightarrow> f64 \<Rightarrow> metadata_predicate" where "pred_f64_min key value = PredF64 key CmpGte value"
definition pred_f64_max :: "string \<Rightarrow> f64 \<Rightarrow> metadata_predicate" where "pred_f64_max key value = PredF64 key CmpLte value"

text \<open>What \<open>serde_json::Value\<close> reads of a value: \<open>as_u64\<close>, \<open>as_f64\<close>, \<open>as_str\<close>, \<open>as_bool\<close>.\<close>

record 'm value_reader =
  vr_u64 :: "'m \<Rightarrow> nat option"
  vr_f64 :: "'m \<Rightarrow> f64 option"
  vr_str :: "'m \<Rightarrow> string option"
  vr_bool :: "'m \<Rightarrow> bool option"

definition read_field :: "('m \<Rightarrow> 'a option) \<Rightarrow> (string \<times> 'm) list \<Rightarrow> string \<Rightarrow> ('a \<Rightarrow> bool) \<Rightarrow> bool" where
  "read_field conv metadata key test =
     (case map_of metadata key of
        None \<Rightarrow> False
      | Some v \<Rightarrow> (case conv v of None \<Rightarrow> False | Some actual \<Rightarrow> test actual))"

definition predicate_matches :: "'m value_reader \<Rightarrow> metadata_predicate \<Rightarrow> 'm edge \<Rightarrow> bool" where
  "predicate_matches vr p e =
     (case e_metadata e of
        None \<Rightarrow> False
      | Some metadata \<Rightarrow>
          (case p of
             PredU64 key op value \<Rightarrow> read_field (vr_u64 vr) metadata key (\<lambda>a. matches_ordering (=) (<) op a value)
           | PredF64 key op value \<Rightarrow> read_field (vr_f64 vr) metadata key (\<lambda>a. matches_ordering f64_eq f64_less op a value)
           | PredString key op value \<Rightarrow> read_field (vr_str vr) metadata key (\<lambda>a. matches_ordering (=) (<) op a value)
           | PredBool key value \<Rightarrow> read_field (vr_bool vr) metadata key (\<lambda>a. a = value)))"

record filter_config =
  fc_min_confidence :: "f64 option"
  fc_max_confidence :: "f64 option"
  fc_metadata :: "metadata_predicate list"
  fc_relations :: "string list option"
  fc_exclude_relations :: "string list option"
  fc_sources :: "source_type list option"
  fc_subject_contains :: "string option"
  fc_object_contains :: "string option"

definition default_filter :: filter_config where
  "default_filter = \<lparr>fc_min_confidence = None, fc_max_confidence = None, fc_metadata = [], fc_relations = None,
     fc_exclude_relations = None, fc_sources = None, fc_subject_contains = None, fc_object_contains = None\<rparr>"

definition config_matches :: "'m value_reader \<Rightarrow> filter_config \<Rightarrow> 'm edge \<Rightarrow> bool" where
  "config_matches vr c e \<longleftrightarrow>
     (case fc_min_confidence c of Some mn \<Rightarrow> \<not> f64_less (e_confidence e) mn | None \<Rightarrow> True) \<and>
     (case fc_max_confidence c of Some mx \<Rightarrow> \<not> f64_less mx (e_confidence e) | None \<Rightarrow> True) \<and>
     (case fc_relations c of Some rels \<Rightarrow> e_relation e \<in> set rels | None \<Rightarrow> True) \<and>
     (case fc_exclude_relations c of Some excl \<Rightarrow> e_relation e \<notin> set excl | None \<Rightarrow> True) \<and>
     (case fc_sources c of Some srcs \<Rightarrow> e_source e \<in> set srcs | None \<Rightarrow> True) \<and>
     (case fc_subject_contains c of Some pat \<Rightarrow> sublist pat (e_subject e) | None \<Rightarrow> True) \<and>
     (case fc_object_contains c of Some pat \<Rightarrow> sublist pat (e_object e) | None \<Rightarrow> True) \<and>
     list_all (\<lambda>p. predicate_matches vr p e) (fc_metadata c)"

definition filter_graph :: "(string \<Rightarrow> string list) \<Rightarrow> 'm value_reader \<Rightarrow> 'm graph \<Rightarrow> filter_config \<Rightarrow> 'm graph" where
  "filter_graph kw vr g c =
     foldl (\<lambda>result e. if config_matches vr c e then add_edge kw result e else result)
       ((with_schema (g_schema g) new_graph)\<lparr>g_metadata := g_metadata g\<rparr>) (g_edges g)"

end
