(* ===== verification/GraphTraversal.thy ===== *)
theory GraphTraversal
  imports GraphAlgo
begin

text \<open>
  Traversals: both return, visit only reachable nodes and each once; the breadth-first one visits exactly
  the nodes within the depth limit and finds their distances.
\<close>

section \<open>Reachability\<close>

definition links :: "'m graph \<Rightarrow> (string \<times> string) set" where
  "links g = (\<lambda>e. (e_subject e, e_object e)) ` set (g_edges g)"

definition objects :: "'m graph \<Rightarrow> string set" where
  "objects g = e_object ` set (g_edges g)"

lemma card_objects: "card (objects g) \<le> length (g_edges g)"
  unfolding objects_def by (metis card_image_le card_length finite_set le_trans)

lemma finite_objects [simp]: "finite (objects g)"
  by (simp add: objects_def)

lemma links_object: "(v, u) \<in> links g \<Longrightarrow> u \<in> objects g"
  by (auto simp: links_def objects_def)

section \<open>The search state\<close>

abbreviation depths_of :: "'m search_state \<Rightarrow> (string \<times> nat) list" where
  "depths_of s \<equiv> tv_depths (ss_result s)"

definition search_ok :: "'m graph \<Rightarrow> string \<Rightarrow> nat \<Rightarrow> 'm search_state \<Rightarrow> bool" where
  "search_ok g source mx s \<longleftrightarrow>
     distinct (map fst (depths_of s @ ss_pending s)) \<and>
     ss_discovered s = fst ` set (depths_of s @ ss_pending s) \<and>
     ss_visited s = fst ` set (depths_of s) \<and>
     tv_nodes (ss_result s) = map fst (depths_of s) \<and>
     ss_discovered s \<subseteq> insert source (objects g) \<and>
     (source, 0) \<in> set (depths_of s @ ss_pending s) \<and>
     (\<forall>(v, d) \<in> set (depths_of s @ ss_pending s). (source, v) \<in> links g ^^ d \<and> d \<le> mx \<and> d < card (ss_discovered s)) \<and>
     (\<forall>(v, d) \<in> set (depths_of s). d < mx \<longrightarrow> links g `` {v} \<subseteq> ss_discovered s)"

definition search_size :: "'m graph \<Rightarrow> 'm search_state \<Rightarrow> nat" where
  "search_size g s = card (objects g - ss_discovered s) + length (ss_pending s)"

lemma search_ok_start: "search_ok g source mx (start_search source)"
  by (simp add: search_ok_def start_search_def)

lemma search_size_start: "search_size g (start_search source) \<le> length (g_edges g) + 1"
  unfolding search_size_def start_search_def
  by (simp add: le_trans [OF card_mono [OF finite_objects Diff_subset] card_objects])

text \<open>What the loop over the outgoing edges does.\<close>

definition grown :: "push \<Rightarrow> nat \<Rightarrow> string list \<Rightarrow> 'm search_state \<Rightarrow> 'm search_state \<Rightarrow> bool" where
  "grown push depth news s s' \<longleftrightarrow> distinct news \<and> set news \<inter> ss_discovered s = {} \<and>
     ss_discovered s' = ss_discovered s \<union> set news \<and>
     ss_pending s' = foldl push (ss_pending s) (map (\<lambda>v. (v, depth + 1)) news) \<and>
     ss_visited s' = ss_visited s \<and> depths_of s' = depths_of s \<and> tv_nodes (ss_result s') = tv_nodes (ss_result s)"

lemma grown_refl: "grown push depth [] s s"
  by (simp add: grown_def)

lemma grown_trans: "grown push depth us s s1 \<Longrightarrow> grown push depth vs s1 s2 \<Longrightarrow> grown push depth (us @ vs) s s2"
  by (auto simp: grown_def)

lemma grown_discover:
  "depth < mx \<Longrightarrow> grown push depth (if e_object e \<in> ss_discovered s then [] else [e_object e]) s (discover push mx depth s e)"
  by (simp add: grown_def discover_def)

lemma foldl_discover:
  assumes "depth < mx"
  shows "\<exists>news. grown push depth news s (foldl (discover push mx depth) s es) \<and>
    set news = e_object ` set es - ss_discovered s"
proof (induction es arbitrary: s)
  case Nil
  show ?case using grown_refl [of push depth s] by (intro exI [of _ "[]"]) simp
next
  case (Cons e es)
  let ?s = "discover push mx depth s e" and ?u = "if e_object e \<in> ss_discovered s then [] else [e_object e]"
  from Cons.IH [of ?s] obtain news where n: "grown push depth news ?s (foldl (discover push mx depth) ?s es)"
    "set news = e_object ` set es - ss_discovered ?s" by blast
  note u = grown_discover [OF assms, of push e s]
  from grown_trans [OF u n(1)] have "grown push depth (?u @ news) s (foldl (discover push mx depth) s (e # es))" by simp
  moreover have "ss_discovered ?s = ss_discovered s \<union> set ?u" using u unfolding grown_def by blast
  with n(2) have "set (?u @ news) = e_object ` set (e # es) - ss_discovered s" by auto
  ultimately show ?case by blast
qed

lemma foldl_discover_limit: "\<not> depth < mx \<Longrightarrow> foldl (discover push mx depth) s es = s"
  by (induction es) (simp_all add: discover_def)

locale frontier =
  fixes push :: push
  assumes mset_push: "mset (push q x) = add_mset x (mset q)"
begin

lemma mset_pushes: "mset (foldl push q xs) = mset q + mset xs"
  by (induction xs arbitrary: q) (simp_all add: mset_push)

lemma set_pushes: "set (foldl push q xs) = set q \<union> set xs"
  using mset_pushes [of q xs] by (metis set_mset_mset set_mset_union)

lemma length_pushes: "length (foldl push q xs) = length q + length xs"
  using mset_pushes [of q xs] by (metis size_mset size_union)

lemma visit_effect:
  assumes ok: "graph_ok kw g" and inv: "search_ok g source mx s" and p: "ss_pending s = (node, depth) # rest"
  shows "\<exists>news. let s' = visit push g mx node depth (s\<lparr>ss_pending := rest\<rparr>) in
    distinct news \<and> set news = (if depth < mx then links g `` {node} - ss_discovered s else {}) \<and>
    ss_discovered s' = ss_discovered s \<union> set news \<and>
    ss_pending s' = foldl push rest (map (\<lambda>v. (v, depth + 1)) news) \<and>
    ss_visited s' = insert node (ss_visited s) \<and>
    depths_of s' = depths_of s @ [(node, depth)] \<and>
    tv_nodes (ss_result s') = tv_nodes (ss_result s) @ [node]"
proof -
  have "node \<notin> fst ` set (depths_of s)"
    using inv p by (auto simp: search_ok_def)
  note u = update_new [OF this, of depth]
  have "e_object ` set (select g node None) = links g `` {node}"
    by (force simp: select_filter [OF ok] relation_matches_def links_def)
  note sel = this
  define s0 where "s0 = s\<lparr>ss_pending := rest, ss_visited := insert node (ss_visited s),
    ss_result := (ss_result s)\<lparr>tv_nodes := tv_nodes (ss_result s) @ [node],
      tv_depths := depths_of s @ [(node, depth)],
      tv_max_depth := (if tv_max_depth (ss_result s) < depth then depth else tv_max_depth (ss_result s))\<rparr>\<rparr>"
  have v: "visit push g mx node depth (s\<lparr>ss_pending := rest\<rparr>) = foldl (discover push mx depth) s0 (select g node None)"
    by (simp add: visit_def s0_def Let_def u)
  have "\<exists>news. grown push depth news s0 (foldl (discover push mx depth) s0 (select g node None)) \<and>
      set news = (if depth < mx then links g `` {node} - ss_discovered s else {})"
  proof (cases "depth < mx")
    case True
    from foldl_discover [OF True, of push s0 "select g node None"] True show ?thesis by (simp add: sel s0_def)
  next
    case False
    then show ?thesis using grown_refl by (intro exI [of _ "[]"]) (simp add: foldl_discover_limit)
  qed
  then show ?thesis by (auto simp: v Let_def grown_def s0_def)
qed

lemma visit_ok:
  assumes ok: "graph_ok kw g" and inv: "search_ok g source mx s" and p: "ss_pending s = (node, depth) # rest"
  shows "search_ok g source mx (visit push g mx node depth (s\<lparr>ss_pending := rest\<rparr>)) \<and>
    search_size g (visit push g mx node depth (s\<lparr>ss_pending := rest\<rparr>)) < search_size g s"
proof -
  let ?s' = "visit push g mx node depth (s\<lparr>ss_pending := rest\<rparr>)"
  from visit_effect [OF assms] obtain news where n: "distinct news"
    "set news = (if depth < mx then links g `` {node} - ss_discovered s else {})"
    and d: "ss_discovered ?s' = ss_discovered s \<union> set news"
    and pe: "ss_pending ?s' = foldl push rest (map (\<lambda>v. (v, depth + 1)) news)"
    and v: "ss_visited ?s' = insert node (ss_visited s)" "depths_of ?s' = depths_of s @ [(node, depth)]"
      "tv_nodes (ss_result ?s') = tv_nodes (ss_result s) @ [node]"
    by (auto simp: Let_def)
  note i = inv [unfolded search_ok_def p]
  have fin: "finite (ss_discovered s)" using i by simp
  have disj: "set news \<inter> ss_discovered s = {}" using n(2) by auto
  have sp: "set (ss_pending ?s') = set rest \<union> (\<lambda>v. (v, depth + 1)) ` set news"
    by (simp add: pe set_pushes)
  have asg: "set (depths_of ?s' @ ss_pending ?s') =
      set (depths_of s @ (node, depth) # rest) \<union> (\<lambda>v. (v, depth + 1)) ` set news"
    using sp v(2) by auto
  have card: "card (ss_discovered ?s') = card (ss_discovered s) + length news"
    unfolding d using card_Un_disjoint [OF fin _ ] disj distinct_card [OF n(1)] by (simp add: Int_commute)
  have mset: "mset (map fst (depths_of ?s' @ ss_pending ?s')) = mset (map fst (depths_of s @ (node, depth) # rest)) + mset news"
    using mset_pushes [of rest "map (\<lambda>v. (v, depth + 1)) news"] v(2) by (simp add: pe image_mset.compositionality comp_def)
  have dist: "distinct (map fst (depths_of ?s' @ ss_pending ?s'))"
  proof -
    have "distinct (map fst (depths_of s @ (node, depth) # rest) @ news)"
      using i n(1) disj by auto
    with mset show ?thesis by (metis mset_append mset_eq_imp_distinct_iff)
  qed
  have node: "(source, node) \<in> links g ^^ depth" "depth \<le> mx" "depth < card (ss_discovered s)"
    using i by auto
  have new: "(source, x) \<in> links g ^^ (depth + 1) \<and> depth + 1 \<le> mx \<and> depth + 1 < card (ss_discovered ?s') \<and> x \<in> objects g"
    if "x \<in> set news" for x
    using that n(2) node card links_object [of node x g] by (cases news) (auto split: if_splits)
  have old: "\<forall>(v, da) \<in> set (depths_of s @ (node, depth) # rest). (source, v) \<in> links g ^^ da \<and> da \<le> mx \<and> da < card (ss_discovered s)"
    using i by blast
  have closed: "\<forall>(v, da) \<in> set (depths_of s). da < mx \<longrightarrow> links g `` {v} \<subseteq> ss_discovered s"
    using i by blast
  have "search_ok g source mx ?s'"
    unfolding search_ok_def
  proof (intro conjI)
    show "\<forall>(v, da) \<in> set (depths_of ?s' @ ss_pending ?s'). (source, v) \<in> links g ^^ da \<and> da \<le> mx \<and> da < card (ss_discovered ?s')"
      unfolding asg ball_Un
    proof
      show "\<forall>(v, da) \<in> set (depths_of s @ (node, depth) # rest). (source, v) \<in> links g ^^ da \<and> da \<le> mx \<and> da < card (ss_discovered ?s')"
        by (rule ballI, drule bspec [OF old]) (simp add: card split_beta)
      show "\<forall>(v, da) \<in> (\<lambda>v. (v, depth + 1)) ` set news. (source, v) \<in> links g ^^ da \<and> da \<le> mx \<and> da < card (ss_discovered ?s')"
        using new by simp
    qed
    show "\<forall>(v, da) \<in> set (depths_of ?s'). da < mx \<longrightarrow> links g `` {v} \<subseteq> ss_discovered ?s'"
    proof (rule ballI)
      fix q assume "q \<in> set (depths_of ?s')"
      then consider "q \<in> set (depths_of s)" | "q = (node, depth)" unfolding v(2) by auto
      then show "case q of (v, da) \<Rightarrow> da < mx \<longrightarrow> links g `` {v} \<subseteq> ss_discovered ?s'"
      proof cases
        case 1
        from bspec [OF closed this] show ?thesis unfolding d by (simp add: split_beta) blast
      next
        case 2
        then show ?thesis unfolding d using n(2) by simp
      qed
    qed
    have "ss_discovered s = fst ` set (depths_of s @ (node, depth) # rest)" using i by blast
    then show "ss_discovered ?s' = fst ` set (depths_of ?s' @ ss_pending ?s')"
      unfolding asg d by (simp add: image_Un image_image)
    have "ss_discovered s \<subseteq> insert source (objects g)" using i by blast
    then show "ss_discovered ?s' \<subseteq> insert source (objects g)" unfolding d using new by blast
    have "(source, 0) \<in> set (depths_of s @ (node, depth) # rest)" using i by blast
    then show "(source, 0) \<in> set (depths_of ?s' @ ss_pending ?s')" unfolding asg by blast
    have "ss_visited s = fst ` set (depths_of s)" using i by blast
    then show "ss_visited ?s' = fst ` set (depths_of ?s')" unfolding v by simp
    have "tv_nodes (ss_result s) = map fst (depths_of s)" using i by blast
    then show "tv_nodes (ss_result ?s') = map fst (depths_of ?s')" unfolding v by simp
  qed (rule dist)
  moreover have "search_size g ?s' < search_size g s"
  proof -
    have "set news \<subseteq> objects g - ss_discovered s" using new n(2) disj by auto
    moreover have "objects g - ss_discovered ?s' = (objects g - ss_discovered s) - set news" by (auto simp: d)
    ultimately have "card (objects g - ss_discovered ?s') + length news = card (objects g - ss_discovered s)"
      using card_Diff_subset [of "set news" "objects g - ss_discovered s"] card_mono [of "objects g - ss_discovered s" "set news"]
        distinct_card [OF n(1)] by simp
    then show ?thesis by (simp add: search_size_def pe length_pushes p)
  qed
  ultimately show ?thesis by blast
qed

lemma loop_returns:
  assumes ok: "graph_ok kw g"
    and J: "\<And>s node depth rest. search_ok g source mx s \<Longrightarrow> J s \<Longrightarrow> ss_pending s = (node, depth) # rest \<Longrightarrow>
      J (visit push g mx node depth (s\<lparr>ss_pending := rest\<rparr>))"
  shows "search_ok g source mx s \<Longrightarrow> J s \<Longrightarrow> search_size g s < fuel \<Longrightarrow>
    \<exists>s'. search_loop fuel push g mx s = Some (ss_result s') \<and> search_ok g source mx s' \<and> J s' \<and> ss_pending s' = []"
proof (induction fuel arbitrary: s)
  case (Suc fuel)
  show ?case
  proof (cases "ss_pending s")
    case Nil
    with Suc.prems show ?thesis by (intro exI [of _ s]) simp
  next
    case (Cons x rest)
    obtain node depth where x: "x = (node, depth)" by (cases x)
    note p = Cons [unfolded x]
    have "node \<notin> ss_visited s" "\<not> mx < depth"
      using Suc.prems(1) p by (auto simp: search_ok_def)
    then have "search_loop (Suc fuel) push g mx s =
        search_loop fuel push g mx (visit push g mx node depth (s\<lparr>ss_pending := rest\<rparr>))"
      by (simp add: p Let_def)
    with Suc.IH visit_ok [OF ok Suc.prems(1) p] J [OF Suc.prems(1,2) p] Suc.prems(3) show ?thesis by fastforce
  qed
qed simp

end

interpretation bfs: frontier push_back
  by unfold_locales (simp add: push_back_def)

interpretation dfs: frontier push_top
  by unfold_locales (simp add: push_top_def)

section \<open>What the searches return\<close>

lemma search_ok_end:
  assumes "search_ok g source mx s" "ss_pending s = []"
  shows "distinct (tv_nodes (ss_result s))" "map fst (depths_of s) = tv_nodes (ss_result s)"
    "source \<in> set (tv_nodes (ss_result s))"
    "\<forall>(v, d) \<in> set (depths_of s). (source, v) \<in> links g ^^ d \<and> d \<le> mx \<and> d \<le> length (g_edges g)"
    "\<forall>(v, d) \<in> set (depths_of s). d < mx \<longrightarrow> links g `` {v} \<subseteq> set (tv_nodes (ss_result s))"
proof -
  note i = assms(1) [unfolded search_ok_def assms(2) append_Nil2]
  have n': "tv_nodes (ss_result s) = map fst (depths_of s)" using i by blast
  then show "map fst (depths_of s) = tv_nodes (ss_result s)" by simp
  have n: "set (tv_nodes (ss_result s)) = fst ` set (depths_of s)" unfolding n' by simp
  have "distinct (map fst (depths_of s))" using i by blast
  then show "distinct (tv_nodes (ss_result s))" unfolding n' .
  have "(source, 0) \<in> set (depths_of s)" using i by blast
  then show "source \<in> set (tv_nodes (ss_result s))" unfolding n by force
  have "ss_discovered s = set (tv_nodes (ss_result s))" unfolding n using i by blast
  moreover have "\<forall>(v, d) \<in> set (depths_of s). d < mx \<longrightarrow> links g `` {v} \<subseteq> ss_discovered s" using i by blast
  ultimately show "\<forall>(v, d) \<in> set (depths_of s). d < mx \<longrightarrow> links g `` {v} \<subseteq> set (tv_nodes (ss_result s))" by simp
  have "ss_discovered s \<subseteq> insert source (objects g)" using i by blast
  then have "card (ss_discovered s) \<le> card (insert source (objects g))" by (simp add: card_mono)
  also have "\<dots> \<le> Suc (card (objects g))" by (simp add: card_insert_if)
  finally have "card (ss_discovered s) \<le> Suc (card (objects g))" .
  then have "card (ss_discovered s) \<le> Suc (length (g_edges g))" using card_objects [of g] by linarith
  moreover have "\<forall>(v, d) \<in> set (depths_of s). (source, v) \<in> links g ^^ d \<and> d \<le> mx \<and> d < card (ss_discovered s)"
    using i by blast
  ultimately show "\<forall>(v, d) \<in> set (depths_of s). (source, v) \<in> links g ^^ d \<and> d \<le> mx \<and> d \<le> length (g_edges g)"
    by fastforce
qed

text \<open>In the breadth-first search the depths grow along the result and the queue.\<close>

definition layered :: "'m graph \<Rightarrow> nat \<Rightarrow> 'm search_state \<Rightarrow> bool" where
  "layered g mx s \<longleftrightarrow>
     sorted (map snd (depths_of s @ ss_pending s)) \<and>
     (\<forall>p \<in> set (ss_pending s). \<forall>q \<in> set (ss_pending s). snd p \<le> snd q + 1) \<and>
     (\<forall>(v, d) \<in> set (depths_of s). d < mx \<longrightarrow>
       (\<forall>u. (v, u) \<in> links g \<longrightarrow> (\<exists>e \<le> d + 1. (u, e) \<in> set (depths_of s @ ss_pending s))))"

lemma layered_start: "layered g mx (start_search source)"
  by (simp add: layered_def start_search_def)

lemma pushed_back [simp]: "foldl push_back q xs = q @ xs"
  by (induction xs arbitrary: q) (simp_all add: push_back_def)

lemma layered_visit:
  assumes ok: "graph_ok kw g" and inv: "search_ok g source mx s" and l: "layered g mx s"
    and p: "ss_pending s = (node, depth) # rest"
  shows "layered g mx (visit push_back g mx node depth (s\<lparr>ss_pending := rest\<rparr>))"
proof -
  let ?s' = "visit push_back g mx node depth (s\<lparr>ss_pending := rest\<rparr>)"
  from bfs.visit_effect [OF ok inv p] obtain news where
    n: "set news = (if depth < mx then links g `` {node} - ss_discovered s else {})"
    and pe: "ss_pending ?s' = rest @ map (\<lambda>v. (v, depth + 1)) news"
    and v: "depths_of ?s' = depths_of s @ [(node, depth)]"
    by (auto simp: Let_def)
  note i = l [unfolded layered_def p]
  have sorted: "sorted (map snd (depths_of s) @ depth # map snd rest)" using i by simp
  have near: "\<And>q. q \<in> set rest \<Longrightarrow> depth \<le> snd q \<and> snd q \<le> depth + 1" using i sorted by (auto simp: sorted_append)
  have "ss_discovered s = fst ` set (depths_of s @ (node, depth) # rest)"
    using inv unfolding search_ok_def p by blast
  note known = this
  have all: "set (depths_of ?s' @ ss_pending ?s') = set (depths_of s @ (node, depth) # rest) \<union> (\<lambda>v. (v, depth + 1)) ` set news"
    by (auto simp: v pe)
  have 1: "sorted (map snd (depths_of ?s' @ ss_pending ?s'))"
  proof -
    have "\<forall>d \<in> set (map snd (depths_of s) @ depth # map snd rest). d \<le> depth + 1"
      using sorted near by (auto simp: sorted_append)
    moreover have "map snd (depths_of ?s' @ ss_pending ?s') =
        (map snd (depths_of s) @ depth # map snd rest) @ replicate (length news) (depth + 1)"
      by (simp add: v pe map_replicate_const comp_def)
    ultimately show ?thesis using sorted by (simp only: sorted_append) (simp add: sorted_replicate)
  qed
  have 2: "\<forall>p \<in> set (ss_pending ?s'). \<forall>q \<in> set (ss_pending ?s'). snd p \<le> snd q + 1"
  proof -
    have "depth \<le> snd q \<and> snd q \<le> depth + 1" if "q \<in> set (ss_pending ?s')" for q
      using that near [of q] by (auto simp: pe)
    then show ?thesis by (meson add_le_mono1 le_trans)
  qed
  have 3: "\<exists>e \<le> d + 1. (u, e) \<in> set (depths_of ?s' @ ss_pending ?s')"
    if "(x, d) \<in> set (depths_of ?s')" "d < mx" "(x, u) \<in> links g" for x d u
  proof (cases "(x, d) \<in> set (depths_of s)")
    case True
    with i that(2,3) have "\<exists>e \<le> d + 1. (u, e) \<in> set (depths_of s @ (node, depth) # rest)" by blast
    then show ?thesis unfolding all by blast
  next
    case False
    with that have x: "x = node" "d = depth" by (simp_all add: v)
    show ?thesis
    proof (cases "u \<in> ss_discovered s")
      case True
      then obtain e where e: "(u, e) \<in> set (depths_of s @ (node, depth) # rest)" unfolding known by force
      moreover have "e \<le> depth + 1" using e sorted near by (auto simp: sorted_append)
      ultimately show ?thesis unfolding all x by blast
    next
      case False
      with that x n have "u \<in> set news" by auto
      then show ?thesis unfolding all x by blast
    qed
  qed
  show ?thesis unfolding layered_def using 1 2 3 by blast
qed

text \<open>The nodes within a number of steps, and the distance of one.\<close>

definition within :: "'m graph \<Rightarrow> string \<Rightarrow> nat \<Rightarrow> string set" where
  "within g source mx = {v. \<exists>n \<le> mx. (source, v) \<in> links g ^^ n}"

definition distance :: "'m graph \<Rightarrow> string \<Rightarrow> string \<Rightarrow> nat" where
  "distance g source v = (LEAST n. (source, v) \<in> links g ^^ n)"

lemma layered_end:
  assumes inv: "search_ok g source mx s" and l: "layered g mx s" and e: "ss_pending s = []"
    and n: "n \<le> mx" "(source, v) \<in> links g ^^ n"
  shows "\<exists>d \<le> n. (v, d) \<in> set (depths_of s)"
  using n
proof (induction n arbitrary: v)
  case 0
  have "(source, 0) \<in> set (depths_of s)" using inv e by (auto simp: search_ok_def)
  with 0 show ?case by auto
next
  case (Suc n)
  from Suc.prems obtain w where w: "(source, w) \<in> links g ^^ n" "(w, v) \<in> links g" by auto
  with Suc obtain d where d: "d \<le> n" "(w, d) \<in> set (depths_of s)" by (meson Suc_leD)
  from d(1) Suc.prems(1) have "d < mx" by simp
  have "\<And>v d u. (v, d) \<in> set (depths_of s) \<Longrightarrow> d < mx \<Longrightarrow> (v, u) \<in> links g \<Longrightarrow>
      \<exists>e \<le> d + 1. (u, e) \<in> set (depths_of s)"
    using l unfolding layered_def e append_Nil2 by blast
  from this [OF d(2) \<open>d < mx\<close> w(2)] have "\<exists>e \<le> d + 1. (v, e) \<in> set (depths_of s)" .
  then obtain e where "e \<le> d + 1" "(v, e) \<in> set (depths_of s)" by blast
  with d(1) show ?case by (intro exI [of _ e]) simp
qed

lemma bfs_result:
  assumes "graph_ok kw g"
  shows "\<exists>r. bfs g source mx = Some r \<and> distinct (tv_nodes r) \<and> set (tv_nodes r) = within g source mx \<and>
    map fst (tv_depths r) = tv_nodes r \<and> sorted (map snd (tv_depths r)) \<and>
    (\<forall>(v, d) \<in> set (tv_depths r). d = distance g source v)"
proof -
  have size: "search_size g (start_search source) < length (g_edges g) + 2"
    using search_size_start [of g source] by linarith
  have "\<exists>s. bfs g source mx = Some (ss_result s) \<and> search_ok g source mx s \<and> layered g mx s \<and> ss_pending s = []"
    unfolding bfs_def
    by (rule bfs.loop_returns [OF assms, where J = "layered g mx"]) (rule layered_visit [OF assms] search_ok_start layered_start size | assumption)+
  then obtain s where s: "bfs g source mx = Some (ss_result s)" "search_ok g source mx s" "layered g mx s" "ss_pending s = []"
    by blast
  note e = search_ok_end [OF s(2,4)]
  note short = layered_end [OF s(2,3,4)]
  have sound: "(source, v) \<in> links g ^^ d \<and> d \<le> mx" if "(v, d) \<in> set (depths_of s)" for v d
    using bspec [OF e(4) that] by simp
  have nodes: "set (tv_nodes (ss_result s)) = fst ` set (depths_of s)" using e(2) by (metis set_map)
  have "set (tv_nodes (ss_result s)) = within g source mx"
  proof (rule set_eqI)
    fix v
    have "v \<in> set (tv_nodes (ss_result s)) \<longleftrightarrow> (\<exists>d. (v, d) \<in> set (depths_of s))" by (force simp: nodes)
    also have "\<dots> \<longleftrightarrow> (\<exists>n \<le> mx. (source, v) \<in> links g ^^ n)" using sound short by blast
    finally show "v \<in> set (tv_nodes (ss_result s)) \<longleftrightarrow> v \<in> within g source mx" by (simp add: within_def)
  qed
  moreover have "d = distance g source v" if v: "(v, d) \<in> set (depths_of s)" for v d
    unfolding distance_def
  proof (rule Least_equality [symmetric])
    show "(source, v) \<in> links g ^^ d" using sound [OF v] by simp
    fix n assume n: "(source, v) \<in> links g ^^ n"
    show "d \<le> n"
    proof (cases "n \<le> mx")
      case True
      from short [OF this n] obtain d' where "d' \<le> n" "(v, d') \<in> set (depths_of s)" by blast
      moreover have "distinct (map fst (depths_of s))" using e(1,2) by simp
      ultimately show ?thesis using v by (metis eq_key_imp_eq_value)
    next
      case False
      with sound [OF v] show ?thesis by simp
    qed
  qed
  moreover have "sorted (map snd (depths_of s))" using s(3,4) by (simp add: layered_def)
  ultimately show ?thesis using s(1) e(1,2) by blast
qed

lemma dfs_result:
  assumes "graph_ok kw g"
  shows "\<exists>r. dfs g source mx = Some r \<and> distinct (tv_nodes r) \<and> set (tv_nodes r) \<subseteq> within g source mx \<and>
    map fst (tv_depths r) = tv_nodes r \<and>
    (length (g_edges g) < mx \<longrightarrow> set (tv_nodes r) = {v. (source, v) \<in> (links g)\<^sup>*})"
proof -
  have "search_size g (start_search source) < length (g_edges g) + 2"
    using search_size_start [of g source] by linarith
  from dfs.loop_returns [OF assms TrueI search_ok_start TrueI this]
  obtain s where s: "dfs g source mx = Some (ss_result s)" "search_ok g source mx s" "ss_pending s = []"
    unfolding dfs_def by blast
  note e = search_ok_end [OF s(2,3)]
  have sound: "(source, v) \<in> links g ^^ d \<and> d \<le> mx \<and> d \<le> length (g_edges g)" if "(v, d) \<in> set (depths_of s)" for v d
    using bspec [OF e(4) that] by simp
  have nodes: "set (tv_nodes (ss_result s)) = fst ` set (depths_of s)" using e(2) by (metis set_map)
  have sub: "set (tv_nodes (ss_result s)) \<subseteq> within g source mx"
  proof
    fix v assume "v \<in> set (tv_nodes (ss_result s))"
    then obtain d where "(v, d) \<in> set (depths_of s)" by (force simp: nodes)
    from sound [OF this] show "v \<in> within g source mx" unfolding within_def by blast
  qed
  have "set (tv_nodes (ss_result s)) = {v. (source, v) \<in> (links g)\<^sup>*}" if mx: "length (g_edges g) < mx"
  proof
    show "set (tv_nodes (ss_result s)) \<subseteq> {v. (source, v) \<in> (links g)\<^sup>*}"
      using sub unfolding within_def by (auto intro: relpow_imp_rtrancl)
    have "v \<in> set (tv_nodes (ss_result s))" if "(source, v) \<in> (links g)\<^sup>*" for v
      using that
    proof (induction rule: rtrancl_induct)
      case base
      show ?case by (rule e(3))
    next
      case (step w v)
      then obtain d where d: "(w, d) \<in> set (depths_of s)" unfolding nodes by force
      with sound [OF d] mx have "d < mx" by simp
      with bspec [OF e(5) d] step.hyps(2) show ?case by auto
    qed
    then show "{v. (source, v) \<in> (links g)\<^sup>*} \<subseteq> set (tv_nodes (ss_result s))" by blast
  qed
  then show ?thesis using s(1) e(1,2) sub by blast
qed

end
