(* ===== verification/GraphComponents.thy ===== *)
theory GraphComponents
  imports GraphTraversal
begin

text \<open>
  Connected components: the loops over a work list return, and explore exactly what is connected with
  their start.
\<close>

definition joins :: "'m graph \<Rightarrow> (string \<times> string) set" where
  "joins g = links g \<union> (links g)\<inverse>"

definition entities :: "'m graph \<Rightarrow> string set" where
  "entities g = e_subject ` set (g_edges g) \<union> e_object ` set (g_edges g)"

lemma joins_sym: "(u, v) \<in> joins g \<longleftrightarrow> (v, u) \<in> joins g"
  by (auto simp: joins_def)

lemma connected_sym: "(u, v) \<in> (joins g)\<^sup>* \<longleftrightarrow> (v, u) \<in> (joins g)\<^sup>*"
  using sym_rtrancl [of "joins g"] by (auto simp: sym_def joins_def)

lemma joins_entities: "(u, v) \<in> joins g \<Longrightarrow> v \<in> entities g"
  by (auto simp: joins_def links_def entities_def)

lemma finite_entities [simp]: "finite (entities g)"
  by (simp add: entities_def)

lemma card_entities: "card (entities g) \<le> 2 * length (g_edges g)"
proof -
  have "card (entities g) \<le> card (e_subject ` set (g_edges g)) + card (e_object ` set (g_edges g))"
    unfolding entities_def by (rule card_Un_le)
  moreover have "card (f ` set (g_edges g)) \<le> length (g_edges g)" for f :: "'a edge \<Rightarrow> string"
    by (metis card_image_le card_length finite_set le_trans)
  ultimately show ?thesis by (metis (no_types) add_mono le_trans mult_2)
qed

lemma set_neighbours: "graph_ok kw g \<Longrightarrow> set (neighbours g v) = joins g `` {v}"
  by (auto simp: neighbours_def select_filter select_reverse_filter relation_matches_def joins_def links_def
      image_iff)

lemma foldl_enqueue:
  "\<exists>news. foldl enqueue (visited, queue) xs = (visited \<union> set news, queue @ news) \<and>
     distinct news \<and> set news = set xs - visited"
proof (induction xs arbitrary: visited queue)
  case (Cons x xs)
  show ?case
  proof (cases "x \<in> visited")
    case True
    with Cons [of visited queue] show ?thesis by (auto simp: enqueue_def)
  next
    case False
    from Cons [of "insert x visited" "queue @ [x]"] obtain news where
      "foldl enqueue (insert x visited, queue @ [x]) xs = (insert x visited \<union> set news, (queue @ [x]) @ news)"
      "distinct news" "set news = set xs - insert x visited" by blast
    note n = this
    have "foldl enqueue (visited, queue) (x # xs) = (visited \<union> set (x # news), queue @ x # news)"
      using n(1) False by (simp add: enqueue_def)
    moreover have "distinct (x # news)" "set (x # news) = set (x # xs) - visited" using n(2,3) False by auto
    ultimately show ?thesis by blast
  qed
qed simp

section \<open>Exploring from a node\<close>

text \<open>\<open>P\<close> is what has left the queue, \<open>V\<close> what other explorations found.\<close>

definition explored :: "'m graph \<Rightarrow> string \<Rightarrow> string set \<Rightarrow> string set \<times> string list \<Rightarrow> string set \<Rightarrow> bool" where
  "explored g source V st P \<longleftrightarrow> (case st of (visited, queue) \<Rightarrow>
     visited = V \<union> P \<union> set queue \<and> distinct queue \<and> set queue \<inter> (V \<union> P) = {} \<and> P \<inter> V = {} \<and>
     P \<union> set queue \<subseteq> (joins g)\<^sup>* `` {source} \<and> joins g `` P \<subseteq> visited \<and> source \<in> P \<union> set queue)"

definition explore_size :: "'m graph \<Rightarrow> string set \<times> string list \<Rightarrow> nat" where
  "explore_size g st = card (entities g - fst st) + length (snd st)"

lemma explored_start: "source \<notin> V \<Longrightarrow> explored g source V (insert source V, [source]) {}"
  by (auto simp: explored_def)

lemma explore_size_start: "explore_size g (visited, [source]) < 2 * length (g_edges g) + 2"
proof -
  have "card (entities g - visited) \<le> card (entities g)" by (simp add: card_mono)
  with card_entities [of g] show ?thesis by (simp add: explore_size_def)
qed

lemma explored_step:
  assumes ok: "graph_ok kw g" and e: "explored g source V (visited, current # rest) P"
  shows "explored g source V (foldl enqueue (visited, rest) (neighbours g current)) (insert current P)"
    and "explore_size g (foldl enqueue (visited, rest) (neighbours g current)) < explore_size g (visited, current # rest)"
proof -
  obtain news where n: "foldl enqueue (visited, rest) (neighbours g current) = (visited \<union> set news, rest @ news)"
    "distinct news" "set news = joins g `` {current} - visited"
    using foldl_enqueue [of visited rest "neighbours g current"] unfolding set_neighbours [OF ok] by blast
  have reach: "set news \<subseteq> (joins g)\<^sup>* `` {source}"
    using e n(3) by (auto simp: explored_def intro: rtrancl_into_rtrancl)
  show "explored g source V (foldl enqueue (visited, rest) (neighbours g current)) (insert current P)"
    using e reach n(2,3) unfolding explored_def n(1) by auto
  have "set news \<subseteq> entities g - visited" using n(3) joins_entities by blast
  moreover have "entities g - (visited \<union> set news) = (entities g - visited) - set news" by blast
  ultimately have "card (entities g - (visited \<union> set news)) + length news = card (entities g - visited)"
    using card_Diff_subset [of "set news" "entities g - visited"] card_mono [of "entities g - visited" "set news"]
      distinct_card [OF n(2)] by simp
  then show "explore_size g (foldl enqueue (visited, rest) (neighbours g current)) < explore_size g (visited, current # rest)"
    by (simp add: explore_size_def n(1))
qed

text \<open>When the queue is empty and the other explorations are closed, all of the component is found.\<close>

lemma explored_end:
  assumes e: "explored g source V (visited, []) P" and V: "joins g `` V \<subseteq> V"
  shows "P = (joins g)\<^sup>* `` {source}"
proof
  show "P \<subseteq> (joins g)\<^sup>* `` {source}" using e by (simp add: explored_def)
  have "v \<in> P" if "(source, v) \<in> (joins g)\<^sup>*" for v
    using that
  proof (induction rule: rtrancl_induct)
    case base
    show ?case using e by (simp add: explored_def)
  next
    case (step u v)
    then have "v \<in> V \<union> P" using e by (auto simp: explored_def)
    moreover have "v \<notin> V" using step V e joins_sym [of u v g] by (auto simp: explored_def)
    ultimately show ?case by blast
  qed
  then show "(joins g)\<^sup>* `` {source} \<subseteq> P" by blast
qed

lemma component_loop_spec:
  assumes ok: "graph_ok kw g" and V: "joins g `` V \<subseteq> V"
  shows "explored g source V st (set component) \<Longrightarrow> distinct component \<Longrightarrow> explore_size g st < fuel \<Longrightarrow>
    \<exists>c. component_loop fuel g st component = Some (c, V \<union> (joins g)\<^sup>* `` {source}) \<and> distinct c \<and>
      set c = (joins g)\<^sup>* `` {source}"
proof (induction fuel arbitrary: st component)
  case (Suc fuel)
  obtain visited queue where st: "st = (visited, queue)" by (cases st)
  show ?case
  proof (cases queue)
    case Nil
    note e = Suc.prems(1) [unfolded st Nil]
    have "visited = V \<union> set component" using e by (simp add: explored_def)
    with explored_end [OF e V] Suc.prems(2) show ?thesis by (simp add: st Nil)
  next
    case (Cons current rest)
    note e = Suc.prems(1) [unfolded st Cons]
    have "current \<notin> set component" using e by (auto simp: explored_def)
    with Suc.IH [of "foldl enqueue (visited, rest) (neighbours g current)" "component @ [current]"]
      explored_step [OF ok e] Suc.prems(2,3) show ?thesis by (simp add: st Cons)
  qed
qed simp

lemma connected_loop_spec:
  assumes ok: "graph_ok kw g"
  shows "explored g source {} st P \<Longrightarrow> b \<notin> P \<Longrightarrow> explore_size g st < fuel \<Longrightarrow>
    connected_loop fuel g b st = Some ((source, b) \<in> (joins g)\<^sup>*)"
proof (induction fuel arbitrary: st P)
  case (Suc fuel)
  obtain visited queue where st: "st = (visited, queue)" by (cases st)
  show ?case
  proof (cases queue)
    case Nil
    with explored_end [OF Suc.prems(1) [unfolded st Nil]] Suc.prems(2) show ?thesis by (simp add: st)
  next
    case (Cons current rest)
    note e = Suc.prems(1) [unfolded st Cons]
    have "(source, current) \<in> (joins g)\<^sup>*" using e by (auto simp: explored_def)
    with Suc.IH [OF explored_step(1) [OF ok e]] explored_step(2) [OF ok e] Suc.prems(2,3) show ?thesis
      by (auto simp: st Cons)
  qed
qed simp

lemma are_connected_spec: "graph_ok kw g \<Longrightarrow> are_connected g a b = Some ((a, b) \<in> (joins g)\<^sup>*)"
  unfolding are_connected_def
  using connected_loop_spec [OF _ explored_start [of a "{}" g, simplified]] explore_size_start [of g "{a}" a] by fastforce

section \<open>All components\<close>

abbreviation component_of :: "'m graph \<Rightarrow> string \<Rightarrow> string set" where
  "component_of g v \<equiv> (joins g)\<^sup>* `` {v}"

lemma component_closed: "joins g `` (V \<union> component_of g v) \<subseteq> V \<union> component_of g v" if "joins g `` V \<subseteq> V"
  using that by (auto intro: rtrancl_into_rtrancl)

lemma component_disjoint:
  assumes V: "joins g `` V \<subseteq> V" and "v \<notin> V"
  shows "component_of g v \<inter> V = {}"
proof -
  have "v' \<in> V \<Longrightarrow> (v', u) \<in> (joins g)\<^sup>* \<Longrightarrow> u \<in> V" for v' u
    by (rotate_tac, induction rule: rtrancl_induct) (use V in auto)
  with assms(2) connected_sym [of v] show ?thesis by blast
qed

lemma component_same: "u \<in> component_of g v \<Longrightarrow> component_of g u = component_of g v"
  using connected_sym [of u v g] by (auto intro: rtrancl_trans)

lemma components_from_spec:
  assumes ok: "graph_ok kw g"
  shows "joins g `` V \<subseteq> V \<Longrightarrow>
    \<exists>cs. components_from g nodes V = Some cs \<and> distinct (concat cs) \<and>
      set (concat cs) = (joins g)\<^sup>* `` set nodes - V \<and>
      (\<forall>c \<in> set cs. c \<noteq> [] \<and> sorted c \<and> (\<forall>v \<in> set c. set c = component_of g v))"
proof (induction nodes arbitrary: V)
  case (Cons node nodes)
  let ?C = "component_of g node"
  show ?case
  proof (cases "node \<in> V")
    case True
    have "?C - V = {}" using component_disjoint [of g "- V" node] True Cons.prems joins_sym [of _ _ g] by blast
    then have "(joins g)\<^sup>* `` set (node # nodes) - V = (joins g)\<^sup>* `` set nodes - V" by auto
    with Cons.IH [OF Cons.prems] True show ?thesis by simp
  next
    case False
    from component_loop_spec [OF ok Cons.prems explored_start [OF False, of g, folded list.set(1)] _
       
        explore_size_start]
    obtain c where c: "component_loop (2 * length (g_edges g) + 2) g (insert node V, [node]) [] = Some (c, V \<union> ?C)"
      "distinct c" "set c = ?C" by auto
    from Cons.IH [OF component_closed [OF Cons.prems, of node]] obtain cs where
      cs: "components_from g nodes (V \<union> ?C) = Some cs" "distinct (concat cs)"
        "set (concat cs) = (joins g)\<^sup>* `` set nodes - (V \<union> ?C)"
        "\<forall>c \<in> set cs. c \<noteq> [] \<and> sorted c \<and> (\<forall>v \<in> set c. set c = component_of g v)" by blast
    have "components_from g (node # nodes) V = Some (sort c # cs)"
      using False c(1) cs(1) by simp
    moreover have "distinct (concat (sort c # cs))"
      using c(2,3) cs(2,3) by simp blast
    moreover have "set (concat (sort c # cs)) = (joins g)\<^sup>* `` set (node # nodes) - V"
    proof -
      have "set (concat (sort c # cs)) = ?C \<union> ((joins g)\<^sup>* `` set nodes - (V \<union> ?C))"
        using c(3) cs(3) by simp
      also have "\<dots> = (?C \<union> (joins g)\<^sup>* `` set nodes) - V" using component_disjoint [OF Cons.prems False] by blast
      also have "?C \<union> (joins g)\<^sup>* `` set nodes = (joins g)\<^sup>* `` set (node # nodes)" by auto
      finally show ?thesis .
    qed
    moreover have "\<forall>d \<in> set (sort c # cs). d \<noteq> [] \<and> sorted d \<and> (\<forall>v \<in> set d. set d = component_of g v)"
    proof -
      have "set (sort c) = ?C" using c(3) by simp
      moreover from this have "sort c \<noteq> []" by (metis Image_singleton_iff empty_iff empty_set rtrancl.rtrancl_refl)
      ultimately show ?thesis using cs(4) component_same [of _ g node] by (metis set_ConsD sorted_sort)
    qed
    ultimately show ?thesis by blast
  qed
qed simp

lemma components_result:
  assumes ok: "graph_ok kw g" and nodes: "nodes_ok g"
  shows "\<exists>cs. connected_components g = Some cs \<and> distinct (concat cs) \<and> set (concat cs) = entities g \<and>
    sorted (map (\<lambda>c. (- int (length c), c)) cs) \<and>
    (\<forall>c \<in> set cs. c \<noteq> [] \<and> sorted c \<and> (\<forall>v \<in> set c. set c = component_of g v))"
proof -
  obtain cs where cs: "components_from g (list_entities g) {} = Some cs" "distinct (concat cs)"
    "set (concat cs) = (joins g)\<^sup>* `` set (list_entities g)"
    "\<forall>c \<in> set cs. c \<noteq> [] \<and> sorted c \<and> (\<forall>v \<in> set c. set c = component_of g v)"
    using components_from_spec [OF ok, of "{}" "list_entities g"] by auto
  let ?cs = "sort_key (\<lambda>c. (- int (length c), c)) cs"
  have l: "set (list_entities g) = entities g" by (simp add: list_entities_ok [OF nodes] entities_def)
  have "mset (map mset ?cs) = mset (map mset cs)" by simp
  then have "mset (concat ?cs) = mset (concat cs)" by (simp only: mset_concat flip: sum_mset_sum_list)
  with cs(2) have "distinct (concat ?cs)" by (metis mset_eq_imp_distinct_iff)
  moreover have "set (concat ?cs) = entities g"
  proof -
    have "u \<in> entities g \<Longrightarrow> (u, v) \<in> (joins g)\<^sup>* \<Longrightarrow> v \<in> entities g" for u v
      by (metis joins_entities rtranclE)
    then have "(joins g)\<^sup>* `` entities g = entities g" by blast
    then show ?thesis using cs(3) by (simp add: l)
  qed
  moreover have "connected_components g = Some ?cs" by (simp add: connected_components_def cs(1))
  moreover have "sorted (map (\<lambda>c. (- int (length c), c)) ?cs)" by (rule sorted_sort_key)
  moreover have "\<forall>c \<in> set ?cs. c \<noteq> [] \<and> sorted c \<and> (\<forall>v \<in> set c. set c = component_of g v)"
    using cs(4) unfolding set_sort .
  ultimately show ?thesis by blast
qed

end
