(* ===== verification/GraphMerge.thy ===== *)
theory GraphMerge
  imports GraphAlgo
begin

text \<open>
  Merge, diff, filter and the walks over a graph, against the map from triples to edges that it stands for.
\<close>

section \<open>Merge\<close>

lemma find_select:
  assumes "graph_ok kw g"
  shows "List.find (\<lambda>x. e_object x = v) (select g s (Some r)) = stored g (s, r, v)"
  using find_map_filter [of "\<lambda>x. e_object x = v" "\<lambda>x. x" "\<lambda>e. e_subject e = s \<and> e_relation e = r" "g_edges g"]
  by (simp add: select_filter [OF assms] relation_matches_def stored_def edge_triple_def conj_assoc option.map_ident)

lemma exists_stored: "graph_ok kw g \<Longrightarrow> exists_edge g s r v \<longleftrightarrow> stored g (s, r, v) \<noteq> None"
  by (simp add: exists_edge_def graph_ok_def stored_None)

text \<open>Whether an edge changes the target.\<close>

definition merges :: "merge_strategy \<Rightarrow> (source_type \<Rightarrow> nat) \<Rightarrow> 'm graph \<Rightarrow> 'm edge \<Rightarrow> bool" where
  "merges strategy priority g e \<longleftrightarrow>
     (case stored g (edge_triple e) of None \<Rightarrow> True | Some old \<Rightarrow> replaces strategy priority old e)"

lemma merge_edge_step:
  assumes ok: "graph_ok kw g"
  shows "merge_edge kw strategy priority (g, n) e =
    (graph.merge_step kw (replaces strategy priority) g e, n + of_bool (merges strategy priority g e))"
proof -
  note f = find_select [OF ok, of "e_object e" "e_subject e" "e_relation e"]
  have t: "edge_triple e = (e_subject e, e_relation e, e_object e)" by (simp add: edge_triple_def)
  show ?thesis
    by (auto simp: merge_edge_def exists_stored [OF ok] f graph.merge_step_def merges_def t remove_triple_def
        split: option.split)
qed

lemma merge_count:
  "graph_ok kw g \<Longrightarrow> distinct (map edge_triple es) \<Longrightarrow>
     foldl (merge_edge kw strategy priority) (g, n) es =
       (foldl (graph.merge_step kw (replaces strategy priority)) g es,
        n + length (filter (merges strategy priority g) es))"
proof (induction es arbitrary: g n)
  case (Cons e es)
  let ?g = "graph.merge_step kw (replaces strategy priority) g e"
  note ok = graph.invar_merge_step [OF Cons.prems(1), of "replaces strategy priority" e]
  have "merges strategy priority ?g f = merges strategy priority g f" if "f \<in> set es" for f
    using that Cons.prems(2)
    by (auto simp: merges_def graph.look_merge_step [OF Cons.prems(1)] image_iff)
  then have "filter (merges strategy priority ?g) es = filter (merges strategy priority g) es"
    by (metis (mono_tags, lifting) filter_cong)
  with Cons.IH [OF ok, of "n + of_bool (merges strategy priority g e)"] Cons.prems show ?case
    by (simp add: merge_edge_step [OF Cons.prems(1)])
qed simp

lemma merge_result:
  assumes ok: "graph_ok kw target" and other: "graph_ok kw' other"
  shows "graph_ok kw (fst (merge_graphs_with_options kw target other strategy priority))"
    and "stored (fst (merge_graphs_with_options kw target other strategy priority)) t =
      (case stored other t of
         None \<Rightarrow> stored target t
       | Some e \<Rightarrow> Some (case stored target t of
           None \<Rightarrow> e | Some old \<Rightarrow> if replaces strategy priority old e then e else old))"
    and "snd (merge_graphs_with_options kw target other strategy priority) =
      length (filter (merges strategy priority target) (g_edges other))"
proof -
  have d: "distinct (map edge_triple (g_edges other))" using other by (simp add: graph_ok_def)
  note m = graph.look_merge [OF ok d, of "replaces strategy priority" t]
  show "graph_ok kw (fst (merge_graphs_with_options kw target other strategy priority))"
    using m by (simp add: merge_graphs_with_options_def merge_count [OF ok d])
  show "stored (fst (merge_graphs_with_options kw target other strategy priority)) t =
      (case stored other t of
         None \<Rightarrow> stored target t
       | Some e \<Rightarrow> Some (case stored target t of
           None \<Rightarrow> e | Some old \<Rightarrow> if replaces strategy priority old e then e else old))"
    using m by (simp add: merge_graphs_with_options_def merge_count [OF ok d] stored_def [of other])
  show "snd (merge_graphs_with_options kw target other strategy priority) =
      length (filter (merges strategy priority target) (g_edges other))"
    by (simp add: merge_graphs_with_options_def merge_count [OF ok d])
qed

section \<open>Diff\<close>

definition changed_from :: "'m graph \<Rightarrow> 'm edge \<Rightarrow> ('m edge \<times> 'm edge) option" where
  "changed_from old e =
     (case stored old (edge_triple e) of
        None \<Rightarrow> None | Some old_edge \<Rightarrow> if edge_changed old_edge e then Some (old_edge, e) else None)"

lemma diff_edge_stored:
  assumes ok: "graph_ok kw old"
  shows "diff_edge old d e =
    d\<lparr>gd_added := gd_added d @ (if stored old (edge_triple e) = None then [e] else []),
      gd_changed := gd_changed d @ List.map_filter (changed_from old) [e]\<rparr>"
proof -
  note f = find_select [OF ok, of "e_object e" "e_subject e" "e_relation e"]
  have t: "edge_triple e = (e_subject e, e_relation e, e_object e)" by (simp add: edge_triple_def)
  show ?thesis
    by (auto simp: diff_edge_def exists_stored [OF ok] f t changed_from_def List.map_filter_simps
        split: option.split)
qed

lemma diff_edges:
  assumes ok: "graph_ok kw old"
  shows "foldl (diff_edge old) d es =
    d\<lparr>gd_added := gd_added d @ filter (\<lambda>e. stored old (edge_triple e) = None) es,
      gd_changed := gd_changed d @ List.map_filter (changed_from old) es\<rparr>"
proof (induction es arbitrary: d)
  case (Cons e es)
  then show ?case by (simp add: diff_edge_stored [OF ok] List.map_filter_simps split: option.split)
qed (simp add: List.map_filter_simps)

lemma diff_result:
  assumes "graph_ok kw old" and "graph_ok kw' new"
  shows "diff old new = \<lparr>
    gd_added = filter (\<lambda>e. stored old (edge_triple e) = None) (g_edges new),
    gd_removed = filter (\<lambda>e. stored new (edge_triple e) = None) (g_edges old),
    gd_changed = List.map_filter (changed_from old) (g_edges new)\<rparr>"
  by (simp add: diff_def Let_def diff_edges [OF assms(1)] exists_stored [OF assms(2)] edge_triple_def)

section \<open>Filter\<close>

lemma foldl_if_filter: "foldl (\<lambda>g e. if P e then f g e else g) g es = foldl f g (filter P es)"
  by (induction es arbitrary: g) simp_all

lemma add_edges_schema: "g_schema (foldl (add_edge kw) g es) = g_schema g \<and> g_metadata (foldl (add_edge kw) g es) = g_metadata g"
  by (induction es arbitrary: g) (simp_all add: add_edge_def try_add_edge_def push_edge_def Let_def)

lemma filter_result:
  assumes "graph_ok kw g"
  shows "graph_ok kw (filter_graph kw vr g c)" and "nodes_ok (filter_graph kw vr g c)"
    and "g_edges (filter_graph kw vr g c) = filter (config_matches vr c) (g_edges g)"
    and "g_schema (filter_graph kw vr g c) = g_schema g" and "g_metadata (filter_graph kw vr g c) = g_metadata g"
proof -
  let ?g = "(with_schema (g_schema g) new_graph)\<lparr>g_metadata := g_metadata g\<rparr>"
  have ok: "graph_ok kw ?g"
    using graph_ok_new [of kw] by (simp add: graph_ok_def with_schema_def)
  have f: "filter_graph kw vr g c = foldl (add_edge kw) ?g (filter (config_matches vr c) (g_edges g))"
    by (simp add: filter_graph_def foldl_if_filter)
  show "graph_ok kw (filter_graph kw vr g c)" unfolding f by (rule graph_ok_add_edges [OF ok])
  show "nodes_ok (filter_graph kw vr g c)" unfolding f
    by (rule nodes_ok_adds) (simp add: nodes_ok_def with_schema_def new_graph_def)
  have e: "g_edges ?g = []" by (simp add: with_schema_def new_graph_def)
  have "distinct (map edge_triple (g_edges ?g @ filter (config_matches vr c) (g_edges g)))"
    using assms unfolding e by (simp add: graph_ok_def distinct_map_filter)
  from add_edges_distinct [OF ok this] show "g_edges (filter_graph kw vr g c) = filter (config_matches vr c) (g_edges g)"
    unfolding f e by simp
  show "g_schema (filter_graph kw vr g c) = g_schema g" "g_metadata (filter_graph kw vr g c) = g_metadata g"
    by (simp_all add: f add_edges_schema with_schema_def)
qed

section \<open>Walks\<close>

text \<open>A path along relations, and all of them in the order of the recursion.\<close>

fun follows :: "'m graph \<Rightarrow> string \<Rightarrow> string list \<Rightarrow> 'm edge list \<Rightarrow> string \<Rightarrow> bool" where
  "follows g current [] path goal \<longleftrightarrow> path = [] \<and> goal = current"
| "follows g current (rel # rels) path goal \<longleftrightarrow>
     (case path of
        [] \<Rightarrow> False
      | e # es \<Rightarrow> e \<in> set (g_edges g) \<and> e_subject e = current \<and> e_relation e = rel \<and>
          follows g (e_object e) rels es goal)"

fun all_paths :: "'m graph \<Rightarrow> string \<Rightarrow> string list \<Rightarrow> 'm edge list list" where
  "all_paths g current [] = [[]]"
| "all_paths g current (rel # rels) =
     concat (map (\<lambda>e. map ((#) e) (all_paths g (e_object e) rels))
       (filter (\<lambda>e. e_subject e = current \<and> e_relation e = rel) (g_edges g)))"

definition path_end :: "string \<Rightarrow> 'm edge list \<Rightarrow> string" where
  "path_end current path = (if path = [] then current else e_object (last path))"

lemma path_end_Cons: "path_end current (e # es) = path_end (e_object e) es"
  by (simp add: path_end_def)

lemma all_paths_follows: "path \<in> set (all_paths g current rels) \<longleftrightarrow> follows g current rels path (path_end current path)"
  by (induction rels arbitrary: current path) (auto simp: path_end_Cons path_end_def split: list.split)

lemma follows_end: "follows g current rels path goal \<Longrightarrow> goal = path_end current path"
proof (induction rels arbitrary: current path)
  case Nil
  then show ?case by (simp add: path_end_def)
next
  case (Cons rel rels)
  then show ?case by (auto simp: path_end_Cons split: list.splits)
qed

definition result_of :: "'m edge list \<Rightarrow> string \<Rightarrow> 'm edge list \<Rightarrow> 'm walk_result" where
  "result_of path current p = path_result (path_end current p) (path @ p)"

lemma walk_recursive_paths:
  assumes ok: "graph_ok kw g"
  shows "\<exists>ps. walk_recursive g current rels path limit results = results @ map (result_of path current) ps \<and>
    subseq ps (all_paths g current rels) \<and>
    (length results + length (all_paths g current rels) \<le> limit \<or> rels = [] \<longrightarrow> ps = all_paths g current rels)"
proof (induction rels arbitrary: current path results)
  case Nil
  show ?case by (intro exI [of _ "[[]]"]) (simp add: result_of_def path_end_def)
next
  case (Cons rel rels)
  note IH = Cons.IH
  let ?f = "\<lambda>results e. walk_recursive g (e_object e) rels (path @ [e]) limit results"
  let ?ps = "\<lambda>es. concat (map (\<lambda>e. map ((#) e) (all_paths g (e_object e) rels)) es)"
  have each: "\<exists>ps. foldl ?f results es = results @ map (result_of path current) ps \<and>
      subseq ps (?ps es) \<and> (length results + length (?ps es) \<le> limit \<longrightarrow> ps = ?ps es)" for es results
  proof (induction es arbitrary: results)
    case (Cons e es)
    obtain ps where ps: "?f results e = results @ map (result_of (path @ [e]) (e_object e)) ps"
      "subseq ps (all_paths g (e_object e) rels)"
      "length results + length (all_paths g (e_object e) rels) \<le> limit \<Longrightarrow> ps = all_paths g (e_object e) rels"
      using IH [of "e_object e" "path @ [e]" results] by blast
    obtain qs where qs: "foldl ?f (?f results e) es = ?f results e @ map (result_of path current) qs"
      "subseq qs (?ps es)" "length (?f results e) + length (?ps es) \<le> limit \<Longrightarrow> qs = ?ps es"
      using Cons.IH [of "?f results e"] by blast
    have "map (result_of (path @ [e]) (e_object e)) ps = map (result_of path current) (map ((#) e) ps)"
      by (simp add: result_of_def path_end_Cons)
    then have "foldl ?f results (e # es) = results @ map (result_of path current) (map ((#) e) ps @ qs)"
      using ps(1) qs(1) by simp
    moreover have "subseq (map ((#) e) ps @ qs) (?ps (e # es))"
      using list_emb_append_mono [OF subseq_map [OF ps(2)] qs(2)] by simp
    moreover have "map ((#) e) ps @ qs = ?ps (e # es)" if "length results + length (?ps (e # es)) \<le> limit"
      using that ps(1,3) qs(3) by simp
    ultimately show ?case by blast
  qed simp
  show ?case
  proof (cases "limit \<le> length results")
    case True
    then show ?thesis
      by (intro exI [of _ "[]"]) (cases "all_paths g current (rel # rels)"; simp del: all_paths.simps)
  next
    case False
    with each [of results "select g current (Some rel)"] show ?thesis
      by (simp add: select_filter [OF ok] relation_matches_def)
  qed
qed

lemma walk_all_paths_result:
  assumes "graph_ok kw g"
  shows "\<forall>r \<in> set (walk_all_paths g s rels n). follows g s rels (wr_path r) (wr_destination r)"
    and "sorted (map (\<lambda>r. - f64_key (wr_min_confidence r)) (walk_all_paths g s rels n))"
    and "length (walk_all_paths g s rels n) \<le> n"
    and "length (all_paths g s rels) \<le> n * 10 \<Longrightarrow> walk_all_paths g s rels n =
      take n (sort_key (\<lambda>r. - f64_key (wr_min_confidence r)) (map (result_of [] s) (all_paths g s rels)))"
proof -
  obtain ps where ps: "walk_recursive g s rels [] (n * 10) [] = map (result_of [] s) ps" "subseq ps (all_paths g s rels)"
    "length (all_paths g s rels) \<le> n * 10 \<Longrightarrow> ps = all_paths g s rels"
    using walk_recursive_paths [OF assms, of s rels "[]" "n * 10" "[]"] by auto
  obtain N where N: "ps = nths (all_paths g s rels) N" using ps(2) unfolding subseq_conv_nths ..
  have sub: "set ps \<subseteq> set (all_paths g s rels)"
    unfolding N by (rule set_nths_subset)
  have "follows g s rels (wr_path r) (wr_destination r)" if "r \<in> set (map (result_of [] s) ps)" for r
  proof -
    from that obtain p where p: "p \<in> set ps" "r = result_of [] s p" by auto
    with sub have "p \<in> set (all_paths g s rels)" by blast
    then show ?thesis unfolding all_paths_follows p(2) by (simp add: result_of_def path_result_def)
  qed
  moreover have "set (walk_all_paths g s rels n) \<subseteq> set (map (result_of [] s) ps)"
    unfolding walk_all_paths_def ps(1) by (metis set_sort set_take_subset)
  ultimately show "\<forall>r \<in> set (walk_all_paths g s rels n). follows g s rels (wr_path r) (wr_destination r)" by blast
  show "sorted (map (\<lambda>r. - f64_key (wr_min_confidence r)) (walk_all_paths g s rels n))"
    by (simp add: walk_all_paths_def take_map [symmetric] sorted_wrt_take)
  show "length (walk_all_paths g s rels n) \<le> n" by (simp add: walk_all_paths_def)
  show "length (all_paths g s rels) \<le> n * 10 \<Longrightarrow> walk_all_paths g s rels n =
      take n (sort_key (\<lambda>r. - f64_key (wr_min_confidence r)) (map (result_of [] s) (all_paths g s rels)))"
    using ps(1,3) by (simp add: walk_all_paths_def)
qed

text \<open>The greedy walk takes an edge of the highest confidence at each step.\<close>

fun greedy :: "'m graph \<Rightarrow> string \<Rightarrow> string list \<Rightarrow> 'm edge list \<Rightarrow> string \<Rightarrow> bool" where
  "greedy g current [] path goal \<longleftrightarrow> path = [] \<and> goal = current"
| "greedy g current (rel # rels) path goal \<longleftrightarrow>
     (case path of
        [] \<Rightarrow> False
      | e # es \<Rightarrow> e \<in> set (select g current (Some rel)) \<and>
          list_all (\<lambda>f. \<not> f64_less (e_confidence e) (e_confidence f)) (select g current (Some rel)) \<and>
          greedy g (e_object e) rels es goal)"

lemma f64_less_key: "\<not> f64_is_nan a \<Longrightarrow> \<not> f64_is_nan b \<Longrightarrow> f64_less a b \<longleftrightarrow> f64_key a < f64_key b"
  by (simp add: f64_less_def)

lemma max_confidence_Some:
  "max_confidence best es = Some b \<Longrightarrow> b \<in> set (best # es) \<and>
     (\<forall>f \<in> set (best # es). \<not> f64_less (e_confidence b) (e_confidence f))"
proof (induction es arbitrary: best)
  case Nil
  then show ?case by (auto simp: f64_less_def)
next
  case (Cons e es)
  let ?best = "if f64_less (e_confidence e) (e_confidence best) then best else e"
  from Cons.prems have n: "\<not> f64_is_nan (e_confidence best)" "\<not> f64_is_nan (e_confidence e)"
    and m: "max_confidence ?best es = Some b" by (auto split: if_splits)
  from Cons.IH [OF m] have b: "b \<in> set (?best # es)" "\<And>f. f \<in> set (?best # es) \<Longrightarrow> \<not> f64_less (e_confidence b) (e_confidence f)"
    by blast+
  from b(2) [of ?best] n have "\<not> f64_less (e_confidence b) (e_confidence best) \<and> \<not> f64_less (e_confidence b) (e_confidence e)"
    by (auto simp: f64_less_def split: if_splits)
  with b show ?case by (auto split: if_splits)
qed

lemma max_confidence_None: "max_confidence best es = None \<Longrightarrow> \<exists>e \<in> set (best # es). f64_is_nan (e_confidence e)"
  by (induction es arbitrary: best) (auto split: if_splits)

lemma walk_from_greedy:
  "walk_from g current path rels = WalkEnd goal p \<Longrightarrow>
     \<exists>q. p = path @ q \<and> greedy g current rels q goal"
proof (induction rels arbitrary: current path)
  case (Cons rel rels)
  obtain e es where sel: "select g current (Some rel) = e # es"
    using Cons.prems by (cases "select g current (Some rel)") auto
  obtain b where b: "max_confidence e es = Some b"
    using Cons.prems sel by (cases "max_confidence e es") auto
  from Cons.IH [of "e_object b" "path @ [b]"] Cons.prems obtain q where
    "p = (path @ [b]) @ q" "greedy g (e_object b) rels q goal" by (auto simp: sel b)
  with max_confidence_Some [OF b] show ?case
    by (intro exI [of _ "b # q"]) (auto simp: sel list_all_iff)
qed simp

lemma walk_from_panic:
  "walk_from g current path rels = WalkPanic \<Longrightarrow> \<exists>s r. \<exists>e \<in> set (select g s r). f64_is_nan (e_confidence e)"
proof (induction rels arbitrary: current path)
  case (Cons rel rels)
  then obtain e es where sel: "select g current (Some rel) = e # es"
    by (cases "select g current (Some rel)") auto
  show ?case
  proof (cases "max_confidence e es")
    case None
    from max_confidence_None [OF this] sel show ?thesis by metis
  next
    case (Some b)
    with Cons sel show ?thesis by auto
  qed
qed simp

end
