(* ===== verification/Bytes.thy ===== *)
theory Bytes
  imports Utf8 Rust_Num
begin

text \<open>
  Little-endian integers in a buffer of bytes (\<open>to_le_bytes\<close>, \<open>from_le_bytes\<close>), shared by the binary formats.
\<close>

text \<open>\<open>to_le_bytes\<close> and \<open>from_le_bytes\<close> on \<open>k\<close> bytes.\<close>

primrec le_bytes :: "nat \<Rightarrow> nat \<Rightarrow> string" where
  "le_bytes 0 n = []"
| "le_bytes (Suc k) n = char_of (n mod 256) # le_bytes k (n div 256)"

primrec of_le :: "string \<Rightarrow> nat" where
  "of_le [] = 0"
| "of_le (c # cs) = byte c + 256 * of_le cs"

lemma length_le_bytes [simp]: "length (le_bytes k n) = k"
  by (induction k arbitrary: n) simp_all

lemma of_le_bytes: "of_le (le_bytes k n) = n mod 256 ^ k"
proof (induction k arbitrary: n)
  case (Suc k)
  then show ?case by (simp add: mod_mult2_eq add.commute)
qed simp

lemma of_le_bytes_less: "n < 256 ^ k \<Longrightarrow> of_le (le_bytes k n) = n"
  by (simp add: of_le_bytes)

lemma of_le_less: "of_le cs < 256 ^ length cs"
proof (induction cs)
  case (Cons c cs)
  have "byte c + 256 * of_le cs < 256 * (of_le cs + 1)" using byte_less_256 [of c] by simp
  also have "\<dots> \<le> 256 * 256 ^ length cs" using Cons by (intro mult_left_mono) simp_all
  finally show ?case by simp
qed simp

lemma of_le_word: "of_le (le_bytes 4 (unat (w :: u32))) = unat w"
  using unsigned_less [of w, where ?'a = nat] by (simp add: of_le_bytes_less)

section \<open>Reading in place\<close>

text \<open>\<open>u32::from_le_bytes(b[pos..pos + 4])\<close>.\<close>

definition u32_at :: "string \<Rightarrow> nat \<Rightarrow> nat" where
  "u32_at b pos = of_le (take 4 (drop pos b))"

lemma u32_at_drop [simp]: "u32_at (drop n b) p = u32_at b (n + p)"
  by (simp add: u32_at_def add.commute)

lemma u32_at_take: "p + 4 \<le> n \<Longrightarrow> u32_at (take n b) p = u32_at b p"
  by (simp add: u32_at_def drop_take min_def)

lemma u32_at_append1: "p + 4 \<le> length a \<Longrightarrow> u32_at (a @ b) p = u32_at a p"
  by (simp add: u32_at_def)

lemma u32_at_append2: "u32_at (a @ b) (length a + p) = u32_at b p"
  by (simp add: u32_at_def)

lemma u32_at_le_bytes: "n < 2 ^ 32 \<Longrightarrow> u32_at (le_bytes 4 n @ b) 0 = n"
  by (simp add: u32_at_def of_le_bytes)

lemma u32_at_skip: "4 \<le> p \<Longrightarrow> u32_at (le_bytes 4 n @ b) p = u32_at b (p - 4)"
  using u32_at_append2 [of "le_bytes 4 n" b "p - 4"] by simp

lemma u32_at_less: "u32_at b p < 2 ^ 32"
proof -
  have "of_le (take 4 (drop p b)) < 256 ^ length (take 4 (drop p b))" by (rule of_le_less)
  also have "\<dots> \<le> 256 ^ 4" by (rule power_increasing) simp_all
  finally show ?thesis by (simp add: u32_at_def)
qed

end
