(* ===== verification/GraphPacked.thy ===== *)
theory GraphPacked
  imports GraphLaws Bytes
begin

text \<open>
  The packed binary format of a graph (\<open>crates/larql-core/src/io/packed.rs\<close>): a header of 32 bytes, an edge
  record of 28 bytes for each edge, the metadata section and the string table. A buffer is the list of its
  bytes; a \<open>usize\<close> has 64 bits. \<open>ser\<close> and \<open>de\<close> are \<open>serde_json::to_vec\<close> and \<open>from_slice\<close> on the
  metadata of an edge.
\<close>

section \<open>Numbers\<close>

text \<open>\<open>f32 as f64\<close>: exact, and a NaN becomes quiet.\<close>

definition f64_from_f32 :: "f32 \<Rightarrow> f64" where
  "f64_from_f32 x =
     (let m = unat x mod 2 ^ 31; ex = m div 2 ^ 23; fr = m mod 2 ^ 23;
          y = (if ex = 255 then
                 word_of_nat (2047 * 2 ^ 52 + (if fr = 0 then 0 else 2 ^ 51 + (fr mod 2 ^ 22) * 2 ^ 29))
               else if ex = 0 then f64_of_ratio fr (2 ^ 149)
               else word_of_nat ((ex + 896) * 2 ^ 52 + fr * 2 ^ 29))
      in if unat x < 2 ^ 31 then y else f64_neg y)"

section \<open>Errors\<close>

datatype packed_error =
    TooManyStrings | LayerTooLarge nat | MetadataNotSerializable | MetadataOffsetTooLarge | MetadataLengthTooLarge
  | StringTooLong | FileTooSmall | BadMagic | BadVersion nat | BadFlags nat | TableOffsetPastEnd nat
  | EdgeSizeOverflow | EdgeEndOverflow | EdgesPastTable nat | TruncatedStringTable | BadUtf8 | TruncatedRecord nat
  | BadSourceTag nat | BadSubject nat | BadRelation nat | BadObject nat | LengthWithoutFlags nat | FlagsWithoutPayload nat
  | RangeOverflow nat | RangePastSection nat | ShortInjection nat | EmptyMetadata nat | BadMetadata nat
  | BytesWithoutFlag nat | SlicePanic

text \<open>\<open>&bytes[a..b]\<close>, which panics out of range.\<close>

definition slice :: "nat \<Rightarrow> nat \<Rightarrow> string \<Rightarrow> packed_error + string" where
  "slice a b xs = (if a \<le> b \<and> b \<le> length xs then Inr (segment a b xs) else Inl SlicePanic)"

section \<open>The string table\<close>

record string_table =
  st_strings :: "string list"
  st_index :: "string \<Rightarrow> nat option"

definition new_table :: string_table where
  "new_table = \<lparr>st_strings = [], st_index = (\<lambda>_. None)\<rparr>"

definition table_push :: "string \<Rightarrow> string_table \<Rightarrow> string_table" where
  "table_push s t = \<lparr>st_strings = st_strings t @ [s],
     st_index = (st_index t)(s \<mapsto> length (st_strings t) mod 2 ^ 32)\<rparr>"

definition intern :: "string_table \<Rightarrow> string \<Rightarrow> packed_error + nat \<times> string_table" where
  "intern t s =
     (case st_index t s of
        Some idx \<Rightarrow> Inr (idx, t)
      | None \<Rightarrow>
          if 2 ^ 32 \<le> length (st_strings t) then Inl TooManyStrings
          else Inr (length (st_strings t), table_push s t))"

definition resolve :: "string_table \<Rightarrow> nat \<Rightarrow> string option" where
  "resolve t idx = (if idx < length (st_strings t) then Some (st_strings t ! idx) else None)"

fun write_strings :: "string list \<Rightarrow> packed_error + string" where
  "write_strings [] = Inr []"
| "write_strings (s # ss) =
     (if 2 ^ 32 \<le> length s then Inl StringTooLong
      else res_bind (write_strings ss) (\<lambda>rest. Inr (le_bytes 4 (length s) @ s @ rest)))"

text \<open>\<open>read_from\<close>; \<open>data\<close> is what the cursor has left.\<close>

fun read_strings :: "nat \<Rightarrow> string \<Rightarrow> string_table \<Rightarrow> packed_error + string_table" where
  "read_strings 0 data t = Inr t"
| "read_strings (Suc n) data t =
     (if length data < 4 then Inl TruncatedStringTable
      else
        (let len = of_le (take 4 data); rest = drop 4 data in
         if length rest < len then Inl TruncatedStringTable
         else if \<not> valid_utf8 (take len rest) then Inl BadUtf8
         else read_strings n (drop len rest) (table_push (take len rest) t)))"

section \<open>Writing\<close>

definition source_to_u8 :: "source_type \<Rightarrow> nat" where
  "source_to_u8 s = (case s of SrcUnknown \<Rightarrow> 0 | SrcParametric \<Rightarrow> 1 | SrcDocument \<Rightarrow> 2 | SrcInstalled \<Rightarrow> 3
     | SrcWikidata \<Rightarrow> 4 | SrcManual \<Rightarrow> 5)"

definition u8_to_source :: "nat \<Rightarrow> packed_error + source_type" where
  "u8_to_source v =
     (if v = 0 then Inr SrcUnknown else if v = 1 then Inr SrcParametric else if v = 2 then Inr SrcDocument
      else if v = 3 then Inr SrcInstalled else if v = 4 then Inr SrcWikidata else if v = 5 then Inr SrcManual
      else Inl (BadSourceTag v))"

record packed_edge =
  pe_subj :: nat
  pe_rel :: nat
  pe_obj :: nat
  pe_conf :: f32
  pe_source :: nat
  pe_meta :: "string option"
  pe_inj :: "string option"

type_synonym 'm to_json = "(string \<times> 'm) list \<Rightarrow> string option"
type_synonym 'm of_json = "string \<Rightarrow> (string \<times> 'm) list option"

definition pack_metadata :: "'m to_json \<Rightarrow> (string \<times> 'm) list option \<Rightarrow> packed_error + string option" where
  "pack_metadata ser m = (case m of None \<Rightarrow> Inr None
     | Some kvs \<Rightarrow> (case ser kvs of None \<Rightarrow> Inl MetadataNotSerializable | Some blob \<Rightarrow> Inr (Some blob)))"

definition pack_injection :: "(nat \<times> f64) option \<Rightarrow> packed_error + string option" where
  "pack_injection injection = (case injection of None \<Rightarrow> Inr None
     | Some (layer, score) \<Rightarrow>
         if 2 ^ 32 \<le> layer then Inl (LayerTooLarge layer)
         else Inr (Some (le_bytes 4 layer @ le_bytes 4 (unat (f32_of_f64 score)))))"

definition pack_edge :: "'m to_json \<Rightarrow> string_table \<Rightarrow> 'm edge \<Rightarrow> packed_error + packed_edge \<times> string_table" where
  "pack_edge ser t e =
     res_bind (intern t (e_subject e)) (\<lambda>(subj, t).
     res_bind (intern t (e_relation e)) (\<lambda>(rel, t).
     res_bind (intern t (e_object e)) (\<lambda>(obj, t).
     res_bind (pack_metadata ser (e_metadata e)) (\<lambda>meta.
     res_bind (pack_injection (e_injection e)) (\<lambda>inj.
       Inr (\<lparr>pe_subj = subj, pe_rel = rel, pe_obj = obj, pe_conf = f32_of_f64 (e_confidence e),
             pe_source = source_to_u8 (e_source e), pe_meta = meta, pe_inj = inj\<rparr>, t))))))"

fun pack_edges ::
  "'m to_json \<Rightarrow> string_table \<Rightarrow> 'm edge list \<Rightarrow> packed_error + packed_edge list \<times> string_table" where
  "pack_edges ser t [] = Inr ([], t)"
| "pack_edges ser t (e # es) =
     res_bind (pack_edge ser t e) (\<lambda>(rec, t).
     res_bind (pack_edges ser t es) (\<lambda>(recs, t). Inr (rec # recs, t)))"

definition blob_of :: "packed_edge \<Rightarrow> string" where
  "blob_of rec = (case pe_meta rec of Some b \<Rightarrow> b | None \<Rightarrow> []) @ (case pe_inj rec of Some b \<Rightarrow> b | None \<Rightarrow> [])"

definition has_blob :: "packed_edge \<Rightarrow> bool" where
  "has_blob rec \<longleftrightarrow> pe_meta rec \<noteq> None \<or> pe_inj rec \<noteq> None"

fun meta_offsets :: "string \<Rightarrow> packed_edge list \<Rightarrow> packed_error + (nat \<times> nat) list \<times> string" where
  "meta_offsets section [] = Inr ([], section)"
| "meta_offsets section (rec # recs) =
     (if has_blob rec then
        (if 2 ^ 32 \<le> length section then Inl MetadataOffsetTooLarge
         else
           (let section' = section @ blob_of rec in
            if 2 ^ 32 \<le> length section' then Inl MetadataLengthTooLarge
            else res_bind (meta_offsets section' recs) (\<lambda>(offs, sec).
              Inr ((length section, length section' - length section) # offs, sec))))
      else res_bind (meta_offsets section recs) (\<lambda>(offs, sec). Inr ((0, 0) # offs, sec)))"

definition flag_byte :: "bool \<Rightarrow> char" where
  "flag_byte b = char_of (if b then 1 else 0 :: nat)"

definition write_record :: "packed_edge \<times> nat \<times> nat \<Rightarrow> string" where
  "write_record x = (case x of (rec, off, len) \<Rightarrow>
     le_bytes 4 (pe_subj rec) @ le_bytes 4 (pe_rel rec) @ le_bytes 4 (pe_obj rec) @ le_bytes 4 (unat (pe_conf rec)) @
     [char_of (pe_source rec), flag_byte (pe_meta rec \<noteq> None), flag_byte (pe_inj rec \<noteq> None), char_of (0 :: nat)] @
     le_bytes 4 off @ le_bytes 4 len)"

definition header_bytes :: "nat \<Rightarrow> nat \<Rightarrow> nat \<Rightarrow> string" where
  "header_bytes num_edges num_strings table_offset =
     ''LARQ'' @ le_bytes 2 1 @ le_bytes 2 0 @ le_bytes 8 num_edges @ le_bytes 8 num_strings @ le_bytes 8 table_offset"

definition to_packed_bytes :: "'m to_json \<Rightarrow> 'm graph \<Rightarrow> packed_error + string" where
  "to_packed_bytes ser g =
     res_bind (pack_edges ser new_table (g_edges g)) (\<lambda>(recs, t).
     res_bind (meta_offsets [] recs) (\<lambda>(offs, section).
     res_bind (write_strings (st_strings t)) (\<lambda>table.
       Inr (header_bytes (length recs) (length (st_strings t)) (32 + length recs * 28 + length section) @
            concat (List.map write_record (zip recs offs)) @ section @ table))))"

section \<open>Reading\<close>

text \<open>The string at an index of the table, or the error for a field.\<close>

definition resolve_or :: "string_table \<Rightarrow> nat \<Rightarrow> (nat \<Rightarrow> packed_error) \<Rightarrow> packed_error + string" where
  "resolve_or t idx err = (case resolve t idx of Some s \<Rightarrow> Inr s | None \<Rightarrow> Inl (err idx))"

text \<open>The metadata and the injection in the payload of the edge \<open>i\<close>.\<close>

definition read_payload ::
  "'m of_json \<Rightarrow> nat \<Rightarrow> bool \<Rightarrow> bool \<Rightarrow> string \<Rightarrow> 'm edge \<Rightarrow> packed_error + 'm edge" where
  "read_payload de i has_meta has_inj blob e =
     (if has_inj \<and> length blob < 8 then Inl (ShortInjection i)
      else
        res_bind (if has_inj then slice 0 (length blob - 8) blob else Inr blob) (\<lambda>meta_blob.
        res_bind (if has_inj then res_bind (slice (length blob - 8) (length blob) blob) (\<lambda>b. Inr (Some b)) else Inr None)
          (\<lambda>inj_blob.
        res_bind
          (if has_meta then
             (if meta_blob = [] then Inl (EmptyMetadata i)
              else case de meta_blob of None \<Rightarrow> Inl (BadMetadata i) | Some m \<Rightarrow> Inr (e\<lparr>e_metadata := Some m\<rparr>))
           else if meta_blob \<noteq> [] then Inl (BytesWithoutFlag i) else Inr e) (\<lambda>e.
        case inj_blob of
          None \<Rightarrow> Inr e
        | Some b \<Rightarrow>
            res_bind (slice 0 4 b) (\<lambda>layer.
            res_bind (slice 4 8 b) (\<lambda>score.
              Inr (e\<lparr>e_injection := Some (of_le layer, f64_from_f32 (word_of_nat (of_le score)))\<rparr>)))))))"

definition read_record ::
  "'m of_json \<Rightarrow> string_table \<Rightarrow> string \<Rightarrow> nat \<Rightarrow> string \<Rightarrow> packed_error + 'm edge" where
  "read_record de t section i rec =
     res_bind (slice 0 4 rec) (\<lambda>subj. res_bind (slice 4 8 rec) (\<lambda>rel. res_bind (slice 8 12 rec) (\<lambda>obj.
     res_bind (slice 12 16 rec) (\<lambda>conf. res_bind (slice 16 17 rec) (\<lambda>src.
     res_bind (u8_to_source (of_le src)) (\<lambda>source.
     res_bind (slice 17 18 rec) (\<lambda>meta_flag. res_bind (slice 18 19 rec) (\<lambda>inj_flag.
     res_bind (slice 20 24 rec) (\<lambda>off. res_bind (slice 24 28 rec) (\<lambda>len.
     res_bind (resolve_or t (of_le subj) BadSubject) (\<lambda>subject.
     res_bind (resolve_or t (of_le rel) BadRelation) (\<lambda>relation.
     res_bind (resolve_or t (of_le obj) BadObject) (\<lambda>object.
       (let e = with_source source (with_confidence (f64_from_f32 (word_of_nat (of_le conf))) (new_edge subject relation object));
            has_meta = of_le meta_flag \<noteq> 0; has_inj = of_le inj_flag \<noteq> 0 in
        if \<not> has_meta \<and> \<not> has_inj then (if of_le len \<noteq> 0 then Inl (LengthWithoutFlags i) else Inr e)
        else if of_le len = 0 then Inl (FlagsWithoutPayload i)
        else if 2 ^ 64 \<le> of_le off + of_le len then Inl (RangeOverflow i)
        else if length section < of_le off + of_le len then Inl (RangePastSection i)
        else res_bind (slice (of_le off) (of_le off + of_le len) section) (\<lambda>blob.
          read_payload de i has_meta has_inj blob e)))))))))))))))"

text \<open>The loop over the records, \<open>n\<close> of them from the index \<open>i\<close>.\<close>

fun read_records ::
  "(string \<Rightarrow> string list) \<Rightarrow> 'm of_json \<Rightarrow> string_table \<Rightarrow> string \<Rightarrow> string \<Rightarrow> nat \<Rightarrow> nat \<Rightarrow> 'm graph \<Rightarrow>
     packed_error + 'm graph" where
  "read_records kw de t section bytes i 0 g = Inr g"
| "read_records kw de t section bytes i (Suc n) g =
     (if length bytes < 32 + i * 28 + 28 then Inl (TruncatedRecord i)
      else
        res_bind (read_record de t section i (segment (32 + i * 28) (32 + i * 28 + 28) bytes)) (\<lambda>e.
          read_records kw de t section bytes (Suc i) n (add_edge kw g e)))"

definition from_packed_bytes ::
  "(string \<Rightarrow> string list) \<Rightarrow> 'm of_json \<Rightarrow> string \<Rightarrow> packed_error + 'm graph" where
  "from_packed_bytes kw de bytes =
     (if length bytes < 32 then Inl FileTooSmall else
      res_bind (slice 0 4 bytes) (\<lambda>magic. if magic \<noteq> ''LARQ'' then Inl BadMagic else
      res_bind (slice 4 6 bytes) (\<lambda>version. if of_le version \<noteq> 1 then Inl (BadVersion (of_le version)) else
      res_bind (slice 6 8 bytes) (\<lambda>flags. if of_le flags \<noteq> 0 then Inl (BadFlags (of_le flags)) else
      res_bind (slice 8 16 bytes) (\<lambda>ne. res_bind (slice 16 24 bytes) (\<lambda>ns. res_bind (slice 24 32 bytes) (\<lambda>to.
      (let num_edges = of_le ne; table_offset = of_le to; edge_end = 32 + num_edges * 28 in
       if length bytes < table_offset then Inl (TableOffsetPastEnd table_offset)
       else if 2 ^ 64 \<le> num_edges * 28 then Inl EdgeSizeOverflow
       else if 2 ^ 64 \<le> edge_end then Inl EdgeEndOverflow
       else if table_offset < edge_end then Inl (EdgesPastTable edge_end)
       else
         res_bind (slice table_offset (length bytes) bytes) (\<lambda>string_data.
         res_bind (read_strings (of_le ns) string_data new_table) (\<lambda>t.
         res_bind (slice edge_end table_offset bytes) (\<lambda>section.
           read_records kw de t section bytes 0 num_edges new_graph)))))))))))"

end
