(* ===== verification/GraphPackedLaws.thy ===== *)
theory GraphPackedLaws
  imports GraphPacked GraphMerge "HOL-Library.Sublist"
begin

text \<open>
  The packed format: what is written is read back, up to the precision of the numbers, and reading any
  bytes never indexes out of range.
\<close>

section \<open>Slices\<close>

lemma segment_prefix: "length xs \<le> a \<Longrightarrow> segment a b (xs @ ys) = segment (a - length xs) (b - length xs) ys"
  by (simp add: segment_def)

lemma segment_first: "b \<le> length xs \<Longrightarrow> segment 0 b (xs @ ys) = take b xs"
  by (simp add: segment_def)

lemma segment_at: "length xs = a \<Longrightarrow> b = a + length ys \<Longrightarrow> segment a b (xs @ ys @ zs) = ys"
  by (simp add: segment_def)

lemma segment_tail: "length xs = a \<Longrightarrow> b = a + length ys \<Longrightarrow> segment a b (xs @ ys) = ys"
  using segment_at [of xs a b ys "[]"] by simp

section \<open>The string table\<close>

definition table_ok :: "string_table \<Rightarrow> bool" where
  "table_ok t \<longleftrightarrow> length (st_strings t) \<le> 2 ^ 32 \<and> list_all valid_utf8 (st_strings t) \<and>
     (\<forall>s i. st_index t s = Some i \<longrightarrow> i < length (st_strings t) \<and> st_strings t ! i = s)"

lemma table_ok_new: "table_ok new_table"
  by (simp add: table_ok_def new_table_def)

definition names :: "string list \<Rightarrow> nat \<Rightarrow> string \<Rightarrow> bool" where
  "names strings i s \<longleftrightarrow> i < length strings \<and> strings ! i = s"

lemma names_prefix: "names strings i s \<Longrightarrow> prefix strings strings' \<Longrightarrow> names strings' i s"
  by (auto simp: names_def prefix_def nth_append)

lemma intern_spec:
  assumes "intern t s = Inr (i, t')" and "table_ok t" and "valid_utf8 s"
  shows "table_ok t'" "names (st_strings t') i s" "prefix (st_strings t) (st_strings t')"
  using assms
  by (auto simp: intern_def table_ok_def names_def table_push_def nth_append less_Suc_eq split: option.splits if_splits)

lemma read_strings_write:
  "write_strings ss = Inr bytes \<Longrightarrow> list_all valid_utf8 ss \<Longrightarrow>
     \<exists>t'. read_strings (length ss) bytes t = Inr t' \<and> st_strings t' = st_strings t @ ss"
proof (induction ss arbitrary: bytes t)
  case (Cons s ss)
  then obtain rest where r: "write_strings ss = Inr rest" "bytes = le_bytes 4 (length s) @ s @ rest" "length s < 2 ^ 32"
    by (auto simp: res_bind_Inr split: if_splits)
  with Cons.IH [of rest "table_push s t"] Cons.prems(2) show ?case
    by (simp add: of_le_bytes_less table_push_def)
qed simp

section \<open>The records\<close>

definition packs :: "'m to_json \<Rightarrow> string list \<Rightarrow> packed_edge \<Rightarrow> 'm edge \<Rightarrow> bool" where
  "packs ser strings rec e \<longleftrightarrow>
     names strings (pe_subj rec) (e_subject e) \<and> names strings (pe_rel rec) (e_relation e) \<and>
     names strings (pe_obj rec) (e_object e) \<and> pe_conf rec = f32_of_f64 (e_confidence e) \<and>
     pe_source rec = source_to_u8 (e_source e) \<and> pack_metadata ser (e_metadata e) = Inr (pe_meta rec) \<and>
     pack_injection (e_injection e) = Inr (pe_inj rec)"

lemma packs_prefix: "packs ser strings rec e \<Longrightarrow> prefix strings strings' \<Longrightarrow> packs ser strings' rec e"
  by (auto simp: packs_def intro: names_prefix)

definition edge_utf8 :: "'m edge \<Rightarrow> bool" where
  "edge_utf8 e \<longleftrightarrow> valid_utf8 (e_subject e) \<and> valid_utf8 (e_relation e) \<and> valid_utf8 (e_object e)"

lemma pack_edge_spec:
  assumes p: "pack_edge ser t e = Inr (rec, t')" and t: "table_ok t" and e: "edge_utf8 e"
  shows "table_ok t' \<and> packs ser (st_strings t') rec e \<and> prefix (st_strings t) (st_strings t')"
proof -
  from p obtain i1 t1 i2 t2 i3 where
    i: "intern t (e_subject e) = Inr (i1, t1)" "intern t1 (e_relation e) = Inr (i2, t2)"
      "intern t2 (e_object e) = Inr (i3, t')"
    and r: "pe_subj rec = i1" "pe_rel rec = i2" "pe_obj rec = i3" "pe_conf rec = f32_of_f64 (e_confidence e)"
      "pe_source rec = source_to_u8 (e_source e)" "pack_metadata ser (e_metadata e) = Inr (pe_meta rec)"
      "pack_injection (e_injection e) = Inr (pe_inj rec)"
    by (auto simp: pack_edge_def res_bind_Inr)
  from e have u: "valid_utf8 (e_subject e)" "valid_utf8 (e_relation e)" "valid_utf8 (e_object e)"
    by (simp_all add: edge_utf8_def)
  note 1 = intern_spec [OF i(1) t u(1)]
  note 2 = intern_spec [OF i(2) 1(1) u(2)]
  note 3 = intern_spec [OF i(3) 2(1) u(3)]
  have "names (st_strings t') i1 (e_subject e)" using 1(2) 2(3) 3(3) names_prefix by blast
  moreover have "names (st_strings t') i2 (e_relation e)" using 2(2) 3(3) names_prefix by blast
  ultimately show ?thesis using 1(3) 2(3) 3 r by (auto simp: packs_def)
qed

lemma pack_edges_spec:
  "pack_edges ser t es = Inr (recs, t') \<Longrightarrow> table_ok t \<Longrightarrow> list_all edge_utf8 es \<Longrightarrow>
     table_ok t' \<and> list_all2 (packs ser (st_strings t')) recs es \<and> prefix (st_strings t) (st_strings t')"
proof (induction es arbitrary: t recs)
  case (Cons e es)
  from Cons.prems(1) obtain rec t1 recs' where r: "pack_edge ser t e = Inr (rec, t1)"
    "pack_edges ser t1 es = Inr (recs', t')" "recs = rec # recs'"
    by (auto simp: res_bind_Inr)
  from Cons.prems(3) have u: "edge_utf8 e" "list_all edge_utf8 es" by simp_all
  note 1 = pack_edge_spec [OF r(1) Cons.prems(2) u(1)]
  note 2 = Cons.IH [OF r(2) _ u(2)]
  with 1 show ?case by (auto simp: r(3) intro: packs_prefix)
qed simp

definition placed_in :: "string \<Rightarrow> packed_edge \<Rightarrow> nat \<times> nat \<Rightarrow> bool" where
  "placed_in sec rec ol \<longleftrightarrow> fst ol < 2 ^ 32 \<and> snd ol < 2 ^ 32 \<and>
     (if has_blob rec then fst ol + snd ol \<le> length sec \<and> segment (fst ol) (fst ol + snd ol) sec = blob_of rec \<and>
        snd ol = length (blob_of rec) else snd ol = 0)"

lemma placed_in_prefix: "placed_in sec rec ol \<Longrightarrow> prefix sec sec' \<Longrightarrow> placed_in sec' rec ol"
  by (auto simp: placed_in_def prefix_def segment_def)

lemma meta_offsets_spec:
  "meta_offsets sec recs = Inr (offs, sec') \<Longrightarrow> prefix sec sec' \<and> list_all2 (placed_in sec') recs offs"
proof (induction recs arbitrary: sec offs)
  case (Cons rec recs)
  show ?case
  proof (cases "has_blob rec")
    case True
    with Cons.prems obtain offs' where o: "meta_offsets (sec @ blob_of rec) recs = Inr (offs', sec')"
      "offs = (length sec, length (blob_of rec)) # offs'" "length sec < 2 ^ 32"
      "length (sec @ blob_of rec) < 2 ^ 32"
      by (auto simp: res_bind_Inr Let_def split: if_splits)
    note IH = Cons.IH [OF o(1)]
    have "placed_in (sec @ blob_of rec) rec (length sec, length (blob_of rec))"
      using o(3,4) True by (simp add: placed_in_def segment_def)
    then have "placed_in sec' rec (length sec, length (blob_of rec))"
      using IH placed_in_prefix by blast
    with IH show ?thesis by (auto simp: o(2) dest: append_prefixD)
  next
    case False
    with Cons.prems obtain offs' where o: "meta_offsets sec recs = Inr (offs', sec')" "offs = (0, 0) # offs'"
      by (auto simp: res_bind_Inr)
    from Cons.IH [OF o(1)] False show ?thesis by (simp add: o(2) placed_in_def)
  qed
qed simp

section \<open>Reading back\<close>

text \<open>What an edge is after it has been written and read.\<close>

definition reread :: "'m edge \<Rightarrow> 'm edge \<Rightarrow> bool" where
  "reread e e' \<longleftrightarrow> edge_triple e' = edge_triple e \<and> e_source e' = e_source e \<and>
     e_confidence e' = clamp01 (f64_from_f32 (f32_of_f64 (e_confidence e))) \<and>
     same_metadata (e_metadata e') (e_metadata e) \<and>
     e_injection e' = map_option (\<lambda>(layer, score). (layer, f64_from_f32 (f32_of_f64 score))) (e_injection e)"

text \<open>The JSON of the metadata is read back to the same map.\<close>

definition json_ok :: "'m to_json \<Rightarrow> 'm of_json \<Rightarrow> 'm edge \<Rightarrow> bool" where
  "json_ok ser de e \<longleftrightarrow> (case e_metadata e of None \<Rightarrow> True
     | Some m \<Rightarrow> (case ser m of None \<Rightarrow> True
         | Some b \<Rightarrow> b \<noteq> [] \<and> (case de b of None \<Rightarrow> False | Some m' \<Rightarrow> same_entries m' m)))"

lemma u8_to_source_to [simp]: "u8_to_source (source_to_u8 s) = Inr s"
  by (cases s) (simp_all add: u8_to_source_def source_to_u8_def)

lemma source_to_u8_less: "source_to_u8 s < 256"
  by (cases s) (simp_all add: source_to_u8_def)

lemma byte_char_of: "n < 256 \<Longrightarrow> byte (char_of n) = n"
  by simp

lemma names_resolve: "names strings i s \<Longrightarrow> st_strings t = strings \<Longrightarrow> resolve_or t i err = Inr s"
  by (simp add: names_def resolve_or_def resolve_def)

lemma length_write_record [simp]: "length (write_record x) = 28"
  by (simp add: write_record_def split: prod.split)

text \<open>The payload: metadata, then eight bytes of injection.\<close>

lemma pack_injection_Some:
  assumes "pack_injection inj' = Inr (Some b)"
  obtains layer score where "inj' = Some (layer, score)" "layer < 2 ^ 32" "b = le_bytes 4 layer @ le_bytes 4 (unat (f32_of_f64 score))"
  using assms by (auto simp: pack_injection_def split: option.splits prod.splits if_splits)

definition read_metadata ::
  "'m of_json \<Rightarrow> nat \<Rightarrow> bool \<Rightarrow> string \<Rightarrow> 'm edge \<Rightarrow> packed_error + 'm edge" where
  "read_metadata de i has_meta blob e =
     (if has_meta then
        (if blob = [] then Inl (EmptyMetadata i)
         else case de blob of None \<Rightarrow> Inl (BadMetadata i) | Some m \<Rightarrow> Inr (e\<lparr>e_metadata := Some m\<rparr>))
      else if blob \<noteq> [] then Inl (BytesWithoutFlag i) else Inr e)"

lemma read_payload_plain: "read_payload de i has_meta False blob e = read_metadata de i has_meta blob e"
  by (simp add: read_payload_def read_metadata_def res_bind_def split: sum.split)

lemma read_payload_injection:
  assumes "length l = 4" and "length s = 4"
  shows "read_payload de i has_meta True (blob @ l @ s) e = res_bind (read_metadata de i has_meta blob e)
    (\<lambda>e. Inr (e\<lparr>e_injection := Some (of_le l, f64_from_f32 (word_of_nat (of_le s)))\<rparr>))"
proof -
  have "slice 0 (length (blob @ l @ s) - 8) (blob @ l @ s) = Inr blob"
    "slice (length (blob @ l @ s) - 8) (length (blob @ l @ s)) (blob @ l @ s) = Inr (l @ s)"
    "slice 0 4 (l @ s) = Inr l" "slice 4 8 (l @ s) = Inr s"
    using assms by (simp_all add: slice_def segment_def)
  with assms show ?thesis by (simp add: read_payload_def read_metadata_def)
qed

lemma read_payload_packed:
  assumes m: "pack_metadata ser (e_metadata e) = Inr (pe_meta rec)" and i: "pack_injection (e_injection e) = Inr (pe_inj rec)"
    and json: "json_ok ser de e" and blob: "has_blob rec"
    and e': "e_metadata e0 = None" "e_injection e0 = None"
  shows "\<exists>m'. read_payload de k (pe_meta rec \<noteq> None) (pe_inj rec \<noteq> None) (blob_of rec) e0 =
      Inr (e0\<lparr>e_metadata := m', e_injection :=
        map_option (\<lambda>(layer, score). (layer, f64_from_f32 (f32_of_f64 score))) (e_injection e)\<rparr>) \<and>
    same_metadata m' (e_metadata e)"
    and "blob_of rec \<noteq> []"
proof -
  have meta: "(pe_meta rec = None \<and> e_metadata e = None) \<or>
      (\<exists>b kvs m'. pe_meta rec = Some b \<and> e_metadata e = Some kvs \<and> b \<noteq> [] \<and> de b = Some m' \<and> same_entries m' kvs)"
    using m json by (cases "e_metadata e"; cases "pe_meta rec")
      (auto simp: pack_metadata_def json_ok_def split: option.splits)
  have inj: "(pe_inj rec = None \<and> e_injection e = None) \<or>
      (\<exists>layer score. e_injection e = Some (layer, score) \<and> layer < 2 ^ 32 \<and>
        pe_inj rec = Some (le_bytes 4 layer @ le_bytes 4 (unat (f32_of_f64 score))))"
  proof (cases "pe_inj rec")
    case None
    with i show ?thesis by (auto simp: pack_injection_def split: option.splits prod.splits if_splits)
  next
    case (Some b)
    from i Some have "pack_injection (e_injection e) = Inr (Some b)" by simp
    then show ?thesis by (rule pack_injection_Some) (auto simp: Some)
  qed
  show "blob_of rec \<noteq> []" using meta inj blob by (auto simp: blob_of_def has_blob_def dest: arg_cong [where f = length])
  have "\<exists>m'. read_metadata de k (pe_meta rec \<noteq> None) (case pe_meta rec of Some b \<Rightarrow> b | None \<Rightarrow> []) e0 =
      Inr (e0\<lparr>e_metadata := m'\<rparr>) \<and> same_metadata m' (e_metadata e)"
    using meta e'(1) by (auto simp: read_metadata_def same_metadata_def intro: exI [of _ None])
  then obtain m' where m': "read_metadata de k (pe_meta rec \<noteq> None) (case pe_meta rec of Some b \<Rightarrow> b | None \<Rightarrow> []) e0 =
      Inr (e0\<lparr>e_metadata := m'\<rparr>)" "same_metadata m' (e_metadata e)" by blast
  have "read_payload de k (pe_meta rec \<noteq> None) (pe_inj rec \<noteq> None) (blob_of rec) e0 =
      Inr (e0\<lparr>e_metadata := m', e_injection :=
        map_option (\<lambda>(layer, score). (layer, f64_from_f32 (f32_of_f64 score))) (e_injection e)\<rparr>)"
    using inj
  proof (elim disjE exE conjE)
    assume "pe_inj rec = None" "e_injection e = None"
    with m'(1) e'(2) show ?thesis by (simp add: blob_of_def read_payload_plain)
  next
    fix layer score
    assume "e_injection e = Some (layer, score)" "layer < 2 ^ 32"
      "pe_inj rec = Some (le_bytes 4 layer @ le_bytes 4 (unat (f32_of_f64 score)))"
    with m'(1) show ?thesis
      by (simp add: blob_of_def read_payload_injection of_le_bytes_less of_le_word)
  qed
  with m'(2) show "\<exists>m'. read_payload de k (pe_meta rec \<noteq> None) (pe_inj rec \<noteq> None) (blob_of rec) e0 =
      Inr (e0\<lparr>e_metadata := m', e_injection :=
        map_option (\<lambda>(layer, score). (layer, f64_from_f32 (f32_of_f64 score))) (e_injection e)\<rparr>) \<and>
    same_metadata m' (e_metadata e)" by blast
qed

lemma slice_write_record:
  assumes "write_record (rec, off, len) = r"
  shows "slice 0 4 r = Inr (le_bytes 4 (pe_subj rec))" "slice 4 8 r = Inr (le_bytes 4 (pe_rel rec))"
    "slice 8 12 r = Inr (le_bytes 4 (pe_obj rec))" "slice 12 16 r = Inr (le_bytes 4 (unat (pe_conf rec)))"
    "slice 16 17 r = Inr [char_of (pe_source rec)]" "slice 17 18 r = Inr [flag_byte (pe_meta rec \<noteq> None)]"
    "slice 18 19 r = Inr [flag_byte (pe_inj rec \<noteq> None)]"
    "slice 20 24 r = Inr (le_bytes 4 off)" "slice 24 28 r = Inr (le_bytes 4 len)"
  unfolding assms [symmetric] by (simp_all add: slice_def write_record_def segment_def del: le_bytes.simps)

lemma flag_byte_zero: "of_le [flag_byte b] \<noteq> 0 \<longleftrightarrow> b"
  by (simp add: flag_byte_def)

lemma names_index: "names strings i s \<Longrightarrow> length strings \<le> 2 ^ 32 \<Longrightarrow> of_le (le_bytes 4 i) = i"
  by (simp add: names_def of_le_bytes_less)

lemma read_record_packed:
  assumes p: "packs ser (st_strings t) rec e" and len: "length (st_strings t) \<le> 2 ^ 32"
    and pl: "placed_in sec rec (off, n)" and json: "json_ok ser de e"
  shows "\<exists>e'. read_record de t sec i (write_record (rec, off, n)) = Inr e' \<and> reread e e'"
proof -
  from p have nm: "names (st_strings t) (pe_subj rec) (e_subject e)" "names (st_strings t) (pe_rel rec) (e_relation e)"
    "names (st_strings t) (pe_obj rec) (e_object e)" and c: "pe_conf rec = f32_of_f64 (e_confidence e)"
    and s: "pe_source rec = source_to_u8 (e_source e)" and m: "pack_metadata ser (e_metadata e) = Inr (pe_meta rec)"
    and j: "pack_injection (e_injection e) = Inr (pe_inj rec)" by (simp_all add: packs_def)
  note idx = nm [THEN names_index, OF len]
  note res = nm [THEN names_resolve [OF _ refl]]
  define e0 where "e0 = with_source (e_source e) (with_confidence (f64_from_f32 (f32_of_f64 (e_confidence e)))
    (new_edge (e_subject e) (e_relation e) (e_object e) :: 'a edge))"
  have e0: "e_metadata e0 = None" "e_injection e0 = None" by (simp_all add: e0_def with_source_def with_confidence_def new_edge_def)
  have src: "u8_to_source (of_le [char_of (pe_source rec)]) = Inr (e_source e)"
    using source_to_u8_less [of "e_source e"] by (simp add: s)
  have le: "of_le (le_bytes 4 off) = off" "of_le (le_bytes 4 n) = n"
    using pl by (simp_all add: placed_in_def of_le_bytes_less)
  have conf: "word_of_nat (of_le (le_bytes 4 (unat (pe_conf rec)))) = f32_of_f64 (e_confidence e)"
    unfolding of_le_word by (simp add: c)
  have eq: "read_record de t sec i (write_record (rec, off, n)) =
     (if \<not> has_blob rec then (if n \<noteq> 0 then Inl (LengthWithoutFlags i) else Inr e0)
      else if n = 0 then Inl (FlagsWithoutPayload i)
      else if 2 ^ 64 \<le> off + n then Inl (RangeOverflow i)
      else if length sec < off + n then Inl (RangePastSection i)
      else res_bind (slice off (off + n) sec) (\<lambda>blob.
        read_payload de i (pe_meta rec \<noteq> None) (pe_inj rec \<noteq> None) blob e0))"
    unfolding read_record_def slice_write_record [OF refl] res_bind_simps src flag_byte_zero le conf idx res Let_def
      e0_def has_blob_def by simp
  show ?thesis
  proof (cases "has_blob rec")
    case False
    have "reread e e0" using m j False
      by (auto simp: reread_def e0_def with_source_def with_confidence_def new_edge_def edge_triple_def same_metadata_def
          has_blob_def pack_metadata_def pack_injection_def split: option.splits prod.splits if_splits)
    moreover have "n = 0" using pl False by (simp add: placed_in_def)
    ultimately show ?thesis using False unfolding eq by simp
  next
    case True
    note P = read_payload_packed [OF m j json True e0]
    from read_payload_packed(1) [where k = i, OF m j json True e0] obtain m' where m': "read_payload de i (pe_meta rec \<noteq> None) (pe_inj rec \<noteq> None) (blob_of rec) e0 =
      Inr (e0\<lparr>e_metadata := m', e_injection :=
        map_option (\<lambda>(layer, score). (layer, f64_from_f32 (f32_of_f64 score))) (e_injection e)\<rparr>)"
      "same_metadata m' (e_metadata e)" by blast
    have pl': "off < 2 ^ 32" "n < 2 ^ 32" "off + n \<le> length sec" "slice off (off + n) sec = Inr (blob_of rec)" "n \<noteq> 0"
      using pl True P(2) by (auto simp: placed_in_def slice_def)
    then have "\<not> 2 ^ 64 \<le> off + n" by simp
    with pl' True m' show ?thesis
      unfolding eq by (auto simp: reread_def e0_def with_source_def with_confidence_def new_edge_def edge_triple_def)
  qed
qed

lemma read_records_packed:
  assumes len: "length (st_strings t) \<le> 2 ^ 32"
  shows "list_all2 (packs ser (st_strings t)) recs es \<Longrightarrow> list_all2 (placed_in sec) recs offs \<Longrightarrow>
    list_all (json_ok ser de) es \<Longrightarrow> length pre = 32 + i * 28 \<Longrightarrow>
    \<exists>es'. list_all2 reread es es' \<and>
      read_records kw de t sec (pre @ concat (map write_record (zip recs offs)) @ post) i (length recs) g =
        Inr (foldl (add_edge kw) g es')"
proof (induction recs arbitrary: es offs pre i g)
  case (Cons rec recs)
  from Cons.prems obtain e es1 off n offs1 where es: "es = e # es1" "offs = (off, n) # offs1"
    and p: "packs ser (st_strings t) rec e" "list_all2 (packs ser (st_strings t)) recs es1"
    and o: "placed_in sec rec (off, n)" "list_all2 (placed_in sec) recs offs1"
    and j: "json_ok ser de e" "list_all (json_ok ser de) es1"
    by (auto simp: list_all2_Cons1)
  let ?r = "write_record (rec, off, n)" and ?rest = "concat (map write_record (zip recs offs1))"
  from read_record_packed [OF p(1) len o(1) j(1), of i] obtain e' where
    e': "read_record de t sec i ?r = Inr e'" "reread e e'" by blast
  have "length (pre @ ?r) = 32 + Suc i * 28" using Cons.prems(4) by simp
  from Cons.IH [OF p(2) o(2) j(2) this, of "add_edge kw g e'"] obtain es' where
    es': "list_all2 reread es1 es'" "read_records kw de t sec (pre @ ?r @ ?rest @ post) (Suc i) (length recs) (add_edge kw g e') =
      Inr (foldl (add_edge kw) (add_edge kw g e') es')" by auto
  have "segment (32 + i * 28) (32 + i * 28 + 28) (pre @ ?r @ ?rest @ post) = ?r"
    using Cons.prems(4) by (intro segment_at) simp_all
  moreover have "\<not> length (pre @ ?r @ ?rest @ post) < 32 + i * 28 + 28" using Cons.prems(4) by simp
  ultimately have "read_records kw de t sec (pre @ concat (map write_record (zip (rec # recs) offs)) @ post) i
      (length (rec # recs)) g = Inr (foldl (add_edge kw) g (e' # es'))"
    using e'(1) es'(2) by (simp add: es)
  with e'(2) es'(1) show ?case by (auto simp: es)
qed simp

lemma length_header [simp]: "length (header_bytes a b c) = 32"
  by (simp add: header_bytes_def)

lemma length_records: "list_all2 P recs offs \<Longrightarrow> length (concat (map write_record (zip recs offs))) = length recs * 28"
  by (induction recs offs rule: list_all2_induct) simp_all

lemma slice_header:
  assumes "header_bytes ne ns to @ rest = bytes"
  shows "slice 0 4 bytes = Inr ''LARQ''" "slice 4 6 bytes = Inr (le_bytes 2 1)" "slice 6 8 bytes = Inr (le_bytes 2 0)"
    "slice 8 16 bytes = Inr (le_bytes 8 ne)" "slice 16 24 bytes = Inr (le_bytes 8 ns)" "slice 24 32 bytes = Inr (le_bytes 8 to)"
  unfolding assms [symmetric] by (simp_all add: slice_def header_bytes_def segment_def del: le_bytes.simps)

lemma write_strings_length: "write_strings ss = Inr bytes \<Longrightarrow> length ss \<le> length bytes"
  by (induction ss arbitrary: bytes) (auto simp: res_bind_Inr split: if_splits)

lemma packed_result:
  assumes ok: "graph_ok kw g" and w: "to_packed_bytes ser g = Inr bytes" and len: "length bytes < 2 ^ 64"
    and utf8: "list_all edge_utf8 (g_edges g)" and json: "list_all (json_ok ser de) (g_edges g)"
  shows "\<exists>g'. from_packed_bytes kw de bytes = Inr g' \<and> graph_ok kw g' \<and> list_all2 reread (g_edges g) (g_edges g') \<and>
    g_schema g' = new_schema \<and> g_metadata g' = []"
proof -
  from w obtain recs t offs sec table where
    1: "pack_edges ser new_table (g_edges g) = Inr (recs, t)" and 2: "meta_offsets [] recs = Inr (offs, sec)"
    and 3: "write_strings (st_strings t) = Inr table"
    and b: "bytes = header_bytes (length recs) (length (st_strings t)) (32 + length recs * 28 + length sec) @
      concat (map write_record (zip recs offs)) @ sec @ table"
    by (auto simp: to_packed_bytes_def res_bind_Inr)
  note P = pack_edges_spec [OF 1 table_ok_new utf8]
  note M = meta_offsets_spec [OF 2, THEN conjunct2]
  let ?recs = "concat (map write_record (zip recs offs))"
  have lr: "length ?recs = length recs * 28" by (rule length_records [OF M])
  have lb: "length bytes = 32 + length recs * 28 + length sec + length table" by (simp add: b lr)
  have ln: "length (st_strings t) \<le> length table" by (rule write_strings_length [OF 3])
  have small: "length recs < 2 ^ 64" "length (st_strings t) < 2 ^ 64" "32 + length recs * 28 + length sec < 2 ^ 64"
    using len lb ln by simp_all
  have le8: "of_le (le_bytes 8 n) = n" if "n < 2 ^ 64" for n using that by (simp add: of_le_bytes)
  note le = small [THEN le8]
  from P have strings: "length (st_strings t) \<le> 2 ^ 32" "list_all valid_utf8 (st_strings t)" by (simp_all add: table_ok_def)
  from read_strings_write [OF 3 strings(2), of new_table] obtain t' where
    t': "read_strings (length (st_strings t)) table new_table = Inr t'" "st_strings t' = st_strings t"
    by (auto simp: new_table_def)
  from read_records_packed [of t' ser recs "g_edges g" sec offs de "header_bytes (length recs) (length (st_strings t))
      (32 + length recs * 28 + length sec)" 0 kw "sec @ table" new_graph] P M json strings(1)
  obtain es' where es': "list_all2 reread (g_edges g) es'"
    "read_records kw de t' sec bytes 0 (length recs) new_graph = Inr (foldl (add_edge kw) new_graph es')"
    by (auto simp: t'(2) b)
  have "slice (32 + length recs * 28 + length sec) (length bytes) bytes = Inr table"
    "slice (32 + length recs * 28) (32 + length recs * 28 + length sec) bytes = Inr sec"
    by (simp_all add: slice_def segment_def b lr)
  note sl = this
  have read: "from_packed_bytes kw de bytes = Inr (foldl (add_edge kw) new_graph es')"
    unfolding from_packed_bytes_def slice_header [OF b [symmetric]] res_bind_simps Let_def le
    using lb small len sl t'(1) es'(2) by (simp add: of_le_bytes)
  have "map edge_triple es' = map edge_triple (g_edges g)"
    using es'(1) by (induction rule: list_all2_induct) (simp_all add: reread_def)
  then have "distinct (map edge_triple (g_edges (new_graph :: 'a graph) @ es'))"
    using ok by (simp add: new_graph_def graph_ok_def)
  from add_edges_distinct [OF graph_ok_new this] have "g_edges (foldl (add_edge kw) new_graph es') = es'"
    by (simp add: new_graph_def)
  with read es'(1) graph_ok_add_edges [OF graph_ok_new, of kw es'] show ?thesis
    by (simp add: add_edges_schema new_graph_def)
qed

section \<open>No index out of range\<close>

definition safe :: "packed_error + 'b \<Rightarrow> bool" where
  "safe r \<longleftrightarrow> r \<noteq> Inl SlicePanic"

lemma safe_Inr [simp]: "safe (Inr a)"
  by (simp add: safe_def)

lemma safe_Inl [simp]: "safe (Inl e) \<longleftrightarrow> e \<noteq> SlicePanic"
  by (simp add: safe_def)

lemma safe_bind: "safe r \<Longrightarrow> (\<And>a. r = Inr a \<Longrightarrow> safe (f a)) \<Longrightarrow> safe (res_bind r f)"
  by (cases r) simp_all

lemma safe_slice: "a \<le> b \<Longrightarrow> b \<le> length xs \<Longrightarrow> safe (slice a b xs)"
  by (simp add: slice_def)

lemma safe_strings: "safe (read_strings n data t)"
  by (induction n data t rule: read_strings.induct) (simp_all add: Let_def)

lemma safe_metadata: "safe (read_metadata de i has_meta blob e)"
  by (simp add: read_metadata_def split: option.split)

lemma safe_payload: "safe (read_payload de i has_meta has_inj blob e)"
proof (cases "has_inj")
  case True
  show ?thesis
  proof (cases "length blob < 8")
    case False
    define n where "n = length blob - 8"
    have "blob = take n blob @ take 4 (drop n blob) @ drop 4 (drop n blob)" by (metis append_take_drop_id)
    moreover have "length (take 4 (drop n blob)) = 4" "length (drop 4 (drop n blob)) = 4"
      using False by (simp_all add: n_def)
    ultimately have "read_payload de i has_meta True blob e = res_bind (read_metadata de i has_meta (take n blob) e)
      (\<lambda>e. Inr (e\<lparr>e_injection := Some (of_le (take 4 (drop n blob)),
        f64_from_f32 (word_of_nat (of_le (drop 4 (drop n blob)))))\<rparr>))"
      by (metis read_payload_injection)
    with True show ?thesis by (simp add: safe_bind safe_metadata)
  qed (simp add: read_payload_def True)
qed (simp add: read_payload_plain safe_metadata)

lemma safe_resolve: "(\<And>i. err i \<noteq> SlicePanic) \<Longrightarrow> safe (resolve_or t i err)"
  by (simp add: resolve_or_def split: option.split)

lemma safe_source: "safe (u8_to_source v)"
  by (simp add: u8_to_source_def)

lemma safe_record: "length rec = 28 \<Longrightarrow> safe (read_record de t sec i rec)"
  unfolding read_record_def Let_def
  by (intro safe_bind safe_slice safe_source safe_resolve) (auto intro!: safe_bind safe_slice safe_payload)

lemma safe_records:
  assumes "graph_ok kw g"
  shows "safe (read_records kw de t sec bytes i n g) \<and>
    (\<forall>g'. read_records kw de t sec bytes i n g = Inr g' \<longrightarrow> graph_ok kw g')"
  using assms
proof (induction n arbitrary: i g)
  case (Suc n)
  let ?r = "read_record de t sec i (segment (32 + i * 28) (32 + i * 28 + 28) bytes)"
  show ?case
  proof (cases "length bytes < 32 + i * 28 + 28")
    case False
    then have "safe ?r" by (intro safe_record) (simp add: segment_def)
    with False Suc.IH [OF graph_ok_add [OF Suc.prems]] show ?thesis by (cases ?r) (auto simp: safe_def)
  qed simp
qed simp

lemma safe_read: "safe (from_packed_bytes kw de bytes)"
  unfolding from_packed_bytes_def Let_def
  by (auto intro!: safe_bind safe_slice safe_strings safe_records [OF graph_ok_new, THEN conjunct1])

lemma read_graph_ok: "from_packed_bytes kw de bytes = Inr g \<Longrightarrow> graph_ok kw g"
  unfolding from_packed_bytes_def Let_def
  by (auto simp: res_bind_Inr split: if_splits dest: safe_records [OF graph_ok_new, THEN conjunct2, rule_format])

end
