(* ===== verification/GraphProperties.thy ===== *)
theory GraphProperties
  imports GraphComponents GraphMerge GraphPackedLaws
begin

text \<open>
  What the knowledge graph, its algorithms and its packed format promise.
\<close>

section \<open>A graph to evaluate on\<close>

definition no_words :: "string \<Rightarrow> string list" where
  "no_words text = []"

definition link :: "string \<Rightarrow> string \<Rightarrow> nat edge" where
  "link s x = new_edge s ''r'' x"

definition detour :: "nat graph" where
  "detour = add_edges no_words new_graph
     [link ''s'' ''a'', link ''s'' ''b'', link ''b'' ''c'', link ''c'' ''x'', link ''a'' ''x'', link ''x'' ''y'']"

lemma detour_ok: "graph_ok no_words detour"
  unfolding detour_def add_edges_def by (rule graph_ok_add_edges [OF graph_ok_new])

lemma detour_nodes_ok: "nodes_ok detour"
  unfolding detour_def add_edges_def by (rule nodes_ok_adds) (simp add: nodes_ok_def new_graph_def)

lemma detour_edges: "g_edges detour =
    [link ''s'' ''a'', link ''s'' ''b'', link ''b'' ''c'', link ''c'' ''x'', link ''a'' ''x'', link ''x'' ''y'']"
  unfolding detour_def add_edges_def
  by (subst add_edges_distinct [OF graph_ok_new]) (simp_all add: new_graph_def link_def new_edge_def edge_triple_def)

lemmas detour_select = select_filter [OF detour_ok] detour_edges link_def new_edge_def relation_matches_def

section \<open>A schema exchanged after the nodes were asked for\<close>

definition city_schema :: graph_schema where
  "city_schema = add_type_rule \<lparr>tr_node_type = ''city'', tr_outgoing = [''r''], tr_incoming = []\<rparr> new_schema"

lemma detour_uncached: "g_nodes detour = None"
  by (simp add: detour_def add_edges_def add_edge_def try_add_edge_def push_edge_def new_graph_def link_def
      new_edge_def edge_triple_def Let_def)

lemmas node_eval = find_node_def cached_nodes_def ensure_nodes_def with_schema_def compute_nodes_def compute_node_def
  entity_names_def infer_type_def city_schema_def add_type_rule_def new_schema_def rule_matches_def Let_def

lemma stale_type:
  "map_option n_node_type (find_node (with_schema city_schema (ensure_nodes detour)) ''s'') = Some None"
proof -
  have "g_schema detour = new_schema"
    unfolding detour_def add_edges_def add_edges_schema [THEN conjunct1] by (simp add: new_graph_def)
  then show ?thesis by (simp add: node_eval detour_uncached detour_edges link_def new_edge_def)
qed

lemma fresh_type:
  "map_option n_node_type (find_node (with_schema city_schema detour) ''s'') = Some (Some ''city'')"
  by (simp add: node_eval detour_uncached detour_edges link_def new_edge_def)

lemma stale_nodes: "\<not> nodes_ok (with_schema city_schema (ensure_nodes detour))"
  using stale_type by (auto simp: nodes_ok_def node_eval detour_uncached detour_edges link_def new_edge_def)

section \<open>The store\<close>

text \<open>
  C20. The indexes of a graph (the set of triples, the adjacency, the reverse adjacency, the keywords) describe
  its list of edges exactly, and the node cache is absent or what the edges and the schema give: this holds of a new
  graph and every operation that changes the edges or the cache keeps it. Exchanging the schema keeps the indexes, and
  the cache as it was: with no cache that is right too, but nodes that were asked for before can become wrong.
\<close>

theorem graph_invariant:
  assumes "graph_ok kw g" and "nodes_ok g" and "\<And>xs. mset (order xs) = mset xs"
  shows "graph_ok kw new_graph \<and> nodes_ok new_graph \<and>
    graph_ok kw (snd (try_add_edge kw g e)) \<and> nodes_ok (snd (try_add_edge kw g e)) \<and>
    graph_ok kw (snd (insert_edge kw g e)) \<and> nodes_ok (snd (insert_edge kw g e)) \<and>
    graph_ok kw (add_edges kw g es) \<and> nodes_ok (add_edges kw g es) \<and>
    graph_ok kw (snd (remove_edge kw g s r x)) \<and> nodes_ok (snd (remove_edge kw g s r x)) \<and>
    graph_ok kw (snd (deduplicate kw order g strategy)) \<and> nodes_ok (snd (deduplicate kw order g strategy)) \<and>
    graph_ok kw (ensure_nodes g) \<and> nodes_ok (ensure_nodes g) \<and>
    graph_ok kw (with_schema schema g) \<and> g_nodes (with_schema schema g) = g_nodes g \<and>
    (g_nodes g = None \<longrightarrow> nodes_ok (with_schema schema g)) \<and>
    \<not> nodes_ok (with_schema city_schema (ensure_nodes detour))"
proof -
  have "nodes_ok (snd (try_add_edge kw g e))" "graph_ok kw (snd (try_add_edge kw g e))"
    using nodes_ok_add [OF assms(2), of kw e] graph_ok_add [OF assms(1), of e] by (simp_all add: add_edge_def)
  moreover have "graph_ok kw (ensure_nodes g)"
    using assms(1) by (simp add: ensure_nodes_def graph_ok_def split: option.split)
  moreover have "nodes_ok (snd (deduplicate kw order g strategy))"
    by (simp add: deduplicate_def Let_def nodes_ok_rebuild)
  moreover have "graph_ok kw (with_schema schema g)" "g_nodes (with_schema schema g) = g_nodes g"
    "g_nodes g = None \<longrightarrow> nodes_ok (with_schema schema g)"
    using assms(1) by (simp_all add: with_schema_def graph_ok_def nodes_ok_def)
  moreover note stale_nodes
  ultimately show ?thesis
    unfolding add_edges_def
    by (intro conjI graph_ok_new graph_ok_insert graph_ok_add_edges nodes_ok_adds nodes_ok_insert nodes_ok_remove
        remove_edge_spec(1) deduplicate_spec(3) nodes_ok_ops assms)
qed

theorem graph_invariant_witness:
  "graph_ok no_words (snd (remove_edge no_words detour ''a'' ''r'' ''x'')) \<and>
   graph_ok no_words (snd (deduplicate no_words rev detour MergeUnion))"
  using graph_invariant [OF detour_ok detour_nodes_ok mset_rev, where s = "''a''" and r = "''r''" and x = "''x''"
      and strategy = MergeUnion] by blast

text \<open>
  The queries that go through an index give what a scan of all the edges gives, in the order of insertion:
  the edges from a subject or to an object, with or without a relation, those between two entities, the edge
  of a triple, whether there is one, and the number of edges that match.
\<close>

theorem indexed_queries:
  assumes "graph_ok kw g"
  shows "select g s relation = filter (\<lambda>e. e_subject e = s \<and> relation_matches relation (e_relation e)) (g_edges g) \<and>
    select_reverse g x relation = filter (\<lambda>e. e_object e = x \<and> relation_matches relation (e_relation e)) (g_edges g) \<and>
    edges_between g s x = filter (\<lambda>e. e_subject e = s \<and> e_object e = x) (g_edges g) \<and>
    get_edge g s r x = List.find (\<lambda>e. edge_triple e = (s, r, x)) (g_edges g) \<and>
    exists_edge g s r x = (\<exists>e \<in> set (g_edges g). edge_triple e = (s, r, x))"
proof (intro conjI)
  show "get_edge g s r x = List.find (\<lambda>e. edge_triple e = (s, r, x)) (g_edges g)"
    using get_edge_stored [OF assms] by (simp add: stored_def)
  show "exists_edge g s r x = (\<exists>e \<in> set (g_edges g). edge_triple e = (s, r, x))"
  proof -
    have "g_edge_set g = edge_triple ` set (g_edges g)" using assms by (simp add: graph_ok_def)
    then show ?thesis by (auto simp: exists_edge_def intro: rev_image_eqI)
  qed
qed (simp_all add: select_filter [OF assms] select_reverse_filter [OF assms] edges_between_filter [OF assms])

theorem indexed_queries_witness:
  "select detour ''s'' (Some ''r'') = [link ''s'' ''a'', link ''s'' ''b''] \<and>
   select_reverse detour ''x'' None = [link ''c'' ''x'', link ''a'' ''x'']"
  using indexed_queries [OF detour_ok, of "''s''" "Some ''r''"] indexed_queries [OF detour_ok, where x = "''x''" and relation = None]
  by (simp add: detour_edges link_def new_edge_def relation_matches_def)

text \<open>
  C23. A graph is a map from triples to edges. Adding an edge sets its triple when there is none and otherwise
  changes nothing, inserting replaces the stored edge unless its payload is the same, removing clears the
  triple; the results say which of these happened.
\<close>

theorem graph_updates:
  assumes "graph_ok kw g"
  shows "stored (snd (try_add_edge kw g e)) =
      (if stored g (edge_triple e) = None then (stored g)(edge_triple e \<mapsto> e) else stored g) \<and>
    fst (try_add_edge kw g e) = (if stored g (edge_triple e) = None then Inserted else Duplicate) \<and>
    stored (snd (insert_edge kw g e)) = (stored g)(edge_triple e \<mapsto>
      (case stored g (edge_triple e) of Some old \<Rightarrow> if same_edge_payload old e then old else e | None \<Rightarrow> e)) \<and>
    fst (insert_edge kw g e) = (case stored g (edge_triple e) of
      None \<Rightarrow> Inserted | Some old \<Rightarrow> if same_edge_payload old e then Duplicate else Replaced) \<and>
    stored (snd (remove_edge kw g s r x)) = (stored g)((s, r, x) := None) \<and>
    (fst (remove_edge kw g s r x) \<longleftrightarrow> stored g (s, r, x) \<noteq> None)"
proof (intro conjI)
  show "fst (try_add_edge kw g e) = (if stored g (edge_triple e) = None then Inserted else Duplicate)"
    using assms by (auto simp: try_add_edge_def stored_None graph_ok_def)
  show "fst (insert_edge kw g e) = (case stored g (edge_triple e) of
      None \<Rightarrow> Inserted | Some old \<Rightarrow> if same_edge_payload old e then Duplicate else Replaced)"
    using assms
  proof (cases rule: insert_edge_cases [where e = e])
    case (replace i)
    with stored_nth [OF assms replace(1)] show ?thesis by simp
  qed simp_all
  show "fst (remove_edge kw g s r x) \<longleftrightarrow> stored g (s, r, x) \<noteq> None"
    using remove_edge_spec(3) [OF assms] by (auto simp: stored_None)
qed (use stored_add [OF assms, of e] stored_insert [OF assms] stored_remove [OF assms] in \<open>simp_all add: add_edge_def\<close>)

theorem graph_updates_witness:
  "fst (insert_edge no_words detour (with_source SrcManual (link ''s'' ''a''))) = Replaced \<and>
   stored (snd (remove_edge no_words detour ''s'' ''r'' ''a'')) (''s'', ''r'', ''a'') = None"
proof -
  have "stored detour (''s'', ''r'', ''a'') = Some (link ''s'' ''a'')"
    by (simp add: stored_def detour_edges link_def new_edge_def edge_triple_def)
  then show ?thesis
    using graph_updates [OF detour_ok, of "with_source SrcManual (link ''s'' ''a'')" "''s''" "''r''" "''a''"]
    by (simp add: with_source_def link_def new_edge_def edge_triple_def same_edge_payload_def)
qed

text \<open>
  \<open>deduplicate\<close> never removes an edge, whatever the strategy: no two edges of a graph share a triple, so
  it only puts the edges in another order and returns 0.
\<close>

theorem deduplicate_removes_nothing:
  assumes "graph_ok kw g" and "\<And>xs. mset (order xs) = mset xs"
  shows "fst (deduplicate kw order g strategy) = 0 \<and>
    g_edges (snd (deduplicate kw order g strategy)) = order (g_edges g)"
  using deduplicate_spec(1,2) [OF assms] by simp

theorem deduplicate_removes_nothing_witness:
  "fst (deduplicate no_words rev detour MergeMaxConfidence) = 0"
  using deduplicate_removes_nothing [OF detour_ok, of rev] by simp

text \<open>
  The nodes of a graph count its edges: a cached node has the in- and out-degree of its entity and the type
  the schema infers, as long as the schema is not exchanged. \<open>with_schema\<close> keeps the cache: after the
  nodes have been asked for once, the types the new schema gives are not seen.
\<close>

theorem node_cache:
  assumes "nodes_ok g"
  shows "find_node g name = (if name \<in> entities g then Some (compute_node (g_edges g) (g_schema g) name) else None) \<and>
    node_count g = card (entities g) \<and>
    list_entities g = sorted_list_of_set (entities g) \<and>
    map_option n_node_type (find_node (with_schema city_schema (ensure_nodes detour)) ''s'') = Some None \<and>
    map_option n_node_type (find_node (with_schema city_schema detour) ''s'') = Some (Some ''city'')"
proof -
  have e: "set (entity_names (g_edges g)) = entities g" by (auto simp: entity_names_def entities_def)
  have "distinct (entity_names (g_edges g))" by (simp add: entity_names_def)
  from distinct_card [OF this] have "length (entity_names (g_edges g)) = card (entities g)" by (simp add: e)
  moreover have "map_of (map (\<lambda>x. (x, f x)) xs) name = (if name \<in> set xs then Some (f name) else None)"
    for f :: "string \<Rightarrow> node" and xs
    by (induction xs) auto
  ultimately show ?thesis
    using stale_type fresh_type list_entities_ok [OF assms]
    by (simp add: find_node_def node_count_def cached_nodes_ok [OF assms] compute_nodes_def e entities_def)
qed

theorem node_cache_witness: "list_entities detour = sorted_list_of_set (entities detour)"
  using node_cache [OF detour_nodes_ok] by simp

section \<open>Traversals and components\<close>

text \<open>
  C35. Breadth-first search returns, and visits exactly the entities at most \<open>mx\<close> edges away from the
  source, each once, in the order of their distance, which is the depth it records.
\<close>

theorem bfs_distances:
  assumes "graph_ok kw g"
  shows "\<exists>r. bfs g source mx = Some r \<and> distinct (tv_nodes r) \<and> set (tv_nodes r) = within g source mx \<and>
    map fst (tv_depths r) = tv_nodes r \<and> sorted (map snd (tv_depths r)) \<and>
    (\<forall>(v, d) \<in> set (tv_depths r). d = distance g source v)"
  by (rule bfs_result [OF assms])

theorem bfs_distances_witness:
  "\<exists>r. bfs detour ''s'' 3 = Some r \<and> set (tv_nodes r) = within detour ''s'' 3"
  using bfs_distances [OF detour_ok] by blast

lemma detour_dfs: "map_option tv_nodes (dfs detour ''s'' 3) = Some [''s'', ''b'', ''c'', ''x'', ''a'']"
  by (simp add: dfs_def eval_nat_numeral start_search_def visit_def discover_def push_top_def detour_select Let_def)

lemma detour_distance: "''y'' \<in> within detour ''s'' 3"
proof -
  have "(''s'', ''a'') \<in> links detour" "(''a'', ''x'') \<in> links detour" "(''x'', ''y'') \<in> links detour"
    by (auto simp: links_def detour_edges link_def new_edge_def)
  then have "(''s'', ''y'') \<in> links detour ^^ 3" by (auto simp: eval_nat_numeral)
  then show ?thesis by (auto simp: within_def)
qed

text \<open>
  C39. Depth-first search returns and visits only entities within the limit, each once, and all that can be
  reached when the limit is above the number of edges. With a lower limit it misses some: an entity is
  marked with the depth it was first seen at, and a shorter way found later is not taken. In the graph
  s-a, s-b, b-c, c-x, a-x, x-y, the entity y is three edges from s and a search with limit 3 does not
  visit it.
\<close>

theorem dfs_bounds:
  assumes "graph_ok kw g"
  shows "(\<exists>r. dfs g source mx = Some r \<and> distinct (tv_nodes r) \<and> set (tv_nodes r) \<subseteq> within g source mx \<and>
      map fst (tv_depths r) = tv_nodes r \<and>
      (mx \<le> length (g_edges g) \<or> set (tv_nodes r) = {v. (source, v) \<in> (links g)\<^sup>*})) \<and>
    ''y'' \<in> within detour ''s'' 3 \<and> (\<exists>r. dfs detour ''s'' 3 = Some r \<and> ''y'' \<notin> set (tv_nodes r))"
  using dfs_result [OF assms, of source mx] detour_distance detour_dfs by (auto simp: not_less [symmetric])

theorem dfs_bounds_witness:
  "\<exists>r. dfs detour ''s'' 7 = Some r \<and> set (tv_nodes r) = {v. (''s'', v) \<in> (links detour)\<^sup>*}"
  using dfs_bounds [OF detour_ok, of "''s''" 7] by (auto simp: detour_edges)

text \<open>
  \<open>connected_components\<close> returns the partition of the entities into the classes of the connection
  (edges taken in both directions): each class a sorted list, the larger classes first and equal ones in
  order; \<open>are_connected\<close> decides the connection of two entities.
\<close>

theorem components_partition:
  assumes "graph_ok kw g" and "nodes_ok g"
  shows "(\<exists>cs. connected_components g = Some cs \<and> distinct (concat cs) \<and> set (concat cs) = entities g \<and>
      sorted (map (\<lambda>c. (- int (length c), c)) cs) \<and>
      (\<forall>c \<in> set cs. c \<noteq> [] \<and> sorted c \<and> (\<forall>v \<in> set c. set c = component_of g v))) \<and>
    are_connected g a b = Some ((a, b) \<in> (joins g)\<^sup>*)"
  using components_result [OF assms] are_connected_spec [OF assms(1)] by blast

theorem components_partition_witness:
  "\<exists>cs. connected_components detour = Some cs \<and> distinct (concat cs) \<and> set (concat cs) = entities detour"
  using components_partition [OF detour_ok detour_nodes_ok] by blast

section \<open>Merge, diff and walks\<close>

text \<open>
  C37. A merge keeps the target's other edges and adds the edges whose triple the target lacks. Where both have the
  triple, a union keeps the target's edge; a merge by confidence takes the new edge when its confidence is greater; a
  merge by source takes it when the priority of its source is greater. It returns the number of edges that were added
  or taken.
\<close>

theorem merge_specification:
  assumes "graph_ok kw target" and "graph_ok kw' other"
    and "takes = (\<lambda>old e. case strategy of
      MergeUnion \<Rightarrow> False
    | MergeMaxConfidence \<Rightarrow> f64_less (e_confidence old) (e_confidence e)
    | MergeSourcePriority \<Rightarrow> priority (e_source e) > priority (e_source old))"
  shows "(case merge_graphs_with_options kw target other strategy priority of (g, n) \<Rightarrow>
    graph_ok kw g \<and>
    n = card {t. \<exists>e. stored other t = Some e \<and> (case stored target t of None \<Rightarrow> True | Some old \<Rightarrow> takes old e)} \<and>
    (\<forall>t. stored g t =
      (case stored other t of
         None \<Rightarrow> stored target t
       | Some e \<Rightarrow> (case stored target t of
           None \<Rightarrow> Some e | Some old \<Rightarrow> Some (if takes old e then e else old)))))"
proof -
  have t: "replaces strategy priority = takes" by (intro ext) (simp add: replaces_def assms(3) split: merge_strategy.split)
  have d: "distinct (map edge_triple (g_edges other))" using assms(2) by (simp add: graph_ok_def)
  have m: "merges strategy priority target e \<longleftrightarrow> (case stored target (edge_triple e) of None \<Rightarrow> True | Some old \<Rightarrow> takes old e)" for e
    by (simp only: merges_def t)
  let ?es = "filter (merges strategy priority target) (g_edges other)"
  have "distinct (map edge_triple ?es)" using d by (rule distinct_map_filter)
  then have "length ?es = card (edge_triple ` set ?es)" using distinct_card by fastforce
  also have "edge_triple ` set ?es =
      {t. \<exists>e. stored other t = Some e \<and> (case stored target t of None \<Rightarrow> True | Some old \<Rightarrow> takes old e)}"
    unfolding image_def using stored_Some [OF assms(2)] by (auto simp: m)
  finally have "length ?es = card {t. \<exists>e. stored other t = Some e \<and>
      (case stored target t of None \<Rightarrow> True | Some old \<Rightarrow> takes old e)}" .
  then show ?thesis
    using merge_result [OF assms(1,2), of strategy priority] by (simp add: case_prod_beta t split: option.split)
qed

definition rated :: "nat graph" where
  "rated = add_edges no_words new_graph [with_confidence 0 (link ''s'' ''a''), with_confidence 0 (link ''s'' ''z'')]"

lemma rated_ok: "graph_ok no_words rated"
  unfolding rated_def add_edges_def by (rule graph_ok_add_edges [OF graph_ok_new])

lemma rated_edges: "g_edges rated = [with_confidence 0 (link ''s'' ''a''), with_confidence 0 (link ''s'' ''z'')]"
  unfolding rated_def add_edges_def
  by (subst add_edges_distinct [OF graph_ok_new])
    (simp_all add: new_graph_def link_def new_edge_def edge_triple_def with_confidence_def)

lemma rated_lower: "f64_less (e_confidence (with_confidence 0 (link s x))) (e_confidence (link s x))"
  by (simp add: with_confidence_def link_def new_edge_def clamp01_def f64_less_def f64_key_def f64_is_nan_def f64_magnitude_def f64_negative_def)

theorem merge_specification_witness:
  "stored (fst (merge_graphs_with_options no_words rated detour MergeMaxConfidence default_source_priority)) (''s'', ''r'', ''a'') =
    Some (link ''s'' ''a'')"
proof -
  have s: "stored detour (''s'', ''r'', ''a'') = Some (link ''s'' ''a'')"
    "stored rated (''s'', ''r'', ''a'') = Some (with_confidence 0 (link ''s'' ''a''))"
    by (simp_all add: stored_def detour_edges rated_edges with_confidence_def link_def new_edge_def edge_triple_def)
  have "stored g (''s'', ''r'', ''a'') = Some (link ''s'' ''a'')"
    if "merge_graphs_with_options no_words rated detour MergeMaxConfidence default_source_priority = (g, n)" for g n
    using merge_specification [OF rated_ok detour_ok refl, where strategy = MergeMaxConfidence and priority = default_source_priority] that
    by (simp add: s rated_lower)
  then show ?thesis by (cases "merge_graphs_with_options no_words rated detour MergeMaxConfidence default_source_priority") simp
qed

text \<open>
  The diff of two graphs lists exactly the edges whose triple only the new one has, those whose triple only
  the old one has, and the pairs with the same triple whose confidence (by more than the epsilon), source,
  metadata or injection differs, each in the order of its graph.
\<close>

theorem diff_specification:
  assumes "graph_ok kw old" and "graph_ok kw' new"
  shows "diff old new = \<lparr>
    gd_added = filter (\<lambda>e. stored old (edge_triple e) = None) (g_edges new),
    gd_removed = filter (\<lambda>e. stored new (edge_triple e) = None) (g_edges old),
    gd_changed = List.map_filter (changed_from old) (g_edges new)\<rparr>"
  by (rule diff_result [OF assms])

theorem diff_specification_witness:
  "gd_added (diff detour detour) = []"
  by (simp add: diff_specification [OF detour_ok detour_ok] stored_None)

text \<open>
  The walk along relations follows an edge of the highest confidence at each hop and ends where the path
  does; it panics only when a candidate's confidence is a NaN. \<open>walk_all_paths\<close> returns paths along the
  relations, best smallest confidence first, at most as many as asked for; when the graph has no more than
  ten times that many paths, it returns the best of all of them.
\<close>

theorem walks_follow:
  assumes "graph_ok kw g"
  shows "(\<forall>goal path. walk g s rels = WalkEnd goal path \<longrightarrow> greedy g s rels path goal) \<and>
    (walk g s rels = WalkPanic \<longrightarrow> (\<exists>e \<in> set (g_edges g). f64_is_nan (e_confidence e))) \<and>
    (\<forall>r \<in> set (walk_all_paths g s rels n). follows g s rels (wr_path r) (wr_destination r)) \<and>
    sorted (map (\<lambda>r. - f64_key (wr_min_confidence r)) (walk_all_paths g s rels n)) \<and>
    length (walk_all_paths g s rels n) \<le> n \<and>
    (length (all_paths g s rels) \<le> n * 10 \<longrightarrow> walk_all_paths g s rels n =
      take n (sort_key (\<lambda>r. - f64_key (wr_min_confidence r)) (map (result_of [] s) (all_paths g s rels))))"
proof (intro conjI impI allI)
  fix goal path assume "walk g s rels = WalkEnd goal path"
  from walk_from_greedy [OF this [unfolded walk_def]] show "greedy g s rels path goal" by simp
next
  assume "walk g s rels = WalkPanic"
  from walk_from_panic [OF this [unfolded walk_def]] obtain s' r e where
    "e \<in> set (select g s' r)" "f64_is_nan (e_confidence e)" by blast
  then show "\<exists>e \<in> set (g_edges g). f64_is_nan (e_confidence e)" by (auto simp: select_filter [OF assms])
qed (use walk_all_paths_result [OF assms] in simp_all)

theorem walks_follow_witness:
  "length (walk_all_paths detour ''s'' [''r'', ''r''] 5) \<le> 5 \<and> walk detour ''s'' [''r'', ''r''] \<noteq> WalkPanic"
proof -
  have "\<not> (\<exists>e \<in> set (g_edges detour). f64_is_nan (e_confidence e))"
    by (simp add: detour_edges link_def new_edge_def f64_is_nan_def f64_magnitude_def)
  with walks_follow [OF detour_ok] show ?thesis by blast
qed

section \<open>The packed format\<close>

text \<open>
  C24. What \<open>to_packed_bytes\<close> writes, \<open>from_packed_bytes\<close> reads back: the same edges in the same order, with
  the confidence rounded to a single and clamped, the score of the injection rounded, and the metadata as
  the JSON gives it. The schema and the metadata of the graph are not written and are lost.
\<close>

theorem packed_roundtrip:
  assumes "graph_ok kw g" and "to_packed_bytes ser g = Inr bytes" and "length bytes < 2 ^ 64"
    and "list_all edge_utf8 (g_edges g)" and "list_all (json_ok ser de) (g_edges g)"
  shows "\<exists>g'. from_packed_bytes kw de bytes = Inr g' \<and> graph_ok kw g' \<and> list_all2 reread (g_edges g) (g_edges g') \<and>
    g_schema g' = new_schema \<and> g_metadata g' = []"
  by (rule packed_result [OF assms])

definition tiny :: "nat graph" where
  "tiny = add_edges no_words new_graph [(link ''s'' ''a'')\<lparr>e_injection := Some (10, 0x3FE8000000000000), e_metadata := Some []\<rparr>]"

definition braces :: "(string \<times> nat) list \<Rightarrow> string option" where
  "braces m = (if m = [] then Some ''{}'' else None)"

definition unbraces :: "string \<Rightarrow> (string \<times> nat) list option" where
  "unbraces s = (if s = ''{}'' then Some [] else None)"

lemma tiny_edges: "g_edges tiny = [(link ''s'' ''a'')\<lparr>e_injection := Some (10, 0x3FE8000000000000), e_metadata := Some []\<rparr>]"
  unfolding tiny_def add_edges_def
  by (subst add_edges_distinct [OF graph_ok_new]) (simp_all add: new_graph_def link_def new_edge_def edge_triple_def)

theorem packed_roundtrip_witness:
  "\<exists>bytes g'. to_packed_bytes braces tiny = Inr bytes \<and> from_packed_bytes no_words unbraces bytes = Inr g' \<and>
     list_all2 reread (g_edges tiny) (g_edges g')"
proof -
  have ok: "graph_ok no_words tiny"
    unfolding tiny_def add_edges_def by (rule graph_ok_add_edges [OF graph_ok_new])
  obtain bytes where w: "to_packed_bytes braces tiny = Inr bytes" "length bytes < 2 ^ 64"
    by (simp add: to_packed_bytes_def tiny_edges pack_edge_def intern_def table_push_def new_table_def link_def new_edge_def
        pack_metadata_def braces_def pack_injection_def has_blob_def blob_of_def write_record_def header_bytes_def Let_def)
  have "list_all edge_utf8 (g_edges tiny)"
    by (simp add: tiny_edges edge_utf8_def link_def new_edge_def valid_utf8_ascii)
  moreover have "list_all (json_ok braces unbraces) (g_edges tiny)"
    by (simp add: tiny_edges json_ok_def braces_def unbraces_def same_entries_def)
  ultimately show ?thesis using packed_roundtrip [OF ok w(1,2)] w(1) by blast
qed

text \<open>
  C25. Reading any bytes never indexes out of range: it gives an error or a graph, and the graph has the
  invariant.
\<close>

theorem packed_reading_safe:
  "from_packed_bytes kw de bytes \<noteq> Inl SlicePanic \<and>
   (case from_packed_bytes kw de bytes of Inl _ \<Rightarrow> True | Inr g \<Rightarrow> graph_ok kw g)"
  using safe_read [of kw de bytes] read_graph_ok [of kw de bytes] by (auto simp: safe_def split: sum.split)

end
