(* ===== verification/Rust_Float.thy ===== *)
theory Rust_Float
  imports Rust_Num
begin

text \<open>
  Comparison, product and quotient of the single-precision floats, on their bit patterns: the finite results
  are computed exactly and rounded to nearest, ties to even.
\<close>

definition f32_negative :: "f32 \<Rightarrow> bool" where
  "f32_negative x \<longleftrightarrow> 2 ^ 31 \<le> unat x"

definition f32_magnitude :: "f32 \<Rightarrow> nat" where
  "f32_magnitude x = unat x mod 2 ^ 31"

text \<open>\<open>x == 0.0\<close>: both zeros.\<close>

definition f32_is_zero :: "f32 \<Rightarrow> bool" where
  "f32_is_zero x \<longleftrightarrow> f32_magnitude x = 0"

lemma f32_is_zero_0 [simp]: "f32_is_zero 0"
  by (simp add: f32_is_zero_def f32_magnitude_def)

definition f32_is_nan :: "f32 \<Rightarrow> bool" where
  "f32_is_nan x \<longleftrightarrow> 255 * 2 ^ 23 < f32_magnitude x"

definition f32_is_infinite :: "f32 \<Rightarrow> bool" where
  "f32_is_infinite x \<longleftrightarrow> f32_magnitude x = 255 * 2 ^ 23"

definition f32_key :: "f32 \<Rightarrow> int" where
  "f32_key x = (if f32_negative x then - int (f32_magnitude x) else int (f32_magnitude x))"

text \<open>\<open>a < b\<close>: false when one is a NaN; the two zeros are equal.\<close>

definition f32_less :: "f32 \<Rightarrow> f32 \<Rightarrow> bool" where
  "f32_less a b \<longleftrightarrow> \<not> f32_is_nan a \<and> \<not> f32_is_nan b \<and> f32_key a < f32_key b"

definition f32_ratio :: "f32 \<Rightarrow> nat \<times> nat" where
  "f32_ratio x =
     (let m = f32_magnitude x; ex = m div 2 ^ 23; fr = m mod 2 ^ 23;
          sig = (if ex = 0 then fr else fr + 2 ^ 23);
          k = int (max ex 1) - 150
      in if 0 \<le> k then (sig * 2 ^ nat k, 1) else (sig, 2 ^ nat (- k)))"

definition f32_quiet_nan :: f32 where
  "f32_quiet_nan = 0x7FC00000"

definition f32_infinity :: f32 where
  "f32_infinity = 0x7F800000"

definition f32_mul :: "f32 \<Rightarrow> f32 \<Rightarrow> f32" where
  "f32_mul a b =
     (let sign = f32_negative a \<noteq> f32_negative b in
      if f32_is_nan a \<or> f32_is_nan b then f32_quiet_nan
      else if f32_is_infinite a \<or> f32_is_infinite b then
        (if f32_magnitude a = 0 \<or> f32_magnitude b = 0 then f32_quiet_nan else f32_with_sign sign f32_infinity)
      else (case (f32_ratio a, f32_ratio b) of
          ((n, d), (n', d')) \<Rightarrow> f32_with_sign sign (f32_of_ratio (n * n') (d * d'))))"

definition f32_div :: "f32 \<Rightarrow> f32 \<Rightarrow> f32" where
  "f32_div a b =
     (let sign = f32_negative a \<noteq> f32_negative b in
      if f32_is_nan a \<or> f32_is_nan b \<or> (f32_is_infinite a \<and> f32_is_infinite b) then f32_quiet_nan
      else if f32_is_infinite a then f32_with_sign sign f32_infinity
      else if f32_is_infinite b then f32_with_sign sign 0
      else if f32_magnitude b = 0 then
        (if f32_magnitude a = 0 then f32_quiet_nan else f32_with_sign sign f32_infinity)
      else (case (f32_ratio a, f32_ratio b) of
          ((n, d), (n', d')) \<Rightarrow> f32_with_sign sign (f32_of_ratio (n * d') (d * n'))))"

text \<open>\<open>partial_cmp(..).unwrap_or(Ordering::Equal)\<close>.\<close>

datatype ordering = OrdLess | OrdEqual | OrdGreater

definition f32_cmp :: "f32 \<Rightarrow> f32 \<Rightarrow> ordering" where
  "f32_cmp a b = (if f32_less a b then OrdLess else if f32_less b a then OrdGreater else OrdEqual)"

definition nat_cmp :: "nat \<Rightarrow> nat \<Rightarrow> ordering" where
  "nat_cmp a b = (if a < b then OrdLess else if b < a then OrdGreater else OrdEqual)"

text \<open>\<open>Iterator::min_by\<close> (the first of the least elements) and the stable \<open>sort_by\<close>.\<close>

definition min_by :: "('a \<Rightarrow> 'a \<Rightarrow> ordering) \<Rightarrow> 'a list \<Rightarrow> 'a option" where
  "min_by cmp xs = (case xs of
       [] \<Rightarrow> None
     | x # ys \<Rightarrow> Some (foldl (\<lambda>best y. if cmp best y = OrdGreater then y else best) x ys))"

fun insert_by :: "('a \<Rightarrow> 'a \<Rightarrow> ordering) \<Rightarrow> 'a \<Rightarrow> 'a list \<Rightarrow> 'a list" where
  "insert_by cmp x [] = [x]"
| "insert_by cmp x (y # ys) = (if cmp x y = OrdGreater then y # insert_by cmp x ys else x # y # ys)"

definition sort_by :: "('a \<Rightarrow> 'a \<Rightarrow> ordering) \<Rightarrow> 'a list \<Rightarrow> 'a list" where
  "sort_by cmp xs = foldr (insert_by cmp) xs []"

text \<open>A comparison that is that of a key in a linear order.\<close>

definition cmp_by_key :: "('a \<Rightarrow> 'a \<Rightarrow> ordering) \<Rightarrow> ('a \<Rightarrow> 'k :: linorder) \<Rightarrow> 'a set \<Rightarrow> bool" where
  "cmp_by_key cmp key A \<longleftrightarrow> (\<forall>x \<in> A. \<forall>y \<in> A.
     cmp x y = (if key x < key y then OrdLess else if key y < key x then OrdGreater else OrdEqual))"

lemma cmp_by_key_greater:
  "cmp_by_key cmp key A \<Longrightarrow> x \<in> A \<Longrightarrow> y \<in> A \<Longrightarrow> cmp x y = OrdGreater \<longleftrightarrow> key y < key x"
  unfolding cmp_by_key_def by (metis ordering.distinct(1) ordering.distinct(3) ordering.distinct(5) not_less_iff_gr_or_eq)

lemma cmp_by_key_mono: "cmp_by_key cmp key A \<Longrightarrow> B \<subseteq> A \<Longrightarrow> cmp_by_key cmp key B"
  unfolding cmp_by_key_def by blast

lemma min_by_Some:
  assumes "min_by cmp xs = Some m" and "cmp_by_key cmp key (set xs)"
  shows "m \<in> set xs \<and> (\<forall>x \<in> set xs. key m \<le> key x)"
proof -
  obtain x ys where xs: "xs = x # ys" using assms(1) by (cases xs) (auto simp: min_by_def)
  have "foldl (\<lambda>best y. if cmp best y = OrdGreater then y else best) x ys \<in> set (x # ys) \<and>
      (\<forall>z \<in> set (x # ys). key (foldl (\<lambda>best y. if cmp best y = OrdGreater then y else best) x ys) \<le> key z)"
    if "cmp_by_key cmp key (set (x # ys))" for x ys
    using that
  proof (induction ys arbitrary: x)
    case (Cons y ys)
    let ?b = "if cmp x y = OrdGreater then y else x"
    have k: "cmp x y = OrdGreater \<longleftrightarrow> key y < key x"
      by (rule cmp_by_key_greater [OF Cons.prems]) simp_all
    have "cmp_by_key cmp key (set (?b # ys))" using Cons.prems by (rule cmp_by_key_mono) auto
    from Cons.IH [OF this] k show ?case by (auto split: if_splits)
  qed simp
  from this [of x ys] assms show ?thesis by (simp add: xs min_by_def)
qed

lemma min_by_None: "min_by cmp xs = None \<longleftrightarrow> xs = []"
  by (simp add: min_by_def split: list.split)

lemma set_insert_by: "set (insert_by cmp x xs) = insert x (set xs)"
  by (induction xs) auto

lemma set_sort_by [simp]: "set (sort_by cmp xs) = set xs"
  by (induction xs) (simp_all add: sort_by_def set_insert_by)

lemma insert_by_insort:
  "cmp_by_key cmp key (insert x (set xs)) \<Longrightarrow> insert_by cmp x xs = insort_key key x xs"
proof (induction xs)
  case (Cons y ys)
  have "cmp x y = OrdGreater \<longleftrightarrow> key y < key x"
    by (rule cmp_by_key_greater [OF Cons.prems]) simp_all
  moreover have "insert_by cmp x ys = insort_key key x ys"
    by (rule Cons.IH, rule cmp_by_key_mono [OF Cons.prems]) auto
  ultimately show ?case by (auto simp: not_le)
qed simp

lemma sort_by_sort_key: "cmp_by_key cmp key (set xs) \<Longrightarrow> sort_by cmp xs = sort_key key xs"
proof (induction xs)
  case (Cons x xs)
  then have "cmp_by_key cmp key (set xs)" by (rule_tac cmp_by_key_mono) auto
  with Cons.IH have "sort_by cmp xs = sort_key key xs" .
  moreover have "insert_by cmp x (sort_by cmp xs) = insort_key key x (sort_by cmp xs)"
    by (rule insert_by_insort) (use Cons.prems in simp)
  ultimately show ?case by (simp add: sort_by_def)
qed (simp add: sort_by_def)

end
