(* ===== verification/GridState.thy ===== *)
theory GridState
  imports Rust_Float Prelude "HOL-Library.AList" "HOL-Library.List_Lexorder" "HOL-Library.Char_ord" "HOL-Library.Product_Lexorder"
begin

text \<open>
  The state of the router's grid and its operations (\<open>crates/larql-router/src/grid\<close>: mod.rs, routing.rs,
  replication.rs, hot_shard.rs, status.rs).

  A \<open>HashMap\<close> that is iterated is an association list, in the order of the iteration; one that is looked up
  only is a function to options. Layer numbers, counts and loads are natural numbers; where a \<open>u32\<close> sum
  can overflow it wraps, as in a release build. A time is a number of milliseconds. A channel to a server
  is the id of its stream; \<open>accepts\<close> says whether \<open>try_send\<close> on a channel succeeds, and an operation that
  sends returns the messages that were sent.
\<close>

section \<open>Data\<close>

record server_entry =
  sv_id :: string
  sv_url :: string
  sv_model :: string
  sv_layer_start :: nat
  sv_layer_end :: nat
  sv_hash :: string
  sv_cpu :: f32
  sv_ram :: nat
  sv_in_flight :: nat
  sv_last_seen :: nat
  sv_latencies :: "(nat \<times> f32 \<times> f32) list"
  sv_rate :: f32
  sv_rtt :: "f32 option"
  sv_expert_start :: nat
  sv_expert_end :: nat

definition is_dense :: "server_entry \<Rightarrow> bool" where
  "is_dense e \<longleftrightarrow> sv_expert_start e = 0 \<and> sv_expert_end e = 0"

definition owns_expert :: "server_entry \<Rightarrow> nat \<Rightarrow> bool" where
  "owns_expert e expert \<longleftrightarrow> is_dense e \<or> (sv_expert_start e \<le> expert \<and> expert \<le> sv_expert_end e)"

record available_entry =
  av_id :: string
  av_sender :: string
  av_ram :: nat
  av_disk :: nat
  av_path :: string
  av_joined :: nat

text \<open>A slice: model, first and last layer, first and last expert.\<close>

type_synonym slice = "string \<times> nat \<times> nat \<times> nat \<times> nat"

datatype router_message =
    AssignMsg slice string string
  | UnassignMsg string nat nat string
  | AckMsg string

type_synonym sent = "(string \<times> router_message) list"

record grid =
  gr_servers :: "(string \<times> server_entry) list"
  gr_routes :: "string \<times> nat \<Rightarrow> string list option"
  gr_any :: "nat \<Rightarrow> string list option"
  gr_available :: "(string \<times> available_entry) list"
  gr_senders :: "string \<Rightarrow> string option"
  gr_target :: nat
  gr_elevated :: "slice set"
  gr_ceiling :: "nat option"

definition new_grid :: grid where
  "new_grid = \<lparr>gr_servers = [], gr_routes = (\<lambda>_. None), gr_any = (\<lambda>_. None), gr_available = [],
     gr_senders = (\<lambda>_. None), gr_target = 1, gr_elevated = {}, gr_ceiling = None\<rparr>"

definition set_saturation_ceiling :: "nat option \<Rightarrow> grid \<Rightarrow> grid" where
  "set_saturation_ceiling c g = g\<lparr>gr_ceiling := c\<rparr>"

section \<open>Routing tables\<close>

definition entry_layers :: "server_entry \<Rightarrow> nat list" where
  "entry_layers e = [sv_layer_start e ..< Suc (sv_layer_end e)]"

definition rebuild_route_table :: "grid \<Rightarrow> grid" where
  "rebuild_route_table g =
     (let tables = foldl (\<lambda>ts e. foldl (\<lambda>(rt, any) layer.
              (entry_push (sv_model e, layer) (sv_id e) rt, entry_push layer (sv_id e) any)) ts (entry_layers e))
            (\<lambda>_. None, \<lambda>_. None) (List.map snd (gr_servers g))
      in g\<lparr>gr_routes := fst tables, gr_any := snd tables\<rparr>)"

section \<open>Servers\<close>

definition register :: "server_entry \<Rightarrow> grid \<Rightarrow> grid" where
  "register e g = rebuild_route_table (g\<lparr>gr_servers := AList.update (sv_id e) e (gr_servers g)\<rparr>)"

definition register_with_sender :: "server_entry \<Rightarrow> string \<Rightarrow> grid \<Rightarrow> grid" where
  "register_with_sender e chan g = register e (g\<lparr>gr_senders := (gr_senders g)(sv_id e \<mapsto> chan)\<rparr>)"

definition deregister :: "string \<Rightarrow> grid \<Rightarrow> grid" where
  "deregister sid g =
     (let g = g\<lparr>gr_senders := (gr_senders g)(sid := None)\<rparr> in
      case map_of (gr_servers g) sid of
        None \<Rightarrow> g
      | Some _ \<Rightarrow> rebuild_route_table (g\<lparr>gr_servers := AList.delete sid (gr_servers g)\<rparr>))"

record heartbeat =
  hb_cpu :: f32
  hb_ram :: nat
  hb_in_flight :: nat
  hb_layer_stats :: "(nat \<times> f32 \<times> f32) list"
  hb_rate :: f32

definition beat :: "heartbeat \<Rightarrow> nat \<Rightarrow> server_entry \<Rightarrow> server_entry" where
  "beat hb now e = e\<lparr>sv_cpu := hb_cpu hb, sv_ram := hb_ram hb, sv_in_flight := hb_in_flight hb, sv_rate := hb_rate hb,
     sv_last_seen := now,
     sv_latencies := foldl (\<lambda>m (layer, stats). AList.update layer stats m) (sv_latencies e) (hb_layer_stats hb)\<rparr>"

definition update_heartbeat :: "string \<Rightarrow> heartbeat \<Rightarrow> nat \<Rightarrow> grid \<Rightarrow> grid" where
  "update_heartbeat sid hb now g =
     (case map_of (gr_servers g) sid of
        None \<Rightarrow> g
      | Some e \<Rightarrow> g\<lparr>gr_servers := AList.update sid (beat hb now e) (gr_servers g)\<rparr>)"

definition update_rtt_ms :: "string \<Rightarrow> f32 option \<Rightarrow> grid \<Rightarrow> grid" where
  "update_rtt_ms sid rtt g =
     (case map_of (gr_servers g) sid of
        None \<Rightarrow> g
      | Some e \<Rightarrow> g\<lparr>gr_servers := AList.update sid (e\<lparr>sv_rtt := rtt\<rparr>) (gr_servers g)\<rparr>)"

definition stale_server_ids :: "nat \<Rightarrow> nat \<Rightarrow> grid \<Rightarrow> string list" where
  "stale_server_ids now timeout g =
     List.map fst (filter (\<lambda>(_, e). timeout < now - sv_last_seen e) (gr_servers g))"

definition register_available :: "available_entry \<Rightarrow> grid \<Rightarrow> grid" where
  "register_available e g = g\<lparr>gr_available := AList.update (av_id e) e (gr_available g)\<rparr>"

definition deregister_available :: "string \<Rightarrow> grid \<Rightarrow> grid" where
  "deregister_available sid g = g\<lparr>gr_available := AList.delete sid (gr_available g)\<rparr>"

section \<open>Routing\<close>

definition compare_servers :: "nat \<Rightarrow> server_entry \<Rightarrow> server_entry \<Rightarrow> ordering" where
  "compare_servers layer a b =
     (case (map_option fst (map_of (sv_latencies a) layer), map_option fst (map_of (sv_latencies b) layer)) of
        (Some la, Some lb) \<Rightarrow> f32_cmp la lb
      | (Some _, None) \<Rightarrow> OrdLess
      | (None, Some _) \<Rightarrow> OrdGreater
      | (None, None) \<Rightarrow>
          (case (sv_rtt a, sv_rtt b) of
             (Some ra, Some rb) \<Rightarrow> f32_cmp ra rb
           | (Some _, None) \<Rightarrow> OrdLess
           | (None, Some _) \<Rightarrow> OrdGreater
           | (None, None) \<Rightarrow> nat_cmp (sv_in_flight a) (sv_in_flight b)))"

definition owner_ids :: "string option \<Rightarrow> nat \<Rightarrow> grid \<Rightarrow> string list option" where
  "owner_ids model layer g = (case model of Some m \<Rightarrow> gr_routes g (m, layer) | None \<Rightarrow> gr_any g layer)"

definition below_ceiling :: "grid \<Rightarrow> server_entry \<Rightarrow> bool" where
  "below_ceiling g e = (case gr_ceiling g of Some c \<Rightarrow> sv_in_flight e < c | None \<Rightarrow> True)"

definition candidates :: "(server_entry \<Rightarrow> bool) \<Rightarrow> string list \<Rightarrow> grid \<Rightarrow> server_entry list" where
  "candidates owns ids g =
     filter (below_ceiling g) (filter owns (List.map_filter (\<lambda>i. map_of (gr_servers g) i) ids))"

definition route_among :: "(server_entry \<Rightarrow> bool) \<Rightarrow> string option \<Rightarrow> nat \<Rightarrow> grid \<Rightarrow> string option" where
  "route_among owns model layer g =
     (case owner_ids model layer g of
        None \<Rightarrow> None
      | Some ids \<Rightarrow> map_option sv_url (min_by (compare_servers layer) (candidates owns ids g)))"

definition route :: "string option \<Rightarrow> nat \<Rightarrow> grid \<Rightarrow> string option" where
  "route model layer g = route_among (\<lambda>_. True) model layer g"

definition route_expert :: "string option \<Rightarrow> nat \<Rightarrow> nat \<Rightarrow> grid \<Rightarrow> string option" where
  "route_expert model layer expert g = route_among (\<lambda>e. owns_expert e expert) model layer g"

definition has_owners_for :: "string option \<Rightarrow> nat \<Rightarrow> grid \<Rightarrow> bool" where
  "has_owners_for model layer g = (case owner_ids model layer g of Some ids \<Rightarrow> ids \<noteq> [] | None \<Rightarrow> False)"

text \<open>\<open>route_all\<close>: a URL for every layer, or the first layer without one; \<open>layer as u32\<close> keeps 32 bits.\<close>

fun route_all :: "string option \<Rightarrow> nat list \<Rightarrow> grid \<Rightarrow> (nat \<times> string) list \<Rightarrow> nat + (nat \<times> string) list" where
  "route_all model [] g out = Inr out"
| "route_all model (layer # layers) g out =
     (case route model (layer mod 2 ^ 32) g of
        Some url \<Rightarrow> route_all model layers g (AList.update layer url out)
      | None \<Rightarrow> Inl layer)"

fun route_all_experts ::
  "string option \<Rightarrow> (nat \<times> nat) list \<Rightarrow> grid \<Rightarrow> ((nat \<times> nat) \<times> string) list \<Rightarrow>
     (nat \<times> nat) + ((nat \<times> nat) \<times> string) list" where
  "route_all_experts model [] g out = Inr out"
| "route_all_experts model ((layer, expert) # rest) g out =
     (case route_expert model (layer mod 2 ^ 32) expert g of
        Some url \<Rightarrow> route_all_experts model rest g (AList.update (layer, expert) url out)
      | None \<Rightarrow> Inl (layer, expert))"

definition rank_among :: "(server_entry \<Rightarrow> bool) \<Rightarrow> string option \<Rightarrow> nat \<Rightarrow> nat \<Rightarrow> grid \<Rightarrow> string list" where
  "rank_among owns model layer mx g =
     (if mx = 0 then []
      else case owner_ids model layer g of
          None \<Rightarrow> []
        | Some ids \<Rightarrow> List.map sv_url (take mx (sort_by (compare_servers layer) (candidates owns ids g))))"

definition route_with_rank :: "string option \<Rightarrow> nat \<Rightarrow> nat \<Rightarrow> grid \<Rightarrow> string list" where
  "route_with_rank model layer mx g = rank_among (\<lambda>_. True) model layer mx g"

definition route_expert_with_rank :: "string option \<Rightarrow> nat \<Rightarrow> nat \<Rightarrow> nat \<Rightarrow> grid \<Rightarrow> string list" where
  "route_expert_with_rank model layer expert mx g = rank_among (\<lambda>e. owns_expert e expert) model layer mx g"

section \<open>Coverage\<close>

definition alist_push :: "'k \<Rightarrow> 'v \<Rightarrow> ('k \<times> 'v list) list \<Rightarrow> ('k \<times> 'v list) list" where
  "alist_push key x m = AList.update key ((case map_of m key of Some xs \<Rightarrow> xs | None \<Rightarrow> []) @ [x]) m"

definition ranges_by_model :: "grid \<Rightarrow> (string \<times> (nat \<times> nat) list) list" where
  "ranges_by_model g =
     foldl (\<lambda>m (_, e). alist_push (sv_model e) (sv_layer_start e, sv_layer_end e) m) [] (gr_servers g)"

fun gap_scan :: "nat option \<Rightarrow> (nat \<times> nat) list \<Rightarrow> (nat \<times> nat) list" where
  "gap_scan prev [] = []"
| "gap_scan prev ((start, stop) # ranges) =
     (case prev of
        None \<Rightarrow> []
      | Some pe \<Rightarrow> if (pe + 1) mod 2 ^ 32 < start then [((pe + 1) mod 2 ^ 32, start - 1)] else []) @
     gap_scan (Some stop) ranges"

definition coverage_gaps :: "grid \<Rightarrow> (string \<times> nat \<times> nat) list" where
  "coverage_gaps g =
     concat (List.map (\<lambda>(model, ranges). List.map (\<lambda>(a, b). (model, a, b)) (gap_scan None (sort_key fst ranges)))
       (ranges_by_model g))"

definition all_shard_urls :: "grid \<Rightarrow> string list" where
  "all_shard_urls g = rev (remdups (rev (List.map (\<lambda>(_, e). sv_url e) (gr_servers g))))"

section \<open>Replication\<close>

definition covers :: "slice \<Rightarrow> server_entry \<Rightarrow> bool" where
  "covers s e = (case s of (model, ls, le, es, ee) \<Rightarrow>
     sv_model e = model \<and> sv_layer_start e \<le> ls \<and> le \<le> sv_layer_end e \<and>
     ((es = 0 \<and> ee = 0) \<or> is_dense e \<or> (sv_expert_start e \<le> es \<and> ee \<le> sv_expert_end e)))"

definition find_origin_for :: "slice \<Rightarrow> grid \<Rightarrow> (string \<times> string) option" where
  "find_origin_for s g =
     map_option (\<lambda>e. (sv_url e, sv_hash e)) (List.find (covers s) (List.map snd (gr_servers g)))"

text \<open>The assignment goes to the first spare with enough memory, which leaves the pool whether or not the message is taken.\<close>

definition try_assign_gap_with_origin ::
  "(string \<Rightarrow> bool) \<Rightarrow> slice \<Rightarrow> string \<Rightarrow> string \<Rightarrow> nat \<Rightarrow> grid \<Rightarrow> bool \<times> grid \<times> sent" where
  "try_assign_gap_with_origin accepts s origin hash min_ram g =
     (case List.find (\<lambda>(_, e). min_ram \<le> av_ram e) (gr_available g) of
        None \<Rightarrow> (False, g, [])
      | Some (sid, e) \<Rightarrow>
          (let g = g\<lparr>gr_available := AList.delete sid (gr_available g)\<rparr> in
           if accepts (av_sender e) then (True, g, [(av_sender e, AssignMsg s origin hash)]) else (False, g, [])))"

definition try_assign_gap :: "(string \<Rightarrow> bool) \<Rightarrow> slice \<Rightarrow> nat \<Rightarrow> grid \<Rightarrow> bool \<times> grid \<times> sent" where
  "try_assign_gap accepts s min_ram g =
     (case find_origin_for s g of
        None \<Rightarrow> (False, g, [])
      | Some (origin, hash) \<Rightarrow> try_assign_gap_with_origin accepts s origin hash min_ram g)"

definition set_target_replicas :: "nat \<Rightarrow> grid \<Rightarrow> grid" where
  "set_target_replicas n g = g\<lparr>gr_target := max n 1\<rparr>"

definition effective_target_for :: "slice \<Rightarrow> grid \<Rightarrow> nat" where
  "effective_target_for s g = (gr_target g + (if s \<in> gr_elevated g then 1 else 0)) mod 2 ^ 32"

definition slice_of :: "server_entry \<Rightarrow> slice" where
  "slice_of e = (sv_model e, sv_layer_start e, sv_layer_end e, sv_expert_start e, sv_expert_end e)"

definition slice_counts :: "grid \<Rightarrow> (slice \<times> nat) list" where
  "slice_counts g =
     foldl (\<lambda>m (_, e). AList.update (slice_of e) ((case map_of m (slice_of e) of Some n \<Rightarrow> n | None \<Rightarrow> 0) + 1) m)
       [] (gr_servers g)"

definition over_replicated_ranges :: "grid \<Rightarrow> (slice \<times> nat) list" where
  "over_replicated_ranges g =
     sort (List.map (\<lambda>(s, n). (s, n - effective_target_for s g))
       (filter (\<lambda>(s, n). effective_target_for s g < n) (slice_counts g)))"

definition under_replicated_ranges :: "grid \<Rightarrow> (slice \<times> nat) list" where
  "under_replicated_ranges g =
     sort (List.map (\<lambda>(s, n). (s, effective_target_for s g - n))
       (filter (\<lambda>(s, n). 0 < n \<and> n < effective_target_for s g) (slice_counts g)))"

definition least_loaded_in_range :: "slice \<Rightarrow> grid \<Rightarrow> server_entry option" where
  "least_loaded_in_range s g =
     min_by (\<lambda>a b. nat_cmp (sv_in_flight a) (sv_in_flight b))
       (filter (\<lambda>e. slice_of e = s) (List.map snd (gr_servers g)))"

text \<open>One assignment for each slice; the messages in the order they are sent.\<close>

fun assign_each :: "(string \<Rightarrow> bool) \<Rightarrow> slice list \<Rightarrow> grid \<Rightarrow> nat \<times> grid \<times> sent" where
  "assign_each accepts [] g = (0, g, [])"
| "assign_each accepts (s # slices) g =
     (case try_assign_gap accepts s 0 g of (ok, g', out) \<Rightarrow>
      case assign_each accepts slices g' of (n, g'', out') \<Rightarrow> (n + of_bool ok, g'', out @ out'))"

definition try_replicate_from_available :: "(string \<Rightarrow> bool) \<Rightarrow> grid \<Rightarrow> nat \<times> grid \<times> sent" where
  "try_replicate_from_available accepts g = assign_each accepts (List.map fst (under_replicated_ranges g)) g"

definition try_fill_all_gaps :: "(string \<Rightarrow> bool) \<Rightarrow> grid \<Rightarrow> nat \<times> grid \<times> sent" where
  "try_fill_all_gaps accepts g =
     assign_each accepts (List.map (\<lambda>(model, a, b). (model, a, b, 0, 0)) (coverage_gaps g)) g"

datatype assign_error = NotInPool string | SendFailed string

definition send_assign_to_named_available ::
  "(string \<Rightarrow> bool) \<Rightarrow> string \<Rightarrow> slice \<Rightarrow> string \<Rightarrow> string \<Rightarrow> grid \<Rightarrow> (assign_error + unit) \<times> grid \<times> sent" where
  "send_assign_to_named_available accepts sid s origin hash g =
     (case map_of (gr_available g) sid of
        None \<Rightarrow> (Inl (NotInPool sid), g, [])
      | Some e \<Rightarrow>
          (let g' = g\<lparr>gr_available := AList.delete sid (gr_available g)\<rparr> in
           if accepts (av_sender e) then (Inr (), g', [(av_sender e, AssignMsg s origin hash)])
           else (Inl (SendFailed sid), g'\<lparr>gr_available := AList.update sid e (gr_available g')\<rparr>, [])))"

section \<open>Hot shards\<close>

definition max_rates :: "grid \<Rightarrow> (slice \<times> f32) list" where
  "max_rates g =
     foldl (\<lambda>m (_, e). let cur = (case map_of m (slice_of e) of Some v \<Rightarrow> v | None \<Rightarrow> 0)
         in AList.update (slice_of e) (if f32_less cur (sv_rate e) then sv_rate e else cur) m) [] (gr_servers g)"

definition hot_layer_ranges :: "f32 \<Rightarrow> grid \<Rightarrow> slice list" where
  "hot_layer_ranges threshold g =
     (if \<not> f32_less 0 threshold then []
      else sort (List.map fst (filter (\<lambda>(_, v). f32_less threshold v) (max_rates g))))"

definition mark_elevated :: "slice \<Rightarrow> grid \<Rightarrow> grid" where
  "mark_elevated s g = g\<lparr>gr_elevated := insert s (gr_elevated g)\<rparr>"

definition demote_elevated :: "slice \<Rightarrow> grid \<Rightarrow> grid" where
  "demote_elevated s g = g\<lparr>gr_elevated := gr_elevated g - {s}\<rparr>"

end
