(* ===== verification/GridService.thy ===== *)
theory GridService
  imports GridState
begin

text \<open>
  The router around its grid: the task of a server's stream (\<open>GridServiceImpl::join\<close>), the admin calls
  (\<open>drain_server\<close>, \<open>assign_range\<close>) and the rebalancer (\<open>tasks/rebalancer\<close>), and the steps of all of them
  together. The grid is behind a lock; a step is what happens while the lock is held once.
\<close>

section \<open>A stream\<close>

datatype server_message =
    Announce slice string string nat
  | Heartbeat heartbeat
  | Dropping
  | Available nat nat string
  | Ready slice string
  | Refuse
  | NoPayload

text \<open>
  Where the task of a stream is: reading messages, between the locks of the handler of \<open>Available\<close>, or at one of
  the two locks of the clean-up.
\<close>

datatype stream_task =
    Reading | ReadGaps nat | FillGaps "(string \<times> nat \<times> nat) list" nat | ReplicateSpare | Closing | LeavingPool | Closed

record stream =
  st_id :: string
  st_registered :: "(string \<times> nat \<times> nat) option"
  st_available :: bool
  st_task :: stream_task

definition open_stream :: "string \<Rightarrow> stream" where
  "open_stream sid = \<lparr>st_id = sid, st_registered = None, st_available = False, st_task = Reading\<rparr>"

definition announced :: "string \<Rightarrow> slice \<Rightarrow> string \<Rightarrow> string \<Rightarrow> nat \<Rightarrow> nat \<Rightarrow> server_entry" where
  "announced sid s url hash ram now = (case s of (model, ls, le, es, ee) \<Rightarrow>
     \<lparr>sv_id = sid, sv_url = url, sv_model = model, sv_layer_start = ls, sv_layer_end = le, sv_hash = hash, sv_cpu = 0,
      sv_ram = ram, sv_in_flight = 0, sv_last_seen = now, sv_latencies = [], sv_rate = 0, sv_rtt = None,
      sv_expert_start = es, sv_expert_end = ee\<rparr>)"

definition registered_as :: "slice \<Rightarrow> string \<times> nat \<times> nat" where
  "registered_as s = (case s of (model, ls, le, _, _) \<Rightarrow> (model, ls, le))"

text \<open>What losing a replica does under one lock: deregister, fill gaps, replicate.\<close>

definition lose_server :: "(string \<Rightarrow> bool) \<Rightarrow> string \<Rightarrow> grid \<Rightarrow> grid \<times> sent" where
  "lose_server accepts sid g =
     (case try_fill_all_gaps accepts (deregister sid g) of (_, g, out) \<Rightarrow>
      case try_replicate_from_available accepts g of (_, g, out') \<Rightarrow> (g, out @ out'))"

text \<open>Registering a serving shard: the acknowledgement ends the loop when the channel is closed.\<close>

definition serve ::
  "(string \<Rightarrow> bool) \<Rightarrow> server_entry \<Rightarrow> slice \<Rightarrow> stream \<Rightarrow> grid \<Rightarrow> stream \<times> grid \<times> sent" where
  "serve accepts e s st g =
     (let g = register_with_sender e (st_id st) g; st = st\<lparr>st_registered := Some (registered_as s)\<rparr> in
      if accepts (st_id st) then (st, g, [(st_id st, AckMsg (st_id st))])
      else (st\<lparr>st_task := Closing\<rparr>, g, []))"

definition handle_message ::
  "(string \<Rightarrow> bool) \<Rightarrow> nat \<Rightarrow> server_message \<Rightarrow> stream \<Rightarrow> grid \<Rightarrow> stream \<times> grid \<times> sent" where
  "handle_message accepts now msg st g =
     (case msg of
        Announce s url hash ram \<Rightarrow> serve accepts (announced (st_id st) s url hash ram now) s st g
      | Heartbeat hb \<Rightarrow> (st, update_heartbeat (st_id st) hb now g, [])
      | Dropping \<Rightarrow> (case lose_server accepts (st_id st) g of (g, out) \<Rightarrow> (st\<lparr>st_registered := None\<rparr>, g, out))
      | Available ram disk path \<Rightarrow>
          (st\<lparr>st_available := True, st_task := ReadGaps ram\<rparr>,
           register_available \<lparr>av_id = st_id st, av_sender = st_id st, av_ram = ram, av_disk = disk, av_path = path,
             av_joined = now\<rparr> g, [])
      | Ready s url \<Rightarrow>
          (case serve accepts (announced (st_id st) s url [] 0 now) s st g of (st, g, out) \<Rightarrow>
             (st\<lparr>st_available := False\<rparr>, g, out))
      | Refuse \<Rightarrow> (st, g, [])
      | NoPayload \<Rightarrow> (st, g, []))"

text \<open>The rest of the handler of \<open>Available\<close> and the clean-up, a lock at a time.\<close>

definition stream_advance :: "(string \<Rightarrow> bool) \<Rightarrow> stream \<Rightarrow> grid \<Rightarrow> stream \<times> grid \<times> sent" where
  "stream_advance accepts st g =
     (case st_task st of
        Reading \<Rightarrow> (st, g, [])
      | ReadGaps ram \<Rightarrow> (st\<lparr>st_task := FillGaps (coverage_gaps g) ram\<rparr>, g, [])
      | FillGaps gaps ram \<Rightarrow>
          (case gaps of
             [] \<Rightarrow> (st\<lparr>st_task := ReplicateSpare\<rparr>, g, [])
           | (model, a, b) # rest \<Rightarrow>
               (case try_assign_gap accepts (model, a, b, 0, 0) ram g of (assigned, g, out) \<Rightarrow>
                  (st\<lparr>st_task := (if assigned then Reading else FillGaps rest ram)\<rparr>, g, out)))
      | ReplicateSpare \<Rightarrow>
          (case try_replicate_from_available accepts g of (_, g, out) \<Rightarrow> (st\<lparr>st_task := Reading\<rparr>, g, out))
      | Closing \<Rightarrow>
          (case st_registered st of
             None \<Rightarrow> (st\<lparr>st_task := LeavingPool\<rparr>, g, [])
           | Some _ \<Rightarrow> (case lose_server accepts (st_id st) g of (g, out) \<Rightarrow> (st\<lparr>st_task := LeavingPool\<rparr>, g, out)))
      | LeavingPool \<Rightarrow>
          (st\<lparr>st_task := Closed\<rparr>, if st_available st then deregister_available (st_id st) g else g, [])
      | Closed \<Rightarrow> (st, g, []))"

section \<open>Administration\<close>

datatype admin_ack = AckOk | NotServing string | NoChannel string | SendRejected string | NoLiveReplica string nat nat
  | AssignRejected assign_error | NoSpare

definition drain_server :: "(string \<Rightarrow> bool) \<Rightarrow> string \<Rightarrow> string \<Rightarrow> grid \<Rightarrow> admin_ack \<times> sent" where
  "drain_server accepts sid reason g =
     (let reason = (if reason = [] then ''admin_drain'' else reason) in
      case map_of (gr_servers g) sid of
        None \<Rightarrow> (NotServing sid, [])
      | Some e \<Rightarrow>
          (case gr_senders g sid of
             None \<Rightarrow> (NoChannel sid, [])
           | Some chan \<Rightarrow>
               if accepts chan
               then (AckOk, [(chan, UnassignMsg (sv_model e) (sv_layer_start e) (sv_layer_end e) reason)])
               else (SendRejected sid, [])))"

definition assign_range ::
  "(string \<Rightarrow> bool) \<Rightarrow> string \<Rightarrow> nat \<Rightarrow> nat \<Rightarrow> string \<Rightarrow> string \<Rightarrow> string \<Rightarrow> grid \<Rightarrow> admin_ack \<times> grid \<times> sent" where
  "assign_range accepts model ls le target origin_url origin_hash g =
     (case (if origin_url \<noteq> [] then Some (origin_url, origin_hash) else find_origin_for (model, ls, le, 0, 0) g) of
        None \<Rightarrow> (NoLiveReplica model ls le, g, [])
      | Some (url, hash) \<Rightarrow>
          if target = [] then
            (case try_assign_gap_with_origin accepts (model, ls, le, 0, 0) url hash 0 g of
               (ok, g, out) \<Rightarrow> (if ok then AckOk else NoSpare, g, out))
          else
            (case send_assign_to_named_available accepts target (model, ls, le, 0, 0) url hash g of
               (Inr _, g, out) \<Rightarrow> (AckOk, g, out)
             | (Inl err, g, out) \<Rightarrow> (AssignRejected err, g, out)))"

section \<open>The rebalancer\<close>

text \<open>Eviction reads the stale ids under one lock and removes them under the next.\<close>

definition evict :: "(string \<Rightarrow> bool) \<Rightarrow> string list \<Rightarrow> grid \<Rightarrow> grid \<times> sent" where
  "evict accepts stale g =
     (if stale = [] then (g, [])
      else case try_fill_all_gaps accepts (foldl (\<lambda>g sid. deregister sid g) g stale) of (_, g, out) \<Rightarrow> (g, out))"

definition check_hot_shards :: "f32 \<Rightarrow> f32 \<Rightarrow> grid \<Rightarrow> grid" where
  "check_hot_shards threshold demote_ratio g =
     (let hot = hot_layer_ranges threshold g; still_hot = hot_layer_ranges (f32_mul threshold demote_ratio) g in
      g\<lparr>gr_elevated := gr_elevated g \<union> (set hot - gr_elevated g) - (gr_elevated g - set still_hot)\<rparr>)"

definition check_under_replication :: "(string \<Rightarrow> bool) \<Rightarrow> grid \<Rightarrow> grid \<times> sent" where
  "check_under_replication accepts g = (case try_replicate_from_available accepts g of (_, g, out) \<Rightarrow> (g, out))"

text \<open>
  The victims are chosen under one lock; each of them that then has a channel gets its message under a lock of
  its own.
\<close>

definition over_replication_plan :: "grid \<Rightarrow> (string \<times> slice) list" where
  "over_replication_plan g =
     (if gr_target g = 0 then []
      else List.map_filter (\<lambda>(s, _). map_option (\<lambda>e. (sv_id e, s)) (least_loaded_in_range s g)) (over_replicated_ranges g))"

definition check_over_replication :: "(string \<Rightarrow> bool) \<Rightarrow> (string \<times> slice) list \<Rightarrow> grid \<Rightarrow> sent" where
  "check_over_replication accepts plan g =
     List.map_filter (\<lambda>(sid, (model, ls, le, _, _)).
       case gr_senders g sid of
         None \<Rightarrow> None
       | Some chan \<Rightarrow> if accepts chan then Some (chan, UnassignMsg model ls le ''over_replicated'') else None) plan"

text \<open>The layers out of balance, by the time they were first seen so.\<close>

type_synonym tracker = "string \<times> nat \<Rightarrow> nat option"

definition layers_by_latency :: "grid \<Rightarrow> ((string \<times> nat) \<times> (string \<times> f32) list) list" where
  "layers_by_latency g =
     foldl (\<lambda>m (sid, e). foldl (\<lambda>m (layer, avg, _). alist_push (sv_model e, layer) (sid, avg) m) m (sv_latencies e))
       [] (gr_servers g)"

definition f32_at_most_zero :: "f32 \<Rightarrow> bool" where
  "f32_at_most_zero x \<longleftrightarrow> \<not> f32_is_nan x \<and> f32_key x \<le> 0"

definition balance_layer ::
  "f32 \<Rightarrow> nat \<Rightarrow> nat \<Rightarrow> (string \<Rightarrow> bool) \<Rightarrow> grid \<Rightarrow> (string \<times> nat) \<times> (string \<times> f32) list \<Rightarrow> tracker \<times> sent \<Rightarrow> tracker \<times> sent" where
  "balance_layer threshold window now accepts g entry st =
     (case (entry, st) of ((key, servers), (tracker, out)) \<Rightarrow>
      if length servers < 2 then (tracker(key := None), out)
      else
        (let sorted_servers = sort_by (\<lambda>a b. f32_cmp (snd a) (snd b)) servers;
             mn = snd (hd sorted_servers); slowest = last sorted_servers in
         if f32_at_most_zero mn then (tracker, out)
         else if f32_less threshold (f32_div (snd slowest) mn) then
           (let since = (case tracker key of Some t \<Rightarrow> t | None \<Rightarrow> now); tracker = tracker(key \<mapsto> since) in
            if window \<le> now - since then
              (tracker(key := None),
               out @ (case gr_senders g (fst slowest) of
                   Some chan \<Rightarrow> if accepts chan then [(chan, UnassignMsg (fst key) (snd key) (snd key) ''rebalancing'')] else []
                 | None \<Rightarrow> []))
            else (tracker, out))
         else (tracker(key := None), out)))"

definition check_imbalance ::
  "f32 \<Rightarrow> nat \<Rightarrow> nat \<Rightarrow> (string \<Rightarrow> bool) \<Rightarrow> grid \<Rightarrow> tracker \<Rightarrow> tracker \<times> sent" where
  "check_imbalance threshold window now accepts g tracker =
     (if gr_available g = [] then (tracker, [])
      else foldl (\<lambda>st entry. balance_layer threshold window now accepts g entry st) (tracker, []) (layers_by_latency g))"

section \<open>All together\<close>

record router =
  rt_grid :: grid
  rt_streams :: "(string \<times> stream) list"
  rt_stale :: "string list"
  rt_plan :: "(string \<times> slice) list"
  rt_tracker :: tracker

definition new_router :: router where
  "new_router = \<lparr>rt_grid = new_grid, rt_streams = [], rt_stale = [], rt_plan = [], rt_tracker = (\<lambda>_. None)\<rparr>"

text \<open>
  The steps; the last argument is what is sent. \<open>accepts\<close>, \<open>now\<close> and the messages are the environment's.
\<close>

inductive router_step :: "router \<Rightarrow> router \<Rightarrow> sent \<Rightarrow> bool" where
  join: "sid \<notin> fst ` set (rt_streams r) \<Longrightarrow>
    router_step r (r\<lparr>rt_streams := (sid, open_stream sid) # rt_streams r\<rparr>) []"
| message: "map_of (rt_streams r) sid = Some st \<Longrightarrow> st_task st = Reading \<Longrightarrow>
    handle_message accepts now msg st (rt_grid r) = (st', g, out) \<Longrightarrow>
    router_step r (r\<lparr>rt_grid := g, rt_streams := AList.update sid st' (rt_streams r)\<rparr>) out"
| hang_up: "map_of (rt_streams r) sid = Some st \<Longrightarrow> st_task st = Reading \<Longrightarrow>
    router_step r (r\<lparr>rt_streams := AList.update sid (st\<lparr>st_task := Closing\<rparr>) (rt_streams r)\<rparr>) []"
| stream_advance: "map_of (rt_streams r) sid = Some st \<Longrightarrow> stream_advance accepts st (rt_grid r) = (st', g, out) \<Longrightarrow>
    router_step r (r\<lparr>rt_grid := g, rt_streams := AList.update sid st' (rt_streams r)\<rparr>) out"
| read_stale: "router_step r (r\<lparr>rt_stale := stale_server_ids now timeout (rt_grid r)\<rparr>) []"
| evict: "evict accepts (rt_stale r) (rt_grid r) = (g, out) \<Longrightarrow>
    router_step r (r\<lparr>rt_grid := g, rt_stale := []\<rparr>) out"
| hot_shards: "router_step r (r\<lparr>rt_grid := check_hot_shards threshold ratio (rt_grid r)\<rparr>) []"
| replicate: "check_under_replication accepts (rt_grid r) = (g, out) \<Longrightarrow> router_step r (r\<lparr>rt_grid := g\<rparr>) out"
| plan_drops: "rt_plan r = [] \<Longrightarrow> router_step r (r\<lparr>rt_plan := over_replication_plan (rt_grid r)\<rparr>) []"
| drop_replica: "rt_plan r = victim # plan \<Longrightarrow>
    router_step r (r\<lparr>rt_plan := plan\<rparr>) (check_over_replication accepts [victim] (rt_grid r))"
| imbalance: "check_imbalance threshold window now accepts (rt_grid r) (rt_tracker r) = (tracker, out) \<Longrightarrow>
    router_step r (r\<lparr>rt_tracker := tracker\<rparr>) out"
| rtt: "router_step r (r\<lparr>rt_grid := update_rtt_ms sid ms (rt_grid r)\<rparr>) []"
| drain: "drain_server accepts sid reason (rt_grid r) = (ack, out) \<Longrightarrow> router_step r r out"
| assign: "assign_range accepts model ls le target url hash (rt_grid r) = (ack, g, out) \<Longrightarrow>
    router_step r (r\<lparr>rt_grid := g\<rparr>) out"
| configure: "router_step r (r\<lparr>rt_grid := set_target_replicas n (set_saturation_ceiling c (rt_grid r))\<rparr>) []"

inductive reachable :: "router \<Rightarrow> bool" where
  start: "reachable new_router"
| step: "reachable r \<Longrightarrow> router_step r r' out \<Longrightarrow> reachable r'"

end
