(* ===== verification/GridLaws.thy ===== *)
theory GridLaws
  imports GridService
begin

text \<open>
  The grid's invariant and what routing and replication do in a grid that has it.
\<close>

section \<open>Association lists\<close>

lemma keys_update: "distinct (map fst xs) \<Longrightarrow> distinct (map fst (AList.update k v xs))"
  by (simp add: distinct_update)

lemma keys_delete: "distinct (map fst xs) \<Longrightarrow> distinct (map fst (AList.delete k xs))"
  by (simp add: distinct_delete)

lemma in_update: "x \<in> set (AList.update k v xs) \<Longrightarrow> x = (k, v) \<or> x \<in> set xs"
  by (induction xs) (auto split: if_splits)

lemma in_delete: "x \<in> set (AList.delete k xs) \<Longrightarrow> x \<in> set xs \<and> fst x \<noteq> k"
  by (auto simp: AList.delete_eq)

lemma update_existing:
  "distinct (map fst xs) \<Longrightarrow> map_of xs k = Some e \<Longrightarrow> f e' = f e \<Longrightarrow>
     map (\<lambda>(_, e). f e) (AList.update k e' xs) = map (\<lambda>(_, e). f e) xs"
proof (induction xs)
  case (Cons x xs)
  obtain k' v where x: "x = (k', v)" by (cases x)
  show ?case
  proof (cases "k' = k")
    case True
    with Cons.prems show ?thesis by (simp add: x)
  next
    case False
    with Cons show ?thesis by (simp add: x)
  qed
qed simp

section \<open>The servers\<close>

definition servers :: "grid \<Rightarrow> server_entry list" where
  "servers g = map snd (gr_servers g)"

definition keys_ok :: "grid \<Rightarrow> bool" where
  "keys_ok g \<longleftrightarrow> distinct (map fst (gr_servers g)) \<and> (\<forall>(k, e) \<in> set (gr_servers g). sv_id e = k)"

lemma keys_ok_lookup:
  assumes "keys_ok g"
  shows "map_of (gr_servers g) sid = Some e \<longleftrightarrow> e \<in> set (servers g) \<and> sv_id e = sid"
proof
  assume "map_of (gr_servers g) sid = Some e"
  then have "(sid, e) \<in> set (gr_servers g)" by (rule map_of_SomeD)
  with assms show "e \<in> set (servers g) \<and> sv_id e = sid" by (force simp: keys_ok_def servers_def)
next
  assume e: "e \<in> set (servers g) \<and> sv_id e = sid"
  then obtain k where "(k, e) \<in> set (gr_servers g)" by (auto simp: servers_def)
  with assms e show "map_of (gr_servers g) sid = Some e" by (auto simp: keys_ok_def)
qed

lemma ids_of_servers: "keys_ok g \<Longrightarrow> map sv_id (servers g) = map fst (gr_servers g)"
  unfolding keys_ok_def servers_def by (auto simp: case_prod_unfold)

lemma keys_ok_update: "keys_ok g \<Longrightarrow> sv_id e = sid \<Longrightarrow> keys_ok (g\<lparr>gr_servers := AList.update sid e (gr_servers g)\<rparr>)"
  by (auto simp: keys_ok_def keys_update dest!: in_update)

lemma keys_ok_delete: "keys_ok g \<Longrightarrow> keys_ok (g\<lparr>gr_servers := AList.delete sid (gr_servers g)\<rparr>)"
  by (auto simp: keys_ok_def keys_delete dest!: in_delete)

section \<open>The routing tables\<close>

definition serves :: "string option \<Rightarrow> nat \<Rightarrow> server_entry \<Rightarrow> bool" where
  "serves model layer e \<longleftrightarrow> (case model of Some m \<Rightarrow> sv_model e = m | None \<Rightarrow> True) \<and>
     sv_layer_start e \<le> layer \<and> layer \<le> sv_layer_end e"

definition tables_ok :: "grid \<Rightarrow> bool" where
  "tables_ok g \<longleftrightarrow>
     (\<forall>m l. gr_routes g (m, l) = some_unless_empty (map sv_id (filter (serves (Some m) l) (servers g)))) \<and>
     (\<forall>l. gr_any g l = some_unless_empty (map sv_id (filter (serves None l) (servers g))))"

lemma push_layers:
  fixes f :: "string \<times> nat \<Rightarrow> string list" and h :: "nat \<Rightarrow> string list"
  shows "distinct layers \<Longrightarrow>
    foldl (\<lambda>(rt, any) l. (entry_push (m, l) i rt, entry_push l i any))
      (\<lambda>k. some_unless_empty (f k), \<lambda>l. some_unless_empty (h l)) layers =
    (\<lambda>k. some_unless_empty (f k @ (if fst k = m \<and> snd k \<in> set layers then [i] else [])),
     \<lambda>l. some_unless_empty (h l @ (if l \<in> set layers then [i] else [])))"
proof (induction layers arbitrary: f h)
  case (Cons l layers)
  let ?f = "\<lambda>k. f k @ (if k = (m, l) then [i] else [])" and ?h = "\<lambda>k. h k @ (if k = l then [i] else [])"
  have "(\<lambda>k. some_unless_empty (?f k @ (if fst k = m \<and> snd k \<in> set layers then [i] else []))) =
      (\<lambda>k. some_unless_empty (f k @ (if fst k = m \<and> snd k \<in> set (l # layers) then [i] else [])))"
    using Cons.prems by (auto simp: fun_eq_iff)
  moreover have "(\<lambda>k. some_unless_empty (?h k @ (if k \<in> set layers then [i] else []))) =
      (\<lambda>k. some_unless_empty (h k @ (if k \<in> set (l # layers) then [i] else [])))"
    using Cons.prems by (auto simp: fun_eq_iff)
  ultimately show ?case
    using Cons.IH [of ?f ?h] Cons.prems by (simp add: entry_push_some_unless_empty)
qed simp

lemma tables_of_servers:
  "foldl (\<lambda>ts e. foldl (\<lambda>(rt, any) l. (entry_push (sv_model e, l) (sv_id e) rt, entry_push l (sv_id e) any)) ts (entry_layers e))
     (\<lambda>_. None, \<lambda>_. None) es =
   (\<lambda>k. some_unless_empty (map sv_id (filter (serves (Some (fst k)) (snd k)) es)),
    \<lambda>l. some_unless_empty (map sv_id (filter (serves None l) es)))"
proof (induction es rule: rev_induct)
  case Nil
  show ?case by (simp add: some_unless_empty_def)
next
  case (snoc e es)
  have "distinct (entry_layers e)" by (simp add: entry_layers_def)
  moreover have "l \<in> set (entry_layers e) \<longleftrightarrow> sv_layer_start e \<le> l \<and> l \<le> sv_layer_end e" for l
    by (auto simp: entry_layers_def)
  ultimately show ?case
    by (simp add: snoc push_layers) (auto simp: fun_eq_iff serves_def)
qed

lemma rebuild_servers [simp]: "gr_servers (rebuild_route_table g) = gr_servers g" "servers (rebuild_route_table g) = servers g"
  by (simp_all add: rebuild_route_table_def Let_def servers_def)

lemma rebuild_rest [simp]: "gr_senders (rebuild_route_table g) = gr_senders g" "gr_available (rebuild_route_table g) = gr_available g"
  "gr_target (rebuild_route_table g) = gr_target g" "gr_ceiling (rebuild_route_table g) = gr_ceiling g"
  "gr_elevated (rebuild_route_table g) = gr_elevated g"
  by (simp_all add: rebuild_route_table_def Let_def)

lemma tables_ok_rebuild: "tables_ok (rebuild_route_table g)"
  unfolding tables_ok_def rebuild_servers
  by (simp add: rebuild_route_table_def Let_def tables_of_servers servers_def)

lemma keys_ok_rebuild [simp]: "keys_ok (rebuild_route_table g) = keys_ok g"
  by (simp add: keys_ok_def)

text \<open>What a heartbeat or a probe changes does not show in the tables.\<close>

definition place :: "server_entry \<Rightarrow> string \<times> string \<times> nat \<times> nat" where
  "place e = (sv_id e, sv_model e, sv_layer_start e, sv_layer_end e)"

lemma served_by_place:
  "map place es = map place es' \<Longrightarrow> map sv_id (filter (serves m l) es) = map sv_id (filter (serves m l) es')"
proof -
  define P where "P = (\<lambda>(i :: string, mo :: string, a :: nat, b :: nat).
    (case m of Some x \<Rightarrow> mo = x | None \<Rightarrow> True) \<and> a \<le> l \<and> l \<le> b)"
  have "serves m l = P \<circ> place" by (auto simp: fun_eq_iff P_def place_def serves_def)
  moreover have "sv_id = fst \<circ> place" by (simp add: fun_eq_iff place_def)
  ultimately have "map sv_id (filter (serves m l) es) = map fst (filter P (map place es))" for es
    by (simp add: filter_map)
  then show "map place es = map place es' \<Longrightarrow> ?thesis" by simp
qed

lemma tables_ok_same_place:
  assumes "tables_ok g" and "map place (servers g') = map place (servers g)"
    and "gr_routes g' = gr_routes g" and "gr_any g' = gr_any g"
  shows "tables_ok g'"
  using assms(1) unfolding tables_ok_def assms(3,4) served_by_place [OF assms(2)] .

lemma update_server_ok:
  assumes "keys_ok g" and "tables_ok g" and "map_of (gr_servers g) sid = Some e" and "place e' = place e"
  shows "keys_ok (g\<lparr>gr_servers := AList.update sid e' (gr_servers g)\<rparr>) \<and>
    tables_ok (g\<lparr>gr_servers := AList.update sid e' (gr_servers g)\<rparr>)"
proof
  have "sv_id e' = sid" using assms(1,3,4) keys_ok_lookup by (simp add: place_def)
  then show "keys_ok (g\<lparr>gr_servers := AList.update sid e' (gr_servers g)\<rparr>)" by (rule keys_ok_update [OF assms(1)])
  have "map (\<lambda>(_, e). place e) (AList.update sid e' (gr_servers g)) = map (\<lambda>(_, e). place e) (gr_servers g)"
    using assms(1) by (intro update_existing [OF _ assms(3,4)]) (simp add: keys_ok_def)
  then show "tables_ok (g\<lparr>gr_servers := AList.update sid e' (gr_servers g)\<rparr>)"
    by (intro tables_ok_same_place [OF assms(2)]) (simp_all add: servers_def case_prod_unfold comp_def)
qed

section \<open>Routing\<close>

lemma owner_ids_serving:
  "tables_ok g \<Longrightarrow> owner_ids model layer g = some_unless_empty (map sv_id (filter (serves model layer) (servers g)))"
  by (simp add: owner_ids_def tables_ok_def split: option.split)

lemma lookup_all:
  assumes "keys_ok g" and "set es \<subseteq> set (servers g)"
  shows "List.map_filter (\<lambda>i. map_of (gr_servers g) i) (map sv_id es) = es"
  using assms(2)
proof (induction es)
  case (Cons e es)
  then have "map_of (gr_servers g) (sv_id e) = Some e" using keys_ok_lookup [OF assms(1)] by simp
  with Cons show ?case by (simp add: List.map_filter_simps)
qed (simp add: List.map_filter_simps)

definition eligible :: "(server_entry \<Rightarrow> bool) \<Rightarrow> string option \<Rightarrow> nat \<Rightarrow> grid \<Rightarrow> server_entry list" where
  "eligible owns model layer g = filter (\<lambda>e. serves model layer e \<and> owns e \<and> below_ceiling g e) (servers g)"

lemma candidates_eligible:
  assumes "keys_ok g"
  shows "candidates owns (map sv_id (filter (serves model layer) (servers g))) g = eligible owns model layer g"
  unfolding candidates_def eligible_def by (subst lookup_all [OF assms]) (auto simp: conj_commute conj_left_commute)

lemma route_among_min:
  assumes "keys_ok g" and "tables_ok g"
  shows "route_among owns model layer g = map_option sv_url (min_by (compare_servers layer) (eligible owns model layer g))"
proof -
  have "filter (serves model layer) (servers g) = [] \<Longrightarrow> eligible owns model layer g = []"
    by (auto simp: eligible_def filter_empty_conv)
  then show ?thesis
    by (auto simp: route_among_def owner_ids_serving [OF assms(2)] some_unless_empty_def candidates_eligible [OF assms(1)]
        min_by_def)
qed

lemma rank_among_sort:
  assumes "keys_ok g" and "tables_ok g"
  shows "rank_among owns model layer mx g = map sv_url (take mx (sort_by (compare_servers layer) (eligible owns model layer g)))"
proof -
  have "filter (serves model layer) (servers g) = [] \<Longrightarrow> eligible owns model layer g = []"
    by (auto simp: eligible_def filter_empty_conv)
  then show ?thesis
    by (auto simp: rank_among_def owner_ids_serving [OF assms(2)] some_unless_empty_def candidates_eligible [OF assms(1)]
        sort_by_def)
qed

text \<open>The rank of a server for a layer: latency, else round trip, else load.\<close>

datatype route_rank = ByLatency int | ByRoundTrip int | ByLoad nat

definition rank_code :: "route_rank \<Rightarrow> nat \<times> int" where
  "rank_code r = (case r of ByLatency k \<Rightarrow> (0, k) | ByRoundTrip k \<Rightarrow> (1, k) | ByLoad n \<Rightarrow> (2, int n))"

lemma rank_code_inj: "rank_code a = rank_code b \<longleftrightarrow> a = b"
  by (cases a; cases b) (simp_all add: rank_code_def)

instantiation route_rank :: linorder
begin

definition less_eq_route_rank :: "route_rank \<Rightarrow> route_rank \<Rightarrow> bool" where
  "less_eq_route_rank a b \<longleftrightarrow> rank_code a \<le> rank_code b"

definition less_route_rank :: "route_rank \<Rightarrow> route_rank \<Rightarrow> bool" where
  "less_route_rank a b \<longleftrightarrow> rank_code a < rank_code b"

instance
proof
  fix a b c :: route_rank
  show "a < b \<longleftrightarrow> a \<le> b \<and> \<not> b \<le> a" "a \<le> a" "a \<le> b \<or> b \<le> a"
    by (auto simp: less_eq_route_rank_def less_route_rank_def less_le_not_le)
  show "a \<le> b \<Longrightarrow> b \<le> c \<Longrightarrow> a \<le> c" by (simp add: less_eq_route_rank_def)
  show "a \<le> b \<Longrightarrow> b \<le> a \<Longrightarrow> a = b" by (simp add: less_eq_route_rank_def flip: rank_code_inj)
qed

end

definition rank_of :: "nat \<Rightarrow> server_entry \<Rightarrow> route_rank" where
  "rank_of layer e =
     (case map_of (sv_latencies e) layer of
        Some (avg, _) \<Rightarrow> ByLatency (f32_key avg)
      | None \<Rightarrow> (case sv_rtt e of Some ms \<Rightarrow> ByRoundTrip (f32_key ms) | None \<Rightarrow> ByLoad (sv_in_flight e)))"

definition measured :: "nat \<Rightarrow> server_entry \<Rightarrow> bool" where
  "measured layer e \<longleftrightarrow> (case map_of (sv_latencies e) layer of Some (avg, _) \<Rightarrow> \<not> f32_is_nan avg | None \<Rightarrow> True) \<and>
     (case sv_rtt e of Some ms \<Rightarrow> \<not> f32_is_nan ms | None \<Rightarrow> True)"

lemma compare_servers_rank: "cmp_by_key (compare_servers layer) (rank_of layer) {e. measured layer e}"
  unfolding cmp_by_key_def
  by (auto simp: compare_servers_def rank_of_def measured_def less_route_rank_def rank_code_def f32_cmp_def f32_less_def
      nat_cmp_def split: option.splits)

end
