(* ===== verification/GridInvariant.thy ===== *)
theory GridInvariant
  imports GridLaws
begin

text \<open>
  What holds in every state the router can reach, and what its attempts to fill gaps and to replicate do.
\<close>

section \<open>The invariant of the grid\<close>

definition server_ids :: "grid \<Rightarrow> string set" where
  "server_ids g = fst ` set (gr_servers g)"

definition grid_ok :: "grid \<Rightarrow> bool" where
  "grid_ok g \<longleftrightarrow> keys_ok g \<and> tables_ok g \<and> gr_senders g = (\<lambda>sid. if sid \<in> server_ids g then Some sid else None)"

definition pool_ok :: "grid \<Rightarrow> bool" where
  "pool_ok g \<longleftrightarrow> distinct (map fst (gr_available g)) \<and> (\<forall>(k, e) \<in> set (gr_available g). av_id e = k \<and> av_sender e = k)"

lemma grid_ok_new: "grid_ok new_grid"
  by (simp add: grid_ok_def keys_ok_def tables_ok_def new_grid_def servers_def server_ids_def some_unless_empty_def)

lemma grid_ok_register:
  assumes "grid_ok g" and "sv_id e = sid"
  shows "grid_ok (register_with_sender e sid g)" "server_ids (register_with_sender e sid g) = insert sid (server_ids g)"
    "gr_available (register_with_sender e sid g) = gr_available g"
proof -
  let ?g = "g\<lparr>gr_senders := (gr_senders g)(sv_id e \<mapsto> sid)\<rparr>"
  have ids: "fst ` set (AList.update sid e (gr_servers g)) = insert sid (server_ids g)"
    by (simp add: server_ids_def dom_map_of_conv_image_fst [symmetric] update_conv')
  show i: "server_ids (register_with_sender e sid g) = insert sid (server_ids g)"
    using ids assms(2) by (simp add: register_with_sender_def register_def server_ids_def)
  have "keys_ok g" using assms(1) by (simp add: grid_ok_def)
  from keys_ok_update [OF this assms(2)] have "keys_ok (?g\<lparr>gr_servers := AList.update sid e (gr_servers g)\<rparr>)"
    by (simp add: keys_ok_def)
  then show "grid_ok (register_with_sender e sid g)"
    using assms i unfolding grid_ok_def
    by (auto simp: register_with_sender_def register_def tables_ok_rebuild server_ids_def [symmetric])
  show "gr_available (register_with_sender e sid g) = gr_available g"
    by (simp add: register_with_sender_def register_def)
qed

lemma grid_ok_deregister:
  assumes "grid_ok g"
  shows "grid_ok (deregister sid g)" "server_ids (deregister sid g) = server_ids g - {sid}"
    "gr_available (deregister sid g) = gr_available g"
proof -
  have del: "fst ` set (AList.delete sid (gr_servers g)) = server_ids g - {sid}"
    by (auto simp: server_ids_def AList.delete_eq)
  have none: "map_of (gr_servers g) sid = None \<longleftrightarrow> sid \<notin> server_ids g"
    by (simp add: server_ids_def map_of_eq_None_iff)
  show i: "server_ids (deregister sid g) = server_ids g - {sid}"
    using del none by (auto simp: deregister_def Let_def server_ids_def split: option.split)
  have k: "keys_ok g" and s: "gr_senders g = (\<lambda>sid. if sid \<in> server_ids g then Some sid else None)" and t: "tables_ok g"
    using assms by (simp_all add: grid_ok_def)
  show "grid_ok (deregister sid g)"
  proof (cases "map_of (gr_servers g) sid")
    case None
    then have "(gr_senders g)(sid := None) = gr_senders g" using s none by (auto simp: fun_eq_iff)
    with None assms show ?thesis by (simp add: deregister_def Let_def)
  next
    case (Some e)
    let ?g = "g\<lparr>gr_senders := (gr_senders g)(sid := None), gr_servers := AList.delete sid (gr_servers g)\<rparr>"
    have d: "deregister sid g = rebuild_route_table ?g" using Some by (simp add: deregister_def Let_def)
    have "keys_ok ?g" using keys_ok_delete [OF k, of sid] by (simp add: keys_ok_def)
    moreover have "gr_senders (rebuild_route_table ?g) = (\<lambda>x. if x \<in> server_ids (rebuild_route_table ?g) then Some x else None)"
      unfolding i [unfolded d] by (simp add: s fun_eq_iff)
    ultimately show ?thesis unfolding d grid_ok_def by (simp add: tables_ok_rebuild)
  qed
  show "gr_available (deregister sid g) = gr_available g" by (simp add: deregister_def Let_def split: option.split)
qed

lemma grid_ok_update_server:
  assumes "grid_ok g" and "map_of (gr_servers g) sid = Some e" and "place e' = place e"
  shows "grid_ok (g\<lparr>gr_servers := AList.update sid e' (gr_servers g)\<rparr>)"
    "server_ids (g\<lparr>gr_servers := AList.update sid e' (gr_servers g)\<rparr>) = server_ids g"
proof -
  have sid: "sid \<in> server_ids g" using map_of_SomeD [OF assms(2)] by (force simp: server_ids_def)
  then show i: "server_ids (g\<lparr>gr_servers := AList.update sid e' (gr_servers g)\<rparr>) = server_ids g"
    by (simp add: server_ids_def dom_map_of_conv_image_fst [symmetric] update_conv' insert_absorb)
  from update_server_ok [OF _ _ assms(2,3)] assms(1) i
  show "grid_ok (g\<lparr>gr_servers := AList.update sid e' (gr_servers g)\<rparr>)" by (simp add: grid_ok_def)
qed

lemma grid_ok_heartbeat: "grid_ok g \<Longrightarrow> grid_ok (update_heartbeat sid hb now g) \<and>
    server_ids (update_heartbeat sid hb now g) = server_ids g \<and> gr_available (update_heartbeat sid hb now g) = gr_available g"
  using grid_ok_update_server [of g sid _ "beat hb now _"]
  by (auto simp: update_heartbeat_def beat_def place_def split: option.split)

lemma grid_ok_rtt: "grid_ok g \<Longrightarrow> grid_ok (update_rtt_ms sid ms g) \<and>
    server_ids (update_rtt_ms sid ms g) = server_ids g \<and> gr_available (update_rtt_ms sid ms g) = gr_available g"
  using grid_ok_update_server [of g sid]
  by (auto simp: update_rtt_ms_def place_def split: option.split)

section \<open>Assignments change the pool only\<close>

definition pool_shrinks :: "grid \<Rightarrow> grid \<Rightarrow> bool" where
  "pool_shrinks g g' \<longleftrightarrow> (\<exists>a. g' = g\<lparr>gr_available := a\<rparr> \<and> set a \<subseteq> set (gr_available g) \<and>
     (distinct (map fst (gr_available g)) \<longrightarrow> distinct (map fst a)))"

lemma pool_shrinks_refl [simp]: "pool_shrinks g g"
  unfolding pool_shrinks_def by (intro exI [of _ "gr_available g"]) simp

lemma pool_shrinks_trans: "pool_shrinks g g' \<Longrightarrow> pool_shrinks g' g'' \<Longrightarrow> pool_shrinks g g''"
proof -
  assume 1: "pool_shrinks g g'" and 2: "pool_shrinks g' g''"
  from 1 obtain a where a: "g' = g\<lparr>gr_available := a\<rparr>" "set a \<subseteq> set (gr_available g)"
    "distinct (map fst (gr_available g)) \<longrightarrow> distinct (map fst a)" unfolding pool_shrinks_def by blast
  from 2 obtain b where b: "g'' = g\<lparr>gr_available := b\<rparr>" "set b \<subseteq> set a"
    "distinct (map fst a) \<longrightarrow> distinct (map fst b)" unfolding pool_shrinks_def by (auto simp: a(1))
  show ?thesis unfolding pool_shrinks_def by (intro exI [of _ b]) (use a b in blast)
qed

lemma pool_shrinks_delete: "pool_shrinks g (g\<lparr>gr_available := AList.delete sid (gr_available g)\<rparr>)"
  unfolding pool_shrinks_def by (auto simp: AList.delete_eq keys_delete [unfolded AList.delete_eq])

lemma pool_shrinks_with_origin: "try_assign_gap_with_origin accepts s url hash ram g = (ok, g', out) \<Longrightarrow> pool_shrinks g g'"
  by (auto simp: try_assign_gap_with_origin_def Let_def pool_shrinks_delete split: option.splits if_splits prod.splits)

lemma pool_shrinks_assign: "try_assign_gap accepts s ram g = (ok, g', out) \<Longrightarrow> pool_shrinks g g'"
  by (auto simp: try_assign_gap_def pool_shrinks_with_origin split: option.splits prod.splits)

lemma pool_shrinks_each: "assign_each accepts slices g = (n, g', out) \<Longrightarrow> pool_shrinks g g'"
proof (induction slices arbitrary: g n g' out)
  case (Cons s slices)
  obtain ok g1 out1 where 1: "try_assign_gap accepts s 0 g = (ok, g1, out1)" by (cases "try_assign_gap accepts s 0 g")
  obtain n2 g2 out2 where 2: "assign_each accepts slices g1 = (n2, g2, out2)" by (cases "assign_each accepts slices g1")
  from pool_shrinks_trans [OF pool_shrinks_assign [OF 1] Cons.IH [OF 2]] Cons.prems show ?case by (simp add: 1 2)
qed simp

lemma pool_shrinks_named:
  assumes "send_assign_to_named_available accepts sid s url hash g = (res, g', out)"
  shows "pool_shrinks g g'"
proof (cases "map_of (gr_available g) sid")
  case (Some e)
  have "set (AList.update sid e (AList.delete sid (gr_available g))) \<subseteq> set (gr_available g)"
    using map_of_SomeD [OF Some] by (auto dest!: in_update in_delete)
  then have "pool_shrinks g (g\<lparr>gr_available := AList.update sid e (AList.delete sid (gr_available g))\<rparr>)"
    unfolding pool_shrinks_def by (auto simp: keys_update keys_delete)
  with assms Some pool_shrinks_delete [of g sid] show ?thesis
    by (auto simp: send_assign_to_named_available_def Let_def split: if_splits)
qed (use assms in \<open>simp add: send_assign_to_named_available_def\<close>)

lemma shrink_ok:
  assumes "pool_shrinks g g'"
  shows "grid_ok g \<Longrightarrow> grid_ok g'" "server_ids g' = server_ids g" "pool_ok g \<Longrightarrow> pool_ok g'"
    "fst ` set (gr_available g') \<subseteq> fst ` set (gr_available g)"
  using assms
  by (auto simp: pool_shrinks_def grid_ok_def keys_ok_def tables_ok_def servers_def server_ids_def pool_ok_def)

lemma lose_server_shrinks:
  assumes "lose_server accepts sid g = (g', out)"
  shows "pool_shrinks (deregister sid g) g'"
proof -
  obtain n g1 out1 where 1: "try_fill_all_gaps accepts (deregister sid g) = (n, g1, out1)"
    by (cases "try_fill_all_gaps accepts (deregister sid g)")
  obtain m g2 out2 where 2: "try_replicate_from_available accepts g1 = (m, g2, out2)"
    by (cases "try_replicate_from_available accepts g1")
  have "g' = g2" using assms by (simp add: lose_server_def 1 2)
  with pool_shrinks_trans [OF pool_shrinks_each [OF 1 [unfolded try_fill_all_gaps_def]]
      pool_shrinks_each [OF 2 [unfolded try_replicate_from_available_def]]]
  show ?thesis by simp
qed

section \<open>The invariant of the router\<close>

definition serving :: "stream \<Rightarrow> bool" where
  "serving st \<longleftrightarrow> st_registered st \<noteq> None \<and> st_task st \<noteq> LeavingPool \<and> st_task st \<noteq> Closed"

definition live :: "(string \<times> stream) list \<Rightarrow> string \<Rightarrow> bool" where
  "live streams sid \<longleftrightarrow> (case map_of streams sid of Some st \<Rightarrow> serving st | None \<Rightarrow> False)"

definition streams_ok :: "(string \<times> stream) list \<Rightarrow> grid \<Rightarrow> bool" where
  "streams_ok streams g \<longleftrightarrow> (\<forall>sid st. map_of streams sid = Some st \<longrightarrow> st_id st = sid) \<and>
     (\<forall>sid \<in> server_ids g. live streams sid) \<and>
     fst ` set (gr_available g) \<subseteq> fst ` set streams"

definition router_ok :: "router \<Rightarrow> bool" where
  "router_ok r \<longleftrightarrow> grid_ok (rt_grid r) \<and> pool_ok (rt_grid r) \<and> streams_ok (rt_streams r) (rt_grid r)"

lemma router_ok_new: "router_ok new_router"
  using grid_ok_new by (simp add: router_ok_def new_router_def pool_ok_def streams_ok_def new_grid_def server_ids_def)

text \<open>A step of one stream: only its own server can be new in the grid.\<close>

lemma stream_step_ok:
  assumes r: "router_ok r" and st: "map_of (rt_streams r) sid = Some st"
    and g: "grid_ok g" "pool_ok g" and st': "st_id st' = sid"
    and ids: "server_ids g \<subseteq> insert sid (server_ids (rt_grid r))"
    and own: "sid \<in> server_ids g \<Longrightarrow> serving st'"
    and pool: "fst ` set (gr_available g) \<subseteq> insert sid (fst ` set (gr_available (rt_grid r)))"
  shows "router_ok (r\<lparr>rt_grid := g, rt_streams := AList.update sid st' (rt_streams r)\<rparr>)"
proof -
  have m: "map_of (AList.update sid st' (rt_streams r)) = (map_of (rt_streams r))(sid \<mapsto> st')" by (rule update_conv')
  have s: "streams_ok (rt_streams r) (rt_grid r)" using r by (simp add: router_ok_def)
  have "live (AList.update sid st' (rt_streams r)) x" if x: "x \<in> server_ids g" for x
  proof (cases "x = sid")
    case True
    with x own show ?thesis by (simp add: live_def m)
  next
    case False
    with x ids have "x \<in> server_ids (rt_grid r)" by blast
    with s have "live (rt_streams r) x" by (simp add: streams_ok_def)
    with False show ?thesis by (simp add: live_def m)
  qed
  moreover have "fst ` set (gr_available g) \<subseteq> fst ` set (AList.update sid st' (rt_streams r))"
  proof -
    have "fst ` set (AList.update sid st' (rt_streams r)) = insert sid (fst ` set (rt_streams r))"
      by (simp add: dom_map_of_conv_image_fst [symmetric] m)
    moreover have "fst ` set (gr_available (rt_grid r)) \<subseteq> fst ` set (rt_streams r)"
      using s unfolding streams_ok_def by (elim conjE)
    ultimately show ?thesis by (simp only: subset_trans [OF pool insert_mono])
  qed
  moreover have "st_id s' = x" if "map_of (AList.update sid st' (rt_streams r)) x = Some s'" for x s'
  proof (cases "x = sid")
    case True
    have "((map_of (rt_streams r))(sid \<mapsto> st')) x = Some s'" using that by (simp only: m)
    then have "s' = st'" by (simp add: True)
    with st' True show ?thesis by (simp only:)
  next
    case False
    have "((map_of (rt_streams r))(sid \<mapsto> st')) x = Some s'" using that by (simp only: m)
    then have "map_of (rt_streams r) x = Some s'" by (simp only: fun_upd_other [OF False])
    with s show ?thesis unfolding streams_ok_def by blast
  qed
  ultimately have "streams_ok (AList.update sid st' (rt_streams r)) g" unfolding streams_ok_def by blast
  with g show ?thesis by (simp add: router_ok_def)
qed

text \<open>A step that leaves the streams alone.\<close>

lemma grid_step_ok:
  assumes "router_ok r" and "grid_ok g" and "pool_ok g" and "server_ids g \<subseteq> server_ids (rt_grid r)"
    and "fst ` set (gr_available g) \<subseteq> fst ` set (gr_available (rt_grid r))"
  shows "router_ok (r\<lparr>rt_grid := g\<rparr>)" "router_ok (r\<lparr>rt_grid := g, rt_stale := stale\<rparr>)"
proof -
  have "streams_ok (rt_streams r) (rt_grid r)" using assms(1) by (simp add: router_ok_def)
  then have "\<forall>sid st. map_of (rt_streams r) sid = Some st \<longrightarrow> st_id st = sid"
    and "\<forall>sid \<in> server_ids (rt_grid r). live (rt_streams r) sid"
    and "fst ` set (gr_available (rt_grid r)) \<subseteq> fst ` set (rt_streams r)"
    unfolding streams_ok_def by blast+
  then have "streams_ok (rt_streams r) g"
    unfolding streams_ok_def using subset_trans [OF assms(5)] assms(4) by (intro conjI) (assumption | blast)+
  with assms(2,3) show "router_ok (r\<lparr>rt_grid := g\<rparr>)" "router_ok (r\<lparr>rt_grid := g, rt_stale := stale\<rparr>)"
    by (simp_all add: router_ok_def)
qed

lemma shrink_step_ok:
  assumes "router_ok r" and "pool_shrinks (rt_grid r) g"
  shows "router_ok (r\<lparr>rt_grid := g\<rparr>)"
  using grid_step_ok(1) [OF assms(1)] shrink_ok [OF assms(2)] assms(1) by (simp add: router_ok_def)

lemma evicted_ok:
  "grid_ok g \<Longrightarrow> grid_ok (foldl (\<lambda>g sid. deregister sid g) g stale) \<and>
     server_ids (foldl (\<lambda>g sid. deregister sid g) g stale) = server_ids g - set stale \<and>
     gr_available (foldl (\<lambda>g sid. deregister sid g) g stale) = gr_available g"
  by (induction stale arbitrary: g) (auto simp: grid_ok_deregister)

text \<open>What the handlers do to the grid, and to their own stream.\<close>

definition stream_ok :: "stream \<Rightarrow> grid \<Rightarrow> stream \<Rightarrow> grid \<Rightarrow> bool" where
  "stream_ok st g st' g' \<longleftrightarrow> grid_ok g' \<and> pool_ok g' \<and> st_id st' = st_id st \<and>
     server_ids g' \<subseteq> insert (st_id st) (server_ids g) \<and> (st_id st \<in> server_ids g' \<longrightarrow> serving st') \<and>
     fst ` set (gr_available g') \<subseteq> insert (st_id st) (fst ` set (gr_available g))"

lemma pool_ok_same: "gr_available g' = gr_available g \<Longrightarrow> pool_ok g' = pool_ok g"
  by (simp add: pool_ok_def)

lemma pool_ok_available:
  assumes "pool_ok g" and "av_sender e = av_id e"
  shows "pool_ok (register_available e g)"
  using assms by (auto simp: pool_ok_def register_available_def keys_update dest!: in_update)

lemma pool_ok_unavailable: "pool_ok g \<Longrightarrow> pool_ok (deregister_available sid g)"
  by (auto simp: pool_ok_def deregister_available_def keys_delete dest!: in_delete)

lemma available_rest [simp]: "grid_ok (register_available e g) = grid_ok g" "server_ids (register_available e g) = server_ids g"
  "grid_ok (deregister_available sid g) = grid_ok g" "server_ids (deregister_available sid g) = server_ids g"
  "fst ` set (gr_available (register_available e g)) = insert (av_id e) (fst ` set (gr_available g))"
  "fst ` set (gr_available (deregister_available sid g)) = fst ` set (gr_available g) - {sid}"
  by (simp_all add: dom_map_of_conv_image_fst [symmetric] update_conv' delete_conv' register_available_def deregister_available_def grid_ok_def keys_ok_def tables_ok_def servers_def server_ids_def)

lemma stream_okI:
  assumes "grid_ok g'" and "pool_ok g'" and "st_id st' = st_id st"
    and "server_ids g' \<subseteq> insert (st_id st) (server_ids g)" and "st_id st \<in> server_ids g' \<Longrightarrow> serving st'"
    and "fst ` set (gr_available g') \<subseteq> insert (st_id st) (fst ` set (gr_available g))"
  shows "stream_ok st g st' g'"
  using assms unfolding stream_ok_def by (intro conjI impI)

text \<open>The grid as it was, or with less of the pool.\<close>

lemma stream_ok_shrink:
  assumes "grid_ok g" and "pool_ok g" and "st_id st' = st_id st" and "pool_shrinks g g'"
    and "st_id st \<in> server_ids g \<Longrightarrow> serving st'"
  shows "stream_ok st g st' g'"
proof (rule stream_okI)
  note s = shrink_ok [OF assms(4)]
  show "grid_ok g'" "pool_ok g'" by (rule s assms(1,2))+
  show "server_ids g' \<subseteq> insert (st_id st) (server_ids g)" by (simp only: s(2) subset_insertI)
  show "fst ` set (gr_available g') \<subseteq> insert (st_id st) (fst ` set (gr_available g))" by (rule subset_insertI2 [OF s(4)])
  show "serving st'" if "st_id st \<in> server_ids g'" using that assms(5) by (simp only: s(2))
qed (rule assms(3))

lemma serve_ok:
  assumes "grid_ok g" and "pool_ok g" and "st_task st = Reading" and "sv_id e = st_id st"
    and "serve accepts e s st g = (st', g', out)"
  shows "stream_ok st g st' g'" "g' = register_with_sender e (st_id st) g" "st_registered st' = Some (registered_as s)"
proof -
  from assms(5) show g': "g' = register_with_sender e (st_id st) g" and reg: "st_registered st' = Some (registered_as s)"
    by (auto simp: serve_def Let_def split: if_splits)
  have "st_id st' = st_id st" "st_task st' = Reading \<or> st_task st' = Closing"
    using assms(3,5) by (auto simp: serve_def Let_def split: if_splits)
  moreover from this reg have "serving st'" by (auto simp: serving_def)
  moreover note reg = grid_ok_register [OF assms(1,4)]
  moreover have "pool_ok g'" using pool_ok_same [OF reg(3)] assms(2) by (simp only: g')
  ultimately show "stream_ok st g st' g'"
    by (intro stream_okI) (simp_all only: g' subset_insertI subset_refl)
qed

lemma lose_server_ok:
  assumes "grid_ok g" and "pool_ok g" and "lose_server accepts sid g = (g', out)"
  shows "grid_ok g'" "pool_ok g'" "server_ids g' = server_ids g - {sid}"
    "fst ` set (gr_available g') \<subseteq> fst ` set (gr_available g)"
proof -
  note sh = shrink_ok [OF lose_server_shrinks [OF assms(3)]]
  note d = grid_ok_deregister [OF assms(1), of sid]
  show "grid_ok g'" by (rule sh(1) [OF d(1)])
  show "pool_ok g'" by (rule sh(3)) (simp add: pool_ok_same [OF d(3)] assms(2))
  show "server_ids g' = server_ids g - {sid}" by (simp only: sh(2) d(2))
  show "fst ` set (gr_available g') \<subseteq> fst ` set (gr_available g)" using sh(4) by (simp only: d(3))
qed

lemma handle_message_ok:
  assumes g: "grid_ok g" "pool_ok g" and task: "st_task st = Reading" and own: "st_id st \<in> server_ids g \<Longrightarrow> serving st"
    and h: "handle_message accepts now msg st g = (st', g', out)"
  shows "stream_ok st g st' g'"
proof (cases msg)
  case (Announce s url hash ram)
  have "sv_id (announced (st_id st) s url hash ram now) = st_id st" by (cases s) (simp add: announced_def)
  from serve_ok(1) [OF g task this] h Announce show ?thesis by (simp add: handle_message_def)
next
  case (Ready s url)
  obtain st1 out1 where 1: "serve accepts (announced (st_id st) s url [] 0 now) s st g = (st1, g', out1)"
    and st': "st' = st1\<lparr>st_available := False\<rparr>"
    using h Ready by (auto simp: handle_message_def split: prod.splits)
  have "sv_id (announced (st_id st) s url [] 0 now) = st_id st" by (cases s) (simp add: announced_def)
  from serve_ok(1) [OF g task this 1] show ?thesis by (simp add: stream_ok_def serving_def st')
next
  case (Heartbeat hb)
  then have st': "st' = st" and g': "g' = update_heartbeat (st_id st) hb now g" using h by (auto simp: handle_message_def)
  have k: "grid_ok g'" "server_ids g' = server_ids g" "gr_available g' = gr_available g"
    using grid_ok_heartbeat [OF g(1)] unfolding g' by blast+
  show ?thesis
    by (rule stream_okI [OF k(1)]) (use k(2,3) pool_ok_same [OF k(3)] g(2) own in \<open>simp_all add: st' subset_insertI\<close>)
next
  case Dropping
  obtain g1 out1 where 1: "lose_server accepts (st_id st) g = (g1, out1)" by (cases "lose_server accepts (st_id st) g")
  then have st': "st' = st\<lparr>st_registered := None\<rparr>" and g': "g' = g1" using h Dropping by (simp_all add: handle_message_def)
  note l = lose_server_ok [OF g 1]
  show ?thesis unfolding g'
    by (rule stream_okI [OF l(1,2)]) (use l(3) subset_insertI2 [OF l(4)] in \<open>simp_all add: st' subset_insertI2\<close>)
next
  case (Available ram disk path)
  let ?e = "\<lparr>av_id = st_id st, av_sender = st_id st, av_ram = ram, av_disk = disk, av_path = path, av_joined = now\<rparr>"
  from Available h have st': "st' = st\<lparr>st_available := True, st_task := ReadGaps ram\<rparr>" and g': "g' = register_available ?e g"
    by (simp_all add: handle_message_def)
  have "pool_ok g'" unfolding g' by (rule pool_ok_available [OF g(2)]) simp
  with g(1) own show ?thesis unfolding g'
    by (intro stream_okI) (simp_all add: st' subset_insertI serving_def)
next
  case Refuse
  with h own g show ?thesis by (intro stream_ok_shrink) (simp_all add: handle_message_def)
next
  case NoPayload
  with h own g show ?thesis by (intro stream_ok_shrink) (simp_all add: handle_message_def)
qed

lemma stream_advance_ok:
  assumes g: "grid_ok g" "pool_ok g" and own: "st_id st \<in> server_ids g \<Longrightarrow> serving st"
    and h: "stream_advance accepts st g = (st', g', out)"
  shows "stream_ok st g st' g'"
proof (cases "st_task st")
  case (FillGaps gaps ram)
  show ?thesis
  proof (cases gaps)
    case Nil
    with FillGaps h have "st' = st\<lparr>st_task := ReplicateSpare\<rparr>" "g' = g" by (simp_all add: stream_advance_def)
    with own g FillGaps show ?thesis by (intro stream_ok_shrink) (simp_all add: serving_def)
  next
    case (Cons gap rest)
    obtain model a b where gap: "gap = (model, a, b)" by (cases gap)
    obtain ok where 1: "try_assign_gap accepts (model, a, b, 0, 0) ram g = (ok, g', out)"
      and st': "st' = st\<lparr>st_task := (if ok then Reading else FillGaps rest ram)\<rparr>"
      using h FillGaps Cons gap by (auto simp: stream_advance_def split: prod.splits)
    show ?thesis
      by (rule stream_ok_shrink [OF g _ pool_shrinks_assign [OF 1]]) (use own FillGaps in \<open>simp_all add: st' serving_def\<close>)
  qed
next
  case ReplicateSpare
  obtain n where 1: "try_replicate_from_available accepts g = (n, g', out)" and st': "st' = st\<lparr>st_task := Reading\<rparr>"
    using h ReplicateSpare by (auto simp: stream_advance_def split: prod.splits)
  show ?thesis
    by (rule stream_ok_shrink [OF g _ pool_shrinks_each [OF 1 [unfolded try_replicate_from_available_def]]])
      (use own ReplicateSpare in \<open>simp_all add: st' serving_def\<close>)
next
  case Closing
  show ?thesis
  proof (cases "st_registered st")
    case None
    with Closing own have "st_id st \<notin> server_ids g" by (auto simp: serving_def)
    with h g Closing None show ?thesis by (intro stream_ok_shrink) (auto simp: stream_advance_def)
  next
    case (Some x)
    obtain g1 out1 where 1: "lose_server accepts (st_id st) g = (g1, out1)" by (cases "lose_server accepts (st_id st) g")
    then have st': "st' = st\<lparr>st_task := LeavingPool\<rparr>" and g': "g' = g1" using h Closing Some by (simp_all add: stream_advance_def)
    note l = lose_server_ok [OF g 1]
    show ?thesis unfolding g'
      by (rule stream_okI [OF l(1,2)]) (use l(3) subset_insertI2 [OF l(4)] in \<open>simp_all add: st' subset_insertI2\<close>)
  qed
next
  case LeavingPool
  have "st_id st \<notin> server_ids g" using own LeavingPool by (auto simp: serving_def)
  moreover have "st' = st\<lparr>st_task := Closed\<rparr>"
    and g': "g' = (if st_available st then deregister_available (st_id st) g else g)"
    using h LeavingPool by (simp_all add: stream_advance_def)
  moreover have "grid_ok g'" "pool_ok g'" "server_ids g' = server_ids g"
    "fst ` set (gr_available g') \<subseteq> fst ` set (gr_available g)"
    using g pool_ok_unavailable [OF g(2)] by (auto simp: g')
  ultimately show ?thesis by (intro stream_okI) (simp_all add: subset_insertI subset_insertI2)
next
  case Reading
  with h own g show ?thesis by (intro stream_ok_shrink) (simp_all add: stream_advance_def)
next
  case (ReadGaps ram)
  with h have "st' = st\<lparr>st_task := FillGaps (coverage_gaps g) ram\<rparr>" "g' = g" by (auto simp: stream_advance_def)
  with own g ReadGaps show ?thesis by (intro stream_ok_shrink) (simp_all add: serving_def)
next
  case Closed
  with h own g show ?thesis by (intro stream_ok_shrink) (simp_all add: stream_advance_def)
qed

section \<open>Every step\<close>

lemma stream_ok_step:
  assumes "router_ok r" and "map_of (rt_streams r) sid = Some st"
    and "stream_ok st (rt_grid r) st' g"
  shows "router_ok (r\<lparr>rt_grid := g, rt_streams := AList.update sid st' (rt_streams r)\<rparr>)"
proof -
  have "st_id st = sid" using assms(1,2) unfolding router_ok_def streams_ok_def by blast
  with assms(3) show ?thesis by (intro stream_step_ok [OF assms(1,2)]) (simp_all add: stream_ok_def)
qed

lemma own_server:
  assumes "router_ok r" and "map_of (rt_streams r) sid = Some st" and "st_id st \<in> server_ids (rt_grid r)"
  shows "serving st"
proof -
  have "st_id st = sid" and "live (rt_streams r) (st_id st)"
    using assms unfolding router_ok_def streams_ok_def by blast+
  with assms(2) show ?thesis by (simp add: live_def)
qed

lemma settings_ok:
  "grid_ok (g\<lparr>gr_elevated := el\<rparr>) = grid_ok g" "server_ids (g\<lparr>gr_elevated := el\<rparr>) = server_ids g"
  "pool_ok (g\<lparr>gr_elevated := el\<rparr>) = pool_ok g"
  "grid_ok (set_target_replicas n (set_saturation_ceiling c g)) = grid_ok g"
  "server_ids (set_target_replicas n (set_saturation_ceiling c g)) = server_ids g"
  "pool_ok (set_target_replicas n (set_saturation_ceiling c g)) = pool_ok g"
  "gr_available (set_target_replicas n (set_saturation_ceiling c g)) = gr_available g"
  by (simp_all add: grid_ok_def keys_ok_def tables_ok_def servers_def server_ids_def pool_ok_def set_target_replicas_def
      set_saturation_ceiling_def)

lemma pool_shrinks_range:
  "assign_range accepts model ls le target url hash g = (ack, g', out) \<Longrightarrow> pool_shrinks g g'"
  unfolding assign_range_def
  by (auto split: option.splits if_splits prod.splits sum.splits dest: pool_shrinks_with_origin pool_shrinks_named)

lemma router_step_ok:
  assumes "router_step r r' out" and ok: "router_ok r"
  shows "router_ok r'"
  using assms(1)
proof (cases rule: router_step.cases)
  case (join sid)
  have s: "\<forall>x s. map_of (rt_streams r) x = Some s \<longrightarrow> st_id s = x"
    "\<forall>x \<in> server_ids (rt_grid r). live (rt_streams r) x"
    "fst ` set (gr_available (rt_grid r)) \<subseteq> fst ` set (rt_streams r)"
    using ok unfolding router_ok_def streams_ok_def by blast+
  have "live ((sid, open_stream sid) # rt_streams r) x" if x: "x \<in> server_ids (rt_grid r)" for x
  proof -
    have "live (rt_streams r) x" using s(2) x by blast
    moreover from this obtain s where "map_of (rt_streams r) x = Some s" by (auto simp: live_def split: option.splits)
    with map_of_eq_None_iff [of "rt_streams r" x] join(3) have "x \<noteq> sid" by auto
    ultimately show ?thesis by (simp add: live_def)
  qed
  moreover have "st_id s' = x" if "map_of ((sid, open_stream sid) # rt_streams r) x = Some s'" for x s'
    using that s(1) by (auto simp: open_stream_def split: if_splits)
  ultimately have "streams_ok ((sid, open_stream sid) # rt_streams r) (rt_grid r)"
    unfolding streams_ok_def using subset_insertI2 [OF s(3)] by simp
  with ok show ?thesis unfolding join(1) by (simp add: router_ok_def)
next
  case (message sid st accepts now msg st' g)
  have "grid_ok (rt_grid r)" "pool_ok (rt_grid r)" using ok by (simp_all add: router_ok_def)
  from handle_message_ok [OF this message(3) own_server [OF ok message(2)] message(4)]
  show ?thesis unfolding message(1) by (rule stream_ok_step [OF ok message(2)])
next
  case (hang_up sid st)
  have "stream_ok st (rt_grid r) (st\<lparr>st_task := Closing\<rparr>) (rt_grid r)"
    by (rule stream_ok_shrink)
      (use ok own_server [OF ok hang_up(3)] in \<open>simp_all add: router_ok_def serving_def\<close>)
  from stream_ok_step [OF ok hang_up(3) this] show ?thesis by (simp add: hang_up(1))
next
  case (stream_advance sid st accepts st' g)
  have "grid_ok (rt_grid r)" "pool_ok (rt_grid r)" using ok by (simp_all add: router_ok_def)
  from stream_advance_ok [OF this own_server [OF ok stream_advance(2)] stream_advance(3)]
  show ?thesis unfolding stream_advance(1) by (rule stream_ok_step [OF ok stream_advance(2)])
next
  case (read_stale now timeout)
  with ok show ?thesis by (simp add: router_ok_def)
next
  case (evict accepts g)
  let ?g = "foldl (\<lambda>g sid. deregister sid g) (rt_grid r) (rt_stale r)"
  have g: "grid_ok (rt_grid r)" "pool_ok (rt_grid r)" using ok by (simp_all add: router_ok_def)
  show ?thesis
  proof (cases "rt_stale r = []")
    case True
    with evict ok show ?thesis by (simp add: evict_def router_ok_def)
  next
    case False
    obtain n g1 out1 where 1: "try_fill_all_gaps accepts ?g = (n, g1, out1)" by (cases "try_fill_all_gaps accepts ?g")
    with False evict(2) have g': "g = g1" by (simp add: evict_def)
    note e = evicted_ok [OF g(1), of "rt_stale r", THEN conjunct1] evicted_ok [OF g(1), of "rt_stale r", THEN conjunct2, THEN conjunct1]
      evicted_ok [OF g(1), of "rt_stale r", THEN conjunct2, THEN conjunct2]
    note s = shrink_ok [OF pool_shrinks_each [OF 1 [unfolded try_fill_all_gaps_def]]]
    show ?thesis unfolding evict(1) g'
    proof (rule grid_step_ok(2) [OF ok])
      show "grid_ok g1" by (rule s(1) [OF e(1)])
      show "pool_ok g1" by (rule s(3)) (simp only: pool_ok_same [OF e(3)] g(2))
      show "server_ids g1 \<subseteq> server_ids (rt_grid r)" by (simp only: s(2) e(2) Diff_subset)
      show "fst ` set (gr_available g1) \<subseteq> fst ` set (gr_available (rt_grid r))" using s(4) by (simp only: e(3))
    qed
  qed
next
  case (hot_shards threshold ratio)
  show ?thesis unfolding hot_shards(1)
    by (rule grid_step_ok(1) [OF ok]) (use ok in \<open>simp_all add: check_hot_shards_def Let_def settings_ok router_ok_def\<close>)
next
  case (replicate accepts g)
  obtain n where "try_replicate_from_available accepts (rt_grid r) = (n, g, out)"
    using replicate(2) by (auto simp: check_under_replication_def split: prod.splits)
  from shrink_step_ok [OF ok pool_shrinks_each [OF this [unfolded try_replicate_from_available_def]]]
  show ?thesis by (simp only: replicate(1))
next
  case (rtt sid ms)
  have g: "grid_ok (rt_grid r)" "pool_ok (rt_grid r)" using ok by (simp_all add: router_ok_def)
  have k: "grid_ok (update_rtt_ms sid ms (rt_grid r))" "server_ids (update_rtt_ms sid ms (rt_grid r)) = server_ids (rt_grid r)"
    "gr_available (update_rtt_ms sid ms (rt_grid r)) = gr_available (rt_grid r)"
    using grid_ok_rtt [OF g(1)] by blast+
  with g(2) show ?thesis unfolding rtt(1)
    by (intro grid_step_ok(1) [OF ok]) (simp_all only: pool_ok_same [OF k(3)] subset_refl)
next
  case (assign accepts model ls le target url hash ack g)
  from shrink_step_ok [OF ok pool_shrinks_range [OF assign(2)]] show ?thesis by (simp only: assign(1))
next
  case (configure n c)
  show ?thesis unfolding configure(1)
    by (rule grid_step_ok(1) [OF ok]) (use ok in \<open>simp_all add: settings_ok router_ok_def\<close>)
qed (use ok in \<open>simp_all add: router_ok_def\<close>)

lemma reachable_ok: "reachable r \<Longrightarrow> router_ok r"
  by (induction rule: reachable.induct) (auto intro: router_step_ok router_ok_new)

end
