(* ===== verification/GridReplication.thy ===== *)
theory GridReplication
  imports GridInvariant
begin

text \<open>
  What the grid reports about coverage and replication, and what it sends to spares and to surplus replicas.
\<close>

section \<open>Tables built from the servers\<close>

lemma alist_pushed:
  fixes k :: "'a \<Rightarrow> 'k" and v :: "'a \<Rightarrow> 'v"
  defines "pushed \<equiv> \<lambda>es. foldl (\<lambda>m e. alist_push (k e) (v e) m) [] es"
  shows "distinct (map fst (pushed es)) \<and> (\<forall>key. map_of (pushed es) key = some_unless_empty (map v (filter (\<lambda>e. k e = key) es)))"
proof (induction es rule: rev_induct)
  case Nil
  show ?case by (simp add: pushed_def some_unless_empty_def)
next
  case (snoc e es)
  have p: "pushed (es @ [e]) = alist_push (k e) (v e) (pushed es)" by (simp add: pushed_def)
  from snoc have m: "map_of (pushed es) key = some_unless_empty (map v (filter (\<lambda>e. k e = key) es))" for key by blast
  have "distinct (map fst (pushed (es @ [e])))" using snoc unfolding p alist_push_def by (intro keys_update) blast
  moreover have "map_of (pushed (es @ [e])) key = some_unless_empty (map v (filter (\<lambda>e. k e = key) (es @ [e])))" for key
    by (simp add: p alist_push_def update_conv' m some_unless_empty_def filter_empty_conv)
  ultimately show ?case by blast
qed

lemma alist_counted:
  fixes k :: "'a \<Rightarrow> 'k"
  defines "counted \<equiv> \<lambda>es. foldl (\<lambda>m e. AList.update (k e) ((case map_of m (k e) of Some n \<Rightarrow> n | None \<Rightarrow> 0) + (1 :: nat)) m) [] es"
  shows "distinct (map fst (counted es)) \<and>
    (\<forall>key. map_of (counted es) key = (let n = length (filter (\<lambda>e. k e = key) es) in if n = 0 then None else Some n))"
proof (induction es rule: rev_induct)
  case Nil
  show ?case by (simp add: counted_def)
next
  case (snoc e es)
  have p: "counted (es @ [e]) =
      AList.update (k e) ((case map_of (counted es) (k e) of Some n \<Rightarrow> n | None \<Rightarrow> 0) + 1) (counted es)"
    by (simp add: counted_def)
  from snoc have m: "map_of (counted es) key = (let n = length (filter (\<lambda>e. k e = key) es) in if n = 0 then None else Some n)"
    for key by blast
  have "distinct (map fst (counted (es @ [e])))" using snoc unfolding p by (intro keys_update) blast
  moreover have "map_of (counted (es @ [e])) key =
      (let n = length (filter (\<lambda>e. k e = key) (es @ [e])) in if n = 0 then None else Some n)" for key
    by (simp add: p update_conv' m Let_def)
  ultimately show ?case by blast
qed

lemma in_alist: "distinct (map fst xs) \<Longrightarrow> (key, v) \<in> set xs \<longleftrightarrow> map_of xs key = Some v"
  by (metis map_of_eq_Some_iff)

section \<open>Gaps\<close>

definition model_ranges :: "string \<Rightarrow> grid \<Rightarrow> (nat \<times> nat) list" where
  "model_ranges model g = map (\<lambda>e. (sv_layer_start e, sv_layer_end e)) (filter (\<lambda>e. sv_model e = model) (servers g))"

lemma foldl_pairs: "foldl (\<lambda>m (_, e). f m e) z xs = foldl f z (map snd xs)"
  by (simp add: foldl_map case_prod_unfold)

lemma ranges_by_model_servers:
  "distinct (map fst (ranges_by_model g)) \<and> (\<forall>model. map_of (ranges_by_model g) model = some_unless_empty (model_ranges model g))"
  using alist_pushed [of sv_model "\<lambda>e. (sv_layer_start e, sv_layer_end e)" "servers g"]
  by (simp add: ranges_by_model_def foldl_pairs servers_def model_ranges_def)

lemma coverage_gaps_of_model:
  "(model, a, b) \<in> set (coverage_gaps g) \<longleftrightarrow> (a, b) \<in> set (gap_scan None (sort_key fst (model_ranges model g)))"
proof -
  have "(model, a, b) \<in> set (coverage_gaps g) \<longleftrightarrow>
      (\<exists>ranges. (model, ranges) \<in> set (ranges_by_model g) \<and> (a, b) \<in> set (gap_scan None (sort_key fst ranges)))"
    by (auto simp: coverage_gaps_def)
  also have "\<dots> \<longleftrightarrow> (\<exists>ranges. map_of (ranges_by_model g) model = Some ranges \<and> (a, b) \<in> set (gap_scan None (sort_key fst ranges)))"
    using ranges_by_model_servers [of g] by (simp add: in_alist)
  also have "\<dots> \<longleftrightarrow> (a, b) \<in> set (gap_scan None (sort_key fst (model_ranges model g)))"
    using ranges_by_model_servers [of g] by (simp add: some_unless_empty_def)
  finally show ?thesis .
qed

text \<open>Every layer missing between two ranges is in a gap.\<close>

lemma gap_scan_complete:
  assumes "sorted (map fst rs)" and "\<forall>(s, e) \<in> set rs. e + 1 < 2 ^ 32 \<and> \<not> (s \<le> l \<and> l \<le> e)"
    and "\<exists>(s, e) \<in> set rs. l < s" and "pe < l" and "pe + 1 < 2 ^ 32"
  shows "\<exists>(a, b) \<in> set (gap_scan (Some pe) rs). a \<le> l \<and> l \<le> b"
  using assms
proof (induction rs arbitrary: pe)
  case (Cons r rs)
  obtain s e where r: "r = (s, e)" by (cases r)
  show ?case
  proof (cases "l < s")
    case True
    with Cons.prems(4,5) show ?thesis by (auto simp: r)
  next
    case False
    with Cons.prems(2) have e: "e < l" "e + 1 < 2 ^ 32" by (auto simp: r)
    from Cons.prems(3) False have "\<exists>(s, e) \<in> set rs. l < s" by (auto simp: r)
    from Cons.IH [OF _ _ this e] Cons.prems(1,2) show ?thesis by (fastforce simp: r)
  qed
qed simp

lemma gap_scan_complete_start:
  assumes "sorted (map fst rs)" and "\<forall>(s, e) \<in> set rs. e + 1 < 2 ^ 32 \<and> \<not> (s \<le> l \<and> l \<le> e)"
    and "\<exists>(s, e) \<in> set rs. l < s" and "\<exists>(s, e) \<in> set rs. s \<le> l"
  shows "\<exists>(a, b) \<in> set (gap_scan None rs). a \<le> l \<and> l \<le> b"
proof (cases rs)
  case (Cons r rest)
  obtain s e where r: "r = (s, e)" by (cases r)
  have "s \<le> l" using assms(1,4) by (fastforce simp: Cons r)
  with assms(2) have "e < l" "e + 1 < 2 ^ 32" by (auto simp: Cons r)
  moreover have "\<exists>(s, e) \<in> set rest. l < s" using assms(3) \<open>s \<le> l\<close> by (auto simp: Cons r)
  ultimately show ?thesis using gap_scan_complete [of rest l e] assms(1,2) by (simp add: Cons r)
qed (use assms in simp)

text \<open>When a later range never ends earlier, a gap has only missing layers.\<close>

lemma gap_scan_exact:
  assumes "sorted (map fst rs)" and "sorted (map snd rs)" and "\<forall>(s, e) \<in> set rs. e + 1 < 2 ^ 32"
    and "(a, b) \<in> set (gap_scan (Some pe) rs)" and "pe + 1 < 2 ^ 32" and "\<forall>(s, e) \<in> set rs. pe \<le> e"
  shows "pe < a \<and> a \<le> b \<and> (\<forall>(s, e) \<in> set rs. \<forall>l. a \<le> l \<and> l \<le> b \<longrightarrow> \<not> (s \<le> l \<and> l \<le> e)) \<and> (\<exists>(s, e) \<in> set rs. b < s)"
  using assms
proof (induction rs arbitrary: pe)
  case (Cons r rs)
  obtain s e where r: "r = (s, e)" by (cases r)
  have later: "\<forall>(s', e') \<in> set rs. s \<le> s' \<and> e \<le> e'" using Cons.prems(1,2) by (auto simp: r)
  show ?case
  proof (cases "(a, b) \<in> set (gap_scan (Some e) rs)")
    case True
    have "sorted (map fst rs)" "sorted (map snd rs)" "\<forall>(s, e) \<in> set rs. e + 1 < 2 ^ 32" "e + 1 < 2 ^ 32"
      "\<forall>(s, e') \<in> set rs. e \<le> e'" using Cons.prems(1-3) later by (auto simp: r)
    from Cons.IH [OF this(1-3) True this(4,5)]
    have "e < a" "a \<le> b" "\<forall>(s, e) \<in> set rs. \<forall>l. a \<le> l \<and> l \<le> b \<longrightarrow> \<not> (s \<le> l \<and> l \<le> e)" "\<exists>(s, e) \<in> set rs. b < s"
      by blast+
    moreover have "pe \<le> e" using Cons.prems(6) by (simp add: r)
    ultimately show ?thesis by (auto simp: r)
  next
    case False
    with Cons.prems(4,5) have ab: "a = pe + 1" "b = s - 1" "pe + 1 < s" by (auto simp: r split: if_splits)
    moreover have "\<not> (s' \<le> l \<and> l \<le> e')" if "(s', e') \<in> set (r # rs)" "a \<le> l \<and> l \<le> b" for s' e' l
      using that ab later by (fastforce simp: r)
    ultimately show ?thesis by (auto simp: r)
  qed
qed simp

lemma gap_scan_exact_start:
  assumes "sorted (map fst rs)" and "sorted (map snd rs)" and "\<forall>(s, e) \<in> set rs. e + 1 < 2 ^ 32"
    and "(a, b) \<in> set (gap_scan None rs)"
  shows "a \<le> b \<and> (\<forall>(s, e) \<in> set rs. \<forall>l. a \<le> l \<and> l \<le> b \<longrightarrow> \<not> (s \<le> l \<and> l \<le> e)) \<and> (\<exists>(s, e) \<in> set rs. b < s)"
proof (cases rs)
  case (Cons r rest)
  obtain s e where r: "r = (s, e)" by (cases r)
  have "sorted (map fst rest)" "sorted (map snd rest)" "\<forall>(s, e) \<in> set rest. e + 1 < 2 ^ 32"
    "(a, b) \<in> set (gap_scan (Some e) rest)" "e + 1 < 2 ^ 32" "\<forall>(s, e') \<in> set rest. e \<le> e'"
    using assms by (auto simp: Cons r)
  note x = gap_scan_exact [OF this]
  then have "\<not> (s' \<le> l \<and> l \<le> e')" if "(s', e') \<in> set rs" "a \<le> l \<and> l \<le> b" for s' e' l
    using that by (auto simp: Cons r)
  moreover from x have "\<exists>(s, e) \<in> set rs. b < s" by (auto simp: Cons)
  ultimately show ?thesis using x by blast
qed (use assms in simp)

definition unnested :: "string \<Rightarrow> grid \<Rightarrow> bool" where
  "unnested model g \<longleftrightarrow> (\<forall>x \<in> set (servers g). \<forall>y \<in> set (servers g). sv_model x = model \<and> sv_model y = model \<longrightarrow>
     sv_layer_start x \<le> sv_layer_start y \<longrightarrow> sv_layer_end x \<le> sv_layer_end y)"

lemma sorted_ends:
  assumes "sorted (map fst rs)" and "\<forall>(s, e) \<in> set rs. \<forall>(s', e') \<in> set rs. s \<le> s' \<longrightarrow> e \<le> (e' :: nat)"
  shows "sorted (map snd rs)"
  using assms by (induction rs) (fastforce simp: case_prod_unfold)+

lemma in_model_ranges:
  "(s, e) \<in> set (model_ranges model g) \<longleftrightarrow>
     (\<exists>x \<in> set (servers g). sv_model x = model \<and> sv_layer_start x = s \<and> sv_layer_end x = e)"
  by (auto simp: model_ranges_def)

definition served :: "string \<Rightarrow> nat \<Rightarrow> grid \<Rightarrow> bool" where
  "served model l g \<longleftrightarrow> (\<exists>e \<in> set (servers g). serves (Some model) l e)"

definition layers_fit :: "grid \<Rightarrow> bool" where
  "layers_fit g \<longleftrightarrow> (\<forall>e \<in> set (servers g). sv_layer_end e + 1 < 2 ^ 32)"

lemma gaps_complete:
  assumes "layers_fit g" and "\<not> served model l g"
    and "x \<in> set (servers g)" "sv_model x = model" "sv_layer_start x \<le> l"
    and "y \<in> set (servers g)" "sv_model y = model" "l < sv_layer_start y"
  shows "\<exists>a b. (model, a, b) \<in> set (coverage_gaps g) \<and> a \<le> l \<and> l \<le> b"
proof -
  let ?rs = "sort_key fst (model_ranges model g)"
  have "\<forall>(s, e) \<in> set ?rs. e + 1 < 2 ^ 32 \<and> \<not> (s \<le> l \<and> l \<le> e)"
    using assms(1,2) unfolding layers_fit_def served_def serves_def by (auto simp: in_model_ranges)
  moreover have "\<exists>(s, e) \<in> set ?rs. l < s"
    using assms(6-8) by (intro bexI [of _ "(sv_layer_start y, sv_layer_end y)"]) (auto simp: in_model_ranges)
  moreover have "\<exists>(s, e) \<in> set ?rs. s \<le> l"
    using assms(3-5) by (intro bexI [of _ "(sv_layer_start x, sv_layer_end x)"]) (auto simp: in_model_ranges)
  ultimately obtain a b where "(a, b) \<in> set (gap_scan None ?rs)" "a \<le> l \<and> l \<le> b"
    using gap_scan_complete_start [of ?rs l] by auto
  then show ?thesis by (auto simp: coverage_gaps_of_model)
qed

lemma gaps_exact:
  assumes "layers_fit g" and "unnested model g" and "(model, a, b) \<in> set (coverage_gaps g)"
  shows "a \<le> b \<and> (\<forall>l. a \<le> l \<and> l \<le> b \<longrightarrow> \<not> served model l g) \<and> (\<exists>y \<in> set (servers g). sv_model y = model \<and> b < sv_layer_start y)"
proof -
  let ?rs = "sort_key fst (model_ranges model g)"
  have "\<forall>(s, e) \<in> set ?rs. \<forall>(s', e') \<in> set ?rs. s \<le> s' \<longrightarrow> e \<le> e'"
    using assms(2) unfolding unnested_def by (fastforce simp: in_model_ranges)
  then have "sorted (map snd ?rs)" by (intro sorted_ends) simp_all
  moreover have "\<forall>(s, e) \<in> set ?rs. e + 1 < 2 ^ 32" using assms(1) by (auto simp: layers_fit_def in_model_ranges)
  moreover have "(a, b) \<in> set (gap_scan None ?rs)" using assms(3) by (simp add: coverage_gaps_of_model)
  ultimately have x: "a \<le> b" "\<forall>(s, e) \<in> set ?rs. \<forall>l. a \<le> l \<and> l \<le> b \<longrightarrow> \<not> (s \<le> l \<and> l \<le> e)" "\<exists>(s, e) \<in> set ?rs. b < s"
    using gap_scan_exact_start [of ?rs a b] by simp_all
  have "\<not> served model l g" if "a \<le> l \<and> l \<le> b" for l
    using x(2) that unfolding served_def serves_def by (fastforce simp: in_model_ranges)
  moreover have "\<exists>y \<in> set (servers g). sv_model y = model \<and> b < sv_layer_start y"
    using x(3) by (auto simp: in_model_ranges)
  ultimately show ?thesis using x(1) by blast
qed

section \<open>Replicas\<close>

definition replicas :: "slice \<Rightarrow> grid \<Rightarrow> server_entry list" where
  "replicas s g = filter (\<lambda>e. slice_of e = s) (servers g)"

lemma slice_counts_replicas:
  "distinct (map fst (slice_counts g)) \<and>
   (\<forall>s n. (s, n) \<in> set (slice_counts g) \<longleftrightarrow> n = length (replicas s g) \<and> 0 < n)"
proof -
  have c: "slice_counts g = foldl (\<lambda>m e. AList.update (slice_of e) ((case map_of m (slice_of e) of Some n \<Rightarrow> n | None \<Rightarrow> 0) + 1) m) [] (servers g)"
    by (simp add: slice_counts_def foldl_pairs servers_def)
  note x = alist_counted [of slice_of "servers g", folded c]
  have d: "distinct (map fst (slice_counts g))" using x by blast
  have "(s, n) \<in> set (slice_counts g) \<longleftrightarrow> n = length (replicas s g) \<and> 0 < n" for s n
    unfolding in_alist [OF d] x [THEN conjunct2, rule_format] replicas_def Let_def by (auto simp: filter_empty_conv)
  with d show ?thesis by blast
qed

lemma selected_sorted:
  fixes xs :: "('a :: linorder \<times> 'b :: linorder) list" and f :: "'a \<Rightarrow> 'b \<Rightarrow> 'b"
  shows "(s, d) \<in> set (sort (map (\<lambda>(s, n). (s, f s n)) (filter (\<lambda>(s, n). P s n) xs))) \<longleftrightarrow>
      (\<exists>n. (s, n) \<in> set xs \<and> P s n \<and> d = f s n)"
    and "distinct (map fst xs) \<Longrightarrow> distinct (map fst (sort (map (\<lambda>(s, n). (s, f s n)) (filter (\<lambda>(s, n). P s n) xs))))"
proof -
  show "(s, d) \<in> set (sort (map (\<lambda>(s, n). (s, f s n)) (filter (\<lambda>(s, n). P s n) xs))) \<longleftrightarrow>
      (\<exists>n. (s, n) \<in> set xs \<and> P s n \<and> d = f s n)" by auto
  have sorted: "distinct (map fst ys) \<Longrightarrow> distinct (map fst (sort ys))" for ys :: "('a \<times> 'b) list"
    by (metis distinct_map distinct_sort set_sort)
  assume "distinct (map fst xs)"
  then show "distinct (map fst (sort (map (\<lambda>(s, n). (s, f s n)) (filter (\<lambda>(s, n). P s n) xs))))"
    by (intro sorted) (simp add: case_prod_unfold comp_def distinct_map_filter)
qed

lemma under_replicated_replicas:
  "(s, d) \<in> set (under_replicated_ranges g) \<longleftrightarrow>
     replicas s g \<noteq> [] \<and> length (replicas s g) < effective_target_for s g \<and> d = effective_target_for s g - length (replicas s g)"
  unfolding under_replicated_ranges_def selected_sorted(1) slice_counts_replicas [THEN conjunct2, rule_format] by auto

lemma over_replicated_replicas:
  "(s, d) \<in> set (over_replicated_ranges g) \<longleftrightarrow>
     effective_target_for s g < length (replicas s g) \<and> d = length (replicas s g) - effective_target_for s g"
  unfolding over_replicated_ranges_def selected_sorted(1) slice_counts_replicas [THEN conjunct2, rule_format] by auto

lemma distinct_slices:
  "distinct (map fst (under_replicated_ranges g))" "distinct (map fst (over_replicated_ranges g))"
  unfolding under_replicated_ranges_def over_replicated_ranges_def
  by (rule selected_sorted(2) [OF slice_counts_replicas [THEN conjunct1]])+

lemma least_loaded_min:
  assumes "least_loaded_in_range s g = Some v"
  shows "v \<in> set (replicas s g) \<and> (\<forall>e \<in> set (replicas s g). sv_in_flight v \<le> sv_in_flight e)"
proof -
  let ?cmp = "\<lambda>a b. nat_cmp (sv_in_flight a) (sv_in_flight b)"
  have "min_by ?cmp (replicas s g) = Some v"
    using assms by (simp add: least_loaded_in_range_def replicas_def servers_def)
  then show ?thesis by (rule min_by_Some) (simp add: cmp_by_key_def nat_cmp_def)
qed

lemma least_loaded_exists: "replicas s g \<noteq> [] \<Longrightarrow> \<exists>v. least_loaded_in_range s g = Some v"
  using min_by_None [of "\<lambda>a b. nat_cmp (sv_in_flight a) (sv_in_flight b)" "replicas s g"]
  by (auto simp: least_loaded_in_range_def replicas_def servers_def)

section \<open>Assignments\<close>

text \<open>An assignment of a slice that a registered server holds, to a spare.\<close>

definition assigns :: "(string \<Rightarrow> bool) \<Rightarrow> grid \<Rightarrow> slice \<Rightarrow> string \<times> router_message \<Rightarrow> bool" where
  "assigns accepts g s m \<longleftrightarrow> (\<exists>e \<in> set (servers g). covers s e \<and> snd m = AssignMsg s (sv_url e) (sv_hash e)) \<and>
     (\<exists>a \<in> set (gr_available g). fst m = av_sender (snd a)) \<and> accepts (fst m)"

lemma find_origin_covers:
  "find_origin_for s g = Some (url, hash) \<Longrightarrow> \<exists>e \<in> set (servers g). covers s e \<and> url = sv_url e \<and> hash = sv_hash e"
  by (auto simp: find_origin_for_def servers_def find_Some_iff simp del: set_map) (metis length_map nth_map nth_mem)

lemma find_origin_none: "find_origin_for s g = None \<longleftrightarrow> (\<forall>e \<in> set (servers g). \<not> covers s e)"
  by (simp add: find_origin_for_def servers_def find_None_iff)

lemma shrink_servers:
  "pool_shrinks g g' \<Longrightarrow> servers g' = servers g" "pool_shrinks g g' \<Longrightarrow> set (gr_available g') \<subseteq> set (gr_available g)"
  by (auto simp: pool_shrinks_def servers_def)

lemma assigns_mono: "assigns accepts g' s m \<Longrightarrow> pool_shrinks g g' \<Longrightarrow> assigns accepts g s m"
  using shrink_servers [of g g'] unfolding assigns_def by (metis subsetD)

lemma assigns_channel: "assigns accepts g s m \<Longrightarrow> pool_ok g \<Longrightarrow> fst m \<in> fst ` set (gr_available g)"
  by (force simp: assigns_def pool_ok_def)

lemma try_assign_gap_sends:
  assumes ok: "pool_ok g" and t: "try_assign_gap accepts s ram g = (sent, g', out)"
  shows "sent \<Longrightarrow> \<exists>m. out = [m] \<and> assigns accepts g s m \<and> fst m \<notin> fst ` set (gr_available g')" "\<not> sent \<Longrightarrow> out = []"
proof -
  show "\<not> sent \<Longrightarrow> out = []"
    using t by (auto simp: try_assign_gap_def try_assign_gap_with_origin_def Let_def split: option.splits prod.splits if_splits)
  assume d: "sent"
  then obtain url hash where o: "find_origin_for s g = Some (url, hash)"
    and w: "try_assign_gap_with_origin accepts s url hash ram g = (True, g', out)"
    using t by (auto simp: try_assign_gap_def split: option.splits prod.splits)
  from w obtain sid a where f: "List.find (\<lambda>(_, e). ram \<le> av_ram e) (gr_available g) = Some (sid, a)"
    and acc: "accepts (av_sender a)" and out: "out = [(av_sender a, AssignMsg s url hash)]"
    and g': "g' = g\<lparr>gr_available := AList.delete sid (gr_available g)\<rparr>"
    by (auto simp: try_assign_gap_with_origin_def Let_def split: option.splits prod.splits if_splits)
  from f have mem: "(sid, a) \<in> set (gr_available g)" by (auto simp: find_Some_iff) (metis nth_mem)
  with ok have "av_sender a = sid" by (auto simp: pool_ok_def)
  then have "av_sender a \<notin> fst ` set (gr_available g')" by (auto simp: g' dest: in_delete)
  moreover have "assigns accepts g s (av_sender a, AssignMsg s url hash)"
    using find_origin_covers [OF o] mem acc by (force simp: assigns_def)
  ultimately show "\<exists>m. out = [m] \<and> assigns accepts g s m \<and> fst m \<notin> fst ` set (gr_available g')"
    by (auto simp: out)
qed

lemma assign_each_sends:
  assumes "pool_ok g" and "assign_each accepts slices g = (n, g', out)"
  shows "n = length out \<and> (\<forall>m \<in> set out. \<exists>s \<in> set slices. assigns accepts g s m) \<and> distinct (map fst out) \<and>
    (distinct slices \<longrightarrow> distinct (map snd out))"
  using assms
proof (induction slices arbitrary: g n g' out)
  case (Cons s slices)
  obtain ok g1 out1 where 1: "try_assign_gap accepts s 0 g = (ok, g1, out1)" by (cases "try_assign_gap accepts s 0 g")
  obtain n2 g2 out2 where 2: "assign_each accepts slices g1 = (n2, g2, out2)" by (cases "assign_each accepts slices g1")
  have n: "n = n2 + of_bool ok" "out = out1 @ out2" using Cons.prems(2) by (simp_all add: 1 2)
  note sh = pool_shrinks_assign [OF 1]
  have p1: "pool_ok g1" by (rule shrink_ok(3) [OF sh Cons.prems(1)])
  note ih = Cons.IH [OF p1 2]
  have ih1: "n2 = length out2" "distinct (map fst out2)" "distinct slices \<Longrightarrow> distinct (map snd out2)" using ih by blast+
  have ih2: "\<exists>s' \<in> set slices. assigns accepts g1 s' m" if "m \<in> set out2" for m using ih that by blast
  have late: "\<exists>s' \<in> set slices. assigns accepts g s' m" if "m \<in> set out2" for m
    using ih2 [OF that] assigns_mono [OF _ sh] by blast
  show ?case
  proof (cases ok)
    case False
    with try_assign_gap_sends(2) [OF Cons.prems(1) 1] have "out1 = []" by simp
    with False ih1 late show ?thesis by (simp add: n)
  next
    case True
    with try_assign_gap_sends(1) [OF Cons.prems(1) 1] obtain m
      where m: "out1 = [m]" "assigns accepts g s m" "fst m \<notin> fst ` set (gr_available g1)" by blast
    have "fst m' \<in> fst ` set (gr_available g1)" if "m' \<in> set out2" for m'
      using ih2 [OF that] assigns_channel [OF _ p1] by (elim bexE)
    with m(3) have "fst m \<notin> fst ` set out2" by (metis imageE)
    moreover have "snd m \<notin> snd ` set out2" if "distinct (s # slices)"
    proof
      assume "snd m \<in> snd ` set out2"
      then obtain m' where "m' \<in> set out2" and eq: "snd m' = snd m" by force
      with ih2 obtain s' where "s' \<in> set slices" "assigns accepts g1 s' m'" by blast
      with that m(2) eq show False by (auto simp: assigns_def)
    qed
    ultimately show ?thesis using True ih1 late m(1,2) by (simp add: n)
  qed
qed simp

text \<open>Nothing is sent for slices that no server holds.\<close>

lemma assign_each_nothing:
  "(\<And>s. s \<in> set slices \<Longrightarrow> find_origin_for s g = None) \<Longrightarrow> assign_each accepts slices g = (0, g, [])"
  by (induction slices) (simp_all add: try_assign_gap_def)

end
