(* ===== verification/GridProperties.thy ===== *)
theory GridProperties
  imports GridReplication
begin

text \<open>
  The properties of the router: its invariant, routing, coverage, replication, and a run in which the
  rebalancer itself removes the last replica.
\<close>

section \<open>Lemmas\<close>

subsection \<open>The replication target is positive\<close>

lemma target_deregister [simp]: "gr_target (deregister sid g) = gr_target g"
  by (simp add: deregister_def Let_def split: option.split)

lemma target_register [simp]: "gr_target (register_with_sender e sid g) = gr_target g"
  by (simp add: register_with_sender_def register_def)

lemma target_heartbeat [simp]: "gr_target (update_heartbeat sid hb now g) = gr_target g"
  by (simp add: update_heartbeat_def split: option.split)

lemma target_rtt [simp]: "gr_target (update_rtt_ms sid ms g) = gr_target g"
  by (simp add: update_rtt_ms_def split: option.split)

lemma target_pool [simp]: "gr_target (register_available e g) = gr_target g" "gr_target (deregister_available sid g) = gr_target g"
  by (simp_all add: register_available_def deregister_available_def)

lemma target_shrink: "pool_shrinks g g' \<Longrightarrow> gr_target g' = gr_target g"
  by (auto simp: pool_shrinks_def)

lemma target_evicted [simp]: "gr_target (foldl (\<lambda>g sid. deregister sid g) g stale) = gr_target g"
  by (induction stale arbitrary: g) simp_all

lemma target_lose: "lose_server accepts sid g = (g', out) \<Longrightarrow> gr_target g' = gr_target g"
  by (simp add: target_shrink [OF lose_server_shrinks])

lemma target_serve: "serve accepts e s st g = (st', g', out) \<Longrightarrow> gr_target g' = gr_target g"
  by (auto simp: serve_def Let_def split: if_splits)

lemma target_message: "handle_message accepts now msg st g = (st', g', out) \<Longrightarrow> gr_target g' = gr_target g"
  by (cases msg) (auto simp: handle_message_def target_lose dest: target_serve split: prod.splits)

lemma target_advance: "stream_advance accepts st g = (st', g', out) \<Longrightarrow> gr_target g' = gr_target g"
  by (cases "st_task st")
    (auto simp: stream_advance_def target_lose target_shrink [OF pool_shrinks_assign] try_replicate_from_available_def
      target_shrink [OF pool_shrinks_each] split: prod.splits list.splits option.splits)

lemma target_step: "router_step r r' out \<Longrightarrow> 0 < gr_target (rt_grid r) \<Longrightarrow> 0 < gr_target (rt_grid r')"
proof (induction rule: router_step.induct)
  case (evict accepts r g out)
  then have "gr_target g = gr_target (rt_grid r)"
    by (auto simp: evict_def try_fill_all_gaps_def target_shrink [OF pool_shrinks_each] split: if_splits prod.splits)
  with evict show ?case by simp
next
  case (replicate accepts r g out)
  then have "gr_target g = gr_target (rt_grid r)"
    by (auto simp: check_under_replication_def try_replicate_from_available_def target_shrink [OF pool_shrinks_each]
        split: prod.splits)
  with replicate show ?case by simp
next
  case (assign accepts model ls le target url hash r ack g out)
  with target_shrink [OF pool_shrinks_range [OF assign(1)]] show ?case by simp
qed (simp_all add: target_message target_advance check_hot_shards_def Let_def set_target_replicas_def)

lemma reachable_target: "reachable r \<Longrightarrow> 0 < gr_target (rt_grid r)"
  by (induction rule: reachable.induct) (auto intro: target_step simp: new_router_def new_grid_def)

subsection \<open>The first of the least\<close>

lemma min_by_sort:
  assumes "cmp_by_key cmp f (set xs)"
  shows "min_by cmp xs = (case sort_key f xs of [] \<Rightarrow> None | x # _ \<Rightarrow> Some x)"
proof (cases xs)
  case (Cons x ys)
  have "foldl (\<lambda>best y. if cmp best y = OrdGreater then y else best) x ys =
      (case sort_key f ys of [] \<Rightarrow> x | z # _ \<Rightarrow> if f z < f x then z else x)" if "cmp_by_key cmp f (set (x # ys))" for x ys
    using that
  proof (induction ys arbitrary: x)
    case (Cons y ys)
    have k: "cmp x y = OrdGreater \<longleftrightarrow> f y < f x" by (rule cmp_by_key_greater [OF Cons.prems]) simp_all
    have "cmp_by_key cmp f (set ((if f y < f x then y else x) # ys))" using Cons.prems by (rule cmp_by_key_mono) auto
    note ih = Cons.IH [OF this]
    show ?case
    proof (cases "sort_key f ys")
      case Nil
      with ih k show ?thesis by auto
    next
      case (Cons z zs)
      with ih k show ?thesis by (auto simp: not_le)
    qed
  qed simp
  from this [of x ys] assms show ?thesis
    by (cases "sort_key f ys") (auto simp: Cons min_by_def not_le)
qed (simp add: min_by_def)

text \<open>A result of routing that is right: the URL of an eligible server with a live stream and the least rank.\<close>

definition best_route :: "(server_entry \<Rightarrow> bool) \<Rightarrow> string option \<Rightarrow> nat \<Rightarrow> router \<Rightarrow> string option \<Rightarrow> bool" where
  "best_route owns model layer r result \<longleftrightarrow>
     (case result of
        None \<Rightarrow> eligible owns model layer (rt_grid r) = []
      | Some url \<Rightarrow> \<exists>e \<in> set (eligible owns model layer (rt_grid r)). sv_url e = url \<and> live (rt_streams r) (sv_id e) \<and>
          (\<forall>e' \<in> set (eligible owns model layer (rt_grid r)). rank_of layer e \<le> rank_of layer e'))"

lemma reachable_grid: "reachable r \<Longrightarrow> keys_ok (rt_grid r) \<and> tables_ok (rt_grid r) \<and> pool_ok (rt_grid r)"
  using reachable_ok by (simp add: router_ok_def grid_ok_def)

lemma server_ids_servers: "keys_ok g \<Longrightarrow> server_ids g = sv_id ` set (servers g)"
  unfolding server_ids_def by (metis ids_of_servers set_map)

lemma reachable_live: "reachable r \<Longrightarrow> e \<in> set (servers (rt_grid r)) \<Longrightarrow> live (rt_streams r) (sv_id e)"
proof -
  assume r: "reachable r" and e: "e \<in> set (servers (rt_grid r))"
  have "sv_id e \<in> server_ids (rt_grid r)"
    using server_ids_servers [of "rt_grid r"] reachable_grid [OF r] e by blast
  with reachable_ok [OF r] show ?thesis unfolding router_ok_def streams_ok_def by blast
qed

lemma eligible_cmp:
  assumes "\<forall>e \<in> set (eligible owns model layer g). measured layer e"
  shows "cmp_by_key (compare_servers layer) (rank_of layer) (set (eligible owns model layer g))"
  by (rule cmp_by_key_mono [OF compare_servers_rank]) (use assms in blast)

lemma route_among_best:
  assumes "reachable r" and "\<forall>e \<in> set (eligible owns model layer (rt_grid r)). measured layer e"
  shows "best_route owns model layer r (route_among owns model layer (rt_grid r))"
proof -
  let ?el = "eligible owns model layer (rt_grid r)"
  have g: "keys_ok (rt_grid r)" "tables_ok (rt_grid r)" using reachable_grid [OF assms(1)] by blast+
  show ?thesis
  proof (cases "min_by (compare_servers layer) ?el")
    case None
    then have "?el = []" by (simp only: min_by_None)
    then show ?thesis by (simp add: best_route_def route_among_min [OF g] min_by_def)
  next
    case (Some e)
    from min_by_Some [OF this eligible_cmp [OF assms(2)]]
    have e: "e \<in> set ?el" "\<forall>x \<in> set ?el. rank_of layer e \<le> rank_of layer x" by blast+
    then have "live (rt_streams r) (sv_id e)" by (intro reachable_live [OF assms(1)]) (simp add: eligible_def)
    with Some e show ?thesis by (auto simp: best_route_def route_among_min [OF g])
  qed
qed

lemma rank_among_sorted:
  assumes "reachable r" and "\<forall>e \<in> set (eligible owns model layer (rt_grid r)). measured layer e"
  shows "rank_among owns model layer mx (rt_grid r) =
      map sv_url (take mx (sort_key (rank_of layer) (eligible owns model layer (rt_grid r))))"
    "route_among owns model layer (rt_grid r) =
      (case rank_among owns model layer (Suc mx) (rt_grid r) of [] \<Rightarrow> None | url # _ \<Rightarrow> Some url)"
proof -
  have g: "keys_ok (rt_grid r)" "tables_ok (rt_grid r)" using reachable_grid [OF assms(1)] by blast+
  note c = eligible_cmp [OF assms(2)]
  show r: "rank_among owns model layer mx (rt_grid r) =
      map sv_url (take mx (sort_key (rank_of layer) (eligible owns model layer (rt_grid r))))" for mx
    by (simp only: rank_among_sort [OF g] sort_by_sort_key [OF c])
  show "route_among owns model layer (rt_grid r) =
      (case rank_among owns model layer (Suc mx) (rt_grid r) of [] \<Rightarrow> None | url # _ \<Rightarrow> Some url)"
    unfolding r route_among_min [OF g] min_by_sort [OF c] by (simp split: list.split)
qed

subsection \<open>Replicas of a slice\<close>

lemma servers_deregister:
  assumes "keys_ok g"
  shows "servers (deregister sid g) = filter (\<lambda>e. sv_id e \<noteq> sid) (servers g)"
proof -
  have keys: "\<forall>(k, e) \<in> set (gr_servers g). sv_id e = k" using assms by (simp add: keys_ok_def)
  have del: "map snd (AList.delete sid xs) = filter (\<lambda>e. sv_id e \<noteq> sid) (map snd xs)"
    if "\<forall>(k, e) \<in> set xs. sv_id e = k" for xs :: "(string \<times> server_entry) list"
    using that by (induction xs) auto
  show ?thesis
  proof (cases "map_of (gr_servers g) sid")
    case None
    then have "sv_id e \<noteq> sid" if "e \<in> set (servers g)" for e
      using that keys_ok_lookup [OF assms, of "sv_id e" e] by auto
    then have "filter (\<lambda>e. sv_id e \<noteq> sid) (servers g) = servers g" by (simp add: filter_id_conv)
    with None show ?thesis by (simp add: deregister_def servers_def)
  next
    case (Some e)
    then have "servers (deregister sid g) = map snd (AList.delete sid (gr_servers g))"
      by (simp add: deregister_def) (simp add: servers_def)
    with del [OF keys] show ?thesis by (simp add: servers_def)
  qed
qed

lemma replicas_deregister:
  assumes "keys_ok g" and "v \<in> set (replicas s g)"
  shows "Suc (length (replicas s (deregister (sv_id v) g))) = length (replicas s g)"
proof -
  have "distinct (map sv_id (servers g))" using assms(1) ids_of_servers by (simp add: keys_ok_def)
  then have d: "distinct (map sv_id (replicas s g))" unfolding replicas_def by (rule distinct_map_filter)
  have "replicas s (deregister (sv_id v) g) = filter (\<lambda>e. sv_id e \<noteq> sv_id v) (replicas s g)"
    by (simp add: replicas_def servers_deregister [OF assms(1)] conj_commute)
  moreover have "Suc (length (filter (\<lambda>e. sv_id e \<noteq> sv_id v) xs)) = length xs" if "distinct (map sv_id xs)" "v \<in> set xs" for xs
    using that
  proof (induction xs)
    case (Cons x xs)
    show ?case
    proof (cases "x = v")
      case True
      with Cons.prems(1) have "sv_id v \<notin> sv_id ` set xs" by simp
      then have "\<forall>e \<in> set xs. sv_id e \<noteq> sv_id v" by (metis imageI)
      with True show ?thesis by (simp add: filter_id_conv [THEN iffD2])
    next
      case False
      with Cons show ?thesis by auto
    qed
  qed simp
  ultimately show ?thesis using d assms(2) by simp
qed

lemma in_map_filter: "y \<in> set (List.map_filter f xs) \<longleftrightarrow> (\<exists>x \<in> set xs. f x = Some y)"
  by (induction xs) (auto simp: List.map_filter_simps split: option.splits)

lemma over_replication_plan_victims:
  assumes "0 < gr_target g"
  shows "(sid, s) \<in> set (over_replication_plan g) \<longleftrightarrow>
    effective_target_for s g < length (replicas s g) \<and> (\<exists>v. least_loaded_in_range s g = Some v \<and> sv_id v = sid)"
proof -
  have "(sid, s) \<in> set (over_replication_plan g) \<longleftrightarrow>
      (\<exists>n. (s, n) \<in> set (over_replicated_ranges g)) \<and> (\<exists>v. least_loaded_in_range s g = Some v \<and> sv_id v = sid)"
    using assms by (force simp: over_replication_plan_def in_map_filter)
  then show ?thesis by (simp add: over_replicated_replicas)
qed

lemma map_filter_keys: "distinct (map fst xs) \<Longrightarrow> (\<And>x y. f x = Some y \<Longrightarrow> snd y = fst x) \<Longrightarrow> distinct (map snd (List.map_filter f xs))"
proof (induction xs)
  case (Cons x xs)
  have "fst x \<notin> snd ` set (List.map_filter f xs)"
  proof
    assume "fst x \<in> snd ` set (List.map_filter f xs)"
    then obtain z y where z: "z \<in> set xs" "f z = Some y" "snd y = fst x" by (auto simp: in_map_filter)
    then have "fst z = fst x" using Cons.prems(2) [of z y] by simp
    moreover have "fst z \<in> fst ` set xs" using z(1) by (rule imageI)
    ultimately show False using Cons.prems(1) by simp
  qed
  with Cons show ?case by (auto simp: List.map_filter_simps split: option.split)
qed (simp add: List.map_filter_simps)

lemma over_replication_plan_distinct: "distinct (map snd (over_replication_plan g))"
  unfolding over_replication_plan_def
  by (auto intro!: map_filter_keys [OF distinct_slices(2)])

subsection \<open>Runs\<close>

inductive router_run :: "router \<Rightarrow> router \<Rightarrow> sent \<Rightarrow> bool" where
  stay: "router_run r r []"
| go: "router_run r r' out \<Longrightarrow> router_step r' r'' out' \<Longrightarrow> router_run r r'' (out @ out')"

inductive_cases router_run_cases: "router_run r r' out"

lemma run_reachable: "router_run r r' out \<Longrightarrow> reachable r \<Longrightarrow> reachable r'"
  by (induction rule: router_run.induct) (auto intro: reachable.step)

text \<open>A run given by its actions, on channels that take every message.\<close>

datatype action = DoJoin string | DoSay nat string server_message | DoPlan | DoDrop

definition act :: "action \<Rightarrow> router \<Rightarrow> (router \<times> sent) option" where
  "act a r =
     (case a of
        DoJoin sid \<Rightarrow>
          (if map_of (rt_streams r) sid = None then Some (r\<lparr>rt_streams := (sid, open_stream sid) # rt_streams r\<rparr>, []) else None)
      | DoSay now sid msg \<Rightarrow>
          (case map_of (rt_streams r) sid of
             None \<Rightarrow> None
           | Some st \<Rightarrow>
               if st_task st = Reading then
                 (case handle_message (\<lambda>_. True) now msg st (rt_grid r) of (st', g, out) \<Rightarrow>
                    Some (r\<lparr>rt_grid := g, rt_streams := AList.update sid st' (rt_streams r)\<rparr>, out))
               else None)
      | DoPlan \<Rightarrow> (if rt_plan r = [] then Some (r\<lparr>rt_plan := over_replication_plan (rt_grid r)\<rparr>, []) else None)
      | DoDrop \<Rightarrow>
          (case rt_plan r of
             [] \<Rightarrow> None
           | victim # plan \<Rightarrow>
               Some (r\<lparr>rt_plan := plan\<rparr>, check_over_replication (\<lambda>_. True) [victim] (rt_grid r))))"

lemma act_step: "act a r = Some (r', out) \<Longrightarrow> router_step r r' out"
proof (cases a)
  case (DoJoin sid)
  assume "act a r = Some (r', out)"
  with DoJoin have n: "map_of (rt_streams r) sid = None" and r: "r' = r\<lparr>rt_streams := (sid, open_stream sid) # rt_streams r\<rparr>" "out = []"
    by (auto simp: act_def split: if_splits)
  from n have "sid \<notin> fst ` set (rt_streams r)" by (simp only: map_of_eq_None_iff not_False_eq_True)
  then show ?thesis unfolding r by (rule router_step.join)
next
  case (DoSay now sid msg)
  assume "act a r = Some (r', out)"
  with DoSay obtain st st' g where "map_of (rt_streams r) sid = Some st" "st_task st = Reading"
    "handle_message (\<lambda>_. True) now msg st (rt_grid r) = (st', g, out)"
    and r: "r' = r\<lparr>rt_grid := g, rt_streams := AList.update sid st' (rt_streams r)\<rparr>"
    by (auto simp: act_def split: option.splits if_splits prod.splits)
  then show ?thesis unfolding r by (intro router_step.message)
next
  case DoPlan
  assume "act a r = Some (r', out)"
  with DoPlan show ?thesis by (auto simp: act_def intro: router_step.plan_drops split: if_splits)
next
  case DoDrop
  assume "act a r = Some (r', out)"
  with DoDrop show ?thesis by (auto simp: act_def intro: router_step.drop_replica split: list.splits)
qed

fun run_acts :: "action list \<Rightarrow> router \<Rightarrow> (router \<times> sent) option" where
  "run_acts [] r = Some (r, [])"
| "run_acts (a # as) r =
     (case act a r of
        None \<Rightarrow> None
      | Some (r', out) \<Rightarrow> map_option (\<lambda>(r'', out'). (r'', out @ out')) (run_acts as r'))"

lemma run_acts_run:
  "run_acts as r = Some (r', out) \<Longrightarrow> router_run r0 r out0 \<Longrightarrow> router_run r0 r' (out0 @ out)"
proof (induction as arbitrary: r out out0)
  case (Cons a as)
  then obtain r1 out1 out2 where 1: "act a r = Some (r1, out1)" "run_acts as r1 = Some (r', out2)" "out = out1 @ out2"
    by (auto split: option.splits prod.splits)
  from Cons.IH [OF 1(2) router_run.go [OF Cons.prems(2) act_step [OF 1(1)]]] show ?case by (simp add: 1(3))
qed simp

lemmas run_defs = act_def handle_message_def serve_def register_with_sender_def register_def new_router_def new_grid_def
  announced_def registered_as_def open_stream_def over_replication_plan_def over_replicated_ranges_def slice_counts_def
  slice_of_def effective_target_for_def List.map_filter_simps least_loaded_in_range_def min_by_def nat_cmp_def
  check_over_replication_def update_heartbeat_def beat_def lose_server_def deregister_def try_fill_all_gaps_def
  coverage_gaps_def ranges_by_model_def alist_push_def try_replicate_from_available_def under_replicated_ranges_def
  try_assign_gap_def find_origin_for_def

subsection \<open>A concrete router\<close>

definition demo_acts :: "action list" where
  "demo_acts =
     [DoJoin ''a'', DoJoin ''b'', DoJoin ''c'', DoSay 0 ''a'' (Announce (''m'', 0, 9, 0, 0) ''ua'' ''h'' 1),
      DoSay 0 ''b'' (Announce (''m'', 0, 9, 0, 0) ''ub'' ''h'' 1), DoSay 0 ''c'' (Announce (''m'', 12, 15, 0, 0) ''uc'' ''h'' 1)]"

definition demo_router :: router where
  "demo_router = (case run_acts demo_acts new_router of Some (r, _) \<Rightarrow> r | None \<Rightarrow> new_router)"

definition demo_servers :: "server_entry list" where
  "demo_servers = [announced ''a'' (''m'', 0, 9, 0, 0) ''ua'' ''h'' 1 0, announced ''b'' (''m'', 0, 9, 0, 0) ''ub'' ''h'' 1 0,
     announced ''c'' (''m'', 12, 15, 0, 0) ''uc'' ''h'' 1 0]"

lemma demo_run: "map_option (\<lambda>(r, out). (servers (rt_grid r), gr_target (rt_grid r), gr_ceiling (rt_grid r), gr_elevated (rt_grid r)))
    (run_acts demo_acts new_router) = Some (demo_servers, 1, None, {})"
  by (simp add: run_defs demo_acts_def demo_servers_def servers_def Let_def)

lemma demo_router_state: "servers (rt_grid demo_router) = demo_servers" "gr_target (rt_grid demo_router) = 1"
  "gr_ceiling (rt_grid demo_router) = None" "gr_elevated (rt_grid demo_router) = {}" and demo_reachable: "reachable demo_router"
proof -
  from demo_run obtain r out where r: "run_acts demo_acts new_router = Some (r, out)" by auto
  then have d: "demo_router = r" by (simp add: demo_router_def)
  from demo_run show "servers (rt_grid demo_router) = demo_servers" "gr_target (rt_grid demo_router) = 1"
    "gr_ceiling (rt_grid demo_router) = None" "gr_elevated (rt_grid demo_router) = {}" by (simp_all add: r d)
  show "reachable demo_router" unfolding d
    using run_reachable [OF run_acts_run [OF r router_run.stay] reachable.start] .
qed

lemma demo_fits: "layers_fit (rt_grid demo_router)"
  by (simp add: layers_fit_def demo_router_state demo_servers_def announced_def)

lemma demo_measured: "\<forall>e \<in> set (eligible (\<lambda>_. True) (Some ''m'') 3 (rt_grid demo_router)). measured 3 e"
  by (simp add: eligible_def demo_router_state demo_servers_def announced_def measured_def)

section \<open>The router\<close>

text \<open>
  C21. In every state that the router can reach, the routing tables list for every layer exactly the registered
  servers that serve it, in the order of the registrations; there is a channel for exactly the registered
  servers; and every registered server has a stream that is still served: once a stream is closed, its server is
  in no table.
\<close>

theorem router_invariant:
  assumes "reachable r"
  shows "owner_ids model layer (rt_grid r) =
      some_unless_empty (map sv_id (filter (serves model layer) (servers (rt_grid r)))) \<and>
    (gr_senders (rt_grid r) sid = Some chan \<longleftrightarrow> chan = sid \<and> (\<exists>e \<in> set (servers (rt_grid r)). sv_id e = sid)) \<and>
    distinct (map sv_id (servers (rt_grid r))) \<and>
    (\<forall>e \<in> set (servers (rt_grid r)). \<exists>st. map_of (rt_streams r) (sv_id e) = Some st \<and>
      st_registered st \<noteq> None \<and> st_task st \<noteq> Closed)"
proof (intro conjI ballI)
  have g: "keys_ok (rt_grid r)" "tables_ok (rt_grid r)" using reachable_grid [OF assms] by blast+
  show "owner_ids model layer (rt_grid r) = some_unless_empty (map sv_id (filter (serves model layer) (servers (rt_grid r))))"
    by (rule owner_ids_serving [OF g(2)])
  have "gr_senders (rt_grid r) = (\<lambda>sid. if sid \<in> server_ids (rt_grid r) then Some sid else None)"
    using reachable_ok [OF assms] by (simp add: router_ok_def grid_ok_def)
  then show "gr_senders (rt_grid r) sid = Some chan \<longleftrightarrow> chan = sid \<and> (\<exists>e \<in> set (servers (rt_grid r)). sv_id e = sid)"
    by (auto simp: server_ids_servers [OF g(1)])
  show "distinct (map sv_id (servers (rt_grid r)))" using g(1) ids_of_servers by (simp add: keys_ok_def)
  fix e assume "e \<in> set (servers (rt_grid r))"
  from reachable_live [OF assms this]
  show "\<exists>st. map_of (rt_streams r) (sv_id e) = Some st \<and> st_registered st \<noteq> None \<and> st_task st \<noteq> Closed"
    by (auto simp: live_def serving_def split: option.splits)
qed

lemma router_invariant_witness:
  "owner_ids (Some ''m'') 3 (rt_grid demo_router) = Some [''a'', ''b''] \<and> gr_senders (rt_grid demo_router) ''c'' = Some ''c''"
  using router_invariant [OF demo_reachable, of "Some ''m''" 3 "''c''" "''c''"]
  by (simp add: demo_router_state demo_servers_def announced_def serves_def some_unless_empty_def)

text \<open>
  C22. When no latency or round trip of an eligible server is a NaN, routing (for a layer, or for a layer and an
  expert) gives the URL of a registered server that owns the layer (and the expert), is below the saturation
  ceiling, has a live stream and has the least rank, where a measured latency precedes a round-trip time and
  that precedes the load; there is no result only when no server is eligible. The ranked routes are the eligible
  servers sorted by rank, and the single route is the first of them.
\<close>

theorem routing_best:
  assumes "reachable r"
    and "\<forall>e \<in> set (eligible (\<lambda>_. True) model layer (rt_grid r)). measured layer e"
  shows "best_route (\<lambda>_. True) model layer r (route model layer (rt_grid r)) \<and>
    best_route (\<lambda>e. owns_expert e expert) model layer r (route_expert model layer expert (rt_grid r)) \<and>
    route_with_rank model layer mx (rt_grid r) =
      map sv_url (take mx (sort_key (rank_of layer) (eligible (\<lambda>_. True) model layer (rt_grid r)))) \<and>
    route_expert_with_rank model layer expert mx (rt_grid r) =
      map sv_url (take mx (sort_key (rank_of layer) (eligible (\<lambda>e. owns_expert e expert) model layer (rt_grid r)))) \<and>
    route model layer (rt_grid r) =
      (case route_with_rank model layer (Suc mx) (rt_grid r) of [] \<Rightarrow> None | url # _ \<Rightarrow> Some url) \<and>
    route_expert model layer expert (rt_grid r) =
      (case route_expert_with_rank model layer expert (Suc mx) (rt_grid r) of [] \<Rightarrow> None | url # _ \<Rightarrow> Some url)"
proof -
  have expert: "\<forall>e \<in> set (eligible (\<lambda>e. owns_expert e expert) model layer (rt_grid r)). measured layer e"
    using assms(2) by (auto simp: eligible_def)
  note best = route_among_best [OF assms] route_among_best [OF assms(1) expert]
  note rank = rank_among_sorted [OF assms] rank_among_sorted [OF assms(1) expert]
  show ?thesis unfolding route_def route_expert_def route_with_rank_def route_expert_with_rank_def
    by (intro conjI best rank)
qed

lemma routing_best_witness:
  "best_route (\<lambda>_. True) (Some ''m'') 3 demo_router (route (Some ''m'') 3 (rt_grid demo_router)) \<and>
   route_with_rank (Some ''m'') 3 5 (rt_grid demo_router) = [''ua'', ''ub'']"
proof -
  note best = routing_best [OF demo_reachable demo_measured, of 0 5]
  have "route_with_rank (Some ''m'') 3 5 (rt_grid demo_router) =
      map sv_url (take 5 (sort_key (rank_of 3) (eligible (\<lambda>_. True) (Some ''m'') 3 (rt_grid demo_router))))"
    using best by (elim conjE)
  also have "\<dots> = [''ua'', ''ub'']"
    by (simp add: eligible_def demo_router_state demo_servers_def announced_def serves_def below_ceiling_def rank_of_def)
  finally show ?thesis using best by (elim conjE) (intro conjI)
qed

text \<open>
  Every layer that no server of a model serves, with a server of the model that starts below it and one that
  starts above it, is in a reported gap. When of two servers of a model the one that starts later never ends
  earlier, a reported gap has only such layers. Whatever is sent to fill gaps goes to a different spare each
  time and is the assignment of a gap that one registered server holds in full; so a gap that is really
  missing is never filled, and without nesting nothing is ever done.
\<close>

theorem gap_filling:
  assumes "reachable r" and "layers_fit (rt_grid r)"
  shows "(\<forall>x \<in> set (servers (rt_grid r)). \<forall>y \<in> set (servers (rt_grid r)).
      sv_model x = model \<and> sv_model y = model \<and> sv_layer_start x \<le> l \<and> l < sv_layer_start y \<and> \<not> served model l (rt_grid r) \<longrightarrow>
      (\<exists>a b. (model, a, b) \<in> set (coverage_gaps (rt_grid r)) \<and> a \<le> l \<and> l \<le> b)) \<and>
    (unnested model (rt_grid r) \<and> (model, a, b) \<in> set (coverage_gaps (rt_grid r)) \<longrightarrow>
      a \<le> b \<and> (\<forall>l. a \<le> l \<and> l \<le> b \<longrightarrow> \<not> served model l (rt_grid r))) \<and>
    (case try_fill_all_gaps accepts (rt_grid r) of (n, g, out) \<Rightarrow>
      n = length out \<and> distinct (map fst out) \<and>
      (\<forall>m \<in> set out. \<exists>model a b. (model, a, b) \<in> set (coverage_gaps (rt_grid r)) \<and>
         assigns accepts (rt_grid r) (model, a, b, 0, 0) m)) \<and>
    ((\<forall>model. unnested model (rt_grid r)) \<longrightarrow> try_fill_all_gaps accepts (rt_grid r) = (0, rt_grid r, []))"
proof -
  let ?g = "rt_grid r"
  obtain n g out where f: "try_fill_all_gaps accepts ?g = (n, g, out)" by (cases "try_fill_all_gaps accepts ?g")
  have p: "pool_ok ?g" using reachable_grid [OF assms(1)] by blast
  note sends = assign_each_sends [OF p f [unfolded try_fill_all_gaps_def]]
  have held: "\<exists>model a b. (model, a, b) \<in> set (coverage_gaps ?g) \<and> assigns accepts ?g (model, a, b, 0, 0) m"
    if "m \<in> set out" for m using sends [THEN conjunct2, THEN conjunct1, rule_format, OF that] by auto
  have "try_fill_all_gaps accepts ?g = (0, ?g, [])" if u: "\<forall>model. unnested model ?g"
    unfolding try_fill_all_gaps_def
  proof (rule assign_each_nothing)
    fix s :: slice assume "s \<in> set (map (\<lambda>(model, a, b). (model, a, b, 0, 0)) (coverage_gaps ?g))"
    then obtain model a b where s: "s = (model, a, b, 0, 0)" "(model, a, b) \<in> set (coverage_gaps ?g)" by auto
    have "a \<le> b" "\<not> served model a ?g" using gaps_exact [OF assms(2) _ s(2)] u by auto
    then show "find_origin_for s ?g = None"
      unfolding find_origin_none by (fastforce simp: covers_def s(1) served_def serves_def)
  qed
  with gaps_complete [OF assms(2), of model l] gaps_exact [OF assms(2), of model a b] sends held
  show ?thesis unfolding f by (intro conjI) (blast | simp)+
qed

lemma gap_filling_witness:
  "\<exists>a b. (''m'', a, b) \<in> set (coverage_gaps (rt_grid demo_router)) \<and> a \<le> 10 \<and> 10 \<le> b"
proof -
  let ?s = "servers (rt_grid demo_router)"
  have "announced ''a'' (''m'', 0, 9, 0, 0) ''ua'' ''h'' 1 0 \<in> set ?s" "announced ''c'' (''m'', 12, 15, 0, 0) ''uc'' ''h'' 1 0 \<in> set ?s"
    "\<not> served ''m'' 10 (rt_grid demo_router)"
    by (simp_all add: demo_router_state demo_servers_def served_def serves_def announced_def)
  with gap_filling [OF demo_reachable demo_fits, of "''m''" 10, THEN conjunct1, rule_format, OF this(1,2)]
  show ?thesis by (simp add: announced_def)
qed

text \<open>
  C36. The replication tick assigns only slices with at least one replica and fewer than the effective target, at
  most once each, from a registered origin that holds the slice to different spares. The victims of
  over-replication are, for each slice with more replicas than the effective target and once each, a replica
  with the least load; without the victim the slice still has at least the effective target of replicas,
  which is at least one.
\<close>

theorem replication_ticks:
  assumes "reachable r" and "gr_target (rt_grid r) + 1 < 2 ^ 32"
  shows "(case check_under_replication accepts (rt_grid r) of (g, out) \<Rightarrow>
      distinct (map fst out) \<and> distinct (map snd out) \<and>
      (\<forall>m \<in> set out. \<exists>s. replicas s (rt_grid r) \<noteq> [] \<and>
         length (replicas s (rt_grid r)) < effective_target_for s (rt_grid r) \<and> assigns accepts (rt_grid r) s m)) \<and>
    distinct (map snd (over_replication_plan (rt_grid r))) \<and>
    ((\<exists>sid. (sid, s) \<in> set (over_replication_plan (rt_grid r))) \<longleftrightarrow>
      effective_target_for s (rt_grid r) < length (replicas s (rt_grid r))) \<and>
    (\<forall>(sid, s) \<in> set (over_replication_plan (rt_grid r)). 0 < effective_target_for s (rt_grid r) \<and>
      effective_target_for s (rt_grid r) \<le> length (replicas s (deregister sid (rt_grid r))) \<and>
      (\<exists>v \<in> set (replicas s (rt_grid r)). sv_id v = sid \<and>
        (\<forall>e \<in> set (replicas s (rt_grid r)). sv_in_flight v \<le> sv_in_flight e)))"
proof -
  let ?g = "rt_grid r"
  have g: "keys_ok ?g" "pool_ok ?g" using reachable_grid [OF assms(1)] by blast+
  note t = reachable_target [OF assms(1)]
  obtain n g' out where f: "try_replicate_from_available accepts ?g = (n, g', out)"
    by (cases "try_replicate_from_available accepts ?g")
  note sends = assign_each_sends [OF g(2) f [unfolded try_replicate_from_available_def]]
  have "distinct (map snd out)" "distinct (map fst out)" using sends distinct_slices(1) by blast+
  moreover have "\<exists>s. replicas s ?g \<noteq> [] \<and> length (replicas s ?g) < effective_target_for s ?g \<and> assigns accepts ?g s m"
    if "m \<in> set out" for m
  proof -
    note s = sends [THEN conjunct2, THEN conjunct1, rule_format, OF that]
    from s obtain s where s: "s \<in> set (map fst (under_replicated_ranges ?g))" "assigns accepts ?g s m" by (elim bexE)
    then obtain d where "(s, d) \<in> set (under_replicated_ranges ?g)" by auto
    with s(2) show ?thesis by (intro exI [of _ s]) (simp add: under_replicated_replicas)
  qed
  moreover have "(\<exists>sid. (sid, s) \<in> set (over_replication_plan ?g)) \<longleftrightarrow> effective_target_for s ?g < length (replicas s ?g)"
    using least_loaded_exists [of s ?g] by (cases "replicas s ?g") (auto simp: over_replication_plan_victims [OF t])
  moreover have "0 < effective_target_for s ?g \<and> effective_target_for s ?g \<le> length (replicas s (deregister sid ?g)) \<and>
      (\<exists>v \<in> set (replicas s ?g). sv_id v = sid \<and> (\<forall>e \<in> set (replicas s ?g). sv_in_flight v \<le> sv_in_flight e))"
    if plan: "(sid, s) \<in> set (over_replication_plan ?g)" for sid s
  proof -
    from plan obtain v where more: "effective_target_for s ?g < length (replicas s ?g)"
      and v: "least_loaded_in_range s ?g = Some v" "sv_id v = sid" by (auto simp: over_replication_plan_victims [OF t])
    note least = least_loaded_min [OF v(1)]
    have "Suc (length (replicas s (deregister sid ?g))) = length (replicas s ?g)"
      using replicas_deregister [OF g(1)] least v(2) by blast
    moreover have "0 < effective_target_for s ?g" using t assms(2) by (simp add: effective_target_for_def)
    ultimately show ?thesis using more least v(2) by auto
  qed
  ultimately show ?thesis using over_replication_plan_distinct [of ?g]
    by (simp add: check_under_replication_def f) blast
qed

lemma replication_ticks_witness:
  "\<exists>sid. (sid, (''m'', 0, 9, 0, 0)) \<in> set (over_replication_plan (rt_grid demo_router))"
  using replication_ticks [OF demo_reachable, of "\<lambda>_. True" "(''m'', 0, 9, 0, 0)", THEN conjunct2, THEN conjunct2, THEN conjunct1]
  by (simp add: demo_router_state demo_servers_def announced_def replicas_def slice_of_def effective_target_for_def)

definition over_replication_acts :: "action list" where
  "over_replication_acts =
     [DoJoin ''a'', DoJoin ''b'', DoSay 0 ''a'' (Announce (''m'', 0, 9, 0, 0) ''ua'' ''h'' 1),
      DoSay 0 ''b'' (Announce (''m'', 0, 9, 0, 0) ''ub'' ''h'' 1), DoPlan, DoDrop,
      DoSay 1 ''a'' (Heartbeat \<lparr>hb_cpu = 0, hb_ram = 1, hb_in_flight = 1, hb_layer_stats = [], hb_rate = 0\<rparr>), DoPlan, DoDrop,
      DoSay 2 ''a'' Dropping, DoSay 2 ''b'' Dropping]"

text \<open>
  A run from the start in which two servers announce the same slice, with a target of one replica, and the
  over-replication tick comes twice before the first victim has left: both are told to leave, both leave, and
  no server is left, although no server failed and no stream was closed.
\<close>

theorem over_replication_drops_all:
  "\<exists>r. router_run new_router r
      [(''a'', AckMsg ''a''), (''b'', AckMsg ''b''), (''a'', UnassignMsg ''m'' 0 9 ''over_replicated''),
       (''b'', UnassignMsg ''m'' 0 9 ''over_replicated'')] \<and>
    gr_target (rt_grid r) = 1 \<and> servers (rt_grid r) = [] \<and> map (\<lambda>(sid, st). (sid, st_task st)) (rt_streams r) = [(''b'', Reading), (''a'', Reading)]"
proof -
  have "map_option (\<lambda>(r, out). (gr_target (rt_grid r), servers (rt_grid r), map (\<lambda>(sid, st). (sid, st_task st)) (rt_streams r), out))
      (run_acts over_replication_acts new_router) =
    Some (1, [], [(''b'', Reading), (''a'', Reading)],
      [(''a'', AckMsg ''a''), (''b'', AckMsg ''b''), (''a'', UnassignMsg ''m'' 0 9 ''over_replicated''),
       (''b'', UnassignMsg ''m'' 0 9 ''over_replicated'')])"
    by (simp add: run_defs over_replication_acts_def servers_def Let_def)
  then obtain r out where "run_acts over_replication_acts new_router = Some (r, out)"
    and "(gr_target (rt_grid r), servers (rt_grid r), map (\<lambda>(sid, st). (sid, st_task st)) (rt_streams r), out) =
      (1, [], [(''b'', Reading), (''a'', Reading)],
      [(''a'', AckMsg ''a''), (''b'', AckMsg ''b''), (''a'', UnassignMsg ''m'' 0 9 ''over_replicated''),
       (''b'', UnassignMsg ''m'' 0 9 ''over_replicated'')])" by auto
  with run_acts_run [OF this(1) router_run.stay] show ?thesis by auto
qed

end
