(* ===== verification/VindexFormat.thy ===== *)
theory VindexFormat
  imports Bytes "HOL-Library.AList"
begin

text \<open>
  Patches of a vindex (\<open>crates/larql-vindex/src/patch/format.rs\<close>): the operations, and the base64 text in which
  their vectors are stored. The bytes of a text or a buffer are characters; a vector is a list of
  single-precision bit patterns.
\<close>

section \<open>Patches\<close>

record patch_down_meta =
  pd_top_token :: string
  pd_top_token_id :: u32
  pd_c_score :: f32

datatype patch_op =
    OpInsert (op_layer: nat) (op_feature: nat) (op_relation: "string option") (op_entity: string) (op_target: string)
      (op_confidence: "f32 option") (op_gate: "string option") (op_up: "string option") (op_down: "string option")
      (op_meta: "patch_down_meta option")
  | OpUpdate (op_layer: nat) (op_feature: nat) (op_gate: "string option") (op_up: "string option")
      (op_down: "string option") (op_meta: "patch_down_meta option")
  | OpDelete (op_layer: nat) (op_feature: nat) (op_reason: "string option")
  | OpInsertKnn (op_layer: nat) (op_entity: string) (op_knn_relation: string) (op_target: string) (op_target_id: u32)
      (op_confidence: "f32 option") (op_key_vector: string)
  | OpDeleteKnn (op_entity: string)

record vindex_patch =
  vp_version :: nat
  vp_base_model :: string
  vp_base_checksum :: "string option"
  vp_created_at :: string
  vp_description :: "string option"
  vp_author :: "string option"
  vp_tags :: "string list"
  vp_operations :: "patch_op list"

definition op_key :: "patch_op \<Rightarrow> (nat \<times> nat) option" where
  "op_key op =
     (case op of
        OpInsert layer feature _ _ _ _ _ _ _ _ \<Rightarrow> Some (layer, feature)
      | OpUpdate layer feature _ _ _ _ \<Rightarrow> Some (layer, feature)
      | OpDelete layer feature _ \<Rightarrow> Some (layer, feature)
      | OpInsertKnn _ _ _ _ _ _ _ \<Rightarrow> None
      | OpDeleteKnn _ \<Rightarrow> None)"

definition patch_len :: "vindex_patch \<Rightarrow> nat" where
  "patch_len p = length (vp_operations p)"

definition patch_is_empty :: "vindex_patch \<Rightarrow> bool" where
  "patch_is_empty p \<longleftrightarrow> vp_operations p = []"

definition patch_counts :: "vindex_patch \<Rightarrow> nat \<times> nat \<times> nat" where
  "patch_counts p =
     foldl (\<lambda>(ins, upd, del) op.
       case op of
         OpInsert _ _ _ _ _ _ _ _ _ _ \<Rightarrow> (ins + 1, upd, del)
       | OpInsertKnn _ _ _ _ _ _ _ \<Rightarrow> (ins + 1, upd, del)
       | OpUpdate _ _ _ _ _ _ \<Rightarrow> (ins, upd + 1, del)
       | OpDelete _ _ _ \<Rightarrow> (ins, upd, del + 1)
       | OpDeleteKnn _ \<Rightarrow> (ins, upd, del + 1)) (0, 0, 0) (vp_operations p)"

section \<open>Base64\<close>

definition base64_chars :: string where
  "base64_chars = ''ABCDEFGHIJKLMNOPQRSTUVWXYZabcdefghijklmnopqrstuvwxyz0123456789+/''"

text \<open>A sextet of the three bytes of a group; a missing byte counts as zero.\<close>

definition sextet :: "nat \<Rightarrow> nat \<Rightarrow> char" where
  "sextet shift triple = base64_chars ! (triple div 2 ^ shift mod 64)"

fun base64_encode :: "string \<Rightarrow> string" where
  "base64_encode [] = []"
| "base64_encode [a] = (let t = byte a * 2 ^ 16 in [sextet 18 t, sextet 12 t, CHR ''='', CHR ''=''])"
| "base64_encode [a, b] = (let t = byte a * 2 ^ 16 + byte b * 2 ^ 8 in [sextet 18 t, sextet 12 t, sextet 6 t, CHR ''=''])"
| "base64_encode (a # b # c # rest) =
     (let t = byte a * 2 ^ 16 + byte b * 2 ^ 8 + byte c in
      [sextet 18 t, sextet 12 t, sextet 6 t, sextet 0 t] @ base64_encode rest)"

datatype vector_error = InvalidBase64 char | NotAligned

definition base64_val :: "char \<Rightarrow> vector_error + nat" where
  "base64_val c =
     (let n = byte c in
      if 65 \<le> n \<and> n \<le> 90 then Inr (n - 65)
      else if 97 \<le> n \<and> n \<le> 122 then Inr (n - 97 + 26)
      else if 48 \<le> n \<and> n \<le> 57 then Inr (n - 48 + 52)
      else if c = CHR ''+'' then Inr 62
      else if c = CHR ''/'' then Inr 63
      else if c = CHR ''='' then Inr 0
      else Inl (InvalidBase64 c))"

text \<open>A group of fewer than four characters at the end is dropped.\<close>

fun base64_decode :: "string \<Rightarrow> vector_error + string" where
  "base64_decode (c0 # c1 # c2 # c3 # rest) =
     res_bind (base64_val c0) (\<lambda>a. res_bind (base64_val c1) (\<lambda>b. res_bind (base64_val c2) (\<lambda>c. res_bind (base64_val c3) (\<lambda>d.
       let t = a * 2 ^ 18 + b * 2 ^ 12 + c * 2 ^ 6 + d;
           bytes = [char_of (t div 2 ^ 16 mod 256)] @
             (if c2 \<noteq> CHR ''='' then [char_of (t div 2 ^ 8 mod 256)] else []) @
             (if c3 \<noteq> CHR ''='' then [char_of (t mod 256)] else [])
       in res_bind (base64_decode rest) (\<lambda>more. Inr (bytes @ more))))))"
| "base64_decode _ = Inr []"

section \<open>Vectors\<close>

definition f32_bytes :: "f32 \<Rightarrow> string" where
  "f32_bytes x = le_bytes 4 (unat x)"

fun f32s_of_bytes :: "string \<Rightarrow> f32 list" where
  "f32s_of_bytes (a # b # c # d # rest) = word_of_nat (of_le [a, b, c, d]) # f32s_of_bytes rest"
| "f32s_of_bytes _ = []"

definition encode_gate_vector :: "f32 list \<Rightarrow> string" where
  "encode_gate_vector v = base64_encode (concat (map f32_bytes v))"

definition decode_gate_vector :: "string \<Rightarrow> vector_error + f32 list" where
  "decode_gate_vector b64 =
     res_bind (base64_decode b64) (\<lambda>bytes.
       if length bytes mod 4 \<noteq> 0 then Inl NotAligned else Inr (f32s_of_bytes bytes))"

section \<open>Round trips\<close>

lemma base64_alphabet: "list_all2 (\<lambda>i c. base64_val c = Inr i \<and> c \<noteq> CHR ''='') [0..<64] base64_chars"
  by (simp add: base64_chars_def base64_val_def upt_rec)

lemma base64_val_sextet [simp]:
  "base64_val (sextet k t) = Inr (t div 2 ^ k mod 64)" "sextet k t \<noteq> CHR ''=''"
  using list_all2_nthD [OF base64_alphabet, of "t div 2 ^ k mod 64"] by (simp_all add: sextet_def)

lemma base64_val_pad [simp]: "base64_val CHR ''='' = Inr 0"
  by (simp add: base64_val_def)

lemma sextets_join:
  fixes t :: nat
  assumes "t < 16777216"
  shows "t div 2 ^ 18 mod 64 * 2 ^ 18 + t div 2 ^ 12 mod 64 * 2 ^ 12 + t div 2 ^ 6 mod 64 * 2 ^ 6 + t div 2 ^ 0 mod 64 = t"
proof -
  have "t div 262144 < 64" using assms by simp
  then have "t div 262144 mod 64 = t div 262144" by simp
  moreover have "t div 4096 = t div 262144 * 64 + t div 4096 mod 64"
    using div_mult_mod_eq [of "t div 4096" 64] by (simp add: div_mult2_eq [symmetric])
  moreover have "t div 64 = t div 4096 * 64 + t div 64 mod 64"
    using div_mult_mod_eq [of "t div 64" 64] by (simp add: div_mult2_eq [symmetric])
  moreover have "t = t div 64 * 64 + t mod 64" by simp
  ultimately have "t div 262144 mod 64 * 262144 + t div 4096 mod 64 * 4096 + t div 64 mod 64 * 64 + t mod 64 = t" by linarith
  moreover have "(2 :: nat) ^ 18 = 262144" "(2 :: nat) ^ 12 = 4096" "(2 :: nat) ^ 6 = 64" "(2 :: nat) ^ 0 = 1" by simp_all
  ultimately show ?thesis by (simp only: div_by_1)
qed

text \<open>A group of characters is decoded to the bytes of its triple.\<close>

lemmas decode_simps = base64_decode.simps base64_val_sextet base64_val_pad res_bind_simps Let_def simp_thms if_True if_False append.simps

lemma decode_group:
  fixes t :: nat
  assumes "t < 16777216"
  shows "base64_decode (sextet 18 t # sextet 12 t # sextet 6 t # sextet 0 t # rest) =
      res_bind (base64_decode rest) (\<lambda>more.
        Inr ([char_of (t div 2 ^ 16 mod 256), char_of (t div 2 ^ 8 mod 256), char_of (t mod 256)] @ more))"
    and "t mod 64 = 0 \<Longrightarrow> base64_decode [sextet 18 t, sextet 12 t, sextet 6 t, CHR ''=''] =
      Inr [char_of (t div 2 ^ 16 mod 256), char_of (t div 2 ^ 8 mod 256)]"
    and "t mod 4096 = 0 \<Longrightarrow> base64_decode [sextet 18 t, sextet 12 t, CHR ''='', CHR ''=''] = Inr [char_of (t div 2 ^ 16 mod 256)]"
proof -
  note j = sextets_join [OF assms]
  show "base64_decode (sextet 18 t # sextet 12 t # sextet 6 t # sextet 0 t # rest) =
      res_bind (base64_decode rest) (\<lambda>more.
        Inr ([char_of (t div 2 ^ 16 mod 256), char_of (t div 2 ^ 8 mod 256), char_of (t mod 256)] @ more))"
    by (simp only: decode_simps j)
  show "base64_decode [sextet 18 t, sextet 12 t, sextet 6 t, CHR ''=''] =
      Inr [char_of (t div 2 ^ 16 mod 256), char_of (t div 2 ^ 8 mod 256)]" if z: "t mod 64 = 0"
  proof -
    have "t div 2 ^ 0 mod 64 = 0" using z by simp
    with j have "t div 2 ^ 18 mod 64 * 2 ^ 18 + t div 2 ^ 12 mod 64 * 2 ^ 12 + t div 2 ^ 6 mod 64 * 2 ^ 6 + 0 = t" by (simp only:)
    then show ?thesis by (simp only: decode_simps)
  qed
  show "base64_decode [sextet 18 t, sextet 12 t, CHR ''='', CHR ''=''] = Inr [char_of (t div 2 ^ 16 mod 256)]" if z: "t mod 4096 = 0"
  proof -
    obtain k where k: "t = 4096 * k" using z by (auto simp: mod_eq_0_iff_dvd)
    then have "t div 2 ^ 0 mod 64 = 0" "t div 2 ^ 6 mod 64 = 0" by simp_all
    with j have "t div 2 ^ 18 mod 64 * 2 ^ 18 + t div 2 ^ 12 mod 64 * 2 ^ 12 + 0 * 2 ^ 6 + 0 = t" by argo
    then show ?thesis by (simp only: decode_simps)
  qed
qed

lemma triple_bytes:
  fixes a b c :: nat
  assumes "a < 256" and "b < 256" and "c < 256"
  defines "t \<equiv> a * 2 ^ 16 + b * 2 ^ 8 + c"
  shows "t < 16777216" "t div 2 ^ 16 mod 256 = a" "t div 2 ^ 8 mod 256 = b" "t mod 256 = c"
proof -
  have t: "t = c + 256 * (a * 256 + b)" "t = (b * 256 + c) + 65536 * a" unfolding t_def by simp_all
  show "t < 16777216" unfolding t_def using assms(1-3) by simp
  have "t div 256 = a * 256 + b" unfolding t(1) using assms(3) by simp
  then show "t div 2 ^ 8 mod 256 = b" using assms(2) by simp
  have "b * 256 + c < 65536" using assms by linarith
  then have "t div 65536 = a" unfolding t(2) by simp
  then show "t div 2 ^ 16 mod 256 = a" using assms(1) by simp
  show "t mod 256 = c" unfolding t(1) by (simp only: mod_mult_self2 mod_less assms(3))
qed

lemma base64_roundtrip: "base64_decode (base64_encode bytes) = Inr bytes"
proof (induction bytes rule: base64_encode.induct)
  case (2 a)
  define t where "t = byte a * 2 ^ 16"
  have t: "t < 16777216" "t div 2 ^ 16 mod 256 = byte a"
    using triple_bytes [OF byte_less_256 [of a], of 0 0] unfolding t_def by simp_all
  have "t = 4096 * (16 * byte a)" unfolding t_def by simp
  then have "t mod 4096 = 0" by (simp only: mod_mult_self1_is_0)
  from decode_group(3) [OF t(1) this] show ?case by (simp only: base64_encode.simps Let_def t_def [symmetric] t(2) char_of_char)
next
  case (3 a b)
  define t where "t = byte a * 2 ^ 16 + byte b * 2 ^ 8"
  have t: "t < 16777216" "t div 2 ^ 16 mod 256 = byte a" "t div 2 ^ 8 mod 256 = byte b"
    using triple_bytes [OF byte_less_256 [of a] byte_less_256 [of b], of 0] unfolding t_def by simp_all
  have "t = 64 * (1024 * byte a + 4 * byte b)" unfolding t_def by simp
  then have "t mod 64 = 0" by (simp only: mod_mult_self1_is_0)
  from decode_group(2) [OF t(1) this] show ?case
    by (simp only: base64_encode.simps Let_def t_def [symmetric] t(2,3) char_of_char)
next
  case (4 a b c rest)
  define t where "t = byte a * 2 ^ 16 + byte b * 2 ^ 8 + byte c"
  have t: "t < 16777216" "t div 2 ^ 16 mod 256 = byte a" "t div 2 ^ 8 mod 256 = byte b" "t mod 256 = byte c"
    using triple_bytes [OF byte_less_256 [of a] byte_less_256 [of b] byte_less_256 [of c]] unfolding t_def by simp_all
  have e: "base64_encode (a # b # c # rest) = sextet 18 t # sextet 12 t # sextet 6 t # sextet 0 t # base64_encode rest"
    by (simp only: base64_encode.simps Let_def t_def append.simps)
  have "base64_decode (base64_encode rest) = Inr rest" by (rule 4) (simp add: t_def)
  then show ?case unfolding e decode_group(1) [OF t(1)] by (simp only: res_bind_simps t(2-4) char_of_char append.simps)
qed simp

lemma length_base64_encode: "length (base64_encode bytes) = (length bytes + 2) div 3 * 4"
proof (induction bytes rule: base64_encode.induct)
  case (4 a b c rest)
  have "(length (a # b # c # rest) + 2) div 3 = (length rest + 2) div 3 + 1" by simp
  with 4 show ?case by (simp add: Let_def)
qed (simp_all add: Let_def)

lemma f32s_of_bytes_concat: "f32s_of_bytes (concat (map f32_bytes v)) = v \<and> length (concat (map f32_bytes v)) = 4 * length v"
proof (induction v)
  case (Cons x v)
  have "length (le_bytes 4 (unat x)) = 4" by simp
  then obtain a b c d where l: "le_bytes 4 (unat x) = [a, b, c, d]"
    by (auto simp: numeral_eq_Suc length_Suc_conv simp del: le_bytes.simps length_le_bytes)
  have "of_le [a, b, c, d] = unat x" using of_le_word [of x] by (simp add: l)
  then have "word_of_nat (of_le [a, b, c, d]) = x" by simp
  moreover have "f32_bytes x = [a, b, c, d]" by (simp only: f32_bytes_def l)
  ultimately show ?case using Cons by (simp del: of_le.simps)
qed simp

lemma gate_vector_roundtrip: "decode_gate_vector (encode_gate_vector v) = Inr v"
  using f32s_of_bytes_concat [of v] by (simp add: decode_gate_vector_def encode_gate_vector_def base64_roundtrip)

end
