(* ===== verification/VindexMeta.thy ===== *)
theory VindexMeta
  imports VindexFormat Rust_Float Rust_Str
begin

text \<open>
  The metadata of the features and its file \<open>down_meta.bin\<close>
  (\<open>crates/larql-vindex/src/format/down_meta.rs\<close>, \<open>FeatureMeta\<close> and \<open>DownMetaMmap\<close> of
  \<open>src/index/types/mod.rs\<close>): the writer, the reader that builds the lists in memory, and the reader that
  scans the counts and decodes a record when it is asked for. The tokenizer is a parameter: the text of a token,
  if it can decode it.
\<close>

section \<open>Metadata\<close>

record topk_entry =
  te_token :: string
  te_token_id :: u32
  te_logit :: f32

record feature_meta =
  fm_top_token :: string
  fm_top_token_id :: u32
  fm_c_score :: f32
  fm_top_k :: "topk_entry list"

type_synonym layer_metas = "feature_meta option list"

type_synonym tokenizer = "u32 \<Rightarrow> string option"

datatype meta_error =
    UnexpectedEof | TooSmall | BadMagic nat | BadVersion nat | RecordOverflow
  | TruncatedLayerHeader | LayerSizeOverflow | LayerEndOverflow | TruncatedRecords nat

definition decoded_text :: "tokenizer \<Rightarrow> u32 \<Rightarrow> string" where
  "decoded_text decode tid = trim (case decode tid of Some t \<Rightarrow> t | None \<Rightarrow> CHR ''T'' # decimal (unat tid))"

definition heap_meta :: "layer_metas option list \<Rightarrow> nat \<Rightarrow> nat \<Rightarrow> feature_meta option" where
  "heap_meta layers layer feature =
     (if layer < length layers then
        (case layers ! layer of
           Some metas \<Rightarrow> if feature < length metas then metas ! feature else None
         | None \<Rightarrow> None)
      else None)"

section \<open>Writer\<close>

abbreviation meta_magic :: nat where
  "meta_magic \<equiv> 0x444D4554"

definition legacy_magic :: nat where
  "legacy_magic = 0x54454D44"

definition pair_bytes :: "u32 \<Rightarrow> f32 \<Rightarrow> string" where
  "pair_bytes tid x = le_bytes 4 (unat tid) @ f32_bytes x"

definition record_bytes :: "nat \<Rightarrow> feature_meta option \<Rightarrow> string" where
  "record_bytes k meta =
     (case meta of
        Some m \<Rightarrow> pair_bytes (fm_top_token_id m) (fm_c_score m) @
          concat (map (\<lambda>i. if i < length (fm_top_k m) then pair_bytes (te_token_id (fm_top_k m ! i)) (te_logit (fm_top_k m ! i))
                           else pair_bytes 0 0) [0..<k])
      | None \<Rightarrow> pair_bytes 0 0 @ concat (map (\<lambda>_. pair_bytes 0 0) [0..<k]))"

definition layer_bytes :: "nat \<Rightarrow> layer_metas option \<Rightarrow> string" where
  "layer_bytes k layer =
     (case layer of
        Some metas \<Rightarrow> le_bytes 4 (length metas) @ concat (map (record_bytes k) metas)
      | None \<Rightarrow> le_bytes 4 0)"

text \<open>The file and the number of records that are not empty.\<close>

definition write_binary :: "layer_metas option list \<Rightarrow> nat \<Rightarrow> string \<times> nat" where
  "write_binary down_meta k =
     (le_bytes 4 meta_magic @ le_bytes 4 1 @ le_bytes 4 (length down_meta) @ le_bytes 4 k @
        concat (map (layer_bytes k) down_meta),
      sum_list (map (\<lambda>layer. case layer of Some metas \<Rightarrow> length (filter (\<lambda>m. m \<noteq> None) metas) | None \<Rightarrow> 0) down_meta))"

section \<open>Reader\<close>

definition read_u32 :: "string \<Rightarrow> meta_error + nat \<times> string" where
  "read_u32 s = (if length s < 4 then Inl UnexpectedEof else Inr (of_le (take 4 s), drop 4 s))"

definition read_f32 :: "string \<Rightarrow> meta_error + f32 \<times> string" where
  "read_f32 s = (if length s < 4 then Inl UnexpectedEof else Inr (word_of_nat (of_le (take 4 s)), drop 4 s))"

fun read_top_k :: "tokenizer \<Rightarrow> nat \<Rightarrow> string \<Rightarrow> meta_error + topk_entry list \<times> string" where
  "read_top_k decode 0 s = Inr ([], s)"
| "read_top_k decode (Suc k) s =
     res_bind (read_u32 s) (\<lambda>(tid, s). res_bind (read_f32 s) (\<lambda>(logit, s).
       res_bind (read_top_k decode k s) (\<lambda>(more, s).
         Inr (if 0 < tid \<or> \<not> f32_is_zero logit
              then \<lparr>te_token = decoded_text decode (word_of_nat tid), te_token_id = word_of_nat tid, te_logit = logit\<rparr> # more
              else more, s))))"

definition read_feature :: "tokenizer \<Rightarrow> nat \<Rightarrow> string \<Rightarrow> meta_error + feature_meta option \<times> string" where
  "read_feature decode k s =
     res_bind (read_u32 s) (\<lambda>(tid, s). res_bind (read_f32 s) (\<lambda>(score, s).
       res_bind (read_top_k decode k s) (\<lambda>(top, s).
         Inr (if tid = 0 \<and> f32_is_zero score \<and> top = [] then None
              else Some \<lparr>fm_top_token = decoded_text decode (word_of_nat tid), fm_top_token_id = word_of_nat tid,
                         fm_c_score = score, fm_top_k = top\<rparr>, s))))"

fun read_features :: "tokenizer \<Rightarrow> nat \<Rightarrow> nat \<Rightarrow> string \<Rightarrow> meta_error + layer_metas \<times> string" where
  "read_features decode k 0 s = Inr ([], s)"
| "read_features decode k (Suc n) s =
     res_bind (read_feature decode k s) (\<lambda>(m, s). res_bind (read_features decode k n s) (\<lambda>(ms, s). Inr (m # ms, s)))"

fun read_layers :: "tokenizer \<Rightarrow> nat \<Rightarrow> nat \<Rightarrow> string \<Rightarrow> meta_error + layer_metas option list \<times> string" where
  "read_layers decode k 0 s = Inr ([], s)"
| "read_layers decode k (Suc n) s =
     res_bind (read_u32 s) (\<lambda>(nf, s).
       if nf = 0 then res_bind (read_layers decode k n s) (\<lambda>(ls, s). Inr (None # ls, s))
       else res_bind (read_features decode k nf s) (\<lambda>(ms, s). res_bind (read_layers decode k n s) (\<lambda>(ls, s). Inr (Some ms # ls, s))))"

definition read_binary :: "tokenizer \<Rightarrow> string \<Rightarrow> meta_error + layer_metas option list \<times> nat" where
  "read_binary decode s =
     res_bind (read_u32 s) (\<lambda>(magic, s). if magic \<noteq> meta_magic \<and> magic \<noteq> legacy_magic then Inl (BadMagic magic) else
     res_bind (read_u32 s) (\<lambda>(version, s). if version \<noteq> 1 then Inl (BadVersion version) else
     res_bind (read_u32 s) (\<lambda>(n, s). res_bind (read_u32 s) (\<lambda>(k, s).
     res_bind (read_layers decode k n s) (\<lambda>(ls, s).
       Inr (ls, sum_list (map (\<lambda>l. case l of Some ms \<Rightarrow> length (filter (\<lambda>m. m \<noteq> None) ms) | None \<Rightarrow> 0) ls)))))))"

section \<open>Lazy reader\<close>

record down_meta_mmap =
  dm_bytes :: string
  dm_layer_offsets :: "nat list"
  dm_layer_num_features :: "nat list"
  dm_top_k_count :: nat

text \<open>One pass over the counts; \<open>layer\<close> is the number of layers already scanned.\<close>

fun scan_layers :: "string \<Rightarrow> nat \<Rightarrow> nat \<Rightarrow> nat \<Rightarrow> nat \<Rightarrow> meta_error + (nat \<times> nat) list" where
  "scan_layers b rs layer 0 pos = Inr []"
| "scan_layers b rs layer (Suc n) pos =
     (if length b < pos + 4 then Inl TruncatedLayerHeader
      else let nf = u32_at b pos; start = pos + 4; bytes = nf * rs in
        if 2 ^ 64 \<le> bytes then Inl LayerSizeOverflow
        else if 2 ^ 64 \<le> start + bytes then Inl LayerEndOverflow
        else if length b < start + bytes then Inl (TruncatedRecords layer)
        else res_bind (scan_layers b rs (Suc layer) n (start + bytes)) (\<lambda>more. Inr ((start, nf) # more)))"

definition mmap_binary :: "string \<Rightarrow> meta_error + down_meta_mmap" where
  "mmap_binary b =
     (if length b < 16 then Inl TooSmall
      else let magic = u32_at b 0; version = u32_at b 4; n = u32_at b 8; k = u32_at b 12 in
        if magic \<noteq> meta_magic \<and> magic \<noteq> legacy_magic then Inl (BadMagic magic)
        else if version \<noteq> 1 then Inl (BadVersion version)
        else if 2 ^ 64 \<le> k * 8 + 8 then Inl RecordOverflow
        else res_bind (scan_layers b (k * 8 + 8) 0 n 16) (\<lambda>layers.
          Inr \<lparr>dm_bytes = b, dm_layer_offsets = map fst layers, dm_layer_num_features = map snd layers, dm_top_k_count = k\<rparr>))"

definition record_size :: "down_meta_mmap \<Rightarrow> nat" where
  "record_size dm = 8 + dm_top_k_count dm * 8"

definition top_k_at :: "tokenizer \<Rightarrow> nat \<Rightarrow> string \<Rightarrow> topk_entry list" where
  "top_k_at decode k b =
     List.map_filter (\<lambda>i.
       let tid = u32_at b (8 + i * 8); logit = word_of_nat (u32_at b (8 + i * 8 + 4)) in
       if 0 < tid \<or> \<not> f32_is_zero logit
       then Some \<lparr>te_token = decoded_text decode (word_of_nat tid), te_token_id = word_of_nat tid, te_logit = logit\<rparr>
       else None) [0..<k]"

definition mmap_feature_meta :: "tokenizer \<Rightarrow> down_meta_mmap \<Rightarrow> nat \<Rightarrow> nat \<Rightarrow> feature_meta option" where
  "mmap_feature_meta decode dm layer feature =
     (if length (dm_layer_offsets dm) \<le> layer then None
      else let nf = dm_layer_num_features dm ! layer in
        if nf = 0 \<or> nf \<le> feature then None
        else let offset = dm_layer_offsets dm ! layer + feature * record_size dm in
          if length (dm_bytes dm) < offset + record_size dm then None
          else let b = take (record_size dm) (drop offset (dm_bytes dm));
                   tid = u32_at b 0; score = word_of_nat (u32_at b 4) in
            if tid = 0 \<and> f32_is_zero score then None
            else Some \<lparr>fm_top_token = decoded_text decode (word_of_nat tid), fm_top_token_id = word_of_nat tid,
                       fm_c_score = score, fm_top_k = top_k_at decode (dm_top_k_count dm) b\<rparr>)"

definition mmap_num_features :: "down_meta_mmap \<Rightarrow> nat \<Rightarrow> nat" where
  "mmap_num_features dm layer = (if layer < length (dm_layer_num_features dm) then dm_layer_num_features dm ! layer else 0)"

definition mmap_total_features :: "down_meta_mmap \<Rightarrow> nat" where
  "mmap_total_features dm = sum_list (dm_layer_num_features dm)"

end
