(* ===== verification/VindexMetaLaws.thy ===== *)
theory VindexMetaLaws
  imports VindexMeta
begin

text \<open>
  The two readers of \<open>down_meta.bin\<close> read the same records, and reading what the writer wrote gives back the
  metadata up to what the format can hold.
\<close>

section \<open>Reading as a function of the position\<close>

lemma read_u32_eq: "read_u32 s = (if length s < 4 then Inl UnexpectedEof else Inr (u32_at s 0, drop 4 s))"
  by (simp add: read_u32_def u32_at_def)

lemma read_f32_eq: "read_f32 s = (if length s < 4 then Inl UnexpectedEof else Inr (word_of_nat (u32_at s 0), drop 4 s))"
  by (simp add: read_f32_def u32_at_def)

definition entry_at :: "tokenizer \<Rightarrow> string \<Rightarrow> nat \<Rightarrow> topk_entry option" where
  "entry_at decode s i =
     (let tid = u32_at s (i * 8); logit = word_of_nat (u32_at s (i * 8 + 4)) in
      if 0 < tid \<or> \<not> f32_is_zero logit
      then Some \<lparr>te_token = decoded_text decode (word_of_nat tid), te_token_id = word_of_nat tid, te_logit = logit\<rparr>
      else None)"

lemma entry_at_drop: "entry_at decode (drop 8 s) i = entry_at decode s (Suc i)"
  by (simp add: entry_at_def add.commute)

lemma map_filter_Cons:
  "List.map_filter f (x # xs) = (case f x of None \<Rightarrow> List.map_filter f xs | Some y \<Rightarrow> y # List.map_filter f xs)"
  by (simp add: List.map_filter_def split: option.split)

lemma map_filter_map: "List.map_filter f (map g xs) = List.map_filter (\<lambda>x. f (g x)) xs"
  by (induction xs) (simp_all add: map_filter_Cons List.map_filter_def)

lemma map_filter_cong: "(\<And>x. x \<in> set xs \<Longrightarrow> f x = g x) \<Longrightarrow> List.map_filter f xs = List.map_filter g xs"
  by (induction xs) (simp_all add: map_filter_Cons List.map_filter_def cong: option.case_cong)

lemma read_top_k_eq:
  "read_top_k decode k s =
     (if length s < 8 * k then Inl UnexpectedEof else Inr (List.map_filter (entry_at decode s) [0..<k], drop (8 * k) s))"
proof (induction k arbitrary: s)
  case (Suc k)
  have u: "List.map_filter (entry_at decode s) [0..<Suc k] =
      (case entry_at decode s 0 of None \<Rightarrow> List.map_filter (entry_at decode (drop 8 s)) [0..<k]
       | Some e \<Rightarrow> e # List.map_filter (entry_at decode (drop 8 s)) [0..<k])"
    by (simp only: upt_conv_Cons zero_less_Suc map_Suc_upt [symmetric] map_filter_Cons map_filter_map entry_at_drop [abs_def])
  show ?case
    by (simp add: read_u32_eq read_f32_eq Suc u del: upt_Suc) (auto simp: entry_at_def Let_def add.commute)
qed (simp add: List.map_filter_def)

lemma top_k_at_eq: "top_k_at decode k b = List.map_filter (entry_at decode (drop 8 b)) [0..<k]"
  by (simp add: top_k_at_def entry_at_def [abs_def] add.assoc)

definition feature_at :: "tokenizer \<Rightarrow> nat \<Rightarrow> string \<Rightarrow> feature_meta option" where
  "feature_at decode k s =
     (let tid = u32_at s 0; score = word_of_nat (u32_at s 4); top = top_k_at decode k s in
      if tid = 0 \<and> f32_is_zero score \<and> top = [] then None
      else Some \<lparr>fm_top_token = decoded_text decode (word_of_nat tid), fm_top_token_id = word_of_nat tid,
                 fm_c_score = score, fm_top_k = top\<rparr>)"

lemma read_feature_eq:
  "read_feature decode k s =
     (if length s < 8 + 8 * k then Inl UnexpectedEof else Inr (feature_at decode k s, drop (8 + 8 * k) s))"
  by (auto simp: read_feature_def read_u32_eq read_f32_eq read_top_k_eq feature_at_def top_k_at_eq Let_def add.commute)

lemma read_features_eq:
  "read_features decode k n s =
     (if length s < n * (8 + 8 * k) then Inl UnexpectedEof
      else Inr (map (\<lambda>i. feature_at decode k (drop (i * (8 + 8 * k)) s)) [0..<n], drop (n * (8 + 8 * k)) s))"
proof (induction n arbitrary: s)
  case (Suc n)
  have "map (\<lambda>i. feature_at decode k (drop (i * (8 + 8 * k)) s)) [0..<Suc n] =
      feature_at decode k s # map (\<lambda>i. feature_at decode k (drop (i * (8 + 8 * k)) (drop (8 + 8 * k) s))) [0..<n]"
    by (simp add: upt_conv_Cons map_Suc_upt [symmetric] o_def add.commute del: upt_Suc)
  then show ?case by (auto simp: read_feature_eq Suc add.commute simp del: upt_Suc)
qed simp

section \<open>The two readers\<close>

definition layer_at :: "tokenizer \<Rightarrow> nat \<Rightarrow> string \<Rightarrow> nat \<times> nat \<Rightarrow> layer_metas option" where
  "layer_at decode k b = (\<lambda>(start, nf).
     if nf = 0 then None else Some (map (\<lambda>i. feature_at decode k (drop (start + i * (8 + 8 * k)) b)) [0..<nf]))"

lemma read_layers_Suc:
  assumes "pos + 4 \<le> length b"
  shows "read_layers decode k (Suc n) (drop pos b) =
     (let nf = u32_at b pos in
      if nf = 0 then res_bind (read_layers decode k n (drop (pos + 4) b)) (\<lambda>(ls, s). Inr (None # ls, s))
      else res_bind (read_features decode k nf (drop (pos + 4) b)) (\<lambda>(ms, s).
        res_bind (read_layers decode k n s) (\<lambda>(ls, s). Inr (Some ms # ls, s))))"
proof -
  have "4 \<le> length (drop pos b)" using assms by simp
  then have "read_u32 (drop pos b) = Inr (u32_at b pos, drop (pos + 4) b)" by (simp add: read_u32_eq add.commute)
  then show ?thesis by (simp add: Let_def)
qed

lemma scan_layers_read:
  "scan_layers b (k * 8 + 8) layer n pos = Inr xs \<Longrightarrow>
     (\<exists>rest. read_layers decode k n (drop pos b) = Inr (map (layer_at decode k b) xs, rest)) \<and> length xs = n \<and>
     (\<forall>(start, nf) \<in> set xs. start + nf * (8 + 8 * k) \<le> length b)"
proof (induction n arbitrary: layer pos xs)
  case (Suc n)
  define nf where "nf = u32_at b pos"
  from Suc.prems obtain more where more: "scan_layers b (k * 8 + 8) (Suc layer) n (pos + 4 + nf * (k * 8 + 8)) = Inr more"
      and xs: "xs = (pos + 4, nf) # more" and len: "pos + 4 + nf * (k * 8 + 8) \<le> length b"
    by (auto simp: Let_def nf_def not_less res_bind_Inr split: if_splits)
  then have p: "pos + 4 \<le> length b" by linarith
  from Suc.IH [OF more] obtain rest where
      IH: "read_layers decode k n (drop (pos + 4 + nf * (k * 8 + 8)) b) = Inr (map (layer_at decode k b) more, rest)"
      "length more = n" "\<forall>(start, nf) \<in> set more. start + nf * (8 + 8 * k) \<le> length b" by blast
  have d: "drop (nf * (8 + 8 * k)) (drop (pos + 4) b) = drop (pos + 4 + nf * (k * 8 + 8)) b"
    by (simp add: algebra_simps)
  have "read_layers decode k (Suc n) (drop pos b) = Inr (map (layer_at decode k b) xs, rest)"
  proof (cases "nf = 0")
    case True
    with len IH(1) show ?thesis
      by (simp add: read_layers_Suc [OF p] nf_def [symmetric] xs layer_at_def Let_def del: read_layers.simps)
  next
    case False
    have "read_features decode k nf (drop (pos + 4) b) =
        Inr (map (\<lambda>i. feature_at decode k (drop (pos + 4 + i * (8 + 8 * k)) b)) [0..<nf], drop (pos + 4 + nf * (k * 8 + 8)) b)"
      unfolding read_features_eq d using len by (simp add: algebra_simps)
    with False len IH(1) show ?thesis
      by (simp add: read_layers_Suc [OF p] nf_def [symmetric] xs layer_at_def Let_def del: read_layers.simps)
  qed
  moreover have "pos + 4 + nf * (8 + 8 * k) \<le> length b" using len by (simp add: algebra_simps)
  ultimately show ?case using IH(2,3) xs by auto
qed simp

lemma read_layers_scan:
  assumes "length b < 2 ^ 64"
  shows "read_layers decode k n (drop pos b) = Inr r \<Longrightarrow> \<exists>xs. scan_layers b (k * 8 + 8) layer n pos = Inr xs"
proof (induction n arbitrary: layer pos r)
  case (Suc n)
  define nf where "nf = u32_at b pos"
  have p: "pos + 4 \<le> length b" using Suc.prems by (auto simp: read_u32_eq split: if_splits)
  have "\<exists>r. read_layers decode k n (drop (pos + 4 + nf * (k * 8 + 8)) b) = Inr r \<and> pos + 4 + nf * (k * 8 + 8) \<le> length b"
  proof (cases "nf = 0")
    case True
    with Suc.prems p show ?thesis
      by (auto simp: read_layers_Suc nf_def [symmetric] res_bind_Inr Let_def simp del: read_layers.simps)
  next
    case False
    have "drop (nf * (8 + 8 * k)) (drop (pos + 4) b) = drop (pos + 4 + nf * (k * 8 + 8)) b" by (simp add: algebra_simps)
    moreover from False Suc.prems p obtain ms s where f: "read_features decode k nf (drop (pos + 4) b) = Inr (ms, s)"
        and "\<exists>r. read_layers decode k n s = Inr r"
      by (auto simp: read_layers_Suc nf_def [symmetric] res_bind_Inr Let_def simp del: read_layers.simps)
    moreover have "nf * (8 + 8 * k) \<le> length b - (pos + 4)" using f by (auto simp: read_features_eq split: if_splits)
    ultimately show ?thesis using p by (auto simp: read_features_eq algebra_simps split: if_splits)
  qed
  then obtain r where r: "read_layers decode k n (drop (pos + 4 + nf * (k * 8 + 8)) b) = Inr r"
    and le: "pos + 4 + nf * (k * 8 + 8) \<le> length b" by blast
  from Suc.IH [OF r] obtain xs where "scan_layers b (k * 8 + 8) (Suc layer) n (pos + 4 + nf * (k * 8 + 8)) = Inr xs" by blast
  moreover have "nf * (k * 8 + 8) < 2 ^ 64" "pos + 4 + nf * (k * 8 + 8) < 2 ^ 64" using le assms by linarith+
  ultimately show ?case using le p by (simp add: Let_def nf_def [symmetric] not_less not_le)
qed simp

definition header_ok :: "string \<Rightarrow> bool" where
  "header_ok b \<longleftrightarrow> 16 \<le> length b \<and> u32_at b 0 \<in> {meta_magic, legacy_magic} \<and> u32_at b 4 = 1"

lemma mmap_binary_Inr:
  "mmap_binary b = Inr dm \<longleftrightarrow> header_ok b \<and>
     (\<exists>xs. scan_layers b (u32_at b 12 * 8 + 8) 0 (u32_at b 8) 16 = Inr xs \<and>
       dm = \<lparr>dm_bytes = b, dm_layer_offsets = map fst xs, dm_layer_num_features = map snd xs, dm_top_k_count = u32_at b 12\<rparr>)"
  using u32_at_less [of b 12] by (auto simp: mmap_binary_def header_ok_def Let_def res_bind_Inr)

definition records_held :: "layer_metas option list \<Rightarrow> nat" where
  "records_held ls = sum_list (map (\<lambda>l. case l of Some ms \<Rightarrow> length (filter (\<lambda>m. m \<noteq> None) ms) | None \<Rightarrow> 0) ls)"

lemma read_binary_Inr:
  "read_binary decode b = Inr r \<longleftrightarrow> header_ok b \<and>
     (\<exists>ls s. read_layers decode (u32_at b 12) (u32_at b 8) (drop 16 b) = Inr (ls, s) \<and> r = (ls, records_held ls))"
  by (auto simp: read_binary_def header_ok_def read_u32_eq res_bind_Inr records_held_def split: if_splits)

lemma top_k_at_take: "8 + 8 * k \<le> n \<Longrightarrow> top_k_at decode k (take n b) = top_k_at decode k b"
  unfolding top_k_at_def by (rule map_filter_cong) (auto simp: u32_at_take)

lemma feature_at_take: "8 + 8 * k \<le> n \<Longrightarrow> feature_at decode k (take n b) = feature_at decode k b"
  by (simp add: feature_at_def u32_at_take top_k_at_take)

text \<open>The record a lookup finds, seen by the lazy reader.\<close>

definition lazily :: "feature_meta option \<Rightarrow> feature_meta option" where
  "lazily m = (case m of
       Some f \<Rightarrow> if fm_top_token_id f = 0 \<and> f32_is_zero (fm_c_score f) then None else Some f
     | None \<Rightarrow> None)"

lemma lazily_feature_at:
  "lazily (feature_at decode k b) =
     (if u32_at b 0 = 0 \<and> f32_is_zero (word_of_nat (u32_at b 4)) then None
      else Some \<lparr>fm_top_token = decoded_text decode (word_of_nat (u32_at b 0)), fm_top_token_id = word_of_nat (u32_at b 0),
                 fm_c_score = word_of_nat (u32_at b 4), fm_top_k = top_k_at decode k b\<rparr>)"
proof -
  have "word_of_nat (u32_at b 0) = (0 :: u32) \<longleftrightarrow> u32_at b 0 = 0"
    using u32_at_less [of b 0] by (simp add: word_of_nat_eq_0_iff) (auto dest: nat_dvd_not_less)
  then show ?thesis by (auto simp: lazily_def feature_at_def Let_def)
qed

lemma readers_agree:
  assumes "mmap_binary b = Inr dm"
  shows "\<exists>ls. read_binary decode b = Inr (ls, records_held ls) \<and> length ls = length (dm_layer_num_features dm) \<and>
     (\<forall>layer feature. mmap_feature_meta decode dm layer feature = lazily (heap_meta ls layer feature))"
proof -
  from assms obtain xs where h: "header_ok b" and xs: "scan_layers b (u32_at b 12 * 8 + 8) 0 (u32_at b 8) 16 = Inr xs"
    and dm: "dm = \<lparr>dm_bytes = b, dm_layer_offsets = map fst xs, dm_layer_num_features = map snd xs, dm_top_k_count = u32_at b 12\<rparr>"
    unfolding mmap_binary_Inr by blast
  define k where "k = u32_at b 12"
  define ls where "ls = map (layer_at decode k b) xs"
  from scan_layers_read [OF xs, of decode] obtain rest where
    r: "read_layers decode k (u32_at b 8) (drop 16 b) = Inr (ls, rest)"
    and fit: "\<forall>(start, nf) \<in> set xs. start + nf * (8 + 8 * k) \<le> length b" unfolding k_def ls_def by blast
  have "read_binary decode b = Inr (ls, records_held ls)" unfolding read_binary_Inr using h r by (auto simp: k_def)
  moreover have "length ls = length (dm_layer_num_features dm)" by (simp add: ls_def dm)
  moreover have "mmap_feature_meta decode dm layer feature = lazily (heap_meta ls layer feature)" for layer feature
  proof (cases "layer < length xs \<and> feature < snd (xs ! layer)")
    case True
    define start nf where "start = fst (xs ! layer)" and "nf = snd (xs ! layer)"
    define o' where "o' = start + feature * (8 + 8 * k)"
    have "(start, nf) \<in> set xs" using True by (simp add: start_def nf_def)
    with fit have "start + nf * (8 + 8 * k) \<le> length b" by auto
    moreover have "(feature + 1) * (8 + 8 * k) \<le> nf * (8 + 8 * k)" using True by (intro mult_le_mono1) (simp add: nf_def)
    ultimately have le: "o' + (8 + 8 * k) \<le> length b" by (simp add: o'_def algebra_simps)
    have "heap_meta ls layer feature = feature_at decode k (drop o' b)"
      using True by (auto simp: heap_meta_def ls_def layer_at_def split_beta o'_def start_def)
    moreover have "mmap_feature_meta decode dm layer feature =
        lazily (feature_at decode k (take (8 + 8 * k) (drop o' b)))"
      using True le unfolding lazily_feature_at
      by (simp add: mmap_feature_meta_def dm record_size_def Let_def k_def [symmetric] mult.commute [of k]
          start_def [symmetric] nf_def [symmetric] o'_def [symmetric] split del: if_split) auto
    ultimately show ?thesis by (simp add: feature_at_take)
  next
    case False
    then have "mmap_feature_meta decode dm layer feature = None" by (auto simp: mmap_feature_meta_def dm Let_def)
    moreover have "heap_meta ls layer feature = None"
      using False by (auto simp: heap_meta_def ls_def layer_at_def split_beta)
    ultimately show ?thesis by (simp add: lazily_def)
  qed
  ultimately show ?thesis by blast
qed

lemma readers_fail_together:
  assumes "length b < 2 ^ 64"
  shows "(\<exists>dm. mmap_binary b = Inr dm) \<longleftrightarrow> (\<exists>r. read_binary decode b = Inr r)"
proof
  show "\<exists>r. read_binary decode b = Inr r" if "\<exists>dm. mmap_binary b = Inr dm" using that readers_agree by blast
  show "\<exists>dm. mmap_binary b = Inr dm" if "\<exists>r. read_binary decode b = Inr r"
    using that read_layers_scan [OF assms, of decode "u32_at b 12" "u32_at b 8" 16 _ 0]
    by (auto simp: read_binary_Inr mmap_binary_Inr)
qed

section \<open>Reading what was written\<close>

text \<open>
  What the file keeps of an entry, a record and a layer: the text of a token is that of its number, a list of
  tokens is cut to \<open>k\<close> entries and loses those that are zero, a record that is all zero and a layer without
  records become nothing.
\<close>

definition stored_top_k :: "tokenizer \<Rightarrow> nat \<Rightarrow> topk_entry list \<Rightarrow> topk_entry list" where
  "stored_top_k decode k es =
     map (\<lambda>e. e\<lparr>te_token := decoded_text decode (te_token_id e)\<rparr>)
       (filter (\<lambda>e. te_token_id e \<noteq> 0 \<or> \<not> f32_is_zero (te_logit e)) (take k es))"

definition stored_meta :: "tokenizer \<Rightarrow> nat \<Rightarrow> feature_meta option \<Rightarrow> feature_meta option" where
  "stored_meta decode k meta = (case meta of
       Some m \<Rightarrow>
         if fm_top_token_id m = 0 \<and> f32_is_zero (fm_c_score m) \<and> stored_top_k decode k (fm_top_k m) = [] then None
         else Some (m\<lparr>fm_top_token := decoded_text decode (fm_top_token_id m), fm_top_k := stored_top_k decode k (fm_top_k m)\<rparr>)
     | None \<Rightarrow> None)"

definition stored_layer :: "tokenizer \<Rightarrow> nat \<Rightarrow> layer_metas option \<Rightarrow> layer_metas option" where
  "stored_layer decode k layer = (case layer of
       Some metas \<Rightarrow> if metas = [] then None else Some (map (stored_meta decode k) metas)
     | None \<Rightarrow> None)"

lemma read_u32_le_bytes [simp]: "n < 2 ^ 32 \<Longrightarrow> read_u32 (le_bytes 4 n @ rest) = Inr (n, rest)"
  by (simp add: read_u32_def of_le_bytes_less)

lemma read_u32_word [simp]: "read_u32 (le_bytes 4 (unat (w :: u32)) @ rest) = Inr (unat w, rest)"
  by (simp add: read_u32_def of_le_word)

lemma read_f32_bytes [simp]: "read_f32 (f32_bytes x @ rest) = Inr (x, rest)"
  by (simp add: read_f32_def f32_bytes_def of_le_word)

definition slot_bytes :: "topk_entry list \<Rightarrow> nat \<Rightarrow> string" where
  "slot_bytes es i =
     (if i < length es then pair_bytes (te_token_id (es ! i)) (te_logit (es ! i)) else pair_bytes 0 0)"

lemma slots_Suc: "concat (map (slot_bytes es) [0..<Suc k]) = slot_bytes es 0 @ concat (map (slot_bytes (tl es)) [0..<k])"
proof -
  have "slot_bytes es (Suc i) = slot_bytes (tl es) i" for i by (cases es) (auto simp: slot_bytes_def)
  then show ?thesis by (simp add: upt_conv_Cons map_Suc_upt [symmetric] o_def del: upt_Suc)
qed

lemma read_slots:
  "read_top_k decode k (concat (map (slot_bytes es) [0..<k]) @ rest) = Inr (stored_top_k decode k es, rest)"
proof (induction k arbitrary: es)
  case (Suc k)
  have "read_top_k decode (Suc k) (slot_bytes es 0 @ concat (map (slot_bytes (tl es)) [0..<k]) @ rest) =
      Inr (stored_top_k decode (Suc k) es, rest)"
  proof (cases es)
    case Nil
    moreover have "slot_bytes [] 0 = le_bytes 4 0 @ f32_bytes 0" by (simp add: slot_bytes_def pair_bytes_def)
    ultimately show ?thesis using Suc [of "[]"] by (simp add: stored_top_k_def)
  next
    case (Cons e es')
    moreover have "slot_bytes (e # es') 0 = le_bytes 4 (unat (te_token_id e)) @ f32_bytes (te_logit e)"
      by (simp add: slot_bytes_def pair_bytes_def)
    ultimately show ?thesis using Suc [of es'] by (auto simp: stored_top_k_def unat_gt_0 unat_eq_zero)
  qed
  then show ?case unfolding slots_Suc by simp
qed (simp add: stored_top_k_def)

lemma record_bytes_slots:
  "record_bytes k (Some m) = pair_bytes (fm_top_token_id m) (fm_c_score m) @ concat (map (slot_bytes (fm_top_k m)) [0..<k])"
  "record_bytes k None = pair_bytes 0 0 @ concat (map (slot_bytes []) [0..<k])"
  by (simp_all add: record_bytes_def slot_bytes_def [abs_def])

lemma read_feature_record: "read_feature decode k (record_bytes k m @ rest) = Inr (stored_meta decode k m, rest)"
proof (cases m)
  case None
  have "stored_top_k decode k [] = []" by (simp add: stored_top_k_def)
  with None show ?thesis
    by (simp add: record_bytes_slots read_feature_def pair_bytes_def read_slots stored_meta_def)
next
  case (Some f)
  then show ?thesis
    by (simp add: record_bytes_slots read_feature_def pair_bytes_def read_slots stored_meta_def unat_eq_zero)
qed

lemma read_features_records:
  "read_features decode k (length ms) (concat (map (record_bytes k) ms) @ rest) = Inr (map (stored_meta decode k) ms, rest)"
  by (induction ms) (simp_all add: read_feature_record)

lemma layer_bytes_simps [simp]:
  "layer_bytes k None = le_bytes 4 0"
  "layer_bytes k (Some ms) = le_bytes 4 (length ms) @ concat (map (record_bytes k) ms)"
  by (simp_all add: layer_bytes_def)

lemma stored_layer_simps [simp]:
  "stored_layer decode k None = None"
  "stored_layer decode k (Some ms) = (if ms = [] then None else Some (map (stored_meta decode k) ms))"
  by (simp_all add: stored_layer_def)

lemma read_layers_written:
  "\<forall>metas. Some metas \<in> set ls \<longrightarrow> length metas < 2 ^ 32 \<Longrightarrow>
     read_layers decode k (length ls) (concat (map (layer_bytes k) ls) @ rest) = Inr (map (stored_layer decode k) ls, rest)"
proof (induction ls)
  case (Cons l ls)
  then have IH: "read_layers decode k (length ls) (concat (map (layer_bytes k) ls) @ rest) = Inr (map (stored_layer decode k) ls, rest)"
    by simp
  show ?case
  proof (cases l)
    case None
    with IH show ?thesis by simp
  next
    case (Some ms)
    then have "length ms < 2 ^ 32" using Cons.prems by simp
    with Some IH show ?thesis by (simp add: read_features_records)
  qed
qed simp

lemma read_written:
  assumes "length ls < 2 ^ 32" and "k < 2 ^ 32" and "\<forall>metas. Some metas \<in> set ls \<longrightarrow> length metas < 2 ^ 32"
  shows "read_binary decode (fst (write_binary ls k)) = Inr (map (stored_layer decode k) ls, records_held (map (stored_layer decode k) ls))"
  using read_layers_written [OF assms(3), of decode k "[]"] assms(1,2)
  by (simp add: read_binary_def write_binary_def records_held_def [unfolded not_None_eq])

end
