(* ===== verification/Rust_FloatSum.thy ===== *)
theory Rust_FloatSum
  imports Rust_Float
begin

text \<open>
  Sum, absolute value and square root of the single-precision floats, on their bit patterns: the finite results
  are computed exactly and rounded to nearest, ties to even.
\<close>

definition f32_abs :: "f32 \<Rightarrow> f32" where
  "f32_abs x = word_of_nat (f32_magnitude x)"

text \<open>The signed numerator over the denominator of a finite float.\<close>

definition f32_rational :: "f32 \<Rightarrow> int \<times> nat" where
  "f32_rational x = (case f32_ratio x of (n, d) \<Rightarrow> (if f32_negative x then - int n else int n, d))"

definition f32_add :: "f32 \<Rightarrow> f32 \<Rightarrow> f32" where
  "f32_add a b =
     (if f32_is_nan a \<or> f32_is_nan b then f32_quiet_nan
      else if f32_is_infinite a then (if f32_is_infinite b \<and> f32_negative a \<noteq> f32_negative b then f32_quiet_nan else a)
      else if f32_is_infinite b then b
      else (case (f32_rational a, f32_rational b) of
          ((m, d), (m', d')) \<Rightarrow>
            (let v = m * int d' + m' * int d in
             if v = 0 then f32_with_sign (f32_negative a \<and> f32_negative b) 0
             else f32_with_sign (v < 0) (f32_of_ratio (nat \<bar>v\<bar>) (d * d')))))"

text \<open>\<open>iter().sum::<f32>()\<close> starts from minus zero.\<close>

definition f32_sum :: "f32 list \<Rightarrow> f32" where
  "f32_sum xs = foldl f32_add 0x80000000 xs"

text \<open>\<open>a.iter().zip(b).map(|(a, b)| a * b).sum()\<close>: the longer vector is cut.\<close>

definition f32_dot :: "f32 list \<Rightarrow> f32 list \<Rightarrow> f32" where
  "f32_dot a b = f32_sum (map (\<lambda>(x, y). f32_mul x y) (zip a b))"

text \<open>The floor of the square root, by bisection between bounds.\<close>

function root_between :: "nat \<Rightarrow> nat \<Rightarrow> nat \<Rightarrow> nat" where
  "root_between lo hi n =
     (if hi \<le> lo + 1 then lo
      else let mid = (lo + hi) div 2 in if mid * mid \<le> n then root_between mid hi n else root_between lo mid n)"
  by pat_completeness auto

termination by (relation "measure (\<lambda>(lo, hi, n). hi - lo)") auto

declare root_between.simps [simp del]

definition floor_root :: "nat \<Rightarrow> nat" where
  "floor_root n = root_between 0 (n + 1) n"

lemma root_between_bounds:
  "lo * lo \<le> n \<Longrightarrow> n < hi * hi \<Longrightarrow> root_between lo hi n * root_between lo hi n \<le> n \<and>
     n < (root_between lo hi n + 1) * (root_between lo hi n + 1)"
proof (induction lo hi n rule: root_between.induct)
  case (1 lo hi n)
  show ?case
  proof (cases "hi \<le> lo + 1")
    case True
    then have "hi * hi \<le> (lo + 1) * (lo + 1)" by (intro mult_le_mono) auto
    with 1(4) have "n < (lo + 1) * (lo + 1)" by linarith
    moreover have "root_between lo hi n = lo" using True by (simp add: root_between.simps [of lo hi n])
    ultimately show ?thesis using 1(3) by simp
  next
    case False
    let ?m = "(lo + hi) div 2"
    show ?thesis
    proof (cases "?m * ?m \<le> n")
      case True
      with False have "root_between lo hi n = root_between ?m hi n"
        by (simp add: root_between.simps [of lo hi n] Let_def)
      with 1(1) [OF False refl True True 1(4)] show ?thesis by simp
    next
      case less: False
      with False have "root_between lo hi n = root_between lo ?m n"
        by (simp add: root_between.simps [of lo hi n] Let_def)
      moreover have "n < ?m * ?m" using less by simp
      ultimately show ?thesis using 1(2) [OF False refl less 1(3)] by simp
    qed
  qed
qed

lemma floor_root_bounds: "floor_root n * floor_root n \<le> n \<and> n < (floor_root n + 1) * (floor_root n + 1)"
  unfolding floor_root_def by (rule root_between_bounds) simp_all

text \<open>
  \<open>sqrt\<close>: the root is taken with 32 more binary digits and a last digit that says whether it is exact, so
  the rounding is that of the real root.
\<close>

definition f32_sqrt :: "f32 \<Rightarrow> f32" where
  "f32_sqrt x =
     (if f32_is_nan x then f32_quiet_nan
      else if f32_magnitude x = 0 then x
      else if f32_negative x then f32_quiet_nan
      else if f32_is_infinite x then x
      else (case f32_ratio x of (n, d) \<Rightarrow>
        (let m = n * d * 2 ^ 64; s = floor_root m in
         f32_of_ratio (2 * s + of_bool (s * s \<noteq> m)) (2 * d * 2 ^ 32))))"

end
