(* ===== verification/VindexTopK.thy ===== *)
theory VindexTopK
  imports Rust_FloatSum "HOL-Library.Multiset"
begin

text \<open>
  Selection of the scores with the largest magnitudes
  (\<open>top_k_by_abs\<close> of \<open>crates/larql-vindex/src/index/compute/gate_knn/mod.rs\<close>): a bounded heap whose top is the
  smallest magnitude. \<open>BinaryHeap\<close> and \<open>sort_unstable_by\<close> leave open which of two equal magnitudes comes first;
  the model takes the earlier one, and the specification below speaks of magnitudes only.
\<close>

section \<open>Magnitudes\<close>

text \<open>\<open>b.abs().partial_cmp(&a.abs()).unwrap_or(Equal)\<close>, the larger magnitude first.\<close>

definition abs_desc :: "nat \<times> f32 \<Rightarrow> nat \<times> f32 \<Rightarrow> ordering" where
  "abs_desc a b = f32_cmp (f32_abs (snd b)) (f32_abs (snd a))"

definition finite_scores :: "(nat \<times> f32) list \<Rightarrow> bool" where
  "finite_scores hits \<longleftrightarrow> (\<forall>h \<in> set hits. \<not> f32_is_nan (snd h))"

lemma f32_magnitude_abs [simp]: "f32_magnitude (f32_abs x) = f32_magnitude x"
proof -
  have "f32_magnitude x < 2 ^ 31" by (simp add: f32_magnitude_def)
  then have "unat (word_of_nat (f32_magnitude x) :: f32) = f32_magnitude x" by (simp add: unsigned_of_nat take_bit_eq_mod)
  then show ?thesis by (simp add: f32_abs_def f32_magnitude_def)
qed

lemma f32_abs_positive [simp]: "\<not> f32_negative (f32_abs x)"
proof -
  have "f32_magnitude x < 2 ^ 31" by (simp add: f32_magnitude_def)
  then have "unat (word_of_nat (f32_magnitude x) :: f32) = f32_magnitude x" by (simp add: unsigned_of_nat take_bit_eq_mod)
  then show ?thesis using \<open>f32_magnitude x < 2 ^ 31\<close> by (simp add: f32_abs_def f32_negative_def)
qed

lemma f32_less_abs:
  "\<not> f32_is_nan a \<Longrightarrow> \<not> f32_is_nan b \<Longrightarrow> f32_less (f32_abs a) (f32_abs b) \<longleftrightarrow> f32_magnitude a < f32_magnitude b"
  by (simp add: f32_less_def f32_key_def f32_is_nan_def)

text \<open>A key that decreases with the magnitude.\<close>

definition rank :: "nat \<times> f32 \<Rightarrow> int" where
  "rank h = - int (f32_magnitude (snd h))"

lemma abs_desc_key: "finite_scores hits \<Longrightarrow> cmp_by_key abs_desc rank (set hits)"
  by (auto simp: cmp_by_key_def finite_scores_def abs_desc_def f32_cmp_def f32_less_abs rank_def)

section \<open>Selection\<close>

text \<open>One element of least magnitude, which \<open>peek\<close> shows and \<open>pop\<close> removes.\<close>

fun heap_top :: "(nat \<times> f32) list \<Rightarrow> (nat \<times> f32) option" where
  "heap_top [] = None"
| "heap_top (h # hs) =
     (case heap_top hs of None \<Rightarrow> Some h
      | Some t \<Rightarrow> if f32_less (f32_abs (snd t)) (f32_abs (snd h)) then Some t else Some h)"

text \<open>
  The comparison of the heap unwraps \<open>partial_cmp\<close>: pushing on a heap that is not empty panics, here \<^const>\<open>None\<close>,
  when the new score or the compared one is a NaN. A heap of two or more elements holds no NaN.
\<close>

definition heap_push :: "nat \<times> f32 \<Rightarrow> (nat \<times> f32) list \<Rightarrow> (nat \<times> f32) list option" where
  "heap_push x heap =
     (if heap \<noteq> [] \<and> (f32_is_nan (snd x) \<or> (\<exists>h \<in> set heap. f32_is_nan (snd h))) then None else Some (heap @ [x]))"

definition offer :: "nat \<Rightarrow> nat \<times> f32 \<Rightarrow> (nat \<times> f32) list \<Rightarrow> (nat \<times> f32) list option" where
  "offer top_k x heap =
     (if length heap < top_k then heap_push x heap
      else (case heap_top heap of
          Some t \<Rightarrow> if f32_less (f32_abs (snd t)) (f32_abs (snd x)) then heap_push x (remove1 t heap) else Some heap
        | None \<Rightarrow> None))"

fun offer_all :: "nat \<Rightarrow> (nat \<times> f32) list \<Rightarrow> (nat \<times> f32) list \<Rightarrow> (nat \<times> f32) list option" where
  "offer_all top_k [] heap = Some heap"
| "offer_all top_k (x # xs) heap = (case offer top_k x heap of None \<Rightarrow> None | Some heap \<Rightarrow> offer_all top_k xs heap)"

definition top_k_by_abs :: "f32 list \<Rightarrow> nat \<Rightarrow> (nat \<times> f32) list option" where
  "top_k_by_abs scores top_k =
     (if top_k = 0 then Some []
      else map_option (sort_by abs_desc) (offer_all top_k (zip [0..<length scores] scores) []))"

section \<open>Specification\<close>

text \<open>The best \<open>k\<close> of the candidates, best first.\<close>

definition is_top_k :: "nat \<Rightarrow> nat set \<Rightarrow> (nat \<Rightarrow> f32) \<Rightarrow> (nat \<times> f32) list \<Rightarrow> bool" where
  "is_top_k k candidates score hits \<longleftrightarrow>
     distinct (map fst hits) \<and> fst ` set hits \<subseteq> candidates \<and> (\<forall>(f, s) \<in> set hits. s = score f) \<and>
     length hits = min k (card candidates) \<and> sorted_wrt (\<lambda>a b. rank a \<le> rank b) hits \<and>
     (\<forall>f \<in> candidates - fst ` set hits. \<forall>h \<in> set hits. f32_magnitude (score f) \<le> f32_magnitude (snd h))"

section \<open>When the selection panics\<close>

lemma heap_top_mem: "heap_top hs = Some t \<Longrightarrow> t \<in> set hs"
  by (induction hs arbitrary: t) (auto split: option.splits if_splits)

lemma heap_top_None: "heap_top hs = None \<longleftrightarrow> hs = []"
  by (cases hs) (auto split: option.splits)

lemma heap_top_least:
  "finite_scores hs \<Longrightarrow> heap_top hs = Some t \<Longrightarrow> h \<in> set hs \<Longrightarrow> f32_magnitude (snd t) \<le> f32_magnitude (snd h)"
proof (induction hs arbitrary: t h)
  case (Cons a hs)
  show ?case
  proof (cases "heap_top hs")
    case None
    with Cons.prems show ?thesis by (auto simp: heap_top_None)
  next
    case (Some u)
    have u: "\<not> f32_is_nan (snd u)" "\<not> f32_is_nan (snd a)"
      using Cons.prems(1) heap_top_mem [OF Some] by (auto simp: finite_scores_def)
    have "finite_scores hs" using Cons.prems(1) by (simp add: finite_scores_def)
    note IH = Cons.IH [OF this Some]
    note l = f32_less_abs [OF u]
    show ?thesis
    proof (cases "f32_less (f32_abs (snd u)) (f32_abs (snd a))")
      case True
      with Cons.prems(2) Some have "t = u" by simp
      with True l IH [of h] Cons.prems(3) show ?thesis by auto
    next
      case False
      with Cons.prems(2) Some have "t = a" by simp
      with False l IH [of h] Cons.prems(3) show ?thesis by auto
    qed
  qed
qed simp

lemma offer_full_Some:
  assumes "length heap = top_k" and "0 < top_k" and "finite_scores heap"
  shows "\<exists>heap'. offer top_k x heap = Some heap' \<and> length heap' = top_k \<and> finite_scores heap'"
proof -
  obtain t where t: "heap_top heap = Some t" using assms heap_top_None [of heap] by (cases "heap_top heap") auto
  from heap_top_mem [OF t] have m: "t \<in> set heap" .
  show ?thesis
  proof (cases "f32_less (f32_abs (snd t)) (f32_abs (snd x))")
    case True
    then have "\<not> f32_is_nan (snd x)" by (auto simp: f32_less_def f32_is_nan_def)
    moreover have "finite_scores (remove1 t heap)" using assms(3) notin_set_remove1 by (fastforce simp: finite_scores_def)
    ultimately show ?thesis using assms m True t
      by (auto simp: offer_def heap_push_def finite_scores_def length_remove1)
  qed (use assms t in \<open>auto simp: offer_def\<close>)
qed

lemma offer_all_None:
  "heap \<noteq> [] \<Longrightarrow> finite_scores heap \<Longrightarrow> length heap \<le> top_k \<Longrightarrow>
     offer_all top_k xs heap = None \<longleftrightarrow> (\<exists>x \<in> set (take (top_k - length heap) xs). f32_is_nan (snd x))"
proof (induction xs arbitrary: heap)
  case (Cons x xs)
  show ?case
  proof (cases "length heap < top_k")
    case True
    then obtain d where d: "top_k - length heap = Suc d" using Suc_diff_Suc by metis
    show ?thesis
    proof (cases "f32_is_nan (snd x)")
      case False
      with Cons.prems have p: "offer top_k x heap = Some (heap @ [x])" "finite_scores (heap @ [x])"
        using True by (auto simp: offer_def heap_push_def finite_scores_def)
      have "top_k - length (heap @ [x]) = d" using d by simp
      with Cons.IH [of "heap @ [x]"] p False True d show ?thesis by simp
    qed (use Cons.prems True d in \<open>simp add: offer_def heap_push_def\<close>)
  next
    case False
    with Cons.prems have l: "length heap = top_k" "0 < top_k" by auto
    from offer_full_Some [OF l Cons.prems(2)] obtain heap' where
      h: "offer top_k x heap = Some heap'" "length heap' = top_k" "finite_scores heap'" by blast
    then have "heap' \<noteq> []" using l by auto
    from Cons.IH [OF this h(3)] h l show ?thesis by simp
  qed
qed simp

lemma offer_all_single: "offer_all 1 xs [h] \<noteq> None"
  by (induction xs arbitrary: h) (auto simp: offer_def heap_push_def)

lemma top_k_panics_iff:
  "top_k_by_abs scores top_k = None \<longleftrightarrow>
     2 \<le> top_k \<and> 2 \<le> length scores \<and> (\<exists>s \<in> set (take top_k scores). f32_is_nan s)"
proof (cases "top_k \<le> 1 \<or> length scores \<le> 1")
  case True
  have "offer_all top_k (zip [0..<length scores] scores) [] \<noteq> None" if "0 < top_k"
  proof (cases scores)
    case (Cons s ss)
    let ?z = "zip [1..<Suc (length ss)] ss"
    have z: "zip [0..<length scores] scores = (0, s) # ?z" by (simp add: Cons upt_conv_Cons del: upt_Suc)
    have "offer top_k (0, s) [] = Some [(0, s)]" using that by (simp add: offer_def heap_push_def)
    moreover have "offer_all top_k ?z [(0, s)] \<noteq> None"
    proof (cases "top_k = 1")
      case True
      then show ?thesis by (simp only: offer_all_single not_False_eq_True)
    next
      case False
      with True Cons that have "ss = []" by auto
      then show ?thesis by simp
    qed
    ultimately show ?thesis by (simp add: z)
  qed simp
  with True show ?thesis by (auto simp: top_k_by_abs_def)
next
  case False
  then obtain s ss where s: "scores = s # ss" "ss \<noteq> []" by (cases scores) auto
  let ?z = "zip [1..<Suc (length ss)] ss"
  have z: "zip [0..<length scores] scores = (0, s) # ?z" by (simp add: s upt_conv_Cons del: upt_Suc)
  have o: "offer top_k (0, s) [] = Some [(0, s)]" using False by (simp add: offer_def heap_push_def)
  have n: "set (take top_k scores) = insert s (set (take (top_k - 1) ss))"
    using False s by (cases top_k) auto
  have "offer_all top_k ?z [(0, s)] = None \<longleftrightarrow> f32_is_nan s \<or> (\<exists>x \<in> set (take (top_k - 1) ss). f32_is_nan x)"
  proof (cases "f32_is_nan s")
    case True
    obtain y ys where "?z = y # ys" using s(2) by (cases ss) (auto simp: upt_conv_Cons neq_Nil_conv simp del: upt_Suc)
    then show ?thesis using True False by (simp add: offer_def heap_push_def)
  next
    case f: False
    then have "finite_scores [(0, s)]" by (simp add: finite_scores_def)
    have "map snd ?z = ss" by (simp del: upt_Suc)
    then have "set (take (top_k - 1) ss) = snd ` set (take (top_k - 1) ?z)" by (metis take_map set_map)
    with offer_all_None [of "[(0, s)]" top_k ?z] f False \<open>finite_scores [(0, s)]\<close> show ?thesis by simp
  qed
  then show ?thesis using False by (auto simp: top_k_by_abs_def z o n)
qed

section \<open>What is selected\<close>

definition selected :: "f32 list \<Rightarrow> nat \<Rightarrow> nat \<Rightarrow> (nat \<times> f32) list \<Rightarrow> bool" where
  "selected scores k m heap \<longleftrightarrow>
     distinct (map fst heap) \<and> (\<forall>(i, s) \<in> set heap. i < m \<and> s = scores ! i) \<and> length heap = min k m \<and>
     (\<forall>i < m. i \<notin> fst ` set heap \<longrightarrow> (\<forall>h \<in> set heap. f32_magnitude (scores ! i) \<le> f32_magnitude (snd h)))"

lemma selected_finite:
  "selected scores k m heap \<Longrightarrow> m \<le> length scores \<Longrightarrow> \<forall>s \<in> set scores. \<not> f32_is_nan s \<Longrightarrow> finite_scores heap"
  by (fastforce simp: selected_def finite_scores_def)

lemma selected_push:
  assumes "selected scores k m heap" and "m < k"
  shows "selected scores k (Suc m) (heap @ [(m, scores ! m)])"
proof -
  from assms have l: "length heap = m" and d: "distinct (map fst heap)" and
    e: "\<forall>(i, s) \<in> set heap. i < m \<and> s = scores ! i" by (simp_all add: selected_def)
  have "fst ` set heap \<subseteq> {..<m}" using e by auto
  moreover have "card (fst ` set heap) = m" using d l by (metis distinct_card length_map set_map)
  ultimately have "fst ` set heap = {..<m}" by (metis card_lessThan card_subset_eq finite_lessThan)
  then show ?thesis using l d e assms(2) by (auto simp: selected_def less_Suc_eq)
qed

lemma selected_keep:
  assumes "selected scores k m heap" and "k \<le> m" and "\<forall>h \<in> set heap. f32_magnitude (scores ! m) \<le> f32_magnitude (snd h)"
  shows "selected scores k (Suc m) heap"
  using assms by (auto simp: selected_def less_Suc_eq)

lemma selected_replace:
  assumes sel: "selected scores k m heap" and km: "k \<le> m" and t: "t \<in> set heap"
    and least: "\<forall>h \<in> set heap. f32_magnitude (snd t) \<le> f32_magnitude (snd h)"
    and more: "f32_magnitude (snd t) < f32_magnitude (scores ! m)"
  shows "selected scores k (Suc m) (remove1 t heap @ [(m, scores ! m)])"
proof -
  from sel have d: "distinct (map fst heap)" and e: "\<forall>(i, s) \<in> set heap. i < m \<and> s = scores ! i"
    and l: "length heap = k" and r: "\<forall>i < m. i \<notin> fst ` set heap \<longrightarrow> (\<forall>h \<in> set heap. f32_magnitude (scores ! i) \<le> f32_magnitude (snd h))"
    using km by (simp_all add: selected_def)
  have dh: "distinct heap" using d by (simp add: distinct_map)
  have inj: "inj_on fst (set heap)" using d by (simp add: distinct_map)
  have s: "set (remove1 t heap) = set heap - {t}" using dh by (rule set_remove1_eq)
  have f: "fst ` (set heap - {t}) = fst ` set heap - {fst t}" using inj t by (auto simp: inj_on_def)
  have "distinct (map fst (remove1 t heap))"
    using inj dh s by (simp add: distinct_map inj_on_subset distinct_remove1)
  moreover have "m \<notin> fst ` set heap" using e by auto
  moreover have "f32_magnitude (scores ! i) \<le> f32_magnitude (snd h)"
    if i: "i < m" "i \<notin> fst ` (set heap - {t})" and h: "h \<in> insert (m, scores ! m) (set heap - {t})" for i h
  proof -
    have "f32_magnitude (scores ! i) \<le> f32_magnitude (snd t)"
    proof (cases "i = fst t")
      case True
      then show ?thesis using e t by (cases t) auto
    next
      case False
      with i(2) f have "i \<notin> fst ` set heap" by auto
      then show ?thesis using r i(1) t by blast
    qed
    also have "f32_magnitude (snd t) \<le> f32_magnitude (snd h)" using h least more by auto
    finally show ?thesis .
  qed
  moreover have "length (remove1 t heap) + 1 = k" using t l length_pos_if_in_set [OF t] by (simp add: length_remove1)
  ultimately show ?thesis using e km s by (fastforce simp: selected_def less_Suc_eq)
qed

lemma offer_selected:
  assumes sel: "selected scores k m heap" and m: "m < length scores" and k: "0 < k"
    and nan: "\<forall>s \<in> set scores. \<not> f32_is_nan s"
  shows "\<exists>heap'. offer k (m, scores ! m) heap = Some heap' \<and> selected scores k (Suc m) heap'"
proof -
  have fin: "finite_scores heap" using selected_finite [OF sel _ nan] m by simp
  have x: "\<not> f32_is_nan (scores ! m)" using nan m by simp
  have l: "length heap = min k m" using sel by (simp add: selected_def)
  show ?thesis
  proof (cases "m < k")
    case True
    then have "offer k (m, scores ! m) heap = Some (heap @ [(m, scores ! m)])"
      using fin x l by (auto simp: offer_def heap_push_def finite_scores_def)
    with selected_push [OF sel True] show ?thesis by blast
  next
    case False
    with l k have "length heap = k" "heap \<noteq> []" by auto
    then obtain t where t: "heap_top heap = Some t" using heap_top_None [of heap] by auto
    from heap_top_mem [OF t] have th: "t \<in> set heap" .
    have least: "\<forall>h \<in> set heap. f32_magnitude (snd t) \<le> f32_magnitude (snd h)" using heap_top_least [OF fin t] by blast
    have less: "f32_less (f32_abs (snd t)) (f32_abs (scores ! m)) \<longleftrightarrow> f32_magnitude (snd t) < f32_magnitude (scores ! m)"
      using fin th x f32_less_abs [of "snd t" "scores ! m"] by (simp add: finite_scores_def)
    show ?thesis
    proof (cases "f32_magnitude (snd t) < f32_magnitude (scores ! m)")
      case True
      have "\<forall>h \<in> set (remove1 t heap). \<not> f32_is_nan (snd h)" using fin by (meson finite_scores_def notin_set_remove1)
      then have "offer k (m, scores ! m) heap = Some (remove1 t heap @ [(m, scores ! m)])"
        using True less t x \<open>length heap = k\<close> by (auto simp: offer_def heap_push_def)
      with selected_replace [OF sel _ th least True] False show ?thesis by auto
    next
      case le: False
      then have "offer k (m, scores ! m) heap = Some heap"
        using less t \<open>length heap = k\<close> by (simp add: offer_def)
      moreover have "selected scores k (Suc m) heap"
        using selected_keep [OF sel] False le least by (meson le_trans not_le)
      ultimately show ?thesis by blast
    qed
  qed
qed

lemma offer_all_selected:
  "selected scores k m heap \<Longrightarrow> m \<le> length scores \<Longrightarrow> 0 < k \<Longrightarrow> \<forall>s \<in> set scores. \<not> f32_is_nan s \<Longrightarrow>
     \<exists>heap'. offer_all k (zip [m..<length scores] (drop m scores)) heap = Some heap' \<and> selected scores k (length scores) heap'"
proof (induction "length scores - m" arbitrary: m heap)
  case (Suc n)
  then have m: "m < length scores" by simp
  from offer_selected [OF Suc.prems(1) m Suc.prems(3,4)] obtain heap1 where
    h: "offer k (m, scores ! m) heap = Some heap1" "selected scores k (Suc m) heap1" by blast
  have "zip [m..<length scores] (drop m scores) = (m, scores ! m) # zip [Suc m..<length scores] (drop (Suc m) scores)"
    using m by (simp add: upt_conv_Cons Cons_nth_drop_Suc [symmetric])
  with Suc.hyps(1) [of "Suc m" heap1] Suc.hyps(2) h Suc.prems(3,4) m show ?case by auto
qed auto

lemma selected_is_top_k:
  assumes "selected scores k (length scores) heap" and "mset hits = mset heap"
    and "sorted_wrt (\<lambda>a b. rank a \<le> rank b) hits"
  shows "is_top_k k {..<length scores} ((!) scores) hits"
proof -
  have s: "set hits = set heap" and l: "length hits = length heap"
    using assms(2) by (metis set_mset_mset, metis size_mset)
  have "distinct (map fst hits)" using assms(1,2) by (metis selected_def distinct_map mset_eq_imp_distinct_iff set_mset_mset)
  with assms(1,3) s l show ?thesis by (fastforce simp: is_top_k_def selected_def)
qed

lemma sort_by_abs_desc:
  assumes "finite_scores hits"
  shows "mset (sort_by abs_desc hits) = mset hits" and "sorted_wrt (\<lambda>a b. rank a \<le> rank b) (sort_by abs_desc hits)"
proof -
  have e: "sort_by abs_desc hits = sort_key rank hits" by (rule sort_by_sort_key [OF abs_desc_key [OF assms]])
  show "mset (sort_by abs_desc hits) = mset hits" by (simp add: e)
  have "sorted (map rank (sort_key rank hits))" by (rule sorted_sort_key)
  then show "sorted_wrt (\<lambda>a b. rank a \<le> rank b) (sort_by abs_desc hits)" by (simp add: e sorted_map)
qed

lemma top_k_selects:
  assumes "\<forall>s \<in> set scores. \<not> f32_is_nan s"
  shows "\<exists>hits. top_k_by_abs scores k = Some hits \<and> is_top_k k {..<length scores} ((!) scores) hits"
proof (cases "k = 0")
  case True
  then show ?thesis by (simp add: top_k_by_abs_def is_top_k_def)
next
  case False
  have "selected scores k 0 []" by (simp add: selected_def)
  from offer_all_selected [OF this _ _ assms] False obtain heap where
    h: "offer_all k (zip [0..<length scores] scores) [] = Some heap" "selected scores k (length scores) heap" by auto
  have "finite_scores heap" by (rule selected_finite [OF h(2) _ assms]) simp
  from selected_is_top_k [OF h(2) sort_by_abs_desc [OF this]] h(1) False show ?thesis by (simp add: top_k_by_abs_def)
qed

end
