(* ===== verification/Half.thy ===== *)
theory Half
  imports VindexFormat Rust_Float
begin

text \<open>
  Half-precision floats (\<open>crates/larql-models/src/quant/half.rs\<close>): conversion to and from single precision on
  the bit patterns. The fields of a pattern are quotients and remainders by powers of two; joining fields that do
  not overlap is addition.
\<close>

type_synonym f16 = "16 word"

definition f16_sign :: "f16 \<Rightarrow> nat" where
  "f16_sign b = unat b div 2 ^ 15"

definition f16_exp :: "f16 \<Rightarrow> nat" where
  "f16_exp b = unat b div 2 ^ 10 mod 32"

definition f16_mant :: "f16 \<Rightarrow> nat" where
  "f16_mant b = unat b mod 2 ^ 10"

text \<open>
  The loop that shifts the mantissa of a subnormal up to its implicit bit; below \<open>2 ^ 11\<close> that bit is set when
  the number has reached \<open>2 ^ 10\<close>.
\<close>

function normalise :: "nat \<Rightarrow> nat \<Rightarrow> nat \<times> nat" where
  "normalise m e = (if m = 0 \<or> 2 ^ 10 \<le> m then (m, e) else normalise (m * 2) (e + 1))"
  by pat_completeness auto

termination by (relation "measure (\<lambda>(m, e). 2 ^ 10 - m)") auto

declare normalise.simps [simp del]

definition f16_to_f32 :: "f16 \<Rightarrow> f32" where
  "f16_to_f32 b =
     (let sign = f16_sign b * 2 ^ 31; ex = f16_exp b; mant = f16_mant b in
      if ex = 0 then
        (if mant = 0 then word_of_nat sign
         else (case normalise mant 1 of (m, e) \<Rightarrow> word_of_nat (sign + (114 - e) * 2 ^ 23 + m mod 2 ^ 10 * 2 ^ 13)))
      else if ex = 31 then word_of_nat (sign + 255 * 2 ^ 23 + mant * 2 ^ 13)
      else word_of_nat (sign + (ex + 127 - 15) * 2 ^ 23 + mant * 2 ^ 13))"

definition f32_to_f16 :: "f32 \<Rightarrow> f16" where
  "f32_to_f16 x =
     (let sign = unat x div 2 ^ 31 * 2 ^ 15; ex = unat x div 2 ^ 23 mod 2 ^ 8; mant = unat x mod 2 ^ 23;
          exp16 = int ex - 127 + 15 in
      if ex = 255 then word_of_nat (sign + 0x7C00 + (if mant \<noteq> 0 then 0x200 else 0))
      else if 31 \<le> exp16 then word_of_nat (sign + 0x7C00)
      else if exp16 \<le> 0 then word_of_nat sign
      else word_of_nat (sign + nat exp16 * 2 ^ 10 + mant div 2 ^ 13))"

fun decode_f16 :: "string \<Rightarrow> f32 list" where
  "decode_f16 (a # b # rest) = f16_to_f32 (word_of_nat (of_le [a, b])) # decode_f16 rest"
| "decode_f16 _ = []"

definition encode_f16 :: "f32 list \<Rightarrow> string" where
  "encode_f16 data = concat (map (\<lambda>v. le_bytes 2 (unat (f32_to_f16 v))) data)"

section \<open>Fields\<close>

lemma unat_f32: "n < 2 ^ 32 \<Longrightarrow> unat (word_of_nat n :: f32) = n"
  by (simp add: unsigned_of_nat take_bit_eq_mod)

lemma unat_f16: "n < 2 ^ 16 \<Longrightarrow> unat (word_of_nat n :: f16) = n"
  by (simp add: unsigned_of_nat take_bit_eq_mod)

lemma f16_fields: "unat b = f16_sign b * 2 ^ 15 + f16_exp b * 2 ^ 10 + f16_mant b"
  "f16_sign b < 2" "f16_exp b < 32" "f16_mant b < 1024"
proof -
  have "unat b < 2 ^ 16" using unsigned_less [of b, where ?'a = nat] by simp
  then show "f16_sign b < 2" unfolding f16_sign_def by (simp add: less_mult_imp_div_less)
  show "f16_exp b < 32" "f16_mant b < 1024" by (simp_all add: f16_exp_def f16_mant_def)
  define t where "t = unat b"
  define h where "h = t div 2 ^ 10"
  have "t = h * 1024 + t mod 2 ^ 10" using div_mult_mod_eq [of t "2 ^ 10"] by (simp add: h_def)
  moreover have "h = h div 32 * 32 + h mod 32" by (rule div_mult_mod_eq [symmetric])
  moreover have "h div 32 = t div 2 ^ 15" by (simp add: h_def div_mult2_eq [symmetric])
  ultimately have "t = t div 2 ^ 15 * 32768 + h mod 32 * 1024 + t mod 2 ^ 10" by linarith
  then have "t = t div 2 ^ 15 * 2 ^ 15 + t div 2 ^ 10 mod 32 * 2 ^ 10 + t mod 2 ^ 10" by (simp add: h_def)
  then show "unat b = f16_sign b * 2 ^ 15 + f16_exp b * 2 ^ 10 + f16_mant b"
    by (simp only: f16_sign_def f16_exp_def f16_mant_def t_def)
qed

lemma div_join: "m < d \<Longrightarrow> (q * d + m) div d = q" for d :: nat
  by simp

lemma mod_join: "m < d \<Longrightarrow> (q * d + m) mod d = m" for d :: nat
  by simp

text \<open>A single-precision pattern put together from its fields.\<close>

lemma f32_join:
  assumes "s < 2" and "e < 256" and "m < 2 ^ 23"
  shows "unat (word_of_nat (s * 2 ^ 31 + e * 2 ^ 23 + m) :: f32) = s * 2 ^ 31 + e * 2 ^ 23 + m"
    and "(s * 2 ^ 31 + e * 2 ^ 23 + m) div 2 ^ 31 = s"
    and "(s * 2 ^ 31 + e * 2 ^ 23 + m) mod 2 ^ 31 = e * 2 ^ 23 + m"
    and "(e * 2 ^ 23 + m) div 2 ^ 23 = e" and "(e * 2 ^ 23 + m) mod 2 ^ 23 = m"
    and "(s * 2 ^ 31 + e * 2 ^ 23 + m) div 2 ^ 23 mod 2 ^ 8 = e" and "(s * 2 ^ 31 + e * 2 ^ 23 + m) mod 2 ^ 23 = m"
proof -
  have em: "e * 2 ^ 23 + m < 2 ^ 31" using assms by simp
  then have "s * 2 ^ 31 + e * 2 ^ 23 + m < 2 ^ 32" using assms(1) by (simp add: less_2_cases_iff) auto
  then show "unat (word_of_nat (s * 2 ^ 31 + e * 2 ^ 23 + m) :: f32) = s * 2 ^ 31 + e * 2 ^ 23 + m" by (rule unat_f32)
  show "(s * 2 ^ 31 + e * 2 ^ 23 + m) div 2 ^ 31 = s" using em by (simp add: add.assoc)
  show "(s * 2 ^ 31 + e * 2 ^ 23 + m) mod 2 ^ 31 = e * 2 ^ 23 + m" using em by (simp add: add.assoc)
  show "(e * 2 ^ 23 + m) div 2 ^ 23 = e" "(e * 2 ^ 23 + m) mod 2 ^ 23 = m" using assms(3) by simp_all
  have j: "s * 2 ^ 31 + e * 2 ^ 23 + m = (s * 2 ^ 8 + e) * 2 ^ 23 + m" by simp
  have "(s * 2 ^ 31 + e * 2 ^ 23 + m) div 2 ^ 23 = s * 2 ^ 8 + e" unfolding j by (rule div_join) (rule assms)
  moreover have "(s * 2 ^ 8 + e) mod 2 ^ 8 = e" by (rule mod_join) (use assms in simp)
  ultimately show "(s * 2 ^ 31 + e * 2 ^ 23 + m) div 2 ^ 23 mod 2 ^ 8 = e" by (simp only:)
  show "(s * 2 ^ 31 + e * 2 ^ 23 + m) mod 2 ^ 23 = m" unfolding j by (rule mod_join) (rule assms)
qed

section \<open>Widening is exact\<close>

text \<open>The value of a finite half float, as a numerator over a denominator.\<close>

definition f16_ratio :: "f16 \<Rightarrow> nat \<times> nat" where
  "f16_ratio b = (if f16_exp b = 0 then (f16_mant b, 2 ^ 24) else ((2 ^ 10 + f16_mant b) * 2 ^ f16_exp b, 2 ^ 25))"

lemma normalise_result:
  "0 < m \<Longrightarrow> m < 2 ^ 11 \<Longrightarrow> normalise m e = (m', e') \<Longrightarrow>
     2 ^ 10 \<le> m' \<and> m' < 2 ^ 11 \<and> e \<le> e' \<and> m' = m * 2 ^ (e' - e)"
proof (induction m e arbitrary: m' e' rule: normalise.induct)
  case (1 m e)
  show ?case
  proof (cases "2 ^ 10 \<le> m")
    case True
    with 1(3,4) show ?thesis by (simp add: normalise.simps [of m e])
  next
    case False
    with 1(2,4) have n: "normalise (m * 2) (e + 1) = (m', e')" by (simp add: normalise.simps [of m e])
    have "0 < m * 2" "m * 2 < 2 ^ 11" using 1(2) False by simp_all
    from 1(1) [OF _ this n] False 1(2) have r: "2 ^ 10 \<le> m' \<and> m' < 2 ^ 11 \<and> e + 1 \<le> e' \<and> m' = m * 2 * 2 ^ (e' - (e + 1))"
      by simp
    then have "e' - e = Suc (e' - (e + 1))" by arith
    with r show ?thesis by simp
  qed
qed

lemma f32_of_fields:
  fixes s e m :: nat
  assumes "s < 2" and "0 < e" and "e < 150" and "m < 2 ^ 23"
  defines "x \<equiv> word_of_nat (s * 2 ^ 31 + e * 2 ^ 23 + m) :: f32"
  shows "f32_ratio x = (2 ^ 23 + m, 2 ^ (150 - e))" and "f32_negative x \<longleftrightarrow> s = 1"
    and "\<not> f32_is_nan x" and "\<not> f32_is_infinite x"
proof -
  have e: "e < 256" using assms(3) by simp
  note j = f32_join [OF assms(1) e assms(4)]
  have mag: "f32_magnitude x = e * 2 ^ 23 + m" unfolding f32_magnitude_def x_def j(1) by (rule j(3))
  have "e * 2 ^ 23 + m < 255 * 2 ^ 23" using assms(3,4) by simp
  then show "\<not> f32_is_nan x" "\<not> f32_is_infinite x" by (simp_all add: f32_is_nan_def f32_is_infinite_def mag)
  have "2 ^ 31 \<le> s * 2 ^ 31 + e * 2 ^ 23 + m \<longleftrightarrow> s = 1" using assms(1,3,4) by (cases s) auto
  then show "f32_negative x \<longleftrightarrow> s = 1" unfolding f32_negative_def x_def j(1) .
  have "int (max e 1) - 150 = - int (150 - e)" "\<not> 0 \<le> - int (150 - e)" using assms(2,3) by simp_all
  then show "f32_ratio x = (2 ^ 23 + m, 2 ^ (150 - e))"
    unfolding f32_ratio_def mag Let_def j(4,5) using assms(2) by (simp add: add.commute)
qed

lemma widen_value:
  assumes "f16_exp b \<noteq> 31"
  shows "fst (f32_ratio (f16_to_f32 b)) * snd (f16_ratio b) = fst (f16_ratio b) * snd (f32_ratio (f16_to_f32 b))"
    and "f32_negative (f16_to_f32 b) \<longleftrightarrow> f16_sign b = 1"
    and "\<not> f32_is_nan (f16_to_f32 b)" and "\<not> f32_is_infinite (f16_to_f32 b)"
proof -
  let ?s = "f16_sign b" and ?e = "f16_exp b" and ?m = "f16_mant b"
  note f = f16_fields(2-4) [of b]
  show "fst (f32_ratio (f16_to_f32 b)) * snd (f16_ratio b) = fst (f16_ratio b) * snd (f32_ratio (f16_to_f32 b))"
    and "f32_negative (f16_to_f32 b) \<longleftrightarrow> ?s = 1"
    and "\<not> f32_is_nan (f16_to_f32 b)" and "\<not> f32_is_infinite (f16_to_f32 b)"
  proof (atomize (full), goal_cases)
    case 1
    consider (zero) "?e = 0" "?m = 0" | (sub) "?e = 0" "0 < ?m" | (normal) "?e \<noteq> 0" by auto
    then show ?case
    proof cases
      case zero
      have w: "f16_to_f32 b = word_of_nat (?s * 2 ^ 31)" using zero by (simp add: f16_to_f32_def Let_def)
      have "unat (f16_to_f32 b) = ?s * 2 ^ 31" unfolding w by (rule unat_f32) (use f in simp)
      then have "f32_magnitude (f16_to_f32 b) = 0" "f32_negative (f16_to_f32 b) \<longleftrightarrow> ?s = 1"
        using f(1) by (auto simp: f32_magnitude_def f32_negative_def)
      with zero show ?thesis by (simp add: f16_ratio_def f32_ratio_def f32_is_nan_def f32_is_infinite_def)
    next
      case sub
      obtain m e where n: "normalise ?m 1 = (m, e)" by fastforce
      from normalise_result [OF sub(2) _ n] f(3) have r: "2 ^ 10 \<le> m" "m < 2 ^ 11" "1 \<le> e" "m = ?m * 2 ^ (e - 1)" by simp_all
      have "e - 1 < 11"
      proof (rule ccontr)
        assume "\<not> e - 1 < 11"
        then have "(2 :: nat) ^ 11 \<le> 2 ^ (e - 1)" by (intro power_increasing) simp_all
        also have "\<dots> \<le> ?m * 2 ^ (e - 1)" using sub(2) by simp
        finally show False using r(2,4) by simp
      qed
      then have e: "e < 12" by simp
      have w: "f16_to_f32 b = word_of_nat (?s * 2 ^ 31 + (114 - e) * 2 ^ 23 + m mod 2 ^ 10 * 2 ^ 13)"
        using sub n by (simp add: f16_to_f32_def Let_def)
      have mm: "m mod 2 ^ 10 = m - 2 ^ 10" using r(1,2) by (simp add: mod_nat_eqI le_mod_geq)
      have "m mod 2 ^ 10 * 2 ^ 13 < 2 ^ 23" unfolding mm using r(1,2) by simp
      note x = f32_of_fields [OF f(1) _ _ this, of "114 - e", folded w]
      have ratio: "f32_ratio (f16_to_f32 b) = (2 ^ 23 + (m - 2 ^ 10) * 2 ^ 13, 2 ^ (150 - (114 - e)))"
        using x(1) e unfolding mm by simp
      have v: "2 ^ 23 + (m - 2 ^ 10) * 2 ^ 13 = m * 2 ^ 13" using r(1) by (simp add: diff_mult_distrib)
      have "150 - (114 - e) = (e - 1) + 37" using e r(3) by simp
      then have "(2 :: nat) ^ (150 - (114 - e)) = 2 ^ (e - 1) * 2 ^ 37" by (simp only: power_add)
      moreover have "(2 :: nat) ^ 13 * 2 ^ 24 = 2 ^ 37" by simp
      ultimately have "m * 2 ^ 13 * 2 ^ 24 = ?m * 2 ^ (150 - (114 - e))" by (simp only: r(4) mult.assoc)
      then show ?thesis using x(2-4) e sub unfolding ratio v by (simp add: f16_ratio_def)
    next
      case normal
      have w: "f16_to_f32 b = word_of_nat (?s * 2 ^ 31 + (?e + 127 - 15) * 2 ^ 23 + ?m * 2 ^ 13)"
        using normal assms by (simp add: f16_to_f32_def Let_def)
      have "?m * 2 ^ 13 < 2 ^ 23" using f(3) by simp
      note x = f32_of_fields [OF f(1) _ _ this, of "?e + 127 - 15", folded w]
      have e: "?e < 31" using f(2) assms by simp
      have ratio: "f32_ratio (f16_to_f32 b) = (2 ^ 23 + ?m * 2 ^ 13, 2 ^ (150 - (?e + 127 - 15)))" using x(1) e by simp
      have "2 ^ 23 + ?m * 2 ^ 13 = (2 ^ 10 + ?m) * (2 :: nat) ^ 13" by (simp add: algebra_simps)
      moreover have "(2 :: nat) ^ ?e * 2 ^ (150 - (?e + 127 - 15)) = 2 ^ 13 * 2 ^ 25"
        using e by (simp only: power_add [symmetric]) simp
      ultimately show ?thesis using x(2-4) e normal unfolding ratio by (simp only: f16_ratio_def if_False fst_conv snd_conv mult.assoc) simp
    qed
  qed
qed

section \<open>Narrowing\<close>

lemma f32_to_f16_fields:
  fixes s e m :: nat
  assumes "s < 2" and "e < 256" and "m < 2 ^ 23"
  shows "f32_to_f16 (word_of_nat (s * 2 ^ 31 + e * 2 ^ 23 + m)) =
     word_of_nat (if e = 255 then s * 2 ^ 15 + 0x7C00 + (if m \<noteq> 0 then 0x200 else 0)
       else if 143 \<le> e then s * 2 ^ 15 + 0x7C00
       else if e \<le> 112 then s * 2 ^ 15
       else s * 2 ^ 15 + (e - 112) * 2 ^ 10 + m div 2 ^ 13)"
proof -
  note j = f32_join [OF assms]
  have k: "31 \<le> int e - 127 + 15 \<longleftrightarrow> 143 \<le> e" "int e - 127 + 15 \<le> 0 \<longleftrightarrow> e \<le> 112" "nat (int e - 127 + 15) = e - 112"
    by linarith+
  show ?thesis by (simp only: f32_to_f16_def Let_def j(1,2,6,7) k split: if_split) simp
qed

lemma f16_join: "word_of_nat (f16_sign b * 2 ^ 15 + f16_exp b * 2 ^ 10 + f16_mant b) = b"
  by (simp only: f16_fields(1) [symmetric] of_nat_unat ucast_id)

lemma narrow_widen:
  "f32_to_f16 (f16_to_f32 b) =
     (if f16_exp b = 31 \<and> f16_mant b \<noteq> 0 then word_of_nat (f16_sign b * 2 ^ 15 + 0x7E00)
      else if f16_exp b = 0 then word_of_nat (f16_sign b * 2 ^ 15) else b)"
proof -
  let ?s = "f16_sign b" and ?e = "f16_exp b" and ?m = "f16_mant b"
  note f = f16_fields(2-4) [of b]
  have m: "?m * 2 ^ 13 < 2 ^ 23" using f(3) by simp
  consider (zero) "?e = 0" "?m = 0" | (sub) "?e = 0" "0 < ?m" | (top) "?e = 31" | (normal) "?e \<noteq> 0" "?e \<noteq> 31" by auto
  then show ?thesis
  proof cases
    case zero
    have "f16_to_f32 b = word_of_nat (?s * 2 ^ 31 + 0 * 2 ^ 23 + 0)" using zero by (simp add: f16_to_f32_def Let_def)
    then show ?thesis using f32_to_f16_fields [OF f(1), of 0 0] zero by simp
  next
    case sub
    obtain m e where n: "normalise ?m 1 = (m, e)" by fastforce
    from normalise_result [OF sub(2) _ n] f(3) have r: "2 ^ 10 \<le> m" "1 \<le> e" "m = ?m * 2 ^ (e - 1)" by simp_all
    have "e \<noteq> 1" using r f(3) by auto
    then have e: "114 - e \<le> 112" "114 - e \<noteq> 255" "\<not> 143 \<le> 114 - e" using r(2) by simp_all
    have "m mod 2 ^ 10 * 2 ^ 13 < 2 ^ 23"
    proof -
      have "m mod 2 ^ 10 < 2 ^ 10" by (rule mod_less_divisor) simp
      then show ?thesis by simp
    qed
    moreover have "f16_to_f32 b = word_of_nat (?s * 2 ^ 31 + (114 - e) * 2 ^ 23 + m mod 2 ^ 10 * 2 ^ 13)"
      using sub n by (simp add: f16_to_f32_def Let_def)
    ultimately have "f32_to_f16 (f16_to_f32 b) = word_of_nat (?s * 2 ^ 15)"
      using f32_to_f16_fields [OF f(1), of "114 - e" "m mod 2 ^ 10 * 2 ^ 13"] e by (simp only: if_False if_True)
    then show ?thesis using sub by simp
  next
    case top
    have "f16_to_f32 b = word_of_nat (?s * 2 ^ 31 + 255 * 2 ^ 23 + ?m * 2 ^ 13)" using top by (simp add: f16_to_f32_def Let_def)
    with f32_to_f16_fields [OF f(1) _ m, of 255] top f16_join [of b] show ?thesis by (cases "?m = 0") simp_all
  next
    case normal
    have "f16_to_f32 b = word_of_nat (?s * 2 ^ 31 + (?e + 127 - 15) * 2 ^ 23 + ?m * 2 ^ 13)"
      using normal by (simp add: f16_to_f32_def Let_def)
    moreover have "?e + 127 - 15 < 256" "?e + 127 - 15 \<noteq> 255" "\<not> 143 \<le> ?e + 127 - 15" "\<not> ?e + 127 - 15 \<le> 112" "?e + 127 - 15 - 112 = ?e"
      using f(2) normal by simp_all
    moreover have "?m * 2 ^ 13 div 2 ^ 13 = ?m" by simp
    ultimately have "f32_to_f16 (f16_to_f32 b) = word_of_nat (?s * 2 ^ 15 + ?e * 2 ^ 10 + ?m)"
      using f32_to_f16_fields [OF f(1) _ m, of "?e + 127 - 15"] by (simp only: if_False)
    then show ?thesis using normal f16_join [of b] by simp
  qed
qed

text \<open>A normal number in the range of the half floats is cut off towards zero.\<close>

lemma narrow_truncates:
  fixes s e m :: nat
  assumes "s < 2" and "112 < e" and "e < 143" and "m < 2 ^ 23"
  shows "f16_to_f32 (f32_to_f16 (word_of_nat (s * 2 ^ 31 + e * 2 ^ 23 + m))) = word_of_nat (s * 2 ^ 31 + e * 2 ^ 23 + m div 2 ^ 13 * 2 ^ 13)"
proof -
  define h where "h = m div 2 ^ 13"
  have h: "h < 2 ^ 10" using assms(4) by (simp add: h_def less_mult_imp_div_less)
  have e: "e < 256" "e \<noteq> 255" "\<not> 143 \<le> e" "\<not> e \<le> 112" using assms(2,3) by simp_all
  have n: "f32_to_f16 (word_of_nat (s * 2 ^ 31 + e * 2 ^ 23 + m)) = word_of_nat (s * 2 ^ 15 + (e - 112) * 2 ^ 10 + h)"
    using f32_to_f16_fields [OF assms(1) e(1) assms(4)] e by (simp only: if_False h_def)
  define b :: f16 where "b = word_of_nat (s * 2 ^ 15 + (e - 112) * 2 ^ 10 + h)"
  have le: "(e - 112) * 2 ^ 10 + h < 2 ^ 15" using h assms(2,3) by simp
  have "s * 2 ^ 15 + (e - 112) * 2 ^ 10 + h < 2 ^ 16" using le assms(1) by (cases s) auto
  then have b: "unat b = s * 2 ^ 15 + (e - 112) * 2 ^ 10 + h" unfolding b_def by (rule unat_f16)
  have "f16_sign b = s" using le by (simp add: f16_sign_def b add.assoc)
  moreover have "f16_mant b = h"
  proof -
    have "s * 2 ^ 15 + (e - 112) * 2 ^ 10 + h = (s * 32 + (e - 112)) * 2 ^ 10 + h" by simp
    then show ?thesis unfolding f16_mant_def b using mod_join [OF h] by (simp only:)
  qed
  moreover have "f16_exp b = e - 112"
  proof -
    have "s * 2 ^ 15 + (e - 112) * 2 ^ 10 + h = (s * 32 + (e - 112)) * 2 ^ 10 + h" by simp
    then have "unat b div 2 ^ 10 = s * 32 + (e - 112)" unfolding b using div_join [OF h] by (simp only:)
    moreover have "(s * 32 + (e - 112)) mod 32 = e - 112" by (rule mod_join) (use assms(3) in simp)
    ultimately show ?thesis unfolding f16_exp_def by (simp only:)
  qed
  moreover have "e - 112 \<noteq> 0" "e - 112 \<noteq> 31" "e - 112 + 127 - 15 = e" using assms(2,3) by simp_all
  ultimately have "f16_to_f32 b = word_of_nat (s * 2 ^ 31 + e * 2 ^ 23 + h * 2 ^ 13)"
    by (simp only: f16_to_f32_def Let_def if_False)
  then show ?thesis unfolding n b_def h_def .
qed

lemma f16_of_fields:
  fixes s e m :: nat
  assumes "s < 2" "e < 32" "m < 2 ^ 10"
  shows "f16_sign (word_of_nat (s * 2 ^ 15 + e * 2 ^ 10 + m)) = s" "f16_exp (word_of_nat (s * 2 ^ 15 + e * 2 ^ 10 + m)) = e"
    "f16_mant (word_of_nat (s * 2 ^ 15 + e * 2 ^ 10 + m)) = m"
proof -
  have em: "e * 2 ^ 10 + m < 2 ^ 15" using assms by simp
  then have "s * 2 ^ 15 + e * 2 ^ 10 + m < 2 ^ 16" using assms(1) by (cases s) auto
  then have b: "unat (word_of_nat (s * 2 ^ 15 + e * 2 ^ 10 + m) :: f16) = s * 2 ^ 15 + e * 2 ^ 10 + m" by (rule unat_f16)
  show "f16_sign (word_of_nat (s * 2 ^ 15 + e * 2 ^ 10 + m)) = s"
  proof -
    have "(s * 2 ^ 15 + e * 2 ^ 10 + m) div 2 ^ 15 = s" using em by (simp add: add.assoc)
    then show ?thesis by (simp only: f16_sign_def b)
  qed
  have j: "s * 2 ^ 15 + e * 2 ^ 10 + m = (s * 32 + e) * 2 ^ 10 + m" by simp
  show "f16_mant (word_of_nat (s * 2 ^ 15 + e * 2 ^ 10 + m)) = m"
  proof -
    have "(s * 2 ^ 15 + e * 2 ^ 10 + m) mod 2 ^ 10 = m" unfolding j by (rule mod_join) (rule assms)
    then show ?thesis by (simp only: f16_mant_def b)
  qed
  have "(s * 2 ^ 15 + e * 2 ^ 10 + m) div 2 ^ 10 = s * 32 + e" unfolding j by (rule div_join) (rule assms)
  moreover have "(s * 32 + e) mod 32 = e" by (rule mod_join) (rule assms)
  ultimately show "f16_exp (word_of_nat (s * 2 ^ 15 + e * 2 ^ 10 + m)) = e" by (simp only: f16_exp_def b)
qed

text \<open>What was narrowed once is not changed by widening and narrowing it again.\<close>

lemma narrow_once: "f32_to_f16 (f16_to_f32 (f32_to_f16 x)) = f32_to_f16 x"
proof -
  define s e m where "s = unat x div 2 ^ 31" "e = unat x div 2 ^ 23 mod 2 ^ 8" "m = unat x mod 2 ^ 23"
  have "unat x < 2 ^ 32" using unsigned_less [of x, where ?'a = nat] by simp
  then have lt: "s < 2" "e < 256" "m < 2 ^ 23" by (simp_all add: s_e_m_def less_mult_imp_div_less)
  have overflow: "f32_to_f16 (f16_to_f32 (word_of_nat (s * 2 ^ 15 + 31 * 2 ^ 10 + k))) = word_of_nat (s * 2 ^ 15 + 31 * 2 ^ 10 + k)"
    if "k = 0 \<or> k = 0x200" for k
    using f16_of_fields [OF lt(1), of 31 k] that by (auto simp: narrow_widen)
  have zero: "f32_to_f16 (f16_to_f32 (word_of_nat (s * 2 ^ 15))) = word_of_nat (s * 2 ^ 15)"
    using f16_of_fields [OF lt(1), of 0 0] by (simp add: narrow_widen)
  have normal: "f32_to_f16 (f16_to_f32 (word_of_nat (s * 2 ^ 15 + (e - 112) * 2 ^ 10 + m div 2 ^ 13))) =
      word_of_nat (s * 2 ^ 15 + (e - 112) * 2 ^ 10 + m div 2 ^ 13)" if "112 < e" "e < 143"
  proof -
    have "e - 112 < 32" "m div 2 ^ 13 < 2 ^ 10" "e - 112 \<noteq> 31" "e - 112 \<noteq> 0"
      using that lt(3) by (simp_all add: less_mult_imp_div_less)
    with f16_of_fields(2) [of s "e - 112" "m div 2 ^ 13", OF lt(1)] show ?thesis by (simp only: narrow_widen if_False simp_thms)
  qed
  have "f32_to_f16 x = word_of_nat (if e = 255 then s * 2 ^ 15 + 31 * 2 ^ 10 + (if m \<noteq> 0 then 0x200 else 0)
       else if 143 \<le> e then s * 2 ^ 15 + 31 * 2 ^ 10 + 0 else if e \<le> 112 then s * 2 ^ 15
       else s * 2 ^ 15 + (e - 112) * 2 ^ 10 + m div 2 ^ 13)"
  proof -
    have k: "31 \<le> int e - 127 + 15 \<longleftrightarrow> 143 \<le> e" "int e - 127 + 15 \<le> 0 \<longleftrightarrow> e \<le> 112" "nat (int e - 127 + 15) = e - 112" by linarith+
    show ?thesis by (simp only: f32_to_f16_def Let_def s_e_m_def [symmetric] k split: if_split) simp
  qed
  then show ?thesis using overflow [OF disjI1 [OF refl]] overflow [OF disjI2 [OF refl]] zero normal by (simp only: split: if_split) auto
qed

text \<open>Buffers of half floats.\<close>

lemma decode_encode_f16: "decode_f16 (encode_f16 v) = map (\<lambda>x. f16_to_f32 (f32_to_f16 x)) v"
proof (induction v)
  case (Cons x v)
  have "length (le_bytes 2 (unat (f32_to_f16 x))) = 2" by simp
  then obtain a b where l: "le_bytes 2 (unat (f32_to_f16 x)) = [a, b]"
    by (auto simp: numeral_eq_Suc length_Suc_conv simp del: le_bytes.simps length_le_bytes)
  have "of_le (le_bytes 2 (unat (f32_to_f16 x))) = unat (f32_to_f16 x)"
    using unsigned_less [of "f32_to_f16 x", where ?'a = nat] by (simp add: of_le_bytes_less)
  then have "word_of_nat (of_le [a, b]) = f32_to_f16 x" unfolding l by (simp del: of_le.simps)
  with Cons show ?case by (simp add: encode_f16_def l del: of_le.simps)
qed (simp add: encode_f16_def)

end
