(* ===== verification/VindexIndex.thy ===== *)
theory VindexIndex
  imports VindexMetaLaws VindexTopK Half
begin

text \<open>
  The base index of a vindex (\<open>VectorIndex\<close> of \<open>crates/larql-vindex/src/index\<close>): gate vectors and metadata on
  the heap or in mapped files, the accessors of \<open>storage/gate_accessors/mod.rs\<close>, the mutations of
  \<open>mutate/mod.rs\<close> and the scoring of \<open>compute/gate_knn/dispatch.rs\<close> with the approximate search switched off and
  no layer warmed. The matrix product (\<open>gemv\<close>), the tokenizer and the lower casing of texts are parameters.
\<close>

section \<open>State\<close>

datatype storage_dtype = DtypeF32 | DtypeF16

record gate_matrix =
  gm_cols :: nat
  gm_rows :: "f32 list list"

record gate_storage =
  gs_bytes :: string
  gs_dtype :: storage_dtype
  gs_slices :: "(nat \<times> nat) list"

record base_index =
  bi_num_layers :: nat
  bi_hidden_size :: nat
  bi_gates :: "gate_matrix option list"
  bi_gate_storage :: "gate_storage option"
  bi_down_meta :: "layer_metas option list"
  bi_down_mmap :: "down_meta_mmap option"
  bi_tokenizer :: tokenizer
  bi_down_overrides :: "nat \<times> nat \<Rightarrow> f32 list option"
  bi_up_overrides :: "nat \<times> nat \<Rightarrow> f32 list option"
  bi_ffn_width :: "nat \<Rightarrow> nat"

type_synonym gemv = "f32 list list \<Rightarrow> f32 list \<Rightarrow> f32 list"

text \<open>\<open>VectorIndex::new\<close>: heap mode.\<close>

definition new_index :: "gate_matrix option list \<Rightarrow> layer_metas option list \<Rightarrow> nat \<Rightarrow> nat \<Rightarrow> base_index" where
  "new_index gates metas layers hidden =
     \<lparr>bi_num_layers = layers, bi_hidden_size = hidden, bi_gates = gates, bi_gate_storage = None, bi_down_meta = metas,
      bi_down_mmap = None, bi_tokenizer = (\<lambda>_. None), bi_down_overrides = (\<lambda>_. None), bi_up_overrides = (\<lambda>_. None),
      bi_ffn_width = (\<lambda>_. 0)\<rparr>"

section \<open>Accessors\<close>

definition nth_layer :: "'a option list \<Rightarrow> nat \<Rightarrow> 'a option" where
  "nth_layer xs i = (if i < length xs then xs ! i else None)"

definition bytes_per_float :: "storage_dtype \<Rightarrow> nat" where
  "bytes_per_float d = (case d of DtypeF32 \<Rightarrow> 4 | DtypeF16 \<Rightarrow> 2)"

definition decode_floats :: "string \<Rightarrow> storage_dtype \<Rightarrow> f32 list" where
  "decode_floats bytes d = (case d of DtypeF32 \<Rightarrow> f32s_of_bytes bytes | DtypeF16 \<Rightarrow> decode_f16 bytes)"

definition encode_floats :: "f32 list \<Rightarrow> storage_dtype \<Rightarrow> string" where
  "encode_floats v d = (case d of DtypeF32 \<Rightarrow> concat (map f32_bytes v) | DtypeF16 \<Rightarrow> encode_f16 v)"

text \<open>The slice of a layer in the mapped file, if it has features.\<close>

definition gate_layer_view :: "base_index \<Rightarrow> nat \<Rightarrow> (gate_storage \<times> nat \<times> nat) option" where
  "gate_layer_view ix layer =
     (case bi_gate_storage ix of
        None \<Rightarrow> None
      | Some st \<Rightarrow>
          if layer < length (gs_slices st) \<and> snd (gs_slices st ! layer) \<noteq> 0
          then Some (st, gs_slices st ! layer) else None)"

text \<open>\<open>Array2::from_shape_vec\<close>: the rows of a matrix of the given width.\<close>

definition rows_of :: "nat \<Rightarrow> nat \<Rightarrow> f32 list \<Rightarrow> f32 list list" where
  "rows_of n cols v = map (\<lambda>i. take cols (drop (i * cols) v)) [0..<n]"

definition mapped_gate :: "base_index \<Rightarrow> nat \<Rightarrow> gate_matrix option" where
  "mapped_gate ix layer =
     (case gate_layer_view ix layer of
        None \<Rightarrow> None
      | Some (st, float_offset, nf) \<Rightarrow>
          let bpf = bytes_per_float (gs_dtype st);
              byte_offset = float_offset * bpf;
              byte_end = byte_offset + nf * bi_hidden_size ix * bpf in
          if length (gs_bytes st) < byte_end then None
          else Some \<lparr>gm_cols = bi_hidden_size ix,
                     gm_rows = rows_of nf (bi_hidden_size ix) (decode_floats (segment byte_offset byte_end (gs_bytes st)) (gs_dtype st))\<rparr>)"

definition gate_vectors_at :: "base_index \<Rightarrow> nat \<Rightarrow> gate_matrix option" where
  "gate_vectors_at ix layer = nth_layer (bi_gates ix) layer"

definition down_meta_at :: "base_index \<Rightarrow> nat \<Rightarrow> layer_metas option" where
  "down_meta_at ix layer = nth_layer (bi_down_meta ix) layer"

definition index_feature_meta :: "base_index \<Rightarrow> nat \<Rightarrow> nat \<Rightarrow> feature_meta option" where
  "index_feature_meta ix layer feature =
     (case heap_meta (bi_down_meta ix) layer feature of
        Some m \<Rightarrow> Some m
      | None \<Rightarrow> (case bi_down_mmap ix of Some dm \<Rightarrow> mmap_feature_meta (bi_tokenizer ix) dm layer feature | None \<Rightarrow> None))"

definition stored_features :: "base_index \<Rightarrow> nat \<Rightarrow> nat" where
  "stored_features ix layer =
     (case bi_gate_storage ix of
        Some st \<Rightarrow> if layer < length (gs_slices st) then snd (gs_slices st ! layer) else 0
      | None \<Rightarrow> 0)"

text \<open>The width of the quantised storages is the last resort.\<close>

definition index_num_features :: "base_index \<Rightarrow> nat \<Rightarrow> nat" where
  "index_num_features ix layer =
     (if 0 < stored_features ix layer then stored_features ix layer
      else (case gate_vectors_at ix layer of
          Some g \<Rightarrow> if gm_rows g \<noteq> [] then length (gm_rows g) else bi_ffn_width ix layer
        | None \<Rightarrow> bi_ffn_width ix layer))"

definition loaded_layers :: "base_index \<Rightarrow> nat list" where
  "loaded_layers ix =
     (case bi_gate_storage ix of
        Some st \<Rightarrow> filter (\<lambda>i. 0 < snd (gs_slices st ! i)) [0..<length (gs_slices st)]
      | None \<Rightarrow> filter (\<lambda>i. bi_gates ix ! i \<noteq> None) [0..<length (bi_gates ix)])"

definition total_gate_vectors :: "base_index \<Rightarrow> nat" where
  "total_gate_vectors ix =
     (case bi_gate_storage ix of
        Some st \<Rightarrow> sum_list (map snd (gs_slices st))
      | None \<Rightarrow> sum_list (map (\<lambda>g. case g of Some m \<Rightarrow> length (gm_rows m) | None \<Rightarrow> 0) (bi_gates ix)))"

definition total_down_meta :: "base_index \<Rightarrow> nat" where
  "total_down_meta ix = (case bi_down_mmap ix of Some dm \<Rightarrow> mmap_total_features dm | None \<Rightarrow> records_held (bi_down_meta ix))"

text \<open>\<open>gate_vector\<close>: the heap first.\<close>

definition gate_vector :: "base_index \<Rightarrow> nat \<Rightarrow> nat \<Rightarrow> f32 list option" where
  "gate_vector ix layer feature =
     (case gate_vectors_at ix layer of
        Some g \<Rightarrow> if feature < length (gm_rows g) then Some (gm_rows g ! feature) else None
      | None \<Rightarrow>
          (case gate_layer_view ix layer of
             None \<Rightarrow> None
           | Some (st, float_offset, nf) \<Rightarrow>
               if nf \<le> feature then None
               else let bpf = bytes_per_float (gs_dtype st);
                        byte_offset = (float_offset + feature * bi_hidden_size ix) * bpf;
                        byte_end = byte_offset + bi_hidden_size ix * bpf in
                 if length (gs_bytes st) < byte_end then None
                 else Some (decode_floats (segment byte_offset byte_end (gs_bytes st)) (gs_dtype st))))"

section \<open>Mutations\<close>

text \<open>\<open>while xs.len() < n { xs.push(d) }\<close>.\<close>

definition pad :: "nat \<Rightarrow> 'a \<Rightarrow> 'a list \<Rightarrow> 'a list" where
  "pad n d xs = xs @ replicate (n - length xs) d"

definition set_feature_meta :: "base_index \<Rightarrow> nat \<Rightarrow> nat \<Rightarrow> feature_meta \<Rightarrow> base_index" where
  "set_feature_meta ix layer feature meta =
     (let layers = pad (layer + 1) None (bi_down_meta ix);
          metas = (case layers ! layer of Some ms \<Rightarrow> ms | None \<Rightarrow> [])
      in ix\<lparr>bi_down_meta := layers[layer := Some ((pad (feature + 1) None metas)[feature := Some meta])]\<rparr>)"

definition delete_feature_meta :: "base_index \<Rightarrow> nat \<Rightarrow> nat \<Rightarrow> base_index" where
  "delete_feature_meta ix layer feature =
     (case down_meta_at ix layer of
        Some metas \<Rightarrow>
          if feature < length metas then ix\<lparr>bi_down_meta := (bi_down_meta ix)[layer := Some (metas[feature := None])]\<rparr> else ix
      | None \<Rightarrow> ix)"

text \<open>A copy of a mapped layer on the heap.\<close>

definition promote_layer_to_heap :: "base_index \<Rightarrow> nat \<Rightarrow> base_index" where
  "promote_layer_to_heap ix layer =
     (case mapped_gate ix layer of
        Some g \<Rightarrow> ix\<lparr>bi_gates := (pad (layer + 1) None (bi_gates ix))[layer := Some g]\<rparr>
      | None \<Rightarrow> ix)"

definition set_gate_vector :: "base_index \<Rightarrow> nat \<Rightarrow> nat \<Rightarrow> f32 list \<Rightarrow> base_index" where
  "set_gate_vector ix layer feature v =
     (let ix = (if bi_gate_storage ix \<noteq> None \<and> gate_vectors_at ix layer = None then promote_layer_to_heap ix layer else ix)
      in case gate_vectors_at ix layer of
           Some g \<Rightarrow>
             if feature < length (gm_rows g) \<and> length v = gm_cols g
             then ix\<lparr>bi_gates := (bi_gates ix)[layer := Some (g\<lparr>gm_rows := (gm_rows g)[feature := v]\<rparr>)]\<rparr>
             else ix
         | None \<Rightarrow> ix)"

definition index_set_down_vector :: "base_index \<Rightarrow> nat \<Rightarrow> nat \<Rightarrow> f32 list \<Rightarrow> base_index" where
  "index_set_down_vector ix layer feature v = ix\<lparr>bi_down_overrides := (bi_down_overrides ix)((layer, feature) \<mapsto> v)\<rparr>"

definition index_set_up_vector :: "base_index \<Rightarrow> nat \<Rightarrow> nat \<Rightarrow> f32 list \<Rightarrow> base_index" where
  "index_set_up_vector ix layer feature v = ix\<lparr>bi_up_overrides := (bi_up_overrides ix)((layer, feature) \<mapsto> v)\<rparr>"

text \<open>A slot without metadata, or else the one with the least score (the first slot when no score is below \<open>f32::MAX\<close>).\<close>

definition f32_max :: f32 where
  "f32_max = 0x7F7FFFFF"

definition weakest :: "(nat \<Rightarrow> feature_meta option) \<Rightarrow> nat list \<Rightarrow> nat option" where
  "weakest meta slots =
     fst (foldl (\<lambda>(best, score) i.
       case meta i of
         Some m \<Rightarrow> if f32_less (fm_c_score m) score then (Some i, fm_c_score m) else (best, score)
       | None \<Rightarrow> (best, score)) (None, f32_max) slots)"

definition index_find_free_feature :: "base_index \<Rightarrow> nat \<Rightarrow> nat option" where
  "index_find_free_feature ix layer =
     (let among = (\<lambda>meta n.
        (case find (\<lambda>i. meta i = None) [0..<n] of
           Some i \<Rightarrow> Some i
         | None \<Rightarrow> Some (case weakest meta [0..<n] of Some i \<Rightarrow> i | None \<Rightarrow> 0)))
      in case bi_down_mmap ix of
           Some dm \<Rightarrow>
             (let nf = mmap_num_features dm layer in
              if nf = 0 then None else among (mmap_feature_meta (bi_tokenizer ix) dm layer) nf)
         | None \<Rightarrow> (case down_meta_at ix layer of Some metas \<Rightarrow> among (nth_layer metas) (length metas) | None \<Rightarrow> None))"

definition contains :: "string \<Rightarrow> string \<Rightarrow> bool" where
  "contains s p \<longleftrightarrow> (\<exists>i \<in> set [0..<length s + 1]. starts_with (drop i s) p)"

definition mentions :: "(string \<Rightarrow> string) \<Rightarrow> string \<Rightarrow> feature_meta \<Rightarrow> bool" where
  "mentions lower e m \<longleftrightarrow>
     contains (lower (fm_top_token m)) (lower e) \<or> (\<exists>t \<in> set (fm_top_k m). contains (lower (te_token t)) (lower e))"

definition find_features ::
    "(string \<Rightarrow> string) \<Rightarrow> base_index \<Rightarrow> string option \<Rightarrow> string option \<Rightarrow> nat option \<Rightarrow> (nat \<times> nat) list" where
  "find_features lower ix entity relation_label layer_filter =
     concat (map (\<lambda>layer.
       map (\<lambda>feat. (layer, feat))
         (filter (\<lambda>feat. case index_feature_meta ix layer feat of
            None \<Rightarrow> False
          | Some m \<Rightarrow> (case entity of Some e \<Rightarrow> mentions lower e m | None \<Rightarrow> True) \<and> relation_label = None)
          [0..<index_num_features ix layer]))
       (filter (\<lambda>layer. case layer_filter of Some l \<Rightarrow> layer = l | None \<Rightarrow> True) (loaded_layers ix)))"

text \<open>The metadata that is written: every feature any part of the index knows of.\<close>

definition materialize_down_meta :: "base_index \<Rightarrow> layer_metas option list" where
  "materialize_down_meta ix =
     map (\<lambda>layer.
       let heap_len = (case down_meta_at ix layer of Some ms \<Rightarrow> length ms | None \<Rightarrow> 0);
           mmap_len = (case bi_down_mmap ix of Some dm \<Rightarrow> mmap_num_features dm layer | None \<Rightarrow> 0);
           n = max (max heap_len mmap_len) (index_num_features ix layer)
       in if n = 0 then None else Some (map (index_feature_meta ix layer) [0..<n])) [0..<bi_num_layers ix]"

definition max_top_k :: "layer_metas option list \<Rightarrow> nat" where
  "max_top_k layers =
     (let sizes = concat (map (\<lambda>l. case l of
          Some ms \<Rightarrow> concat (map (\<lambda>m. case m of Some f \<Rightarrow> [length (fm_top_k f)] | None \<Rightarrow> []) ms)
        | None \<Rightarrow> []) layers)
      in if sizes = [] then 10 else Max (set sizes))"

definition save_down_meta :: "base_index \<Rightarrow> string \<times> nat" where
  "save_down_meta ix = (let metas = materialize_down_meta ix in write_binary metas (max_top_k metas))"

section \<open>Scoring\<close>

text \<open>A layer of single-precision floats is read from the map, others from the heap and then from the map.\<close>

definition gate_for_scores :: "base_index \<Rightarrow> nat \<Rightarrow> gate_matrix option" where
  "gate_for_scores ix layer =
     (let mapped = mapped_gate ix layer in
      case (if (\<exists>st. bi_gate_storage ix = Some st \<and> gs_dtype st = DtypeF32) then mapped else None) of
        Some g \<Rightarrow> Some g
      | None \<Rightarrow> (case gate_vectors_at ix layer of Some g \<Rightarrow> Some g | None \<Rightarrow> mapped))"

text \<open>
  \<open>GateData::view\<close>: the data of the matrix read in rows of the hidden size, whatever its own width. Too
  few data panic, and so does the product with a residual of another length.
\<close>

definition gate_view :: "nat \<Rightarrow> gate_matrix \<Rightarrow> f32 list list option" where
  "gate_view hidden g =
     (let v = concat (gm_rows g); n = length (gm_rows g) in if length v < n * hidden then None else Some (rows_of n hidden v))"

definition layer_scores :: "gemv \<Rightarrow> base_index \<Rightarrow> nat \<Rightarrow> f32 list \<Rightarrow> f32 list option" where
  "layer_scores gemv ix layer residual =
     (case gate_for_scores ix layer of
        None \<Rightarrow> Some []
      | Some g \<Rightarrow> Option.bind (gate_view (bi_hidden_size ix) g)
          (\<lambda>rows. if length residual \<noteq> bi_hidden_size ix then None else Some (gemv rows residual)))"

definition index_gate_knn :: "gemv \<Rightarrow> base_index \<Rightarrow> nat \<Rightarrow> f32 list \<Rightarrow> nat \<Rightarrow> (nat \<times> f32) list option" where
  "index_gate_knn gemv ix layer residual top_k =
     Option.bind (layer_scores gemv ix layer residual) (\<lambda>scores. top_k_by_abs scores top_k)"

record walk_hit =
  wh_layer :: nat
  wh_feature :: nat
  wh_gate_score :: f32
  wh_meta :: feature_meta

definition walk_layer :: "(nat \<Rightarrow> feature_meta option) \<Rightarrow> nat \<Rightarrow> (nat \<times> f32) list \<Rightarrow> walk_hit list" where
  "walk_layer meta layer hits =
     List.map_filter (\<lambda>(feature, score).
       map_option (\<lambda>m. \<lparr>wh_layer = layer, wh_feature = feature, wh_gate_score = score, wh_meta = m\<rparr>) (meta feature)) hits"

fun index_walk :: "gemv \<Rightarrow> base_index \<Rightarrow> f32 list \<Rightarrow> nat list \<Rightarrow> nat \<Rightarrow> (nat \<times> walk_hit list) list option" where
  "index_walk gemv ix residual [] top_k = Some []"
| "index_walk gemv ix residual (layer # layers) top_k =
     (case index_gate_knn gemv ix layer residual top_k of
        None \<Rightarrow> None
      | Some hits \<Rightarrow> map_option (\<lambda>more. (layer, walk_layer (index_feature_meta ix layer) layer hits) # more)
          (index_walk gemv ix residual layers top_k))"

end
