(* ===== verification/VindexKnn.thy ===== *)
theory VindexKnn
  imports VindexFormat Rust_FloatSum
begin

text \<open>
  The retrieval store (\<open>crates/larql-vindex/src/patch/knn_store.rs\<close>): entries per layer with normalised keys, and
  matrices of the keys that are built when a layer is asked and kept until it changes. The product of a matrix and
  a vector and the lower casing of a text are parameters; \<^const>\<open>None\<close> stands for a panic.
\<close>

section \<open>State\<close>

record knn_entry =
  ke_key :: "f32 list"
  ke_target_id :: u32
  ke_target_token :: string
  ke_entity :: string
  ke_relation :: string
  ke_confidence :: f32

record knn_store =
  ks_entries :: "nat \<Rightarrow> knn_entry list option"
  ks_key_matrices :: "nat \<Rightarrow> f32 list list option"
  ks_dirty :: "nat set"

definition knn_default :: knn_store where
  "knn_default = \<lparr>ks_entries = Map.empty, ks_key_matrices = Map.empty, ks_dirty = {}\<rparr>"

definition from_entries :: "(nat \<Rightarrow> knn_entry list option) \<Rightarrow> knn_store" where
  "from_entries entries = \<lparr>ks_entries = entries, ks_key_matrices = Map.empty, ks_dirty = dom entries\<rparr>"

definition knn_clone :: "knn_store \<Rightarrow> knn_store" where
  "knn_clone ks = \<lparr>ks_entries = ks_entries ks, ks_key_matrices = Map.empty, ks_dirty = dom (ks_entries ks)\<rparr>"

section \<open>Operations\<close>

definition l2_normalize :: "f32 list \<Rightarrow> f32 list" where
  "l2_normalize v =
     (let norm = f32_sqrt (f32_sum (map (\<lambda>x. f32_mul x x) v)) in
      if f32_less norm 0x2B8CBCCC then replicate (length v) 0 else map (\<lambda>x. f32_div x norm) v)"

definition knn_add :: "nat \<Rightarrow> f32 list \<Rightarrow> u32 \<Rightarrow> string \<Rightarrow> string \<Rightarrow> string \<Rightarrow> f32 \<Rightarrow> knn_store \<Rightarrow> knn_store" where
  "knn_add layer key target_id target_token entity relation confidence ks =
     ks\<lparr>ks_entries := entry_push layer
          \<lparr>ke_key = l2_normalize key, ke_target_id = target_id, ke_target_token = target_token, ke_entity = entity,
           ke_relation = relation, ke_confidence = confidence\<rparr> (ks_entries ks),
        ks_dirty := insert layer (ks_dirty ks)\<rparr>"

text \<open>\<open>retain\<close> on the entries of every layer; layers that lose one are dirty and empty layers go.\<close>

definition retain_entries :: "(knn_entry \<Rightarrow> bool) \<Rightarrow> knn_store \<Rightarrow> knn_store" where
  "retain_entries keep ks =
     ks\<lparr>ks_entries := (\<lambda>layer. case ks_entries ks layer of
           None \<Rightarrow> None | Some es \<Rightarrow> some_unless_empty (filter keep es)),
        ks_dirty := ks_dirty ks \<union>
          {layer \<in> dom (ks_entries ks). length (filter keep (the (ks_entries ks layer))) \<noteq> length (the (ks_entries ks layer))}\<rparr>"

definition remove_by_entity :: "(string \<Rightarrow> string) \<Rightarrow> string \<Rightarrow> knn_store \<Rightarrow> knn_store" where
  "remove_by_entity lower entity = retain_entries (\<lambda>e. lower (ke_entity e) \<noteq> lower entity)"

definition remove_by_entity_relation :: "(string \<Rightarrow> string) \<Rightarrow> string \<Rightarrow> string \<Rightarrow> knn_store \<Rightarrow> knn_store" where
  "remove_by_entity_relation lower entity relation =
     retain_entries (\<lambda>e. lower (ke_entity e) \<noteq> lower entity \<or> lower (ke_relation e) \<noteq> lower relation)"

text \<open>The matrix has the width of the first key: a longer key is written out of bounds, a shorter one leaves zeros.\<close>

definition key_matrix :: "knn_entry list \<Rightarrow> f32 list list option" where
  "key_matrix es =
     (let dim = length (ke_key (hd es)) in
      if \<exists>e \<in> set es. dim < length (ke_key e) then None
      else Some (map (\<lambda>e. ke_key e @ replicate (dim - length (ke_key e)) 0) es))"

definition rebuild_layer :: "nat \<Rightarrow> knn_store \<Rightarrow> knn_store option" where
  "rebuild_layer layer ks =
     map_option (\<lambda>ks. ks\<lparr>ks_dirty := ks_dirty ks - {layer}\<rparr>)
       (case ks_entries ks layer of
          None \<Rightarrow> Some ks
        | Some es \<Rightarrow>
            if es = [] then Some (ks\<lparr>ks_key_matrices := (ks_key_matrices ks)(layer := None)\<rparr>)
            else map_option (\<lambda>m. ks\<lparr>ks_key_matrices := (ks_key_matrices ks)(layer \<mapsto> m)\<rparr>) (key_matrix es))"

text \<open>The product of a matrix and a vector of another length panics.\<close>

definition cosine_scores :: "(f32 list list \<Rightarrow> f32 list \<Rightarrow> f32 list) \<Rightarrow> f32 list list \<Rightarrow> f32 list \<Rightarrow> f32 list option" where
  "cosine_scores gemv m q = (if m \<noteq> [] \<and> length (hd m) \<noteq> length q then None else Some (gemv m q))"

definition ranked :: "knn_entry list \<Rightarrow> f32 list \<Rightarrow> nat \<Rightarrow> (knn_entry \<times> f32) list" where
  "ranked es scores k =
     map (\<lambda>(i, s). (es ! i, s))
       (take (min k (length scores)) (sort_by (\<lambda>a b. f32_cmp (snd b) (snd a)) (zip [0..<length scores] scores)))"

text \<open>
  \<^const>\<open>None\<close> is a panic. The product of matrices panics while the mutex of the key matrices is locked, so after it every
  later query panics too; the store after a panic is not modelled.
\<close>

definition query_knn ::
    "(f32 list list \<Rightarrow> f32 list \<Rightarrow> f32 list) \<Rightarrow> nat \<Rightarrow> f32 list \<Rightarrow> nat \<Rightarrow> knn_store \<Rightarrow>
     ((knn_entry \<times> f32) list \<times> knn_store) option" where
  "query_knn gemv layer residual k ks =
     (case ks_entries ks layer of
        None \<Rightarrow> Some ([], ks)
      | Some es \<Rightarrow>
          if es = [] then Some ([], ks)
          else Option.bind (if layer \<in> ks_dirty ks then rebuild_layer layer ks else Some ks) (\<lambda>ks.
            case ks_key_matrices ks layer of
              None \<Rightarrow> Some ([], ks)
            | Some m \<Rightarrow> map_option (\<lambda>scores. (ranked es scores k, ks)) (cosine_scores gemv m (l2_normalize residual))))"

definition query_top1 ::
    "(f32 list list \<Rightarrow> f32 list \<Rightarrow> f32 list) \<Rightarrow> nat \<Rightarrow> f32 list \<Rightarrow> knn_store \<Rightarrow> ((knn_entry \<times> f32) option \<times> knn_store) option" where
  "query_top1 gemv layer residual ks =
     map_option (\<lambda>(hits, ks). (case hits of [] \<Rightarrow> None | h # _ \<Rightarrow> Some h, ks)) (query_knn gemv layer residual 1 ks)"

definition knn_layers :: "knn_store \<Rightarrow> nat list" where
  "knn_layers ks = sorted_list_of_set (dom (ks_entries ks))"

definition entries_for_entity :: "(string \<Rightarrow> string) \<Rightarrow> string \<Rightarrow> knn_store \<Rightarrow> (nat \<times> knn_entry) list" where
  "entries_for_entity lower entity ks =
     concat (map (\<lambda>layer. map (Pair layer) (filter (\<lambda>e. lower (ke_entity e) = lower entity) (the (ks_entries ks layer))))
       (knn_layers ks))"

definition knn_len :: "knn_store \<Rightarrow> nat" where
  "knn_len ks = sum_list (map (\<lambda>layer. length (the (ks_entries ks layer))) (knn_layers ks))"

definition knn_is_empty :: "knn_store \<Rightarrow> bool" where
  "knn_is_empty ks \<longleftrightarrow> dom (ks_entries ks) = {}"

section \<open>The matrices are those of the entries\<close>

definition knn_ok :: "knn_store \<Rightarrow> bool" where
  "knn_ok ks \<longleftrightarrow> finite (dom (ks_entries ks)) \<and>
     (\<forall>layer es. ks_entries ks layer = Some es \<longrightarrow> es \<noteq> [] \<longrightarrow> layer \<notin> ks_dirty ks \<longrightarrow>
        key_matrix es \<noteq> None \<and> ks_key_matrices ks layer = key_matrix es)"

text \<open>What a query answers, from the entries alone.\<close>

definition knn_answer ::
    "(f32 list list \<Rightarrow> f32 list \<Rightarrow> f32 list) \<Rightarrow> (nat \<Rightarrow> knn_entry list option) \<Rightarrow> nat \<Rightarrow> f32 list \<Rightarrow> nat \<Rightarrow>
     (knn_entry \<times> f32) list option" where
  "knn_answer gemv entries layer residual k =
     (case entries layer of
        None \<Rightarrow> Some []
      | Some es \<Rightarrow> if es = [] then Some [] else Option.bind (key_matrix es) (\<lambda>m. map_option (\<lambda>scores. ranked es scores k) (cosine_scores gemv m (l2_normalize residual))))"

lemma knn_ok_default: "knn_ok knn_default"
  by (simp add: knn_ok_def knn_default_def)

lemma knn_ok_from_entries:
  "finite (dom entries) \<Longrightarrow> knn_ok (from_entries entries)"
  by (auto simp: knn_ok_def from_entries_def)

lemma knn_ok_clone: "knn_ok ks \<Longrightarrow> knn_ok (knn_clone ks)"
  by (auto simp: knn_ok_def knn_clone_def)

lemma knn_ok_add: "knn_ok ks \<Longrightarrow> knn_ok (knn_add layer key tid token entity relation confidence ks)"
  by (auto simp: knn_ok_def knn_add_def entry_push_def)

lemma knn_ok_retain:
  assumes "knn_ok ks"
  shows "knn_ok (retain_entries keep ks)"
proof -
  have "dom (ks_entries (retain_entries keep ks)) \<subseteq> dom (ks_entries ks)"
    by (auto simp: retain_entries_def split: option.splits)
  then have "finite (dom (ks_entries (retain_entries keep ks)))" using assms finite_subset by (auto simp: knn_ok_def)
  moreover have "filter keep es = es" if "length (filter keep es) = length es" for es
    using that by (metis filter_True length_filter_less nat_neq_iff)
  ultimately show ?thesis using assms
    by (fastforce simp: knn_ok_def retain_entries_def some_unless_empty_eq split: option.splits)
qed

lemma knn_ok_rebuild:
  assumes "knn_ok ks" and "rebuild_layer layer ks = Some ks'"
  shows "knn_ok ks' \<and> ks_entries ks' = ks_entries ks \<and> layer \<notin> ks_dirty ks'"
proof (cases "ks_entries ks layer")
  case None
  with assms show ?thesis by (auto simp: knn_ok_def rebuild_layer_def)
next
  case (Some es)
  with assms show ?thesis by (cases "es = []") (auto simp: knn_ok_def rebuild_layer_def)
qed

lemma rebuild_None:
  "ks_entries ks layer = Some es \<Longrightarrow> es \<noteq> [] \<Longrightarrow> rebuild_layer layer ks = None \<longleftrightarrow> key_matrix es = None"
  by (auto simp: rebuild_layer_def)

lemma query_answers:
  assumes "knn_ok ks"
  shows "map_option fst (query_knn gemv layer residual k ks) = knn_answer gemv (ks_entries ks) layer residual k"
    and "query_knn gemv layer residual k ks = Some (hits, ks') \<Longrightarrow> knn_ok ks' \<and> ks_entries ks' = ks_entries ks"
proof -
  show "map_option fst (query_knn gemv layer residual k ks) = knn_answer gemv (ks_entries ks) layer residual k"
  proof (cases "\<exists>es. ks_entries ks layer = Some es \<and> es \<noteq> []")
    case False
    then show ?thesis by (auto simp: query_knn_def knn_answer_def split: option.split)
  next
    case True
    then obtain es where es: "ks_entries ks layer = Some es" "es \<noteq> []" by blast
    show ?thesis
    proof (cases "layer \<in> ks_dirty ks")
      case False
      with assms es have "ks_key_matrices ks layer = key_matrix es" "key_matrix es \<noteq> None" by (auto simp: knn_ok_def)
      with False es show ?thesis by (auto simp: query_knn_def knn_answer_def option.map_comp o_def)
    next
      case dirty: True
      show ?thesis
      proof (cases "rebuild_layer layer ks")
        case None
        with rebuild_None [OF es] es dirty show ?thesis by (simp add: query_knn_def knn_answer_def)
      next
        case (Some ks1)
        from knn_ok_rebuild [OF assms this] es have "ks_key_matrices ks1 layer = key_matrix es" "key_matrix es \<noteq> None"
          by (auto simp: knn_ok_def)
        with dirty Some es show ?thesis by (auto simp: query_knn_def knn_answer_def option.map_comp o_def)
      qed
    qed
  qed
  show "knn_ok ks' \<and> ks_entries ks' = ks_entries ks" if "query_knn gemv layer residual k ks = Some (hits, ks')"
    using that assms knn_ok_rebuild [OF assms, of layer]
    by (auto simp: query_knn_def Option.bind_eq_Some_conv split: option.splits if_splits)
qed

section \<open>Stores the operations reach\<close>

inductive knn_reachable :: "knn_store \<Rightarrow> bool" where
  reach_default: "knn_reachable knn_default"
| reach_entries: "finite (dom entries) \<Longrightarrow> knn_reachable (from_entries entries)"
| reach_clone: "knn_reachable ks \<Longrightarrow> knn_reachable (knn_clone ks)"
| reach_add: "knn_reachable ks \<Longrightarrow> knn_reachable (knn_add layer key tid token entity relation confidence ks)"
| reach_remove: "knn_reachable ks \<Longrightarrow> knn_reachable (remove_by_entity lower entity ks)"
| reach_remove_relation: "knn_reachable ks \<Longrightarrow> knn_reachable (remove_by_entity_relation lower entity relation ks)"
| reach_query: "knn_reachable ks \<Longrightarrow> query_knn gemv layer residual k ks = Some (hits, ks') \<Longrightarrow> knn_reachable ks'"

lemma knn_reachable_ok: "knn_reachable ks \<Longrightarrow> knn_ok ks"
proof (induction rule: knn_reachable.induct)
  case (reach_query ks gemv layer residual k hits ks')
  then show ?case using query_answers(2) by blast
qed (simp_all add: knn_ok_default knn_ok_from_entries knn_ok_clone knn_ok_add knn_ok_retain remove_by_entity_def
    remove_by_entity_relation_def)

end
