(* ===== verification/VindexOverlay.thy ===== *)
theory VindexOverlay
  imports VindexIndex VindexKnn
begin

text \<open>
  The patch overlay on a base index (\<open>crates/larql-vindex/src/patch/overlay.rs\<close> and \<open>overlay_apply.rs\<close>): the
  resolved overrides of metadata and gate vectors, the tombstones, the retrieval store and the cache of flattened
  gate vectors. A hash map is a map; where the order in which it is walked can be observed, the order is an
  argument. Operations that can panic give an option.
\<close>

section \<open>State\<close>

record layer_gate_cache =
  lc_feature_ids :: "nat list"
  lc_gate_matrix :: "f32 list"
  lc_d :: nat

record patched_vindex =
  pv_base :: base_index
  pv_patches :: "vindex_patch list"
  pv_overrides_meta :: "nat \<times> nat \<Rightarrow> feature_meta option option"
  pv_overrides_gate :: "nat \<times> nat \<Rightarrow> f32 list option"
  pv_deleted :: "(nat \<times> nat) set"
  pv_knn :: knn_store
  pv_gate_cache :: "nat \<Rightarrow> layer_gate_cache option"

definition new_patched :: "base_index \<Rightarrow> patched_vindex" where
  "new_patched base =
     \<lparr>pv_base = base, pv_patches = [], pv_overrides_meta = Map.empty, pv_overrides_gate = Map.empty, pv_deleted = {},
      pv_knn = knn_default, pv_gate_cache = Map.empty\<rparr>"

definition invalidate_gate_cache :: "patched_vindex \<Rightarrow> patched_vindex" where
  "invalidate_gate_cache pv = pv\<lparr>pv_gate_cache := Map.empty\<rparr>"

definition invalidate_gate_cache_layer :: "nat \<Rightarrow> patched_vindex \<Rightarrow> patched_vindex" where
  "invalidate_gate_cache_layer layer pv = pv\<lparr>pv_gate_cache := (pv_gate_cache pv)(layer := None)\<rparr>"

section \<open>Direct edits\<close>

definition insert_feature :: "nat \<Rightarrow> nat \<Rightarrow> f32 list \<Rightarrow> feature_meta \<Rightarrow> patched_vindex \<Rightarrow> patched_vindex" where
  "insert_feature layer feature gate_vec meta pv =
     invalidate_gate_cache_layer layer
       (pv\<lparr>pv_overrides_meta := (pv_overrides_meta pv)((layer, feature) \<mapsto> Some meta),
           pv_overrides_gate := (pv_overrides_gate pv)((layer, feature) \<mapsto> gate_vec),
           pv_deleted := pv_deleted pv - {(layer, feature)}\<rparr>)"

definition delete_feature :: "nat \<Rightarrow> nat \<Rightarrow> patched_vindex \<Rightarrow> patched_vindex" where
  "delete_feature layer feature pv =
     invalidate_gate_cache_layer layer
       (pv\<lparr>pv_overrides_meta := (pv_overrides_meta pv)((layer, feature) \<mapsto> None),
           pv_deleted := insert (layer, feature) (pv_deleted pv),
           pv_overrides_gate := (pv_overrides_gate pv)((layer, feature) := None)\<rparr>)"

definition update_feature_meta :: "nat \<Rightarrow> nat \<Rightarrow> feature_meta \<Rightarrow> patched_vindex \<Rightarrow> patched_vindex" where
  "update_feature_meta layer feature meta pv =
     pv\<lparr>pv_overrides_meta := (pv_overrides_meta pv)((layer, feature) \<mapsto> Some meta)\<rparr>"

definition is_overridden :: "patched_vindex \<Rightarrow> nat \<Rightarrow> nat \<Rightarrow> bool" where
  "is_overridden pv layer feature \<longleftrightarrow> pv_overrides_meta pv (layer, feature) \<noteq> None"

definition set_down_vector :: "nat \<Rightarrow> nat \<Rightarrow> f32 list \<Rightarrow> patched_vindex \<Rightarrow> patched_vindex" where
  "set_down_vector layer feature v pv = pv\<lparr>pv_base := index_set_down_vector (pv_base pv) layer feature v\<rparr>"

definition set_up_vector :: "nat \<Rightarrow> nat \<Rightarrow> f32 list \<Rightarrow> patched_vindex \<Rightarrow> patched_vindex" where
  "set_up_vector layer feature v pv = pv\<lparr>pv_base := index_set_up_vector (pv_base pv) layer feature v\<rparr>"

text \<open>A gate override is replaced only where there is one.\<close>

definition set_gate_override :: "nat \<Rightarrow> nat \<Rightarrow> f32 list \<Rightarrow> patched_vindex \<Rightarrow> patched_vindex" where
  "set_gate_override layer feature v pv =
     (if pv_overrides_gate pv (layer, feature) \<noteq> None
      then invalidate_gate_cache_layer layer (pv\<lparr>pv_overrides_gate := (pv_overrides_gate pv)((layer, feature) \<mapsto> v)\<rparr>)
      else pv)"

section \<open>Reading\<close>

definition feature_meta_of :: "patched_vindex \<Rightarrow> nat \<Rightarrow> nat \<Rightarrow> feature_meta option" where
  "feature_meta_of pv layer feature =
     (case pv_overrides_meta pv (layer, feature) of
        Some override \<Rightarrow> override
      | None \<Rightarrow> if (layer, feature) \<in> pv_deleted pv then None else index_feature_meta (pv_base pv) layer feature)"

definition find_free_feature :: "patched_vindex \<Rightarrow> nat \<Rightarrow> nat option" where
  "find_free_feature pv layer =
     (let n = index_num_features (pv_base pv) layer in
      if n = 0 then None
      else (case find (\<lambda>i. index_feature_meta (pv_base pv) layer i = None \<and> pv_overrides_gate pv (layer, i) = None) [0..<n] of
          Some i \<Rightarrow> Some i
        | None \<Rightarrow> weakest (\<lambda>i. if pv_overrides_gate pv (layer, i) \<noteq> None then None
                             else index_feature_meta (pv_base pv) layer i) [0..<n]))"

definition num_patches :: "patched_vindex \<Rightarrow> nat" where
  "num_patches pv = length (pv_patches pv)"

definition num_overrides :: "patched_vindex \<Rightarrow> nat" where
  "num_overrides pv = card (dom (pv_overrides_meta pv))"

section \<open>Scoring\<close>

text \<open>
  The width of the gate vectors of a layer, walked in the given order: a first empty vector leaves the width at
  zero, so the next one sets it; another width gives the cache up.
\<close>

fun gate_width :: "(nat \<Rightarrow> f32 list) \<Rightarrow> nat \<Rightarrow> nat list \<Rightarrow> nat option" where
  "gate_width gate d [] = Some d"
| "gate_width gate d (f # fs) =
     (if d = 0 then gate_width gate (length (gate f)) fs
      else if length (gate f) \<noteq> d then None
      else gate_width gate d fs)"

definition gate_at :: "patched_vindex \<Rightarrow> nat \<Rightarrow> nat \<Rightarrow> f32 list" where
  "gate_at pv layer f = the (pv_overrides_gate pv (layer, f))"

definition build_cache :: "patched_vindex \<Rightarrow> nat \<Rightarrow> nat list \<Rightarrow> layer_gate_cache option" where
  "build_cache pv layer order =
     (case gate_width (gate_at pv layer) 0 order of
        None \<Rightarrow> None
      | Some d \<Rightarrow>
          if order = [] then None
          else Some \<lparr>lc_feature_ids = order, lc_gate_matrix = concat (map (gate_at pv layer) order), lc_d = d\<rparr>)"

definition layer_gate_cache :: "nat list \<Rightarrow> patched_vindex \<Rightarrow> nat \<Rightarrow> layer_gate_cache option \<times> patched_vindex" where
  "layer_gate_cache order pv layer =
     (case pv_gate_cache pv layer of
        Some c \<Rightarrow> (Some c, pv)
      | None \<Rightarrow>
          (case build_cache pv layer order of
             Some c \<Rightarrow> (Some c, pv\<lparr>pv_gate_cache := (pv_gate_cache pv)(layer \<mapsto> c)\<rparr>)
           | None \<Rightarrow> (None, pv)))"

text \<open>Row \<open>i\<close> of the flattened matrix; a slice past its end panics.\<close>

definition cache_row :: "layer_gate_cache \<Rightarrow> nat \<Rightarrow> f32 list option" where
  "cache_row c i =
     (if length (lc_gate_matrix c) < (i + 1) * lc_d c then None
      else Some (segment (i * lc_d c) ((i + 1) * lc_d c) (lc_gate_matrix c)))"

definition cache_scores :: "layer_gate_cache \<Rightarrow> f32 list \<Rightarrow> (nat \<times> f32) list option" where
  "cache_scores c residual =
     those (map (\<lambda>(i, f). map_option (\<lambda>row. (f, f32_dot row residual)) (cache_row c i))
       (zip [0..<length (lc_feature_ids c)] (lc_feature_ids c)))"

text \<open>The hits with their positions by feature: a score replaces that of a hit or is a new hit.\<close>

definition merge_hit ::
    "(nat \<times> f32) list \<times> (nat \<Rightarrow> nat option) \<Rightarrow> nat \<times> f32 \<Rightarrow> (nat \<times> f32) list \<times> (nat \<Rightarrow> nat option)" where
  "merge_hit = (\<lambda>(hits, idx) (f, s). case idx f of
       Some i \<Rightarrow> (hits[i := (fst (hits ! i), s)], idx)
     | None \<Rightarrow> (hits @ [(f, s)], idx(f \<mapsto> length hits)))"

definition merge_scores :: "(nat \<times> f32) list \<Rightarrow> (nat \<times> f32) list \<Rightarrow> (nat \<times> f32) list" where
  "merge_scores hits scores =
     fst (foldl merge_hit (hits, map_of (rev (zip (map fst hits) [0..<length hits]))) scores)"

definition merge_overrides ::
    "nat list \<Rightarrow> patched_vindex \<Rightarrow> nat \<Rightarrow> f32 list \<Rightarrow> (nat \<times> f32) list \<Rightarrow> ((nat \<times> f32) list \<times> patched_vindex) option" where
  "merge_overrides order pv layer residual hits =
     (case layer_gate_cache order pv layer of
        (Some c, pv) \<Rightarrow> map_option (\<lambda>scores. (if hits = [] then scores else merge_scores hits scores, pv)) (cache_scores c residual)
      | (None, pv) \<Rightarrow> Some (merge_scores hits (map (\<lambda>f. (f, f32_dot (gate_at pv layer f) residual)) order), pv))"

text \<open>\<open>Iterator::max_by\<close>: the last of the greatest.\<close>

definition max_by :: "('a \<Rightarrow> 'a \<Rightarrow> ordering) \<Rightarrow> 'a list \<Rightarrow> 'a option" where
  "max_by cmp xs = (case xs of
       [] \<Rightarrow> None
     | x # ys \<Rightarrow> Some (foldl (\<lambda>best y. if cmp best y = OrdGreater then best else y) x ys))"

definition rank_hits :: "bool \<Rightarrow> nat \<Rightarrow> (nat \<times> f32) list \<Rightarrow> (nat \<times> f32) list" where
  "rank_hits has_overrides top_k hits =
     (if has_overrides then
        (if top_k = 1 then (case max_by (\<lambda>a b. f32_cmp (f32_abs (snd a)) (f32_abs (snd b))) hits of Some w \<Rightarrow> [w] | None \<Rightarrow> [])
         else take top_k (sort_by abs_desc hits))
      else take top_k hits)"

definition has_overrides :: "patched_vindex \<Rightarrow> nat \<Rightarrow> bool" where
  "has_overrides pv layer \<longleftrightarrow> layer \<in> fst ` dom (pv_overrides_gate pv)"

definition has_deletions :: "patched_vindex \<Rightarrow> nat \<Rightarrow> bool" where
  "has_deletions pv layer \<longleftrightarrow> layer \<in> fst ` pv_deleted pv"

text \<open>\<open>order\<close> is the order in which the hash map gives the overridden features of the layer.\<close>

definition gate_knn ::
    "gemv \<Rightarrow> nat list \<Rightarrow> patched_vindex \<Rightarrow> nat \<Rightarrow> f32 list \<Rightarrow> nat \<Rightarrow> ((nat \<times> f32) list \<times> patched_vindex) option" where
  "gate_knn gemv order pv layer residual top_k =
     (if \<not> has_overrides pv layer \<and> \<not> has_deletions pv layer
      then map_option (\<lambda>hits. (hits, pv)) (index_gate_knn gemv (pv_base pv) layer residual top_k)
      else Option.bind
        (if 0 < index_num_features (pv_base pv) layer
         then index_gate_knn gemv (pv_base pv) layer residual (min (top_k * 2) (2 ^ 64 - 1)) else Some [])
        (\<lambda>hits. map_option
          (\<lambda>(hits, pv).
            (rank_hits (has_overrides pv layer) top_k
              (if has_deletions pv layer then filter (\<lambda>(f, _). (layer, f) \<notin> pv_deleted pv) hits else hits), pv))
          (if has_overrides pv layer then merge_overrides order pv layer residual hits else Some (hits, pv))))"

text \<open>\<open>orders\<close> gives the walking order for each layer of the walk.\<close>

fun patched_walk ::
    "gemv \<Rightarrow> (nat \<Rightarrow> nat list) \<Rightarrow> f32 list \<Rightarrow> nat list \<Rightarrow> nat \<Rightarrow> patched_vindex \<Rightarrow> ((nat \<times> walk_hit list) list \<times> patched_vindex) option" where
  "patched_walk gemv orders residual [] top_k pv = Some ([], pv)"
| "patched_walk gemv orders residual (layer # layers) top_k pv =
     (case gate_knn gemv (orders layer) pv layer residual top_k of
        None \<Rightarrow> None
      | Some (hits, pv) \<Rightarrow> map_option (\<lambda>(more, pv). ((layer, walk_layer (feature_meta_of pv layer) layer hits) # more, pv))
          (patched_walk gemv orders residual layers top_k pv))"

section \<open>Baking\<close>

definition bake_gate :: "patched_vindex \<Rightarrow> nat \<Rightarrow> gate_matrix option" where
  "bake_gate pv layer =
     map_option (\<lambda>g. g\<lparr>gm_rows := map (\<lambda>f. case pv_overrides_gate pv (layer, f) of
           Some v \<Rightarrow> if length v = gm_cols g then v else gm_rows g ! f
         | None \<Rightarrow> gm_rows g ! f) [0..<length (gm_rows g)]\<rparr>)
       (case gate_vectors_at (pv_base pv) layer of
          Some g \<Rightarrow> Some g
        | None \<Rightarrow> mapped_gate (pv_base pv) layer)"

definition overridden_features :: "patched_vindex \<Rightarrow> nat \<Rightarrow> nat list" where
  "overridden_features pv layer = sorted_list_of_set (snd ` {k \<in> dom (pv_overrides_meta pv). fst k = layer})"

definition put_meta :: "patched_vindex \<Rightarrow> nat \<Rightarrow> layer_metas \<Rightarrow> nat \<Rightarrow> layer_metas" where
  "put_meta pv layer metas f = (pad (f + 1) None metas)[f := the (pv_overrides_meta pv (layer, f))]"

definition bake_meta :: "patched_vindex \<Rightarrow> nat \<Rightarrow> layer_metas option" where
  "bake_meta pv layer =
     (let n = index_num_features (pv_base pv) layer;
          start = (case down_meta_at (pv_base pv) layer of
              Some heap \<Rightarrow> heap
            | None \<Rightarrow> if 0 < n then map (index_feature_meta (pv_base pv) layer) [0..<n] else []);
          metas = foldl (put_meta pv layer) start (overridden_features pv layer);
          metas = map (\<lambda>f. if (layer, f) \<in> pv_deleted pv then None else metas ! f) [0..<length metas]
      in some_unless_empty metas)"

definition bake_down :: "patched_vindex \<Rightarrow> base_index" where
  "bake_down pv =
     new_index (map (bake_gate pv) [0..<bi_num_layers (pv_base pv)]) (map (bake_meta pv) [0..<bi_num_layers (pv_base pv)])
       (bi_num_layers (pv_base pv)) (bi_hidden_size (pv_base pv))"

section \<open>Patches\<close>

definition default_c_score :: f32 where
  "default_c_score = 0x3F666666"

definition meta_of_down :: "patch_down_meta \<Rightarrow> feature_meta" where
  "meta_of_down dm =
     \<lparr>fm_top_token = pd_top_token dm, fm_top_token_id = pd_top_token_id dm, fm_c_score = pd_c_score dm,
      fm_top_k = [\<lparr>te_token = pd_top_token dm, te_token_id = pd_top_token_id dm, te_logit = pd_c_score dm\<rparr>]\<rparr>"

definition insert_meta :: "string \<Rightarrow> f32 option \<Rightarrow> patch_down_meta option \<Rightarrow> feature_meta" where
  "insert_meta target confidence down_meta =
     (case down_meta of
        Some dm \<Rightarrow> meta_of_down dm
      | None \<Rightarrow> \<lparr>fm_top_token = target, fm_top_token_id = 0,
               fm_c_score = (case confidence of Some c \<Rightarrow> c | None \<Rightarrow> default_c_score), fm_top_k = []\<rparr>)"

text \<open>A vector that is absent or does not decode is skipped.\<close>

definition with_vector :: "string option \<Rightarrow> (f32 list \<Rightarrow> 'a \<Rightarrow> 'a) \<Rightarrow> 'a \<Rightarrow> 'a" where
  "with_vector b64 use s =
     (case b64 of
        None \<Rightarrow> s
      | Some b \<Rightarrow> (case decode_gate_vector b of Inr v \<Rightarrow> use v s | Inl _ \<Rightarrow> s))"

text \<open>The vectors of an insertion or an update; a gate vector touches the layer.\<close>

definition apply_vectors ::
    "nat \<Rightarrow> nat \<Rightarrow> string option \<Rightarrow> string option \<Rightarrow> string option \<Rightarrow> patched_vindex \<times> nat set \<Rightarrow> patched_vindex \<times> nat set" where
  "apply_vectors layer feature gate up down s =
     with_vector down (\<lambda>v (pv, touched). (set_down_vector layer feature v pv, touched))
       (with_vector up (\<lambda>v (pv, touched). (set_up_vector layer feature v pv, touched))
         (with_vector gate (\<lambda>v (pv, touched).
            (pv\<lparr>pv_overrides_gate := (pv_overrides_gate pv)((layer, feature) \<mapsto> v)\<rparr>, insert layer touched)) s))"

definition apply_op :: "(string \<Rightarrow> string) \<Rightarrow> patched_vindex \<times> nat set \<Rightarrow> patch_op \<Rightarrow> patched_vindex \<times> nat set" where
  "apply_op lower s op =
     (case s of (pv, touched) \<Rightarrow>
      case op of
        OpInsertKnn layer entity relation target target_id confidence key \<Rightarrow>
          (case decode_gate_vector key of
             Inr v \<Rightarrow> (pv\<lparr>pv_knn := knn_add layer v target_id target entity relation
                          (case confidence of Some c \<Rightarrow> c | None \<Rightarrow> 0x3F800000) (pv_knn pv)\<rparr>, touched)
           | Inl _ \<Rightarrow> (pv, touched))
      | OpDeleteKnn entity \<Rightarrow> (pv\<lparr>pv_knn := remove_by_entity lower entity (pv_knn pv)\<rparr>, touched)
      | OpInsert layer feature relation entity target confidence gate up down down_meta \<Rightarrow>
          apply_vectors layer feature gate up down
            (pv\<lparr>pv_overrides_meta := (pv_overrides_meta pv)((layer, feature) \<mapsto> Some (insert_meta target confidence down_meta)),
                pv_deleted := pv_deleted pv - {(layer, feature)}\<rparr>, touched)
      | OpUpdate layer feature gate up down down_meta \<Rightarrow>
          apply_vectors layer feature gate up down
            (case down_meta of
               Some dm \<Rightarrow> pv\<lparr>pv_overrides_meta := (pv_overrides_meta pv)((layer, feature) \<mapsto> Some (meta_of_down dm))\<rparr>
             | None \<Rightarrow> pv, touched)
      | OpDelete layer feature reason \<Rightarrow>
          (pv\<lparr>pv_overrides_meta := (pv_overrides_meta pv)((layer, feature) \<mapsto> None),
              pv_deleted := insert (layer, feature) (pv_deleted pv),
              pv_overrides_gate := (pv_overrides_gate pv)((layer, feature) := None)\<rparr>,
           if pv_overrides_gate pv (layer, feature) \<noteq> None then insert layer touched else touched))"

definition apply_patch :: "(string \<Rightarrow> string) \<Rightarrow> patched_vindex \<Rightarrow> vindex_patch \<Rightarrow> patched_vindex" where
  "apply_patch lower pv patch =
     (case foldl (apply_op lower) (pv, {}) (vp_operations patch) of (pv, touched) \<Rightarrow>
        pv\<lparr>pv_gate_cache := (\<lambda>layer. if layer \<in> touched then None else pv_gate_cache pv layer),
           pv_patches := pv_patches pv @ [patch]\<rparr>)"

definition rebuild_overrides :: "(string \<Rightarrow> string) \<Rightarrow> patched_vindex \<Rightarrow> patched_vindex" where
  "rebuild_overrides lower pv =
     foldl (apply_patch lower)
       (invalidate_gate_cache (pv\<lparr>pv_overrides_meta := Map.empty, pv_overrides_gate := Map.empty, pv_deleted := {},
          pv_knn := knn_default, pv_patches := []\<rparr>)) (pv_patches pv)"

definition remove_patch :: "(string \<Rightarrow> string) \<Rightarrow> nat \<Rightarrow> patched_vindex \<Rightarrow> patched_vindex" where
  "remove_patch lower i pv =
     (if i < length (pv_patches pv)
      then rebuild_overrides lower (pv\<lparr>pv_patches := take i (pv_patches pv) @ drop (i + 1) (pv_patches pv)\<rparr>)
      else pv)"

end
