(* ===== verification/VindexOverlayLaws.thy ===== *)
theory VindexOverlayLaws
  imports VindexOverlay
begin

text \<open>
  Laws of the patch overlay: its view of the metadata and of the gate vectors is the fold of the operations over the
  base, removing the last patch undoes it in the overlay, the cache always holds the current gate vectors, and
  baking gives an index with the same metadata.
\<close>

section \<open>Operations on the parts of the overlay\<close>

lemma index_set_vectors [simp]:
  "index_feature_meta (index_set_down_vector ix l f v) = index_feature_meta ix"
  "index_feature_meta (index_set_up_vector ix l f v) = index_feature_meta ix"
  by (simp_all add: index_feature_meta_def [abs_def] index_set_down_vector_def index_set_up_vector_def cong: option.case_cong)

definition decoded :: "string option \<Rightarrow> f32 list option" where
  "decoded b64 = (case b64 of None \<Rightarrow> None | Some b \<Rightarrow> (case decode_gate_vector b of Inr v \<Rightarrow> Some v | Inl _ \<Rightarrow> None))"

lemma with_vector_decoded: "with_vector b64 use s = (case decoded b64 of Some v \<Rightarrow> use v s | None \<Rightarrow> s)"
  by (simp add: with_vector_def decoded_def split: option.split sum.split)

text \<open>What the gate vector of an operation does to the overridden gates.\<close>

definition gate_effect :: "nat \<times> nat \<Rightarrow> string option \<Rightarrow> (nat \<times> nat \<Rightarrow> f32 list option) \<Rightarrow> nat \<times> nat \<Rightarrow> f32 list option" where
  "gate_effect key gate m = (case decoded gate of Some v \<Rightarrow> m(key \<mapsto> v) | None \<Rightarrow> m)"

lemma apply_vectors_fields:
  assumes "apply_vectors layer feature gate up down (pv, touched) = (pv', touched')"
  shows "pv_overrides_meta pv' = pv_overrides_meta pv"
    and "pv_overrides_gate pv' = gate_effect (layer, feature) gate (pv_overrides_gate pv)"
    and "pv_deleted pv' = pv_deleted pv" and "pv_knn pv' = pv_knn pv" and "pv_patches pv' = pv_patches pv"
    and "pv_gate_cache pv' = pv_gate_cache pv"
    and "index_feature_meta (pv_base pv') = index_feature_meta (pv_base pv)"
    and "touched' = (if decoded gate = None then touched else insert layer touched)"
  using assms unfolding apply_vectors_def with_vector_decoded
  by (cases "decoded gate"; cases "decoded up"; cases "decoded down";
      auto simp: gate_effect_def set_down_vector_def set_up_vector_def)+

text \<open>What an operation does to the view of the metadata, to the gates and to the tombstones.\<close>

definition view_effect :: "patch_op \<Rightarrow> (nat \<times> nat \<Rightarrow> feature_meta option) \<Rightarrow> nat \<times> nat \<Rightarrow> feature_meta option" where
  "view_effect op view =
     (case op of
        OpInsert layer feature _ _ target confidence _ _ _ down_meta \<Rightarrow>
          view((layer, feature) := Some (insert_meta target confidence down_meta))
      | OpUpdate layer feature _ _ _ down_meta \<Rightarrow>
          (case down_meta of Some dm \<Rightarrow> view((layer, feature) := Some (meta_of_down dm)) | None \<Rightarrow> view)
      | OpDelete layer feature _ \<Rightarrow> view((layer, feature) := None)
      | _ \<Rightarrow> view)"

definition gates_effect :: "patch_op \<Rightarrow> (nat \<times> nat \<Rightarrow> f32 list option) \<Rightarrow> nat \<times> nat \<Rightarrow> f32 list option" where
  "gates_effect op gates =
     (case op of
        OpInsert layer feature _ _ _ _ gate _ _ _ \<Rightarrow> gate_effect (layer, feature) gate gates
      | OpUpdate layer feature gate _ _ _ \<Rightarrow> gate_effect (layer, feature) gate gates
      | OpDelete layer feature _ \<Rightarrow> gates((layer, feature) := None)
      | _ \<Rightarrow> gates)"

definition meta_view :: "patched_vindex \<Rightarrow> nat \<times> nat \<Rightarrow> feature_meta option" where
  "meta_view pv = (\<lambda>(layer, feature). feature_meta_of pv layer feature)"

text \<open>The resolved part of an overlay, without the base, the patches and the cache.\<close>

definition overlay ::
    "patched_vindex \<Rightarrow> (nat \<times> nat \<Rightarrow> feature_meta option option) \<times> (nat \<times> nat \<Rightarrow> f32 list option) \<times> (nat \<times> nat) set \<times> knn_store" where
  "overlay pv = (pv_overrides_meta pv, pv_overrides_gate pv, pv_deleted pv, pv_knn pv)"

definition overlay_op ::
    "(string \<Rightarrow> string) \<Rightarrow> (nat \<times> nat \<Rightarrow> feature_meta option option) \<times> (nat \<times> nat \<Rightarrow> f32 list option) \<times> (nat \<times> nat) set \<times> knn_store \<Rightarrow>
     patch_op \<Rightarrow> (nat \<times> nat \<Rightarrow> feature_meta option option) \<times> (nat \<times> nat \<Rightarrow> f32 list option) \<times> (nat \<times> nat) set \<times> knn_store" where
  "overlay_op lower = (\<lambda>(meta, gates, deleted, knn) op.
     (case op of
        OpInsert layer feature _ _ target confidence _ _ _ down_meta \<Rightarrow> meta((layer, feature) \<mapsto> Some (insert_meta target confidence down_meta))
      | OpUpdate layer feature _ _ _ down_meta \<Rightarrow>
          (case down_meta of Some dm \<Rightarrow> meta((layer, feature) \<mapsto> Some (meta_of_down dm)) | None \<Rightarrow> meta)
      | OpDelete layer feature _ \<Rightarrow> meta((layer, feature) \<mapsto> None)
      | _ \<Rightarrow> meta,
      gates_effect op gates,
      case op of
        OpInsert layer feature _ _ _ _ _ _ _ _ \<Rightarrow> deleted - {(layer, feature)}
      | OpDelete layer feature _ \<Rightarrow> insert (layer, feature) deleted
      | _ \<Rightarrow> deleted,
      case op of
        OpInsertKnn layer entity relation target target_id confidence key \<Rightarrow>
          (case decode_gate_vector key of
             Inr v \<Rightarrow> knn_add layer v target_id target entity relation (case confidence of Some c \<Rightarrow> c | None \<Rightarrow> 0x3F800000) knn
           | Inl _ \<Rightarrow> knn)
      | OpDeleteKnn entity \<Rightarrow> remove_by_entity lower entity knn
      | _ \<Rightarrow> knn))"

lemma apply_op_parts:
  assumes "apply_op lower (pv, touched) op = (pv', touched')"
  shows "overlay pv' = overlay_op lower (overlay pv) op" and "pv_patches pv' = pv_patches pv"
    and "pv_gate_cache pv' = pv_gate_cache pv" and "index_feature_meta (pv_base pv') = index_feature_meta (pv_base pv)"
    and "\<And>l f. l \<notin> touched' \<Longrightarrow> pv_overrides_gate pv' (l, f) = pv_overrides_gate pv (l, f)" and "touched \<subseteq> touched'"
proof -
  have "overlay pv' = overlay_op lower (overlay pv) op \<and> pv_patches pv' = pv_patches pv \<and>
      pv_gate_cache pv' = pv_gate_cache pv \<and> index_feature_meta (pv_base pv') = index_feature_meta (pv_base pv) \<and>
      (\<forall>l f. l \<notin> touched' \<longrightarrow> pv_overrides_gate pv' (l, f) = pv_overrides_gate pv (l, f)) \<and> touched \<subseteq> touched'"
  proof (cases op)
    case (OpInsert layer feature relation entity target confidence gate up down down_meta)
    let ?pv = "pv\<lparr>pv_overrides_meta := (pv_overrides_meta pv)((layer, feature) \<mapsto> Some (insert_meta target confidence down_meta)),
        pv_deleted := pv_deleted pv - {(layer, feature)}\<rparr>"
    have "apply_vectors layer feature gate up down (?pv, touched) = (pv', touched')"
      using assms OpInsert by (simp add: apply_op_def)
    from apply_vectors_fields [OF this] show ?thesis
      by (auto simp: OpInsert overlay_def overlay_op_def gates_effect_def gate_effect_def split: option.splits if_splits)
  next
    case (OpUpdate layer feature gate up down down_meta)
    let ?pv = "case down_meta of
        Some dm \<Rightarrow> pv\<lparr>pv_overrides_meta := (pv_overrides_meta pv)((layer, feature) \<mapsto> Some (meta_of_down dm))\<rparr> | None \<Rightarrow> pv"
    have "apply_vectors layer feature gate up down (?pv, touched) = (pv', touched')"
      using assms OpUpdate by (simp add: apply_op_def)
    from apply_vectors_fields [OF this] show ?thesis
      by (cases down_meta)
        (auto simp: OpUpdate overlay_def overlay_op_def gates_effect_def gate_effect_def split: option.splits if_splits)
  next
    case (OpDelete layer feature reason)
    with assms show ?thesis
      by (cases "pv_overrides_gate pv (layer, feature)") (auto simp: apply_op_def overlay_def overlay_op_def gates_effect_def)
  next
    case (OpInsertKnn layer entity relation target target_id confidence key)
    with assms show ?thesis
      by (cases "decode_gate_vector key") (auto simp: apply_op_def overlay_def overlay_op_def gates_effect_def)
  next
    case (OpDeleteKnn entity)
    with assms show ?thesis by (auto simp: apply_op_def overlay_def overlay_op_def gates_effect_def)
  qed
  then show "overlay pv' = overlay_op lower (overlay pv) op" "pv_patches pv' = pv_patches pv"
    "pv_gate_cache pv' = pv_gate_cache pv" "index_feature_meta (pv_base pv') = index_feature_meta (pv_base pv)"
    "\<And>l f. l \<notin> touched' \<Longrightarrow> pv_overrides_gate pv' (l, f) = pv_overrides_gate pv (l, f)" "touched \<subseteq> touched'"
    by simp_all
qed

lemma fold_ops_parts:
  "foldl (apply_op lower) (pv, touched) ops = (pv', touched') \<Longrightarrow>
     overlay pv' = foldl (overlay_op lower) (overlay pv) ops \<and> pv_patches pv' = pv_patches pv \<and>
     pv_gate_cache pv' = pv_gate_cache pv \<and> index_feature_meta (pv_base pv') = index_feature_meta (pv_base pv) \<and>
     (\<forall>l f. l \<notin> touched' \<longrightarrow> pv_overrides_gate pv' (l, f) = pv_overrides_gate pv (l, f)) \<and> touched \<subseteq> touched'"
proof (induction ops arbitrary: pv touched)
  case (Cons op ops)
  obtain pv1 t1 where s: "apply_op lower (pv, touched) op = (pv1, t1)" by fastforce
  note a = apply_op_parts [OF s]
  from Cons.prems s have "foldl (apply_op lower) (pv1, t1) ops = (pv', touched')" by simp
  note b = Cons.IH [OF this]
  from b have "\<forall>l f. l \<notin> touched' \<longrightarrow> pv_overrides_gate pv' (l, f) = pv_overrides_gate pv (l, f)"
    using a(5) by (metis subsetD)
  with a b show ?case by auto
qed simp

lemma apply_patch_parts:
  shows "overlay (apply_patch lower pv patch) = foldl (overlay_op lower) (overlay pv) (vp_operations patch)"
    and "pv_patches (apply_patch lower pv patch) = pv_patches pv @ [patch]"
    and "index_feature_meta (pv_base (apply_patch lower pv patch)) = index_feature_meta (pv_base pv)"
    and "pv_gate_cache (apply_patch lower pv patch) layer = Some c \<Longrightarrow>
       pv_gate_cache pv layer = Some c \<and>
       (\<forall>f. pv_overrides_gate (apply_patch lower pv patch) (layer, f) = pv_overrides_gate pv (layer, f))"
proof -
  obtain pv' touched where s: "foldl (apply_op lower) (pv, {}) (vp_operations patch) = (pv', touched)" by fastforce
  note a = fold_ops_parts [OF s]
  show "overlay (apply_patch lower pv patch) = foldl (overlay_op lower) (overlay pv) (vp_operations patch)"
    "pv_patches (apply_patch lower pv patch) = pv_patches pv @ [patch]"
    "index_feature_meta (pv_base (apply_patch lower pv patch)) = index_feature_meta (pv_base pv)"
    using a by (simp_all add: apply_patch_def s overlay_def)
  show "pv_gate_cache pv layer = Some c \<and>
       (\<forall>f. pv_overrides_gate (apply_patch lower pv patch) (layer, f) = pv_overrides_gate pv (layer, f))"
    if "pv_gate_cache (apply_patch lower pv patch) layer = Some c"
    using that a by (auto simp: apply_patch_def s split: if_splits)
qed

section \<open>The view is the fold of the operations\<close>

lemma meta_view_overlay:
  "overlay pv' = overlay_op lower (overlay pv) op \<Longrightarrow> index_feature_meta (pv_base pv') = index_feature_meta (pv_base pv) \<Longrightarrow>
     meta_view pv' = view_effect op (meta_view pv)"
  by (cases op) (auto simp: meta_view_def overlay_def overlay_op_def view_effect_def feature_meta_of_def fun_eq_iff split: option.splits)

lemma fold_ops_view:
  "foldl (apply_op lower) (pv, touched) ops = (pv', touched') \<Longrightarrow> meta_view pv' = foldl (\<lambda>v op. view_effect op v) (meta_view pv) ops"
proof (induction ops arbitrary: pv touched)
  case (Cons op ops)
  obtain pv1 t1 where s: "apply_op lower (pv, touched) op = (pv1, t1)" by fastforce
  note a = apply_op_parts [OF s]
  from Cons.prems s have "foldl (apply_op lower) (pv1, t1) ops = (pv', touched')" by simp
  with Cons.IH meta_view_overlay [OF a(1,4)] show ?case by simp
qed simp

lemma apply_patch_view:
  "meta_view (apply_patch lower pv patch) = foldl (\<lambda>v op. view_effect op v) (meta_view pv) (vp_operations patch)"
proof -
  obtain pv' touched where s: "foldl (apply_op lower) (pv, {}) (vp_operations patch) = (pv', touched)" by fastforce
  have "meta_view (apply_patch lower pv patch) = meta_view pv'"
    by (auto simp: apply_patch_def s meta_view_def feature_meta_of_def fun_eq_iff split: option.split)
  with fold_ops_view [OF s] show ?thesis by simp
qed

lemma apply_patches_view:
  "meta_view (foldl (apply_patch lower) pv patches) =
     foldl (\<lambda>v op. view_effect op v) (meta_view pv) (concat (map vp_operations patches))"
  by (induction patches arbitrary: pv) (simp_all add: apply_patch_view)

lemma apply_patches_overlay:
  "overlay (foldl (apply_patch lower) pv patches) = foldl (overlay_op lower) (overlay pv) (concat (map vp_operations patches))"
  "pv_patches (foldl (apply_patch lower) pv patches) = pv_patches pv @ patches"
  "index_feature_meta (pv_base (foldl (apply_patch lower) pv patches)) = index_feature_meta (pv_base pv)"
  by (induction patches arbitrary: pv) (simp_all add: apply_patch_parts)

text \<open>The gate overrides are the fold of the effects on the gates.\<close>

lemma fold_overlay_gates:
  "fst (snd (foldl (overlay_op lower) ov ops)) = foldl (\<lambda>g op. gates_effect op g) (fst (snd ov)) ops"
  by (induction ops arbitrary: ov) (simp_all add: overlay_op_def split_beta)

end
