(* ===== verification/VindexOverlayCache.thy ===== *)
theory VindexOverlayCache
  imports VindexOverlayLaws
begin

text \<open>
  Removing patches, and the cache of flattened gate vectors: in every overlay the operations reach, a cached layer
  is what the current overrides would give in some order of the hash map.
\<close>

section \<open>Removing a patch\<close>

lemma remove_patch_parts:
  assumes "i < length (pv_patches pv)"
  defines "rest \<equiv> take i (pv_patches pv) @ drop (i + 1) (pv_patches pv)"
  shows "overlay (remove_patch lower i pv) =
       foldl (overlay_op lower) (Map.empty, Map.empty, {}, knn_default) (concat (map vp_operations rest))"
    and "pv_patches (remove_patch lower i pv) = rest"
    and "index_feature_meta (pv_base (remove_patch lower i pv)) = index_feature_meta (pv_base pv)"
proof -
  define start where "start = invalidate_gate_cache (pv\<lparr>pv_patches := rest, pv_overrides_meta := Map.empty,
    pv_overrides_gate := Map.empty, pv_deleted := {}, pv_knn := knn_default, pv_patches := []\<rparr>)"
  have r: "remove_patch lower i pv = foldl (apply_patch lower) start rest"
    using assms by (simp add: remove_patch_def rebuild_overrides_def start_def rest_def)
  have o: "overlay start = (Map.empty, Map.empty, {}, knn_default)" "pv_patches start = []"
    "index_feature_meta (pv_base start) = index_feature_meta (pv_base pv)"
    by (simp_all add: start_def invalidate_gate_cache_def overlay_def)
  show "overlay (remove_patch lower i pv) =
      foldl (overlay_op lower) (Map.empty, Map.empty, {}, knn_default) (concat (map vp_operations rest))"
    "pv_patches (remove_patch lower i pv) = rest"
    "index_feature_meta (pv_base (remove_patch lower i pv)) = index_feature_meta (pv_base pv)"
    unfolding r apply_patches_overlay o by simp_all
qed

lemma meta_view_cong:
  "overlay pv = overlay pv' \<Longrightarrow> index_feature_meta (pv_base pv) = index_feature_meta (pv_base pv') \<Longrightarrow> meta_view pv = meta_view pv'"
  by (auto simp: overlay_def meta_view_def feature_meta_of_def fun_eq_iff split: option.split)

lemma removed_as_never_applied:
  assumes "i < length ps"
  shows "overlay (remove_patch lower i (foldl (apply_patch lower) (new_patched base) ps)) =
       overlay (foldl (apply_patch lower) (new_patched base) (take i ps @ drop (i + 1) ps))"
    and "meta_view (remove_patch lower i (foldl (apply_patch lower) (new_patched base) ps)) =
       meta_view (foldl (apply_patch lower) (new_patched base) (take i ps @ drop (i + 1) ps))"
proof -
  let ?pv = "foldl (apply_patch lower) (new_patched base) ps"
  have p: "pv_patches ?pv = ps" by (simp add: apply_patches_overlay new_patched_def)
  then have i: "i < length (pv_patches ?pv)" using assms by simp
  have o: "overlay (new_patched base) = (Map.empty, Map.empty, {}, knn_default)" by (simp add: overlay_def new_patched_def)
  show ov: "overlay (remove_patch lower i ?pv) = overlay (foldl (apply_patch lower) (new_patched base) (take i ps @ drop (i + 1) ps))"
    by (simp only: remove_patch_parts(1) [OF i] apply_patches_overlay(1) o p)
  show "meta_view (remove_patch lower i ?pv) = meta_view (foldl (apply_patch lower) (new_patched base) (take i ps @ drop (i + 1) ps))"
    by (rule meta_view_cong [OF ov]) (simp only: remove_patch_parts(3) [OF i] apply_patches_overlay(3))
qed

section \<open>The cache\<close>

definition iteration_order :: "patched_vindex \<Rightarrow> nat \<Rightarrow> nat list \<Rightarrow> bool" where
  "iteration_order pv layer order \<longleftrightarrow> distinct order \<and> set order = {f. pv_overrides_gate pv (layer, f) \<noteq> None}"

definition cache_ok :: "patched_vindex \<Rightarrow> bool" where
  "cache_ok pv \<longleftrightarrow> (\<forall>layer c. pv_gate_cache pv layer = Some c \<longrightarrow>
     (\<exists>order. iteration_order pv layer order \<and> build_cache pv layer order = Some c))"

lemma gate_width_cong: "(\<And>f. f \<in> set fs \<Longrightarrow> g f = h f) \<Longrightarrow> gate_width g d fs = gate_width h d fs"
  by (induction fs arbitrary: d) simp_all

lemma build_cache_cong:
  assumes "\<And>f. f \<in> set order \<Longrightarrow> pv_overrides_gate pv' (layer, f) = pv_overrides_gate pv (layer, f)"
  shows "build_cache pv' layer order = build_cache pv layer order"
proof -
  have g: "gate_at pv' layer f = gate_at pv layer f" if "f \<in> set order" for f using assms [OF that] by (simp add: gate_at_def)
  have "gate_width (gate_at pv' layer) 0 order = gate_width (gate_at pv layer) 0 order" by (rule gate_width_cong) (rule g)
  moreover have "map (gate_at pv' layer) order = map (gate_at pv layer) order" using g by (simp cong: map_cong)
  ultimately show ?thesis by (simp only: build_cache_def)
qed

text \<open>An operation that keeps the gates of the layers it leaves in the cache keeps the invariant.\<close>

lemma cache_ok_kept:
  assumes "cache_ok pv"
    and "\<And>layer c. pv_gate_cache pv' layer = Some c \<Longrightarrow>
       pv_gate_cache pv layer = Some c \<and> (\<forall>f. pv_overrides_gate pv' (layer, f) = pv_overrides_gate pv (layer, f))"
  shows "cache_ok pv'"
  unfolding cache_ok_def
proof (intro allI impI)
  fix layer c assume "pv_gate_cache pv' layer = Some c"
  from assms(2) [OF this] have c: "pv_gate_cache pv layer = Some c"
    and g: "\<And>f. pv_overrides_gate pv' (layer, f) = pv_overrides_gate pv (layer, f)" by simp_all
  from assms(1) c obtain order where o: "iteration_order pv layer order" "build_cache pv layer order = Some c"
    by (auto simp: cache_ok_def)
  have "iteration_order pv' layer order" using o(1) by (simp add: iteration_order_def g)
  moreover have "build_cache pv' layer order = Some c" using o(2) build_cache_cong [of order pv' layer pv] g by simp
  ultimately show "\<exists>order. iteration_order pv' layer order \<and> build_cache pv' layer order = Some c" by blast
qed

lemma cache_ok_layer:
  assumes "cache_ok pv" and "\<And>l f. l \<noteq> layer \<Longrightarrow> pv_overrides_gate pv' (l, f) = pv_overrides_gate pv (l, f)"
    and "pv_gate_cache pv' = (pv_gate_cache pv)(layer := None)"
  shows "cache_ok pv'"
  by (rule cache_ok_kept [OF assms(1)]) (use assms(2,3) in \<open>auto split: if_splits\<close>)

lemma cache_ok_fresh: "cache_ok (new_patched base)"
  by (simp add: cache_ok_def new_patched_def)

lemma cache_ok_insert: "cache_ok pv \<Longrightarrow> cache_ok (insert_feature layer feature gate meta pv)"
  by (rule cache_ok_layer [of pv layer]) (simp_all add: insert_feature_def invalidate_gate_cache_layer_def)

lemma cache_ok_delete: "cache_ok pv \<Longrightarrow> cache_ok (delete_feature layer feature pv)"
  by (rule cache_ok_layer [of pv layer]) (simp_all add: delete_feature_def invalidate_gate_cache_layer_def)

lemma cache_ok_update: "cache_ok pv \<Longrightarrow> cache_ok (update_feature_meta layer feature meta pv)"
  by (erule cache_ok_kept) (simp add: update_feature_meta_def)

lemma cache_ok_base: "cache_ok pv \<Longrightarrow> cache_ok (pv\<lparr>pv_base := base\<rparr>)"
  by (erule cache_ok_kept) simp

lemma cache_ok_override: "cache_ok pv \<Longrightarrow> cache_ok (set_gate_override layer feature v pv)"
  by (cases "pv_overrides_gate pv (layer, feature)")
    (auto simp: set_gate_override_def invalidate_gate_cache_layer_def intro!: cache_ok_layer [of pv layer])

lemma cache_ok_patch: "cache_ok pv \<Longrightarrow> cache_ok (apply_patch lower pv patch)"
  by (erule cache_ok_kept) (rule apply_patch_parts(4))

lemma cache_ok_patches: "cache_ok pv \<Longrightarrow> cache_ok (foldl (apply_patch lower) pv patches)"
  by (induction patches arbitrary: pv) (simp_all add: cache_ok_patch)

lemma cache_ok_remove: "cache_ok pv \<Longrightarrow> cache_ok (remove_patch lower i pv)"
proof (cases "i < length (pv_patches pv)")
  case True
  have "cache_ok (invalidate_gate_cache pv')" for pv' by (simp add: cache_ok_def invalidate_gate_cache_def)
  with True show ?thesis unfolding remove_patch_def rebuild_overrides_def by (simp add: cache_ok_patches)
qed (simp add: remove_patch_def)

text \<open>A query: its hits from the cache entry it uses, and its effect, which only fills the cache.\<close>

definition merged_hits ::
    "nat list \<Rightarrow> patched_vindex \<Rightarrow> nat \<Rightarrow> f32 list \<Rightarrow> layer_gate_cache option \<Rightarrow> (nat \<times> f32) list \<Rightarrow> (nat \<times> f32) list option" where
  "merged_hits order pv layer residual cache hits =
     (case cache of
        Some c \<Rightarrow> map_option (\<lambda>scores. if hits = [] then scores else merge_scores hits scores) (cache_scores c residual)
      | None \<Rightarrow> Some (merge_scores hits (map (\<lambda>f. (f, f32_dot (gate_at pv layer f) residual)) order)))"

definition knn_hits ::
    "gemv \<Rightarrow> nat list \<Rightarrow> patched_vindex \<Rightarrow> nat \<Rightarrow> f32 list \<Rightarrow> nat \<Rightarrow> layer_gate_cache option \<Rightarrow> (nat \<times> f32) list option" where
  "knn_hits gemv order pv layer residual k cache =
     (if \<not> has_overrides pv layer \<and> \<not> has_deletions pv layer then index_gate_knn gemv (pv_base pv) layer residual k
      else Option.bind
        (if 0 < index_num_features (pv_base pv) layer
         then index_gate_knn gemv (pv_base pv) layer residual (min (k * 2) (2 ^ 64 - 1)) else Some [])
        (\<lambda>hits. map_option
          (\<lambda>hits. rank_hits (has_overrides pv layer) k
            (if has_deletions pv layer then filter (\<lambda>(f, _). (layer, f) \<notin> pv_deleted pv) hits else hits))
          (if has_overrides pv layer then merged_hits order pv layer residual cache hits else Some hits)))"

lemma layer_gate_cache_keeps:
  assumes "layer_gate_cache order pv layer = (c, pv')"
  shows "pv_deleted pv' = pv_deleted pv" "pv_overrides_gate pv' = pv_overrides_gate pv"
  using assms by (auto simp: layer_gate_cache_def split: option.splits)

lemma merge_overrides_hits:
  assumes "layer_gate_cache order pv layer = (c, pv')"
  shows "merge_overrides order pv layer residual hits = map_option (\<lambda>h. (h, pv')) (merged_hits order pv layer residual c hits)"
proof -
  have "gate_at pv' layer = gate_at pv layer" using layer_gate_cache_keeps(2) [OF assms] by (simp add: gate_at_def [abs_def])
  with assms show ?thesis
    by (cases c) (simp_all add: merge_overrides_def merged_hits_def option.map_comp o_def)
qed

lemma gate_knn_hits:
  assumes "layer_gate_cache order pv layer = (c, pv')"
  shows "gate_knn gemv order pv layer residual k =
     map_option (\<lambda>h. (h, if has_overrides pv layer then pv' else pv)) (knn_hits gemv order pv layer residual k c)"
proof -
  have k: "has_overrides pv' layer = has_overrides pv layer" "has_deletions pv' layer = has_deletions pv layer"
    using layer_gate_cache_keeps [OF assms] by (simp_all add: has_overrides_def has_deletions_def)
  note d = layer_gate_cache_keeps(1) [OF assms]
  show ?thesis
  proof (cases "has_overrides pv layer")
    case False
    then show ?thesis by (simp add: gate_knn_def knn_hits_def map_option_bind option.map_comp o_def)
  next
    case True
    then show ?thesis
      by (simp add: gate_knn_def knn_hits_def map_option_bind option.map_comp o_def merge_overrides_hits [OF assms] k d cong: if_cong)
  qed
qed

lemma gate_knn_state:
  assumes "gate_knn gemv order pv layer residual k = Some (hits, pv')"
  shows "pv' = pv \<or> (\<exists>c. pv_gate_cache pv layer = None \<and> build_cache pv layer order = Some c \<and>
     pv' = pv\<lparr>pv_gate_cache := (pv_gate_cache pv)(layer \<mapsto> c)\<rparr>)"
proof -
  obtain c pv1 where l: "layer_gate_cache order pv layer = (c, pv1)" by fastforce
  have "pv' = pv \<or> pv' = pv1" using assms unfolding gate_knn_hits [OF l] by (auto split: if_splits)
  with l show ?thesis by (auto simp: layer_gate_cache_def split: option.splits)
qed

lemma cache_ok_knn:
  assumes "cache_ok pv" and "iteration_order pv layer order" and "gate_knn gemv order pv layer residual k = Some (hits, pv')"
  shows "cache_ok pv'"
  using gate_knn_state [OF assms(3)]
proof
  assume "\<exists>c. pv_gate_cache pv layer = None \<and> build_cache pv layer order = Some c \<and>
     pv' = pv\<lparr>pv_gate_cache := (pv_gate_cache pv)(layer \<mapsto> c)\<rparr>"
  then obtain c where c: "build_cache pv layer order = Some c" and pv': "pv' = pv\<lparr>pv_gate_cache := (pv_gate_cache pv)(layer \<mapsto> c)\<rparr>"
    by blast
  have b: "build_cache pv' l o' = build_cache pv l o'" "iteration_order pv' l o' = iteration_order pv l o'" for l o'
    by (rule build_cache_cong) (simp_all add: pv' iteration_order_def)
  show ?thesis using assms(1,2) c unfolding cache_ok_def b by (auto simp: pv' split: if_splits)
qed (use assms(1) in simp)

text \<open>Overlays the operations reach; the base can be changed at any time.\<close>

inductive patched_reachable :: "patched_vindex \<Rightarrow> bool" where
  patched_new: "patched_reachable (new_patched base)"
| patched_insert: "patched_reachable pv \<Longrightarrow> patched_reachable (insert_feature layer feature gate meta pv)"
| patched_delete: "patched_reachable pv \<Longrightarrow> patched_reachable (delete_feature layer feature pv)"
| patched_update: "patched_reachable pv \<Longrightarrow> patched_reachable (update_feature_meta layer feature meta pv)"
| patched_override: "patched_reachable pv \<Longrightarrow> patched_reachable (set_gate_override layer feature v pv)"
| patched_base: "patched_reachable pv \<Longrightarrow> patched_reachable (pv\<lparr>pv_base := base\<rparr>)"
| patched_apply: "patched_reachable pv \<Longrightarrow> patched_reachable (apply_patch lower pv patch)"
| patched_remove: "patched_reachable pv \<Longrightarrow> patched_reachable (remove_patch lower i pv)"
| patched_knn: "patched_reachable pv \<Longrightarrow> iteration_order pv layer order \<Longrightarrow>
    gate_knn gemv order pv layer residual k = Some (hits, pv') \<Longrightarrow> patched_reachable pv'"

lemma patched_reachable_cache: "patched_reachable pv \<Longrightarrow> cache_ok pv"
  by (induction rule: patched_reachable.induct)
    (simp_all add: cache_ok_fresh cache_ok_insert cache_ok_delete cache_ok_update cache_ok_override cache_ok_base cache_ok_patch
      cache_ok_remove cache_ok_knn)

section \<open>Queries do not depend on the cache\<close>

lemma knn_hits_inv: "knn_hits gemv order (invalidate_gate_cache pv) layer residual k c = knn_hits gemv order pv layer residual k c"
  by (simp add: knn_hits_def invalidate_gate_cache_def has_overrides_def has_deletions_def merged_hits_def [abs_def] gate_at_def [abs_def]
      cong: if_cong option.case_cong)

text \<open>With a cache entry the walking order does not matter.\<close>

lemma knn_hits_order: "knn_hits gemv order pv layer residual k (Some c) = knn_hits gemv order' pv layer residual k (Some c)"
  by (simp add: knn_hits_def merged_hits_def)

lemma gate_knn_uncached:
  assumes "cache_ok pv" and "iteration_order pv layer order"
  shows "\<exists>order'. iteration_order pv layer order' \<and>
     map_option fst (gate_knn gemv order pv layer residual k) =
     map_option fst (gate_knn gemv order' (invalidate_gate_cache pv) layer residual k)"
proof -
  let ?inv = "invalidate_gate_cache pv"
  have b: "build_cache ?inv layer o' = build_cache pv layer o'" for o'
    by (rule build_cache_cong) (simp add: invalidate_gate_cache_def)
  have n: "pv_gate_cache ?inv layer = None" by (simp add: invalidate_gate_cache_def)
  have f: "map_option fst (gate_knn gemv o' p layer residual k) = knn_hits gemv o' p layer residual k (fst (layer_gate_cache o' p layer))" for o' p
  proof -
    obtain c p' where "layer_gate_cache o' p layer = (c, p')" by fastforce
    from gate_knn_hits [OF this] this show ?thesis by (simp add: option.map_comp o_def option.map_ident)
  qed
  show ?thesis
  proof (cases "pv_gate_cache pv layer")
    case None
    then have "fst (layer_gate_cache order ?inv layer) = fst (layer_gate_cache order pv layer)"
      by (simp add: layer_gate_cache_def b n split: option.split)
    then show ?thesis using assms(2) by (auto simp: f knn_hits_inv)
  next
    case (Some c)
    with assms(1) obtain o' where o: "iteration_order pv layer o'" "build_cache pv layer o' = Some c" by (auto simp: cache_ok_def)
    have "fst (layer_gate_cache o' ?inv layer) = Some c" "fst (layer_gate_cache order pv layer) = Some c"
      by (simp_all add: layer_gate_cache_def b n o(2) Some)
    then show ?thesis using o(1) knn_hits_order [of gemv order pv layer residual k c o'] by (auto simp: f knn_hits_inv)
  qed
qed

end
