(* ===== verification/VindexOverlayTop.thy ===== *)
theory VindexOverlayTop
  imports VindexOverlayCache
begin

text \<open>
  A query on a patched layer: when no more features of the layer are overridden or deleted than hits are asked for,
  the twofold oversampling of the base leaves exactly the best features of the patched layer.
\<close>

section \<open>The scores of the base\<close>

text \<open>The interface of a base the overlay queries: its hits are the best of its features.\<close>

locale knn_provider =
  fixes knn :: "nat \<Rightarrow> (nat \<times> f32) list option" and n :: nat and score :: "nat \<Rightarrow> f32"
  assumes best: "\<forall>f < n. \<not> f32_is_nan (score f) \<Longrightarrow> \<exists>hits. knn k = Some hits \<and> is_top_k k {..<n} score hits"
begin

text \<open>When fewer than the asked hits come back, they are all the features.\<close>

lemma all_or_full:
  assumes "\<forall>f < n. \<not> f32_is_nan (score f)" and "knn k = Some hits"
  shows "fst ` set hits = {..<n} \<or> length hits = k"
proof -
  from best [OF assms(1), of k] assms(2) have t: "is_top_k k {..<n} score hits" by auto
  then have "fst ` set hits \<subseteq> {..<n}" "length hits = min k n" "distinct (map fst hits)" by (simp_all add: is_top_k_def)
  moreover have "card (fst ` set hits) = length hits" using calculation(3) by (metis distinct_card length_map set_map)
  ultimately show ?thesis using card_subset_eq [of "{..<n}" "fst ` set hits"] by (auto simp: min_def split: if_splits)
qed

text \<open>A feature that is not a hit has at most the magnitude of each hit.\<close>

lemma beyond:
  assumes "\<forall>f < n. \<not> f32_is_nan (score f)" and "knn k = Some hits" and "f < n" and "f \<notin> fst ` set hits" and "h \<in> set hits"
  shows "f32_magnitude (score f) \<le> f32_magnitude (snd h)"
  using best [OF assms(1), of k] assms(2-5) by (auto simp: is_top_k_def)

end

interpretation scored: knn_provider "top_k_by_abs scores" "length scores" "(!) scores" for scores
  by unfold_locales (use top_k_selects in \<open>simp add: all_set_conv_all_nth\<close>)

definition base_scores :: "gemv \<Rightarrow> base_index \<Rightarrow> nat \<Rightarrow> f32 list \<Rightarrow> f32 list" where
  "base_scores gemv ix layer residual = the (layer_scores gemv ix layer residual)"

lemma index_gate_knn_scores:
  "layer_scores gemv ix layer residual \<noteq> None \<Longrightarrow>
     index_gate_knn gemv ix layer residual k = top_k_by_abs (base_scores gemv ix layer residual) k"
  by (auto simp: index_gate_knn_def base_scores_def)

text \<open>A product has an entry for each row.\<close>

definition gemv_rows :: "gemv \<Rightarrow> bool" where
  "gemv_rows gemv \<longleftrightarrow> (\<forall>m v. length (gemv m v) = length m)"

lemma no_features_no_scores:
  assumes "gemv_rows gemv" and "index_num_features ix layer = 0" and "layer_scores gemv ix layer residual \<noteq> None"
  shows "base_scores gemv ix layer residual = []"
proof -
  from assms(2) have s: "stored_features ix layer = 0" by (auto simp: index_num_features_def split: if_splits)
  then have "gate_layer_view ix layer = None"
    by (auto simp: stored_features_def gate_layer_view_def split: option.splits if_splits)
  then have m: "mapped_gate ix layer = None" by (simp add: mapped_gate_def)
  have "gm_rows g = []" if "gate_vectors_at ix layer = Some g" for g
    using assms(2) s that by (auto simp: index_num_features_def split: if_splits)
  then have "gm_rows g = []" if "gate_for_scores ix layer = Some g" for g
    using that m by (auto simp: gate_for_scores_def Let_def split: option.splits if_splits)
  moreover have "gemv [] residual = []" using assms(1) by (metis gemv_rows_def length_0_conv)
  ultimately show ?thesis using assms(3)
    by (auto simp: base_scores_def layer_scores_def gate_view_def rows_of_def split: option.splits if_splits)
qed

section \<open>Merging\<close>

lemma merge_fold:
  assumes "distinct (map fst hits)" and "\<forall>f. idx f = (if f \<in> fst ` set hits then Some (THE i. i < length hits \<and> fst (hits ! i) = f) else None)"
    and "foldl merge_hit (hits, idx) scores = (hits', idx')" and "distinct (map fst scores)"
  shows "distinct (map fst hits') \<and> set hits' = {(f, s) \<in> set hits. f \<notin> fst ` set scores} \<union> set scores"
  using assms
proof (induction scores arbitrary: hits idx)
  case (Cons x scores)
  obtain f s where x: "x = (f, s)" by fastforce
  obtain hits1 idx1 where m: "merge_hit (hits, idx) x = (hits1, idx1)" by fastforce
  have pos: "(THE i. i < length hits \<and> fst (hits ! i) = g) = i" if "i < length hits" "fst (hits ! i) = g" for g i
    using that Cons.prems(1) by (intro the_equality) (auto simp: distinct_conv_nth)
  have step: "distinct (map fst hits1) \<and> set hits1 = {(g, t) \<in> set hits. g \<noteq> f} \<union> {(f, s)} \<and>
      (\<forall>g. idx1 g = (if g \<in> fst ` set hits1 then Some (THE i. i < length hits1 \<and> fst (hits1 ! i) = g) else None))"
  proof (cases "f \<in> fst ` set hits")
    case True
    then obtain i where i: "i < length hits" "fst (hits ! i) = f" by (auto simp: in_set_conv_nth image_iff)
    then have "idx f = Some i" using Cons.prems(2) True pos [OF i] by simp
    then have h1: "hits1 = hits[i := (f, s)]" "idx1 = idx" using m i(2) by (simp_all add: merge_hit_def x)
    have mf: "map fst hits1 = map fst hits" using i by (simp add: h1 map_update) (metis length_map list_update_id nth_map)
    then have nf: "\<And>j. j < length hits \<Longrightarrow> fst (hits1 ! j) = fst (hits ! j)" "length hits1 = length hits"
      by (metis length_map nth_map, metis length_map)
    have "set hits1 = {(g, t) \<in> set hits. g \<noteq> f} \<union> {(f, s)}"
    proof
      show "set hits1 \<subseteq> {(g, t) \<in> set hits. g \<noteq> f} \<union> {(f, s)}"
      proof
        fix y assume "y \<in> set hits1"
        then obtain j where j: "j < length hits" "y = hits1 ! j" using nf(2) by (auto simp: in_set_conv_nth)
        show "y \<in> {(g, t) \<in> set hits. g \<noteq> f} \<union> {(f, s)}"
        proof (cases "j = i")
          case False
          then have "fst (hits ! j) \<noteq> f" using Cons.prems(1) i j by (auto simp: distinct_conv_nth)
          with False j show ?thesis by (auto simp: h1 case_prod_unfold)
        qed (use j i h1 in simp)
      qed
      show "{(g, t) \<in> set hits. g \<noteq> f} \<union> {(f, s)} \<subseteq> set hits1"
      proof
        fix y assume "y \<in> {(g, t) \<in> set hits. g \<noteq> f} \<union> {(f, s)}"
        then consider "y = (f, s)" | "y \<in> set hits" "fst y \<noteq> f" by auto
        then show "y \<in> set hits1"
        proof cases
          case 1
          then show ?thesis using i h1 by (simp add: set_update_memI)
        next
          case 2
          then obtain j where "j < length hits" "y = hits ! j" by (auto simp: in_set_conv_nth)
          with 2 i h1 show ?thesis by (metis length_list_update nth_list_update_neq nth_mem)
        qed
      qed
    qed
    moreover have "fst ` set hits1 = fst ` set hits" using mf by (metis set_map)
    moreover have "(\<lambda>j. j < length hits1 \<and> fst (hits1 ! j) = g) = (\<lambda>j. j < length hits \<and> fst (hits ! j) = g)" for g
      using nf by auto
    ultimately show ?thesis using Cons.prems(1,2) mf h1(2) by simp
  next
    case False
    then have h1: "hits1 = hits @ [(f, s)]" "idx1 = idx(f \<mapsto> length hits)" using m Cons.prems(2) by (simp_all add: merge_hit_def x)
    have "distinct (map fst hits1)" using Cons.prems(1) False by (simp add: h1)
    moreover have "(THE j. j < length hits1 \<and> fst (hits1 ! j) = g) = (if g = f then length hits else THE j. j < length hits \<and> fst (hits ! j) = g)"
      if "g \<in> fst ` set hits1" for g
    proof (cases "g = f")
      case True
      then show ?thesis using False
        by (auto simp: h1 nth_append less_Suc_eq intro!: the_equality)
    next
      case ne: False
      then have "(\<lambda>j. j < length hits1 \<and> fst (hits1 ! j) = g) = (\<lambda>j. j < length hits \<and> fst (hits ! j) = g)"
        by (auto simp: h1 nth_append less_Suc_eq fun_eq_iff)
      with ne show ?thesis by simp
    qed
    moreover have "set hits1 = {(g, t) \<in> set hits. g \<noteq> f} \<union> {(f, s)}" using False by (auto simp: h1 image_iff)
    ultimately show ?thesis using Cons.prems(2) by (auto simp: h1)
  qed
  from Cons.prems(3) m have "foldl merge_hit (hits1, idx1) scores = (hits', idx')" by simp
  note fold = this
  from step have d1: "distinct (map fst hits1)"
    and i1: "\<forall>g. idx1 g = (if g \<in> fst ` set hits1 then Some (THE i. i < length hits1 \<and> fst (hits1 ! i) = g) else None)"
    by blast+
  have "distinct (map fst scores)" using Cons.prems(4) by simp
  from Cons.IH [OF d1 i1 fold this]
  have "distinct (map fst hits') \<and> set hits' = {(g, t) \<in> set hits1. g \<notin> fst ` set scores} \<union> set scores" .
  then show ?case using step Cons.prems(4) by (auto simp: x)
qed auto

lemma merge_scores_set:
  assumes "distinct (map fst hits)" and "distinct (map fst scores)"
  shows "distinct (map fst (merge_scores hits scores))"
    and "set (merge_scores hits scores) = {(f, s) \<in> set hits. f \<notin> fst ` set scores} \<union> set scores"
proof -
  let ?idx = "map_of (rev (zip (map fst hits) [0..<length hits]))"
  have d: "distinct (map fst (rev (zip (map fst hits) [0..<length hits])))" using assms(1) by (simp add: rev_map [symmetric])
  have idx: "?idx f = (if f \<in> fst ` set hits then Some (THE i. i < length hits \<and> fst (hits ! i) = f) else None)" for f
  proof (cases "f \<in> fst ` set hits")
    case True
    then obtain i where i: "i < length hits" "fst (hits ! i) = f" by (auto simp: in_set_conv_nth image_iff)
    then have "(f, i) \<in> set (rev (zip (map fst hits) [0..<length hits]))" by (auto simp: in_set_zip intro!: exI [of _ i])
    then have "?idx f = Some i" using d by simp
    moreover have "(THE i. i < length hits \<and> fst (hits ! i) = f) = i"
      using i assms(1) by (intro the_equality) (auto simp: distinct_conv_nth)
    ultimately show ?thesis using True by simp
  next
    case False
    then have "f \<notin> fst ` set (rev (zip (map fst hits) [0..<length hits]))" by (auto dest: set_zip_leftD simp: image_iff)
    then have "?idx f = None" by (rule map_of_eq_None_iff [THEN iffD2])
    then show ?thesis using False by simp
  qed
  obtain hits' idx' where m: "foldl merge_hit (hits, ?idx) scores = (hits', idx')" by fastforce
  from merge_fold [OF assms(1) _ m assms(2)] idx
  show "distinct (map fst (merge_scores hits scores))"
    "set (merge_scores hits scores) = {(f, s) \<in> set hits. f \<notin> fst ` set scores} \<union> set scores"
    by (simp_all add: merge_scores_def m)
qed

section \<open>The flattened gates\<close>

lemma gate_width_uniform:
  "0 < d \<Longrightarrow> gate_width g d fs = Some d' \<Longrightarrow> d' = d \<and> (\<forall>f \<in> set fs. length (g f) = d)"
  by (induction fs) (auto split: if_splits)

lemma gate_width_nonempty:
  assumes "\<forall>f \<in> set fs. g f \<noteq> []" and "gate_width g 0 fs = Some d"
  shows "\<forall>f \<in> set fs. length (g f) = d"
proof (cases fs)
  case (Cons f fs')
  then have "0 < length (g f)" "gate_width g (length (g f)) fs' = Some d" using assms by auto
  from gate_width_uniform [OF this] Cons show ?thesis by auto
qed simp

lemma segment_concat:
  "\<forall>x \<in> set xss. length x = d \<Longrightarrow> i < length xss \<Longrightarrow>
     segment (i * d) ((i + 1) * d) (concat xss) = xss ! i \<and> (i + 1) * d \<le> length (concat xss)"
proof (induction xss arbitrary: i)
  case (Cons x xss)
  then show ?case by (cases i) (auto simp: segment_def)
qed simp

lemma those_map_Some: "(\<And>x. x \<in> set xs \<Longrightarrow> f x = Some (g x)) \<Longrightarrow> those (map f xs) = Some (map g xs)"
  by (induction xs) simp_all

lemma cache_scores_built:
  assumes "build_cache pv layer order = Some c" and "\<forall>f \<in> set order. gate_at pv layer f \<noteq> []"
  shows "cache_scores c residual = Some (map (\<lambda>f. (f, f32_dot (gate_at pv layer f) residual)) order)"
proof -
  from assms(1) obtain d where d: "gate_width (gate_at pv layer) 0 order = Some d"
    and c: "c = \<lparr>lc_feature_ids = order, lc_gate_matrix = concat (map (gate_at pv layer) order), lc_d = d\<rparr>"
    by (auto simp: build_cache_def split: option.splits if_splits)
  from gate_width_nonempty [OF assms(2) d] have "\<forall>x \<in> set (map (gate_at pv layer) order). length x = d" by simp
  note seg = segment_concat [OF this]
  have "cache_row c i = Some (gate_at pv layer (order ! i))" if "i < length order" for i
    using seg [of i] that by (simp add: cache_row_def c not_less)
  moreover have ids: "lc_feature_ids c = order" by (simp add: c)
  ultimately have "cache_scores c residual = Some (map (\<lambda>(i, f). (f, f32_dot (gate_at pv layer f) residual)) (zip [0..<length order] order))"
    unfolding cache_scores_def ids by (intro those_map_Some) (auto simp: in_set_zip)
  also have "map (\<lambda>(i, f). (f, f32_dot (gate_at pv layer f) residual)) (zip [0..<length order] order) =
      map (\<lambda>f. (f, f32_dot (gate_at pv layer f) residual)) order" by (rule nth_equalityI) simp_all
  finally show ?thesis .
qed

text \<open>The hits after the overrides are merged in, whatever the cache holds.\<close>

lemma merged_hits_set:
  assumes "cache_ok pv" and "iteration_order pv layer order"
    and "\<forall>f v. pv_overrides_gate pv (layer, f) = Some v \<longrightarrow> v \<noteq> []" and "distinct (map fst hits)"
  defines "ov \<equiv> {f. pv_overrides_gate pv (layer, f) \<noteq> None}"
  shows "\<exists>m. merged_hits order pv layer residual (fst (layer_gate_cache order pv layer)) hits = Some m \<and> distinct (map fst m) \<and>
     set m = {(f, s) \<in> set hits. f \<notin> ov} \<union> (\<lambda>f. (f, f32_dot (gate_at pv layer f) residual)) ` ov"
proof -
  have ne: "\<forall>f \<in> set o'. gate_at pv layer f \<noteq> []" if "iteration_order pv layer o'" for o'
    using that assms(3) by (auto simp: iteration_order_def gate_at_def)
  have scored: "\<exists>m. Some (if hits = [] then scores else merge_scores hits scores) = Some m \<and> distinct (map fst m) \<and>
      set m = {(f, s) \<in> set hits. f \<notin> ov} \<union> (\<lambda>f. (f, f32_dot (gate_at pv layer f) residual)) ` ov"
    "distinct (map fst (merge_scores hits scores)) \<and>
      set (merge_scores hits scores) = {(f, s) \<in> set hits. f \<notin> ov} \<union> (\<lambda>f. (f, f32_dot (gate_at pv layer f) residual)) ` ov"
    if o': "iteration_order pv layer o'" and s: "scores = map (\<lambda>f. (f, f32_dot (gate_at pv layer f) residual)) o'" for o' scores
  proof -
    have f: "map fst scores = o'" by (simp add: s o_def)
    then have d: "distinct (map fst scores)" "fst ` set scores = ov"
      using o' by (simp_all add: iteration_order_def ov_def flip: set_map)
    have ss: "set scores = (\<lambda>f. (f, f32_dot (gate_at pv layer f) residual)) ` ov" using o' by (simp add: s iteration_order_def ov_def)
    from merge_scores_set [OF assms(4) d(1)] d(2) ss
    show "distinct (map fst (merge_scores hits scores)) \<and>
      set (merge_scores hits scores) = {(f, s) \<in> set hits. f \<notin> ov} \<union> (\<lambda>f. (f, f32_dot (gate_at pv layer f) residual)) ` ov" by simp
    then show "\<exists>m. Some (if hits = [] then scores else merge_scores hits scores) = Some m \<and> distinct (map fst m) \<and>
      set m = {(f, s) \<in> set hits. f \<notin> ov} \<union> (\<lambda>f. (f, f32_dot (gate_at pv layer f) residual)) ` ov"
      using d(1) ss by auto
  qed
  obtain c where c: "fst (layer_gate_cache order pv layer) = c" by blast
  show ?thesis
  proof (cases c)
    case None
    with c scored(2) [OF assms(2) refl] show ?thesis by (simp add: merged_hits_def)
  next
    case (Some c')
    have "\<exists>o'. iteration_order pv layer o' \<and> build_cache pv layer o' = Some c'"
    proof (cases "pv_gate_cache pv layer")
      case None
      with c Some assms(2) show ?thesis by (auto simp: layer_gate_cache_def split: option.splits)
    next
      case (Some c1)
      with c \<open>c = Some c'\<close> assms(1) show ?thesis by (auto simp: layer_gate_cache_def cache_ok_def)
    qed
    then obtain o' where o': "iteration_order pv layer o'" "build_cache pv layer o' = Some c'" by blast
    have cs: "cache_scores c' residual = Some (map (\<lambda>f. (f, f32_dot (gate_at pv layer f) residual)) o')"
      by (rule cache_scores_built [OF o'(2) ne [OF o'(1)]])
    have "merged_hits order pv layer residual (Some c') hits =
        Some (if hits = [] then map (\<lambda>f. (f, f32_dot (gate_at pv layer f) residual)) o'
          else merge_scores hits (map (\<lambda>f. (f, f32_dot (gate_at pv layer f) residual)) o'))"
      by (simp add: merged_hits_def cs)
    with scored(1) [OF o'(1) refl] show ?thesis unfolding c Some by metis
  qed
qed

section \<open>The best of the patched layer\<close>

text \<open>
  \<open>H\<close> are the \<open>2 k\<close> best features of the base, \<open>M\<close> the features left to rank after \<open>A\<close>, at most \<open>k\<close>
  features, were overridden or deleted: the best \<open>k\<close> of \<open>M\<close> are the best \<open>k\<close> of the patched layer.
\<close>

lemma oversampling_suffices:
  assumes top: "is_top_k (2 * k) {..<n} score H" and A: "A = ov \<union> del" "finite A" "card A \<le> k"
    and same: "\<And>f. f \<notin> ov \<Longrightarrow> eff f = score f" and C: "C = ({..<n} \<union> ov) - del"
    and C': "C' = (fst ` set H \<union> ov) - del"
    and R: "is_top_k k C' eff R"
  shows "is_top_k k C eff R"
proof -
  have fin: "finite C" "finite C'" using A(1,2) by (simp_all add: C C')
  have Hn: "fst ` set H \<subseteq> {..<n}" and dH: "distinct (map fst H)" and lH: "length H = min (2 * k) n"
    and sH: "\<And>f s. (f, s) \<in> set H \<Longrightarrow> s = score f"
    and bH: "\<And>f h. f < n \<Longrightarrow> f \<notin> fst ` set H \<Longrightarrow> h \<in> set H \<Longrightarrow> f32_magnitude (score f) \<le> f32_magnitude (snd h)"
    using top by (auto simp: is_top_k_def)
  have CC: "C' \<subseteq> C" using Hn by (auto simp: C C')
  show ?thesis
  proof (cases "C = C'")
    case True
    with R show ?thesis by simp
  next
    case False
    then obtain g0 where g0: "g0 \<in> C" "g0 \<notin> C'" using CC by blast
    then have "g0 < n" "g0 \<notin> fst ` set H" by (auto simp: C C')
    then have "fst ` set H \<noteq> {..<n}" by auto
    moreover have cH: "card (fst ` set H) = length H" using dH by (metis distinct_card length_map set_map)
    ultimately have "length H \<noteq> n" using Hn by (metis card_lessThan card_subset_eq finite_lessThan)
    then have l2: "length H = 2 * k" using lH by simp
    define U where "U = fst ` set H - A"
    have "card U \<ge> card (fst ` set H) - card A" unfolding U_def by (rule diff_card_le_card_Diff [OF A(2)])
    then have kU: "k \<le> card U" using cH l2 A(3) by simp
    have fU: "finite U" by (simp add: U_def)
    have UC: "U \<subseteq> C'" by (auto simp: U_def C' A(1))
    have rC': "card C' \<ge> k" using kU card_mono [OF fin(2) UC] by simp
    then have rC: "card C \<ge> k" using card_mono [OF fin(1) CC] by simp
    have dR: "distinct (map fst R)" and RC: "fst ` set R \<subseteq> C'" and sR: "\<And>f s. (f, s) \<in> set R \<Longrightarrow> s = eff f"
      and lR: "length R = k" and oR: "sorted_wrt (\<lambda>a b. rank a \<le> rank b) R"
      and bR: "\<And>f h. f \<in> C' \<Longrightarrow> f \<notin> fst ` set R \<Longrightarrow> h \<in> set R \<Longrightarrow> f32_magnitude (eff f) \<le> f32_magnitude (snd h)"
      using R rC' by (auto simp: is_top_k_def)
    have cR: "card (fst ` set R) = k" using dR lR by (metis distinct_card length_map set_map)
    have Umag: "f32_magnitude (eff g) \<le> f32_magnitude (eff u)" if g: "g \<in> C" "g \<notin> C'" and u: "u \<in> U" for g u
    proof -
      have gn: "g < n" "g \<notin> fst ` set H" "g \<notin> ov" using g by (auto simp: C C')
      from u obtain s where h: "(u, s) \<in> set H" "u \<notin> ov" by (auto simp: U_def A(1))
      from bH [OF gn(1,2) h(1)] sH [OF h(1)] same [OF gn(3)] same [OF h(2)] show ?thesis by simp
    qed
    have "f32_magnitude (eff f) \<le> f32_magnitude (snd h)" if f: "f \<in> C - fst ` set R" and h: "h \<in> set R" for f h
    proof (cases "f \<in> C'")
      case True
      with f h bR show ?thesis by blast
    next
      case f': False
      show ?thesis
      proof (rule ccontr)
        assume less: "\<not> ?thesis"
        have "u \<in> fst ` set R" if u: "u \<in> U" for u
        proof (rule ccontr)
          assume "u \<notin> fst ` set R"
          with bR [of u h] UC u h have "f32_magnitude (eff u) \<le> f32_magnitude (snd h)" by blast
          moreover have "f32_magnitude (eff f) \<le> f32_magnitude (eff u)" using Umag [OF _ f' u] f by simp
          ultimately show False using less by simp
        qed
        then have "U \<subseteq> fst ` set R" by blast
        then have "U = fst ` set R" using kU cR by (intro card_seteq) simp_all
        then have "fst h \<in> U" using h by simp
        moreover have "snd h = eff (fst h)" using sR [of "fst h" "snd h"] h by simp
        ultimately show False using Umag [OF _ f'] f less by simp
      qed
    qed
    moreover have "fst ` set R \<subseteq> C" using RC CC by blast
    ultimately show ?thesis using dR sR lR oR rC by (auto simp: is_top_k_def)
  qed
qed

text \<open>Ranking keeps the best.\<close>

lemma rank_sorted:
  assumes "distinct (map fst m)" and "\<And>f s. (f, s) \<in> set m \<Longrightarrow> s = eff f" and "sorted_wrt (\<lambda>a b. rank a \<le> rank b) m"
  shows "is_top_k k (fst ` set m) eff (take k m)"
proof -
  have card: "card (fst ` set m) = length m" using assms(1) by (metis distinct_card length_map set_map)
  have "f32_magnitude (eff f) \<le> f32_magnitude (snd h)"
    if f: "f \<in> fst ` set m - fst ` set (take k m)" and h: "h \<in> set (take k m)" for f h
  proof -
    from f have nf: "f \<notin> fst ` set (take k m)" by (rule Diff_iff [THEN iffD1, THEN conjunct2])
    from f have "f \<in> fst ` set m" by (rule Diff_iff [THEN iffD1, THEN conjunct1])
    then obtain x where x: "x \<in> set m" "fst x = f" by (elim imageE) simp
    have "x \<in> set (take k m @ drop k m)" using x by simp
    moreover have "x \<notin> set (take k m)" using nf x(2) by (metis imageI)
    ultimately have "x \<in> set (drop k m)" unfolding set_append by simp
    moreover have "sorted_wrt (\<lambda>a b. rank a \<le> rank b) (take k m @ drop k m)" using assms(3) by simp
    then have "\<forall>a \<in> set (take k m). \<forall>b \<in> set (drop k m). rank a \<le> rank b"
      by (rule sorted_wrt_append [THEN iffD1, THEN conjunct2, THEN conjunct2])
    ultimately have "rank h \<le> rank x" using h by blast
    moreover have "snd x = eff f" using assms(2) [of f "snd x"] x by (metis prod.collapse)
    ultimately show ?thesis by (simp add: rank_def)
  qed
  moreover have "distinct (map fst (take k m))" using assms(1) by (simp add: take_map [symmetric])
  ultimately show ?thesis using assms card set_take_subset [of k m] by (auto simp: is_top_k_def sorted_wrt_take)
qed

lemma max_by_best:
  assumes "finite_scores m" and "max_by (\<lambda>a b. f32_cmp (f32_abs (snd a)) (f32_abs (snd b))) m = Some w"
  shows "w \<in> set m \<and> (\<forall>x \<in> set m. f32_magnitude (snd x) \<le> f32_magnitude (snd w))"
proof -
  let ?c = "\<lambda>a b. f32_cmp (f32_abs (snd a)) (f32_abs (snd b)) :: ordering"
  obtain x ys where m: "m = x # ys" using assms(2) by (cases m) (auto simp: max_by_def)
  have "foldl (\<lambda>best y. if ?c best y = OrdGreater then best else y) x ys \<in> set (x # ys) \<and>
      (\<forall>z \<in> set (x # ys). f32_magnitude (snd z) \<le> f32_magnitude (snd (foldl (\<lambda>best y. if ?c best y = OrdGreater then best else y) x ys)))"
    if "finite_scores (x # ys)" for x ys
    using that
  proof (induction ys arbitrary: x)
    case (Cons y ys)
    let ?b = "if ?c x y = OrdGreater then x else y"
    have n: "\<not> f32_is_nan (snd x)" "\<not> f32_is_nan (snd y)" using Cons.prems by (simp_all add: finite_scores_def)
    have k: "?c x y = OrdGreater \<longleftrightarrow> f32_magnitude (snd y) < f32_magnitude (snd x)"
      using f32_less_abs [OF n] f32_less_abs [OF n(2) n(1)] by (auto simp: f32_cmp_def)
    have "finite_scores (?b # ys)" using Cons.prems by (simp add: finite_scores_def)
    from Cons.IH [OF this] have
      "foldl (\<lambda>best y. if ?c best y = OrdGreater then best else y) ?b ys \<in> set (?b # ys) \<and>
       (\<forall>z \<in> set (?b # ys). f32_magnitude (snd z) \<le> f32_magnitude (snd (foldl (\<lambda>best y. if ?c best y = OrdGreater then best else y) ?b ys)))" .
    then show ?case using k by (cases "?c x y = OrdGreater") auto
  qed simp
  from this [of x ys] assms show ?thesis by (simp add: m max_by_def)
qed

lemma rank_hits_best:
  assumes "distinct (map fst m)" and "finite_scores m" and "\<And>f s. (f, s) \<in> set m \<Longrightarrow> s = eff f"
    and "\<not> ov \<Longrightarrow> sorted_wrt (\<lambda>a b. rank a \<le> rank b) m"
  shows "is_top_k k (fst ` set m) eff (rank_hits ov k m)"
proof (cases "ov \<and> k = 1")
  case True
  show ?thesis
  proof (cases m)
    case Nil
    with True show ?thesis by (simp add: rank_hits_def is_top_k_def max_by_def)
  next
    case (Cons x ys)
    then obtain w where w: "max_by (\<lambda>a b. f32_cmp (f32_abs (snd a)) (f32_abs (snd b))) m = Some w" by (simp add: max_by_def)
    note b = max_by_best [OF assms(2) w]
    have "card (fst ` set m) \<ge> 1" using Cons by (simp add: Suc_leI card_gt_0_iff)
    moreover have "snd w = eff (fst w)" using assms(3) [of "fst w" "snd w"] b by simp
    moreover have "f32_magnitude (eff f) \<le> f32_magnitude (snd w)" if "f \<in> fst ` set m" for f
    proof -
      from that obtain s where s: "(f, s) \<in> set m" by auto
      with b assms(3) [OF s] show ?thesis by fastforce
    qed
    ultimately show ?thesis using True w b by (auto simp: rank_hits_def is_top_k_def)
  qed
next
  case False
  define m' where "m' = (if ov then sort_by abs_desc m else m)"
  have s: "set m' = set m" by (simp add: m'_def)
  have "mset m' = mset m" using sort_by_abs_desc(1) [OF assms(2)] by (simp add: m'_def)
  then have "distinct (map fst m')" using assms(1) by (metis mset_map mset_eq_imp_distinct_iff)
  moreover have "sorted_wrt (\<lambda>a b. rank a \<le> rank b) m'"
    using sort_by_abs_desc(2) [OF assms(2)] assms(4) by (simp add: m'_def)
  ultimately have "is_top_k k (fst ` set m') eff (take k m')" using rank_sorted [of m' eff k] assms(3) s by simp
  then show ?thesis using False by (auto simp: rank_hits_def m'_def)
qed

section \<open>The query\<close>

definition overridden :: "patched_vindex \<Rightarrow> nat \<Rightarrow> nat set" where
  "overridden pv layer = {f. pv_overrides_gate pv (layer, f) \<noteq> None}"

definition tombstones :: "patched_vindex \<Rightarrow> nat \<Rightarrow> nat set" where
  "tombstones pv layer = {f. (layer, f) \<in> pv_deleted pv}"

definition patched_score :: "gemv \<Rightarrow> patched_vindex \<Rightarrow> nat \<Rightarrow> f32 list \<Rightarrow> nat \<Rightarrow> f32" where
  "patched_score gemv pv layer residual f =
     (if f \<in> overridden pv layer then f32_dot (gate_at pv layer f) residual
      else base_scores gemv (pv_base pv) layer residual ! f)"

definition live_features :: "gemv \<Rightarrow> patched_vindex \<Rightarrow> nat \<Rightarrow> f32 list \<Rightarrow> nat set" where
  "live_features gemv pv layer residual =
     ({..<length (base_scores gemv (pv_base pv) layer residual)} \<union> overridden pv layer) - tombstones pv layer"

lemma no_patches_at:
  "\<not> has_overrides pv layer \<longleftrightarrow> overridden pv layer = {}" "\<not> has_deletions pv layer \<longleftrightarrow> tombstones pv layer = {}"
  by (force simp: has_overrides_def overridden_def has_deletions_def tombstones_def)+

text \<open>The base's answer, also where the code skips the base.\<close>

lemma base_hits:
  assumes "gemv_rows gemv" and "layer_scores gemv ix layer residual \<noteq> None" and "\<forall>s \<in> set (base_scores gemv ix layer residual). \<not> f32_is_nan s"
    and "length (base_scores gemv ix layer residual) < 2 ^ 64"
  shows "\<exists>H. (if 0 < index_num_features ix layer then index_gate_knn gemv ix layer residual (min (k * 2) (2 ^ 64 - 1)) else Some []) = Some H \<and>
     is_top_k (2 * k) {..<length (base_scores gemv ix layer residual)} ((!) (base_scores gemv ix layer residual)) H"
proof (cases "0 < index_num_features ix layer")
  case True
  let ?s = "base_scores gemv ix layer residual"
  from top_k_selects [OF assms(3), of "min (k * 2) (2 ^ 64 - 1)"] obtain H where
    H: "top_k_by_abs ?s (min (k * 2) (2 ^ 64 - 1)) = Some H" "is_top_k (min (k * 2) (2 ^ 64 - 1)) {..<length ?s} ((!) ?s) H" by blast
  have "min (min (k * 2) (2 ^ 64 - 1)) (length ?s) = min (2 * k) (length ?s)" using assms(4) by (simp add: min_def)
  then have "is_top_k (2 * k) {..<length ?s} ((!) ?s) H" using H(2) by (simp add: is_top_k_def)
  with H(1) True show ?thesis by (simp add: index_gate_knn_scores [OF assms(2)])
next
  case False
  then have "base_scores gemv ix layer residual = []" using no_features_no_scores [OF assms(1) _ assms(2)] by simp
  with False show ?thesis by (simp add: is_top_k_def)
qed

lemma gate_knn_best:
  assumes ok: "cache_ok pv" and order: "iteration_order pv layer order" and gemv: "gemv_rows gemv"
    and scored: "layer_scores gemv (pv_base pv) layer residual \<noteq> None"
    and n64: "length (base_scores gemv (pv_base pv) layer residual) < 2 ^ 64"
    and nan: "\<forall>s \<in> set (base_scores gemv (pv_base pv) layer residual). \<not> f32_is_nan s"
    and nan': "\<forall>f \<in> overridden pv layer. \<not> f32_is_nan (f32_dot (gate_at pv layer f) residual)"
    and ne: "\<forall>f v. pv_overrides_gate pv (layer, f) = Some v \<longrightarrow> v \<noteq> []"
    and few: "finite (tombstones pv layer)" "card (overridden pv layer \<union> tombstones pv layer) \<le> k"
  shows "\<exists>hits pv'. gate_knn gemv order pv layer residual k = Some (hits, pv') \<and>
     is_top_k k (live_features gemv pv layer residual) (patched_score gemv pv layer residual) hits"
proof -
  let ?s = "base_scores gemv (pv_base pv) layer residual" and ?ov = "overridden pv layer" and ?del = "tombstones pv layer"
  let ?eff = "patched_score gemv pv layer residual"
  obtain c pv1 where l: "layer_gate_cache order pv layer = (c, pv1)" by fastforce
  have finov: "finite ?ov" using order by (auto simp: iteration_order_def overridden_def intro: finite_subset)
  have "\<exists>hits. knn_hits gemv order pv layer residual k c = Some hits \<and> is_top_k k (live_features gemv pv layer residual) ?eff hits"
  proof (cases "\<not> has_overrides pv layer \<and> \<not> has_deletions pv layer")
    case True
    then have e: "?ov = {}" "?del = {}" using no_patches_at by simp_all
    then have "?eff = (!) ?s" "live_features gemv pv layer residual = {..<length ?s}"
      by (simp_all add: patched_score_def [abs_def] live_features_def)
    with top_k_selects [OF nan, of k] True show ?thesis by (simp add: knn_hits_def index_gate_knn_scores [OF scored])
  next
    case False
    from base_hits [OF gemv scored nan n64] obtain H where
      H: "(if 0 < index_num_features (pv_base pv) layer then index_gate_knn gemv (pv_base pv) layer residual (min (k * 2) (2 ^ 64 - 1)) else Some []) = Some H"
      and top: "is_top_k (2 * k) {..<length ?s} ((!) ?s) H" by blast
    have dH: "distinct (map fst H)" and sH: "\<And>f s. (f, s) \<in> set H \<Longrightarrow> s = ?s ! f \<and> f < length ?s"
      and oH: "sorted_wrt (\<lambda>a b. rank a \<le> rank b) H" using top by (auto simp: is_top_k_def)
    have finH: "\<not> f32_is_nan s" if "(f, s) \<in> set H" for f s using sH [OF that] nan by simp
    have "\<exists>m. (if has_overrides pv layer then merged_hits order pv layer residual c H else Some H) = Some m \<and> distinct (map fst m) \<and>
        set m = {(f, s) \<in> set H. f \<notin> ?ov} \<union> (\<lambda>f. (f, f32_dot (gate_at pv layer f) residual)) ` ?ov \<and>
        (\<not> has_overrides pv layer \<longrightarrow> m = H)"
    proof (cases "has_overrides pv layer")
      case True
      with merged_hits_set [OF ok order ne dH, of residual] l show ?thesis by (simp add: overridden_def)
    next
      case no: False
      then have "?ov = {}" using no_patches_at(1) by blast
      with no dH show ?thesis by auto
    qed
    then obtain m where m: "(if has_overrides pv layer then merged_hits order pv layer residual c H else Some H) = Some m"
      and dm: "distinct (map fst m)"
      and sm: "set m = {(f, s) \<in> set H. f \<notin> ?ov} \<union> (\<lambda>f. (f, f32_dot (gate_at pv layer f) residual)) ` ?ov"
      and mH: "\<not> has_overrides pv layer \<Longrightarrow> m = H" by blast
    define m' where "m' = (if has_deletions pv layer then filter (\<lambda>(f, _). (layer, f) \<notin> pv_deleted pv) m else m)"
    have m'f: "m' = filter (\<lambda>h. fst h \<notin> ?del) m"
    proof (cases "has_deletions pv layer")
      case False
      then have "?del = {}" using no_patches_at(2) by blast
      with False show ?thesis by (simp add: m'_def)
    qed (simp add: m'_def tombstones_def case_prod_unfold)
    have eff: "s = ?eff f" if "(f, s) \<in> set m'" for f s
      using that sH [of f s] by (auto simp: m'f sm patched_score_def)
    have fin: "finite_scores m'" using finH nan' by (auto simp: finite_scores_def m'f sm)
    have fst: "fst ` set m' = (fst ` set H \<union> ?ov) - ?del"
    proof -
      have "fst ` set m' = fst ` set m - ?del" by (auto simp: m'f)
      moreover have "fst ` set m = fst ` {(f, s) \<in> set H. f \<notin> ?ov} \<union> ?ov" unfolding sm image_Un by (simp add: image_image)
      moreover have "fst ` {(f, s) \<in> set H. f \<notin> ?ov} = fst ` set H - ?ov" by force
      ultimately show ?thesis by auto
    qed
    have "distinct (map fst m')" using dm unfolding m'f by (rule distinct_map_filter)
    moreover have "sorted_wrt (\<lambda>a b. rank a \<le> rank b) m'" if "\<not> has_overrides pv layer"
      using mH [OF that] oH by (simp add: m'f sorted_wrt_filter)
    ultimately have R: "is_top_k k ((fst ` set H \<union> ?ov) - ?del) ?eff (rank_hits (has_overrides pv layer) k m')"
      unfolding fst [symmetric] by (intro rank_hits_best fin) (use eff in auto)
    have "is_top_k k (live_features gemv pv layer residual) ?eff (rank_hits (has_overrides pv layer) k m')"
      by (rule oversampling_suffices [OF top refl _ few(2) _ _ refl R])
        (simp_all add: finov few(1) patched_score_def live_features_def)
    moreover have "knn_hits gemv order pv layer residual k c = Some (rank_hits (has_overrides pv layer) k m')"
      unfolding knn_hits_def if_not_P [OF False] H bind.simps m option.map m'_def ..
    ultimately show ?thesis by blast
  qed
  then show ?thesis unfolding gate_knn_hits [OF l] by auto
qed

end
