(* ===== verification/VindexBake.thy ===== *)
theory VindexBake
  imports VindexOverlayTop
begin

text \<open>
  Mutations of the base index, free slots, baking an overlay down to an index, and saving the metadata of an index.
\<close>

section \<open>Lists that grow\<close>

lemma nth_layer_pad [simp]: "nth_layer (pad n None xs) i = nth_layer xs i"
  by (auto simp: nth_layer_def pad_def nth_append)

lemma nth_layer_update: "i < length xs \<Longrightarrow> nth_layer (xs[i := y]) j = (if j = i then y else nth_layer xs j)"
  by (auto simp: nth_layer_def)

lemma length_pad [simp]: "length (pad n d xs) = max n (length xs)"
  by (simp add: pad_def max_def)

lemma heap_meta_nth: "heap_meta layers l f = (case nth_layer layers l of Some ms \<Rightarrow> nth_layer ms f | None \<Rightarrow> None)"
  by (simp add: heap_meta_def nth_layer_def split: option.split)

section \<open>Mutations of the base\<close>

lemma set_feature_meta_heap:
  "heap_meta (bi_down_meta (set_feature_meta ix l f m)) l' f' =
     (if l' = l \<and> f' = f then Some m else heap_meta (bi_down_meta ix) l' f')"
proof -
  define layers where "layers = pad (l + 1) None (bi_down_meta ix)"
  define metas where "metas = (case layers ! l of Some ms \<Rightarrow> ms | None \<Rightarrow> [])"
  have l: "l < length layers" by (simp add: layers_def)
  have s: "bi_down_meta (set_feature_meta ix l f m) = layers[l := Some ((pad (f + 1) None metas)[f := Some m])]"
    by (simp add: set_feature_meta_def Let_def layers_def metas_def)
  have "nth_layer metas g = (case nth_layer (bi_down_meta ix) l of Some ms \<Rightarrow> nth_layer ms g | None \<Rightarrow> None)" for g
  proof -
    have "nth_layer layers l = nth_layer (bi_down_meta ix) l" by (simp add: layers_def)
    moreover have "nth_layer layers l = layers ! l" using l by (simp add: nth_layer_def)
    ultimately show ?thesis by (auto simp: metas_def nth_layer_def split: option.split)
  qed
  then show ?thesis unfolding heap_meta_nth s nth_layer_update [OF l] by (simp add: nth_layer_update layers_def)
qed

lemma set_feature_meta_view:
  "index_feature_meta (set_feature_meta ix l f m) l' f' = (if l' = l \<and> f' = f then Some m else index_feature_meta ix l' f')"
proof -
  have "bi_down_mmap (set_feature_meta ix l f m) = bi_down_mmap ix" "bi_tokenizer (set_feature_meta ix l f m) = bi_tokenizer ix"
    by (simp_all add: set_feature_meta_def Let_def)
  then show ?thesis by (auto simp: index_feature_meta_def set_feature_meta_heap cong: option.case_cong)
qed

lemma delete_feature_meta_heap:
  "heap_meta (bi_down_meta (delete_feature_meta ix l f)) l' f' =
     (if l' = l \<and> f' = f then None else heap_meta (bi_down_meta ix) l' f')"
proof (cases "\<exists>ms. down_meta_at ix l = Some ms \<and> f < length ms")
  case True
  then obtain ms where ms: "nth_layer (bi_down_meta ix) l = Some ms" "f < length ms" by (auto simp: down_meta_at_def)
  then have l: "l < length (bi_down_meta ix)" by (simp add: nth_layer_def split: if_splits)
  have "bi_down_meta (delete_feature_meta ix l f) = (bi_down_meta ix)[l := Some (ms[f := None])]"
    using ms by (simp add: delete_feature_meta_def down_meta_at_def)
  then show ?thesis using ms by (simp add: heap_meta_nth nth_layer_update [OF l] nth_layer_update [OF ms(2)])
next
  case False
  then have "delete_feature_meta ix l f = ix" by (auto simp: delete_feature_meta_def split: option.split)
  moreover have "heap_meta (bi_down_meta ix) l f = None"
    using False by (auto simp: heap_meta_nth down_meta_at_def nth_layer_def split: option.split)
  ultimately show ?thesis by simp
qed

text \<open>A deletion shows the mapped record again, if there is one.\<close>

lemma delete_feature_meta_view:
  "index_feature_meta (delete_feature_meta ix l f) l f =
     (case bi_down_mmap ix of Some dm \<Rightarrow> mmap_feature_meta (bi_tokenizer ix) dm l f | None \<Rightarrow> None)"
proof -
  have "bi_down_mmap (delete_feature_meta ix l f) = bi_down_mmap ix" "bi_tokenizer (delete_feature_meta ix l f) = bi_tokenizer ix"
    by (simp_all add: delete_feature_meta_def split: option.split)
  then show ?thesis by (simp add: index_feature_meta_def delete_feature_meta_heap cong: option.case_cong)
qed

lemma promote_gates:
  "gate_vectors_at (promote_layer_to_heap ix l) l = (case mapped_gate ix l of Some g \<Rightarrow> Some g | None \<Rightarrow> gate_vectors_at ix l)"
  by (simp add: promote_layer_to_heap_def gate_vectors_at_def nth_layer_update split: option.split)

lemma set_gate_vector_storage:
  "bi_gate_storage (set_gate_vector ix l f v) = bi_gate_storage ix \<and> bi_hidden_size (set_gate_vector ix l f v) = bi_hidden_size ix"
  by (simp add: set_gate_vector_def promote_layer_to_heap_def Let_def split: option.split)

text \<open>A gate vector of the right width that is set is the one read back.\<close>

lemma set_gate_vector_read:
  assumes "(if bi_gate_storage ix \<noteq> None \<and> gate_vectors_at ix l = None then mapped_gate ix l else gate_vectors_at ix l) = Some g"
    and "f < length (gm_rows g)" and "length v = gm_cols g"
  shows "gate_vector (set_gate_vector ix l f v) l f = Some v"
proof -
  define ix' where "ix' = (if bi_gate_storage ix \<noteq> None \<and> gate_vectors_at ix l = None then promote_layer_to_heap ix l else ix)"
  have g: "gate_vectors_at ix' l = Some g" using assms(1) by (auto simp: ix'_def promote_gates split: if_splits)
  then have l: "l < length (bi_gates ix')" by (simp add: gate_vectors_at_def nth_layer_def split: if_splits)
  have "set_gate_vector ix l f v = (case gate_vectors_at ix' l of
      Some g \<Rightarrow> if f < length (gm_rows g) \<and> length v = gm_cols g
        then ix'\<lparr>bi_gates := (bi_gates ix')[l := Some (g\<lparr>gm_rows := (gm_rows g)[f := v]\<rparr>)]\<rparr> else ix'
    | None \<Rightarrow> ix')" by (simp only: set_gate_vector_def Let_def ix'_def)
  then have "set_gate_vector ix l f v = ix'\<lparr>bi_gates := (bi_gates ix')[l := Some (g\<lparr>gm_rows := (gm_rows g)[f := v]\<rparr>)]\<rparr>"
    using assms(2,3) g by simp
  then have "gate_vectors_at (set_gate_vector ix l f v) l = Some (g\<lparr>gm_rows := (gm_rows g)[f := v]\<rparr>)"
    by (simp add: gate_vectors_at_def nth_layer_update [OF l])
  then show ?thesis using assms(2) by (simp add: gate_vector_def)
qed

text \<open>The scores of a layer mapped in single precision do not see it.\<close>

lemma set_gate_vector_scores:
  assumes "bi_gate_storage ix = Some st" and "gs_dtype st = DtypeF32" and "mapped_gate ix l = Some g"
  shows "index_gate_knn gemv (set_gate_vector ix l f v) l residual k = index_gate_knn gemv ix l residual k"
proof -
  have h: "bi_hidden_size (set_gate_vector ix l f v) = bi_hidden_size ix" using set_gate_vector_storage by blast
  have v: "gate_layer_view (set_gate_vector ix l f v) l = gate_layer_view ix l"
    using set_gate_vector_storage [of ix l f v] by (simp add: gate_layer_view_def)
  have "mapped_gate (set_gate_vector ix l f v) l = mapped_gate ix l" by (simp only: mapped_gate_def v h)
  then have "gate_for_scores (set_gate_vector ix l f v) l = Some g" "gate_for_scores ix l = Some g"
    using assms set_gate_vector_storage [of ix l f v] by (simp_all add: gate_for_scores_def Let_def)
  then show ?thesis by (simp add: index_gate_knn_def layer_scores_def h)
qed

section \<open>Free slots\<close>

lemma weakest_some:
  "weakest meta slots = Some i \<Longrightarrow> i \<in> set slots \<and> meta i \<noteq> None"
proof -
  let ?step = "\<lambda>(best, score) i. case meta i of
      Some m \<Rightarrow> if f32_less (fm_c_score m) score then (Some i, fm_c_score m) else (best, score) | None \<Rightarrow> (best, score)"
  have "fst (foldl ?step (best, score) slots) = Some i \<Longrightarrow> best = Some i \<or> i \<in> set slots \<and> meta i \<noteq> None" for best score
  proof (induction slots arbitrary: best score)
    case (Cons s slots)
    show ?case
    proof (cases "?step (best, score) s")
      case (Pair b x)
      with Cons.prems have "fst (foldl ?step (b, x) slots) = Some i" by simp
      from Cons.IH [OF this] Pair show ?thesis by (auto split: option.splits if_splits)
    qed
  qed simp
  from this [of None f32_max] show "weakest meta slots = Some i \<Longrightarrow> i \<in> set slots \<and> meta i \<noteq> None"
    by (simp add: weakest_def)
qed

lemma free_feature_sound:
  assumes "find_free_feature pv layer = Some i"
  shows "i < index_num_features (pv_base pv) layer \<and> pv_overrides_gate pv (layer, i) = None"
proof (cases "find (\<lambda>i. index_feature_meta (pv_base pv) layer i = None \<and> pv_overrides_gate pv (layer, i) = None)
      [0..<index_num_features (pv_base pv) layer]")
  case None
  with assms have "weakest (\<lambda>i. if pv_overrides_gate pv (layer, i) \<noteq> None then None
      else index_feature_meta (pv_base pv) layer i) [0..<index_num_features (pv_base pv) layer] = Some i"
    by (simp add: find_free_feature_def Let_def split: if_splits)
  from weakest_some [OF this] show ?thesis by (auto split: if_splits)
next
  case (Some j)
  with assms have "j = i" by (simp add: find_free_feature_def Let_def split: if_splits)
  with Some show ?thesis by (auto simp: find_Some_iff)
qed

text \<open>The search sees neither the overridden metadata nor the tombstones.\<close>

lemma free_feature_blind:
  assumes "pv_base pv' = pv_base pv" and "pv_overrides_gate pv' = pv_overrides_gate pv"
  shows "find_free_feature pv' layer = find_free_feature pv layer"
  by (simp only: find_free_feature_def assms)

section \<open>Baking\<close>

lemma put_meta_nth:
  "nth_layer (put_meta pv layer ms f) g = (if g = f then the (pv_overrides_meta pv (layer, f)) else nth_layer ms g)"
  by (simp add: put_meta_def nth_layer_update)

lemma fold_put_meta:
  "nth_layer (foldl (put_meta pv layer) ms fs) g =
     (if g \<in> set fs then the (pv_overrides_meta pv (layer, g)) else nth_layer ms g)"
  by (induction fs arbitrary: ms) (auto simp: put_meta_nth)

lemma nth_layer_map_upt: "nth_layer (map h [0..<n]) i = (if i < n then h i else None)"
  by (simp add: nth_layer_def)

lemma nth_layer_unless_empty: "(case some_unless_empty xs of Some ms \<Rightarrow> nth_layer ms i | None \<Rightarrow> None) = nth_layer xs i"
  by (simp add: some_unless_empty_def nth_layer_def)

definition bake_start :: "patched_vindex \<Rightarrow> nat \<Rightarrow> layer_metas" where
  "bake_start pv layer =
     (case down_meta_at (pv_base pv) layer of
        Some heap \<Rightarrow> heap
      | None \<Rightarrow> if 0 < index_num_features (pv_base pv) layer
                then map (index_feature_meta (pv_base pv) layer) [0..<index_num_features (pv_base pv) layer] else [])"

lemma baked_meta:
  assumes "finite (dom (pv_overrides_meta pv))" and "layer < bi_num_layers (pv_base pv)"
  shows "index_feature_meta (bake_down pv) layer f =
     (if (layer, f) \<in> pv_deleted pv then None
      else (case pv_overrides_meta pv (layer, f) of Some m \<Rightarrow> m | None \<Rightarrow> nth_layer (bake_start pv layer) f))"
proof -
  let ?fs = "overridden_features pv layer"
  let ?ms = "foldl (put_meta pv layer) (bake_start pv layer) ?fs"
  have "set ?fs = snd ` {k \<in> dom (pv_overrides_meta pv). fst k = layer}" using assms(1) by (simp add: overridden_features_def)
  then have fs: "g \<in> set ?fs \<longleftrightarrow> pv_overrides_meta pv (layer, g) \<noteq> None" for g by force
  have b: "bake_meta pv layer = some_unless_empty (map (\<lambda>f. if (layer, f) \<in> pv_deleted pv then None else ?ms ! f) [0..<length ?ms])"
    by (simp only: bake_meta_def bake_start_def Let_def)
  have "index_feature_meta (bake_down pv) layer f = (case bake_meta pv layer of Some ms \<Rightarrow> nth_layer ms f | None \<Rightarrow> None)"
    using assms(2) by (simp add: index_feature_meta_def bake_down_def new_index_def heap_meta_nth nth_layer_map_upt split: option.split)
  also have "\<dots> = (if f < length ?ms then (if (layer, f) \<in> pv_deleted pv then None else ?ms ! f) else None)"
    unfolding b nth_layer_unless_empty nth_layer_map_upt ..
  also have "\<dots> = (if (layer, f) \<in> pv_deleted pv then None else nth_layer ?ms f)" by (simp add: nth_layer_def)
  also have "nth_layer ?ms f = (case pv_overrides_meta pv (layer, f) of Some m \<Rightarrow> m | None \<Rightarrow> nth_layer (bake_start pv layer) f)"
    using fs [of f] by (auto simp: fold_put_meta split: option.split)
  finally show ?thesis by (simp split: option.split)
qed

lemma baked_view:
  assumes "finite (dom (pv_overrides_meta pv))" and "layer < bi_num_layers (pv_base pv)"
    and "bi_down_mmap (pv_base pv) = None \<or>
       down_meta_at (pv_base pv) layer = None \<and>
       (index_num_features (pv_base pv) layer \<le> f \<longrightarrow> index_feature_meta (pv_base pv) layer f = None)"
  shows "index_feature_meta (bake_down pv) layer f =
    (if (layer, f) \<in> pv_deleted pv then None else feature_meta_of pv layer f)"
proof -
  have "nth_layer (bake_start pv layer) f = index_feature_meta (pv_base pv) layer f"
  proof (cases "down_meta_at (pv_base pv) layer")
    case None
    then have "bi_down_mmap (pv_base pv) = None \<Longrightarrow> index_feature_meta (pv_base pv) layer f = None"
      by (simp add: index_feature_meta_def heap_meta_nth down_meta_at_def)
    with None assms(3) show ?thesis by (auto simp: bake_start_def nth_layer_map_upt) (auto simp: nth_layer_def)
  next
    case (Some ms)
    with assms(3) have "bi_down_mmap (pv_base pv) = None" by simp
    with Some show ?thesis by (simp add: bake_start_def index_feature_meta_def heap_meta_nth down_meta_at_def split: option.split)
  qed
  then show ?thesis unfolding baked_meta [OF assms(1,2)] by (auto simp: feature_meta_of_def split: option.split)
qed

text \<open>The gate vectors: an override of the width of the layer replaces the row.\<close>

lemma baked_gate:
  assumes "layer < bi_num_layers (pv_base pv)"
    and "(case gate_vectors_at (pv_base pv) layer of Some g \<Rightarrow> Some g | None \<Rightarrow> mapped_gate (pv_base pv) layer) = Some g"
    and "f < length (gm_rows g)"
  shows "gate_vector (bake_down pv) layer f =
     Some (case pv_overrides_gate pv (layer, f) of Some v \<Rightarrow> if length v = gm_cols g then v else gm_rows g ! f | None \<Rightarrow> gm_rows g ! f)"
proof -
  have "gate_vectors_at (bake_down pv) layer = bake_gate pv layer"
    using assms(1) by (simp add: bake_down_def new_index_def gate_vectors_at_def nth_layer_map_upt)
  then show ?thesis using assms(2,3) by (auto simp: gate_vector_def bake_gate_def split: option.split)
qed

lemma baked_drops_vectors: "bi_down_overrides (bake_down pv) key = None" "bi_up_overrides (bake_down pv) key = None"
  by (simp_all add: bake_down_def new_index_def)

text \<open>Metadata set on a deleted feature is shown by the overlay and lost by baking.\<close>

lemma update_after_delete:
  assumes "finite (dom (pv_overrides_meta pv))" and "layer < bi_num_layers (pv_base pv)"
    and "pv' = update_feature_meta layer f m (delete_feature layer f pv)"
  shows "feature_meta_of pv' layer f = Some m" and "index_feature_meta (bake_down pv') layer f = None"
proof -
  show "feature_meta_of pv' layer f = Some m" by (simp add: assms(3) update_feature_meta_def feature_meta_of_def)
  have "finite (dom (pv_overrides_meta pv'))" "layer < bi_num_layers (pv_base pv')" "(layer, f) \<in> pv_deleted pv'"
    using assms by (simp_all add: update_feature_meta_def delete_feature_def invalidate_gate_cache_layer_def)
  then show "index_feature_meta (bake_down pv') layer f = None" using baked_meta by simp
qed

section \<open>Overlays the operations reach\<close>

lemma finite_dom_upd: "finite (dom m) \<Longrightarrow> finite (dom (\<lambda>a. if a = k then v else m a))"
  by (rule finite_subset [of _ "insert k (dom m)"]) (auto split: if_splits)

lemma finite_overlay_op: "finite (dom (fst ov)) \<Longrightarrow> finite (dom (fst (overlay_op lower ov op)))"
  by (cases op; cases ov) (simp_all add: overlay_op_def split: option.split)

lemma finite_overlay_ops: "finite (dom (fst ov)) \<Longrightarrow> finite (dom (fst (foldl (overlay_op lower) ov ops)))"
  by (induction ops arbitrary: ov) (simp_all add: finite_overlay_op)

lemma finite_patch: "finite (dom (pv_overrides_meta pv)) \<Longrightarrow> finite (dom (pv_overrides_meta (apply_patch lower pv patch)))"
proof -
  assume "finite (dom (pv_overrides_meta pv))"
  then have "finite (dom (fst (overlay pv)))" by (simp add: overlay_def)
  then have "finite (dom (fst (overlay (apply_patch lower pv patch))))" unfolding apply_patch_parts(1) by (rule finite_overlay_ops)
  then show ?thesis by (simp add: overlay_def)
qed

lemma reachable_finite: "patched_reachable pv \<Longrightarrow> finite (dom (pv_overrides_meta pv))"
proof (induction rule: patched_reachable.induct)
  case (patched_remove pv lower i)
  show ?case
  proof (cases "i < length (pv_patches pv)")
    case True
    have "finite (dom (fst (overlay (remove_patch lower i pv))))"
      unfolding remove_patch_parts(1) [OF True] by (rule finite_overlay_ops) simp
    then show ?thesis by (simp add: overlay_def)
  qed (use patched_remove in \<open>simp add: remove_patch_def\<close>)
next
  case (patched_knn pv layer order gemv residual k hits pv')
  then show ?case using gate_knn_state [of gemv order pv layer residual k hits pv'] by auto
qed (simp_all add: new_patched_def insert_feature_def delete_feature_def update_feature_meta_def set_gate_override_def
    invalidate_gate_cache_layer_def finite_patch finite_dom_upd)

section \<open>Saving the metadata\<close>

text \<open>The metadata of the index are those of the lists that are written.\<close>

lemma materialize_view:
  assumes "layer < bi_num_layers ix"
    and "\<forall>dm. bi_down_mmap ix = Some dm \<longrightarrow> f < mmap_num_features dm layer \<or> mmap_feature_meta (bi_tokenizer ix) dm layer f = None"
  shows "heap_meta (materialize_down_meta ix) layer f = index_feature_meta ix layer f"
proof -
  define n where "n = max (max (case down_meta_at ix layer of Some ms \<Rightarrow> length ms | None \<Rightarrow> 0)
      (case bi_down_mmap ix of Some dm \<Rightarrow> mmap_num_features dm layer | None \<Rightarrow> 0)) (index_num_features ix layer)"
  have h: "heap_meta (materialize_down_meta ix) layer f = (if f < n then index_feature_meta ix layer f else None)"
    using assms(1) by (simp add: heap_meta_nth materialize_down_meta_def nth_layer_map_upt Let_def flip: n_def)
      (auto simp: nth_layer_map_upt n_def)
  have "index_feature_meta ix layer f = None" if "\<not> f < n"
  proof -
    have "heap_meta (bi_down_meta ix) layer f = None"
      using that by (auto simp: n_def heap_meta_nth down_meta_at_def nth_layer_def split: option.splits)
    moreover have "mmap_feature_meta (bi_tokenizer ix) dm layer f = None" if "bi_down_mmap ix = Some dm" for dm
      using assms(2) \<open>\<not> f < n\<close> that by (auto simp: n_def)
    ultimately show ?thesis by (simp add: index_feature_meta_def split: option.split)
  qed
  with h show ?thesis by simp
qed

end
