(* ===== verification/Vindexfile.thy ===== *)
theory Vindexfile
  imports VindexBake
begin

text \<open>
  Declarative builds (\<open>crates/larql-vindex/src/vindexfile/parser.rs\<close> and \<open>mod.rs\<close>): the parser of a Vindexfile
  and the build that applies its directives to a base index. Upper and lower casing of a text, the loading of a
  base and of a patch, and the resolution of a path are parameters.
\<close>

section \<open>Directives\<close>

datatype directive =
    VfFrom string
  | VfPatch string
  | VfInsert (vf_entity: string) (vf_relation: string) (vf_target: string)
  | VfDelete (vf_entity: string) (vf_relation: string) (vf_target: string)
  | VfLabels string
  | VfExpose "string list"

record vindexfile_stage =
  st_name :: string
  st_directives :: "directive list"

record vindexfile =
  vf_directives :: "directive list"
  vf_stages :: "vindexfile_stage list"

datatype vindexfile_error =
    UnknownDirective nat string | BadTuple nat nat | NoFromDirective | SliceOutOfChar
  | StageNotFound string | MissingFrom | RemoteUrl string | PathNotFound string | LoadFailed string

section \<open>Texts\<close>

text \<open>\<open>str::lines\<close>: a final line feed ends the last line, a carriage return before a line feed goes.\<close>

definition strip_cr :: "string \<Rightarrow> string" where
  "strip_cr s = (if s \<noteq> [] \<and> last s = CHR 0x0D then butlast s else s)"

definition lines_of :: "string \<Rightarrow> string list" where
  "lines_of s =
     (let parts = split_char CHR 0x0A s in
      map strip_cr (butlast parts) @ (if last parts = [] then [] else [last parts]))"

text \<open>\<open>&s[n..]\<close>: a panic when \<open>n\<close> is inside a character or past the end.\<close>

definition slice_from :: "nat \<Rightarrow> string \<Rightarrow> vindexfile_error + string" where
  "slice_from n s =
     (if length s < n \<or> (n < length s \<and> is_cont (byte (s ! n))) then Inl SliceOutOfChar else Inr (drop n s))"

definition trim_quotes :: "string \<Rightarrow> string" where
  "trim_quotes s = rev (dropWhile (\<lambda>c. c = CHR 0x22) (rev (dropWhile (\<lambda>c. c = CHR 0x22) s)))"

text \<open>\<open>split(" AND ")\<close>; \<open>cur\<close> is the part read so far.\<close>

definition and_word :: string where
  "and_word = '' AND ''"

function split_and :: "string \<Rightarrow> string \<Rightarrow> string list" where
  "split_and cur s =
     (if s = [] then [cur]
      else if starts_with s and_word then cur # split_and [] (drop (length and_word) s)
      else split_and (cur @ [hd s]) (tl s))"
  by pat_completeness auto

termination
  by (relation "measure (\<lambda>(cur, s). length s)") (auto simp: and_word_def)

declare split_and.simps [simp del]

text \<open>\<open>split_whitespace\<close>: the parts between white space that are not empty.\<close>

function split_white :: "string \<Rightarrow> string \<Rightarrow> string list" where
  "split_white cur s =
     (if s = [] then (if cur = [] then [] else [cur])
      else (case find (\<lambda>w. w \<noteq> [] \<and> starts_with s w) white_space of
          Some w \<Rightarrow> (if cur = [] then [] else [cur]) @ split_white [] (drop (length w) s)
        | None \<Rightarrow> split_white (cur @ [hd s]) (tl s)))"
  by pat_completeness auto

termination
  by (relation "measure (\<lambda>(cur, s). length s)") (auto simp: find_Some_iff dest: starts_with_drop)

declare split_white.simps [simp del]

section \<open>Parser\<close>

definition extract_triple :: "string \<Rightarrow> nat \<Rightarrow> vindexfile_error + string \<times> string \<times> string" where
  "extract_triple s line_num =
     (let s = trim s;
          inner = rev (dropWhile (\<lambda>c. c = CHR '')'') (rev (dropWhile (\<lambda>c. c = CHR ''('') s)));
          parts = split_char CHR '','' inner
      in case parts of
           [a, b, c] \<Rightarrow> Inr (trim_quotes (trim a), trim_quotes (trim b), trim_quotes (trim c))
         | _ \<Rightarrow> Inl (BadTuple line_num (length parts)))"

definition vf_parse_insert :: "string \<Rightarrow> nat \<Rightarrow> vindexfile_error + directive" where
  "vf_parse_insert rest line_num = res_bind (extract_triple rest line_num) (\<lambda>(e, r, t). Inr (VfInsert e r t))"

definition delete_condition :: "(string \<Rightarrow> string) \<Rightarrow> string \<times> string \<times> string \<Rightarrow> string \<Rightarrow> string \<times> string \<times> string" where
  "delete_condition lower = (\<lambda>(e, r, t) part.
     (case split_once CHR ''='' (trim part) of
        None \<Rightarrow> (e, r, t)
      | Some (key, val) \<Rightarrow>
          let key = lower (trim key); val = trim_quotes (trim val) in
          if key = ''entity'' then (val, r, t)
          else if key = ''relation'' then (e, val, t)
          else if key = ''target'' then (e, r, val)
          else (e, r, t)))"

definition vf_parse_delete :: "(string \<Rightarrow> string) \<Rightarrow> string \<Rightarrow> nat \<Rightarrow> vindexfile_error + directive" where
  "vf_parse_delete lower rest line_num =
     (if starts_with (trim rest) ''('' then res_bind (extract_triple rest line_num) (\<lambda>(e, r, t). Inr (VfDelete e r t))
      else (case foldl (delete_condition lower) ([], [], []) (split_and [] rest) of (e, r, t) \<Rightarrow> Inr (VfDelete e r t)))"

definition parse_directive ::
    "(string \<Rightarrow> string) \<Rightarrow> (string \<Rightarrow> string) \<Rightarrow> string \<Rightarrow> nat \<Rightarrow> vindexfile_error + directive" where
  "parse_directive upper lower line line_num =
     (let u = upper line in
      if starts_with u ''FROM '' then res_bind (slice_from 5 line) (\<lambda>s. Inr (VfFrom (trim s)))
      else if starts_with u ''PATCH '' then res_bind (slice_from 6 line) (\<lambda>s. Inr (VfPatch (trim s)))
      else if starts_with u ''INSERT '' then res_bind (slice_from 7 line) (\<lambda>s. vf_parse_insert s line_num)
      else if starts_with u ''DELETE '' then res_bind (slice_from 7 line) (\<lambda>s. vf_parse_delete lower s line_num)
      else if starts_with u ''LABELS '' then res_bind (slice_from 7 line) (\<lambda>s. Inr (VfLabels (trim s)))
      else if starts_with u ''EXPOSE '' then res_bind (slice_from 7 line) (\<lambda>s. Inr (VfExpose (map lower (split_white [] s))))
      else Inl (UnknownDirective line_num line))"

text \<open>The state of the loop: the shared directives, the closed stages and the open one.\<close>

type_synonym parse_state = "directive list \<times> vindexfile_stage list \<times> vindexfile_stage option"

definition close_stage :: "vindexfile_stage list \<Rightarrow> vindexfile_stage option \<Rightarrow> vindexfile_stage list" where
  "close_stage stages current = (case current of Some st \<Rightarrow> stages @ [st] | None \<Rightarrow> stages)"

definition parse_line ::
    "(string \<Rightarrow> string) \<Rightarrow> (string \<Rightarrow> string) \<Rightarrow> nat \<times> string \<Rightarrow> parse_state \<Rightarrow> vindexfile_error + parse_state" where
  "parse_line upper lower = (\<lambda>(i, raw) (ds, stages, current).
     let line = trim raw in
     if line = [] \<or> starts_with line ''#'' then Inr (ds, stages, current)
     else if starts_with (upper line) ''STAGE '' then
       res_bind (slice_from 6 line) (\<lambda>s. Inr (ds, close_stage stages current, Some \<lparr>st_name = trim s, st_directives = []\<rparr>))
     else res_bind (parse_directive upper lower line (i + 1)) (\<lambda>d.
       case current of
         Some st \<Rightarrow> Inr (ds, stages, Some (st\<lparr>st_directives := st_directives st @ [d]\<rparr>))
       | None \<Rightarrow> Inr (ds @ [d], stages, None)))"

fun parse_lines ::
    "(string \<Rightarrow> string) \<Rightarrow> (string \<Rightarrow> string) \<Rightarrow> (nat \<times> string) list \<Rightarrow> parse_state \<Rightarrow> vindexfile_error + parse_state" where
  "parse_lines upper lower [] s = Inr s"
| "parse_lines upper lower (l # ls) s = res_bind (parse_line upper lower l s) (parse_lines upper lower ls)"

definition is_from :: "directive \<Rightarrow> bool" where
  "is_from d \<longleftrightarrow> (case d of VfFrom _ \<Rightarrow> True | _ \<Rightarrow> False)"

definition parse_vindexfile_str :: "(string \<Rightarrow> string) \<Rightarrow> (string \<Rightarrow> string) \<Rightarrow> string \<Rightarrow> vindexfile_error + vindexfile" where
  "parse_vindexfile_str upper lower input =
     (let ls = lines_of input in
      res_bind (parse_lines upper lower (zip [0..<length ls] ls) ([], [], None)) (\<lambda>(ds, stages, current).
        if \<not> list_ex is_from ds then Inl NoFromDirective
        else Inr \<lparr>vf_directives = ds, vf_stages = close_stage stages current\<rparr>))"

section \<open>Build\<close>

record build_layer =
  bl_directive :: directive
  bl_features_modified :: nat

text \<open>
  What the build asks of its surroundings: the place a Hugging Face path resolves to, whether a local path exists,
  the number of layers in the configuration with the base index, and a patch.
\<close>

record surroundings =
  sr_resolve_hf :: "string \<Rightarrow> string option"
  sr_exists :: "string \<Rightarrow> bool"
  sr_load_base :: "string \<Rightarrow> (nat \<times> base_index) option"
  sr_load_patch :: "string \<Rightarrow> vindex_patch option"

definition resolve_vindexfile_path :: "surroundings \<Rightarrow> string \<Rightarrow> vindexfile_error + string" where
  "resolve_vindexfile_path sr path =
     (if starts_with path ''hf://'' then (case sr_resolve_hf sr path of Some p \<Rightarrow> Inr p | None \<Rightarrow> Inl (LoadFailed path))
      else if starts_with path ''https://'' \<or> starts_with path ''http://'' then Inl (RemoteUrl path)
      else if sr_exists sr path then Inr path
      else Inl (PathNotFound path))"

definition chosen_directives :: "vindexfile \<Rightarrow> string option \<Rightarrow> vindexfile_error + directive list" where
  "chosen_directives vf stage =
     (case stage of
        None \<Rightarrow> Inr (vf_directives vf)
      | Some name \<Rightarrow>
          (case find (\<lambda>st. st_name st = name) (vf_stages vf) of
             None \<Rightarrow> Inl (StageNotFound name)
           | Some st \<Rightarrow> Inr (vf_directives vf @ st_directives st)))"

definition inserted_meta :: "string \<Rightarrow> feature_meta" where
  "inserted_meta target = \<lparr>fm_top_token = target, fm_top_token_id = 0, fm_c_score = default_c_score, fm_top_k = []\<rparr>"

definition apply_directive ::
    "surroundings \<Rightarrow> (string \<Rightarrow> string) \<Rightarrow> nat \<Rightarrow> directive \<Rightarrow> patched_vindex \<times> build_layer list \<Rightarrow>
     vindexfile_error + patched_vindex \<times> build_layer list" where
  "apply_directive sr lower num_layers d = (\<lambda>(pv, log).
     case d of
       VfFrom _ \<Rightarrow> Inr (pv, log)
     | VfPatch path \<Rightarrow>
         res_bind (resolve_vindexfile_path sr path) (\<lambda>resolved.
           case sr_load_patch sr resolved of
             None \<Rightarrow> Inl (LoadFailed resolved)
           | Some patch \<Rightarrow> Inr (apply_patch lower pv patch, log @ [\<lparr>bl_directive = d, bl_features_modified = patch_len patch\<rparr>]))
     | VfInsert entity relation target \<Rightarrow>
         (let layer = num_layers div 2;
              feature = (case find_free_feature pv layer of Some f \<Rightarrow> f | None \<Rightarrow> 0)
          in Inr (insert_feature layer feature [] (inserted_meta target) pv, log @ [\<lparr>bl_directive = d, bl_features_modified = 1\<rparr>]))
     | VfDelete entity relation target \<Rightarrow>
         (let found = find_features lower (pv_base pv) (Some target) None None
          in Inr (foldl (\<lambda>pv (l, f). delete_feature l f pv) pv found,
                  log @ [\<lparr>bl_directive = d, bl_features_modified = length found\<rparr>]))
     | VfLabels path \<Rightarrow> Inr (pv, log @ [\<lparr>bl_directive = d, bl_features_modified = 0\<rparr>])
     | VfExpose _ \<Rightarrow> Inr (pv, log))"

fun apply_directives ::
    "surroundings \<Rightarrow> (string \<Rightarrow> string) \<Rightarrow> nat \<Rightarrow> directive list \<Rightarrow> patched_vindex \<times> build_layer list \<Rightarrow>
     vindexfile_error + patched_vindex \<times> build_layer list" where
  "apply_directives sr lower num_layers [] s = Inr s"
| "apply_directives sr lower num_layers (d # ds) s =
     res_bind (apply_directive sr lower num_layers d s) (apply_directives sr lower num_layers ds)"

definition baked_or_base :: "patched_vindex \<Rightarrow> base_index" where
  "baked_or_base pv = (if 0 < num_overrides pv then bake_down pv else pv_base pv)"

definition build_from_vindexfile ::
    "surroundings \<Rightarrow> (string \<Rightarrow> string) \<Rightarrow> vindexfile \<Rightarrow> string option \<Rightarrow> vindexfile_error + base_index \<times> build_layer list" where
  "build_from_vindexfile sr lower vf stage =
     res_bind (chosen_directives vf stage) (\<lambda>ds.
       case find is_from ds of
         Some (VfFrom path) \<Rightarrow>
           res_bind (resolve_vindexfile_path sr path) (\<lambda>resolved.
             case sr_load_base sr resolved of
               None \<Rightarrow> Inl (LoadFailed resolved)
             | Some (num_layers, base) \<Rightarrow>
                 res_bind (apply_directives sr lower num_layers ds
                     (new_patched base, [\<lparr>bl_directive = VfFrom path, bl_features_modified = 0\<rparr>]))
                   (\<lambda>(pv, log). Inr (baked_or_base pv, log)))
       | _ \<Rightarrow> Inl MissingFrom)"

section \<open>Laws\<close>

lemma parsed_has_from: "parse_vindexfile_str upper lower input = Inr vf \<Longrightarrow> list_ex is_from (vf_directives vf)"
  by (auto simp: parse_vindexfile_str_def Let_def res_bind_Inr split: if_splits)

text \<open>The chosen directives of a parsed file start the build from a base.\<close>

lemma chosen_from:
  assumes "list_ex is_from (vf_directives vf)" and "chosen_directives vf stage = Inr ds"
  shows "\<exists>path. find is_from ds = Some (VfFrom path)"
proof -
  have "\<exists>d \<in> set ds. is_from d"
    using assms by (auto simp: chosen_directives_def list_ex_iff split: option.splits)
  then obtain d where d: "find is_from ds = Some d" by (metis find_None_iff not_None_eq)
  then have "is_from d" by (auto simp: find_Some_iff)
  with d show ?thesis by (cases d) (auto simp: is_from_def)
qed

text \<open>An empty target matches every feature that has metadata.\<close>

lemma contains_empty [simp]: "contains s []"
  by (auto simp: contains_def starts_with_def)

lemma find_empty_target: "lower [] = [] \<Longrightarrow> find_features lower ix (Some []) None None = find_features lower ix None None None"
  by (simp add: find_features_def mentions_def cong: option.case_cong)

section \<open>The overlay of a build\<close>

definition base_shape :: "base_index \<Rightarrow> base_index" where
  "base_shape ix = ix\<lparr>bi_down_overrides := Map.empty, bi_up_overrides := Map.empty\<rparr>"

definition tombstones_clean :: "patched_vindex \<Rightarrow> bool" where
  "tombstones_clean pv \<longleftrightarrow> (\<forall>k \<in> pv_deleted pv. pv_overrides_meta pv k = Some None)"

definition tombstones_marked :: "patched_vindex \<Rightarrow> bool" where
  "tombstones_marked pv \<longleftrightarrow> (\<forall>k \<in> pv_deleted pv. pv_overrides_meta pv k \<noteq> None)"

text \<open>An operation that does not give new metadata to an existing feature.\<close>

definition keeps_tombstones :: "patch_op \<Rightarrow> bool" where
  "keeps_tombstones op \<longleftrightarrow> (case op of OpUpdate _ _ _ _ _ (Some _) \<Rightarrow> False | _ \<Rightarrow> True)"

lemma apply_vectors_shape: "base_shape (pv_base (fst (apply_vectors layer feature gate up down (pv, t)))) = base_shape (pv_base pv)"
  unfolding apply_vectors_def with_vector_decoded
  by (cases "decoded gate"; cases "decoded up"; cases "decoded down";
      simp add: set_down_vector_def set_up_vector_def index_set_down_vector_def index_set_up_vector_def base_shape_def)

lemma apply_op_shape: "base_shape (pv_base (fst (apply_op lower (pv, t) op))) = base_shape (pv_base pv)"
  by (cases op) (simp_all add: apply_op_def apply_vectors_shape split: sum.split option.split)

lemma fold_ops_shape: "base_shape (pv_base (fst (foldl (apply_op lower) s ops))) = base_shape (pv_base (fst s))"
proof (induction ops arbitrary: s)
  case (Cons op ops)
  have "base_shape (pv_base (fst (apply_op lower s op))) = base_shape (pv_base (fst s))" by (cases s) (simp add: apply_op_shape)
  with Cons show ?case by simp
qed simp

lemma apply_patch_shape: "base_shape (pv_base (apply_patch lower pv patch)) = base_shape (pv_base pv)"
  using fold_ops_shape [of lower "(pv, {})" "vp_operations patch"]
  by (cases "foldl (apply_op lower) (pv, {}) (vp_operations patch)") (simp add: apply_patch_def)

lemma base_shape_fields:
  "base_shape a = base_shape b \<Longrightarrow> bi_num_layers a = bi_num_layers b \<and> bi_down_mmap a = bi_down_mmap b \<and>
     bi_down_meta a = bi_down_meta b"
  by (cases a; cases b) (simp add: base_shape_def)

lemma clean_op:
  assumes "\<forall>k \<in> fst (snd (snd ov)). fst ov k = Some None" and "keeps_tombstones op"
  shows "\<forall>k \<in> fst (snd (snd (overlay_op lower ov op))). fst (overlay_op lower ov op) k = Some None"
  using assms by (cases ov; cases op) (auto simp: overlay_op_def keeps_tombstones_def split: option.splits)

lemma marked_op:
  assumes "\<forall>k \<in> fst (snd (snd ov)). fst ov k \<noteq> None"
  shows "\<forall>k \<in> fst (snd (snd (overlay_op lower ov op))). fst (overlay_op lower ov op) k \<noteq> None"
  using assms by (cases ov; cases op) (auto simp: overlay_op_def split: option.splits)

lemma clean_ops:
  "\<forall>k \<in> fst (snd (snd ov)). fst ov k = Some None \<Longrightarrow> \<forall>op \<in> set ops. keeps_tombstones op \<Longrightarrow>
     \<forall>k \<in> fst (snd (snd (foldl (overlay_op lower) ov ops))). fst (foldl (overlay_op lower) ov ops) k = Some None"
proof (induction ops arbitrary: ov)
  case (Cons op ops)
  have "\<forall>k \<in> fst (snd (snd (overlay_op lower ov op))). fst (overlay_op lower ov op) k = Some None"
    by (rule clean_op) (use Cons.prems in simp_all)
  with Cons.IH [OF this] Cons.prems(2) show ?case by simp
qed simp

lemma marked_ops:
  "\<forall>k \<in> fst (snd (snd ov)). fst ov k \<noteq> None \<Longrightarrow>
     \<forall>k \<in> fst (snd (snd (foldl (overlay_op lower) ov ops))). fst (foldl (overlay_op lower) ov ops) k \<noteq> None"
proof (induction ops arbitrary: ov)
  case (Cons op ops)
  from Cons.IH [OF marked_op [OF Cons.prems]] show ?case by simp
qed simp

lemma clean_patch:
  assumes "tombstones_clean pv" and "\<forall>op \<in> set (vp_operations patch). keeps_tombstones op"
  shows "tombstones_clean (apply_patch lower pv patch)"
proof -
  have "\<forall>k \<in> fst (snd (snd (overlay pv))). fst (overlay pv) k = Some None" using assms(1) by (simp add: tombstones_clean_def overlay_def)
  from clean_ops [OF this assms(2), of lower] show ?thesis
    by (simp only: apply_patch_parts(1) [symmetric]) (simp add: tombstones_clean_def overlay_def)
qed

lemma marked_patch: "tombstones_marked pv \<Longrightarrow> tombstones_marked (apply_patch lower pv patch)"
proof -
  assume "tombstones_marked pv"
  then have "\<forall>k \<in> fst (snd (snd (overlay pv))). fst (overlay pv) k \<noteq> None" by (simp add: tombstones_marked_def overlay_def)
  from marked_ops [OF this, of lower "vp_operations patch"] show ?thesis
    by (simp only: apply_patch_parts(1) [symmetric]) (simp add: tombstones_marked_def overlay_def)
qed

text \<open>
  What holds of the overlay between directives. \<open>strict\<close> says that no patch gives metadata to a feature by an update
  alone, so that no deleted feature gets metadata again.
\<close>

definition build_ok :: "bool \<Rightarrow> base_index \<Rightarrow> patched_vindex \<Rightarrow> bool" where
  "build_ok strict base pv \<longleftrightarrow> base_shape (pv_base pv) = base_shape base \<and> tombstones_marked pv \<and>
     (strict \<longrightarrow> tombstones_clean pv) \<and> finite (dom (pv_overrides_meta pv))"

definition strict_patches :: "surroundings \<Rightarrow> bool" where
  "strict_patches sr \<longleftrightarrow> (\<forall>p patch. sr_load_patch sr p = Some patch \<longrightarrow> (\<forall>op \<in> set (vp_operations patch). keeps_tombstones op))"

lemma build_ok_delete: "build_ok strict base pv \<Longrightarrow> build_ok strict base (delete_feature l f pv)"
  by (auto simp: build_ok_def delete_feature_def invalidate_gate_cache_layer_def tombstones_clean_def tombstones_marked_def)

lemma build_ok_deletes: "build_ok strict base pv \<Longrightarrow> build_ok strict base (foldl (\<lambda>pv (l, f). delete_feature l f pv) pv found)"
proof (induction found arbitrary: pv)
  case (Cons k found)
  have "build_ok strict base (case k of (l, f) \<Rightarrow> delete_feature l f pv)" using Cons.prems by (cases k) (simp add: build_ok_delete)
  with Cons.IH show ?case by (cases k) simp
qed simp

lemma build_ok_insert: "build_ok strict base pv \<Longrightarrow> build_ok strict base (insert_feature l f gate m pv)"
  by (auto simp: build_ok_def insert_feature_def invalidate_gate_cache_layer_def tombstones_clean_def tombstones_marked_def)

lemma build_ok_patch:
  "build_ok strict base pv \<Longrightarrow> strict \<longrightarrow> (\<forall>op \<in> set (vp_operations patch). keeps_tombstones op) \<Longrightarrow>
     build_ok strict base (apply_patch lower pv patch)"
  by (simp add: build_ok_def apply_patch_shape clean_patch marked_patch finite_patch)

lemma build_ok_directive:
  assumes "build_ok (strict_patches sr) base pv" and "apply_directive sr lower n d (pv, log) = Inr (pv', log')"
  shows "build_ok (strict_patches sr) base pv'"
proof (cases d)
  case (VfPatch path)
  with assms(2) obtain resolved patch where "sr_load_patch sr resolved = Some patch" "pv' = apply_patch lower pv patch"
    by (auto simp: apply_directive_def res_bind_Inr split: option.splits)
  with assms(1) show ?thesis using build_ok_patch [of "strict_patches sr" base pv patch lower] by (auto simp: strict_patches_def)
qed (use assms in \<open>auto simp: apply_directive_def Let_def build_ok_insert build_ok_deletes\<close>)

lemma build_ok_directives:
  "build_ok (strict_patches sr) base pv \<Longrightarrow> apply_directives sr lower n ds (pv, log) = Inr (pv', log') \<Longrightarrow>
     build_ok (strict_patches sr) base pv'"
proof (induction ds arbitrary: pv log)
  case (Cons d ds)
  then obtain pv1 log1 where d: "apply_directive sr lower n d (pv, log) = Inr (pv1, log1)"
    "apply_directives sr lower n ds (pv1, log1) = Inr (pv', log')" by (auto simp: res_bind_Inr)
  from Cons.IH [OF build_ok_directive [OF Cons.prems(1) d(1)] d(2)] show ?case .
qed simp

text \<open>A base whose metadata baking can copy: on the heap, or mapped with no record beyond the features.\<close>

definition copied_meta :: "base_index \<Rightarrow> nat \<Rightarrow> bool" where
  "copied_meta base layer \<longleftrightarrow> bi_down_mmap base = None \<or>
     down_meta_at base layer = None \<and> (\<forall>f. index_num_features base layer \<le> f \<longrightarrow> index_feature_meta base layer f = None)"

lemma base_shape_reads:
  "bi_down_mmap (base_shape base) = bi_down_mmap base" "down_meta_at (base_shape base) layer = down_meta_at base layer"
  "index_num_features (base_shape base) layer = index_num_features base layer"
  "index_feature_meta (base_shape base) layer f = index_feature_meta base layer f"
  by (simp_all add: base_shape_def down_meta_at_def index_num_features_def stored_features_def gate_vectors_at_def
      index_feature_meta_def cong: option.case_cong if_cong)

lemma copied_meta_shape: "copied_meta (base_shape base) layer = copied_meta base layer"
  by (simp only: copied_meta_def base_shape_reads)

text \<open>
  Baked or not, the built index shows the metadata of the overlay; a feature that is still marked as deleted shows none,
  though an update may have given it metadata again.
\<close>

lemma baked_or_base_view:
  assumes "build_ok strict base pv" and "copied_meta base layer" and "layer < bi_num_layers base"
  shows "index_feature_meta (baked_or_base pv) layer f =
    (if (layer, f) \<in> pv_deleted pv then None else feature_meta_of pv layer f)"
proof -
  from assms(1) have s: "base_shape (pv_base pv) = base_shape base" and c: "tombstones_marked pv"
    and fin: "finite (dom (pv_overrides_meta pv))" by (simp_all add: build_ok_def)
  have n: "layer < bi_num_layers (pv_base pv)" using base_shape_fields [OF s] assms(3) by simp
  have "copied_meta (pv_base pv) layer" using s assms(2) copied_meta_shape by metis
  then have m: "bi_down_mmap (pv_base pv) = None \<or> down_meta_at (pv_base pv) layer = None \<and>
      (index_num_features (pv_base pv) layer \<le> f \<longrightarrow> index_feature_meta (pv_base pv) layer f = None)"
    by (auto simp: copied_meta_def)
  show ?thesis
  proof (cases "0 < num_overrides pv")
    case True
    with baked_view [OF fin n m] show ?thesis by (simp add: baked_or_base_def)
  next
    case False
    then have "pv_overrides_meta pv = Map.empty" using fin by (simp add: num_overrides_def)
    moreover from this c have "pv_deleted pv = {}" by (auto simp: tombstones_marked_def)
    ultimately show ?thesis using False by (simp add: baked_or_base_def feature_meta_of_def)
  qed
qed

lemma build_view:
  assumes build: "build_from_vindexfile sr lower vf stage = Inr (ix, log)"
  shows "\<exists>ds path resolved n base pv. chosen_directives vf stage = Inr ds \<and> find is_from ds = Some (VfFrom path) \<and>
     resolve_vindexfile_path sr path = Inr resolved \<and> sr_load_base sr resolved = Some (n, base) \<and>
     apply_directives sr lower n ds (new_patched base, [\<lparr>bl_directive = VfFrom path, bl_features_modified = 0\<rparr>]) = Inr (pv, log) \<and>
     (\<forall>layer f. layer < bi_num_layers base \<longrightarrow> copied_meta base layer \<longrightarrow>
        index_feature_meta ix layer f = (if (layer, f) \<in> pv_deleted pv then None else feature_meta_of pv layer f)) \<and>
     (strict_patches sr \<longrightarrow> (\<forall>(layer, f) \<in> pv_deleted pv. feature_meta_of pv layer f = None))"
proof -
  from build obtain ds where ds: "chosen_directives vf stage = Inr ds"
    and r: "(case find is_from ds of
         Some (VfFrom path) \<Rightarrow>
           res_bind (resolve_vindexfile_path sr path) (\<lambda>resolved.
             case sr_load_base sr resolved of
               None \<Rightarrow> Inl (LoadFailed resolved)
             | Some (num_layers, base) \<Rightarrow>
                 res_bind (apply_directives sr lower num_layers ds
                     (new_patched base, [\<lparr>bl_directive = VfFrom path, bl_features_modified = 0\<rparr>]))
                   (\<lambda>(pv, log). Inr (baked_or_base pv, log)))
       | _ \<Rightarrow> Inl MissingFrom) = Inr (ix, log)" by (auto simp: build_from_vindexfile_def res_bind_Inr)
  from r obtain path where from_d: "find is_from ds = Some (VfFrom path)" by (auto split: option.splits directive.splits)
  with r obtain resolved where resolved: "resolve_vindexfile_path sr path = Inr resolved"
    and r2: "(case sr_load_base sr resolved of
               None \<Rightarrow> Inl (LoadFailed resolved)
             | Some (num_layers, base) \<Rightarrow>
                 res_bind (apply_directives sr lower num_layers ds
                     (new_patched base, [\<lparr>bl_directive = VfFrom path, bl_features_modified = 0\<rparr>]))
                   (\<lambda>(pv, log). Inr (baked_or_base pv, log))) = Inr (ix, log)" by (auto simp: res_bind_Inr)
  from r2 obtain n base where load: "sr_load_base sr resolved = Some (n, base)" by (auto split: option.splits)
  with r2 obtain pv where run: "apply_directives sr lower n ds (new_patched base, [\<lparr>bl_directive = VfFrom path, bl_features_modified = 0\<rparr>]) = Inr (pv, log)"
    and ix: "ix = baked_or_base pv" by (auto simp: res_bind_Inr)
  have "build_ok (strict_patches sr) base (new_patched base)"
    by (simp add: build_ok_def new_patched_def tombstones_clean_def tombstones_marked_def)
  from build_ok_directives [OF this run] have ok: "build_ok (strict_patches sr) base pv" .
  have "strict_patches sr \<longrightarrow> (\<forall>(layer, f) \<in> pv_deleted pv. feature_meta_of pv layer f = None)"
    using ok by (auto simp: build_ok_def tombstones_clean_def feature_meta_of_def)
  with ds from_d resolved load run baked_or_base_view [OF ok, folded ix] show ?thesis by blast
qed

text \<open>Overridden gate vectors alone do not make the build bake.\<close>

lemma gates_alone_not_baked: "pv_overrides_meta pv = Map.empty \<Longrightarrow> baked_or_base pv = pv_base pv"
  by (simp add: baked_or_base_def num_overrides_def)

end
