(* ===== verification/StorageEngine.thy ===== *)
theory StorageEngine
  imports VindexBake
begin

text \<open>
  The storage engine over a patched vindex (\<open>crates/larql-vindex/src/engine/core.rs\<close>, \<open>epoch.rs\<close>,
  \<open>status.rs\<close> and the store of \<open>memit_store.rs\<close>): the epoch, the mutation counters, the compaction cycles and
  the status. The numerical solver of \<open>memit_store.rs\<close> is not modelled.
\<close>

record memit_fact =
  mf_entity :: string
  mf_relation :: string
  mf_target :: string
  mf_key :: "f32 list"
  mf_decomposed_down :: "f32 list"
  mf_reconstruction_cos :: f32

record memit_cycle =
  mc_cycle_id :: nat
  mc_layer :: nat
  mc_facts :: "memit_fact list"
  mc_frobenius_norm :: f32
  mc_min_reconstruction_cos :: f32
  mc_max_off_diagonal :: f32

record memit_store =
  ms_cycles :: "memit_cycle list"
  ms_next_cycle_id :: nat

definition new_memit_store :: memit_store where
  "new_memit_store = \<lparr>ms_cycles = [], ms_next_cycle_id = 0\<rparr>"

definition add_cycle :: "nat \<Rightarrow> memit_fact list \<Rightarrow> f32 \<Rightarrow> f32 \<Rightarrow> f32 \<Rightarrow> memit_store \<Rightarrow> nat \<times> memit_store" where
  "add_cycle layer facts frobenius_norm min_cos max_off_diag ms =
     (let cid = ms_next_cycle_id ms in
      (cid, \<lparr>ms_cycles = ms_cycles ms @
               [\<lparr>mc_cycle_id = cid, mc_layer = layer, mc_facts = facts, mc_frobenius_norm = frobenius_norm,
                 mc_min_reconstruction_cos = min_cos, mc_max_off_diagonal = max_off_diag\<rparr>],
             ms_next_cycle_id = cid + 1\<rparr>))"

definition from_cycles :: "memit_cycle list \<Rightarrow> memit_store" where
  "from_cycles cycles =
     \<lparr>ms_cycles = cycles, ms_next_cycle_id = (if cycles = [] then 0 else Max (set (map mc_cycle_id cycles)) + 1)\<rparr>"

definition total_facts :: "memit_store \<Rightarrow> nat" where
  "total_facts ms = sum_list (map (\<lambda>c. length (mc_facts c)) (ms_cycles ms))"

definition facts_for_entity :: "string \<Rightarrow> memit_store \<Rightarrow> memit_fact list" where
  "facts_for_entity entity ms = concat (map (\<lambda>c. filter (\<lambda>f. eq_ignore_ascii_case (mf_entity f) entity) (mc_facts c)) (ms_cycles ms))"

definition memit_lookup :: "string \<Rightarrow> string \<Rightarrow> memit_store \<Rightarrow> memit_fact list" where
  "memit_lookup entity relation ms =
     concat (map (\<lambda>c. filter (\<lambda>f. eq_ignore_ascii_case (mf_entity f) entity \<and> eq_ignore_ascii_case (mf_relation f) relation)
       (mc_facts c)) (ms_cycles ms))"

section \<open>Engine\<close>

record storage_engine =
  se_patched :: patched_vindex
  se_epoch :: nat
  se_since_minor :: nat
  se_since_major :: nat
  se_memit :: memit_store

definition new_engine :: "patched_vindex \<Rightarrow> storage_engine" where
  "new_engine pv = \<lparr>se_patched = pv, se_epoch = 0, se_since_minor = 0, se_since_major = 0, se_memit = new_memit_store\<rparr>"

text \<open>The epoch is atomic and wraps; the counters are machine words that never get that far.\<close>

definition advance_epoch :: "storage_engine \<Rightarrow> storage_engine" where
  "advance_epoch se =
     se\<lparr>se_epoch := (se_epoch se + 1) mod 2 ^ 64, se_since_minor := se_since_minor se + 1, se_since_major := se_since_major se + 1\<rparr>"

definition reset_minor_counter :: "storage_engine \<Rightarrow> storage_engine" where
  "reset_minor_counter se = se\<lparr>se_since_minor := 0\<rparr>"

definition reset_major_counter :: "storage_engine \<Rightarrow> storage_engine" where
  "reset_major_counter se = se\<lparr>se_since_major := 0\<rparr>"

definition supports_memit :: "storage_engine \<Rightarrow> bool" where
  "supports_memit se \<longleftrightarrow> 1024 \<le> bi_hidden_size (pv_base (se_patched se))"

record compact_status =
  cs_epoch :: nat
  cs_l0_entries :: nat
  cs_l0_tombstones :: nat
  cs_l1_edges :: nat
  cs_l1_layers_used :: nat
  cs_l2_facts :: nat
  cs_l2_cycles :: nat
  cs_base_layers :: nat
  cs_base_features_per_layer :: nat
  cs_hidden_dim :: nat
  cs_memit_supported :: bool

definition compact_status_of :: "storage_engine \<Rightarrow> compact_status" where
  "compact_status_of se =
     (let pv = se_patched se; base = pv_base pv in
      \<lparr>cs_epoch = se_epoch se, cs_l0_entries = knn_len (pv_knn pv), cs_l0_tombstones = 0, cs_l1_edges = num_overrides pv,
       cs_l1_layers_used = card (fst ` dom (pv_overrides_gate pv)), cs_l2_facts = total_facts (se_memit se),
       cs_l2_cycles = length (ms_cycles (se_memit se)), cs_base_layers = bi_num_layers base,
       cs_base_features_per_layer = (if 0 < bi_num_layers base then index_num_features base 0 else 0),
       cs_hidden_dim = bi_hidden_size base, cs_memit_supported = supports_memit se\<rparr>)"

definition l0_live :: "compact_status \<Rightarrow> nat" where
  "l0_live cs = cs_l0_entries cs - cs_l0_tombstones cs"

section \<open>Cycle numbers\<close>

definition memit_ok :: "memit_store \<Rightarrow> bool" where
  "memit_ok ms \<longleftrightarrow> distinct (map mc_cycle_id (ms_cycles ms)) \<and> (\<forall>c \<in> set (ms_cycles ms). mc_cycle_id c < ms_next_cycle_id ms)"

lemma memit_ok_new: "memit_ok new_memit_store"
  by (simp add: memit_ok_def new_memit_store_def)

lemma memit_ok_from_cycles: "distinct (map mc_cycle_id cycles) \<Longrightarrow> memit_ok (from_cycles cycles)"
  by (auto simp: memit_ok_def from_cycles_def less_Suc_eq_le)

text \<open>A new cycle has a number no cycle of the store has, also after a snapshot was loaded.\<close>

lemma add_cycle_fresh:
  assumes "memit_ok ms" and "add_cycle layer facts norm cos off ms = (cid, ms')"
  shows "cid \<notin> mc_cycle_id ` set (ms_cycles ms)" and "memit_ok ms'"
    and "memit_lookup e r ms' = memit_lookup e r ms @
       filter (\<lambda>f. eq_ignore_ascii_case (mf_entity f) e \<and> eq_ignore_ascii_case (mf_relation f) r) facts"
    and "total_facts ms' = total_facts ms + length facts"
proof -
  from assms(2) have cid: "cid = ms_next_cycle_id ms"
    and ms': "ms_cycles ms' = ms_cycles ms @ [\<lparr>mc_cycle_id = cid, mc_layer = layer, mc_facts = facts, mc_frobenius_norm = norm,
        mc_min_reconstruction_cos = cos, mc_max_off_diagonal = off\<rparr>]" "ms_next_cycle_id ms' = cid + 1"
    by (auto simp: add_cycle_def Let_def)
  show fresh: "cid \<notin> mc_cycle_id ` set (ms_cycles ms)" using assms(1) by (fastforce simp: memit_ok_def cid)
  show "memit_ok ms'" using assms(1) fresh by (auto simp: memit_ok_def ms' cid less_Suc_eq)
  show "memit_lookup e r ms' = memit_lookup e r ms @
      filter (\<lambda>f. eq_ignore_ascii_case (mf_entity f) e \<and> eq_ignore_ascii_case (mf_relation f) r) facts"
    "total_facts ms' = total_facts ms + length facts"
    by (simp_all add: memit_lookup_def total_facts_def ms')
qed

section \<open>Counters\<close>

inductive engine_reachable :: "nat \<Rightarrow> storage_engine \<Rightarrow> bool" where
  engine_new: "engine_reachable 0 (new_engine pv)"
| engine_patched: "engine_reachable n se \<Longrightarrow> engine_reachable n (se\<lparr>se_patched := pv\<rparr>)"
| engine_memit: "engine_reachable n se \<Longrightarrow> engine_reachable n (se\<lparr>se_memit := ms\<rparr>)"
| engine_advance: "engine_reachable n se \<Longrightarrow> engine_reachable (n + 1) (advance_epoch se)"
| engine_minor: "engine_reachable n se \<Longrightarrow> engine_reachable n (reset_minor_counter se)"
| engine_major: "engine_reachable n se \<Longrightarrow> engine_reachable n (reset_major_counter se)"

text \<open>After \<open>n\<close> mutations the epoch is \<open>n\<close> and no counter is ahead of it.\<close>

lemma engine_counters:
  "engine_reachable n se \<Longrightarrow> se_epoch se = n mod 2 ^ 64 \<and> se_since_minor se \<le> n \<and> se_since_major se \<le> n"
  by (induction rule: engine_reachable.induct)
    (auto simp: new_engine_def advance_epoch_def reset_minor_counter_def reset_major_counter_def mod_Suc_eq)

end
