(* ===== verification/VindexKnnFile.thy ===== *)
theory VindexKnnFile
  imports VindexKnn Half
begin

text \<open>
  The files of the retrieval store (\<open>crates/larql-vindex/src/patch/knn_store_io.rs\<close>): writing with keys in half
  precision, reading, and the round trip. The JSON of an entry's metadata is a parameter: \<open>render\<close> is the text of
  the four fields, \<open>parse\<close> reads a text, \<open>str_field\<close> and \<open>f64_field\<close> are \<open>meta[key].as_str()\<close> and
  \<open>meta[key].as_f64()\<close>. The entries to write are a list in the order of iteration of the map.
\<close>

section \<open>Writing\<close>

definition knn_dim :: "(nat \<times> knn_entry list) list \<Rightarrow> nat" where
  "knn_dim layers = (case concat (map (\<lambda>(_, es). take 1 es) layers) of [] \<Rightarrow> 0 | e # _ \<Rightarrow> length (ke_key e))"

definition knn_meta_bytes :: "(string \<Rightarrow> string \<Rightarrow> string \<Rightarrow> f32 \<Rightarrow> string) \<Rightarrow> knn_entry \<Rightarrow> string" where
  "knn_meta_bytes render e =
     (let meta = render (ke_target_token e) (ke_entity e) (ke_relation e) (ke_confidence e) in
      le_bytes 4 (length meta) @ meta)"

definition knn_layer_bytes :: "(string \<Rightarrow> string \<Rightarrow> string \<Rightarrow> f32 \<Rightarrow> string) \<Rightarrow> nat \<times> knn_entry list \<Rightarrow> string" where
  "knn_layer_bytes render = (\<lambda>(layer, es).
     le_bytes 4 layer @ le_bytes 4 (length es) @ concat (map (\<lambda>e. encode_f16 (ke_key e)) es) @
     concat (map (\<lambda>e. le_bytes 4 (unat (ke_target_id e))) es) @ concat (map (knn_meta_bytes render) es))"

definition save_knn :: "(string \<Rightarrow> string \<Rightarrow> string \<Rightarrow> f32 \<Rightarrow> string) \<Rightarrow> (nat \<times> knn_entry list) list \<Rightarrow> string" where
  "save_knn render layers =
     ''LKNN'' @ le_bytes 4 1 @ le_bytes 4 (knn_dim layers) @ le_bytes 4 (length layers) @
     concat (map (knn_layer_bytes render) layers)"

section \<open>Reading\<close>

datatype knn_file_error = KnnEof | KnnBadMagic string | KnnBadVersion nat | KnnBadMeta

definition read_exact :: "nat \<Rightarrow> string \<Rightarrow> knn_file_error + string \<times> string" where
  "read_exact n s = (if length s < n then Inl KnnEof else Inr (take n s, drop n s))"

definition knn_read_u32 :: "string \<Rightarrow> knn_file_error + nat \<times> string" where
  "knn_read_u32 s = res_bind (read_exact 4 s) (\<lambda>(b, s). Inr (of_le b, s))"

definition knn_read_u16 :: "string \<Rightarrow> knn_file_error + f16 \<times> string" where
  "knn_read_u16 s = res_bind (read_exact 2 s) (\<lambda>(b, s). Inr (word_of_nat (of_le b), s))"

fun read_times :: "(string \<Rightarrow> knn_file_error + 'a \<times> string) \<Rightarrow> nat \<Rightarrow> string \<Rightarrow> knn_file_error + 'a list \<times> string" where
  "read_times read 0 s = Inr ([], s)"
| "read_times read (Suc n) s =
     res_bind (read s) (\<lambda>(x, s). res_bind (read_times read n s) (\<lambda>(xs, s). Inr (x # xs, s)))"

definition read_key :: "nat \<Rightarrow> string \<Rightarrow> knn_file_error + f32 list \<times> string" where
  "read_key dim s = res_bind (read_times knn_read_u16 dim s) (\<lambda>(bits, s). Inr (map f16_to_f32 bits, s))"

text \<open>\<open>unwrap_or\<close> and the conversion of the confidence.\<close>

definition str_or_empty :: "string option \<Rightarrow> string" where
  "str_or_empty x = (case x of Some t \<Rightarrow> t | None \<Rightarrow> [])"

definition entry_of_meta ::
  "('v \<Rightarrow> string \<Rightarrow> string option) \<Rightarrow> ('v \<Rightarrow> string \<Rightarrow> f64 option) \<Rightarrow> f32 list \<Rightarrow> nat \<Rightarrow> 'v \<Rightarrow> knn_entry" where
  "entry_of_meta str_field f64_field key target_id meta =
     \<lparr>ke_key = key, ke_target_id = word_of_nat target_id, ke_target_token = str_or_empty (str_field meta ''target_token''),
      ke_entity = str_or_empty (str_field meta ''entity''), ke_relation = str_or_empty (str_field meta ''relation''),
      ke_confidence = (case f64_field meta ''confidence'' of Some d \<Rightarrow> f32_of_f64 d | None \<Rightarrow> 0x3F800000)\<rparr>"

fun read_metas ::
  "(string \<Rightarrow> 'v option) \<Rightarrow> (f32 list \<Rightarrow> nat \<Rightarrow> 'v \<Rightarrow> knn_entry) \<Rightarrow> (f32 list \<times> nat) list \<Rightarrow> string \<Rightarrow>
     knn_file_error + knn_entry list \<times> string" where
  "read_metas parse mk [] s = Inr ([], s)"
| "read_metas parse mk ((key, target_id) # pairs) s =
     res_bind (knn_read_u32 s) (\<lambda>(meta_len, s).
     res_bind (read_exact meta_len s) (\<lambda>(meta_bytes, s).
       case parse meta_bytes of
         None \<Rightarrow> Inl KnnBadMeta
       | Some meta \<Rightarrow> res_bind (read_metas parse mk pairs s) (\<lambda>(es, s). Inr (mk key target_id meta # es, s))))"

definition read_knn_layer ::
  "(string \<Rightarrow> 'v option) \<Rightarrow> (f32 list \<Rightarrow> nat \<Rightarrow> 'v \<Rightarrow> knn_entry) \<Rightarrow> nat \<Rightarrow> string \<Rightarrow>
     knn_file_error + (nat \<times> knn_entry list) \<times> string" where
  "read_knn_layer parse mk dim s =
     res_bind (knn_read_u32 s) (\<lambda>(layer, s).
     res_bind (knn_read_u32 s) (\<lambda>(num_entries, s).
     res_bind (read_times (read_key dim) num_entries s) (\<lambda>(keys, s).
     res_bind (read_times knn_read_u32 num_entries s) (\<lambda>(target_ids, s).
     res_bind (read_metas parse mk (zip keys target_ids) s) (\<lambda>(es, s). Inr ((layer, es), s))))))"

definition load_knn ::
  "(string \<Rightarrow> 'v option) \<Rightarrow> ('v \<Rightarrow> string \<Rightarrow> string option) \<Rightarrow> ('v \<Rightarrow> string \<Rightarrow> f64 option) \<Rightarrow> string \<Rightarrow>
     knn_file_error + knn_store" where
  "load_knn parse str_field f64_field data =
     res_bind (read_exact 4 data) (\<lambda>(magic, s).
     if magic \<noteq> ''LKNN'' then Inl (KnnBadMagic magic)
     else res_bind (knn_read_u32 s) (\<lambda>(version, s).
     if version \<noteq> 1 then Inl (KnnBadVersion version)
     else res_bind (knn_read_u32 s) (\<lambda>(dim, s).
     res_bind (knn_read_u32 s) (\<lambda>(num_layers, s).
     res_bind (read_times (read_knn_layer parse (entry_of_meta str_field f64_field) dim) num_layers s) (\<lambda>(layers, s).
       Inr (from_entries (foldl (\<lambda>m (layer, es). m(layer \<mapsto> es)) Map.empty layers)))))))"

section \<open>The round trip\<close>

text \<open>An entry as it is read back, its metadata as JSON keep them, and what fits the format.\<close>

definition half_key :: "knn_entry \<Rightarrow> knn_entry" where
  "half_key e = e\<lparr>ke_key := map (\<lambda>x. f16_to_f32 (f32_to_f16 x)) (ke_key e)\<rparr>"

definition meta_kept ::
  "(string \<Rightarrow> string \<Rightarrow> string \<Rightarrow> f32 \<Rightarrow> string) \<Rightarrow> (string \<Rightarrow> 'v option) \<Rightarrow> ('v \<Rightarrow> string \<Rightarrow> string option) \<Rightarrow>
     ('v \<Rightarrow> string \<Rightarrow> f64 option) \<Rightarrow> knn_entry \<Rightarrow> bool" where
  "meta_kept render parse str_field f64_field e \<longleftrightarrow>
     (let meta = render (ke_target_token e) (ke_entity e) (ke_relation e) (ke_confidence e) in
      length meta < 2 ^ 32 \<and>
      (case parse meta of
         None \<Rightarrow> False
       | Some v \<Rightarrow> str_field v ''target_token'' = Some (ke_target_token e) \<and> str_field v ''entity'' = Some (ke_entity e) \<and>
           str_field v ''relation'' = Some (ke_relation e) \<and>
           map_option f32_of_f64 (f64_field v ''confidence'') = Some (ke_confidence e)))"

definition layer_fits :: "nat \<Rightarrow> nat \<times> knn_entry list \<Rightarrow> bool" where
  "layer_fits dim = (\<lambda>(layer, es). layer < 2 ^ 32 \<and> length es < 2 ^ 32 \<and> (\<forall>e \<in> set es. length (ke_key e) = dim))"

lemma read_exact_append [simp]: "length b = n \<Longrightarrow> read_exact n (b @ rest) = Inr (b, rest)"
  by (simp add: read_exact_def)

lemma knn_read_u32_bytes [simp]: "n < 2 ^ 32 \<Longrightarrow> knn_read_u32 (le_bytes 4 n @ rest) = Inr (n, rest)"
  by (simp add: knn_read_u32_def of_le_bytes_less del: le_bytes.simps)

lemma knn_read_u16_bytes [simp]: "knn_read_u16 (le_bytes 2 (unat w) @ rest) = Inr (w, rest)"
  using unsigned_less [of w, where ?'a = nat] by (simp add: knn_read_u16_def of_le_bytes_less del: le_bytes.simps)

lemma read_times_bytes:
  assumes "\<forall>x \<in> set xs. \<forall>rest. rd (put x @ rest) = Inr (got x, rest)"
  shows "read_times rd (length xs) (concat (map put xs) @ rest) = Inr (map got xs, rest)"
  using assms by (induction xs) auto

lemma read_key_bytes: "length key = dim \<Longrightarrow> read_key dim (encode_f16 key @ rest) = Inr (map (\<lambda>x. f16_to_f32 (f32_to_f16 x)) key, rest)"
  using read_times_bytes [of key knn_read_u16 "\<lambda>v. le_bytes 2 (unat (f32_to_f16 v))" f32_to_f16 rest]
  by (auto simp: read_key_def encode_f16_def comp_def simp del: le_bytes.simps)

lemma read_metas_bytes:
  assumes "\<forall>e \<in> set es. meta_kept render parse str_field f64_field e"
  shows "read_metas parse (entry_of_meta str_field f64_field)
      (zip (map (\<lambda>e. map (\<lambda>x. f16_to_f32 (f32_to_f16 x)) (ke_key e)) es) (map (\<lambda>e. unat (ke_target_id e)) es))
      (concat (map (knn_meta_bytes render) es) @ rest) = Inr (map half_key es, rest)"
  using assms
proof (induction es)
  case (Cons e es)
  let ?meta = "render (ke_target_token e) (ke_entity e) (ke_relation e) (ke_confidence e)"
  obtain v d where v: "parse ?meta = Some v" "str_field v ''target_token'' = Some (ke_target_token e)"
    "str_field v ''entity'' = Some (ke_entity e)" "str_field v ''relation'' = Some (ke_relation e)"
    "f64_field v ''confidence'' = Some d" "f32_of_f64 d = ke_confidence e" "length ?meta < 2 ^ 32"
    using Cons.prems by (auto simp: meta_kept_def Let_def split: option.splits)
  have "entry_of_meta str_field f64_field (map (\<lambda>x. f16_to_f32 (f32_to_f16 x)) (ke_key e)) (unat (ke_target_id e)) v = half_key e"
    by (simp add: entry_of_meta_def half_key_def str_or_empty_def v)
  then show ?case
    using Cons v(1,7) by (simp add: knn_meta_bytes_def Let_def del: le_bytes.simps)
qed simp

lemma read_knn_layer_bytes:
  assumes "layer_fits dim (layer, es)" "\<forall>e \<in> set es. meta_kept render parse str_field f64_field e"
  shows "read_knn_layer parse (entry_of_meta str_field f64_field) dim (knn_layer_bytes render (layer, es) @ rest) =
    Inr ((layer, map half_key es), rest)"
proof -
  have keys: "read_times (read_key dim) (length es) (concat (map (\<lambda>e. encode_f16 (ke_key e)) es) @ r) =
      Inr (map (\<lambda>e. map (\<lambda>x. f16_to_f32 (f32_to_f16 x)) (ke_key e)) es, r)" for r
    using assms(1) by (intro read_times_bytes) (auto simp: layer_fits_def read_key_bytes)
  have ids: "read_times knn_read_u32 (length es) (concat (map (\<lambda>e. le_bytes 4 (unat (ke_target_id e))) es) @ r) =
      Inr (map (\<lambda>e. unat (ke_target_id e)) es, r)" for r
    using unsigned_less [where ?'a = nat and ?'b = 32] by (intro read_times_bytes) auto
  show ?thesis
    using assms(1) by (simp add: read_knn_layer_def knn_layer_bytes_def layer_fits_def keys ids read_metas_bytes [OF assms(2)] del: le_bytes.simps)
qed

lemma layers_into_map: "distinct (map fst xs) \<Longrightarrow> foldl (\<lambda>m (layer, es). m(layer \<mapsto> es)) m xs = m ++ map_of xs"
proof (induction xs arbitrary: m)
  case (Cons x xs)
  obtain layer es where x: "x = (layer, es)" by (cases x)
  have "layer \<notin> dom (map_of xs)" using Cons.prems by (simp add: x dom_map_of_conv_image_fst)
  then have "m(layer \<mapsto> es) ++ map_of xs = m ++ map_of (x # xs)" by (simp add: x map_add_upd_left)
  moreover have "foldl (\<lambda>m (layer, es). m(layer \<mapsto> es)) m (x # xs) = m(layer \<mapsto> es) ++ map_of xs"
    using Cons.IH [of "m(layer \<mapsto> es)"] Cons.prems by (simp add: x fun_upd_def)
  ultimately show ?case by (simp only:)
qed simp

lemma load_saved:
  assumes "\<forall>l \<in> set layers. layer_fits (knn_dim layers) l" "\<forall>l \<in> set layers. \<forall>e \<in> set (snd l). meta_kept render parse str_field f64_field e"
    and "distinct (map fst layers)" "length layers < 2 ^ 32" "knn_dim layers < 2 ^ 32"
  shows "load_knn parse str_field f64_field (save_knn render layers) =
    Inr (from_entries (map_of (map (\<lambda>(layer, es). (layer, map half_key es)) layers)))"
proof -
  let ?got = "\<lambda>(layer, es). (layer, map half_key es)"
  have "read_times (read_knn_layer parse (entry_of_meta str_field f64_field) (knn_dim layers)) (length layers)
      (concat (map (knn_layer_bytes render) layers) @ []) = Inr (map ?got layers, [])"
    using assms(1,2) by (intro read_times_bytes) (auto simp: read_knn_layer_bytes)
  moreover have "foldl (\<lambda>m (layer, es). m(layer \<mapsto> es)) Map.empty (map ?got layers) = map_of (map ?got layers)"
    using assms(3) by (subst layers_into_map) (auto simp: comp_def case_prod_unfold)
  moreover have "read_exact 4 (''LKNN'' @ r) = Inr (''LKNN'', r)" for r by (rule read_exact_append) simp
  ultimately show ?thesis
    using assms(4,5) by (simp add: load_knn_def save_knn_def del: le_bytes.simps append_Cons)
qed

lemma half_key_meta [simp]: "knn_meta_bytes render (half_key e) = knn_meta_bytes render e" "ke_target_id (half_key e) = ke_target_id e"
    "encode_f16 (ke_key (half_key e)) = encode_f16 (ke_key e)" "length (ke_key (half_key e)) = length (ke_key e)"
  by (simp_all add: knn_meta_bytes_def half_key_def encode_f16_def comp_def narrow_once del: le_bytes.simps)

lemma half_key_again: "knn_layer_bytes render (layer, map half_key es) = knn_layer_bytes render (layer, es)"
  by (simp add: knn_layer_bytes_def comp_def del: le_bytes.simps)

lemma knn_dim_half: "knn_dim (map (\<lambda>(layer, es). (layer, map half_key es)) layers) = knn_dim layers"
proof -
  have c: "concat (map (\<lambda>(_, es). take 1 es) (map (\<lambda>(layer, es). (layer, map half_key es)) layers)) =
      map half_key (concat (map (\<lambda>(_, es). take 1 es) layers))"
    by (induction layers) (auto simp: take_map)
  show ?thesis unfolding knn_dim_def c by (rule list.exhaust [of "concat (map (\<lambda>(_, es). take 1 es) layers)"]) (simp_all only: list.map list.case half_key_meta)
qed

lemma save_half: "save_knn render (map (\<lambda>(layer, es). (layer, map half_key es)) layers) = save_knn render layers"
proof -
  have "map (knn_layer_bytes render) (map (\<lambda>(layer, es). (layer, map half_key es)) layers) = map (knn_layer_bytes render) layers"
    by (auto simp: half_key_again)
  then show ?thesis by (simp only: save_knn_def knn_dim_half length_map)
qed

text \<open>
  Keys of different lengths are written one after the other and read with the length of the first: the numbers that
  follow are read at the wrong places, here the first target 0 as 15360.
\<close>

lemma unequal_keys_shift:
  fixes e :: "f32 list \<Rightarrow> knn_entry"
  defines "e \<equiv> \<lambda>key. \<lparr>ke_key = key, ke_target_id = 0, ke_target_token = [], ke_entity = [], ke_relation = [], ke_confidence = 0x3F800000\<rparr>"
  shows "load_knn Some (\<lambda>_ _. None) (\<lambda>_ _. None) (save_knn (\<lambda>_ _ _ _. []) [(0, [e [], e [0x3F800000]])]) =
    Inr (from_entries [0 \<mapsto> [(e [])\<lparr>ke_target_id := 15360\<rparr>, e []]])"
proof -
  have w: "unat (f32_to_f16 0x3F800000) = 15360" by (simp add: f32_to_f16_def Let_def)
  have four: "(4 :: nat) = Suc (Suc (Suc (Suc 0)))" "(2 :: nat) = Suc (Suc 0)" by simp_all
  have le4: "le_bytes 4 n = map char_of [n mod 256, n div 256 mod 256, n div 256 div 256 mod 256, n div 256 div 256 div 256 mod 256]" for n
    unfolding four(1) by simp
  have le2: "le_bytes 2 n = map char_of [n mod 256, n div 256 mod 256]" for n unfolding four(2) by simp
  have saved: "save_knn (\<lambda>_ _ _ _. []) [(0, [e [], e [0x3F800000]])] = ''LKNN'' @ map char_of
      [1, 0, 0, 0, 0, 0, 0, 0, 1, 0, 0, 0, 0, 0, 0, 0, 2, 0, 0, 0, 0, 60, 0, 0, 0, 0, 0, 0, 0, 0, 0, 0, 0, 0, 0, 0, 0, (0 :: nat)]"
    by (simp add: e_def save_knn_def knn_dim_def knn_layer_bytes_def knn_meta_bytes_def encode_f16_def w le4 le2)
  show ?thesis
    unfolding saved
    by (simp add: e_def load_knn_def read_exact_def knn_read_u32_def read_knn_layer_def read_key_def entry_of_meta_def
        str_or_empty_def numeral_2_eq_2)
qed

end
