(* ===== verification/VindexProperties.thy ===== *)
theory VindexProperties
  imports Vindexfile StorageEngine VindexKnnFile
begin

text \<open>
  The properties of the vindex store: vectors and half floats, the files of metadata, the selection of the best
  scores, the patch overlay with its queries and its cache, the retrieval store, and declarative builds.
\<close>

section \<open>Saving and loading metadata\<close>

lemma heap_meta_stored: "heap_meta (map (stored_layer decode k) ls) layer f = stored_meta decode k (heap_meta ls layer f)"
proof (cases "layer < length ls")
  case True
  then show ?thesis
    by (cases "ls ! layer") (auto simp: heap_meta_def stored_meta_def)
qed (simp add: heap_meta_def stored_meta_def)

text \<open>Metadata the format holds as it is: the texts are those of the tokens, and nothing is zero.\<close>

definition canonical :: "tokenizer \<Rightarrow> feature_meta \<Rightarrow> bool" where
  "canonical decode m \<longleftrightarrow>
     fm_top_token m = decoded_text decode (fm_top_token_id m) \<and>
     (\<forall>e \<in> set (fm_top_k m). te_token e = decoded_text decode (te_token_id e) \<and> (te_token_id e \<noteq> 0 \<or> \<not> f32_is_zero (te_logit e))) \<and>
     (fm_top_token_id m \<noteq> 0 \<or> \<not> f32_is_zero (fm_c_score m) \<or> fm_top_k m \<noteq> [])"

lemma stored_canonical:
  assumes "canonical decode m" and "length (fm_top_k m) \<le> k"
  shows "stored_meta decode k (Some m) = Some m"
proof -
  have f: "filter (\<lambda>e. te_token_id e \<noteq> 0 \<or> \<not> f32_is_zero (te_logit e)) (fm_top_k m) = fm_top_k m"
    using assms(1) by (simp add: canonical_def filter_id_conv)
  have "map (\<lambda>e. e\<lparr>te_token := decoded_text decode (te_token_id e)\<rparr>) (fm_top_k m) = fm_top_k m"
    by (rule map_idI) (use assms(1) in \<open>auto simp: canonical_def\<close>)
  then have "stored_top_k decode k (fm_top_k m) = fm_top_k m" using assms(2) f by (simp add: stored_top_k_def)
  then show ?thesis using assms(1) by (auto simp: stored_meta_def canonical_def)
qed

lemma heap_meta_mem:
  assumes "heap_meta ls layer f = Some m"
  obtains ms where "Some ms \<in> set ls" and "Some m \<in> set ms"
proof (cases "layer < length ls")
  case True
  with assms obtain ms where ms: "ls ! layer = Some ms" by (auto simp: heap_meta_def split: option.splits)
  with assms True have f: "f < length ms" "ms ! f = Some m" by (simp_all add: heap_meta_def split: if_splits)
  show ?thesis by (rule that [of ms]) (use True ms f nth_mem in force)+
qed (use assms in \<open>simp add: heap_meta_def\<close>)

lemma within_max_top_k:
  assumes "heap_meta ls layer f = Some m"
  shows "length (fm_top_k m) \<le> max_top_k ls"
proof -
  let ?metas = "\<lambda>m. case m of Some f \<Rightarrow> [length (fm_top_k f)] | None \<Rightarrow> []"
  let ?layer = "\<lambda>l. case l of Some ms \<Rightarrow> concat (map ?metas ms) | None \<Rightarrow> []"
  define sizes where "sizes = concat (map ?layer ls)"
  from assms obtain ms where ms: "Some ms \<in> set ls" "Some m \<in> set ms" by (rule heap_meta_mem)
  have "length (fm_top_k m) \<in> set (?metas (Some m))" by simp
  with ms(2) have "length (fm_top_k m) \<in> set (?layer (Some ms))" by (auto intro!: bexI [of _ "Some m"])
  then have "length (fm_top_k m) \<in> set sizes" using ms(1) by (auto simp: sizes_def intro!: bexI [of _ "Some ms"])
  then have "sizes \<noteq> []" "length (fm_top_k m) \<le> Max (set sizes)" by auto
  then show ?thesis by (simp add: max_top_k_def Let_def flip: sizes_def)
qed

lemma materialized_length: "length (materialize_down_meta ix) = bi_num_layers ix"
  by (simp add: materialize_down_meta_def)

lemma mmap_beyond:
  "length (dm_layer_offsets dm) = length (dm_layer_num_features dm) \<Longrightarrow>
     f < mmap_num_features dm layer \<or> mmap_feature_meta decode dm layer f = None"
  by (simp add: mmap_num_features_def mmap_feature_meta_def Let_def)

lemma saved_reload:
  assumes "bi_num_layers ix < 2 ^ 32" and "max_top_k (materialize_down_meta ix) < 2 ^ 32"
    and "\<forall>metas. Some metas \<in> set (materialize_down_meta ix) \<longrightarrow> length metas < 2 ^ 32"
    and "\<forall>dm. bi_down_mmap ix = Some dm \<longrightarrow> length (dm_layer_offsets dm) = length (dm_layer_num_features dm)"
  shows "\<exists>ls. read_binary decode (fst (save_down_meta ix)) = Inr (ls, records_held ls) \<and>
     (\<forall>layer f. layer < bi_num_layers ix \<longrightarrow>
        heap_meta ls layer f = stored_meta decode (max_top_k (materialize_down_meta ix)) (index_feature_meta ix layer f)) \<and>
     (\<forall>layer f m. layer < bi_num_layers ix \<longrightarrow> index_feature_meta ix layer f = Some m \<longrightarrow> canonical decode m \<longrightarrow>
        heap_meta ls layer f = Some m)"
proof -
  let ?ms = "materialize_down_meta ix" and ?k = "max_top_k (materialize_down_meta ix)"
  have v: "heap_meta ?ms layer f = index_feature_meta ix layer f" if "layer < bi_num_layers ix" for layer f
    by (rule materialize_view [OF that], intro allI impI, rule mmap_beyond) (rule assms(4) [rule_format])
  have "read_binary decode (fst (write_binary ?ms ?k)) = Inr (map (stored_layer decode ?k) ?ms, records_held (map (stored_layer decode ?k) ?ms))"
    by (rule read_written) (use assms(1-3) in \<open>simp_all add: materialized_length\<close>)
  moreover have s: "heap_meta (map (stored_layer decode ?k) ?ms) layer f = stored_meta decode ?k (index_feature_meta ix layer f)"
    if "layer < bi_num_layers ix" for layer f
    by (simp add: heap_meta_stored v [OF that])
  moreover have "heap_meta (map (stored_layer decode ?k) ?ms) layer f = Some m"
    if "layer < bi_num_layers ix" "index_feature_meta ix layer f = Some m" "canonical decode m" for layer f m
    unfolding s [OF that(1)] that(2) by (rule stored_canonical [OF that(3)], rule within_max_top_k [of _ layer f]) (simp add: v [OF that(1)] that(2))
  ultimately show ?thesis unfolding save_down_meta_def Let_def by blast
qed

text \<open>The text of an inserted fact is not a token's: after saving it is that of token zero.\<close>

lemma inserted_text_lost:
  "stored_meta decode k (Some (inserted_meta target)) = Some (inserted_meta target\<lparr>fm_top_token := decoded_text decode 0\<rparr>)"
  by (simp add: stored_meta_def inserted_meta_def stored_top_k_def default_c_score_def f32_is_zero_def f32_magnitude_def)

text \<open>The vectors of a removed patch stay on the base.\<close>

lemma removed_vectors_stay:
  assumes "decoded (Some b64) = Some v"
    and "vp_operations patch = [OpInsert l f relation entity target confidence None None (Some b64) down_meta]"
  shows "bi_down_overrides (pv_base (remove_patch lower 0 (apply_patch lower (new_patched base) patch))) (l, f) = Some v"
proof -
  have p: "pv_patches (apply_patch lower (new_patched base) patch) = [patch]" by (simp add: apply_patch_parts new_patched_def)
  have "pv_base (remove_patch lower 0 (apply_patch lower (new_patched base) patch)) = pv_base (apply_patch lower (new_patched base) patch)"
    by (simp add: remove_patch_def rebuild_overrides_def p invalidate_gate_cache_def)
  also have "bi_down_overrides \<dots> (l, f) = Some v"
    using assms by (simp add: apply_patch_def apply_op_def apply_vectors_def with_vector_decoded new_patched_def
        set_down_vector_def index_set_down_vector_def decoded_def split: option.splits sum.splits)
  finally show ?thesis .
qed

lemma vectors_keep:
  "dom (bi_down_overrides (pv_base pv)) \<subseteq> dom (bi_down_overrides (pv_base (fst (apply_vectors layer f gate up down (pv, touched))))) \<and>
   dom (bi_up_overrides (pv_base pv)) \<subseteq> dom (bi_up_overrides (pv_base (fst (apply_vectors layer f gate up down (pv, touched)))))"
  unfolding apply_vectors_def with_vector_decoded
  by (cases "decoded gate"; cases "decoded up"; cases "decoded down")
    (auto simp: set_down_vector_def set_up_vector_def index_set_down_vector_def index_set_up_vector_def)

lemma op_keeps_vectors:
  "dom (bi_down_overrides (pv_base pv)) \<subseteq> dom (bi_down_overrides (pv_base (fst (apply_op lower (pv, touched) op)))) \<and>
   dom (bi_up_overrides (pv_base pv)) \<subseteq> dom (bi_up_overrides (pv_base (fst (apply_op lower (pv, touched) op))))"
proof (cases op)
  case (OpInsert layer f relation entity target confidence gate up down down_meta)
  let ?pv = "pv\<lparr>pv_overrides_meta := (pv_overrides_meta pv)((layer, f) \<mapsto> Some (insert_meta target confidence down_meta)),
    pv_deleted := pv_deleted pv - {(layer, f)}\<rparr>"
  show ?thesis using vectors_keep [of ?pv layer f gate up down touched] by (simp add: apply_op_def OpInsert)
next
  case (OpUpdate layer f gate up down down_meta)
  let ?pv = "case down_meta of
    Some dm \<Rightarrow> pv\<lparr>pv_overrides_meta := (pv_overrides_meta pv)((layer, f) \<mapsto> Some (meta_of_down dm))\<rparr> | None \<Rightarrow> pv"
  have "pv_base ?pv = pv_base pv" by (simp split: option.split)
  then show ?thesis using vectors_keep [of ?pv layer f gate up down touched] by (simp add: apply_op_def OpUpdate)
qed (auto simp: apply_op_def split: sum.split)

lemma ops_keep_vectors:
  "dom (bi_down_overrides (pv_base (fst s))) \<subseteq> dom (bi_down_overrides (pv_base (fst (foldl (apply_op lower) s ops)))) \<and>
   dom (bi_up_overrides (pv_base (fst s))) \<subseteq> dom (bi_up_overrides (pv_base (fst (foldl (apply_op lower) s ops))))"
proof (induction ops arbitrary: s)
  case (Cons op ops)
  show ?case using Cons.IH [of "apply_op lower s op"] op_keeps_vectors [of "fst s" lower "snd s" op]
    by (cases s) (simp only: foldl_Cons fst_conv snd_conv, meson subset_trans)
qed simp

lemma patches_keep_vectors:
  "dom (bi_down_overrides (pv_base pv)) \<subseteq> dom (bi_down_overrides (pv_base (foldl (apply_patch lower) pv patches))) \<and>
   dom (bi_up_overrides (pv_base pv)) \<subseteq> dom (bi_up_overrides (pv_base (foldl (apply_patch lower) pv patches)))"
proof (induction patches arbitrary: pv)
  case (Cons patch patches)
  have "pv_base (apply_patch lower pv patch) = pv_base (fst (foldl (apply_op lower) (pv, {}) (vp_operations patch)))"
    by (simp add: apply_patch_def split: prod.split)
  then show ?case
    using Cons.IH [of "apply_patch lower pv patch"] ops_keep_vectors [of "(pv, {})" lower "vp_operations patch"]
    by (simp only: foldl_Cons fst_conv, meson subset_trans)
qed simp

section \<open>The properties\<close>

definition demo_meta :: "string \<Rightarrow> feature_meta" where
  "demo_meta t = \<lparr>fm_top_token = t, fm_top_token_id = 5, fm_c_score = 0x3F000000, fm_top_k = []\<rparr>"

text \<open>One layer of three features with the gate vectors \<open>1\<close>, \<open>2\<close> and \<open>-3\<close>.\<close>

definition demo_base :: base_index where
  "demo_base = new_index [Some \<lparr>gm_cols = 1, gm_rows = [[0x3F800000], [0x40000000], [0xC0400000]]\<rparr>]
     [Some [Some (demo_meta []), None, Some (demo_meta ''c'')]] 1 1"

definition demo_gemv :: gemv where
  "demo_gemv m v = map (\<lambda>r. if r = [] then 0 else hd r) m"

definition demo_patch :: vindex_patch where
  "demo_patch = \<lparr>vp_version = 1, vp_base_model = ''m'', vp_base_checksum = None, vp_created_at = [], vp_description = None,
     vp_author = None, vp_tags = [], vp_operations = [OpDelete 0 2 None, OpInsert 0 1 None ''e'' ''t'' None None None None None]\<rparr>"

text \<open>
  C26. Applying patches in order refines an abstract overlay: the metadata the patched index shows are the fold of
  the operations, in order, over the metadata of the base, the overridden gate vectors are the fold of their
  effects over no override, and the applied patches are recorded in that order. An insertion whose gate vector
  does not decode changes the metadata only.
\<close>

theorem patches_refine_overlay:
  "meta_view (foldl (apply_patch lower) (new_patched base) ps) =
     foldl (\<lambda>view op. view_effect op view) (\<lambda>(layer, f). index_feature_meta base layer f) (concat (map vp_operations ps)) \<and>
   pv_overrides_gate (foldl (apply_patch lower) (new_patched base) ps) =
     foldl (\<lambda>gates op. gates_effect op gates) Map.empty (concat (map vp_operations ps)) \<and>
   pv_patches (foldl (apply_patch lower) (new_patched base) ps) = ps"
proof -
  let ?pv = "foldl (apply_patch lower) (new_patched base) ps"
  have n: "overlay (new_patched base) = (Map.empty, Map.empty, {}, knn_default)" "pv_patches (new_patched base) = []"
    "meta_view (new_patched base) = (\<lambda>(layer, f). index_feature_meta base layer f)"
    by (simp_all add: overlay_def new_patched_def meta_view_def feature_meta_of_def)
  have "pv_overrides_gate ?pv = fst (snd (overlay ?pv))" by (simp add: overlay_def)
  then show ?thesis by (simp add: apply_patches_view apply_patches_overlay fold_overlay_gates n)
qed

text \<open>
  C29. Removing a patch leaves exactly what the remaining patches make, in their order, of the base as it is: overridden
  metadata and gate vectors, tombstones and retrieval store of the removed patch are gone, and so are the edits that were
  made without a patch. When the overlay was made by patches alone, this is the overlay and the metadata of the base the
  removed patch never touched. But the up and down vectors it wrote into the base stay: no slot loses its vector.
\<close>

theorem patch_removal:
  assumes "i < length (pv_patches pv)" and "rest = take i (pv_patches pv) @ drop (i + 1) (pv_patches pv)"
  shows "remove_patch lower i pv = foldl (apply_patch lower) (new_patched (pv_base pv)) rest \<and>
     (\<forall>base. pv = foldl (apply_patch lower) (new_patched base) (pv_patches pv) \<longrightarrow>
        overlay (remove_patch lower i pv) = overlay (foldl (apply_patch lower) (new_patched base) rest) \<and>
        meta_view (remove_patch lower i pv) = meta_view (foldl (apply_patch lower) (new_patched base) rest)) \<and>
     dom (bi_down_overrides (pv_base pv)) \<subseteq> dom (bi_down_overrides (pv_base (remove_patch lower i pv))) \<and>
     dom (bi_up_overrides (pv_base pv)) \<subseteq> dom (bi_up_overrides (pv_base (remove_patch lower i pv)))"
proof -
  have r: "remove_patch lower i pv = foldl (apply_patch lower) (new_patched (pv_base pv)) rest"
    using assms by (cases pv) (simp add: remove_patch_def rebuild_overrides_def invalidate_gate_cache_def new_patched_def)
  have "overlay (remove_patch lower i pv) = overlay (foldl (apply_patch lower) (new_patched base) rest) \<and>
      meta_view (remove_patch lower i pv) = meta_view (foldl (apply_patch lower) (new_patched base) rest)"
    if "pv = foldl (apply_patch lower) (new_patched base) (pv_patches pv)" for base
    using removed_as_never_applied [OF assms(1), of lower base] unfolding that [symmetric] assms(2) by simp
  then show ?thesis using patches_keep_vectors [of "new_patched (pv_base pv)" lower rest] by (simp add: r new_patched_def)
qed

lemma patch_removal_witness:
  "feature_meta_of (apply_patch id (new_patched demo_base) demo_patch) 0 2 = None \<and>
   feature_meta_of (remove_patch id 0 (apply_patch id (new_patched demo_base) demo_patch)) 0 2 = Some (demo_meta ''c'')"
proof -
  have "meta_view (remove_patch id 0 (apply_patch id (new_patched demo_base) demo_patch)) (0, 2) = meta_view (new_patched demo_base) (0, 2)"
    using patch_removal [of 0 "apply_patch id (new_patched demo_base) demo_patch" _ id, OF _ refl]
    by (simp add: apply_patch_parts new_patched_def meta_view_def feature_meta_of_def)
  moreover have "meta_view (apply_patch id (new_patched demo_base) demo_patch) (0, 2) = None"
    by (simp add: apply_patch_view demo_patch_def view_effect_def)
  ultimately show ?thesis
    by (simp add: meta_view_def feature_meta_of_def new_patched_def index_feature_meta_def heap_meta_def demo_base_def new_index_def)
qed

text \<open>
  C27. The cache of flattened gate vectors cannot be seen: in every overlay the operations reach, in any order
  and with queries between them, a query answers what it would answer with an empty cache, in some order in which
  the hash map can give the overridden features of the layer. A query whose result is a panic panics either way.
\<close>

theorem gate_cache_transparent:
  assumes "patched_reachable pv" and "iteration_order pv layer order"
  shows "\<exists>order'. iteration_order pv layer order' \<and>
     map_option fst (gate_knn gemv order pv layer residual k) =
     map_option fst (gate_knn gemv order' (invalidate_gate_cache pv) layer residual k)"
  using gate_knn_uncached [OF patched_reachable_cache [OF assms(1)] assms(2)] .

lemma inserted_order: "iteration_order (insert_feature layer f v m (new_patched base)) layer [f]"
  by (auto simp: iteration_order_def insert_feature_def invalidate_gate_cache_layer_def new_patched_def)

lemma gate_cache_transparent_witness:
  "\<exists>order'. iteration_order (insert_feature 0 1 [0x3F800000] (demo_meta ''x'') (new_patched demo_base)) 0 order' \<and>
     map_option fst (gate_knn demo_gemv [1] (insert_feature 0 1 [0x3F800000] (demo_meta ''x'') (new_patched demo_base)) 0 [] 2) =
     map_option fst (gate_knn demo_gemv order'
       (invalidate_gate_cache (insert_feature 0 1 [0x3F800000] (demo_meta ''x'') (new_patched demo_base))) 0 [] 2)"
  by (rule gate_cache_transparent) (simp_all add: patched_reachable.intros inserted_order)

text \<open>
  C28. A query on a patched layer returns the best features of the patched layer, best first: when no score is a
  NaN, no overriding vector is empty, and at most as many features of the layer are overridden or deleted as hits
  are asked for, the twofold oversampling of the base is enough, and the hits are the features with the largest
  magnitudes among the features that are not deleted, scored by their overriding vector where they have one.
  The base has to score the layer without a panic, and the matrix product to give one score per row.
\<close>

theorem patched_query_best:
  assumes "patched_reachable pv" and "iteration_order pv layer order" and "gemv_rows gemv"
    and "layer_scores gemv (pv_base pv) layer residual \<noteq> None"
    and "length (base_scores gemv (pv_base pv) layer residual) < 2 ^ 64"
    and "\<forall>s \<in> set (base_scores gemv (pv_base pv) layer residual). \<not> f32_is_nan s"
    and "\<forall>f \<in> overridden pv layer. \<not> f32_is_nan (f32_dot (gate_at pv layer f) residual)"
    and "\<forall>f v. pv_overrides_gate pv (layer, f) = Some v \<longrightarrow> v \<noteq> []"
    and "finite (tombstones pv layer)" and "card (overridden pv layer \<union> tombstones pv layer) \<le> k"
  shows "\<exists>hits pv'. gate_knn gemv order pv layer residual k = Some (hits, pv') \<and>
     is_top_k k (live_features gemv pv layer residual) (patched_score gemv pv layer residual) hits"
  using gate_knn_best [OF patched_reachable_cache [OF assms(1)] assms(2-)] .

lemma demo_rows: "gemv_rows demo_gemv"
  by (simp add: gemv_rows_def demo_gemv_def)

lemma demo_scores: "layer_scores demo_gemv demo_base 0 [0] = Some [0x3F800000, 0x40000000, 0xC0400000]"
  by (simp add: layer_scores_def gate_view_def rows_of_def gate_for_scores_def mapped_gate_def gate_layer_view_def
      gate_vectors_at_def nth_layer_def demo_base_def new_index_def demo_gemv_def upt_rec)

lemma patched_query_best_witness:
  "\<exists>hits pv'. gate_knn demo_gemv [] (delete_feature 0 2 (new_patched demo_base)) 0 [0] 1 = Some (hits, pv') \<and>
     is_top_k 1 {0, 1} (patched_score demo_gemv (delete_feature 0 2 (new_patched demo_base)) 0 [0]) hits"
proof -
  let ?pv = "delete_feature 0 2 (new_patched demo_base)"
  have p: "pv_base ?pv = demo_base" "pv_overrides_gate ?pv = Map.empty" "pv_deleted ?pv = {(0, 2)}"
    by (simp_all add: delete_feature_def invalidate_gate_cache_layer_def new_patched_def fun_eq_iff)
  have o: "overridden ?pv 0 = {}" "tombstones ?pv 0 = {2}" "iteration_order ?pv 0 []"
    by (simp_all add: overridden_def tombstones_def iteration_order_def p)
  have l: "live_features demo_gemv ?pv 0 [0] = {0, 1}" by (auto simp: live_features_def o p base_scores_def demo_scores)
  have "\<exists>hits pv'. gate_knn demo_gemv [] ?pv 0 [0] 1 = Some (hits, pv') \<and>
      is_top_k 1 (live_features demo_gemv ?pv 0 [0]) (patched_score demo_gemv ?pv 0 [0]) hits"
    by (rule patched_query_best)
      (simp_all add: patched_reachable.intros o p demo_rows base_scores_def demo_scores f32_is_nan_def f32_magnitude_def)
  then show ?thesis by (simp only: l)
qed

text \<open>
  The selection of the \<open>k\<close> scores with the largest magnitudes panics exactly when at least two are asked
  for of at least two scores and one of the first \<open>k\<close> scores is a NaN. Without a NaN it gives that many
  distinct positions with their scores, the largest magnitude first, and no score left out has a larger
  magnitude than one selected.
\<close>

theorem top_k_selection:
  "(top_k_by_abs scores k = None \<longleftrightarrow> 2 \<le> k \<and> 2 \<le> length scores \<and> (\<exists>s \<in> set (take k scores). f32_is_nan s)) \<and>
   ((\<forall>s \<in> set scores. \<not> f32_is_nan s) \<longrightarrow>
     (\<exists>hits. top_k_by_abs scores k = Some hits \<and> is_top_k k {..<length scores} ((!) scores) hits))"
  using top_k_panics_iff top_k_selects by blast

lemma top_k_selection_witness:
  "\<exists>hits. top_k_by_abs [0x3F800000, 0xC0400000, 0x40000000] 2 = Some hits \<and>
     is_top_k 2 {..<3} ((!) [0x3F800000, 0xC0400000, 0x40000000]) hits"
proof -
  have "\<forall>s \<in> set [0x3F800000, 0xC0400000, 0x40000000]. \<not> f32_is_nan s" by (simp add: f32_is_nan_def f32_magnitude_def)
  from top_k_selection [of "[0x3F800000, 0xC0400000, 0x40000000]" 2, THEN conjunct2, THEN mp, OF this]
  have "\<exists>hits. top_k_by_abs [0x3F800000, 0xC0400000, 0x40000000] 2 = Some hits \<and>
     is_top_k 2 {..<length [0x3F800000, 0xC0400000, 0x40000000 :: f32]} ((!) [0x3F800000, 0xC0400000, 0x40000000]) hits" by blast
  moreover have "length [0x3F800000, 0xC0400000, 0x40000000 :: f32] = 3" by simp
  ultimately show ?thesis by (simp only:)
qed

text \<open>
  C31. The two readers of a metadata file accept the same files, and the lazy reader gives, for every layer and
  feature, the record that the eager reader has there, except that it gives nothing for a record whose token and
  score are zero, which the eager reader keeps when it lists further tokens.
\<close>

theorem metadata_readers:
  assumes "length b < 2 ^ 64"
  shows "((\<exists>dm. mmap_binary b = Inr dm) \<longleftrightarrow> (\<exists>r. read_binary decode b = Inr r)) \<and>
     (\<forall>dm. mmap_binary b = Inr dm \<longrightarrow>
       (\<exists>ls. read_binary decode b = Inr (ls, records_held ls) \<and> length ls = length (dm_layer_num_features dm) \<and>
         (\<forall>layer feature. mmap_feature_meta decode dm layer feature = lazily (heap_meta ls layer feature))))"
  using readers_fail_together [OF assms] readers_agree by blast

lemma written_small: "length (fst (write_binary [Some [Some (demo_meta [])]] 0)) < 2 ^ 64"
  by (simp add: write_binary_def layer_bytes_def record_bytes_def pair_bytes_def f32_bytes_def)

lemma metadata_readers_witness:
  "\<exists>dm. mmap_binary (fst (write_binary [Some [Some (demo_meta [])]] 0)) = Inr dm \<and>
     mmap_feature_meta (\<lambda>_. Some []) dm 0 0 = Some (demo_meta [])"
proof -
  let ?b = "fst (write_binary [Some [Some (demo_meta [])]] 0)" and ?decode = "\<lambda>_. Some [] :: string option"
  have t: "decoded_text ?decode 5 = []" by (simp add: decoded_text_def)
  have "read_binary ?decode ?b = Inr ([Some [Some (demo_meta [])]], records_held [Some [Some (demo_meta [])]])"
    using read_written [of "[Some [Some (demo_meta [])]]" 0 ?decode]
    by (simp add: stored_meta_def stored_top_k_def demo_meta_def t)
  moreover from this metadata_readers [OF written_small, of ?decode] obtain dm where
    "mmap_binary ?b = Inr dm" by blast
  ultimately have "mmap_binary ?b = Inr dm \<and> mmap_feature_meta ?decode dm 0 0 = lazily (heap_meta [Some [Some (demo_meta [])]] 0 0)"
    using metadata_readers [OF written_small, of ?decode, THEN conjunct2] by fastforce
  moreover have "lazily (heap_meta [Some [Some (demo_meta [])]] 0 0) = Some (demo_meta [])"
    by (simp add: lazily_def heap_meta_def demo_meta_def)
  ultimately show ?thesis by auto
qed

text \<open>
  C30. The metadata saved from an index are read back: the file has a record for every feature any part of the
  index knows of, and for every layer and feature the loaded lists have the record the index shows as the file
  holds it, with the texts decoded from the token numbers and the empty entries dropped; a record whose texts are
  those of its tokens and that has no empty entry comes back unchanged.
\<close>

theorem metadata_saved:
  assumes "bi_num_layers ix < 2 ^ 32" and "max_top_k (materialize_down_meta ix) < 2 ^ 32"
    and "\<forall>metas. Some metas \<in> set (materialize_down_meta ix) \<longrightarrow> length metas < 2 ^ 32"
    and "\<forall>dm. bi_down_mmap ix = Some dm \<longrightarrow> length (dm_layer_offsets dm) = length (dm_layer_num_features dm)"
  shows "\<exists>ls. read_binary decode (fst (save_down_meta ix)) = Inr (ls, records_held ls) \<and>
     (\<forall>layer f. layer < bi_num_layers ix \<longrightarrow>
        heap_meta ls layer f = stored_meta decode (max_top_k (materialize_down_meta ix)) (index_feature_meta ix layer f)) \<and>
     (\<forall>layer f m. layer < bi_num_layers ix \<longrightarrow> index_feature_meta ix layer f = Some m \<longrightarrow> canonical decode m \<longrightarrow>
        heap_meta ls layer f = Some m)"
  by (rule saved_reload) (use assms in blast)+

lemma demo_materialized: "materialize_down_meta demo_base = [Some [Some (demo_meta []), None, Some (demo_meta ''c'')]]"
  by (simp add: materialize_down_meta_def demo_base_def new_index_def down_meta_at_def nth_layer_def index_num_features_def
      stored_features_def gate_vectors_at_def index_feature_meta_def heap_meta_def upt_rec numeral_3_eq_3)

lemma metadata_saved_witness:
  "\<exists>ls. read_binary (\<lambda>_. Some []) (fst (save_down_meta demo_base)) = Inr (ls, records_held ls) \<and>
     heap_meta ls 0 0 = Some (demo_meta [])"
proof -
  have k: "max_top_k (materialize_down_meta demo_base) < 2 ^ 32"
    by (simp add: demo_materialized max_top_k_def demo_meta_def)
  have "index_feature_meta demo_base 0 0 = Some (demo_meta [])" "canonical (\<lambda>_. Some []) (demo_meta [])"
    by (simp_all add: index_feature_meta_def heap_meta_def demo_base_def new_index_def canonical_def demo_meta_def
        decoded_text_def)
  moreover have "bi_num_layers demo_base = 1" "bi_down_mmap demo_base = None" by (simp_all add: demo_base_def new_index_def)
  ultimately show ?thesis using metadata_saved [OF _ k, of "\<lambda>_. Some []"] by (fastforce simp: demo_materialized)
qed

text \<open>
  C32. The index a Vindexfile builds shows the metadata of the overlay its directives describe: the first
  \<open>FROM\<close> of the chosen stage gives the base, the directives are applied in order, and for every layer whose metadata
  baking can copy (on the heap, or mapped without records beyond the features) and every feature the built index, baked
  or not, gives the metadata the patched base gives; except for a feature that is marked as deleted, for which it gives
  none. The overlay gives none for these either, when no patch gives metadata to a feature by an update; otherwise an
  update after a deletion is lost.
\<close>

theorem build_shows_overlay:
  assumes "build_from_vindexfile sr lower vf stage = Inr (ix, log)"
  shows "\<exists>ds path resolved n base pv. chosen_directives vf stage = Inr ds \<and> find is_from ds = Some (VfFrom path) \<and>
     resolve_vindexfile_path sr path = Inr resolved \<and> sr_load_base sr resolved = Some (n, base) \<and>
     apply_directives sr lower n ds (new_patched base, [\<lparr>bl_directive = VfFrom path, bl_features_modified = 0\<rparr>]) = Inr (pv, log) \<and>
     (\<forall>layer f. layer < bi_num_layers base \<longrightarrow> copied_meta base layer \<longrightarrow>
        index_feature_meta ix layer f = (if (layer, f) \<in> pv_deleted pv then None else feature_meta_of pv layer f)) \<and>
     (strict_patches sr \<longrightarrow> (\<forall>(layer, f) \<in> pv_deleted pv. feature_meta_of pv layer f = None))"
  by (rule build_view [OF assms])

definition demo_surroundings :: surroundings where
  "demo_surroundings = \<lparr>sr_resolve_hf = (\<lambda>_. None), sr_exists = (\<lambda>_. True), sr_load_base = (\<lambda>_. Some (1, demo_base)),
     sr_load_patch = (\<lambda>_. Some demo_patch)\<rparr>"

definition demo_vindexfile :: vindexfile where
  "demo_vindexfile = \<lparr>vf_directives = [VfFrom ''b'', VfPatch ''p''], vf_stages = []\<rparr>"

lemma build_shows_overlay_witness:
  "\<exists>ix log. build_from_vindexfile demo_surroundings id demo_vindexfile None = Inr (ix, log) \<and>
     index_feature_meta ix 0 2 = None \<and> index_feature_meta ix 0 1 = Some (insert_meta ''t'' None None)"
proof -
  let ?sr = demo_surroundings
  let ?log = "[\<lparr>bl_directive = VfFrom ''b'', bl_features_modified = 0\<rparr>]"
  have r: "resolve_vindexfile_path ?sr ''b'' = Inr ''b''" "resolve_vindexfile_path ?sr ''p'' = Inr ''p''"
    by (simp_all add: resolve_vindexfile_path_def demo_surroundings_def starts_with_def)
  have c: "chosen_directives demo_vindexfile None = Inr [VfFrom ''b'', VfPatch ''p'']"
    by (simp add: chosen_directives_def demo_vindexfile_def)
  have l: "sr_load_base ?sr q = Some (1, demo_base)" "sr_load_patch ?sr q = Some demo_patch" for q
    by (simp_all add: demo_surroundings_def)
  have a: "apply_directives ?sr id 1 [VfFrom ''b'', VfPatch ''p''] (new_patched demo_base, ?log) =
      Inr (apply_patch id (new_patched demo_base) demo_patch, ?log @ [\<lparr>bl_directive = VfPatch ''p'', bl_features_modified = patch_len demo_patch\<rparr>])"
    by (simp add: apply_directive_def r l)
  then obtain ix log where b: "build_from_vindexfile ?sr id demo_vindexfile None = Inr (ix, log)"
    by (simp add: build_from_vindexfile_def c r l is_from_def del: apply_directives.simps)
  have k: "copied_meta demo_base 0" by (simp add: copied_meta_def) (simp add: demo_base_def new_index_def)
  have n: "bi_num_layers demo_base = 1" by (simp add: demo_base_def new_index_def)
  have d: "pv_deleted (apply_patch id (new_patched demo_base) demo_patch) = {(0, 2)}"
    by (simp add: apply_patch_def demo_patch_def apply_op_def apply_vectors_def with_vector_def new_patched_def)
  have v: "index_feature_meta ix 0 f = (if f = 2 then None else feature_meta_of (apply_patch id (new_patched demo_base) demo_patch) 0 f)" for f
    using build_shows_overlay [OF b] a k by (auto simp: c r l n d is_from_def simp del: apply_directives.simps)
  have "meta_view (apply_patch id (new_patched demo_base) demo_patch) (0, 2) = None"
    "meta_view (apply_patch id (new_patched demo_base) demo_patch) (0, 1) = Some (insert_meta ''t'' None None)"
    by (simp_all add: apply_patch_view demo_patch_def view_effect_def)
  with b v show ?thesis by (simp add: meta_view_def)
qed

text \<open>
  C33. The answer of the retrieval store depends on its entries only: whatever additions, removals, copies and
  queries a store went through, a query gives the entries of the layer ranked by the product of the matrix of
  their keys with the normalised residual, as if the matrix were built for this query, and it panics exactly when
  that would. A query leaves the entries as they are. The queries before are those that did not panic: a panic leaves
  the mutex of the matrices poisoned.
\<close>

theorem knn_query_current:
  assumes "knn_reachable ks"
  shows "map_option fst (query_knn gemv layer residual k ks) = knn_answer gemv (ks_entries ks) layer residual k \<and>
     (\<forall>hits ks'. query_knn gemv layer residual k ks = Some (hits, ks') \<longrightarrow> ks_entries ks' = ks_entries ks)"
  using query_answers [OF knn_reachable_ok [OF assms]] by blast

lemma knn_query_current_witness:
  "map_option fst (query_knn (\<lambda>m _. map hd m) 3 [0x3F800000] 1 (knn_add 3 [0] 7 ''t'' ''e'' ''r'' 0 knn_default)) =
     Some [(\<lparr>ke_key = l2_normalize [0], ke_target_id = 7, ke_target_token = ''t'', ke_entity = ''e'', ke_relation = ''r'', ke_confidence = 0\<rparr>,
       hd (l2_normalize [0]))]"
proof -
  have n: "length (l2_normalize [x]) = 1" for x by (simp add: l2_normalize_def Let_def)
  have r: "knn_reachable (knn_add 3 [0] 7 ''t'' ''e'' ''r'' 0 knn_default)" by (intro knn_reachable.intros)
  show ?thesis unfolding knn_query_current [OF r, THEN conjunct1]
    by (simp add: knn_answer_def knn_add_def knn_default_def entry_push_def key_matrix_def cosine_scores_def ranked_def sort_by_def n)
qed

text \<open>
  C34. A retrieval store written to a file is read back with the same layers, targets and metadata, and with its keys
  cut to half precision, if its keys have one length and JSON keeps the metadata; written again, it gives the same file.
\<close>

theorem knn_file:
  assumes "\<forall>l \<in> set layers. layer_fits (knn_dim layers) l" "distinct (map fst layers)"
    and "length layers < 2 ^ 32" "knn_dim layers < 2 ^ 32"
    and "\<forall>l \<in> set layers. \<forall>e \<in> set (snd l). meta_kept render parse str_field f64_field e"
  shows "load_knn parse str_field f64_field (save_knn render layers) =
      Inr (from_entries (map_of (map (\<lambda>(layer, es). (layer, map half_key es)) layers))) \<and>
    save_knn render (map (\<lambda>(layer, es). (layer, map half_key es)) layers) = save_knn render layers"
  using load_saved [OF assms(1,5,2-4)] save_half by blast

lemma knn_file_witness:
  "\<exists>e. load_knn Some (\<lambda>v k. Some ''x'') (\<lambda>_ _. Some 0) (save_knn (\<lambda>t e r c. t) [(5, [e])]) = Inr (from_entries [5 \<mapsto> [half_key e]]) \<and>
     ke_key e = [0x3F800001]"
proof -
  let ?e = "\<lparr>ke_key = [0x3F800001], ke_target_id = 7, ke_target_token = ''x'', ke_entity = ''x'', ke_relation = ''x'', ke_confidence = 0\<rparr>"
  have "f32_of_f64 0 = 0"
    by (simp add: f32_of_f64_def f64_ratio_def f64_magnitude_def f64_negative_def f32_with_sign_def f32_of_ratio_def float_bits_def Let_def)
  then show ?thesis
    using knn_file [of "[(5, [?e])]" "\<lambda>t e r c. t" Some "\<lambda>v k. Some ''x''" "\<lambda>_ _. Some 0"]
    by (intro exI [of _ ?e]) (simp add: layer_fits_def knn_dim_def meta_kept_def)
qed

text \<open>
  A vector of single-precision floats encoded in a patch is decoded to the same bits, and a vector stored in
  half precision is read as its entries narrowed and widened again.
\<close>

theorem vector_roundtrips:
  "decode_gate_vector (encode_gate_vector v) = Inr v \<and>
   decode_floats (encode_floats v DtypeF32) DtypeF32 = v \<and>
   decode_floats (encode_floats v DtypeF16) DtypeF16 = map (\<lambda>x. f16_to_f32 (f32_to_f16 x)) v"
  using f32s_of_bytes_concat [of v]
  by (simp add: gate_vector_roundtrip decode_encode_f16 decode_floats_def encode_floats_def)

text \<open>
  Widening a half float is exact: the single-precision float has the same sign and the same value, as a
  ratio, and is neither a NaN nor infinite; and narrowing it gives the half float again, except that a subnormal
  becomes a zero of its sign.
\<close>

theorem half_widening:
  assumes "f16_exp b \<noteq> 31"
  shows "fst (f32_ratio (f16_to_f32 b)) * snd (f16_ratio b) = fst (f16_ratio b) * snd (f32_ratio (f16_to_f32 b)) \<and>
     (f32_negative (f16_to_f32 b) \<longleftrightarrow> f16_sign b = 1) \<and> \<not> f32_is_nan (f16_to_f32 b) \<and> \<not> f32_is_infinite (f16_to_f32 b) \<and>
     f32_to_f16 (f16_to_f32 b) = (if f16_exp b = 0 then word_of_nat (f16_sign b * 2 ^ 15) else b)"
  using widen_value [OF assms] narrow_widen [of b] assms by simp

lemma half_widening_witness: "f32_to_f16 (f16_to_f32 0xBC00) = 0xBC00 \<and> f32_negative (f16_to_f32 0xBC00)"
  using half_widening [of "0xBC00"] by (simp add: f16_exp_def f16_sign_def)

end
