(* ===== verification/FfnWire.thy ===== *)
theory FfnWire
  imports VindexFormat Rust_FloatSum
begin

text \<open>
  The binary protocol of the remote feed-forward layers: requests and responses as the client encodes and decodes
  them (\<open>crates/larql-inference/src/ffn/remote/codec.rs\<close>), as the server does
  (\<open>crates/larql-server/src/routes/walk_ffn/binary.rs\<close>, \<open>types.rs\<close>), and the Q8K variant of both
  (\<open>q8k_wire.rs\<close>). A \<open>usize\<close> has 64 bits; \<open>n as u32\<close> before \<open>to_le_bytes\<close> keeps the low four
  bytes, as \<^const>\<open>le_bytes\<close> does. The half floats on the wire are those of the package \<open>half\<close>: \<open>narrow\<close>
  and \<open>widen\<close> stand for \<open>f16::from_f32\<close> and \<open>to_f32\<close> on bit patterns.
\<close>

section \<open>Requests\<close>

definition batch_marker :: nat where
  "batch_marker = 0xFFFFFFFF"

text \<open>The limit that the handlers of the server and of the router pass to \<open>axum::body::to_bytes\<close>, which fails above it.\<close>

definition body_limit :: nat where
  "body_limit = 64 * 1024 * 1024"

definition f32_block :: "f32 list \<Rightarrow> string" where
  "f32_block v = concat (map f32_bytes v)"

definition encode_binary_request ::
  "nat option \<Rightarrow> nat list option \<Rightarrow> f32 list \<Rightarrow> nat \<Rightarrow> bool \<Rightarrow> nat \<Rightarrow> string" where
  "encode_binary_request layer layers residual seq_len full_output top_k =
     (case layers of
        Some ls \<Rightarrow> le_bytes 4 batch_marker @ le_bytes 4 (length ls) @ concat (map (le_bytes 4) ls)
      | None \<Rightarrow> le_bytes 4 (case layer of Some l \<Rightarrow> l | None \<Rightarrow> 0)) @
     le_bytes 4 seq_len @ le_bytes 4 (if full_output then 1 else 0) @ le_bytes 4 top_k @ f32_block residual"

record ffn_request =
  rq_layer :: "nat option"
  rq_layers :: "nat list option"
  rq_residual :: "f32 list"
  rq_seq_len :: nat
  rq_top_k :: nat
  rq_full_output :: bool
  rq_moe_layer :: bool

datatype request_error =
    BodyTooShort
  | TruncatedNumLayers
  | TooShortForLayers nat
  | TruncatedFixedHeader
  | ResidualUnaligned

definition layers_at :: "string \<Rightarrow> nat \<Rightarrow> nat list" where
  "layers_at body n = map (\<lambda>i. u32_at body (8 + i * 4)) [0..<n]"

definition decode_binary_request :: "string \<Rightarrow> request_error + ffn_request" where
  "decode_binary_request body =
     (if length body < 16 then Inl BodyTooShort
      else let first = u32_at body 0 in
        res_bind
          (if first = batch_marker then
             if length body < 8 then Inl TruncatedNumLayers
             else let n = u32_at body 4; layers_end = 8 + n * 4 in
               if length body < layers_end then Inl (TooShortForLayers n)
               else Inr (None, Some (layers_at body n), layers_end)
           else Inr (Some first, None, 4))
          (\<lambda>(layer, layers, header_end).
             if length body < header_end + 12 then Inl TruncatedFixedHeader
             else let seq_len = u32_at body header_end; flags = u32_at body (header_end + 4);
                      top_k = u32_at body (header_end + 8); residual_bytes = drop (header_end + 12) body in
               if length residual_bytes mod 4 \<noteq> 0 then Inl ResidualUnaligned
               else Inr \<lparr>rq_layer = layer, rq_layers = layers, rq_residual = f32s_of_bytes residual_bytes,
                         rq_seq_len = seq_len, rq_top_k = top_k, rq_full_output = odd flags,
                         rq_moe_layer = False\<rparr>))"

text \<open>\<open>peek_binary\<close> of the router (\<open>crates/larql-router/src/shards.rs\<close>): the layers of a body.\<close>

definition peek_binary :: "string \<Rightarrow> nat list option" where
  "peek_binary body =
     (if length body < 4 then None
      else let first = u32_at body 0 in
        if first = batch_marker then
          if length body < 8 then None
          else let n = u32_at body 4; needed = 8 + n * 4 in
            if length body < needed then None else Some (layers_at body n)
        else Some [first])"

section \<open>Responses, as the server encodes them\<close>

record ffn_entry =
  fe_layer :: nat
  fe_output :: "f32 list"

record ffn_output =
  fo_entries :: "ffn_entry list"
  fo_seq_len :: nat
  fo_latency_ms :: f64

text \<open>The frame the three formats share; \<open>put\<close> writes the output of an entry.\<close>

definition entry_frame :: "(f32 list \<Rightarrow> string) \<Rightarrow> nat \<Rightarrow> ffn_entry \<Rightarrow> string" where
  "entry_frame put seq_len e =
     le_bytes 4 (fe_layer e) @ le_bytes 4 seq_len @ le_bytes 4 (length (fe_output e)) @ put (fe_output e)"

definition encode_frame :: "(f32 list \<Rightarrow> string) \<Rightarrow> ffn_output \<Rightarrow> string" where
  "encode_frame put out =
     (let latency = f32_bytes (f32_of_f64 (fo_latency_ms out)) in
      case fo_entries out of
        [e] \<Rightarrow> le_bytes 4 (fe_layer e) @ le_bytes 4 (fo_seq_len out) @ latency @ put (fe_output e)
      | es \<Rightarrow> le_bytes 4 batch_marker @ le_bytes 4 (length es) @ latency @
          concat (map (entry_frame put (fo_seq_len out)) es))"

definition encode_binary_output :: "ffn_output \<Rightarrow> string" where
  "encode_binary_output out = encode_frame f32_block out"

type_synonym half = "16 word"

definition half_block :: "(f32 \<Rightarrow> half) \<Rightarrow> f32 list \<Rightarrow> string" where
  "half_block narrow v = concat (map (\<lambda>x. le_bytes 2 (unat (narrow x))) v)"

definition encode_binary_output_f16 :: "(f32 \<Rightarrow> half) \<Rightarrow> ffn_output \<Rightarrow> string" where
  "encode_binary_output_f16 narrow out = encode_frame (half_block narrow) out"

text \<open>\<open>f32::max\<close>: the other operand when one is a NaN.\<close>

definition f32_maximum :: "f32 \<Rightarrow> f32 \<Rightarrow> f32" where
  "f32_maximum a b = (if f32_is_nan a then b else if f32_is_nan b then a else if f32_less a b then b else a)"

text \<open>
  \<open>x.clamp(-127.0, 127.0).round() as i8\<close>: a NaN becomes zero, a half is rounded away from zero.
\<close>

definition round_to_i8 :: "f32 \<Rightarrow> int" where
  "round_to_i8 x =
     (if f32_is_nan x then 0
      else if f32_is_infinite x then (if f32_negative x then -127 else 127)
      else case f32_ratio x of (n, d) \<Rightarrow>
        (let r = int (min ((2 * n + d) div (2 * d)) 127) in if f32_negative x then - r else r))"

definition position_scale :: "f32 list \<Rightarrow> f32" where
  "position_scale vals =
     (let max_abs = foldl f32_maximum 0 (map f32_abs vals) in
      if f32_less 0 max_abs then f32_div max_abs 0x42FE0000 else 0x3F800000)"

definition quantised :: "f32 list \<Rightarrow> int list" where
  "quantised vals = map (\<lambda>v. round_to_i8 (f32_div v (position_scale vals))) vals"

definition quantise_position :: "f32 list \<Rightarrow> string" where
  "quantise_position vals =
     f32_bytes (position_scale vals) @ f32_bytes 0 @ map (\<lambda>q. char_of (nat (q mod 256))) (quantised vals)"

text \<open>\<open>seq\<close> positions of \<open>len / seq\<close> values each; what is left over is dropped.\<close>

definition i8_block :: "nat \<Rightarrow> f32 list \<Rightarrow> string" where
  "i8_block seq_len output =
     (let seq = max seq_len 1; hidden = length output div seq in
      concat (map (\<lambda>pos. quantise_position (segment (pos * hidden) ((pos + 1) * hidden) output)) [0..<seq]))"

definition encode_binary_output_i8 :: "ffn_output \<Rightarrow> string" where
  "encode_binary_output_i8 out = encode_frame (i8_block (fo_seq_len out)) out"

section \<open>Responses, as the client decodes them\<close>

datatype wire_error =
    ByteLengthOverflow
  | ByteRangeOverflow
  | WireTruncated nat nat
  | TooManyResults nat nat
  | ResponseTooShort nat
  | UnexpectedBatch
  | OutputUnaligned
  | WrongFloatCount nat nat nat

definition checked_mul :: "nat \<Rightarrow> nat \<Rightarrow> wire_error + nat" where
  "checked_mul a b = (if a * b < 2 ^ 64 then Inr (a * b) else Inl ByteLengthOverflow)"

definition checked_end :: "nat \<Rightarrow> nat \<Rightarrow> nat \<Rightarrow> wire_error + nat" where
  "checked_end offset len size_of =
     (if 2 ^ 64 \<le> offset + len then Inl ByteRangeOverflow
      else if size_of < offset + len then Inl (WireTruncated len (size_of - offset))
      else Inr (offset + len))"

definition codec_read_u32 :: "string \<Rightarrow> nat \<Rightarrow> wire_error + nat" where
  "codec_read_u32 body offset = res_bind (checked_end offset 4 (length body)) (\<lambda>_. Inr (u32_at body offset))"

definition validate_batch_result_count :: "string \<Rightarrow> nat \<Rightarrow> wire_error + unit" where
  "validate_batch_result_count body num_results =
     (let fit = (length body - 12) div 12 in
      if fit < num_results then Inl (TooManyResults num_results fit) else Inr ())"

text \<open>A response for one layer; \<open>width\<close> bytes for a float and \<open>get\<close> to read them.\<close>

definition decode_single_with :: "nat \<Rightarrow> (string \<Rightarrow> f32 list) \<Rightarrow> string \<Rightarrow> wire_error + nat \<times> f32 list" where
  "decode_single_with width get body =
     (if length body < 12 then Inl (ResponseTooShort (length body))
      else let marker = u32_at body 0 in
        if marker = batch_marker then Inl UnexpectedBatch
        else if (length body - 12) mod width \<noteq> 0 then Inl OutputUnaligned
        else Inr (marker, get (drop 12 body)))"

definition decode_binary_single :: "string \<Rightarrow> wire_error + nat \<times> f32 list" where
  "decode_binary_single body = decode_single_with 4 f32s_of_bytes body"

fun halves_of_bytes :: "(half \<Rightarrow> f32) \<Rightarrow> string \<Rightarrow> f32 list" where
  "halves_of_bytes widen (a # b # rest) = widen (word_of_nat (of_le [a, b])) # halves_of_bytes widen rest"
| "halves_of_bytes widen _ = []"

definition decode_binary_single_f16 :: "(half \<Rightarrow> f32) \<Rightarrow> string \<Rightarrow> wire_error + nat \<times> f32 list" where
  "decode_binary_single_f16 widen body = decode_single_with 2 (halves_of_bytes widen) body"

text \<open>The loop over the results of a batch; the map is the \<open>HashMap\<close> it fills.\<close>

fun batch_results ::
  "nat \<Rightarrow> (string \<Rightarrow> f32 list) \<Rightarrow> string \<Rightarrow> nat \<Rightarrow> nat \<Rightarrow> (nat \<Rightarrow> f32 list option) \<Rightarrow>
     wire_error + (nat \<Rightarrow> f32 list option)" where
  "batch_results width get body 0 offset out = Inr out"
| "batch_results width get body (Suc n) offset out =
     res_bind (checked_end offset 12 (length body)) (\<lambda>_.
     res_bind (codec_read_u32 body offset) (\<lambda>layer.
     res_bind (codec_read_u32 body (offset + 8)) (\<lambda>num_floats.
     let offset = offset + 12 in
     res_bind (checked_mul num_floats width) (\<lambda>needed.
     res_bind (checked_end offset needed (length body)) (\<lambda>stop.
       batch_results width get body n stop (out(layer \<mapsto> get (segment offset stop body))))))))"

definition decode_batch_with ::
  "nat \<Rightarrow> (string \<Rightarrow> f32 list) \<Rightarrow> string \<Rightarrow> wire_error + (nat \<Rightarrow> f32 list option)" where
  "decode_batch_with width get body =
     (if length body < 12 then Inl (ResponseTooShort (length body))
      else if u32_at body 0 \<noteq> batch_marker then
        res_bind (decode_single_with width get body) (\<lambda>(layer, floats). Inr [layer \<mapsto> floats])
      else let num_results = u32_at body 4 in
        res_bind (validate_batch_result_count body num_results) (\<lambda>_.
          batch_results width get body num_results 12 Map.empty))"

definition decode_binary_batch :: "string \<Rightarrow> wire_error + (nat \<Rightarrow> f32 list option)" where
  "decode_binary_batch body = decode_batch_with 4 f32s_of_bytes body"

definition decode_binary_batch_f16 :: "(half \<Rightarrow> f32) \<Rightarrow> string \<Rightarrow> wire_error + (nat \<Rightarrow> f32 list option)" where
  "decode_binary_batch_f16 widen body = decode_batch_with 2 (halves_of_bytes widen) body"

text \<open>\<open>(b as i8) as f32\<close>.\<close>

definition i8_of_byte :: "char \<Rightarrow> int" where
  "i8_of_byte c = (if byte c < 128 then int (byte c) else int (byte c) - 256)"

definition f32_of_i8 :: "int \<Rightarrow> f32" where
  "f32_of_i8 q = f32_of_i64 (word_of_int q)"

definition decode_i8_position :: "string \<Rightarrow> nat \<Rightarrow> nat \<Rightarrow> wire_error + f32 list \<times> nat" where
  "decode_i8_position body offset hidden =
     (if 2 ^ 64 \<le> 8 + hidden then Inl ByteLengthOverflow
      else res_bind (checked_end offset (8 + hidden) (length body)) (\<lambda>stop.
        let scale = word_of_nat (u32_at body offset) in
        Inr (map (\<lambda>c. f32_mul (f32_of_i8 (i8_of_byte c)) scale) (segment (offset + 8) (offset + 8 + hidden) body), stop)))"

fun i8_positions :: "string \<Rightarrow> nat \<Rightarrow> nat \<Rightarrow> nat \<Rightarrow> f32 list \<Rightarrow> wire_error + f32 list \<times> nat" where
  "i8_positions body hidden 0 offset acc = Inr (acc, offset)"
| "i8_positions body hidden (Suc n) offset acc =
     res_bind (decode_i8_position body offset hidden) (\<lambda>(floats, next_offset).
       i8_positions body hidden n next_offset (acc @ floats))"

definition decode_binary_single_i8 :: "string \<Rightarrow> nat \<Rightarrow> wire_error + nat \<times> f32 list" where
  "decode_binary_single_i8 body hidden_size =
     (if length body < 12 then Inl (ResponseTooShort (length body))
      else let marker = u32_at body 0 in
        if marker = batch_marker then Inl UnexpectedBatch
        else let seq_len = max (u32_at body 4) 1 in
          res_bind (checked_mul seq_len hidden_size) (\<lambda>_.
          res_bind (i8_positions body hidden_size seq_len 12 []) (\<lambda>(floats, _). Inr (marker, floats))))"

fun i8_results ::
  "string \<Rightarrow> nat \<Rightarrow> nat \<Rightarrow> nat \<Rightarrow> (nat \<Rightarrow> f32 list option) \<Rightarrow> wire_error + (nat \<Rightarrow> f32 list option)" where
  "i8_results body hidden 0 offset out = Inr out"
| "i8_results body hidden (Suc n) offset out =
     res_bind (checked_end offset 12 (length body)) (\<lambda>_.
     res_bind (codec_read_u32 body offset) (\<lambda>layer.
     res_bind (codec_read_u32 body (offset + 4)) (\<lambda>seq_len. let seq_len = max seq_len 1 in
     res_bind (codec_read_u32 body (offset + 8)) (\<lambda>num_floats.
     res_bind (checked_mul seq_len hidden) (\<lambda>expected.
     if num_floats \<noteq> expected then Inl (WrongFloatCount layer num_floats expected)
     else res_bind (i8_positions body hidden seq_len (offset + 12) []) (\<lambda>(floats, stop).
       i8_results body hidden n stop (out(layer \<mapsto> floats))))))))"

definition decode_binary_batch_i8 :: "string \<Rightarrow> nat \<Rightarrow> wire_error + (nat \<Rightarrow> f32 list option)" where
  "decode_binary_batch_i8 body hidden_size =
     (if length body < 12 then Inl (ResponseTooShort (length body))
      else if u32_at body 0 \<noteq> batch_marker then
        res_bind (decode_binary_single_i8 body hidden_size) (\<lambda>(layer, floats). Inr [layer \<mapsto> floats])
      else let num_results = u32_at body 4 in
        res_bind (validate_batch_result_count body num_results) (\<lambda>_.
          i8_results body hidden_size num_results 12 Map.empty))"

text \<open>\<open>extract_response_latency_ms\<close>: the single-precision latency of the header, zero when it is not finite.\<close>

definition extract_response_latency_ms :: "string \<Rightarrow> f32" where
  "extract_response_latency_ms body =
     (if length body < 12 then 0
      else let v = word_of_nat (u32_at body 8) in
        if f32_is_nan v \<or> f32_is_infinite v then 0 else v)"

end
