(* ===== verification/FfnWireLaws.thy ===== *)
theory FfnWireLaws
  imports FfnWire
begin

text \<open>
  Round trips of the binary protocol: what the client sends is what the server reads, what the server sends is what
  the client reads, in each of the three formats.
\<close>

section \<open>Blocks\<close>

lemma f32_block_laws [simp]: "length (f32_block v) = 4 * length v" "f32s_of_bytes (f32_block v) = v"
  using f32s_of_bytes_concat [of v] by (simp_all add: f32_block_def)

lemma length_f32_bytes [simp]: "length (f32_bytes x) = 4"
  by (simp add: f32_bytes_def)

lemma length_concat_le_bytes [simp]: "length (concat (map (le_bytes 4) ls)) = 4 * length ls"
  by (induction ls) simp_all

lemma u32_at_f32_bytes: "u32_at (f32_bytes x @ b) 0 = unat x"
  using unsigned_less [of x, where ?'a = nat] by (simp add: f32_bytes_def u32_at_le_bytes)

lemma u32_at_as_drop: "u32_at b p = u32_at (drop p b) 0"
  by simp

lemma u32_at_past: "length a = n \<Longrightarrow> u32_at (a @ b) (n + p) = u32_at b p"
  using u32_at_append2 by blast

lemma u32_at_nth_block:
  "\<forall>l \<in> set ls. l < 2 ^ 32 \<Longrightarrow> i < length ls \<Longrightarrow> u32_at (concat (map (le_bytes 4) ls) @ b) (i * 4) = ls ! i"
proof (induction ls arbitrary: i)
  case (Cons l ls)
  show ?case
  proof (cases i)
    case 0
    then show ?thesis using Cons.prems by (simp add: u32_at_le_bytes)
  next
    case (Suc j)
    then show ?thesis
      using Cons.IH [of j] Cons.prems u32_at_past [of "le_bytes 4 l" 4 "concat (map (le_bytes 4) ls) @ b" "j * 4"] by simp
  qed
qed simp

lemma layers_at_encoded:
  assumes "\<forall>l \<in> set ls. l < 2 ^ 32" "length h = 8"
  shows "layers_at (h @ concat (map (le_bytes 4) ls) @ b) (length ls) = ls"
proof (rule nth_equalityI)
  show "length (layers_at (h @ concat (map (le_bytes 4) ls) @ b) (length ls)) = length ls" by (simp add: layers_at_def)
next
  fix i assume "i < length (layers_at (h @ concat (map (le_bytes 4) ls) @ b) (length ls))"
  then have "i < length ls" by (simp add: layers_at_def)
  then show "layers_at (h @ concat (map (le_bytes 4) ls) @ b) (length ls) ! i = ls ! i"
    by (simp add: layers_at_def u32_at_past [OF assms(2)] u32_at_nth_block [OF assms(1)])
qed

section \<open>Requests\<close>

lemma batch_marker_less: "batch_marker < 2 ^ 32"
  by (simp add: batch_marker_def)

text \<open>The part of a request after the layers.\<close>

definition request_tail :: "f32 list \<Rightarrow> nat \<Rightarrow> bool \<Rightarrow> nat \<Rightarrow> string" where
  "request_tail residual seq_len full_output top_k =
     le_bytes 4 seq_len @ le_bytes 4 (if full_output then 1 else 0) @ le_bytes 4 top_k @ f32_block residual"

lemma length_request_tail [simp]: "length (request_tail r s f k) = 12 + 4 * length r"
  by (simp add: request_tail_def)

lemma u32_at_request_tail:
  assumes "s < 2 ^ 32" "k < 2 ^ 32"
  shows "u32_at (request_tail r s f k) 0 = s"
    and "u32_at (request_tail r s f k) 4 = (if f then 1 else 0)"
    and "u32_at (request_tail r s f k) 8 = k"
    and "drop 12 (request_tail r s f k) = f32_block r"
  using assms by (simp_all add: request_tail_def u32_at_le_bytes u32_at_skip)

lemma u32_at_tail:
  assumes "drop p b = request_tail r s f k" "s < 2 ^ 32" "k < 2 ^ 32"
  shows "u32_at b p = s" "u32_at b (p + 4) = (if f then 1 else 0)" "u32_at b (p + 8) = k" "drop (p + 12) b = f32_block r"
proof -
  have d: "drop (p + 12) b = drop 12 (drop p b)" by (simp add: add.commute)
  show "u32_at b p = s" "u32_at b (p + 4) = (if f then 1 else 0)" "u32_at b (p + 8) = k" "drop (p + 12) b = f32_block r"
    using u32_at_request_tail [OF assms(2,3), of r f, folded assms(1)] by (simp_all only: d u32_at_drop add.right_neutral)
qed

lemma encode_request_layers:
  "encode_binary_request layer (Some ls) r s f k =
     le_bytes 4 batch_marker @ le_bytes 4 (length ls) @ concat (map (le_bytes 4) ls) @ request_tail r s f k"
  by (simp add: encode_binary_request_def request_tail_def)

lemma encode_request_layer:
  "encode_binary_request layer None r s f k =
     le_bytes 4 (case layer of Some l \<Rightarrow> l | None \<Rightarrow> 0) @ request_tail r s f k"
  by (simp add: encode_binary_request_def request_tail_def)

lemma decode_request_layers:
  assumes "length ls < 2 ^ 32" "\<forall>l \<in> set ls. l < 2 ^ 32" "s < 2 ^ 32" "k < 2 ^ 32"
  shows "decode_binary_request (encode_binary_request layer (Some ls) r s f k) =
    Inr \<lparr>rq_layer = None, rq_layers = Some ls, rq_residual = r, rq_seq_len = s, rq_top_k = k, rq_full_output = f,
         rq_moe_layer = False\<rparr>"
proof -
  let ?h = "le_bytes 4 batch_marker @ le_bytes 4 (length ls)"
  let ?body = "encode_binary_request layer (Some ls) r s f k"
  let ?n = "length ls"
  have body: "?body = ?h @ concat (map (le_bytes 4) ls) @ request_tail r s f k"
    by (simp add: encode_request_layers)
  have len: "length ?body = 20 + 4 * ?n + 4 * length r" by (simp add: body)
  have h: "u32_at ?body 0 = batch_marker" "u32_at ?body 4 = ?n"
    using assms(1) batch_marker_less by (simp_all add: encode_request_layers u32_at_le_bytes u32_at_skip)
  have ls: "layers_at ?body ?n = ls"
    unfolding body by (rule layers_at_encoded [OF assms(2)]) simp
  have d: "drop (8 + ?n * 4) ?body = request_tail r s f k" by (simp add: body)
  note f = u32_at_tail [OF d assms(3,4)]
  show ?thesis
    unfolding decode_binary_request_def Let_def h ls res_bind_simps prod.case
    by (simp add: len f [simplified])
qed

lemma decode_request_layer:
  assumes "l < batch_marker" "s < 2 ^ 32" "k < 2 ^ 32"
  shows "decode_binary_request (encode_binary_request (Some l) None r s f k) =
    Inr \<lparr>rq_layer = Some l, rq_layers = None, rq_residual = r, rq_seq_len = s, rq_top_k = k, rq_full_output = f,
         rq_moe_layer = False\<rparr>"
proof -
  let ?body = "encode_binary_request (Some l) None r s f k"
  have l: "l < 2 ^ 32" "l \<noteq> batch_marker" using assms(1) batch_marker_less by auto
  have b: "?body = le_bytes 4 l @ request_tail r s f k" by (simp add: encode_request_layer)
  have f: "u32_at ?body 0 = l" "u32_at ?body 4 = s" "u32_at ?body 8 = (if f then 1 else 0)" "u32_at ?body 12 = k"
    "drop 16 ?body = f32_block r"
    using u32_at_request_tail [OF assms(2,3), of r f] l(1) by (simp_all add: b u32_at_le_bytes u32_at_skip)
  have len: "length ?body = 16 + 4 * length r" by (simp add: b)
  show ?thesis
    by (simp add: decode_binary_request_def len f l(2) Let_def)
qed

text \<open>The layers the router reads from a body are those the server reads, when the server reads it at all.\<close>

lemma peek_decoded:
  assumes "decode_binary_request body = Inr req"
  shows "rq_layers req \<noteq> None \<and> peek_binary body = rq_layers req \<or>
    rq_layers req = None \<and> rq_layer req \<noteq> None \<and> peek_binary body = Some [the (rq_layer req)]"
  using assms
  by (auto simp: decode_binary_request_def peek_binary_def Let_def res_bind_Inr split: if_splits)

section \<open>Responses with plain floats\<close>

text \<open>The outputs of entries by layer; a later entry of a layer replaces an earlier one.\<close>

definition output_map :: "(f32 list \<Rightarrow> f32 list) \<Rightarrow> ffn_entry list \<Rightarrow> nat \<Rightarrow> f32 list option" where
  "output_map kept es = map_of (rev (map (\<lambda>e. (fe_layer e, kept (fe_output e))) es))"

lemma output_map_Nil [simp]: "output_map kept [] = Map.empty"
  by (simp add: output_map_def)

lemma output_map_Cons: "m(fe_layer e \<mapsto> kept (fe_output e)) ++ output_map kept es = m ++ output_map kept (e # es)"
  by (simp add: output_map_def)

text \<open>How a format writes the floats of an entry (\<open>put\<close>) and reads them back (\<open>get\<close>), up to what it keeps of them.\<close>

text \<open>What a response must be to fit the frame.\<close>

definition fits_frame :: "(f32 list \<Rightarrow> string) \<Rightarrow> ffn_output \<Rightarrow> bool" where
  "fits_frame put out \<longleftrightarrow>
     (\<forall>e \<in> set (fo_entries out). fe_layer e < batch_marker \<and> length (fe_output e) < 2 ^ 32) \<and>
     length (fo_entries out) < 2 ^ 32 \<and> length (encode_frame put out) < 2 ^ 64"

definition latency_bytes :: "ffn_output \<Rightarrow> string" where
  "latency_bytes out = f32_bytes (f32_of_f64 (fo_latency_ms out))"

lemma length_latency_bytes [simp]: "length (latency_bytes out) = 4"
  by (simp add: latency_bytes_def)

lemma frame_single:
  "fo_entries out = [e] \<Longrightarrow>
     encode_frame put out = le_bytes 4 (fe_layer e) @ le_bytes 4 (fo_seq_len out) @ latency_bytes out @ put (fe_output e)"
  by (simp add: encode_frame_def latency_bytes_def)

lemma frame_batch:
  "length (fo_entries out) \<noteq> 1 \<Longrightarrow>
     encode_frame put out = (le_bytes 4 batch_marker @ le_bytes 4 (length (fo_entries out)) @ latency_bytes out) @
       concat (map (entry_frame put (fo_seq_len out)) (fo_entries out))"
  by (cases "fo_entries out" rule: remdups_adj.cases) (simp_all add: encode_frame_def latency_bytes_def)

lemma batch_header:
  assumes "length (fo_entries out) \<noteq> 1" "length (fo_entries out) < 2 ^ 32"
  shows "u32_at (encode_frame put out) 0 = batch_marker" "u32_at (encode_frame put out) 4 = length (fo_entries out)"
  using assms batch_marker_less by (simp_all add: frame_batch u32_at_le_bytes u32_at_skip)

lemma single_header:
  assumes "fo_entries out = [e]" "fe_layer e < batch_marker"
  shows "u32_at (encode_frame put out) 0 = fe_layer e" "drop 12 (encode_frame put out) = put (fe_output e)"
    and "fo_seq_len out < 2 ^ 32 \<Longrightarrow> u32_at (encode_frame put out) 4 = fo_seq_len out"
  using assms batch_marker_less by (simp_all add: frame_single u32_at_le_bytes u32_at_skip)

lemma length_frame: "12 \<le> length (encode_frame put out)"
  by (cases "length (fo_entries out) = 1") (auto simp: length_Suc_conv frame_single frame_batch)

lemma latency_decoded:
  "extract_response_latency_ms (encode_frame put out) =
     (let v = f32_of_f64 (fo_latency_ms out) in if f32_is_nan v \<or> f32_is_infinite v then 0 else v)"
proof -
  have "u32_at (encode_frame put out) 8 = unat (f32_of_f64 (fo_latency_ms out))"
    by (cases "length (fo_entries out) = 1")
      (auto simp: length_Suc_conv frame_single frame_batch u32_at_skip latency_bytes_def u32_at_f32_bytes)
  then show ?thesis using length_frame [of put out] by (simp add: extract_response_latency_ms_def Let_def)
qed

locale float_format =
  fixes put :: "f32 list \<Rightarrow> string" and get :: "string \<Rightarrow> f32 list" and width :: nat and kept :: "f32 \<Rightarrow> f32"
  assumes length_put [simp]: "length (put v) = width * length v"
    and get_put [simp]: "get (put v) = map kept v"
begin

lemma length_entry_frame [simp]: "length (entry_frame put s e) = 12 + width * length (fe_output e)"
  by (simp add: entry_frame_def)

lemma results_decoded:
  assumes "\<forall>e \<in> set es. fe_layer e < 2 ^ 32 \<and> length (fe_output e) < 2 ^ 32"
    and "length (pre @ concat (map (entry_frame put s) es)) < 2 ^ 64"
  shows "batch_results width get (pre @ concat (map (entry_frame put s) es)) (length es) (length pre) m =
    Inr (m ++ output_map (map kept) es)"
  using assms
proof (induction es arbitrary: pre m)
  case (Cons e es)
  let ?body = "pre @ concat (map (entry_frame put s) (e # es))"
  let ?rest = "concat (map (entry_frame put s) es)"
  let ?n = "length (fe_output e)"
  have body: "?body = (pre @ entry_frame put s e) @ ?rest" by simp
  have total: "length pre + 12 + width * ?n + length ?rest < 2 ^ 64" "length ?body = length pre + 12 + width * ?n + length ?rest"
    using Cons.prems(2) by simp_all
  have d: "drop (length pre) ?body = entry_frame put s e @ ?rest" by simp
  have at: "u32_at ?body (length pre) = fe_layer e" "u32_at ?body (length pre + 8) = ?n"
    using Cons.prems(1) u32_at_drop [of "length pre" ?body 0] u32_at_drop [of "length pre" ?body 8]
    by (simp_all add: d entry_frame_def u32_at_le_bytes u32_at_skip)
  have seg: "segment (length pre + 12) (length pre + 12 + width * ?n) ?body = put (fe_output e)"
    by (simp add: segment_def entry_frame_def)
  have step: "batch_results width get ?body (length (e # es)) (length pre) m =
      batch_results width get ?body (length es) (length pre + 12 + width * ?n) (m(fe_layer e \<mapsto> map kept (fe_output e)))"
    using total at
    by (simp add: checked_end_def codec_read_u32_def checked_mul_def Let_def mult.commute [of _ width] del: concat.simps list.map)
      (simp only: seg get_put)
  have "batch_results width get ((pre @ entry_frame put s e) @ ?rest) (length es) (length (pre @ entry_frame put s e))
      (m(fe_layer e \<mapsto> map kept (fe_output e))) =
      Inr (m(fe_layer e \<mapsto> map kept (fe_output e)) ++ output_map (map kept) es)"
    using Cons.prems by (intro Cons.IH) (simp_all add: add.assoc)
  then show ?case unfolding step output_map_Cons [of _ _ "map kept"] by (simp add: add.assoc)
qed simp

lemma single_decoded:
  assumes "fo_entries out = [e]" "fe_layer e < batch_marker"
  shows "decode_single_with width get (encode_frame put out) = Inr (fe_layer e, map kept (fe_output e))"
proof -
  have "length (encode_frame put out) - 12 = width * length (fe_output e)"
    using arg_cong [OF single_header(2) [OF assms, of put], of length] by simp
  then show ?thesis
    using single_header [OF assms, of put] assms(2) length_frame [of put out] by (simp add: decode_single_with_def)
qed

lemma count_valid:
  assumes "length (fo_entries out) \<noteq> 1"
  shows "validate_batch_result_count (encode_frame put out) (length (fo_entries out)) = Inr ()"
proof -
  have "12 * length es \<le> length (concat (map (entry_frame put s) es))" for es s
    by (induction es) simp_all
  then show ?thesis
    by (simp add: validate_batch_result_count_def Let_def frame_batch [OF assms] not_less less_eq_div_iff_mult_less_eq mult.commute)
qed

lemma batch_decoded:
  assumes "fits_frame put out"
  shows "decode_batch_with width get (encode_frame put out) = Inr (output_map (map kept) (fo_entries out))"
proof (cases "length (fo_entries out) = 1")
  case True
  then obtain e where e: "fo_entries out = [e]" by (auto simp: length_Suc_conv)
  then have l: "fe_layer e < batch_marker" using assms by (simp add: fits_frame_def)
  show ?thesis
    using single_header(1) [OF e l, of put] single_decoded [OF e l] l length_frame [of put out]
    by (simp add: decode_batch_with_def e output_map_def)
next
  case False
  let ?pre = "le_bytes 4 batch_marker @ le_bytes 4 (length (fo_entries out)) @ latency_bytes out"
  have l: "\<forall>e \<in> set (fo_entries out). fe_layer e < 2 ^ 32 \<and> length (fe_output e) < 2 ^ 32"
    using assms batch_marker_less unfolding fits_frame_def by (meson less_trans)
  have b: "batch_results width get (encode_frame put out) (length (fo_entries out)) 12 Map.empty =
      Inr (Map.empty ++ output_map (map kept) (fo_entries out))"
    using results_decoded [OF l, of ?pre "fo_seq_len out" Map.empty] assms
    by (simp add: fits_frame_def frame_batch [OF False])
  show ?thesis
    using assms length_frame [of put out] batch_header [OF False, of put] b
    by (simp add: decode_batch_with_def fits_frame_def count_valid [OF False])
qed

end

interpretation wire_f32: float_format f32_block f32s_of_bytes 4 id
  by unfold_locales simp_all

lemma halves_roundtrip: "halves_of_bytes widen (half_block narrow v) = map (widen \<circ> narrow) v"
proof (induction v)
  case (Cons x v)
  have "length (le_bytes 2 (unat (narrow x))) = 2" by simp
  then obtain a b where l: "le_bytes 2 (unat (narrow x)) = [a, b]"
    by (auto simp: length_Suc_conv numeral_2_eq_2)
  have "of_le [a, b] = unat (narrow x)"
    using of_le_bytes_less [of "unat (narrow x)" 2] unsigned_less [of "narrow x", where ?'a = nat] by (simp only: l)
      (simp add: l [symmetric])
  then show ?case using Cons by (simp add: half_block_def l del: of_le.simps le_bytes.simps)
qed (simp add: half_block_def)

interpretation wire_f16: float_format "half_block narrow" "halves_of_bytes widen" 2 "widen \<circ> narrow" for narrow widen
proof unfold_locales
  show "length (half_block narrow v) = 2 * length v" for v by (induction v) (simp_all add: half_block_def)
qed (rule halves_roundtrip)

section \<open>Responses in eight bits\<close>

definition dequantised :: "f32 list \<Rightarrow> f32 list" where
  "dequantised vals = map (\<lambda>q. f32_mul (f32_of_i8 q) (position_scale vals)) (quantised vals)"

lemma round_to_i8_bounds: "- 127 \<le> round_to_i8 x \<and> round_to_i8 x \<le> 127"
  by (auto simp: round_to_i8_def Let_def split: prod.split)

lemma i8_of_char: "- 128 \<le> q \<Longrightarrow> q < 128 \<Longrightarrow> i8_of_byte (char_of (nat (q mod 256))) = q"
proof -
  assume q: "- 128 \<le> q" "q < 128"
  have n: "nat (q mod 256) mod 256 = nat (q mod 256)" by simp
  show ?thesis
  proof (cases "0 \<le> q")
    case True
    then have "q mod 256 = q" using q by simp
    then show ?thesis using True q n by (simp add: i8_of_byte_def)
  next
    case False
    then have "q mod 256 = q + 256" using q mod_pos_pos_trivial [of "q + 256" 256] by simp
    then show ?thesis using False q n by (simp add: i8_of_byte_def)
  qed
qed

lemma length_quantise_position [simp]: "length (quantise_position vals) = 8 + length vals"
  by (simp add: quantise_position_def quantised_def)

lemma position_decoded:
  assumes "drop off body = quantise_position vals @ rest" "off + 8 + length vals < 2 ^ 64"
  shows "decode_i8_position body off (length vals) = Inr (dequantised vals, off + (8 + length vals))"
proof -
  have l: "length body - off = 8 + length vals + length rest" using arg_cong [OF assms(1), of length] by simp
  have scale: "u32_at body off = unat (position_scale vals)"
    using u32_at_drop [of off body 0] by (simp add: assms(1) quantise_position_def u32_at_f32_bytes)
  have "segment (off + 8) (off + 8 + length vals) body = take (length vals) (drop 8 (drop off body))"
    by (simp add: segment_def add.commute)
  also have "\<dots> = map (\<lambda>q. char_of (nat (q mod 256))) (quantised vals)"
    by (simp add: assms(1) quantise_position_def quantised_def)
  finally have seg: "segment (off + 8) (off + 8 + length vals) body = map (\<lambda>q. char_of (nat (q mod 256))) (quantised vals)" .
  have "i8_of_byte (char_of (nat (q mod 256))) = q" if "q \<in> set (quantised vals)" for q
  proof -
    obtain x where "q = round_to_i8 x" using \<open>q \<in> set (quantised vals)\<close> by (auto simp: quantised_def)
    then show ?thesis using round_to_i8_bounds [of x] by (intro i8_of_char) simp_all
  qed
  then have d: "map (\<lambda>c. f32_mul (f32_of_i8 (i8_of_byte c)) (position_scale vals)) (map (\<lambda>q. char_of (nat (q mod 256))) (quantised vals))
      = dequantised vals"
    by (simp add: dequantised_def)
  show ?thesis
    using assms(2) l by (simp add: decode_i8_position_def checked_end_def scale seg d Let_def del: map_map)
qed

lemma positions_decoded:
  assumes "drop off body = concat (map quantise_position ps) @ rest" "\<forall>p \<in> set ps. length p = h"
    and "length body < 2 ^ 64" "off \<le> length body"
  shows "i8_positions body h (length ps) off acc = Inr (acc @ concat (map dequantised ps), off + length ps * (8 + h))"
  using assms
proof (induction ps arbitrary: off acc)
  case (Cons p ps)
  have h: "length p = h" using Cons.prems(2) by simp
  have l: "length body = off + (8 + h) + length (concat (map quantise_position ps) @ rest)"
    using arg_cong [OF Cons.prems(1), of length] Cons.prems(4) h by simp
  have p: "decode_i8_position body off h = Inr (dequantised p, off + (8 + h))"
    using position_decoded [of off body p "concat (map quantise_position ps) @ rest"] Cons.prems(1,3) l h by simp
  have "drop (off + (8 + h)) body = drop (8 + h) (drop off body)" by (simp add: add.commute)
  also have "\<dots> = concat (map quantise_position ps) @ rest" using Cons.prems(1) h by simp
  finally have "i8_positions body h (length ps) (off + (8 + h)) (acc @ dequantised p) =
      Inr ((acc @ dequantised p) @ concat (map dequantised ps), off + (8 + h) + length ps * (8 + h))"
    using Cons.prems(2,3) l by (intro Cons.IH) simp_all
  then show ?case by (simp add: p)
qed simp

definition i8_chunks :: "nat \<Rightarrow> f32 list \<Rightarrow> f32 list list" where
  "i8_chunks seq_len output =
     (let seq = max seq_len 1; hidden = length output div seq in
      map (\<lambda>pos. segment (pos * hidden) ((pos + 1) * hidden) output) [0..<seq])"

definition i8_kept :: "nat \<Rightarrow> f32 list \<Rightarrow> f32 list" where
  "i8_kept seq_len output = concat (map dequantised (i8_chunks seq_len output))"

lemma i8_block_chunks: "i8_block seq_len output = concat (map quantise_position (i8_chunks seq_len output))"
  by (simp add: i8_block_def i8_chunks_def Let_def comp_def)

lemma length_i8_chunks [simp]: "length (i8_chunks seq_len output) = max seq_len 1"
  by (simp add: i8_chunks_def Let_def)

lemma i8_chunk_length:
  assumes "length output = max seq_len 1 * h" "p \<in> set (i8_chunks seq_len output)"
  shows "length p = h"
proof -
  obtain pos where "pos < max seq_len 1" "p = segment (pos * h) ((pos + 1) * h) output"
    using assms by (auto simp: i8_chunks_def Let_def)
  moreover then have "(pos + 1) * h \<le> length output" using assms(1) by (simp only: mult_le_mono1 Suc_leI Suc_eq_plus1 [symmetric])
  ultimately show ?thesis by (simp add: segment_def)
qed

lemma length_i8_block:
  assumes "length output = max seq_len 1 * h"
  shows "length (i8_block seq_len output) = max seq_len 1 * (8 + h)"
proof -
  have "length (concat (map quantise_position ps)) = length ps * (8 + h)" if "\<forall>p \<in> set ps. length p = h" for ps
    using that by (induction ps) simp_all
  then show ?thesis using i8_chunk_length [OF assms] by (simp add: i8_block_chunks)
qed

lemma i8_results_decoded:
  assumes "\<forall>e \<in> set es. fe_layer e < 2 ^ 32 \<and> length (fe_output e) = max s 1 * h \<and> length (fe_output e) < 2 ^ 32"
    and "s < 2 ^ 32" "length (pre @ concat (map (entry_frame (i8_block s) s) es)) < 2 ^ 64"
  shows "i8_results (pre @ concat (map (entry_frame (i8_block s) s) es)) h (length es) (length pre) m =
    Inr (m ++ output_map (i8_kept s) es)"
  using assms(1,3)
proof (induction es arbitrary: pre m)
  case (Cons e es)
  let ?body = "pre @ concat (map (entry_frame (i8_block s) s) (e # es))"
  let ?rest = "concat (map (entry_frame (i8_block s) s) es)"
  let ?n = "length (fe_output e)"
  have n: "?n = max s 1 * h" "fe_layer e < 2 ^ 32" "?n < 2 ^ 32" using Cons.prems(1) by simp_all
  have b: "length (i8_block s (fe_output e)) = max s 1 * (8 + h)" by (rule length_i8_block [OF n(1)])
  have f: "length (entry_frame (i8_block s) s e) = 12 + max s 1 * (8 + h)" by (simp add: entry_frame_def b)
  have total: "length pre + (12 + max s 1 * (8 + h)) + length ?rest < 2 ^ 64"
    "length ?body = length pre + (12 + max s 1 * (8 + h)) + length ?rest"
    using Cons.prems(2) f by simp_all
  have d: "drop (length pre) ?body = entry_frame (i8_block s) s e @ ?rest" by simp
  have at: "u32_at ?body (length pre) = fe_layer e" "u32_at ?body (length pre + 4) = s"
    "u32_at ?body (length pre + 8) = max s 1 * h"
    using n assms(2) u32_at_drop [of "length pre" ?body 0] u32_at_drop [of "length pre" ?body 4]
      u32_at_drop [of "length pre" ?body 8]
    by (simp_all add: d entry_frame_def u32_at_le_bytes u32_at_skip)
  have dp: "drop (length pre + 12) ?body = concat (map quantise_position (i8_chunks s (fe_output e))) @ ?rest"
    by (simp add: entry_frame_def i8_block_chunks)
  have ps: "i8_positions ?body h (max s 1) (length pre + 12) [] =
      Inr (i8_kept s (fe_output e), length pre + 12 + max s 1 * (8 + h))"
    using positions_decoded [OF dp, of h "[]"] i8_chunk_length [OF n(1)] total by (simp add: i8_kept_def)
  have step: "i8_results ?body h (length (e # es)) (length pre) m =
      i8_results ?body h (length es) (length pre + 12 + max s 1 * (8 + h)) (m(fe_layer e \<mapsto> i8_kept s (fe_output e)))"
    using total at n
    by (simp add: checked_end_def codec_read_u32_def checked_mul_def Let_def ps [unfolded One_nat_def] del: concat.simps list.map)
  have "i8_results ((pre @ entry_frame (i8_block s) s e) @ ?rest) h (length es) (length (pre @ entry_frame (i8_block s) s e))
      (m(fe_layer e \<mapsto> i8_kept s (fe_output e))) =
      Inr (m(fe_layer e \<mapsto> i8_kept s (fe_output e)) ++ output_map (i8_kept s) es)"
    using Cons.prems by (intro Cons.IH) (simp_all add: add.assoc)
  then show ?case unfolding step output_map_Cons [of _ _ "i8_kept s"] by (simp add: add.assoc f)
qed simp

lemma i8_single_decoded:
  assumes "fo_entries out = [e]" "fe_layer e < batch_marker" "s = fo_seq_len out" "s < 2 ^ 32"
    and "length (fe_output e) = max s 1 * h" "length (encode_binary_output_i8 out) < 2 ^ 64"
  shows "decode_binary_single_i8 (encode_binary_output_i8 out) h = Inr (fe_layer e, i8_kept s (fe_output e))"
proof -
  let ?body = "encode_binary_output_i8 out"
  note b = encode_binary_output_i8_def [of out, folded assms(3)]
  note h = single_header [OF assms(1,2), of "i8_block s", folded assms(3), folded b]
  have d: "drop 12 ?body = concat (map quantise_position (i8_chunks s (fe_output e))) @ []"
    using h(2) by (simp add: i8_block_chunks)
  have l: "12 \<le> length ?body" unfolding b by (rule length_frame)
  have "length ?body = 12 + max s 1 * (8 + h)"
    using arg_cong [OF h(2), of length] length_i8_block [OF assms(5)] l by simp
  then have m: "max s 1 * h < 2 ^ 64" using assms(6) by (simp add: distrib_left)
  show ?thesis
    using positions_decoded [OF d, of h "[]"] i8_chunk_length [OF assms(5)] assms l h m
    by (simp add: decode_binary_single_i8_def checked_mul_def i8_kept_def)
qed

lemma i8_batch_decoded:
  assumes "fits_frame (i8_block (fo_seq_len out)) out" "fo_seq_len out < 2 ^ 32"
    and "\<forall>e \<in> set (fo_entries out). length (fe_output e) = max (fo_seq_len out) 1 * h"
  shows "decode_binary_batch_i8 (encode_binary_output_i8 out) h = Inr (output_map (i8_kept (fo_seq_len out)) (fo_entries out))"
proof (cases "length (fo_entries out) = 1")
  case True
  then obtain e where e: "fo_entries out = [e]" by (auto simp: length_Suc_conv)
  have l: "fe_layer e < batch_marker" "length (encode_binary_output_i8 out) < 2 ^ 64"
    using assms(1) by (simp_all add: fits_frame_def encode_binary_output_i8_def e)
  show ?thesis
    using i8_single_decoded [OF e l(1) refl assms(2), of h] assms(3) l single_header(1) [OF e l(1)] length_frame
    by (simp add: decode_binary_batch_i8_def encode_binary_output_i8_def e output_map_def not_less)
next
  case False
  let ?s = "fo_seq_len out"
  let ?pre = "le_bytes 4 batch_marker @ le_bytes 4 (length (fo_entries out)) @ latency_bytes out"
  have l: "\<forall>e \<in> set (fo_entries out). fe_layer e < 2 ^ 32 \<and> length (fe_output e) = max ?s 1 * h \<and> length (fe_output e) < 2 ^ 32"
    using assms(1,3) batch_marker_less unfolding fits_frame_def by (meson less_trans)
  have b: "i8_results (encode_binary_output_i8 out) h (length (fo_entries out)) 12 Map.empty =
      Inr (Map.empty ++ output_map (i8_kept ?s) (fo_entries out))"
    using i8_results_decoded [OF l assms(2), of ?pre Map.empty] assms(1)
    by (simp add: fits_frame_def encode_binary_output_i8_def frame_batch [OF False])
  have "12 * length es \<le> length (concat (map (entry_frame put s) es))" for put s and es :: "ffn_entry list"
    by (induction es) (simp_all add: entry_frame_def)
  then have v: "validate_batch_result_count (encode_binary_output_i8 out) (length (fo_entries out)) = Inr ()"
    by (simp add: validate_batch_result_count_def encode_binary_output_i8_def Let_def frame_batch [OF False] not_less
        less_eq_div_iff_mult_less_eq mult.commute)
  show ?thesis
    using assms(1) length_frame [of "i8_block ?s" out] batch_header [OF False, of "i8_block ?s"] b v
    by (simp add: decode_binary_batch_i8_def fits_frame_def encode_binary_output_i8_def)
qed

end
