(* ===== verification/FfnQ8k.thy ===== *)
theory FfnQ8k
  imports FfnWireLaws
begin

text \<open>
  The batch protocol with activations quantised to eight bits by the client
  (\<open>crates/larql-inference/src/ffn/remote/q8k_wire.rs\<close>): requests of the client and responses of the server, each
  with its decoder, and their round trips. The quantisation itself is numeric and not modelled. A length of a
  buffer is below \<open>2 ^ 63\<close>, so that no sum of offsets overflows a \<open>usize\<close>.
\<close>

section \<open>Requests\<close>

record q8k_activation =
  qk_qs :: "8 word list"
  qk_d :: "f32 list"
  qk_sums :: "16 word list"

definition n_blocks :: "q8k_activation \<Rightarrow> nat" where
  "n_blocks a = length (qk_d a)"

definition sums_bytes :: "16 word list \<Rightarrow> string" where
  "sums_bytes ws = concat (map (\<lambda>w. le_bytes 2 (unat w)) ws)"

definition q8k_entry_bytes :: "nat \<times> q8k_activation \<Rightarrow> string" where
  "q8k_entry_bytes = (\<lambda>(layer, a).
     le_bytes 4 layer @ le_bytes 4 (n_blocks a) @ map (\<lambda>q. char_of (unat q)) (qk_qs a) @
     f32_block (qk_d a) @ sums_bytes (qk_sums a))"

definition encode_q8k_batch_request :: "(nat \<times> q8k_activation) list \<Rightarrow> string" where
  "encode_q8k_batch_request layers = le_bytes 4 (length layers) @ concat (map q8k_entry_bytes layers)"

datatype q8k_error =
    Q8kTooShort nat
  | Q8kTooManyEntries nat nat
  | Q8kTruncatedHeader nat
  | Q8kTruncatedQs nat nat
  | Q8kTruncatedScales nat nat
  | Q8kTruncatedSums nat nat
  | Q8kTruncatedOutput nat nat nat

fun sums_of_bytes :: "string \<Rightarrow> 16 word list" where
  "sums_of_bytes (a # b # rest) = word_of_nat (of_le [a, b]) # sums_of_bytes rest"
| "sums_of_bytes _ = []"

text \<open>The loop of \<open>decode_q8k_batch_request\<close> at entry \<open>i\<close>; the entries it pushes are its result.\<close>

fun q8k_entries :: "string \<Rightarrow> nat \<Rightarrow> nat \<Rightarrow> nat \<Rightarrow> q8k_error + (nat \<times> q8k_activation) list" where
  "q8k_entries body 0 i offset = Inr []"
| "q8k_entries body (Suc n) i offset =
     (if length body < offset + 8 then Inl (Q8kTruncatedHeader i)
      else let layer_idx = u32_at body offset; blocks = u32_at body (offset + 4); offset = offset + 8;
               qs_bytes = blocks * 256 in
        if length body < offset + qs_bytes then Inl (Q8kTruncatedQs i layer_idx)
        else let qs = map (\<lambda>c. word_of_nat (byte c)) (segment offset (offset + qs_bytes) body);
                 offset = offset + qs_bytes; d_bytes = blocks * 4 in
          if length body < offset + d_bytes then Inl (Q8kTruncatedScales i layer_idx)
          else let d = f32s_of_bytes (segment offset (offset + d_bytes) body);
                   offset = offset + d_bytes; s_bytes = blocks * 8 * 2 in
            if length body < offset + s_bytes then Inl (Q8kTruncatedSums i layer_idx)
            else let sums = sums_of_bytes (segment offset (offset + s_bytes) body); offset = offset + s_bytes in
              res_bind (q8k_entries body n (i + 1) offset) (\<lambda>entries.
                Inr ((layer_idx, \<lparr>qk_qs = qs, qk_d = d, qk_sums = sums\<rparr>) # entries)))"

definition decode_q8k_batch_request :: "string \<Rightarrow> q8k_error + (nat \<times> q8k_activation) list" where
  "decode_q8k_batch_request body =
     (if length body < 4 then Inl (Q8kTooShort (length body))
      else let num_entries = u32_at body 0 in
        if (length body - 4) div 8 < num_entries then Inl (Q8kTooManyEntries num_entries (length body))
        else q8k_entries body num_entries 0 4)"

section \<open>Responses\<close>

definition q8k_output_bytes :: "nat \<times> f32 list \<Rightarrow> string" where
  "q8k_output_bytes = (\<lambda>(layer, output). le_bytes 4 layer @ le_bytes 4 (length output) @ f32_block output)"

definition encode_q8k_batch_response :: "(nat \<times> f32 list) list \<Rightarrow> string" where
  "encode_q8k_batch_response entries = le_bytes 4 (length entries) @ concat (map q8k_output_bytes entries)"

fun q8k_outputs ::
  "string \<Rightarrow> nat \<Rightarrow> nat \<Rightarrow> nat \<Rightarrow> (nat \<Rightarrow> f32 list option) \<Rightarrow> q8k_error + (nat \<Rightarrow> f32 list option)" where
  "q8k_outputs body 0 i offset out = Inr out"
| "q8k_outputs body (Suc n) i offset out =
     (if length body < offset + 8 then Inl (Q8kTruncatedHeader i)
      else let layer_idx = u32_at body offset; hidden = u32_at body (offset + 4); offset = offset + 8;
               floats_bytes = hidden * 4 in
        if length body < offset + floats_bytes
        then Inl (Q8kTruncatedOutput layer_idx floats_bytes (length body - offset))
        else let floats = f32s_of_bytes (segment offset (offset + floats_bytes) body) in
          q8k_outputs body n (i + 1) (offset + floats_bytes) (out(layer_idx \<mapsto> floats)))"

definition decode_q8k_batch_response :: "string \<Rightarrow> q8k_error + (nat \<Rightarrow> f32 list option)" where
  "decode_q8k_batch_response body =
     (if length body < 4 then Inl (Q8kTooShort (length body))
      else let num_entries = u32_at body 0 in
        if (length body - 4) div 8 < num_entries then Inl (Q8kTooManyEntries num_entries (length body))
        else q8k_outputs body num_entries 0 4 Map.empty)"

section \<open>Round trips\<close>

lemma sums_roundtrip [simp]: "sums_of_bytes (sums_bytes ws) = ws" "length (sums_bytes ws) = 2 * length ws"
proof (induction ws)
  case (Cons w ws)
  have "length (le_bytes 2 (unat w)) = 2" by simp
  then obtain a b where l: "le_bytes 2 (unat w) = [a, b]"
    by (auto simp: length_Suc_conv numeral_2_eq_2)
  have "of_le [a, b] = unat w"
    using of_le_bytes_less [of "unat w" 2] unsigned_less [of w, where ?'a = nat] by (simp only: l) (simp add: l [symmetric])
  then show "sums_of_bytes (sums_bytes (w # ws)) = w # ws" "length (sums_bytes (w # ws)) = 2 * length (w # ws)"
    using Cons by (simp_all add: sums_bytes_def l del: of_le.simps le_bytes.simps)
qed (simp_all add: sums_bytes_def)

text \<open>An activation as the quantiser makes it: 256 values and eight sums for each block.\<close>

definition q8k_shaped :: "nat \<times> q8k_activation \<Rightarrow> bool" where
  "q8k_shaped = (\<lambda>(layer, a). layer < 2 ^ 32 \<and> n_blocks a < 2 ^ 32 \<and>
     length (qk_qs a) = 256 * n_blocks a \<and> length (qk_sums a) = 8 * n_blocks a)"

lemma q8k_entry_decoded:
  assumes "drop off body = q8k_entry_bytes e @ rest" "q8k_shaped e"
  shows "q8k_entries body (Suc n) i off =
    res_bind (q8k_entries body n (i + 1) (off + length (q8k_entry_bytes e))) (\<lambda>es. Inr (e # es))"
proof -
  obtain layer a where e: "e = (layer, a)" by (cases e)
  let ?b = "n_blocks a"
  let ?qs = "map (\<lambda>q. char_of (unat q)) (qk_qs a)"
  have s: "layer < 2 ^ 32" "?b < 2 ^ 32" "length (qk_qs a) = 256 * ?b" "length (qk_sums a) = 8 * ?b" "length (qk_d a) = ?b"
    using assms(2) by (simp_all add: q8k_shaped_def e n_blocks_def)
  have len: "length (q8k_entry_bytes e) = 8 + ?b * 256 + ?b * 4 + ?b * 8 * 2"
    by (simp add: q8k_entry_bytes_def e s)
  have "length body - off = 8 + ?b * 256 + ?b * 4 + ?b * 8 * 2 + length rest"
    using arg_cong [OF assms(1), of length] len by simp
  then have l: "length body = off + (8 + ?b * 256 + ?b * 4 + ?b * 8 * 2 + length rest)" by arith
  have at: "u32_at body off = layer" "u32_at body (off + 4) = ?b"
    using s u32_at_drop [of off body 0] u32_at_drop [of off body 4]
    by (simp_all add: assms(1) e q8k_entry_bytes_def u32_at_le_bytes u32_at_skip)
  have dp: "drop (off + p) body = drop p (drop off body)" for p by (simp add: add.commute)
  have bd: "drop off body = le_bytes 4 layer @ le_bytes 4 ?b @ ?qs @ f32_block (qk_d a) @ sums_bytes (qk_sums a) @ rest"
    by (simp add: assms(1) e q8k_entry_bytes_def)
  have seg: "segment (off + 8) (off + 8 + ?b * 256) body = ?qs"
    "segment (off + 8 + ?b * 256) (off + 8 + ?b * 256 + ?b * 4) body = f32_block (qk_d a)"
    "segment (off + 8 + ?b * 256 + ?b * 4) (off + 8 + ?b * 256 + ?b * 4 + ?b * 8 * 2) body = sums_bytes (qk_sums a)"
    by (simp_all only: segment_def dp add.assoc bd) (simp_all add: s)
  have q: "map (\<lambda>c. word_of_nat (byte c)) ?qs = qk_qs a"
  proof -
    have "word_of_nat (byte (char_of (unat q))) = q" for q :: "8 word"
      using unsigned_less [of q, where ?'a = nat] by simp
    then show ?thesis by (simp add: comp_def)
  qed
  have a: "\<lparr>qk_qs = qk_qs a, qk_d = qk_d a, qk_sums = qk_sums a\<rparr> = a" by simp
  show ?thesis
    using l by (simp only: q8k_entries.simps Let_def at seg q f32_block_laws sums_roundtrip len a) (simp add: e add.assoc)
qed

lemma q8k_entries_decoded:
  assumes "drop off body = concat (map q8k_entry_bytes es) @ rest" "\<forall>e \<in> set es. q8k_shaped e"
  shows "q8k_entries body (length es) i off = Inr es"
  using assms
proof (induction es arbitrary: off i)
  case (Cons e es)
  have "drop (off + length (q8k_entry_bytes e)) body = drop (length (q8k_entry_bytes e)) (drop off body)"
    by (simp add: add.commute)
  then have d: "drop (off + length (q8k_entry_bytes e)) body = concat (map q8k_entry_bytes es) @ rest"
    using Cons.prems(1) by simp
  show ?case
    using q8k_entry_decoded [of off body e "concat (map q8k_entry_bytes es) @ rest"] Cons.prems Cons.IH [OF d] by simp
qed simp

lemma concat_length_ge: "\<forall>x \<in> set xs. k \<le> length (f x) \<Longrightarrow> k * length xs \<le> length (concat (map f xs))"
  by (induction xs) auto

lemma decode_q8k_request:
  assumes "length es < 2 ^ 32" "\<forall>e \<in> set es. q8k_shaped e"
  shows "decode_q8k_batch_request (encode_q8k_batch_request es) = Inr es"
proof -
  let ?body = "encode_q8k_batch_request es"
  have d: "drop 4 ?body = concat (map q8k_entry_bytes es) @ []" by (simp add: encode_q8k_batch_request_def)
  have "8 * length es \<le> length (concat (map q8k_entry_bytes es))"
    by (rule concat_length_ge) (auto simp: q8k_entry_bytes_def)
  then show ?thesis
    using q8k_entries_decoded [OF d assms(2)] assms(1)
    by (simp add: decode_q8k_batch_request_def encode_q8k_batch_request_def u32_at_le_bytes Let_def not_less
        less_eq_div_iff_mult_less_eq mult.commute)
qed

lemma q8k_outputs_decoded:
  assumes "drop off body = concat (map q8k_output_bytes es) @ rest"
    and "\<forall>(layer, v) \<in> set es. layer < 2 ^ 32 \<and> length v < 2 ^ 32"
  shows "q8k_outputs body (length es) i off m = Inr (m ++ map_of (rev es))"
  using assms
proof (induction es arbitrary: off i m)
  case (Cons e es)
  obtain layer v where e: "e = (layer, v)" by (cases e)
  let ?rest = "concat (map q8k_output_bytes es) @ rest"
  have s: "layer < 2 ^ 32" "length v < 2 ^ 32" using Cons.prems(2) by (auto simp: e)
  have bd: "drop off body = le_bytes 4 layer @ le_bytes 4 (length v) @ f32_block v @ ?rest"
    using Cons.prems(1) by (simp add: e q8k_output_bytes_def)
  have "length body - off = 8 + length v * 4 + length ?rest" using arg_cong [OF bd, of length] by simp
  then have l: "length body = off + (8 + length v * 4 + length ?rest)" by arith
  have at: "u32_at body off = layer" "u32_at body (off + 4) = length v"
    using s u32_at_drop [of off body 0] u32_at_drop [of off body 4] by (simp_all add: bd u32_at_le_bytes u32_at_skip)
  have dp: "drop (off + p) body = drop p (drop off body)" for p by (simp add: add.commute)
  have seg: "segment (off + 8) (off + 8 + length v * 4) body = f32_block v"
    by (simp only: segment_def dp add.assoc bd) simp
  have d: "drop (off + 8 + length v * 4) body = ?rest"
    by (simp only: dp add.assoc bd) simp
  have "q8k_outputs body (Suc (length es)) i off m =
      q8k_outputs body (length es) (i + 1) (off + 8 + length v * 4) (m(layer \<mapsto> v))"
    using l by (simp only: q8k_outputs.simps Let_def at seg f32_block_laws) simp
  also have "\<dots> = Inr (m(layer \<mapsto> v) ++ map_of (rev es))" using Cons.prems(2) by (intro Cons.IH [OF d]) simp
  finally show ?case by (simp add: e)
qed simp

lemma decode_q8k_response:
  assumes "length es < 2 ^ 32" "\<forall>(layer, v) \<in> set es. layer < 2 ^ 32 \<and> length v < 2 ^ 32"
  shows "decode_q8k_batch_response (encode_q8k_batch_response es) = Inr (map_of (rev es))"
proof -
  let ?body = "encode_q8k_batch_response es"
  have d: "drop 4 ?body = concat (map q8k_output_bytes es) @ []" by (simp add: encode_q8k_batch_response_def)
  have "8 * length es \<le> length (concat (map q8k_output_bytes es))"
    by (rule concat_length_ge) (auto simp: q8k_output_bytes_def)
  then show ?thesis
    using q8k_outputs_decoded [OF d assms(2), of 0 Map.empty] assms(1)
    by (simp add: decode_q8k_batch_response_def encode_q8k_batch_response_def u32_at_le_bytes Let_def not_less
        less_eq_div_iff_mult_less_eq mult.commute)
qed

end
