(* ===== verification/FfnServer.thy ===== *)
theory FfnServer
  imports FfnWireLaws Rust_Str
begin

text \<open>
  Both ends of the remote feed-forward protocol. The server: content negotiation
  (\<open>crates/larql-server/src/wire.rs\<close>), the validation of a request (\<open>routes/walk_ffn/validate.rs\<close>), the loop over the
  layers with the cache of outputs (\<open>routes/walk_ffn/core.rs\<close>, \<open>ffn_l2_cache.rs\<close>) and the binary branch of the
  handler (\<open>routes/walk_ffn/handler.rs\<close>). The client: the calls of
  \<open>crates/larql-inference/src/ffn/remote/http.rs\<close>. The forward pass of a layer, the selection of its features and
  the expert path are parameters, the fields of a record; the hash of feature ids is one too, since the standard
  library leaves its algorithm open. The counters are natural numbers.
\<close>

section \<open>Content types\<close>

definition ffn_ct :: string where
  "ffn_ct = ''application/x-larql-ffn''"

definition ffn_f16_ct :: string where
  "ffn_f16_ct = ''application/x-larql-ffn-f16''"

definition ffn_i8_ct :: string where
  "ffn_i8_ct = ''application/x-larql-ffn-i8''"

text \<open>The two flags are environment variables: \<open>LARQL_F16_WIRE_DISABLE\<close> and \<open>LARQL_I8_WIRE\<close>.\<close>

definition preferred_response_ct :: "bool \<Rightarrow> bool \<Rightarrow> string option \<Rightarrow> string" where
  "preferred_response_ct f16_disabled i8_enabled accept =
     (case accept of
        None \<Rightarrow> ffn_ct
      | Some a \<Rightarrow>
          if i8_enabled \<and> str_contains a ffn_i8_ct then ffn_i8_ct
          else if \<not> f16_disabled \<and> str_contains a ffn_f16_ct then ffn_f16_ct
          else ffn_ct)"

datatype wire_preference = BestAvailable | WireF32 | WireF16 | WireI8

definition accept_header :: "wire_preference \<Rightarrow> string" where
  "accept_header w =
     (case w of
        BestAvailable \<Rightarrow> ffn_i8_ct @ '', '' @ ffn_f16_ct @ '', '' @ ffn_ct
      | WireF32 \<Rightarrow> ffn_ct
      | WireF16 \<Rightarrow> ffn_f16_ct @ '', '' @ ffn_ct
      | WireI8 \<Rightarrow> ffn_i8_ct @ '', '' @ ffn_f16_ct @ '', '' @ ffn_ct)"

definition wire_from_str :: "string \<Rightarrow> wire_preference option" where
  "wire_from_str s =
     (let t = trim s in
      if t = ''f32'' then Some WireF32 else if t = ''f16'' then Some WireF16
      else if t = ''i8'' then Some WireI8 else None)"

definition wire_label :: "wire_preference \<Rightarrow> string" where
  "wire_label w = (case w of BestAvailable \<Rightarrow> ''best'' | WireF32 \<Rightarrow> ''f32'' | WireF16 \<Rightarrow> ''f16'' | WireI8 \<Rightarrow> ''i8'')"

section \<open>The cache of outputs\<close>

record l2_cache =
  l2_layers :: "(nat \<times> f32 list) list list"
  l2_max_entries :: nat
  l2_hits :: nat
  l2_misses :: nat

definition l2_with_max_entries :: "nat \<Rightarrow> nat \<Rightarrow> l2_cache" where
  "l2_with_max_entries num_layers mx =
     \<lparr>l2_layers = replicate num_layers [], l2_max_entries = mx, l2_hits = 0, l2_misses = 0\<rparr>"

definition l2_new :: "nat \<Rightarrow> l2_cache" where
  "l2_new num_layers = l2_with_max_entries num_layers 4096"

definition l2_key :: "(nat list \<Rightarrow> nat) \<Rightarrow> nat list \<Rightarrow> nat" where
  "l2_key hash feature_ids = hash (sort feature_ids)"

definition l2_get :: "nat \<Rightarrow> nat \<Rightarrow> l2_cache \<Rightarrow> f32 list option \<times> l2_cache" where
  "l2_get layer key c =
     (if layer < length (l2_layers c) then
        case map_of (l2_layers c ! layer) key of
          Some v \<Rightarrow> (Some v, c\<lparr>l2_hits := l2_hits c + 1\<rparr>)
        | None \<Rightarrow> (None, c\<lparr>l2_misses := l2_misses c + 1\<rparr>)
      else (None, c))"

definition l2_insert :: "nat \<Rightarrow> nat \<Rightarrow> f32 list \<Rightarrow> l2_cache \<Rightarrow> l2_cache" where
  "l2_insert layer key v c =
     (if layer < length (l2_layers c) \<and> length (l2_layers c ! layer) < l2_max_entries c
      then c\<lparr>l2_layers := (l2_layers c)[layer := AList.update key v (l2_layers c ! layer)]\<rparr> else c)"

section \<open>Validation\<close>

record ffn_model =
  fm_hidden :: nat
  fm_num_layers :: nat
  fm_layer_range :: "(nat \<times> nat) option"
  fm_load_error :: "string option"
  fm_has_overrides :: "nat \<Rightarrow> bool"
  fm_has_gate :: "nat \<Rightarrow> bool"
  fm_gate_knn :: "nat \<Rightarrow> f32 list \<Rightarrow> nat \<Rightarrow> (nat \<times> f32) list"
  fm_forward :: "nat \<Rightarrow> nat \<Rightarrow> f32 list \<Rightarrow> f32 list"
  fm_moe :: "(nat \<Rightarrow> nat \<Rightarrow> f32 list \<Rightarrow> string + f32 list) option"

datatype server_error =
    BodyTooLarge
  | BadFrame request_error
  | RequiresFullOutput
  | NoModelLoaded
  | SeqHiddenOverflow
  | ResidualLength nat nat
  | SeqLenZero
  | NoLayersGiven
  | LayerNotServed nat
  | InferenceUnavailable string
  | ReshapeFailed
  | LayerOutOfRange nat
  | MoeNeedsFullOutput
  | MoeNotConfigured
  | MoeFailed string

definition collect_scan_layers :: "ffn_request \<Rightarrow> server_error + nat list" where
  "collect_scan_layers req =
     (case rq_layers req of
        Some layers \<Rightarrow> Inr layers
      | None \<Rightarrow> (case rq_layer req of Some layer \<Rightarrow> Inr [layer] | None \<Rightarrow> Inl NoLayersGiven))"

definition validate_residual :: "ffn_request \<Rightarrow> nat \<Rightarrow> server_error + unit" where
  "validate_residual req hidden =
     res_bind
       (if rq_full_output req then
          if rq_seq_len req * hidden < 2 ^ 64 then Inr (rq_seq_len req * hidden) else Inl SeqHiddenOverflow
        else Inr hidden)
       (\<lambda>expected_len.
          if length (rq_residual req) \<noteq> expected_len then Inl (ResidualLength (length (rq_residual req)) expected_len)
          else if rq_full_output req \<and> rq_seq_len req = 0 then Inl SeqLenZero
          else Inr ())"

definition layer_owned :: "ffn_model \<Rightarrow> nat \<Rightarrow> bool" where
  "layer_owned m layer = (case fm_layer_range m of None \<Rightarrow> True | Some (first, past) \<Rightarrow> first \<le> layer \<and> layer < past)"

definition validate_owned :: "ffn_model \<Rightarrow> nat list \<Rightarrow> server_error + unit" where
  "validate_owned m layers =
     (case find (\<lambda>l. \<not> layer_owned m l) layers of Some l \<Rightarrow> Inl (LayerNotServed l) | None \<Rightarrow> Inr ())"

section \<open>The loop over the layers\<close>

definition cache_key :: "(nat list \<Rightarrow> nat) \<Rightarrow> ffn_model \<Rightarrow> ffn_request \<Rightarrow> nat \<Rightarrow> nat option" where
  "cache_key hash m req layer =
     (if rq_seq_len req = 1 \<and> \<not> fm_has_overrides m layer \<and> 0 < rq_top_k req \<and> fm_has_gate m layer
      then Some (l2_key hash (map fst (fm_gate_knn m layer (rq_residual req) (rq_top_k req)))) else None)"

definition layer_output ::
  "(nat list \<Rightarrow> nat) \<Rightarrow> ffn_model \<Rightarrow> ffn_request \<Rightarrow> nat \<Rightarrow> l2_cache \<Rightarrow> f32 list \<times> l2_cache" where
  "layer_output hash m req layer c =
     (let out = fm_forward m layer (rq_seq_len req) (rq_residual req) in
      case cache_key hash m req layer of
        None \<Rightarrow> (out, c)
      | Some key \<Rightarrow>
          (case l2_get layer key c of
             (Some cached, c) \<Rightarrow> (cached, c)
           | (None, c) \<Rightarrow> (out, l2_insert layer key out c)))"

fun run_layers ::
  "(nat list \<Rightarrow> nat) \<Rightarrow> ffn_model \<Rightarrow> ffn_request \<Rightarrow> nat list \<Rightarrow> l2_cache \<Rightarrow>
     (server_error + ffn_entry list) \<times> l2_cache" where
  "run_layers hash m req [] c = (Inr [], c)"
| "run_layers hash m req (layer # layers) c =
     (if fm_num_layers m \<le> layer then (Inl (LayerOutOfRange layer), c)
      else let (out, c) = layer_output hash m req layer c; (rest, c) = run_layers hash m req layers c in
        (res_bind rest (\<lambda>es. Inr (\<lparr>fe_layer = layer, fe_output = out\<rparr> # es)), c))"

text \<open>The path with experts: the dense part, the remote experts and the final norm of a layer are the parameter \<open>moe\<close>.\<close>

fun run_moe_layers ::
  "(nat \<Rightarrow> nat \<Rightarrow> f32 list \<Rightarrow> string + f32 list) \<Rightarrow> ffn_model \<Rightarrow> ffn_request \<Rightarrow> nat list \<Rightarrow>
     server_error + ffn_entry list" where
  "run_moe_layers moe m req [] = Inr []"
| "run_moe_layers moe m req (layer # layers) =
     (if fm_num_layers m \<le> layer then Inl (LayerOutOfRange layer)
      else case moe layer (rq_seq_len req) (rq_residual req) of
          Inl e \<Rightarrow> Inl (MoeFailed e)
        | Inr out \<Rightarrow>
            res_bind (run_moe_layers moe m req layers) (\<lambda>es. Inr (\<lparr>fe_layer = layer, fe_output = out\<rparr> # es)))"

definition ffn_result :: "ffn_request \<Rightarrow> f64 \<Rightarrow> server_error + ffn_entry list \<Rightarrow> server_error + ffn_output" where
  "ffn_result req latency r =
     res_bind r (\<lambda>es. Inr \<lparr>fo_entries = es, fo_seq_len = rq_seq_len req, fo_latency_ms = latency\<rparr>)"

definition run_full_output_core ::
  "(nat list \<Rightarrow> nat) \<Rightarrow> ffn_model \<Rightarrow> ffn_request \<Rightarrow> nat list \<Rightarrow> f64 \<Rightarrow> l2_cache \<Rightarrow>
     (server_error + ffn_output) \<times> l2_cache" where
  "run_full_output_core hash m req layers latency c =
     (let shaped = (length (rq_residual req) = rq_seq_len req * fm_hidden m) in
      if rq_moe_layer req then
        (if \<not> rq_full_output req then Inl MoeNeedsFullOutput
         else case fm_moe m of
             None \<Rightarrow> Inl MoeNotConfigured
           | Some moe \<Rightarrow>
               if \<not> shaped then Inl ReshapeFailed
               else (case fm_load_error m of
                   Some e \<Rightarrow> Inl (InferenceUnavailable e)
                 | None \<Rightarrow> ffn_result req latency (run_moe_layers moe m req layers)), c)
      else case fm_load_error m of
          Some e \<Rightarrow> (Inl (InferenceUnavailable e), c)
        | None \<Rightarrow>
            if \<not> shaped then (Inl ReshapeFailed, c)
            else let (r, c) = run_layers hash m req layers c in (ffn_result req latency r, c))"

section \<open>The handler\<close>

text \<open>\<open>AppState::model(None)\<close>: the model, when there is exactly one.\<close>

definition only_model :: "'m list \<Rightarrow> 'm option" where
  "only_model models = (case models of [m] \<Rightarrow> Some m | _ \<Rightarrow> None)"

record wire_flags =
  wf_f16_disabled :: bool
  wf_i8_enabled :: bool

definition encode_response :: "(f32 \<Rightarrow> half) \<Rightarrow> string \<Rightarrow> ffn_output \<Rightarrow> string" where
  "encode_response narrow ct out =
     (if ct = ffn_f16_ct then encode_binary_output_f16 narrow out
      else if ct = ffn_i8_ct then encode_binary_output_i8 out
      else encode_binary_output out)"

definition handle_binary ::
  "(nat list \<Rightarrow> nat) \<Rightarrow> (f32 \<Rightarrow> half) \<Rightarrow> wire_flags \<Rightarrow> ffn_model list \<Rightarrow> f64 \<Rightarrow> string option \<Rightarrow> string \<Rightarrow> l2_cache \<Rightarrow>
     (server_error + string \<times> string) \<times> l2_cache" where
  "handle_binary hash narrow flags models latency accept body c =
     (if body_limit < length body then (Inl BodyTooLarge, c)
      else case decode_binary_request body of
        Inl e \<Rightarrow> (Inl (BadFrame e), c)
      | Inr req \<Rightarrow>
          if \<not> rq_full_output req then (Inl RequiresFullOutput, c)
          else let ct = preferred_response_ct (wf_f16_disabled flags) (wf_i8_enabled flags) accept in
            case only_model models of
              None \<Rightarrow> (Inl NoModelLoaded, c)
            | Some m \<Rightarrow>
                (case res_bind (validate_residual req (fm_hidden m)) (\<lambda>_.
                        res_bind (collect_scan_layers req) (\<lambda>layers.
                        res_bind (validate_owned m layers) (\<lambda>_. Inr layers))) of
                   Inl e \<Rightarrow> (Inl e, c)
                 | Inr layers \<Rightarrow>
                     let (r, c) = run_full_output_core hash m req layers latency c in
                     (res_bind r (\<lambda>out. Inr (ct, encode_response narrow ct out)), c)))"

section \<open>The client\<close>

text \<open>
  A reply is the content type and the body, or the error the server answered with. \<open>json_single\<close> and \<open>json_batch\<close>
  read the JSON a server may fall back to.
\<close>

datatype 'e client_error =
    ServerAnswered 'e
  | BadWire wire_error
  | BadJson
  | WrongOutputLength nat nat

definition as_wire :: "wire_error + 'a \<Rightarrow> 'e client_error + 'a" where
  "as_wire r = (case r of Inl e \<Rightarrow> Inl (BadWire e) | Inr x \<Rightarrow> Inr x)"

definition as_json :: "'a option \<Rightarrow> 'e client_error + 'a" where
  "as_json r = (case r of None \<Rightarrow> Inl BadJson | Some x \<Rightarrow> Inr x)"

definition decode_reply_single ::
  "(half \<Rightarrow> f32) \<Rightarrow> (string \<Rightarrow> f32 list option) \<Rightarrow> nat \<Rightarrow> string \<times> string \<Rightarrow> 'e client_error + f32 list" where
  "decode_reply_single widen json_single hidden = (\<lambda>(ct, body).
     if starts_with ct ffn_i8_ct then res_bind (as_wire (decode_binary_single_i8 body hidden)) (Inr \<circ> snd)
     else if starts_with ct ffn_f16_ct then res_bind (as_wire (decode_binary_single_f16 widen body)) (Inr \<circ> snd)
     else if starts_with ct ffn_ct then res_bind (as_wire (decode_binary_single body)) (Inr \<circ> snd)
     else as_json (json_single body))"

definition decode_reply_batch ::
  "(half \<Rightarrow> f32) \<Rightarrow> (string \<Rightarrow> (nat \<Rightarrow> f32 list option) option) \<Rightarrow> nat \<Rightarrow> string \<times> string \<Rightarrow>
     'e client_error + (nat \<Rightarrow> f32 list option)" where
  "decode_reply_batch widen json_batch hidden = (\<lambda>(ct, body).
     if starts_with ct ffn_i8_ct then as_wire (decode_binary_batch_i8 body hidden)
     else if starts_with ct ffn_f16_ct then as_wire (decode_binary_batch_f16 widen body)
     else if starts_with ct ffn_ct then as_wire (decode_binary_batch body)
     else as_json (json_batch body))"

text \<open>\<open>post\<close> sends the value of the \<open>Accept\<close> header and a body.\<close>

type_synonym 'e transport = "string option \<Rightarrow> string \<Rightarrow> 'e + string \<times> string"

definition as_answer :: "'e + 'a \<Rightarrow> 'e client_error + 'a" where
  "as_answer r = (case r of Inl e \<Rightarrow> Inl (ServerAnswered e) | Inr x \<Rightarrow> Inr x)"

definition call_single ::
  "(half \<Rightarrow> f32) \<Rightarrow> (string \<Rightarrow> f32 list option) \<Rightarrow> wire_preference \<Rightarrow> nat \<Rightarrow> 'e transport \<Rightarrow>
     nat \<Rightarrow> f32 list \<Rightarrow> nat \<Rightarrow> 'e client_error + f32 list" where
  "call_single widen json_single wire hidden post layer residual seq_len =
     res_bind (as_answer (post (Some (accept_header wire)) (encode_binary_request (Some layer) None residual seq_len True 8092)))
       (\<lambda>reply. res_bind (decode_reply_single widen json_single hidden reply) (\<lambda>output.
          if length output \<noteq> seq_len * hidden then Inl (WrongOutputLength (seq_len * hidden) (length output))
          else Inr output))"

definition call_batch ::
  "(half \<Rightarrow> f32) \<Rightarrow> (string \<Rightarrow> (nat \<Rightarrow> f32 list option) option) \<Rightarrow> wire_preference \<Rightarrow> nat \<Rightarrow> 'e transport \<Rightarrow>
     nat list \<Rightarrow> f32 list \<Rightarrow> nat \<Rightarrow> 'e client_error + (nat \<Rightarrow> f32 list option)" where
  "call_batch widen json_batch wire hidden post layers residual seq_len =
     res_bind (as_answer (post (Some (accept_header wire)) (encode_binary_request None (Some layers) residual seq_len True 8092)))
       (decode_reply_batch widen json_batch hidden)"

end
