(* ===== verification/FfnRemote.thy ===== *)
theory FfnRemote
  imports FfnServer "HOL-Library.AList"
begin

text \<open>
  What a remote call of the feed-forward layers amounts to: the answers of the server with its cache of outputs, and
  the client's call of a server as a call of the layers.
\<close>

section \<open>The cache of outputs\<close>

text \<open>
  The model of a server changes with its patches; \<open>ms\<close> are the models it answered requests with. Every cached output is
  one that such a model gave when nothing was overridden at the layer, for a vector that selects the features of the key.
\<close>

definition output_for :: "(nat list \<Rightarrow> nat) \<Rightarrow> ffn_model set \<Rightarrow> nat \<Rightarrow> nat \<Rightarrow> f32 list \<Rightarrow> bool" where
  "output_for hash ms layer key v \<longleftrightarrow>
     (\<exists>m \<in> ms. \<exists>x k. \<not> fm_has_overrides m layer \<and> fm_has_gate m layer \<and> 0 < k \<and> length x = fm_hidden m \<and>
        v = fm_forward m layer 1 x \<and> key = l2_key hash (map fst (fm_gate_knn m layer x k)))"

definition entries_sound :: "(nat list \<Rightarrow> nat) \<Rightarrow> ffn_model set \<Rightarrow> nat \<Rightarrow> nat \<Rightarrow> (nat \<times> f32 list) list \<Rightarrow> bool" where
  "entries_sound hash ms mx layer xs \<longleftrightarrow>
     distinct (map fst xs) \<and> length xs \<le> mx \<and> (\<forall>(key, v) \<in> set xs. output_for hash ms layer key v)"

definition l2_sound :: "(nat list \<Rightarrow> nat) \<Rightarrow> ffn_model set \<Rightarrow> l2_cache \<Rightarrow> bool" where
  "l2_sound hash ms c \<longleftrightarrow>
     (\<forall>layer < length (l2_layers c). entries_sound hash ms (l2_max_entries c) layer (l2_layers c ! layer))"

lemma l2_sound_start: "l2_sound hash ms (l2_with_max_entries n mx)"
  by (simp add: l2_sound_def entries_sound_def l2_with_max_entries_def)

lemma output_for_mono: "output_for hash ms layer key v \<Longrightarrow> ms \<subseteq> ms' \<Longrightarrow> output_for hash ms' layer key v"
  unfolding output_for_def by (elim bexE) (rule bexI, assumption, rule subsetD)

lemma l2_sound_mono:
  assumes "l2_sound hash ms c" "ms \<subseteq> ms'"
  shows "l2_sound hash ms' c"
  using assms(1) output_for_mono [OF _ assms(2)] by (fastforce simp: l2_sound_def entries_sound_def)

lemma l2_get_parts [simp]: "l2_layers (snd (l2_get layer key c)) = l2_layers c"
  "l2_max_entries (snd (l2_get layer key c)) = l2_max_entries c"
  by (simp_all add: l2_get_def split: option.split)

lemma l2_sound_cong: "l2_layers c' = l2_layers c \<Longrightarrow> l2_max_entries c' = l2_max_entries c \<Longrightarrow> l2_sound hash ms c' = l2_sound hash ms c"
  by (simp add: l2_sound_def)

lemma l2_sound_get: "l2_sound hash ms (snd (l2_get layer key c)) = l2_sound hash ms c"
  by (rule l2_sound_cong) simp_all

lemma length_update_le: "length (AList.update k v xs) \<le> Suc (length xs)"
  by (induction xs) auto

lemma set_update_subset: "set (AList.update k v xs) \<subseteq> insert (k, v) (set xs)"
  by (induction xs) auto

lemma entries_sound_update:
  assumes "entries_sound hash ms mx layer xs" "length xs < mx" "output_for hash ms layer key v"
  shows "entries_sound hash ms mx layer (AList.update key v xs)"
  using assms length_update_le [of key v xs] set_update_subset [of key v xs]
  by (auto simp: entries_sound_def distinct_update)

lemma l2_sound_insert:
  assumes "l2_sound hash ms c" "output_for hash ms layer key v"
  shows "l2_sound hash ms (l2_insert layer key v c)"
proof (cases "layer < length (l2_layers c) \<and> length (l2_layers c ! layer) < l2_max_entries c")
  case True
  then have "entries_sound hash ms (l2_max_entries c) layer (AList.update key v (l2_layers c ! layer))"
    using assms by (intro entries_sound_update) (simp_all add: l2_sound_def)
  then show ?thesis using assms(1) True by (simp add: l2_insert_def l2_sound_def nth_list_update)
qed (use assms(1) in \<open>auto simp: l2_insert_def\<close>)

lemma l2_lookup:
  "fst (l2_get layer key c) = (if layer < length (l2_layers c) then map_of (l2_layers c ! layer) key else None)"
  by (simp add: l2_get_def split: option.split)

lemma l2_sound_hit:
  assumes "l2_sound hash ms c" "fst (l2_get layer key c) = Some v"
  shows "output_for hash ms layer key v"
proof -
  have "layer < length (l2_layers c)" "map_of (l2_layers c ! layer) key = Some v"
    using assms(2) by (simp_all add: l2_lookup split: if_splits)
  then show ?thesis using assms(1) map_of_SomeD unfolding l2_sound_def entries_sound_def by fast
qed

section \<open>The answer for a layer\<close>

text \<open>From the cache as it is when the request arrives, or computed.\<close>

definition layer_answer :: "(nat list \<Rightarrow> nat) \<Rightarrow> l2_cache \<Rightarrow> ffn_model \<Rightarrow> ffn_request \<Rightarrow> nat \<Rightarrow> f32 list" where
  "layer_answer hash c m req layer =
     (case cache_key hash m req layer of
        None \<Rightarrow> fm_forward m layer (rq_seq_len req) (rq_residual req)
      | Some key \<Rightarrow>
          (case fst (l2_get layer key c) of
             Some v \<Rightarrow> v
           | None \<Rightarrow> fm_forward m layer (rq_seq_len req) (rq_residual req)))"

lemma l2_get_same: "fst (l2_get layer' key' (snd (l2_get layer key c))) = fst (l2_get layer' key' c)"
  by (simp add: l2_lookup)

lemma l2_get_insert:
  "fst (l2_get layer' key' (l2_insert layer key v c)) =
     (if layer' = layer \<and> key' = key \<and> layer < length (l2_layers c) \<and> length (l2_layers c ! layer) < l2_max_entries c
      then Some v else fst (l2_get layer' key' c))"
  by (simp add: l2_lookup l2_insert_def update_conv' nth_list_update)

lemma layer_output_answer:
  assumes "layer_output hash m req layer c = (out, c')"
  shows "out = layer_answer hash c m req layer \<and> layer_answer hash c' m req l = layer_answer hash c m req l"
proof (cases "cache_key hash m req layer")
  case None
  then show ?thesis using assms by (auto simp: layer_output_def layer_answer_def)
next
  case (Some key)
  obtain found c1 where g: "l2_get layer key c = (found, c1)" by (cases "l2_get layer key c")
  then have same: "fst (l2_get l' k c1) = fst (l2_get l' k c)" for l' k using l2_get_same [of l' k layer key c] by simp
  then have c1: "layer_answer hash c1 m req l = layer_answer hash c m req l" by (simp only: layer_answer_def same)
  show ?thesis
  proof (cases found)
    case None
    let ?v = "fm_forward m layer (rq_seq_len req) (rq_residual req)"
    have o: "out = ?v" "c' = l2_insert layer key ?v c1" using assms None by (auto simp: layer_output_def Some g Let_def)
    have "layer_answer hash c' m req l = layer_answer hash c1 m req l"
      using Some None g same [of layer key] by (auto simp: layer_answer_def o(2) l2_get_insert split: option.split)
    then show ?thesis using c1 o(1) Some None g by (simp add: layer_answer_def)
  qed (use assms Some g c1 in \<open>auto simp: layer_output_def layer_answer_def\<close>)
qed

lemma run_layers_answers:
  assumes "\<forall>l \<in> set layers. l < fm_num_layers m"
  shows "fst (run_layers hash m req layers c) =
    Inr (map (\<lambda>l. \<lparr>fe_layer = l, fe_output = layer_answer hash c m req l\<rparr>) layers)"
  using assms
proof (induction layers arbitrary: c)
  case (Cons layer layers)
  obtain out c1 where o: "layer_output hash m req layer c = (out, c1)" by (cases "layer_output hash m req layer c")
  show ?case
    using Cons.IH [of c1] Cons.prems layer_output_answer [OF o]
    by (cases "run_layers hash m req layers c1") (simp add: o)
qed simp

section \<open>The caches a server can have\<close>

lemma layer_output_sound:
  assumes "l2_sound hash ms c" "m \<in> ms" "length (rq_residual req) = rq_seq_len req * fm_hidden m"
  shows "l2_sound hash ms (snd (layer_output hash m req layer c))"
proof (cases "cache_key hash m req layer")
  case (Some key)
  then have k: "rq_seq_len req = 1" "\<not> fm_has_overrides m layer" "0 < rq_top_k req" "fm_has_gate m layer"
    "key = l2_key hash (map fst (fm_gate_knn m layer (rq_residual req) (rq_top_k req)))"
    by (auto simp: cache_key_def split: if_splits)
  obtain found c1 where g: "l2_get layer key c = (found, c1)" by (cases "l2_get layer key c")
  have c1: "l2_sound hash ms c1" using l2_sound_get [of hash ms layer key c] assms(1) by (simp add: g)
  have "output_for hash ms layer key (fm_forward m layer 1 (rq_residual req))"
    using assms(2,3) k by (auto simp: output_for_def)
  from l2_sound_insert [OF c1 this] c1 show ?thesis
    using k(1) by (cases found) (simp_all add: layer_output_def Some g Let_def)
qed (use assms(1) in \<open>simp add: layer_output_def Let_def\<close>)

lemma run_layers_sound:
  assumes "l2_sound hash ms c" "m \<in> ms" "length (rq_residual req) = rq_seq_len req * fm_hidden m"
  shows "l2_sound hash ms (snd (run_layers hash m req layers c))"
  using assms(1)
proof (induction layers arbitrary: c)
  case (Cons layer layers)
  obtain out c1 where o: "layer_output hash m req layer c = (out, c1)" by (cases "layer_output hash m req layer c")
  then have "l2_sound hash ms c1" using layer_output_sound [OF Cons.prems assms(2,3), of layer] by simp
  from Cons.IH [OF this] Cons.prems show ?case
    by (cases "run_layers hash m req layers c1") (simp add: o)
qed simp

lemma core_sound:
  assumes "l2_sound hash ms c" "m \<in> ms"
  shows "l2_sound hash ms (snd (run_full_output_core hash m req layers latency c))"
  using assms run_layers_sound [OF assms, of req layers]
  by (cases "run_layers hash m req layers c") (auto simp: run_full_output_core_def Let_def split: option.split)

lemma handle_sound:
  assumes "l2_sound hash ms c" "set models \<subseteq> ms"
  shows "l2_sound hash ms (snd (handle_binary hash narrow flags models latency accept body c))"
proof (cases "only_model models")
  case (Some m)
  then have "m \<in> ms" using assms(2) by (auto simp: only_model_def split: list.splits)
  from core_sound [OF assms(1) this] show ?thesis
    using assms(1) by (auto simp: handle_binary_def Some Let_def case_prod_unfold split: sum.split)
qed (use assms(1) in \<open>simp add: handle_binary_def Let_def split: sum.split\<close>)

text \<open>
  The caches a server can have, whatever it was asked and however its patches come and go: nothing ties the model of
  one request to that of the next.
\<close>

inductive l2_reachable :: "(nat list \<Rightarrow> nat) \<Rightarrow> ffn_model set \<Rightarrow> l2_cache \<Rightarrow> bool" for hash where
  start: "l2_reachable hash {} (l2_with_max_entries n mx)"
| request: "l2_reachable hash ms c \<Longrightarrow>
    l2_reachable hash (ms \<union> set models) (snd (handle_binary hash narrow flags models latency accept body c))"

lemma l2_reachable_sound: "l2_reachable hash ms c \<Longrightarrow> l2_sound hash ms c"
proof (induction rule: l2_reachable.induct)
  case (request ms c models narrow flags latency accept body)
  then have "l2_sound hash (ms \<union> set models) c" by (auto intro: l2_sound_mono)
  then show ?case by (intro handle_sound) auto
qed (rule l2_sound_start)

text \<open>What the server may answer for a layer: its output, or one it had cached for the key of the request's vector.\<close>

definition answers :: "(nat list \<Rightarrow> nat) \<Rightarrow> ffn_model set \<Rightarrow> ffn_model \<Rightarrow> ffn_request \<Rightarrow> nat \<Rightarrow> f32 list \<Rightarrow> bool" where
  "answers hash ms m req layer out \<longleftrightarrow>
     out = fm_forward m layer (rq_seq_len req) (rq_residual req) \<or>
     rq_seq_len req = 1 \<and> \<not> fm_has_overrides m layer \<and>
       output_for hash ms layer (l2_key hash (map fst (fm_gate_knn m layer (rq_residual req) (rq_top_k req)))) out"

lemma layer_answer_answers:
  assumes "l2_sound hash ms c"
  shows "answers hash ms m req layer (layer_answer hash c m req layer)"
proof (cases "cache_key hash m req layer")
  case (Some key)
  then show ?thesis
    using l2_sound_hit [OF assms, of layer key]
    by (cases "fst (l2_get layer key c)") (auto simp: layer_answer_def answers_def cache_key_def split: if_splits)
qed (simp add: layer_answer_def answers_def)

section \<open>A reply is read back\<close>

text \<open>What the format with a content type keeps of an output of \<open>s\<close> positions.\<close>

definition wire_kept :: "(f32 \<Rightarrow> half) \<Rightarrow> (half \<Rightarrow> f32) \<Rightarrow> string \<Rightarrow> nat \<Rightarrow> f32 list \<Rightarrow> f32 list" where
  "wire_kept narrow widen ct s v =
     (if ct = ffn_f16_ct then map (widen \<circ> narrow) v else if ct = ffn_i8_ct then i8_kept s v else v)"

lemma length_wire_kept:
  assumes "0 < s" "length v = s * h"
  shows "length (wire_kept narrow widen ct s v) = s * h"
proof -
  have s: "max s 1 = s" using assms(1) by simp
  have "length (concat (map dequantised ps)) = length ps * h" if "\<forall>p \<in> set ps. length p = h" for ps
    using that by (induction ps) (simp_all add: dequantised_def quantised_def)
  from this [of "i8_chunks s v"] have "length (i8_kept s v) = s * h"
    using i8_chunk_length [of v s h] assms(2) by (simp add: i8_kept_def s del: One_nat_def)
  then show ?thesis using assms(2) by (simp add: wire_kept_def)
qed

text \<open>The sizes that a request for \<open>n\<close> layers, \<open>s\<close> positions and hidden size \<open>h\<close> and its reply must not exceed.\<close>

definition exchange_fits :: "nat \<Rightarrow> nat \<Rightarrow> nat \<Rightarrow> bool" where
  "exchange_fits n s h \<longleftrightarrow> n < 2 ^ 32 \<and> s < 2 ^ 32 \<and> s * h < 2 ^ 32 \<and> 12 + n * (12 + (8 * s + 4 * (s * h))) < 2 ^ 64"

lemma content_types:
  "starts_with ffn_i8_ct ffn_i8_ct" "\<not> starts_with ffn_f16_ct ffn_i8_ct" "starts_with ffn_f16_ct ffn_f16_ct"
  "\<not> starts_with ffn_ct ffn_i8_ct" "\<not> starts_with ffn_ct ffn_f16_ct" "starts_with ffn_ct ffn_ct"
  "ffn_ct \<noteq> ffn_f16_ct" "ffn_ct \<noteq> ffn_i8_ct" "ffn_i8_ct \<noteq> ffn_f16_ct"
  by (simp_all add: starts_with_def ffn_ct_def ffn_f16_ct_def ffn_i8_ct_def)

lemma preferred_ct_known: "preferred_response_ct a b accept \<in> {ffn_ct, ffn_f16_ct, ffn_i8_ct}"
  by (simp add: preferred_response_ct_def split: option.split)

lemma length_frame_le:
  assumes "\<forall>e \<in> set (fo_entries out). length (put (fe_output e)) \<le> b"
  shows "length (encode_frame put out) \<le> 12 + length (fo_entries out) * (12 + b)"
proof (cases "length (fo_entries out) = 1")
  case True
  then show ?thesis using assms by (auto simp: length_Suc_conv frame_single)
next
  case False
  have "length (concat (map (entry_frame put s) es)) \<le> length es * (12 + b)"
    if "\<forall>e \<in> set es. length (put (fe_output e)) \<le> b" for es s
    using that by (induction es) (auto simp: entry_frame_def)
  then show ?thesis using assms by (simp add: frame_batch [OF False])
qed

lemma reply_fits:
  assumes "exchange_fits (length (fo_entries out)) s h"
    and "\<forall>e \<in> set (fo_entries out). fe_layer e < batch_marker \<and> length (fe_output e) = s * h"
    and "\<forall>e \<in> set (fo_entries out). length (put (fe_output e)) \<le> 8 * s + 4 * (s * h)"
  shows "fits_frame put out"
proof -
  have "length (encode_frame put out) < 2 ^ 64"
    using length_frame_le [OF assms(3)] assms(1) unfolding exchange_fits_def by linarith
  then show ?thesis using assms(1,2) by (auto simp: fits_frame_def exchange_fits_def)
qed

lemma i8_block_le: "0 < s \<Longrightarrow> length v = s * h \<Longrightarrow> length (i8_block s v) \<le> 8 * s + 4 * (s * h)"
proof -
  assume "0 < s" "length v = s * h"
  then have "length (i8_block s v) = s * (8 + h)" using length_i8_block [of v s h] by (cases s) simp_all
  then show ?thesis by (simp add: add_mult_distrib2)
qed

lemma reply_batch_decoded:
  assumes "exchange_fits (length (fo_entries out)) s h" "0 < s" "fo_seq_len out = s"
    and "\<forall>e \<in> set (fo_entries out). fe_layer e < batch_marker \<and> length (fe_output e) = s * h"
    and "ct \<in> {ffn_ct, ffn_f16_ct, ffn_i8_ct}"
  shows "decode_reply_batch widen json h (ct, encode_response narrow ct out) =
    Inr (output_map (wire_kept narrow widen ct s) (fo_entries out))"
proof -
  note fits = reply_fits [OF assms(1,4)]
  consider "ct = ffn_ct" | "ct = ffn_f16_ct" | "ct = ffn_i8_ct" using assms(5) by blast
  then show ?thesis
  proof cases
    case 1
    have "decode_binary_batch (encode_binary_output out) = Inr (output_map (map id) (fo_entries out))"
      unfolding decode_binary_batch_def encode_binary_output_def
      by (rule wire_f32.batch_decoded, rule fits) (use assms(4) in simp)
    then show ?thesis
      using 1 content_types by (simp add: decode_reply_batch_def encode_response_def as_wire_def wire_kept_def [abs_def] id_def)
  next
    case 2
    have "decode_binary_batch_f16 widen (encode_binary_output_f16 narrow out) =
        Inr (output_map (map (widen \<circ> narrow)) (fo_entries out))"
      unfolding decode_binary_batch_f16_def encode_binary_output_f16_def
      by (rule wire_f16.batch_decoded, rule fits) (use assms(4) in simp)
    then show ?thesis
      using 2 content_types by (simp add: decode_reply_batch_def encode_response_def as_wire_def wire_kept_def [abs_def])
  next
    case 3
    have "decode_binary_batch_i8 (encode_binary_output_i8 out) h = Inr (output_map (i8_kept s) (fo_entries out))"
      using i8_batch_decoded [of out h] fits [of "i8_block s"] i8_block_le [OF assms(2)] assms(1-4)
      by (auto simp: exchange_fits_def max_def)
    then show ?thesis
      using 3 content_types by (simp add: decode_reply_batch_def encode_response_def as_wire_def wire_kept_def [abs_def])
  qed
qed

lemma reply_single_decoded:
  assumes "exchange_fits 1 s h" "0 < s" "fo_seq_len out = s" "fo_entries out = [e]"
    and "fe_layer e < batch_marker" "length (fe_output e) = s * h" "ct \<in> {ffn_ct, ffn_f16_ct, ffn_i8_ct}"
  shows "decode_reply_single widen json h (ct, encode_response narrow ct out) = Inr (wire_kept narrow widen ct s (fe_output e))"
proof -
  consider "ct = ffn_ct" | "ct = ffn_f16_ct" | "ct = ffn_i8_ct" using assms(7) by blast
  then show ?thesis
  proof cases
    case 1
    then show ?thesis
      using wire_f32.single_decoded [OF assms(4,5)] content_types
      by (simp add: decode_reply_single_def encode_response_def as_wire_def wire_kept_def
          decode_binary_single_def encode_binary_output_def)
  next
    case 2
    then show ?thesis
      using wire_f16.single_decoded [OF assms(4,5), of widen narrow] content_types
      by (simp add: decode_reply_single_def encode_response_def as_wire_def wire_kept_def
          decode_binary_single_f16_def encode_binary_output_f16_def)
  next
    case 3
    have "fits_frame (i8_block s) out"
      using reply_fits [of out s h "i8_block s"] i8_block_le [OF assms(2)] assms by simp
    then have "length (encode_binary_output_i8 out) < 2 ^ 64" by (simp add: fits_frame_def encode_binary_output_i8_def assms(3))
    then show ?thesis
      using i8_single_decoded [OF assms(4,5) assms(3) [symmetric], of h] assms(1,2,6) 3 content_types
      by (simp add: decode_reply_single_def encode_response_def as_wire_def wire_kept_def exchange_fits_def max_def)
  qed
qed

section \<open>A remote call\<close>

definition can_serve :: "ffn_model \<Rightarrow> nat list \<Rightarrow> bool" where
  "can_serve m layers \<longleftrightarrow>
     fm_load_error m = None \<and> (\<forall>l \<in> set layers. layer_owned m l \<and> l < fm_num_layers m \<and> l < batch_marker)"

text \<open>The request the client sends, as the server decodes it.\<close>

definition sent_request :: "nat option \<Rightarrow> nat list option \<Rightarrow> f32 list \<Rightarrow> nat \<Rightarrow> ffn_request" where
  "sent_request layer layers residual s =
     \<lparr>rq_layer = layer, rq_layers = layers, rq_residual = residual, rq_seq_len = s, rq_top_k = 8092,
      rq_full_output = True, rq_moe_layer = False\<rparr>"

lemma sent_request_simps [simp]:
  "rq_layer (sent_request a b r s) = a" "rq_layers (sent_request a b r s) = b" "rq_residual (sent_request a b r s) = r"
  "rq_seq_len (sent_request a b r s) = s" "rq_top_k (sent_request a b r s) = 8092"
  "rq_full_output (sent_request a b r s)" "\<not> rq_moe_layer (sent_request a b r s)"
  by (simp_all add: sent_request_def)

lemma sent_batch_decoded:
  "exchange_fits (length layers) s h \<Longrightarrow> can_serve m layers \<Longrightarrow>
     decode_binary_request (encode_binary_request None (Some layers) r s True 8092) = Inr (sent_request None (Some layers) r s)"
  using batch_marker_less by (subst decode_request_layers) (auto simp: exchange_fits_def can_serve_def sent_request_def)

lemma sent_single_decoded:
  "exchange_fits 1 s h \<Longrightarrow> can_serve m [l] \<Longrightarrow>
     decode_binary_request (encode_binary_request (Some l) None r s True 8092) = Inr (sent_request (Some l) None r s)"
  by (subst decode_request_layer) (auto simp: exchange_fits_def can_serve_def sent_request_def)

lemma handle_run:
  assumes "decode_binary_request body = Inr (sent_request a b r s)" "collect_scan_layers (sent_request a b r s) = Inr layers"
    and "can_serve m layers" "length r = s * fm_hidden m" "0 < s" "s * fm_hidden m < 2 ^ 32" "length body \<le> body_limit"
  shows "fst (handle_binary hash narrow flags [m] latency accept body c) =
    (let ct = preferred_response_ct (wf_f16_disabled flags) (wf_i8_enabled flags) accept in
     Inr (ct, encode_response narrow ct \<lparr>fo_entries = map (\<lambda>l. \<lparr>fe_layer = l,
       fe_output = layer_answer hash c m (sent_request a b r s) l\<rparr>) layers, fo_seq_len = s, fo_latency_ms = latency\<rparr>))"
proof -
  have f: "find (\<lambda>l. \<not> layer_owned m l) layers = None" using assms(3) by (auto simp: find_None_iff can_serve_def)
  have "fst (run_layers hash m (sent_request a b r s) layers c) =
      Inr (map (\<lambda>l. \<lparr>fe_layer = l, fe_output = layer_answer hash c m (sent_request a b r s) l\<rparr>) layers)"
    using assms(3) by (intro run_layers_answers) (simp add: can_serve_def)
  then show ?thesis
    using assms f by (cases "run_layers hash m (sent_request a b r s) layers c")
      (simp add: handle_binary_def only_model_def validate_residual_def validate_owned_def can_serve_def
        run_full_output_core_def ffn_result_def Let_def)
qed

text \<open>
  What a layer gives for \<open>s\<close> positions has \<open>s\<close> positions; and a server keeps its hidden size, whatever its patches.
\<close>

definition keeps_shape :: "ffn_model \<Rightarrow> nat \<Rightarrow> bool" where
  "keeps_shape m s \<longleftrightarrow> (\<forall>l x. length x = s * fm_hidden m \<longrightarrow> length (fm_forward m l s x) = s * fm_hidden m)"

definition same_shape :: "ffn_model set \<Rightarrow> nat \<Rightarrow> nat \<Rightarrow> bool" where
  "same_shape ms h s \<longleftrightarrow> (\<forall>m \<in> ms. fm_hidden m = h \<and> keeps_shape m s)"

lemma answers_length:
  assumes "answers hash ms m (sent_request a b r s) l out" "same_shape (insert m ms) h s" "length r = s * h"
  shows "length out = s * h"
proof -
  consider "out = fm_forward m l s r"
    | m' x where "s = 1" "m' \<in> ms" "length x = fm_hidden m'" "out = fm_forward m' l 1 x"
    using assms(1) by (auto simp: answers_def output_for_def)
  then show ?thesis using assms(2,3) by cases (auto simp: same_shape_def keeps_shape_def)
qed

lemma output_map_answers:
  "output_map kept (map (\<lambda>l. \<lparr>fe_layer = l, fe_output = f l\<rparr>) layers) = (\<lambda>l. if l \<in> set layers then Some (kept (f l)) else None)"
  by (rule ext) (simp add: output_map_def rev_map comp_def map_of_map_restrict restrict_map_def)

lemma remote_batch:
  assumes "l2_sound hash ms c" "can_serve m layers" "same_shape (insert m ms) h s" "length r = s * h"
    and "exchange_fits (length layers) s h" "0 < s"
    and "ct = preferred_response_ct (wf_f16_disabled flags) (wf_i8_enabled flags) accept"
    and "length (encode_binary_request None (Some layers) r s True 8092) \<le> body_limit"
  obtains body where "fst (handle_binary hash narrow flags [m] latency accept
      (encode_binary_request None (Some layers) r s True 8092) c) = Inr (ct, body)"
    and "decode_reply_batch widen json h (ct, body) = Inr (\<lambda>l. if l \<in> set layers
      then Some (wire_kept narrow widen ct s (layer_answer hash c m (sent_request None (Some layers) r s) l)) else None)"
proof -
  let ?req = "sent_request None (Some layers) r s"
  have hid: "fm_hidden m = h" using assms(3) by (simp add: same_shape_def)
  let ?es = "map (\<lambda>l. \<lparr>fe_layer = l, fe_output = layer_answer hash c m ?req l\<rparr>) layers"
  let ?out = "\<lparr>fo_entries = ?es, fo_seq_len = s, fo_latency_ms = latency\<rparr>"
  have ct: "ct \<in> {ffn_ct, ffn_f16_ct, ffn_i8_ct}" unfolding assms(7) by (rule preferred_ct_known)
  have h: "fst (handle_binary hash narrow flags [m] latency accept (encode_binary_request None (Some layers) r s True 8092) c)
      = Inr (ct, encode_response narrow ct ?out)"
    using handle_run [OF sent_batch_decoded [OF assms(5,2)] _ assms(2) _ assms(6) _ assms(8)] assms(4,5)
    by (simp add: collect_scan_layers_def exchange_fits_def assms(7) Let_def hid)
  have "\<forall>e \<in> set ?es. fe_layer e < batch_marker \<and> length (fe_output e) = s * h"
    using assms(2) answers_length [OF layer_answer_answers [OF assms(1)] assms(3,4)] by (auto simp: can_serve_def)
  then have d: "decode_reply_batch widen json h (ct, encode_response narrow ct ?out) =
      Inr (output_map (wire_kept narrow widen ct s) ?es)"
    using reply_batch_decoded [of ?out s h ct widen json narrow] assms(5,6) ct by simp
  show ?thesis using that [OF h] d by (simp only: output_map_answers)
qed

lemma remote_single:
  assumes "l2_sound hash ms c" "can_serve m [l]" "same_shape (insert m ms) h s" "length r = s * h"
    and "exchange_fits 1 s h" "0 < s"
    and "ct = preferred_response_ct (wf_f16_disabled flags) (wf_i8_enabled flags) accept"
    and "length (encode_binary_request (Some l) None r s True 8092) \<le> body_limit"
    and "v = layer_answer hash c m (sent_request (Some l) None r s) l"
  obtains body where "fst (handle_binary hash narrow flags [m] latency accept
      (encode_binary_request (Some l) None r s True 8092) c) = Inr (ct, body)"
    and "decode_reply_single widen json h (ct, body) = Inr (wire_kept narrow widen ct s v)"
    and "length (wire_kept narrow widen ct s v) = s * h"
proof -
  have hid: "fm_hidden m = h" using assms(3) by (simp add: same_shape_def)
  let ?e = "\<lparr>fe_layer = l, fe_output = v\<rparr>"
  let ?out = "\<lparr>fo_entries = [?e], fo_seq_len = s, fo_latency_ms = latency\<rparr>"
  have ct: "ct \<in> {ffn_ct, ffn_f16_ct, ffn_i8_ct}" unfolding assms(7) by (rule preferred_ct_known)
  have h: "fst (handle_binary hash narrow flags [m] latency accept (encode_binary_request (Some l) None r s True 8092) c)
      = Inr (ct, encode_response narrow ct ?out)"
    using handle_run [OF sent_single_decoded [OF assms(5,2)] _ assms(2) _ assms(6) _ assms(8)] assms(4,5)
    by (simp add: collect_scan_layers_def exchange_fits_def assms(7) assms(9) Let_def hid)
  have len: "length v = s * h" unfolding assms(9) using answers_length [OF layer_answer_answers [OF assms(1)] assms(3,4)] .
  have d: "decode_reply_single widen json h (ct, encode_response narrow ct ?out) = Inr (wire_kept narrow widen ct s v)"
    using reply_single_decoded [of s h ?out ?e ct widen json narrow] assms(2,5,6) len ct by (simp add: can_serve_def)
  show ?thesis using that [OF h d length_wire_kept [OF assms(6) len]] .
qed

end
