(* ===== verification/RouterDispatch.thy ===== *)
theory RouterDispatch
  imports GridState SchemaAst Rust_Str FfnWire
begin

text \<open>
  How the router dispatches a request: the static shards (\<open>crates/larql-router/src/shards.rs\<close>), the helpers of the
  fan-out (\<open>dispatch.rs\<close>) and the handler of \<open>/v1/walk-ffn\<close> up to the sub-requests it sends (\<open>http.rs\<close>). A
  \<open>HashMap\<close> that is iterated is an association list in some order of iteration. \<open>parse\<close> is
  \<open>serde_json::from_slice\<close>, \<open>u64\<close> is \<open>as_u64\<close> on a number and \<open>num\<close> makes a number of a \<open>usize\<close>.
\<close>

section \<open>Static shards\<close>

record shard =
  sh_layer_start :: nat
  sh_layer_end :: nat
  sh_url :: string

definition shard_owns :: "shard \<Rightarrow> nat \<Rightarrow> bool" where
  "shard_owns s layer \<longleftrightarrow> sh_layer_start s \<le> layer \<and> layer < sh_layer_end s"

datatype shard_error =
    ExpectedUrl string
  | ExpectedRange string
  | InvalidStart string
  | InvalidEnd string
  | EndBeforeStart nat nat
  | NoShards

text \<open>In a release build \<open>end + 1\<close> wraps.\<close>

definition parse_shard :: "string \<Rightarrow> shard_error + shard" where
  "parse_shard part =
     (case split_once CHR ''='' part of
        None \<Rightarrow> Inl (ExpectedUrl part)
      | Some (span, url) \<Rightarrow>
          (case split_once CHR ''-'' span of
             None \<Rightarrow> Inl (ExpectedRange span)
           | Some (start_s, end_s) \<Rightarrow>
               (case parse_usize (trim start_s) of
                  None \<Rightarrow> Inl (InvalidStart start_s)
                | Some first \<Rightarrow>
                    (case parse_usize (trim end_s) of
                       None \<Rightarrow> Inl (InvalidEnd end_s)
                     | Some final \<Rightarrow>
                         if final < first then Inl (EndBeforeStart final first)
                         else Inr \<lparr>sh_layer_start = first, sh_layer_end = (final + 1) mod 2 ^ 64, sh_url = trim url\<rparr>))))"

definition parse_shards :: "string \<Rightarrow> shard_error + shard list" where
  "parse_shards spec =
     res_bind (result_map parse_shard (filter (\<lambda>part. part \<noteq> []) (List.map trim (split_char CHR '','' spec))))
       (\<lambda>shards. if shards = [] then Inl NoShards else Inr shards)"

definition find_shard_for_layer :: "shard list \<Rightarrow> nat \<Rightarrow> shard option" where
  "find_shard_for_layer shards layer = find (\<lambda>s. shard_owns s layer) shards"

section \<open>Resolving layers\<close>

text \<open>A URL for every layer from the static shards, added to \<open>out\<close>; or the first layer without one.\<close>

fun resolve_static :: "shard list \<Rightarrow> nat list \<Rightarrow> (nat \<times> string) list \<Rightarrow> nat + (nat \<times> string) list" where
  "resolve_static shards [] out = Inr out"
| "resolve_static shards (layer # layers) out =
     (case find_shard_for_layer shards layer of
        Some s \<Rightarrow> resolve_static shards layers (AList.update layer (sh_url s) out)
      | None \<Rightarrow> Inl layer)"

definition resolve_static_only :: "shard list \<Rightarrow> nat list \<Rightarrow> nat + (nat \<times> string) list" where
  "resolve_static_only shards layers = resolve_static shards layers []"

text \<open>The pass over the grid: what it resolves, and the layers it does not.\<close>

fun resolve_grid ::
  "string option \<Rightarrow> grid \<Rightarrow> nat list \<Rightarrow> (nat \<times> string) list \<Rightarrow> nat list \<Rightarrow> (nat \<times> string) list \<times> nat list" where
  "resolve_grid model g [] out needed = (out, needed)"
| "resolve_grid model g (layer # layers) out needed =
     (case route model (layer mod 2 ^ 32) g of
        Some url \<Rightarrow> resolve_grid model g layers (AList.update layer url out) needed
      | None \<Rightarrow> resolve_grid model g layers out (needed @ [layer]))"

record router_state =
  ro_static_shards :: "shard list"
  ro_grid :: "grid option"
  ro_hedge_after :: "nat option"

definition resolve_all :: "router_state \<Rightarrow> string option \<Rightarrow> nat list \<Rightarrow> nat + (nat \<times> string) list" where
  "resolve_all st model layers =
     (case ro_grid st of
        Some g \<Rightarrow> (case resolve_grid model g layers [] [] of
            (out, needed) \<Rightarrow> resolve_static (ro_static_shards st) needed out)
      | None \<Rightarrow> resolve_static_only (ro_static_shards st) layers)"

section \<open>Requests\<close>

datatype request_spec = Dense "nat list" | Moe "(nat \<times> nat list) list"

definition spec_is_empty :: "request_spec \<Rightarrow> bool" where
  "spec_is_empty spec =
     (case spec of
        Dense layers \<Rightarrow> layers = []
      | Moe pairs \<Rightarrow> pairs = [] \<or> list_all (\<lambda>(_, exs). exs = []) pairs)"

datatype extract_error =
    BinaryHeader
  | InvalidJson
  | EntryNeedsLayer
  | EntryNeedsExperts
  | EntryEmptyExperts nat
  | ExpertsNeedLayer
  | ExpertsEmpty
  | NeedLayers

text \<open>\<open>v.get(key)\<close>: nothing when \<open>v\<close> is not an object.\<close>

definition field_of :: "'n json \<Rightarrow> string \<Rightarrow> 'n json option" where
  "field_of v key = (case v of JObject obj \<Rightarrow> jget obj key | _ \<Rightarrow> None)"

definition array_field :: "'n json \<Rightarrow> string \<Rightarrow> 'n json list option" where
  "array_field v key = (case field_of v key of Some (JArray xs) \<Rightarrow> Some xs | _ \<Rightarrow> None)"

definition u64_field :: "('n \<Rightarrow> nat option) \<Rightarrow> 'n json \<Rightarrow> string \<Rightarrow> nat option" where
  "u64_field u64 v key = (case field_of v key of Some x \<Rightarrow> as_number u64 x | None \<Rightarrow> None)"

definition u64_items :: "('n \<Rightarrow> nat option) \<Rightarrow> 'n json list \<Rightarrow> nat list" where
  "u64_items u64 xs = List.map_filter (as_number u64) xs"

definition expert_items :: "('n \<Rightarrow> nat option) \<Rightarrow> 'n json list \<Rightarrow> nat list" where
  "expert_items u64 xs = List.map (\<lambda>n. n mod 2 ^ 32) (u64_items u64 xs)"

definition layer_experts_entry :: "('n \<Rightarrow> nat option) \<Rightarrow> 'n json \<Rightarrow> extract_error + nat \<times> nat list" where
  "layer_experts_entry u64 item =
     (case u64_field u64 item ''layer'' of
        None \<Rightarrow> Inl EntryNeedsLayer
      | Some layer \<Rightarrow>
          (case array_field item ''experts'' of
             None \<Rightarrow> Inl EntryNeedsExperts
           | Some xs \<Rightarrow>
               let experts = expert_items u64 xs in
               if experts = [] then Inl (EntryEmptyExperts layer) else Inr (layer, experts)))"

definition json_spec :: "('n \<Rightarrow> nat option) \<Rightarrow> 'n json \<Rightarrow> extract_error + request_spec" where
  "json_spec u64 v =
     (case array_field v ''layer_experts'' of
        Some items \<Rightarrow> res_bind (result_map (layer_experts_entry u64) items) (Inr \<circ> Moe)
      | None \<Rightarrow>
          (case array_field v ''experts'' of
             Some xs \<Rightarrow>
               (case u64_field u64 v ''layer'' of
                  None \<Rightarrow> Inl ExpertsNeedLayer
                | Some layer \<Rightarrow>
                    let experts = expert_items u64 xs in
                    if experts = [] then Inl ExpertsEmpty else Inr (Moe [(layer, experts)]))
           | None \<Rightarrow>
               (case array_field v ''layers'' of
                  Some xs \<Rightarrow> Inr (Dense (u64_items u64 xs))
                | None \<Rightarrow>
                    (case u64_field u64 v ''layer'' of
                       Some n \<Rightarrow> Inr (Dense [n])
                     | None \<Rightarrow> Inl NeedLayers))))"

text \<open>The bytes of a string of code points.\<close>

definition utf8_char :: "nat \<Rightarrow> nat list" where
  "utf8_char c =
     (if c < 0x80 then [c]
      else if c < 0x800 then [0xC0 + c div 0x40, 0x80 + c mod 0x40]
      else if c < 0x10000 then [0xE0 + c div 0x1000, 0x80 + c div 0x40 mod 0x40, 0x80 + c mod 0x40]
      else [0xF0 + c div 0x40000, 0x80 + c div 0x1000 mod 0x40, 0x80 + c div 0x40 mod 0x40, 0x80 + c mod 0x40])"

definition utf8_bytes :: "ustring \<Rightarrow> string" where
  "utf8_bytes s = List.map char_of (concat (List.map utf8_char s))"

definition json_model_id :: "'n json \<Rightarrow> ustring option" where
  "json_model_id v = (case field_of v ''model_id'' of Some x \<Rightarrow> as_str x | None \<Rightarrow> None)"

definition extract_request_spec_and_model_id ::
  "(string \<Rightarrow> 'n json option) \<Rightarrow> ('n \<Rightarrow> nat option) \<Rightarrow> string \<Rightarrow> bool \<Rightarrow> extract_error + request_spec \<times> ustring option" where
  "extract_request_spec_and_model_id parse u64 body is_binary =
     (if is_binary then
        (case peek_binary body of
           None \<Rightarrow> Inl BinaryHeader
         | Some layers \<Rightarrow> Inr (Dense layers, None))
      else case parse body of
          None \<Rightarrow> Inl InvalidJson
        | Some v \<Rightarrow> res_bind (json_spec u64 v) (\<lambda>spec. Inr (spec, json_model_id v)))"

section \<open>The fan-out\<close>

definition group_layers_by_url :: "(nat \<times> string) list \<Rightarrow> (string \<times> nat list) list" where
  "group_layers_by_url layer_urls = foldl (\<lambda>m (layer, url). alist_push url layer m) [] layer_urls"

definition remove_key :: "string \<Rightarrow> (ustring \<times> 'n json) list \<Rightarrow> (ustring \<times> 'n json) list" where
  "remove_key key obj = AList.delete (chars key) obj"

definition insert_key :: "string \<Rightarrow> 'n json \<Rightarrow> (ustring \<times> 'n json) list \<Rightarrow> (ustring \<times> 'n json) list" where
  "insert_key key v obj = AList.update (chars key) v obj"

text \<open>\<^const>\<open>None\<close> is the panic of a template that is not an object.\<close>

definition build_subrequest_body :: "(nat \<Rightarrow> 'n) \<Rightarrow> 'n json \<Rightarrow> nat list \<Rightarrow> 'n json option" where
  "build_subrequest_body num template shard_layers =
     (case template of
        JObject obj \<Rightarrow> Some (JObject
          (case shard_layers of
             [l] \<Rightarrow> remove_key ''layers'' (insert_key ''layer'' (JNumber (num l)) obj)
           | ls \<Rightarrow> remove_key ''layer'' (insert_key ''layers'' (JArray (List.map (JNumber \<circ> num) ls)) obj)))
      | _ \<Rightarrow> None)"

text \<open>The rows of \<open>merge_shard_responses\<close>; its other field is the largest latency.\<close>

definition response_rows :: "'n json \<Rightarrow> 'n json list" where
  "response_rows resp =
     (case array_field resp ''results'' of
        Some rows \<Rightarrow> rows
      | None \<Rightarrow> (case field_of resp ''layer'' of Some _ \<Rightarrow> [resp] | None \<Rightarrow> []))"

definition row_layer :: "('n \<Rightarrow> nat option) \<Rightarrow> 'n json \<Rightarrow> nat" where
  "row_layer u64 row = (case u64_field u64 row ''layer'' of Some n \<Rightarrow> n | None \<Rightarrow> 0)"

definition merged_rows :: "('n \<Rightarrow> nat option) \<Rightarrow> 'n json list \<Rightarrow> 'n json list" where
  "merged_rows u64 responses = sort_key (row_layer u64) (concat (List.map response_rows responses))"

definition unique_candidate_urls :: "string list \<Rightarrow> shard list \<Rightarrow> string list" where
  "unique_candidate_urls grid_urls static_shards =
     foldl (\<lambda>out url. if url \<in> set out then out else out @ [url]) [] (grid_urls @ List.map sh_url static_shards)"

section \<open>The handler\<close>

datatype route_failure =
    BodyNotRead
  | BadRequestBody extract_error
  | EmptyLayerList
  | NoOwningShard nat
  | Saturated nat
  | BinaryFanOut
  | GridRequired
  | NoExpertShard nat nat

definition status_code :: "route_failure \<Rightarrow> nat" where
  "status_code f = (case f of Saturated _ \<Rightarrow> 503 | GridRequired \<Rightarrow> 503 | NoExpertShard _ _ \<Rightarrow> 503 | _ \<Rightarrow> 400)"

text \<open>What is sent: the body as it came to one shard, or a body to each of several, with a second URL to hedge with.\<close>

datatype 'n request_plan =
    ProxyRaw string string string
  | FanOut "(string \<times> string option \<times> 'n json option) list"

text \<open>Nobody owns the layer, or somebody does but is saturated.\<close>

definition missing_layer :: "router_state \<Rightarrow> string option \<Rightarrow> nat \<Rightarrow> route_failure" where
  "missing_layer st model layer =
     (case ro_grid st of
        Some g \<Rightarrow> if has_owners_for model (layer mod 2 ^ 32) g then Saturated layer else NoOwningShard layer
      | None \<Rightarrow> NoOwningShard layer)"

definition secondary_url :: "string list \<Rightarrow> string \<Rightarrow> string option" where
  "secondary_url ranked primary = find (\<lambda>u. u \<noteq> primary) ranked"

definition dense_secondary :: "router_state \<Rightarrow> string option \<Rightarrow> string \<times> nat list \<Rightarrow> string option" where
  "dense_secondary st model = (\<lambda>(primary, layers).
     case (ro_hedge_after st, ro_grid st) of
       (Some _, Some g) \<Rightarrow>
         secondary_url (route_with_rank model ((case layers of l # _ \<Rightarrow> l | [] \<Rightarrow> 0) mod 2 ^ 32) 2 g) primary
     | _ \<Rightarrow> None)"

definition binary_ct :: string where
  "binary_ct = ''application/x-larql-ffn''"

definition dense_dispatch ::
  "(string \<Rightarrow> 'n json option) \<Rightarrow> (nat \<Rightarrow> 'n) \<Rightarrow> router_state \<Rightarrow> string \<Rightarrow> bool \<Rightarrow> string option \<Rightarrow> nat list \<Rightarrow>
     route_failure + 'n request_plan" where
  "dense_dispatch parse num st body is_binary model layers =
     (case resolve_all st model layers of
        Inl missing \<Rightarrow> Inl (missing_layer st model missing)
      | Inr layer_urls \<Rightarrow>
          if length (remdups (List.map snd layer_urls)) = 1 \<or> length layers = 1 then
            Inr (ProxyRaw (snd (hd layer_urls)) (if is_binary then binary_ct else ''application/json'') body)
          else if is_binary then Inl BinaryFanOut
          else case parse body of
              None \<Rightarrow> Inl (BadRequestBody InvalidJson)
            | Some v \<Rightarrow> Inr (FanOut
                (List.map (\<lambda>(url, ls). (url, dense_secondary st model (url, ls), build_subrequest_body num v ls))
                  (group_layers_by_url layer_urls))))"

text \<open>Pairs of a layer and an expert by URL, then by layer.\<close>

definition push_expert ::
  "(nat \<times> nat) \<times> string \<Rightarrow> (string \<times> (nat \<times> nat list) list) list \<Rightarrow> (string \<times> (nat \<times> nat list) list) list" where
  "push_expert = (\<lambda>((layer, expert), url) m.
     AList.update url (alist_push layer expert (case map_of m url of Some xs \<Rightarrow> xs | None \<Rightarrow> [])) m)"

definition group_experts_by_url :: "((nat \<times> nat) \<times> string) list \<Rightarrow> (string \<times> (nat \<times> nat list) list) list" where
  "group_experts_by_url pairs = foldl (\<lambda>m p. push_expert p m) [] pairs"

definition expert_body :: "(nat \<Rightarrow> 'n) \<Rightarrow> ustring option \<Rightarrow> (nat \<times> nat list) list \<Rightarrow> 'n json" where
  "expert_body num model_id entries = JObject
     ((case model_id of Some m \<Rightarrow> [(chars ''model_id'', JString m)] | None \<Rightarrow> []) @
      [(chars ''layer_experts'', JArray (List.map (\<lambda>(layer, experts). JObject
         [(chars ''layer'', JNumber (num layer)),
          (chars ''experts'', JArray (List.map (JNumber \<circ> num) (sort experts)))]) entries))])"

definition moe_secondary ::
  "router_state \<Rightarrow> grid \<Rightarrow> string option \<Rightarrow> string \<times> (nat \<times> nat list) list \<Rightarrow> string option" where
  "moe_secondary st g model = (\<lambda>(primary, entries).
     case ro_hedge_after st of
       None \<Rightarrow> None
     | Some _ \<Rightarrow>
         (let (layer, expert) = (case entries of (l, e # _) # _ \<Rightarrow> (l mod 2 ^ 32, e) | _ \<Rightarrow> (0, 0)) in
          secondary_url (route_expert_with_rank model layer expert 2 g) primary))"

definition moe_dispatch ::
  "(nat \<Rightarrow> 'n) \<Rightarrow> router_state \<Rightarrow> ustring option \<Rightarrow> (nat \<times> nat list) list \<Rightarrow> route_failure + 'n request_plan" where
  "moe_dispatch num st model_id pairs =
     (case ro_grid st of
        None \<Rightarrow> Inl GridRequired
      | Some g \<Rightarrow>
          let model = map_option utf8_bytes model_id;
              flat = concat (List.map (\<lambda>(layer, experts). List.map (\<lambda>e. (layer, e)) experts) pairs) in
          (case route_all_experts model flat g [] of
             Inl (layer, expert) \<Rightarrow> Inl (NoExpertShard layer expert)
           | Inr urls \<Rightarrow> Inr (FanOut
               (List.map (\<lambda>(url, entries). (url, moe_secondary st g model (url, entries), Some (expert_body num model_id entries)))
                 (group_experts_by_url urls)))))"

text \<open>\<open>handle_walk_ffn_inner\<close> up to the requests it sends.\<close>

definition plan_request ::
  "(string \<Rightarrow> 'n json option) \<Rightarrow> ('n \<Rightarrow> nat option) \<Rightarrow> (nat \<Rightarrow> 'n) \<Rightarrow> router_state \<Rightarrow> bool \<Rightarrow> string \<Rightarrow>
     route_failure + 'n request_plan" where
  "plan_request parse u64 num st is_binary body =
     (if body_limit < length body then Inl BodyNotRead
      else case extract_request_spec_and_model_id parse u64 body is_binary of
        Inl e \<Rightarrow> Inl (BadRequestBody e)
      | Inr (spec, model_id) \<Rightarrow>
          if spec_is_empty spec then Inl EmptyLayerList
          else case spec of
              Moe pairs \<Rightarrow> moe_dispatch num st model_id pairs
            | Dense layers \<Rightarrow> dense_dispatch parse num st body is_binary (map_option utf8_bytes model_id) layers)"

section \<open>Hedging\<close>

record hedge_outcome =
  ho_fired :: bool
  ho_won :: bool

text \<open>
  \<open>hedged_post_json\<close>: a reply is the time it takes from its sending and its result; both selections prefer the first
  reply.
\<close>

definition hedged_post :: "nat \<times> 'r \<Rightarrow> (nat \<times> 'r) option \<Rightarrow> nat option \<Rightarrow> 'r \<times> hedge_outcome" where
  "hedged_post primary secondary hedge_after =
     (case (secondary, hedge_after) of
        (Some (t2, r2), Some d) \<Rightarrow>
          (if fst primary \<le> d then (snd primary, \<lparr>ho_fired = False, ho_won = False\<rparr>)
           else if fst primary \<le> d + t2 then (snd primary, \<lparr>ho_fired = True, ho_won = False\<rparr>)
           else (r2, \<lparr>ho_fired = True, ho_won = True\<rparr>))
      | _ \<Rightarrow> (snd primary, \<lparr>ho_fired = False, ho_won = False\<rparr>))"

end
