(* ===== verification/RouterDispatchLaws.thy ===== *)
theory RouterDispatchLaws
  imports RouterDispatch GridReplication "HOL-Library.Multiset"
begin

text \<open>
  What the dispatch does: which URL a layer is resolved to, that the sub-requests of a fan-out partition the request
  and are read back as their part of it, and that the merged answer has the rows of all the replies in order.
\<close>

section \<open>Association lists\<close>

lemma find_filter: "find P (filter Q xs) = find (\<lambda>x. Q x \<and> P x) xs"
  by (induction xs) auto

lemma find_cong_on: "(\<And>x. x \<in> set xs \<Longrightarrow> P x = Q x) \<Longrightarrow> find P xs = find Q xs"
  by (induction xs) auto

lemma min_by_mem: "min_by cmp xs = Some x \<Longrightarrow> x \<in> set xs"
proof -
  have f: "foldl (\<lambda>best y. if cmp best y = OrdGreater then y else best) z ys \<in> insert z (set ys)" for z ys
  proof (induction ys arbitrary: z)
    case (Cons y ys)
    show ?case using Cons [of "if cmp z y = OrdGreater then y else z"] by (auto split: if_splits)
  qed simp
  show "min_by cmp xs = Some x \<Longrightarrow> x \<in> set xs" using f by (auto simp: min_by_def split: list.splits)
qed

section \<open>Resolving layers\<close>

text \<open>The URL of a layer: the grid's route, else that of the first static shard that owns it.\<close>

definition grid_url :: "string option \<Rightarrow> grid \<Rightarrow> nat \<Rightarrow> string option" where
  "grid_url model g layer = route model (layer mod 2 ^ 32) g"

definition layer_url :: "router_state \<Rightarrow> string option \<Rightarrow> nat \<Rightarrow> string option" where
  "layer_url st model layer =
     (case (case ro_grid st of Some g \<Rightarrow> grid_url model g layer | None \<Rightarrow> None) of
        Some url \<Rightarrow> Some url
      | None \<Rightarrow> map_option sh_url (find_shard_for_layer (ro_static_shards st) layer))"

text \<open>What a resolution must be: a URL for each layer, as \<open>f\<close> says; or the first layer for which it has none.\<close>

definition resolution :: "(nat \<Rightarrow> string option) \<Rightarrow> nat list \<Rightarrow> (nat \<Rightarrow> string option) \<Rightarrow> nat + (nat \<times> string) list \<Rightarrow> bool" where
  "resolution f layers m res \<longleftrightarrow>
     (case res of
        Inl l \<Rightarrow> find (\<lambda>l. f l = None) layers = Some l
      | Inr urls \<Rightarrow> distinct (map fst urls) \<and> (\<forall>l \<in> set layers. f l \<noteq> None) \<and>
          (\<forall>l. map_of urls l = (if l \<in> set layers then f l else m l)))"

lemma resolve_static_spec:
  "distinct (map fst out) \<Longrightarrow>
     resolution (\<lambda>l. map_option sh_url (find_shard_for_layer shards l)) layers (map_of out) (resolve_static shards layers out)"
proof (induction layers arbitrary: out)
  case (Cons layer layers)
  show ?case
  proof (cases "find_shard_for_layer shards layer")
    case (Some s)
    have d: "distinct (map fst (AList.update layer (sh_url s) out))" using Cons.prems by (rule keys_update)
    show ?thesis
      using Cons.IH [OF d] Some
      by (cases "resolve_static shards layers (AList.update layer (sh_url s) out)") (auto simp: resolution_def update_conv)
  qed (simp add: resolution_def)
qed (simp add: resolution_def)

lemma resolve_grid_step:
  "resolve_grid model g (layer # layers) out needed =
     (case grid_url model g layer of
        Some url \<Rightarrow> resolve_grid model g layers (AList.update layer url out) needed
      | None \<Rightarrow> resolve_grid model g layers out (needed @ [layer]))"
  by (simp add: grid_url_def)

lemma resolve_grid_spec:
  assumes "distinct (map fst out)" "resolve_grid model g layers out needed = (out', needed')"
  shows "distinct (map fst out') \<and>
    (\<forall>l. map_of out' l = (if l \<in> set layers \<and> grid_url model g l \<noteq> None then grid_url model g l else map_of out l)) \<and>
    needed' = needed @ filter (\<lambda>l. grid_url model g l = None) layers"
  using assms
proof (induction layers arbitrary: out needed)
  case (Cons layer layers)
  show ?case
  proof (cases "grid_url model g layer")
    case None
    then have "resolve_grid model g layers out (needed @ [layer]) = (out', needed')"
      using Cons.prems(2) by (simp add: resolve_grid_step del: resolve_grid.simps)
    from Cons.IH [OF Cons.prems(1) this] None show ?thesis by auto
  next
    case (Some url)
    have d: "distinct (map fst (AList.update layer url out))" using Cons.prems(1) by (rule keys_update)
    have "resolve_grid model g layers (AList.update layer url out) needed = (out', needed')"
      using Cons.prems(2) Some by (simp add: resolve_grid_step del: resolve_grid.simps)
    from Cons.IH [OF d this] Some show ?thesis by (auto simp: update_conv)
  qed
qed simp

lemma resolve_all_spec: "resolution (layer_url st model) layers Map.empty (resolve_all st model layers)"
proof (cases "ro_grid st")
  case None
  then show ?thesis
    using resolve_static_spec [of "[]" "ro_static_shards st" layers]
    by (simp add: resolve_all_def resolve_static_only_def layer_url_def [abs_def])
next
  case (Some g)
  let ?sh = "ro_static_shards st"
  obtain out needed where g: "resolve_grid model g layers [] [] = (out, needed)"
    by (cases "resolve_grid model g layers [] []")
  have d: "distinct (map fst out)"
    and m: "map_of out l = (if l \<in> set layers \<and> grid_url model g l \<noteq> None then grid_url model g l else None)"
    and n: "needed = filter (\<lambda>l. grid_url model g l = None) layers" for l
    using resolve_grid_spec [OF _ g] by simp_all
  have u: "layer_url st model l = (case grid_url model g l of Some url \<Rightarrow> Some url
      | None \<Rightarrow> map_option sh_url (find_shard_for_layer ?sh l))" for l
    by (simp add: layer_url_def Some)
  have f: "find (\<lambda>l. map_option sh_url (find_shard_for_layer ?sh l) = None) needed = find (\<lambda>l. layer_url st model l = None) layers"
    unfolding n find_filter by (rule find_cong_on) (auto simp: u split: option.splits)
  have s: "resolve_all st model layers = resolve_static ?sh needed out"
    by (simp add: resolve_all_def Some g)
  show ?thesis
  proof (cases "resolve_static ?sh needed out")
    case (Inl l)
    then show ?thesis using resolve_static_spec [OF d, of ?sh needed] f by (simp add: resolution_def s)
  next
    case (Inr urls)
    then have r: "distinct (map fst urls)" "\<forall>l \<in> set needed. find_shard_for_layer ?sh l \<noteq> None"
      "\<forall>l. map_of urls l = (if l \<in> set needed then map_option sh_url (find_shard_for_layer ?sh l) else map_of out l)"
      using resolve_static_spec [OF d, of ?sh needed] by (simp_all add: resolution_def)
    have "layer_url st model l \<noteq> None" if "l \<in> set layers" for l
      using r(2) that by (cases "grid_url model g l") (auto simp: u n)
    moreover have "map_of urls l = (if l \<in> set layers then layer_url st model l else None)" for l
      using r(3) by (cases "grid_url model g l") (auto simp: u n m)
    ultimately show ?thesis using r(1) by (simp add: resolution_def s Inr)
  qed
qed

section \<open>The dense fan-out\<close>

lemma groups_of_urls:
  assumes "distinct (map fst urls)" "(url, ls) \<in> set (group_layers_by_url urls)"
  shows "distinct (map fst (group_layers_by_url urls))" "ls \<noteq> []" "distinct ls" "set ls = {l. map_of urls l = Some url}"
proof -
  have g: "group_layers_by_url urls = foldl (\<lambda>m e. alist_push (snd e) (fst e) m) [] urls"
    by (simp add: group_layers_by_url_def case_prod_unfold)
  note p = alist_pushed [of snd fst urls, folded g]
  show d: "distinct (map fst (group_layers_by_url urls))" using p by simp
  have "map_of (group_layers_by_url urls) url = Some ls" using assms(2) d by simp
  then have l: "ls = map fst (filter (\<lambda>e. snd e = url) urls)" "ls \<noteq> []"
    using p by (auto simp: some_unless_empty_eq)
  show "ls \<noteq> []" by (rule l(2))
  show "distinct ls" unfolding l(1) using assms(1) by (induction urls) auto
  show "set ls = {l. map_of urls l = Some url}"
    unfolding l(1) using assms(1) by (auto simp: image_iff intro: rev_bexI)
qed

lemma groups_urls: "fst ` set (group_layers_by_url urls) = snd ` set urls"
proof -
  have g: "group_layers_by_url urls = foldl (\<lambda>m e. alist_push (snd e) (fst e) m) [] urls"
    by (simp add: group_layers_by_url_def case_prod_unfold)
  have "dom (map_of (group_layers_by_url urls)) = snd ` set urls"
    using alist_pushed [of snd fst urls, folded g]
    by (auto simp: dom_def some_unless_empty_def filter_empty_conv image_iff)
  then show ?thesis by (simp add: dom_map_of_conv_image_fst)
qed

lemma chars_eq [simp]: "chars a = chars b \<longleftrightarrow> a = b"
  by (auto simp: chars_def inj_map_eq_map inj_on_def)

lemma field_of_object [simp]: "field_of (JObject obj) key = map_of obj (chars key)"
  by (simp add: field_of_def)

text \<open>A number of the code is read back as itself.\<close>

definition reads_numbers :: "('n \<Rightarrow> nat option) \<Rightarrow> (nat \<Rightarrow> 'n) \<Rightarrow> bool" where
  "reads_numbers u64 num \<longleftrightarrow> (\<forall>n. u64 (num n) = Some n)"

lemma u64_items_num: "reads_numbers u64 num \<Longrightarrow> u64_items u64 (map (JNumber \<circ> num) ls) = ls"
  by (induction ls) (simp_all add: u64_items_def as_number_def reads_numbers_def List.map_filter_simps)

lemma dense_object:
  assumes "json_spec u64 v = Inr (Dense layers)"
  obtains obj where "v = JObject obj" "array_field v ''layer_experts'' = None" "array_field v ''experts'' = None"
proof -
  have "array_field v ''layer_experts'' = None" "array_field v ''experts'' = None"
    using assms by (auto simp: json_spec_def res_bind_Inr Let_def split: option.splits if_splits)
  moreover have "\<exists>obj. v = JObject obj"
    using assms by (cases v) (simp_all add: json_spec_def array_field_def u64_field_def field_of_def)
  ultimately show ?thesis using that by blast
qed

lemma subrequest_read:
  assumes "json_spec u64 v = Inr (Dense layers)" "reads_numbers u64 num" "ls \<noteq> []"
  obtains b where "build_subrequest_body num v ls = Some b" "json_spec u64 b = Inr (Dense ls)"
    and "\<forall>key. key \<noteq> ''layer'' \<and> key \<noteq> ''layers'' \<longrightarrow> field_of b key = field_of v key"
proof -
  obtain obj where v: "v = JObject obj" "array_field v ''layer_experts'' = None" "array_field v ''experts'' = None"
    using dense_object [OF assms(1)] .
  show ?thesis
  proof (cases "\<exists>l. ls = [l]")
    case True
    then obtain l where l: "ls = [l]" by blast
    let ?b = "JObject (remove_key ''layers'' (insert_key ''layer'' (JNumber (num l)) obj))"
    have f: "field_of ?b key = (if key = ''layers'' then None else if key = ''layer'' then Some (JNumber (num l)) else field_of v key)" for key
      by (simp add: remove_key_def insert_key_def delete_conv' update_conv' v(1))
    have "json_spec u64 ?b = Inr (Dense ls)"
      using v(2,3) assms(2) by (simp add: json_spec_def array_field_def u64_field_def f l as_number_def reads_numbers_def
          del: field_of_object)
    then show ?thesis using that [of ?b] f by (simp add: build_subrequest_body_def v(1) l)
  next
    case False
    let ?b = "JObject (remove_key ''layer'' (insert_key ''layers'' (JArray (map (JNumber \<circ> num) ls)) obj))"
    have f: "field_of ?b key = (if key = ''layer'' then None
        else if key = ''layers'' then Some (JArray (map (JNumber \<circ> num) ls)) else field_of v key)" for key
      by (simp add: remove_key_def insert_key_def delete_conv' update_conv' v(1))
    have "json_spec u64 ?b = Inr (Dense ls)"
      using v(2,3) u64_items_num [OF assms(2)] by (simp add: json_spec_def array_field_def f del: field_of_object)
    moreover have "build_subrequest_body num v ls = Some ?b"
      using False assms(3) by (auto simp: build_subrequest_body_def v(1) split: list.split)
    ultimately show ?thesis using that [of ?b] f by simp
  qed
qed

lemma dense_subs:
  assumes "dense_dispatch parse num st body False model layers = Inr (FanOut subs)" "parse body = Some v"
    and "json_spec u64 v = Inr (Dense layers)" "reads_numbers u64 num"
  shows "distinct (map fst subs)" "fst ` set subs = {url. \<exists>l \<in> set layers. layer_url st model l = Some url}"
    and "(url, sec, sub) \<in> set subs \<Longrightarrow>
      \<exists>b ls. sub = Some b \<and> json_spec u64 b = Inr (Dense ls) \<and> distinct ls \<and> set ls = {l \<in> set layers. layer_url st model l = Some url} \<and>
        (\<forall>key. key \<noteq> ''layer'' \<and> key \<noteq> ''layers'' \<longrightarrow> field_of b key = field_of v key)"
proof -
  obtain urls where r: "resolve_all st model layers = Inr urls"
    and subs: "subs = map (\<lambda>(url, ls). (url, dense_secondary st model (url, ls), build_subrequest_body num v ls)) (group_layers_by_url urls)"
    using assms(1,2) by (auto simp: dense_dispatch_def split: sum.splits option.splits if_splits)
  have d: "distinct (map fst urls)" and m: "map_of urls l = (if l \<in> set layers then layer_url st model l else None)" for l
    using resolve_all_spec [of st model layers] by (simp_all add: r resolution_def)
  have f: "map fst subs = map fst (group_layers_by_url urls)" by (simp add: subs case_prod_unfold comp_def)
  show "distinct (map fst subs)"
    unfolding f using groups_of_urls(1) [OF d] by (cases "group_layers_by_url urls") auto
  have "fst ` set subs = snd ` set urls" using arg_cong [OF f, of set] groups_urls by simp
  also have "\<dots> = {url. \<exists>l. (l, url) \<in> set urls}" by force
  also have "\<dots> = {url. \<exists>l. map_of urls l = Some url}" using d by simp
  also have "\<dots> = {url. \<exists>l \<in> set layers. layer_url st model l = Some url}" using m by (auto split: if_splits)
  finally show "fst ` set subs = {url. \<exists>l \<in> set layers. layer_url st model l = Some url}" .
  show "\<exists>b ls. sub = Some b \<and> json_spec u64 b = Inr (Dense ls) \<and> distinct ls \<and> set ls = {l \<in> set layers. layer_url st model l = Some url} \<and>
        (\<forall>key. key \<noteq> ''layer'' \<and> key \<noteq> ''layers'' \<longrightarrow> field_of b key = field_of v key)" if i: "(url, sec, sub) \<in> set subs"
  proof -
    obtain ls where ls: "(url, ls) \<in> set (group_layers_by_url urls)" "sub = build_subrequest_body num v ls"
      using i by (auto simp: subs)
    note g = groups_of_urls [OF d ls(1)]
    have "set ls = {l \<in> set layers. layer_url st model l = Some url}" using g(4) m by (auto split: if_splits)
    moreover obtain b where "build_subrequest_body num v ls = Some b" "json_spec u64 b = Inr (Dense ls)"
      "\<forall>key. key \<noteq> ''layer'' \<and> key \<noteq> ''layers'' \<longrightarrow> field_of b key = field_of v key"
      using subrequest_read [OF assms(3,4) g(2)] .
    ultimately show ?thesis using g(3) ls(2) by (intro exI [of _ b] exI [of _ ls]) simp
  qed
qed

section \<open>The fan-out over experts\<close>

definition expert_url :: "grid \<Rightarrow> string option \<Rightarrow> nat \<times> nat \<Rightarrow> string option" where
  "expert_url g model = (\<lambda>(layer, expert). route_expert model (layer mod 2 ^ 32) expert g)"

lemma route_experts_spec:
  assumes "distinct (map fst out)" "route_all_experts model pairs g out = Inr urls"
  shows "distinct (map fst urls) \<and> (\<forall>p \<in> set pairs. expert_url g model p \<noteq> None) \<and>
    (\<forall>p. map_of urls p = (if p \<in> set pairs then expert_url g model p else map_of out p))"
  using assms
proof (induction pairs arbitrary: out)
  case (Cons p pairs)
  obtain layer expert where p: "p = (layer, expert)" by (cases p)
  obtain url where u: "expert_url g model p = Some url"
    and r: "route_all_experts model pairs g (AList.update p url out) = Inr urls"
    using Cons.prems(2) by (auto simp: p expert_url_def split: option.splits)
  have "distinct (map fst (AList.update p url out))" using Cons.prems(1) by (rule keys_update)
  from Cons.IH [OF this r] u show ?case by (auto simp: update_conv)
qed simp

lemma group_experts_spec:
  fixes ps :: "((nat \<times> nat) \<times> string) list"
  defines "groups \<equiv> \<lambda>ps. group_experts_by_url ps"
  shows "distinct (map fst (groups ps)) \<and> (\<forall>(url, xs) \<in> set (groups ps). distinct (map fst xs)) \<and>
    (\<forall>url layer. (case map_of (groups ps) url of Some xs \<Rightarrow> map_of xs layer | None \<Rightarrow> None) =
       some_unless_empty (map (\<lambda>p. snd (fst p)) (filter (\<lambda>p. snd p = url \<and> fst (fst p) = layer) ps)))"
proof (induction ps rule: rev_induct)
  case Nil
  then show ?case by (simp add: groups_def group_experts_by_url_def some_unless_empty_def)
next
  case (snoc p ps)
  obtain l e u where p: "p = ((l, e), u)" by (cases p) auto
  then have q: "snd p = u" "fst (fst p) = l" "snd (fst p) = e" by simp_all
  let ?xs = "case map_of (groups ps) u of Some xs \<Rightarrow> xs | None \<Rightarrow> []"
  have g: "groups (ps @ [p]) = AList.update u (alist_push l e ?xs) (groups ps)"
    by (simp add: groups_def group_experts_by_url_def push_expert_def p)
  have s: "(case map_of (groups ps) u of Some xs \<Rightarrow> map_of xs layer | None \<Rightarrow> None) =
       some_unless_empty (map (\<lambda>p. snd (fst p)) (filter (\<lambda>p. snd p = u \<and> fst (fst p) = layer) ps))" for layer
    using snoc by blast
  have look: "map_of ?xs layer = some_unless_empty (map (\<lambda>p. snd (fst p)) (filter (\<lambda>p. snd p = u \<and> fst (fst p) = layer) ps))" for layer
    using s [of layer] by (cases "map_of (groups ps) u") simp_all
  have d: "distinct (map fst ?xs)" using snoc by (auto split: option.splits dest!: map_of_SomeD)
  have dp: "distinct (map fst (alist_push l e ?xs))" unfolding alist_push_def by (rule keys_update [OF d])
  have "distinct (map fst (groups (ps @ [p])))" unfolding g by (rule keys_update) (use snoc in blast)
  moreover have "\<forall>(url, xs) \<in> set (groups (ps @ [p])). distinct (map fst xs)"
    unfolding g using snoc dp by (auto dest!: in_update)
  moreover have "(case map_of (groups (ps @ [p])) url of Some xs \<Rightarrow> map_of xs layer | None \<Rightarrow> None) =
       some_unless_empty (map (\<lambda>p. snd (fst p)) (filter (\<lambda>p. snd p = url \<and> fst (fst p) = layer) (ps @ [p])))" for url layer
  proof (cases "url = u")
    case True
    have "map_of (alist_push l e ?xs) layer = (if layer = l then Some ((case map_of ?xs l of Some ys \<Rightarrow> ys | None \<Rightarrow> []) @ [e]) else map_of ?xs layer)"
      unfolding alist_push_def update_conv by simp
    then show ?thesis using True look [of l] look [of layer]
      by (cases "layer = l") (simp_all add: g update_conv q some_unless_empty_def)
  next
    case False
    then show ?thesis using snoc by (simp add: g update_conv q)
  qed
  ultimately show ?case by blast
qed

lemma expert_items_num: "reads_numbers u64 num \<Longrightarrow> \<forall>e \<in> set es. e < 2 ^ 32 \<Longrightarrow> expert_items u64 (map (JNumber \<circ> num) es) = es"
  by (simp add: expert_items_def u64_items_num map_idI)

lemma expert_body_read:
  assumes "reads_numbers u64 num" "\<forall>(layer, es) \<in> set entries. es \<noteq> [] \<and> (\<forall>e \<in> set es. e < 2 ^ 32)"
  shows "json_spec u64 (expert_body num model_id entries) = Inr (Moe (map (\<lambda>(layer, es). (layer, sort es)) entries))"
    and "json_model_id (expert_body num model_id entries) = model_id"
    and "field_of (expert_body num model_id entries) key \<noteq> None \<longleftrightarrow>
      key = ''layer_experts'' \<or> key = ''model_id'' \<and> model_id \<noteq> None"
proof -
  let ?item = "\<lambda>(layer, es). JObject [(chars ''layer'', JNumber (num layer)),
    (chars ''experts'', JArray (map (JNumber \<circ> num) (sort es)))]"
  have item: "layer_experts_entry u64 (?item (layer, es)) = Inr (layer, sort es)"
    if "es \<noteq> []" "\<forall>e \<in> set es. e < 2 ^ 32" for layer es
  proof -
    have "sort es \<noteq> []" using that by (metis set_empty set_sort)
    then show ?thesis
      using that assms(1) expert_items_num [OF assms(1), of "sort es"]
      by (simp add: layer_experts_entry_def u64_field_def array_field_def as_number_def reads_numbers_def)
  qed
  have "result_map (layer_experts_entry u64) (map ?item xs) = Inr (map (\<lambda>(layer, es). (layer, sort es)) xs)"
    if "\<forall>(layer, es) \<in> set xs. es \<noteq> [] \<and> (\<forall>e \<in> set es. e < 2 ^ 32)" for xs
    using that item by (induction xs) auto
  then show "json_spec u64 (expert_body num model_id entries) = Inr (Moe (map (\<lambda>(layer, es). (layer, sort es)) entries))"
    using assms(2) by (simp add: json_spec_def array_field_def expert_body_def split: option.split)
  show "json_model_id (expert_body num model_id entries) = model_id"
    by (simp add: json_model_id_def expert_body_def as_str_def split: option.split)
  show "field_of (expert_body num model_id entries) key \<noteq> None \<longleftrightarrow>
      key = ''layer_experts'' \<or> key = ''model_id'' \<and> model_id \<noteq> None"
    by (auto simp: expert_body_def split: option.split)
qed

lemma sort_empty: "sort xs = [] \<longleftrightarrow> xs = []" for xs :: "nat list"
  by (metis set_empty set_sort)

definition requested :: "(nat \<times> nat list) list \<Rightarrow> (nat \<times> nat) set" where
  "requested pairs = {(l, e). \<exists>es. (l, es) \<in> set pairs \<and> e \<in> set es}"

lemma requested_flat: "set (concat (map (\<lambda>(layer, experts). map (\<lambda>e. (layer, e)) experts) pairs)) = requested pairs"
  by (auto simp: requested_def)

lemma expert_groups:
  assumes "distinct (map fst urls)" "(url, xs) \<in> set (group_experts_by_url urls)"
  shows "distinct (map fst xs)" "(l, es) \<in> set xs \<Longrightarrow> es \<noteq> [] \<and> distinct es \<and> set es = {e. map_of urls (l, e) = Some url}"
    and "map_of urls (l, e) = Some url \<Longrightarrow> \<exists>es. (l, es) \<in> set xs \<and> e \<in> set es"
proof -
  note s = group_experts_spec [of urls]
  have m: "map_of (group_experts_by_url urls) url = Some xs" using s assms(2) by simp
  then have look: "map_of xs layer = some_unless_empty (map (\<lambda>p. snd (fst p)) (filter (\<lambda>p. snd p = url \<and> fst (fst p) = layer) urls))" for layer
    using s by (metis (mono_tags, lifting) option.simps(5))
  show d: "distinct (map fst xs)" using s assms(2) by blast
  have mem: "map_of urls (l, e) = Some url \<longleftrightarrow> e \<in> set (map (\<lambda>p. snd (fst p)) (filter (\<lambda>p. snd p = url \<and> fst (fst p) = l) urls))" for l e
    using assms(1) by (force simp: image_iff)
  have dd: "distinct (map (\<lambda>p. snd (fst p)) (filter (\<lambda>p. snd p = url \<and> fst (fst p) = l) urls))" for l
    using assms(1) by (induction urls) (auto simp: image_iff)
  show "es \<noteq> [] \<and> distinct es \<and> set es = {e. map_of urls (l, e) = Some url}" if "(l, es) \<in> set xs"
  proof -
    have "map_of xs l = Some es" using that d by simp
    then have "es \<noteq> []" "es = map (\<lambda>p. snd (fst p)) (filter (\<lambda>p. snd p = url \<and> fst (fst p) = l) urls)"
      using look [of l] by (simp_all add: some_unless_empty_eq)
    then show ?thesis using mem [of l] dd [of l] by blast
  qed
  show "\<exists>es. (l, es) \<in> set xs \<and> e \<in> set es" if "map_of urls (l, e) = Some url"
  proof -
    have i: "e \<in> set (map (\<lambda>p. snd (fst p)) (filter (\<lambda>p. snd p = url \<and> fst (fst p) = l) urls))" using mem that by blast
    then have "map (\<lambda>p. snd (fst p)) (filter (\<lambda>p. snd p = url \<and> fst (fst p) = l) urls) \<noteq> []"
      by (metis empty_iff empty_set)
    then have "map_of xs l = Some (map (\<lambda>p. snd (fst p)) (filter (\<lambda>p. snd p = url \<and> fst (fst p) = l) urls))"
      using look [of l] by (simp only: some_unless_empty_def if_False)
    then show ?thesis using i by (blast dest: map_of_SomeD)
  qed
qed

lemma expert_group_urls:
  assumes "distinct (map fst urls)"
  shows "fst ` set (group_experts_by_url urls) = {url. \<exists>p. map_of urls p = Some url}"
proof -
  have "dom (map_of (foldl (\<lambda>m p. push_expert p m) acc ps)) = dom (map_of acc) \<union> snd ` set ps" for acc and ps :: "((nat \<times> nat) \<times> string) list"
    by (induction ps arbitrary: acc) (auto simp: push_expert_def update_conv')
  from this [of "[]" urls] have "fst ` set (group_experts_by_url urls) = snd ` set urls"
    by (simp add: group_experts_by_url_def dom_map_of_conv_image_fst)
  also have "\<dots> = {url. \<exists>p. (p, url) \<in> set urls}" by force
  also have "\<dots> = {url. \<exists>p. map_of urls p = Some url}" using assms by simp
  finally show ?thesis .
qed

lemma moe_subs:
  assumes "moe_dispatch num st model_id pairs = Inr (FanOut subs)" "ro_grid st = Some g" "reads_numbers u64 num"
    and "\<forall>(l, e) \<in> requested pairs. e < 2 ^ 32"
  shows "distinct (map fst subs)"
    "fst ` set subs = {url. \<exists>p \<in> requested pairs. expert_url g (map_option utf8_bytes model_id) p = Some url}"
    and "(url, sec, sub) \<in> set subs \<Longrightarrow>
      \<exists>b entries. sub = Some b \<and> json_spec u64 b = Inr (Moe entries) \<and> json_model_id b = model_id \<and> distinct (map fst entries) \<and>
        (\<forall>(l, es) \<in> set entries. es \<noteq> [] \<and> distinct es \<and> sorted es) \<and>
        requested entries = {p \<in> requested pairs. expert_url g (map_option utf8_bytes model_id) p = Some url} \<and>
        (\<forall>key. field_of b key \<noteq> None \<longleftrightarrow> key = ''layer_experts'' \<or> key = ''model_id'' \<and> model_id \<noteq> None)"
proof -
  let ?model = "map_option utf8_bytes model_id"
  let ?flat = "concat (map (\<lambda>(layer, experts). map (\<lambda>e. (layer, e)) experts) pairs)"
  obtain urls where r: "route_all_experts ?model ?flat g [] = Inr urls"
    and subs: "subs = map (\<lambda>(url, entries). (url, moe_secondary st g ?model (url, entries), Some (expert_body num model_id entries)))
      (group_experts_by_url urls)"
    using assms(1,2) by (auto simp: moe_dispatch_def Let_def split: sum.splits)
  have d: "distinct (map fst urls)"
    and m: "map_of urls p = (if p \<in> requested pairs then expert_url g ?model p else None)" for p
    using route_experts_spec [of "[]" ?model ?flat g urls] r
    by (simp_all only: requested_flat list.map distinct.simps map_of.simps simp_thms)
  have f: "map fst subs = map fst (group_experts_by_url urls)" by (simp add: subs case_prod_unfold comp_def)
  show "distinct (map fst subs)" unfolding f using group_experts_spec [of urls] by blast
  have "fst ` set subs = {url. \<exists>p. map_of urls p = Some url}"
    using arg_cong [OF f, of set] expert_group_urls [OF d] by simp
  also have "\<dots> = {url. \<exists>p \<in> requested pairs. expert_url g ?model p = Some url}" using m by (auto split: if_splits)
  finally show "fst ` set subs = {url. \<exists>p \<in> requested pairs. expert_url g ?model p = Some url}" .
  show "\<exists>b entries. sub = Some b \<and> json_spec u64 b = Inr (Moe entries) \<and> json_model_id b = model_id \<and> distinct (map fst entries) \<and>
        (\<forall>(l, es) \<in> set entries. es \<noteq> [] \<and> distinct es \<and> sorted es) \<and>
        requested entries = {p \<in> requested pairs. expert_url g ?model p = Some url} \<and>
        (\<forall>key. field_of b key \<noteq> None \<longleftrightarrow> key = ''layer_experts'' \<or> key = ''model_id'' \<and> model_id \<noteq> None)" if i: "(url, sec, sub) \<in> set subs"
  proof -
    obtain xs where xs: "(url, xs) \<in> set (group_experts_by_url urls)" "sub = Some (expert_body num model_id xs)"
      using i by (auto simp: subs)
    note g = expert_groups [OF d xs(1)]
    let ?entries = "map (\<lambda>(layer, es). (layer, sort es)) xs"
    have b: "\<forall>(l, es) \<in> set xs. es \<noteq> [] \<and> (\<forall>e \<in> set es. e < 2 ^ 32)"
      using g(2) m assms(4) by (fastforce split: if_splits)
    have "requested xs = {p. map_of urls p = Some url}" using g(2,3) by (fastforce simp: requested_def)
    moreover have "requested ?entries = requested xs" by (auto simp: requested_def image_iff split: prod.splits) force+
    moreover have "{p. map_of urls p = Some url} = {p \<in> requested pairs. expert_url g ?model p = Some url}"
      using m by (auto split: if_splits)
    moreover have "map fst ?entries = map fst xs" by (simp add: case_prod_unfold comp_def)
    ultimately have e: "requested ?entries = {p \<in> requested pairs. expert_url g ?model p = Some url}" "distinct (map fst ?entries)"
      using g(1) by (simp_all only:)
    have "\<forall>(l, es) \<in> set ?entries. es \<noteq> [] \<and> distinct es \<and> sorted es"
      using g(2) by (auto simp: sort_empty)
    with e show ?thesis
      using expert_body_read [OF assms(3) b, of model_id] xs(2)
      by (intro exI [of _ "expert_body num model_id xs"] exI [of _ ?entries] conjI) (simp_all only: simp_thms)
  qed
qed

section \<open>Merging\<close>

lemma merged_rows_spec:
  "sorted (map (row_layer u64) (merged_rows u64 rs)) \<and> mset (merged_rows u64 rs) = mset (concat (map response_rows rs))"
  by (simp add: merged_rows_def mset_sort)

end
