(* ===== verification/FfnSharded.thy ===== *)
theory FfnSharded
  imports FfnRemote RouterDispatchLaws
begin

text \<open>
  The client's own distribution of the layers over several servers
  (\<open>crates/larql-inference/src/ffn/remote/sharded.rs\<close>), against the router's. \<open>connect\<close> is the health check that makes
  a backend of a URL, and \<open>forward\<close> the call of a backend. Then the router as a client sees it: a binary request
  that is proxied to a shard (\<open>proxy_raw\<close> of \<open>crates/larql-router/src/http.rs\<close>).
\<close>

section \<open>Shard maps\<close>

record 'b layer_shard =
  ls_start :: nat
  ls_end :: nat
  ls_backend :: 'b

datatype 'e shard_map_error =
    MissingUrl string
  | BadLayerRange string
  | NotConnected 'e
  | NoSegments

definition parse_layer_range :: "string \<Rightarrow> (nat \<times> nat) option" where
  "parse_layer_range s =
     (case split_once CHR ''-'' s of
        None \<Rightarrow> None
      | Some (a, b) \<Rightarrow>
          (case (parse_usize (trim a), parse_usize (trim b)) of
             (Some first, Some final) \<Rightarrow> if first \<le> final then Some (first, final) else None
           | _ \<Rightarrow> None))"

text \<open>\<open>RemoteFfnConfig::new\<close> removes the slashes at the end of a URL.\<close>

definition base_url :: "string \<Rightarrow> string" where
  "base_url url = rev (dropWhile (\<lambda>c. c = CHR ''/'') (rev url))"

definition parse_segment :: "(string \<Rightarrow> 'e + 'b) \<Rightarrow> string \<Rightarrow> 'e shard_map_error + 'b layer_shard" where
  "parse_segment connect part =
     (case split_once CHR ''='' part of
        None \<Rightarrow> Inl (MissingUrl part)
      | Some (span, url) \<Rightarrow>
          (case parse_layer_range span of
             None \<Rightarrow> Inl (BadLayerRange span)
           | Some (first, final) \<Rightarrow>
               (case connect (base_url url) of
                  Inl e \<Rightarrow> Inl (NotConnected e)
                | Inr b \<Rightarrow> Inr \<lparr>ls_start = first, ls_end = final, ls_backend = b\<rparr>)))"

definition parse_shard_map :: "(string \<Rightarrow> 'e + 'b) \<Rightarrow> string \<Rightarrow> 'e shard_map_error + 'b layer_shard list" where
  "parse_shard_map connect spec =
     res_bind (result_map (parse_segment connect) (filter (\<lambda>part. part \<noteq> []) (map trim (split_char CHR '','' spec))))
       (\<lambda>shards. if shards = [] then Inl NoSegments else Inr shards)"

definition connect_sharded :: "(string \<Rightarrow> 'e + 'b) \<Rightarrow> string \<Rightarrow> 'e shard_map_error + 'b layer_shard list" where
  "connect_sharded connect spec =
     (if CHR ''='' \<in> set spec then parse_shard_map connect spec
      else case connect (base_url spec) of
          Inl e \<Rightarrow> Inl (NotConnected e)
        | Inr b \<Rightarrow> Inr [\<lparr>ls_start = 0, ls_end = 2 ^ 64 - 1, ls_backend = b\<rparr>])"

definition shard_for :: "'b layer_shard list \<Rightarrow> nat \<Rightarrow> 'b option" where
  "shard_for shards layer = map_option ls_backend (find (\<lambda>s. ls_start s \<le> layer \<and> layer \<le> ls_end s) shards)"

text \<open>\<open>forward\<close>: zeros of the input's shape when no shard owns the layer.\<close>

definition sharded_forward ::
  "('b \<Rightarrow> nat \<Rightarrow> f32 list \<Rightarrow> f32 list) \<Rightarrow> 'b layer_shard list \<Rightarrow> nat \<Rightarrow> f32 list \<Rightarrow> f32 list" where
  "sharded_forward forward shards layer x =
     (case shard_for shards layer of Some b \<Rightarrow> forward b layer x | None \<Rightarrow> replicate (length x) 0)"

section \<open>The two parsers agree\<close>

abbreviation up :: "string \<Rightarrow> unit + string" where
  "up \<equiv> Inr"

definition same_shard :: "shard \<Rightarrow> string layer_shard \<Rightarrow> bool" where
  "same_shard s c \<longleftrightarrow> sh_layer_start s = ls_start c \<and> sh_layer_end s = (ls_end c + 1) mod 2 ^ 64 \<and> ls_end c < 2 ^ 64 \<and>
     (\<exists>url. sh_url s = trim url \<and> ls_backend c = base_url url)"

lemma parse_usize_less: "parse_usize s = Some n \<Longrightarrow> n < 18446744073709551616"
  by (auto simp: parse_usize_def Let_def split: if_splits)

lemma segments_agree:
  "(\<exists>s c. parse_shard part = Inr s \<and> parse_segment up part = Inr c \<and> same_shard s c) \<or>
   (\<exists>e e'. parse_shard part = Inl e \<and> parse_segment up part = Inl e')"
  by (auto simp: parse_shard_def parse_segment_def parse_layer_range_def same_shard_def
      dest: parse_usize_less split: option.splits prod.splits)

lemma result_map_agree:
  assumes "\<And>x. (\<exists>a b. f x = Inr a \<and> g x = Inr b \<and> P a b) \<or> (\<exists>e e'. f x = Inl e \<and> g x = Inl e')"
  shows "(\<exists>as bs. result_map f xs = Inr as \<and> result_map g xs = Inr bs \<and> list_all2 P as bs) \<or>
    (\<exists>e e'. result_map f xs = Inl e \<and> result_map g xs = Inl e')"
proof (induction xs)
  case (Cons x xs)
  then show ?case using assms [of x] by (elim disjE exE conjE) (simp_all split: sum.split)
qed simp

lemma shard_maps_agree:
  "(\<exists>ss cs. parse_shards spec = Inr ss \<and> parse_shard_map up spec = Inr cs \<and> list_all2 same_shard ss cs) \<or>
   (\<exists>e e'. parse_shards spec = Inl e \<and> parse_shard_map up spec = Inl e')"
  using result_map_agree [of parse_shard "parse_segment up" same_shard, OF segments_agree,
      of "filter (\<lambda>part. part \<noteq> []) (map trim (split_char CHR '','' spec))"]
  by (elim disjE exE conjE) (auto simp: parse_shards_def parse_shard_map_def)

lemma owners_agree:
  assumes "list_all2 same_shard ss cs" "\<forall>c \<in> set cs. ls_end c < 2 ^ 64 - 1"
  shows "rel_option (\<lambda>s b. \<exists>url. sh_url s = trim url \<and> b = base_url url) (find_shard_for_layer ss l) (shard_for cs l)"
  using assms
proof (induction rule: list_all2_induct)
  case (Cons s ss c cs)
  have "shard_owns s l \<longleftrightarrow> ls_start c \<le> l \<and> l \<le> ls_end c"
    using Cons.hyps(1) Cons.prems by (auto simp: same_shard_def shard_owns_def)
  then show ?case
    using Cons.IH Cons.prems Cons.hyps(1) by (auto simp: find_shard_for_layer_def shard_for_def same_shard_def)
qed (simp add: find_shard_for_layer_def shard_for_def)

section \<open>The router's proxy\<close>

datatype hop_error = RouterRefused route_failure | ShardAnswered server_error

text \<open>
  The body goes to the shard as it came, with its content type but without the client's \<open>Accept\<close>; the reply comes
  back as it is. A binary request is never fanned out.
\<close>

definition proxy_raw ::
  "(string \<Rightarrow> string option \<Rightarrow> string \<Rightarrow> server_error + string \<times> string) \<Rightarrow> string \<Rightarrow> string \<Rightarrow> hop_error + string \<times> string" where
  "proxy_raw shard_at url body = (case shard_at url None body of Inl e \<Rightarrow> Inl (ShardAnswered e) | Inr reply \<Rightarrow> Inr reply)"

definition via_router ::
  "(string \<Rightarrow> nat json option) \<Rightarrow> router_state \<Rightarrow> (string \<Rightarrow> string option \<Rightarrow> string \<Rightarrow> server_error + string \<times> string) \<Rightarrow>
     hop_error transport" where
  "via_router parse st shard_at accept body =
     (case plan_request parse Some id st True body of
        Inl f \<Rightarrow> Inl (RouterRefused f)
      | Inr (ProxyRaw url ct body) \<Rightarrow> proxy_raw shard_at url body
      | Inr (FanOut subs) \<Rightarrow> Inl (RouterRefused BinaryFanOut))"

lemma binary_plan:
  assumes "peek_binary body = Some layers" "layers \<noteq> []" "length body \<le> body_limit"
  shows "plan_request parse u64 num st True body =
    (case find (\<lambda>l. layer_url st None l = None) layers of
       Some l \<Rightarrow> Inl (missing_layer st None l)
     | None \<Rightarrow>
         if \<forall>l \<in> set layers. layer_url st None l = layer_url st None (hd layers)
         then Inr (ProxyRaw (the (layer_url st None (hd layers))) binary_ct body) else Inl BinaryFanOut)"
proof (cases "resolve_all st None layers")
  case (Inl l)
  then show ?thesis
    using resolve_all_spec [of st None layers] assms
    by (simp add: plan_request_def not_less [symmetric] extract_request_spec_and_model_id_def spec_is_empty_def dense_dispatch_def resolution_def)
next
  case (Inr urls)
  then have d: "distinct (map fst urls)" and some: "\<forall>l \<in> set layers. layer_url st None l \<noteq> None"
    and m: "\<forall>l. map_of urls l = (if l \<in> set layers then layer_url st None l else None)"
    using resolve_all_spec [of st None layers] by (simp_all add: resolution_def)
  have mem: "(l, url) \<in> set urls \<longleftrightarrow> l \<in> set layers \<and> layer_url st None l = Some url" for l url
    using d m by (metis map_of_eq_Some_iff option.distinct(1))
  obtain u where u: "layer_url st None (hd layers) = Some u" using some assms(2) by fastforce
  then have i: "(hd layers, u) \<in> set urls" using assms(2) by (simp add: mem)
  then have ne: "urls \<noteq> []" by auto
  then have h: "hd urls \<in> set urls" by simp
  have find: "find (\<lambda>l. layer_url st None l = None) layers = None" using some by (simp add: find_None_iff)
  have urls: "set (map snd urls) = {url. \<exists>l \<in> set layers. layer_url st None l = Some url}" using mem by force
  have all: "(\<forall>l \<in> set layers. layer_url st None l = layer_url st None (hd layers)) \<longleftrightarrow> set (map snd urls) = {u}"
  proof
    assume "\<forall>l \<in> set layers. layer_url st None l = layer_url st None (hd layers)"
    then show "set (map snd urls) = {u}" unfolding urls u using assms(2) by (auto simp: ex_in_conv)
  next
    assume "set (map snd urls) = {u}"
    then show "\<forall>l \<in> set layers. layer_url st None l = layer_url st None (hd layers)"
      using some unfolding urls u by fast
  qed
  have "length (remdups (map snd urls)) = card (set (map snd urls))" by (rule length_remdups_card_conv)
  moreover have "u \<in> set (map snd urls)" using i by force
  then have "card (set (map snd urls)) = 1 \<longleftrightarrow> set (map snd urls) = {u}"
    by (metis card_1_singletonE is_singletonI is_singleton_altdef singletonD)
  moreover have "length layers = 1 \<Longrightarrow> set (map snd urls) = {u}" unfolding all [symmetric] by (auto simp: length_Suc_conv)
  ultimately have c: "length (remdups (map snd urls)) = 1 \<or> length layers = 1 \<longleftrightarrow> set (map snd urls) = {u}" by metis
  have "set (map snd urls) = {u} \<Longrightarrow> snd (hd urls) = u" using h by force
  then show ?thesis
    using c assms all find u
    by (simp add: plan_request_def not_less [symmetric] extract_request_spec_and_model_id_def spec_is_empty_def dense_dispatch_def Inr)
qed

end
