(* ===== verification/FfnPredispatch.thy ===== *)
theory FfnPredispatch
  imports FfnQ8k FfnSharded
begin

text \<open>
  The layers of a token dispatched at once: the server's handler of quantised activations
  (\<open>crates/larql-server/src/routes/walk_ffn/q8k.rs\<close>, on the CPU), the client's call of it
  (\<open>crates/larql-inference/src/ffn/remote/http.rs\<close>), the parallel calls of the shards (\<open>sharded.rs\<close>) and the
  fall back from quantised activations to floats (\<open>layer_graph/grid/remote_ffn.rs\<close>). The norms, the quantiser and
  the kernels are parameters. A thread that panics gives zeros, as joining it does.
\<close>

section \<open>The server\<close>

record q8k_server =
  qs_models :: "ffn_model list"
  qs_has_q4k :: bool
  qs_forward :: "nat \<Rightarrow> q8k_activation \<Rightarrow> f32 list"

datatype q8k_server_error =
    Q8kBodyTooLarge
  | Q8kNoModel
  | Q8kNotAvailable
  | Q8kBadRequest q8k_error
  | Q8kRefused server_error

text \<open>One entry. The entries are run in parallel; which error is reported of several is not fixed, here it is the first.\<close>

definition q8k_layer :: "q8k_server \<Rightarrow> ffn_model \<Rightarrow> nat \<times> q8k_activation \<Rightarrow> q8k_server_error + nat \<times> f32 list" where
  "q8k_layer s m = (\<lambda>(layer, a).
     if fm_num_layers m \<le> layer then Inl (Q8kRefused (LayerOutOfRange layer))
     else if \<not> layer_owned m layer then Inl (Q8kRefused (LayerNotServed layer))
     else Inr (layer, qs_forward s layer a))"

definition q8k_request :: "q8k_server \<Rightarrow> string \<Rightarrow> q8k_server_error + ffn_model \<times> (nat \<times> q8k_activation) list" where
  "q8k_request s body =
     (if body_limit < length body then Inl Q8kBodyTooLarge
      else case only_model (qs_models s) of
        None \<Rightarrow> Inl Q8kNoModel
      | Some m \<Rightarrow>
          if \<not> qs_has_q4k s then Inl Q8kNotAvailable
          else case decode_q8k_batch_request body of
              Inl e \<Rightarrow> Inl (Q8kBadRequest e)
            | Inr entries \<Rightarrow> Inr (m, entries))"

definition handle_q8k :: "q8k_server \<Rightarrow> string \<Rightarrow> q8k_server_error + string" where
  "handle_q8k s body =
     res_bind (q8k_request s body) (\<lambda>(m, entries).
       case fm_load_error m of
         Some e \<Rightarrow> Inl (Q8kRefused (InferenceUnavailable e))
       | None \<Rightarrow> res_bind (result_map (q8k_layer s m) entries) (\<lambda>es. Inr (encode_q8k_batch_response es)))"

definition q8k_status :: "q8k_server_error \<Rightarrow> nat" where
  "q8k_status e =
     (case e of Q8kNoModel \<Rightarrow> 404 | Q8kNotAvailable \<Rightarrow> 404 | Q8kRefused (InferenceUnavailable _) \<Rightarrow> 503 | _ \<Rightarrow> 400)"

section \<open>The client\<close>

text \<open>A call that fails does so with a status, or without an answer.\<close>

datatype q8k_failure = Q8kUnreachable | Q8kStatus nat

datatype q8k_client_error =
    Q8kUnsupported
  | Q8kFailed q8k_failure
  | Q8kBadResponse q8k_error

definition call_q8k_layers ::
  "(string \<Rightarrow> q8k_failure + string) \<Rightarrow> (nat \<times> q8k_activation) list \<Rightarrow> q8k_client_error + (nat \<Rightarrow> f32 list option)" where
  "call_q8k_layers post layers =
     (case post (encode_q8k_batch_request layers) of
        Inl f \<Rightarrow> Inl (if f = Q8kStatus 404 then Q8kUnsupported else Q8kFailed f)
      | Inr body \<Rightarrow> (case decode_q8k_batch_response body of Inl e \<Rightarrow> Inl (Q8kBadResponse e) | Inr m \<Rightarrow> Inr m))"

record 'e backend =
  be_hidden :: nat
  be_wire :: wire_preference
  be_post :: "'e transport"
  be_post_q8k :: "string \<Rightarrow> q8k_failure + string"

text \<open>\<open>RemoteWalkBackend::forward\<close>; \<^const>\<open>None\<close> is a panic.\<close>

definition remote_forward ::
  "(half \<Rightarrow> f32) \<Rightarrow> (string \<Rightarrow> f32 list option) \<Rightarrow> 'e backend \<Rightarrow> nat \<Rightarrow> f32 list \<Rightarrow> nat \<Rightarrow> f32 list option" where
  "remote_forward widen json_single b layer x seq_len =
     (if length x \<noteq> seq_len * be_hidden b then None
      else case call_single widen json_single (be_wire b) (be_hidden b) (be_post b) layer x seq_len of
          Inl _ \<Rightarrow> None
        | Inr v \<Rightarrow> Some v)"

section \<open>All layers at once\<close>

definition hidden_of_shards :: "'e backend layer_shard list \<Rightarrow> nat" where
  "hidden_of_shards shards = (case shards of [] \<Rightarrow> 0 | s # _ \<Rightarrow> be_hidden (ls_backend s))"

definition zero_layer :: "'e backend layer_shard list \<Rightarrow> f32 list" where
  "zero_layer shards = replicate (hidden_of_shards shards) 0"

definition predispatch_layer ::
  "(half \<Rightarrow> f32) \<Rightarrow> (string \<Rightarrow> f32 list option) \<Rightarrow> 'e backend layer_shard list \<Rightarrow> nat \<times> f32 list \<Rightarrow> f32 list" where
  "predispatch_layer widen json_single shards = (\<lambda>(layer, h).
     if length h \<noteq> hidden_of_shards shards then zero_layer shards
     else case shard_for shards layer of
         None \<Rightarrow> zero_layer shards
       | Some b \<Rightarrow>
           (case remote_forward widen json_single b layer h 1 of Some v \<Rightarrow> v | None \<Rightarrow> zero_layer shards))"

definition forward_predispatch_all ::
  "(half \<Rightarrow> f32) \<Rightarrow> (string \<Rightarrow> f32 list option) \<Rightarrow> 'e backend layer_shard list \<Rightarrow> f32 list list \<Rightarrow> f32 list list" where
  "forward_predispatch_all widen json_single shards hs =
     map (predispatch_layer widen json_single shards) (List.enumerate 0 hs)"

text \<open>Shards are told apart by their place in the list, as by their addresses.\<close>

definition owner_of :: "'b layer_shard list \<Rightarrow> nat \<Rightarrow> nat option" where
  "owner_of shards layer =
     find (\<lambda>i. ls_start (shards ! i) \<le> layer \<and> layer \<le> ls_end (shards ! i)) [0..<length shards]"

definition shard_groups :: "'b layer_shard list \<Rightarrow> nat \<Rightarrow> (nat \<times> nat list) list" where
  "shard_groups shards n =
     foldl (\<lambda>gs layer. case owner_of shards layer of Some i \<Rightarrow> alist_push i layer gs | None \<Rightarrow> gs) [] [0..<n]"

definition q8k_group ::
  "'e backend layer_shard list \<Rightarrow> q8k_activation list \<Rightarrow> nat \<times> nat list \<Rightarrow> nat \<Rightarrow> f32 list option" where
  "q8k_group shards hs = (\<lambda>(i, layers).
     case call_q8k_layers (be_post_q8k (ls_backend (shards ! i))) (map (\<lambda>l. (l, hs ! l)) layers) of
       Inr m \<Rightarrow> m
     | Inl _ \<Rightarrow> (\<lambda>l. if l \<in> set layers then Some (zero_layer shards) else None))"

definition take_results :: "f32 list list \<Rightarrow> (nat \<Rightarrow> f32 list option) \<Rightarrow> f32 list list" where
  "take_results results m = map (\<lambda>(l, v). case m l of Some w \<Rightarrow> w | None \<Rightarrow> v) (List.enumerate 0 results)"

definition forward_predispatch_all_q8k ::
  "'e backend layer_shard list \<Rightarrow> q8k_activation list \<Rightarrow> f32 list list" where
  "forward_predispatch_all_q8k shards hs =
     foldl take_results (replicate (length hs) (zero_layer shards))
       (map (q8k_group shards hs) (shard_groups shards (length hs)))"

definition forward_single_q8k :: "'e backend layer_shard list \<Rightarrow> nat \<Rightarrow> q8k_activation \<Rightarrow> f32 list option" where
  "forward_single_q8k shards layer a =
     (case shard_for shards layer of
        None \<Rightarrow> None
      | Some b \<Rightarrow> (case call_q8k_layers (be_post_q8k b) [(layer, a)] of Inl _ \<Rightarrow> None | Inr m \<Rightarrow> m layer))"

definition dispatch_ffn ::
  "(nat \<Rightarrow> f32 list \<Rightarrow> f32 list) \<Rightarrow> (nat \<Rightarrow> f32 list \<Rightarrow> f32 list) \<Rightarrow> (f32 list \<Rightarrow> q8k_activation) \<Rightarrow>
     (half \<Rightarrow> f32) \<Rightarrow> (string \<Rightarrow> f32 list option) \<Rightarrow> 'e backend layer_shard list \<Rightarrow> f32 list list \<Rightarrow> f32 list list" where
  "dispatch_ffn prenorm postnorm quantise widen json_single shards captured =
     (let hidden = (case captured of [] \<Rightarrow> 0 | h # _ \<Rightarrow> length h);
          normed = map (\<lambda>(layer, h). prenorm layer h) (List.enumerate 0 captured);
          floats = forward_predispatch_all widen json_single shards normed;
          raw = (if hidden = 0 \<or> \<not> 256 dvd hidden then floats
                 else let results = forward_predispatch_all_q8k shards (map quantise normed) in
                   if list_ex (list_all f32_is_zero) results then floats else results)
      in map (\<lambda>(layer, out). postnorm layer out) (List.enumerate 0 raw))"

section \<open>What a group is answered\<close>

definition serve_q8k :: "q8k_server \<Rightarrow> string \<Rightarrow> q8k_failure + string" where
  "serve_q8k s body = (case handle_q8k s body of Inl e \<Rightarrow> Inl (Q8kStatus (q8k_status e)) | Inr reply \<Rightarrow> Inr reply)"

text \<open>
  The server can answer for a layer. A shard answers for the layers it owns together: when it can answer for each, and
  the request for all of them is not too long.
\<close>

definition answers_q8k :: "q8k_server \<Rightarrow> nat \<Rightarrow> bool" where
  "answers_q8k s layer \<longleftrightarrow>
     (case only_model (qs_models s) of
        None \<Rightarrow> False
      | Some m \<Rightarrow> qs_has_q4k s \<and> fm_load_error m = None \<and> layer < fm_num_layers m \<and> layer_owned m layer)"

definition q8k_answer ::
  "('e backend \<Rightarrow> q8k_server) \<Rightarrow> 'e backend layer_shard list \<Rightarrow> q8k_activation list \<Rightarrow> nat \<Rightarrow> f32 list option" where
  "q8k_answer server shards hs layer =
     (case owner_of shards layer of
        None \<Rightarrow> None
      | Some i \<Rightarrow> let s = server (ls_backend (shards ! i)); owned = filter (\<lambda>l. owner_of shards l = Some i) [0..<length hs] in
          if (\<forall>l \<in> set owned. answers_q8k s l) \<and>
             length (encode_q8k_batch_request (map (\<lambda>l. (l, hs ! l)) owned)) \<le> body_limit
          then Some (qs_forward s layer (hs ! layer)) else None)"

lemma result_map_q8k_layer:
  "(if \<forall>(l, a) \<in> set es. l < fm_num_layers m \<and> layer_owned m l
    then result_map (q8k_layer s m) es = Inr (map (\<lambda>(l, a). (l, qs_forward s l a)) es)
    else \<exists>e. result_map (q8k_layer s m) es = Inl e)"
  by (induction es) (auto simp: q8k_layer_def split: if_splits)

lemma call_served:
  assumes "length es < 2 ^ 32" "\<forall>e \<in> set es. q8k_shaped e" "\<forall>l a. length (qs_forward s l a) < 2 ^ 32" "es \<noteq> []"
  shows "if (\<forall>(l, a) \<in> set es. answers_q8k s l) \<and> length (encode_q8k_batch_request es) \<le> body_limit
    then call_q8k_layers (serve_q8k s) es = Inr (map_of (rev (map (\<lambda>(l, a). (l, qs_forward s l a)) es)))
    else \<exists>e. call_q8k_layers (serve_q8k s) es = Inl e"
proof (cases "only_model (qs_models s)")
  case None
  then show ?thesis
    using assms(4) by (cases es) (auto simp: answers_q8k_def call_q8k_layers_def serve_q8k_def handle_q8k_def q8k_request_def)
next
  case (Some m)
  have d: "decode_q8k_batch_request (encode_q8k_batch_request es) = Inr es" using assms(1,2) by (rule decode_q8k_request)
  let ?out = "map (\<lambda>(l, a). (l, qs_forward s l a)) es"
  have l: "\<forall>(l, v) \<in> set ?out. l < 2 ^ 32 \<and> length v < 2 ^ 32"
    using assms(2,3) by (auto simp: q8k_shaped_def)
  have r: "decode_q8k_batch_response (encode_q8k_batch_response ?out) = Inr (map_of (rev ?out))"
    using assms(1) l by (intro decode_q8k_response) simp_all
  show ?thesis
  proof (cases "qs_has_q4k s \<and> fm_load_error m = None \<and> length (encode_q8k_batch_request es) \<le> body_limit")
    case True
    then show ?thesis
      using result_map_q8k_layer [of es m s] r d Some
      by (auto simp: answers_q8k_def call_q8k_layers_def serve_q8k_def handle_q8k_def q8k_request_def split: if_splits)
  next
    case False
    then show ?thesis
      using assms(4) Some d
      by (cases es) (auto simp: answers_q8k_def call_q8k_layers_def serve_q8k_def handle_q8k_def q8k_request_def split: option.splits)
  qed
qed

section \<open>The groups\<close>

lemma foldl_skipped:
  "foldl (\<lambda>m x. case f x of Some i \<Rightarrow> g i x m | None \<Rightarrow> m) m xs = foldl (\<lambda>m x. g (the (f x)) x m) m (filter (\<lambda>x. f x \<noteq> None) xs)"
  by (induction xs arbitrary: m) (auto split: option.split)

lemma shard_groups_spec:
  "distinct (map fst (shard_groups shards n)) \<and>
   (\<forall>i. map_of (shard_groups shards n) i = some_unless_empty (filter (\<lambda>l. owner_of shards l = Some i) [0..<n]))"
proof -
  have g: "shard_groups shards n =
      foldl (\<lambda>m l. alist_push (the (owner_of shards l)) (id l) m) [] (filter (\<lambda>l. owner_of shards l \<noteq> None) [0..<n])"
    unfolding shard_groups_def id_apply by (rule foldl_skipped)
  have f: "filter (\<lambda>l. the (owner_of shards l) = i) (filter (\<lambda>l. owner_of shards l \<noteq> None) [0..<n]) =
      filter (\<lambda>l. owner_of shards l = Some i) [0..<n]" for i
    unfolding filter_filter by (rule filter_cong) auto
  show ?thesis
    using alist_pushed [of "\<lambda>l. the (owner_of shards l)" id "filter (\<lambda>l. owner_of shards l \<noteq> None) [0..<n]"]
    unfolding g f by (simp only: id_apply list.map_id) simp
qed

lemma in_shard_groups:
  "(i, layers) \<in> set (shard_groups shards n) \<longleftrightarrow>
     layers = filter (\<lambda>l. owner_of shards l = Some i) [0..<n] \<and> layers \<noteq> []"
  using shard_groups_spec [of shards n] map_of_eq_Some_iff [of "shard_groups shards n" i layers]
  by (auto simp: some_unless_empty_def split: if_splits)

lemma shard_for_owner: "shard_for shards l = map_option (\<lambda>i. ls_backend (shards ! i)) (owner_of shards l)"
proof -
  have "find P xs = map_option (\<lambda>i. xs ! i) (find (\<lambda>i. P (xs ! i)) [0..<length xs])" for P and xs :: "'a layer_shard list"
  proof (cases "find (\<lambda>i. P (xs ! i)) [0..<length xs]")
    case None
    then have "find P xs = None" by (auto simp: find_None_iff in_set_conv_nth)
    then show ?thesis using None by simp
  next
    case (Some i)
    then have "i < length xs" "P (xs ! i)" "\<forall>j < i. \<not> P (xs ! j)" by (auto simp: find_Some_iff)
    then have "find P xs = Some (xs ! i)" by (auto simp: find_Some_iff)
    then show ?thesis using Some by simp
  qed
  then show ?thesis by (simp add: shard_for_def owner_of_def option.map_comp comp_def)
qed

lemma owner_less: "owner_of shards l = Some i \<Longrightarrow> i < length shards"
  by (auto simp: owner_of_def find_Some_iff)

lemma length_take_results [simp]: "length (take_results results m) = length results"
  by (simp add: take_results_def)

lemma nth_take_results: "l < length results \<Longrightarrow> take_results results m ! l = (case m l of Some w \<Rightarrow> w | None \<Rightarrow> results ! l)"
  by (simp add: take_results_def nth_enumerate_eq)

lemma length_taken [simp]: "length (foldl take_results results ms) = length results"
  by (induction ms arbitrary: results) auto

lemma nth_taken:
  assumes "l < length results" "\<forall>m \<in> set ms. m l = None \<or> m l = Some w"
  shows "foldl take_results results ms ! l = (if \<exists>m \<in> set ms. m l = Some w then w else results ! l)"
  using assms
proof (induction ms arbitrary: results)
  case (Cons m ms)
  then show ?case by (auto simp: nth_take_results)
qed simp

lemma q8k_group_answer:
  assumes "(i, layers) \<in> set (shard_groups shards (length hs))" "be_post_q8k (ls_backend (shards ! i)) = serve_q8k (server (ls_backend (shards ! i)))"
    and "length hs < 2 ^ 32" "\<forall>a \<in> set hs. q8k_shaped (0, a)"
    and "\<forall>l a. length (qs_forward (server (ls_backend (shards ! i))) l a) < 2 ^ 32"
  shows "q8k_group shards hs (i, layers) l =
    (if l < length hs \<and> owner_of shards l = Some i
     then Some (case q8k_answer server shards hs l of Some v \<Rightarrow> v | None \<Rightarrow> zero_layer shards) else None)"
proof -
  let ?n = "length hs" and ?s = "server (ls_backend (shards ! i))"
  have layers: "layers = filter (\<lambda>l. owner_of shards l = Some i) [0..<?n]" "layers \<noteq> []" using assms(1) unfolding in_shard_groups by blast+
  then have mem: "l \<in> set layers \<longleftrightarrow> l < ?n \<and> owner_of shards l = Some i" for l by auto
  let ?es = "map (\<lambda>l. (l, hs ! l)) layers"
  have "length layers \<le> ?n" unfolding layers(1) using length_filter_le [of _ "[0..<?n]"] by simp
  then have es: "length ?es < 2 ^ 32" "?es \<noteq> []" using assms(3) layers(2) by simp_all
  have shaped: "\<forall>e \<in> set ?es. q8k_shaped e"
    using assms(3,4) mem by (auto simp: q8k_shaped_def)
  note call = call_served [OF es(1) shaped assms(5) es(2)]
  let ?ok = "(\<forall>(l, a) \<in> set ?es. answers_q8k ?s l) \<and> length (encode_q8k_batch_request ?es) \<le> body_limit"
  have all: "(\<forall>(l, a) \<in> set ?es. answers_q8k ?s l) \<longleftrightarrow> (\<forall>l \<in> set layers. answers_q8k ?s l)" by auto
  have ans: "q8k_answer server shards hs l =
      (if ?ok then Some (qs_forward ?s l (hs ! l)) else None)" if "l \<in> set layers"
    using that mem unfolding all by (simp add: q8k_answer_def Let_def layers(1) [symmetric])
  have out: "map_of (rev (map (\<lambda>(l, a). (l, qs_forward ?s l a)) ?es)) l =
      (if l \<in> set layers then Some (qs_forward ?s l (hs ! l)) else None)"
    by (simp add: rev_map comp_def map_of_map_restrict restrict_map_def)
  show ?thesis
  proof (cases ?ok)
    case True
    then have "q8k_group shards hs (i, layers) = map_of (rev (map (\<lambda>(l, a). (l, qs_forward ?s l a)) ?es))"
      using call by (simp add: q8k_group_def assms(2))
    then show ?thesis using ans True by (simp only: out mem [symmetric]) simp
  next
    case False
    then have "\<exists>e. call_q8k_layers (serve_q8k ?s) ?es = Inl e" using call by (simp only: if_False)
    then obtain e where "call_q8k_layers (serve_q8k ?s) ?es = Inl e" by blast
    then have "q8k_group shards hs (i, layers) l = (if l \<in> set layers then Some (zero_layer shards) else None)"
      by (simp add: q8k_group_def assms(2))
    then show ?thesis using ans False by (simp only: mem [symmetric]) simp
  qed
qed

text \<open>Servers behind the backends, and activations as the quantiser makes them.\<close>

definition q8k_served :: "('e backend \<Rightarrow> q8k_server) \<Rightarrow> 'e backend layer_shard list \<Rightarrow> q8k_activation list \<Rightarrow> bool" where
  "q8k_served server shards hs \<longleftrightarrow> length hs < 2 ^ 32 \<and> (\<forall>a \<in> set hs. q8k_shaped (0, a)) \<and>
     (\<forall>b \<in> ls_backend ` set shards. be_post_q8k b = serve_q8k (server b) \<and> (\<forall>l a. length (qs_forward (server b) l a) < 2 ^ 32))"

lemma q8k_served_owner:
  assumes "q8k_served server shards hs" "owner_of shards l = Some i"
  shows "be_post_q8k (ls_backend (shards ! i)) = serve_q8k (server (ls_backend (shards ! i)))"
    "\<forall>l a. length (qs_forward (server (ls_backend (shards ! i))) l a) < 2 ^ 32"
proof -
  have "ls_backend (shards ! i) \<in> ls_backend ` set shards" using owner_less [OF assms(2)] by simp
  then show "be_post_q8k (ls_backend (shards ! i)) = serve_q8k (server (ls_backend (shards ! i)))"
    "\<forall>l a. length (qs_forward (server (ls_backend (shards ! i))) l a) < 2 ^ 32"
    using assms(1) unfolding q8k_served_def by blast+
qed

lemma predispatch_q8k_answers:
  assumes "q8k_served server shards hs"
  shows "forward_predispatch_all_q8k shards hs =
    map (\<lambda>l. case q8k_answer server shards hs l of Some v \<Rightarrow> v | None \<Rightarrow> zero_layer shards) [0..<length hs]"
proof (rule nth_equalityI)
  fix l assume "l < length (forward_predispatch_all_q8k shards hs)"
  then have l: "l < length hs" by (simp add: forward_predispatch_all_q8k_def)
  let ?w = "case q8k_answer server shards hs l of Some v \<Rightarrow> v | None \<Rightarrow> zero_layer shards"
  let ?gs = "shard_groups shards (length hs)"
  have group: "q8k_group shards hs g l = (if owner_of shards l = Some (fst g) then Some ?w else None)" if "g \<in> set ?gs" for g
  proof -
    obtain i layers where g: "g = (i, layers)" by (cases g)
    then have in_gs: "(i, layers) \<in> set ?gs" using that by simp
    then obtain k where k: "owner_of shards k = Some i" unfolding in_shard_groups by (auto simp: filter_empty_conv)
    have "length hs < 2 ^ 32" "\<forall>a \<in> set hs. q8k_shaped (0, a)" using assms by (simp_all add: q8k_served_def)
    from q8k_group_answer [where server = server and shards = shards and hs = hs and l = l, OF in_gs q8k_served_owner(1) [OF assms k] this q8k_served_owner(2) [OF assms k]]
    show ?thesis using l by (simp add: g)
  qed
  have nth: "forward_predispatch_all_q8k shards hs ! l =
      (if \<exists>m \<in> set (map (q8k_group shards hs) ?gs). m l = Some ?w then ?w else replicate (length hs) (zero_layer shards) ! l)"
    unfolding forward_predispatch_all_q8k_def using l group by (intro nth_taken) auto
  show "forward_predispatch_all_q8k shards hs ! l =
      map (\<lambda>l. case q8k_answer server shards hs l of Some v \<Rightarrow> v | None \<Rightarrow> zero_layer shards) [0..<length hs] ! l"
  proof (cases "owner_of shards l")
    case None
    then show ?thesis using l nth by (simp add: q8k_answer_def)
  next
    case (Some i)
    have "(i, filter (\<lambda>l. owner_of shards l = Some i) [0..<length hs]) \<in> set ?gs"
      using l Some by (auto simp: in_shard_groups filter_empty_conv)
    then have "\<exists>m \<in> set (map (q8k_group shards hs) ?gs). m l = Some ?w" using group Some by force
    then show ?thesis using l nth by simp
  qed
qed (simp add: forward_predispatch_all_q8k_def)

lemma q8k_body_le:
  assumes "e \<in> set es"
  shows "length (encode_q8k_batch_request [e]) \<le> length (encode_q8k_batch_request es)"
proof -
  have "length (q8k_entry_bytes e) \<le> length (concat (map q8k_entry_bytes es))" using assms by (induction es) auto
  then show ?thesis by (simp add: encode_q8k_batch_request_def)
qed

lemma single_q8k_answer:
  assumes "q8k_served server shards hs" "l < length hs" "q8k_answer server shards hs l = Some v"
  shows "forward_single_q8k shards l (hs ! l) = Some v"
proof -
  obtain i where i: "owner_of shards l = Some i" "answers_q8k (server (ls_backend (shards ! i))) l"
    "v = qs_forward (server (ls_backend (shards ! i))) l (hs ! l)"
    "length (encode_q8k_batch_request (map (\<lambda>l. (l, hs ! l)) (filter (\<lambda>l. owner_of shards l = Some i) [0..<length hs]))) \<le> body_limit"
    using assms(2,3) by (auto simp: q8k_answer_def Let_def split: option.splits if_splits)
  have "q8k_shaped (l, hs ! l)" using assms(1,2) by (auto simp: q8k_served_def q8k_shaped_def)
  moreover have "(l, hs ! l) \<in> set (map (\<lambda>l. (l, hs ! l)) (filter (\<lambda>l. owner_of shards l = Some i) [0..<length hs]))"
    using i(1) assms(2) by simp
  note order_trans [OF q8k_body_le [OF this] i(4)]
  ultimately show ?thesis
    using call_served [OF _ _ q8k_served_owner(2) [OF assms(1) i(1)], of "[(l, hs ! l)]"] i
    by (simp add: q8k_served_owner(1) [OF assms(1) i(1)] forward_single_q8k_def shard_for_owner)
qed

end
