(* ===== verification/RemoteProperties.thy ===== *)
theory RemoteProperties
  imports FfnPredispatch GridProperties
begin

text \<open>
  The properties of the remote feed-forward layers: the wire protocol in both directions, the server's cache of outputs,
  the client's call of a server, the router's resolution of layers and its fan-out, and the whole way from the client
  through the router and its grid to a server and back.
\<close>

section \<open>A body is the encoding of the request it is decoded to\<close>

lemma le_of_le: "le_bytes (length cs) (of_le cs) = cs"
proof (induction cs)
  case (Cons c cs)
  have "byte c < 256" by (rule byte_less_256)
  then have "(byte c + 256 * of_le cs) mod 256 = byte c" "(byte c + 256 * of_le cs) div 256 = of_le cs" by simp_all
  then show ?case using Cons by simp
qed simp

lemma word_bytes: "p + 4 \<le> length b \<Longrightarrow> drop p b = le_bytes 4 (u32_at b p) @ drop (p + 4) b"
proof -
  assume "p + 4 \<le> length b"
  then have "length (take 4 (drop p b)) = 4" by simp
  then have "le_bytes 4 (u32_at b p) = take 4 (drop p b)" using le_of_le [of "take 4 (drop p b)"] by (simp only: u32_at_def)
  then show "drop p b = le_bytes 4 (u32_at b p) @ drop (p + 4) b"
    using append_take_drop_id [of 4 "drop p b"] by (simp add: add.commute)
qed

lemma layers_bytes: "8 + n * 4 \<le> length b \<Longrightarrow> drop 8 b = concat (map (le_bytes 4) (layers_at b n)) @ drop (8 + n * 4) b"
proof (induction n)
  case (Suc n)
  then have "drop (8 + n * 4) b = le_bytes 4 (u32_at b (8 + n * 4)) @ drop (8 + n * 4 + 4) b" by (intro word_bytes) simp
  then show ?case using Suc by (simp add: layers_at_def add.commute)
qed (simp add: layers_at_def)

lemma f32_block_bytes: "length b mod 4 = 0 \<Longrightarrow> f32_block (f32s_of_bytes b) = b"
proof (induction b rule: f32s_of_bytes.induct)
  case (1 p q r s rest)
  have l: "of_le [p, q, r, s] < 2 ^ 32" using of_le_less [of "[p, q, r, s]"] by simp
  then have "unat (word_of_nat (of_le [p, q, r, s]) :: u32) = of_le [p, q, r, s]"
    by (simp only: unat_of_nat) (simp add: take_bit_nat_eq_self)
  then have "f32_bytes (word_of_nat (of_le [p, q, r, s])) = [p, q, r, s]"
    using le_of_le [of "[p, q, r, s]"] by (simp add: f32_bytes_def eval_nat_numeral del: of_le.simps le_bytes.simps)
  then show ?case using 1 by (simp add: f32_block_def del: of_le.simps)
qed (simp_all add: f32_block_def)

text \<open>The bytes of a request whose flags are the number \<open>flags\<close>.\<close>

definition request_frame :: "ffn_request \<Rightarrow> nat \<Rightarrow> string" where
  "request_frame req flags =
     (case rq_layers req of
        Some ls \<Rightarrow> le_bytes 4 batch_marker @ le_bytes 4 (length ls) @ concat (map (le_bytes 4) ls)
      | None \<Rightarrow> le_bytes 4 (the (rq_layer req))) @
     le_bytes 4 (rq_seq_len req) @ le_bytes 4 flags @ le_bytes 4 (rq_top_k req) @ f32_block (rq_residual req)"

lemma tail_bytes:
  assumes "p + 12 \<le> length b" "length (drop (p + 12) b) mod 4 = 0"
  shows "drop p b = le_bytes 4 (u32_at b p) @ le_bytes 4 (u32_at b (p + 4)) @ le_bytes 4 (u32_at b (p + 8)) @
    f32_block (f32s_of_bytes (drop (p + 12) b))"
  using word_bytes [of p b] word_bytes [of "p + 4" b] word_bytes [of "p + 8" b] f32_block_bytes [OF assms(2)] assms(1)
  by (simp add: add.assoc)

lemma decoded_frame:
  assumes "decode_binary_request body = Inr req"
  shows "\<exists>flags. odd flags = rq_full_output req \<and> body = request_frame req flags"
proof (cases "u32_at body 0 = batch_marker")
  case True
  let ?n = "u32_at body 4"
  have l: "8 + ?n * 4 + 12 \<le> length body" "length (drop (8 + ?n * 4 + 12) body) mod 4 = 0"
    and req: "rq_layers req = Some (layers_at body ?n)" "rq_seq_len req = u32_at body (8 + ?n * 4)"
      "rq_top_k req = u32_at body (8 + ?n * 4 + 8)" "rq_residual req = f32s_of_bytes (drop (8 + ?n * 4 + 12) body)"
      "rq_full_output req = odd (u32_at body (8 + ?n * 4 + 4))"
    using assms True by (auto simp: decode_binary_request_def Let_def split: if_splits)
  have "body = drop 0 body" by simp
  also have "\<dots> = le_bytes 4 batch_marker @ le_bytes 4 ?n @ drop 8 body"
    using word_bytes [of 0 body] word_bytes [of 4 body] l(1) by (simp add: True)
  also have "drop 8 body = concat (map (le_bytes 4) (layers_at body ?n)) @ drop (8 + ?n * 4) body"
    by (rule layers_bytes) (use l(1) in simp)
  also have "drop (8 + ?n * 4) body = le_bytes 4 (rq_seq_len req) @ le_bytes 4 (u32_at body (8 + ?n * 4 + 4)) @
      le_bytes 4 (rq_top_k req) @ f32_block (rq_residual req)"
    unfolding req by (rule tail_bytes [OF l])
  finally have "body = request_frame req (u32_at body (8 + ?n * 4 + 4))"
    by (simp add: request_frame_def req(1)) (simp add: layers_at_def)
  then show ?thesis using req(5) by blast
next
  case False
  have l: "4 + 12 \<le> length body" "length (drop (4 + 12) body) mod 4 = 0"
    and req: "rq_layers req = None" "rq_layer req = Some (u32_at body 0)" "rq_seq_len req = u32_at body 4"
      "rq_top_k req = u32_at body (4 + 8)" "rq_residual req = f32s_of_bytes (drop (4 + 12) body)"
      "rq_full_output req = odd (u32_at body (4 + 4))"
    using assms False by (auto simp: decode_binary_request_def Let_def split: if_splits)
  have "body = le_bytes 4 (u32_at body 0) @ drop 4 body" using word_bytes [of 0 body] l(1) by simp
  also have "drop 4 body = le_bytes 4 (rq_seq_len req) @ le_bytes 4 (u32_at body (4 + 4)) @
      le_bytes 4 (rq_top_k req) @ f32_block (rq_residual req)"
    unfolding req by (rule tail_bytes [OF l])
  finally have "body = request_frame req (u32_at body (4 + 4))" by (simp add: request_frame_def req(1,2))
  then show ?thesis using req(6) by blast
qed

section \<open>A server to evaluate on\<close>

definition demo_model :: ffn_model where
  "demo_model = \<lparr>fm_hidden = 2, fm_num_layers = 30, fm_layer_range = None, fm_load_error = None,
     fm_has_overrides = (\<lambda>_. False), fm_has_gate = (\<lambda>_. True), fm_gate_knn = (\<lambda>_ x _. [(length x, 0)]),
     fm_forward = (\<lambda>_ _ x. x), fm_moe = None\<rparr>"

definition demo_narrow :: "f32 \<Rightarrow> half" where
  "demo_narrow x = ucast (drop_bit 16 x)"

definition demo_widen :: "half \<Rightarrow> f32" where
  "demo_widen h = push_bit 16 (ucast h)"

definition demo_flags :: wire_flags where
  "demo_flags = \<lparr>wf_f16_disabled = False, wf_i8_enabled = False\<rparr>"

lemma demo_serves: "\<forall>l \<in> set layers. l < 30 \<Longrightarrow> can_serve demo_model layers"
  by (auto simp: can_serve_def demo_model_def layer_owned_def batch_marker_def)

lemma demo_shape: "keeps_shape demo_model s"
  by (simp add: keeps_shape_def demo_model_def)

lemma demo_hidden [simp]: "fm_hidden demo_model = 2"
  by (simp add: demo_model_def)

lemma demo_answer: "layer_answer sum_list (l2_with_max_entries 30 8) demo_model (sent_request a b x s) l = x"
  by (simp add: layer_answer_def l2_lookup l2_with_max_entries_def demo_model_def split: option.split)

section \<open>The wire protocol\<close>

text \<open>
  C8. A request that the client encodes, for one layer or for several, is decoded by the server to the same layers,
  vector, length, number of features and flag. A body that the server accepts is the encoding of the request it
  decodes to, up to unused bits of the flags, and the layers that the router reads from it are those the server will
  run.
\<close>

theorem wire_requests:
  assumes "length layers < 2 ^ 32" "\<forall>l \<in> set layers. l < 2 ^ 32" "layer < batch_marker" "s < 2 ^ 32" "k < 2 ^ 32"
  shows "decode_binary_request (encode_binary_request None (Some layers) residual s full k) =
      Inr \<lparr>rq_layer = None, rq_layers = Some layers, rq_residual = residual, rq_seq_len = s, rq_top_k = k,
           rq_full_output = full, rq_moe_layer = False\<rparr> \<and>
    decode_binary_request (encode_binary_request (Some layer) None residual s full k) =
      Inr \<lparr>rq_layer = Some layer, rq_layers = None, rq_residual = residual, rq_seq_len = s, rq_top_k = k,
           rq_full_output = full, rq_moe_layer = False\<rparr> \<and>
    (\<forall>body req. decode_binary_request body = Inr req \<longrightarrow>
       (\<exists>flags. odd flags = rq_full_output req \<and> body = request_frame req flags) \<and>
       (\<exists>ls. collect_scan_layers req = Inr ls \<and> peek_binary body = Some ls))"
proof -
  have "\<exists>ls. collect_scan_layers req = Inr ls \<and> peek_binary body = Some ls"
    if "decode_binary_request body = Inr req" for body req
    using peek_decoded [OF that] by (auto simp: collect_scan_layers_def)
  then show ?thesis
    by (intro conjI allI impI decode_request_layers [OF assms(1,2,4,5)] decode_request_layer [OF assms(3,4,5)])
      (simp_all add: decoded_frame)
qed

lemma wire_requests_witness:
  "decode_binary_request (encode_binary_request None (Some [3, 1]) [0x3F800000] 1 True 8) =
     Inr \<lparr>rq_layer = None, rq_layers = Some [3, 1], rq_residual = [0x3F800000], rq_seq_len = 1, rq_top_k = 8,
          rq_full_output = True, rq_moe_layer = False\<rparr>"
  using wire_requests [of "[3, 1]" 7 1 8 "[0x3F800000]" True] by (simp add: batch_marker_def)

text \<open>
  Activations quantised by the client are read by the server as they were sent, and the outputs of the server as
  it sent them, a later output of a layer replacing an earlier one.
\<close>

theorem q8k_roundtrips:
  assumes "length entries < 2 ^ 32" "\<forall>e \<in> set entries. q8k_shaped e"
    and "length outputs < 2 ^ 32" "\<forall>(layer, v) \<in> set outputs. layer < 2 ^ 32 \<and> length v < 2 ^ 32"
  shows "decode_q8k_batch_request (encode_q8k_batch_request entries) = Inr entries \<and>
    decode_q8k_batch_response (encode_q8k_batch_response outputs) = Inr (map_of (rev outputs))"
  using decode_q8k_request [OF assms(1,2)] decode_q8k_response [OF assms(3,4)] by simp

lemma q8k_roundtrips_witness:
  "decode_q8k_batch_request (encode_q8k_batch_request
     [(4, \<lparr>qk_qs = replicate 256 7, qk_d = [0x3F800000], qk_sums = replicate 8 56\<rparr>)]) =
   Inr [(4, \<lparr>qk_qs = replicate 256 7, qk_d = [0x3F800000], qk_sums = replicate 8 56\<rparr>)]"
  using q8k_roundtrips [of "[(4, \<lparr>qk_qs = replicate 256 7, qk_d = [0x3F800000], qk_sums = replicate 8 56\<rparr>)]" "[]"]
  by (simp add: q8k_shaped_def n_blocks_def)

section \<open>A remote call\<close>

text \<open>
  C38. Whatever a server was asked before and however its patches come and go, its cache of outputs has at most the
  allowed number of entries for a layer, and each is an output of the layer by the model of one of its requests, at a time
  when nothing was overridden there, for some vector whose selected features have the key of the entry.
\<close>

theorem output_cache:
  assumes "l2_reachable hash ms c" "layer < length (l2_layers c)"
  shows "length (l2_layers c ! layer) \<le> l2_max_entries c \<and>
    (map_of (l2_layers c ! layer) key = Some v \<longrightarrow>
      (\<exists>m \<in> ms. \<exists>x k. \<not> fm_has_overrides m layer \<and> fm_has_gate m layer \<and> 0 < k \<and> length x = fm_hidden m \<and>
         v = fm_forward m layer 1 x \<and> key = l2_key hash (map fst (fm_gate_knn m layer x k))))"
proof -
  have "entries_sound hash ms (l2_max_entries c) layer (l2_layers c ! layer)"
    using l2_reachable_sound [OF assms(1)] assms(2) by (simp add: l2_sound_def)
  then show ?thesis
    using map_of_SomeD [of "l2_layers c ! layer" key v] unfolding entries_sound_def output_for_def by blast
qed

lemma output_cache_witness:
  "\<exists>c :: l2_cache. map_of (l2_layers c ! 0) 2 = Some [1, 2] \<and> length (l2_layers c ! 0) \<le> 1 \<and>
     (\<exists>x k. length x = 2 \<and> [1, 2] = fm_forward demo_model 0 1 x \<and>
        2 = l2_key sum_list (map fst (fm_gate_knn demo_model 0 x k)))"
proof -
  let ?c = "snd (handle_binary sum_list demo_narrow demo_flags [demo_model] 0 None
     (encode_binary_request (Some 0) None [1, 2] 1 True 8092) (l2_with_max_entries 1 1))"
  have d: "decode_binary_request (encode_binary_request (Some 0) None [1, 2] 1 True 8092) = Inr (sent_request (Some 0) None [1, 2] 1)"
    by (subst decode_request_layer) (simp_all add: batch_marker_def sent_request_def)
  have l: "length (encode_binary_request (Some 0) None [1, 2] 1 True 8092) = 24"
    by (simp add: encode_binary_request_def)
  have c: "l2_layers ?c = [[(2, [1, 2])]]" "l2_max_entries ?c = 1"
    by (simp_all add: handle_binary_def l [simplified] body_limit_def d [simplified] only_model_def validate_residual_def
        collect_scan_layers_def validate_owned_def layer_owned_def run_full_output_core_def layer_output_def cache_key_def
        l2_get_def l2_insert_def l2_key_def l2_with_max_entries_def ffn_result_def Let_def demo_model_def)
  have "l2_reachable sum_list ({} \<union> set [demo_model]) ?c" by (intro l2_reachable.request l2_reachable.start)
  from output_cache [OF this, of 0 2 "[1, 2]"]
  have "map_of (l2_layers ?c ! 0) 2 = Some [1, 2] \<and> length (l2_layers ?c ! 0) \<le> 1 \<and>
     (\<exists>x k. length x = 2 \<and> [1, 2] = fm_forward demo_model 0 1 x \<and>
        2 = l2_key sum_list (map fst (fm_gate_knn demo_model 0 x k)))"
    by (auto simp: c [simplified])
  then show ?thesis by (rule exI)
qed

text \<open>
  C4. A client that calls a server for layers the server owns, in any of the wire formats, gets exactly those layers:
  each as the format keeps the output of that layer for the client's vector, or, for a single position, the output that
  was cached under the key of the vector's selected features when the request came. Such an output was computed for some
  vector with that key, by the model of an earlier request, when nothing was overridden at the layer. The call of one
  layer gives the same, and passes the client's check of the length. A request above the limit of the body is refused.
\<close>

theorem remote_call:
  assumes "l2_reachable hash ms c" "can_serve m layers" "same_shape (insert m ms) h s" "length r = s * h"
    and "exchange_fits (length layers) s h" "0 < s"
    and "ct = preferred_response_ct (wf_f16_disabled flags) (wf_i8_enabled flags) (Some (accept_header wire))"
    and "server = (\<lambda>accept body. fst (handle_binary hash narrow flags [m] latency accept body c))"
    and "req = sent_request None (Some layers) r s"
  shows "call_batch widen json_batch wire h server layers r s =
      (if body_limit < length (encode_binary_request None (Some layers) r s True 8092) then Inl (ServerAnswered BodyTooLarge)
       else Inr (\<lambda>l. if l \<in> set layers then Some (wire_kept narrow widen ct s (layer_answer hash c m req l)) else None)) \<and>
    (\<forall>l. layers = [l] \<longrightarrow> call_single widen json_single wire h server l r s =
      (if body_limit < length (encode_binary_request (Some l) None r s True 8092) then Inl (ServerAnswered BodyTooLarge)
       else Inr (wire_kept narrow widen ct s (layer_answer hash c m req l)))) \<and>
    (\<forall>l. layer_answer hash c m req l = fm_forward m l s r \<or>
      s = 1 \<and> \<not> fm_has_overrides m l \<and>
      (\<exists>m' \<in> ms. \<exists>x k. \<not> fm_has_overrides m' l \<and> length x = h \<and> layer_answer hash c m req l = fm_forward m' l 1 x \<and>
         l2_key hash (map fst (fm_gate_knn m' l x k)) = l2_key hash (map fst (fm_gate_knn m l r 8092))))"
proof -
  note sound = l2_reachable_sound [OF assms(1)]
  have batch: "call_batch widen json_batch wire h server layers r s =
      (if body_limit < length (encode_binary_request None (Some layers) r s True 8092) then Inl (ServerAnswered BodyTooLarge)
       else Inr (\<lambda>l. if l \<in> set layers then Some (wire_kept narrow widen ct s (layer_answer hash c m req l)) else None))"
  proof (cases "body_limit < length (encode_binary_request None (Some layers) r s True 8092)")
    case False
    then have "length (encode_binary_request None (Some layers) r s True 8092) \<le> body_limit" by simp
    then obtain body where "fst (handle_binary hash narrow flags [m] latency (Some (accept_header wire))
        (encode_binary_request None (Some layers) r s True 8092) c) = Inr (ct, body)"
      "decode_reply_batch widen json_batch h (ct, body) = (Inr (\<lambda>l. if l \<in> set layers
         then Some (wire_kept narrow widen ct s (layer_answer hash c m (sent_request None (Some layers) r s) l)) else None) ::
         server_error client_error + _)"
      by (rule remote_batch [OF sound assms(2-7)])
    with False show ?thesis by (simp add: call_batch_def as_answer_def assms(8,9) cong: if_cong)
  qed (simp add: call_batch_def as_answer_def assms(8) handle_binary_def)
  have single: "call_single widen json_single wire h server l r s =
      (if body_limit < length (encode_binary_request (Some l) None r s True 8092) then Inl (ServerAnswered BodyTooLarge)
       else Inr (wire_kept narrow widen ct s (layer_answer hash c m req l)))" if l: "layers = [l]" for l
  proof (cases "body_limit < length (encode_binary_request (Some l) None r s True 8092)")
    case False
    have v: "layer_answer hash c m req l = layer_answer hash c m (sent_request (Some l) None r s) l"
      by (simp only: layer_answer_def cache_key_def assms(9) sent_request_simps)
    have f: "can_serve m [l]" "exchange_fits 1 s h" using assms(2,5) l by simp_all
    have "length (encode_binary_request (Some l) None r s True 8092) \<le> body_limit" using False by simp
    then obtain body where "fst (handle_binary hash narrow flags [m] latency (Some (accept_header wire))
        (encode_binary_request (Some l) None r s True 8092) c) = Inr (ct, body)"
      "decode_reply_single widen json_single h (ct, body) =
        (Inr (wire_kept narrow widen ct s (layer_answer hash c m req l)) :: server_error client_error + _)"
      "length (wire_kept narrow widen ct s (layer_answer hash c m req l)) = s * h"
      by (rule remote_single [OF sound f(1) assms(3,4) f(2) assms(6,7) _ v])
    with False show ?thesis by (simp add: call_single_def as_answer_def assms(8) Let_def)
  qed (simp add: call_single_def as_answer_def assms(8) handle_binary_def)
  have "answers hash ms m req l (layer_answer hash c m req l)" for l by (rule layer_answer_answers [OF sound])
  then have "layer_answer hash c m req l = fm_forward m l s r \<or>
      s = 1 \<and> \<not> fm_has_overrides m l \<and>
      (\<exists>m' \<in> ms. \<exists>x k. \<not> fm_has_overrides m' l \<and> length x = h \<and> layer_answer hash c m req l = fm_forward m' l 1 x \<and>
         l2_key hash (map fst (fm_gate_knn m' l x k)) = l2_key hash (map fst (fm_gate_knn m l r 8092)))" for l
    using assms(3) unfolding answers_def output_for_def by (fastforce simp: assms(9) same_shape_def)
  then show ?thesis using batch single by (intro conjI allI impI)
qed

lemma remote_call_witness:
  "call_batch demo_widen (\<lambda>_. None) WireF32 2
     (\<lambda>accept body. fst (handle_binary sum_list demo_narrow demo_flags [demo_model] 0 accept body (l2_with_max_entries 30 8)))
     [4, 9] [1, 2, 3, 4] 2 = Inr (\<lambda>l. if l \<in> {4, 9} then Some [1, 2, 3, 4] else None)"
proof -
  have ct: "preferred_response_ct (wf_f16_disabled demo_flags) (wf_i8_enabled demo_flags) (Some (accept_header WireF32)) = ffn_ct"
    by (simp add: preferred_response_ct_def accept_header_def demo_flags_def ffn_ct_def ffn_f16_ct_def starts_with_def)
  have "\<not> body_limit < length (encode_binary_request None (Some [4, 9]) [1, 2, 3, 4] 2 True 8092)"
    by (simp add: encode_binary_request_def body_limit_def)
  then show ?thesis
    using remote_call [of sum_list "{}" "l2_with_max_entries 30 8" demo_model "[4, 9]" 2 2 "[1, 2, 3, 4]" _ demo_flags WireF32 _
        demo_narrow 0 _ demo_widen "\<lambda>_. None", OF l2_reachable.start _ _ _ _ _ refl refl refl, unfolded ct]
      demo_serves [of "[4, 9]"] demo_shape [of 2]
    by (simp add: exchange_fits_def same_shape_def wire_kept_def content_types demo_answer cong: if_cong)
qed

section \<open>Through the router\<close>

text \<open>What a request asks for: layers, or experts of layers; and where the router sends it.\<close>

definition spec_items :: "request_spec \<Rightarrow> (nat \<times> nat option) set" where
  "spec_items spec =
     (case spec of
        Dense layers \<Rightarrow> (\<lambda>l. (l, None)) ` set layers
      | Moe pairs \<Rightarrow> (\<lambda>(l, e). (l, Some e)) ` requested pairs)"

definition item_url :: "router_state \<Rightarrow> string option \<Rightarrow> nat \<times> nat option \<Rightarrow> string option" where
  "item_url st model = (\<lambda>(layer, expert).
     case expert of
       None \<Rightarrow> layer_url st model layer
     | Some e \<Rightarrow> (case ro_grid st of Some g \<Rightarrow> expert_url g model (layer, e) | None \<Rightarrow> None))"

lemma expert_items_less: "e \<in> set (expert_items u64 xs) \<Longrightarrow> e < 2 ^ 32"
  by (auto simp: expert_items_def)

lemma entry_experts_less: "layer_experts_entry u64 item = Inr (l, es) \<Longrightarrow> e \<in> set es \<Longrightarrow> e < 2 ^ 32"
  using expert_items_less [of e u64]
  by (auto simp: layer_experts_entry_def Let_def split: option.splits if_splits)

lemma moe_experts_less:
  assumes "json_spec u64 v = Inr (Moe pairs)"
  shows "\<forall>(l, e) \<in> requested pairs. e < 2 ^ 32"
proof -
  consider items where "result_map (layer_experts_entry u64) items = Inr pairs"
    | l xs where "pairs = [(l, expert_items u64 xs)]"
    using assms by (auto simp: json_spec_def res_bind_Inr Let_def split: option.splits if_splits)
  then show ?thesis
  proof cases
    case 1
    then have "list_all2 (\<lambda>x y. layer_experts_entry u64 x = Inr y) items pairs" by (simp add: result_map_Inr)
    then show ?thesis
      using entry_experts_less by (fastforce simp: requested_def list_all2_conv_all_nth in_set_conv_nth)
  next
    case 2
    then show ?thesis using expert_items_less by (auto simp: requested_def)
  qed
qed

lemma json_model_id_kept: "field_of b ''model_id'' = field_of v ''model_id'' \<Longrightarrow> json_model_id b = json_model_id v"
  by (simp add: json_model_id_def)

text \<open>
  C6. When the router fans a request out, the sub-requests go to different shards, to exactly those that own a layer or
  an expert of the request; and each is read by its shard as the part of the request that the router resolves to
  that shard, for the same model. A sub-request for layers has every other field of the request as it was. A
  sub-request for experts has none: the name of the model and the experts are all that is sent on.
\<close>

theorem fan_out:
  assumes "plan_request parse u64 num st False body = Inr (FanOut subs)" "parse body = Some v" "json_spec u64 v = Inr spec"
    and "reads_numbers u64 num" "model = map_option utf8_bytes (json_model_id v)"
  shows "distinct (map fst subs) \<and> fst ` set subs = {url. \<exists>i \<in> spec_items spec. item_url st model i = Some url} \<and>
    (\<forall>(url, secondary, sub) \<in> set subs. \<exists>b part. sub = Some b \<and> json_spec u64 b = Inr part \<and> json_model_id b = json_model_id v \<and>
       spec_items part = {i \<in> spec_items spec. item_url st model i = Some url} \<and>
       (case spec of
          Dense _ \<Rightarrow> \<forall>key. key \<noteq> ''layer'' \<and> key \<noteq> ''layers'' \<longrightarrow> field_of b key = field_of v key
        | Moe _ \<Rightarrow> \<forall>key. field_of b key \<noteq> None \<longleftrightarrow> key = ''layer_experts'' \<or> key = ''model_id'' \<and> json_model_id v \<noteq> None))"
proof (cases spec)
  case (Dense layers)
  have d: "dense_dispatch parse num st body False model layers = Inr (FanOut subs)"
    using assms(1-3,5) by (auto simp: plan_request_def extract_request_spec_and_model_id_def Dense split: if_splits)
  note s = dense_subs [OF d assms(2) assms(3) [unfolded Dense] assms(4)]
  have "\<exists>b part. sub = Some b \<and> json_spec u64 b = Inr part \<and> json_model_id b = json_model_id v \<and>
      spec_items part = {i \<in> spec_items spec. item_url st model i = Some url} \<and>
      (\<forall>key. key \<noteq> ''layer'' \<and> key \<noteq> ''layers'' \<longrightarrow> field_of b key = field_of v key)"
    if i: "(url, sec, sub) \<in> set subs" for url sec sub
  proof -
    obtain b ls where b: "sub = Some b" "json_spec u64 b = Inr (Dense ls)"
      "set ls = {l \<in> set layers. layer_url st model l = Some url}"
      "\<forall>key. key \<noteq> ''layer'' \<and> key \<noteq> ''layers'' \<longrightarrow> field_of b key = field_of v key"
      using s(3) [OF i] by auto
    have "spec_items (Dense ls) = {i \<in> spec_items spec. item_url st model i = Some url}"
      using b(3) by (auto simp: spec_items_def item_url_def Dense)
    moreover have "json_model_id b = json_model_id v" using b(4) by (intro json_model_id_kept) simp
    ultimately show ?thesis using b(1,2,4) by blast
  qed
  moreover have "fst ` set subs = {url. \<exists>i \<in> spec_items spec. item_url st model i = Some url}"
    unfolding s(2) by (auto simp: spec_items_def item_url_def Dense)
  ultimately show ?thesis using s(1) unfolding Dense request_spec.case by blast
next
  case (Moe pairs)
  have d: "moe_dispatch num st (json_model_id v) pairs = Inr (FanOut subs)"
    using assms(1-3) by (auto simp: plan_request_def extract_request_spec_and_model_id_def Moe split: if_splits)
  obtain g where g: "ro_grid st = Some g" using d by (auto simp: moe_dispatch_def split: option.splits)
  note s = moe_subs [OF d g assms(4) moe_experts_less [OF assms(3) [unfolded Moe]]]
  have u: "item_url st model (l, Some e) = expert_url g model (l, e)" for l e by (simp add: item_url_def g)
  have "\<exists>b part. sub = Some b \<and> json_spec u64 b = Inr part \<and> json_model_id b = json_model_id v \<and>
      spec_items part = {i \<in> spec_items spec. item_url st model i = Some url} \<and>
      (\<forall>key. field_of b key \<noteq> None \<longleftrightarrow> key = ''layer_experts'' \<or> key = ''model_id'' \<and> json_model_id v \<noteq> None)"
    if i: "(url, sec, sub) \<in> set subs" for url sec sub
  proof -
    obtain b entries where b: "sub = Some b" "json_spec u64 b = Inr (Moe entries)" "json_model_id b = json_model_id v"
      "requested entries = {p \<in> requested pairs. expert_url g model p = Some url}"
      "\<forall>key. field_of b key \<noteq> None \<longleftrightarrow> key = ''layer_experts'' \<or> key = ''model_id'' \<and> json_model_id v \<noteq> None"
      using s(3) [OF i, folded assms(5)] by (elim exE conjE) (rule that, assumption+)
    have "spec_items (Moe entries) = {i \<in> spec_items spec. item_url st model i = Some url}"
      using b(4) by (auto simp: spec_items_def Moe u)
    with b(1-3,5) show ?thesis by (intro exI [of _ b] exI [of _ "Moe entries"] conjI)
  qed
  moreover have "fst ` set subs = {url. \<exists>i \<in> spec_items spec. item_url st model i = Some url}"
    unfolding s(2) assms(5) [symmetric] by (force simp: spec_items_def Moe u)
  ultimately show ?thesis using s(1) unfolding Moe request_spec.case by blast
qed

definition demo_shards :: router_state where
  "demo_shards = \<lparr>ro_static_shards = [\<lparr>sh_layer_start = 0, sh_layer_end = 1, sh_url = ''ua''\<rparr>,
     \<lparr>sh_layer_start = 1, sh_layer_end = 9, sh_url = ''ub''\<rparr>], ro_grid = None, ro_hedge_after = None\<rparr>"

definition demo_json :: "nat json" where
  "demo_json = JObject [(chars ''layers'', JArray [JNumber 1, JNumber 0, JNumber 2])]"

lemma fan_out_witness:
  "\<exists>subs. plan_request (\<lambda>_. Some demo_json) Some id demo_shards False [] = Inr (FanOut subs) \<and> fst ` set subs = {''ua'', ''ub''} \<and>
     (\<exists>b. (''ub'', None, Some b) \<in> set subs \<and> (\<exists>part. json_spec Some b = Inr part \<and> spec_items part = {(1, None), (2, None)}))"
proof -
  have v: "json_spec Some demo_json = Inr (Dense [1, 0, 2])" "json_model_id demo_json = None"
    by (simp_all add: demo_json_def json_spec_def array_field_def u64_items_def as_number_def List.map_filter_simps
        json_model_id_def)
  have u: "layer_url demo_shards None 0 = Some ''ua''" "layer_url demo_shards None 1 = Some ''ub''" "layer_url demo_shards None 2 = Some ''ub''"
    by (simp_all add: layer_url_def demo_shards_def find_shard_for_layer_def shard_owns_def)
  obtain subs where p: "plan_request (\<lambda>_. Some demo_json) Some id demo_shards False [] = Inr (FanOut subs)"
    and sec: "\<forall>(url, sec, sub) \<in> set subs. sec = None"
    by (simp add: plan_request_def extract_request_spec_and_model_id_def v spec_is_empty_def dense_dispatch_def resolve_all_def
        resolve_static_only_def demo_shards_def find_shard_for_layer_def shard_owns_def dense_secondary_def case_prod_unfold)
  have n: "reads_numbers Some (id :: nat \<Rightarrow> nat)" by (simp add: reads_numbers_def)
  note f = fan_out [OF p refl v(1) n, of None, unfolded v(2) option.map, OF refl]
  have i: "spec_items (Dense [1, 0, 2]) = {(1, None), (0, None), (2, None)}" by (auto simp: spec_items_def)
  have k: "item_url demo_shards None (l, None) = layer_url demo_shards None l" for l by (simp add: item_url_def)
  have "{url. \<exists>i \<in> spec_items (Dense [1, 0, 2]). item_url demo_shards None i = Some url} = {''ua'', ''ub''}"
    by (auto simp: i k u simp del: One_nat_def)
  then have urls: "fst ` set subs = {''ua'', ''ub''}" using f [THEN conjunct2, THEN conjunct1] by simp
  then have "''ub'' \<in> fst ` set subs" by simp
  then obtain sec sub where m: "(''ub'', sec, sub) \<in> set subs" by force
  obtain b part where "sub = Some b" "json_spec Some b = Inr part"
    "spec_items part = {i \<in> spec_items (Dense [1, 0, 2]). item_url demo_shards None i = Some ''ub''}"
    using bspec [OF f [THEN conjunct2, THEN conjunct2] m] by blast
  moreover have "{i \<in> spec_items (Dense [1, 0, 2]). item_url demo_shards None i = Some ''ub''} = {(1, None), (2, None)}"
    by (auto simp: i k u simp del: One_nat_def)
  moreover have "sec = None" using sec m by blast
  ultimately show ?thesis using p urls m by blast
qed

text \<open>
  Servers that keep what they announce: whoever is registered for a layer runs it, with the client's hidden size before
  and after any patch, and its cache of outputs has only seen its own requests, answered with the models \<open>past_at\<close>.
\<close>

definition honest ::
  "(nat list \<Rightarrow> nat) \<Rightarrow> grid \<Rightarrow> (string \<Rightarrow> ffn_model) \<Rightarrow> (string \<Rightarrow> ffn_model set) \<Rightarrow> (string \<Rightarrow> l2_cache) \<Rightarrow> nat \<Rightarrow> nat \<Rightarrow> bool" where
  "honest hash g model_at past_at cache_at h s \<longleftrightarrow>
     (\<forall>e \<in> set (servers g).
        (\<forall>l. sv_layer_start e \<le> l \<and> l \<le> sv_layer_end e \<longrightarrow> can_serve (model_at (sv_url e)) [l]) \<and>
        same_shape (insert (model_at (sv_url e)) (past_at (sv_url e))) h s \<and>
        l2_reachable hash (past_at (sv_url e)) (cache_at (sv_url e)))"

lemma routed_server:
  assumes "reachable r" "grid_url None (rt_grid r) l = Some url" "l < 2 ^ 32"
  obtains e where "e \<in> set (servers (rt_grid r))" "sv_url e = url" "sv_layer_start e \<le> l" "l \<le> sv_layer_end e"
proof -
  have g: "keys_ok (rt_grid r)" "tables_ok (rt_grid r)" using reachable_grid [OF assms(1)] by blast+
  obtain e where e: "min_by (compare_servers l) (eligible (\<lambda>_. True) None l (rt_grid r)) = Some e" "sv_url e = url"
    using assms(2,3) by (auto simp: grid_url_def route_def route_among_min [OF g])
  from min_by_mem [OF e(1)] show ?thesis using that [of e] e(2) by (simp add: eligible_def serves_def)
qed

text \<open>
  C5. A client that calls several layers through a router that only has a grid, in front of servers that keep what they
  announce, gets what one call of the layers gives, exactly as floats whatever format it asked for, from the server that
  the grid routes all of them to. The router refuses the call when its body is above the limit; then when a layer has no
  server below the ceiling, for the first such layer; then when the layers are routed to different servers; and in no
  other case. The answers are those of a direct call: the server's output, or for a single position a cached one.
\<close>

theorem routed_call:
  assumes "reachable r" "st = \<lparr>ro_static_shards = [], ro_grid = Some (rt_grid r), ro_hedge_after = hedge\<rparr>"
    and "honest hash (rt_grid r) model_at past_at cache_at h s" "0 < s" "length x = s * h" "exchange_fits (length layers) s h"
    and "layers \<noteq> []" "\<forall>l \<in> set layers. l < batch_marker"
    and "req = sent_request None (Some layers) x s" "url = the (grid_url None (rt_grid r) (hd layers))"
  shows "call_batch widen json_batch wire h
      (via_router parse st (\<lambda>url accept body. fst (handle_binary hash narrow flags [model_at url] latency accept body (cache_at url))))
      layers x s =
    (if body_limit < length (encode_binary_request None (Some layers) x s True 8092)
     then Inl (ServerAnswered (RouterRefused BodyNotRead))
     else case find (\<lambda>l. grid_url None (rt_grid r) l = None) layers of
         Some l \<Rightarrow> Inl (ServerAnswered (RouterRefused (missing_layer st None l)))
       | None \<Rightarrow>
           if \<forall>l \<in> set layers. grid_url None (rt_grid r) l = Some url
           then Inr (\<lambda>l. if l \<in> set layers then Some (layer_answer hash (cache_at url) (model_at url) req l) else None)
           else Inl (ServerAnswered (RouterRefused BinaryFanOut))) \<and>
    ((\<forall>l \<in> set layers. grid_url None (rt_grid r) l = Some url) \<longrightarrow>
      (\<forall>l. answers hash (past_at url) (model_at url) req l (layer_answer hash (cache_at url) (model_at url) req l)))"
proof -
  let ?g = "rt_grid r"
  let ?body = "encode_binary_request None (Some layers) x s True 8092"
  let ?shards = "\<lambda>url accept body. fst (handle_binary hash narrow flags [model_at url] latency accept body (cache_at url))"
  have u: "layer_url st None l = grid_url None ?g l" for l
    by (simp add: layer_url_def assms(2) find_shard_for_layer_def split: option.split)
  have lt: "\<forall>l \<in> set layers. l < 2 ^ 32" using assms(8) batch_marker_less less_trans by blast
  have "decode_binary_request ?body = Inr (sent_request None (Some layers) x s)"
    using assms(6) lt by (subst decode_request_layers) (auto simp: exchange_fits_def sent_request_def)
  then have peek: "peek_binary ?body = Some layers" using peek_decoded [of ?body] by simp
  have server: "same_shape (insert (model_at url) (past_at url)) h s \<and> l2_reachable hash (past_at url) (cache_at url) \<and>
      can_serve (model_at url) layers" if all: "\<forall>l \<in> set layers. grid_url None ?g l = Some url"
  proof -
    have srv: "\<exists>e. e \<in> set (servers ?g) \<and> sv_url e = url \<and> sv_layer_start e \<le> l \<and> l \<le> sv_layer_end e" if "l \<in> set layers" for l
    proof -
      have "grid_url None ?g l = Some url" "l < 2 ^ 32" using all lt that by blast+
      from routed_server [OF assms(1) this] show ?thesis by blast
    qed
    have each: "can_serve (model_at url) [l]" if "l \<in> set layers" for l using srv [OF that] assms(3) by (auto simp: honest_def)
    obtain e where "e \<in> set (servers ?g)" "sv_url e = url" using srv [of "hd layers"] assms(7) by auto
    then show ?thesis using assms(3,7) each by (cases layers) (auto simp: honest_def can_serve_def)
  qed
  have sound: "answers hash (past_at url) (model_at url) req l (layer_answer hash (cache_at url) (model_at url) req l)"
    if "\<forall>l \<in> set layers. grid_url None ?g l = Some url" for l
    using server [OF that] by (intro layer_answer_answers l2_reachable_sound) blast
  have proxied: "call_batch widen json_batch wire h (via_router parse st ?shards) layers x s =
      Inr (\<lambda>l. if l \<in> set layers then Some (layer_answer hash (cache_at url) (model_at url) req l) else None)"
    if all: "\<forall>l \<in> set layers. grid_url None ?g l = Some url" and b: "length ?body \<le> body_limit"
  proof -
    have "find (\<lambda>l. grid_url None ?g l = None) layers = None" using all by (auto simp: find_None_iff)
    then have plan: "plan_request parse Some id st True ?body = Inr (ProxyRaw url binary_ct ?body)"
      using binary_plan [OF peek assms(7) b, of parse Some id st, unfolded u] all assms(7) by simp
    have ct: "ffn_ct = preferred_response_ct (wf_f16_disabled flags) (wf_i8_enabled flags) None"
      by (simp add: preferred_response_ct_def)
    have srv: "l2_sound hash (past_at url) (cache_at url)" "can_serve (model_at url) layers"
      "same_shape (insert (model_at url) (past_at url)) h s"
      using server [OF all] l2_reachable_sound by blast+
    obtain reply where "fst (handle_binary hash narrow flags [model_at url] latency None ?body (cache_at url)) = Inr (ffn_ct, reply)"
      "decode_reply_batch widen json_batch h (ffn_ct, reply) = (Inr (\<lambda>l. if l \<in> set layers
         then Some (wire_kept narrow widen ffn_ct s (layer_answer hash (cache_at url) (model_at url) (sent_request None (Some layers) x s) l))
         else None) :: hop_error client_error + _)"
      by (rule remote_batch [OF srv assms(5,6,4) ct b])
    then show ?thesis
      using content_types(7,8)
      by (simp add: call_batch_def as_answer_def via_router_def plan proxy_raw_def wire_kept_def assms(9) cong: if_cong)
  qed
  have refused: "call_batch widen json_batch wire h (via_router parse st ?shards) layers x s =
      (case find (\<lambda>l. grid_url None ?g l = None) layers of
         Some l \<Rightarrow> Inl (ServerAnswered (RouterRefused (missing_layer st None l)))
       | None \<Rightarrow> Inl (ServerAnswered (RouterRefused BinaryFanOut)))"
    if "\<not> (\<forall>l \<in> set layers. grid_url None ?g l = Some url)" "length ?body \<le> body_limit"
  proof -
    have hd: "grid_url None ?g (hd layers) = Some url" if "find (\<lambda>l. grid_url None ?g l = None) layers = None"
    proof -
      have "grid_url None ?g (hd layers) \<noteq> None" using that hd_in_set [OF assms(7)] unfolding find_None_iff by metis
      then show ?thesis by (simp add: assms(10))
    qed
    have several: "\<not> (\<forall>l \<in> set layers. grid_url None ?g l = grid_url None ?g (hd layers))"
      if "find (\<lambda>l. grid_url None ?g l = None) layers = None"
      unfolding hd [OF that] by fact
    note plan = binary_plan [OF peek assms(7) that(2), of parse Some id st, unfolded u]
    show ?thesis
    proof (cases "find (\<lambda>l. grid_url None ?g l = None) layers")
      case None
      have "plan_request parse Some id st True ?body = Inl BinaryFanOut"
        unfolding plan None option.case if_not_P [OF several [OF None]] ..
      then show ?thesis by (simp add: call_batch_def as_answer_def via_router_def None)
    qed (simp add: call_batch_def as_answer_def via_router_def plan)
  qed
  have limit: "call_batch widen json_batch wire h (via_router parse st ?shards) layers x s =
      Inl (ServerAnswered (RouterRefused BodyNotRead))" if "body_limit < length ?body"
    using that by (simp add: call_batch_def as_answer_def via_router_def plan_request_def)
  have none: "find (\<lambda>l. grid_url None ?g l = None) layers = None" if "\<forall>l \<in> set layers. grid_url None ?g l = Some url"
    using that by (auto simp: find_None_iff)
  have outcome: "call_batch widen json_batch wire h (via_router parse st ?shards) layers x s =
      (if body_limit < length ?body then Inl (ServerAnswered (RouterRefused BodyNotRead))
       else case find (\<lambda>l. grid_url None ?g l = None) layers of
           Some l \<Rightarrow> Inl (ServerAnswered (RouterRefused (missing_layer st None l)))
         | None \<Rightarrow>
             if \<forall>l \<in> set layers. grid_url None ?g l = Some url
             then Inr (\<lambda>l. if l \<in> set layers then Some (layer_answer hash (cache_at url) (model_at url) req l) else None)
             else Inl (ServerAnswered (RouterRefused BinaryFanOut)))"
  proof (cases "body_limit < length ?body")
    case True
    show ?thesis unfolding limit [OF True] if_P [OF True] ..
  next
    case False
    then have b: "length ?body \<le> body_limit" by simp
    show ?thesis
    proof (cases "\<forall>l \<in> set layers. grid_url None ?g l = Some url")
      case True
      show ?thesis unfolding proxied [OF True b] if_not_P [OF False] none [OF True] option.case if_P [OF True] ..
    next
      case several: False
      show ?thesis unfolding refused [OF several b] if_not_P [OF False] if_not_P [OF several] ..
    qed
  qed
  show ?thesis by (intro conjI impI allI outcome sound)
qed

lemma demo_routes: "grid_url None (rt_grid demo_router) 3 = Some ''ua''" "grid_url None (rt_grid demo_router) 5 = Some ''ua''"
proof -
  have g: "keys_ok (rt_grid demo_router)" "tables_ok (rt_grid demo_router)" using reachable_grid [OF demo_reachable] by blast+
  show "grid_url None (rt_grid demo_router) 3 = Some ''ua''" "grid_url None (rt_grid demo_router) 5 = Some ''ua''"
    by (simp_all add: grid_url_def route_def route_among_min [OF g] eligible_def demo_router_state demo_servers_def announced_def
        serves_def below_ceiling_def min_by_def compare_servers_def nat_cmp_def)
qed

lemma demo_honest:
  "honest sum_list (rt_grid demo_router) (\<lambda>_. demo_model) (\<lambda>_. {}) (\<lambda>_. l2_with_max_entries 30 8) 2 1"
  by (auto simp: honest_def same_shape_def demo_router_state demo_servers_def announced_def demo_shape l2_reachable.start intro!: demo_serves)

lemma routed_call_witness:
  "call_batch demo_widen (\<lambda>_. None) WireI8 2
     (via_router (\<lambda>_. None) \<lparr>ro_static_shards = [], ro_grid = Some (rt_grid demo_router), ro_hedge_after = None\<rparr>
        (\<lambda>url accept body. fst (handle_binary sum_list demo_narrow demo_flags [demo_model] 0 accept body (l2_with_max_entries 30 8))))
     [3, 5] [1, 2] 1 = Inr (\<lambda>l. if l \<in> {3, 5} then Some [1, 2] else None)"
proof -
  have "\<not> body_limit < length (encode_binary_request None (Some [3, 5]) [1, 2] 1 True 8092)"
    by (simp add: encode_binary_request_def body_limit_def)
  moreover have "find (\<lambda>l. grid_url None (rt_grid demo_router) l = None) [3, 5] = None" by (simp add: demo_routes)
  ultimately show ?thesis
    using routed_call [OF demo_reachable refl demo_honest, where hedge = None and x = "[1, 2]" and layers = "[3, 5]"
        and widen = demo_widen and json_batch = "\<lambda>_. None" and wire = WireI8 and parse = "\<lambda>_. None"
        and narrow = demo_narrow and flags = demo_flags and latency = 0, OF _ _ _ _ _ refl refl]
    by (simp add: exchange_fits_def batch_marker_def demo_routes demo_answer cong: if_cong)
qed

section \<open>All layers of a token at once\<close>

text \<open>
  C7. The quantised activations of all layers, grouped by shard into one request each, are answered as single requests
  would be, each layer by the shard that owns it; but a shard that cannot answer one of its layers, or whose request is
  above the limit of the body, answers none, and such layers, as those without a shard, are zeros. The dispatch then takes the quantised answers, when there are
  answers for all layers and none is all zeros, or the answers in floats for all of them, and never mixes the two.
\<close>

theorem predispatch:
  assumes normed: "normed = map (\<lambda>(layer, h). prenorm layer h) (List.enumerate 0 captured)"
    and served: "q8k_served server shards (map quantise normed)" and len: "n = length captured"
    and answer: "answer = q8k_answer server shards (map quantise normed)"
  shows "forward_predispatch_all_q8k shards (map quantise normed) =
      map (\<lambda>l. case answer l of Some v \<Rightarrow> v | None \<Rightarrow> zero_layer shards) [0..<n] \<and>
    (\<forall>l < n. \<forall>v. answer l = Some v \<longrightarrow> forward_single_q8k shards l (quantise (normed ! l)) = Some v) \<and>
    (captured \<noteq> [] \<longrightarrow>
      dispatch_ffn prenorm postnorm quantise widen json_single shards captured =
      map (\<lambda>(layer, out). postnorm layer out) (List.enumerate 0
        (if 0 < length (hd captured) \<and> 256 dvd length (hd captured) \<and>
            (\<forall>l < n. \<exists>v. answer l = Some v \<and> \<not> list_all f32_is_zero v)
         then map (\<lambda>l. the (answer l)) [0..<n]
         else forward_predispatch_all widen json_single shards normed)))"
proof -
  have n: "length normed = n" by (simp add: normed len)
  have all: "forward_predispatch_all_q8k shards (map quantise normed) =
      map (\<lambda>l. case answer l of Some v \<Rightarrow> v | None \<Rightarrow> zero_layer shards) [0..<n]"
    using predispatch_q8k_answers [OF served] by (simp add: answer n)
  have single: "forward_single_q8k shards l (quantise (normed ! l)) = Some v" if "l < n" "answer l = Some v" for l v
    using single_q8k_answer [OF served, of l v] that by (simp add: answer n)
  have zero: "list_all f32_is_zero (zero_layer shards)" by (simp add: zero_layer_def list_all_iff)
  have none: "\<not> list_ex (list_all f32_is_zero) (forward_predispatch_all_q8k shards (map quantise normed)) \<longleftrightarrow>
      (\<forall>l < n. \<exists>v. answer l = Some v \<and> \<not> list_all f32_is_zero v)"
    (is "_ \<longleftrightarrow> (\<forall>l < n. ?ok l)")
  proof -
    have "list_all f32_is_zero (case answer l of Some v \<Rightarrow> v | None \<Rightarrow> zero_layer shards) \<longleftrightarrow> \<not> ?ok l" for l
      using zero by (cases "answer l") auto
    then show ?thesis unfolding all by (auto simp: list_ex_iff)
  qed
  have taken: "forward_predispatch_all_q8k shards (map quantise normed) = map (\<lambda>l. the (answer l)) [0..<n]"
    if "\<forall>l < n. \<exists>v. answer l = Some v \<and> \<not> list_all f32_is_zero v"
    using that unfolding all by auto
  have "dispatch_ffn prenorm postnorm quantise widen json_single shards captured =
      map (\<lambda>(layer, out). postnorm layer out) (List.enumerate 0
        (if 0 < length (hd captured) \<and> 256 dvd length (hd captured) \<and>
            (\<forall>l < n. \<exists>v. answer l = Some v \<and> \<not> list_all f32_is_zero v)
         then map (\<lambda>l. the (answer l)) [0..<n]
         else forward_predispatch_all widen json_single shards normed))" if "captured \<noteq> []"
  proof -
    have h: "(case captured of [] \<Rightarrow> 0 | h # _ \<Rightarrow> length h) = length (hd captured)" using that by (cases captured) auto
    show ?thesis
      using none taken
      by (cases "\<forall>l < n. \<exists>v. answer l = Some v \<and> \<not> list_all f32_is_zero v")
        (simp_all only: dispatch_ffn_def h Let_def normed [symmetric] if_True if_False simp_thms de_Morgan_conj neq0_conv if_not_P not_not, simp_all)
  qed
  then show ?thesis using all single by blast
qed

text \<open>One server for two layers.\<close>

definition demo_q8k :: q8k_server where
  "demo_q8k = \<lparr>qs_models = [demo_model], qs_has_q4k = True, qs_forward = (\<lambda>_ a. take 1 (qk_d a))\<rparr>"

definition demo_places :: "unit backend layer_shard list" where
  "demo_places = [\<lparr>ls_start = 0, ls_end = 1, ls_backend =
     \<lparr>be_hidden = 1, be_wire = WireF32, be_post = (\<lambda>_ _. Inl ()), be_post_q8k = serve_q8k demo_q8k\<rparr>\<rparr>]"

definition demo_quantise :: "f32 list \<Rightarrow> q8k_activation" where
  "demo_quantise h = \<lparr>qk_qs = replicate 256 1, qk_d = [hd h], qk_sums = replicate 8 32\<rparr>"

lemma predispatch_witness:
  "dispatch_ffn (\<lambda>_ h. h) (\<lambda>_ v. v) demo_quantise demo_widen (\<lambda>_. None) demo_places
     [replicate 256 7, replicate 256 9] = [[7], [9]]"
proof -
  let ?hs = "map demo_quantise [replicate 256 7, replicate 256 9]"
  have served: "q8k_served (\<lambda>_. demo_q8k) demo_places ?hs"
    by (simp add: q8k_served_def demo_places_def demo_q8k_def demo_quantise_def q8k_shaped_def n_blocks_def min_less_iff_disj)
  have owner: "owner_of demo_places l = (if l < 2 then Some 0 else None)" for l
    by (auto simp: owner_of_def demo_places_def)
  have answer: "q8k_answer (\<lambda>_. demo_q8k) demo_places ?hs l = Some [hd ([replicate 256 7, replicate 256 9] ! l)]" if "l < 2" for l
    using that by (auto simp: q8k_answer_def owner answers_q8k_def demo_q8k_def only_model_def demo_model_def layer_owned_def
        demo_quantise_def less_2_cases_iff encode_q8k_batch_request_def q8k_entry_bytes_def n_blocks_def sums_bytes_def
        f32_block_def comp_def body_limit_def length_concat sum_list_replicate)
  have "\<exists>v. q8k_answer (\<lambda>_. demo_q8k) demo_places ?hs l = Some v \<and> \<not> list_all f32_is_zero v" if "l < 2" for l
    using answer [OF that] that by (auto simp: less_2_cases_iff f32_is_zero_def f32_magnitude_def)
  then show ?thesis
    using predispatch [of _ "\<lambda>_ h. h" "[replicate 256 7, replicate 256 9]" "\<lambda>_. demo_q8k" demo_places demo_quantise 2 _
        "\<lambda>_ v. v" demo_widen "\<lambda>_. None", OF _ _ _ refl] served answer
    by (simp add: upt_rec numeral_2_eq_2)
qed

text \<open>
  The router and the client accept the same maps of layers to servers, and with the same map a layer belongs to
  the same server in both, as long as no range ends at the largest number; the URL is trimmed of white space by the
  one and of slashes at the end by the other.
\<close>

theorem shard_maps:
  assumes "CHR ''='' \<in> set spec"
  shows "case parse_shards spec of
    Inl _ \<Rightarrow> \<exists>e. connect_sharded up spec = Inl e
  | Inr ss \<Rightarrow> \<exists>cs. connect_sharded up spec = Inr cs \<and>
      ((\<forall>c \<in> set cs. ls_end c < 2 ^ 64 - 1) \<longrightarrow>
        (\<forall>l. rel_option (\<lambda>s b. \<exists>url. sh_url s = trim url \<and> b = base_url url) (find_shard_for_layer ss l) (shard_for cs l)))"
  using shard_maps_agree [of spec] assms owners_agree by (fastforce simp: connect_sharded_def split: sum.split)

lemma shard_maps_witness:
  "(\<exists>e. parse_shards ''0-3=a'' = Inl e) = (\<exists>e. connect_sharded up ''0-3=a'' = Inl e)"
  using shard_maps [of "''0-3=a''"] by (auto split: sum.splits)

end
