(* ===== verification/ServerSessions.thy ===== *)
theory ServerSessions
  imports VindexOverlayCache
begin

text \<open>
  The sessions of the server (\<open>crates/larql-server/src/session.rs\<close>): each session has an overlay of its own on a copy
  of the base index of the global overlay. An instant is a number of nanoseconds, so \<open>duration_since\<close>, which
  saturates, is the subtraction of naturals; \<open>order\<close> is the order in which the hash map of the sessions is walked.
  The lock of the sessions is released between the fast and the slow part of \<open>apply_patch\<close>: each part is an operation
  of its own and the steps of several tasks interleave.
\<close>

section \<open>State\<close>

record session_state =
  ss_patched :: patched_vindex
  ss_last_accessed :: nat

record session_manager =
  sm_sessions :: "string \<Rightarrow> session_state option"
  sm_ttl :: nat

definition session_new :: "base_index \<Rightarrow> nat \<Rightarrow> session_state" where
  "session_new base now = \<lparr>ss_patched = new_patched base, ss_last_accessed = now\<rparr>"

definition session_touch :: "nat \<Rightarrow> session_state \<Rightarrow> session_state" where
  "session_touch now s = s\<lparr>ss_last_accessed := now\<rparr>"

definition manager_new :: "nat \<Rightarrow> session_manager" where
  "manager_new ttl_secs = \<lparr>sm_sessions = Map.empty, sm_ttl = (if ttl_secs = 0 then 3600 else ttl_secs) * 10 ^ 9\<rparr>"

definition put_session :: "string \<Rightarrow> session_state \<Rightarrow> session_manager \<Rightarrow> session_manager" where
  "put_session sid s mgr = mgr\<lparr>sm_sessions := (sm_sessions mgr)(sid \<mapsto> s)\<rparr>"

section \<open>Operations\<close>

definition session_expired :: "nat \<Rightarrow> session_manager \<Rightarrow> string \<Rightarrow> bool" where
  "session_expired now mgr sid \<longleftrightarrow>
     (case sm_sessions mgr sid of Some s \<Rightarrow> sm_ttl mgr < now - ss_last_accessed s | None \<Rightarrow> False)"

definition evict_expired :: "string list \<Rightarrow> nat \<Rightarrow> session_manager \<Rightarrow> session_manager" where
  "evict_expired order now mgr =
     (let expired = take 10 (filter (session_expired now mgr) order)
      in mgr\<lparr>sm_sessions := foldl (\<lambda>m k. m(k := None)) (sm_sessions mgr) expired\<rparr>)"

definition get_or_create ::
    "(string \<Rightarrow> string) \<Rightarrow> string list \<Rightarrow> nat \<Rightarrow> string \<Rightarrow> patched_vindex \<Rightarrow> session_manager \<Rightarrow> patched_vindex \<times> session_manager" where
  "get_or_create lower order now sid global mgr =
     (let mgr = evict_expired order now mgr in
      case sm_sessions mgr sid of
        Some s \<Rightarrow>
          (let s = session_touch now s
           in (foldl (apply_patch lower) (new_patched (pv_base global)) (pv_patches (ss_patched s)), put_session sid s mgr))
      | None \<Rightarrow> (new_patched (pv_base global), put_session sid (session_new (pv_base global) now) mgr))"

text \<open>The part \<open>apply_patch\<close> does under the lock with the session it found or made.\<close>

definition apply_to_session ::
    "(string \<Rightarrow> string) \<Rightarrow> nat \<Rightarrow> string \<Rightarrow> vindex_patch \<Rightarrow> session_state \<Rightarrow> session_manager \<Rightarrow> (nat \<times> nat) \<times> session_manager" where
  "apply_to_session lower now sid patch s mgr =
     (let s = (session_touch now s)\<lparr>ss_patched := apply_patch lower (ss_patched s) patch\<rparr>
      in ((length (vp_operations patch), num_patches (ss_patched s)), put_session sid s mgr))"

definition apply_patch_fast ::
    "(string \<Rightarrow> string) \<Rightarrow> nat \<Rightarrow> string \<Rightarrow> vindex_patch \<Rightarrow> session_manager \<Rightarrow> ((nat \<times> nat) \<times> session_manager) option" where
  "apply_patch_fast lower now sid patch mgr =
     (case sm_sessions mgr sid of
        Some s \<Rightarrow> Some (apply_to_session lower now sid patch s mgr)
      | None \<Rightarrow> None)"

text \<open>The session may have been made by another task since the fast part missed it.\<close>

definition apply_patch_slow ::
    "(string \<Rightarrow> string) \<Rightarrow> nat \<Rightarrow> string \<Rightarrow> base_index \<Rightarrow> vindex_patch \<Rightarrow> session_manager \<Rightarrow> (nat \<times> nat) \<times> session_manager" where
  "apply_patch_slow lower now sid new_base patch mgr =
     apply_to_session lower now sid patch
       (case sm_sessions mgr sid of Some s \<Rightarrow> s | None \<Rightarrow> session_new new_base now) mgr"

text \<open>Both parts, when no other task comes between them.\<close>

definition session_apply_patch ::
    "(string \<Rightarrow> string) \<Rightarrow> nat \<Rightarrow> string \<Rightarrow> patched_vindex \<Rightarrow> vindex_patch \<Rightarrow> session_manager \<Rightarrow> (nat \<times> nat) \<times> session_manager" where
  "session_apply_patch lower now sid global patch mgr =
     (case apply_patch_fast lower now sid patch mgr of
        Some r \<Rightarrow> r
      | None \<Rightarrow> apply_patch_slow lower now sid (pv_base global) patch mgr)"

definition patch_unnamed :: string where
  "patch_unnamed = ''unnamed''"

definition patch_name :: "vindex_patch \<Rightarrow> string" where
  "patch_name p = (case vp_description p of Some d \<Rightarrow> d | None \<Rightarrow> patch_unnamed)"

record listed_patch =
  lp_name :: string
  lp_operations :: nat
  lp_base_model :: string

definition listed_patches :: "patched_vindex \<Rightarrow> listed_patch list" where
  "listed_patches pv =
     map (\<lambda>p. \<lparr>lp_name = patch_name p, lp_operations = length (vp_operations p), lp_base_model = vp_base_model p\<rparr>) (pv_patches pv)"

definition session_list_patches :: "string \<Rightarrow> session_manager \<Rightarrow> listed_patch list" where
  "session_list_patches sid mgr = (case sm_sessions mgr sid of Some s \<Rightarrow> listed_patches (ss_patched s) | None \<Rightarrow> [])"

text \<open>\<open>iter().position(..)\<close>.\<close>

fun position :: "('a \<Rightarrow> bool) \<Rightarrow> 'a list \<Rightarrow> nat option" where
  "position P [] = None"
| "position P (x # xs) = (if P x then Some 0 else map_option Suc (position P xs))"

datatype session_error = SessionNotFound string | SessionPatchNotFound string

definition session_remove_patch ::
    "(string \<Rightarrow> string) \<Rightarrow> string \<Rightarrow> string \<Rightarrow> session_manager \<Rightarrow> (session_error + nat) \<times> session_manager" where
  "session_remove_patch lower sid name mgr =
     (case sm_sessions mgr sid of
        None \<Rightarrow> (Inl (SessionNotFound sid), mgr)
      | Some s \<Rightarrow>
          (case position (\<lambda>p. patch_name p = name) (pv_patches (ss_patched s)) of
             None \<Rightarrow> (Inl (SessionPatchNotFound name), mgr)
           | Some i \<Rightarrow>
               (let pv = remove_patch lower i (ss_patched s)
                in (Inr (num_patches pv), put_session sid (s\<lparr>ss_patched := pv\<rparr>) mgr))))"

definition session_count :: "session_manager \<Rightarrow> nat" where
  "session_count mgr = card (dom (sm_sessions mgr))"

section \<open>What the operations do to the list of patches of each session\<close>

text \<open>The abstract state: for each session the patches that are applied, in order.\<close>

definition session_log :: "session_manager \<Rightarrow> string \<Rightarrow> vindex_patch list option" where
  "session_log mgr sid = map_option (\<lambda>s. pv_patches (ss_patched s)) (sm_sessions mgr sid)"

lemma put_session_at [simp]:
  "sm_sessions (put_session sid s mgr) = (sm_sessions mgr)(sid \<mapsto> s)" "sm_ttl (put_session sid s mgr) = sm_ttl mgr"
  by (simp_all add: put_session_def)

lemma log_put [simp]: "session_log (put_session sid s mgr) = (session_log mgr)(sid \<mapsto> pv_patches (ss_patched s))"
  by (auto simp: session_log_def fun_eq_iff)

lemma cleared_at: "foldl (\<lambda>m k. m(k := None)) m ks x = (if x \<in> set ks then None else m x)"
  by (induction ks arbitrary: m) auto

lemma evict_expired_at:
  "sm_sessions (evict_expired order now mgr) sid =
     (if sid \<in> set (take 10 (filter (session_expired now mgr) order)) then None else sm_sessions mgr sid)"
  "sm_ttl (evict_expired order now mgr) = sm_ttl mgr"
  by (simp_all add: evict_expired_def cleared_at)

lemma evicted_only_expired:
  "\<not> session_expired now mgr sid \<Longrightarrow> sm_sessions (evict_expired order now mgr) sid = sm_sessions mgr sid"
  by (auto simp: evict_expired_at dest: in_set_takeD)

text \<open>With at most ten expired sessions all of them go.\<close>

lemma evicts_all:
  assumes "length (filter (session_expired now mgr) order) \<le> 10" "sid \<in> set order" "session_expired now mgr sid"
  shows "sm_sessions (evict_expired order now mgr) sid = None"
  using assms by (simp add: evict_expired_at)

lemma position_Some: "position P xs = Some i \<Longrightarrow> i < length xs \<and> P (xs ! i) \<and> (\<forall>j < i. \<not> P (xs ! j))"
proof (induction xs arbitrary: i)
  case (Cons x xs)
  then show ?case
  proof (cases "P x")
    case False
    with Cons.prems obtain j where j: "position P xs = Some j" "i = Suc j" by auto
    from Cons.IH [OF j(1)] j(2) False show ?thesis by (auto simp: less_Suc_eq_0_disj)
  qed simp
qed simp

lemma position_None: "position P xs = None \<longleftrightarrow> (\<forall>x \<in> set xs. \<not> P x)"
  by (induction xs) auto

text \<open>The list without its first element with the property.\<close>

fun remove_first :: "('a \<Rightarrow> bool) \<Rightarrow> 'a list \<Rightarrow> 'a list" where
  "remove_first P [] = []"
| "remove_first P (x # xs) = (if P x then xs else x # remove_first P xs)"

lemma position_remove_first: "position P xs = Some i \<Longrightarrow> take i xs @ drop (i + 1) xs = remove_first P xs"
  by (induction xs arbitrary: i) (auto split: if_splits)

end
