(* ===== verification/ServerModel.thy ===== *)
theory ServerModel
  imports ServerSessions
begin

text \<open>
  A loaded model of the server as its routes see it (\<open>crates/larql-server/src/state.rs\<close>, \<open>band_utils.rs\<close>, and the table
  of layer bands of \<open>crates/larql-vindex/src/config/compliance.rs\<close>): the bands of its layers, its lookup by
  identifier, and the embedding of a text as the routes compute it from the tokens. The tokenizer is a function of the
  model, as it is a library of its own.
\<close>

section \<open>Layer bands\<close>

record layer_bands =
  lb_syntax :: "nat \<times> nat"
  lb_knowledge :: "nat \<times> nat"
  lb_output :: "nat \<times> nat"

definition known_bands :: "((string \<times> nat) \<times> layer_bands) list" where
  "known_bands = map (\<lambda>(family, n, s, k, out). ((family, n), \<lparr>lb_syntax = s, lb_knowledge = k, lb_output = out\<rparr>))
     [(''gemma3'', 34, (0, 13), (14, 27), (28, 33)),
      (''gemma3'', 42, (0, 16), (17, 34), (35, 41)),
      (''gemma2'', 26, (0, 10), (11, 20), (21, 25)),
      (''gemma2'', 42, (0, 16), (17, 34), (35, 41)),
      (''gemma2'', 46, (0, 18), (19, 37), (38, 45)),
      (''gemma4'', 30, (0, 11), (12, 23), (24, 29)),
      (''gemma4'', 36, (0, 14), (15, 28), (29, 35)),
      (''gemma4'', 35, (0, 13), (14, 27), (28, 34)),
      (''gemma4'', 60, (0, 23), (24, 47), (48, 59)),
      (''llama'', 32, (0, 12), (13, 25), (26, 31)),
      (''llama'', 40, (0, 15), (16, 32), (33, 39)),
      (''llama'', 80, (0, 31), (32, 63), (64, 79)),
      (''mistral'', 32, (0, 12), (13, 25), (26, 31)),
      (''mixtral'', 32, (0, 12), (13, 25), (26, 31)),
      (''qwen2'', 28, (0, 10), (11, 22), (23, 27)),
      (''qwen2'', 32, (0, 12), (13, 25), (26, 31)),
      (''qwen2'', 40, (0, 15), (16, 32), (33, 39)),
      (''qwen2'', 64, (0, 25), (26, 51), (52, 63)),
      (''qwen2'', 80, (0, 31), (32, 63), (64, 79)),
      (''phi'', 32, (0, 12), (13, 25), (26, 31)),
      (''phi'', 40, (0, 15), (16, 32), (33, 39)),
      (''gpt2'', 12, (0, 4), (5, 9), (10, 11)),
      (''gpt2'', 24, (0, 9), (10, 19), (20, 23)),
      (''gpt2'', 36, (0, 14), (15, 28), (29, 35)),
      (''gpt2'', 48, (0, 19), (20, 38), (39, 47))]"

definition for_family :: "string \<Rightarrow> nat \<Rightarrow> layer_bands option" where
  "for_family family num_layers =
     (case map_of known_bands (family, num_layers) of
        Some b \<Rightarrow> Some b
      | None \<Rightarrow>
          if 8 \<le> num_layers then
            (let syntax_end = num_layers * 2 div 5; knowledge_end = num_layers * 4 div 5
             in Some \<lparr>lb_syntax = (0, syntax_end - 1), lb_knowledge = (syntax_end, knowledge_end - 1),
                  lb_output = (knowledge_end, num_layers - 1)\<rparr>)
          else None)"

definition in_band :: "nat \<Rightarrow> nat \<times> nat \<Rightarrow> bool" where
  "in_band layer b \<longleftrightarrow> fst b \<le> layer \<and> layer \<le> snd b"

definition band_for_layer :: "layer_bands \<Rightarrow> nat \<Rightarrow> string" where
  "band_for_layer b layer =
     (if in_band layer (lb_syntax b) then ''syntax''
      else if in_band layer (lb_knowledge b) then ''knowledge''
      else if in_band layer (lb_output b) then ''output''
      else ''unknown'')"

text \<open>\<open>BAND_ALL\<close> and every other text select all layers.\<close>

definition filter_layers_by_band :: "nat list \<Rightarrow> string \<Rightarrow> layer_bands \<Rightarrow> nat list" where
  "filter_layers_by_band layers band b =
     (if band = ''syntax'' then filter (\<lambda>l. in_band l (lb_syntax b)) layers
      else if band = ''knowledge'' then filter (\<lambda>l. in_band l (lb_knowledge b)) layers
      else if band = ''output'' then filter (\<lambda>l. in_band l (lb_output b)) layers
      else layers)"

section \<open>Models\<close>

record loaded_model =
  lm_id :: string
  lm_family :: string
  lm_num_layers :: nat
  lm_bands :: "layer_bands option"
  lm_patched :: patched_vindex
  lm_embeddings :: "f32 list list"
  lm_hidden :: nat
  lm_embed_scale :: f32
  lm_encode :: "string \<Rightarrow> nat list option"

definition get_layer_bands :: "loaded_model \<Rightarrow> layer_bands" where
  "get_layer_bands m =
     (let last = lm_num_layers m - 1 in
      case lm_bands m of
        Some b \<Rightarrow> b
      | None \<Rightarrow> (case for_family (lm_family m) (lm_num_layers m) of
          Some b \<Rightarrow> b
        | None \<Rightarrow> \<lparr>lb_syntax = (0, last), lb_knowledge = (0, last), lb_output = (0, last)\<rparr>))"

text \<open>The place of a model in the list of loaded models; without an identifier there must be exactly one.\<close>

definition model_at :: "loaded_model list \<Rightarrow> string option \<Rightarrow> nat option" where
  "model_at models ident =
     (case ident of
        Some i \<Rightarrow> position (\<lambda>m. lm_id m = i) models
      | None \<Rightarrow> if length models = 1 then Some 0 else None)"

datatype route_error = ModelNotFound string | NoModelLoaded | PatchNotFound string | SessionRouteError session_error
  | NoPatchInRequest | FetchFailed string

definition model_or_err :: "loaded_model list \<Rightarrow> string option \<Rightarrow> route_error + nat" where
  "model_or_err models ident =
     (case model_at models ident of
        Some i \<Rightarrow> Inr i
      | None \<Rightarrow> Inl (case ident of Some mid \<Rightarrow> ModelNotFound mid | None \<Rightarrow> NoModelLoaded))"

section \<open>Embeddings\<close>

text \<open>The sum of the scaled rows of the tokens; a token past the last row panics.\<close>

definition scaled_row :: "loaded_model \<Rightarrow> nat \<Rightarrow> f32 list option" where
  "scaled_row m tok =
     (if tok < length (lm_embeddings m) then Some (map (\<lambda>v. f32_mul v (lm_embed_scale m)) (lm_embeddings m ! tok)) else None)"

definition embedding_sum :: "loaded_model \<Rightarrow> nat list \<Rightarrow> f32 list option" where
  "embedding_sum m ids =
     foldl (\<lambda>acc tok. Option.bind acc (\<lambda>v. map_option (\<lambda>row. map2 f32_add v row) (scaled_row m tok)))
       (Some (replicate (lm_hidden m) 0)) ids"

definition embedding_mean :: "loaded_model \<Rightarrow> nat \<Rightarrow> nat list \<Rightarrow> f32 list option" where
  "embedding_mean m n ids = map_option (map (\<lambda>v. f32_div v (f32_of_ratio n 1))) (embedding_sum m ids)"

definition f32_norm :: "f32 list \<Rightarrow> f32" where
  "f32_norm v = f32_sqrt (f32_sum (map (\<lambda>x. f32_mul x x) v))"

definition small_norm :: f32 where
  "small_norm = 0x322BCC77"

text \<open>A vector whose norm is not above 1e-8 stays as it is.\<close>

definition unit_vector :: "f32 list \<Rightarrow> f32 list" where
  "unit_vector v = (if f32_less small_norm (f32_norm v) then map (\<lambda>x. f32_div x (f32_norm v)) v else v)"

section \<open>Laws\<close>

text \<open>The bands of a family share out its layers, in order.\<close>

lemma family_bands:
  assumes "for_family family n = Some b"
  shows "\<exists>s k. b = \<lparr>lb_syntax = (0, s), lb_knowledge = (s + 1, k), lb_output = (k + 1, n - 1)\<rparr> \<and> s < k \<and> k + 1 < n"
proof (cases "map_of known_bands (family, n)")
  case None
  with assms have n: "8 \<le> n"
    and b: "b = \<lparr>lb_syntax = (0, n * 2 div 5 - 1), lb_knowledge = (n * 2 div 5, n * 4 div 5 - 1), lb_output = (n * 4 div 5, n - 1)\<rparr>"
    by (auto simp: for_family_def Let_def split: if_splits)
  have "0 < n * 2 div 5" "n * 2 div 5 < n * 4 div 5 - 1 + 1" "n * 4 div 5 < n" using n by linarith+
  then have "b = \<lparr>lb_syntax = (0, n * 2 div 5 - 1), lb_knowledge = (n * 2 div 5 - 1 + 1, n * 4 div 5 - 1),
      lb_output = (n * 4 div 5 - 1 + 1, n - 1)\<rparr> \<and> n * 2 div 5 - 1 < n * 4 div 5 - 1 \<and> n * 4 div 5 - 1 + 1 < n"
    unfolding b using n by simp
  then show ?thesis by blast
next
  case (Some b')
  with assms have "((family, n), b) \<in> set known_bands" by (auto simp: for_family_def dest: map_of_SomeD)
  moreover have "list_all (\<lambda>((family, n), b). lb_syntax b = (0, snd (lb_syntax b)) \<and>
      lb_knowledge b = (snd (lb_syntax b) + 1, snd (lb_knowledge b)) \<and> lb_output b = (snd (lb_knowledge b) + 1, n - 1) \<and>
      snd (lb_syntax b) < snd (lb_knowledge b) \<and> snd (lb_knowledge b) + 1 < n) known_bands"
    by (simp add: known_bands_def)
  ultimately have "lb_syntax b = (0, snd (lb_syntax b)) \<and>
      lb_knowledge b = (snd (lb_syntax b) + 1, snd (lb_knowledge b)) \<and> lb_output b = (snd (lb_knowledge b) + 1, n - 1) \<and>
      snd (lb_syntax b) < snd (lb_knowledge b) \<and> snd (lb_knowledge b) + 1 < n"
    by (auto simp: list_all_iff)
  then show ?thesis by (intro exI [of _ "snd (lb_syntax b)"] exI [of _ "snd (lb_knowledge b)"]) (cases b, simp)
qed

lemma family_layer_bands:
  assumes "for_family family n = Some b" "layer < n"
  shows "length (filter (in_band layer) [lb_syntax b, lb_knowledge b, lb_output b]) = 1"
proof -
  obtain s k where b: "b = \<lparr>lb_syntax = (0, s), lb_knowledge = (s + 1, k), lb_output = (k + 1, n - 1)\<rparr>" "s < k" "k + 1 < n"
    using family_bands [OF assms(1)] by blast
  consider "layer \<le> s" | "s < layer" "layer \<le> k" | "k < layer" by linarith
  then show ?thesis using assms(2) b(2,3) by cases (simp_all add: b(1) in_band_def)
qed

end
