(* ===== verification/ServerRoutes.thy ===== *)
theory ServerRoutes
  imports ServerModel
begin

text \<open>
  The routes of the server that write knowledge (\<open>crates/larql-server/src/routes/patches.rs\<close> and \<open>insert.rs\<close>): patches
  are applied to, listed from and removed from the overlay of the session the request names, else the global overlay
  of a model; an insertion finds a free slot in each of its layers. Arguments: \<open>fetch\<close> reads the patch at a URL or a
  path, \<open>nd_dot\<close> is the dot product of the array library, \<open>trace\<close> gives the residuals of the forward pass. Operations
  that can panic give an option.
\<close>

record app_state =
  as_models :: "loaded_model list"
  as_sessions :: session_manager

definition put_patched :: "nat \<Rightarrow> patched_vindex \<Rightarrow> app_state \<Rightarrow> app_state" where
  "put_patched i pv st = st\<lparr>as_models := (as_models st)[i := (as_models st ! i)\<lparr>lm_patched := pv\<rparr>]\<rparr>"

section \<open>Resolving a patch\<close>

record apply_request =
  ar_url :: "string option"
  ar_patch :: "vindex_patch option"

definition resolve_patch ::
    "(string \<Rightarrow> string + vindex_patch) \<Rightarrow> apply_request \<Rightarrow> route_error + vindex_patch \<times> string" where
  "resolve_patch fetch req =
     (case ar_patch req of
        Some p \<Rightarrow>
          Inr (p, case ar_url req of
             Some url \<Rightarrow> url
           | None \<Rightarrow> (case vp_description p of Some d \<Rightarrow> d | None \<Rightarrow> ''inline-patch''))
      | None \<Rightarrow>
          (case ar_url req of
             Some url \<Rightarrow> (case fetch url of Inl e \<Rightarrow> Inl (FetchFailed e) | Inr p \<Rightarrow> Inr (p, url))
           | None \<Rightarrow> Inl NoPatchInRequest))"

section \<open>Filling in an insertion\<close>

text \<open>The slot of an entity: a hash of its bytes in 64 bits, from 1 to 10240.\<close>

definition entity_slot :: "string \<Rightarrow> nat" where
  "entity_slot entity = unat (foldl (\<lambda>acc b. acc * 31 + word_of_nat (byte b)) (0 :: 64 word) entity) mod 10240 + 1"

definition entity_gate :: "loaded_model \<Rightarrow> string \<Rightarrow> string option option" where
  "entity_gate m entity =
     (case lm_encode m entity of
        None \<Rightarrow> Some None
      | Some ids \<Rightarrow>
          if ids = [] then Some None
          else map_option (\<lambda>v. Some (encode_gate_vector (unit_vector v))) (embedding_mean m (length ids) ids))"

definition enrich_op :: "loaded_model \<Rightarrow> patch_op \<Rightarrow> patch_op option" where
  "enrich_op m op =
     (case op of
        OpInsert layer feature relation entity target confidence gate up down meta \<Rightarrow>
          (case gate of
             Some g \<Rightarrow> Some op
           | None \<Rightarrow> map_option (\<lambda>gate.
               OpInsert layer (if feature = 0 then entity_slot entity else feature) relation entity target confidence gate up down meta)
               (entity_gate m entity))
      | _ \<Rightarrow> Some op)"

definition enrich_patch_ops :: "loaded_model \<Rightarrow> vindex_patch \<Rightarrow> vindex_patch option" where
  "enrich_patch_ops m p =
     map_option (\<lambda>ops. p\<lparr>vp_operations := ops\<rparr>) (those (map (enrich_op m) (vp_operations p)))"

section \<open>Patch routes\<close>

record applied_patch =
  ap_applied :: string
  ap_operations :: nat
  ap_active :: nat
  ap_session :: "string option"

definition apply_patch_to_model ::
    "(string \<Rightarrow> string) \<Rightarrow> (string \<Rightarrow> string + vindex_patch) \<Rightarrow> nat \<Rightarrow> string option \<Rightarrow> string option \<Rightarrow> apply_request \<Rightarrow>
     app_state \<Rightarrow> ((route_error + applied_patch) \<times> app_state) option" where
  "apply_patch_to_model lower fetch now ident session req st =
     (case model_or_err (as_models st) ident of
        Inl e \<Rightarrow> Some (Inl e, st)
      | Inr i \<Rightarrow>
          (case resolve_patch fetch req of
             Inl e \<Rightarrow> Some (Inl e, st)
           | Inr (p, name) \<Rightarrow> map_option (\<lambda>p.
               (case session of
                  Some sid \<Rightarrow>
                    (case session_apply_patch lower now sid (lm_patched (as_models st ! i)) p (as_sessions st) of
                       ((ops, active), mgr) \<Rightarrow>
                         (Inr \<lparr>ap_applied = name, ap_operations = ops, ap_active = active, ap_session = Some sid\<rparr>,
                          st\<lparr>as_sessions := mgr\<rparr>))
                | None \<Rightarrow>
                    (let pv = apply_patch lower (lm_patched (as_models st ! i)) p
                     in (Inr \<lparr>ap_applied = name, ap_operations = length (vp_operations p), ap_active = num_patches pv,
                           ap_session = None\<rparr>, put_patched i pv st))))
               (enrich_patch_ops (as_models st ! i) p)))"

definition list_patches_for_model ::
    "string option \<Rightarrow> string option \<Rightarrow> app_state \<Rightarrow> route_error + listed_patch list" where
  "list_patches_for_model ident session st =
     (case model_or_err (as_models st) ident of
        Inl e \<Rightarrow> Inl e
      | Inr i \<Rightarrow> Inr (case session of
            Some sid \<Rightarrow> session_list_patches sid (as_sessions st)
          | None \<Rightarrow> listed_patches (lm_patched (as_models st ! i))))"

text \<open>A session's patch is removed without a look at the model.\<close>

definition remove_patch_from_model ::
    "(string \<Rightarrow> string) \<Rightarrow> string option \<Rightarrow> string option \<Rightarrow> string \<Rightarrow> app_state \<Rightarrow> (route_error + nat) \<times> app_state" where
  "remove_patch_from_model lower ident session name st =
     (case session of
        Some sid \<Rightarrow>
          (case session_remove_patch lower sid name (as_sessions st) of
             (Inl e, mgr) \<Rightarrow> (Inl (SessionRouteError e), st)
           | (Inr remaining, mgr) \<Rightarrow> (Inr remaining, st\<lparr>as_sessions := mgr\<rparr>))
      | None \<Rightarrow>
          (case model_or_err (as_models st) ident of
             Inl e \<Rightarrow> (Inl e, st)
           | Inr i \<Rightarrow>
               (let pv = lm_patched (as_models st ! i) in
                case position (\<lambda>p. patch_name p = name) (pv_patches pv) of
                  None \<Rightarrow> (Inl (PatchNotFound name), st)
                | Some k \<Rightarrow> (let pv = remove_patch lower k pv in (Inr (num_patches pv), put_patched i pv st)))))"

section \<open>The insertion\<close>

record insert_request =
  ir_entity :: string
  ir_relation :: string
  ir_target :: string
  ir_layer :: "nat option"
  ir_alpha :: f32
  ir_confidence :: f32

text \<open>A residual is scaled to the mean norm of the first rows, at most a hundred, of the layer's gates.\<close>

definition mean_row_norm :: "(f32 list \<Rightarrow> f32 list \<Rightarrow> f32) \<Rightarrow> f32 list list \<Rightarrow> f32" where
  "mean_row_norm nd_dot rows =
     f32_div (f32_sum (map (\<lambda>row. f32_sqrt (nd_dot row row)) rows)) (f32_of_ratio (length rows) 1)"

definition residual_gate :: "(f32 list \<Rightarrow> f32 list \<Rightarrow> f32) \<Rightarrow> base_index \<Rightarrow> nat \<Rightarrow> f32 list \<Rightarrow> f32 list" where
  "residual_gate nd_dot base layer residual =
     (case gate_vectors_at base layer of
        None \<Rightarrow> residual
      | Some g \<Rightarrow>
          (let rows = take 100 (gm_rows g) in
           if rows = [] then residual
           else (let avg = mean_row_norm nd_dot rows; norm = f32_norm residual in
             if f32_less small_norm norm \<and> f32_less 0 avg then map (\<lambda>v. f32_mul v (f32_div avg norm)) residual else residual)))"

text \<open>Without a residual the gate is the embedding of the entity; an entity the tokenizer rejects skips the layer.\<close>

definition inserted_gate ::
    "(f32 list \<Rightarrow> f32 list \<Rightarrow> f32) \<Rightarrow> loaded_model \<Rightarrow> base_index \<Rightarrow> string \<Rightarrow> (nat \<times> f32 list) list \<Rightarrow> nat \<Rightarrow> f32 list option option" where
  "inserted_gate nd_dot m base entity residuals layer =
     (case find (\<lambda>(l, _). l = layer) residuals of
        Some (_, residual) \<Rightarrow> Some (Some (residual_gate nd_dot base layer residual))
      | None \<Rightarrow>
          (case lm_encode m entity of
             None \<Rightarrow> Some None
           | Some ids \<Rightarrow> map_option (\<lambda>v. Some (unit_vector v)) (embedding_mean m (max (length ids) 1) ids)))"

definition target_meta :: "insert_request \<Rightarrow> nat list \<Rightarrow> feature_meta" where
  "target_meta req ids =
     (let t = (case ids of [] \<Rightarrow> 0 | t # _ \<Rightarrow> word_of_nat t)
      in \<lparr>fm_top_token = ir_target req, fm_top_token_id = t, fm_c_score = ir_confidence req,
          fm_top_k = [\<lparr>te_token = ir_target req, te_token_id = t, te_logit = ir_confidence req\<rparr>]\<rparr>)"

fun insert_layers ::
    "(base_index \<Rightarrow> nat \<Rightarrow> f32 list option option) \<Rightarrow> feature_meta \<Rightarrow> f32 list \<Rightarrow> nat list \<Rightarrow> nat \<Rightarrow> patched_vindex \<Rightarrow>
     (nat \<times> patched_vindex) option" where
  "insert_layers gate meta down [] inserted pv = Some (inserted, pv)"
| "insert_layers gate meta down (layer # layers) inserted pv =
     (case find_free_feature pv layer of
        None \<Rightarrow> insert_layers gate meta down layers inserted pv
      | Some feature \<Rightarrow>
          (case gate (pv_base pv) layer of
             None \<Rightarrow> None
           | Some None \<Rightarrow> insert_layers gate meta down layers inserted pv
           | Some (Some v) \<Rightarrow>
               insert_layers gate meta down layers (inserted + 1)
                 (set_down_vector layer feature down (insert_feature layer feature v meta pv))))"

definition apply_insert ::
    "(f32 list \<Rightarrow> f32 list \<Rightarrow> f32) \<Rightarrow> loaded_model \<Rightarrow> insert_request \<Rightarrow> nat list \<Rightarrow> (nat \<times> f32 list) list \<Rightarrow> patched_vindex \<Rightarrow>
     ((nat \<times> bool) \<times> patched_vindex) option" where
  "apply_insert nd_dot m req layers residuals pv =
     (case lm_encode m (ir_target req) of
        None \<Rightarrow> Some ((0, False), pv)
      | Some ids \<Rightarrow> Option.bind (embedding_mean m (max (length ids) 1) ids) (\<lambda>target.
          map_option (\<lambda>(inserted, pv). ((inserted, residuals \<noteq> []), pv))
            (insert_layers (\<lambda>base. inserted_gate nd_dot m base (ir_entity req) residuals)
              (target_meta req ids) (map (\<lambda>v. f32_mul v (ir_alpha req)) target) layers 0 pv)))"

definition layers_of_insert :: "loaded_model \<Rightarrow> insert_request \<Rightarrow> nat list" where
  "layers_of_insert m req =
     (case ir_layer req of
        Some l \<Rightarrow> [l]
      | None \<Rightarrow> (case lb_knowledge (get_layer_bands m) of (lo, hi) \<Rightarrow> [(lo + hi) div 2..<hi + 1]))"

record inserted_fact =
  if_inserted :: nat
  if_mode :: string
  if_session :: "string option"

definition run_insert ::
    "(f32 list \<Rightarrow> f32 list \<Rightarrow> f32) \<Rightarrow> (loaded_model \<Rightarrow> patched_vindex \<Rightarrow> insert_request \<Rightarrow> nat list \<Rightarrow> (nat \<times> f32 list) list) \<Rightarrow>
     nat \<Rightarrow> string option \<Rightarrow> string option \<Rightarrow> insert_request \<Rightarrow> app_state \<Rightarrow> ((route_error + inserted_fact) \<times> app_state) option" where
  "run_insert nd_dot trace now ident session req st =
     (case model_or_err (as_models st) ident of
        Inl e \<Rightarrow> Some (Inl e, st)
      | Inr i \<Rightarrow>
          (let m = as_models st ! i;
               layers = layers_of_insert m req;
               answer = (\<lambda>(n, constellation). Inr \<lparr>if_inserted = n,
                 if_mode = (if constellation then ''constellation'' else ''embedding''), if_session = session\<rparr>)
           in case session of
                Some sid \<Rightarrow>
                  (let s = session_touch now (case sm_sessions (as_sessions st) sid of
                         Some s \<Rightarrow> s | None \<Rightarrow> session_new (pv_base (lm_patched m)) now)
                   in map_option (\<lambda>(r, pv). (answer r, st\<lparr>as_sessions := put_session sid (s\<lparr>ss_patched := pv\<rparr>) (as_sessions st)\<rparr>))
                        (apply_insert nd_dot m req layers (trace m (ss_patched s) req layers) (ss_patched s)))
              | None \<Rightarrow>
                  map_option (\<lambda>(r, pv). (answer r, put_patched i pv st))
                    (apply_insert nd_dot m req layers (trace m (lm_patched m) req layers) (lm_patched m))))"

text \<open>The overlay \<open>/v1/infer\<close> walks: that of the session when there is one, else the global one.\<close>

definition overlay_of_request :: "string option \<Rightarrow> nat \<Rightarrow> app_state \<Rightarrow> patched_vindex" where
  "overlay_of_request session i st =
     (case session of
        Some sid \<Rightarrow> (case sm_sessions (as_sessions st) sid of Some s \<Rightarrow> ss_patched s | None \<Rightarrow> lm_patched (as_models st ! i))
      | None \<Rightarrow> lm_patched (as_models st ! i))"

end
