(* ===== verification/ServerLaws.thy ===== *)
theory ServerLaws
  imports ServerRoutes "HOL-Library.Multiset" "HOL-Library.Sublist"
begin

text \<open>
  The sessions under any interleaving of the server's tasks: steps between the points where a task takes or releases the
  lock of the sessions, their effect on the list of patches of each session, and the laws of the insertion.
\<close>

section \<open>Steps of the tasks\<close>

text \<open>A task on the slow way of \<open>apply_patch\<close>, before and after it has read the base; \<open>i\<close> is the model's place.\<close>

datatype slow_task =
    WantsBase (task_session: string) nat nat (task_patch: vindex_patch)
  | HasBase (task_session: string) nat base_index (task_patch: vindex_patch)

record server =
  sv_state :: app_state
  sv_tasks :: "slow_task multiset"

datatype session_event =
    FastApplied string vindex_patch
  | SlowWanted string vindex_patch
  | BaseRead
  | SlowApplied string vindex_patch
  | PatchRemoved string string
  | SessionOpened string "string set"
  | SessionEdited string
  | ModelsChanged

abbreviation sessions_of :: "server \<Rightarrow> session_manager" where
  "sessions_of sv \<equiv> as_sessions (sv_state sv)"

definition with_sessions :: "session_manager \<Rightarrow> server \<Rightarrow> server" where
  "with_sessions mgr sv = sv\<lparr>sv_state := (sv_state sv)\<lparr>as_sessions := mgr\<rparr>\<rparr>"

definition evicted_at :: "string list \<Rightarrow> nat \<Rightarrow> session_manager \<Rightarrow> string set" where
  "evicted_at order now mgr = set (take 10 (filter (session_expired now mgr) order))"

inductive server_step :: "(string \<Rightarrow> string) \<Rightarrow> server \<Rightarrow> session_event \<Rightarrow> server \<Rightarrow> bool" for lower where
  step_fast: "apply_patch_fast lower now sid p (sessions_of sv) = Some (r, mgr) \<Longrightarrow>
    server_step lower sv (FastApplied sid p) (with_sessions mgr sv)"
| step_wanted: "apply_patch_fast lower now sid p (sessions_of sv) = None \<Longrightarrow>
    server_step lower sv (SlowWanted sid p) (sv\<lparr>sv_tasks := add_mset (WantsBase sid now i p) (sv_tasks sv)\<rparr>)"
| step_base: "sv_tasks sv = add_mset (WantsBase sid now i p) ts \<Longrightarrow> i < length (as_models (sv_state sv)) \<Longrightarrow>
    server_step lower sv BaseRead
      (sv\<lparr>sv_tasks := add_mset (HasBase sid now (pv_base (lm_patched (as_models (sv_state sv) ! i))) p) ts\<rparr>)"
| step_slow: "sv_tasks sv = add_mset (HasBase sid now base p) ts \<Longrightarrow>
    apply_patch_slow lower now sid base p (sessions_of sv) = (r, mgr) \<Longrightarrow>
    server_step lower sv (SlowApplied sid p) (with_sessions mgr (sv\<lparr>sv_tasks := ts\<rparr>))"
| step_remove: "session_remove_patch lower sid name (sessions_of sv) = (r, mgr) \<Longrightarrow>
    server_step lower sv (PatchRemoved sid name) (with_sessions mgr sv)"
| step_open: "get_or_create lower order now sid pv (sessions_of sv) = (view, mgr) \<Longrightarrow>
    server_step lower sv (SessionOpened sid (evicted_at order now (sessions_of sv))) (with_sessions mgr sv)"
| step_insert: "run_insert nd_dot trace now ident (Some sid) req (sv_state sv) = Some (Inr r, st) \<Longrightarrow>
    server_step lower sv (SessionEdited sid) (sv\<lparr>sv_state := st\<rparr>)"
| step_models: "server_step lower sv ModelsChanged (sv\<lparr>sv_state := (sv_state sv)\<lparr>as_models := models\<rparr>\<rparr>)"

inductive server_run :: "(string \<Rightarrow> string) \<Rightarrow> server \<Rightarrow> session_event list \<Rightarrow> server \<Rightarrow> bool" for lower where
  run_start: "server_run lower sv [] sv"
| run_step: "server_run lower sv tr sv' \<Longrightarrow> server_step lower sv' e sv'' \<Longrightarrow> server_run lower sv (tr @ [e]) sv''"

definition server_start :: "server \<Rightarrow> bool" where
  "server_start sv \<longleftrightarrow> sm_sessions (sessions_of sv) = Map.empty \<and> sv_tasks sv = {#}"

section \<open>The list of patches of each session\<close>

definition log_append :: "string \<Rightarrow> vindex_patch list \<Rightarrow> (string \<Rightarrow> vindex_patch list option) \<Rightarrow> string \<Rightarrow> vindex_patch list option" where
  "log_append sid new log = log(sid \<mapsto> (case log sid of Some ps \<Rightarrow> ps | None \<Rightarrow> []) @ new)"

definition log_event :: "(string \<Rightarrow> vindex_patch list option) \<Rightarrow> session_event \<Rightarrow> string \<Rightarrow> vindex_patch list option" where
  "log_event log e =
     (case e of
        FastApplied sid p \<Rightarrow> log_append sid [p] log
      | SlowApplied sid p \<Rightarrow> log_append sid [p] log
      | PatchRemoved sid name \<Rightarrow> log(sid := map_option (remove_first (\<lambda>p. patch_name p = name)) (log sid))
      | SessionOpened sid gone \<Rightarrow> log_append sid [] (\<lambda>s. if s \<in> gone then None else log s)
      | SessionEdited sid \<Rightarrow> log_append sid [] log
      | _ \<Rightarrow> log)"

definition slow_wanted :: "session_event list \<Rightarrow> (string \<times> vindex_patch) multiset" where
  "slow_wanted tr = mset (List.map_filter (\<lambda>e. case e of SlowWanted sid p \<Rightarrow> Some (sid, p) | _ \<Rightarrow> None) tr)"

definition slow_applied :: "session_event list \<Rightarrow> (string \<times> vindex_patch) multiset" where
  "slow_applied tr = mset (List.map_filter (\<lambda>e. case e of SlowApplied sid p \<Rightarrow> Some (sid, p) | _ \<Rightarrow> None) tr)"

definition slow_pending :: "server \<Rightarrow> (string \<times> vindex_patch) multiset" where
  "slow_pending sv = image_mset (\<lambda>t. (task_session t, task_patch t)) (sv_tasks sv)"

text \<open>The overlay a list of patches gives, whatever the base.\<close>

definition patches_overlay ::
    "(string \<Rightarrow> string) \<Rightarrow> vindex_patch list \<Rightarrow>
     (nat \<times> nat \<Rightarrow> feature_meta option option) \<times> (nat \<times> nat \<Rightarrow> f32 list option) \<times> (nat \<times> nat) set \<times> knn_store" where
  "patches_overlay lower ps = foldl (overlay_op lower) (Map.empty, Map.empty, {}, knn_default) (concat (map vp_operations ps))"

lemma overlay_fresh: "overlay (new_patched base) = patches_overlay lower []"
  by (simp add: overlay_def new_patched_def patches_overlay_def)

lemma overlay_replay: "overlay (foldl (apply_patch lower) (new_patched base) ps) = patches_overlay lower ps"
  by (simp add: apply_patches_overlay overlay_fresh [of base lower]) (simp add: patches_overlay_def)

lemma overlay_apply:
  "overlay pv = patches_overlay lower (pv_patches pv) \<Longrightarrow>
     overlay (apply_patch lower pv p) = patches_overlay lower (pv_patches (apply_patch lower pv p))"
  by (simp add: apply_patch_parts patches_overlay_def)

lemma overlay_remove:
  "i < length (pv_patches pv) \<Longrightarrow>
     overlay (remove_patch lower i pv) = patches_overlay lower (pv_patches (remove_patch lower i pv))"
  by (simp add: remove_patch_parts patches_overlay_def)

lemma log_at: "sm_sessions mgr sid = Some s \<Longrightarrow> session_log mgr sid = Some (pv_patches (ss_patched s))"
  "sm_sessions mgr sid = None \<Longrightarrow> session_log mgr sid = None"
  by (simp_all add: session_log_def)

lemma with_sessions_parts [simp]:
  "sessions_of (with_sessions mgr sv) = mgr" "sv_tasks (with_sessions mgr sv) = sv_tasks sv"
  "as_models (sv_state (with_sessions mgr sv)) = as_models (sv_state sv)"
  by (simp_all add: with_sessions_def)

section \<open>Insertions\<close>

lemma find_free_feature_slot:
  assumes "find_free_feature pv layer = Some f"
  shows "f < index_num_features (pv_base pv) layer \<and> pv_overrides_gate pv (layer, f) = None"
proof -
  let ?n = "index_num_features (pv_base pv) layer"
  let ?meta = "\<lambda>i. if pv_overrides_gate pv (layer, i) \<noteq> None then None else index_feature_meta (pv_base pv) layer i"
  have w: "i \<in> set slots \<and> ?meta i \<noteq> None" if "weakest ?meta slots = Some i" for i slots
  proof -
    have "fst (foldl (\<lambda>(best, score) i. case ?meta i of
          Some m \<Rightarrow> if f32_less (fm_c_score m) score then (Some i, fm_c_score m) else (best, score)
        | None \<Rightarrow> (best, score)) (b, sc) slots) = Some i \<Longrightarrow> b = Some i \<or> (i \<in> set slots \<and> ?meta i \<noteq> None)" for b sc
    proof (induction slots arbitrary: b sc)
      case (Cons x slots)
      show ?case
      proof (cases "?meta x")
        case None
        from Cons.prems have "fst (foldl (\<lambda>(best, score) i. case ?meta i of
          Some m \<Rightarrow> if f32_less (fm_c_score m) score then (Some i, fm_c_score m) else (best, score)
        | None \<Rightarrow> (best, score)) (b, sc) slots) = Some i" by (simp only: foldl_Cons None prod.case option.case)
        from Cons.IH [OF this] show ?thesis by auto
      next
        case (Some m)
        let ?b = "if f32_less (fm_c_score m) sc then (Some x, fm_c_score m) else (b, sc)"
        from Cons.prems have "fst (foldl (\<lambda>(best, score) i. case ?meta i of
          Some m \<Rightarrow> if f32_less (fm_c_score m) score then (Some i, fm_c_score m) else (best, score)
        | None \<Rightarrow> (best, score)) (fst ?b, snd ?b) slots) = Some i" by (simp only: foldl_Cons Some prod.case option.case prod.collapse)
        from Cons.IH [OF this] Some show ?thesis by (auto split: if_splits)
      qed
    qed simp
    with that show ?thesis unfolding weakest_def by blast
  qed
  from assms have "f < ?n \<and> pv_overrides_gate pv (layer, f) = None"
  proof (cases "find (\<lambda>i. index_feature_meta (pv_base pv) layer i = None \<and> pv_overrides_gate pv (layer, i) = None) [0..<?n]")
    case None
    with assms have "weakest ?meta [0..<?n] = Some f" by (auto simp: find_free_feature_def Let_def split: if_splits)
    from w [OF this] show ?thesis by (auto split: if_splits)
  next
    case (Some i)
    with assms have "i = f" by (auto simp: find_free_feature_def Let_def split: if_splits)
    with Some show ?thesis by (auto simp: find_Some_iff)
  qed
  then show ?thesis .
qed

lemma index_set_slots [simp]:
  "index_num_features (index_set_down_vector ix l f v) = index_num_features ix"
  "bi_down_overrides (index_set_down_vector ix l f v) = (bi_down_overrides ix)((l, f) \<mapsto> v)"
  by (simp_all add: fun_eq_iff index_num_features_def stored_features_def gate_vectors_at_def index_set_down_vector_def cong: option.case_cong if_cong)

lemma inserted_at:
  fixes pv layer f v meta down
  defines "pv' \<equiv> set_down_vector layer f down (insert_feature layer f v meta pv)"
  shows "meta_view pv' = (meta_view pv)((layer, f) \<mapsto> meta)"
    and "pv_overrides_gate pv' = (pv_overrides_gate pv)((layer, f) \<mapsto> v)"
    and "pv_patches pv' = pv_patches pv" and "pv_knn pv' = pv_knn pv"
    and "bi_down_overrides (pv_base pv') = (bi_down_overrides (pv_base pv))((layer, f) \<mapsto> down)"
    and "index_num_features (pv_base pv') = index_num_features (pv_base pv)"
  unfolding pv'_def set_down_vector_def insert_feature_def invalidate_gate_cache_layer_def
  by (auto simp: meta_view_def feature_meta_of_def fun_eq_iff split: option.split)

text \<open>
  The facts an insertion leaves: its slots are in a part of the layers, none of them had an overridden gate before,
  and nothing else is changed.
\<close>

definition facts_inserted :: "feature_meta \<Rightarrow> f32 list \<Rightarrow> nat list \<Rightarrow> (nat \<times> nat) list \<Rightarrow> patched_vindex \<Rightarrow> patched_vindex \<Rightarrow> bool" where
  "facts_inserted meta down layers slots pv pv' \<longleftrightarrow>
     subseq (map fst slots) layers \<and> distinct slots \<and>
     (\<forall>key \<in> set slots. snd key < index_num_features (pv_base pv) (fst key) \<and> pv_overrides_gate pv key = None \<and>
        pv_overrides_gate pv' key \<noteq> None) \<and>
     meta_view pv' = (\<lambda>key. if key \<in> set slots then Some meta else meta_view pv key) \<and>
     bi_down_overrides (pv_base pv') = (\<lambda>key. if key \<in> set slots then Some down else bi_down_overrides (pv_base pv) key) \<and>
     (\<forall>key. key \<notin> set slots \<longrightarrow> pv_overrides_gate pv' key = pv_overrides_gate pv key) \<and>
     pv_patches pv' = pv_patches pv \<and> pv_knn pv' = pv_knn pv \<and>
     index_num_features (pv_base pv') = index_num_features (pv_base pv)"

lemma facts_inserted_none: "facts_inserted meta down layers [] pv pv"
  by (simp add: facts_inserted_def)

lemma facts_inserted_skip: "facts_inserted meta down layers slots pv pv' \<Longrightarrow> facts_inserted meta down (layer # layers) slots pv pv'"
  by (auto simp: facts_inserted_def intro: list_emb_Cons)

lemma facts_inserted_more:
  assumes "find_free_feature pv layer = Some f"
    and "facts_inserted meta down layers slots (set_down_vector layer f down (insert_feature layer f v meta pv)) pv'"
  shows "facts_inserted meta down (layer # layers) ((layer, f) # slots) pv pv'"
proof -
  note s = find_free_feature_slot [OF assms(1)]
  note i = inserted_at [of layer f down v meta pv]
  from assms(2) have n: "(layer, f) \<notin> set slots" by (auto simp: facts_inserted_def i)
  from assms(2) s n show ?thesis unfolding facts_inserted_def i by (auto simp: fun_eq_iff split: if_splits)
qed

lemma insert_layers_facts:
  "insert_layers gate meta down layers n pv = Some (n', pv') \<Longrightarrow>
     \<exists>slots. n' = n + length slots \<and> facts_inserted meta down layers slots pv pv'"
proof (induction gate meta down layers n pv rule: insert_layers.induct)
  case (1 gate meta down inserted pv)
  then show ?case using facts_inserted_none by fastforce
next
  case (2 gate meta down layer layers inserted pv)
  show ?case
  proof (cases "find_free_feature pv layer")
    case None
    with 2(1) [OF None] 2(4) show ?thesis by (auto dest: facts_inserted_skip)
  next
    case (Some f)
    with 2(4) obtain g where g: "gate (pv_base pv) layer = Some g" by (auto split: option.splits)
    show ?thesis
    proof (cases g)
      case None
      with 2(2) [OF Some, of None] 2(4) g Some show ?thesis by (auto dest: facts_inserted_skip)
    next
      case (Some v)
      with 2(3) [OF \<open>find_free_feature pv layer = Some f\<close>, of "Some v" v] 2(4) g \<open>find_free_feature pv layer = Some f\<close>
      obtain slots where "n' = inserted + 1 + length slots"
        and "facts_inserted meta down layers slots (set_down_vector layer f down (insert_feature layer f v meta pv)) pv'" by auto
      with facts_inserted_more [OF \<open>find_free_feature pv layer = Some f\<close>] show ?thesis
        by (intro exI [of _ "(layer, f) # slots"]) auto
    qed
  qed
qed

lemma apply_insert_facts:
  assumes "apply_insert nd_dot m req layers residuals pv = Some ((n, mode), pv')"
  shows "case lm_encode m (ir_target req) of
      None \<Rightarrow> n = 0 \<and> pv' = pv
    | Some ids \<Rightarrow> \<exists>target slots. embedding_mean m (max (length ids) 1) ids = Some target \<and> n = length slots \<and>
        facts_inserted (target_meta req ids) (map (\<lambda>v. f32_mul v (ir_alpha req)) target) layers slots pv pv'"
proof (cases "lm_encode m (ir_target req)")
  case (Some ids)
  with assms obtain target where t: "embedding_mean m (max (length ids) 1) ids = Some target"
    and l: "insert_layers (\<lambda>base. inserted_gate nd_dot m base (ir_entity req) residuals) (target_meta req ids)
      (map (\<lambda>v. f32_mul v (ir_alpha req)) target) layers 0 pv = Some (n, pv')"
    by (auto simp: apply_insert_def split: option.splits Option.bind_splits)
  from insert_layers_facts [OF l] t Some show ?thesis by auto
qed (use assms in \<open>simp add: apply_insert_def\<close>)

lemma apply_insert_patches:
  "apply_insert nd_dot m req layers residuals pv = Some (r, pv') \<Longrightarrow> pv_patches pv' = pv_patches pv"
  using apply_insert_facts [of nd_dot m req layers residuals pv "fst r" "snd r" pv']
  by (auto simp: facts_inserted_def split: option.splits)

section \<open>The sessions of a run\<close>

lemma remove_first_none: "\<forall>x \<in> set xs. \<not> P x \<Longrightarrow> remove_first P xs = xs"
  by (induction xs) auto

lemma removed_session:
  assumes "session_remove_patch lower sid name mgr = (r, mgr')"
  shows "session_log mgr' = (session_log mgr)(sid := map_option (remove_first (\<lambda>p. patch_name p = name)) (session_log mgr sid))"
    and "\<And>sid'. sid' \<noteq> sid \<Longrightarrow> sm_sessions mgr' sid' = sm_sessions mgr sid'"
proof -
  have "session_log mgr' = (session_log mgr)(sid := map_option (remove_first (\<lambda>p. patch_name p = name)) (session_log mgr sid)) \<and>
      (\<forall>sid'. sid' \<noteq> sid \<longrightarrow> sm_sessions mgr' sid' = sm_sessions mgr sid')"
  proof (cases "sm_sessions mgr sid")
    case None
    with assms log_at(2) [OF None] show ?thesis by (auto simp: session_remove_patch_def fun_eq_iff)
  next
    case (Some s)
    note l = log_at(1) [OF Some]
    show ?thesis
    proof (cases "position (\<lambda>p. patch_name p = name) (pv_patches (ss_patched s))")
      case None
      then have "remove_first (\<lambda>p. patch_name p = name) (pv_patches (ss_patched s)) = pv_patches (ss_patched s)"
        by (intro remove_first_none) (simp add: position_None)
      with assms Some None l show ?thesis by (auto simp: session_remove_patch_def fun_eq_iff)
    next
      case (Some i)
      from position_Some [OF Some] have "i < length (pv_patches (ss_patched s))" by simp
      from remove_patch_parts(2) [OF this] position_remove_first [OF Some]
      have "pv_patches (remove_patch lower i (ss_patched s)) = remove_first (\<lambda>p. patch_name p = name) (pv_patches (ss_patched s))"
        by simp
      with assms \<open>sm_sessions mgr sid = Some s\<close> Some l show ?thesis by (auto simp: session_remove_patch_def Let_def)
    qed
  qed
  then show "session_log mgr' = (session_log mgr)(sid := map_option (remove_first (\<lambda>p. patch_name p = name)) (session_log mgr sid))"
    "\<And>sid'. sid' \<noteq> sid \<Longrightarrow> sm_sessions mgr' sid' = sm_sessions mgr sid'" by blast+
qed

lemma session_state_eq [simp]:
  fixes s :: session_state
  shows "s\<lparr>ss_last_accessed := now, ss_patched := pv\<rparr> = \<lparr>ss_patched = pv, ss_last_accessed = now\<rparr>"
  by (cases s) simp

lemma applied_session:
  assumes "apply_to_session lower now sid p s mgr = (r, mgr')"
  shows "mgr' = put_session sid \<lparr>ss_patched = apply_patch lower (ss_patched s) p, ss_last_accessed = now\<rparr> mgr"
    and "r = (length (vp_operations p), length (pv_patches (ss_patched s)) + 1)"
  using assms by (auto simp: apply_to_session_def session_touch_def num_patches_def apply_patch_parts Let_def)

lemma opened_session:
  assumes "get_or_create lower order now sid pv mgr = (view, mgr')"
  defines "gone \<equiv> evicted_at order now mgr"
  shows "\<exists>s. mgr' = put_session sid s (evict_expired order now mgr) \<and> ss_last_accessed s = now \<and>
    pv_patches (ss_patched s) = (case session_log mgr sid of Some ps \<Rightarrow> if sid \<in> gone then [] else ps | None \<Rightarrow> []) \<and>
    (ss_patched s = new_patched (pv_base pv) \<or> (\<exists>s'. sm_sessions mgr sid = Some s' \<and> ss_patched s = ss_patched s')) \<and>
    view = foldl (apply_patch lower) (new_patched (pv_base pv)) (pv_patches (ss_patched s))"
proof (cases "sm_sessions (evict_expired order now mgr) sid")
  case None
  then have "sid \<in> gone \<or> sm_sessions mgr sid = None" by (auto simp: evict_expired_at gone_def evicted_at_def split: if_splits)
  then have "(case session_log mgr sid of Some ps \<Rightarrow> if sid \<in> gone then [] else ps | None \<Rightarrow> []) = []"
    by (auto simp: session_log_def split: option.split)
  with assms None show ?thesis by (auto simp: get_or_create_def Let_def session_new_def new_patched_def)
next
  case (Some s')
  then have n: "sid \<notin> gone" "sm_sessions mgr sid = Some s'" by (auto simp: evict_expired_at gone_def evicted_at_def split: if_splits)
  with assms Some log_at(1) [OF n(2)] show ?thesis
    by (intro exI [of _ "session_touch now s'"]) (auto simp: get_or_create_def Let_def session_touch_def)
qed

lemma evicted_log: "session_log (evict_expired order now mgr) = (\<lambda>s. if s \<in> evicted_at order now mgr then None else session_log mgr s)"
  by (auto simp: fun_eq_iff session_log_def evict_expired_at evicted_at_def)

text \<open>An insertion in a session: only its overlay changes, and its patches stay.\<close>

lemma session_insert:
  assumes "run_insert nd_dot trace now ident (Some sid) req st = Some (Inr r, st')"
  obtains i s pv' where "model_or_err (as_models st) ident = Inr i"
    "s = (case sm_sessions (as_sessions st) sid of Some s \<Rightarrow> s | None \<Rightarrow> session_new (pv_base (lm_patched (as_models st ! i))) now)"
    "apply_insert nd_dot (as_models st ! i) req (layers_of_insert (as_models st ! i) req)
       (trace (as_models st ! i) (ss_patched s) req (layers_of_insert (as_models st ! i) req)) (ss_patched s) =
       Some ((if_inserted r, if_mode r = ''constellation''), pv')"
    "st' = st\<lparr>as_sessions := put_session sid \<lparr>ss_patched = pv', ss_last_accessed = now\<rparr> (as_sessions st)\<rparr>"
    "if_session r = Some sid"
proof -
  from assms obtain i where i: "model_or_err (as_models st) ident = Inr i" by (auto simp: run_insert_def split: sum.splits)
  let ?m = "as_models st ! i"
  let ?s = "case sm_sessions (as_sessions st) sid of Some s \<Rightarrow> s | None \<Rightarrow> session_new (pv_base (lm_patched ?m)) now"
  have t: "ss_patched (session_touch now ?s) = ss_patched ?s" by (simp add: session_touch_def)
  from assms i obtain n c pv' where a: "apply_insert nd_dot ?m req (layers_of_insert ?m req)
       (trace ?m (ss_patched ?s) req (layers_of_insert ?m req)) (ss_patched ?s) = Some ((n, c), pv')"
    and r: "Inr r = (Inr \<lparr>if_inserted = n, if_mode = (if c then ''constellation'' else ''embedding''), if_session = Some sid\<rparr> :: route_error + inserted_fact)"
    and s: "st' = st\<lparr>as_sessions := put_session sid ((session_touch now ?s)\<lparr>ss_patched := pv'\<rparr>) (as_sessions st)\<rparr>"
    by (auto simp: run_insert_def Let_def t)
  have "(session_touch now ?s)\<lparr>ss_patched := pv'\<rparr> = \<lparr>ss_patched = pv', ss_last_accessed = now\<rparr>" by (simp add: session_touch_def)
  with that [OF i refl, of pv'] a r s show ?thesis by simp
qed

lemma step_log: "server_step lower sv e sv' \<Longrightarrow> session_log (sessions_of sv') = log_event (session_log (sessions_of sv)) e"
proof (induction rule: server_step.induct)
  case (step_fast now sid p sv r mgr)
  then obtain s where s: "sm_sessions (sessions_of sv) sid = Some s" "apply_to_session lower now sid p s (sessions_of sv) = (r, mgr)"
    by (auto simp: apply_patch_fast_def split: option.splits)
  from applied_session(1) [OF s(2)] log_at(1) [OF s(1)] show ?case
    by (simp add: log_event_def log_append_def apply_patch_parts)
next
  case (step_slow sv sid now base p ts r mgr)
  let ?s = "case sm_sessions (sessions_of sv) sid of Some s \<Rightarrow> s | None \<Rightarrow> session_new base now"
  from step_slow(2) have "apply_to_session lower now sid p ?s (sessions_of sv) = (r, mgr)" by (simp add: apply_patch_slow_def)
  from applied_session(1) [OF this] show ?case
    by (cases "sm_sessions (sessions_of sv) sid")
      (simp_all add: log_event_def log_append_def apply_patch_parts log_at session_new_def new_patched_def)
next
  case (step_remove sid name sv r mgr)
  from removed_session(1) [OF this] show ?case by (simp add: log_event_def)
next
  case (step_open order now sid pv sv view mgr)
  from opened_session [OF this] obtain s where "mgr = put_session sid s (evict_expired order now (sessions_of sv))"
    "pv_patches (ss_patched s) = (case session_log (sessions_of sv) sid of
       Some ps \<Rightarrow> if sid \<in> evicted_at order now (sessions_of sv) then [] else ps | None \<Rightarrow> [])" by blast
  then show ?case by (auto simp: log_event_def log_append_def evicted_log split: option.split)
next
  case (step_insert nd_dot trace now ident sid req sv r st)
  from session_insert [OF this] obtain i s pv' res where
    s: "s = (case sm_sessions (sessions_of sv) sid of Some s \<Rightarrow> s | None \<Rightarrow> session_new (pv_base (lm_patched (as_models (sv_state sv) ! i))) now)"
    and a: "apply_insert nd_dot (as_models (sv_state sv) ! i) req (layers_of_insert (as_models (sv_state sv) ! i) req) res
      (ss_patched s) = Some ((if_inserted r, if_mode r = ''constellation''), pv')"
    and st: "st = (sv_state sv)\<lparr>as_sessions := put_session sid \<lparr>ss_patched = pv', ss_last_accessed = now\<rparr> (sessions_of sv)\<rparr>"
    by metis
  show ?case using apply_insert_patches [OF a]
    by (cases "sm_sessions (sessions_of sv) sid")
      (simp_all add: st s log_event_def log_append_def log_at session_new_def new_patched_def)
qed (simp_all add: log_event_def)

end
