(* ===== verification/ServerProperties.thy ===== *)
theory ServerProperties
  imports ServerLaws
begin

text \<open>
  The properties of the server's sessions and routes: the sessions hold what was applied to them whatever the order of
  the tasks, no operation on one session shows in another, and the patch and insertion routes change exactly what they
  say.
\<close>

section \<open>Overlays of the sessions of a run\<close>

lemma position_less: "position P xs = Some i \<Longrightarrow> i < length xs"
  using position_Some [of P xs i] by simp

definition replayed :: "(string \<Rightarrow> string) \<Rightarrow> session_state option \<Rightarrow> bool" where
  "replayed lower so \<longleftrightarrow> (\<forall>s. so = Some s \<longrightarrow> overlay (ss_patched s) = patches_overlay lower (pv_patches (ss_patched s)))"

lemma replayed_new: "overlay (new_patched base) = patches_overlay lower (pv_patches (new_patched base))"
  by (simp add: overlay_fresh [of base lower]) (simp add: new_patched_def)

text \<open>The session an event is about, and the sessions it evicts.\<close>

definition event_session :: "session_event \<Rightarrow> string option" where
  "event_session e =
     (case e of
        FastApplied sid _ \<Rightarrow> Some sid | SlowApplied sid _ \<Rightarrow> Some sid | PatchRemoved sid _ \<Rightarrow> Some sid
      | SessionOpened sid _ \<Rightarrow> Some sid | SessionEdited sid \<Rightarrow> Some sid
      | SlowWanted _ _ \<Rightarrow> None | BaseRead \<Rightarrow> None | ModelsChanged \<Rightarrow> None)"

definition event_evicts :: "session_event \<Rightarrow> string set" where
  "event_evicts e = (case e of SessionOpened _ gone \<Rightarrow> gone | _ \<Rightarrow> {})"

text \<open>How each step changes the sessions and the models, in one place.\<close>

lemma step_sessions:
  assumes "server_step lower sv e sv'"
  shows "sm_ttl (sessions_of sv') = sm_ttl (sessions_of sv)"
    and "e \<noteq> ModelsChanged \<Longrightarrow> as_models (sv_state sv') = as_models (sv_state sv)"
    and "event_session e \<noteq> Some sid \<Longrightarrow>
       sm_sessions (sessions_of sv') sid = (if sid \<in> event_evicts e then None else sm_sessions (sessions_of sv) sid)"
proof -
  have "sm_ttl (sessions_of sv') = sm_ttl (sessions_of sv) \<and>
      (e \<noteq> ModelsChanged \<longrightarrow> as_models (sv_state sv') = as_models (sv_state sv)) \<and>
      (event_session e \<noteq> Some sid \<longrightarrow>
       sm_sessions (sessions_of sv') sid = (if sid \<in> event_evicts e then None else sm_sessions (sessions_of sv) sid))"
    using assms
  proof (induction rule: server_step.induct)
    case (step_fast now sid' p sv r mgr)
    then obtain s where "apply_to_session lower now sid' p s (sessions_of sv) = (r, mgr)"
      by (auto simp: apply_patch_fast_def split: option.splits)
    from applied_session(1) [OF this] show ?case by (simp add: event_session_def event_evicts_def)
  next
    case (step_slow sv sid' now base p ts r mgr)
    from applied_session(1) [OF step_slow(2) [unfolded apply_patch_slow_def]] show ?case
      by (simp add: event_session_def event_evicts_def)
  next
    case (step_remove sid' name sv r mgr)
    have "sm_ttl mgr = sm_ttl (sessions_of sv)"
      using step_remove by (auto simp: session_remove_patch_def Let_def split: option.splits)
    with removed_session(2) [OF step_remove, of sid] show ?case by (auto simp: event_session_def event_evicts_def)
  next
    case (step_open order now sid' pv sv view mgr)
    from opened_session [OF this] obtain s where "mgr = put_session sid' s (evict_expired order now (sessions_of sv))" by blast
    then show ?case by (simp add: event_session_def event_evicts_def evict_expired_at evicted_at_def)
  next
    case (step_insert nd_dot trace now ident sid' req sv r st)
    from session_insert [OF this] obtain s where "st = (sv_state sv)\<lparr>as_sessions := put_session sid' s (sessions_of sv)\<rparr>" by metis
    then show ?case by (simp add: event_session_def event_evicts_def)
  qed (simp_all add: event_evicts_def)
  then show "sm_ttl (sessions_of sv') = sm_ttl (sessions_of sv)"
    "e \<noteq> ModelsChanged \<Longrightarrow> as_models (sv_state sv') = as_models (sv_state sv)"
    "event_session e \<noteq> Some sid \<Longrightarrow>
       sm_sessions (sessions_of sv') sid = (if sid \<in> event_evicts e then None else sm_sessions (sessions_of sv) sid)"
    by blast+
qed

text \<open>Every event but an insertion in the session keeps its overlay the replay of its patches.\<close>

lemma step_replayed:
  assumes "server_step lower sv e sv'" "e \<noteq> SessionEdited sid" "replayed lower (sm_sessions (sessions_of sv) sid)"
  shows "replayed lower (sm_sessions (sessions_of sv') sid)"
proof (cases "event_session e = Some sid")
  case False
  from step_sessions(3) [OF assms(1) this] assms(3) show ?thesis by (simp add: replayed_def)
next
  case True
  with assms show ?thesis
  proof (induction rule: server_step.induct)
    case (step_fast now sid' p sv r mgr)
    then obtain s where s: "sm_sessions (sessions_of sv) sid' = Some s" "apply_to_session lower now sid' p s (sessions_of sv) = (r, mgr)"
      by (auto simp: apply_patch_fast_def split: option.splits)
    from applied_session(1) [OF s(2)] s(1) step_fast show ?case by (simp add: event_session_def replayed_def overlay_apply)
  next
    case (step_slow sv sid' now base p ts r mgr)
    let ?s = "case sm_sessions (sessions_of sv) sid' of Some s \<Rightarrow> s | None \<Rightarrow> session_new base now"
    have "overlay (ss_patched ?s) = patches_overlay lower (pv_patches (ss_patched ?s))"
      using step_slow replayed_new [of base lower] by (auto simp: event_session_def replayed_def session_new_def split: option.split)
    with applied_session(1) [OF step_slow(2) [unfolded apply_patch_slow_def]] step_slow show ?case
      by (simp add: event_session_def replayed_def overlay_apply)
  next
    case (step_remove sid' name sv r mgr)
    then show ?case
      by (auto simp: event_session_def replayed_def session_remove_patch_def Let_def
          intro!: overlay_remove position_less split: option.splits)
  next
    case (step_open order now sid' pv sv view mgr)
    from opened_session [OF step_open(1)] obtain s where s: "mgr = put_session sid' s (evict_expired order now (sessions_of sv))"
      "ss_patched s = new_patched (pv_base pv) \<or> (\<exists>s'. sm_sessions (sessions_of sv) sid' = Some s' \<and> ss_patched s = ss_patched s')" by blast
    from s step_open replayed_new [of "pv_base pv" lower] show ?case by (auto simp: event_session_def replayed_def)
  qed (simp_all add: event_session_def)
qed

lemma run_parts:
  assumes "server_run lower sv tr sv'" "server_start sv"
  shows "session_log (sessions_of sv') = foldl log_event Map.empty tr"
    and "slow_wanted tr = slow_applied tr + slow_pending sv'"
    and "SessionEdited sid \<notin> set tr \<Longrightarrow> replayed lower (sm_sessions (sessions_of sv') sid)"
proof -
  have "session_log (sessions_of sv') = foldl log_event Map.empty tr \<and> slow_wanted tr = slow_applied tr + slow_pending sv' \<and>
      (SessionEdited sid \<notin> set tr \<longrightarrow> replayed lower (sm_sessions (sessions_of sv') sid))"
    using assms
  proof (induction rule: server_run.induct)
    case (run_start sv)
    then show ?case
      by (simp add: server_start_def session_log_def [abs_def] slow_wanted_def slow_applied_def slow_pending_def replayed_def map_filter_simps)
  next
    case (run_step sv tr sv' e sv'')
    then have l: "session_log (sessions_of sv') = foldl log_event Map.empty tr"
      and w: "slow_wanted tr = slow_applied tr + slow_pending sv'"
      and r: "SessionEdited sid \<notin> set tr \<Longrightarrow> replayed lower (sm_sessions (sessions_of sv') sid)" by simp_all
    have "slow_wanted (tr @ [e]) = slow_applied (tr @ [e]) + slow_pending sv''"
      using run_step(2) w
      by (cases rule: server_step.cases)
        (auto simp: slow_wanted_def slow_applied_def slow_pending_def List.map_filter_def with_sessions_def)
    moreover have "SessionEdited sid \<notin> set (tr @ [e]) \<longrightarrow> replayed lower (sm_sessions (sessions_of sv'') sid)"
      using step_replayed [OF run_step(2)] r by auto
    ultimately show ?case using step_log [OF run_step(2)] l by simp
  qed
  then show "session_log (sessions_of sv') = foldl log_event Map.empty tr" "slow_wanted tr = slow_applied tr + slow_pending sv'"
    "SessionEdited sid \<notin> set tr \<Longrightarrow> replayed lower (sm_sessions (sessions_of sv') sid)" by blast+
qed

text \<open>What an opening evicts.\<close>

lemma opened_evicts:
  assumes "get_or_create lower order now sid' pv mgr' = (view, mgr)"
  defines "gone \<equiv> {sid. sm_sessions mgr' sid \<noteq> None \<and> sm_sessions mgr sid = None}"
  shows "card gone \<le> 10 \<and> (\<forall>sid \<in> gone. \<exists>s. sm_sessions mgr' sid = Some s \<and> sm_ttl mgr' < now - ss_last_accessed s)"
proof -
  from opened_session [OF assms(1)] obtain s where m: "mgr = put_session sid' s (evict_expired order now mgr')" by blast
  let ?out = "take 10 (filter (session_expired now mgr') order)"
  have gone: "gone \<subseteq> set ?out" using m by (auto simp: gone_def evict_expired_at split: if_splits)
  then have "card gone \<le> length ?out" using card_mono [OF _ gone] card_length [of ?out] by simp
  then have "card gone \<le> 10" by simp
  moreover have "\<exists>s. sm_sessions mgr' sid = Some s \<and> sm_ttl mgr' < now - ss_last_accessed s" if "sid \<in> gone" for sid
    using in_set_takeD [OF subsetD [OF gone that]] by (auto simp: session_expired_def split: option.splits)
  ultimately show ?thesis by blast
qed

section \<open>Properties\<close>

text \<open>
  C9. After any interleaving of the server's tasks the patches of each session are those its events list: every
  patch that was accepted on the slow way is applied exactly once or still pending, none is lost when two tasks create
  the session at the same time, and a removal takes the first patch of that name. As long as nothing was inserted into
  the session directly, its overlay is that of its patches applied in order to a clean overlay, and a request that opens
  the session before it expires reads the same overlay.
\<close>

theorem sessions_hold_patches:
  assumes "server_run lower sv tr sv'" "server_start sv"
  shows "session_log (sessions_of sv') = foldl log_event Map.empty tr \<and>
    slow_wanted tr = slow_applied tr + slow_pending sv' \<and>
    (\<forall>sid s. SessionEdited sid \<notin> set tr \<and> sm_sessions (sessions_of sv') sid = Some s \<longrightarrow>
       overlay (ss_patched s) = patches_overlay lower (pv_patches (ss_patched s)) \<and>
       (\<forall>now order pv. session_expired now (sessions_of sv') sid \<or>
          overlay (fst (get_or_create lower order now sid pv (sessions_of sv'))) = overlay (ss_patched s)))"
proof (intro conjI allI impI)
  show "session_log (sessions_of sv') = foldl log_event Map.empty tr" "slow_wanted tr = slow_applied tr + slow_pending sv'"
    using run_parts(1,2) [OF assms] by simp_all
  fix sid s assume h: "SessionEdited sid \<notin> set tr \<and> sm_sessions (sessions_of sv') sid = Some s"
  then show o: "overlay (ss_patched s) = patches_overlay lower (pv_patches (ss_patched s))"
    using run_parts(3) [OF assms, of sid] by (simp add: replayed_def)
  fix now order pv
  have "overlay (fst (get_or_create lower order now sid pv (sessions_of sv'))) = overlay (ss_patched s)"
    if "\<not> session_expired now (sessions_of sv') sid"
    using evicted_only_expired [OF that, of order] h
    by (simp add: get_or_create_def session_touch_def overlay_replay o)
  then show "session_expired now (sessions_of sv') sid \<or>
      overlay (fst (get_or_create lower order now sid pv (sessions_of sv'))) = overlay (ss_patched s)" by blast
qed

text \<open>Two tasks find the session missing, and the second one to ask is the first to create it.\<close>

definition race_patch :: "string \<Rightarrow> vindex_patch" where
  "race_patch name =
     \<lparr>vp_version = 1, vp_base_model = ''m'', vp_base_checksum = None, vp_created_at = [], vp_description = Some name,
      vp_author = None, vp_tags = [], vp_operations = [OpDelete 0 0 None]\<rparr>"

definition small_model :: loaded_model where
  "small_model =
     \<lparr>lm_id = ''m'', lm_family = ''x'', lm_num_layers = 1, lm_bands = None,
      lm_patched = new_patched (new_index [Some \<lparr>gm_cols = 1, gm_rows = [[0], [0]]\<rparr>] [Some [None, None]] 1 1),
      lm_embeddings = [[0x3F800000]], lm_hidden = 1, lm_embed_scale = 0x3F800000,
      lm_encode = (\<lambda>t. Some (if t = [] then [] else [0]))\<rparr>"

definition demo_server :: server where
  "demo_server = \<lparr>sv_state = \<lparr>as_models = [small_model], as_sessions = manager_new 0\<rparr>, sv_tasks = {#}\<rparr>"

definition demo_trace :: "session_event list" where
  "demo_trace = [SlowWanted ''s'' (race_patch ''a''), SlowWanted ''s'' (race_patch ''b''), BaseRead, BaseRead,
     SlowApplied ''s'' (race_patch ''b''), SlowApplied ''s'' (race_patch ''a'')]"

lemma demo_start: "server_start demo_server"
  by (simp add: server_start_def demo_server_def manager_new_def)

lemma demo_race: "\<exists>sv'. server_run (\<lambda>s. s) demo_server demo_trace sv'"
proof -
  let ?a = "race_patch ''a''" and ?b = "race_patch ''b''" and ?base = "pv_base (lm_patched small_model)"
  let ?sv = "\<lambda>ts. demo_server\<lparr>sv_tasks := ts\<rparr>"
  have n: "apply_patch_fast (\<lambda>s. s) now ''s'' p (sessions_of demo_server) = None" for now p
    by (simp add: apply_patch_fast_def demo_server_def manager_new_def)
  have m: "as_models (sv_state demo_server) = [small_model]" by (simp add: demo_server_def)
  have t: "sv_tasks demo_server = {#}" by (simp add: demo_server_def)
  have 1: "server_run (\<lambda>s. s) demo_server [SlowWanted ''s'' ?a] (?sv {#WantsBase ''s'' 1 0 ?a#})"
    using run_step [OF run_start step_wanted [OF n, of ?a 1 0]] by (simp add: t)
  have 2: "server_run (\<lambda>s. s) demo_server [SlowWanted ''s'' ?a, SlowWanted ''s'' ?b]
      (?sv {#WantsBase ''s'' 2 0 ?b, WantsBase ''s'' 1 0 ?a#})"
    using run_step [OF 1 step_wanted [of "\<lambda>s. s" 2 "''s''" ?b _ 0]] n by simp
  have 3: "server_run (\<lambda>s. s) demo_server [SlowWanted ''s'' ?a, SlowWanted ''s'' ?b, BaseRead]
      (?sv {#HasBase ''s'' 2 ?base ?b, WantsBase ''s'' 1 0 ?a#})"
    using run_step [OF 2 step_base [of _ "''s''" 2 0 ?b "{#WantsBase ''s'' 1 0 ?a#}"]] by (simp add: m)
  have 4: "server_run (\<lambda>s. s) demo_server [SlowWanted ''s'' ?a, SlowWanted ''s'' ?b, BaseRead, BaseRead]
      (?sv {#HasBase ''s'' 1 ?base ?a, HasBase ''s'' 2 ?base ?b#})"
    using run_step [OF 3 step_base [of _ "''s''" 1 0 ?a "{#HasBase ''s'' 2 ?base ?b#}"]] by (simp add: m add_mset_commute)
  obtain r mgr where r: "apply_patch_slow (\<lambda>s. s) 2 ''s'' ?base ?b (sessions_of demo_server) = (r, mgr)" by fastforce
  have 5: "server_run (\<lambda>s. s) demo_server [SlowWanted ''s'' ?a, SlowWanted ''s'' ?b, BaseRead, BaseRead, SlowApplied ''s'' ?b]
      (with_sessions mgr (?sv {#HasBase ''s'' 1 ?base ?a#}))"
    using run_step [OF 4 step_slow [of _ "''s''" 2 ?base ?b "{#HasBase ''s'' 1 ?base ?a#}" "\<lambda>s. s" r mgr]] r
    by (simp add: add_mset_commute)
  obtain r' mgr' where r': "apply_patch_slow (\<lambda>s. s) 1 ''s'' ?base ?a mgr = (r', mgr')" by fastforce
  show ?thesis
    using run_step [OF 5 step_slow [of _ "''s''" 1 ?base ?a "{#}" "\<lambda>s. s" r' mgr']] r' by (auto simp: demo_trace_def)
qed

theorem sessions_hold_patches_witness:
  "\<exists>sv' s. server_run (\<lambda>s. s) demo_server demo_trace sv' \<and> sm_sessions (sessions_of sv') ''s'' = Some s \<and>
     pv_patches (ss_patched s) = [race_patch ''b'', race_patch ''a''] \<and> slow_pending sv' = {#} \<and>
     overlay (ss_patched s) = patches_overlay (\<lambda>s. s) [race_patch ''b'', race_patch ''a'']"
proof -
  obtain sv' where r: "server_run (\<lambda>s. s) demo_server demo_trace sv'" using demo_race by blast
  note h = sessions_hold_patches [OF r demo_start, THEN conjunct1]
    and h2 = sessions_hold_patches [OF r demo_start, THEN conjunct2]
  have "session_log (sessions_of sv') ''s'' = Some [race_patch ''b'', race_patch ''a'']"
    unfolding h by (simp add: demo_trace_def log_event_def log_append_def)
  then obtain s where s: "sm_sessions (sessions_of sv') ''s'' = Some s" "pv_patches (ss_patched s) = [race_patch ''b'', race_patch ''a'']"
    by (auto simp: session_log_def)
  have "slow_wanted demo_trace = slow_applied demo_trace"
    by (simp add: demo_trace_def slow_wanted_def slow_applied_def map_filter_simps add_mset_commute)
  with h2 have "slow_pending sv' = {#}" by simp
  moreover have "overlay (ss_patched s) = patches_overlay (\<lambda>s. s) (pv_patches (ss_patched s))"
    using h2 s(1) by (simp add: demo_trace_def)
  ultimately show ?thesis using r s by auto
qed

text \<open>
  C10. Steps on other sessions, whatever they are, leave a session as it is, unless an opening evicts it: then it
  had not been used for longer than the limit, and at most ten sessions go at once. Only steps on the
  models change the models.
\<close>

theorem sessions_isolated:
  assumes "server_run lower sv tr sv'"
  shows "((\<forall>e \<in> set tr. event_session e \<noteq> Some sid \<and> sid \<notin> event_evicts e) \<longrightarrow>
       sm_sessions (sessions_of sv') sid = sm_sessions (sessions_of sv) sid) \<and>
    (ModelsChanged \<notin> set tr \<longrightarrow> as_models (sv_state sv') = as_models (sv_state sv)) \<and>
    (\<forall>order now sid' pv view mgr. get_or_create lower order now sid' pv (sessions_of sv') = (view, mgr) \<longrightarrow>
       (let gone = {sid. sm_sessions (sessions_of sv') sid \<noteq> None \<and> sm_sessions mgr sid = None}
        in card gone \<le> 10 \<and> (\<forall>sid \<in> gone. \<exists>s. sm_sessions (sessions_of sv') sid = Some s \<and>
             sm_ttl (sessions_of sv) < now - ss_last_accessed s)))"
proof -
  have inv: "((\<forall>e \<in> set tr. event_session e \<noteq> Some sid \<and> sid \<notin> event_evicts e) \<longrightarrow>
       sm_sessions (sessions_of sv') sid = sm_sessions (sessions_of sv) sid) \<and>
      (ModelsChanged \<notin> set tr \<longrightarrow> as_models (sv_state sv') = as_models (sv_state sv)) \<and>
      sm_ttl (sessions_of sv') = sm_ttl (sessions_of sv)"
    using assms
  proof (induction rule: server_run.induct)
    case (run_step sv tr sv' e sv'')
    from step_sessions(1,2) [OF run_step(2)] step_sessions(3) [OF run_step(2), of sid] run_step(3) show ?case by auto
  qed simp
  moreover have "let gone = {sid. sm_sessions (sessions_of sv') sid \<noteq> None \<and> sm_sessions mgr sid = None}
        in card gone \<le> 10 \<and> (\<forall>sid \<in> gone. \<exists>s. sm_sessions (sessions_of sv') sid = Some s \<and>
             sm_ttl (sessions_of sv) < now - ss_last_accessed s)"
    if "get_or_create lower order now sid' pv (sessions_of sv') = (view, mgr)" for order now sid' pv view mgr
    using inv opened_evicts [OF that] by simp
  ultimately show ?thesis by blast
qed

text \<open>Another session is untouched by the race, and opening it an hour and a nanosecond later evicts the one of the race.\<close>

theorem sessions_isolated_witness:
  "\<exists>sv'. server_run (\<lambda>s. s) demo_server demo_trace sv' \<and>
     sm_sessions (sessions_of sv') ''t'' = None \<and> as_models (sv_state sv') = [small_model] \<and>
     (\<exists>view mgr. get_or_create (\<lambda>s. s) [''s''] (3600 * 10 ^ 9 + 2) ''t'' (lm_patched small_model) (sessions_of sv') = (view, mgr) \<and>
        card {sid. sm_sessions (sessions_of sv') sid \<noteq> None \<and> sm_sessions mgr sid = None} \<le> 10)"
proof -
  obtain sv' where r: "server_run (\<lambda>s. s) demo_server demo_trace sv'" using demo_race by blast
  obtain view mgr where o: "get_or_create (\<lambda>s. s) [''s''] (3600 * 10 ^ 9 + 2) ''t'' (lm_patched small_model) (sessions_of sv') = (view, mgr)"
    by fastforce
  have "sm_sessions (sessions_of sv') ''t'' = sm_sessions (sessions_of demo_server) ''t''"
    using sessions_isolated [OF r, THEN conjunct1, of "''t''"] by (auto simp: demo_trace_def event_session_def event_evicts_def)
  moreover have "as_models (sv_state sv') = as_models (sv_state demo_server)"
    using sessions_isolated [OF r] by (simp add: demo_trace_def)
  moreover have "card {sid. sm_sessions (sessions_of sv') sid \<noteq> None \<and> sm_sessions mgr sid = None} \<le> 10"
    using sessions_isolated [OF r] o by (simp add: Let_def)
  ultimately show ?thesis using r o by (auto simp: demo_server_def manager_new_def)
qed

section \<open>Routes\<close>









section \<open>The patch route\<close>







end
