(* ===== verification/Spec2Isabelle.thy ===== *)
theory Spec2Isabelle
  imports LqlFrontEnd SchemaProperties GraphProperties GridProperties VindexProperties RemoteProperties ServerProperties
begin

text \<open>
  Verification of LARQL.

  LARQL is a Rust workspace that treats the weights of a transformer as a database: the feed-forward layers
  are extracted into a \<^emph>\<open>vindex\<close> (a vector index with metadata for each feature), a query language (LQL)
  browses and edits it, edits are patches over an immutable base, facts are exported as a knowledge graph, and
  layers are served by several servers behind a router. This library models the parts of it that are data
  structures, protocols, languages and file formats. What is numeric (tensor kernels, inference) and what is pure
  input and output is left out; it is listed at the end.

  Conventions. A Rust \<open>String\<close> or \<open>&[u8]\<close> is the list of its bytes, a \<^typ>\<open>string\<close> (the schema
  component alone works on code points, as the code does there). Machine integers are words where they are stored
  or can wrap, and natural numbers where they count. Floats are IEEE bit patterns (\<open>Rust_Num\<close>,
  \<open>Rust_Float\<close>, \<open>Rust_FloatSum\<close> and \<open>Half\<close> define the conversions, comparisons, products,
  quotients, sums and roots the code uses). A \<open>Result\<close> is a sum with the error on the left, a panic is
  \<^const>\<open>None\<close> or an explicit branch. A \<open>HashMap\<close> that is only looked up is a function to options; where
  the order of its iteration can be observed it is an association list, or the order is an argument. Code of other
  packages (a tokenizer, \<open>serde_json\<close> on numbers, Unicode case tables, BLAS) is an argument of the
  definitions that use it.

  \<^bold>\<open>Shared\<close> (\<open>Prelude\<close>, \<open>Utf8\<close>, \<open>Rust_Num\<close>, \<open>Rust_Float\<close>, \<open>Rust_FloatSum\<close>,
  \<open>Rust_Str\<close>, \<open>Bytes\<close>). Results with errors, lists and cursors, the collections of rules; UTF-8 validity
  and lossy decoding; floats; methods of \<open>str\<close>; little-endian integers.

  \<^bold>\<open>LQL\<close> (\<open>crates/larql-lql/src\<close>). \<open>LqlAst\<close> is \<open>ast.rs\<close>; \<open>LqlToken\<close> and
  \<open>LqlLexer\<close> are \<open>lexer.rs\<close> over bytes; \<open>LqlParserCore\<close> and \<open>LqlParser\<close> are the
  modules of \<open>parser/\<close>, with a parser method as an action on the parser's state. \<open>LqlParserLaws\<close> and
  \<open>LqlWellFormed\<close> show what every action keeps and what a parsed statement looks like, \<open>LqlPrint\<close>,
  \<open>LqlParserRoundtrip\<close>, \<open>LqlClauses\<close> and \<open>LqlStatements\<close> compare the parser with a printer,
  \<open>LqlLexerProps\<close> and \<open>LqlLexerRoundtrip\<close> do the same for the lexer, and \<open>LqlFrontEnd\<close> joins the
  two. The loops of the parser have fuel, one more than the tokens that are left; since an iteration consumes a
  token it never runs out (\<open>LqlFrontEnd.parse_returns\<close>).

  \<^bold>\<open>Constrained decoding\<close> (\<open>crates/larql-server/src/routes/openai/schema\<close>). \<open>SchemaAst\<close>
  is the schema type, \<open>SchemaParser\<close> the reader of JSON Schema documents, \<open>SchemaFsm\<close> the character
  machine, \<open>SchemaMask\<close> the closure that masks tokens with its replay cache, \<open>SchemaTools\<close> the tool
  choice of a chat request and the reading of the answer. \<open>SchemaGrammar\<close> is the abstract specification: the
  texts a schema allows. \<open>SchemaInvariant\<close> gives the shape of the machine's stack, \<open>SchemaLanguage\<close>
  shows that the machine accepts exactly the grammar (a step is a derivative), and \<open>SchemaProperties\<close>
  carries this through the mask to the generated text.

  \<^bold>\<open>Knowledge graph\<close> (\<open>crates/larql-core/src\<close>). \<open>GraphCore\<close> is \<open>core/\<close>: edges, the
  four indexes, the node cache and every operation. \<open>GraphLaws\<close> has the invariant and the map from triples to
  edges that a graph stands for. \<open>GraphAlgo\<close> is \<open>algo/\<close>, with \<open>GraphTraversal\<close>,
  \<open>GraphComponents\<close> and \<open>GraphMerge\<close> for its laws; its loops over a work list have fuel, one more
  than the edges and nodes that can be pushed, and are shown to return. \<open>GraphPacked\<close> and
  \<open>GraphPackedLaws\<close> are the binary format of \<open>io/packed.rs\<close>. \<open>GraphProperties\<close> states the results.

  \<^bold>\<open>Router\<close> (\<open>crates/larql-router/src\<close>). \<open>GridState\<close> is \<open>grid/\<close>: the servers, the
  tables derived from them, routing, replication and coverage. \<open>GridService\<close> is the task of a server's
  stream, the admin calls and the rebalancer, composed into a step relation whose steps are what happens while the
  grid's lock is held once. \<open>GridLaws\<close>, \<open>GridInvariant\<close> and \<open>GridReplication\<close> have the
  invariant of the reachable routers and what the queries and ticks do in it, \<open>GridProperties\<close> states the
  results.

  \<^bold>\<open>Vindex\<close> (\<open>crates/larql-vindex/src\<close>). \<open>VindexFormat\<close> is the patch format with its base64
  codec; \<open>VindexMeta\<close> and \<open>VindexMetaLaws\<close> the file of metadata with its writer and two readers;
  \<open>VindexTopK\<close> the bounded heap that selects the best scores; \<open>VindexIndex\<close> the base index;
  \<open>VindexKnn\<close> and \<open>VindexKnnFile\<close> the retrieval store and its files; \<open>VindexOverlay\<close> the patches over a base, with its queries, its cache
  of gate vectors, walks and baking; \<open>VindexOverlayLaws\<close>, \<open>VindexOverlayCache\<close>,
  \<open>VindexOverlayTop\<close> and \<open>VindexBake\<close> their laws; \<open>Vindexfile\<close> the declarative builds;
  \<open>StorageEngine\<close> the epochs and compaction cycles. \<open>Half\<close> is the half floats of
  \<open>crates/larql-models\<close>. \<open>VindexProperties\<close> states the results.


  \<^bold>\<open>Remote feed-forward layers\<close> (\<open>crates/larql-inference/src/ffn/remote\<close>,
  \<open>crates/larql-server/src/routes/walk_ffn\<close>, \<open>crates/larql-router/src\<close>). \<open>FfnWire\<close> is the binary
  protocol with the client's codec (\<open>codec.rs\<close>), the server's (\<open>binary.rs\<close>) and the router's reading of a
  header (\<open>shards.rs\<close>); \<open>FfnQ8k\<close> the protocol of quantised activations (\<open>q8k_wire.rs\<close>).
  \<open>FfnServer\<close> is the server's binary handler, with the negotiation of the format (\<open>wire.rs\<close>), validation,
  the loop over the layers and the cache of outputs (\<open>ffn_l2_cache.rs\<close>), and the client's calls
  (\<open>http.rs\<close>); the forward pass of a layer and the selection of its features are the fields of a record.
  \<open>RouterDispatch\<close> is what the router does with a request: static shards, the resolution of layers and experts
  through the grid, the sub-requests of a fan-out, the merging of replies and the hedging (\<open>shards.rs\<close>,
  \<open>dispatch.rs\<close>, \<open>http.rs\<close>). \<open>FfnSharded\<close> is the client's own distribution over servers
  (\<open>sharded.rs\<close>) and the router's proxy as a client sees it;
  \<open>FfnPredispatch\<close> the dispatch of all layers at once, quantised or in floats, with the server's handler of
  quantised activations (\<open>q8k.rs\<close>). All three handlers refuse a body above \<open>body_limit\<close>, the 64 MiB they give to
  \<open>to_bytes\<close>. \<open>FfnWireLaws\<close>, \<open>FfnRemote\<close> and \<open>RouterDispatchLaws\<close> have the round trips of the three formats,
  the answer for a layer with the cache as it is when the request comes, what the entries of a cache are after any
  requests to models that change with their patches (\<open>l2_reachable\<close>, which assumes nothing about how one model
  resembles the next), and what a plan of sub-requests covers; \<open>RemoteProperties\<close> states the results.

  \<^bold>\<open>Sessions and knowledge routes\<close> (\<open>crates/larql-server/src\<close>). \<open>ServerSessions\<close> is the session
  manager (\<open>session.rs\<close>): a map from session identifiers to overlays, with eviction, patches and their removal by
  name; the fast and the slow part of \<open>apply_patch\<close> are operations of their own, as the lock is released between
  them. \<open>ServerModel\<close> has the layer bands (\<open>compliance.rs\<close>, \<open>band_utils.rs\<close>), the lookup of a model
  (\<open>state.rs\<close>) and the embedding of a text; \<open>ServerRoutes\<close> the patch routes (\<open>patches.rs\<close>), the
  insertion of a fact (\<open>insert.rs\<close>) and the choice of the overlay for inference (\<open>infer.rs\<close>). The reading of a
  patch from a URL, the tokenizer, the dot product of the array library and the residuals of the forward pass are
  arguments. \<open>ServerLaws\<close> has the steps of the tasks as a labelled relation and the laws of the insertion;
  \<open>ServerProperties\<close> states that under every interleaving the sessions hold what was applied to them, that they
  are isolated, and what the routes change.
  \<^bold>\<open>How the parts interact\<close>. The text of a statement goes through the lexer into the parser
  (\<open>parse_source\<close>). A schema document goes through the schema parser into the machine, the mask drives the
  machine over the surfaces of tokens, and the tools build the document and read the answer. Graphs are built by
  the operations and written to and read from the packed format. Streams, admin calls and the rebalancer share
  one grid. Patches are decoded, applied to an overlay, queried through the index's scoring and selection, baked
  into a new index and saved as metadata; a Vindexfile does all of it in one go, and the storage engine wraps an
  overlay. A client's vector is encoded, resolved by the router through the grid of the servers that are registered
  at the moment, decoded, validated and run (or answered from the cache of outputs) by one of them, and decoded again
  (\<open>RemoteProperties.routed_call\<close>). The interfaces between them are locales (the parser's token loops, the mask's replay, maps with
  several indexes, the hits of a base index, the float formats of the wire and others), each interpreted on the model's own definitions.

  \<^bold>\<open>Not modelled\<close>. PageRank (a fixed point of doubles) and the shortest path (a heap ordered by doubles)
  of the graph algorithms, the JSON, CSV and MessagePack files of graphs and the statistics of a graph (sums of
  doubles). The extraction of graphs and of vindexes from model weights, inference, the compute kernels and their
  GPU back ends, the attention-cache engines and the quantised block codecs: their meaning is numeric accuracy,
  and most of them call code outside the repository. Of the base index the approximate search (HNSW), the warm and
  decode caches and the batched and GPU dispatch; of the storage engine the numerical solver. The LQL executor
  and its REPL, the command line and the Python bindings, which are glue over the libraries. Of the
  feed-forward server the JSON branch, the features-only mode and the numerics of a layer. The other HTTP handlers
  (DESCRIBE with its cache, walks, streams, embeddings, chat and completions),
  the transport, authentication, metrics, timers and probes of the servers, which are input and output over packages
  outside the repository.
\<close>

end
